(* ===== verification/Prelude.thy ===== *)
theory Prelude
  imports Main "HOL-Library.Word"
begin

section \<open>Shared vocabulary of the development\<close>

text \<open>
  This theory holds what every component uses: the names of the machine types, the arithmetic of
  Rust's fixed-width integers, the byte order of the wire, results and their sequencing, and the
  association lists that stand for the hash maps of the program, with the interface (a locale)
  through which the components reason about them.

  Bytes are \<open>8 word\<close>, since the wire format is bitwise. The wider unsigned integers (\<open>u32\<close>,
  \<open>u64\<close>, \<open>usize\<close>) are \<open>nat\<close> with every wrap-around, saturation or check of the source
  written out; \<open>i32\<close> is \<open>int\<close> with the range check of the \<open>checked_\<close> operations.
  \<open>usize\<close> is 64 bits wide.
\<close>

unbundle bit_operations_syntax

type_synonym byte = "8 word"
type_synonym bytes = "byte list"
type_synonym u16 = nat
type_synonym u32 = nat
type_synonym u64 = nat
type_synonym usize = nat
type_synonym i32 = int

text \<open>A Python object held by the state: only its identity matters to the program.\<close>
type_synonym pyobj = nat

named_theorems fc_simps \<open>evaluation of the flow-control operations\<close>
named_theorems wire_simps \<open>evaluation of the frame encoders and loaders\<close>
named_theorems conn_simps \<open>evaluation of the connection-state helpers\<close>
named_theorems frame_rules \<open>what an operation leaves unchanged\<close>

subsection \<open>Unsigned arithmetic\<close>

definition u32_max :: nat where "u32_max = 2 ^ 32 - 1"
definition usize_max :: nat where "usize_max = 2 ^ 64 - 1"

text \<open>Release builds wrap on overflow (\<open>overflow-checks\<close> is off in the release profile).\<close>

definition u32_add :: "u32 \<Rightarrow> u32 \<Rightarrow> u32" where
  "u32_add a b = (a + b) mod 2 ^ 32"

definition usize_add :: "usize \<Rightarrow> usize \<Rightarrow> usize" where
  "usize_add a b = (a + b) mod 2 ^ 64"

definition usize_sub :: "usize \<Rightarrow> usize \<Rightarrow> usize" where
  "usize_sub a b = (if b \<le> a then a - b else a + 2 ^ 64 - b)"

text \<open>The \<open>saturating_\<close> and \<open>checked_\<close> operations; on \<open>nat\<close>, \<open>-\<close> saturates.\<close>

definition usize_saturating_add :: "usize \<Rightarrow> usize \<Rightarrow> usize" where
  "usize_saturating_add a b = min (a + b) usize_max"

definition usize_checked_add :: "usize \<Rightarrow> usize \<Rightarrow> usize option" where
  "usize_checked_add a b = (if a + b \<le> usize_max then Some (a + b) else None)"

definition saturating_sub :: "nat \<Rightarrow> nat \<Rightarrow> nat" where
  "saturating_sub a b = a - b"

definition u64_checked_sub :: "u64 \<Rightarrow> u64 \<Rightarrow> u64 option" where
  "u64_checked_sub a b = (if b \<le> a then Some (a - b) else None)"

lemma u32_add_exact [simp]: "a + b < 2 ^ 32 \<Longrightarrow> u32_add a b = a + b"
  by (simp add: u32_add_def)

lemma usize_add_exact [simp]: "a + b < 2 ^ 64 \<Longrightarrow> usize_add a b = a + b"
  by (simp add: usize_add_def)

lemma usize_sub_exact [simp]: "b \<le> a \<Longrightarrow> usize_sub a b = a - b"
  by (simp add: usize_sub_def)

lemma usize_saturating_add_le [simp]: "usize_saturating_add a b \<le> usize_max"
  by (simp add: usize_saturating_add_def)

lemma usize_saturating_add_exact [simp]:
  "a + b \<le> usize_max \<Longrightarrow> usize_saturating_add a b = a + b"
  by (simp add: usize_saturating_add_def)

subsection \<open>Signed 32-bit arithmetic\<close>

definition in_i32 :: "int \<Rightarrow> bool" where
  "in_i32 v \<longleftrightarrow> - (2 ^ 31) \<le> v \<and> v < 2 ^ 31"

text \<open>\<open>u32 as i32\<close>: the same 32 bits, read as two's complement.\<close>

definition as_i32 :: "u32 \<Rightarrow> i32" where
  "as_i32 n = (if n < 2 ^ 31 then int n else int n - 2 ^ 32)"

text \<open>\<open>i32 as u32\<close>.\<close>

definition i32_as_u32 :: "i32 \<Rightarrow> u32" where
  "i32_as_u32 v = nat (v mod 2 ^ 32)"

definition i32_wrap :: "int \<Rightarrow> i32" where
  "i32_wrap v = (v + 2 ^ 31) mod 2 ^ 32 - 2 ^ 31"

definition i32_checked_sub :: "i32 \<Rightarrow> i32 \<Rightarrow> i32 option" where
  "i32_checked_sub a b = (if in_i32 (a - b) then Some (a - b) else None)"

definition i32_checked_add :: "i32 \<Rightarrow> i32 \<Rightarrow> i32 option" where
  "i32_checked_add a b = (if in_i32 (a + b) then Some (a + b) else None)"

definition i32_overflowing_add :: "i32 \<Rightarrow> i32 \<Rightarrow> i32 \<times> bool" where
  "i32_overflowing_add a b = (i32_wrap (a + b), \<not> in_i32 (a + b))"

text \<open>Rust's \<open>/\<close> truncates towards zero.\<close>

definition i32_div :: "i32 \<Rightarrow> i32 \<Rightarrow> i32" where
  "i32_div a b = sgn a * sgn b * (\<bar>a\<bar> div \<bar>b\<bar>)"

lemma as_i32_small [simp]: "n < 2 ^ 31 \<Longrightarrow> as_i32 n = int n"
  by (simp add: as_i32_def)

lemma as_i32_in_range: "n < 2 ^ 32 \<Longrightarrow> in_i32 (as_i32 n)"
  by (auto simp: as_i32_def in_i32_def)

lemma i32_wrap_id [simp]: "in_i32 v \<Longrightarrow> i32_wrap v = v"
  by (simp add: i32_wrap_def in_i32_def)

lemma i32_wrap_in_range: "in_i32 (i32_wrap v)"
proof -
  have "0 \<le> (v + 2 ^ 31) mod 2 ^ 32" and "(v + 2 ^ 31) mod 2 ^ 32 < 2 ^ 32"
    by simp_all
  then show ?thesis by (simp add: i32_wrap_def in_i32_def)
qed

lemma i32_as_u32_nonneg [simp]: "0 \<le> v \<Longrightarrow> v < 2 ^ 31 \<Longrightarrow> i32_as_u32 v = nat v"
  by (simp add: i32_as_u32_def)

lemma i32_div_pos: "0 \<le> a \<Longrightarrow> 0 < b \<Longrightarrow> i32_div a b = a div b"
  by (cases "a = 0") (simp_all add: i32_div_def)

subsection \<open>Network byte order\<close>

text \<open>\<open>put_u32\<close>, \<open>put_u16\<close> and \<open>put_uint(_, 3)\<close> of \<open>bytes::BufMut\<close>, and the
  reads of the source (\<open>u32::from_be_bytes\<close>, the macro \<open>unpack_octets_4\<close>).\<close>

definition put_u16 :: "u16 \<Rightarrow> bytes" where
  "put_u16 n = [word_of_nat (n div 2 ^ 8), word_of_nat n]"

definition put_u24 :: "nat \<Rightarrow> bytes" where
  "put_u24 n = [word_of_nat (n div 2 ^ 16), word_of_nat (n div 2 ^ 8), word_of_nat n]"

definition put_u32 :: "u32 \<Rightarrow> bytes" where
  "put_u32 n = [word_of_nat (n div 2 ^ 24), word_of_nat (n div 2 ^ 16),
                word_of_nat (n div 2 ^ 8), word_of_nat n]"

definition be24 :: "byte \<Rightarrow> byte \<Rightarrow> byte \<Rightarrow> nat" where
  "be24 a b c = unat a * 2 ^ 16 + unat b * 2 ^ 8 + unat c"

definition unpack_octets_4 :: "bytes \<Rightarrow> nat \<Rightarrow> u32" where
  "unpack_octets_4 buf off =
     unat (buf ! off) * 2 ^ 24 + unat (buf ! (off + 1)) * 2 ^ 16
     + unat (buf ! (off + 2)) * 2 ^ 8 + unat (buf ! (off + 3))"

lemma length_put [simp]:
  "length (put_u16 n) = 2" "length (put_u24 n) = 3" "length (put_u32 n) = 4"
  by (simp_all add: put_u16_def put_u24_def put_u32_def)

lemma unat_byte_of_nat [simp]: "unat (word_of_nat n :: byte) = n mod 256"
  by (simp add: unat_of_nat)

lemma unat_byte_less [simp]: "unat (b :: byte) < 256"
proof -
  have "unat b < 2 ^ LENGTH(8)" by (rule unsigned_less)
  then show ?thesis by simp
qed

lemma div_256_256: "n div 65536 = n div 256 div 256" "n div 16777216 = n div 256 div 256 div 256"
  for n :: nat
  by (simp_all add: div_mult2_eq [symmetric])

lemma horner3: "p * 256 + x = n \<Longrightarrow> q * 256 + y = p \<Longrightarrow> q * 65536 + y * 256 + x = n"
  for n :: nat
  by simp

lemma horner4:
  "p * 256 + x = n \<Longrightarrow> q * 256 + y = p \<Longrightarrow> r * 256 + z = q \<Longrightarrow>
   r * 16777216 + z * 65536 + y * 256 + x = n" for n :: nat
  by simp

lemma base256_split3:
  fixes n :: nat
  assumes "n < 2 ^ 24"
  shows "(n div 65536 mod 256) * 65536 + (n div 256 mod 256) * 256 + n mod 256 = n"
proof -
  have "n div 65536 < 256" using assms by (simp add: less_mult_imp_div_less)
  then have "n div 65536 mod 256 = n div 256 div 256" by (simp add: div_256_256)
  then show ?thesis by (simp only:) (rule horner3 [OF div_mult_mod_eq div_mult_mod_eq])
qed

lemma base256_split4:
  fixes n :: nat
  assumes "n < 2 ^ 32"
  shows "(n div 16777216 mod 256) * 16777216 + (n div 65536 mod 256) * 65536
     + (n div 256 mod 256) * 256 + n mod 256 = n"
proof -
  have "n div 16777216 < 256" using assms by (simp add: less_mult_imp_div_less)
  then have "n div 16777216 mod 256 = n div 256 div 256 div 256" by (simp add: div_256_256)
  moreover have "n div 65536 = n div 256 div 256" by (rule div_256_256)
  ultimately show ?thesis
    by (simp only:) (rule horner4 [OF div_mult_mod_eq div_mult_mod_eq div_mult_mod_eq])
qed

lemma four_bytes_less:
  "a < 256 \<Longrightarrow> b < 256 \<Longrightarrow> c < 256 \<Longrightarrow> d < 256 \<Longrightarrow>
   a * 2 ^ 24 + b * 2 ^ 16 + c * 2 ^ 8 + d < (2 :: nat) ^ 32"
  by simp

lemma be24_put_u24 [simp]:
  "n < 2 ^ 24 \<Longrightarrow>
   be24 (word_of_nat (n div 2 ^ 16)) (word_of_nat (n div 2 ^ 8)) (word_of_nat n) = n"
  using base256_split3 [of n] by (simp only: be24_def unat_byte_of_nat) simp

lemma be24_put_u24_numeral [simp]:
  "n < 16777216 \<Longrightarrow>
   be24 (word_of_nat (n div 65536)) (word_of_nat (n div 256)) (word_of_nat n) = n"
  using be24_put_u24 [of n] by simp

lemma unpack_put_u32 [simp]:
  assumes "n < 2 ^ 32"
  shows "unpack_octets_4 (pre @ put_u32 n @ post) (length pre) = n"
proof -
  have "unpack_octets_4 (pre @ put_u32 n @ post) (length pre) =
      (n div 16777216 mod 256) * 16777216 + (n div 65536 mod 256) * 65536
      + (n div 256 mod 256) * 256 + n mod 256"
    by (simp add: unpack_octets_4_def put_u32_def nth_append)
  also have "\<dots> = n" by (rule base256_split4 [OF assms])
  finally show ?thesis .
qed

lemma unpack_put_u32_0 [simp]: "n < 2 ^ 32 \<Longrightarrow> unpack_octets_4 (put_u32 n @ post) 0 = n"
  using unpack_put_u32 [of n "[]" post] by simp

lemma unpack_put_u32_only [simp]: "n < 2 ^ 32 \<Longrightarrow> unpack_octets_4 (put_u32 n) 0 = n"
  using unpack_put_u32 [of n "[]" "[]"] by simp

lemma unpack_octets_4_less: "unpack_octets_4 buf off < 2 ^ 32"
  unfolding unpack_octets_4_def by (rule four_bytes_less) simp_all

text \<open>Byte-string literals: \<open>b"..."\<close> of the source is \<open>ascii ''...''\<close>.\<close>

definition ascii :: "string \<Rightarrow> bytes" where
  "ascii cs = map (\<lambda>c. word_of_nat (of_char c)) cs"

lemma length_ascii [simp]: "length (ascii cs) = length cs"
  by (simp add: ascii_def)

subsection \<open>Results and their sequencing\<close>

text \<open>
  A fallible operation returns \<open>error + 'a\<close>; one that also changes a state returns the
  state with the result, because the source's early returns (\<open>?\<close>) keep the mutations made so
  far. \<open>and_then\<close> is \<open>?\<close> followed by the rest of the body.
\<close>

definition and_then :: "'s \<times> ('e + 'a) \<Rightarrow> ('s \<Rightarrow> 'a \<Rightarrow> 's \<times> ('e + 'b)) \<Rightarrow> 's \<times> ('e + 'b)" where
  "and_then r k = (case r of (s, Inl e) \<Rightarrow> (s, Inl e) | (s, Inr a) \<Rightarrow> k s a)"

lemma and_then_simps [simp]:
  "and_then (s, Inl e) k = (s, Inl e)"
  "and_then (s, Inr a) k = k s a"
  by (simp_all add: and_then_def)

lemma and_then_split:
  "P (and_then r k) \<longleftrightarrow>
     (\<forall>s e. r = (s, Inl e) \<longrightarrow> P (s, Inl e)) \<and> (\<forall>s a. r = (s, Inr a) \<longrightarrow> P (k s a))"
  by (cases r; cases "snd r") auto

text \<open>An invariant of the state passes through a sequence when it passes through its parts.\<close>

lemma and_then_inv:
  assumes "I (fst r)" and "\<And>s a. r = (s, Inr a) \<Longrightarrow> I s \<Longrightarrow> I (fst (k s a))"
  shows "I (fst (and_then r k))"
  using assms by (cases r; cases "snd r") auto

definition map_err :: "('e \<Rightarrow> 'f) \<Rightarrow> 'e + 'a \<Rightarrow> 'f + 'a" where
  "map_err f r = (case r of Inl e \<Rightarrow> Inl (f e) | Inr a \<Rightarrow> Inr a)"

lemma map_err_simps [simp]:
  "map_err f (Inl e) = Inl (f e)" "map_err f (Inr a) = Inr a"
  "map_err f r = Inr a \<longleftrightarrow> r = Inr a"
  by (auto simp: map_err_def split: sum.splits)

definition is_ok :: "'e + 'a \<Rightarrow> bool" where
  "is_ok r = (case r of Inl _ \<Rightarrow> False | Inr _ \<Rightarrow> True)"

lemma is_ok_simps [simp]: "\<not> is_ok (Inl e)" "is_ok (Inr a)"
  by (simp_all add: is_ok_def)

lemma is_ok_iff: "is_ok r \<longleftrightarrow> (\<exists>a. r = Inr a)"
  by (cases r) auto

subsection \<open>Hash maps\<close>

text \<open>
  A \<open>HashMap\<close> is an association list without duplicate keys. The order of the list is the
  iteration order, which Rust leaves open: statements quantify over every list, hence over
  every order.
\<close>

type_synonym ('k, 'v) hmap = "('k \<times> 'v) list"

fun hm_get :: "('k, 'v) hmap \<Rightarrow> 'k \<Rightarrow> 'v option" where
  "hm_get [] k = None"
| "hm_get ((k', v) # m) k = (if k' = k then Some v else hm_get m k)"

fun hm_put :: "('k, 'v) hmap \<Rightarrow> 'k \<Rightarrow> 'v \<Rightarrow> ('k, 'v) hmap" where
  "hm_put [] k v = [(k, v)]"
| "hm_put ((k', v') # m) k v = (if k' = k then (k, v) # m else (k', v') # hm_put m k v)"

fun hm_del :: "('k, 'v) hmap \<Rightarrow> 'k \<Rightarrow> ('k, 'v) hmap" where
  "hm_del [] k = []"
| "hm_del ((k', v') # m) k = (if k' = k then hm_del m k else (k', v') # hm_del m k)"

definition hm_keys :: "('k, 'v) hmap \<Rightarrow> 'k list" where
  "hm_keys m = map fst m"

definition hm_contains :: "('k, 'v) hmap \<Rightarrow> 'k \<Rightarrow> bool" where
  "hm_contains m k \<longleftrightarrow> hm_get m k \<noteq> None"

definition hm_ok :: "('k, 'v) hmap \<Rightarrow> bool" where
  "hm_ok m \<longleftrightarrow> distinct (hm_keys m)"

lemma hm_keys_simps [simp]:
  "hm_keys [] = []" "hm_keys ((k, v) # m) = k # hm_keys m"
  by (simp_all add: hm_keys_def)

lemma hm_get_put [simp]: "hm_get (hm_put m k v) j = (if j = k then Some v else hm_get m j)"
  by (induction m k v rule: hm_put.induct) auto

lemma hm_get_del [simp]: "hm_get (hm_del m k) j = (if j = k then None else hm_get m j)"
  by (induction m k rule: hm_del.induct) auto

lemma hm_get_None_iff: "hm_get m k = None \<longleftrightarrow> k \<notin> set (hm_keys m)"
  by (induction m k rule: hm_get.induct) auto

lemma set_hm_keys_put [simp]: "set (hm_keys (hm_put m k v)) = insert k (set (hm_keys m))"
  by (induction m k v rule: hm_put.induct) auto

lemma set_hm_keys_del [simp]: "set (hm_keys (hm_del m k)) = set (hm_keys m) - {k}"
  by (induction m k rule: hm_del.induct) auto

lemma hm_ok_empty [simp]: "hm_ok []"
  by (simp add: hm_ok_def)

lemma hm_ok_put [simp]: "hm_ok m \<Longrightarrow> hm_ok (hm_put m k v)"
  unfolding hm_ok_def by (induction m k v rule: hm_put.induct) auto

lemma hm_ok_del [simp]: "hm_ok m \<Longrightarrow> hm_ok (hm_del m k)"
  unfolding hm_ok_def by (induction m k rule: hm_del.induct) auto

lemma hm_in_set: "hm_ok m \<Longrightarrow> (k, v) \<in> set m \<longleftrightarrow> hm_get m k = Some v"
  unfolding hm_ok_def
  by (induction m k rule: hm_get.induct) (auto simp: hm_keys_def image_iff)

lemma hm_get_in_set: "hm_get m k = Some v \<Longrightarrow> (k, v) \<in> set m"
  by (induction m k rule: hm_get.induct) (auto split: if_splits)

lemma hm_contains_simps [simp]:
  "hm_contains (hm_put m k v) j \<longleftrightarrow> j = k \<or> hm_contains m j"
  "hm_contains (hm_del m k) j \<longleftrightarrow> j \<noteq> k \<and> hm_contains m j"
  by (auto simp: hm_contains_def)

text \<open>
  Two totals over the entries: the sum of a measure and the number of entries that satisfy a
  predicate. How an update moves them is what the accounting invariants of the connection use.
\<close>

definition hm_sum :: "('v \<Rightarrow> nat) \<Rightarrow> ('k, 'v) hmap \<Rightarrow> nat" where
  "hm_sum f m = sum_list (map (f \<circ> snd) m)"

definition hm_count :: "('v \<Rightarrow> bool) \<Rightarrow> ('k, 'v) hmap \<Rightarrow> nat" where
  "hm_count P m = length (filter (P \<circ> snd) m)"

lemma hm_sum_simps [simp]: "hm_sum f [] = 0" "hm_sum f ((k, v) # m) = f v + hm_sum f m"
  by (simp_all add: hm_sum_def)

lemma hm_count_as_sum: "hm_count P m = hm_sum (\<lambda>v. if P v then 1 else 0) m"
  by (induction m) (auto simp: hm_count_def)

lemma hm_sum_del_notin: "hm_get m k = None \<Longrightarrow> hm_del m k = m"
  by (induction m k rule: hm_get.induct) (auto split: if_splits)

lemma hm_sum_put_None: "hm_get m k = None \<Longrightarrow> hm_sum f (hm_put m k v) = hm_sum f m + f v"
  by (induction m k rule: hm_get.induct) (auto split: if_splits)

lemma hm_sum_put_Some:
  "hm_get m k = Some w \<Longrightarrow> hm_sum f (hm_put m k v) + f w = hm_sum f m + f v"
  by (induction m k rule: hm_get.induct) (auto split: if_splits)

lemma hm_sum_ge: "hm_get m k = Some w \<Longrightarrow> f w \<le> hm_sum f m"
  by (induction m k rule: hm_get.induct) (auto split: if_splits)

lemma hm_sum_del_Some:
  "hm_ok m \<Longrightarrow> hm_get m k = Some w \<Longrightarrow> hm_sum f (hm_del m k) + f w = hm_sum f m"
  unfolding hm_ok_def
  by (induction m k rule: hm_get.induct) (auto split: if_splits simp: hm_sum_del_notin hm_get_None_iff)

text \<open>The interface the components use: a finite map with the two totals.\<close>

locale keyed_store =
  fixes get :: "'m \<Rightarrow> 'k \<Rightarrow> 'v option"
    and put :: "'m \<Rightarrow> 'k \<Rightarrow> 'v \<Rightarrow> 'm"
    and del :: "'m \<Rightarrow> 'k \<Rightarrow> 'm"
    and ok :: "'m \<Rightarrow> bool"
    and total :: "('v \<Rightarrow> nat) \<Rightarrow> 'm \<Rightarrow> nat"
  assumes get_put: "get (put m k v) j = (if j = k then Some v else get m j)"
    and get_del: "get (del m k) j = (if j = k then None else get m j)"
    and ok_put: "ok m \<Longrightarrow> ok (put m k v)"
    and ok_del: "ok m \<Longrightarrow> ok (del m k)"
    and total_put_None: "get m k = None \<Longrightarrow> total f (put m k v) = total f m + f v"
    and total_put_Some: "get m k = Some w \<Longrightarrow> total f (put m k v) + f w = total f m + f v"
    and total_del_Some: "ok m \<Longrightarrow> get m k = Some w \<Longrightarrow> total f (del m k) + f w = total f m"
begin

lemma total_ge: "ok m \<Longrightarrow> get m k = Some w \<Longrightarrow> f w \<le> total f m"
  using total_del_Some [of m k w f] by simp

lemma total_update_same: "get m k = Some w \<Longrightarrow> f v = f w \<Longrightarrow> total f (put m k v) = total f m"
  using total_put_Some [of m k w f v] by simp

lemma total_update_drop:
  "get m k = Some w \<Longrightarrow> f v = 0 \<Longrightarrow> total f (put m k v) + f w = total f m"
  using total_put_Some [of m k w f v] by simp

lemma total_del_zero: "ok m \<Longrightarrow> get m k = Some w \<Longrightarrow> f w = 0 \<Longrightarrow> total f (del m k) = total f m"
  using total_del_Some [of m k w f] by simp

end

interpretation hm: keyed_store hm_get hm_put hm_del hm_ok hm_sum
  by unfold_locales
    (simp_all add: hm_sum_put_None hm_sum_put_Some hm_sum_del_Some)

subsection \<open>Runs of operations\<close>

text \<open>A sequence of operations, each accepted (\<open>Some\<close>) or rejected by the state it meets.\<close>

fun run_ops :: "('op \<Rightarrow> 's \<Rightarrow> 's option) \<Rightarrow> 'op list \<Rightarrow> 's \<Rightarrow> 's option" where
  "run_ops step [] s = Some s"
| "run_ops step (op # ops) s =
     (case step op s of None \<Rightarrow> None | Some s' \<Rightarrow> run_ops step ops s')"

lemma run_ops_append:
  "run_ops step (ops @ ops') s = Option.bind (run_ops step ops s) (run_ops step ops')"
  by (induction ops arbitrary: s) (auto split: option.splits)

text \<open>The contract the components' operations share: a condition no accepted operation breaks.\<close>

locale preserved =
  fixes step :: "'op \<Rightarrow> 's \<Rightarrow> 's option"
    and holds :: "'s \<Rightarrow> bool"
  assumes step_holds: "step op s = Some t \<Longrightarrow> holds s \<Longrightarrow> holds t"
begin

lemma run_holds: "run_ops step ops s = Some t \<Longrightarrow> holds s \<Longrightarrow> holds t"
  by (induction ops arbitrary: s) (auto split: option.splits dest: step_holds)

lemma run_prefix_holds:
  assumes "run_ops step (ops @ ops') s \<noteq> None" and "holds s"
  shows "\<exists>t. run_ops step ops s = Some t \<and> holds t"
  using assms run_holds by (cases "run_ops step ops s") (auto simp: run_ops_append)

end

text \<open>The same for an amount each accepted operation moves by at most a known step.\<close>

locale metered =
  fixes step :: "'op \<Rightarrow> 's \<Rightarrow> 's option"
    and amount :: "'s \<Rightarrow> nat"
    and cost gain :: "'op \<Rightarrow> nat"
  assumes step_amount: "step op s = Some t \<Longrightarrow> amount t + cost op \<le> amount s + gain op"
begin

lemma run_amount:
  "run_ops step ops s = Some t \<Longrightarrow>
   amount t + sum_list (map cost ops) \<le> amount s + sum_list (map gain ops)"
proof (induction ops arbitrary: s)
  case (Cons op ops)
  then obtain u where "step op s = Some u" and "run_ops step ops u = Some t"
    by (auto split: option.splits)
  with step_amount [of op s u] Cons.IH [of u] show ?case by simp
qed simp

end

subsection \<open>Incremental readers\<close>

text \<open>A reader takes the next bytes, keeps what it cannot use yet in its state, and yields outputs or
  fails. \<open>after xs e\<close> is the failure \<open>e\<close> reported once the outputs \<open>xs\<close> are known.\<close>

fun read_all ::
  "('a list \<Rightarrow> 's \<Rightarrow> 's \<times> ('e + 'o list)) \<Rightarrow> ('o list \<Rightarrow> 'e \<Rightarrow> 'e) \<Rightarrow> 'a list list \<Rightarrow> 's
   \<Rightarrow> 's \<times> ('e + 'o list)" where
  "read_all read after [] s = (s, Inr [])"
| "read_all read after (a # as) s =
     (case read a s of
        (t, Inl e) \<Rightarrow> (t, Inl e)
      | (t, Inr xs) \<Rightarrow>
          (case read_all read after as t of (u, r) \<Rightarrow> (u, map_sum (after xs) ((@) xs) r)))"

lemma map_sum_eq_Inr: "map_sum f g r = Inr y \<Longrightarrow> (\<And>x. r = Inr x \<Longrightarrow> y = g x \<Longrightarrow> P) \<Longrightarrow> P"
  by (cases r) auto

lemma map_sum_eq_Inl: "map_sum f g r = Inl y \<Longrightarrow> (\<And>x. r = Inl x \<Longrightarrow> y = f x \<Longrightarrow> P) \<Longrightarrow> P"
  by (cases r) auto

text \<open>The law that makes the cuts between reads invisible, for the states of interest.\<close>

locale incremental =
  fixes read :: "'a list \<Rightarrow> 's \<Rightarrow> 's \<times> ('e + 'o list)"
    and after :: "'o list \<Rightarrow> 'e \<Rightarrow> 'e"
    and fit :: "'s \<Rightarrow> bool"
  assumes read_append:
      "fit s \<Longrightarrow> read a s = (t, Inr xs) \<Longrightarrow> read b t = (u, r) \<Longrightarrow>
       read (a @ b) s = (u, map_sum (after xs) ((@) xs) r)"
    and read_fit: "fit s \<Longrightarrow> read a s = (t, Inr xs) \<Longrightarrow> fit t"
begin

lemma read_all_concat:
  "fit s \<Longrightarrow> as \<noteq> [] \<Longrightarrow> read_all read after as s = (t, Inr xs) \<Longrightarrow> read (concat as) s = (t, Inr xs)"
proof (induction as arbitrary: s xs)
  case (Cons a as)
  obtain s1 ys where a: "read a s = (s1, Inr ys)"
    using Cons.prems(3) by (auto split: prod.splits sum.splits)
  obtain zs where as: "read_all read after as s1 = (t, Inr zs)" "xs = ys @ zs"
    using Cons.prems(3) a by (auto split: prod.splits elim!: map_sum_eq_Inr)
  show ?case
  proof (cases "as = []")
    case False
    then have "read (concat as) s1 = (t, Inr zs)"
      using Cons.IH read_fit [OF Cons.prems(1) a] as(1) by blast
    then show ?thesis using read_append [OF Cons.prems(1) a] as(2) by simp
  qed (use a as in simp)
qed simp

end

text \<open>Where a failure does not depend on what follows either.\<close>

locale incremental_failing = incremental +
  assumes read_fails: "fit s \<Longrightarrow> read a s = (t, Inl e) \<Longrightarrow> \<exists>u. read (a @ b) s = (u, Inl e)"
begin

lemma read_all_concat_fails:
  "fit s \<Longrightarrow> read_all read after as s = (t, Inl e) \<Longrightarrow> \<exists>u. read (concat as) s = (u, Inl e)"
proof (induction as arbitrary: s e)
  case (Cons a as)
  show ?case
  proof (cases "read a s")
    case (Pair s1 r)
    show ?thesis
    proof (cases r)
      case (Inl e1)
      then show ?thesis using Cons.prems Pair read_fails [of s a s1 e1 "concat as"] by auto
    next
      case (Inr ys)
      then obtain e1 where e1: "read_all read after as s1 = (t, Inl e1)" "e = after ys e1"
        using Cons.prems(2) Pair by (auto split: prod.splits elim!: map_sum_eq_Inl)
      from Cons.IH [OF _ e1(1)] read_fit [OF Cons.prems(1)] Pair Inr
      obtain u where "read (concat as) s1 = (u, Inl e1)" by blast
      then show ?thesis using read_append [OF Cons.prems(1)] Pair Inr e1(2) by auto
    qed
  qed
qed simp

end

subsection \<open>Decimal numbers in messages\<close>

fun show_nat :: "nat \<Rightarrow> string" where
  "show_nat n = (if n < 10 then [char_of (48 + n)] else show_nat (n div 10) @ [char_of (48 + n mod 10)])"

declare show_nat.simps [simp del]

lemma show_nat_nonempty: "show_nat n \<noteq> []"
  by (subst show_nat.simps) simp

lemma length_show_nat: "n < 10 ^ k \<Longrightarrow> 0 < k \<Longrightarrow> length (show_nat n) \<le> k"
proof (induction k arbitrary: n)
  case (Suc k)
  show ?case
  proof (cases "n < 10")
    case True
    then show ?thesis by (simp add: show_nat.simps [of n])
  next
    case False
    then have "n div 10 < 10 ^ k" and "0 < k"
      using Suc.prems(1) by (auto simp: less_mult_imp_div_less mult.commute intro: Suc_lessI gr0I)
    from Suc.IH [OF this] show ?thesis using False by (simp add: show_nat.simps [of n])
  qed
qed simp

end
