(* ===== verification/H2_Errors.thy ===== *)
theory H2_Errors
  imports Prelude
begin

section \<open>HTTP/2 error codes and the error taxonomy\<close>

text \<open>
  \<open>Reason\<close> (crates/vendor-h2/src/frame/reason.rs) is an open \<open>u32\<close>; the errors of the
  stream state machine (\<open>proto/error.rs\<close>, \<open>codec/error.rs\<close>) and the Python exceptions they
  are mapped to (src/h2/errors.rs, src/errors.rs). A Python exception is a value of
  \<open>pyerr\<close>; \<open>RustPanic\<close> stands for a Rust panic, which aborts the process in release
  builds.
\<close>

subsection \<open>Reasons\<close>

type_synonym reason = nat

definition NO_ERROR :: reason where "NO_ERROR = 0"
definition PROTOCOL_ERROR :: reason where "PROTOCOL_ERROR = 1"
definition INTERNAL_ERROR :: reason where "INTERNAL_ERROR = 2"
definition FLOW_CONTROL_ERROR :: reason where "FLOW_CONTROL_ERROR = 3"
definition SETTINGS_TIMEOUT :: reason where "SETTINGS_TIMEOUT = 4"
definition STREAM_CLOSED :: reason where "STREAM_CLOSED = 5"
definition FRAME_SIZE_ERROR :: reason where "FRAME_SIZE_ERROR = 6"
definition REFUSED_STREAM :: reason where "REFUSED_STREAM = 7"
definition CANCEL :: reason where "CANCEL = 8"
definition COMPRESSION_ERROR :: reason where "COMPRESSION_ERROR = 9"
definition CONNECT_ERROR :: reason where "CONNECT_ERROR = 10"
definition ENHANCE_YOUR_CALM :: reason where "ENHANCE_YOUR_CALM = 11"
definition INADEQUATE_SECURITY :: reason where "INADEQUATE_SECURITY = 12"
definition HTTP_1_1_REQUIRED :: reason where "HTTP_1_1_REQUIRED = 13"

lemmas reason_defs =
  NO_ERROR_def PROTOCOL_ERROR_def INTERNAL_ERROR_def FLOW_CONTROL_ERROR_def
  SETTINGS_TIMEOUT_def STREAM_CLOSED_def FRAME_SIZE_ERROR_def REFUSED_STREAM_def CANCEL_def
  COMPRESSION_ERROR_def CONNECT_ERROR_def ENHANCE_YOUR_CALM_def INADEQUATE_SECURITY_def
  HTTP_1_1_REQUIRED_def

definition reason_description :: "reason \<Rightarrow> string" where
  "reason_description r =
    (if r = 0 then ''not a result of an error''
     else if r = 1 then ''unspecific protocol error detected''
     else if r = 2 then ''unexpected internal error encountered''
     else if r = 3 then ''flow-control protocol violated''
     else if r = 4 then ''settings ACK not received in timely manner''
     else if r = 5 then ''received frame when stream half-closed''
     else if r = 6 then ''frame with invalid size''
     else if r = 7 then ''refused stream before processing any application logic''
     else if r = 8 then ''stream no longer needed''
     else if r = 9 then ''unable to maintain the header compression context''
     else if r = 10 then
       ''connection established in response to a CONNECT request was reset or abnormally closed''
     else if r = 11 then ''detected excessive load generating behavior''
     else if r = 12 then ''security properties do not meet minimum requirements''
     else if r = 13 then ''endpoint requires HTTP/1.1''
     else ''unknown reason'')"

text \<open>The Python enum \<open>H2Reason\<close> (src/h2/reason.rs): a closed set of codes.\<close>

datatype h2_reason =
    RNoError | RProtocolError | RInternalError | RFlowControlError | RSettingsTimeout
  | RStreamClosed | RFrameSizeError | RRefusedStream | RCancel | RCompressionError
  | RConnectError | REnhanceYourCalm | RInadequateSecurity | RHttp11Required

fun reason_code :: "h2_reason \<Rightarrow> u32" where
  "reason_code RNoError = 0"
| "reason_code RProtocolError = 1"
| "reason_code RInternalError = 2"
| "reason_code RFlowControlError = 3"
| "reason_code RSettingsTimeout = 4"
| "reason_code RStreamClosed = 5"
| "reason_code RFrameSizeError = 6"
| "reason_code RRefusedStream = 7"
| "reason_code RCancel = 8"
| "reason_code RCompressionError = 9"
| "reason_code RConnectError = 10"
| "reason_code REnhanceYourCalm = 11"
| "reason_code RInadequateSecurity = 12"
| "reason_code RHttp11Required = 13"

text \<open>One table pairs every member with its wire constant and its Python name.\<close>

definition reason_table :: "(h2_reason \<times> reason \<times> string) list" where
  "reason_table =
    [(RNoError, NO_ERROR, ''NO_ERROR''),
     (RProtocolError, PROTOCOL_ERROR, ''PROTOCOL_ERROR''),
     (RInternalError, INTERNAL_ERROR, ''INTERNAL_ERROR''),
     (RFlowControlError, FLOW_CONTROL_ERROR, ''FLOW_CONTROL_ERROR''),
     (RSettingsTimeout, SETTINGS_TIMEOUT, ''SETTINGS_TIMEOUT''),
     (RStreamClosed, STREAM_CLOSED, ''STREAM_CLOSED''),
     (RFrameSizeError, FRAME_SIZE_ERROR, ''FRAME_SIZE_ERROR''),
     (RRefusedStream, REFUSED_STREAM, ''REFUSED_STREAM''),
     (RCancel, CANCEL, ''CANCEL''),
     (RCompressionError, COMPRESSION_ERROR, ''COMPRESSION_ERROR''),
     (RConnectError, CONNECT_ERROR, ''CONNECT_ERROR''),
     (REnhanceYourCalm, ENHANCE_YOUR_CALM, ''ENHANCE_YOUR_CALM''),
     (RInadequateSecurity, INADEQUATE_SECURITY, ''INADEQUATE_SECURITY''),
     (RHttp11Required, HTTP_1_1_REQUIRED, ''HTTP_1_1_REQUIRED'')]"

definition reason_from_code :: "u32 \<Rightarrow> h2_reason option" where
  "reason_from_code c =
     map_option fst (find (\<lambda>(m, _, _). reason_code m = c) reason_table)"

definition reason_py_name :: "h2_reason \<Rightarrow> string" where
  "reason_py_name r =
     (case find (\<lambda>(m, _, _). m = r) reason_table of
        None \<Rightarrow> ''?'' | Some (_, _, name) \<Rightarrow> name)"

definition reason_check_table :: bool where
  "reason_check_table \<longleftrightarrow> list_all (\<lambda>(m, r, _). reason_code m = r) reason_table"

lemma reason_table_agrees: "reason_check_table"
  by (simp add: reason_check_table_def reason_table_def reason_defs)

lemma reason_from_code_code [simp]: "reason_from_code (reason_code r) = Some r"
  by (cases r) (simp_all add: reason_from_code_def reason_table_def)

lemma reason_from_code_Some: "reason_from_code c = Some r \<Longrightarrow> reason_code r = c"
  by (auto simp: reason_from_code_def reason_table_def split: if_splits)

lemma reason_from_code_None: "reason_from_code c = None \<longleftrightarrow> 13 < c"
proof -
  have "reason_from_code c \<noteq> None" if "c \<le> 13"
  proof -
    from that have "c = 0 \<or> c = 1 \<or> c = 2 \<or> c = 3 \<or> c = 4 \<or> c = 5 \<or> c = 6 \<or> c = 7 \<or>
        c = 8 \<or> c = 9 \<or> c = 10 \<or> c = 11 \<or> c = 12 \<or> c = 13" by arith
    then show ?thesis by (auto simp: reason_from_code_def reason_table_def)
  qed
  moreover have "reason_from_code c = None" if "13 < c"
    using that by (simp add: reason_from_code_def reason_table_def)
  ultimately show ?thesis by (meson not_le)
qed

subsection \<open>Errors of the stream machinery\<close>

datatype initiator = User | Library | Remote

datatype io_error_kind = BrokenPipe | OtherKind nat

datatype proto_error =
    Reset u32 reason initiator
  | GoAway bytes reason initiator
  | Io io_error_kind "string option"

datatype user_error =
    InactiveStreamId | UnexpectedFrameType | PayloadTooBig | Rejected | ReleaseCapacityTooBig
  | OverflowedStreamId | MalformedHeaders | MissingUriSchemeAndAuthority
  | PollResetAfterSendResponse | SendPingWhilePending | SendSettingsWhilePending
  | PeerDisabledServerPush | InvalidInformationalStatusCode

fun initiator_is_local :: "initiator \<Rightarrow> bool" where
  "initiator_is_local User = True"
| "initiator_is_local Library = True"
| "initiator_is_local Remote = False"

fun proto_error_is_local :: "proto_error \<Rightarrow> bool" where
  "proto_error_is_local (Reset _ _ i) = initiator_is_local i"
| "proto_error_is_local (GoAway _ _ i) = initiator_is_local i"
| "proto_error_is_local (Io _ _) = True"

definition library_go_away :: "reason \<Rightarrow> proto_error" where
  "library_go_away r = GoAway [] r Library"

definition remote_reset :: "u32 \<Rightarrow> reason \<Rightarrow> proto_error" where
  "remote_reset sid r = Reset sid r Remote"

definition remote_go_away :: "bytes \<Rightarrow> reason \<Rightarrow> proto_error" where
  "remote_go_away data r = GoAway data r Remote"

text \<open>The text of an I/O error that carries no message comes from the standard library; only
  the kinds the program creates are spelled out.\<close>

fun proto_error_display :: "proto_error \<Rightarrow> string" where
  "proto_error_display (Reset _ r _) = reason_description r"
| "proto_error_display (GoAway _ r _) = reason_description r"
| "proto_error_display (Io _ (Some inner)) = inner"
| "proto_error_display (Io BrokenPipe None) = ''broken pipe''"
| "proto_error_display (Io (OtherKind _) None) = ''''"

fun user_error_display :: "user_error \<Rightarrow> string" where
  "user_error_display InactiveStreamId = ''inactive stream''"
| "user_error_display UnexpectedFrameType = ''unexpected frame type''"
| "user_error_display PayloadTooBig = ''payload too big''"
| "user_error_display Rejected = ''rejected''"
| "user_error_display ReleaseCapacityTooBig = ''release capacity too big''"
| "user_error_display OverflowedStreamId = ''stream ID overflowed''"
| "user_error_display MalformedHeaders = ''malformed headers''"
| "user_error_display MissingUriSchemeAndAuthority = ''request URI missing scheme and authority''"
| "user_error_display PollResetAfterSendResponse = ''poll_reset after send_response is illegal''"
| "user_error_display SendPingWhilePending = ''send_ping before received previous pong''"
| "user_error_display SendSettingsWhilePending =
     ''sending SETTINGS before received previous ACK''"
| "user_error_display PeerDisabledServerPush =
     ''sending PUSH_PROMISE to peer who disabled server push''"
| "user_error_display InvalidInformationalStatusCode = ''invalid informational status code''"

fun user_err_kind :: "user_error \<Rightarrow> string" where
  "user_err_kind InactiveStreamId = ''inactive_stream_id''"
| "user_err_kind UnexpectedFrameType = ''unexpected_frame_type''"
| "user_err_kind PayloadTooBig = ''payload_too_big''"
| "user_err_kind Rejected = ''rejected''"
| "user_err_kind ReleaseCapacityTooBig = ''release_capacity_too_big''"
| "user_err_kind OverflowedStreamId = ''overflowed_stream_id''"
| "user_err_kind MalformedHeaders = ''malformed_headers''"
| "user_err_kind MissingUriSchemeAndAuthority = ''missing_uri_scheme_and_authority''"
| "user_err_kind PollResetAfterSendResponse = ''poll_reset_after_send_response''"
| "user_err_kind SendPingWhilePending = ''send_ping_while_pending''"
| "user_err_kind SendSettingsWhilePending = ''send_settings_while_pending''"
| "user_err_kind PeerDisabledServerPush = ''peer_disabled_server_push''"
| "user_err_kind InvalidInformationalStatusCode = ''invalid_informational_status_code''"

lemma user_err_kind_inj: "user_err_kind a = user_err_kind b \<Longrightarrow> a = b"
  by (cases a; cases b) simp_all

subsection \<open>Python exceptions\<close>

text \<open>The third field of \<open>H2ProtocolError\<close> is the \<open>_debug_data\<close> attribute, if set.\<close>

datatype pyerr =
    H2ProtocolError reason string "bytes option"
  | H2StreamError u32 reason string
  | H2UserError string string
  | H2FlowControlError reason
  | ConnectionClosedError string
  | ValueError string
  | RustPanic

definition map_user_err :: "user_error \<Rightarrow> pyerr" where
  "map_user_err e = H2UserError (user_err_kind e) (user_error_display e)"

definition user_payload_too_big :: "usize \<Rightarrow> usize \<Rightarrow> pyerr" where
  "user_payload_too_big len limit = H2UserError ''payload_too_big''
     (''DATA payload '' @ show_nat len @ '' exceeds SETTINGS_MAX_FRAME_SIZE '' @ show_nat limit)"

fun initiator_str :: "initiator \<Rightarrow> string" where
  "initiator_str User = ''user''"
| "initiator_str Library = ''library''"
| "initiator_str Remote = ''remote''"

definition protocol_err_with_debug :: "reason \<Rightarrow> string \<Rightarrow> bytes \<Rightarrow> pyerr" where
  "protocol_err_with_debug r msg data = H2ProtocolError r msg (Some data)"

fun map_proto_err :: "proto_error \<Rightarrow> pyerr" where
  "map_proto_err (Reset sid r i) = H2StreamError sid r (initiator_str i)"
| "map_proto_err (GoAway data r i) =
     protocol_err_with_debug r (proto_error_display (GoAway data r i)) data"
| "map_proto_err (Io k m) = ConnectionClosedError (proto_error_display (Io k m))"

definition map_reason :: "reason \<Rightarrow> pyerr" where
  "map_reason r = H2FlowControlError r"

text \<open>\<open>parse_initiator\<close> (src/h2/streams.rs). The message quotes the argument with Rust's
  \<open>{:?}\<close>; the escapes that adds inside an unusual argument are left out.\<close>

definition parse_initiator :: "string \<Rightarrow> pyerr + initiator" where
  "parse_initiator s =
     (if s = ''user'' then Inr User
      else if s = ''library'' then Inr Library
      else if s = ''remote'' then Inr Remote
      else Inl (ValueError
        (''initiator must be 'user' | 'library' | 'remote', got '' @ [CHR 34] @ s @ [CHR 34])))"

lemma parse_initiator_str [simp]: "parse_initiator (initiator_str i) = Inr i"
  by (cases i) (simp_all add: parse_initiator_def)

end
