(* ===== verification/Settings_Sync.thy ===== *)
theory Settings_Sync
  imports H2_Errors
begin

section \<open>The SETTINGS handshake\<close>

text \<open>
  src/h2/settings.rs: the local half of the handshake (\<open>Settings\<close>), the values of the peer
  (\<open>PeerSettings\<close>), and \<open>SettingsValues\<close> of src/h2/codec.rs, the values a local SETTINGS
  frame advertises. The application of the values is the connection's (\<open>Conn_Control\<close>).
\<close>

definition DEFAULT_HEADER_TABLE_SIZE :: u32 where "DEFAULT_HEADER_TABLE_SIZE = 4096"
definition DEFAULT_INITIAL_WINDOW_SIZE :: u32 where "DEFAULT_INITIAL_WINDOW_SIZE = 65535"
definition DEFAULT_MAX_FRAME_SIZE :: u32 where "DEFAULT_MAX_FRAME_SIZE = 16384"
definition MAX_MAX_FRAME_SIZE :: u32 where "MAX_MAX_FRAME_SIZE = 2 ^ 24 - 1"

record settings_values =
  sv_header_table_size :: "u32 option"
  sv_enable_push :: "bool option"
  sv_max_concurrent_streams :: "u32 option"
  sv_initial_window_size :: "u32 option"
  sv_max_frame_size :: "u32 option"
  sv_max_header_list_size :: "u32 option"

datatype local_state = ToSend | WaitingAck | Synced

record settings_sync =
  ss_local :: settings_values
  ss_state :: local_state
  ss_has_received_remote_initial :: bool

definition settings_new :: "settings_values \<Rightarrow> settings_sync" where
  "settings_new v = \<lparr>ss_local = v, ss_state = ToSend, ss_has_received_remote_initial = False\<rparr>"

definition settings_mark_sent :: "settings_sync \<Rightarrow> settings_sync" where
  "settings_mark_sent s = s\<lparr>ss_state := WaitingAck\<rparr>"

definition settings_recv_ack :: "settings_sync \<Rightarrow> settings_sync \<times> (pyerr + unit)" where
  "settings_recv_ack s =
     (if ss_state s \<noteq> WaitingAck
      then (s, Inl (H2ProtocolError PROTOCOL_ERROR ''received unexpected settings ack'' None))
      else (s\<lparr>ss_state := Synced\<rparr>, Inr ()))"

definition settings_recv_remote :: "settings_sync \<Rightarrow> settings_sync \<times> bool" where
  "settings_recv_remote s =
     (s\<lparr>ss_has_received_remote_initial := True\<rparr>, \<not> ss_has_received_remote_initial s)"

record peer_settings =
  ps_header_table_size :: u32
  ps_initial_window_size :: u32
  ps_max_frame_size :: u32
  ps_max_concurrent_streams :: "u32 option"

definition peer_settings_new :: peer_settings where
  "peer_settings_new =
     \<lparr>ps_header_table_size = DEFAULT_HEADER_TABLE_SIZE,
      ps_initial_window_size = DEFAULT_INITIAL_WINDOW_SIZE,
      ps_max_frame_size = DEFAULT_MAX_FRAME_SIZE,
      ps_max_concurrent_streams = None\<rparr>"

text \<open>The events of the handshake as a relation: what may follow what.\<close>

datatype settings_event = EvSent | EvAck | EvRemote

inductive settings_step :: "settings_sync \<Rightarrow> settings_event \<Rightarrow> settings_sync \<Rightarrow> bool" where
  sent: "settings_step s EvSent (settings_mark_sent s)"
| ack: "settings_recv_ack s = (s', Inr ()) \<Longrightarrow> settings_step s EvAck s'"
| remote: "settings_recv_remote s = (s', b) \<Longrightarrow> settings_step s EvRemote s'"

inductive_cases settings_ackE: "settings_step s EvAck s'"
inductive_cases settings_sentE: "settings_step s EvSent s'"
inductive_cases settings_remoteE: "settings_step s EvRemote s'"

inductive settings_trace :: "settings_sync \<Rightarrow> settings_event list \<Rightarrow> settings_sync \<Rightarrow> bool" where
  nil: "settings_trace s [] s"
| snoc: "settings_trace s es t \<Longrightarrow> settings_step t e u \<Longrightarrow> settings_trace s (es @ [e]) u"

text \<open>ACKs never outnumber the SETTINGS frames sent, and one is outstanding exactly while
  waiting.\<close>

lemma settings_step_sent: "settings_step s EvSent t \<Longrightarrow> ss_state t = WaitingAck"
  by (auto elim: settings_sentE simp: settings_mark_sent_def)

lemma settings_step_ack: "settings_step s EvAck t \<Longrightarrow> ss_state s = WaitingAck \<and> ss_state t = Synced"
  by (auto elim!: settings_ackE simp: settings_recv_ack_def split: if_splits)

lemma settings_step_remote: "settings_step s EvRemote t \<Longrightarrow> ss_state t = ss_state s"
  by (auto elim!: settings_remoteE simp: settings_recv_remote_def)

lemma settings_trace_acks:
  assumes "settings_trace s es t" and "ss_state s = ToSend"
  shows "count_list es EvAck + (if ss_state t = WaitingAck then 1 else 0) \<le> count_list es EvSent"
  using assms
proof (induction rule: settings_trace.induct)
  case (nil s)
  then show ?case by simp
next
  case (snoc s es t e u)
  then show ?case
    by (cases e)
      (auto dest: settings_step_sent settings_step_ack settings_step_remote split: if_splits)
qed

lemma settings_local_const: "settings_trace s es t \<Longrightarrow> ss_local t = ss_local s"
  by (induction rule: settings_trace.induct)
    (auto elim!: settings_step.cases
      simp: settings_mark_sent_def settings_recv_ack_def settings_recv_remote_def split: if_splits)

end
