(* ===== verification/Frame_Wire.thy ===== *)
theory Frame_Wire
  imports Settings_Sync
begin

section \<open>Frames on the wire\<close>

text \<open>
  crates/vendor-h2/src/frame/: the frame head, and for every frame type below the header layer the
  loader (\<open>load\<close>) and the encoder; the padding of DATA and the prefix of HEADERS. A loader takes
  the parsed head and the payload. The last part proves that what the encoders write, the parser and
  loaders read back.
\<close>

definition HEADER_LEN :: usize where "HEADER_LEN = 9"

datatype kind =
    KData | KHeaders | KPriority | KReset | KSettings | KPushPromise | KPing | KGoAway
  | KWindowUpdate | KContinuation | KUnknown

datatype frame_error =
    BadFrameSize | TooMuchPadding | InvalidSettingValue | InvalidWindowUpdateValue
  | InvalidPayloadLength | InvalidPayloadAckSettings | InvalidStreamId | MalformedMessage
  | HeaderListWayTooLarge | InvalidDependencyId | HpackError bool
    \<comment> \<open>\<open>Hpack(e)\<close>: whether \<open>e\<close> is \<open>NeedMore\<close>\<close>

subsection \<open>Stream identifiers\<close>

definition MAX_STREAM_ID :: u32 where "MAX_STREAM_ID = 2 ^ 31 - 1"

text \<open>\<open>StreamId::parse\<close>: the low 31 bits and the reserved bit of the first four bytes.\<close>

definition stream_id_parse :: "bytes \<Rightarrow> u32 \<times> bool" where
  "stream_id_parse buf =
     (unpack_octets_4 buf 0 mod 2 ^ 31, 2 ^ 31 \<le> unpack_octets_4 buf 0)"

definition is_client_initiated :: "u32 \<Rightarrow> bool" where
  "is_client_initiated sid \<longleftrightarrow> sid \<noteq> 0 \<and> sid mod 2 = 1"

definition is_server_initiated :: "u32 \<Rightarrow> bool" where
  "is_server_initiated sid \<longleftrightarrow> sid \<noteq> 0 \<and> sid mod 2 = 0"

text \<open>\<open>From<u32>\<close> asserts the top bit clear: \<open>None\<close> is the failed assertion.\<close>

definition stream_id_from :: "u32 \<Rightarrow> u32 option" where
  "stream_id_from src = (if src < 2 ^ 31 then Some src else None)"

definition stream_id_next :: "u32 \<Rightarrow> u32 option" where
  "stream_id_next sid = (let nxt = u32_add sid 2 in if MAX_STREAM_ID < nxt then None else Some nxt)"

subsection \<open>The frame head\<close>

record head =
  h_kind :: kind
  h_flag :: byte
  h_stream_id :: u32

definition kind_new :: "byte \<Rightarrow> kind" where
  "kind_new b =
     (if b = 0 then KData else if b = 1 then KHeaders else if b = 2 then KPriority
      else if b = 3 then KReset else if b = 4 then KSettings else if b = 5 then KPushPromise
      else if b = 6 then KPing else if b = 7 then KGoAway else if b = 8 then KWindowUpdate
      else if b = 9 then KContinuation else KUnknown)"

fun kind_code :: "kind \<Rightarrow> byte" where
  "kind_code KData = 0"
| "kind_code KHeaders = 1"
| "kind_code KPriority = 2"
| "kind_code KReset = 3"
| "kind_code KSettings = 4"
| "kind_code KPushPromise = 5"
| "kind_code KPing = 6"
| "kind_code KGoAway = 7"
| "kind_code KWindowUpdate = 8"
| "kind_code KContinuation = 9"
| "kind_code KUnknown = 10"

definition head_new :: "kind \<Rightarrow> byte \<Rightarrow> u32 \<Rightarrow> head" where
  "head_new k f sid = \<lparr>h_kind = k, h_flag = f, h_stream_id = sid\<rparr>"

definition head_parse :: "bytes \<Rightarrow> head" where
  "head_parse header =
     \<lparr>h_kind = kind_new (header ! 3), h_flag = header ! 4,
      h_stream_id = fst (stream_id_parse (drop 5 header))\<rparr>"

definition head_encode :: "head \<Rightarrow> nat \<Rightarrow> bytes" where
  "head_encode h payload_len =
     put_u24 payload_len @ [kind_code (h_kind h), h_flag h] @ put_u32 (h_stream_id h)"

subsection \<open>WINDOW\_UPDATE, RST\_STREAM, PING, GOAWAY\<close>

record window_update =
  wu_stream_id :: u32
  wu_size_increment :: u32

definition window_update_load :: "head \<Rightarrow> bytes \<Rightarrow> frame_error + window_update" where
  "window_update_load h payload =
     (if length payload \<noteq> 4 then Inl BadFrameSize
      else let inc = unpack_octets_4 payload 0 mod 2 ^ 31
           in if inc = 0 then Inl InvalidWindowUpdateValue
              else Inr \<lparr>wu_stream_id = h_stream_id h, wu_size_increment = inc\<rparr>)"

definition window_update_encode :: "window_update \<Rightarrow> bytes" where
  "window_update_encode w =
     head_encode (head_new KWindowUpdate 0 (wu_stream_id w)) 4 @ put_u32 (wu_size_increment w)"

record reset_frame =
  rf_stream_id :: u32
  rf_error_code :: reason

definition reset_load :: "head \<Rightarrow> bytes \<Rightarrow> frame_error + reset_frame" where
  "reset_load h payload =
     (if length payload \<noteq> 4 then Inl InvalidPayloadLength
      else Inr \<lparr>rf_stream_id = h_stream_id h, rf_error_code = unpack_octets_4 payload 0\<rparr>)"

definition reset_encode :: "reset_frame \<Rightarrow> bytes" where
  "reset_encode r =
     head_encode (head_new KReset 0 (rf_stream_id r)) 4 @ put_u32 (rf_error_code r)"

record ping_frame =
  pf_ack :: bool
  pf_payload :: bytes

definition ping_load :: "head \<Rightarrow> bytes \<Rightarrow> frame_error + ping_frame" where
  "ping_load h payload =
     (if h_stream_id h \<noteq> 0 then Inl InvalidStreamId
      else if length payload \<noteq> 8 then Inl BadFrameSize
      else Inr \<lparr>pf_ack = (h_flag h AND 1 \<noteq> 0), pf_payload = payload\<rparr>)"

definition ping_encode :: "ping_frame \<Rightarrow> bytes" where
  "ping_encode p =
     head_encode (head_new KPing (if pf_ack p then 1 else 0) 0) (length (pf_payload p))
     @ pf_payload p"

record goaway_frame =
  ga_last_stream_id :: u32
  ga_error_code :: reason
  ga_debug_data :: bytes

definition goaway_load :: "head \<Rightarrow> bytes \<Rightarrow> frame_error + goaway_frame" where
  "goaway_load h payload =
     (if h_stream_id h \<noteq> 0 then Inl InvalidStreamId
      else if length payload < 8 then Inl BadFrameSize
      else Inr \<lparr>ga_last_stream_id = fst (stream_id_parse (take 4 payload)),
                ga_error_code = unpack_octets_4 payload 4,
                ga_debug_data = drop 8 payload\<rparr>)"

definition goaway_encode :: "goaway_frame \<Rightarrow> bytes" where
  "goaway_encode g =
     head_encode (head_new KGoAway 0 0) (8 + length (ga_debug_data g))
     @ put_u32 (ga_last_stream_id g) @ put_u32 (ga_error_code g) @ ga_debug_data g"

subsection \<open>PRIORITY and the stream dependency\<close>

record stream_dependency =
  sd_dependency_id :: u32
  sd_weight :: byte
  sd_is_exclusive :: bool

definition stream_dependency_load :: "bytes \<Rightarrow> frame_error + stream_dependency" where
  "stream_dependency_load src =
     (if length src \<noteq> 5 then Inl InvalidPayloadLength
      else let (dep, excl) = stream_id_parse (take 4 src)
           in Inr \<lparr>sd_dependency_id = dep, sd_weight = src ! 4, sd_is_exclusive = excl\<rparr>)"

record priority_frame =
  pr_stream_id :: u32
  pr_dependency :: stream_dependency

definition priority_load :: "head \<Rightarrow> bytes \<Rightarrow> frame_error + priority_frame" where
  "priority_load h payload =
     (case stream_dependency_load payload of
        Inl e \<Rightarrow> Inl e
      | Inr dep \<Rightarrow>
          if sd_dependency_id dep = h_stream_id h then Inl InvalidDependencyId
          else Inr \<lparr>pr_stream_id = h_stream_id h, pr_dependency = dep\<rparr>)"

subsection \<open>DATA\<close>

definition strip_padding :: "bytes \<Rightarrow> frame_error + byte \<times> bytes" where
  "strip_padding payload =
     (if payload = [] then Inl TooMuchPadding
      else let pad_len = unat (hd payload)
           in if length payload \<le> pad_len then Inl TooMuchPadding
              else Inr (hd payload, take (length payload - pad_len - 1) (tl payload)))"

record data_frame =
  df_stream_id :: u32
  df_data :: bytes
  df_flags :: byte
  df_pad_len :: "byte option"

definition data_is_end_stream :: "data_frame \<Rightarrow> bool" where
  "data_is_end_stream d \<longleftrightarrow> df_flags d AND 1 = 1"

definition data_load :: "head \<Rightarrow> bytes \<Rightarrow> frame_error + data_frame" where
  "data_load h payload =
     (let flags = h_flag h AND 9
      in if h_stream_id h = 0 then Inl InvalidStreamId
         else if flags AND 8 = 8 then
           (case strip_padding payload of
              Inl e \<Rightarrow> Inl e
            | Inr (len, data) \<Rightarrow>
                Inr \<lparr>df_stream_id = h_stream_id h, df_data = data, df_flags = flags,
                     df_pad_len = Some len\<rparr>)
         else Inr \<lparr>df_stream_id = h_stream_id h, df_data = payload, df_flags = flags,
                   df_pad_len = None\<rparr>)"

definition data_flow_controlled_len :: "data_frame \<Rightarrow> usize" where
  "data_flow_controlled_len d =
     (case df_pad_len d of
        Some p \<Rightarrow> length (df_data d) + unat p + 1 | None \<Rightarrow> length (df_data d))"

subsection \<open>SETTINGS\<close>

datatype setting =
    HeaderTableSize u32 | EnablePush u32 | MaxConcurrentStreams u32 | InitialWindowSize u32
  | MaxFrameSize u32 | MaxHeaderListSize u32 | EnableConnectProtocol u32

record settings_frame =
  sf_ack :: bool
  sf_header_table_size :: "u32 option"
  sf_enable_push :: "u32 option"
  sf_max_concurrent_streams :: "u32 option"
  sf_initial_window_size :: "u32 option"
  sf_max_frame_size :: "u32 option"
  sf_max_header_list_size :: "u32 option"
  sf_enable_connect_protocol :: "u32 option"

definition settings_default :: settings_frame where
  "settings_default =
     \<lparr>sf_ack = False, sf_header_table_size = None, sf_enable_push = None,
      sf_max_concurrent_streams = None, sf_initial_window_size = None, sf_max_frame_size = None,
      sf_max_header_list_size = None, sf_enable_connect_protocol = None\<rparr>"

definition settings_ack :: settings_frame where
  "settings_ack = settings_default\<lparr>sf_ack := True\<rparr>"

definition setting_from_id :: "u16 \<Rightarrow> u32 \<Rightarrow> setting option" where
  "setting_from_id i val =
     (if i = 1 then Some (HeaderTableSize val)
      else if i = 2 then Some (EnablePush val)
      else if i = 3 then Some (MaxConcurrentStreams val)
      else if i = 4 then Some (InitialWindowSize val)
      else if i = 5 then Some (MaxFrameSize val)
      else if i = 6 then Some (MaxHeaderListSize val)
      else if i = 8 then Some (EnableConnectProtocol val)
      else None)"

definition setting_load :: "bytes \<Rightarrow> setting option" where
  "setting_load raw =
     setting_from_id (unat (raw ! 0) * 2 ^ 8 + unat (raw ! 1)) (unpack_octets_4 raw 2)"

fun setting_id :: "setting \<Rightarrow> u16" where
  "setting_id (HeaderTableSize _) = 1"
| "setting_id (EnablePush _) = 2"
| "setting_id (MaxConcurrentStreams _) = 3"
| "setting_id (InitialWindowSize _) = 4"
| "setting_id (MaxFrameSize _) = 5"
| "setting_id (MaxHeaderListSize _) = 6"
| "setting_id (EnableConnectProtocol _) = 8"

fun setting_val :: "setting \<Rightarrow> u32" where
  "setting_val (HeaderTableSize v) = v"
| "setting_val (EnablePush v) = v"
| "setting_val (MaxConcurrentStreams v) = v"
| "setting_val (InitialWindowSize v) = v"
| "setting_val (MaxFrameSize v) = v"
| "setting_val (MaxHeaderListSize v) = v"
| "setting_val (EnableConnectProtocol v) = v"

definition setting_encode :: "setting \<Rightarrow> bytes" where
  "setting_encode s = put_u16 (setting_id s) @ put_u32 (setting_val s)"

text \<open>One iteration of the loop of \<open>Settings::load\<close>; an unknown identifier is ignored.\<close>

definition settings_apply :: "setting option \<Rightarrow> settings_frame \<Rightarrow> frame_error + settings_frame" where
  "settings_apply so s =
     (case so of
        Some (HeaderTableSize v) \<Rightarrow> Inr (s\<lparr>sf_header_table_size := Some v\<rparr>)
      | Some (EnablePush v) \<Rightarrow>
          if v = 0 \<or> v = 1 then Inr (s\<lparr>sf_enable_push := Some v\<rparr>) else Inl InvalidSettingValue
      | Some (MaxConcurrentStreams v) \<Rightarrow> Inr (s\<lparr>sf_max_concurrent_streams := Some v\<rparr>)
      | Some (InitialWindowSize v) \<Rightarrow>
          if 2 ^ 31 - 1 < v then Inl InvalidSettingValue
          else Inr (s\<lparr>sf_initial_window_size := Some v\<rparr>)
      | Some (MaxFrameSize v) \<Rightarrow>
          if DEFAULT_MAX_FRAME_SIZE \<le> v \<and> v \<le> MAX_MAX_FRAME_SIZE
          then Inr (s\<lparr>sf_max_frame_size := Some v\<rparr>) else Inl InvalidSettingValue
      | Some (MaxHeaderListSize v) \<Rightarrow> Inr (s\<lparr>sf_max_header_list_size := Some v\<rparr>)
      | Some (EnableConnectProtocol v) \<Rightarrow>
          if v = 0 \<or> v = 1 then Inr (s\<lparr>sf_enable_connect_protocol := Some v\<rparr>)
          else Inl InvalidSettingValue
      | None \<Rightarrow> Inr s)"

text \<open>\<open>payload.chunks(6)\<close>; the length is a multiple of 6 when the loop is entered.\<close>

fun settings_load_loop :: "bytes \<Rightarrow> settings_frame \<Rightarrow> frame_error + settings_frame" where
  "settings_load_loop (a # b # c # d # e # f # rest) s =
     (case settings_apply (setting_load [a, b, c, d, e, f]) s of
        Inl err \<Rightarrow> Inl err | Inr s' \<Rightarrow> settings_load_loop rest s')"
| "settings_load_loop _ s = Inr s"

definition settings_load :: "head \<Rightarrow> bytes \<Rightarrow> frame_error + settings_frame" where
  "settings_load h payload =
     (if h_stream_id h \<noteq> 0 then Inl InvalidStreamId
      else if h_flag h AND 1 = 1 then
        (if payload \<noteq> [] then Inl InvalidPayloadLength else Inr settings_ack)
      else if length payload mod 6 \<noteq> 0 then Inl InvalidPayloadAckSettings
      else settings_load_loop payload settings_default)"

text \<open>\<open>for_each\<close>: the settings present, in identifier order.\<close>

definition settings_for_each :: "settings_frame \<Rightarrow> setting list" where
  "settings_for_each s =
     (case sf_header_table_size s of Some v \<Rightarrow> [HeaderTableSize v] | None \<Rightarrow> [])
     @ (case sf_enable_push s of Some v \<Rightarrow> [EnablePush v] | None \<Rightarrow> [])
     @ (case sf_max_concurrent_streams s of Some v \<Rightarrow> [MaxConcurrentStreams v] | None \<Rightarrow> [])
     @ (case sf_initial_window_size s of Some v \<Rightarrow> [InitialWindowSize v] | None \<Rightarrow> [])
     @ (case sf_max_frame_size s of Some v \<Rightarrow> [MaxFrameSize v] | None \<Rightarrow> [])
     @ (case sf_max_header_list_size s of Some v \<Rightarrow> [MaxHeaderListSize v] | None \<Rightarrow> [])
     @ (case sf_enable_connect_protocol s of Some v \<Rightarrow> [EnableConnectProtocol v] | None \<Rightarrow> [])"

definition settings_payload_len :: "settings_frame \<Rightarrow> usize" where
  "settings_payload_len s = 6 * length (settings_for_each s)"

definition settings_encode :: "settings_frame \<Rightarrow> bytes" where
  "settings_encode s =
     head_encode (head_new KSettings (if sf_ack s then 1 else 0) 0) (settings_payload_len s)
     @ concat (map setting_encode (settings_for_each s))"

subsection \<open>The prefix of HEADERS\<close>

text \<open>\<open>Headers::load\<close> up to the header block: padding, stream dependency, then the rest.\<close>

record headers_prefix =
  hp_stream_id :: u32
  hp_stream_dep :: "stream_dependency option"
  hp_flags :: byte

definition headers_load :: "head \<Rightarrow> bytes \<Rightarrow> frame_error + headers_prefix \<times> bytes" where
  "headers_load h src =
     (if h_stream_id h = 0 then Inl InvalidStreamId
      else if h_flag h AND 8 = 8 \<and> src = [] then Inl MalformedMessage
      else
        let pad = (if h_flag h AND 8 = 8 then unat (hd src) else 0);
            src1 = (if h_flag h AND 8 = 8 then tl src else src);
            dep =
              (if h_flag h AND 32 = 32 then
                 (if length src1 < 5 then Inl MalformedMessage
                  else case stream_dependency_load (take 5 src1) of
                         Inl e \<Rightarrow> Inl e
                       | Inr d \<Rightarrow>
                           if sd_dependency_id d = h_stream_id h then Inl InvalidDependencyId
                           else Inr (Some d, drop 5 src1))
               else Inr (None, src1))
        in case dep of
             Inl e \<Rightarrow> Inl e
           | Inr (sd, src2) \<Rightarrow>
               if 0 < pad \<and> length src2 < pad then Inl TooMuchPadding
               else Inr (\<lparr>hp_stream_id = h_stream_id h, hp_stream_dep = sd, hp_flags = h_flag h\<rparr>,
                         take (length src2 - pad) src2))"

subsection \<open>Round trips\<close>

lemma kind_new_code [simp]: "k \<noteq> KUnknown \<Longrightarrow> kind_new (kind_code k) = k"
  by (cases k) (simp_all add: kind_new_def)

lemma length_head_encode [simp]: "length (head_encode h n) = HEADER_LEN"
  by (simp add: head_encode_def HEADER_LEN_def)

lemma stream_id_parse_put [simp]:
  "sid < 2 ^ 31 \<Longrightarrow> stream_id_parse (put_u32 sid @ rest) = (sid, False)"
  by (simp add: stream_id_parse_def)

lemma stream_id_parse_put_only [simp]: "sid < 2 ^ 31 \<Longrightarrow> stream_id_parse (put_u32 sid) = (sid, False)"
  using stream_id_parse_put [of sid "[]"] by simp

lemma stream_id_parse_less: "fst (stream_id_parse buf) < 2 ^ 31"
  by (simp add: stream_id_parse_def)

lemma head_parse_less: "h_stream_id (head_parse buf) < 2 ^ 31"
  using stream_id_parse_less [of "drop 5 buf"] by (simp add: head_parse_def)

lemma head_parse_encode:
  assumes "h_kind h \<noteq> KUnknown" and "h_stream_id h < 2 ^ 31"
  shows "head_parse (head_encode h n @ rest) = h"
  using assms
  by (simp add: head_parse_def head_encode_def put_u24_def)

text \<open>The length field the decoder reads off the first three bytes.\<close>

definition wire_payload_len :: "bytes \<Rightarrow> usize" where
  "wire_payload_len buf = be24 (buf ! 0) (buf ! 1) (buf ! 2)"

lemma wire_payload_len_encode:
  "n < 2 ^ 24 \<Longrightarrow> wire_payload_len (head_encode h n @ rest) = n"
  by (simp add: wire_payload_len_def head_encode_def put_u24_def)

lemma drop_head_encode [simp]: "drop HEADER_LEN (head_encode h n @ rest) = rest"
  by simp

text \<open>
  \<open>on_wire h payload\<close> is a frame as the encoders write it. A frame is read back when its bytes
  parse to its head and declare its payload's length.
\<close>

definition on_wire :: "head \<Rightarrow> bytes \<Rightarrow> bytes" where
  "on_wire h payload = head_encode h (length payload) @ payload"

lemma length_on_wire [simp]: "length (on_wire h p) = HEADER_LEN + length p"
  by (simp add: on_wire_def)

lemma on_wire_nonempty [simp]: "on_wire h p \<noteq> []"
  by (simp add: on_wire_def head_encode_def put_u24_def)

lemma on_wire_read:
  assumes "h_kind h \<noteq> KUnknown" and "h_stream_id h < 2 ^ 31" and "length p < 2 ^ 24"
  shows "head_parse (on_wire h p @ rest) = h"
    and "wire_payload_len (on_wire h p @ rest) = length p"
    and "drop HEADER_LEN (take (HEADER_LEN + length p) (on_wire h p @ rest)) = p"
proof -
  show "head_parse (on_wire h p @ rest) = h"
    using head_parse_encode [OF assms(1,2), of "length p" "p @ rest"] by (simp add: on_wire_def)
  show "wire_payload_len (on_wire h p @ rest) = length p"
    using wire_payload_len_encode [OF assms(3), of h "p @ rest"] by (simp add: on_wire_def)
  show "drop HEADER_LEN (take (HEADER_LEN + length p) (on_wire h p @ rest)) = p"
    by (simp add: on_wire_def)
qed

lemma window_update_on_wire [wire_simps]:
  "window_update_encode w =
     on_wire (head_new KWindowUpdate 0 (wu_stream_id w)) (put_u32 (wu_size_increment w))"
  by (simp add: window_update_encode_def on_wire_def)

lemma reset_on_wire [wire_simps]:
  "reset_encode r = on_wire (head_new KReset 0 (rf_stream_id r)) (put_u32 (rf_error_code r))"
  by (simp add: reset_encode_def on_wire_def)

lemma ping_on_wire [wire_simps]:
  "ping_encode p = on_wire (head_new KPing (if pf_ack p then 1 else 0) 0) (pf_payload p)"
  by (simp add: ping_encode_def on_wire_def)

lemma goaway_on_wire [wire_simps]:
  "goaway_encode g = on_wire (head_new KGoAway 0 0)
     (put_u32 (ga_last_stream_id g) @ put_u32 (ga_error_code g) @ ga_debug_data g)"
  by (simp add: goaway_encode_def on_wire_def)

lemma length_setting_encode [simp]: "length (setting_encode s) = 6"
  by (simp add: setting_encode_def)

lemma length_settings_concat [simp]: "length (concat (map setting_encode ss)) = 6 * length ss"
  by (induction ss) auto

lemma settings_on_wire [wire_simps]:
  "settings_encode s = on_wire (head_new KSettings (if sf_ack s then 1 else 0) 0)
     (concat (map setting_encode (settings_for_each s)))"
  by (simp add: settings_encode_def on_wire_def settings_payload_len_def)

lemma window_update_roundtrip_payload:
  "0 < wu_size_increment w \<Longrightarrow> wu_size_increment w < 2 ^ 31 \<Longrightarrow>
   window_update_load (head_new KWindowUpdate 0 (wu_stream_id w)) (put_u32 (wu_size_increment w))
     = Inr w"
  by (simp add: window_update_load_def head_new_def Let_def)

lemma reset_roundtrip_payload:
  "rf_error_code r < 2 ^ 32 \<Longrightarrow>
   reset_load (head_new KReset 0 (rf_stream_id r)) (put_u32 (rf_error_code r)) = Inr r"
  by (simp add: reset_load_def head_new_def)

lemma ping_roundtrip_payload:
  "length (pf_payload p) = 8 \<Longrightarrow>
   ping_load (head_new KPing (if pf_ack p then 1 else 0) 0) (pf_payload p) = Inr p"
  by (simp add: ping_load_def head_new_def)

lemma goaway_roundtrip_payload:
  assumes "ga_last_stream_id g < 2 ^ 31" and "ga_error_code g < 2 ^ 32"
  shows "goaway_load (head_new KGoAway 0 0)
     (put_u32 (ga_last_stream_id g) @ put_u32 (ga_error_code g) @ ga_debug_data g) = Inr g"
  using assms unpack_put_u32 [of "ga_error_code g" "put_u32 (ga_last_stream_id g)" "ga_debug_data g"]
  by (simp add: goaway_load_def head_new_def)

text \<open>What a SETTINGS frame may carry: the ranges the loader accepts, values of 32 bits.\<close>

definition settings_valid :: "settings_frame \<Rightarrow> bool" where
  "settings_valid s \<longleftrightarrow>
     (\<forall>v. sf_header_table_size s = Some v \<longrightarrow> v < 2 ^ 32)
   \<and> (\<forall>v. sf_enable_push s = Some v \<longrightarrow> v \<le> 1)
   \<and> (\<forall>v. sf_max_concurrent_streams s = Some v \<longrightarrow> v < 2 ^ 32)
   \<and> (\<forall>v. sf_initial_window_size s = Some v \<longrightarrow> v \<le> 2 ^ 31 - 1)
   \<and> (\<forall>v. sf_max_frame_size s = Some v \<longrightarrow> DEFAULT_MAX_FRAME_SIZE \<le> v \<and> v \<le> MAX_MAX_FRAME_SIZE)
   \<and> (\<forall>v. sf_max_header_list_size s = Some v \<longrightarrow> v < 2 ^ 32)
   \<and> (\<forall>v. sf_enable_connect_protocol s = Some v \<longrightarrow> v \<le> 1)"

lemma setting_load_encode [simp]:
  assumes "setting_val s < 2 ^ 32"
  shows "setting_load (setting_encode s) = Some s"
proof -
  have "unpack_octets_4 (setting_encode s) 2 = setting_val s"
    using unpack_put_u32 [OF assms, of "put_u16 (setting_id s)" "[]"]
    by (simp add: setting_encode_def)
  then show ?thesis
    by (cases s) (simp_all add: setting_load_def setting_encode_def put_u16_def setting_from_id_def)
qed

lemma settings_loop_step:
  assumes "length raw = 6"
  shows "settings_load_loop (raw @ rest) s =
    (case settings_apply (setting_load raw) s of
       Inl err \<Rightarrow> Inl err | Inr s' \<Rightarrow> settings_load_loop rest s')"
proof -
  obtain a b c d e f where "raw = [a, b, c, d, e, f]"
    using assms by (auto simp: length_Suc_conv eval_nat_numeral)
  then show ?thesis by simp
qed

text \<open>The loop over encoded settings is a fold of \<open>settings_apply\<close>.\<close>

fun settings_fold :: "setting list \<Rightarrow> settings_frame \<Rightarrow> frame_error + settings_frame" where
  "settings_fold [] s = Inr s"
| "settings_fold (x # xs) s =
     (case settings_apply (Some x) s of Inl e \<Rightarrow> Inl e | Inr s' \<Rightarrow> settings_fold xs s')"

lemma settings_loop_fold:
  "(\<forall>x\<in>set xs. setting_val x < 2 ^ 32) \<Longrightarrow>
   settings_load_loop (concat (map setting_encode xs)) s = settings_fold xs s"
  by (induction xs arbitrary: s) (simp_all add: settings_loop_step split: sum.splits)

lemma settings_fold_append:
  "settings_fold (xs @ ys) s =
     (case settings_fold xs s of Inl e \<Rightarrow> Inl e | Inr s' \<Rightarrow> settings_fold ys s')"
  by (induction xs arbitrary: s) (auto split: sum.splits)

lemma in_set_case_option:
  "x \<in> set (case so of Some v \<Rightarrow> [C v] | None \<Rightarrow> []) \<longleftrightarrow> (\<exists>v. so = Some v \<and> x = C v)"
  by (cases so) auto

lemma settings_val_bound:
  assumes "settings_valid s" and "x \<in> set (settings_for_each s)"
  shows "setting_val x < 2 ^ 32"
proof -
  obtain ack ht ep mc iw mf mh ec where s: "s = \<lparr>sf_ack = ack, sf_header_table_size = ht,
      sf_enable_push = ep, sf_max_concurrent_streams = mc, sf_initial_window_size = iw,
      sf_max_frame_size = mf, sf_max_header_list_size = mh, sf_enable_connect_protocol = ec\<rparr>"
    by (cases s)
  show ?thesis
    using assms unfolding s
    by (auto simp: settings_for_each_def settings_valid_def MAX_MAX_FRAME_SIZE_def
        in_set_case_option)
qed

text \<open>Setting one optional field, as each part of \<open>settings_for_each\<close> does.\<close>

lemma settings_fold_for_each:
  assumes "settings_valid s"
  shows "settings_fold (settings_for_each s) settings_default = Inr (s\<lparr>sf_ack := False\<rparr>)"
proof -
  obtain ack ht ep mc iw mf mh ec where s: "s = \<lparr>sf_ack = ack, sf_header_table_size = ht,
      sf_enable_push = ep, sf_max_concurrent_streams = mc, sf_initial_window_size = iw,
      sf_max_frame_size = mf, sf_max_header_list_size = mh, sf_enable_connect_protocol = ec\<rparr>"
    by (cases s)
  show ?thesis
    using assms unfolding s
    by (cases ht; cases ep; cases mc; cases iw; cases mf; cases mh; cases ec)
      (simp_all add: settings_for_each_def settings_valid_def settings_apply_def
        settings_default_def le_Suc_eq)
qed

lemma settings_roundtrip_payload:
  assumes "settings_valid s" and "sf_ack s \<Longrightarrow> s = settings_ack"
  shows "settings_load (head_new KSettings (if sf_ack s then 1 else 0) 0)
     (concat (map setting_encode (settings_for_each s))) = Inr s"
proof (cases "sf_ack s")
  case True
  then have "s = settings_ack" using assms(2) by simp
  then show ?thesis
    by (simp add: settings_load_def head_new_def settings_ack_def settings_default_def
        settings_for_each_def)
next
  case False
  have "settings_load_loop (concat (map setting_encode (settings_for_each s))) settings_default
      = Inr (s\<lparr>sf_ack := False\<rparr>)"
    using settings_loop_fold settings_val_bound [OF assms(1)] settings_fold_for_each [OF assms(1)]
    by simp
  then show ?thesis using False by (simp add: settings_load_def head_new_def)
qed

text \<open>The loader admits only settings in range, whatever the payload.\<close>

lemma settings_apply_valid:
  assumes "settings_apply (setting_load raw) s = Inr s'" and "settings_valid s"
  shows "settings_valid s'"
  using assms unpack_octets_4_less [of raw 2]
  by (auto simp: settings_apply_def setting_load_def setting_from_id_def settings_valid_def
      split: if_splits)

lemma settings_loop_valid:
  "settings_load_loop payload s = Inr s' \<Longrightarrow> settings_valid s \<Longrightarrow> settings_valid s'"
  by (induction payload s rule: settings_load_loop.induct)
    (auto split: sum.splits dest: settings_apply_valid)

lemma settings_load_valid: "settings_load h payload = Inr s \<Longrightarrow> settings_valid s"
  by (auto simp: settings_load_def settings_ack_def settings_default_def settings_valid_def
      split: if_splits dest: settings_loop_valid)

subsection \<open>Padding\<close>

lemma strip_padding_flow:
  assumes "strip_padding payload = Inr (len, data)"
  shows "length data + unat len + 1 = length payload"
    and "data = take (length data) (tl payload)"
proof -
  from assms have ne: "payload \<noteq> []" and len: "len = hd payload"
    and lt: "unat len < length payload"
    and data: "data = take (length payload - unat len - 1) (tl payload)"
    by (auto simp: strip_padding_def Let_def split: if_splits)
  show "length data + unat len + 1 = length payload"
    using ne lt data by (simp add: min_def) arith
  then show "data = take (length data) (tl payload)" using data by (simp add: min_def)
qed

text \<open>Flow control counts every byte of the payload, padding included.\<close>

lemma data_load_flow:
  assumes "data_load h payload = Inr d"
  shows "data_flow_controlled_len d = length payload"
    and "length (df_data d) \<le> length payload"
    and "df_stream_id d = h_stream_id h" and "df_stream_id d \<noteq> 0"
  using assms strip_padding_flow
  by (auto simp: data_load_def data_flow_controlled_len_def Let_def
      split: if_splits sum.splits prod.splits) fastforce+

end
