(* ===== verification/Http_Headers.thy ===== *)
theory Http_Headers
  imports Prelude
begin

section \<open>Header maps\<close>

text \<open>
  What the program uses of \<open>http::HeaderMap\<close>, a multimap from names to values. A map is the list
  of its fields in the map's own iteration order: the values of one name stand together, in the
  order they were appended (\<open>grouped\<close>). The order between different names is not specified by the
  crate; the model keeps the order of insertion and nothing proved here depends on it.
\<close>

subsection \<open>Header lists\<close>

text \<open>Names are in lower case (\<open>HeaderName\<close> is normalised).\<close>

type_synonym header_name = string
type_synonym header_value = bytes
type_synonym header_map = "(header_name \<times> header_value) list"

definition header_contains :: "header_map \<Rightarrow> header_name \<Rightarrow> bool" where
  "header_contains flds n \<longleftrightarrow> n \<in> set (map fst flds)"

definition header_get :: "header_map \<Rightarrow> header_name \<Rightarrow> header_value option" where
  "header_get flds n = map_of flds n"

definition header_get_all :: "header_map \<Rightarrow> header_name \<Rightarrow> header_value list" where
  "header_get_all flds n = map snd (filter (\<lambda>f. fst f = n) flds)"

text \<open>\<open>entry(n).or_insert_with(v)\<close>.\<close>

definition header_or_insert :: "header_name \<Rightarrow> header_value \<Rightarrow> header_map \<Rightarrow> header_map" where
  "header_or_insert n v flds = (if header_contains flds n then flds else flds @ [(n, v)])"

text \<open>\<open>append\<close> puts the value behind the last one of its name.\<close>

fun header_append :: "header_name \<Rightarrow> header_value \<Rightarrow> header_map \<Rightarrow> header_map" where
  "header_append n v [] = [(n, v)]"
| "header_append n v (f # flds) =
     (if fst f = n \<and> \<not> header_contains flds n then f # (n, v) # flds
      else f # header_append n v flds)"

definition header_remove :: "header_name \<Rightarrow> header_map \<Rightarrow> header_map" where
  "header_remove n flds = filter (\<lambda>f. fst f \<noteq> n) flds"

text \<open>\<open>insert\<close> replaces every value of the name; an occupied entry keeps its place.\<close>

fun header_insert :: "header_name \<Rightarrow> header_value \<Rightarrow> header_map \<Rightarrow> header_map" where
  "header_insert n v [] = [(n, v)]"
| "header_insert n v (f # flds) =
     (if fst f = n then (n, v) # header_remove n flds else f # header_insert n v flds)"

text \<open>The iterator by value and \<open>drain\<close> name only the first field of a group.\<close>

fun header_drain_from :: "header_name option \<Rightarrow> header_map \<Rightarrow> (header_name option \<times> header_value) list"
where
  "header_drain_from prev [] = []"
| "header_drain_from prev ((n, v) # flds) =
     (if prev = Some n then None else Some n, v) # header_drain_from (Some n) flds"

definition header_drain :: "header_map \<Rightarrow> (header_name option \<times> header_value) list" where
  "header_drain = header_drain_from None"

subsection \<open>Lemmas\<close>

lemma header_get_all_Nil [simp]: "header_get_all [] n = []"
  by (simp add: header_get_all_def)

lemma header_get_all_Cons [simp]:
  "header_get_all ((m, v) # flds) n = (if m = n then v # header_get_all flds n else header_get_all flds n)"
  by (simp add: header_get_all_def)

lemma header_contains_Nil [simp]: "\<not> header_contains [] n"
  by (simp add: header_contains_def)

lemma header_contains_Cons [simp]:
  "header_contains ((m, v) # flds) n \<longleftrightarrow> m = n \<or> header_contains flds n"
  by (auto simp: header_contains_def)

lemma header_contains_get_all: "header_contains flds n \<longleftrightarrow> header_get_all flds n \<noteq> []"
  by (induction flds) (auto split: if_splits)

lemma header_get_all_append [simp]:
  "header_get_all (header_append n v flds) m =
     (if m = n then header_get_all flds n @ [v] else header_get_all flds m)"
proof (induction flds)
  case (Cons f flds)
  then show ?case by (cases f) (auto simp: header_contains_get_all)
qed simp

lemma header_get_all_remove [simp]:
  "header_get_all (header_remove n flds) m = (if m = n then [] else header_get_all flds m)"
  by (induction flds) (auto simp: header_remove_def)

lemma header_get_all_insert [simp]:
  "header_get_all (header_insert n v flds) m = (if m = n then [v] else header_get_all flds m)"
proof (induction flds)
  case (Cons f flds)
  then show ?case by (cases f) auto
qed simp

lemma header_append_set [simp]: "set (header_append n v flds) = insert (n, v) (set flds)"
  by (induction flds) auto

lemma header_remove_set: "set (header_remove n flds) \<subseteq> set flds"
  by (auto simp: header_remove_def)

lemma header_contains_remove [simp]:
  "header_contains (header_remove n flds) m \<longleftrightarrow> m \<noteq> n \<and> header_contains flds m"
  by (simp add: header_contains_get_all)

lemma header_contains_insert [simp]:
  "header_contains (header_insert n v flds) m \<longleftrightarrow> m = n \<or> header_contains flds m"
  by (simp add: header_contains_get_all)

end
