(* ===== verification/Frame_Encoder.thy ===== *)
theory Frame_Encoder
  imports Frame_Wire Http_Headers
begin

section \<open>The outbound half of the codec\<close>

text \<open>
  src/h2/codec.rs, \<open>Encoder\<close> and the frame builders it shares with the connection state; the
  header frames of crates/vendor-h2/src/frame/headers.rs (\<open>Pseudo\<close>, \<open>Headers\<close>,
  \<open>Continuation\<close>, the order of \<open>Iter\<close>, \<open>EncodingHeaderBlock::encode\<close>).

  Two things come from outside this model and are arguments: the HPACK encoder
  (\<open>hpack_ops\<close>, a state of type \<open>'h\<close>), and the crate \<open>http\<close> with the clock behind the
  \<open>date\<close> value (\<open>http_ops\<close>). \<open>StreamId::from\<close> asserts that an identifier has 31 bits; the
  operations that take an identifier from the caller test it (\<open>stream_id_from\<close>) and the
  encoders below are used on identifiers in range.
\<close>

subsection \<open>The fields of a message\<close>

definition check_send_fields :: "header_map \<Rightarrow> pyerr + unit" where
  "check_send_fields flds =
     (if header_contains flds ''connection'' \<or> header_contains flds ''transfer-encoding''
         \<or> header_contains flds ''upgrade'' \<or> header_contains flds ''keep-alive''
         \<or> header_contains flds ''proxy-connection''
      then Inl (map_user_err MalformedHeaders)
      else case header_get flds ''te'' of
             Some te \<Rightarrow> if te \<noteq> ascii ''trailers'' then Inl (map_user_err MalformedHeaders) else Inr ()
           | None \<Rightarrow> Inr ())"

record pseudo =
  p_method :: "string option"
  p_scheme :: "string option"
  p_authority :: "string option"
  p_path :: "string option"
  p_protocol :: "string option"
  p_status :: "u16 option"

definition pseudo_default :: pseudo where
  "pseudo_default = \<lparr>p_method = None, p_scheme = None, p_authority = None, p_path = None,
     p_protocol = None, p_status = None\<rparr>"

definition pseudo_response :: "u16 \<Rightarrow> pseudo" where
  "pseudo_response status = pseudo_default\<lparr>p_status := Some status\<rparr>"

text \<open>\<open>StatusCode::is_informational\<close>: 1xx.\<close>

definition pseudo_is_informational :: "pseudo \<Rightarrow> bool" where
  "pseudo_is_informational p =
     (case p_status p of Some st \<Rightarrow> 100 \<le> st \<and> st < 200 | None \<Rightarrow> False)"

record uri =
  u_scheme :: "string option"
  u_authority :: "string option"
  u_path_and_query :: "string option"

definition pseudo_request :: "string \<Rightarrow> uri \<Rightarrow> string option \<Rightarrow> pseudo" where
  "pseudo_request mth u protocol =
     (let (scheme, path) =
            (if mth = ''CONNECT'' \<and> protocol = None then (None, None)
             else
               let path0 = (case u_path_and_query u of Some v \<Rightarrow> v | None \<Rightarrow> '''');
                   path1 = (if path0 \<noteq> '''' then path0
                            else if mth = ''OPTIONS'' then ''*'' else ''/'')
               in (u_scheme u, Some path1))
      in \<lparr>p_method = Some mth, p_scheme = scheme, p_authority = u_authority u, p_path = path,
          p_protocol = protocol, p_status = None\<rparr>)"

subsection \<open>What HPACK encodes\<close>

datatype hpack_header =
    HField header_name header_value
  | HAuthority string | HMethod string | HScheme string | HPath string | HProtocol string
  | HStatus u16

text \<open>The order of \<open>Iter\<close>: the pseudo-headers first, then the fields.\<close>

definition header_iter :: "pseudo \<Rightarrow> header_map \<Rightarrow> hpack_header list" where
  "header_iter p flds =
     (case p_method p of Some v \<Rightarrow> [HMethod v] | None \<Rightarrow> [])
     @ (case p_scheme p of Some v \<Rightarrow> [HScheme v] | None \<Rightarrow> [])
     @ (case p_authority p of Some v \<Rightarrow> [HAuthority v] | None \<Rightarrow> [])
     @ (case p_path p of Some v \<Rightarrow> [HPath v] | None \<Rightarrow> [])
     @ (case p_protocol p of Some v \<Rightarrow> [HProtocol v] | None \<Rightarrow> [])
     @ (case p_status p of Some v \<Rightarrow> [HStatus v] | None \<Rightarrow> [])
     @ map (\<lambda>(n, v). HField n v) flds"

record 'h hpack_ops =
  hpk_default :: 'h
  hpk_encode :: "hpack_header list \<Rightarrow> 'h \<Rightarrow> 'h \<times> bytes"
  hpk_update_max_size :: "usize \<Rightarrow> 'h \<Rightarrow> 'h"

record http_ops =
  http_method_from_bytes :: "string \<Rightarrow> string + string"
  http_uri_parse :: "string \<Rightarrow> string + uri"
  http_uri_build :: "string \<Rightarrow> string \<Rightarrow> string \<Rightarrow> string + uri"
  http_date_value :: header_value

text \<open>\<open>StatusCode::from_u16\<close> accepts the three-digit codes.\<close>

definition status_from_u16 :: "u16 \<Rightarrow> string + u16" where
  "status_from_u16 st = (if 100 \<le> st \<and> st < 1000 then Inr st else Inl ''invalid status code'')"

definition value_err :: "string \<Rightarrow> string \<Rightarrow> pyerr" where
  "value_err what e = ValueError (what @ '': '' @ e)"

subsection \<open>HEADERS and CONTINUATION\<close>

record headers_frame =
  hf_stream_id :: u32
  hf_flags :: byte
  hf_pseudo :: pseudo
  hf_fields :: header_map

definition END_HEADERS :: byte where "END_HEADERS = 4"

definition headers_new :: "u32 \<Rightarrow> pseudo \<Rightarrow> header_map \<Rightarrow> headers_frame" where
  "headers_new sid p flds =
     \<lparr>hf_stream_id = sid, hf_flags = END_HEADERS, hf_pseudo = p, hf_fields = flds\<rparr>"

definition headers_set_end_stream :: "headers_frame \<Rightarrow> headers_frame" where
  "headers_set_end_stream h = h\<lparr>hf_flags := hf_flags h OR 1\<rparr>"

definition headers_trailers :: "u32 \<Rightarrow> header_map \<Rightarrow> headers_frame" where
  "headers_trailers sid flds = headers_set_end_stream (headers_new sid pseudo_default flds)"

text \<open>
  \<open>EncodingHeaderBlock::encode\<close> into a buffer limited to \<open>limit\<close> more bytes: one frame,
  and the part of the block that did not fit. \<open>None\<close> is the failed assertion on the length field
  (\<open>payload_len_be[0..5]\<close> all zero).
\<close>

definition block_encode :: "head \<Rightarrow> usize \<Rightarrow> bytes \<Rightarrow> (bytes \<times> bytes option) option" where
  "block_encode h limit hpack =
     (let remaining = limit - HEADER_LEN
      in if remaining < length hpack then
           (if 2 ^ 24 \<le> remaining then None
            else Some (head_encode (h\<lparr>h_flag := h_flag h - END_HEADERS\<rparr>) remaining
                       @ take remaining hpack, Some (drop remaining hpack)))
         else
           (if 2 ^ 24 \<le> length hpack then None
            else Some (head_encode h (length hpack) @ hpack, None)))"

text \<open>The loop over CONTINUATION frames. It would not end on a limit that leaves no room for
  payload, so it is a partial function: not returning is \<open>None\<close>.\<close>

partial_function (option) continuation_loop :: "u32 \<Rightarrow> usize \<Rightarrow> bytes \<Rightarrow> bytes option" where
  "continuation_loop sid limit block =
     (case block_encode (head_new KContinuation END_HEADERS sid) limit block of
        None \<Rightarrow> None
      | Some (out, None) \<Rightarrow> Some out
      | Some (out, Some rest) \<Rightarrow>
          Option.bind (continuation_loop sid limit rest) (\<lambda>rem. Some (out @ rem)))"

definition encode_headers_frame ::
  "'h hpack_ops \<Rightarrow> headers_frame \<Rightarrow> usize \<Rightarrow> 'h \<Rightarrow> 'h \<times> bytes option" where
  "encode_headers_frame hp f max_frame_size enc =
     (let limit = HEADER_LEN + max_frame_size;
          (enc', block) = hpk_encode hp (header_iter (hf_pseudo f) (hf_fields f)) enc
      in (enc', case block_encode (head_new KHeaders (hf_flags f) (hf_stream_id f)) limit block of
                  None \<Rightarrow> None
                | Some (out, None) \<Rightarrow> Some out
                | Some (out, Some rest) \<Rightarrow>
                    Option.bind (continuation_loop (hf_stream_id f) limit rest)
                      (\<lambda>rem. Some (out @ rem))))"

subsection \<open>The encoder and the frame builders\<close>

definition check_max_frame_size :: "u32 \<Rightarrow> pyerr + unit" where
  "check_max_frame_size v =
     (if DEFAULT_MAX_FRAME_SIZE \<le> v \<and> v \<le> MAX_MAX_FRAME_SIZE then Inr ()
      else Inl (ValueError (''max_frame_size must be in ['' @ show_nat DEFAULT_MAX_FRAME_SIZE @ '', ''
              @ show_nat MAX_MAX_FRAME_SIZE @ ''], got '' @ show_nat v)))"

record 'h encoder =
  enc_hpack :: 'h
  enc_send_max_frame_size :: usize

definition encoder_new :: "'h hpack_ops \<Rightarrow> 'h encoder" where
  "encoder_new hp =
     \<lparr>enc_hpack = hpk_default hp, enc_send_max_frame_size = DEFAULT_MAX_FRAME_SIZE\<rparr>"

definition enc_encode_headers ::
  "'h hpack_ops \<Rightarrow> headers_frame \<Rightarrow> 'h encoder \<Rightarrow> 'h encoder \<times> bytes option" where
  "enc_encode_headers hp f enc =
     (case encode_headers_frame hp f (enc_send_max_frame_size enc) (enc_hpack enc) of
        (h', out) \<Rightarrow> (enc\<lparr>enc_hpack := h'\<rparr>, out))"

definition enc_encode_data :: "u32 \<Rightarrow> bytes \<Rightarrow> bool \<Rightarrow> 'h encoder \<Rightarrow> pyerr + bytes" where
  "enc_encode_data sid data end_stream enc =
     (if enc_send_max_frame_size enc < length data
      then Inl (user_payload_too_big (length data) (enc_send_max_frame_size enc))
      else Inr (head_encode (head_new KData (if end_stream then 1 else 0) sid) (length data) @ data))"

definition enc_set_send_header_table_size ::
  "'h hpack_ops \<Rightarrow> u32 \<Rightarrow> 'h encoder \<Rightarrow> 'h encoder" where
  "enc_set_send_header_table_size hp v enc =
     enc\<lparr>enc_hpack := hpk_update_max_size hp v (enc_hpack enc)\<rparr>"

definition enc_set_send_max_frame_size :: "u32 \<Rightarrow> 'h encoder \<Rightarrow> 'h encoder \<times> (pyerr + unit)" where
  "enc_set_send_max_frame_size v enc =
     (case check_max_frame_size v of
        Inl e \<Rightarrow> (enc, Inl e)
      | Inr _ \<Rightarrow> (enc\<lparr>enc_send_max_frame_size := v\<rparr>, Inr ()))"

definition build_request_headers ::
  "http_ops \<Rightarrow> u32 \<Rightarrow> string \<Rightarrow> string \<Rightarrow> header_map \<Rightarrow> bool \<Rightarrow> string option \<Rightarrow> string option
   \<Rightarrow> pyerr + headers_frame" where
  "build_request_headers http sid mth target flds end_stream scheme authority =
     (case http_method_from_bytes http mth of
        Inl e \<Rightarrow> Inl (value_err ''invalid method'' e)
      | Inr m \<Rightarrow>
     (case http_uri_parse http target of
        Inl e \<Rightarrow> Inl (value_err ''invalid url'' e)
      | Inr u \<Rightarrow>
     (case (if u_scheme u \<noteq> None \<and> u_authority u \<noteq> None then Inr u
            else case (scheme, authority) of
              (Some sc, Some au) \<Rightarrow>
                (case http_uri_build http sc au target of
                   Inl e \<Rightarrow> Inl (value_err ''invalid url'' e) | Inr u' \<Rightarrow> Inr u')
            | _ \<Rightarrow> Inl (ValueError (''request target is a bare path but the connection has no ''
                @ ''authority; pass authority=... to H2Connection or use an absolute-URL target''))) of
        Inl e \<Rightarrow> Inl e
      | Inr uri \<Rightarrow>
          (let h = headers_new sid (pseudo_request m uri None) flds
           in Inr (if end_stream then headers_set_end_stream h else h)))))"

definition build_response_headers ::
  "http_ops \<Rightarrow> u32 \<Rightarrow> u16 \<Rightarrow> header_map \<Rightarrow> bool \<Rightarrow> bool \<Rightarrow> pyerr + headers_frame" where
  "build_response_headers http sid status flds end_stream auto_date =
     (case status_from_u16 status of
        Inl e \<Rightarrow> Inl (value_err ''invalid status'' e)
      | Inr st \<Rightarrow>
          (let flds' = (if auto_date then header_or_insert ''date'' (http_date_value http) flds
                          else flds);
               h = headers_new sid (pseudo_response st) flds'
           in Inr (if end_stream then headers_set_end_stream h else h)))"

definition build_trailers :: "u32 \<Rightarrow> header_map \<Rightarrow> headers_frame" where
  "build_trailers sid flds = headers_trailers sid flds"

definition encode_window_update :: "u32 \<Rightarrow> u32 \<Rightarrow> bytes" where
  "encode_window_update sid increment =
     window_update_encode \<lparr>wu_stream_id = sid, wu_size_increment = increment\<rparr>"

definition encode_rst_stream :: "u32 \<Rightarrow> u32 \<Rightarrow> bytes" where
  "encode_rst_stream sid code = reset_encode \<lparr>rf_stream_id = sid, rf_error_code = code\<rparr>"

definition encode_go_away :: "u32 \<Rightarrow> u32 \<Rightarrow> bytes \<Rightarrow> bytes" where
  "encode_go_away last_id code debug =
     goaway_encode \<lparr>ga_last_stream_id = last_id, ga_error_code = code, ga_debug_data = debug\<rparr>"

definition encode_ping :: "bytes \<Rightarrow> bool \<Rightarrow> pyerr + bytes" where
  "encode_ping payload ack =
     (if length payload \<noteq> 8 then Inl (ValueError ''ping payload must be exactly 8 bytes'')
      else Inr (ping_encode \<lparr>pf_ack = ack, pf_payload = payload\<rparr>))"

definition encode_settings_ack :: bytes where
  "encode_settings_ack = settings_encode settings_ack"

definition settings_of_values :: "settings_values \<Rightarrow> settings_frame" where
  "settings_of_values v = settings_default
     \<lparr>sf_header_table_size := sv_header_table_size v,
      sf_enable_push := map_option (\<lambda>b. if b then 1 else 0) (sv_enable_push v),
      sf_max_concurrent_streams := sv_max_concurrent_streams v,
      sf_initial_window_size := sv_initial_window_size v,
      sf_max_frame_size := sv_max_frame_size v,
      sf_max_header_list_size := sv_max_header_list_size v\<rparr>"

definition encode_settings :: "settings_values \<Rightarrow> pyerr + bytes" where
  "encode_settings v =
     (case (case sv_max_frame_size v of Some f \<Rightarrow> check_max_frame_size f | None \<Rightarrow> Inr ()) of
        Inl e \<Rightarrow> Inl e
      | Inr _ \<Rightarrow>
     (case sv_initial_window_size v of
        Some w \<Rightarrow>
          if 2 ^ 31 - 1 < w
          then Inl (ValueError (''initial_window_size must be <= '' @ show_nat (2 ^ 31 - 1)
                 @ '', got '' @ show_nat w))
          else Inr (settings_encode (settings_of_values v))
      | None \<Rightarrow> Inr (settings_encode (settings_of_values v))))"

subsection \<open>The header block on the wire\<close>

lemma check_max_frame_size_ok:
  "check_max_frame_size v = Inr () \<longleftrightarrow> DEFAULT_MAX_FRAME_SIZE \<le> v \<and> v \<le> MAX_MAX_FRAME_SIZE"
  by (simp add: check_max_frame_size_def)

text \<open>A block cut into pieces of at most \<open>n\<close> bytes; an empty block is one empty piece.\<close>

function pieces :: "nat \<Rightarrow> bytes \<Rightarrow> bytes list" where
  "pieces n b = (if 0 < n \<and> n < length b then take n b # pieces n (drop n b) else [b])"
  by auto
termination by (relation "measure (\<lambda>(n, b). length b)") auto

declare pieces.simps [simp del]

lemma concat_pieces [simp]: "concat (pieces n b) = b"
proof (induction n b rule: pieces.induct)
  case (1 n b)
  then show ?case by (subst pieces.simps) auto
qed

lemma pieces_length: "0 < n \<Longrightarrow> p \<in> set (pieces n b) \<Longrightarrow> length p \<le> n"
proof (induction n b rule: pieces.induct)
  case (1 n b)
  then show ?case by (subst (asm) (2) pieces.simps) (auto split: if_splits)
qed

lemma pieces_nonempty [simp]: "pieces n b \<noteq> []"
  by (subst pieces.simps) simp

text \<open>The pieces as frames: every frame but the last has END\_HEADERS cleared.\<close>

fun piece_frames :: "head \<Rightarrow> bytes list \<Rightarrow> bytes" where
  "piece_frames h [] = []"
| "piece_frames h [p] = on_wire h p"
| "piece_frames h (p # q # ps) =
     on_wire (h\<lparr>h_flag := h_flag h - END_HEADERS\<rparr>) p
     @ piece_frames (head_new KContinuation END_HEADERS (h_stream_id h)) (q # ps)"

lemma piece_frames_Cons:
  "ps \<noteq> [] \<Longrightarrow> piece_frames h (p # ps) =
     on_wire (h\<lparr>h_flag := h_flag h - END_HEADERS\<rparr>) p
     @ piece_frames (head_new KContinuation END_HEADERS (h_stream_id h)) ps"
  by (cases ps) simp_all

lemma block_encode_last:
  "length b \<le> n \<Longrightarrow> n < 2 ^ 24 \<Longrightarrow>
   block_encode h (HEADER_LEN + n) b = Some (on_wire h b, None)"
  by (simp add: block_encode_def on_wire_def Let_def)

lemma block_encode_more:
  "n < length b \<Longrightarrow> n < 2 ^ 24 \<Longrightarrow>
   block_encode h (HEADER_LEN + n) b =
     Some (on_wire (h\<lparr>h_flag := h_flag h - END_HEADERS\<rparr>) (take n b), Some (drop n b))"
  by (simp add: block_encode_def on_wire_def Let_def)

lemma continuation_loop_pieces:
  assumes "0 < n" and "n < 2 ^ 24"
  shows "continuation_loop sid (HEADER_LEN + n) b =
    Some (piece_frames (head_new KContinuation END_HEADERS sid) (pieces n b))"
  using assms
proof (induction n b rule: pieces.induct)
  case (1 n b)
  show ?case
  proof (cases "n < length b")
    case True
    have "pieces n b = take n b # pieces n (drop n b)"
      using True 1(2) by (subst pieces.simps) simp
    then show ?thesis
      using 1 True
      by (subst continuation_loop.simps)
        (simp add: block_encode_more piece_frames_Cons head_new_def)
  next
    case False
    have "pieces n b = [b]" using False by (subst pieces.simps) simp
    then show ?thesis
      using 1 False by (subst continuation_loop.simps) (simp add: block_encode_last)
  qed
qed

lemma encode_headers_frame_pieces:
  assumes "0 < n" and "n < 2 ^ 24"
    and "hpk_encode hp (header_iter (hf_pseudo f) (hf_fields f)) enc = (enc', block)"
  shows "encode_headers_frame hp f n enc = (enc',
    Some (piece_frames (head_new KHeaders (hf_flags f) (hf_stream_id f)) (pieces n block)))"
proof (cases "n < length block")
  case True
  have "pieces n block = take n block # pieces n (drop n block)"
    using True assms(1) by (subst pieces.simps) simp
  then show ?thesis
    using assms True
    by (simp add: encode_headers_frame_def block_encode_more continuation_loop_pieces
        piece_frames_Cons head_new_def)
next
  case False
  have "pieces n block = [block]" using False by (subst pieces.simps) simp
  then show ?thesis
    using assms False by (simp add: encode_headers_frame_def block_encode_last)
qed

definition enc_ok :: "'h encoder \<Rightarrow> bool" where
  "enc_ok enc \<longleftrightarrow>
     DEFAULT_MAX_FRAME_SIZE \<le> enc_send_max_frame_size enc
     \<and> enc_send_max_frame_size enc \<le> MAX_MAX_FRAME_SIZE"

lemma enc_ok_new [simp]: "enc_ok (encoder_new hp)"
  by (simp add: enc_ok_def encoder_new_def DEFAULT_MAX_FRAME_SIZE_def MAX_MAX_FRAME_SIZE_def)

lemma enc_ok_set_frame_size: "enc_ok enc \<Longrightarrow> enc_ok (fst (enc_set_send_max_frame_size v enc))"
  by (simp add: enc_ok_def enc_set_send_max_frame_size_def check_max_frame_size_def)

lemma enc_ok_set_table [simp]: "enc_ok (enc_set_send_header_table_size hp v enc) = enc_ok enc"
  by (simp add: enc_ok_def enc_set_send_header_table_size_def)

lemma enc_ok_encode [simp]: "enc_ok (fst (enc_encode_headers hp f enc)) = enc_ok enc"
  by (simp add: enc_ok_def enc_encode_headers_def split: prod.splits)

text \<open>Header frames are written whatever the block's size.\<close>

lemma enc_encode_headers_total:
  assumes "enc_ok enc"
  shows "\<exists>out. snd (enc_encode_headers hp f enc) = Some out \<and> out \<noteq> []"
proof -
  let ?n = "enc_send_max_frame_size enc"
  obtain enc' block where
    e: "hpk_encode hp (header_iter (hf_pseudo f) (hf_fields f)) (enc_hpack enc) = (enc', block)"
    by fastforce
  have n: "0 < ?n" "?n < 2 ^ 24"
    using assms by (simp_all add: enc_ok_def DEFAULT_MAX_FRAME_SIZE_def MAX_MAX_FRAME_SIZE_def)
  have "piece_frames h ps \<noteq> []" if "ps \<noteq> []" for h ps
    using that by (induction h ps rule: piece_frames.induct) auto
  then show ?thesis
    by (simp add: enc_encode_headers_def encode_headers_frame_pieces [OF n e])
qed

lemma encode_settings_valid:
  assumes "encode_settings v = Inr out"
    and "\<forall>x \<in> {sv_header_table_size v, sv_max_concurrent_streams v, sv_max_header_list_size v}.
           \<forall>n. x = Some n \<longrightarrow> n < 2 ^ 32"
  shows "settings_valid (settings_of_values v)"
    and "out = settings_encode (settings_of_values v)"
  using assms
  by (auto simp: encode_settings_def settings_of_values_def settings_valid_def settings_default_def
      check_max_frame_size_def split: option.splits if_splits sum.splits)

end
