(* ===== verification/Hpack_Decode.thy ===== *)
theory Hpack_Decode
  imports Frame_Encoder
begin

section \<open>The HPACK decoder\<close>

text \<open>
  crates/vendor-h2/src/hpack/decoder.rs and header.rs: the integer and string representations, the
  dynamic table with its eviction, the static table, and the decoding loop. The source is a cursor
  over a buffer, \<open>(buf, pos)\<close>: a failed item leaves the buffer as far as it was consumed, which is
  what decoding resumes from.

  Arguments of the model: the Huffman decoder (\<open>hl_huffman\<close>) and the validations of the crate
  \<open>http\<close> for methods, status codes, header names and values.
\<close>

datatype hpack_error =
    InvalidRepresentation | InvalidIntegerPrefix | InvalidTableIndex | InvalidHuffmanCode
  | InvalidUtf8 | InvalidStatusCode | InvalidPseudoheader | InvalidMaxDynamicSize
  | IntegerOverflow | NeedMore

record hpack_lib =
  hl_huffman :: "bytes \<Rightarrow> bytes option"
  hl_method_from_bytes :: "bytes \<Rightarrow> string option"
  hl_status_from_bytes :: "bytes \<Rightarrow> u16 option"
  hl_name_from_lowercase :: "bytes \<Rightarrow> header_name option"
  hl_value_from_bytes :: "bytes \<Rightarrow> header_value option"

subsection \<open>Cursors\<close>

type_synonym cursor = "bytes \<times> nat"

definition cur_remaining :: "cursor \<Rightarrow> nat" where
  "cur_remaining c = length (fst c) - snd c"

definition cur_advance :: "nat \<Rightarrow> cursor \<Rightarrow> cursor" where
  "cur_advance n c = (fst c, snd c + n)"

definition peek_u8 :: "cursor \<Rightarrow> byte option" where
  "peek_u8 c = (if 0 < cur_remaining c then Some (fst c ! snd c) else None)"

text \<open>\<open>take\<close>: the bytes leave the buffer for good.\<close>

definition cur_take :: "nat \<Rightarrow> cursor \<Rightarrow> bytes \<times> cursor" where
  "cur_take n c = (take n (drop (snd c) (fst c)), (drop (snd c + n) (fst c), 0))"

definition cur_consume :: "cursor \<Rightarrow> cursor" where
  "cur_consume c = snd (cur_take 0 c)"

lemma cur_remaining_advance [simp]: "cur_remaining (cur_advance n c) = cur_remaining c - n"
  by (simp add: cur_remaining_def cur_advance_def)

lemma cur_remaining_consume [simp]: "cur_remaining (cur_consume c) = cur_remaining c"
  by (simp add: cur_remaining_def cur_consume_def cur_take_def)

lemma cur_remaining_take [simp]: "cur_remaining (snd (cur_take n c)) = cur_remaining c - n"
  by (simp add: cur_remaining_def cur_take_def)

subsection \<open>Integers\<close>

definition DECODE_MAX_BYTES :: nat where "DECODE_MAX_BYTES = 5"

text \<open>The continuation bytes: \<open>n\<close> of at most five have been read.\<close>

function decode_varint :: "nat \<Rightarrow> nat \<Rightarrow> usize \<Rightarrow> cursor \<Rightarrow> cursor \<times> (hpack_error + usize)" where
  "decode_varint n shift ret c =
     (case peek_u8 c of
        None \<Rightarrow> (c, Inl NeedMore)
      | Some b \<Rightarrow>
          let c' = cur_advance 1 c;
              ret' = ret + unat (b AND 127) * 2 ^ shift
          in if b AND 128 = 0 then (c', Inr ret')
             else if n + 1 = DECODE_MAX_BYTES then (c', Inl IntegerOverflow)
             else decode_varint (n + 1) (shift + 7) ret' c')"
  by pat_completeness auto
termination
  by (relation "measure (\<lambda>(n, shift, ret, c). cur_remaining c)")
    (auto simp: peek_u8_def split: if_splits)

declare decode_varint.simps [simp del]

definition decode_int :: "nat \<Rightarrow> cursor \<Rightarrow> cursor \<times> (hpack_error + usize)" where
  "decode_int prefix_size c =
     (if prefix_size < 1 \<or> 8 < prefix_size then (c, Inl InvalidIntegerPrefix)
      else case peek_u8 c of
        None \<Rightarrow> (c, Inl NeedMore)
      | Some b \<Rightarrow>
          let mask = 2 ^ prefix_size - 1;
              c' = cur_advance 1 c;
              ret = unat b mod 2 ^ prefix_size
          in if ret < mask then (c', Inr ret) else decode_varint 1 0 ret c')"

lemma decode_varint_progress:
  "decode_varint n shift ret c = (c', Inr v) \<Longrightarrow> cur_remaining c' < cur_remaining c"
proof (induction n shift ret c rule: decode_varint.induct)
  case (1 n shift ret c)
  show ?case
  proof (cases "peek_u8 c")
    case None
    then show ?thesis using 1(2) by (subst (asm) decode_varint.simps) simp
  next
    case (Some b)
    let ?ret = "ret + unat (b AND 127) * 2 ^ shift"
    have pos: "0 < cur_remaining c" using Some by (simp add: peek_u8_def split: if_splits)
    show ?thesis
    proof (cases "b AND 128 = 0 \<or> n + 1 = DECODE_MAX_BYTES")
      case True
      then show ?thesis
        using 1(2) Some pos
        by (subst (asm) decode_varint.simps) (auto simp: Let_def split: if_splits)
    next
      case False
      then have "decode_varint (n + 1) (shift + 7) ?ret (cur_advance 1 c) = (c', Inr v)"
        using 1(2) Some by (subst (asm) decode_varint.simps) (simp add: Let_def)
      from 1(1) [OF Some refl refl _ _ this] False have
        "cur_remaining c' < cur_remaining (cur_advance 1 c)" by simp
      then show ?thesis by simp
    qed
  qed
qed

lemma decode_int_progress:
  "decode_int p c = (c', Inr v) \<Longrightarrow> cur_remaining c' < cur_remaining c"
  by (auto simp: decode_int_def Let_def peek_u8_def split: option.splits if_splits
      dest!: decode_varint_progress)

subsection \<open>Headers\<close>

text \<open>\<open>BytesStr\<close> holds UTF-8; the model reads it as a string of 8-bit characters.\<close>

definition text_of :: "bytes \<Rightarrow> string" where
  "text_of bs = map (\<lambda>b. char_of (unat b)) bs"

text \<open>\<open>std::str::from_utf8\<close> (Unicode, table 3-7).\<close>

definition cont_byte :: "byte \<Rightarrow> bool" where
  "cont_byte b \<longleftrightarrow> 128 \<le> unat b \<and> unat b < 192"

fun utf8_valid :: "bytes \<Rightarrow> bool" where
  "utf8_valid [] = True"
| "utf8_valid (a # rest) =
     (let n = unat a in
      if n < 128 then utf8_valid rest
      else if 194 \<le> n \<and> n < 224 then
        (case rest of b # r \<Rightarrow> cont_byte b \<and> utf8_valid r | _ \<Rightarrow> False)
      else if 224 \<le> n \<and> n < 240 then
        (case rest of b # c # r \<Rightarrow>
           cont_byte b \<and> cont_byte c \<and> (n = 224 \<longrightarrow> 160 \<le> unat b) \<and> (n = 237 \<longrightarrow> unat b < 160)
           \<and> utf8_valid r | _ \<Rightarrow> False)
      else if 240 \<le> n \<and> n < 245 then
        (case rest of b # c # d # r \<Rightarrow>
           cont_byte b \<and> cont_byte c \<and> cont_byte d
           \<and> (n = 240 \<longrightarrow> 144 \<le> unat b) \<and> (n = 244 \<longrightarrow> unat b < 144) \<and> utf8_valid r
         | _ \<Rightarrow> False)
      else False)"

definition bytes_str :: "bytes \<Rightarrow> hpack_error + string" where
  "bytes_str v = (if utf8_valid v then Inr (text_of v) else Inl InvalidUtf8)"

definition opt_err :: "hpack_error \<Rightarrow> 'a option \<Rightarrow> hpack_error + 'a" where
  "opt_err e x = (case x of Some a \<Rightarrow> Inr a | None \<Rightarrow> Inl e)"

definition map_ok :: "('a \<Rightarrow> 'b) \<Rightarrow> hpack_error + 'a \<Rightarrow> hpack_error + 'b" where
  "map_ok f r = (case r of Inl e \<Rightarrow> Inl e | Inr a \<Rightarrow> Inr (f a))"

definition header_new :: "hpack_lib \<Rightarrow> bytes \<Rightarrow> bytes \<Rightarrow> hpack_error + hpack_header" where
  "header_new hl name v =
     (if name = [] then Inl NeedMore
      else if hd name = 58 then
        (let pname = text_of (tl name)
         in if pname = ''authority'' then map_ok HAuthority (bytes_str v)
            else if pname = ''method'' then
              map_ok HMethod (opt_err InvalidUtf8 (hl_method_from_bytes hl v))
            else if pname = ''scheme'' then map_ok HScheme (bytes_str v)
            else if pname = ''path'' then map_ok HPath (bytes_str v)
            else if pname = ''protocol'' then map_ok HProtocol (bytes_str v)
            else if pname = ''status'' then
              map_ok HStatus (opt_err InvalidUtf8 (hl_status_from_bytes hl v))
            else Inl InvalidPseudoheader)
      else
        (case hl_name_from_lowercase hl name of
           None \<Rightarrow> Inl InvalidUtf8
         | Some n \<Rightarrow> map_ok (HField n) (opt_err InvalidUtf8 (hl_value_from_bytes hl v))))"

fun header_len :: "hpack_header \<Rightarrow> usize" where
  "header_len (HField n v) = 32 + length n + length v"
| "header_len (HAuthority v) = 32 + 10 + length v"
| "header_len (HMethod v) = 32 + 7 + length v"
| "header_len (HScheme v) = 32 + 7 + length v"
| "header_len (HPath v) = 32 + 5 + length v"
| "header_len (HProtocol v) = 32 + 9 + length v"
| "header_len (HStatus _) = 32 + 7 + 3"

text \<open>\<open>e.name().into_entry(value)\<close>.\<close>

fun name_into_entry :: "hpack_lib \<Rightarrow> hpack_header \<Rightarrow> bytes \<Rightarrow> hpack_error + hpack_header" where
  "name_into_entry hl (HField n _) v = map_ok (HField n) (opt_err InvalidUtf8 (hl_value_from_bytes hl v))"
| "name_into_entry hl (HAuthority _) v = map_ok HAuthority (bytes_str v)"
| "name_into_entry hl (HMethod _) v = map_ok HMethod (opt_err InvalidUtf8 (hl_method_from_bytes hl v))"
| "name_into_entry hl (HScheme _) v = map_ok HScheme (bytes_str v)"
| "name_into_entry hl (HPath _) v = map_ok HPath (bytes_str v)"
| "name_into_entry hl (HProtocol _) v = map_ok HProtocol (bytes_str v)"
| "name_into_entry hl (HStatus _) v = map_ok HStatus (opt_err InvalidStatusCode (hl_status_from_bytes hl v))"

subsection \<open>The static table\<close>

text \<open>\<open>get_static\<close>: entries 1 to 31 and 32 to 61.\<close>

definition static_low :: "hpack_header list" where
  "static_low =
     [HAuthority '''',
      HMethod ''GET'',
      HMethod ''POST'',
      HPath ''/'',
      HPath ''/index.html'',
      HScheme ''http'',
      HScheme ''https'',
      HStatus 200,
      HStatus 204,
      HStatus 206,
      HStatus 304,
      HStatus 400,
      HStatus 404,
      HStatus 500,
      HField ''accept-charset'' [],
      HField ''accept-encoding'' (ascii ''gzip, deflate''),
      HField ''accept-language'' [],
      HField ''accept-ranges'' [],
      HField ''accept'' [],
      HField ''access-control-allow-origin'' [],
      HField ''age'' [],
      HField ''allow'' [],
      HField ''authorization'' [],
      HField ''cache-control'' [],
      HField ''content-disposition'' [],
      HField ''content-encoding'' [],
      HField ''content-language'' [],
      HField ''content-length'' [],
      HField ''content-location'' [],
      HField ''content-range'' [],
      HField ''content-type'' []]"

definition static_high :: "hpack_header list" where
  "static_high =
     [HField ''cookie'' [],
      HField ''date'' [],
      HField ''etag'' [],
      HField ''expect'' [],
      HField ''expires'' [],
      HField ''from'' [],
      HField ''host'' [],
      HField ''if-match'' [],
      HField ''if-modified-since'' [],
      HField ''if-none-match'' [],
      HField ''if-range'' [],
      HField ''if-unmodified-since'' [],
      HField ''last-modified'' [],
      HField ''link'' [],
      HField ''location'' [],
      HField ''max-forwards'' [],
      HField ''proxy-authenticate'' [],
      HField ''proxy-authorization'' [],
      HField ''range'' [],
      HField ''referer'' [],
      HField ''refresh'' [],
      HField ''retry-after'' [],
      HField ''server'' [],
      HField ''set-cookie'' [],
      HField ''strict-transport-security'' [],
      HField ''transfer-encoding'' [],
      HField ''user-agent'' [],
      HField ''vary'' [],
      HField ''via'' [],
      HField ''www-authenticate'' []]"

definition get_static :: "usize \<Rightarrow> hpack_header" where
  "get_static idx = (static_low @ static_high) ! (idx - 1)"

subsection \<open>The dynamic table\<close>

record hpack_table =
  ht_entries :: "hpack_header list"
  ht_size :: usize
  ht_max_size :: usize

definition table_new :: "usize \<Rightarrow> hpack_table" where
  "table_new max_size = \<lparr>ht_entries = [], ht_size = 0, ht_max_size = max_size\<rparr>"

definition table_get :: "usize \<Rightarrow> hpack_table \<Rightarrow> hpack_error + hpack_header" where
  "table_get index t =
     (if index = 0 then Inl InvalidTableIndex
      else if index \<le> 61 then Inr (get_static index)
      else if index - 62 < length (ht_entries t) then Inr (ht_entries t ! (index - 62))
      else Inl InvalidTableIndex)"

text \<open>\<open>reserve\<close>: evict from the back until \<open>size\<close> more fit, or the table is empty.\<close>

function table_reserve :: "usize \<Rightarrow> hpack_table \<Rightarrow> hpack_table" where
  "table_reserve sz t =
     (if ht_size t + sz \<le> ht_max_size t \<or> ht_entries t = [] then t
      else table_reserve sz
             (t\<lparr>ht_entries := butlast (ht_entries t),
                ht_size := usize_sub (ht_size t) (header_len (last (ht_entries t)))\<rparr>))"
  by pat_completeness auto
termination
  by (relation "measure (\<lambda>(sz, t). length (ht_entries t))") auto

declare table_reserve.simps [simp del]

definition table_insert :: "hpack_header \<Rightarrow> hpack_table \<Rightarrow> hpack_table" where
  "table_insert entry t =
     (let len = header_len entry;
          t1 = table_reserve len t
      in if ht_size t1 + len \<le> ht_max_size t1
         then t1\<lparr>ht_size := ht_size t1 + len, ht_entries := entry # ht_entries t1\<rparr> else t1)"

text \<open>\<open>consolidate\<close> panics (\<open>None\<close>) on a non-zero size without entries.\<close>

function table_consolidate :: "hpack_table \<Rightarrow> hpack_table option" where
  "table_consolidate t =
     (if ht_size t \<le> ht_max_size t then Some t
      else if ht_entries t = [] then None
      else table_consolidate
             (t\<lparr>ht_size := usize_sub (ht_size t) (header_len (last (ht_entries t))),
                ht_entries := butlast (ht_entries t)\<rparr>))"
  by pat_completeness auto
termination
  by (relation "measure (\<lambda>t. length (ht_entries t))") auto

declare table_consolidate.simps [simp del]

definition table_set_max_size :: "usize \<Rightarrow> hpack_table \<Rightarrow> hpack_table option" where
  "table_set_max_size sz t = table_consolidate (t\<lparr>ht_max_size := sz\<rparr>)"

subsection \<open>The decoder\<close>

record hpack_decoder =
  hd_max_size_update :: "usize option"
  hd_last_max_update :: usize
  hd_table :: hpack_table

definition hpack_decoder_new :: "usize \<Rightarrow> hpack_decoder" where
  "hpack_decoder_new sz =
     \<lparr>hd_max_size_update = None, hd_last_max_update = sz, hd_table = table_new sz\<rparr>"

definition queue_size_update :: "usize \<Rightarrow> hpack_decoder \<Rightarrow> hpack_decoder" where
  "queue_size_update sz d =
     d\<lparr>hd_max_size_update :=
         Some (case hd_max_size_update d of Some v \<Rightarrow> max v sz | None \<Rightarrow> sz)\<rparr>"

record string_marker =
  sm_offset :: nat
  sm_len :: nat
  sm_string :: "bytes option"

definition try_decode_string ::
  "hpack_lib \<Rightarrow> cursor \<Rightarrow> cursor \<times> (hpack_error + string_marker)" where
  "try_decode_string hl c =
     (case peek_u8 c of
        None \<Rightarrow> (c, Inl NeedMore)
      | Some hdr \<Rightarrow>
          and_then (decode_int 7 c) (\<lambda>c1 len.
            if cur_remaining c1 < len then (c1, Inl NeedMore)
            else
              let offset = snd c1 - snd c
              in if hdr AND 128 = 128 then
                   (cur_advance len c1,
                    case hl_huffman hl (take len (drop (snd c1) (fst c1))) of
                      None \<Rightarrow> Inl InvalidHuffmanCode
                    | Some str \<Rightarrow> Inr \<lparr>sm_offset = offset, sm_len = len, sm_string = Some str\<rparr>)
                 else (cur_advance len c1,
                       Inr \<lparr>sm_offset = offset, sm_len = len, sm_string = None\<rparr>)))"

definition marker_consume :: "string_marker \<Rightarrow> cursor \<Rightarrow> bytes \<times> cursor" where
  "marker_consume m c =
     (let c1 = cur_advance (sm_offset m) c
      in case sm_string m of
           Some str \<Rightarrow> (str, cur_advance (sm_len m) c1)
         | None \<Rightarrow> cur_take (sm_len m) c1)"

definition decode_string :: "hpack_lib \<Rightarrow> cursor \<Rightarrow> cursor \<times> (hpack_error + bytes)" where
  "decode_string hl c =
     and_then (try_decode_string hl c) (\<lambda>c1 m.
       case marker_consume m (fst c1, snd c) of (str, c2) \<Rightarrow> (c2, Inr str))"

definition decode_indexed ::
  "hpack_decoder \<Rightarrow> cursor \<Rightarrow> cursor \<times> (hpack_error + hpack_header)" where
  "decode_indexed d c =
     and_then (decode_int 7 c) (\<lambda>c1 index. (c1, table_get index (hd_table d)))"

definition decode_literal ::
  "hpack_lib \<Rightarrow> bool \<Rightarrow> hpack_decoder \<Rightarrow> cursor \<Rightarrow> cursor \<times> (hpack_error + hpack_header)" where
  "decode_literal hl index d c =
     and_then (decode_int (if index then 6 else 4) c) (\<lambda>c1 table_idx.
       if table_idx = 0 then
         and_then (try_decode_string hl c1) (\<lambda>c2 name_marker.
         and_then (try_decode_string hl c2) (\<lambda>c3 value_marker.
           case marker_consume name_marker (fst c3, snd c1) of (name, c4) \<Rightarrow>
           case marker_consume value_marker c4 of (v, c5) \<Rightarrow> (c5, header_new hl name v)))
       else
         case table_get table_idx (hd_table d) of
           Inl e \<Rightarrow> (c1, Inl e)
         | Inr e \<Rightarrow> and_then (decode_string hl c1) (\<lambda>c2 v. (c2, name_into_entry hl e v)))"

datatype representation =
    Indexed | LiteralWithIndexing | LiteralWithoutIndexing | LiteralNeverIndexed | SizeUpdate

definition representation_load :: "byte \<Rightarrow> hpack_error + representation" where
  "representation_load b =
     (if b AND 128 = 128 then Inr Indexed
      else if b AND 64 = 64 then Inr LiteralWithIndexing
      else if b AND 240 = 0 then Inr LiteralWithoutIndexing
      else if b AND 240 = 16 then Inr LiteralNeverIndexed
      else if b AND 224 = 32 then Inr SizeUpdate
      else Inl InvalidRepresentation)"

text \<open>One iteration of the decoding loop: the header it yields, or a size update (\<open>None\<close>). An
  abort is the panic of \<open>consolidate\<close>.\<close>

datatype hpack_abort = HErr hpack_error | HPanic

definition decode_item ::
  "hpack_lib \<Rightarrow> bool \<Rightarrow> hpack_decoder \<Rightarrow> cursor
   \<Rightarrow> (hpack_decoder \<times> cursor) \<times> (hpack_abort + hpack_header option)" where
  "decode_item hl can_resize d c =
     (case peek_u8 c of
        None \<Rightarrow> ((d, c), Inr None)
      | Some ty \<Rightarrow>
     (case representation_load ty of
        Inl e \<Rightarrow> ((d, c), Inl (HErr e))
      | Inr Indexed \<Rightarrow>
          (case decode_indexed d c of
             (c1, Inl e) \<Rightarrow> ((d, c1), Inl (HErr e))
           | (c1, Inr entry) \<Rightarrow> ((d, cur_consume c1), Inr (Some entry)))
      | Inr LiteralWithIndexing \<Rightarrow>
          (case decode_literal hl True d c of
             (c1, Inl e) \<Rightarrow> ((d, c1), Inl (HErr e))
           | (c1, Inr entry) \<Rightarrow>
               ((d\<lparr>hd_table := table_insert entry (hd_table d)\<rparr>, cur_consume c1), Inr (Some entry)))
      | Inr SizeUpdate \<Rightarrow>
          (if \<not> can_resize then ((d, c), Inl (HErr InvalidMaxDynamicSize))
           else case decode_int 5 c of
             (c1, Inl e) \<Rightarrow> ((d, c1), Inl (HErr e))
           | (c1, Inr new_size) \<Rightarrow>
               if hd_last_max_update d < new_size then ((d, c1), Inl (HErr InvalidMaxDynamicSize))
               else case table_set_max_size new_size (hd_table d) of
                      None \<Rightarrow> ((d, c1), Inl HPanic)
                    | Some t \<Rightarrow> ((d\<lparr>hd_table := t\<rparr>, cur_consume c1), Inr None))
      | Inr _ \<Rightarrow>
          (case decode_literal hl False d c of
             (c1, Inl e) \<Rightarrow> ((d, c1), Inl (HErr e))
           | (c1, Inr entry) \<Rightarrow> ((d, cur_consume c1), Inr (Some entry)))))"

subsection \<open>Progress and the decoding loop\<close>

lemma cont_byte_bits: "((128 :: byte) OR b) AND 127 = b AND 127" "((128 :: byte) OR b) AND 128 = 128"
  by (simp_all add: bit.conj_disj_distrib2)

lemma unat_and_127: "unat ((b::byte) AND 127) = unat b mod 128"
proof -
  have "unat b AND 127 = unat b mod 128"
    using take_bit_eq_mask [of 7 "unat b"] by (simp add: mask_eq_exp_minus_1 take_bit_eq_mod)
  then show ?thesis by (simp add: unsigned_and_eq)
qed
lemma and_128_zero: 
  assumes "unat (b::byte) < 128" shows "b AND 128 = 0"
proof -
  have "unat (b AND 127) = unat b" using assms by (simp add: unat_and_127)
  then have "b AND 127 = b" by (simp only: word_unat_eq_iff)
  then have "b AND 128 = (b AND 127) AND 128" by simp
  also have "\<dots> = b AND (127 AND 128)" by (simp only: and.assoc)
  finally show ?thesis by simp
qed


lemma decode_varint_buf: "decode_varint n shift ret c = (c', r) \<Longrightarrow> fst c' = fst c"
proof (induction n shift ret c rule: decode_varint.induct)
  case (1 n shift ret c)
  show ?case
  proof (cases "peek_u8 c")
    case None
    then show ?thesis using 1(2) by (subst (asm) decode_varint.simps) auto
  next
    case (Some b)
    let ?ret = "ret + unat (b AND 127) * 2 ^ shift"
    show ?thesis
    proof (cases "b AND 128 = 0 \<or> n + 1 = DECODE_MAX_BYTES")
      case True
      then show ?thesis
        using 1(2) Some
        by (subst (asm) decode_varint.simps) (auto simp: Let_def cur_advance_def split: if_splits)
    next
      case False
      then have "decode_varint (n + 1) (shift + 7) ?ret (cur_advance 1 c) = (c', r)"
        using 1(2) Some by (subst (asm) decode_varint.simps) (simp add: Let_def)
      from 1(1) [OF Some refl refl _ _ this] False show ?thesis by (simp add: cur_advance_def)
    qed
  qed
qed

lemma decode_varint_buf_fst: "fst (fst (decode_varint n shift ret c)) = fst c"
  by (rule decode_varint_buf [of n shift ret c _ "snd (decode_varint n shift ret c)"]) simp

lemma decode_int_buf: "fst (fst (decode_int p c)) = fst c"
  by (simp add: decode_int_def Let_def cur_advance_def decode_varint_buf_fst split: option.split)

lemma try_decode_string_buf: "fst (fst (try_decode_string hl c)) = fst c"
  using decode_int_buf [of 7 c]
  by (cases "decode_int 7 c"; cases "snd (decode_int 7 c)")
    (auto simp: try_decode_string_def Let_def cur_advance_def split: option.splits)

lemma marker_consume_le: "cur_remaining (snd (marker_consume m c)) \<le> cur_remaining c"
  by (simp add: marker_consume_def Let_def split: option.splits)

lemma decode_string_le: 
  assumes "decode_string hl c = (c', Inr v)" shows "cur_remaining c' \<le> cur_remaining c"
proof -
  obtain c1 m where t: "try_decode_string hl c = (c1, Inr m)"
    and m: "marker_consume m (fst c1, snd c) = (v, c')"
    using assms by (cases "try_decode_string hl c"; cases "snd (try_decode_string hl c)")
      (auto simp: decode_string_def split: prod.splits)
  have "fst c1 = fst c" using try_decode_string_buf [of hl c] t by simp
  then show ?thesis using marker_consume_le [of m "(fst c1, snd c)"] m by simp
qed

lemma decode_literal_progress:
  assumes "decode_literal hl index d c = (c', Inr h)"
  shows "cur_remaining c' < cur_remaining c"
proof -
  obtain c1 idx where i: "decode_int (if index then 6 else 4) c = (c1, Inr idx)"
    using assms by (cases "decode_int (if index then 6 else 4) c";
        cases "snd (decode_int (if index then 6 else 4) c)") (auto simp: decode_literal_def)
  have lt: "cur_remaining c1 < cur_remaining c" by (rule decode_int_progress [OF i])
  show ?thesis
  proof (cases "idx = 0")
    case False
    then obtain e v where "decode_string hl c1 = (c', Inr v)"
      using assms i by (cases "decode_string hl c1"; cases "snd (decode_string hl c1)")
        (auto simp: decode_literal_def split: sum.splits)
    with decode_string_le lt show ?thesis by fastforce
  next
    case True
    obtain c2 nm where n: "try_decode_string hl c1 = (c2, Inr nm)"
      using assms i True by (cases "try_decode_string hl c1"; cases "snd (try_decode_string hl c1)")
        (auto simp: decode_literal_def)
    obtain c3 vm where v: "try_decode_string hl c2 = (c3, Inr vm)"
      using assms i True n by (cases "try_decode_string hl c2"; cases "snd (try_decode_string hl c2)")
        (auto simp: decode_literal_def)
    obtain name c4 val where c4: "marker_consume nm (fst c3, snd c1) = (name, c4)"
      and c5: "marker_consume vm c4 = (val, c')"
      using assms i True n v by (auto simp: decode_literal_def split: prod.splits)
    have "fst c3 = fst c1"
      using try_decode_string_buf [of hl c1] try_decode_string_buf [of hl c2] n v by simp
    then have "cur_remaining (fst c3, snd c1) = cur_remaining c1" by simp
    then show ?thesis
      using marker_consume_le [of nm "(fst c3, snd c1)"] marker_consume_le [of vm c4] c4 c5 lt
      by simp
  qed
qed

lemma decode_item_progress:
  assumes "decode_item hl cr d c = ((d', c'), Inr r)" and "peek_u8 c \<noteq> None"
  shows "cur_remaining c' < cur_remaining c"
  using assms decode_literal_progress [of hl _ d c] decode_int_progress [of _ c]
  by (auto simp: decode_item_def decode_indexed_def and_then_def
      split: option.splits sum.splits representation.splits prod.splits if_splits)

text \<open>
  \<open>Decoder::decode\<close>: the callback \<open>f\<close> takes each header and says whether to stop
  (\<open>ControlFlow::Break\<close>). The loop ends because every item consumes input.
\<close>

function decode_loop ::
  "hpack_lib \<Rightarrow> (hpack_header \<Rightarrow> 'a \<Rightarrow> 'a \<times> bool) \<Rightarrow> bool \<Rightarrow> hpack_decoder \<Rightarrow> cursor \<Rightarrow> 'a
   \<Rightarrow> hpack_decoder \<times> cursor \<times> 'a \<times> (hpack_abort + unit)" where
  "decode_loop hl f can_resize d c acc =
     (if peek_u8 c = None then (d, c, acc, Inr ())
      else case decode_item hl can_resize d c of
        ((d', c'), Inl e) \<Rightarrow> (d', c', acc, Inl e)
      | ((d', c'), Inr None) \<Rightarrow> decode_loop hl f can_resize d' c' acc
      | ((d', c'), Inr (Some h)) \<Rightarrow>
          (case f h acc of
             (acc', True) \<Rightarrow> (d', c', acc', Inr ())
           | (acc', False) \<Rightarrow> decode_loop hl f False d' c' acc'))"
  by pat_completeness auto
termination
  by (relation "measure (\<lambda>(hl, f, cr, d, c, acc). cur_remaining c)")
    (auto dest: decode_item_progress [OF sym])

declare decode_loop.simps [simp del]

definition hpack_decode ::
  "hpack_lib \<Rightarrow> (hpack_header \<Rightarrow> 'a \<Rightarrow> 'a \<times> bool) \<Rightarrow> hpack_decoder \<Rightarrow> bytes \<Rightarrow> 'a
   \<Rightarrow> hpack_decoder \<times> bytes \<times> 'a \<times> (hpack_abort + unit)" where
  "hpack_decode hl f d src acc =
     (let d0 = (case hd_max_size_update d of
                  Some sz \<Rightarrow> d\<lparr>hd_last_max_update := sz, hd_max_size_update := None\<rparr>
                | None \<Rightarrow> d)
      in case decode_loop hl f True d0 (src, 0) acc of
           (d', c', acc', r) \<Rightarrow> (d', fst c', acc', r))"

subsection \<open>The table invariant\<close>

definition table_ok :: "hpack_table \<Rightarrow> bool" where
  "table_ok t \<longleftrightarrow>
     ht_size t = sum_list (map header_len (ht_entries t)) \<and> ht_size t \<le> ht_max_size t"

definition table_sized :: "hpack_table \<Rightarrow> bool" where
  "table_sized t \<longleftrightarrow> ht_size t = sum_list (map header_len (ht_entries t))"

lemma table_ok_new [simp]: "table_ok (table_new n)"
  by (simp add: table_ok_def table_new_def)

lemma header_len_ge: "32 \<le> header_len h"
  by (cases h) auto

lemma sized_pop:
  assumes "table_sized t" and "ht_entries t \<noteq> []"
  shows "header_len (last (ht_entries t)) \<le> ht_size t"
    and "ht_size t - header_len (last (ht_entries t))
         = sum_list (map header_len (butlast (ht_entries t)))"
proof -
  have "ht_size t = sum_list (map header_len (butlast (ht_entries t) @ [last (ht_entries t)]))"
    using assms by (simp add: table_sized_def)
  then have "ht_size t = sum_list (map header_len (butlast (ht_entries t)))
      + header_len (last (ht_entries t))"
    by (simp only: map_append sum_list.append) simp
  then show "header_len (last (ht_entries t)) \<le> ht_size t"
    and "ht_size t - header_len (last (ht_entries t))
         = sum_list (map header_len (butlast (ht_entries t)))" by simp_all
qed

text \<open>Eviction takes entries from the old end only, and just enough.\<close>

lemma table_reserve_spec:
  "table_sized t \<Longrightarrow>
   table_sized (table_reserve sz t)
   \<and> ht_max_size (table_reserve sz t) = ht_max_size t
   \<and> (\<exists>n. ht_entries (table_reserve sz t) = take n (ht_entries t))
   \<and> ht_size (table_reserve sz t) \<le> ht_size t
   \<and> (sz \<le> ht_max_size t \<longrightarrow> ht_size (table_reserve sz t) + sz \<le> ht_max_size t)"
proof (induction sz t rule: table_reserve.induct)
  case (1 sz t)
  show ?case
  proof (cases "ht_size t + sz \<le> ht_max_size t \<or> ht_entries t = []")
    case True
    then have "table_reserve sz t = t" by (subst table_reserve.simps) simp
    moreover have "ht_entries t = [] \<Longrightarrow> ht_size t = 0" using 1(2) by (simp add: table_sized_def)
    ultimately show ?thesis
      using 1(2) True by (auto intro: exI [of _ "length (ht_entries t)"])
  next
    case False
    let ?t = "t\<lparr>ht_entries := butlast (ht_entries t),
                ht_size := usize_sub (ht_size t) (header_len (last (ht_entries t)))\<rparr>"
    have "table_reserve sz t = table_reserve sz ?t"
      using False by (subst table_reserve.simps) simp
    moreover have "table_sized ?t"
      using sized_pop [OF 1(2)] False by (simp add: table_sized_def)
    moreover have "ht_size ?t \<le> ht_size t"
      using sized_pop(1) [OF 1(2)] False by simp
    ultimately show ?thesis
      using 1(1) [OF False]
      by (auto simp: butlast_conv_take take_take intro: le_trans)
  qed
qed

lemma table_insert_ok:
  assumes "table_ok t"
  shows "table_ok (table_insert h t)" and "ht_max_size (table_insert h t) = ht_max_size t"
  using assms table_reserve_spec [of t "header_len h"]
  by (auto simp: table_insert_def table_ok_def table_sized_def Let_def)

text \<open>An entry that fits becomes the first of the table; one that does not empties it.\<close>

lemma table_insert_entries:
  assumes "table_ok t"
  shows "header_len h \<le> ht_max_size t \<Longrightarrow>
           \<exists>n. ht_entries (table_insert h t) = h # take n (ht_entries t)"
    and "ht_max_size t < header_len h \<Longrightarrow> ht_entries (table_insert h t) = []"
proof -
  have t: "table_sized t" using assms by (simp add: table_ok_def table_sized_def)
  note r = table_reserve_spec [OF t, of "header_len h"]
  show "\<exists>n. ht_entries (table_insert h t) = h # take n (ht_entries t)"
    if "header_len h \<le> ht_max_size t"
    using r that by (auto simp: table_insert_def Let_def)
  show "ht_entries (table_insert h t) = []" if "ht_max_size t < header_len h"
  proof -
    have "ht_entries (table_reserve sz t) = []" if "ht_max_size t < sz" for sz t
      using that
      by (induction sz t rule: table_reserve.induct) (subst table_reserve.simps, auto)
    from this [OF that] r that show ?thesis by (auto simp: table_insert_def Let_def)
  qed
qed

text \<open>Shrinking the table never reaches the panic.\<close>

lemma table_consolidate_spec:
  "table_sized t \<Longrightarrow>
   \<exists>t'. table_consolidate t = Some t' \<and> table_ok t' \<and> ht_max_size t' = ht_max_size t
        \<and> (\<exists>n. ht_entries t' = take n (ht_entries t))"
proof (induction t rule: table_consolidate.induct)
  case (1 t)
  show ?case
  proof (cases "ht_size t \<le> ht_max_size t")
    case True
    then show ?thesis
      using 1(2) by (subst table_consolidate.simps)
        (auto simp: table_ok_def table_sized_def intro: exI [of _ "length (ht_entries t)"])
  next
    case False
    let ?t = "t\<lparr>ht_size := usize_sub (ht_size t) (header_len (last (ht_entries t))),
                ht_entries := butlast (ht_entries t)\<rparr>"
    have ne: "ht_entries t \<noteq> []" using 1(2) False by (auto simp: table_sized_def)
    have "table_consolidate t = table_consolidate ?t"
      using False ne by (subst table_consolidate.simps) simp
    moreover have "table_sized ?t"
      using sized_pop [OF 1(2) ne] by (simp add: table_sized_def)
    ultimately show ?thesis
      using 1(1) [OF False ne] by (auto simp: butlast_conv_take take_take)
  qed
qed

lemma table_set_max_size_ok:
  "table_ok t \<Longrightarrow> \<exists>t'. table_set_max_size sz t = Some t' \<and> table_ok t' \<and> ht_max_size t' = sz"
  using table_consolidate_spec [of "t\<lparr>ht_max_size := sz\<rparr>"]
  by (auto simp: table_set_max_size_def table_ok_def table_sized_def)

text \<open>Nor does any header block.\<close>

lemma decode_item_ok:
  assumes "decode_item hl cr d c = ((d', c'), r)" and "table_ok (hd_table d)"
  shows "table_ok (hd_table d')" and "r \<noteq> Inl HPanic"
proof -
  obtain T where set_size: "\<And>sz. table_set_max_size sz (hd_table d) = Some (T sz)"
    "\<And>sz. table_ok (T sz)"
    using table_set_max_size_ok [OF assms(2)] by metis
  show "table_ok (hd_table d')" and "r \<noteq> Inl HPanic"
    using assms set_size table_insert_ok(1) [OF assms(2)]
    by (auto simp: decode_item_def split: option.splits sum.splits representation.splits prod.splits
        if_splits)
qed

lemma decode_loop_ok:
  "decode_loop hl f cr d c acc = (d', c', acc', r) \<Longrightarrow> table_ok (hd_table d) \<Longrightarrow>
   table_ok (hd_table d') \<and> r \<noteq> Inl HPanic"
proof (induction hl f cr d c acc rule: decode_loop.induct)
  case (1 hl f cr d c acc)
  obtain d1 c1 y where item: "decode_item hl cr d c = ((d1, c1), y)" by (metis surj_pair)
  note ok = decode_item_ok [OF item 1(4)]
  show ?case
  proof (cases "peek_u8 c = None")
    case True
    then show ?thesis using 1(3,4) by (subst (asm) decode_loop.simps) auto
  next
    case False
    note run = 1(3) [unfolded decode_loop.simps [of hl f cr d c acc] item]
    note IH = 1(1,2) [OF False item [symmetric] refl]
    show ?thesis
    proof (cases y)
      case (Inl e)
      then show ?thesis using run False ok by auto
    next
      case (Inr h)
      show ?thesis
      proof (cases h)
        case None
        then show ?thesis using run False Inr IH(1) ok(1) by simp
      next
        case (Some x)
        obtain acc1 stop where f: "f x acc = (acc1, stop)" by fastforce
        show ?thesis
          using run False Inr Some f IH(2) [OF _ _ f [symmetric]] ok(1) by (cases stop) auto
      qed
    qed
  qed
qed

lemma hpack_decode_ok:
  assumes "hpack_decode hl f d src acc = (d', src', acc', r)" and "table_ok (hd_table d)"
  shows "table_ok (hd_table d')" and "r \<noteq> Inl HPanic"
proof -
  define d0 where "d0 = (case hd_max_size_update d of
      Some sz \<Rightarrow> d\<lparr>hd_last_max_update := sz, hd_max_size_update := None\<rparr> | None \<Rightarrow> d)"
  obtain d2 c2 acc2 r2 where l: "decode_loop hl f True d0 (src, 0) acc = (d2, c2, acc2, r2)"
    by (metis surj_pair)
  have "table_ok (hd_table d0)" using assms(2) by (simp add: d0_def split: option.split)
  from decode_loop_ok [OF l this] show "table_ok (hd_table d')" and "r \<noteq> Inl HPanic"
    using assms(1) by (simp_all add: hpack_decode_def Let_def d0_def [symmetric] l)
qed

subsection \<open>Integers written and read\<close>

text \<open>\<open>encode_int\<close> of crates/vendor-h2/src/hpack/encoder.rs. The encoder writes any value; the
  decoder stops at five bytes, so the round trip holds up to \<open>2 ^ 28\<close> above the prefix.\<close>

function encode_varint :: "nat \<Rightarrow> bytes" where
  "encode_varint v =
     (if 128 \<le> v then (128 OR word_of_nat v) # encode_varint (v div 2 ^ 7) else [word_of_nat v])"
  by auto
termination by (relation "measure id") auto

declare encode_varint.simps [simp del]

definition encode_int_one_byte :: "usize \<Rightarrow> nat \<Rightarrow> bool" where
  "encode_int_one_byte v prefix_bits \<longleftrightarrow> v < 2 ^ prefix_bits - 1"

definition encode_int :: "usize \<Rightarrow> nat \<Rightarrow> byte \<Rightarrow> bytes" where
  "encode_int v prefix_bits first_byte =
     (if encode_int_one_byte v prefix_bits then [first_byte OR word_of_nat v]
      else let low = 2 ^ prefix_bits - 1
           in (first_byte OR word_of_nat low) # encode_varint (v - low))"

lemma peek_at [simp]: "peek_u8 (pre @ b # rest, length pre) = Some b"
  by (simp add: peek_u8_def cur_remaining_def)

lemma decode_encode_varint:
  "v < 128 ^ (5 - n) \<Longrightarrow> n < 5 \<Longrightarrow>
   decode_varint n shift ret (pre @ encode_varint v @ rest, length pre)
   = ((pre @ encode_varint v @ rest, length pre + length (encode_varint v)), Inr (ret + v * 2 ^ shift))"
proof (induction v arbitrary: n shift ret pre rule: encode_varint.induct)
  case (1 v)
  show ?case
  proof (cases "128 \<le> v")
    case True
    let ?b = "128 OR word_of_nat v :: byte"
    have e: "encode_varint v = ?b # encode_varint (v div 128)"
      using True by (subst encode_varint.simps) simp
    have n: "n + 1 < 5"
    proof (rule ccontr)
      assume "\<not> n + 1 < 5"
      then have "n = 4" using 1(3) by simp
      then show False using 1(2) True by simp
    qed
    have lt: "v div 128 < 128 ^ (5 - (n + 1))"
    proof -
      have "5 - n = Suc (5 - (n + 1))" using n by simp
      then have "v < 128 * 128 ^ (5 - (n + 1))" using 1(2) by simp
      then show ?thesis by (simp add: less_mult_imp_div_less mult.commute)
    qed
    have bit: "unat (?b AND 127) = v mod 128" "?b AND 128 \<noteq> 0"
      using mod_mod_cancel [of 128 256 v] by (simp_all add: cont_byte_bits unat_and_127)
    have "decode_varint n shift ret (pre @ ?b # encode_varint (v div 128) @ rest, length pre)
      = decode_varint (n + 1) (shift + 7) (ret + v mod 128 * 2 ^ shift)
          ((pre @ [?b]) @ encode_varint (v div 128) @ rest, length (pre @ [?b]))"
      using n bit
      by (subst decode_varint.simps) (simp add: cur_advance_def Let_def DECODE_MAX_BYTES_def)
    also have "\<dots> = (((pre @ [?b]) @ encode_varint (v div 128) @ rest,
        length (pre @ [?b]) + length (encode_varint (v div 128))),
        Inr (ret + v mod 128 * 2 ^ shift + v div 128 * 2 ^ (shift + 7)))"
      using 1(1) [OF True, of "n + 1" "shift + 7" "ret + v mod 128 * 2 ^ shift" "pre @ [?b]"] lt n
      by simp
    also have "ret + v mod 128 * 2 ^ shift + v div 128 * 2 ^ (shift + 7) = ret + v * 2 ^ shift"
    proof -
      have "v mod 128 * 2 ^ shift + v div 128 * 2 ^ (shift + 7)
          = (v div 128 * 128 + v mod 128) * 2 ^ shift"
        by (simp only: power_add distrib_right) simp
      also have "\<dots> = v * 2 ^ shift" by (simp only: div_mult_mod_eq)
      finally show ?thesis by simp
    qed
    finally show ?thesis by (simp add: e)
  next
    case False
    have e: "encode_varint v = [word_of_nat v]"
      using False by (subst encode_varint.simps) simp
    have "unat (word_of_nat v :: byte) = v" using False by simp
    then have "(word_of_nat v :: byte) AND 128 = 0" "unat ((word_of_nat v :: byte) AND 127) = v"
      using False by (simp_all add: and_128_zero unat_and_127)
    then show ?thesis
      by (subst decode_varint.simps) (simp add: e cur_advance_def Let_def)
  qed
qed

lemma low_bits_or:
  assumes "take_bit p (first :: byte) = 0" and "v < 2 ^ p" and "p \<le> 8"
  shows "unat (first OR word_of_nat v) mod 2 ^ p = v"
proof -
  have "v < 256" using assms(2,3) power_increasing [of p 8 "2::nat"] by simp
  have "unat (first OR word_of_nat v) mod 2 ^ p = unat (take_bit p (first OR word_of_nat v))"
    by (metis take_bit_eq_mod unsigned_take_bit_eq)
  also have "\<dots> = unat (take_bit p (word_of_nat v :: byte))" using assms(1) by simp
  also have "\<dots> = take_bit p v"
    using \<open>v < 256\<close> assms(3) by (simp add: unsigned_take_bit_eq)
  finally show ?thesis using assms(2) by (simp add: take_bit_eq_mod)
qed

lemma decode_int_at:
  assumes "1 \<le> p" and "p \<le> 8" and "take_bit p first = 0" and "v - (2 ^ p - 1) < 2 ^ 28"
  shows "decode_int p (pre @ encode_int v p first @ rest, length pre) =
    ((pre @ encode_int v p first @ rest, length pre + length (encode_int v p first)), Inr v)"
proof -
  have p: "(2 :: nat) \<le> 2 ^ p" using assms(1) power_increasing [of 1 p "2::nat"] by simp
  show ?thesis
  proof (cases "encode_int_one_byte v p")
    case True
    then show ?thesis
      using assms low_bits_or [OF assms(3), of v]
      by (simp add: decode_int_def encode_int_def encode_int_one_byte_def Let_def cur_advance_def)
  next
    case False
    let ?b = "first OR word_of_nat (2 ^ p - 1)" and ?w = "v - (2 ^ p - 1)"
    have "unat ?b mod 2 ^ p = 2 ^ p - 1"
      by (rule low_bits_or [OF assms(3) _ assms(2)]) (use p in simp)
    moreover have "encode_int v p first = ?b # encode_varint ?w"
      using False by (simp add: encode_int_def Let_def)
    moreover have "decode_varint 1 0 (2 ^ p - 1) ((pre @ [?b]) @ encode_varint ?w @ rest, length (pre @ [?b]))
      = (((pre @ [?b]) @ encode_varint ?w @ rest, length (pre @ [?b]) + length (encode_varint ?w)),
         Inr (2 ^ p - 1 + ?w * 2 ^ 0))"
      by (rule decode_encode_varint) (use assms(4) in simp_all)
    moreover have "2 ^ p - 1 \<le> v" using False by (simp add: encode_int_one_byte_def)
    ultimately show ?thesis
      using assms(1,2) by (simp add: decode_int_def Let_def cur_advance_def)
  qed
qed

lemma decode_encode_int:
  assumes "1 \<le> p" and "p \<le> 8" and "take_bit p first = 0" and "v - (2 ^ p - 1) < 2 ^ 28"
  shows "decode_int p (encode_int v p first @ rest, 0) =
    ((encode_int v p first @ rest, length (encode_int v p first)), Inr v)"
  using decode_int_at [OF assms, of "[]"] by simp

end
