(* ===== verification/Frame_Decoder.thy ===== *)
theory Frame_Decoder
  imports Hpack_Decode
begin

section \<open>The inbound half of the codec\<close>

text \<open>
  src/h2/codec.rs, \<open>Decoder\<close>: the frame read buffer, the client preface, the assembly of header
  blocks from CONTINUATION frames, the receive limits; and the header block of
  crates/vendor-h2/src/frame/headers.rs (\<open>HeaderBlock::load\<close>, \<open>parse_u64\<close>). The events the
  decoder yields are what the connection state reads.

  The text that \<open>{:?}\<close> adds to an error message is left out. A panic of the HPACK table is carried
  as \<open>LPanic\<close>; \<open>table_set_max_size_ok\<close> shows that it does not happen.
\<close>

subsection \<open>The header block\<close>

record header_block =
  hb_fields :: header_map
  hb_field_size :: usize
  hb_is_over_size :: bool
  hb_pseudo :: pseudo

definition header_block_new :: header_block where
  "header_block_new =
     \<lparr>hb_fields = [], hb_field_size = 0, hb_is_over_size = False, hb_pseudo = pseudo_default\<rparr>"

definition MAX_HEADER_LIST_ABUSE_MULTIPLIER :: usize where "MAX_HEADER_LIST_ABUSE_MULTIPLIER = 4"

definition decoded_header_size :: "usize \<Rightarrow> usize \<Rightarrow> usize" where
  "decoded_header_size name v = name + v + 32"

definition pseudo_size :: "usize \<Rightarrow> string option \<Rightarrow> usize" where
  "pseudo_size name_len v = (case v of Some m \<Rightarrow> decoded_header_size name_len (length m) | None \<Rightarrow> 0)"

definition calculate_header_list_size :: "header_block \<Rightarrow> usize" where
  "calculate_header_list_size hb =
     pseudo_size 7 (p_method (hb_pseudo hb)) + pseudo_size 7 (p_scheme (hb_pseudo hb))
     + (case p_status (hb_pseudo hb) of Some _ \<Rightarrow> decoded_header_size 7 3 | None \<Rightarrow> 0)
     + pseudo_size 10 (p_authority (hb_pseudo hb)) + pseudo_size 5 (p_path (hb_pseudo hb))
     + hb_field_size hb"

text \<open>The locals of \<open>load\<close> the callback writes.\<close>

record load_state =
  ls_block :: header_block
  ls_reg :: bool
  ls_malformed :: bool
  ls_way_too_large :: bool
  ls_headers_size :: usize

text \<open>\<open>check_size!\<close>: whether to stop.\<close>

definition check_size :: "usize \<Rightarrow> load_state \<Rightarrow> load_state \<times> bool" where
  "check_size max_size st =
     (if min (max_size * MAX_HEADER_LIST_ABUSE_MULTIPLIER) usize_max < ls_headers_size st
      then (st\<lparr>ls_way_too_large := True\<rparr>, True)
      else (if max_size \<le> ls_headers_size st \<and> \<not> hb_is_over_size (ls_block st)
            then st\<lparr>ls_block := (ls_block st)\<lparr>hb_is_over_size := True\<rparr>\<rparr> else st, False))"

text \<open>\<open>set_pseudo!\<close>, by the field's length, the value's length, its presence and the write.\<close>

definition set_pseudo ::
  "usize \<Rightarrow> usize \<Rightarrow> usize \<Rightarrow> (pseudo \<Rightarrow> bool) \<Rightarrow> (pseudo \<Rightarrow> pseudo) \<Rightarrow> load_state
   \<Rightarrow> load_state \<times> bool" where
  "set_pseudo max_size name_len val_len present write st =
     (if ls_reg st then (st\<lparr>ls_malformed := True\<rparr>, False)
      else if present (hb_pseudo (ls_block st)) then (st\<lparr>ls_malformed := True\<rparr>, False)
      else
        case check_size max_size
               (st\<lparr>ls_headers_size := ls_headers_size st + decoded_header_size name_len val_len\<rparr>) of
          (st1, True) \<Rightarrow> (st1, True)
        | (st1, False) \<Rightarrow>
            (if hb_is_over_size (ls_block st1) then st1
             else st1\<lparr>ls_block := (ls_block st1)\<lparr>hb_pseudo := write (hb_pseudo (ls_block st1))\<rparr>\<rparr>,
             False))"

text \<open>\<open>try_append\<close> of the header map refuses a field beyond its capacity, an argument.\<close>

fun load_header ::
  "(header_map \<Rightarrow> header_name \<Rightarrow> bool) \<Rightarrow> usize \<Rightarrow> hpack_header \<Rightarrow> load_state \<Rightarrow> load_state \<times> bool"
where
  "load_header map_full max_size (HField n v) st =
     (if n \<in> {''connection'', ''transfer-encoding'', ''upgrade'', ''keep-alive'', ''proxy-connection''}
      then (st\<lparr>ls_malformed := True\<rparr>, False)
      else if n = ''te'' \<and> v \<noteq> ascii ''trailers'' then (st\<lparr>ls_malformed := True\<rparr>, False)
      else
        let hs = decoded_header_size (length n) (length v)
        in case check_size max_size
                  (st\<lparr>ls_reg := True, ls_headers_size := ls_headers_size st + hs\<rparr>) of
             (st1, True) \<Rightarrow> (st1, True)
           | (st1, False) \<Rightarrow>
               let hb = ls_block st1;
                   hb1 = hb\<lparr>hb_field_size := hb_field_size hb + hs\<rparr>
               in (if hb_is_over_size hb then st1
                   else if map_full (hb_fields hb1) n
                   then st1\<lparr>ls_block := hb1\<lparr>hb_is_over_size := True\<rparr>\<rparr>
                   else st1\<lparr>ls_block := hb1\<lparr>hb_fields := hb_fields hb1 @ [(n, v)]\<rparr>\<rparr>, False))"
| "load_header map_full max_size (HAuthority v) st =
     set_pseudo max_size 10 (length v) (\<lambda>p. p_authority p \<noteq> None) (\<lambda>p. p\<lparr>p_authority := Some v\<rparr>) st"
| "load_header map_full max_size (HMethod v) st =
     set_pseudo max_size 7 (length v) (\<lambda>p. p_method p \<noteq> None) (\<lambda>p. p\<lparr>p_method := Some v\<rparr>) st"
| "load_header map_full max_size (HScheme v) st =
     set_pseudo max_size 7 (length v) (\<lambda>p. p_scheme p \<noteq> None) (\<lambda>p. p\<lparr>p_scheme := Some v\<rparr>) st"
| "load_header map_full max_size (HPath v) st =
     set_pseudo max_size 5 (length v) (\<lambda>p. p_path p \<noteq> None) (\<lambda>p. p\<lparr>p_path := Some v\<rparr>) st"
| "load_header map_full max_size (HProtocol v) st =
     set_pseudo max_size 9 (length v) (\<lambda>p. p_protocol p \<noteq> None) (\<lambda>p. p\<lparr>p_protocol := Some v\<rparr>) st"
| "load_header map_full max_size (HStatus v) st =
     set_pseudo max_size 7 3 (\<lambda>p. p_status p \<noteq> None) (\<lambda>p. p\<lparr>p_status := Some v\<rparr>) st"

datatype load_abort = LErr frame_error | LPanic

record decoder_env =
  env_lib :: hpack_lib
  env_map_full :: "header_map \<Rightarrow> header_name \<Rightarrow> bool"

definition header_block_load ::
  "decoder_env \<Rightarrow> bytes \<Rightarrow> usize \<Rightarrow> hpack_decoder \<Rightarrow> header_block
   \<Rightarrow> header_block \<times> bytes \<times> hpack_decoder \<times> (load_abort + unit)" where
  "header_block_load env src max_size dec hb =
     (let st0 = \<lparr>ls_block = hb, ls_reg = (hb_fields hb \<noteq> []), ls_malformed = False,
                 ls_way_too_large = False, ls_headers_size = calculate_header_list_size hb\<rparr>
      in case hpack_decode (env_lib env) (load_header (env_map_full env) max_size) dec src st0 of
           (dec', src', st, r) \<Rightarrow>
             (ls_block st, src', dec',
              case r of
                Inl HPanic \<Rightarrow> Inl LPanic
              | Inl (HErr e) \<Rightarrow> Inl (LErr (HpackError (e = NeedMore)))
              | Inr _ \<Rightarrow>
                  if ls_way_too_large st then Inl (LErr HeaderListWayTooLarge)
                  else if ls_malformed st then Inl (LErr MalformedMessage)
                  else Inr ()))"

subsection \<open>Events\<close>

text \<open>\<open>parse_u64\<close>: at most 19 digits, so that the value fits.\<close>

fun parse_digits :: "nat \<Rightarrow> bytes \<Rightarrow> u64 option" where
  "parse_digits ret [] = Some ret"
| "parse_digits ret (d # ds) =
     (if unat d < 48 \<or> 57 < unat d then None else parse_digits (ret * 10 + (unat d - 48)) ds)"

definition parse_u64 :: "bytes \<Rightarrow> u64 option" where
  "parse_u64 src = (if 19 < length src then None else parse_digits 0 src)"

text \<open>The HEADERS event of the decoder (\<open>H2FrameHeaders\<close>): the fields the state reads.\<close>

record headers_event =
  he_stream_id :: u32
  he_end_stream :: bool
  he_pseudo :: pseudo
  he_fields :: header_map
  he_content_length :: "u64 option"
  he_content_length_invalid :: bool
  he_is_informational :: bool
  he_is_over_size :: bool

definition he_status :: "headers_event \<Rightarrow> u16 option" where
  "he_status f = p_status (he_pseudo f)"

record data_event =
  de_stream_id :: u32
  de_end_stream :: bool
  de_data :: bytes
  de_flow_controlled_len :: usize
  de_padding :: usize

text \<open>\<open>H2FrameSettings\<close>: what a SETTINGS frame said.\<close>

record settings_seen =
  fs_ack :: bool
  fs_header_table_size :: "u32 option"
  fs_enable_push :: "bool option"
  fs_max_concurrent_streams :: "u32 option"
  fs_initial_window_size :: "u32 option"
  fs_max_frame_size :: "u32 option"
  fs_max_header_list_size :: "u32 option"

definition settings_seen_of :: "settings_frame \<Rightarrow> settings_seen" where
  "settings_seen_of s =
     \<lparr>fs_ack = sf_ack s, fs_header_table_size = sf_header_table_size s,
      fs_enable_push = map_option (\<lambda>v. v \<noteq> 0) (sf_enable_push s),
      fs_max_concurrent_streams = sf_max_concurrent_streams s,
      fs_initial_window_size = sf_initial_window_size s,
      fs_max_frame_size = sf_max_frame_size s,
      fs_max_header_list_size = sf_max_header_list_size s\<rparr>"

datatype frame_event =
    EHeaders headers_event | EData data_event | ESettings settings_seen
  | EWindowUpdate window_update | EPing ping_frame | EGoAway goaway_frame
  | ERstStream reset_frame | EPriority u32 | EStreamError u32 u32

text \<open>The content-length values of a block: the first, unless one is unparsable or differs.\<close>

fun content_lengths :: "header_value list \<Rightarrow> u64 option \<Rightarrow> u64 option \<times> bool" where
  "content_lengths [] found = (found, False)"
| "content_lengths (v # vs) found =
     (case parse_u64 v of
        Some n \<Rightarrow>
          if (case found of None \<Rightarrow> True | Some first \<Rightarrow> first = n)
          then content_lengths vs (Some n) else (found, True)
      | None \<Rightarrow> (found, True))"

definition headers_event_of :: "u32 \<Rightarrow> byte \<Rightarrow> header_block \<Rightarrow> headers_event" where
  "headers_event_of sid fl hb =
     (case content_lengths (header_get_all (hb_fields hb) ''content-length'') None of
        (cl, invalid) \<Rightarrow>
          \<lparr>he_stream_id = sid, he_end_stream = (fl AND 1 = 1), he_pseudo = hb_pseudo hb,
           he_fields = hb_fields hb, he_content_length = cl, he_content_length_invalid = invalid,
           he_is_informational = pseudo_is_informational (hb_pseudo hb),
           he_is_over_size = hb_is_over_size hb\<rparr>)"

subsection \<open>The decoder\<close>

definition DEFAULT_MAX_HEADER_LIST_SIZE :: usize where
  "DEFAULT_MAX_HEADER_LIST_SIZE = 16 * 2 ^ 20"

definition H2_PREFACE :: bytes where
  "H2_PREFACE = ascii ''PRI * HTTP/2.0'' @ [13, 10, 13, 10] @ ascii ''SM'' @ [13, 10, 13, 10]"

definition calc_max_continuation_frames :: "usize \<Rightarrow> usize \<Rightarrow> usize" where
  "calc_max_continuation_frames header_max frame_max =
     (let min_frames = max (header_max div frame_max) 1;
          padding = min_frames div 4
      in max (usize_saturating_add min_frames padding) 5)"

record partial_headers =
  pt_stream_id :: u32
  pt_flags :: byte
  pt_block :: header_block
  pt_buf :: bytes
  pt_count :: usize

record frame_decoder =
  dc_decoder :: hpack_decoder
  dc_buf :: bytes
  dc_max_header_list_size :: usize
  dc_max_continuation_frames :: usize
  dc_max_recv_frame_size :: usize
  dc_preface_buf :: "bytes option"
  dc_expect_preface :: bool
  dc_preface_ok :: bool
  dc_partial :: "partial_headers option"

definition frame_decoder_new :: "bool \<Rightarrow> frame_decoder" where
  "frame_decoder_new expect_preface =
     \<lparr>dc_decoder = hpack_decoder_new DEFAULT_HEADER_TABLE_SIZE, dc_buf = [],
      dc_max_header_list_size = DEFAULT_MAX_HEADER_LIST_SIZE,
      dc_max_continuation_frames =
        calc_max_continuation_frames DEFAULT_MAX_HEADER_LIST_SIZE DEFAULT_MAX_FRAME_SIZE,
      dc_max_recv_frame_size = DEFAULT_MAX_FRAME_SIZE, dc_preface_buf = None,
      dc_expect_preface = expect_preface, dc_preface_ok = (\<not> expect_preface), dc_partial = None\<rparr>"

definition set_recv_header_table_size :: "u32 \<Rightarrow> frame_decoder \<Rightarrow> frame_decoder" where
  "set_recv_header_table_size v d = d\<lparr>dc_decoder := queue_size_update v (dc_decoder d)\<rparr>"

definition set_max_recv_frame_size ::
  "u32 \<Rightarrow> frame_decoder \<Rightarrow> frame_decoder \<times> (pyerr + unit)" where
  "set_max_recv_frame_size v d =
     (case check_max_frame_size v of
        Inl e \<Rightarrow> (d, Inl e)
      | Inr _ \<Rightarrow>
          (d\<lparr>dc_max_recv_frame_size := v,
             dc_max_continuation_frames :=
               calc_max_continuation_frames (dc_max_header_list_size d) v\<rparr>, Inr ()))"

definition set_max_header_list_size :: "u32 \<Rightarrow> frame_decoder \<Rightarrow> frame_decoder" where
  "set_max_header_list_size v d =
     d\<lparr>dc_max_header_list_size := v,
       dc_max_continuation_frames := calc_max_continuation_frames v (dc_max_recv_frame_size d)\<rparr>"

definition feed_preface :: "bytes \<Rightarrow> frame_decoder \<Rightarrow> frame_decoder \<times> bool option" where
  "feed_preface data d =
     (let buf = (case dc_preface_buf d of Some b \<Rightarrow> b | None \<Rightarrow> []) @ data;
          d1 = d\<lparr>dc_preface_buf := Some buf\<rparr>;
          n = min (length buf) (length H2_PREFACE)
      in if take n buf \<noteq> take n H2_PREFACE then (d1, Some False)
         else if length buf < length H2_PREFACE then (d1, None)
         else (d1\<lparr>dc_preface_buf := None,
                  dc_buf := dc_buf d1 @ drop (length H2_PREFACE) buf\<rparr>, Some True))"

definition prime :: "bytes \<Rightarrow> frame_decoder \<Rightarrow> frame_decoder \<times> bool option" where
  "prime data d =
     (if dc_expect_preface d \<and> \<not> dc_preface_ok d then
        (case feed_preface data d of
           (d1, v) \<Rightarrow> (if v = Some True then d1\<lparr>dc_preface_ok := True\<rparr> else d1, v))
      else (d\<lparr>dc_buf := dc_buf d @ data\<rparr>, Some True))"

definition match_preface :: "bytes \<Rightarrow> bool option" where
  "match_preface data =
     (let n = min (length data) (length H2_PREFACE)
      in if take n data \<noteq> take n H2_PREFACE then Some False
         else if length data < length H2_PREFACE then None
         else Some True)"

subsection \<open>Decoding one frame\<close>

definition dec_protocol_err :: "reason \<Rightarrow> string \<Rightarrow> pyerr" where
  "dec_protocol_err r msg = H2ProtocolError r msg None"

definition load_err :: "frame_error \<Rightarrow> pyerr" where
  "load_err e = dec_protocol_err PROTOCOL_ERROR ''failed to load frame''"

datatype hpack_outcome = ODone | ONeedMore | OStreamReset

definition classify_hpack :: "(load_abort + unit) \<Rightarrow> bool \<Rightarrow> pyerr + hpack_outcome" where
  "classify_hpack res is_end_headers =
     (case res of
        Inr _ \<Rightarrow> Inr ODone
      | Inl LPanic \<Rightarrow> Inl RustPanic
      | Inl (LErr e) \<Rightarrow>
          if e = HpackError True \<and> \<not> is_end_headers then Inr ONeedMore
          else if e = MalformedMessage then Inr OStreamReset
          else if e = HeaderListWayTooLarge then
            Inl (protocol_err_with_debug ENHANCE_YOUR_CALM
                   ''decoded header list size over abuse limit''
                   (ascii ''header_list_way_too_large''))
          else Inl (dec_protocol_err PROTOCOL_ERROR ''HPACK decoding failed''))"

type_synonym decode_result = "frame_decoder \<times> (pyerr + frame_event option)"

text \<open>The end of both header branches: decode the block as far as it goes, then yield the event or
  keep the block for the next CONTINUATION.\<close>

definition load_partial ::
  "decoder_env \<Rightarrow> bool \<Rightarrow> partial_headers \<Rightarrow> frame_decoder \<Rightarrow> decode_result" where
  "load_partial env is_end_headers p d =
     (case header_block_load env (pt_buf p) (dc_max_header_list_size d) (dc_decoder d) (pt_block p) of
        (hb, buf, dec, r) \<Rightarrow>
          let d1 = d\<lparr>dc_decoder := dec\<rparr>
          in case classify_hpack r is_end_headers of
               Inl e \<Rightarrow> (d1, Inl e)
             | Inr OStreamReset \<Rightarrow> (d1, Inr (Some (EStreamError (pt_stream_id p) PROTOCOL_ERROR)))
             | Inr _ \<Rightarrow>
                 if is_end_headers then
                   (d1, Inr (Some (EHeaders (headers_event_of (pt_stream_id p) (pt_flags p) hb))))
                 else (d1\<lparr>dc_partial := Some (p\<lparr>pt_block := hb, pt_buf := buf\<rparr>)\<rparr>, Inr None))"

definition decode_headers :: "decoder_env \<Rightarrow> head \<Rightarrow> bytes \<Rightarrow> frame_decoder \<Rightarrow> decode_result" where
  "decode_headers env h payload d =
     (case headers_load h payload of
        Inl InvalidDependencyId \<Rightarrow> (d, Inr (Some (EStreamError (h_stream_id h) PROTOCOL_ERROR)))
      | Inl e \<Rightarrow> (d, Inl (load_err e))
      | Inr (pre, block) \<Rightarrow>
          load_partial env (hp_flags pre AND 4 = 4)
            \<lparr>pt_stream_id = hp_stream_id pre, pt_flags = hp_flags pre,
             pt_block = header_block_new, pt_buf = block, pt_count = 0\<rparr> d)"

definition decode_continuation ::
  "decoder_env \<Rightarrow> head \<Rightarrow> bytes \<Rightarrow> frame_decoder \<Rightarrow> decode_result" where
  "decode_continuation env h payload d =
     (let is_end_headers = (h_flag h AND 4 = 4);
          d1 = d\<lparr>dc_partial := None\<rparr>
      in case dc_partial d of
           None \<Rightarrow> (d1, Inl (dec_protocol_err PROTOCOL_ERROR ''received unexpected CONTINUATION frame''))
         | Some p \<Rightarrow>
             if pt_stream_id p \<noteq> h_stream_id h then
               (d1, Inl (dec_protocol_err PROTOCOL_ERROR (''CONTINUATION frame stream ID does not ''
                           @ ''match previous frame stream ID'')))
             else if \<not> is_end_headers \<and> dc_max_continuation_frames d < pt_count p + 1 then
               (d1, Inl (protocol_err_with_debug ENHANCE_YOUR_CALM ''too_many_continuations''
                           (ascii ''too_many_continuations'')))
             else
               let p1 = p\<lparr>pt_count := (if is_end_headers then 0 else pt_count p + 1)\<rparr>
               in if pt_buf p1 = [] then load_partial env is_end_headers (p1\<lparr>pt_buf := payload\<rparr>) d1
                  else if hb_is_over_size (pt_block p1)
                          \<and> dc_max_header_list_size d < length (pt_buf p1) + (HEADER_LEN + length payload)
                  then (d1, Inl (dec_protocol_err COMPRESSION_ERROR
                              ''CONTINUATION frame header block size over ignorable limit''))
                  else load_partial env is_end_headers (p1\<lparr>pt_buf := pt_buf p1 @ payload\<rparr>) d1)"

definition decode_one :: "decoder_env \<Rightarrow> bytes \<Rightarrow> frame_decoder \<Rightarrow> decode_result" where
  "decode_one env frame_buf d =
     (let h = head_parse (take HEADER_LEN frame_buf);
          payload = drop HEADER_LEN frame_buf
      in if dc_partial d \<noteq> None \<and> h_kind h \<noteq> KContinuation then
           (d, Inl (dec_protocol_err PROTOCOL_ERROR ''expected CONTINUATION frame''))
         else case h_kind h of
           KHeaders \<Rightarrow> decode_headers env h payload d
         | KContinuation \<Rightarrow> decode_continuation env h payload d
         | KData \<Rightarrow>
             (d, case data_load h payload of
                   Inl e \<Rightarrow> Inl (load_err e)
                 | Inr f \<Rightarrow> Inr (Some (EData
                     \<lparr>de_stream_id = df_stream_id f, de_end_stream = data_is_end_stream f,
                      de_data = df_data f, de_flow_controlled_len = data_flow_controlled_len f,
                      de_padding = data_flow_controlled_len f - length (df_data f)\<rparr>)))
         | KSettings \<Rightarrow>
             (d, case settings_load h payload of
                   Inl e \<Rightarrow> Inl (load_err e)
                 | Inr f \<Rightarrow> Inr (Some (ESettings (settings_seen_of f))))
         | KWindowUpdate \<Rightarrow>
             (d, case window_update_load h payload of
                   Inl e \<Rightarrow> Inl (load_err e) | Inr f \<Rightarrow> Inr (Some (EWindowUpdate f)))
         | KPing \<Rightarrow>
             (d, case ping_load h payload of
                   Inl e \<Rightarrow> Inl (load_err e) | Inr f \<Rightarrow> Inr (Some (EPing f)))
         | KGoAway \<Rightarrow>
             (d, case goaway_load h payload of
                   Inl e \<Rightarrow> Inl (load_err e) | Inr f \<Rightarrow> Inr (Some (EGoAway f)))
         | KReset \<Rightarrow>
             (d, case reset_load h payload of
                   Inl e \<Rightarrow> Inl (load_err e) | Inr f \<Rightarrow> Inr (Some (ERstStream f)))
         | KPriority \<Rightarrow>
             (d, if h_stream_id h = 0 then
                   Inl (dec_protocol_err PROTOCOL_ERROR ''PRIORITY frame with stream ID 0'')
                 else case priority_load h payload of
                   Inr _ \<Rightarrow> Inr (Some (EPriority (h_stream_id h)))
                 | Inl InvalidDependencyId \<Rightarrow>
                     Inr (Some (EStreamError (h_stream_id h) PROTOCOL_ERROR))
                 | Inl e \<Rightarrow> Inl (load_err e))
         | KPushPromise \<Rightarrow>
             (d, Inl (dec_protocol_err PROTOCOL_ERROR
                        ''PUSH_PROMISE received but server push is disabled''))
         | KUnknown \<Rightarrow> (d, Inr None))"

lemma load_partial_buf [simp]: "dc_buf (fst (load_partial env eh p d)) = dc_buf d"
  by (auto simp: load_partial_def Let_def split: prod.splits sum.splits hpack_outcome.splits)

lemma decode_one_buf [simp]: "dc_buf (fst (decode_one env fb d)) = dc_buf d"
  by (auto simp: decode_one_def decode_headers_def decode_continuation_def Let_def
      split: kind.splits sum.splits frame_error.splits option.splits prod.splits)

lemma decode_one_rest: "(d1, r) = decode_one env fb (d\<lparr>dc_buf := b\<rparr>) \<Longrightarrow> dc_buf d1 = b"
  using decode_one_buf [of env fb "d\<lparr>dc_buf := b\<rparr>"] by (metis fst_conv frame_decoder.select_convs(2)
      frame_decoder.simps(11) frame_decoder.surjective frame_decoder.update_convs(2))

text \<open>The loop of \<open>receive_frames\<close>. It ends because every frame takes bytes off the buffer.\<close>

function receive_loop ::
  "decoder_env \<Rightarrow> frame_decoder \<Rightarrow> frame_event list \<Rightarrow> frame_decoder \<times> (pyerr + frame_event list)" where
  "receive_loop env d out =
     (if length (dc_buf d) < HEADER_LEN then (d, Inr out)
      else
        let payload_len = wire_payload_len (dc_buf d);
            total = HEADER_LEN + payload_len
        in if dc_max_recv_frame_size d < payload_len then
             (d, Inl (dec_protocol_err FRAME_SIZE_ERROR
                        ''frame length exceeds SETTINGS_MAX_FRAME_SIZE''))
           else if length (dc_buf d) < total then (d, Inr out)
           else case decode_one env (take total (dc_buf d)) (d\<lparr>dc_buf := drop total (dc_buf d)\<rparr>) of
             (d1, Inl e) \<Rightarrow> (d1, Inl e)
           | (d1, Inr ev) \<Rightarrow>
               receive_loop env d1 (out @ (case ev of Some x \<Rightarrow> [x] | None \<Rightarrow> [])))"
  by pat_completeness auto
termination
  by (relation "measure (\<lambda>(env, d, out). length (dc_buf d))")
    (auto dest!: decode_one_rest simp: HEADER_LEN_def)

declare receive_loop.simps [simp del]

definition receive_frames ::
  "decoder_env \<Rightarrow> bytes \<Rightarrow> frame_decoder \<Rightarrow> frame_decoder \<times> (pyerr + frame_event list)" where
  "receive_frames env data d =
     (if dc_expect_preface d \<and> \<not> dc_preface_ok d then
        (case feed_preface data d of
           (d1, None) \<Rightarrow> (d1, Inr [])
         | (d1, Some False) \<Rightarrow>
             (d1, Inl (dec_protocol_err PROTOCOL_ERROR ''bad client connection preface''))
         | (d1, Some True) \<Rightarrow> receive_loop env (d1\<lparr>dc_preface_ok := True\<rparr>) [])
      else receive_loop env (d\<lparr>dc_buf := dc_buf d @ data\<rparr>) [])"

end
