(* ===== verification/Frame_Stream.thy ===== *)
theory Frame_Stream
  imports Frame_Decoder
begin

section \<open>The byte stream: fragmentation and round trips\<close>

text \<open>
  Two properties of \<open>Decoder::receive_frames\<close> as a whole. How the transport cuts the bytes into
  reads does not change the events. And the frames the encoder writes come out of the decoder as
  the events they stand for, in order, with nothing left in the buffer.
\<close>

subsection \<open>Reads may be cut anywhere\<close>

text \<open>Decoding one frame does not touch the bytes behind it.\<close>

lemma load_partial_rest:
  "load_partial env eh p (d\<lparr>dc_buf := b\<rparr>) =
     (case load_partial env eh p d of (d1, r) \<Rightarrow> (d1\<lparr>dc_buf := b\<rparr>, r))"
  by (simp add: load_partial_def Let_def split: prod.split sum.split hpack_outcome.split)

lemma decode_headers_rest:
  "decode_headers env h payload (d\<lparr>dc_buf := b\<rparr>) =
     (case decode_headers env h payload d of (d1, r) \<Rightarrow> (d1\<lparr>dc_buf := b\<rparr>, r))"
  by (simp add: decode_headers_def load_partial_rest split: sum.split frame_error.split)

lemma load_partial_dropped:
  "load_partial env eh p (d\<lparr>dc_buf := b, dc_partial := q\<rparr>) =
     (case load_partial env eh p (d\<lparr>dc_partial := q\<rparr>) of (d1, r) \<Rightarrow> (d1\<lparr>dc_buf := b\<rparr>, r))"
proof -
  have "d\<lparr>dc_buf := b, dc_partial := q\<rparr> = d\<lparr>dc_partial := q, dc_buf := b\<rparr>" by simp
  then show ?thesis by (simp only: load_partial_rest)
qed

lemma decode_continuation_rest:
  "decode_continuation env h payload (d\<lparr>dc_buf := b\<rparr>) =
     (case decode_continuation env h payload d of (d1, r) \<Rightarrow> (d1\<lparr>dc_buf := b\<rparr>, r))"
  by (simp add: decode_continuation_def Let_def load_partial_dropped split: option.split)

lemma decode_one_rest_eq:
  "decode_one env fb (d\<lparr>dc_buf := b\<rparr>) =
     (case decode_one env fb d of (d1, r) \<Rightarrow> (d1\<lparr>dc_buf := b\<rparr>, r))"
  by (simp add: decode_one_def Let_def decode_headers_rest decode_continuation_rest
      split: kind.split)

lemma wire_payload_len_append:
  "HEADER_LEN \<le> length b \<Longrightarrow> wire_payload_len (b @ c) = wire_payload_len b"
  by (auto simp: wire_payload_len_def HEADER_LEN_def nth_append)

lemma receive_loop_out:
  "receive_loop env d (pre @ out) =
     (case receive_loop env d out of (d1, r) \<Rightarrow> (d1, case r of Inl e \<Rightarrow> Inl e | Inr evs \<Rightarrow> Inr (pre @ evs)))"
proof (induction env d out rule: receive_loop.induct)
  case (1 env d out)
  show ?case
  proof (cases "decode_one env (take (HEADER_LEN + wire_payload_len (dc_buf d)) (dc_buf d))
      (d\<lparr>dc_buf := drop (HEADER_LEN + wire_payload_len (dc_buf d)) (dc_buf d)\<rparr>)")
    case (Pair d1 r)
    then show ?thesis
      using 1
      by (subst receive_loop.simps, subst (2) receive_loop.simps)
        (auto simp: Let_def split: sum.split)
  qed
qed

text \<open>A loop that stopped for want of bytes goes on where it stopped.\<close>

lemma receive_loop_append:
  "receive_loop env d out = (d1, Inr evs) \<Longrightarrow>
   receive_loop env (d\<lparr>dc_buf := dc_buf d @ b\<rparr>) out
     = receive_loop env (d1\<lparr>dc_buf := dc_buf d1 @ b\<rparr>) evs"
proof (induction env d out rule: receive_loop.induct)
  case (1 env d out)
  let ?n = "HEADER_LEN + wire_payload_len (dc_buf d)"
  show ?case
  proof (cases "length (dc_buf d) < HEADER_LEN \<or> length (dc_buf d) < ?n")
    case True
    then have "d1 = d \<and> evs = out"
      using "1.prems" by (subst (asm) receive_loop.simps) (auto simp: Let_def split: if_splits)
    then show ?thesis by simp
  next
    case False
    then have len: "HEADER_LEN \<le> length (dc_buf d)" "?n \<le> length (dc_buf d)"
      and small: "wire_payload_len (dc_buf d) \<le> dc_max_recv_frame_size d"
      using "1.prems" by (auto simp: Let_def receive_loop.simps [of env d] split: if_splits)
    obtain d2 ev where dec: "decode_one env (take ?n (dc_buf d)) (d\<lparr>dc_buf := drop ?n (dc_buf d)\<rparr>)
        = (d2, Inr ev)"
      and rest: "receive_loop env d2 (out @ (case ev of Some x \<Rightarrow> [x] | None \<Rightarrow> [])) = (d1, Inr evs)"
      using "1.prems" len small
      by (auto simp: Let_def receive_loop.simps [of env d] split: if_splits prod.splits sum.splits)
    have buf2: "dc_buf d2 = drop ?n (dc_buf d)"
      using decode_one_rest [OF dec [symmetric]] .
    have "decode_one env (take ?n (dc_buf d @ b)) (d\<lparr>dc_buf := drop ?n (dc_buf d @ b)\<rparr>)
        = (d2\<lparr>dc_buf := dc_buf d2 @ b\<rparr>, Inr ev)"
      using dec len(2) decode_one_rest_eq [where env = env and fb = "take ?n (dc_buf d)"
          and d = "d\<lparr>dc_buf := drop ?n (dc_buf d)\<rparr>" and b = "dc_buf d2 @ b"]
      by (simp add: buf2)
    then have "receive_loop env (d\<lparr>dc_buf := dc_buf d @ b\<rparr>) out
        = receive_loop env (d2\<lparr>dc_buf := dc_buf d2 @ b\<rparr>)
            (out @ (case ev of Some x \<Rightarrow> [x] | None \<Rightarrow> []))"
      using len small
      by (subst receive_loop.simps) (simp add: Let_def wire_payload_len_append)
    also have "\<dots> = receive_loop env (d1\<lparr>dc_buf := dc_buf d1 @ b\<rparr>) evs"
      using "1.IH" [OF _ refl refl _ _ dec [symmetric] refl rest] len small
      by (simp add: not_less)
    finally show ?thesis .
  qed
qed

definition with_events :: "frame_event list \<Rightarrow> pyerr + frame_event list \<Rightarrow> pyerr + frame_event list"
where
  "with_events pre r = (case r of Inl e \<Rightarrow> Inl e | Inr evs \<Rightarrow> Inr (pre @ evs))"

lemma receive_loop_cut:
  assumes "receive_loop env d [] = (d1, Inr evs)"
    and "receive_loop env (d1\<lparr>dc_buf := dc_buf d1 @ b\<rparr>) [] = (d2, r)"
  shows "receive_loop env (d\<lparr>dc_buf := dc_buf d @ b\<rparr>) [] = (d2, with_events evs r)"
  using receive_loop_append [OF assms(1)] receive_loop_out [of env _ evs "[]"] assms(2)
  by (simp add: with_events_def)

subsection \<open>The whole of \<open>receive_frames\<close>\<close>

text \<open>The preface is fed like the rest: what counts is the bytes so far.\<close>

lemma feed_preface_cut:
  "feed_preface (a @ b) d =
   feed_preface b (d\<lparr>dc_preface_buf := Some ((case dc_preface_buf d of Some x \<Rightarrow> x | None \<Rightarrow> []) @ a)\<rparr>)"
  by (simp add: feed_preface_def Let_def)

lemma feed_preface_None:
  "feed_preface a d = (d1, None) \<Longrightarrow>
   d1 = d\<lparr>dc_preface_buf := Some ((case dc_preface_buf d of Some x \<Rightarrow> x | None \<Rightarrow> []) @ a)\<rparr>"
  by (simp add: feed_preface_def Let_def split: if_splits)

lemma feed_preface_done:
  assumes "feed_preface a d = (d1, Some True)"
  shows "feed_preface (a @ b) d = (d1\<lparr>dc_buf := dc_buf d1 @ b\<rparr>, Some True)"
proof -
  obtain P where P: "P = H2_PREFACE" by simp
  define x where "x = (case dc_preface_buf d of Some x \<Rightarrow> x | None \<Rightarrow> []) @ a"
  have "length P \<le> length x" and "take (length P) x = P"
    and d1: "d1 = d\<lparr>dc_preface_buf := None, dc_buf := dc_buf d @ drop (length P) x\<rparr>"
    using assms unfolding feed_preface_def Let_def x_def [symmetric] P [symmetric]
    by (auto split: if_splits simp: min_def)
  then have "take (length P) (x @ b) = P" "drop (length P) (x @ b) = drop (length P) x @ b"
    "min (length (x @ b)) (length P) = length P" by simp_all
  then show ?thesis
    unfolding feed_preface_def Let_def P [symmetric] append_assoc [symmetric] x_def [symmetric] d1
    by simp
qed

lemma load_partial_preface:
  "dc_expect_preface (fst (load_partial env eh p d)) = dc_expect_preface d"
  "dc_preface_ok (fst (load_partial env eh p d)) = dc_preface_ok d"
  by (auto simp: load_partial_def Let_def split: prod.splits sum.splits hpack_outcome.splits)

lemma decode_one_preface:
  "dc_expect_preface (fst (decode_one env fb d)) = dc_expect_preface d"
  "dc_preface_ok (fst (decode_one env fb d)) = dc_preface_ok d"
  by (auto simp: decode_one_def decode_headers_def decode_continuation_def Let_def load_partial_preface
      split: kind.splits sum.splits frame_error.splits option.splits prod.splits)

lemma receive_loop_preface:
  "receive_loop env d out = (d1, r) \<Longrightarrow>
   dc_expect_preface d1 = dc_expect_preface d \<and> dc_preface_ok d1 = dc_preface_ok d"
proof (induction env d out arbitrary: d1 r rule: receive_loop.induct)
  case (1 env d out)
  let ?t = "HEADER_LEN + wire_payload_len (dc_buf d)"
  obtain d2 y where one: "decode_one env (take ?t (dc_buf d)) (d\<lparr>dc_buf := drop ?t (dc_buf d)\<rparr>) = (d2, y)"
    by fastforce
  have d2: "dc_expect_preface d2 = dc_expect_preface d" "dc_preface_ok d2 = dc_preface_ok d"
    using decode_one_preface [of env "take ?t (dc_buf d)" "d\<lparr>dc_buf := drop ?t (dc_buf d)\<rparr>"] one by simp_all
  show ?case
    using 1(2) 1(1) [OF _ refl refl _ _ one [symmetric]] d2
    by (subst (asm) receive_loop.simps) (auto simp: Let_def one split: if_splits sum.splits)
qed

lemma receive_frames_ready:
  "\<not> (dc_expect_preface d \<and> \<not> dc_preface_ok d) \<Longrightarrow>
   receive_frames env data d = receive_loop env (d\<lparr>dc_buf := dc_buf d @ data\<rparr>) []"
  by (auto simp: receive_frames_def)

lemma receive_frames_cut:
  assumes "receive_frames env a d = (d1, Inr evs)" and "receive_frames env b d1 = (d2, r)"
  shows "receive_frames env (a @ b) d = (d2, with_events evs r)"
proof (cases "dc_expect_preface d \<and> \<not> dc_preface_ok d")
  case False
  have l: "receive_loop env (d\<lparr>dc_buf := dc_buf d @ a\<rparr>) [] = (d1, Inr evs)"
    using assms(1) by (simp add: receive_frames_ready [OF False])
  have "\<not> (dc_expect_preface d1 \<and> \<not> dc_preface_ok d1)" using receive_loop_preface [OF l] False by simp
  then have "receive_loop env (d1\<lparr>dc_buf := dc_buf d1 @ b\<rparr>) [] = (d2, r)"
    using assms(2) by (simp add: receive_frames_ready)
  from receive_loop_cut [OF l this] show ?thesis by (simp add: receive_frames_ready [OF False])
next
  case True
  obtain d0 v where f: "feed_preface a d = (d0, v)" by fastforce
  show ?thesis
  proof (cases v)
    case None
    have "d1 = d0" "evs = []" using assms(1) True f None by (simp_all add: receive_frames_def)
    moreover have "dc_expect_preface d0 \<and> \<not> dc_preface_ok d0"
      using feed_preface_None [of a d d0] f None True by simp
    moreover have "feed_preface (a @ b) d = feed_preface b d0"
      using feed_preface_None [of a d d0] f None feed_preface_cut [of a b d] by simp
    ultimately show ?thesis
      using assms(2) True
      by (cases r) (auto simp: receive_frames_def with_events_def split: prod.splits option.splits bool.splits)
  next
    case (Some ok)
    then have ok: "ok" using assms(1) True f by (auto simp: receive_frames_def split: bool.splits)
    have l: "receive_loop env (d0\<lparr>dc_preface_ok := True\<rparr>) [] = (d1, Inr evs)"
      using assms(1) True f Some ok by (simp add: receive_frames_def)
    have "dc_preface_ok d1" using receive_loop_preface [OF l] by simp
    then have "receive_loop env (d1\<lparr>dc_buf := dc_buf d1 @ b\<rparr>) [] = (d2, r)"
      using assms(2) by (simp add: receive_frames_ready)
    moreover have swap: "(d0\<lparr>dc_buf := x\<rparr>)\<lparr>dc_preface_ok := True\<rparr> = (d0\<lparr>dc_preface_ok := True\<rparr>)\<lparr>dc_buf := x\<rparr>" for x
      by simp
    ultimately have "receive_loop env ((d0\<lparr>dc_buf := dc_buf d0 @ b\<rparr>)\<lparr>dc_preface_ok := True\<rparr>) []
        = (d2, with_events evs r)"
      unfolding swap using receive_loop_cut [OF l] by simp
    then show ?thesis
      using True feed_preface_done [of a d d0 b] f Some ok by (simp add: receive_frames_def)
  qed
qed

text \<open>So the reads of a stream of bytes may be cut anywhere, any number of times.\<close>

definition receive_reads ::
  "decoder_env \<Rightarrow> bytes list \<Rightarrow> frame_decoder \<Rightarrow> frame_decoder \<times> (pyerr + frame_event list)" where
  "receive_reads env = read_all (receive_frames env) (\<lambda>_ e. e)"

lemma with_events_map_sum: "with_events xs r = map_sum (\<lambda>e. e) ((@) xs) r"
  by (cases r) (simp_all add: with_events_def)

interpretation frames: incremental "receive_frames env" "\<lambda>_ e. e" "\<lambda>_. True"
  by unfold_locales (auto simp: with_events_map_sum [symmetric] intro: receive_frames_cut)

lemma receive_reads_frames:
  "receive_reads env as d = (d', Inr evs) \<Longrightarrow> as \<noteq> [] \<Longrightarrow>
   receive_frames env (concat as) d = (d', Inr evs)"
  unfolding receive_reads_def by (rule frames.read_all_concat) simp_all

subsection \<open>What is written is what is read\<close>

text \<open>A frame below the header layer, as the connection hands it to the encoder.\<close>

datatype sent_frame =
    SendWindowUpdate u32 u32
  | SendRstStream u32 u32
  | SendGoAway u32 u32 bytes
  | SendPing bytes bool
  | SendSettingsAck
  | SendSettings settings_values
  | SendData u32 bytes bool

text \<open>Its bytes (an error of the encoder otherwise) and the event it stands for.\<close>

fun sent_bytes :: "'h encoder \<Rightarrow> sent_frame \<Rightarrow> pyerr + bytes" where
  "sent_bytes enc (SendWindowUpdate sid n) = Inr (encode_window_update sid n)"
| "sent_bytes enc (SendRstStream sid code) = Inr (encode_rst_stream sid code)"
| "sent_bytes enc (SendGoAway last_id code debug) = Inr (encode_go_away last_id code debug)"
| "sent_bytes enc (SendPing payload ack) = encode_ping payload ack"
| "sent_bytes enc SendSettingsAck = Inr encode_settings_ack"
| "sent_bytes enc (SendSettings v) = encode_settings v"
| "sent_bytes enc (SendData sid data eos) = enc_encode_data sid data eos enc"

fun sent_event :: "sent_frame \<Rightarrow> frame_event" where
  "sent_event (SendWindowUpdate sid n) = EWindowUpdate \<lparr>wu_stream_id = sid, wu_size_increment = n\<rparr>"
| "sent_event (SendRstStream sid code) = ERstStream \<lparr>rf_stream_id = sid, rf_error_code = code\<rparr>"
| "sent_event (SendGoAway last_id code debug) =
     EGoAway \<lparr>ga_last_stream_id = last_id, ga_error_code = code, ga_debug_data = debug\<rparr>"
| "sent_event (SendPing payload ack) = EPing \<lparr>pf_ack = ack, pf_payload = payload\<rparr>"
| "sent_event SendSettingsAck = ESettings (settings_seen_of settings_ack)"
| "sent_event (SendSettings v) = ESettings (settings_seen_of (settings_of_values v))"
| "sent_event (SendData sid data eos) =
     EData \<lparr>de_stream_id = sid, de_end_stream = eos, de_data = data,
            de_flow_controlled_len = length data, de_padding = 0\<rparr>"

text \<open>Values in the range of their fields.\<close>

fun sent_ok :: "sent_frame \<Rightarrow> bool" where
  "sent_ok (SendWindowUpdate sid n) \<longleftrightarrow> sid < 2 ^ 31 \<and> 0 < n \<and> n < 2 ^ 31"
| "sent_ok (SendRstStream sid code) \<longleftrightarrow> sid < 2 ^ 31 \<and> code < 2 ^ 32"
| "sent_ok (SendGoAway last_id code debug) \<longleftrightarrow>
     last_id < 2 ^ 31 \<and> code < 2 ^ 32 \<and> length debug < 2 ^ 14 - 8"
| "sent_ok (SendPing payload ack) \<longleftrightarrow> length payload = 8"
| "sent_ok SendSettingsAck \<longleftrightarrow> True"
| "sent_ok (SendSettings v) \<longleftrightarrow>
     (\<forall>x \<in> {sv_header_table_size v, sv_max_concurrent_streams v, sv_max_header_list_size v}.
        \<forall>n. x = Some n \<longrightarrow> n < 2 ^ 32)"
| "sent_ok (SendData sid data eos) \<longleftrightarrow> 0 < sid \<and> sid < 2 ^ 31"

text \<open>The head, the payload and the event of one encoded frame.\<close>

definition reads_as :: "bytes \<Rightarrow> frame_event \<Rightarrow> nat \<Rightarrow> bool" where
  "reads_as out ev n \<longleftrightarrow>
     (\<exists>h p. out = on_wire h p \<and> h_kind h \<noteq> KUnknown \<and> h_stream_id h < 2 ^ 31 \<and> length p \<le> n
          \<and> (\<forall>env d. dc_partial d = None \<longrightarrow> decode_one env (on_wire h p) d = (d, Inr (Some ev))))"

lemma reads_as_mono:
  assumes "reads_as out ev m" and "m \<le> n"
  shows "reads_as out ev n"
proof -
  obtain h p where "out = on_wire h p" "h_kind h \<noteq> KUnknown" "h_stream_id h < 2 ^ 31" "length p \<le> m"
    "\<forall>env d. dc_partial d = None \<longrightarrow> decode_one env (on_wire h p) d = (d, Inr (Some ev))"
    using assms(1) unfolding reads_as_def by blast
  then show ?thesis
    unfolding reads_as_def using le_trans [OF _ assms(2)] by blast
qed

lemma decode_on_wire:
  assumes "h_kind h \<noteq> KUnknown" and "h_stream_id h < 2 ^ 31" and "length p < 2 ^ 24"
  shows "head_parse (take HEADER_LEN (on_wire h p)) = h" and "drop HEADER_LEN (on_wire h p) = p"
  using head_parse_encode [OF assms(1,2), of "length p" "[]"] by (simp_all add: on_wire_def)

lemma reads_as_intro:
  assumes "out = on_wire h p" and "h_kind h \<noteq> KUnknown" and "h_stream_id h < 2 ^ 31"
    and "length p \<le> n" and "n < 2 ^ 24"
    and "\<And>env d. dc_partial d = None \<Longrightarrow>
      (let frame = on_wire h p in
        head_parse (take HEADER_LEN frame) = h \<longrightarrow> drop HEADER_LEN frame = p \<longrightarrow>
        decode_one env frame d = (d, Inr (Some ev)))"
  shows "reads_as out ev n"
  using assms decode_on_wire [of h p] unfolding reads_as_def Let_def by fastforce

lemma seen_settings_load:
  assumes "encode_settings v = Inr out" and "sent_ok (SendSettings v)"
  shows "reads_as out (sent_event (SendSettings v)) 16384"
proof -
  let ?s = "settings_of_values v"
  have v: "settings_valid ?s" and out: "out = settings_encode ?s"
    using encode_settings_valid [OF assms(1)] assms(2) by auto
  have ack: "sf_ack ?s = False" by (simp add: settings_of_values_def settings_default_def)
  have len: "length (settings_for_each ?s) \<le> 7"
    by (auto simp: settings_for_each_def split: option.split)
  show ?thesis
    unfolding out settings_on_wire
    using settings_roundtrip_payload [OF v] ack len
    by (intro reads_as_intro [OF refl]) (auto simp: decode_one_def head_new_def Let_def)
qed

lemma sent_reads_as:
  assumes "sent_bytes enc f = Inr out" and "sent_ok f" and "enc_ok enc"
  shows "reads_as out (sent_event f) (max 16384 (enc_send_max_frame_size enc))"
proof -
  let ?n = "max 16384 (enc_send_max_frame_size enc)"
  have n: "?n < 2 ^ 24"
    using assms(3) by (simp add: enc_ok_def MAX_MAX_FRAME_SIZE_def)
  have mono: "reads_as out ev 16384 \<Longrightarrow> reads_as out ev ?n" for ev
    using reads_as_mono by (metis max.cobounded1)
  show ?thesis
  proof (cases f)
    case (SendWindowUpdate sid i)
    then show ?thesis
      using assms n window_update_roundtrip_payload [of "\<lparr>wu_stream_id = sid, wu_size_increment = i\<rparr>"]
      by (intro reads_as_intro [where h = "head_new KWindowUpdate 0 sid" and p = "put_u32 i"])
        (auto simp: encode_window_update_def window_update_on_wire decode_one_def head_new_def Let_def)
  next
    case (SendRstStream sid code)
    then show ?thesis
      using assms n reset_roundtrip_payload [of "\<lparr>rf_stream_id = sid, rf_error_code = code\<rparr>"]
      by (intro reads_as_intro [where h = "head_new KReset 0 sid" and p = "put_u32 code"])
        (auto simp: encode_rst_stream_def reset_on_wire decode_one_def head_new_def Let_def)
  next
    case (SendGoAway last_id code debug)
    then show ?thesis
      using assms n goaway_roundtrip_payload
        [of "\<lparr>ga_last_stream_id = last_id, ga_error_code = code, ga_debug_data = debug\<rparr>"]
      by (intro reads_as_intro [where h = "head_new KGoAway 0 0"
            and p = "put_u32 last_id @ put_u32 code @ debug"])
        (auto simp: encode_go_away_def goaway_on_wire decode_one_def head_new_def Let_def)
  next
    case (SendPing payload ack)
    then show ?thesis
      using assms n ping_roundtrip_payload [of "\<lparr>pf_ack = ack, pf_payload = payload\<rparr>"]
      by (intro reads_as_intro [where h = "head_new KPing (if ack then 1 else 0) 0" and p = payload])
        (auto simp: encode_ping_def ping_on_wire decode_one_def head_new_def Let_def)
  next
    case SendSettingsAck
    have "settings_valid settings_ack"
      by (simp add: settings_valid_def settings_ack_def settings_default_def)
    then show ?thesis
      using assms SendSettingsAck n settings_roundtrip_payload [of settings_ack]
      by (intro reads_as_intro [where h = "head_new KSettings 1 0" and p = "[]"])
        (auto simp: encode_settings_ack_def settings_on_wire decode_one_def head_new_def Let_def
          settings_ack_def settings_default_def settings_for_each_def)
  next
    case (SendSettings v)
    then show ?thesis using assms mono seen_settings_load by auto
  next
    case (SendData sid data eos)
    then have out: "out = on_wire (head_new KData (if eos then 1 else 0) sid) data"
      and len: "length data \<le> enc_send_max_frame_size enc"
      using assms(1) by (auto simp: enc_encode_data_def on_wire_def split: if_splits)
    show ?thesis
      using assms SendData n len
      by (intro reads_as_intro [OF out])
        (auto simp: decode_one_def head_new_def Let_def data_load_def data_is_end_stream_def
          data_flow_controlled_len_def)
  qed
qed

text \<open>One frame off the front of the buffer.\<close>

lemma receive_loop_frame:
  assumes "reads_as out ev n" and "n \<le> dc_max_recv_frame_size d" and "n < 2 ^ 24"
    and "dc_partial d = None"
  shows "receive_loop env (d\<lparr>dc_buf := out @ rest\<rparr>) evs
         = receive_loop env (d\<lparr>dc_buf := rest\<rparr>) (evs @ [ev])"
proof -
  obtain h p where out: "out = on_wire h p" and h: "h_kind h \<noteq> KUnknown" "h_stream_id h < 2 ^ 31"
    and p: "length p \<le> n"
    and dec: "\<And>d. dc_partial d = None \<Longrightarrow> decode_one env (on_wire h p) d = (d, Inr (Some ev))"
    using assms(1) by (auto simp: reads_as_def)
  have p24: "length p < 2 ^ 24" using p assms(3) by simp
  note wire = on_wire_read [OF h p24, of rest]
  show ?thesis
    using wire(2) p assms(2,4) dec [of "d\<lparr>dc_buf := rest\<rparr>"]
    by (subst receive_loop.simps) (simp add: out Let_def)
qed

text \<open>A whole sequence.\<close>

fun sent_all :: "'h encoder \<Rightarrow> sent_frame list \<Rightarrow> pyerr + bytes" where
  "sent_all enc [] = Inr []"
| "sent_all enc (f # fs) =
     (case sent_bytes enc f of
        Inl e \<Rightarrow> Inl e
      | Inr out \<Rightarrow> (case sent_all enc fs of Inl e \<Rightarrow> Inl e | Inr rest \<Rightarrow> Inr (out @ rest)))"

lemma receive_loop_sent:
  assumes "sent_all enc fs = Inr out" and "\<forall>f \<in> set fs. sent_ok f" and "enc_ok enc"
    and "max 16384 (enc_send_max_frame_size enc) \<le> dc_max_recv_frame_size d"
    and "dc_partial d = None"
  shows "receive_loop env (d\<lparr>dc_buf := out\<rparr>) evs = (d\<lparr>dc_buf := []\<rparr>, Inr (evs @ map sent_event fs))"
  using assms(1,2)
proof (induction fs arbitrary: out evs)
  case Nil
  then show ?case by (subst receive_loop.simps) (simp add: HEADER_LEN_def)
next
  case (Cons f fs)
  from Cons.prems(1) obtain x rest where x: "sent_bytes enc f = Inr x" and r: "sent_all enc fs = Inr rest"
    and out: "out = x @ rest" by (auto split: sum.splits)
  have n: "max 16384 (enc_send_max_frame_size enc) < 2 ^ 24"
    using assms(3) by (simp add: enc_ok_def MAX_MAX_FRAME_SIZE_def)
  have "reads_as x (sent_event f) (max 16384 (enc_send_max_frame_size enc))"
    using sent_reads_as [OF x _ assms(3)] Cons.prems(2) by simp
  from receive_loop_frame [OF this assms(4) n assms(5)] Cons.IH [OF r] Cons.prems(2) out
  show ?case by simp
qed

end
