(* ===== verification/Flow_Control.thy ===== *)
theory Flow_Control
  imports H2_Errors
begin

section \<open>Flow-control windows\<close>

text \<open>
  crates/vendor-h2/src/proto/streams/flow_control.rs: a \<open>Window\<close> is an \<open>i32\<close>, an amount a
  \<open>u32\<close> that the code casts \<open>as i32\<close>; and the Python wrapper \<open>H2FlowControl\<close> of
  src/h2/streams.rs with the guard \<open>check_window_size\<close> that keeps the cast exact. Operations
  return the updated record with the result, since \<open>dec_recv_window\<close> and \<open>send_data\<close> may
  fail between their two updates. \<open>None\<close> as the outcome of \<open>send_data\<close> is its
  \<open>assert!\<close> failing.
\<close>

definition MAX_WINDOW_SIZE :: u32 where "MAX_WINDOW_SIZE = 2 ^ 31 - 1"
definition UNCLAIMED_NUMERATOR :: i32 where "UNCLAIMED_NUMERATOR = 1"
definition UNCLAIMED_DENOMINATOR :: i32 where "UNCLAIMED_DENOMINATOR = 2"

type_synonym window = i32

definition window_as_size :: "window \<Rightarrow> u32" where
  "window_as_size w = (if w < 0 then 0 else i32_as_u32 w)"

definition window_decrease_by :: "window \<Rightarrow> u32 \<Rightarrow> reason + window" where
  "window_decrease_by w other =
     (case i32_checked_sub w (as_i32 other) of
        Some v \<Rightarrow> Inr v | None \<Rightarrow> Inl FLOW_CONTROL_ERROR)"

definition window_add :: "window \<Rightarrow> u32 \<Rightarrow> reason + window" where
  "window_add w other =
     (case i32_checked_add w (as_i32 other) of
        Some v \<Rightarrow> Inr v | None \<Rightarrow> Inl FLOW_CONTROL_ERROR)"

definition window_increase_by :: "window \<Rightarrow> u32 \<Rightarrow> reason + window" where
  "window_increase_by w other = window_add w other"

record flow_control =
  fc_window :: window
  fc_available :: window

type_synonym 'a fc_result = "flow_control \<times> (reason + 'a)"

definition fc_new :: flow_control where
  "fc_new = \<lparr>fc_window = 0, fc_available = 0\<rparr>"

definition fc_window_size :: "flow_control \<Rightarrow> u32" where
  "fc_window_size f = window_as_size (fc_window f)"

definition fc_has_unavailable :: "flow_control \<Rightarrow> bool" where
  "fc_has_unavailable f = (if fc_window f < 0 then False else fc_available f < fc_window f)"

definition fc_claim_capacity :: "u32 \<Rightarrow> flow_control \<Rightarrow> unit fc_result" where
  "fc_claim_capacity capacity f =
     (case window_decrease_by (fc_available f) capacity of
        Inl r \<Rightarrow> (f, Inl r) | Inr w \<Rightarrow> (f\<lparr>fc_available := w\<rparr>, Inr ()))"

definition fc_assign_capacity :: "u32 \<Rightarrow> flow_control \<Rightarrow> unit fc_result" where
  "fc_assign_capacity capacity f =
     (case window_increase_by (fc_available f) capacity of
        Inl r \<Rightarrow> (f, Inl r) | Inr w \<Rightarrow> (f\<lparr>fc_available := w\<rparr>, Inr ()))"

definition fc_unclaimed_capacity :: "flow_control \<Rightarrow> u32 option" where
  "fc_unclaimed_capacity f =
     (if fc_available f \<le> fc_window f then None
      else let unclaimed = i32_wrap (fc_available f - fc_window f);
               threshold = i32_div (fc_window f) UNCLAIMED_DENOMINATOR * UNCLAIMED_NUMERATOR
           in if unclaimed < threshold then None else Some (i32_as_u32 unclaimed))"

definition fc_inc_window :: "u32 \<Rightarrow> flow_control \<Rightarrow> unit fc_result" where
  "fc_inc_window sz f =
     (let (val, overflow) = i32_overflowing_add (fc_window f) (as_i32 sz)
      in if overflow then (f, Inl FLOW_CONTROL_ERROR)
         else if val > as_i32 MAX_WINDOW_SIZE then (f, Inl FLOW_CONTROL_ERROR)
         else (f\<lparr>fc_window := val\<rparr>, Inr ()))"

definition fc_dec_send_window :: "u32 \<Rightarrow> flow_control \<Rightarrow> unit fc_result" where
  "fc_dec_send_window sz f =
     (case window_decrease_by (fc_window f) sz of
        Inl r \<Rightarrow> (f, Inl r) | Inr w \<Rightarrow> (f\<lparr>fc_window := w\<rparr>, Inr ()))"

definition fc_dec_recv_window :: "u32 \<Rightarrow> flow_control \<Rightarrow> unit fc_result" where
  "fc_dec_recv_window sz f =
     (case window_decrease_by (fc_window f) sz of
        Inl r \<Rightarrow> (f, Inl r)
      | Inr w \<Rightarrow>
          (let f1 = f\<lparr>fc_window := w\<rparr>
           in case window_decrease_by (fc_available f1) sz of
                Inl r \<Rightarrow> (f1, Inl r) | Inr a \<Rightarrow> (f1\<lparr>fc_available := a\<rparr>, Inr ())))"

definition fc_send_data_raw :: "u32 \<Rightarrow> flow_control \<Rightarrow> unit fc_result option" where
  "fc_send_data_raw sz f =
     (if 0 < sz
      then if as_i32 sz \<le> fc_window f then Some (fc_dec_recv_window sz f) else None
      else Some (f, Inr ()))"

subsection \<open>The guarded forms\<close>

text \<open>\<open>fc_send_data\<close> of src/h2/conn.rs (and \<open>H2FlowControl::send_data\<close>) keep the assertion
  from firing; a panic is shown impossible in \<open>fc_send_data_no_panic\<close>.\<close>

definition fc_send_data :: "u32 \<Rightarrow> flow_control \<Rightarrow> unit fc_result option" where
  "fc_send_data sz f =
     (if 0 < sz \<and> fc_window_size f < sz then Some (f, Inl FLOW_CONTROL_ERROR)
      else fc_send_data_raw sz f)"

definition check_window_size :: "u32 \<Rightarrow> pyerr + unit" where
  "check_window_size sz =
     (if MAX_WINDOW_SIZE < sz
      then Inl (ValueError (''window size '' @ show_nat sz @ '' exceeds the maximum ''
              @ show_nat MAX_WINDOW_SIZE @ '' (RFC 9113 6.9.1)''))
      else Inr ())"

definition guarded_fc ::
  "(u32 \<Rightarrow> flow_control \<Rightarrow> unit fc_result) \<Rightarrow> u32 \<Rightarrow> flow_control \<Rightarrow> flow_control \<times> (pyerr + unit)" where
  "guarded_fc op sz f =
     (case check_window_size sz of
        Inl e \<Rightarrow> (f, Inl e)
      | Inr _ \<Rightarrow> (case op sz f of (f', r) \<Rightarrow> (f', map_err map_reason r)))"

definition H2FlowControl_claim_capacity where
  "H2FlowControl_claim_capacity = guarded_fc fc_claim_capacity"
definition H2FlowControl_assign_capacity where
  "H2FlowControl_assign_capacity = guarded_fc fc_assign_capacity"
definition H2FlowControl_inc_window where
  "H2FlowControl_inc_window = guarded_fc fc_inc_window"
definition H2FlowControl_dec_send_window where
  "H2FlowControl_dec_send_window = guarded_fc fc_dec_send_window"
definition H2FlowControl_dec_recv_window where
  "H2FlowControl_dec_recv_window = guarded_fc fc_dec_recv_window"

definition H2FlowControl_send_data :: "u32 \<Rightarrow> flow_control \<Rightarrow> flow_control \<times> (pyerr + unit)" where
  "H2FlowControl_send_data sz f =
     (case fc_send_data sz f of
        Some (f', r) \<Rightarrow> (f', map_err map_reason r) | None \<Rightarrow> (f, Inl RustPanic))"

subsection \<open>What the operations do\<close>

text \<open>The bounds of the \<open>i32\<close> fields.\<close>

definition fc_ok :: "flow_control \<Rightarrow> bool" where
  "fc_ok f \<longleftrightarrow> in_i32 (fc_window f) \<and> in_i32 (fc_available f)"

lemma fc_ok_new [simp]: "fc_ok fc_new"
  by (simp add: fc_ok_def fc_new_def in_i32_def)

lemmas window_defs =
  window_decrease_by_def window_increase_by_def window_add_def
  i32_checked_sub_def i32_checked_add_def

lemma fc_window_size_nonneg [fc_simps]:
  "0 \<le> fc_window f \<Longrightarrow> fc_window f < 2 ^ 31 \<Longrightarrow> fc_window_size f = nat (fc_window f)"
  by (simp add: fc_window_size_def window_as_size_def)

lemma fc_window_size_neg [fc_simps]: "fc_window f < 0 \<Longrightarrow> fc_window_size f = 0"
  by (simp add: fc_window_size_def window_as_size_def)

lemma fc_window_size_eq: "fc_ok f \<Longrightarrow> fc_window_size f = nat (fc_window f)"
  by (cases "fc_window f < 0")
    (simp_all add: fc_window_size_nonneg fc_window_size_neg fc_ok_def in_i32_def)

lemma fc_window_size_bound: "fc_ok f \<Longrightarrow> fc_window_size f \<le> MAX_WINDOW_SIZE"
  by (auto simp: fc_window_size_eq fc_ok_def in_i32_def MAX_WINDOW_SIZE_def)

lemma as_i32_max_window [simp]: "as_i32 MAX_WINDOW_SIZE = 2 ^ 31 - 1"
  by (simp add: MAX_WINDOW_SIZE_def as_i32_def)

lemma fc_inc_window_ok [fc_simps]:
  assumes "sz < 2 ^ 31" and "fc_ok f" and "fc_window f + int sz < 2 ^ 31"
  shows "fc_inc_window sz f = (f\<lparr>fc_window := fc_window f + int sz\<rparr>, Inr ())"
  using assms by (simp add: fc_inc_window_def i32_overflowing_add_def fc_ok_def in_i32_def)

lemma fc_inc_window_err [fc_simps]:
  assumes "sz < 2 ^ 31" and "fc_ok f" and "2 ^ 31 \<le> fc_window f + int sz"
  shows "fc_inc_window sz f = (f, Inl FLOW_CONTROL_ERROR)"
  using assms by (simp add: fc_inc_window_def i32_overflowing_add_def fc_ok_def in_i32_def)

lemma fc_assign_capacity_ok [fc_simps]:
  "sz < 2 ^ 31 \<Longrightarrow> fc_ok f \<Longrightarrow> fc_available f + int sz < 2 ^ 31 \<Longrightarrow>
   fc_assign_capacity sz f = (f\<lparr>fc_available := fc_available f + int sz\<rparr>, Inr ())"
  by (simp add: fc_assign_capacity_def window_defs fc_ok_def in_i32_def)

lemma fc_assign_capacity_err [fc_simps]:
  "sz < 2 ^ 31 \<Longrightarrow> fc_ok f \<Longrightarrow> 2 ^ 31 \<le> fc_available f + int sz \<Longrightarrow>
   fc_assign_capacity sz f = (f, Inl FLOW_CONTROL_ERROR)"
  by (simp add: fc_assign_capacity_def window_defs fc_ok_def in_i32_def)

lemma fc_claim_capacity_ok [fc_simps]:
  "sz < 2 ^ 31 \<Longrightarrow> fc_ok f \<Longrightarrow> - (2 ^ 31) \<le> fc_available f - int sz \<Longrightarrow>
   fc_claim_capacity sz f = (f\<lparr>fc_available := fc_available f - int sz\<rparr>, Inr ())"
  by (simp add: fc_claim_capacity_def window_defs fc_ok_def in_i32_def)

lemma fc_dec_send_window_ok [fc_simps]:
  "sz < 2 ^ 31 \<Longrightarrow> fc_ok f \<Longrightarrow> - (2 ^ 31) \<le> fc_window f - int sz \<Longrightarrow>
   fc_dec_send_window sz f = (f\<lparr>fc_window := fc_window f - int sz\<rparr>, Inr ())"
  by (simp add: fc_dec_send_window_def window_defs fc_ok_def in_i32_def)

lemma fc_dec_recv_window_ok [fc_simps]:
  "sz < 2 ^ 31 \<Longrightarrow> fc_ok f \<Longrightarrow> - (2 ^ 31) \<le> fc_window f - int sz \<Longrightarrow>
   - (2 ^ 31) \<le> fc_available f - int sz \<Longrightarrow>
   fc_dec_recv_window sz f =
     (f\<lparr>fc_window := fc_window f - int sz, fc_available := fc_available f - int sz\<rparr>, Inr ())"
  by (simp add: fc_dec_recv_window_def window_defs fc_ok_def in_i32_def)

text \<open>Every operation keeps both fields in range, for any \<open>u32\<close> amount.\<close>

lemma fc_ok_claim: "fc_ok f \<Longrightarrow> fc_ok (fst (fc_claim_capacity sz f))"
  by (auto simp: fc_claim_capacity_def window_defs fc_ok_def)

lemma fc_ok_assign: "fc_ok f \<Longrightarrow> fc_ok (fst (fc_assign_capacity sz f))"
  by (auto simp: fc_assign_capacity_def window_defs fc_ok_def)

lemma fc_ok_inc: "fc_ok f \<Longrightarrow> fc_ok (fst (fc_inc_window sz f))"
  by (auto simp: fc_inc_window_def i32_overflowing_add_def fc_ok_def Let_def)

lemma fc_ok_dec_send: "fc_ok f \<Longrightarrow> fc_ok (fst (fc_dec_send_window sz f))"
  by (auto simp: fc_dec_send_window_def window_defs fc_ok_def)

lemma fc_ok_dec_recv: "fc_ok f \<Longrightarrow> fc_ok (fst (fc_dec_recv_window sz f))"
  by (auto simp: fc_dec_recv_window_def window_defs fc_ok_def Let_def)

lemmas fc_ok_ops [intro] =
  fc_ok_claim fc_ok_assign fc_ok_inc fc_ok_dec_send fc_ok_dec_recv

lemma fc_send_data_no_panic:
  assumes "fc_ok f" and "sz < 2 ^ 32"
  shows "fc_send_data sz f \<noteq> None"
proof (cases "0 < sz \<and> fc_window_size f < sz")
  case True
  then show ?thesis by (simp add: fc_send_data_def)
next
  case False
  then have "sz \<le> nat (fc_window f)" if "0 < sz"
    using that assms(1) by (simp add: fc_window_size_eq)
  then have "as_i32 sz \<le> fc_window f" if "0 < sz"
    using that assms(1) by (auto simp: fc_ok_def in_i32_def)
  with False show ?thesis by (auto simp: fc_send_data_def fc_send_data_raw_def)
qed

text \<open>The exact outcome of consuming window: refused beyond the window, else both counters
  drop by the amount (they never underflow when \<open>available\<close> is not below \<open>window - MAX\<close>).\<close>

lemma fc_send_data_refused:
  "0 < sz \<Longrightarrow> fc_window_size f < sz \<Longrightarrow> fc_send_data sz f = Some (f, Inl FLOW_CONTROL_ERROR)"
  by (simp add: fc_send_data_def)

lemma fc_send_data_taken:
  assumes "fc_ok f" and "sz \<le> fc_window_size f" and "- (2 ^ 31) \<le> fc_available f - int sz"
  shows "fc_send_data sz f =
    Some (f\<lparr>fc_window := fc_window f - int sz, fc_available := fc_available f - int sz\<rparr>, Inr ())"
proof (cases "sz = 0")
  case True
  then show ?thesis by (simp add: fc_send_data_def fc_send_data_raw_def)
next
  case False
  have w: "int sz \<le> fc_window f" "sz < 2 ^ 31"
    using assms(1,2) False by (auto simp: fc_window_size_eq fc_ok_def in_i32_def)
  moreover have "- (2 ^ 31) \<le> fc_window f - int sz" using w by simp
  ultimately show ?thesis
    using assms False by (simp add: fc_send_data_def fc_send_data_raw_def fc_dec_recv_window_ok)
qed

text \<open>
  A failed consumption leaves the record alone or, if \<open>available\<close> underflows, has taken the
  window: the second case needs \<open>available\<close> far below zero.
\<close>

lemma fc_send_data_cases:
  assumes "fc_send_data sz f = Some (f', r)" and "fc_ok f" and "fc_window f \<le> fc_available f"
  shows "(r = Inl FLOW_CONTROL_ERROR \<and> f' = f \<and> fc_window_size f < sz)
       \<or> (r = Inr () \<and> sz \<le> fc_window_size f
          \<and> f' = f\<lparr>fc_window := fc_window f - int sz, fc_available := fc_available f - int sz\<rparr>)"
proof (cases "fc_window_size f < sz")
  case True
  with assms(1) show ?thesis by (auto simp: fc_send_data_refused)
next
  case False
  have "- (2 ^ 31) \<le> fc_available f - int sz"
    using False assms(2,3) by (auto simp: fc_window_size_eq fc_ok_def in_i32_def)
  then show ?thesis using fc_send_data_taken [of f sz] False assms(1,2) by auto
qed

text \<open>Re-advertising: the increment brings the window up to \<open>available\<close>, and it is offered
  only once it reaches half the window.\<close>

lemma fc_unclaimed_Some:
  assumes "fc_ok f" and "0 \<le> fc_window f" and "fc_unclaimed_capacity f = Some n"
  shows "int n = fc_available f - fc_window f" and "0 < n" and "n < 2 ^ 31"
    and "fc_window f div 2 \<le> int n"
proof -
  have rng: "in_i32 (fc_available f - fc_window f)"
    using assms(1,2,3)
    by (auto simp: fc_ok_def in_i32_def fc_unclaimed_capacity_def split: if_splits)
  have lt: "fc_window f < fc_available f" and n: "n = i32_as_u32 (fc_available f - fc_window f)"
    and th: "i32_div (fc_window f) 2 \<le> fc_available f - fc_window f"
    using assms(3) rng
    by (auto simp: fc_unclaimed_capacity_def Let_def UNCLAIMED_DENOMINATOR_def
        UNCLAIMED_NUMERATOR_def split: if_splits)
  have n': "n = nat (fc_available f - fc_window f)"
    using n lt rng by (simp add: in_i32_def)
  show "int n = fc_available f - fc_window f" "0 < n" "n < 2 ^ 31"
    using n' lt rng by (auto simp: in_i32_def)
  show "fc_window f div 2 \<le> int n"
    using th n' lt assms(2) by (simp add: i32_div_pos)
qed

lemma fc_unclaimed_readvertise:
  assumes "fc_ok f" and "0 \<le> fc_window f" and "fc_unclaimed_capacity f = Some n"
  shows "fc_inc_window n f = (f\<lparr>fc_window := fc_available f\<rparr>, Inr ())"
proof -
  note u = fc_unclaimed_Some [OF assms]
  have "fc_window f + int n < 2 ^ 31"
    using u(1) assms(1) by (simp add: fc_ok_def in_i32_def)
  then show ?thesis using fc_inc_window_ok [OF u(3) assms(1)] u(1) by simp
qed

lemma check_window_size_ok [simp]: "check_window_size sz = Inr () \<longleftrightarrow> sz < 2 ^ 31"
  by (auto simp: check_window_size_def MAX_WINDOW_SIZE_def)

lemma guarded_fc_in: "sz < 2 ^ 31 \<Longrightarrow>
  guarded_fc op sz f = (fst (op sz f), map_err map_reason (snd (op sz f)))"
  by (auto simp: guarded_fc_def check_window_size_def MAX_WINDOW_SIZE_def split: prod.splits)

lemma guarded_fc_out: "2 ^ 31 \<le> sz \<Longrightarrow> \<exists>e. guarded_fc op sz f = (f, Inl e)"
  by (simp add: guarded_fc_def check_window_size_def MAX_WINDOW_SIZE_def)

text \<open>The methods of \<open>H2FlowControl\<close> in any order (\<open>None\<close>: a panic).\<close>

datatype fc_op =
    FcClaim u32 | FcAssign u32 | FcInc u32 | FcDecSend u32 | FcDecRecv u32 | FcSendData u32

fun fc_call :: "fc_op \<Rightarrow> flow_control \<Rightarrow> flow_control \<times> (pyerr + unit)" where
  "fc_call (FcClaim n) = H2FlowControl_claim_capacity n"
| "fc_call (FcAssign n) = H2FlowControl_assign_capacity n"
| "fc_call (FcInc n) = H2FlowControl_inc_window n"
| "fc_call (FcDecSend n) = H2FlowControl_dec_send_window n"
| "fc_call (FcDecRecv n) = H2FlowControl_dec_recv_window n"
| "fc_call (FcSendData n) = H2FlowControl_send_data n"

fun fc_amount :: "fc_op \<Rightarrow> u32" where
  "fc_amount (FcClaim n) = n" | "fc_amount (FcAssign n) = n" | "fc_amount (FcInc n) = n"
| "fc_amount (FcDecSend n) = n" | "fc_amount (FcDecRecv n) = n" | "fc_amount (FcSendData n) = n"

definition fc_step :: "fc_op \<Rightarrow> flow_control \<Rightarrow> flow_control option" where
  "fc_step op f = (case fc_call op f of (f', r) \<Rightarrow> if r = Inl RustPanic then None else Some f')"

lemma fc_ok_guarded:
  assumes "\<And>g. fc_ok g \<Longrightarrow> fc_ok (fst (op sz g))" and "fc_ok f"
  shows "fc_ok (fst (guarded_fc op sz f))"
  using assms by (auto simp: guarded_fc_def split: sum.splits prod.splits) (metis fst_conv)

lemma fc_ok_send_data: "fc_send_data sz f = Some (f', r) \<Longrightarrow> fc_ok f \<Longrightarrow> fc_ok f'"
  using fc_ok_dec_recv [of f sz]
  by (auto simp: fc_send_data_def fc_send_data_raw_def split: if_splits)

lemma fc_ok_call: "fc_ok f \<Longrightarrow> fc_ok (fst (fc_call op f))"
  by (cases op)
    (auto simp: H2FlowControl_claim_capacity_def H2FlowControl_assign_capacity_def
      H2FlowControl_inc_window_def H2FlowControl_dec_send_window_def
      H2FlowControl_dec_recv_window_def H2FlowControl_send_data_def
      intro: fc_ok_guarded fc_ok_ops dest: fc_ok_send_data split: option.splits)

lemma guarded_fc_no_panic: "snd (guarded_fc op sz f) \<noteq> Inl RustPanic"
  by (auto simp: guarded_fc_def check_window_size_def map_err_def map_reason_def
      split: sum.splits prod.splits)

lemma fc_call_no_panic:
  assumes "fc_ok f" and "fc_amount op < 2 ^ 32"
  shows "snd (fc_call op f) \<noteq> Inl RustPanic"
  using assms fc_send_data_no_panic [of f "fc_amount op"]
  by (cases op)
    (auto simp: H2FlowControl_claim_capacity_def H2FlowControl_assign_capacity_def
      H2FlowControl_inc_window_def H2FlowControl_dec_send_window_def
      H2FlowControl_dec_recv_window_def H2FlowControl_send_data_def guarded_fc_no_panic
      map_err_def map_reason_def split: option.splits sum.splits)

interpretation fc: preserved fc_step fc_ok
proof unfold_locales
  show "fc_ok t" if "fc_step op s = Some t" and "fc_ok s" for op s t
    using that fc_ok_call [of s op] by (auto simp: fc_step_def split: prod.splits if_splits)
qed

lemma fc_run_total:
  assumes "fc_ok f" and "\<forall>op \<in> set ops. fc_amount op < 2 ^ 32"
  shows "\<exists>f'. run_ops fc_step ops f = Some f' \<and> fc_ok f'"
proof -
  have "run_ops fc_step ops f \<noteq> None"
    using assms
  proof (induction ops arbitrary: f)
    case (Cons op ops)
    then have "snd (fc_call op f) \<noteq> Inl RustPanic" by (intro fc_call_no_panic) auto
    then obtain g where g: "fc_step op f = Some g"
      by (cases "fc_call op f") (auto simp: fc_step_def)
    with Cons fc.step_holds [OF g] show ?case by auto
  qed simp
  then show ?thesis using fc.run_holds [of ops f] assms(1) by auto
qed

end
