(* ===== verification/Stream_State.thy ===== *)
theory Stream_State
  imports H2_Errors
begin

section \<open>The HTTP/2 stream state machine\<close>

text \<open>
  crates/vendor-h2/src/proto/streams/state.rs: the \<open>Inner\<close> enum as \<open>stream_state\<close> (the struct
  \<open>State\<close> only wraps it), one definition per transition and query, and the check-and-act wrappers
  of \<open>H2StreamState\<close> (src/h2/streams.rs). A transition returns the error and keeps the state, or
  returns the new state. \<open>send_close\<close> panics outside its domain: \<open>None\<close>.

  The second part relates the machine to the diagram of RFC 9113 section 5.1 (the one drawn in the
  source), stated as an inductive step relation over the seven protocol states.
\<close>

datatype peer = AwaitingHeaders | Streaming

datatype cause =
    EndStream
  | CError proto_error
  | ErrorAfterEndStream proto_error
  | ScheduledLibraryReset reason

datatype stream_state =
    Idle
  | ReservedLocal
  | ReservedRemote
  | Open peer peer   \<comment> \<open>local, remote\<close>
  | HalfClosedLocal peer
  | HalfClosedRemote peer
  | Closed cause

datatype poll_reset = PRAwaitingHeaders | PRStreaming

definition stream_default :: stream_state where "stream_default = Idle"

subsection \<open>Transitions\<close>

fun send_open :: "bool \<Rightarrow> stream_state \<Rightarrow> user_error + stream_state" where
  "send_open eos Idle =
     Inr (if eos then HalfClosedLocal AwaitingHeaders else Open Streaming AwaitingHeaders)"
| "send_open eos (Open AwaitingHeaders remote) =
     Inr (if eos then HalfClosedLocal remote else Open Streaming remote)"
| "send_open eos (HalfClosedRemote AwaitingHeaders) =
     Inr (if eos then Closed EndStream else HalfClosedRemote Streaming)"
| "send_open eos ReservedLocal =
     Inr (if eos then Closed EndStream else HalfClosedRemote Streaming)"
| "send_open eos _ = Inl UnexpectedFrameType"

text \<open>\<open>recv_open eos informational\<close>: the boolean of the result is \<open>initial\<close>.\<close>

fun recv_open :: "bool \<Rightarrow> bool \<Rightarrow> stream_state \<Rightarrow> proto_error + stream_state \<times> bool" where
  "recv_open eos informational Idle =
     Inr (if eos then HalfClosedRemote AwaitingHeaders
          else Open AwaitingHeaders (if informational then AwaitingHeaders else Streaming), True)"
| "recv_open eos informational ReservedRemote =
     Inr (if eos then Closed EndStream
          else if informational then ReservedRemote
          else HalfClosedLocal Streaming, True)"
| "recv_open eos informational (Open local AwaitingHeaders) =
     Inr (if eos then HalfClosedRemote local
          else Open local (if informational then AwaitingHeaders else Streaming), False)"
| "recv_open eos informational (HalfClosedLocal AwaitingHeaders) =
     Inr (if eos then Closed EndStream
          else if informational then HalfClosedLocal AwaitingHeaders
          else HalfClosedLocal Streaming, False)"
| "recv_open eos informational _ = Inl (library_go_away PROTOCOL_ERROR)"

fun reserve_remote :: "stream_state \<Rightarrow> proto_error + stream_state" where
  "reserve_remote Idle = Inr ReservedRemote"
| "reserve_remote _ = Inl (library_go_away PROTOCOL_ERROR)"

fun reserve_local :: "stream_state \<Rightarrow> user_error + stream_state" where
  "reserve_local Idle = Inr ReservedLocal"
| "reserve_local _ = Inl UnexpectedFrameType"

fun recv_close :: "stream_state \<Rightarrow> proto_error + stream_state" where
  "recv_close (Open local remote) = Inr (HalfClosedRemote local)"
| "recv_close (HalfClosedLocal p) = Inr (Closed EndStream)"
| "recv_close _ = Inl (library_go_away PROTOCOL_ERROR)"

fun is_closed :: "stream_state \<Rightarrow> bool" where
  "is_closed (Closed _) = True"
| "is_closed _ = False"

fun is_recv_end_stream :: "stream_state \<Rightarrow> bool" where
  "is_recv_end_stream (Closed EndStream) = True"
| "is_recv_end_stream (Closed (ErrorAfterEndStream _)) = True"
| "is_recv_end_stream (HalfClosedRemote _) = True"
| "is_recv_end_stream _ = False"

definition recv_reset :: "u32 \<Rightarrow> reason \<Rightarrow> bool \<Rightarrow> stream_state \<Rightarrow> stream_state" where
  "recv_reset sid r queued s =
     (if is_closed s \<and> \<not> queued then s
      else let err = remote_reset sid r
           in Closed (if is_recv_end_stream s then ErrorAfterEndStream err else CError err))"

definition handle_error :: "proto_error \<Rightarrow> stream_state \<Rightarrow> stream_state" where
  "handle_error err s = (if is_closed s then s else Closed (CError err))"

definition broken_pipe :: proto_error where
  "broken_pipe = Io BrokenPipe (Some ''stream closed because of a broken pipe'')"

definition recv_eof :: "stream_state \<Rightarrow> stream_state" where
  "recv_eof s = (if is_closed s then s else Closed (CError broken_pipe))"

fun send_close :: "stream_state \<Rightarrow> stream_state option" where
  "send_close (Open local remote) = Some (HalfClosedLocal remote)"
| "send_close (HalfClosedRemote p) = Some (Closed EndStream)"
| "send_close _ = None"

definition set_reset :: "u32 \<Rightarrow> reason \<Rightarrow> initiator \<Rightarrow> stream_state \<Rightarrow> stream_state" where
  "set_reset sid r i s = Closed (CError (Reset sid r i))"

text \<open>Its \<open>debug_assert!(!self.is_closed())\<close> is checked by every caller in this repository.\<close>

definition set_scheduled_reset :: "reason \<Rightarrow> stream_state \<Rightarrow> stream_state" where
  "set_scheduled_reset r s = Closed (ScheduledLibraryReset r)"

subsection \<open>Queries\<close>

fun get_scheduled_reset :: "stream_state \<Rightarrow> reason option" where
  "get_scheduled_reset (Closed (ScheduledLibraryReset r)) = Some r"
| "get_scheduled_reset _ = None"

fun is_scheduled_reset :: "stream_state \<Rightarrow> bool" where
  "is_scheduled_reset (Closed (ScheduledLibraryReset r)) = True"
| "is_scheduled_reset _ = False"

fun is_local_error :: "stream_state \<Rightarrow> bool" where
  "is_local_error (Closed (CError e)) = proto_error_is_local e"
| "is_local_error (Closed (ErrorAfterEndStream e)) = proto_error_is_local e"
| "is_local_error (Closed (ScheduledLibraryReset _)) = True"
| "is_local_error _ = False"

fun is_remote_reset :: "stream_state \<Rightarrow> bool" where
  "is_remote_reset (Closed (CError (Reset _ _ Remote))) = True"
| "is_remote_reset (Closed (ErrorAfterEndStream (Reset _ _ Remote))) = True"
| "is_remote_reset _ = False"

fun is_reset :: "stream_state \<Rightarrow> bool" where
  "is_reset (Closed EndStream) = False"
| "is_reset (Closed _) = True"
| "is_reset _ = False"

fun is_send_streaming :: "stream_state \<Rightarrow> bool" where
  "is_send_streaming (Open Streaming _) = True"
| "is_send_streaming (HalfClosedRemote Streaming) = True"
| "is_send_streaming _ = False"

fun is_recv_headers :: "stream_state \<Rightarrow> bool" where
  "is_recv_headers Idle = True"
| "is_recv_headers (Open _ AwaitingHeaders) = True"
| "is_recv_headers (HalfClosedLocal AwaitingHeaders) = True"
| "is_recv_headers ReservedRemote = True"
| "is_recv_headers _ = False"

fun is_recv_streaming :: "stream_state \<Rightarrow> bool" where
  "is_recv_streaming (Open _ Streaming) = True"
| "is_recv_streaming (HalfClosedLocal Streaming) = True"
| "is_recv_streaming _ = False"

fun is_send_closed :: "stream_state \<Rightarrow> bool" where
  "is_send_closed (Closed _) = True"
| "is_send_closed (HalfClosedLocal _) = True"
| "is_send_closed ReservedRemote = True"
| "is_send_closed _ = False"

fun is_idle :: "stream_state \<Rightarrow> bool" where
  "is_idle Idle = True"
| "is_idle _ = False"

fun ensure_recv_open :: "stream_state \<Rightarrow> proto_error + bool" where
  "ensure_recv_open (Closed (CError e)) = Inl e"
| "ensure_recv_open (Closed (ScheduledLibraryReset r)) = Inl (library_go_away r)"
| "ensure_recv_open (Closed EndStream) = Inr False"
| "ensure_recv_open (Closed (ErrorAfterEndStream _)) = Inr False"
| "ensure_recv_open (HalfClosedRemote _) = Inr False"
| "ensure_recv_open ReservedLocal = Inr False"
| "ensure_recv_open _ = Inr True"

text \<open>\<open>crate::Error\<close> is built here from a stored error or from a \<open>UserError\<close>.\<close>

datatype crate_error = FromProto proto_error | FromUser user_error

fun cause_reason :: "proto_error \<Rightarrow> crate_error + reason option" where
  "cause_reason (Reset _ r _) = Inr (Some r)"
| "cause_reason (GoAway _ r _) = Inr (Some r)"
| "cause_reason e = Inl (FromProto e)"

fun ensure_reason :: "poll_reset \<Rightarrow> stream_state \<Rightarrow> crate_error + reason option" where
  "ensure_reason mode (Closed (CError e)) = cause_reason e"
| "ensure_reason mode (Closed (ErrorAfterEndStream e)) = cause_reason e"
| "ensure_reason mode (Closed (ScheduledLibraryReset r)) = Inr (Some r)"
| "ensure_reason PRAwaitingHeaders (Open Streaming _) = Inl (FromUser PollResetAfterSendResponse)"
| "ensure_reason PRAwaitingHeaders (HalfClosedRemote Streaming) =
     Inl (FromUser PollResetAfterSendResponse)"
| "ensure_reason _ _ = Inr None"

subsection \<open>The check-and-act wrappers of H2StreamState\<close>

definition H2StreamState_send_close :: "stream_state \<Rightarrow> stream_state option \<times> bool" where
  "H2StreamState_send_close s = (if is_send_streaming s then (send_close s, True) else (Some s, False))"

definition H2StreamState_set_scheduled_reset :: "reason \<Rightarrow> stream_state \<Rightarrow> stream_state \<times> bool" where
  "H2StreamState_set_scheduled_reset r s =
     (if is_closed s then (s, False) else (set_scheduled_reset r s, True))"

definition H2StreamState_set_reset ::
  "u32 \<Rightarrow> reason \<Rightarrow> string \<Rightarrow> stream_state \<Rightarrow> stream_state \<times> (pyerr + unit)" where
  "H2StreamState_set_reset sid r initiator s =
     (case parse_initiator initiator of
        Inl e \<Rightarrow> (s, Inl e) | Inr i \<Rightarrow> (set_reset sid r i s, Inr ()))"

subsection \<open>Basic facts\<close>

lemma send_streaming_not_closed [simp]: "is_send_streaming s \<Longrightarrow> \<not> is_closed s"
  by (cases s) auto

lemma recv_streaming_not_closed [simp]: "is_recv_streaming s \<Longrightarrow> \<not> is_closed s"
  by (cases s) auto

lemma recv_headers_not_closed [simp]: "is_recv_headers s \<Longrightarrow> \<not> is_closed s"
  by (cases s) auto

lemma closed_send_closed [simp]: "is_closed s \<Longrightarrow> is_send_closed s"
  by (cases s) auto

lemma send_streaming_not_send_closed: "is_send_streaming s \<Longrightarrow> \<not> is_send_closed s"
  by (cases s rule: is_send_streaming.cases) auto

lemma send_close_domain: "send_close s \<noteq> None \<longleftrightarrow> (\<exists>l r. s = Open l r) \<or> (\<exists>p. s = HalfClosedRemote p)"
  by (cases s) auto

lemma send_close_streaming: "is_send_streaming s \<Longrightarrow> \<exists>s'. send_close s = Some s' \<and> is_send_closed s'"
  by (cases s rule: is_send_streaming.cases) auto

lemma send_close_not_send_streaming: "send_close s = Some s' \<Longrightarrow> \<not> is_send_streaming s'"
  by (cases s) auto

lemma recv_close_end_stream: "recv_close s = Inr s' \<Longrightarrow> is_recv_end_stream s'"
  by (cases s) auto

lemma recv_close_ok_iff:
  "is_ok (recv_close s) \<longleftrightarrow> (\<exists>l r. s = Open l r) \<or> (\<exists>p. s = HalfClosedLocal p)"
  by (cases s) auto

lemma recv_streaming_recv_close: "is_recv_streaming s \<Longrightarrow> \<exists>s'. recv_close s = Inr s'"
  by (cases s) auto

lemma closed_set_reset [simp]: "is_closed (set_reset sid r i s)"
  by (simp add: set_reset_def)

lemma closed_recv_eof [simp]: "is_closed (recv_eof s)"
  by (auto simp: recv_eof_def)

lemma closed_handle_error [simp]: "is_closed (handle_error e s)"
  by (auto simp: handle_error_def)

lemma closed_recv_reset [simp]: "is_closed (recv_reset sid r q s)"
  by (auto simp: recv_reset_def Let_def)

lemma local_error_closed: "is_local_error s \<Longrightarrow> is_closed s"
  by (cases s) auto

lemma reset_closed: "is_reset s \<Longrightarrow> is_closed s"
  by (cases s) auto

lemma set_reset_local_error [simp]: "is_local_error (set_reset sid r i s) \<longleftrightarrow> i \<noteq> Remote"
  by (cases i) (simp_all add: set_reset_def)

lemma set_reset_recv_open [simp]:
  "ensure_recv_open (set_reset sid r i s) = Inl (Reset sid r i)"
  by (simp add: set_reset_def)

lemma send_open_closes: "send_open eos s = Inr s' \<Longrightarrow> is_closed s' \<longleftrightarrow> eos \<and> is_recv_end_stream s \<or> eos \<and> s = ReservedLocal"
  by (cases "(eos, s)" rule: send_open.cases) (auto split: if_splits)

lemma send_open_from_open: "send_open eos s = Inr s' \<Longrightarrow> \<not> is_closed s"
  by (cases s) auto

lemma recv_open_from_open: "recv_open eos interim s = Inr x \<Longrightarrow> \<not> is_closed s"
  by (cases s) auto

text \<open>A received END_STREAM is preserved by a later reset of the peer: the message stood.\<close>

lemma recv_reset_message_stands:
  "is_recv_end_stream s \<Longrightarrow> is_recv_end_stream (recv_reset sid r q s)"
  by (auto simp: recv_reset_def Let_def)

lemma recv_reset_reader:
  assumes "\<not> is_closed s"
  shows "ensure_recv_open (recv_reset sid r q s) =
    (if is_recv_end_stream s then Inr False else Inl (Reset sid r Remote))"
  using assms by (auto simp: recv_reset_def Let_def remote_reset_def)

lemma recv_reset_sender:
  assumes "\<not> is_closed s"
  shows "ensure_reason mode (recv_reset sid r q s) = Inr (Some r)"
  using assms by (cases mode) (auto simp: recv_reset_def Let_def remote_reset_def)

subsection \<open>The protocol diagram\<close>

datatype rfc_state =
    RIdle | RReservedLocal | RReservedRemote | ROpen | RHalfClosedLocal | RHalfClosedRemote | RClosed

datatype rfc_event =
    SendH | RecvH           \<comment> \<open>HEADERS without END_STREAM\<close>
  | SendHES | RecvHES       \<comment> \<open>HEADERS with END_STREAM: both events of the diagram in one step\<close>
  | SendES | RecvES         \<comment> \<open>END_STREAM after the head\<close>
  | SendPP | RecvPP
  | Abort                   \<comment> \<open>RST_STREAM either way, or the end of the connection\<close>

inductive rfc_step :: "rfc_state \<Rightarrow> rfc_event \<Rightarrow> rfc_state \<Rightarrow> bool" where
  idle_send_pp: "rfc_step RIdle SendPP RReservedLocal"
| idle_recv_pp: "rfc_step RIdle RecvPP RReservedRemote"
| idle_send_h: "rfc_step RIdle SendH ROpen"
| idle_recv_h: "rfc_step RIdle RecvH ROpen"
| resl_send_h: "rfc_step RReservedLocal SendH RHalfClosedRemote"
| resr_recv_h: "rfc_step RReservedRemote RecvH RHalfClosedLocal"
| send_es_open: "rfc_step ROpen SendES RHalfClosedLocal"
| recv_es_open: "rfc_step ROpen RecvES RHalfClosedRemote"
| send_es_hcr: "rfc_step RHalfClosedRemote SendES RClosed"
| recv_es_hcl: "rfc_step RHalfClosedLocal RecvES RClosed"
| send_h_es: "rfc_step s SendH t \<Longrightarrow> rfc_step t SendES u \<Longrightarrow> rfc_step s SendHES u"
| recv_h_es: "rfc_step s RecvH t \<Longrightarrow> rfc_step t RecvES u \<Longrightarrow> rfc_step s RecvHES u"
| more_send_h: "s \<in> {ROpen, RHalfClosedRemote} \<Longrightarrow> rfc_step s SendH s"
| more_recv_h: "s \<in> {ROpen, RHalfClosedLocal} \<Longrightarrow> rfc_step s RecvH s"
| abort: "rfc_step s Abort RClosed"

inductive_cases rfc_closedE: "rfc_step RClosed ev t"
inductive_simps rfc_idle_send: "rfc_step RIdle SendH t"
inductive_simps rfc_open_recv_es: "rfc_step ROpen RecvES t"

fun rfc_abs :: "stream_state \<Rightarrow> rfc_state" where
  "rfc_abs Idle = RIdle"
| "rfc_abs ReservedLocal = RReservedLocal"
| "rfc_abs ReservedRemote = RReservedRemote"
| "rfc_abs (Open _ _) = ROpen"
| "rfc_abs (HalfClosedLocal _) = RHalfClosedLocal"
| "rfc_abs (HalfClosedRemote _) = RHalfClosedRemote"
| "rfc_abs (Closed _) = RClosed"

lemma rfc_abs_closed: "rfc_abs s = RClosed \<longleftrightarrow> is_closed s"
  by (cases s) auto

text \<open>In the diagram, a closed stream stays closed.\<close>

lemma rfc_closed_absorbing: "rfc_step s ev t \<Longrightarrow> s = RClosed \<Longrightarrow> t = RClosed"
  by (induction rule: rfc_step.induct) auto

text \<open>The operations of the machine as one labelled step function (\<open>None\<close>: rejected).\<close>

datatype stream_op =
    OpSendOpen bool
  | OpRecvOpen bool bool
  | OpReserveRemote
  | OpReserveLocal
  | OpRecvClose
  | OpSendClose
  | OpRecvReset u32 reason bool
  | OpHandleError proto_error
  | OpRecvEof
  | OpSetReset u32 reason initiator
  | OpSetScheduledReset reason

fun stream_step :: "stream_op \<Rightarrow> stream_state \<Rightarrow> stream_state option" where
  "stream_step (OpSendOpen eos) s = (case send_open eos s of Inl _ \<Rightarrow> None | Inr s' \<Rightarrow> Some s')"
| "stream_step (OpRecvOpen eos interim) s =
     (case recv_open eos interim s of Inl _ \<Rightarrow> None | Inr (s', _) \<Rightarrow> Some s')"
| "stream_step OpReserveRemote s = (case reserve_remote s of Inl _ \<Rightarrow> None | Inr s' \<Rightarrow> Some s')"
| "stream_step OpReserveLocal s = (case reserve_local s of Inl _ \<Rightarrow> None | Inr s' \<Rightarrow> Some s')"
| "stream_step OpRecvClose s = (case recv_close s of Inl _ \<Rightarrow> None | Inr s' \<Rightarrow> Some s')"
| "stream_step OpSendClose s = send_close s"
| "stream_step (OpRecvReset sid r q) s = Some (recv_reset sid r q s)"
| "stream_step (OpHandleError e) s = Some (handle_error e s)"
| "stream_step OpRecvEof s = Some (recv_eof s)"
| "stream_step (OpSetReset sid r i) s = Some (set_reset sid r i s)"
| "stream_step (OpSetScheduledReset r) s = Some (set_scheduled_reset r s)"

text \<open>The event of the diagram an operation stands for.\<close>

fun op_event :: "stream_op \<Rightarrow> rfc_event" where
  "op_event (OpSendOpen eos) = (if eos then SendHES else SendH)"
| "op_event (OpRecvOpen eos _) = (if eos then RecvHES else RecvH)"
| "op_event OpReserveRemote = RecvPP"
| "op_event OpReserveLocal = SendPP"
| "op_event OpRecvClose = RecvES"
| "op_event OpSendClose = SendES"
| "op_event _ = Abort"

text \<open>
  A reserved stream that receives an interim (1xx) head stays reserved: the one operation that is
  a stutter and not a step of the diagram.
\<close>

definition interim_on_reserved :: "stream_op \<Rightarrow> stream_state \<Rightarrow> bool" where
  "interim_on_reserved op s \<longleftrightarrow> op = OpRecvOpen False True \<and> s = ReservedRemote"

lemma rfc_intros_hes:
  "rfc_step RIdle SendHES RHalfClosedLocal" "rfc_step RIdle RecvHES RHalfClosedRemote"
  "rfc_step ROpen SendHES RHalfClosedLocal" "rfc_step ROpen RecvHES RHalfClosedRemote"
  "rfc_step RHalfClosedRemote SendHES RClosed" "rfc_step RHalfClosedLocal RecvHES RClosed"
  "rfc_step RReservedLocal SendHES RClosed" "rfc_step RReservedRemote RecvHES RClosed"
  by (rule send_h_es recv_h_es; (rule rfc_step.intros; (simp; fail)?))+

lemmas rfc_rules [intro] =
  rfc_intros_hes idle_send_pp idle_recv_pp idle_send_h idle_recv_h resl_send_h resr_recv_h
  send_es_open recv_es_open send_es_hcr recv_es_hcl more_send_h more_recv_h abort

lemma stream_step_refines:
  assumes "stream_step op s = Some s'" and "\<not> interim_on_reserved op s"
  shows "rfc_step (rfc_abs s) (op_event op) (rfc_abs s')"
proof (cases op)
  case (OpSendOpen eos)
  with assms show ?thesis
    by (cases "(eos, s)" rule: send_open.cases) auto
next
  case (OpRecvOpen eos interim)
  with assms show ?thesis
    by (cases "(eos, interim, s)" rule: recv_open.cases) (auto simp: interim_on_reserved_def)
next
  case OpReserveRemote
  with assms show ?thesis by (cases s) auto
next
  case OpReserveLocal
  with assms show ?thesis by (cases s) auto
next
  case OpRecvClose
  with assms show ?thesis by (cases s) auto
next
  case OpSendClose
  with assms show ?thesis by (cases s) auto
qed (use assms in \<open>auto simp: rfc_abs_closed [THEN iffD2] set_scheduled_reset_def\<close>)

text \<open>A run of accepted operations.\<close>

definition stream_run :: "stream_op list \<Rightarrow> stream_state \<Rightarrow> stream_state option" where
  "stream_run = run_ops stream_step"

lemma stream_step_closed: "stream_step op s = Some s' \<Longrightarrow> is_closed s \<Longrightarrow> is_closed s'"
  by (cases s; cases op) (auto simp: set_scheduled_reset_def)

interpretation closed: preserved stream_step is_closed
  by unfold_locales (rule stream_step_closed)

lemma stream_run_closed: "stream_run ops s = Some s' \<Longrightarrow> is_closed s \<Longrightarrow> is_closed s'"
  unfolding stream_run_def by (rule closed.run_holds)

text \<open>Once the send half is closed, no run reopens it, so nothing is framed on it again.\<close>

lemma stream_step_send_closed:
  "stream_step op s = Some s' \<Longrightarrow> is_send_closed s \<Longrightarrow> s \<noteq> ReservedRemote \<Longrightarrow>
   is_send_closed s' \<and> s' \<noteq> ReservedRemote"
  by (cases op; cases s)
    (auto simp: recv_reset_def handle_error_def recv_eof_def set_reset_def set_scheduled_reset_def
      Let_def elim: recv_open.elims split: if_splits sum.splits)

interpretation send_closed: preserved stream_step "\<lambda>s. is_send_closed s \<and> s \<noteq> ReservedRemote"
  by unfold_locales (auto dest: stream_step_send_closed)

lemma stream_run_send_closed:
  "stream_run ops s = Some s' \<Longrightarrow> is_send_closed s \<Longrightarrow> s \<noteq> ReservedRemote \<Longrightarrow> is_send_closed s'"
  unfolding stream_run_def using send_closed.run_holds by blast

end
