(* ===== verification/Stream_Counts.thy ===== *)
theory Stream_Counts
  imports H2_Errors
begin

section \<open>Content length and the DATA-framing budget\<close>

text \<open>
  The two numeric pieces of stream and connection state of src/h2/streams.rs: the declared body
  length (\<open>ContentLength\<close>) and the budget that bounds the overhead of small DATA frames
  (\<open>Budget\<close>, \<open>DataFrameCounts\<close>).
\<close>

subsection \<open>ContentLength\<close>

datatype content_length = Omitted | Head | Remaining u64

definition cl_new :: "bool \<Rightarrow> content_length" where
  "cl_new is_head = (if is_head then Head else Omitted)"

fun cl_is_head :: "content_length \<Rightarrow> bool" where
  "cl_is_head Head = True"
| "cl_is_head _ = False"

definition cl_set :: "u64 \<Rightarrow> content_length \<Rightarrow> content_length" where
  "cl_set v c = (if cl_is_head c then c else Remaining v)"

fun cl_dec :: "u64 \<Rightarrow> content_length \<Rightarrow> content_length \<times> bool" where
  "cl_dec len (Remaining rem) =
     (case u64_checked_sub rem len of
        Some val \<Rightarrow> (Remaining val, True) | None \<Rightarrow> (Remaining rem, False))"
| "cl_dec len Head = (Head, len = 0)"
| "cl_dec len Omitted = (Omitted, True)"

fun cl_is_satisfied :: "content_length \<Rightarrow> bool" where
  "cl_is_satisfied (Remaining n) = (n = 0)"
| "cl_is_satisfied _ = True"

text \<open>A body as the sequence of its DATA payload lengths: every chunk is accepted.\<close>

definition cl_step :: "u64 \<Rightarrow> content_length \<Rightarrow> content_length option" where
  "cl_step n c = (case cl_dec n c of (c', ok) \<Rightarrow> if ok then Some c' else None)"

definition cl_run :: "u64 list \<Rightarrow> content_length \<Rightarrow> content_length option" where
  "cl_run = run_ops cl_step"

lemma cl_run_simps [simp]:
  "cl_run [] c = Some c"
  "cl_run (n # ns) c = (case cl_step n c of None \<Rightarrow> None | Some c' \<Rightarrow> cl_run ns c')"
  by (simp_all add: cl_run_def split: option.split)

lemma cl_dec_Remaining [simp]:
  "len \<le> rem \<Longrightarrow> cl_dec len (Remaining rem) = (Remaining (rem - len), True)"
  "rem < len \<Longrightarrow> cl_dec len (Remaining rem) = (Remaining rem, False)"
  by (simp_all add: u64_checked_sub_def)

declare cl_dec.simps(1) [simp del]

lemma cl_run_Remaining:
  "cl_run ns (Remaining n) = (if sum_list ns \<le> n then Some (Remaining (n - sum_list ns)) else None)"
proof (induction ns arbitrary: n)
  case Nil
  then show ?case by simp
next
  case (Cons m ms)
  show ?case by (cases "m \<le> n") (auto simp: Cons.IH cl_step_def)
qed

lemma cl_run_Head: "cl_run ns Head = (if sum_list ns = 0 then Some Head else None)"
  by (induction ns) (auto simp: cl_step_def split: bool.splits)

lemma cl_run_Omitted: "cl_run ns Omitted = Some Omitted"
  by (induction ns) (auto simp: cl_step_def)

lemma cl_run_append: "cl_run (ms @ ns) c = Option.bind (cl_run ms c) (cl_run ns)"
  by (simp add: cl_run_def run_ops_append)

subsection \<open>Budget\<close>

definition DATA_FRAME_OVERHEAD_THRESHOLD :: usize where "DATA_FRAME_OVERHEAD_THRESHOLD = 256"
definition DATA_FRAME_BUDGET :: usize where
  "DATA_FRAME_BUDGET = DATA_FRAME_OVERHEAD_THRESHOLD * 100"
definition MAX_RECV_EMPTY_DATA_FRAMES :: usize where "MAX_RECV_EMPTY_DATA_FRAMES = 100"

record budget =
  b_current :: usize
  b_max :: usize

definition budget_consume :: "usize \<Rightarrow> budget \<Rightarrow> budget \<times> bool" where
  "budget_consume n b =
     (if b_current b < n then (b, False) else (b\<lparr>b_current := b_current b - n\<rparr>, True))"

definition budget_replenish :: "usize \<Rightarrow> budget \<Rightarrow> budget" where
  "budget_replenish n b = b\<lparr>b_current := min (usize_saturating_add (b_current b) n) (b_max b)\<rparr>"

record data_frame_counts =
  dfc_budget :: budget
  dfc_num_empty :: usize

definition budget_exhausted :: pyerr where
  "budget_exhausted = protocol_err_with_debug ENHANCE_YOUR_CALM ''too_many_data_frames''
     (ascii ''too_many_data_frames'')"

definition dfc_new :: "usize option \<Rightarrow> u32 option \<Rightarrow> data_frame_counts" where
  "dfc_new configured connection_window =
     (let m = (case configured of
                 Some c \<Rightarrow> c
               | None \<Rightarrow>
                   (let window = (case connection_window of Some w \<Rightarrow> w | None \<Rightarrow> 65535)
                    in max (window div 2) DATA_FRAME_BUDGET))
      in \<lparr>dfc_budget = \<lparr>b_current = m, b_max = m\<rparr>, dfc_num_empty = 0\<rparr>)"

definition dfc_record :: "usize \<Rightarrow> data_frame_counts \<Rightarrow> data_frame_counts \<times> (pyerr + usize)" where
  "dfc_record payload_len d =
     (if payload_len = 0 then
        (case usize_checked_add (dfc_num_empty d) 1 of
           None \<Rightarrow> (d, Inl budget_exhausted)
         | Some n \<Rightarrow>
             (let d' = d\<lparr>dfc_num_empty := n\<rparr>
              in if MAX_RECV_EMPTY_DATA_FRAMES < n then (d', Inl budget_exhausted)
                 else (d', Inr 0)))
      else if payload_len < DATA_FRAME_OVERHEAD_THRESHOLD then
        (let cost = DATA_FRAME_OVERHEAD_THRESHOLD - payload_len
         in case budget_consume cost (dfc_budget d) of
              (b, False) \<Rightarrow> (d\<lparr>dfc_budget := b\<rparr>, Inl budget_exhausted)
            | (b, True) \<Rightarrow> (d\<lparr>dfc_budget := b\<rparr>, Inr cost))
      else
        (d\<lparr>dfc_budget :=
            budget_replenish (payload_len - DATA_FRAME_OVERHEAD_THRESHOLD) (dfc_budget d)\<rparr>, Inr 0))"

definition dfc_release :: "usize \<Rightarrow> data_frame_counts \<Rightarrow> data_frame_counts" where
  "dfc_release charge d = d\<lparr>dfc_budget := budget_replenish charge (dfc_budget d)\<rparr>"

definition dfc_available :: "data_frame_counts \<Rightarrow> usize" where
  "dfc_available d = b_current (dfc_budget d)"

definition dfc_empty_frames :: "data_frame_counts \<Rightarrow> usize" where
  "dfc_empty_frames d = dfc_num_empty d"

subsection \<open>Accounting facts\<close>

definition dfc_ok :: "data_frame_counts \<Rightarrow> bool" where
  "dfc_ok d \<longleftrightarrow> b_current (dfc_budget d) \<le> b_max (dfc_budget d)"

lemma dfc_ok_new [simp]: "dfc_ok (dfc_new c w)"
  by (simp add: dfc_ok_def dfc_new_def Let_def)

lemma dfc_ok_record: "dfc_ok d \<Longrightarrow> dfc_ok (fst (dfc_record n d))"
  by (auto simp: dfc_record_def dfc_ok_def budget_consume_def budget_replenish_def
      usize_checked_add_def Let_def)

lemma dfc_ok_release: "dfc_ok d \<Longrightarrow> dfc_ok (dfc_release n d)"
  by (auto simp: dfc_release_def dfc_ok_def budget_replenish_def)

lemma dfc_max_record: "b_max (dfc_budget (fst (dfc_record n d))) = b_max (dfc_budget d)"
  by (auto simp: dfc_record_def budget_consume_def budget_replenish_def usize_checked_add_def Let_def)

lemma dfc_max_release [simp]: "b_max (dfc_budget (dfc_release n d)) = b_max (dfc_budget d)"
  by (auto simp: dfc_release_def budget_replenish_def)

lemma dfc_record_charge:
  assumes "dfc_record n d = (d', Inr charge)"
  shows "charge = (if 0 < n \<and> n < 256 then 256 - n else 0)"
  using assms
  by (auto simp: dfc_record_def Let_def DATA_FRAME_OVERHEAD_THRESHOLD_def
      split: option.splits prod.splits bool.splits if_splits)

lemma dfc_record_small:
  assumes "0 < n" and "n < 256"
  shows "dfc_record n d =
    (if dfc_available d < 256 - n then (d, Inl budget_exhausted)
     else (d\<lparr>dfc_budget := (dfc_budget d)\<lparr>b_current := dfc_available d - (256 - n)\<rparr>\<rparr>, Inr (256 - n)))"
  using assms
  by (simp add: dfc_record_def dfc_available_def DATA_FRAME_OVERHEAD_THRESHOLD_def
      budget_consume_def Let_def)

text \<open>Charge and release cancel: the budget comes back in full.\<close>

lemma dfc_record_release:
  assumes "dfc_ok d" and "0 < n" and "n < 256" and "dfc_record n d = (d', Inr charge)"
    and "b_max (dfc_budget d) \<le> usize_max"
  shows "dfc_release charge d' = d"
proof -
  have c: "charge = 256 - n" using dfc_record_charge [OF assms(4)] assms(2,3) by simp
  have a: "\<not> dfc_available d < 256 - n"
    using assms(4) dfc_record_small [OF assms(2,3), of d] by (auto split: if_splits)
  have d': "d' = d\<lparr>dfc_budget := (dfc_budget d)\<lparr>b_current := dfc_available d - (256 - n)\<rparr>\<rparr>"
    using assms(4) dfc_record_small [OF assms(2,3), of d] a c by auto
  have "usize_saturating_add (dfc_available d - (256 - n)) (256 - n) = dfc_available d"
    using a assms(1,5) by (simp add: dfc_ok_def dfc_available_def)
  then show ?thesis
    using assms(1) by (simp add: d' c dfc_release_def budget_replenish_def dfc_ok_def dfc_available_def)
qed

text \<open>A connection's stream of non-final DATA frames.\<close>

definition dfc_step :: "usize \<Rightarrow> data_frame_counts \<Rightarrow> data_frame_counts option" where
  "dfc_step n d = (case dfc_record n d of (d', r) \<Rightarrow> if is_ok r then Some d' else None)"

definition dfc_run :: "usize list \<Rightarrow> data_frame_counts \<Rightarrow> data_frame_counts option" where
  "dfc_run = run_ops dfc_step"

lemma dfc_step_Some: "dfc_step n d = Some d' \<longleftrightarrow> (\<exists>c. dfc_record n d = (d', Inr c))"
  by (auto simp: dfc_step_def is_ok_def split: prod.splits sum.splits)

text \<open>The overhead a run of frames costs and earns back, without the cap on what is earned.\<close>

definition frame_cost :: "usize \<Rightarrow> nat" where
  "frame_cost n = (if 0 < n \<and> n < 256 then 256 - n else 0)"

definition frame_gain :: "usize \<Rightarrow> nat" where
  "frame_gain n = (if 256 \<le> n then n - 256 else 0)"

lemma dfc_record_bounds:
  assumes "dfc_record n d = (d', Inr c)"
  shows "dfc_available d' + frame_cost n \<le> dfc_available d + frame_gain n"
    and "dfc_num_empty d' = dfc_num_empty d + (if n = 0 then 1 else 0)"
    and "n = 0 \<Longrightarrow> dfc_num_empty d' \<le> 100"
  using assms
  by (auto simp: dfc_record_def Let_def DATA_FRAME_OVERHEAD_THRESHOLD_def frame_cost_def
      frame_gain_def dfc_available_def budget_consume_def budget_replenish_def
      usize_checked_add_def usize_saturating_add_def MAX_RECV_EMPTY_DATA_FRAMES_def
      split: option.splits prod.splits bool.splits if_splits)

interpretation budget: metered dfc_step dfc_available frame_cost frame_gain
  by unfold_locales (auto simp: dfc_step_Some dest: dfc_record_bounds(1))

interpretation empty_frames: metered "\<lambda>n d. dfc_step n d"
  "\<lambda>d. 100 - min 100 (dfc_num_empty d)" "\<lambda>n. if n = 0 then 1 else 0" "\<lambda>_. 0"
proof unfold_locales
  fix n d d'
  assume "dfc_step n d = Some d'"
  then obtain c where "dfc_record n d = (d', Inr c)" by (auto simp: dfc_step_Some)
  from dfc_record_bounds(2,3) [OF this]
  show "100 - min 100 (dfc_num_empty d') + (if n = 0 then 1 else 0)
      \<le> 100 - min 100 (dfc_num_empty d) + 0" by (cases "n = 0") auto
qed

text \<open>The frames a run holds pay for their overhead, and at most 100 of them are empty.\<close>

lemma dfc_run_bound:
  assumes "dfc_run ns d = Some d'"
  shows "dfc_available d' + sum_list (map frame_cost ns)
         \<le> dfc_available d + sum_list (map frame_gain ns)"
  using assms unfolding dfc_run_def by (rule budget.run_amount)

lemma dfc_run_empty_cap:
  assumes "dfc_run ns d = Some d'"
  shows "count_list ns 0 + min 100 (dfc_num_empty d) \<le> 100"
proof -
  have "sum_list (map (\<lambda>n. if n = (0::nat) then 1 else 0) ns) = count_list ns 0"
    by (induction ns) auto
  then show ?thesis
    using empty_frames.run_amount [of ns d d'] assms by (simp add: dfc_run_def)
qed

end
