(* ===== verification/Conn_State.thy ===== *)
theory Conn_State
  imports Flow_Control Stream_State Stream_Counts Frame_Encoder
begin

section \<open>The connection state and the maintenance of its store\<close>

text \<open>
  src/h2/conn.rs: the state behind the mutex (\<open>Inner\<close>), an entry of the stream store
  (\<open>StreamEntry\<close>), the verdicts, and the helpers of \<open>Inner\<close> that every operation rests on:
  classification of an inbound frame's target, the send rotation, closing a stream, the receive
  ledger, the DATA budget, the reset store.

  One method call is one critical section, so an operation is a function from the state to the new
  state and the verdict. \<open>Instant::now()\<close> is the argument \<open>now\<close> (nanoseconds); Python handles
  are identities (\<open>pyobj\<close>). The receive half of the codec has a mutex of its own and is a value
  of its own.
\<close>

subsection \<open>Constants and verdicts\<close>

definition RESET_STREAM_MAX :: usize where "RESET_STREAM_MAX = 50"
definition RESET_STREAM_SECS :: nat where "RESET_STREAM_SECS = 1000000000"
definition SHUTDOWN_PING :: bytes where "SHUTDOWN_PING = ascii ''SHUTDOWN''"
definition DEFAULT_SEND_BURST_FRAMES :: usize where "DEFAULT_SEND_BURST_FRAMES = 4"

type_synonym flags = "8 word"

definition FLAG_WAKE :: flags where "FLAG_WAKE = 1"
definition FLAG_SLOT_FREED :: flags where "FLAG_SLOT_FREED = 2"
definition FLAG_CONN_DONE :: flags where "FLAG_CONN_DONE = 4"
definition FLAG_STOP_ACCEPTING :: flags where "FLAG_STOP_ACCEPTING = 8"
definition FLAG_CAPACITY :: flags where "FLAG_CAPACITY = 16"

lemmas flag_defs = FLAG_WAKE_def FLAG_SLOT_FREED_def FLAG_CONN_DONE_def FLAG_STOP_ACCEPTING_def
  FLAG_CAPACITY_def

datatype headers_kind = HEADERS_IGNORED | HEADERS_OPENED | HEADERS_HEAD | HEADERS_TRAILERS

record stopped =
  st_reason :: "u32 option"
  st_conn :: bool

definition local_stop :: stopped where
  "local_stop = \<lparr>st_reason = None, st_conn = False\<rparr>"

record recv_headers_verdict =
  rhv_kind :: headers_kind
  rhv_handle :: "pyobj option"
  rhv_stream_id :: u32
  rhv_eof :: bool
  rhv_flags :: flags

record recv_data_verdict =
  rdv_handle :: "pyobj option"
  rdv_payload :: "bytes option"
  rdv_budgeted :: bool
  rdv_eof :: bool
  rdv_flags :: flags

record send_verdict =
  sdv_sent :: usize
  sdv_done :: bool
  sdv_stopped :: "stopped option"
  sdv_flags :: flags
  sdv_handle :: "pyobj option"
  sdv_reader_stop :: "stopped option"

record reset_verdict =
  rv_handle :: "pyobj option"
  rv_stop :: "stopped option"
  rv_flags :: flags

subsection \<open>The state\<close>

datatype role = Client | Server

record stream_entry =
  e_handle :: pyobj
  e_state :: stream_state
  e_send_flow :: flow_control
  e_recv_flow :: flow_control
  e_content_length :: content_length
  e_recv_unreleased :: u32
  e_recv_reclaimed :: bool
  e_send_buffered :: usize
  e_data_budget_charged :: usize
  e_holds_slot :: bool
  e_finished :: bool
  e_is_pending_capacity :: bool
  e_is_pending_send :: bool
  e_turn_frames :: usize

text \<open>A window opened at \<open>n\<close>, its capacity assigned; the results are dropped (\<open>let _ =\<close>).\<close>

definition flow_open :: "u32 \<Rightarrow> flow_control" where
  "flow_open n = fst (fc_assign_capacity n (fst (fc_inc_window n fc_new)))"

definition entry_new :: "pyobj \<Rightarrow> u32 \<Rightarrow> u32 \<Rightarrow> bool \<Rightarrow> stream_entry" where
  "entry_new handle send_window recv_window is_head =
     \<lparr>e_handle = handle, e_state = stream_default, e_send_flow = flow_open send_window,
      e_recv_flow = flow_open recv_window, e_content_length = cl_new is_head,
      e_recv_unreleased = 0, e_recv_reclaimed = False, e_send_buffered = 0,
      e_data_budget_charged = 0, e_holds_slot = False, e_finished = False,
      e_is_pending_capacity = False, e_is_pending_send = False, e_turn_frames = 0\<rparr>"

fun stop_from_proto :: "proto_error \<Rightarrow> stopped" where
  "stop_from_proto (Reset _ r _) = \<lparr>st_reason = Some r, st_conn = False\<rparr>"
| "stop_from_proto (GoAway _ r _) = \<lparr>st_reason = Some r, st_conn = True\<rparr>"
| "stop_from_proto (Io _ _) = \<lparr>st_reason = None, st_conn = True\<rparr>"

text \<open>\<open>proto::Error::reason\<close> behind \<open>crate::Error\<close>.\<close>

fun crate_error_reason :: "crate_error \<Rightarrow> reason option" where
  "crate_error_reason (FromProto (Reset _ r _)) = Some r"
| "crate_error_reason (FromProto (GoAway _ r _)) = Some r"
| "crate_error_reason (FromProto (Io _ _)) = None"
| "crate_error_reason (FromUser _) = None"

definition entry_stopped :: "stream_entry \<Rightarrow> stopped" where
  "entry_stopped e =
     (case ensure_recv_open (e_state e) of
        Inl err \<Rightarrow> stop_from_proto err
      | Inr _ \<Rightarrow>
          (case ensure_reason PRStreaming (e_state e) of
             Inr (Some r) \<Rightarrow> \<lparr>st_reason = Some r, st_conn = False\<rparr>
           | Inr None \<Rightarrow> \<lparr>st_reason = None, st_conn = False\<rparr>
           | Inl err \<Rightarrow> \<lparr>st_reason = crate_error_reason err, st_conn = True\<rparr>))"

definition stop_for_reader :: "stream_entry \<Rightarrow> stopped option" where
  "stop_for_reader e =
     (case ensure_recv_open (e_state e) of Inl err \<Rightarrow> Some (stop_from_proto err) | Inr _ \<Rightarrow> None)"

datatype conn_error = ConnErrorPy pyobj | ConnErrorClosed string

record goaway_info =
  gi_last_stream_id :: u32
  gi_reason :: u32
  gi_debug_data :: bytes

record 'h inner =
  c_role :: role
  c_encoder :: "'h encoder"
  c_pending :: bytes
  c_spare :: "bytes option"
  c_stop :: bool
  c_credit :: "(u32 \<times> usize) list"
  c_inflight_credit :: "(u32 \<times> usize) list"
  c_read_handle :: "pyobj option"
  c_pump_handle :: "pyobj option"
  c_writers :: usize
  c_draining :: bool
  c_streams :: "(u32, stream_entry) hmap"
  c_num_active :: usize
  c_reset_streams :: "(u32, nat) hmap"
  c_reset_stream_max :: usize
  c_reset_stream_duration :: nat
  c_peer :: peer_settings
  c_settings :: settings_sync
  c_recv_init :: u32
  c_conn_send :: flow_control
  c_pending_send :: "u32 list"
  c_pending_capacity :: "u32 list"
  c_burst_frames :: usize
  c_conn_recv :: flow_control
  c_conn_recv_target :: u32
  c_max_send_buf_size :: usize
  c_goaway :: "goaway_info option"
  c_goaway_last_id :: "u32 option"
  c_goaway_replied :: bool
  c_error :: "conn_error option"
  c_local_error_resets :: usize
  c_max_local_error_resets :: "usize option"
  c_data_budget :: data_frame_counts
  c_next_id :: u32
  c_num_open_streams :: usize
  c_stream_limit :: "usize option"
  c_last_recv_id :: u32
  c_last_processed_id :: u32
  c_max_concurrent :: usize
  c_max_pending_accept_reset :: usize
  c_graceful :: bool
  c_max_stream_id :: u32
  c_shutdown_final :: bool
  c_pending_accept :: "u32 set"
  c_remote_reset_pending :: "u32 set"
  c_auto_date :: bool

definition entry_of :: "u32 \<Rightarrow> 'h inner \<Rightarrow> stream_entry option" where
  "entry_of sid s = hm_get (c_streams s) sid"

text \<open>A write through \<open>streams.get_mut(&sid)\<close>: nothing when the stream is not stored.\<close>

definition upd_entry :: "u32 \<Rightarrow> (stream_entry \<Rightarrow> stream_entry) \<Rightarrow> 'h inner \<Rightarrow> 'h inner" where
  "upd_entry sid f s =
     (case entry_of sid s of
        None \<Rightarrow> s | Some e \<Rightarrow> s\<lparr>c_streams := hm_put (c_streams s) sid (f e)\<rparr>)"

definition drop_entry :: "u32 \<Rightarrow> 'h inner \<Rightarrow> 'h inner" where
  "drop_entry sid s = s\<lparr>c_streams := hm_del (c_streams s) sid\<rparr>"

text \<open>Frames are appended to the pending-send buffer.\<close>

definition push :: "bytes \<Rightarrow> 'h inner \<Rightarrow> 'h inner" where
  "push out s = s\<lparr>c_pending := c_pending s @ out\<rparr>"

definition stream_err :: "u32 \<Rightarrow> reason \<Rightarrow> pyerr" where
  "stream_err sid r = H2StreamError sid r ''library''"

definition protocol_err :: "reason \<Rightarrow> string \<Rightarrow> pyerr" where
  "protocol_err r msg = H2ProtocolError r msg None"

definition wake_flag :: "usize \<Rightarrow> 'h inner \<Rightarrow> flags" where
  "wake_flag before s = (if before < length (c_pending s) then FLAG_WAKE else 0)"

definition goaway_last_stream_id :: "'h inner \<Rightarrow> u32" where
  "goaway_last_stream_id s = (case c_role s of Client \<Rightarrow> 0 | Server \<Rightarrow> c_last_processed_id s)"

definition is_dead :: "'h inner \<Rightarrow> bool" where
  "is_dead s \<longleftrightarrow> c_error s \<noteq> None \<or> c_goaway s \<noteq> None"

definition ensure_not_idle :: "u32 \<Rightarrow> 'h inner \<Rightarrow> pyerr + unit" where
  "ensure_not_idle sid s =
     (let client_initiated = is_client_initiated sid;
          idle = (case c_role s of
                    Client \<Rightarrow> \<not> client_initiated \<or> c_next_id s \<le> sid
                  | Server \<Rightarrow> \<not> client_initiated \<or> c_last_recv_id s < sid)
      in if idle then Inl (protocol_err PROTOCOL_ERROR (''frame on idle stream '' @ show_nat sid))
         else Inr ())"

definition above_goaway :: "u32 \<Rightarrow> 'h inner \<Rightarrow> bool" where
  "above_goaway sid s \<longleftrightarrow> c_role s = Server \<and> c_max_stream_id s < sid"

text \<open>\<open>at.elapsed() <= d\<close> at time \<open>now\<close>.\<close>

definition fresh :: "nat \<Rightarrow> nat \<Rightarrow> nat \<Rightarrow> bool" where
  "fresh now d at \<longleftrightarrow> now - at \<le> d"

definition in_reset_store :: "nat \<Rightarrow> u32 \<Rightarrow> 'h inner \<Rightarrow> 'h inner \<times> bool" where
  "in_reset_store now sid s =
     (case hm_get (c_reset_streams s) sid of
        Some at \<Rightarrow>
          if fresh now (c_reset_stream_duration s) at then (s, True)
          else (s\<lparr>c_reset_streams := hm_del (c_reset_streams s) sid\<rparr>, False)
      | None \<Rightarrow> (s, False))"

subsection \<open>The send rotation\<close>

definition stream_room :: "stream_entry \<Rightarrow> 'h inner \<Rightarrow> usize" where
  "stream_room e s =
     min (fc_window_size (e_send_flow e)) (saturating_sub (c_max_send_buf_size s) (e_send_buffered e))"

definition queued_live :: "(stream_entry \<Rightarrow> bool) \<Rightarrow> u32 \<Rightarrow> 'h inner \<Rightarrow> bool" where
  "queued_live flag sid s =
     (case entry_of sid s of
        Some e \<Rightarrow> flag e \<and> \<not> e_finished e \<and> is_send_streaming (e_state e)
      | None \<Rightarrow> False)"

definition send_front :: "'h inner \<Rightarrow> 'h inner \<times> u32 option" where
  "send_front s =
     (let q = dropWhile (\<lambda>sid. \<not> queued_live e_is_pending_send sid s) (c_pending_send s)
      in (s\<lparr>c_pending_send := q\<rparr>, case q of [] \<Rightarrow> None | sid # _ \<Rightarrow> Some sid))"

definition capacity_front :: "'h inner \<Rightarrow> 'h inner \<times> u32 option" where
  "capacity_front s =
     (let q = dropWhile (\<lambda>sid. \<not> queued_live e_is_pending_capacity sid s) (c_pending_capacity s)
      in (s\<lparr>c_pending_capacity := q\<rparr>, case q of [] \<Rightarrow> None | sid # _ \<Rightarrow> Some sid))"

definition enqueue_send :: "u32 \<Rightarrow> 'h inner \<Rightarrow> 'h inner" where
  "enqueue_send sid s =
     (case entry_of sid s of
        Some e \<Rightarrow>
          if e_is_pending_send e then s
          else (upd_entry sid (\<lambda>e. e\<lparr>e_is_pending_send := True, e_turn_frames := 0\<rparr>) s)
                 \<lparr>c_pending_send := c_pending_send s @ [sid]\<rparr>
      | None \<Rightarrow> s)"

definition enqueue_capacity :: "u32 \<Rightarrow> 'h inner \<Rightarrow> 'h inner" where
  "enqueue_capacity sid s =
     (case entry_of sid s of
        Some e \<Rightarrow>
          if e_is_pending_capacity e then s
          else (upd_entry sid (\<lambda>e. e\<lparr>e_is_pending_capacity := True\<rparr>) s)
                 \<lparr>c_pending_capacity := c_pending_capacity s @ [sid]\<rparr>
      | None \<Rightarrow> s)"

definition queue_wake_flag :: "'h inner \<Rightarrow> flags" where
  "queue_wake_flag s =
     (if c_pending_send s \<noteq> [] \<or> (c_pending_capacity s \<noteq> [] \<and> 0 < fc_window_size (c_conn_send s))
      then FLAG_CAPACITY else 0)"

definition leave_send_queue :: "u32 \<Rightarrow> 'h inner \<Rightarrow> 'h inner \<times> flags" where
  "leave_send_queue sid s =
     (case entry_of sid s of
        None \<Rightarrow> (s, 0)
      | Some e \<Rightarrow>
          if \<not> e_is_pending_send e then (s, 0)
          else
            let s1 = upd_entry sid (\<lambda>e. e\<lparr>e_is_pending_send := False, e_turn_frames := 0\<rparr>) s
            in case c_pending_send s1 of
                 front # rest \<Rightarrow>
                   if front = sid then
                     let s2 = s1\<lparr>c_pending_send := rest\<rparr> in (s2, queue_wake_flag s2)
                   else (s1\<lparr>c_pending_send := filter (\<lambda>i. i \<noteq> sid) (front # rest)\<rparr>, 0)
               | [] \<Rightarrow> (s1, 0))"

definition leave_capacity_queue :: "u32 \<Rightarrow> 'h inner \<Rightarrow> 'h inner \<times> flags" where
  "leave_capacity_queue sid s =
     (case entry_of sid s of
        None \<Rightarrow> (s, 0)
      | Some e \<Rightarrow>
          if \<not> e_is_pending_capacity e then (s, 0)
          else
            let s1 = upd_entry sid (\<lambda>e. e\<lparr>e_is_pending_capacity := False\<rparr>) s
            in case c_pending_capacity s1 of
                 front # rest \<Rightarrow>
                   if front = sid then
                     let s2 = s1\<lparr>c_pending_capacity := rest\<rparr> in (s2, queue_wake_flag s2)
                   else (s1\<lparr>c_pending_capacity := filter (\<lambda>i. i \<noteq> sid) (front # rest)\<rparr>, 0)
               | [] \<Rightarrow> (s1, 0))"

definition yield_send_turn :: "u32 \<Rightarrow> 'h inner \<Rightarrow> 'h inner \<times> flags" where
  "yield_send_turn sid s =
     (let s1 = (case c_pending_send s of
                  front # rest \<Rightarrow>
                    if front = sid then
                      upd_entry sid (\<lambda>e. e\<lparr>e_turn_frames := 0\<rparr>) (s\<lparr>c_pending_send := rest @ [sid]\<rparr>)
                    else s
                | [] \<Rightarrow> s)
      in (s1, queue_wake_flag s1))"

text \<open>The store lookup behind \<open>expect("live")\<close> succeeds: the front of a queue is stored.\<close>

definition admit_capacity_front :: "'h inner \<Rightarrow> 'h inner \<times> u32 option" where
  "admit_capacity_front s =
     (if fc_window_size (c_conn_send s) = 0 then (s, None)
      else case send_front s of
        (s1, Some _) \<Rightarrow> (s1, None)
      | (s1, None) \<Rightarrow>
          (case capacity_front s1 of
             (s2, None) \<Rightarrow> (s2, None)
           | (s2, Some sid) \<Rightarrow>
               let s3 = upd_entry sid (\<lambda>e. e\<lparr>e_is_pending_capacity := False\<rparr>) s2;
                   s4 = s3\<lparr>c_pending_capacity := tl (c_pending_capacity s3)\<rparr>
               in (enqueue_send sid s4, Some sid)))"

subsection \<open>Closing a stream\<close>

definition maybe_goaway_reply :: "'h inner \<Rightarrow> 'h inner \<times> flags" where
  "maybe_goaway_reply s =
     (if c_goaway_replied s \<or> c_error s \<noteq> None \<or> c_num_active s \<noteq> 0 then (s, 0)
      else if c_goaway s = None then (s, 0)
      else
        (push (encode_go_away (goaway_last_stream_id s) NO_ERROR [])
           (s\<lparr>c_goaway_replied := True,
              c_error := Some (ConnErrorClosed ''connection closed: GOAWAY exchanged'')\<rparr>),
         FLAG_WAKE OR FLAG_CONN_DONE))"

definition on_stream_gone :: "'h inner \<Rightarrow> 'h inner \<times> flags" where
  "on_stream_gone s =
     (let f0 = (if c_role s = Server \<and> c_shutdown_final s \<and> c_num_active s = 0
                then FLAG_STOP_ACCEPTING else 0);
          (s1, f1) = maybe_goaway_reply s
      in (s1, f0 OR f1))"

definition owes_ledger :: "stream_entry \<Rightarrow> bool" where
  "owes_ledger e \<longleftrightarrow> \<not> (e_recv_unreleased e = 0 \<and> e_data_budget_charged e = 0)"

definition close_stream :: "u32 \<Rightarrow> 'h inner \<Rightarrow> 'h inner \<times> flags" where
  "close_stream sid s =
     (case entry_of sid s of
        None \<Rightarrow> (s, 0)
      | Some e \<Rightarrow>
          if \<not> is_closed (e_state e) \<or> e_finished e then (s, 0)
          else
            let s1 = upd_entry sid (\<lambda>e. e\<lparr>e_finished := True\<rparr>) s;
                s2 = s1\<lparr>c_num_active := usize_sub (c_num_active s1) 1\<rparr>;
                (s3, f3) = (if e_holds_slot e
                  then (upd_entry sid (\<lambda>e. e\<lparr>e_holds_slot := False\<rparr>)
                          (s2\<lparr>c_num_open_streams := usize_sub (c_num_open_streams s2) 1\<rparr>),
                        FLAG_SLOT_FREED)
                  else (s2, 0));
                (s4, f4) = leave_send_queue sid s3;
                (s5, f5) = leave_capacity_queue sid s4;
                s6 = (if owes_ledger e then s5 else drop_entry sid s5);
                (s7, f7) = on_stream_gone s6
            in (s7, f3 OR f4 OR f5 OR f7))"

definition maybe_remove_settled :: "u32 \<Rightarrow> 'h inner \<Rightarrow> 'h inner" where
  "maybe_remove_settled sid s =
     (case entry_of sid s of
        Some e \<Rightarrow> if e_finished e \<and> \<not> owes_ledger e then drop_entry sid s else s
      | None \<Rightarrow> s)"

subsection \<open>The receive ledger\<close>

definition reclaim_conn :: "u32 \<Rightarrow> 'h inner \<Rightarrow> 'h inner" where
  "reclaim_conn n s =
     (if n = 0 then s
      else
        let s1 = s\<lparr>c_conn_recv := fst (fc_assign_capacity n (c_conn_recv s))\<rparr>
        in case fc_unclaimed_capacity (c_conn_recv s1) of
             None \<Rightarrow> s1
           | Some unclaimed \<Rightarrow>
               push (encode_window_update 0 unclaimed)
                 (s1\<lparr>c_conn_recv := fst (fc_inc_window unclaimed (c_conn_recv s1))\<rparr>))"

definition reclaim_stream_accounting :: "u32 \<Rightarrow> 'h inner \<Rightarrow> 'h inner" where
  "reclaim_stream_accounting sid s =
     (case entry_of sid s of
        None \<Rightarrow> s
      | Some e \<Rightarrow>
          let charge = e_data_budget_charged e;
              s1 = upd_entry sid (\<lambda>e. e\<lparr>e_data_budget_charged := 0\<rparr>) s;
              s2 = (if charge \<noteq> 0
                    then s1\<lparr>c_data_budget := dfc_release charge (c_data_budget s1)\<rparr> else s1);
              n = e_recv_unreleased e;
              s3 = upd_entry sid (\<lambda>e. e\<lparr>e_recv_unreleased := 0, e_recv_reclaimed := True\<rparr>) s2
          in maybe_remove_settled sid (reclaim_conn n s3))"

definition consume_conn_recv :: "u32 \<Rightarrow> 'h inner \<Rightarrow> 'h inner \<times> (pyerr + unit)" where
  "consume_conn_recv sz s =
     (case fc_send_data sz (c_conn_recv s) of
        None \<Rightarrow> (s, Inl RustPanic)
      | Some (f, r) \<Rightarrow> (s\<lparr>c_conn_recv := f\<rparr>, map_err map_reason r))"

definition drop_closed_stored :: "u32 \<Rightarrow> 'h inner \<Rightarrow> 'h inner \<times> flags" where
  "drop_closed_stored sid s = close_stream sid (reclaim_stream_accounting sid s)"

definition record_data_frame :: "u32 \<Rightarrow> usize \<Rightarrow> 'h inner \<Rightarrow> 'h inner \<times> (pyerr + unit)" where
  "record_data_frame sid payload_len s =
     (case dfc_record payload_len (c_data_budget s) of
        (d, Inl e) \<Rightarrow> (s\<lparr>c_data_budget := d\<rparr>, Inl e)
      | (d, Inr charge) \<Rightarrow>
          (upd_entry sid
             (\<lambda>e. e\<lparr>e_data_budget_charged := usize_add (e_data_budget_charged e) charge\<rparr>)
             (s\<lparr>c_data_budget := d\<rparr>), Inr ()))"

definition recv_lookup :: "nat \<Rightarrow> u32 \<Rightarrow> 'h inner \<Rightarrow> 'h inner \<times> (pyerr + u32 option)" where
  "recv_lookup now sid s =
     (case entry_of sid s of
        Some e \<Rightarrow>
          if is_local_error (e_state e) then (s, Inr None)
          else if is_closed (e_state e) then
            (fst (drop_closed_stored sid s), Inl (stream_err sid STREAM_CLOSED))
          else (s, Inr (Some sid))
      | None \<Rightarrow>
          (case in_reset_store now sid s of
             (s1, True) \<Rightarrow> (s1, Inr None)
           | (s1, False) \<Rightarrow>
               if above_goaway sid s1 then (s1, Inr None)
               else case ensure_not_idle sid s1 of
                      Inl e \<Rightarrow> (s1, Inl e)
                    | Inr _ \<Rightarrow> (s1, Inl (stream_err sid STREAM_CLOSED))))"

subsection \<open>The reset store\<close>

definition clear_expired_reset_streams :: "nat \<Rightarrow> 'h inner \<Rightarrow> 'h inner" where
  "clear_expired_reset_streams now s =
     s\<lparr>c_reset_streams :=
         filter (\<lambda>(_, at). fresh now (c_reset_stream_duration s) at) (c_reset_streams s)\<rparr>"

definition enqueue_reset_expiration :: "nat \<Rightarrow> u32 \<Rightarrow> 'h inner \<Rightarrow> 'h inner" where
  "enqueue_reset_expiration now sid s =
     (let s1 = clear_expired_reset_streams now s
      in if c_reset_stream_max s1 \<le> length (c_reset_streams s1) then s1
         else s1\<lparr>c_reset_streams := hm_put (c_reset_streams s1) sid now\<rparr>)"

end
