(* ===== verification/Conn_Reset.thy ===== *)
theory Conn_Reset
  imports Conn_State Frame_Decoder
begin

section \<open>Resets and the end of a stream\<close>

text \<open>
  src/h2/conn.rs, the operations of \<open>Inner\<close> that end streams: a local reset
  (\<open>reset_stream\<close>), the abort on a connection failure (\<open>abort_stream\<close>, \<open>fail_all\<close>), the
  end of a response (\<open>finish_stream\<close>), the rejection of an over-size request, and the
  content-length check of an inbound head. The public \<open>reset_stream\<close>, \<open>reset_on_error\<close> and
  \<open>aclose_body\<close> of \<open>H2Streams\<close> close the theory.
\<close>

subsection \<open>Local resets\<close>

text \<open>Handle to notify, stop for the readers, flags.\<close>

type_synonym reset_result = "pyobj option \<times> stopped option \<times> flags"

definition inner_reset_stream ::
  "nat \<Rightarrow> u32 \<Rightarrow> u32 \<Rightarrow> initiator \<Rightarrow> 'h inner \<Rightarrow> 'h inner \<times> reset_result" where
  "inner_reset_stream now sid r i s =
     (case entry_of sid s of
        None \<Rightarrow> (s, (None, None, 0))
      | Some e \<Rightarrow>
          if is_closed (e_state e) then
            let e1 = (if is_reset (e_state e) then e
                      else e\<lparr>e_state := set_reset sid r i (e_state e)\<rparr>);
                s1 = upd_entry sid (\<lambda>_. e1) s;
                (s2, flags) = close_stream sid (reclaim_stream_accounting sid s1);
                s3 = (if is_local_error (e_state e1) then enqueue_reset_expiration now sid s2 else s2)
            in (s3, (Some (e_handle e), stop_for_reader e1, flags))
          else
            let e1 = e\<lparr>e_state := set_reset sid r i (e_state e)\<rparr>;
                s1 = upd_entry sid (\<lambda>_. e1) s;
                s2 = push (encode_rst_stream sid r) (reclaim_stream_accounting sid s1);
                (s3, flags) = close_stream sid s2
            in (enqueue_reset_expiration now sid s3, (Some (e_handle e), stop_for_reader e1, flags)))"

definition finish_stream :: "nat \<Rightarrow> u32 \<Rightarrow> 'h inner \<Rightarrow> 'h inner \<times> reset_result" where
  "finish_stream now sid s =
     (let (s1, flags) = close_stream sid s
      in case c_role s1 of
           Client \<Rightarrow> (s1, (None, None, flags))
         | Server \<Rightarrow>
             (case entry_of sid s1 of
                Some e \<Rightarrow>
                  if \<not> is_closed (e_state e) then
                    (case inner_reset_stream now sid NO_ERROR User s1 of
                       (s2, (handle, stop, f2)) \<Rightarrow> (s2, (handle, stop, flags OR f2)))
                  else (reclaim_stream_accounting sid s1, (None, None, flags))
              | None \<Rightarrow> (s1, (None, None, flags))))"

subsection \<open>Connection failures\<close>

definition abort_stream ::
  "u32 \<Rightarrow> u32 option \<Rightarrow> 'h inner \<Rightarrow> 'h inner \<times> (pyobj \<times> stopped) option \<times> flags" where
  "abort_stream sid r s =
     (case entry_of sid s of
        None \<Rightarrow> (s, None, 0)
      | Some e \<Rightarrow>
          let e1 = e\<lparr>e_state := (case r of
                       Some c \<Rightarrow> handle_error (remote_go_away [] c) (e_state e)
                     | None \<Rightarrow> recv_eof (e_state e))\<rparr>;
              out = (if is_closed (e_state e) then None else Some (e_handle e, entry_stopped e1));
              s1 = upd_entry sid (\<lambda>_. e1\<lparr>e_recv_unreleased := 0, e_data_budget_charged := 0,
                                        e_recv_reclaimed := True\<rparr>) s;
              (s2, flags) = close_stream sid s1
          in (drop_entry sid s2, out, flags))"

fun abort_all ::
  "u32 list \<Rightarrow> u32 option \<Rightarrow> 'h inner \<Rightarrow> 'h inner \<times> (pyobj \<times> stopped) list \<times> flags" where
  "abort_all [] r s = (s, [], 0)"
| "abort_all (sid # sids) r s =
     (case abort_stream sid r s of (s1, x, f1) \<Rightarrow>
      case abort_all sids r s1 of (s2, xs, f2) \<Rightarrow>
        (s2, (case x of Some y \<Rightarrow> y # xs | None \<Rightarrow> xs), f1 OR f2))"

definition fail_all :: "'h inner \<Rightarrow> 'h inner \<times> (pyobj \<times> stopped) list" where
  "fail_all s = (case abort_all (hm_keys (c_streams s)) None s of (s1, out, _) \<Rightarrow> (s1, out))"

subsection \<open>Header checks and the over-size rejection\<close>

text \<open>Encode a header frame and append it; the encoder state moves with it. The encoder's
  assertion cannot fire (\<open>enc_encode_headers_total\<close>).\<close>

definition queue_headers :: "'h hpack_ops \<Rightarrow> headers_frame \<Rightarrow> 'h inner \<Rightarrow> 'h inner \<times> (pyerr + unit)"
where
  "queue_headers hp f s =
     (case enc_encode_headers hp f (c_encoder s) of
        (enc', None) \<Rightarrow> (s\<lparr>c_encoder := enc'\<rparr>, Inl RustPanic)
      | (enc', Some out) \<Rightarrow> (push out (s\<lparr>c_encoder := enc'\<rparr>), Inr ()))"

definition reject_oversize_request ::
  "'h hpack_ops \<Rightarrow> nat \<Rightarrow> u32 \<Rightarrow> 'h inner \<Rightarrow> 'h inner \<times> (pyerr + flags)" where
  "reject_oversize_request hp now sid s =
     (let response = headers_set_end_stream (headers_new sid (pseudo_response 431) [])
      in case entry_of sid s of
           None \<Rightarrow> (s, Inl RustPanic)
         | Some e \<Rightarrow>
             (case send_open True (e_state e) of
                Inl err \<Rightarrow> (s, Inl (map_user_err err))
              | Inr st \<Rightarrow>
                  and_then (queue_headers hp response (upd_entry sid (\<lambda>e. e\<lparr>e_state := st\<rparr>) s))
                    (\<lambda>s1 _.
                      let s2 = (if is_closed st then s1
                                else enqueue_reset_expiration now sid
                                  (push (encode_rst_stream sid PROTOCOL_ERROR)
                                    (upd_entry sid (\<lambda>e. e\<lparr>e_state :=
                                       set_reset sid PROTOCOL_ERROR Library st\<rparr>) s1)));
                          (s3, flags) = close_stream sid s2
                      in (s3, Inr flags))))"

definition apply_content_length ::
  "u32 \<Rightarrow> headers_event \<Rightarrow> 'h inner \<Rightarrow> 'h inner \<times> (pyerr + unit)" where
  "apply_content_length sid f s =
     (case entry_of sid s of
        None \<Rightarrow> (s, Inr ())
      | Some e \<Rightarrow>
          if he_content_length_invalid f then (s, Inl (stream_err sid PROTOCOL_ERROR))
          else if cl_is_head (e_content_length e) then (s, Inr ())
          else case he_content_length f of
                 None \<Rightarrow> (s, Inr ())
               | Some cl \<Rightarrow>
                   let s1 = upd_entry sid
                              (\<lambda>e. e\<lparr>e_content_length := cl_set cl (e_content_length e)\<rparr>) s
                   in if he_end_stream f \<and> 0 < cl
                         \<and> he_status f \<noteq> Some 204 \<and> he_status f \<noteq> Some 304
                      then (s1, Inl (stream_err sid PROTOCOL_ERROR)) else (s1, Inr ()))"

subsection \<open>The public resets\<close>

definition H2Streams_reset_stream ::
  "nat \<Rightarrow> u32 \<Rightarrow> u32 \<Rightarrow> string \<Rightarrow> 'h inner \<Rightarrow> 'h inner \<times> (pyerr + reset_verdict)" where
  "H2Streams_reset_stream now sid r initiator s =
     (case parse_initiator initiator of
        Inl e \<Rightarrow> (s, Inl e)
      | Inr i \<Rightarrow>
          (case inner_reset_stream now sid r i s of
             (s1, (handle, stop, flags)) \<Rightarrow>
               (s1, Inr \<lparr>rv_handle = handle, rv_stop = stop,
                         rv_flags = flags OR wake_flag (length (c_pending s)) s1\<rparr>)))"

definition reset_on_error ::
  "nat \<Rightarrow> u32 \<Rightarrow> u32 \<Rightarrow> 'h inner \<Rightarrow> 'h inner \<times> (pyerr + reset_verdict)" where
  "reset_on_error now sid r s =
     (if (case c_max_local_error_resets s of
            Some m \<Rightarrow> m \<le> c_local_error_resets s | None \<Rightarrow> False)
      then (s, Inl (protocol_err_with_debug ENHANCE_YOUR_CALM ''too many stream resets''
                      (ascii ''too_many_internal_resets'')))
      else
        let s1 = s\<lparr>c_local_error_resets := usize_add (c_local_error_resets s) 1\<rparr>
        in if entry_of sid s1 \<noteq> None then
             (case inner_reset_stream now sid r Library s1 of
                (s2, (handle, stop, flags)) \<Rightarrow>
                  (s2, Inr \<lparr>rv_handle = handle, rv_stop = stop,
                            rv_flags = flags OR wake_flag (length (c_pending s)) s2\<rparr>))
           else
             let s2 = (if r = REFUSED_STREAM then s1
                       else
                         let s3 = clear_expired_reset_streams now s1
                         in if length (c_reset_streams s3) < c_reset_stream_max s3
                            then s3\<lparr>c_reset_streams := hm_put (c_reset_streams s3) sid now\<rparr>
                            else s3)
             in case stream_id_from sid of
                  None \<Rightarrow> (s2, Inl RustPanic)
                | Some i \<Rightarrow>
                    let s4 = push (encode_rst_stream i r) s2
                    in (s4, Inr \<lparr>rv_handle = None, rv_stop = None,
                                 rv_flags = wake_flag (length (c_pending s)) s4\<rparr>))"

definition aclose_body :: "nat \<Rightarrow> u32 \<Rightarrow> 'h inner \<Rightarrow> 'h inner \<times> reset_verdict" where
  "aclose_body now sid s =
     (case entry_of sid s of
        None \<Rightarrow> (s, \<lparr>rv_handle = None, rv_stop = None, rv_flags = 0\<rparr>)
      | Some e \<Rightarrow>
          if is_recv_end_stream (e_state e) then
            (case close_stream sid (reclaim_stream_accounting sid s) of
               (s1, flags) \<Rightarrow>
                 (s1, \<lparr>rv_handle = None, rv_stop = None,
                       rv_flags = flags OR wake_flag (length (c_pending s)) s1\<rparr>))
          else
            (case inner_reset_stream now sid CANCEL User s of
               (s1, (handle, stop, flags)) \<Rightarrow>
                 (s1, \<lparr>rv_handle = handle, rv_stop = stop,
                       rv_flags = flags OR wake_flag (length (c_pending s)) s1\<rparr>)))"

end
