(* ===== verification/Conn_Recv.thy ===== *)
theory Conn_Recv
  imports Conn_Reset
begin

section \<open>Inbound frames of a stream\<close>

text \<open>
  src/h2/conn.rs, the operations of \<open>H2Streams\<close> the read pump calls for stream frames:
  \<open>recv_headers\<close> (a new request, a response head, trailers), \<open>recv_data\<close>,
  \<open>recv_window_update\<close>, \<open>recv_reset\<close>; and the ones the application calls as it consumes:
  \<open>release_capacity\<close>, \<open>release_data_frame\<close>, \<open>accepted\<close>.
\<close>

subsection \<open>HEADERS\<close>

definition ignored :: "u32 \<Rightarrow> recv_headers_verdict" where
  "ignored sid = \<lparr>rhv_kind = HEADERS_IGNORED, rhv_handle = None, rhv_stream_id = sid,
     rhv_eof = False, rhv_flags = 0\<rparr>"

text \<open>The server's branch for an id that is not stored: a new request.\<close>

definition open_request ::
  "'h hpack_ops \<Rightarrow> nat \<Rightarrow> headers_event \<Rightarrow> pyobj option \<Rightarrow> usize \<Rightarrow> flags \<Rightarrow> 'h inner
   \<Rightarrow> 'h inner \<times> (pyerr + recv_headers_verdict)" where
  "open_request hp now frame spare before flags s =
     (let sid = he_stream_id frame
      in if c_max_stream_id s < sid then (s, Inr (ignored sid))
         else if \<not> is_client_initiated sid \<or> sid \<le> c_last_recv_id s then
           (s, Inl (protocol_err PROTOCOL_ERROR (''invalid new stream id '' @ show_nat sid)))
         else
           let s1 = s\<lparr>c_last_recv_id := sid\<rparr>
           in if c_max_concurrent s1 \<le> c_num_active s1 then (s1, Inl (stream_err sid REFUSED_STREAM))
              else case spare of
                None \<Rightarrow> (s1, Inl (ValueError
                          ''recv_headers: the server role needs a spare stream handle''))
              | Some handle \<Rightarrow>
                  (case recv_open (he_end_stream frame) False stream_default of
                     Inl err \<Rightarrow> (s1, Inl (map_proto_err err))
                   | Inr (st, _) \<Rightarrow>
                       let e = (entry_new handle (ps_initial_window_size (c_peer s1))
                                  (c_recv_init s1) False)\<lparr>e_state := st\<rparr>;
                           s2 = s1\<lparr>c_streams := hm_put (c_streams s1) sid e,
                                   c_num_active := usize_add (c_num_active s1) 1,
                                   c_last_processed_id := sid\<rparr>
                       in and_then (apply_content_length sid frame s2) (\<lambda>s3 _.
                            if he_is_over_size frame then
                              and_then (reject_oversize_request hp now sid s3) (\<lambda>s4 f.
                                (s4, Inr ((ignored sid)\<lparr>rhv_flags :=
                                            flags OR f OR wake_flag before s4\<rparr>)))
                            else
                              let s4 = s3\<lparr>c_pending_accept := insert sid (c_pending_accept s3)\<rparr>
                              in (s4, Inr \<lparr>rhv_kind = HEADERS_OPENED, rhv_handle = Some handle,
                                    rhv_stream_id = sid, rhv_eof = he_end_stream frame,
                                    rhv_flags = flags OR wake_flag before s4\<rparr>))))"

text \<open>A response head, or an interim one, on a stream that awaits it.\<close>

definition recv_head ::
  "headers_event \<Rightarrow> stream_entry \<Rightarrow> usize \<Rightarrow> 'h inner
   \<Rightarrow> 'h inner \<times> (pyerr + recv_headers_verdict)" where
  "recv_head frame e before s =
     (let sid = he_stream_id frame;
          informational = he_is_informational frame
      in if informational \<and> he_end_stream frame then (s, Inl (stream_err sid PROTOCOL_ERROR))
         else case recv_open (he_end_stream frame) informational (e_state e) of
           Inl err \<Rightarrow> (s, Inl (map_proto_err err))
         | Inr (st, _) \<Rightarrow>
             and_then (apply_content_length sid frame (upd_entry sid (\<lambda>e. e\<lparr>e_state := st\<rparr>) s))
               (\<lambda>s1 _.
                 if he_is_over_size frame then (s1, Inl (stream_err sid PROTOCOL_ERROR))
                 else if informational then (s1, Inr (ignored sid))
                 else if he_status frame = None then (s1, Inl (stream_err sid PROTOCOL_ERROR))
                 else
                   let (s2, flags) = (if he_end_stream frame then close_stream sid s1 else (s1, 0))
                   in (s2, Inr \<lparr>rhv_kind = HEADERS_HEAD, rhv_handle = Some (e_handle e),
                         rhv_stream_id = sid, rhv_eof = he_end_stream frame,
                         rhv_flags = flags OR wake_flag before s2\<rparr>)))"

definition recv_trailers ::
  "headers_event \<Rightarrow> stream_entry \<Rightarrow> usize \<Rightarrow> 'h inner
   \<Rightarrow> 'h inner \<times> (pyerr + recv_headers_verdict)" where
  "recv_trailers frame e before s =
     (let sid = he_stream_id frame
      in if \<not> he_end_stream frame then (s, Inl (stream_err sid PROTOCOL_ERROR))
         else case recv_close (e_state e) of
           Inl err \<Rightarrow> (s, Inl (map_proto_err err))
         | Inr st \<Rightarrow>
             let s1 = upd_entry sid (\<lambda>e. e\<lparr>e_state := st\<rparr>) s
             in if \<not> cl_is_satisfied (e_content_length e) then
                  (s1, Inl (stream_err sid PROTOCOL_ERROR))
                else
                  let (s2, flags) = close_stream sid s1
                  in (s2, Inr \<lparr>rhv_kind = HEADERS_TRAILERS, rhv_handle = Some (e_handle e),
                        rhv_stream_id = sid, rhv_eof = True,
                        rhv_flags = flags OR wake_flag before s2\<rparr>))"

definition recv_headers_new ::
  "'h hpack_ops \<Rightarrow> nat \<Rightarrow> headers_event \<Rightarrow> pyobj option \<Rightarrow> usize \<Rightarrow> flags \<Rightarrow> 'h inner
   \<Rightarrow> 'h inner \<times> (pyerr + recv_headers_verdict)" where
  "recv_headers_new hp now frame spare before flags s =
     (let sid = he_stream_id frame
      in case in_reset_store now sid s of
           (s1, True) \<Rightarrow> (s1, Inr (ignored sid))
         | (s1, False) \<Rightarrow>
             (case c_role s1 of
                Client \<Rightarrow>
                  (case ensure_not_idle sid s1 of
                     Inl e \<Rightarrow> (s1, Inl e)
                   | Inr _ \<Rightarrow> (s1, Inl (stream_err sid STREAM_CLOSED)))
              | Server \<Rightarrow> open_request hp now frame spare before flags s1))"

definition recv_headers ::
  "'h hpack_ops \<Rightarrow> nat \<Rightarrow> headers_event \<Rightarrow> pyobj option \<Rightarrow> 'h inner
   \<Rightarrow> 'h inner \<times> (pyerr + recv_headers_verdict)" where
  "recv_headers hp now frame spare s =
     (let before = length (c_pending s);
          sid = he_stream_id frame
      in case entry_of sid s of
           Some e \<Rightarrow>
             if is_local_error (e_state e) then (s, Inr (ignored sid))
             else if is_closed (e_state e) then
               (let (s1, flags) = drop_closed_stored sid s
                in if c_role s1 = Client then (s1, Inl (stream_err sid STREAM_CLOSED))
                   else recv_headers_new hp now frame spare before flags s1)
             else if is_recv_headers (e_state e) then recv_head frame e before s
             else recv_trailers frame e before s
         | None \<Rightarrow> recv_headers_new hp now frame spare before 0 s)"

subsection \<open>Returning receive capacity\<close>

definition release_capacity_inner :: "u32 \<Rightarrow> u32 \<Rightarrow> 'h inner \<Rightarrow> 'h inner" where
  "release_capacity_inner sid n s =
     (case entry_of sid s of
        None \<Rightarrow> s
      | Some e \<Rightarrow>
          if e_recv_reclaimed e then s
          else
            let e1 = e\<lparr>e_recv_unreleased := saturating_sub (e_recv_unreleased e) n,
                       e_recv_flow := fst (fc_assign_capacity n (e_recv_flow e))\<rparr>;
                s1 = upd_entry sid (\<lambda>_. e1) s;
                s2 = (case fc_unclaimed_capacity (e_recv_flow e1) of
                        Some unclaimed \<Rightarrow>
                          if is_recv_end_stream (e_state e1) then s1
                          else push (encode_window_update sid unclaimed)
                                 (upd_entry sid (\<lambda>e. e\<lparr>e_recv_flow :=
                                    fst (fc_inc_window unclaimed (e_recv_flow e))\<rparr>) s1)
                      | None \<Rightarrow> s1)
            in maybe_remove_settled sid (reclaim_conn n s2))"

definition release_capacity :: "u32 \<Rightarrow> u32 \<Rightarrow> 'h inner \<Rightarrow> 'h inner \<times> flags" where
  "release_capacity sid n s =
     (let s1 = release_capacity_inner sid n s in (s1, wake_flag (length (c_pending s)) s1))"

definition release_data_frame :: "u32 \<Rightarrow> usize \<Rightarrow> 'h inner \<Rightarrow> 'h inner" where
  "release_data_frame sid payload_len s =
     (case entry_of sid s of
        None \<Rightarrow> s
      | Some e \<Rightarrow>
          if payload_len = 0 \<or> DATA_FRAME_OVERHEAD_THRESHOLD \<le> payload_len then s
          else
            let charge = min (DATA_FRAME_OVERHEAD_THRESHOLD - payload_len) (e_data_budget_charged e);
                s1 = upd_entry sid (\<lambda>e. e\<lparr>e_data_budget_charged :=
                                          usize_sub (e_data_budget_charged e) charge\<rparr>) s
            in maybe_remove_settled sid (s1\<lparr>c_data_budget := dfc_release charge (c_data_budget s1)\<rparr>))"

definition accepted :: "u32 \<Rightarrow> 'h inner \<Rightarrow> 'h inner" where
  "accepted sid s =
     s\<lparr>c_pending_accept := c_pending_accept s - {sid},
       c_remote_reset_pending := c_remote_reset_pending s - {sid}\<rparr>"

subsection \<open>DATA\<close>

definition dropped_data :: "flags \<Rightarrow> recv_data_verdict" where
  "dropped_data f = \<lparr>rdv_handle = None, rdv_payload = None, rdv_budgeted = False, rdv_eof = False,
     rdv_flags = f\<rparr>"

text \<open>The part of \<open>recv_data\<close> after the windows and the content length have admitted the frame.\<close>

definition deliver_data ::
  "data_event \<Rightarrow> pyobj \<Rightarrow> usize \<Rightarrow> 'h inner \<Rightarrow> 'h inner \<times> (pyerr + recv_data_verdict)" where
  "deliver_data frame handle before s =
     (let sid = de_stream_id frame;
          s1 = (if 0 < de_padding frame
                then release_capacity_inner sid (de_padding frame mod 2 ^ 32) s else s);
          is_budgeted = \<not> de_end_stream frame
      in and_then (if is_budgeted then record_data_frame sid (length (de_data frame)) s1
                   else (s1, Inr ()))
         (\<lambda>s2 _.
           if is_budgeted \<and> de_data frame = [] then
             (s2, Inr (dropped_data (wake_flag before s2)))
           else
             and_then
               (if de_end_stream frame then
                  (case entry_of sid s2 of
                     None \<Rightarrow> (s2, Inl RustPanic)
                   | Some e \<Rightarrow>
                       (case recv_close (e_state e) of
                          Inl err \<Rightarrow> (s2, Inl (map_proto_err err))
                        | Inr st \<Rightarrow>
                            (case close_stream sid (upd_entry sid (\<lambda>e. e\<lparr>e_state := st\<rparr>) s2) of
                               (s3, f) \<Rightarrow> (s3, Inr f))))
                else (s2, Inr 0))
               (\<lambda>s3 flags.
                 (s3, Inr \<lparr>rdv_handle = Some handle, rdv_payload = Some (de_data frame),
                           rdv_budgeted = is_budgeted, rdv_eof = de_end_stream frame,
                           rdv_flags = flags OR wake_flag before s3\<rparr>))))"

definition recv_data ::
  "nat \<Rightarrow> data_event \<Rightarrow> 'h inner \<Rightarrow> 'h inner \<times> (pyerr + recv_data_verdict)" where
  "recv_data now frame s =
     (let before = length (c_pending s);
          sz = de_flow_controlled_len frame mod 2 ^ 32;
          payload_len = length (de_data frame)
      in case recv_lookup now (de_stream_id frame) s of
           (s1, Inr None) \<Rightarrow>
             and_then (consume_conn_recv sz s1) (\<lambda>s2 _.
               let s3 = reclaim_conn sz s2 in (s3, Inr (dropped_data (wake_flag before s3))))
         | (s1, Inl err) \<Rightarrow>
             and_then (consume_conn_recv sz s1) (\<lambda>s2 _. (reclaim_conn sz s2, Inl err))
         | (s1, Inr (Some sid)) \<Rightarrow>
             (case entry_of sid s1 of
                None \<Rightarrow> (s1, Inl RustPanic)
              | Some e \<Rightarrow>
                  if \<not> is_recv_streaming (e_state e) then
                    (s1, Inl (protocol_err PROTOCOL_ERROR
                                (''unexpected DATA on stream '' @ show_nat sid)))
                  else and_then (consume_conn_recv sz s1) (\<lambda>s2 _.
                    case fc_send_data sz (e_recv_flow e) of
                      None \<Rightarrow> (s2, Inl RustPanic)
                    | Some (rf, Inl _) \<Rightarrow>
                        (reclaim_conn sz (upd_entry sid (\<lambda>e. e\<lparr>e_recv_flow := rf\<rparr>) s2),
                         Inl (stream_err sid FLOW_CONTROL_ERROR))
                    | Some (rf, Inr _) \<Rightarrow>
                        (case cl_dec payload_len (e_content_length e) of
                           (cl, counted) \<Rightarrow>
                             let s3 = upd_entry sid
                                        (\<lambda>e. e\<lparr>e_recv_flow := rf, e_content_length := cl\<rparr>) s2
                             in if \<not> counted then
                                  (reclaim_conn sz s3, Inl (stream_err sid PROTOCOL_ERROR))
                                else if de_end_stream frame \<and> \<not> cl_is_satisfied cl then
                                  (reclaim_conn sz s3, Inl (stream_err sid PROTOCOL_ERROR))
                                else deliver_data frame (e_handle e) before
                                       (upd_entry sid (\<lambda>e. e\<lparr>e_recv_unreleased :=
                                          u32_add (e_recv_unreleased e) sz\<rparr>) s3)))))"

subsection \<open>WINDOW\_UPDATE and RST\_STREAM\<close>

text \<open>\<open>inc_window(n).and_then(|()| assign_capacity(n))\<close>.\<close>

definition fc_open_by :: "u32 \<Rightarrow> flow_control \<Rightarrow> unit fc_result" where
  "fc_open_by n f = and_then (fc_inc_window n f) (\<lambda>f1 _. fc_assign_capacity n f1)"

definition recv_window_update ::
  "window_update \<Rightarrow> 'h inner \<Rightarrow> 'h inner \<times> (pyerr + pyobj list)" where
  "recv_window_update frame s =
     (let sid = wu_stream_id frame; n = wu_size_increment frame
      in if sid = 0 then
           (case fc_open_by n (c_conn_send s) of
              (f, Inl r) \<Rightarrow> (s\<lparr>c_conn_send := f\<rparr>, Inl (map_reason r))
            | (f, Inr _) \<Rightarrow>
                (case send_front (fst (admit_capacity_front (s\<lparr>c_conn_send := f\<rparr>))) of
                   (s1, None) \<Rightarrow> (s1, Inr [])
                 | (s1, Some front) \<Rightarrow>
                     (case entry_of front s1 of
                        None \<Rightarrow> (s1, Inl RustPanic) | Some e \<Rightarrow> (s1, Inr [e_handle e]))))
         else case entry_of sid s of
           None \<Rightarrow>
             if hm_contains (c_reset_streams s) sid then (s, Inr [])
             else (case ensure_not_idle sid s of Inl e \<Rightarrow> (s, Inl e) | Inr _ \<Rightarrow> (s, Inr []))
         | Some e \<Rightarrow>
             (case fc_open_by n (e_send_flow e) of
                (f, r) \<Rightarrow>
                  let s1 = upd_entry sid (\<lambda>e. e\<lparr>e_send_flow := f\<rparr>) s
                  in if is_ok r then (s1, Inr [e_handle e])
                     else (s1, Inl (stream_err sid FLOW_CONTROL_ERROR))))"

record recv_reset_verdict =
  rrv_handle :: pyobj
  rrv_stop :: stopped
  rrv_notify_body :: bool
  rrv_flags :: flags

definition H2Streams_recv_reset ::
  "reset_frame \<Rightarrow> 'h inner \<Rightarrow> 'h inner \<times> (pyerr + recv_reset_verdict option)" where
  "H2Streams_recv_reset frame s =
     (let before = length (c_pending s); sid = rf_stream_id frame
      in if sid = 0 then (s, Inl (protocol_err PROTOCOL_ERROR ''RST_STREAM on stream 0''))
         else case entry_of sid s of
           None \<Rightarrow>
             if hm_contains (c_reset_streams s) sid then (s, Inr None)
             else (case ensure_not_idle sid s of Inl e \<Rightarrow> (s, Inl e) | Inr _ \<Rightarrow> (s, Inr None))
         | Some e \<Rightarrow>
             if c_role s = Server \<and> sid \<in> c_pending_accept s
                \<and> c_max_pending_accept_reset s \<le> card (c_remote_reset_pending s) then
               (s, Inl (protocol_err_with_debug ENHANCE_YOUR_CALM ''too_many_resets''
                          (ascii ''too_many_resets'')))
             else
               let s1 = (if c_role s = Server \<and> sid \<in> c_pending_accept s
                         then s\<lparr>c_remote_reset_pending := insert sid (c_remote_reset_pending s)\<rparr>
                         else s)
               in if e_finished e then (s1, Inr None)
                  else
                    let recv_ended = is_recv_end_stream (e_state e);
                        e1 = e\<lparr>e_state := recv_reset sid (rf_error_code frame) False (e_state e)\<rparr>;
                        s2 = reclaim_stream_accounting sid (upd_entry sid (\<lambda>_. e1) s1);
                        (s3, flags) = close_stream sid s2
                    in (s3, Inr (Some \<lparr>rrv_handle = e_handle e, rrv_stop = entry_stopped e1,
                          rrv_notify_body = (\<not> recv_ended),
                          rrv_flags = flags OR wake_flag before s3\<rparr>)))"

end
