(* ===== verification/Conn_Send.thy ===== *)
theory Conn_Send
  imports Conn_Reset
begin

section \<open>Opening streams and sending\<close>

text \<open>
  src/h2/conn.rs, the operations of \<open>H2Streams\<close> behind an outgoing message: the client's slots and
  \<open>open_stream\<close>, \<open>send_data\<close> with the send rotation, \<open>send_trailers\<close>,
  \<open>send_response_head\<close>; and the write pump's side of the send buffer.
\<close>

subsection \<open>Send verdicts\<close>

definition no_window :: "flags \<Rightarrow> send_verdict" where
  "no_window f = \<lparr>sdv_sent = 0, sdv_done = False, sdv_stopped = None, sdv_flags = f,
     sdv_handle = None, sdv_reader_stop = None\<rparr>"

definition stopped_send :: "stopped \<Rightarrow> send_verdict" where
  "stopped_send st = \<lparr>sdv_sent = 0, sdv_done = False, sdv_stopped = Some st, sdv_flags = 0,
     sdv_handle = None, sdv_reader_stop = None\<rparr>"

definition completed_send :: "usize \<Rightarrow> flags \<Rightarrow> reset_result \<Rightarrow> send_verdict" where
  "completed_send sent f tail =
     (case tail of (handle, stop, tail_flags) \<Rightarrow>
       \<lparr>sdv_sent = sent, sdv_done = True, sdv_stopped = None, sdv_flags = f OR tail_flags,
        sdv_handle = handle, sdv_reader_stop = stop\<rparr>)"

subsection \<open>Slots and \<open>open_stream\<close>\<close>

definition can_open :: "'h inner \<Rightarrow> bool" where
  "can_open s = (case c_stream_limit s of None \<Rightarrow> True | Some lim \<Rightarrow> c_num_open_streams s < lim)"

definition try_claim_slot :: "'h inner \<Rightarrow> 'h inner \<times> bool" where
  "try_claim_slot s =
     (if can_open s
      then (s\<lparr>c_num_open_streams := usize_add (c_num_open_streams s) 1\<rparr>, True) else (s, False))"

definition release_slot_count :: "'h inner \<Rightarrow> 'h inner" where
  "release_slot_count s = s\<lparr>c_num_open_streams := saturating_sub (c_num_open_streams s) 1\<rparr>"

definition apply_stream_limit :: "usize option \<Rightarrow> 'h inner \<Rightarrow> 'h inner" where
  "apply_stream_limit limit s = s\<lparr>c_stream_limit := limit\<rparr>"

definition open_stream ::
  "'h hpack_ops \<Rightarrow> http_ops \<Rightarrow> string \<Rightarrow> string \<Rightarrow> header_map \<Rightarrow> bool \<Rightarrow> bool \<Rightarrow> pyobj
   \<Rightarrow> string option \<Rightarrow> string option \<Rightarrow> 'h inner \<Rightarrow> 'h inner \<times> (pyerr + u32 option)" where
  "open_stream hp http mth target flds end_stream is_head handle scheme authority s =
     (if is_dead s then (release_slot_count s, Inr None)
      else
        let sid = c_next_id s
        in if MAX_STREAM_ID < sid then
             (release_slot_count s, Inl (protocol_err REFUSED_STREAM
                ''stream ID space exhausted (OverflowedStreamId)''))
           else case build_request_headers http sid mth target flds end_stream scheme authority of
             Inl e \<Rightarrow> (release_slot_count s, Inl e)
           | Inr hframe \<Rightarrow>
               let s1 = s\<lparr>c_next_id := u32_add (c_next_id s) 2\<rparr>;
                   e = (entry_new handle (ps_initial_window_size (c_peer s1)) (c_recv_init s1)
                          is_head)\<lparr>e_holds_slot := True\<rparr>
               in case send_open end_stream (e_state e) of
                    Inl err \<Rightarrow> (s1, Inl (map_user_err err))
                  | Inr st \<Rightarrow>
                      let s2 = s1\<lparr>c_streams := hm_put (c_streams s1) sid (e\<lparr>e_state := st\<rparr>),
                                  c_num_active := usize_add (c_num_active s1) 1\<rparr>
                      in and_then (queue_headers hp hframe s2) (\<lambda>s3 _. (s3, Inr (Some sid))))"

subsection \<open>DATA\<close>

definition no_tail :: reset_result where
  "no_tail = (None, None, 0)"

text \<open>Encode one DATA frame and append it.\<close>

definition queue_data :: "u32 \<Rightarrow> bytes \<Rightarrow> bool \<Rightarrow> 'h inner \<Rightarrow> 'h inner \<times> (pyerr + unit)" where
  "queue_data sid payload end_stream s =
     (case enc_encode_data sid payload end_stream (c_encoder s) of
        Inl e \<Rightarrow> (s, Inl e) | Inr out \<Rightarrow> (push out s, Inr ()))"

text \<open>The send half closes in the step of the END\_STREAM frame; \<open>send_close\<close> panics on a half
  that cannot close (\<open>None\<close>).\<close>

definition close_send_half ::
  "nat \<Rightarrow> u32 \<Rightarrow> 'h inner \<Rightarrow> 'h inner \<times> (pyerr + reset_result)" where
  "close_send_half now sid s =
     (case entry_of sid s of
        None \<Rightarrow> (s, Inl RustPanic)
      | Some e \<Rightarrow>
          (case send_close (e_state e) of
             None \<Rightarrow> (s, Inl RustPanic)
           | Some st \<Rightarrow>
               (case finish_stream now sid (upd_entry sid (\<lambda>e. e\<lparr>e_state := st\<rparr>) s) of
                  (s1, tail) \<Rightarrow> (s1, Inr tail))))"

definition send_empty_data ::
  "nat \<Rightarrow> u32 \<Rightarrow> bool \<Rightarrow> 'h inner \<Rightarrow> 'h inner \<times> (pyerr + send_verdict)" where
  "send_empty_data now sid end_stream s =
     and_then (queue_data sid [] end_stream s) (\<lambda>s1 _.
       and_then (if end_stream then close_send_half now sid s1 else (s1, Inr no_tail))
         (\<lambda>s2 tail. (s2, Inr (completed_send 0 (wake_flag (length (c_pending s)) s2) tail))))"

text \<open>\<open>credit\<close>: consecutive frames of one stream merge.\<close>

definition add_credit :: "u32 \<Rightarrow> usize \<Rightarrow> (u32 \<times> usize) list \<Rightarrow> (u32 \<times> usize) list" where
  "add_credit sid n cr =
     (if cr \<noteq> [] \<and> fst (last cr) = sid
      then butlast cr @ [(sid, usize_add (snd (last cr)) n)] else cr @ [(sid, n)])"

text \<open>The queue decision after a frame of \<open>n\<close> of \<open>want\<close> bytes.\<close>

definition after_frame :: "u32 \<Rightarrow> bool \<Rightarrow> 'h inner \<Rightarrow> 'h inner \<times> flags" where
  "after_frame sid finished s =
     (if finished then leave_send_queue sid s
      else case entry_of sid s of
        None \<Rightarrow> (s, 0)
      | Some e \<Rightarrow>
          let room_after = stream_room e s;
              conn_after = fc_window_size (c_conn_send s)
          in if conn_after = 0 \<and> 0 < room_after then
               leave_send_queue sid (enqueue_capacity sid s)
             else if room_after = 0 then leave_send_queue sid s
             else (s, 0))"

text \<open>Frame the next bytes of the stream whose turn it is.\<close>

definition send_frame ::
  "nat \<Rightarrow> u32 \<Rightarrow> bytes \<Rightarrow> usize \<Rightarrow> bool \<Rightarrow> usize \<Rightarrow> usize \<Rightarrow> 'h inner
   \<Rightarrow> 'h inner \<times> (pyerr + send_verdict)" where
  "send_frame now sid data offset end_stream budget before s =
     (let want = usize_sub (length data) offset;
          n = min (min budget want) (ps_max_frame_size (c_peer s));
          final = (end_stream \<and> n = want)
      in case fc_send_data (n mod 2 ^ 32) (c_conn_send s) of
           None \<Rightarrow> (s, Inl RustPanic)
         | Some (cf, Inl r) \<Rightarrow> (s\<lparr>c_conn_send := cf\<rparr>, Inl (map_reason r))
         | Some (cf, Inr _) \<Rightarrow>
             let s1 = s\<lparr>c_conn_send := cf\<rparr>
             in case entry_of sid s1 of
                  None \<Rightarrow> (s1, Inl RustPanic)
                | Some e \<Rightarrow>
                    (case fc_send_data (n mod 2 ^ 32) (e_send_flow e) of
                       None \<Rightarrow> (s1, Inl RustPanic)
                     | Some (sf, Inl r) \<Rightarrow>
                         (upd_entry sid (\<lambda>e. e\<lparr>e_send_flow := sf\<rparr>) s1, Inl (map_reason r))
                     | Some (sf, Inr _) \<Rightarrow>
                         let s2 = upd_entry sid (\<lambda>e. e\<lparr>e_send_flow := sf,
                                    e_send_buffered := usize_add (e_send_buffered e) n,
                                    e_turn_frames := usize_add (e_turn_frames e) 1\<rparr>) s1;
                             (s3, queue_flags) = after_frame sid (n = want) s2
                         in if length data < offset + n then (s3, Inl RustPanic)
                            else and_then (queue_data sid (take n (drop offset data)) final s3)
                              (\<lambda>s4 _.
                                let s5 = s4\<lparr>c_credit := add_credit sid n (c_credit s4)\<rparr>
                                in if final then
                                     and_then (close_send_half now sid s5) (\<lambda>s6 tail.
                                       (s6, Inr (completed_send n
                                              (wake_flag before s6 OR queue_flags) tail)))
                                   else (s5, Inr \<lparr>sdv_sent = n, sdv_done = (n = want),
                                          sdv_stopped = None,
                                          sdv_flags = wake_flag before s5 OR queue_flags,
                                          sdv_handle = None, sdv_reader_stop = None\<rparr>))))"

text \<open>The turn bound: \<open>Some flags\<close> is the pause of a stream that used its burst.\<close>

definition turn_over :: "u32 \<Rightarrow> stream_entry \<Rightarrow> 'h inner \<Rightarrow> 'h inner \<times> flags option" where
  "turn_over sid e s =
     (if c_burst_frames s \<le> e_turn_frames e then
        (if 1 < length (c_pending_send s) then
           (case yield_send_turn sid s of (s1, f) \<Rightarrow> (s1, Some f))
         else if 1 < c_num_active s then (s, Some 0) else (s, None))
      else (s, None))"

definition send_data ::
  "nat \<Rightarrow> u32 \<Rightarrow> bytes \<Rightarrow> usize \<Rightarrow> bool \<Rightarrow> 'h inner \<Rightarrow> 'h inner \<times> (pyerr + send_verdict)" where
  "send_data now sid data offset end_stream s =
     (let before = length (c_pending s)
      in case entry_of sid s of
           None \<Rightarrow> (s, Inr (stopped_send local_stop))
         | Some e \<Rightarrow>
             if \<not> is_send_streaming (e_state e) then (s, Inr (stopped_send (entry_stopped e)))
             else if data = [] then send_empty_data now sid end_stream s
             else
               let room = stream_room e s;
                   conn = fc_window_size (c_conn_send s);
                   budget = min room conn
               in if budget = 0 then
                    let s1 = (if conn = 0 \<and> 0 < room then enqueue_capacity sid s else s);
                        (s2, flags) = leave_send_queue sid s1
                    in (s2, Inr (no_window flags))
                  else
                    let s1 = (if e_is_pending_capacity e
                              then (upd_entry sid (\<lambda>e. e\<lparr>e_is_pending_capacity := False\<rparr>) s)
                                     \<lparr>c_pending_capacity :=
                                        filter (\<lambda>i. i \<noteq> sid) (c_pending_capacity s)\<rparr>
                              else s)
                    in case send_front s1 of (s2, front) \<Rightarrow>
                         if front \<noteq> None \<and> front \<noteq> Some sid then
                           (enqueue_send sid s2, Inr (no_window 0))
                         else
                           let s3 = (if front = None then enqueue_send sid s2 else s2)
                           in case entry_of sid s3 of
                                None \<Rightarrow> (s3, Inl RustPanic)
                              | Some e3 \<Rightarrow>
                                  (case turn_over sid e3 s3 of
                                     (s4, Some flags) \<Rightarrow> (s4, Inr (no_window flags))
                                   | (s4, None) \<Rightarrow>
                                       send_frame now sid data offset end_stream budget before s4))"

subsection \<open>Trailers and response heads\<close>

definition send_trailers ::
  "'h hpack_ops \<Rightarrow> nat \<Rightarrow> u32 \<Rightarrow> header_map \<Rightarrow> 'h inner \<Rightarrow> 'h inner \<times> (pyerr + send_verdict)" where
  "send_trailers hp now sid trailers s =
     (case stream_id_from sid of
        None \<Rightarrow> (s, Inl RustPanic)
      | Some i \<Rightarrow>
          let hframe = build_trailers i trailers
          in case entry_of sid s of
               None \<Rightarrow> (s, Inr (stopped_send local_stop))
             | Some e \<Rightarrow>
                 if \<not> is_send_streaming (e_state e) then (s, Inr (stopped_send (entry_stopped e)))
                 else case send_close (e_state e) of
                        None \<Rightarrow> (s, Inl RustPanic)
                      | Some st \<Rightarrow>
                          and_then (queue_headers hp hframe (upd_entry sid (\<lambda>e. e\<lparr>e_state := st\<rparr>) s))
                            (\<lambda>s1 _. case finish_stream now sid s1 of (s2, tail) \<Rightarrow>
                               (s2, Inr (completed_send 0
                                           (wake_flag (length (c_pending s)) s2) tail))))"

definition send_response_head ::
  "'h hpack_ops \<Rightarrow> http_ops \<Rightarrow> nat \<Rightarrow> u32 \<Rightarrow> u16 \<Rightarrow> header_map \<Rightarrow> bool \<Rightarrow> 'h inner
   \<Rightarrow> 'h inner \<times> (pyerr + send_verdict)" where
  "send_response_head hp http now sid status flds end_stream s =
     (case check_send_fields flds of
        Inl e \<Rightarrow> (s, Inl e)
      | Inr _ \<Rightarrow>
          (case entry_of sid s of
             None \<Rightarrow> (s, Inr (stopped_send local_stop))
           | Some e \<Rightarrow>
               if is_closed (e_state e) then (s, Inr (stopped_send (entry_stopped e)))
               else case build_response_headers http sid status flds end_stream (c_auto_date s) of
                      Inl err \<Rightarrow> (s, Inl err)
                    | Inr hframe \<Rightarrow>
                        (case send_open end_stream (e_state e) of
                           Inl err \<Rightarrow> (s, Inl (map_user_err err))
                         | Inr st \<Rightarrow>
                             and_then
                               (queue_headers hp hframe (upd_entry sid (\<lambda>e. e\<lparr>e_state := st\<rparr>) s))
                               (\<lambda>s1 _.
                                 case (if end_stream then finish_stream now sid s1
                                       else (s1, no_tail)) of
                                   (s2, tail) \<Rightarrow>
                                     (s2, Inr (completed_send 0
                                             (wake_flag (length (c_pending s)) s2) tail))))))"

subsection \<open>The write pump\<close>

definition stop_pump :: "'h inner \<Rightarrow> 'h inner" where
  "stop_pump s = s\<lparr>c_stop := True\<rparr>"

definition take_pending :: "'h inner \<Rightarrow> 'h inner \<times> bytes \<times> bool" where
  "take_pending s =
     (s\<lparr>c_spare := None, c_pending := (case c_spare s of Some b \<Rightarrow> b | None \<Rightarrow> []),
        c_credit := [], c_inflight_credit := c_inflight_credit s @ c_credit s\<rparr>,
      c_pending s, c_stop s)"

text \<open>\<open>H2WriteBatch::drop\<close>: the batch's buffer, cleared, comes back as the spare.\<close>

definition write_batch_drop :: "'h inner \<Rightarrow> 'h inner" where
  "write_batch_drop s = (if c_spare s = None then s\<lparr>c_spare := Some []\<rparr> else s)"

fun credit_loop ::
  "(u32 \<times> usize) list \<Rightarrow> u32 set \<Rightarrow> 'h inner \<Rightarrow> 'h inner \<times> pyobj list" where
  "credit_loop [] woken s = (s, [])"
| "credit_loop ((sid, n) # batch) woken s =
     (case entry_of sid s of
        None \<Rightarrow> credit_loop batch woken s
      | Some e \<Rightarrow>
          (case credit_loop batch (insert sid woken)
                  (upd_entry sid (\<lambda>e. e\<lparr>e_send_buffered := saturating_sub (e_send_buffered e) n,
                                         e_turn_frames := 0\<rparr>) s) of
             (s1, wake) \<Rightarrow> (s1, if sid \<in> woken then wake else e_handle e # wake)))"

definition credit_written :: "'h inner \<Rightarrow> 'h inner \<times> pyobj list" where
  "credit_written s = credit_loop (c_inflight_credit s) {} (s\<lparr>c_inflight_credit := []\<rparr>)"

definition has_pending :: "'h inner \<Rightarrow> bool" where
  "has_pending s \<longleftrightarrow> c_pending s \<noteq> []"

definition next_capacity_wake :: "'h inner \<Rightarrow> 'h inner \<times> pyobj option" where
  "next_capacity_wake s =
     (case send_front (fst (admit_capacity_front s)) of
        (s1, None) \<Rightarrow> (s1, None)
      | (s1, Some sid) \<Rightarrow> (s1, map_option e_handle (entry_of sid s1)))"

end
