(* ===== verification/Conn_Control.thy ===== *)
theory Conn_Control
  imports Conn_Recv Conn_Send
begin

section \<open>The connection's own frames and its lifecycle\<close>

text \<open>
  src/h2/conn.rs: construction and handshake (\<open>new\<close>, \<open>begin\<close>), SETTINGS with the application of
  the values on both sides, PING, GOAWAY, failure, graceful shutdown, the count of body writers and
  the task handles. The getters of \<open>H2Streams\<close> read one field of the state each.
\<close>

subsection \<open>Construction\<close>

definition check_windows :: "u32 \<Rightarrow> u32 \<Rightarrow> pyerr + unit" where
  "check_windows initial conn =
     (if MAX_WINDOW_SIZE < initial \<or> MAX_WINDOW_SIZE < conn
      then Inl (ValueError (''window sizes must be <= '' @ show_nat MAX_WINDOW_SIZE
             @ '' (RFC 9113 6.9.1)''))
      else Inr ())"

text \<open>\<open>Duration::try_from_secs_f64\<close> is applied by the caller: the duration arrives in nanoseconds,
  \<open>None\<close> for the default.\<close>

record config =
  cf_role :: role
  cf_initial_window_size :: u32
  cf_connection_window :: u32
  cf_max_frame_size :: "u32 option"
  cf_max_header_list_size :: u32
  cf_max_send_buf_size :: usize
  cf_max_concurrent_streams :: "u32 option"
  cf_max_pending_accept_reset_streams :: usize
  cf_max_local_error_reset_streams :: "usize option"
  cf_data_frame_budget :: "usize option"
  cf_auto_date_header :: bool
  cf_enable_push :: "bool option"
  cf_header_table_size :: "u32 option"
  cf_max_concurrent_reset_streams :: "usize option"
  cf_reset_stream_duration :: "nat option"

definition inner_new :: "'h hpack_ops \<Rightarrow> config \<Rightarrow> 'h inner" where
  "inner_new hp cf =
     \<lparr>c_role = cf_role cf, c_encoder = encoder_new hp, c_pending = [], c_spare = None,
      c_stop = False, c_credit = [], c_inflight_credit = [], c_read_handle = None,
      c_pump_handle = None, c_writers = 0, c_draining = False, c_streams = [], c_num_active = 0,
      c_reset_streams = [],
      c_reset_stream_max = (case cf_max_concurrent_reset_streams cf of
                              Some n \<Rightarrow> n | None \<Rightarrow> RESET_STREAM_MAX),
      c_reset_stream_duration = (case cf_reset_stream_duration cf of
                                   Some n \<Rightarrow> n | None \<Rightarrow> RESET_STREAM_SECS),
      c_peer = peer_settings_new,
      c_settings = settings_new
        \<lparr>sv_header_table_size = cf_header_table_size cf, sv_enable_push = cf_enable_push cf,
         sv_max_concurrent_streams = cf_max_concurrent_streams cf,
         sv_initial_window_size = Some (cf_initial_window_size cf),
         sv_max_frame_size = cf_max_frame_size cf,
         sv_max_header_list_size = Some (cf_max_header_list_size cf)\<rparr>,
      c_recv_init = max (cf_initial_window_size cf) DEFAULT_INITIAL_WINDOW_SIZE,
      c_conn_send = flow_open DEFAULT_INITIAL_WINDOW_SIZE,
      c_pending_send = [], c_pending_capacity = [], c_burst_frames = DEFAULT_SEND_BURST_FRAMES,
      c_conn_recv = flow_open DEFAULT_INITIAL_WINDOW_SIZE,
      c_conn_recv_target = cf_connection_window cf,
      c_max_send_buf_size = cf_max_send_buf_size cf,
      c_goaway = None, c_goaway_last_id = None, c_goaway_replied = False, c_error = None,
      c_local_error_resets = 0,
      c_max_local_error_resets = cf_max_local_error_reset_streams cf,
      c_data_budget = dfc_new (cf_data_frame_budget cf) (Some (cf_connection_window cf)),
      c_next_id = 1, c_num_open_streams = 0, c_stream_limit = None, c_last_recv_id = 0,
      c_last_processed_id = 0,
      c_max_concurrent = (case cf_max_concurrent_streams cf of Some v \<Rightarrow> v | None \<Rightarrow> usize_max),
      c_max_pending_accept_reset = cf_max_pending_accept_reset_streams cf,
      c_graceful = False, c_max_stream_id = MAX_STREAM_ID, c_shutdown_final = False,
      c_pending_accept = {}, c_remote_reset_pending = {}, c_auto_date = cf_auto_date_header cf\<rparr>"

text \<open>\<open>H2Streams::new\<close>: both halves, or the error of a value out of range.\<close>

definition H2Streams_new ::
  "'h hpack_ops \<Rightarrow> config \<Rightarrow> pyerr + 'h inner \<times> frame_decoder" where
  "H2Streams_new hp cf =
     (case (case cf_max_frame_size cf of Some m \<Rightarrow> check_max_frame_size m | None \<Rightarrow> Inr ()) of
        Inl e \<Rightarrow> Inl e
      | Inr _ \<Rightarrow>
     (case check_windows (cf_initial_window_size cf) (cf_connection_window cf) of
        Inl e \<Rightarrow> Inl e
      | Inr _ \<Rightarrow>
          let d0 = frame_decoder_new (cf_role cf = Server)
          in case (case cf_max_frame_size cf of
                     Some m \<Rightarrow> set_max_recv_frame_size m d0 | None \<Rightarrow> (d0, Inr ())) of
               (d1, Inl e) \<Rightarrow> Inl e
             | (d1, Inr _) \<Rightarrow>
                 Inr (inner_new hp cf, set_max_header_list_size (cf_max_header_list_size cf) d1)))"

definition h2_begin :: "'h inner \<Rightarrow> 'h inner \<times> (pyerr + unit)" where
  "h2_begin s =
     (let s1 = (if c_role s = Client then push H2_PREFACE s else s)
      in case encode_settings (ss_local (c_settings s1)) of
           Inl e \<Rightarrow> (s1, Inl e)
         | Inr out \<Rightarrow>
             let s2 = push out s1;
                 s3 = s2\<lparr>c_settings := settings_mark_sent (c_settings s2)\<rparr>;
                 delta = saturating_sub (c_conn_recv_target s3) DEFAULT_INITIAL_WINDOW_SIZE
             in (if 0 < delta then reclaim_conn delta s3 else s3, Inr ()))"

subsection \<open>Task handles and body writers\<close>

definition store_task_handles :: "pyobj \<Rightarrow> pyobj \<Rightarrow> 'h inner \<Rightarrow> 'h inner" where
  "store_task_handles rd pump s = s\<lparr>c_read_handle := Some rd, c_pump_handle := Some pump\<rparr>"

definition take_read_handle :: "'h inner \<Rightarrow> 'h inner \<times> pyobj option" where
  "take_read_handle s = (s\<lparr>c_read_handle := None\<rparr>, c_read_handle s)"

definition take_pump_handle :: "'h inner \<Rightarrow> 'h inner \<times> pyobj option" where
  "take_pump_handle s = (s\<lparr>c_pump_handle := None\<rparr>, c_pump_handle s)"

definition writer_start :: "'h inner \<Rightarrow> 'h inner \<times> bool" where
  "writer_start s =
     (if c_error s \<noteq> None \<or> c_draining s then (s, False)
      else (s\<lparr>c_writers := usize_add (c_writers s) 1\<rparr>, True))"

definition writer_end :: "'h inner \<Rightarrow> 'h inner \<times> bool" where
  "writer_end s =
     (let s1 = s\<lparr>c_writers := usize_sub (c_writers s) 1\<rparr> in (s1, c_writers s1 = 0 \<and> c_draining s1))"

definition release_writers :: "'h inner \<Rightarrow> 'h inner \<times> bool" where
  "release_writers s = (let s1 = s\<lparr>c_draining := True\<rparr> in (s1, c_writers s1 = 0))"

text \<open>\<open>__clear__\<close>, run by the garbage collector on an unreachable connection.\<close>

definition h2_clear :: "'h inner \<Rightarrow> 'h inner" where
  "h2_clear s = s\<lparr>c_streams := [], c_error := None, c_read_handle := None, c_pump_handle := None\<rparr>"

subsection \<open>SETTINGS\<close>

text \<open>The peer's new initial window on one stream: the new flow, and whether its sender wakes.\<close>

definition shift_send_window :: "u32 \<Rightarrow> u32 \<Rightarrow> stream_entry \<Rightarrow> stream_entry \<times> (reason + bool)" where
  "shift_send_window new old e =
     (if is_send_closed (e_state e) then (e, Inr False)
      else if old \<le> new then
        (case fc_open_by (new - old) (e_send_flow e) of
           (f, Inl r) \<Rightarrow> (e\<lparr>e_send_flow := f\<rparr>, Inl r)
         | (f, Inr _) \<Rightarrow> (e\<lparr>e_send_flow := f\<rparr>, Inr True))
      else
        (case and_then (fc_dec_send_window (old - new) (e_send_flow e))
                (\<lambda>f _. fc_claim_capacity (old - new) f) of
           (f, Inl r) \<Rightarrow> (e\<lparr>e_send_flow := f\<rparr>, Inl r)
         | (f, Inr _) \<Rightarrow> (e\<lparr>e_send_flow := f\<rparr>, Inr False)))"

text \<open>\<open>streams.values_mut()\<close>, stopped by the first error.\<close>

fun shift_send_windows ::
  "u32 \<Rightarrow> u32 \<Rightarrow> (u32, stream_entry) hmap \<Rightarrow> (u32, stream_entry) hmap \<times> (reason + pyobj list)" where
  "shift_send_windows new old [] = ([], Inr [])"
| "shift_send_windows new old ((sid, e) # m) =
     (case shift_send_window new old e of
        (e', Inl r) \<Rightarrow> ((sid, e') # m, Inl r)
      | (e', Inr woken) \<Rightarrow>
          (case shift_send_windows new old m of
             (m', Inl r) \<Rightarrow> ((sid, e') # m', Inl r)
           | (m', Inr wake) \<Rightarrow>
               ((sid, e') # m', Inr (if woken then e_handle e # wake else wake))))"

definition apply_remote_settings ::
  "'h hpack_ops \<Rightarrow> settings_seen \<Rightarrow> 'h inner \<Rightarrow> 'h inner \<times> (pyerr + pyobj list \<times> flags)" where
  "apply_remote_settings hp f s =
     (let s1 = (case fs_header_table_size f of
                  Some v \<Rightarrow> s\<lparr>c_peer := (c_peer s)\<lparr>ps_header_table_size := v\<rparr>,
                              c_encoder := enc_set_send_header_table_size hp v (c_encoder s)\<rparr>
                | None \<Rightarrow> s)
      in and_then
           (case fs_max_frame_size f of
              Some v \<Rightarrow>
                (case enc_set_send_max_frame_size v (c_encoder s1) of
                   (enc, Inl e) \<Rightarrow> (s1\<lparr>c_encoder := enc\<rparr>, Inl e)
                 | (enc, Inr _) \<Rightarrow>
                     (s1\<lparr>c_encoder := enc, c_peer := (c_peer s1)\<lparr>ps_max_frame_size := v\<rparr>\<rparr>, Inr ()))
            | None \<Rightarrow> (s1, Inr ()))
           (\<lambda>s2 _.
             let (s3, flags) =
                   (case fs_max_concurrent_streams f of
                      Some v \<Rightarrow>
                        let s3 = s2\<lparr>c_peer := (c_peer s2)\<lparr>ps_max_concurrent_streams := Some v\<rparr>\<rparr>
                        in if c_role s3 = Client
                           then (s3\<lparr>c_stream_limit := Some v\<rparr>, FLAG_SLOT_FREED) else (s3, 0)
                    | None \<Rightarrow> (s2, 0));
                 old = ps_initial_window_size (c_peer s3)
             in case fs_initial_window_size f of
                  Some new \<Rightarrow>
                    if new = old then (s3, Inr ([], flags))
                    else (case shift_send_windows new old (c_streams s3) of
                            (m, r) \<Rightarrow>
                              (s3\<lparr>c_peer := (c_peer s3)\<lparr>ps_initial_window_size := new\<rparr>,
                                  c_streams := m\<rparr>,
                               case r of Inl e \<Rightarrow> Inl (map_reason e)
                                       | Inr wake \<Rightarrow> Inr (wake, flags)))
                | None \<Rightarrow> (s3, Inr ([], flags))))"

text \<open>Our own initial window on the receive side of every stream.\<close>

definition shift_recv_window :: "u32 \<Rightarrow> u32 \<Rightarrow> stream_entry \<Rightarrow> stream_entry \<times> (reason + unit)" where
  "shift_recv_window target old e =
     (if old < target then
        (case fc_open_by (target - old) (e_recv_flow e) of (f, r) \<Rightarrow> (e\<lparr>e_recv_flow := f\<rparr>, r))
      else
        (case fc_dec_recv_window (old - target) (e_recv_flow e) of
           (f, r) \<Rightarrow> (e\<lparr>e_recv_flow := f\<rparr>, r)))"

fun shift_recv_windows ::
  "u32 \<Rightarrow> u32 \<Rightarrow> (u32, stream_entry) hmap \<Rightarrow> (u32, stream_entry) hmap \<times> (reason + unit)" where
  "shift_recv_windows target old [] = ([], Inr ())"
| "shift_recv_windows target old ((sid, e) # m) =
     (case shift_recv_window target old e of
        (e', Inl r) \<Rightarrow> ((sid, e') # m, Inl r)
      | (e', Inr _) \<Rightarrow>
          (case shift_recv_windows target old m of (m', r) \<Rightarrow> ((sid, e') # m', r)))"

definition apply_local_settings ::
  "frame_decoder \<Rightarrow> 'h inner \<Rightarrow> ('h inner \<times> frame_decoder) \<times> (pyerr + unit)" where
  "apply_local_settings dec s =
     (let local = ss_local (c_settings s);
          d1 = (case sv_header_table_size local of
                  Some v \<Rightarrow> set_recv_header_table_size v dec | None \<Rightarrow> dec)
      in case (case sv_max_frame_size local of
                 Some v \<Rightarrow> set_max_recv_frame_size v d1 | None \<Rightarrow> (d1, Inr ())) of
           (d2, Inl e) \<Rightarrow> ((s, d2), Inl e)
         | (d2, Inr _) \<Rightarrow>
             let d3 = (case sv_max_header_list_size local of
                         Some v \<Rightarrow> set_max_header_list_size v d2 | None \<Rightarrow> d2)
             in case sv_initial_window_size local of
                  None \<Rightarrow> ((s, d3), Inr ())
                | Some target \<Rightarrow>
                    let old = c_recv_init s; s1 = s\<lparr>c_recv_init := target\<rparr>
                    in if target = old then ((s1, d3), Inr ())
                       else case shift_recv_windows target old (c_streams s1) of
                              (m, r) \<Rightarrow> ((s1\<lparr>c_streams := m\<rparr>, d3), map_err map_reason r))"

definition H2Streams_recv_settings ::
  "'h hpack_ops \<Rightarrow> settings_seen \<Rightarrow> 'h inner \<times> frame_decoder
   \<Rightarrow> ('h inner \<times> frame_decoder) \<times> (pyerr + bool \<times> pyobj list \<times> flags)" where
  "H2Streams_recv_settings hp f sd =
     (let (s, dec) = sd
      in if fs_ack f then
           (case settings_recv_ack (c_settings s) of
              (ss, Inl e) \<Rightarrow> ((s\<lparr>c_settings := ss\<rparr>, dec), Inl e)
            | (ss, Inr _) \<Rightarrow>
                and_then (apply_local_settings dec (s\<lparr>c_settings := ss\<rparr>))
                  (\<lambda>sd1 _. (sd1, Inr (False, [], 0))))
         else
           let s1 = push encode_settings_ack s
           in case settings_recv_remote (c_settings s1) of
                (ss, initial) \<Rightarrow>
                  (case apply_remote_settings hp f (s1\<lparr>c_settings := ss\<rparr>) of
                     (s2, Inl e) \<Rightarrow> ((s2, dec), Inl e)
                   | (s2, Inr (wake, flags)) \<Rightarrow>
                       ((s2, dec), Inr (initial, wake,
                          flags OR wake_flag (length (c_pending s)) s2))))"

subsection \<open>PING, GOAWAY, graceful shutdown\<close>

definition recv_ping :: "ping_frame \<Rightarrow> 'h inner \<Rightarrow> 'h inner \<times> (pyerr + flags)" where
  "recv_ping f s =
     (if \<not> pf_ack f then
        (case encode_ping (pf_payload f) True of
           Inl e \<Rightarrow> (s, Inl e)
         | Inr out \<Rightarrow> let s1 = push out s in (s1, Inr (wake_flag (length (c_pending s)) s1)))
      else if c_role s \<noteq> Server \<or> pf_payload f \<noteq> SHUTDOWN_PING \<or> \<not> c_graceful s
              \<or> c_shutdown_final s then (s, Inr 0)
      else
        let s1 = s\<lparr>c_shutdown_final := True, c_max_stream_id := c_last_processed_id s\<rparr>;
            s2 = push (encode_go_away (c_last_processed_id s1) NO_ERROR []) s1
        in (s2, Inr (wake_flag (length (c_pending s)) s2
                     OR (if c_num_active s2 = 0 then FLAG_STOP_ACCEPTING else 0))))"

definition H2Streams_recv_go_away ::
  "goaway_frame \<Rightarrow> 'h inner \<Rightarrow> 'h inner \<times> (pyerr + (pyobj \<times> stopped) list \<times> flags)" where
  "H2Streams_recv_go_away f s =
     (let last_id = ga_last_stream_id f
      in if (case c_goaway_last_id s of Some prev \<Rightarrow> prev < last_id | None \<Rightarrow> False)
         then (s, Inl (protocol_err PROTOCOL_ERROR ''GOAWAY may not raise last_stream_id''))
         else
           let s1 = s\<lparr>c_goaway_last_id := Some last_id,
                      c_goaway := Some \<lparr>gi_last_stream_id = last_id, gi_reason = ga_error_code f,
                                       gi_debug_data = ga_debug_data f\<rparr>\<rparr>
           in if c_role s1 = Client then
                (case abort_all (filter (\<lambda>i. last_id < i) (hm_keys (c_streams s1)))
                        (Some (ga_error_code f)) s1 of
                   (s2, aborted, flags) \<Rightarrow> (s2, Inr (aborted, flags OR FLAG_SLOT_FREED)))
              else (s1, Inr ([], 0)))"

definition send_goaway :: "u32 \<Rightarrow> bytes option \<Rightarrow> 'h inner \<Rightarrow> 'h inner \<times> flags" where
  "send_goaway r debug s =
     (let s1 = push (encode_go_away (goaway_last_stream_id s) r
                       (case debug of Some d \<Rightarrow> d | None \<Rightarrow> [])) s
      in (s1, wake_flag (length (c_pending s)) s1))"

definition begin_graceful_shutdown :: "'h inner \<Rightarrow> 'h inner \<times> (pyerr + flags)" where
  "begin_graceful_shutdown s =
     (if c_graceful s then (s, Inr 0)
      else
        let s1 = push (encode_go_away MAX_STREAM_ID NO_ERROR []) (s\<lparr>c_graceful := True\<rparr>)
        in case encode_ping SHUTDOWN_PING False of
             Inl e \<Rightarrow> (s1, Inl e)
           | Inr out \<Rightarrow>
               let s2 = push out s1 in (s2, Inr (wake_flag (length (c_pending s)) s2)))"

subsection \<open>Failure\<close>

definition conn_fail ::
  "pyobj option \<Rightarrow> string \<Rightarrow> 'h inner \<Rightarrow> 'h inner \<times> (pyobj \<times> stopped) list" where
  "conn_fail exc message s =
     fail_all (if c_error s = None
               then s\<lparr>c_error := Some (case exc of
                        Some e \<Rightarrow> ConnErrorPy e | None \<Rightarrow> ConnErrorClosed message)\<rparr>
               else s)"

definition conn_error_of :: "'h inner \<Rightarrow> (pyobj + pyerr) option" where
  "conn_error_of s =
     (case c_error s of
        None \<Rightarrow> None
      | Some (ConnErrorPy e) \<Rightarrow> Some (Inl e)
      | Some (ConnErrorClosed m) \<Rightarrow> Some (Inr (ConnectionClosedError m)))"

end
