(* ===== verification/Conn_Invariant.thy ===== *)
theory Conn_Invariant
  imports Conn_Control
begin

section \<open>The invariant of the connection state\<close>

text \<open>
  What every operation of the connection keeps: the stream store and its count, the send queues,
  the send windows, the receive ledger, and the client's slots. This theory defines the invariant,
  proves the rule for a write to one entry, and carries the invariant through the helpers of
  \<open>Conn_State\<close> and \<open>Conn_Reset\<close>.
\<close>

subsection \<open>Entries\<close>

definition recv_done :: "stream_state \<Rightarrow> bool" where
  "recv_done st \<longleftrightarrow> is_recv_end_stream st \<or> is_closed st"

text \<open>The send window's capacity is kept equal to it (see \<open>stream_room\<close> in the source).\<close>

definition send_flow_ok :: "flow_control \<Rightarrow> bool" where
  "send_flow_ok f \<longleftrightarrow> fc_ok f \<and> fc_available f = fc_window f"

definition entry_ok :: "u32 \<Rightarrow> stream_entry \<Rightarrow> bool" where
  "entry_ok sid e \<longleftrightarrow>
     0 < sid \<and> sid < 2 ^ 31
     \<and> (e_finished e \<longrightarrow> is_closed (e_state e) \<and> owes_ledger e \<and> \<not> e_holds_slot e
                        \<and> \<not> e_is_pending_send e \<and> \<not> e_is_pending_capacity e)
     \<and> (e_recv_reclaimed e \<longrightarrow> recv_done (e_state e) \<and> e_recv_unreleased e = 0)
     \<and> send_flow_ok (e_send_flow e) \<and> fc_ok (e_recv_flow e)"

lemma recv_done_not_streaming: "recv_done st \<Longrightarrow> \<not> is_recv_streaming st \<and> \<not> is_recv_headers st"
  by (cases st) (auto simp: recv_done_def)

lemma recv_done_send_open: "send_open eos st = Inr st' \<Longrightarrow> recv_done st \<Longrightarrow> recv_done st'"
  by (induction eos st rule: send_open.induct) (auto simp: recv_done_def)

lemma recv_done_send_close: "send_close st = Some st' \<Longrightarrow> recv_done st \<Longrightarrow> recv_done st'"
  by (induction st rule: send_close.induct) (auto simp: recv_done_def)

lemma recv_done_recv_close: "recv_close st = Inr st' \<Longrightarrow> recv_done st'"
  using recv_close_end_stream by (simp add: recv_done_def)

lemma recv_done_closed [simp]: "is_closed st \<Longrightarrow> recv_done st"
  by (simp add: recv_done_def)

lemma recv_open_not_done: "recv_open eos interim st = Inr x \<Longrightarrow> \<not> recv_done st"
  by (induction eos interim st rule: recv_open.induct) (auto simp: recv_done_def)

subsection \<open>The invariant\<close>

definition active_weight :: "stream_entry \<Rightarrow> nat" where
  "active_weight e = (if e_finished e then 0 else 1)"

definition slot_weight :: "stream_entry \<Rightarrow> nat" where
  "slot_weight e = (if e_holds_slot e then 1 else 0)"

definition store_ok :: "'h inner \<Rightarrow> bool" where
  "store_ok s \<longleftrightarrow>
     hm_ok (c_streams s)
     \<and> (\<forall>sid e. entry_of sid s = Some e \<longrightarrow> entry_ok sid e)
     \<and> c_num_active s = hm_sum active_weight (c_streams s)"

definition queue_ok :: "(stream_entry \<Rightarrow> bool) \<Rightarrow> u32 list \<Rightarrow> 'h inner \<Rightarrow> bool" where
  "queue_ok flag q s \<longleftrightarrow>
     distinct q \<and> (\<forall>sid \<in> set q. \<exists>e. entry_of sid s = Some e \<and> flag e \<and> \<not> e_finished e)"

definition queues_ok :: "'h inner \<Rightarrow> bool" where
  "queues_ok s \<longleftrightarrow>
     queue_ok e_is_pending_send (c_pending_send s) s
     \<and> queue_ok e_is_pending_capacity (c_pending_capacity s) s"

definition conn_send_ok :: "'h inner \<Rightarrow> bool" where
  "conn_send_ok s \<longleftrightarrow> send_flow_ok (c_conn_send s) \<and> 0 \<le> fc_window (c_conn_send s)"

text \<open>The receive ledger: what the connection window can still be credited for, wherever it is
  now: available, or held by data the application has not released.\<close>

definition unreleased :: "'h inner \<Rightarrow> nat" where
  "unreleased s = hm_sum e_recv_unreleased (c_streams s)"

definition recv_total :: "'h inner \<Rightarrow> int" where
  "recv_total s = fc_available (c_conn_recv s) + int (unreleased s)"

definition ledger_ok :: "'h inner \<Rightarrow> bool" where
  "ledger_ok s \<longleftrightarrow>
     fc_ok (c_conn_recv s) \<and> 0 \<le> fc_window (c_conn_recv s)
     \<and> fc_window (c_conn_recv s) \<le> fc_available (c_conn_recv s)
     \<and> recv_total s \<le> 2 ^ 31 - 1"

definition slots_held :: "'h inner \<Rightarrow> nat" where
  "slots_held s = hm_sum slot_weight (c_streams s)"

definition slots_ok :: "'h inner \<Rightarrow> bool" where
  "slots_ok s \<longleftrightarrow> slots_held s \<le> c_num_open_streams s \<and> c_num_open_streams s < 2 ^ 64"

text \<open>The peer's values in use: the encoder frames by the limit the state reads.\<close>

definition peer_ok :: "'h inner \<Rightarrow> bool" where
  "peer_ok s \<longleftrightarrow>
     ps_initial_window_size (c_peer s) < 2 ^ 31 \<and> enc_ok (c_encoder s)
     \<and> ps_max_frame_size (c_peer s) = enc_send_max_frame_size (c_encoder s)"

definition conn_ok :: "'h inner \<Rightarrow> bool" where
  "conn_ok s \<longleftrightarrow> store_ok s \<and> queues_ok s \<and> conn_send_ok s \<and> ledger_ok s \<and> slots_ok s \<and> peer_ok s"

lemmas conn_ok_defs = conn_ok_def store_ok_def queues_ok_def queue_ok_def conn_send_ok_def
  ledger_ok_def slots_ok_def peer_ok_def recv_total_def unreleased_def slots_held_def

lemma entry_of_frame [simp]:
  "entry_of sid (s\<lparr>c_encoder := x_encoder\<rparr>) = entry_of sid s"
  "entry_of sid (s\<lparr>c_pending := x_pending\<rparr>) = entry_of sid s"
  "entry_of sid (s\<lparr>c_spare := x_spare\<rparr>) = entry_of sid s"
  "entry_of sid (s\<lparr>c_stop := x_stop\<rparr>) = entry_of sid s"
  "entry_of sid (s\<lparr>c_credit := x_credit\<rparr>) = entry_of sid s"
  "entry_of sid (s\<lparr>c_inflight_credit := x_inflight_credit\<rparr>) = entry_of sid s"
  "entry_of sid (s\<lparr>c_read_handle := x_read_handle\<rparr>) = entry_of sid s"
  "entry_of sid (s\<lparr>c_pump_handle := x_pump_handle\<rparr>) = entry_of sid s"
  "entry_of sid (s\<lparr>c_writers := x_writers\<rparr>) = entry_of sid s"
  "entry_of sid (s\<lparr>c_draining := x_draining\<rparr>) = entry_of sid s"
  "entry_of sid (s\<lparr>c_reset_streams := x_reset_streams\<rparr>) = entry_of sid s"
  "entry_of sid (s\<lparr>c_reset_stream_max := x_reset_stream_max\<rparr>) = entry_of sid s"
  "entry_of sid (s\<lparr>c_reset_stream_duration := x_reset_stream_duration\<rparr>) = entry_of sid s"
  "entry_of sid (s\<lparr>c_peer := x_peer\<rparr>) = entry_of sid s"
  "entry_of sid (s\<lparr>c_settings := x_settings\<rparr>) = entry_of sid s"
  "entry_of sid (s\<lparr>c_recv_init := x_recv_init\<rparr>) = entry_of sid s"
  "entry_of sid (s\<lparr>c_burst_frames := x_burst_frames\<rparr>) = entry_of sid s"
  "entry_of sid (s\<lparr>c_conn_recv_target := x_conn_recv_target\<rparr>) = entry_of sid s"
  "entry_of sid (s\<lparr>c_max_send_buf_size := x_max_send_buf_size\<rparr>) = entry_of sid s"
  "entry_of sid (s\<lparr>c_goaway := x_goaway\<rparr>) = entry_of sid s"
  "entry_of sid (s\<lparr>c_goaway_last_id := x_goaway_last_id\<rparr>) = entry_of sid s"
  "entry_of sid (s\<lparr>c_goaway_replied := x_goaway_replied\<rparr>) = entry_of sid s"
  "entry_of sid (s\<lparr>c_error := x_error\<rparr>) = entry_of sid s"
  "entry_of sid (s\<lparr>c_local_error_resets := x_local_error_resets\<rparr>) = entry_of sid s"
  "entry_of sid (s\<lparr>c_max_local_error_resets := x_max_local_error_resets\<rparr>) = entry_of sid s"
  "entry_of sid (s\<lparr>c_data_budget := x_data_budget\<rparr>) = entry_of sid s"
  "entry_of sid (s\<lparr>c_next_id := x_next_id\<rparr>) = entry_of sid s"
  "entry_of sid (s\<lparr>c_stream_limit := x_stream_limit\<rparr>) = entry_of sid s"
  "entry_of sid (s\<lparr>c_last_recv_id := x_last_recv_id\<rparr>) = entry_of sid s"
  "entry_of sid (s\<lparr>c_last_processed_id := x_last_processed_id\<rparr>) = entry_of sid s"
  "entry_of sid (s\<lparr>c_max_concurrent := x_max_concurrent\<rparr>) = entry_of sid s"
  "entry_of sid (s\<lparr>c_max_pending_accept_reset := x_max_pending_accept_reset\<rparr>) = entry_of sid s"
  "entry_of sid (s\<lparr>c_graceful := x_graceful\<rparr>) = entry_of sid s"
  "entry_of sid (s\<lparr>c_max_stream_id := x_max_stream_id\<rparr>) = entry_of sid s"
  "entry_of sid (s\<lparr>c_shutdown_final := x_shutdown_final\<rparr>) = entry_of sid s"
  "entry_of sid (s\<lparr>c_pending_accept := x_pending_accept\<rparr>) = entry_of sid s"
  "entry_of sid (s\<lparr>c_remote_reset_pending := x_remote_reset_pending\<rparr>) = entry_of sid s"
  "entry_of sid (s\<lparr>c_auto_date := x_auto_date\<rparr>) = entry_of sid s"
  "entry_of sid (s\<lparr>c_role := x_role\<rparr>) = entry_of sid s"
  "entry_of sid (s\<lparr>c_num_active := x_num_active\<rparr>) = entry_of sid s"
  "entry_of sid (s\<lparr>c_conn_send := x_conn_send\<rparr>) = entry_of sid s"
  "entry_of sid (s\<lparr>c_pending_send := x_pending_send\<rparr>) = entry_of sid s"
  "entry_of sid (s\<lparr>c_pending_capacity := x_pending_capacity\<rparr>) = entry_of sid s"
  "entry_of sid (s\<lparr>c_conn_recv := x_conn_recv\<rparr>) = entry_of sid s"
  "entry_of sid (s\<lparr>c_num_open_streams := x_num_open_streams\<rparr>) = entry_of sid s"
  by (simp_all add: entry_of_def)

lemma peer_ok_frame [simp]:
  "peer_ok (s\<lparr>c_streams := a1\<rparr>) = peer_ok s"
  "peer_ok (s\<lparr>c_num_active := a2\<rparr>) = peer_ok s"
  "peer_ok (s\<lparr>c_num_open_streams := a3\<rparr>) = peer_ok s"
  "peer_ok (s\<lparr>c_pending_send := a4\<rparr>) = peer_ok s"
  "peer_ok (s\<lparr>c_pending_capacity := a5\<rparr>) = peer_ok s"
  "peer_ok (s\<lparr>c_conn_send := a6\<rparr>) = peer_ok s"
  "peer_ok (s\<lparr>c_conn_recv := a7\<rparr>) = peer_ok s"
  by (simp_all add: peer_ok_def)

text \<open>The fields the invariant does not read.\<close>

lemma conn_ok_frame [simp]:
  "conn_ok (s\<lparr>c_pending := x_pending\<rparr>) = conn_ok s"
  "conn_ok (s\<lparr>c_spare := x_spare\<rparr>) = conn_ok s"
  "conn_ok (s\<lparr>c_stop := x_stop\<rparr>) = conn_ok s"
  "conn_ok (s\<lparr>c_credit := x_credit\<rparr>) = conn_ok s"
  "conn_ok (s\<lparr>c_inflight_credit := x_inflight_credit\<rparr>) = conn_ok s"
  "conn_ok (s\<lparr>c_read_handle := x_read_handle\<rparr>) = conn_ok s"
  "conn_ok (s\<lparr>c_pump_handle := x_pump_handle\<rparr>) = conn_ok s"
  "conn_ok (s\<lparr>c_writers := x_writers\<rparr>) = conn_ok s"
  "conn_ok (s\<lparr>c_draining := x_draining\<rparr>) = conn_ok s"
  "conn_ok (s\<lparr>c_reset_streams := x_reset_streams\<rparr>) = conn_ok s"
  "conn_ok (s\<lparr>c_reset_stream_max := x_reset_stream_max\<rparr>) = conn_ok s"
  "conn_ok (s\<lparr>c_reset_stream_duration := x_reset_stream_duration\<rparr>) = conn_ok s"
  "conn_ok (s\<lparr>c_settings := x_settings\<rparr>) = conn_ok s"
  "conn_ok (s\<lparr>c_recv_init := x_recv_init\<rparr>) = conn_ok s"
  "conn_ok (s\<lparr>c_burst_frames := x_burst_frames\<rparr>) = conn_ok s"
  "conn_ok (s\<lparr>c_conn_recv_target := x_conn_recv_target\<rparr>) = conn_ok s"
  "conn_ok (s\<lparr>c_max_send_buf_size := x_max_send_buf_size\<rparr>) = conn_ok s"
  "conn_ok (s\<lparr>c_goaway := x_goaway\<rparr>) = conn_ok s"
  "conn_ok (s\<lparr>c_goaway_last_id := x_goaway_last_id\<rparr>) = conn_ok s"
  "conn_ok (s\<lparr>c_goaway_replied := x_goaway_replied\<rparr>) = conn_ok s"
  "conn_ok (s\<lparr>c_error := x_error\<rparr>) = conn_ok s"
  "conn_ok (s\<lparr>c_local_error_resets := x_local_error_resets\<rparr>) = conn_ok s"
  "conn_ok (s\<lparr>c_max_local_error_resets := x_max_local_error_resets\<rparr>) = conn_ok s"
  "conn_ok (s\<lparr>c_data_budget := x_data_budget\<rparr>) = conn_ok s"
  "conn_ok (s\<lparr>c_next_id := x_next_id\<rparr>) = conn_ok s"
  "conn_ok (s\<lparr>c_stream_limit := x_stream_limit\<rparr>) = conn_ok s"
  "conn_ok (s\<lparr>c_last_recv_id := x_last_recv_id\<rparr>) = conn_ok s"
  "conn_ok (s\<lparr>c_last_processed_id := x_last_processed_id\<rparr>) = conn_ok s"
  "conn_ok (s\<lparr>c_max_concurrent := x_max_concurrent\<rparr>) = conn_ok s"
  "conn_ok (s\<lparr>c_max_pending_accept_reset := x_max_pending_accept_reset\<rparr>) = conn_ok s"
  "conn_ok (s\<lparr>c_graceful := x_graceful\<rparr>) = conn_ok s"
  "conn_ok (s\<lparr>c_max_stream_id := x_max_stream_id\<rparr>) = conn_ok s"
  "conn_ok (s\<lparr>c_shutdown_final := x_shutdown_final\<rparr>) = conn_ok s"
  "conn_ok (s\<lparr>c_pending_accept := x_pending_accept\<rparr>) = conn_ok s"
  "conn_ok (s\<lparr>c_remote_reset_pending := x_remote_reset_pending\<rparr>) = conn_ok s"
  "conn_ok (s\<lparr>c_auto_date := x_auto_date\<rparr>) = conn_ok s"
  "conn_ok (s\<lparr>c_role := x_role\<rparr>) = conn_ok s"
  by (simp_all add: conn_ok_defs)

lemma conn_ok_push [simp]: "conn_ok (push out s) = conn_ok s"
  by (simp add: push_def)

lemma entry_of_push [simp]: "entry_of sid (push out s) = entry_of sid s"
  by (simp add: push_def)

lemma entry_of_upd [simp]:
  "entry_of j (upd_entry sid f s) = (if j = sid then map_option f (entry_of sid s) else entry_of j s)"
  by (auto simp: upd_entry_def entry_of_def split: option.splits)

lemma entry_of_drop [simp]:
  "entry_of j (drop_entry sid s) = (if j = sid then None else entry_of j s)"
  by (simp add: drop_entry_def entry_of_def)

lemma upd_entry_Some:
  "entry_of sid s = Some e \<Longrightarrow> upd_entry sid f s = s\<lparr>c_streams := hm_put (c_streams s) sid (f e)\<rparr>"
  by (simp add: upd_entry_def)

lemma upd_entry_None [simp]: "entry_of sid s = None \<Longrightarrow> upd_entry sid f s = s"
  by (simp add: upd_entry_def)

lemma entry_streams: "entry_of sid s = Some e \<Longrightarrow> hm_get (c_streams s) sid = Some e"
  by (simp add: entry_of_def)

text \<open>The number of streams is bounded by the identifiers there are.\<close>

lemma store_small:
  assumes "store_ok s"
  shows "length (c_streams s) < 2 ^ 31"
proof -
  have "set (hm_keys (c_streams s)) \<subseteq> {1..<2 ^ 31}"
  proof
    fix k assume "k \<in> set (hm_keys (c_streams s))"
    then obtain e where "entry_of k s = Some e"
      by (metis entry_of_def hm_get_None_iff option.exhaust)
    then have "entry_ok k e" using assms by (simp add: store_ok_def)
    then show "k \<in> {1..<2 ^ 31}" by (auto simp: entry_ok_def)
  qed
  then have "card (set (hm_keys (c_streams s))) \<le> card {1..<(2 :: nat) ^ 31}"
    by (intro card_mono) auto
  moreover have "card (set (hm_keys (c_streams s))) = length (c_streams s)"
    using assms distinct_card [of "hm_keys (c_streams s)"]
    by (simp add: store_ok_def hm_ok_def hm_keys_def)
  ultimately show ?thesis by simp
qed

lemma hm_sum_le_length: "(\<And>v. f v \<le> 1) \<Longrightarrow> hm_sum f m \<le> length m"
proof (induction m)
  case (Cons x m)
  then show ?case using add_mono [of "f (snd x)" 1 "hm_sum f m" "length m"] by (cases x) simp
qed simp

lemma num_active_small:
  assumes "store_ok s"
  shows "c_num_active s < 2 ^ 31"
proof -
  have "hm_sum active_weight (c_streams s) \<le> length (c_streams s)"
    by (rule hm_sum_le_length) (simp add: active_weight_def)
  with assms store_small [OF assms] show ?thesis by (simp add: store_ok_def)
qed

subsection \<open>Writing one entry\<close>

lemma conn_ok_entry: "conn_ok s \<Longrightarrow> entry_of sid s = Some e \<Longrightarrow> entry_ok sid e"
  by (simp add: conn_ok_def store_ok_def)

text \<open>Two entries that count the same in the store and stand in the same queues.\<close>

definition same_place :: "stream_entry \<Rightarrow> stream_entry \<Rightarrow> bool" where
  "same_place e e' \<longleftrightarrow>
     e_finished e' = e_finished e \<and> e_holds_slot e' = e_holds_slot e
     \<and> e_is_pending_send e' = e_is_pending_send e
     \<and> e_is_pending_capacity e' = e_is_pending_capacity e"

lemma hm_sum_same:
  "hm_get m k = Some e \<Longrightarrow> f e' = f e \<Longrightarrow> hm_sum f (hm_put m k e') = hm_sum f m"
  by (rule hm.total_update_same)

lemma queue_ok_put:
  assumes "queue_ok flag q s" and "entry_of sid s = Some e"
    and "sid \<in> set q \<Longrightarrow> flag e \<Longrightarrow> \<not> e_finished e \<Longrightarrow> flag e' \<and> \<not> e_finished e'"
  shows "queue_ok flag q (s\<lparr>c_streams := hm_put (c_streams s) sid e'\<rparr>)"
proof -
  have "\<exists>x. entry_of j (s\<lparr>c_streams := hm_put (c_streams s) sid e'\<rparr>) = Some x
      \<and> flag x \<and> \<not> e_finished x" if "j \<in> set q" for j
  proof (cases "j = sid")
    case True
    then have "flag e \<and> \<not> e_finished e"
      using assms(1,2) that by (auto simp: queue_ok_def)
    then show ?thesis using assms(3) that True by (simp add: entry_of_def)
  next
    case False
    then show ?thesis using assms(1) that by (auto simp: queue_ok_def entry_of_def)
  qed
  then show ?thesis using assms(1) by (simp add: queue_ok_def)
qed

lemma unreleased_put:
  "entry_of sid s = Some e \<Longrightarrow>
   unreleased (s\<lparr>c_streams := hm_put (c_streams s) sid e'\<rparr>) + e_recv_unreleased e
     = unreleased s + e_recv_unreleased e'"
  using hm.total_put_Some [of "c_streams s" sid e e_recv_unreleased e']
  by (simp add: unreleased_def entry_of_def)

lemma conn_ok_put:
  assumes ok: "conn_ok s" and e: "entry_of sid s = Some e" and e': "entry_ok sid e'"
    and place: "same_place e e'"
    and ledger: "recv_total s + int (e_recv_unreleased e') \<le> 2 ^ 31 - 1 + int (e_recv_unreleased e)"
  shows "conn_ok (s\<lparr>c_streams := hm_put (c_streams s) sid e'\<rparr>)" (is "conn_ok ?s")
proof -
  have get: "hm_get (c_streams s) sid = Some e" using e by (simp add: entry_of_def)
  have "store_ok ?s"
    using ok e' place hm_sum_same [OF get, of active_weight e']
    by (auto simp: conn_ok_def store_ok_def entry_of_def same_place_def active_weight_def)
  moreover have "queues_ok ?s"
    using ok place queue_ok_put [OF _ e, of e_is_pending_send "c_pending_send s" e']
      queue_ok_put [OF _ e, of e_is_pending_capacity "c_pending_capacity s" e']
    by (simp add: conn_ok_def queues_ok_def same_place_def)
  moreover have "conn_send_ok ?s" using ok by (simp add: conn_ok_def conn_send_ok_def)
  moreover have "ledger_ok ?s"
    using ok ledger unreleased_put [OF e, of e']
    by (simp add: conn_ok_def ledger_ok_def recv_total_def)
  moreover have "slots_ok ?s"
    using ok place hm_sum_same [OF get, of slot_weight e']
    by (simp add: conn_ok_def slots_ok_def slots_held_def same_place_def slot_weight_def)
  ultimately show ?thesis using ok by (simp add: conn_ok_def)
qed

text \<open>The common case: the ledger does not move.\<close>

lemma conn_ok_ledger: "conn_ok s \<Longrightarrow> recv_total s \<le> 2 ^ 31 - 1"
  by (simp add: conn_ok_def ledger_ok_def)

lemma conn_ok_upd:
  assumes "conn_ok s" and "\<And>e. entry_of sid s = Some e \<Longrightarrow> entry_ok sid e \<Longrightarrow>
      entry_ok sid (f e) \<and> same_place e (f e) \<and> e_recv_unreleased (f e) \<le> e_recv_unreleased e"
  shows "conn_ok (upd_entry sid f s)"
proof (cases "entry_of sid s")
  case None
  then show ?thesis using assms(1) by simp
next
  case (Some e)
  from assms(2) [OF Some conn_ok_entry [OF assms(1) Some]] show ?thesis
    using conn_ok_put [OF assms(1) Some, of "f e"] conn_ok_ledger [OF assms(1)]
    by (simp add: upd_entry_Some [OF Some])
qed

lemma recv_total_upd [simp]:
  "(\<And>e. entry_of sid s = Some e \<Longrightarrow> e_recv_unreleased (f e) = e_recv_unreleased e) \<Longrightarrow>
   recv_total (upd_entry sid f s) = recv_total s"
  by (cases "entry_of sid s")
    (auto simp: upd_entry_Some recv_total_def unreleased_def hm_sum_same entry_streams)

text \<open>Entries changed in their state, windows or counters only.\<close>

lemma same_place_fields [simp]:
  "same_place e (e\<lparr>e_state := a1\<rparr>)" "same_place e (e\<lparr>e_send_flow := a2\<rparr>)"
  "same_place e (e\<lparr>e_recv_flow := a3\<rparr>)" "same_place e (e\<lparr>e_content_length := a4\<rparr>)"
  "same_place e (e\<lparr>e_recv_unreleased := a5\<rparr>)" "same_place e (e\<lparr>e_recv_reclaimed := a6\<rparr>)"
  "same_place e (e\<lparr>e_send_buffered := a7\<rparr>)" "same_place e (e\<lparr>e_data_budget_charged := a8\<rparr>)"
  "same_place e (e\<lparr>e_turn_frames := a9\<rparr>)" "same_place e e"
  by (simp_all add: same_place_def)

subsection \<open>Leaving the queues and closing\<close>

lemma hm_put_same [simp]: "hm_get m k = Some v \<Longrightarrow> hm_put m k v = m"
  by (induction m k rule: hm_get.induct) (auto split: if_splits)

lemma hm_put_put [simp]: "hm_put (hm_put m k v) k w = hm_put m k w"
  by (induction m k v rule: hm_put.induct) auto

lemma hm_del_put [simp]: "hm_del (hm_put m k v) k = hm_del m k"
  by (induction m k v rule: hm_put.induct) auto

lemma distinct_filter_front: "distinct (x # xs) \<Longrightarrow> filter (\<lambda>i. i \<noteq> x) (x # xs) = xs"
  by (induction xs) auto

lemma filter_notin: "x \<notin> set xs \<Longrightarrow> filter (\<lambda>i. i \<noteq> x) xs = xs"
  by (induction xs) auto

lemma leave_send_queue_fst:
  assumes "entry_of sid s = Some e" and "distinct (c_pending_send s)"
    and "sid \<in> set (c_pending_send s) \<Longrightarrow> e_is_pending_send e"
  shows "fst (leave_send_queue sid s) =
    s\<lparr>c_streams := hm_put (c_streams s) sid (e\<lparr>e_is_pending_send := False,
        e_turn_frames := (if e_is_pending_send e then 0 else e_turn_frames e)\<rparr>),
      c_pending_send := filter (\<lambda>i. i \<noteq> sid) (c_pending_send s)\<rparr>"
proof (cases "e_is_pending_send e")
  case False
  then have "sid \<notin> set (c_pending_send s)" using assms(3) by blast
  moreover have "e\<lparr>e_is_pending_send := False, e_turn_frames := e_turn_frames e\<rparr> = e"
    using False by (cases e) simp
  ultimately show ?thesis
    using False assms(1) by (simp add: leave_send_queue_def filter_notin entry_streams)
next
  case True
  note get = entry_streams [OF assms(1)]
  show ?thesis
  proof (cases "c_pending_send s")
    case Nil
    then show ?thesis
      using True by (simp add: leave_send_queue_def assms(1) upd_entry_Some [OF assms(1)])
  next
    case (Cons front rest)
    then have "front = sid \<Longrightarrow> filter (\<lambda>i. i \<noteq> sid) (front # rest) = rest"
      using assms(2) distinct_filter_front [of front rest] by simp
    then show ?thesis
      using True Cons
      by (simp add: leave_send_queue_def assms(1) upd_entry_Some [OF assms(1)] Let_def
          del: filter.simps)
  qed
qed

lemma leave_capacity_queue_fst:
  assumes "entry_of sid s = Some e" and "distinct (c_pending_capacity s)"
    and "sid \<in> set (c_pending_capacity s) \<Longrightarrow> e_is_pending_capacity e"
  shows "fst (leave_capacity_queue sid s) =
    s\<lparr>c_streams := hm_put (c_streams s) sid (e\<lparr>e_is_pending_capacity := False\<rparr>),
      c_pending_capacity := filter (\<lambda>i. i \<noteq> sid) (c_pending_capacity s)\<rparr>"
proof (cases "e_is_pending_capacity e")
  case False
  then have "sid \<notin> set (c_pending_capacity s)" using assms(3) by blast
  moreover have "e\<lparr>e_is_pending_capacity := False\<rparr> = e"
    using False by (cases e) simp
  ultimately show ?thesis
    using False assms(1) by (simp add: leave_capacity_queue_def filter_notin entry_streams)
next
  case True
  note get = entry_streams [OF assms(1)]
  show ?thesis
  proof (cases "c_pending_capacity s")
    case Nil
    then show ?thesis
      using True by (simp add: leave_capacity_queue_def assms(1) upd_entry_Some [OF assms(1)])
  next
    case (Cons front rest)
    then have "front = sid \<Longrightarrow> filter (\<lambda>i. i \<noteq> sid) (front # rest) = rest"
      using assms(2) distinct_filter_front [of front rest] by simp
    then show ?thesis
      using True Cons
      by (simp add: leave_capacity_queue_def assms(1) upd_entry_Some [OF assms(1)] Let_def
          del: filter.simps)
  qed
qed

lemma conn_ok_maybe_goaway_reply: "conn_ok s \<Longrightarrow> conn_ok (fst (maybe_goaway_reply s))"
  by (simp add: maybe_goaway_reply_def)

lemma conn_ok_on_stream_gone: "conn_ok s \<Longrightarrow> conn_ok (fst (on_stream_gone s))"
  using conn_ok_maybe_goaway_reply [of s]
  by (cases "maybe_goaway_reply s") (auto simp: on_stream_gone_def Let_def)

text \<open>What is left of a stream's entry once it is closed.\<close>

definition retired :: "stream_entry \<Rightarrow> stream_entry" where
  "retired e = e\<lparr>e_finished := True, e_holds_slot := False, e_is_pending_send := False,
     e_turn_frames := (if e_is_pending_send e then 0 else e_turn_frames e),
     e_is_pending_capacity := False\<rparr>"

definition closed_state :: "u32 \<Rightarrow> stream_entry \<Rightarrow> 'h inner \<Rightarrow> 'h inner" where
  "closed_state sid e s = s\<lparr>
     c_streams := (if owes_ledger e then hm_put (c_streams s) sid (retired e)
                   else hm_del (c_streams s) sid),
     c_num_active := usize_sub (c_num_active s) 1,
     c_num_open_streams := (if e_holds_slot e then usize_sub (c_num_open_streams s) 1
                            else c_num_open_streams s),
     c_pending_send := filter (\<lambda>i. i \<noteq> sid) (c_pending_send s),
     c_pending_capacity := filter (\<lambda>i. i \<noteq> sid) (c_pending_capacity s)\<rparr>"

lemma close_stream_fst:
  assumes "conn_ok s" and e: "entry_of sid s = Some e"
    and c: "is_closed (e_state e)" "\<not> e_finished e"
  shows "fst (close_stream sid s) = fst (on_stream_gone (closed_state sid e s))"
proof -
  have q: "distinct (c_pending_send s)" "distinct (c_pending_capacity s)"
    "sid \<in> set (c_pending_send s) \<Longrightarrow> e_is_pending_send e"
    "sid \<in> set (c_pending_capacity s) \<Longrightarrow> e_is_pending_capacity e"
    using assms(1) e by (auto simp: conn_ok_def queues_ok_def queue_ok_def)
  define e3 where "e3 = e\<lparr>e_finished := True, e_holds_slot := False\<rparr>"
  define s3 where "s3 = s\<lparr>c_streams := hm_put (c_streams s) sid e3,
      c_num_active := usize_sub (c_num_active s) 1,
      c_num_open_streams := (if e_holds_slot e then usize_sub (c_num_open_streams s) 1
                             else c_num_open_streams s)\<rparr>"
  have e3: "entry_of sid s3 = Some e3" by (simp add: s3_def entry_of_def)
  define s2 where "s2 = (upd_entry sid (\<lambda>e. e\<lparr>e_finished := True\<rparr>) s)
      \<lparr>c_num_active := usize_sub (c_num_active (upd_entry sid (\<lambda>e. e\<lparr>e_finished := True\<rparr>) s)) 1\<rparr>"
  have noslot: "\<not> e_holds_slot e \<Longrightarrow> e\<lparr>e_finished := True\<rparr> = e3"
    by (cases e) (simp add: e3_def)
  have pre: "(if e_holds_slot e
      then (upd_entry sid (\<lambda>e. e\<lparr>e_holds_slot := False\<rparr>)
              (s2\<lparr>c_num_open_streams := usize_sub (c_num_open_streams s2) 1\<rparr>), FLAG_SLOT_FREED)
      else (s2, 0)) = (s3, if e_holds_slot e then FLAG_SLOT_FREED else 0)"
  proof (cases "e_holds_slot e")
    case True
    then show ?thesis by (simp add: s2_def s3_def e3_def upd_entry_def entry_of_def entry_streams [OF e])
  next
    case False
    then show ?thesis using noslot by (simp add: s2_def s3_def upd_entry_Some [OF e])
  qed
  have flag3: "e_is_pending_send e3 = e_is_pending_send e"
    "e_is_pending_capacity e3 = e_is_pending_capacity e" "e_turn_frames e3 = e_turn_frames e"
    by (simp_all add: e3_def)
  have p3: "c_pending_send s3 = c_pending_send s" "c_pending_capacity s3 = c_pending_capacity s"
    by (simp_all add: s3_def)
  let ?s4 = "fst (leave_send_queue sid s3)"
  have s4: "?s4 = s3\<lparr>c_streams := hm_put (c_streams s3) sid (e3\<lparr>e_is_pending_send := False,
        e_turn_frames := (if e_is_pending_send e then 0 else e_turn_frames e)\<rparr>),
      c_pending_send := filter (\<lambda>i. i \<noteq> sid) (c_pending_send s)\<rparr>"
    using leave_send_queue_fst [OF e3] q flag3 by (simp add: p3)
  let ?s5 = "fst (leave_capacity_queue sid ?s4)"
  have s5: "?s5 = s3\<lparr>c_streams := hm_put (c_streams s3) sid (e3\<lparr>e_is_pending_send := False,
        e_turn_frames := (if e_is_pending_send e then 0 else e_turn_frames e),
        e_is_pending_capacity := False\<rparr>),
      c_pending_send := filter (\<lambda>i. i \<noteq> sid) (c_pending_send s),
      c_pending_capacity := filter (\<lambda>i. i \<noteq> sid) (c_pending_capacity s)\<rparr>"
    using leave_capacity_queue_fst [of sid ?s4] q flag3 by (simp add: s4 entry_of_def p3)
  have "(if owes_ledger e then ?s5 else drop_entry sid ?s5) = closed_state sid e s"
    unfolding s5
    by (simp add: closed_state_def retired_def drop_entry_def s3_def e3_def)
  moreover have "fst (close_stream sid s)
      = fst (on_stream_gone (if owes_ledger e then ?s5 else drop_entry sid ?s5))"
    unfolding close_stream_def e option.case Let_def s2_def [symmetric] pre
    using c by (simp add: split_beta)
  ultimately show ?thesis by simp
qed

lemma close_stream_other:
  "entry_of sid s = None \<or> (\<exists>e. entry_of sid s = Some e \<and> (\<not> is_closed (e_state e) \<or> e_finished e))
   \<Longrightarrow> close_stream sid s = (s, 0)"
  by (auto simp: close_stream_def)

lemma hm_sum_put_less:
  assumes "hm_get m k = Some e" and "f e' + d = f e"
  shows "hm_sum f (hm_put m k e') + d = hm_sum f m"
  using hm.total_put_Some [OF assms(1), of f e'] assms(2) by simp

lemma closed_state_sums:
  assumes "conn_ok s" and e: "entry_of sid s = Some e" and "\<not> e_finished e"
  shows "hm_sum active_weight (c_streams (closed_state sid e s)) + 1
         = hm_sum active_weight (c_streams s)"
    and "hm_sum slot_weight (c_streams (closed_state sid e s)) + slot_weight e
         = hm_sum slot_weight (c_streams s)"
    and "hm_sum e_recv_unreleased (c_streams (closed_state sid e s))
         = hm_sum e_recv_unreleased (c_streams s)"
proof -
  have get: "hm_get (c_streams s) sid = Some e" and ok: "hm_ok (c_streams s)"
    using e assms(1) by (simp_all add: entry_of_def conn_ok_def store_ok_def)
  note put = hm_sum_put_less [OF get] and del = hm.total_del_Some [OF ok get]
  show "hm_sum active_weight (c_streams (closed_state sid e s)) + 1
      = hm_sum active_weight (c_streams s)"
    using put [of active_weight "retired e" 1] del [of active_weight] assms(3)
    by (auto simp: closed_state_def retired_def active_weight_def)
  show "hm_sum slot_weight (c_streams (closed_state sid e s)) + slot_weight e
      = hm_sum slot_weight (c_streams s)"
    using put [of slot_weight "retired e" "slot_weight e"] del [of slot_weight]
    by (auto simp: closed_state_def retired_def slot_weight_def)
  show "hm_sum e_recv_unreleased (c_streams (closed_state sid e s))
      = hm_sum e_recv_unreleased (c_streams s)"
    using put [of e_recv_unreleased "retired e" 0] del [of e_recv_unreleased]
    by (auto simp: closed_state_def retired_def owes_ledger_def)
qed

lemma entry_of_closed_state:
  "entry_of j (closed_state sid e s) =
     (if j = sid then (if owes_ledger e then Some (retired e) else None) else entry_of j s)"
  by (simp add: closed_state_def entry_of_def)

lemma queue_ok_filter:
  assumes "queue_ok flag q s" and "\<And>j. j \<noteq> sid \<Longrightarrow> entry_of j s' = entry_of j s"
  shows "queue_ok flag (filter (\<lambda>i. i \<noteq> sid) q) s'"
  using assms by (auto simp: queue_ok_def)

lemma conn_ok_closed_state:
  assumes ok: "conn_ok s" and e: "entry_of sid s = Some e"
    and c: "is_closed (e_state e)" "\<not> e_finished e"
  shows "conn_ok (closed_state sid e s)" (is "conn_ok ?s")
proof -
  note sums = closed_state_sums [OF ok e c(2)]
  have entries: "entry_ok j x" if "entry_of j ?s = Some x" for j x
    using that conn_ok_entry [OF ok] conn_ok_entry [OF ok e] c
    by (auto simp: entry_of_closed_state entry_ok_def retired_def owes_ledger_def
        split: if_splits)
  have "store_ok ?s"
    using ok entries sums(1)
    by (auto simp: conn_ok_def store_ok_def closed_state_def)
  moreover have "queues_ok ?s"
    using ok queue_ok_filter [of e_is_pending_send "c_pending_send s" s sid ?s]
      queue_ok_filter [of e_is_pending_capacity "c_pending_capacity s" s sid ?s]
    by (simp add: conn_ok_def queues_ok_def entry_of_closed_state) (simp add: closed_state_def)
  moreover have "conn_send_ok ?s"
    using ok by (simp add: conn_ok_def conn_send_ok_def closed_state_def)
  moreover have "ledger_ok ?s"
    using ok sums(3)
    by (simp add: conn_ok_def ledger_ok_def recv_total_def unreleased_def)
      (simp add: closed_state_def)
  moreover have "slots_ok ?s"
  proof -
    have "c_num_open_streams ?s + slot_weight e = c_num_open_streams s"
      using ok sums(2)
      by (auto simp: conn_ok_def slots_ok_def slots_held_def slot_weight_def closed_state_def)
    then show ?thesis
      using ok sums(2) by (simp add: conn_ok_def slots_ok_def slots_held_def)
  qed
  moreover have "peer_ok ?s" using ok by (simp add: conn_ok_def closed_state_def)
  ultimately show ?thesis by (simp add: conn_ok_def)
qed

lemma conn_ok_close_stream:
  assumes "conn_ok s"
  shows "conn_ok (fst (close_stream sid s))"
proof (cases "\<exists>e. entry_of sid s = Some e \<and> is_closed (e_state e) \<and> \<not> e_finished e")
  case True
  then show ?thesis
    using close_stream_fst [OF assms] conn_ok_closed_state [OF assms]
      conn_ok_on_stream_gone by metis
next
  case False
  then have "close_stream sid s = (s, 0)"
    by (intro close_stream_other) (cases "entry_of sid s", auto)
  with assms show ?thesis by simp
qed

text \<open>What the end of a stream leaves alone.\<close>

lemma on_stream_gone_fields [simp]:
  "c_streams (fst (on_stream_gone s)) = c_streams s"
  "c_conn_recv (fst (on_stream_gone s)) = c_conn_recv s"
  "c_conn_send (fst (on_stream_gone s)) = c_conn_send s"
  "c_role (fst (on_stream_gone s)) = c_role s"
  "entry_of sid (fst (on_stream_gone s)) = entry_of sid s"
  "recv_total (fst (on_stream_gone s)) = recv_total s"
  by (auto simp: on_stream_gone_def maybe_goaway_reply_def push_def Let_def entry_of_def
      recv_total_def unreleased_def)

lemma recv_total_close_stream [simp]:
  assumes "conn_ok s"
  shows "recv_total (fst (close_stream sid s)) = recv_total s"
proof (cases "\<exists>e. entry_of sid s = Some e \<and> is_closed (e_state e) \<and> \<not> e_finished e")
  case True
  then obtain e where e: "entry_of sid s = Some e" "is_closed (e_state e)" "\<not> e_finished e" by blast
  have "recv_total (closed_state sid e s) = recv_total s"
    using closed_state_sums(3) [OF assms e(1,3)]
    by (simp add: recv_total_def unreleased_def) (simp add: closed_state_def)
  then show ?thesis using close_stream_fst [OF assms e] by simp
next
  case False
  then have "close_stream sid s = (s, 0)"
    by (intro close_stream_other) (cases "entry_of sid s", auto)
  then show ?thesis by simp
qed

subsection \<open>The receive ledger\<close>

definition reclaim_flow :: "u32 \<Rightarrow> flow_control \<Rightarrow> flow_control" where
  "reclaim_flow n f =
     (let f1 = fst (fc_assign_capacity n f)
      in case fc_unclaimed_capacity f1 of None \<Rightarrow> f1 | Some u \<Rightarrow> fst (fc_inc_window u f1))"

definition reclaim_out :: "u32 \<Rightarrow> flow_control \<Rightarrow> bytes" where
  "reclaim_out n f =
     (case fc_unclaimed_capacity (fst (fc_assign_capacity n f)) of
        None \<Rightarrow> [] | Some u \<Rightarrow> encode_window_update 0 u)"

lemma reclaim_conn_eq:
  "reclaim_conn n s = (if n = 0 then s
     else push (reclaim_out n (c_conn_recv s))
            (s\<lparr>c_conn_recv := reclaim_flow n (c_conn_recv s)\<rparr>))"
  by (auto simp: reclaim_conn_def reclaim_flow_def reclaim_out_def push_def Let_def
      split: option.splits)

text \<open>The credit arrives in full, and the window is brought up to it when it is offered.\<close>

lemma reclaim_flow_ok:
  assumes f: "fc_ok f" "0 \<le> fc_window f" "fc_window f \<le> fc_available f"
    and n: "fc_available f + int n \<le> 2 ^ 31 - 1"
  shows "fc_ok (reclaim_flow n f)"
    and "fc_available (reclaim_flow n f) = fc_available f + int n"
    and "fc_window f \<le> fc_window (reclaim_flow n f)"
    and "fc_window (reclaim_flow n f) \<le> fc_available (reclaim_flow n f)"
proof -
  let ?f1 = "f\<lparr>fc_available := fc_available f + int n\<rparr>"
  have n31: "n < 2 ^ 31" using n f(2,3) by simp
  have f1: "fst (fc_assign_capacity n f) = ?f1"
    using fc_assign_capacity_ok [OF n31 f(1)] n by simp
  have ok1: "fc_ok ?f1" using f n by (auto simp: fc_ok_def in_i32_def)
  have "fc_ok (reclaim_flow n f) \<and> fc_available (reclaim_flow n f) = fc_available f + int n
      \<and> fc_window f \<le> fc_window (reclaim_flow n f)
      \<and> fc_window (reclaim_flow n f) \<le> fc_available (reclaim_flow n f)"
  proof (cases "fc_unclaimed_capacity ?f1")
    case None
    then show ?thesis using f ok1 by (simp add: reclaim_flow_def f1)
  next
    case (Some u)
    have "reclaim_flow n f = ?f1\<lparr>fc_window := fc_available ?f1\<rparr>"
      using fc_unclaimed_readvertise [OF ok1 _ Some] f(2) Some by (simp add: reclaim_flow_def f1)
    then show ?thesis using f n by (auto simp: fc_ok_def in_i32_def)
  qed
  then show "fc_ok (reclaim_flow n f)"
    and "fc_available (reclaim_flow n f) = fc_available f + int n"
    and "fc_window f \<le> fc_window (reclaim_flow n f)"
    and "fc_window (reclaim_flow n f) \<le> fc_available (reclaim_flow n f)" by blast+
qed

lemma recv_total_recv [simp]:
  "recv_total (s\<lparr>c_conn_recv := f\<rparr>) = fc_available f + int (unreleased s)"
  by (simp add: recv_total_def unreleased_def)

lemma recv_total_frame [simp]:
  "recv_total (s\<lparr>c_pending := a1\<rparr>) = recv_total s"
  "recv_total (s\<lparr>c_data_budget := a2\<rparr>) = recv_total s"
  "recv_total (s\<lparr>c_conn_send := a3\<rparr>) = recv_total s"
  "recv_total (s\<lparr>c_reset_streams := a4\<rparr>) = recv_total s"
  "recv_total (s\<lparr>c_pending_accept := a5\<rparr>) = recv_total s"
  "recv_total (s\<lparr>c_encoder := a6\<rparr>) = recv_total s"
  "recv_total (push out s) = recv_total s"
  by (simp_all add: recv_total_def unreleased_def push_def)

lemma conn_ok_recv:
  "conn_ok (s\<lparr>c_conn_recv := f\<rparr>) \<longleftrightarrow>
     store_ok s \<and> queues_ok s \<and> conn_send_ok s \<and> slots_ok s \<and> peer_ok s
     \<and> fc_ok f \<and> 0 \<le> fc_window f \<and> fc_window f \<le> fc_available f
     \<and> fc_available f + int (unreleased s) \<le> 2 ^ 31 - 1"
  by (auto simp: conn_ok_defs)

lemma reclaim_conn_ok:
  assumes ok: "conn_ok s" and n: "recv_total s + int n \<le> 2 ^ 31 - 1"
  shows "conn_ok (reclaim_conn n s)" and "recv_total (reclaim_conn n s) = recv_total s + int n"
proof -
  have l: "fc_ok (c_conn_recv s)" "0 \<le> fc_window (c_conn_recv s)"
    "fc_window (c_conn_recv s) \<le> fc_available (c_conn_recv s)"
    using ok by (simp_all add: conn_ok_def ledger_ok_def)
  have "fc_available (c_conn_recv s) + int n \<le> 2 ^ 31 - 1"
    using n by (simp add: recv_total_def)
  note r = reclaim_flow_ok [OF l this]
  show "conn_ok (reclaim_conn n s)"
    using ok r l n conn_ok_recv [where s = s and f = "reclaim_flow n (c_conn_recv s)"]
    by (simp add: reclaim_conn_eq conn_ok_def [of s] recv_total_def)
  show "recv_total (reclaim_conn n s) = recv_total s + int n"
    using r(2) by (simp add: reclaim_conn_eq) (simp add: recv_total_def)
qed

text \<open>Consuming window: refused without a trace, or both counters drop.\<close>

lemma consume_conn_recv_cases:
  assumes "conn_ok s" and "consume_conn_recv sz s = (s', r)" and "sz < 2 ^ 32"
  shows "(r = Inl (H2FlowControlError FLOW_CONTROL_ERROR) \<and> s' = s)
       \<or> (r = Inr () \<and> conn_ok s' \<and> recv_total s' + int sz = recv_total s
          \<and> (\<exists>f. s' = s\<lparr>c_conn_recv := f\<rparr>))"
proof -
  have l: "fc_ok (c_conn_recv s)" "0 \<le> fc_window (c_conn_recv s)"
    "fc_window (c_conn_recv s) \<le> fc_available (c_conn_recv s)" "recv_total s \<le> 2 ^ 31 - 1"
    using assms(1) by (simp_all add: conn_ok_def ledger_ok_def)
  obtain f q where fq: "fc_send_data sz (c_conn_recv s) = Some (f, q)"
    using fc_send_data_no_panic [OF l(1) assms(3)] by fastforce
  from fc_send_data_cases [OF fq l(1,3)] show ?thesis
  proof
    assume "q = Inl FLOW_CONTROL_ERROR \<and> f = c_conn_recv s \<and> fc_window_size (c_conn_recv s) < sz"
    then show ?thesis using assms(2) fq by (auto simp: consume_conn_recv_def map_reason_def)
  next
    assume a: "q = Inr () \<and> sz \<le> fc_window_size (c_conn_recv s)
      \<and> f = (c_conn_recv s)\<lparr>fc_window := fc_window (c_conn_recv s) - int sz,
                            fc_available := fc_available (c_conn_recv s) - int sz\<rparr>"
    then have "int sz \<le> fc_window (c_conn_recv s)"
      using l(1,2) by (auto simp: fc_window_size_eq)
    moreover have "fc_ok f" using a l calculation by (auto simp: fc_ok_def in_i32_def)
    ultimately have "conn_ok (s\<lparr>c_conn_recv := f\<rparr>)"
      using a l assms(1) by (simp add: conn_ok_recv conn_ok_def [of s] recv_total_def)
    moreover have "s' = s\<lparr>c_conn_recv := f\<rparr>" and "r = Inr ()"
      using a assms(2) fq by (simp_all add: consume_conn_recv_def)
    moreover have "recv_total (s\<lparr>c_conn_recv := f\<rparr>) + int sz = recv_total s"
      using a by simp (simp add: recv_total_def)
    ultimately show ?thesis by blast
  qed
qed


text \<open>The bulk return of a stream's unread bytes.\<close>

definition settled_state :: "u32 \<Rightarrow> stream_entry \<Rightarrow> 'h inner \<Rightarrow> 'h inner" where
  "settled_state sid e s = s\<lparr>
     c_streams := (if e_finished e then hm_del (c_streams s) sid
       else hm_put (c_streams s) sid
              (e\<lparr>e_data_budget_charged := 0, e_recv_unreleased := 0, e_recv_reclaimed := True\<rparr>)),
     c_data_budget := (if e_data_budget_charged e \<noteq> 0
       then dfc_release (e_data_budget_charged e) (c_data_budget s) else c_data_budget s)\<rparr>"

lemma drop_reclaim: "drop_entry sid (reclaim_conn n s) = reclaim_conn n (drop_entry sid s)"
  by (simp add: drop_entry_def reclaim_conn_eq push_def)

lemma entry_of_reclaim_conn [simp]: "entry_of j (reclaim_conn n s) = entry_of j s"
  by (simp add: reclaim_conn_eq)

lemma reclaim_stream_eq:
  assumes e: "entry_of sid s = Some e"
  shows "reclaim_stream_accounting sid s
         = reclaim_conn (e_recv_unreleased e) (settled_state sid e s)"
proof -
  note get = entry_streams [OF e]
  define b where "b = (if e_data_budget_charged e \<noteq> 0
      then dfc_release (e_data_budget_charged e) (c_data_budget s) else c_data_budget s)"
  define e2 where "e2 = e\<lparr>e_data_budget_charged := 0, e_recv_unreleased := 0,
      e_recv_reclaimed := True\<rparr>"
  define s3 where "s3 = s\<lparr>c_data_budget := b, c_streams := hm_put (c_streams s) sid e2\<rparr>"
  have "reclaim_stream_accounting sid s
      = maybe_remove_settled sid (reclaim_conn (e_recv_unreleased e) s3)"
  proof (cases "e_data_budget_charged e = 0")
    case True
    then have "e2 = e\<lparr>e_recv_unreleased := 0, e_recv_reclaimed := True\<rparr>"
      by (cases e) (simp add: e2_def)
    with True show ?thesis
      by (simp add: reclaim_stream_accounting_def e Let_def upd_entry_def entry_of_def get
          s3_def b_def)
  next
    case False
    then show ?thesis
      by (simp add: reclaim_stream_accounting_def e Let_def upd_entry_def entry_of_def get
          s3_def b_def e2_def)
  qed
  also have "\<dots> = reclaim_conn (e_recv_unreleased e) (settled_state sid e s)"
  proof -
    have "entry_of sid s3 = Some e2" by (simp add: s3_def entry_of_def)
    moreover have "\<not> owes_ledger e2" and "e_finished e2 = e_finished e"
      by (simp_all add: owes_ledger_def e2_def)
    moreover have "drop_entry sid s3 = settled_state sid e s" if "e_finished e"
      using that by (simp add: drop_entry_def s3_def settled_state_def b_def)
    moreover have "s3 = settled_state sid e s" if "\<not> e_finished e"
      using that by (simp add: s3_def settled_state_def b_def e2_def)
    ultimately show ?thesis
      by (simp add: maybe_remove_settled_def drop_reclaim)
  qed
  finally show ?thesis .
qed

text \<open>Dropping the entry of a closed stream.\<close>

lemma conn_ok_drop_finished:
  assumes ok: "conn_ok s" and e: "entry_of sid s = Some e" and fin: "e_finished e"
  shows "conn_ok (s\<lparr>c_streams := hm_del (c_streams s) sid\<rparr>)" (is "conn_ok ?s")
    and "unreleased (s\<lparr>c_streams := hm_del (c_streams s) sid\<rparr>) + e_recv_unreleased e = unreleased s"
proof -
  have get: "hm_get (c_streams s) sid = Some e" and hm: "hm_ok (c_streams s)"
    using e ok by (simp_all add: entry_of_def conn_ok_def store_ok_def)
  note del = hm.total_del_Some [OF hm get]
  have eok: "\<not> e_holds_slot e" using conn_ok_entry [OF ok e] fin by (simp add: entry_ok_def)
  show u: "unreleased ?s + e_recv_unreleased e = unreleased s"
    using del [of e_recv_unreleased] by (simp add: unreleased_def)
  have ent: "entry_of j ?s = (if j = sid then None else entry_of j s)" for j
    by (simp add: entry_of_def)
  have "store_ok ?s"
    using ok del [of active_weight] fin
    by (auto simp: conn_ok_def store_ok_def ent active_weight_def split: if_splits)
  moreover have "queues_ok ?s"
  proof -
    have "sid \<notin> set (c_pending_send s)" "sid \<notin> set (c_pending_capacity s)"
      using ok e fin by (auto simp: conn_ok_def queues_ok_def queue_ok_def)
    then show ?thesis using ok by (auto simp: conn_ok_def queues_ok_def queue_ok_def ent)
  qed
  moreover have "conn_send_ok ?s" using ok by (simp add: conn_ok_def conn_send_ok_def)
  moreover have "ledger_ok ?s" using ok u by (simp add: conn_ok_def ledger_ok_def recv_total_def)
  moreover have "slots_ok ?s"
    using ok del [of slot_weight] eok
    by (simp add: conn_ok_def slots_ok_def slots_held_def slot_weight_def)
  ultimately show "conn_ok ?s" using ok by (simp add: conn_ok_def)
qed

lemma settled_state_ok:
  assumes ok: "conn_ok s" and e: "entry_of sid s = Some e" and "recv_done (e_state e)"
  shows "conn_ok (settled_state sid e s)"
    and "recv_total (settled_state sid e s) + int (e_recv_unreleased e) = recv_total s"
proof -
  let ?e = "e\<lparr>e_data_budget_charged := 0, e_recv_unreleased := 0, e_recv_reclaimed := True\<rparr>"
  let ?s = "s\<lparr>c_streams := (if e_finished e then hm_del (c_streams s) sid
       else hm_put (c_streams s) sid ?e)\<rparr>"
  have r: "recv_total (settled_state sid e s) = recv_total ?s"
    and c: "conn_ok (settled_state sid e s) = conn_ok ?s"
    by (simp_all add: settled_state_def)
  have "entry_ok sid ?e" if "\<not> e_finished e"
    using conn_ok_entry [OF ok e] assms(3) that by (auto simp: entry_ok_def)
  moreover have "same_place e ?e" by (simp add: same_place_def)
  ultimately show "conn_ok (settled_state sid e s)"
    unfolding c
    using conn_ok_drop_finished(1) [OF ok e] conn_ok_put [OF ok e, of ?e] conn_ok_ledger [OF ok]
    by simp
  show "recv_total (settled_state sid e s) + int (e_recv_unreleased e) = recv_total s"
    unfolding r
    using conn_ok_drop_finished(2) [OF ok e] unreleased_put [OF e, of ?e]
    by (auto simp: recv_total_def)
qed

lemma reclaim_stream_ok:
  assumes ok: "conn_ok s" and "\<And>e. entry_of sid s = Some e \<Longrightarrow> recv_done (e_state e)"
  shows "conn_ok (reclaim_stream_accounting sid s)"
    and "recv_total (reclaim_stream_accounting sid s) = recv_total s"
proof -
  have "conn_ok (reclaim_stream_accounting sid s)
      \<and> recv_total (reclaim_stream_accounting sid s) = recv_total s"
  proof (cases "entry_of sid s")
    case None
    then show ?thesis using ok by (simp add: reclaim_stream_accounting_def)
  next
    case (Some e)
    note st = settled_state_ok [OF ok Some assms(2) [OF Some]]
    show ?thesis
      using reclaim_conn_ok [OF st(1), of "e_recv_unreleased e"] st(2) conn_ok_ledger [OF ok]
      by (simp add: reclaim_stream_eq [OF Some])
  qed
  then show "conn_ok (reclaim_stream_accounting sid s)"
    and "recv_total (reclaim_stream_accounting sid s) = recv_total s" by blast+
qed

lemma entry_of_reclaim_stream:
  "entry_of j (reclaim_stream_accounting sid s) =
     (if j = sid then
        (case entry_of sid s of
           Some e \<Rightarrow> if e_finished e then None
             else Some (e\<lparr>e_data_budget_charged := 0, e_recv_unreleased := 0,
                         e_recv_reclaimed := True\<rparr>)
         | None \<Rightarrow> None)
      else entry_of j s)"
proof (cases "entry_of sid s")
  case None
  then show ?thesis by (simp add: reclaim_stream_accounting_def)
next
  case (Some e)
  then show ?thesis
    by (simp add: reclaim_stream_eq) (simp add: settled_state_def entry_of_def)
qed

end
