(* ===== verification/Conn_Preserve.thy ===== *)
theory Conn_Preserve
  imports Conn_Invariant
begin

section \<open>Every operation keeps the invariant\<close>

text \<open>
  \<open>kept s s'\<close>: a step from \<open>s\<close> to \<open>s'\<close> keeps the invariant and the receive ledger's total. It
  is reflexive and transitive, so an operation that is a sequence of helpers is settled by its
  parts. The operations that break the ledger on purpose (a failing connection drops its streams)
  keep the invariant and can only lower the total.
\<close>

definition kept :: "'h inner \<Rightarrow> 'h inner \<Rightarrow> bool" where
  "kept s s' \<longleftrightarrow> (conn_ok s \<longrightarrow> conn_ok s' \<and> recv_total s' = recv_total s)"

lemma kept_refl [simp, intro]: "kept s s"
  by (simp add: kept_def)

lemma kept_trans [trans]: "kept s t \<Longrightarrow> kept t u \<Longrightarrow> kept s u"
  by (auto simp: kept_def)

lemma kept_conn_ok: "kept s s' \<Longrightarrow> conn_ok s \<Longrightarrow> conn_ok s'"
  by (simp add: kept_def)

lemma kept_frame [simp]:
  "kept s (push out s')  = kept s s'"
  "kept s (s'\<lparr>c_reset_streams := a1\<rparr>) = kept s s'"
  "kept s (s'\<lparr>c_pending_accept := a2\<rparr>) = kept s s'"
  "kept s (s'\<lparr>c_local_error_resets := a3\<rparr>) = kept s s'"
  "kept s (s'\<lparr>c_remote_reset_pending := a4\<rparr>) = kept s s'"
  "kept s (s'\<lparr>c_data_budget := a5\<rparr>) = kept s s'"
  "kept s (s'\<lparr>c_last_recv_id := a6\<rparr>) = kept s s'"
  "kept s (s'\<lparr>c_last_processed_id := a7\<rparr>) = kept s s'"
  "kept s (s'\<lparr>c_credit := a8\<rparr>) = kept s s'"
  "kept s (s'\<lparr>c_inflight_credit := a9\<rparr>) = kept s s'"
  "kept s (s'\<lparr>c_next_id := b1\<rparr>) = kept s s'"
  "kept s (s'\<lparr>c_settings := b2\<rparr>) = kept s s'"
  "kept s (s'\<lparr>c_recv_init := b3\<rparr>) = kept s s'"
  "kept s (s'\<lparr>c_shutdown_final := b4\<rparr>) = kept s s'"
  "kept s (s'\<lparr>c_max_stream_id := b5\<rparr>) = kept s s'"
  "kept s (s'\<lparr>c_graceful := b6\<rparr>) = kept s s'"
  "kept s (s'\<lparr>c_goaway := b7\<rparr>) = kept s s'"
  "kept s (s'\<lparr>c_goaway_last_id := b8\<rparr>) = kept s s'"
  "kept s (s'\<lparr>c_error := b9\<rparr>) = kept s s'"
  "kept s (s'\<lparr>c_stream_limit := d1\<rparr>) = kept s s'"
  "kept s (s'\<lparr>c_pending := d2\<rparr>) = kept s s'"
  "kept s (s'\<lparr>c_spare := d3\<rparr>) = kept s s'"
  "kept s (s'\<lparr>c_stop := d4\<rparr>) = kept s s'"
  "kept s (s'\<lparr>c_writers := d5\<rparr>) = kept s s'"
  "kept s (s'\<lparr>c_draining := d6\<rparr>) = kept s s'"
  "kept s (s'\<lparr>c_read_handle := d7\<rparr>) = kept s s'"
  "kept s (s'\<lparr>c_pump_handle := d8\<rparr>) = kept s s'"
  "kept s (s'\<lparr>c_goaway_replied := d9\<rparr>) = kept s s'"
  by (simp_all add: kept_def) (simp_all add: recv_total_def unreleased_def)

lemma kept_and_then:
  assumes "kept s (fst r)" and "\<And>s1 a. r = (s1, Inr a) \<Longrightarrow> kept s s1 \<Longrightarrow> kept s (fst (k s1 a))"
  shows "kept s (fst (and_then r k))"
  using assms by (cases r; cases "snd r") auto

subsection \<open>Helpers\<close>

lemma kept_close_stream [simp]: "kept s (fst (close_stream sid s))"
  by (simp add: kept_def conn_ok_close_stream)

lemma kept_close_stream_after: "kept s t \<Longrightarrow> kept s (fst (close_stream sid t))"
  by (rule kept_trans [OF _ kept_close_stream])

lemma kept_reclaim_stream:
  "(\<And>e. entry_of sid s = Some e \<Longrightarrow> recv_done (e_state e)) \<Longrightarrow>
   kept s (reclaim_stream_accounting sid s)"
  by (simp add: kept_def reclaim_stream_ok)

lemma kept_clear_expired [simp]: "kept s (clear_expired_reset_streams now s') = kept s s'"
  by (simp add: clear_expired_reset_streams_def)

lemma kept_enqueue_reset [simp]: "kept s (enqueue_reset_expiration now sid s') = kept s s'"
  by (simp add: enqueue_reset_expiration_def Let_def)

lemma upd_entry_const:
  "entry_of sid s = Some e \<Longrightarrow> upd_entry sid (\<lambda>_. f e) s = upd_entry sid f s"
  by (simp add: upd_entry_def)

text \<open>A write to one entry that keeps its place, its ledger and what its state promises.\<close>

definition entry_step :: "stream_entry \<Rightarrow> stream_entry \<Rightarrow> bool" where
  "entry_step e e' \<longleftrightarrow>
     same_place e e' \<and> e_recv_unreleased e' = e_recv_unreleased e
     \<and> (e_finished e \<longrightarrow> is_closed (e_state e') \<and> owes_ledger e')
     \<and> (e_recv_reclaimed e' \<longrightarrow> e_recv_reclaimed e \<and> recv_done (e_state e'))
     \<and> (send_flow_ok (e_send_flow e) \<longrightarrow> send_flow_ok (e_send_flow e'))
     \<and> (fc_ok (e_recv_flow e) \<longrightarrow> fc_ok (e_recv_flow e'))"

lemma entry_step_ok: "entry_step e e' \<Longrightarrow> entry_ok sid e \<Longrightarrow> entry_ok sid e'"
  by (auto simp: entry_step_def entry_ok_def same_place_def owes_ledger_def)

lemma kept_upd:
  assumes "\<And>e. entry_of sid s = Some e \<Longrightarrow> entry_ok sid e \<Longrightarrow> entry_step e (f e)"
  shows "kept s (upd_entry sid f s)"
  unfolding kept_def
proof
  assume ok: "conn_ok s"
  have step: "entry_step e (f e)" if "entry_of sid s = Some e" for e
    using assms [OF that conn_ok_entry [OF ok that]] .
  have "conn_ok (upd_entry sid f s)"
  proof (rule conn_ok_upd [OF ok])
    fix e assume a: "entry_of sid s = Some e" "entry_ok sid e"
    with entry_step_ok [OF step [OF a(1)]] step [OF a(1)]
    show "entry_ok sid (f e) \<and> same_place e (f e) \<and> e_recv_unreleased (f e) \<le> e_recv_unreleased e"
      by (simp add: entry_step_def)
  qed
  moreover have "recv_total (upd_entry sid f s) = recv_total s"
    using step by (intro recv_total_upd) (auto simp: entry_step_def)
  ultimately show "conn_ok (upd_entry sid f s) \<and> recv_total (upd_entry sid f s) = recv_total s" ..
qed

lemma entry_step_state:
  "(e_finished e \<longrightarrow> is_closed st) \<Longrightarrow> (e_recv_reclaimed e \<longrightarrow> recv_done st) \<Longrightarrow> entry_ok sid e \<Longrightarrow>
   entry_step e (e\<lparr>e_state := st\<rparr>)"
  by (auto simp: entry_step_def entry_ok_def owes_ledger_def)

lemma kept_set_state:
  assumes "\<And>e. entry_of sid s = Some e \<Longrightarrow> entry_ok sid e \<Longrightarrow>
      (e_finished e \<longrightarrow> is_closed st) \<and> (e_recv_reclaimed e \<longrightarrow> recv_done st)"
  shows "kept s (upd_entry sid (\<lambda>e. e\<lparr>e_state := st\<rparr>) s)"
proof (rule kept_upd)
  fix e assume a: "entry_of sid s = Some e" "entry_ok sid e"
  from assms [OF this] show "entry_step e (e\<lparr>e_state := st\<rparr>)"
    using entry_step_state [OF _ _ a(2)] by simp
qed

lemma kept_encoder:
  "kept s (s'\<lparr>c_encoder := fst (enc_encode_headers hp f (c_encoder s'))\<rparr>) = kept s s'"
proof -
  have "conn_ok (s'\<lparr>c_encoder := fst (enc_encode_headers hp f (c_encoder s'))\<rparr>) = conn_ok s'"
    by (simp add: conn_ok_defs)
      (simp add: enc_encode_headers_def split: prod.splits)
  then show ?thesis by (simp add: kept_def)
qed

lemma kept_queue_headers [simp]: "kept s (fst (queue_headers hp f s')) = kept s s'"
  using kept_encoder [where s = s and s' = s' and hp = hp and f = f]
  by (cases "enc_encode_headers hp f (c_encoder s')")
    (auto simp: queue_headers_def split: option.splits)

subsection \<open>Resets\<close>

lemma kept_reset_state:
  "kept s (upd_entry sid (\<lambda>e. e\<lparr>e_state := set_reset sid r i (g e)\<rparr>) s)"
proof (rule kept_upd)
  fix e assume "entry_of sid s = Some e" "entry_ok sid e"
  then show "entry_step e (e\<lparr>e_state := set_reset sid r i (g e)\<rparr>)"
    by (intro entry_step_state) auto
qed

lemma kept_reset_after:
  "kept s t \<Longrightarrow> kept s (upd_entry sid (\<lambda>e. e\<lparr>e_state := set_reset sid r i st\<rparr>) t)"
  by (rule kept_trans [OF _ kept_reset_state [where g = "\<lambda>_. st"]])

lemma inner_reset_stream_fst:
  assumes e: "entry_of sid s = Some e"
  shows "fst (inner_reset_stream now sid r i s) =
    (let t = upd_entry sid (\<lambda>e. if is_reset (e_state e) then e
               else e\<lparr>e_state := set_reset sid r i (e_state e)\<rparr>) s;
         u = reclaim_stream_accounting sid t;
         v = (if is_closed (e_state e) then u else push (encode_rst_stream sid r) u);
         w = fst (close_stream sid v)
     in if is_closed (e_state e) \<and> is_reset (e_state e) \<and> \<not> is_local_error (e_state e)
           \<or> is_closed (e_state e) \<and> \<not> is_reset (e_state e) \<and> i = Remote
        then w else enqueue_reset_expiration now sid w)"
proof -
  have nr: "\<not> is_closed (e_state e) \<Longrightarrow> \<not> is_reset (e_state e)" using reset_closed by blast
  show ?thesis
    using e nr
    by (auto simp: inner_reset_stream_def Let_def upd_entry_def entry_of_def split_beta)
qed

lemma kept_inner_reset_stream: "kept s (fst (inner_reset_stream now sid r i s))"
proof (cases "entry_of sid s")
  case None
  then show ?thesis by (simp add: inner_reset_stream_def)
next
  case (Some e)
  let ?t = "upd_entry sid (\<lambda>e. if is_reset (e_state e) then e
               else e\<lparr>e_state := set_reset sid r i (e_state e)\<rparr>) s"
  have "kept s ?t"
  proof (rule kept_upd)
    fix x assume x: "entry_of sid s = Some x" "entry_ok sid x"
    show "entry_step x (if is_reset (e_state x) then x
        else x\<lparr>e_state := set_reset sid r i (e_state x)\<rparr>)"
      using entry_step_state [of x "set_reset sid r i (e_state x)"]
        entry_step_state [of x "e_state x"] x(2)
      by (auto simp: entry_ok_def)
  qed
  moreover have "kept ?t (reclaim_stream_accounting sid ?t)"
    using Some by (intro kept_reclaim_stream) (auto simp: reset_closed split: if_splits)
  ultimately have "kept s (reclaim_stream_accounting sid ?t)" by (rule kept_trans)
  then show ?thesis
    by (simp add: inner_reset_stream_fst [OF Some] Let_def kept_close_stream_after)
qed

lemma kept_finish_stream: "kept s (fst (finish_stream now sid s))"
proof -
  let ?s1 = "fst (close_stream sid s)"
  have "kept ?s1 (reclaim_stream_accounting sid ?s1)"
    if "entry_of sid ?s1 = Some e" "is_closed (e_state e)" for e
    using that by (intro kept_reclaim_stream) simp
  then show ?thesis
    using kept_trans [OF kept_close_stream [of s sid]] kept_inner_reset_stream [of ?s1]
    by (auto simp: finish_stream_def split_beta split: role.splits option.splits)
qed

lemma kept_apply_content_length: "kept s (fst (apply_content_length sid f s))"
proof -
  have "kept s (upd_entry sid (\<lambda>e. e\<lparr>e_content_length := cl_set cl (e_content_length e)\<rparr>) s)" for cl
    by (rule kept_upd) (auto simp: entry_step_def entry_ok_def owes_ledger_def)
  then show ?thesis
    by (auto simp: apply_content_length_def Let_def split: option.splits)
qed

lemma kept_reject_oversize: "kept s (fst (reject_oversize_request hp now sid s))"
proof (cases "entry_of sid s")
  case None
  then show ?thesis by (simp add: reject_oversize_request_def)
next
  case (Some e)
  show ?thesis
  proof (cases "send_open True (e_state e)")
    case (Inl err)
    then show ?thesis using Some by (simp add: reject_oversize_request_def)
  next
    case (Inr st)
    have opn: "\<not> is_closed (e_state e)" using send_open_from_open [OF Inr] .
    let ?t = "upd_entry sid (\<lambda>e. e\<lparr>e_state := st\<rparr>) s"
    have t: "kept s ?t"
      using Some opn recv_done_send_open [OF Inr]
      by (intro kept_set_state) (auto simp: entry_ok_def)
    show ?thesis
      unfolding reject_oversize_request_def Let_def using Some Inr t
      by (auto simp: split_beta intro!: kept_and_then kept_close_stream_after kept_reset_after)
  qed
qed

lemma kept_H2Streams_reset_stream: "kept s (fst (H2Streams_reset_stream now sid r i s))"
  using kept_inner_reset_stream [of s now sid r]
  by (auto simp: H2Streams_reset_stream_def split_beta split: sum.splits)

lemma kept_reset_on_error: "kept s (fst (reset_on_error now sid r s))"
proof -
  let ?s = "s\<lparr>c_local_error_resets := usize_add (c_local_error_resets s) 1\<rparr>"
  have "kept s (fst (inner_reset_stream now sid r Library ?s))"
    using kept_trans [OF _ kept_inner_reset_stream [of ?s]] by simp
  then show ?thesis
    by (simp add: reset_on_error_def Let_def split_beta split: option.split)
qed

lemma kept_aclose_body: "kept s (fst (aclose_body now sid s))"
proof (cases "entry_of sid s")
  case (Some e)
  have "kept s (reclaim_stream_accounting sid s)" if "is_recv_end_stream (e_state e)"
    using that Some by (intro kept_reclaim_stream) (simp add: recv_done_def)
  then show ?thesis
    using Some kept_inner_reset_stream [of s now sid CANCEL User]
    by (auto simp: aclose_body_def split_beta intro: kept_close_stream_after)
qed (simp add: aclose_body_def)

end
