(* ===== verification/Conn_Preserve_Recv.thy ===== *)
theory Conn_Preserve_Recv
  imports Conn_Preserve
begin

section \<open>The receive side keeps the invariant\<close>

text \<open>
  Every operation of \<open>Conn_Recv\<close> keeps the invariant and the receive ledger's total. A DATA frame
  first takes its length off the ledger; on every branch the length comes back, as released window
  or as the stream's unreleased bytes. \<open>spent n s s'\<close> is the state in between.
\<close>

definition spent :: "nat \<Rightarrow> 'h inner \<Rightarrow> 'h inner \<Rightarrow> bool" where
  "spent n s s' \<longleftrightarrow> (conn_ok s \<longrightarrow> conn_ok s' \<and> recv_total s' + int n = recv_total s)"

lemma spent_0: "spent 0 = kept"
  by (simp add: spent_def kept_def fun_eq_iff)

lemma spent_kept: "spent n s t \<Longrightarrow> kept t u \<Longrightarrow> spent n s u"
  by (simp add: spent_def kept_def)

lemma kept_spent: "kept s t \<Longrightarrow> spent n t u \<Longrightarrow> spent n s u"
  by (simp add: spent_def kept_def)

lemma spent_conn_ok: "spent n s t \<Longrightarrow> conn_ok s \<Longrightarrow> conn_ok t"
  by (simp add: spent_def)

text \<open>What was spent comes back to the connection window.\<close>

lemma spent_reclaim: "spent n s t \<Longrightarrow> kept s (reclaim_conn n t)"
  using reclaim_conn_ok [of t n] conn_ok_ledger [of s] by (simp add: spent_def kept_def)

lemma spent_consume:
  assumes "consume_conn_recv sz s = (t, Inr u)" and "sz < 2 ^ 32"
  shows "spent sz s t" and "\<exists>f. t = s\<lparr>c_conn_recv := f\<rparr>"
  using consume_conn_recv_cases [OF _ assms] assms(1)
  by (auto simp: spent_def consume_conn_recv_def split: option.splits prod.splits)

lemma consume_refused:
  "consume_conn_recv sz s = (t, Inl e) \<Longrightarrow> sz < 2 ^ 32 \<Longrightarrow> kept s t"
  using consume_conn_recv_cases [of s sz t "Inl e"] by (auto simp: kept_def)

lemma kept_consume:
  assumes "sz < 2 ^ 32" and "\<And>t f. t = s\<lparr>c_conn_recv := f\<rparr> \<Longrightarrow> spent sz s t \<Longrightarrow> kept s (fst (k t ()))"
  shows "kept s (fst (and_then (consume_conn_recv sz s) k))"
proof (cases "consume_conn_recv sz s")
  case (Pair t r)
  then show ?thesis
    using assms spent_consume [of sz s t] consume_refused [of sz s t]
    by (cases r) auto
qed

subsection \<open>Putting a new entry\<close>

lemma conn_ok_insert:
  assumes ok: "conn_ok s" and none: "entry_of sid s = None" and e: "entry_ok sid e"
    and fresh: "\<not> e_finished e" "e_recv_unreleased e = 0"
    and slot: "slots_held s + slot_weight e \<le> c_num_open_streams s"
  shows "conn_ok (s\<lparr>c_streams := hm_put (c_streams s) sid e,
                    c_num_active := usize_add (c_num_active s) 1\<rparr>)" (is "conn_ok ?s")
    and "recv_total (s\<lparr>c_streams := hm_put (c_streams s) sid e,
                       c_num_active := usize_add (c_num_active s) 1\<rparr>) = recv_total s"
proof -
  have get: "hm_get (c_streams s) sid = None" using none by (simp add: entry_of_def)
  note put = hm.total_put_None [OF get]
  have ent: "entry_of j (s\<lparr>c_streams := hm_put (c_streams s) sid e\<rparr>) = (if j = sid then Some e else entry_of j s)" for j
    by (simp add: entry_of_def)
  show total: "recv_total ?s = recv_total s"
    using put [of e_recv_unreleased] fresh(2) by (simp add: recv_total_def unreleased_def)
  have "c_num_active s < 2 ^ 31" using num_active_small [of s] ok by (simp add: conn_ok_def)
  then have "store_ok ?s"
    using ok e fresh(1) put [of active_weight]
    by (auto simp: conn_ok_def store_ok_def ent active_weight_def)
  moreover have "queues_ok ?s"
    using ok none by (auto simp: conn_ok_def queues_ok_def queue_ok_def ent)
  moreover have "conn_send_ok ?s" using ok by (simp add: conn_ok_def conn_send_ok_def)
  moreover have "ledger_ok ?s" using ok total by (simp add: conn_ok_def ledger_ok_def)
  moreover have "slots_ok ?s"
    using ok slot put [of slot_weight] by (simp add: conn_ok_def slots_ok_def slots_held_def)
  ultimately show "conn_ok ?s" using ok by (simp add: conn_ok_def)
qed

lemma kept_insert:
  assumes "entry_of sid s = None" and "conn_ok s \<Longrightarrow> entry_ok sid e"
    and "\<not> e_finished e" and "e_recv_unreleased e = 0"
    and "conn_ok s \<Longrightarrow> slots_held s + slot_weight e \<le> c_num_open_streams s"
  shows "kept s (s\<lparr>c_streams := hm_put (c_streams s) sid e,
                    c_num_active := usize_add (c_num_active s) 1\<rparr>)"
  using conn_ok_insert [OF _ assms(1) _ assms(3,4)] assms(2,5) by (simp add: kept_def)

lemma flow_open_ok: "fc_ok (flow_open n)"
  by (simp add: flow_open_def fc_ok_assign fc_ok_inc)

lemma flow_open_send_ok: "n < 2 ^ 31 \<Longrightarrow> send_flow_ok (flow_open n)"
  using fc_inc_window_ok [of n fc_new] fc_assign_capacity_ok [of n "fc_new\<lparr>fc_window := int n\<rparr>"]
  by (simp add: flow_open_def send_flow_ok_def fc_new_def fc_ok_def in_i32_def)

lemma entry_ok_new:
  assumes "0 < sid" and "sid < 2 ^ 31" and "w < 2 ^ 31"
  shows "entry_ok sid ((entry_new h w r m)\<lparr>e_state := st\<rparr>)"
    and "entry_ok sid ((entry_new h w r m)\<lparr>e_holds_slot := b, e_state := st\<rparr>)"
  using assms flow_open_send_ok [of w] flow_open_ok [of r] by (simp_all add: entry_ok_def entry_new_def)

subsection \<open>HEADERS\<close>

lemma kept_not_finished:
  "conn_ok s \<Longrightarrow> entry_of sid s = Some e \<Longrightarrow> \<not> is_closed (e_state e) \<Longrightarrow> \<not> e_finished e"
  using conn_ok_entry [of s sid e] by (auto simp: entry_ok_def)

lemma kept_open_request:
  assumes none: "entry_of (he_stream_id f) s = None" and small: "he_stream_id f < 2 ^ 31"
  shows "kept s (fst (open_request hp now f spare before flags s))"
proof (cases "c_max_stream_id s < he_stream_id f \<or> \<not> is_client_initiated (he_stream_id f)
    \<or> he_stream_id f \<le> c_last_recv_id s \<or> c_max_concurrent s \<le> c_num_active s \<or> spare = None")
  case True
  then show ?thesis by (auto simp: open_request_def Let_def)
next
  case False
  then obtain h where h: "spare = Some h" by blast
  let ?sid = "he_stream_id f"
  have pos: "0 < ?sid" using False by (simp add: is_client_initiated_def)
  show ?thesis
  proof (cases "recv_open (he_end_stream f) False stream_default")
    case (Inl err)
    then show ?thesis using False h by (simp add: open_request_def Let_def)
  next
    case (Inr x)
    obtain st b where x: "x = (st, b)" by fastforce
    let ?e = "(entry_new h (ps_initial_window_size (c_peer s)) (c_recv_init s) False)\<lparr>e_state := st\<rparr>"
    let ?s1 = "s\<lparr>c_last_recv_id := ?sid\<rparr>"
    let ?s2 = "?s1\<lparr>c_streams := hm_put (c_streams ?s1) ?sid ?e,
                   c_num_active := usize_add (c_num_active ?s1) 1, c_last_processed_id := ?sid\<rparr>"
    have "entry_ok ?sid ?e" if "conn_ok s"
      using that entry_ok_new(1) pos small by (simp add: conn_ok_def peer_ok_def)
    moreover have "slots_held s \<le> c_num_open_streams s" if "conn_ok s"
      using that by (simp add: conn_ok_def slots_ok_def)
    ultimately have "kept ?s1 (?s1\<lparr>c_streams := hm_put (c_streams ?s1) ?sid ?e,
        c_num_active := usize_add (c_num_active ?s1) 1\<rparr>)"
      using none by (intro kept_insert) (simp_all add: entry_new_def slot_weight_def slots_held_def)
    then have "kept ?s1 ?s2" by simp
    then have s2: "kept s ?s2" by (rule kept_trans [rotated]) simp
    have "kept s (fst (and_then (apply_content_length ?sid f ?s2) k))"
      if "\<And>s3. kept s s3 \<Longrightarrow> kept s (fst (k s3 ()))"
      for k :: "'a inner \<Rightarrow> unit \<Rightarrow> 'a inner \<times> (pyerr + recv_headers_verdict)"
      using kept_trans [OF s2 kept_apply_content_length [of ?s2 ?sid f]] that
      by (intro kept_and_then) auto
    moreover have "kept s (fst (and_then (reject_oversize_request hp now ?sid s3) k))"
      if "kept s s3" and "\<And>s4 x. kept s s4 \<Longrightarrow> kept s (fst (k s4 x))"
      for s3 and k :: "'a inner \<Rightarrow> flags \<Rightarrow> 'a inner \<times> (pyerr + recv_headers_verdict)"
      using kept_trans [OF that(1) kept_reject_oversize] that(2) by (intro kept_and_then) auto
    ultimately show ?thesis
      using False h Inr x by (auto simp: open_request_def Let_def)
  qed
qed

lemma kept_recv_open:
  assumes "entry_of sid s = Some e" and "recv_open eos interim (e_state e) = Inr (st, b)"
  shows "kept s (upd_entry sid (\<lambda>e. e\<lparr>e_state := st\<rparr>) s)"
  using assms recv_open_from_open [OF assms(2)] recv_open_not_done [OF assms(2)]
  by (intro kept_set_state) (auto simp: entry_ok_def)

lemma kept_recv_close:
  assumes "entry_of sid s = Some e" and "recv_close (e_state e) = Inr st"
    and "\<not> is_closed (e_state e)"
  shows "kept s (upd_entry sid (\<lambda>e. e\<lparr>e_state := st\<rparr>) s)"
  using assms recv_done_recv_close [OF assms(2)]
  by (intro kept_set_state) (auto simp: entry_ok_def)

lemma kept_recv_head:
  assumes e: "entry_of (he_stream_id f) s = Some e"
  shows "kept s (fst (recv_head f e before s))"
proof (cases "recv_open (he_end_stream f) (he_is_informational f) (e_state e)")
  case (Inl err)
  then show ?thesis by (simp add: recv_head_def Let_def)
next
  case (Inr x)
  obtain st b where x: "x = (st, b)" by fastforce
  let ?s1 = "upd_entry (he_stream_id f) (\<lambda>e. e\<lparr>e_state := st\<rparr>) s"
  have "kept s ?s1" using kept_recv_open [OF e] Inr x by simp
  then have "kept s (fst (apply_content_length (he_stream_id f) f ?s1))"
    using kept_trans kept_apply_content_length by blast
  then show ?thesis
    using Inr x
    by (auto simp: recv_head_def Let_def split_beta intro!: kept_and_then kept_close_stream_after)
qed

lemma kept_recv_trailers:
  assumes e: "entry_of (he_stream_id f) s = Some e" and "\<not> is_closed (e_state e)"
  shows "kept s (fst (recv_trailers f e before s))"
  using kept_recv_close [OF e] assms(2)
  by (auto simp: recv_trailers_def Let_def split_beta intro!: kept_close_stream_after
      split: sum.split)

lemma kept_in_reset_store [simp]: "kept s (fst (in_reset_store now sid s))"
  by (auto simp: in_reset_store_def split: option.split)

lemma entry_of_in_reset_store [simp]:
  "entry_of j (fst (in_reset_store now sid s)) = entry_of j s"
  by (auto simp: in_reset_store_def split: option.split)

lemma kept_recv_headers_new:
  assumes "entry_of (he_stream_id f) s = None" and "he_stream_id f < 2 ^ 31"
  shows "kept s (fst (recv_headers_new hp now f spare before flags s))"
proof -
  let ?s1 = "fst (in_reset_store now (he_stream_id f) s)"
  have "kept s (fst (open_request hp now f spare before flags ?s1))"
    using kept_trans [OF kept_in_reset_store kept_open_request] assms by simp
  moreover have "kept s ?s1" by simp
  ultimately show ?thesis
    by (cases "in_reset_store now (he_stream_id f) s")
      (auto simp: recv_headers_new_def Let_def split: bool.split role.split sum.split)
qed

lemma kept_drop_closed_stored:
  assumes "entry_of sid s = Some e" and "is_closed (e_state e)"
  shows "kept s (fst (drop_closed_stored sid s))"
  using assms unfolding drop_closed_stored_def
  by (intro kept_close_stream_after kept_reclaim_stream) auto

text \<open>A dropped stream is forgotten.\<close>

lemma entry_of_close_stream:
  assumes "conn_ok s"
  shows "entry_of j (fst (close_stream sid s)) =
    (case entry_of sid s of
       Some e \<Rightarrow> if j = sid \<and> is_closed (e_state e) \<and> \<not> e_finished e
                 then (if owes_ledger e then Some (retired e) else None) else entry_of j s
     | None \<Rightarrow> entry_of j s)"
proof (cases "\<exists>e. entry_of sid s = Some e \<and> is_closed (e_state e) \<and> \<not> e_finished e")
  case True
  then obtain e where e: "entry_of sid s = Some e" "is_closed (e_state e)" "\<not> e_finished e" by blast
  then show ?thesis
    by (simp add: close_stream_fst [OF assms e] entry_of_closed_state)
next
  case False
  then have "close_stream sid s = (s, 0)"
    by (intro close_stream_other) (cases "entry_of sid s", auto)
  with False show ?thesis by (auto split: option.split)
qed

lemma drop_closed_stored_gone:
  assumes "conn_ok s" and "entry_of sid s = Some e" and "is_closed (e_state e)"
  shows "entry_of sid (fst (drop_closed_stored sid s)) = None"
proof -
  have "conn_ok (reclaim_stream_accounting sid s)"
    using reclaim_stream_ok(1) [OF assms(1), of sid] assms(2,3) by simp
  then show ?thesis
    using assms(2,3)
    by (auto simp: drop_closed_stored_def entry_of_close_stream entry_of_reclaim_stream
        owes_ledger_def)
qed

lemma kept_recv_headers:
  assumes "he_stream_id f < 2 ^ 31"
  shows "kept s (fst (recv_headers hp now f spare s))"
proof (cases "entry_of (he_stream_id f) s")
  case None
  then show ?thesis
    using kept_recv_headers_new [OF None assms] by (simp add: recv_headers_def Let_def)
next
  case (Some e)
  let ?d = "drop_closed_stored (he_stream_id f) s"
  have "kept s (fst (recv_headers_new hp now f spare before fl (fst ?d)))"
    if "is_closed (e_state e)" for before fl
    unfolding kept_def
  proof
    assume ok: "conn_ok s"
    have "kept s (fst ?d)" by (rule kept_drop_closed_stored [OF Some that])
    moreover have "kept (fst ?d) (fst (recv_headers_new hp now f spare before fl (fst ?d)))"
      using kept_recv_headers_new drop_closed_stored_gone [OF ok Some that] assms by blast
    ultimately show "conn_ok (fst (recv_headers_new hp now f spare before fl (fst ?d)))
        \<and> recv_total (fst (recv_headers_new hp now f spare before fl (fst ?d))) = recv_total s"
      using ok kept_trans by (auto simp: kept_def)
  qed
  then show ?thesis
    using Some kept_drop_closed_stored [OF Some] kept_recv_head [OF Some]
      kept_recv_trailers [OF Some]
    by (auto simp: recv_headers_def Let_def split_beta)
qed

subsection \<open>Returning capacity\<close>

text \<open>An entry that may be a finished one whose last debt has just been paid.\<close>

definition entry_settled :: "u32 \<Rightarrow> stream_entry \<Rightarrow> bool" where
  "entry_settled sid e \<longleftrightarrow> entry_ok sid e \<or> (e_finished e \<and> \<not> owes_ledger e)"

lemma spent_settle:
  assumes e: "entry_of sid s = Some e" and ok': "conn_ok s \<Longrightarrow> entry_settled sid e'"
    and place: "same_place e e'" and n: "e_recv_unreleased e' + n = e_recv_unreleased e"
  shows "spent n s (maybe_remove_settled sid (s\<lparr>c_streams := hm_put (c_streams s) sid e'\<rparr>))"
  unfolding spent_def
proof
  assume ok: "conn_ok s"
  let ?s = "s\<lparr>c_streams := hm_put (c_streams s) sid e'\<rparr>"
  have ent: "entry_of sid ?s = Some e'" by (simp add: entry_of_def)
  show "conn_ok (maybe_remove_settled sid ?s)
      \<and> recv_total (maybe_remove_settled sid ?s) + int n = recv_total s"
  proof (cases "e_finished e' \<and> \<not> owes_ledger e'")
    case True
    then have "e_finished e" and "n = e_recv_unreleased e"
      using place n by (simp_all add: same_place_def owes_ledger_def)
    moreover have "maybe_remove_settled sid ?s = s\<lparr>c_streams := hm_del (c_streams s) sid\<rparr>"
      using True ent by (simp add: maybe_remove_settled_def drop_entry_def)
    ultimately show ?thesis
      using conn_ok_drop_finished [OF ok e] by (simp add: recv_total_def)
  next
    case False
    then have "entry_ok sid e'" using ok' [OF ok] by (auto simp: entry_settled_def)
    moreover have "maybe_remove_settled sid ?s = ?s"
      using False ent by (auto simp: maybe_remove_settled_def)
    ultimately show ?thesis
      using conn_ok_put [OF ok e _ place] unreleased_put [OF e, of e'] n conn_ok_ledger [OF ok]
      by (simp add: recv_total_def)
  qed
qed

lemma maybe_remove_reclaim:
  "maybe_remove_settled sid (reclaim_conn n s) = reclaim_conn n (maybe_remove_settled sid s)"
  by (simp add: maybe_remove_settled_def drop_reclaim split: option.split)

lemma maybe_remove_push:
  "maybe_remove_settled sid (push out s) = push out (maybe_remove_settled sid s)"
  by (simp add: maybe_remove_settled_def drop_entry_def push_def entry_of_def split: option.split)

lemma reclaim_conn_push: "kept s (reclaim_conn n (push out t)) = kept s (reclaim_conn n t)"
proof -
  have "reclaim_conn n (push out t) = (reclaim_conn n t)\<lparr>c_pending := c_pending t @ out
      @ (if n = 0 then [] else reclaim_out n (c_conn_recv t))\<rparr>"
    by (simp add: reclaim_conn_eq push_def)
  then show ?thesis by (simp add: kept_def)
qed

text \<open>The entry after a release, and the WINDOW\_UPDATE it may have earned.\<close>

definition released :: "u32 \<Rightarrow> stream_entry \<Rightarrow> stream_entry" where
  "released n e =
     (let e1 = e\<lparr>e_recv_unreleased := saturating_sub (e_recv_unreleased e) n,
                 e_recv_flow := fst (fc_assign_capacity n (e_recv_flow e))\<rparr>
      in case fc_unclaimed_capacity (e_recv_flow e1) of
           Some u \<Rightarrow> if is_recv_end_stream (e_state e) then e1
                     else e1\<lparr>e_recv_flow := fst (fc_inc_window u (e_recv_flow e1))\<rparr>
         | None \<Rightarrow> e1)"

lemma release_inner_eq:
  assumes e: "entry_of sid s = Some e" and "\<not> e_recv_reclaimed e"
  shows "\<exists>out. release_capacity_inner sid n s =
    reclaim_conn n (push out (maybe_remove_settled sid
      (s\<lparr>c_streams := hm_put (c_streams s) sid (released n e)\<rparr>)))"
proof -
  let ?e1 = "e\<lparr>e_recv_unreleased := saturating_sub (e_recv_unreleased e) n,
               e_recv_flow := fst (fc_assign_capacity n (e_recv_flow e))\<rparr>"
  have e1: "entry_of sid (s\<lparr>c_streams := hm_put (c_streams s) sid ?e1\<rparr>) = Some ?e1"
    by (simp add: entry_of_def)
  define out where "out = (case fc_unclaimed_capacity (e_recv_flow ?e1) of
      Some u \<Rightarrow> if is_recv_end_stream (e_state e) then [] else encode_window_update sid u | None \<Rightarrow> [])"
  have push_nil: "push [] t = t" for t :: "'a inner" by (simp add: push_def)
  have "release_capacity_inner sid n s = maybe_remove_settled sid (reclaim_conn n
      (push out (s\<lparr>c_streams := hm_put (c_streams s) sid (released n e)\<rparr>)))"
    using assms e1
    by (cases "fc_unclaimed_capacity (e_recv_flow ?e1)")
      (auto simp: release_capacity_inner_def Let_def upd_entry_Some released_def out_def push_nil)
  then show ?thesis by (auto simp: maybe_remove_reclaim maybe_remove_push)
qed

lemma released_facts:
  assumes "entry_ok sid e" and "\<not> e_recv_reclaimed e" and "n \<le> e_recv_unreleased e"
  shows "entry_settled sid (released n e)" and "same_place e (released n e)"
    and "e_recv_unreleased (released n e) + n = e_recv_unreleased e"
proof -
  have "fc_ok (e_recv_flow (released n e))"
    using assms(1) by (auto simp: released_def Let_def entry_ok_def intro!: fc_ok_inc fc_ok_assign
        split: option.split)
  moreover have same: "e_state (released n e) = e_state e"
    "e_recv_reclaimed (released n e) = e_recv_reclaimed e"
    "e_send_flow (released n e) = e_send_flow e" "same_place e (released n e)"
    by (auto simp: released_def Let_def same_place_def split: option.split)
  ultimately show "entry_settled sid (released n e)"
    using assms(1,2) by (auto simp: entry_settled_def entry_ok_def same_place_def)
  show "same_place e (released n e)" by (rule same(4))
  show "e_recv_unreleased (released n e) + n = e_recv_unreleased e"
    using assms(3) by (simp add: released_def Let_def saturating_sub_def split: option.split)
qed

text \<open>The application may release what it was given and no more.\<close>

definition may_release :: "u32 \<Rightarrow> u32 \<Rightarrow> 'h inner \<Rightarrow> bool" where
  "may_release sid n s \<longleftrightarrow>
     (\<forall>e. entry_of sid s = Some e \<longrightarrow> \<not> e_recv_reclaimed e \<longrightarrow> n \<le> e_recv_unreleased e)"

lemma kept_release_inner:
  assumes "may_release sid n s"
  shows "kept s (release_capacity_inner sid n s)"
proof (cases "\<exists>e. entry_of sid s = Some e \<and> \<not> e_recv_reclaimed e")
  case True
  then obtain e where e: "entry_of sid s = Some e" and r: "\<not> e_recv_reclaimed e" by blast
  have n: "n \<le> e_recv_unreleased e" using assms e r by (simp add: may_release_def)
  obtain out where out: "release_capacity_inner sid n s =
      reclaim_conn n (push out (maybe_remove_settled sid
        (s\<lparr>c_streams := hm_put (c_streams s) sid (released n e)\<rparr>)))"
    using release_inner_eq [OF e r] by blast
  show ?thesis
    unfolding kept_def
  proof
    assume ok: "conn_ok s"
    note f = released_facts [OF conn_ok_entry [OF ok e] r n]
    from spent_settle [OF e f(1) f(2,3)] have "kept s (release_capacity_inner sid n s)"
      unfolding out reclaim_conn_push by (rule spent_reclaim)
    then show "conn_ok (release_capacity_inner sid n s)
        \<and> recv_total (release_capacity_inner sid n s) = recv_total s"
      using ok by (simp add: kept_def)
  qed
next
  case False
  then have "release_capacity_inner sid n s = s"
    by (auto simp: release_capacity_inner_def split: option.split)
  then show ?thesis by simp
qed

lemma kept_release_capacity:
  "may_release sid n s \<Longrightarrow> kept s (fst (release_capacity sid n s))"
  by (simp add: release_capacity_def Let_def kept_release_inner)

lemma kept_release_data_frame: "kept s (release_data_frame sid len s)"
proof (cases "entry_of sid s")
  case None
  then show ?thesis by (simp add: release_data_frame_def)
next
  case (Some e)
  define c where "c = min (DATA_FRAME_OVERHEAD_THRESHOLD - len) (e_data_budget_charged e)"
  let ?e = "e\<lparr>e_data_budget_charged := usize_sub (e_data_budget_charged e) c\<rparr>"
  let ?s = "s\<lparr>c_streams := hm_put (c_streams s) sid ?e\<rparr>"
  have "entry_settled sid ?e" if "conn_ok s"
    using conn_ok_entry [OF that Some] by (auto simp: entry_settled_def entry_ok_def)
  then have "spent 0 s (maybe_remove_settled sid ?s)"
    using spent_settle [OF Some, of ?e 0] by simp
  moreover have "maybe_remove_settled sid (?s\<lparr>c_data_budget := b\<rparr>)
      = (maybe_remove_settled sid ?s)\<lparr>c_data_budget := b\<rparr>" for b
    by (simp add: maybe_remove_settled_def drop_entry_def entry_of_def split: option.split)
  ultimately show ?thesis
    using Some by (simp add: release_data_frame_def Let_def upd_entry_Some c_def spent_0)
qed

lemma kept_accepted: "kept s (accepted sid s)"
  by (simp add: accepted_def)

subsection \<open>DATA\<close>

text \<open>A stored stream that is not finished, with its state.\<close>

definition live :: "u32 \<Rightarrow> stream_state \<Rightarrow> 'h inner \<Rightarrow> bool" where
  "live sid st s \<longleftrightarrow> (\<exists>e. entry_of sid s = Some e \<and> e_state e = st \<and> \<not> e_finished e)"

lemma live_release:
  assumes "live sid st s"
  shows "live sid st (release_capacity_inner sid n s)"
proof -
  obtain e where e: "entry_of sid s = Some e" "e_state e = st" "\<not> e_finished e"
    using assms by (auto simp: live_def)
  show ?thesis
  proof (cases "e_recv_reclaimed e")
    case True
    then show ?thesis using assms e by (simp add: release_capacity_inner_def)
  next
    case False
    obtain out where out: "release_capacity_inner sid n s =
        reclaim_conn n (push out (maybe_remove_settled sid
          (s\<lparr>c_streams := hm_put (c_streams s) sid (released n e)\<rparr>)))"
      using release_inner_eq [OF e(1) False] by blast
    have "e_finished (released n e) = e_finished e" "e_state (released n e) = e_state e"
      by (auto simp: released_def Let_def split: option.split)
    moreover have "entry_of sid (s\<lparr>c_streams := hm_put (c_streams s) sid (released n e)\<rparr>)
        = Some (released n e)" by (simp add: entry_of_def)
    ultimately show ?thesis
      using e by (simp add: out live_def maybe_remove_settled_def)
  qed
qed

lemma live_record:
  assumes "live sid st s"
  shows "live sid st (fst (record_data_frame sid len s))"
    and "kept s (fst (record_data_frame sid len s))"
proof -
  show "live sid st (fst (record_data_frame sid len s))"
    using assms by (auto simp: record_data_frame_def live_def split: prod.split sum.split)
  have "kept s (upd_entry sid (\<lambda>e. e\<lparr>e_data_budget_charged :=
      usize_add (e_data_budget_charged e) c\<rparr>) (s\<lparr>c_data_budget := b\<rparr>))" for c b
  proof (rule kept_trans [OF _ kept_upd])
    fix e assume "entry_of sid (s\<lparr>c_data_budget := b\<rparr>) = Some e" "entry_ok sid e"
    then show "entry_step e (e\<lparr>e_data_budget_charged := usize_add (e_data_budget_charged e) c\<rparr>)"
      using assms by (auto simp: live_def entry_step_def entry_ok_def)
  qed simp
  then show "kept s (fst (record_data_frame sid len s))"
    by (simp add: record_data_frame_def split: prod.split sum.split)
qed

lemma live_recv_close:
  assumes "live sid st s" and "recv_close st = Inr st'" and "\<not> is_closed st"
  shows "kept s (fst (close_stream sid (upd_entry sid (\<lambda>e. e\<lparr>e_state := st'\<rparr>) s)))"
  using assms kept_recv_close by (auto simp: live_def intro!: kept_close_stream_after)

lemma kept_deliver_data:
  assumes "live (de_stream_id f) st s" and "\<not> is_closed st"
    and pad: "may_release (de_stream_id f) (de_padding f mod 2 ^ 32) s"
  shows "kept s (fst (deliver_data f handle before s))"
proof -
  let ?sid = "de_stream_id f"
  define s1 where "s1 = (if 0 < de_padding f
      then release_capacity_inner ?sid (de_padding f mod 2 ^ 32) s else s)"
  have s1: "kept s s1" "live ?sid st s1"
    using kept_release_inner [OF pad] live_release [OF assms(1)] assms(1)
    by (simp_all add: s1_def)
  define r where "r = (if \<not> de_end_stream f then record_data_frame ?sid (length (de_data f)) s1
      else (s1, Inr ()))"
  have r: "kept s (fst r)" "live ?sid st (fst r)"
    using s1 live_record [OF s1(2)] kept_trans [OF s1(1)] by (simp_all add: r_def)
  have close: "kept s (fst (close_stream ?sid (upd_entry ?sid (\<lambda>e. e\<lparr>e_state := st'\<rparr>) s2)))"
    if "kept s s2" "live ?sid st s2" "recv_close st = Inr st'" for s2 st'
    using kept_trans [OF that(1) live_recv_close [OF that(2,3) assms(2)]] .
  show ?thesis
    unfolding deliver_data_def Let_def s1_def [symmetric] r_def [symmetric]
  proof (rule kept_and_then [OF r(1)])
    fix s2 u
    assume "r = (s2, Inr u)" and s2: "kept s s2"
    then have l: "live ?sid st s2" using r(2) by simp
    then obtain e where e: "entry_of ?sid s2 = Some e" "e_state e = st" by (auto simp: live_def)
    show "kept s (fst (if \<not> de_end_stream f \<and> de_data f = [] then
             (s2, Inr (dropped_data (wake_flag before s2)))
           else
             and_then
               (if de_end_stream f then
                  (case entry_of ?sid s2 of
                     None \<Rightarrow> (s2, Inl RustPanic)
                   | Some e \<Rightarrow>
                       (case recv_close (e_state e) of
                          Inl err \<Rightarrow> (s2, Inl (map_proto_err err))
                        | Inr st \<Rightarrow>
                            (case close_stream ?sid (upd_entry ?sid (\<lambda>e. e\<lparr>e_state := st\<rparr>) s2) of
                               (s3, f) \<Rightarrow> (s3, Inr f))))
                else (s2, Inr 0))
               (\<lambda>s3 flags.
                 (s3, Inr \<lparr>rdv_handle = Some handle, rdv_payload = Some (de_data f),
                           rdv_budgeted = (\<not> de_end_stream f), rdv_eof = de_end_stream f,
                           rdv_flags = flags OR wake_flag before s3\<rparr>))))"
      using close [OF s2 l] s2 e
      by (auto simp: split_beta intro!: kept_and_then split: sum.split)
  qed
qed

lemma kept_recv_lookup: "kept s (fst (recv_lookup now sid s))"
proof (cases "entry_of sid s")
  case None
  have "kept s (fst (in_reset_store now sid s))" by simp
  then show ?thesis
    using None
    by (cases "in_reset_store now sid s")
      (auto simp: recv_lookup_def split: bool.split sum.split)
next
  case (Some e)
  then show ?thesis
    using kept_drop_closed_stored [OF Some] by (auto simp: recv_lookup_def)
qed

lemma recv_lookup_live:
  assumes "recv_lookup now sid s = (s1, Inr (Some i))"
  shows "i = sid \<and> s1 = s \<and> (\<exists>e. entry_of sid s = Some e \<and> \<not> is_closed (e_state e))"
  using assms
  by (auto simp: recv_lookup_def split: option.splits if_splits prod.splits bool.splits sum.splits)

text \<open>A stream that takes DATA has not been reclaimed, and its unreleased bytes fit.\<close>

lemma streaming_entry:
  assumes "conn_ok s" and "entry_of sid s = Some e" and "is_recv_streaming (e_state e)"
  shows "\<not> e_recv_reclaimed e" and "\<not> e_finished e"
  using conn_ok_entry [OF assms(1,2)] assms(3) recv_done_not_streaming [of "e_state e"]
  by (auto simp: entry_ok_def)

lemma unreleased_entry_le:
  assumes "conn_ok s" and "entry_of sid s = Some e"
  shows "int (e_recv_unreleased e) \<le> recv_total s"
proof -
  have "e_recv_unreleased e \<le> unreleased s"
    using hm.total_ge [of "c_streams s" sid e e_recv_unreleased] assms
    by (simp add: unreleased_def conn_ok_def store_ok_def entry_of_def)
  moreover have "0 \<le> fc_available (c_conn_recv s)" using assms(1) by (simp add: conn_ok_def ledger_ok_def)
  ultimately show ?thesis by (simp add: recv_total_def)
qed

text \<open>The frame's bytes, off the windows, are charged to the stream.\<close>

lemma spent_charge:
  assumes sp: "spent sz s t" and e: "entry_of sid t = Some e"
    and streaming: "is_recv_streaming (e_state e)" and f: "fc_ok (e_recv_flow e')"
    and e': "e' = e\<lparr>e_recv_flow := rf, e_content_length := cl,
                    e_recv_unreleased := u32_add (e_recv_unreleased e) sz\<rparr>"
  shows "kept s (t\<lparr>c_streams := hm_put (c_streams t) sid e'\<rparr>)"
    and "conn_ok s \<Longrightarrow> u32_add (e_recv_unreleased e) sz = e_recv_unreleased e + sz"
proof -
  have exact: "u32_add (e_recv_unreleased e) sz = e_recv_unreleased e + sz" if ok: "conn_ok s"
  proof -
    have "conn_ok t" and "recv_total t + int sz \<le> 2 ^ 31 - 1"
      using sp ok conn_ok_ledger [OF ok] by (auto simp: spent_def)
    with unreleased_entry_le [OF _ e] have "e_recv_unreleased e + sz < 2 ^ 32" by simp
    then show ?thesis by simp
  qed
  then show "conn_ok s \<Longrightarrow> u32_add (e_recv_unreleased e) sz = e_recv_unreleased e + sz" .
  show "kept s (t\<lparr>c_streams := hm_put (c_streams t) sid e'\<rparr>)"
    unfolding kept_def
  proof
    assume ok: "conn_ok s"
    then have t: "conn_ok t" and total: "recv_total t + int sz = recv_total s"
      using sp by (auto simp: spent_def)
    have u: "e_recv_unreleased e' = e_recv_unreleased e + sz" using exact [OF ok] by (simp add: e')
    have "entry_ok sid e'"
      using conn_ok_entry [OF t e] streaming_entry [OF t e streaming] f
      by (auto simp: e' entry_ok_def)
    moreover have "same_place e e'" by (simp add: e' same_place_def)
    ultimately have "conn_ok (t\<lparr>c_streams := hm_put (c_streams t) sid e'\<rparr>)"
      using conn_ok_put [OF t e, of e'] u total conn_ok_ledger [OF ok] by simp
    moreover have "recv_total (t\<lparr>c_streams := hm_put (c_streams t) sid e'\<rparr>) = recv_total s"
      using unreleased_put [OF e, of e'] u total by (simp add: recv_total_def)
    ultimately show "conn_ok (t\<lparr>c_streams := hm_put (c_streams t) sid e'\<rparr>)
        \<and> recv_total (t\<lparr>c_streams := hm_put (c_streams t) sid e'\<rparr>) = recv_total s" ..
  qed
qed

text \<open>The stream's own window, refused or taken: the frame's record stays in range.\<close>

lemma fc_send_data_ok:
  assumes "fc_send_data sz f = Some (f', r)" and "fc_ok f"
  shows "fc_ok f'"
  using assms fc_ok_dec_recv [OF assms(2), of sz]
  by (auto simp: fc_send_data_def fc_send_data_raw_def split: if_splits)

lemma spent_flow:
  assumes "spent sz s t" and e: "entry_of sid t = Some e" and "fc_ok rf \<or> \<not> fc_ok (e_recv_flow e)"
  shows "spent sz s (upd_entry sid (\<lambda>e. e\<lparr>e_recv_flow := rf\<rparr>) t)"
    and "spent sz s (upd_entry sid (\<lambda>e. e\<lparr>e_recv_flow := rf, e_content_length := cl\<rparr>) t)"
proof -
  show "spent sz s (upd_entry sid (\<lambda>e. e\<lparr>e_recv_flow := rf\<rparr>) t)"
    using assms by (intro spent_kept [OF assms(1)] kept_upd)
      (auto simp: entry_step_def entry_ok_def owes_ledger_def same_place_def)
  show "spent sz s (upd_entry sid (\<lambda>e. e\<lparr>e_recv_flow := rf, e_content_length := cl\<rparr>) t)"
    using assms by (intro spent_kept [OF assms(1)] kept_upd)
      (auto simp: entry_step_def entry_ok_def owes_ledger_def same_place_def)
qed

text \<open>The lengths a DATA frame's event carries, as the loader yields them.\<close>

definition data_event_ok :: "data_event \<Rightarrow> bool" where
  "data_event_ok f \<longleftrightarrow>
     de_flow_controlled_len f < 2 ^ 32
     \<and> length (de_data f) + de_padding f = de_flow_controlled_len f"

lemma kept_recv_data_live:
  assumes f: "data_event_ok f" and e: "entry_of (de_stream_id f) s = Some e"
    and streaming: "is_recv_streaming (e_state e)" and t: "t = s\<lparr>c_conn_recv := cf\<rparr>"
    and sp: "spent (de_flow_controlled_len f) s t"
    and rf: "fc_ok rf \<or> \<not> fc_ok (e_recv_flow e)"
  shows "kept s (fst (deliver_data f h before
    (upd_entry (de_stream_id f) (\<lambda>e. e\<lparr>e_recv_unreleased :=
        u32_add (e_recv_unreleased e) (de_flow_controlled_len f)\<rparr>)
      (upd_entry (de_stream_id f) (\<lambda>e. e\<lparr>e_recv_flow := rf, e_content_length := cl\<rparr>) t))))"
    (is "kept s (fst (deliver_data f h before ?u))")
  unfolding kept_def
proof
  assume ok: "conn_ok s"
  let ?sid = "de_stream_id f"
  let ?sz = "de_flow_controlled_len f"
  let ?e = "e\<lparr>e_recv_flow := rf, e_content_length := cl,
              e_recv_unreleased := u32_add (e_recv_unreleased e) ?sz\<rparr>"
  have et: "entry_of ?sid t = Some e" using e by (simp add: t)
  have u: "?u = t\<lparr>c_streams := hm_put (c_streams t) ?sid ?e\<rparr>"
    using et by (simp add: upd_entry_Some [OF et]) (simp add: upd_entry_def entry_of_def)
  have "fc_ok (e_recv_flow ?e)"
    using conn_ok_entry [OF ok e] rf by (simp add: entry_ok_def)
  note charge = spent_charge [OF sp et streaming this refl]
  have "live ?sid (e_state e) ?u"
    using streaming_entry(2) [OF ok e streaming] by (simp add: live_def et)
  moreover have "\<not> is_closed (e_state e)" using streaming by auto
  moreover have "may_release ?sid (de_padding f mod 2 ^ 32) ?u"
    using f charge(2) [OF ok] by (auto simp: may_release_def et data_event_ok_def)
  ultimately have "kept ?u (fst (deliver_data f h before ?u))" by (rule kept_deliver_data)
  with charge(1) ok show "conn_ok (fst (deliver_data f h before ?u))
      \<and> recv_total (fst (deliver_data f h before ?u)) = recv_total s"
    by (simp add: u kept_def)
qed

lemma kept_recv_data:
  assumes f: "data_event_ok f"
  shows "kept s (fst (recv_data now f s))"
proof -
  let ?sz = "de_flow_controlled_len f mod 2 ^ 32"
  have sz: "?sz < 2 ^ 32" "?sz = de_flow_controlled_len f"
    using f by (simp_all add: data_event_ok_def)
  obtain s1 r where look: "recv_lookup now (de_stream_id f) s = (s1, r)" by fastforce
  have s1: "kept s s1" using kept_recv_lookup [of s now "de_stream_id f"] look by simp
  have ignore: "kept s (fst (and_then (consume_conn_recv ?sz s1) (\<lambda>s2 _. (reclaim_conn ?sz s2, x s2))))"
    for x :: "'a inner \<Rightarrow> pyerr + recv_data_verdict"
    by (rule kept_trans [OF s1 kept_consume [OF sz(1)]]) (simp add: spent_reclaim)
  show ?thesis
  proof (cases "\<exists>i. r = Inr (Some i)")
    case False
    then show ?thesis
      using ignore look
      by (auto simp: recv_data_def Let_def split: sum.split option.split)
  next
    case True
    then obtain e where e: "entry_of (de_stream_id f) s = Some e" and r: "r = Inr (Some (de_stream_id f))"
      and s1s: "s1 = s" using recv_lookup_live look by blast
    define K where "K = (\<lambda>(s2 :: 'a inner) (_ :: unit). case fc_send_data ?sz (e_recv_flow e) of
                      None \<Rightarrow> (s2, Inl RustPanic)
                    | Some (rf, Inl _) \<Rightarrow>
                        (reclaim_conn ?sz (upd_entry (de_stream_id f) (\<lambda>e. e\<lparr>e_recv_flow := rf\<rparr>) s2),
                         Inl (stream_err (de_stream_id f) FLOW_CONTROL_ERROR))
                    | Some (rf, Inr _) \<Rightarrow>
                        (case cl_dec (length (de_data f)) (e_content_length e) of
                           (cl, counted) \<Rightarrow>
                             let s3 = upd_entry (de_stream_id f)
                                        (\<lambda>e. e\<lparr>e_recv_flow := rf, e_content_length := cl\<rparr>) s2
                             in if \<not> counted then
                                  (reclaim_conn ?sz s3, Inl (stream_err (de_stream_id f) PROTOCOL_ERROR))
                                else if de_end_stream f \<and> \<not> cl_is_satisfied cl then
                                  (reclaim_conn ?sz s3, Inl (stream_err (de_stream_id f) PROTOCOL_ERROR))
                                else deliver_data f (e_handle e) (length (c_pending s))
                                       (upd_entry (de_stream_id f) (\<lambda>e. e\<lparr>e_recv_unreleased :=
                                          u32_add (e_recv_unreleased e) ?sz\<rparr>) s3)))"
    have K: "kept s (fst (K s2 ()))"
      if s2: "s2 = s\<lparr>c_conn_recv := cf\<rparr>" and sp: "spent ?sz s s2"
        and streaming: "is_recv_streaming (e_state e)" for s2 cf
    proof (cases "fc_send_data ?sz (e_recv_flow e)")
      case None
      then have "\<not> fc_ok (e_recv_flow e)"
        using fc_send_data_no_panic [of "e_recv_flow e", OF _ sz(1)] by blast
      then have "\<not> conn_ok s" using conn_ok_entry [OF _ e] by (auto simp: entry_ok_def)
      then show ?thesis by (simp add: kept_def)
    next
      case (Some p)
      obtain rf q where p: "p = (rf, q)" by fastforce
      have rf: "fc_ok rf \<or> \<not> fc_ok (e_recv_flow e)"
        using fc_send_data_ok Some p by blast
      have e2: "entry_of (de_stream_id f) s2 = Some e" using e by (simp add: s2)
      note flow = spent_flow [OF sp e2 rf, THEN spent_reclaim]
      note dl = kept_recv_data_live [OF f e streaming s2 _ rf]
      show ?thesis
        using Some p flow dl sp sz(2)
        by (auto simp: K_def Let_def split: sum.split prod.split)
    qed
    have "recv_data now f s =
        (if \<not> is_recv_streaming (e_state e) then
           (s, Inl (protocol_err PROTOCOL_ERROR (''unexpected DATA on stream '' @ show_nat (de_stream_id f))))
         else and_then (consume_conn_recv ?sz s) K)"
      unfolding recv_data_def K_def Let_def using look r s1s e by simp
    then show ?thesis
      using kept_consume [OF sz(1), of s K] K by simp
  qed
qed

lemma kept_recv_reset: "kept s (fst (H2Streams_recv_reset f s))"
proof (cases "entry_of (rf_stream_id f) s")
  case None
  then show ?thesis
    by (auto simp: H2Streams_recv_reset_def Let_def split: sum.split)
next
  case (Some e)
  let ?sid = "rf_stream_id f"
  let ?st = "recv_reset ?sid (rf_error_code f) False (e_state e)"
  have "kept t (fst (close_stream ?sid (reclaim_stream_accounting ?sid
      (upd_entry ?sid (\<lambda>_. e\<lparr>e_state := ?st\<rparr>) t))))"
    if t: "entry_of ?sid t = Some e" for t :: "'a inner"
  proof -
    have "kept t (upd_entry ?sid (\<lambda>e. e\<lparr>e_state := ?st\<rparr>) t)"
      using t by (intro kept_set_state) simp
    moreover have "upd_entry ?sid (\<lambda>_. e\<lparr>e_state := ?st\<rparr>) t = upd_entry ?sid (\<lambda>e. e\<lparr>e_state := ?st\<rparr>) t"
      by (rule upd_entry_const [OF t])
    moreover have "kept (upd_entry ?sid (\<lambda>_. e\<lparr>e_state := ?st\<rparr>) t)
        (reclaim_stream_accounting ?sid (upd_entry ?sid (\<lambda>_. e\<lparr>e_state := ?st\<rparr>) t))"
      using t by (intro kept_reclaim_stream) auto
    ultimately show ?thesis
      by (metis kept_trans kept_close_stream_after)
  qed
  from this [of s] this [of "s\<lparr>c_remote_reset_pending := insert ?sid (c_remote_reset_pending s)\<rparr>"]
  show ?thesis
    using Some kept_trans [of s "s\<lparr>c_remote_reset_pending := insert ?sid (c_remote_reset_pending s)\<rparr>"]
    by (auto simp: H2Streams_recv_reset_def Let_def split_beta)
qed

end
