(* ===== verification/Conn_Preserve_Send.thy ===== *)
theory Conn_Preserve_Send
  imports Conn_Preserve_Recv
begin

section \<open>The send rotation and the send side keep the invariant\<close>

text \<open>
  The two send queues, WINDOW\_UPDATE frames, and every operation of \<open>Conn_Send\<close>.
\<close>

subsection \<open>The queues\<close>

lemma conn_ok_requeue:
  assumes ok: "conn_ok s" and e: "entry_of sid s = Some e" and e': "entry_ok sid e'"
    and same: "e_finished e' = e_finished e" "e_holds_slot e' = e_holds_slot e"
      "e_recv_unreleased e' = e_recv_unreleased e"
    and t: "t = s\<lparr>c_streams := hm_put (c_streams s) sid e'\<rparr>"
    and q: "queue_ok e_is_pending_send qs t" "queue_ok e_is_pending_capacity qc t"
  shows "conn_ok (t\<lparr>c_pending_send := qs, c_pending_capacity := qc\<rparr>)"
    and "recv_total (t\<lparr>c_pending_send := qs, c_pending_capacity := qc\<rparr>) = recv_total s"
proof -
  have get: "hm_get (c_streams s) sid = Some e" using e by (simp add: entry_of_def)
  have sums: "hm_sum active_weight (c_streams t) = hm_sum active_weight (c_streams s)"
    "hm_sum slot_weight (c_streams t) = hm_sum slot_weight (c_streams s)"
    "hm_sum e_recv_unreleased (c_streams t) = hm_sum e_recv_unreleased (c_streams s)"
    using hm_sum_same [OF get] same by (simp_all add: t active_weight_def slot_weight_def)
  have ent: "entry_of j t = (if j = sid then Some e' else entry_of j s)" for j
    by (simp add: t entry_of_def)
  have "store_ok t" using ok e' sums(1) by (auto simp: conn_ok_def store_ok_def ent) (simp_all add: t)
  moreover have "conn_send_ok t" using ok by (simp add: conn_ok_def conn_send_ok_def t)
  moreover have "ledger_ok t"
    using ok sums(3) by (simp add: conn_ok_def ledger_ok_def recv_total_def unreleased_def) (simp add: t)
  moreover have "slots_ok t"
    using ok sums(2) by (simp add: conn_ok_def slots_ok_def slots_held_def) (simp add: t)
  moreover have "peer_ok t" using ok by (simp add: conn_ok_def t)
  ultimately show "conn_ok (t\<lparr>c_pending_send := qs, c_pending_capacity := qc\<rparr>)"
    using q by (simp add: conn_ok_defs)
  show "recv_total (t\<lparr>c_pending_send := qs, c_pending_capacity := qc\<rparr>) = recv_total s"
    using sums(3) by (simp add: recv_total_def unreleased_def) (simp add: t)
qed

lemma kept_requeue:
  assumes e: "entry_of sid s = Some e"
    and same: "e_finished e' = e_finished e" "e_holds_slot e' = e_holds_slot e"
      "e_recv_unreleased e' = e_recv_unreleased e"
    and ok': "conn_ok s \<Longrightarrow> entry_ok sid e'"
    and q: "conn_ok s \<Longrightarrow> queue_ok e_is_pending_send qs (s\<lparr>c_streams := hm_put (c_streams s) sid e'\<rparr>)"
      "conn_ok s \<Longrightarrow> queue_ok e_is_pending_capacity qc (s\<lparr>c_streams := hm_put (c_streams s) sid e'\<rparr>)"
    and u: "u = s\<lparr>c_streams := hm_put (c_streams s) sid e', c_pending_send := qs,
                  c_pending_capacity := qc\<rparr>"
  shows "kept s u"
  using conn_ok_requeue [OF _ e _ same refl] ok' q by (simp add: kept_def u)

lemma conn_ok_queues:
  "conn_ok (s\<lparr>c_pending_send := qs\<rparr>) \<longleftrightarrow>
     store_ok s \<and> conn_send_ok s \<and> ledger_ok s \<and> slots_ok s \<and> peer_ok s
     \<and> queue_ok e_is_pending_send qs s \<and> queue_ok e_is_pending_capacity (c_pending_capacity s) s"
  "conn_ok (s\<lparr>c_pending_capacity := qc\<rparr>) \<longleftrightarrow>
     store_ok s \<and> conn_send_ok s \<and> ledger_ok s \<and> slots_ok s \<and> peer_ok s
     \<and> queue_ok e_is_pending_send (c_pending_send s) s \<and> queue_ok e_is_pending_capacity qc s"
  by (auto simp: conn_ok_defs)

lemma recv_total_queues [simp]:
  "recv_total (s\<lparr>c_pending_send := qs\<rparr>) = recv_total s"
  "recv_total (s\<lparr>c_pending_capacity := qc\<rparr>) = recv_total s"
  by (simp_all add: recv_total_def unreleased_def)

lemma queue_ok_sub:
  "queue_ok flag q s \<Longrightarrow> set q' \<subseteq> set q \<Longrightarrow> distinct q' \<Longrightarrow> queue_ok flag q' s"
  by (auto simp: queue_ok_def)

lemma queue_ok_dropWhile: "queue_ok flag q s \<Longrightarrow> queue_ok flag (dropWhile P q) s"
  by (rule queue_ok_sub) (auto simp: queue_ok_def dest: set_dropWhileD)

lemma queue_ok_tl: "queue_ok flag q s \<Longrightarrow> queue_ok flag (tl q) s"
  by (cases q) (auto simp: queue_ok_def)

lemma kept_send_front [simp]: "kept s (fst (send_front s))"
  by (auto simp: kept_def send_front_def Let_def conn_ok_queues conn_ok_def [of s] queues_ok_def queue_ok_dropWhile)

lemma kept_capacity_front [simp]: "kept s (fst (capacity_front s))"
  by (auto simp: kept_def capacity_front_def Let_def conn_ok_queues conn_ok_def [of s] queues_ok_def queue_ok_dropWhile)

lemma front_live:
  assumes "(case dropWhile (\<lambda>sid. \<not> queued_live flag sid s) q of [] \<Rightarrow> None | sid # _ \<Rightarrow> Some sid)
           = Some sid"
  shows "\<exists>e. entry_of sid s = Some e \<and> flag e \<and> \<not> e_finished e \<and> is_send_streaming (e_state e)"
proof -
  have "queued_live flag sid s"
    using assms by (auto simp: dropWhile_eq_Cons_conv split: list.splits)
  then show ?thesis by (auto simp: queued_live_def split: option.splits)
qed

lemma send_front_live:
  "send_front s = (s', Some sid) \<Longrightarrow>
   \<exists>e. entry_of sid s' = Some e \<and> e_is_pending_send e \<and> \<not> e_finished e \<and> is_send_streaming (e_state e)"
  using front_live [of e_is_pending_send s "c_pending_send s" sid]
  by (auto simp: send_front_def Let_def)

lemma capacity_front_live:
  "capacity_front s = (s', Some sid) \<Longrightarrow>
   \<exists>e. entry_of sid s' = Some e \<and> e_is_pending_capacity e \<and> \<not> e_finished e
       \<and> is_send_streaming (e_state e)"
  using front_live [of e_is_pending_capacity s "c_pending_capacity s" sid]
  by (auto simp: capacity_front_def Let_def)

lemma queue_put_other:
  assumes "queue_ok flag q s" and e: "entry_of sid s = Some e"
    and "flag e \<Longrightarrow> \<not> e_finished e \<Longrightarrow> flag e' \<and> \<not> e_finished e'"
  shows "queue_ok flag q (s\<lparr>c_streams := hm_put (c_streams s) sid e'\<rparr>)"
  using queue_ok_put [OF assms(1) e] assms(3) by blast

lemma queue_put_append:
  assumes "queue_ok flag q s" and e: "entry_of sid s = Some e" and "\<not> flag e"
    and "flag e'" and "\<not> e_finished e'"
  shows "queue_ok flag (q @ [sid]) (s\<lparr>c_streams := hm_put (c_streams s) sid e'\<rparr>)"
proof -
  have "sid \<notin> set q" using assms(1,2,3) by (auto simp: queue_ok_def)
  then show ?thesis using assms by (auto simp: queue_ok_def entry_of_def)
qed

lemma queue_put_filter:
  assumes "queue_ok flag q s"
  shows "queue_ok flag (filter (\<lambda>i. i \<noteq> sid) q) (s\<lparr>c_streams := hm_put (c_streams s) sid e'\<rparr>)"
  by (rule queue_ok_filter [OF assms]) (simp add: entry_of_def)

lemma conn_ok_queue_facts:
  assumes "conn_ok s"
  shows "queue_ok e_is_pending_send (c_pending_send s) s"
    and "queue_ok e_is_pending_capacity (c_pending_capacity s) s"
    and "distinct (c_pending_send s)" and "distinct (c_pending_capacity s)"
    and "entry_of sid s = Some e \<Longrightarrow> sid \<in> set (c_pending_send s) \<Longrightarrow> e_is_pending_send e"
    and "entry_of sid s = Some e \<Longrightarrow> sid \<in> set (c_pending_capacity s) \<Longrightarrow> e_is_pending_capacity e"
  using assms by (auto simp: conn_ok_def queues_ok_def queue_ok_def)

lemma kept_enqueue_send:
  assumes "\<And>e. entry_of sid s = Some e \<Longrightarrow> \<not> e_finished e"
  shows "kept s (enqueue_send sid s)"
proof (cases "\<exists>e. entry_of sid s = Some e \<and> \<not> e_is_pending_send e")
  case True
  then obtain e where e: "entry_of sid s = Some e" "\<not> e_is_pending_send e" by blast
  let ?e = "e\<lparr>e_is_pending_send := True, e_turn_frames := 0\<rparr>"
  show ?thesis
  proof (rule kept_requeue [OF e(1)])
    show "enqueue_send sid s = s\<lparr>c_streams := hm_put (c_streams s) sid ?e,
        c_pending_send := c_pending_send s @ [sid], c_pending_capacity := c_pending_capacity s\<rparr>"
      using e by (simp add: enqueue_send_def upd_entry_Some)
  next
    assume ok: "conn_ok s"
    note q = conn_ok_queue_facts [OF ok]
    show "entry_ok sid ?e" using conn_ok_entry [OF ok e(1)] assms [OF e(1)] by (simp add: entry_ok_def)
    show "queue_ok e_is_pending_send (c_pending_send s @ [sid])
        (s\<lparr>c_streams := hm_put (c_streams s) sid ?e\<rparr>)"
      using queue_put_append [OF q(1) e(1,2)] assms [OF e(1)] by simp
    show "queue_ok e_is_pending_capacity (c_pending_capacity s)
        (s\<lparr>c_streams := hm_put (c_streams s) sid ?e\<rparr>)"
      using queue_put_other [OF q(2) e(1)] by simp
  qed simp_all
next
  case False
  then have "enqueue_send sid s = s" by (auto simp: enqueue_send_def split: option.split)
  then show ?thesis by simp
qed

lemma kept_enqueue_capacity:
  assumes "\<And>e. entry_of sid s = Some e \<Longrightarrow> \<not> e_finished e"
  shows "kept s (enqueue_capacity sid s)"
proof (cases "\<exists>e. entry_of sid s = Some e \<and> \<not> e_is_pending_capacity e")
  case True
  then obtain e where e: "entry_of sid s = Some e" "\<not> e_is_pending_capacity e" by blast
  let ?e = "e\<lparr>e_is_pending_capacity := True\<rparr>"
  show ?thesis
  proof (rule kept_requeue [OF e(1)])
    show "enqueue_capacity sid s = s\<lparr>c_streams := hm_put (c_streams s) sid ?e,
        c_pending_send := c_pending_send s, c_pending_capacity := c_pending_capacity s @ [sid]\<rparr>"
      using e by (simp add: enqueue_capacity_def upd_entry_Some)
  next
    assume ok: "conn_ok s"
    note q = conn_ok_queue_facts [OF ok]
    show "entry_ok sid ?e" using conn_ok_entry [OF ok e(1)] assms [OF e(1)] by (simp add: entry_ok_def)
    show "queue_ok e_is_pending_capacity (c_pending_capacity s @ [sid])
        (s\<lparr>c_streams := hm_put (c_streams s) sid ?e\<rparr>)"
      using queue_put_append [OF q(2) e(1,2)] assms [OF e(1)] by simp
    show "queue_ok e_is_pending_send (c_pending_send s)
        (s\<lparr>c_streams := hm_put (c_streams s) sid ?e\<rparr>)"
      using queue_put_other [OF q(1) e(1)] by simp
  qed simp_all
next
  case False
  then have "enqueue_capacity sid s = s" by (auto simp: enqueue_capacity_def split: option.split)
  then show ?thesis by simp
qed

lemma kept_leave_send_queue [simp]: "kept s (fst (leave_send_queue sid s))"
proof (cases "entry_of sid s")
  case None
  then show ?thesis by (simp add: leave_send_queue_def)
next
  case (Some e)
  let ?e = "e\<lparr>e_is_pending_send := False,
              e_turn_frames := (if e_is_pending_send e then 0 else e_turn_frames e)\<rparr>"
  show ?thesis
  proof (cases "conn_ok s")
    case False
    then show ?thesis by (simp add: kept_def)
  next
    case True
    note q = conn_ok_queue_facts [OF True]
    show ?thesis
    proof (rule kept_requeue [OF Some])
      show "fst (leave_send_queue sid s) = s\<lparr>c_streams := hm_put (c_streams s) sid ?e,
          c_pending_send := filter (\<lambda>i. i \<noteq> sid) (c_pending_send s),
          c_pending_capacity := c_pending_capacity s\<rparr>"
        using leave_send_queue_fst [OF Some q(3) q(5) [OF Some]] by simp
      show "entry_ok sid ?e"
        using conn_ok_entry [OF True Some] by (auto simp: entry_ok_def owes_ledger_def)
      show "queue_ok e_is_pending_send (filter (\<lambda>i. i \<noteq> sid) (c_pending_send s))
          (s\<lparr>c_streams := hm_put (c_streams s) sid ?e\<rparr>)" by (rule queue_put_filter [OF q(1)])
      show "queue_ok e_is_pending_capacity (c_pending_capacity s)
          (s\<lparr>c_streams := hm_put (c_streams s) sid ?e\<rparr>)"
        by (rule queue_put_other [OF q(2) Some]) simp
    qed simp_all
  qed
qed

lemma kept_leave_capacity_queue [simp]: "kept s (fst (leave_capacity_queue sid s))"
proof (cases "entry_of sid s")
  case None
  then show ?thesis by (simp add: leave_capacity_queue_def)
next
  case (Some e)
  let ?e = "e\<lparr>e_is_pending_capacity := False\<rparr>"
  show ?thesis
  proof (cases "conn_ok s")
    case False
    then show ?thesis by (simp add: kept_def)
  next
    case True
    note q = conn_ok_queue_facts [OF True]
    show ?thesis
    proof (rule kept_requeue [OF Some])
      show "fst (leave_capacity_queue sid s) = s\<lparr>c_streams := hm_put (c_streams s) sid ?e,
          c_pending_send := c_pending_send s,
          c_pending_capacity := filter (\<lambda>i. i \<noteq> sid) (c_pending_capacity s)\<rparr>"
        using leave_capacity_queue_fst [OF Some q(4) q(6) [OF Some]] by simp
      show "entry_ok sid ?e"
        using conn_ok_entry [OF True Some] by (auto simp: entry_ok_def owes_ledger_def)
      show "queue_ok e_is_pending_capacity (filter (\<lambda>i. i \<noteq> sid) (c_pending_capacity s))
          (s\<lparr>c_streams := hm_put (c_streams s) sid ?e\<rparr>)" by (rule queue_put_filter [OF q(2)])
      show "queue_ok e_is_pending_send (c_pending_send s)
          (s\<lparr>c_streams := hm_put (c_streams s) sid ?e\<rparr>)"
        by (rule queue_put_other [OF q(1) Some]) simp
    qed simp_all
  qed
qed

lemma kept_yield_send_turn: "kept s (fst (yield_send_turn sid s))"
proof (cases "\<exists>rest. c_pending_send s = sid # rest")
  case True
  then obtain rest where q: "c_pending_send s = sid # rest" by blast
  let ?t = "s\<lparr>c_pending_send := rest @ [sid]\<rparr>"
  have "kept s ?t"
    using q by (auto simp: kept_def conn_ok_queues conn_ok_def [of s] queues_ok_def queue_ok_def)
  moreover have "kept ?t (upd_entry sid (\<lambda>e. e\<lparr>e_turn_frames := 0\<rparr>) ?t)"
    by (rule kept_upd) (auto simp: entry_step_def entry_ok_def owes_ledger_def)
  ultimately have "kept s (upd_entry sid (\<lambda>e. e\<lparr>e_turn_frames := 0\<rparr>) ?t)" by (rule kept_trans)
  then show ?thesis using q by (simp add: yield_send_turn_def Let_def)
next
  case False
  then have "fst (yield_send_turn sid s) = s"
    by (auto simp: yield_send_turn_def Let_def split: list.split)
  then show ?thesis by simp
qed

lemma kept_leave_capacity_front:
  assumes "capacity_front s = (t, Some sid)"
  shows "kept t ((upd_entry sid (\<lambda>e. e\<lparr>e_is_pending_capacity := False\<rparr>) t)
    \<lparr>c_pending_capacity := tl (c_pending_capacity t)\<rparr>)"
proof (cases "conn_ok t")
  case False
  then show ?thesis by (simp add: kept_def)
next
  case True
  obtain e where e: "entry_of sid t = Some e" and fin: "\<not> e_finished e"
    using capacity_front_live [OF assms] by blast
  obtain rest where q: "c_pending_capacity t = sid # rest"
    using assms by (auto simp: capacity_front_def Let_def split: list.splits)
  note qf = conn_ok_queue_facts [OF True]
  have tl: "tl (c_pending_capacity t) = filter (\<lambda>i. i \<noteq> sid) (c_pending_capacity t)"
    using distinct_filter_front [of sid rest] qf(4) by (simp add: q)
  let ?e = "e\<lparr>e_is_pending_capacity := False\<rparr>"
  show ?thesis
  proof (rule kept_requeue [OF e])
    show "(upd_entry sid (\<lambda>e. e\<lparr>e_is_pending_capacity := False\<rparr>) t)
        \<lparr>c_pending_capacity := tl (c_pending_capacity t)\<rparr>
      = t\<lparr>c_streams := hm_put (c_streams t) sid ?e, c_pending_send := c_pending_send t,
          c_pending_capacity := tl (c_pending_capacity t)\<rparr>"
      by (simp add: upd_entry_Some [OF e])
    show "entry_ok sid ?e" using conn_ok_entry [OF True e] by (auto simp: entry_ok_def owes_ledger_def)
    show "queue_ok e_is_pending_capacity (tl (c_pending_capacity t))
        (t\<lparr>c_streams := hm_put (c_streams t) sid ?e\<rparr>)"
      unfolding tl by (rule queue_put_filter [OF qf(2)])
    show "queue_ok e_is_pending_send (c_pending_send t) (t\<lparr>c_streams := hm_put (c_streams t) sid ?e\<rparr>)"
      by (rule queue_put_other [OF qf(1) e]) simp
  qed simp_all
qed

lemma kept_admit_capacity_front: "kept s (fst (admit_capacity_front s))"
proof -
  obtain s1 r1 where f1: "send_front s = (s1, r1)" by fastforce
  obtain s2 r2 where f2: "capacity_front s1 = (s2, r2)" by fastforce
  have k1: "kept s s1" using kept_send_front [of s] by (simp add: f1)
  have k2: "kept s s2" using kept_trans [OF k1] kept_capacity_front [of s1] by (simp add: f2)
  have "kept s (enqueue_send sid ((upd_entry sid (\<lambda>e. e\<lparr>e_is_pending_capacity := False\<rparr>) s2)
      \<lparr>c_pending_capacity := tl (c_pending_capacity s2)\<rparr>))" if r2: "r2 = Some sid" for sid
  proof -
    obtain e where e: "entry_of sid s2 = Some e" "\<not> e_finished e"
      using capacity_front_live [of s1 s2 sid] f2 r2 by blast
    have "kept s2 ((upd_entry sid (\<lambda>e. e\<lparr>e_is_pending_capacity := False\<rparr>) s2)
        \<lparr>c_pending_capacity := tl (c_pending_capacity s2)\<rparr>)"
      using kept_leave_capacity_front [of s1 s2 sid] f2 r2 by simp
    from kept_trans [OF k2 this] show ?thesis
      by (rule kept_trans [OF _ kept_enqueue_send]) (use e in auto)
  qed
  then show ?thesis
    using k1 k2 by (auto simp: admit_capacity_front_def f1 f2 Let_def upd_entry_def
        split: option.split)
qed

subsection \<open>WINDOW\_UPDATE\<close>

text \<open>Window and capacity move together, or not at all.\<close>

lemma fc_open_by_ok:
  assumes "n < 2 ^ 31" and "send_flow_ok f"
  shows "send_flow_ok (fst (fc_open_by n f))" and "fc_window f \<le> fc_window (fst (fc_open_by n f))"
    and "snd (fc_open_by n f) = Inr () \<Longrightarrow> fc_window (fst (fc_open_by n f)) = fc_window f + int n"
    and "snd (fc_open_by n f) \<noteq> Inr () \<Longrightarrow> fst (fc_open_by n f) = f"
proof -
  have f: "fc_ok f" "fc_available f = fc_window f" using assms(2) by (simp_all add: send_flow_ok_def)
  have "send_flow_ok (fst (fc_open_by n f)) \<and> fc_window f \<le> fc_window (fst (fc_open_by n f))
    \<and> (snd (fc_open_by n f) = Inr () \<longrightarrow> fc_window (fst (fc_open_by n f)) = fc_window f + int n)
    \<and> (snd (fc_open_by n f) \<noteq> Inr () \<longrightarrow> fst (fc_open_by n f) = f)"
  proof (cases "fc_window f + int n < 2 ^ 31")
    case True
    have ok: "fc_ok (f\<lparr>fc_window := fc_window f + int n\<rparr>)"
      using f True by (simp add: fc_ok_def in_i32_def)
    show ?thesis
      using fc_inc_window_ok [OF assms(1) f(1) True] fc_assign_capacity_ok [OF assms(1) ok] f True
      by (simp add: fc_open_by_def send_flow_ok_def fc_ok_def in_i32_def)
  next
    case False
    then show ?thesis
      using fc_inc_window_err [OF assms(1) f(1)] assms(2) by (simp add: fc_open_by_def)
  qed
  then show "send_flow_ok (fst (fc_open_by n f))" and "fc_window f \<le> fc_window (fst (fc_open_by n f))"
    and "snd (fc_open_by n f) = Inr () \<Longrightarrow> fc_window (fst (fc_open_by n f)) = fc_window f + int n"
    and "snd (fc_open_by n f) \<noteq> Inr () \<Longrightarrow> fst (fc_open_by n f) = f" by blast+
qed

lemma kept_conn_send:
  assumes "conn_ok s \<Longrightarrow> send_flow_ok f \<and> 0 \<le> fc_window f"
  shows "kept s (s\<lparr>c_conn_send := f\<rparr>)"
  using assms by (auto simp: kept_def conn_ok_defs)

lemma kept_recv_window_update:
  assumes n: "wu_size_increment w < 2 ^ 31"
  shows "kept s (fst (recv_window_update w s))"
proof (cases "wu_stream_id w = 0")
  case True
  let ?f = "fst (fc_open_by (wu_size_increment w) (c_conn_send s))"
  let ?t = "s\<lparr>c_conn_send := ?f\<rparr>"
  have t: "kept s ?t"
  proof (rule kept_conn_send)
    assume "conn_ok s"
    then have "send_flow_ok (c_conn_send s)" "0 \<le> fc_window (c_conn_send s)"
      by (simp_all add: conn_ok_def conn_send_ok_def)
    then show "send_flow_ok ?f \<and> 0 \<le> fc_window ?f" using fc_open_by_ok(1,2) [OF n] by fastforce
  qed
  have "kept s (fst (send_front (fst (admit_capacity_front ?t))))"
    using kept_trans [OF kept_trans [OF t kept_admit_capacity_front] kept_send_front] .
  then show ?thesis
    using t True
    by (cases "send_front (fst (admit_capacity_front ?t))")
      (auto simp: recv_window_update_def Let_def split_beta split: option.split sum.split)
next
  case False
  show ?thesis
  proof (cases "entry_of (wu_stream_id w) s")
    case None
    then show ?thesis using False by (auto simp: recv_window_update_def Let_def split: sum.split)
  next
    case (Some e)
    have "kept s (upd_entry (wu_stream_id w)
        (\<lambda>x. x\<lparr>e_send_flow := fst (fc_open_by (wu_size_increment w) (e_send_flow e))\<rparr>) s)"
      using Some fc_open_by_ok(1) [OF n]
      by (intro kept_upd) (auto simp: entry_step_def entry_ok_def owes_ledger_def same_place_def)
    then show ?thesis
      using False Some by (simp add: recv_window_update_def Let_def split_beta)
  qed
qed

subsection \<open>Slots and opening\<close>

lemma kept_try_claim_slot: 
  assumes "c_num_open_streams s + 1 < 2 ^ 64"
  shows "kept s (fst (try_claim_slot s))"
  using assms by (auto simp: try_claim_slot_def kept_def conn_ok_defs)

text \<open>A slot is given back only by one who holds it and has not opened its stream.\<close>

lemma kept_release_slot_count:
  assumes "conn_ok s \<Longrightarrow> slots_held s < c_num_open_streams s"
  shows "kept s (release_slot_count s)"
  using assms by (auto simp: release_slot_count_def saturating_sub_def kept_def conn_ok_defs)

lemma kept_apply_stream_limit: "kept s (apply_stream_limit l s)"
  by (simp add: apply_stream_limit_def)

lemma kept_open_stream:
  assumes claimed: "conn_ok s \<Longrightarrow> slots_held s < c_num_open_streams s"
    and free: "entry_of (c_next_id s) s = None" "0 < c_next_id s"
  shows "kept s (fst (open_stream hp http mth tgt flds eos ih h sch au s))"
proof -
  note rel = kept_release_slot_count [OF claimed]
  have "kept s (fst (and_then (queue_headers hp f (s\<lparr>c_next_id := n,
      c_streams := hm_put (c_streams s) (c_next_id s)
        ((entry_new h (ps_initial_window_size (c_peer s)) (c_recv_init s) ih)
          \<lparr>e_holds_slot := True, e_state := st\<rparr>),
      c_num_active := usize_add (c_num_active s) 1\<rparr>)) (\<lambda>s3 _. (s3, Inr (Some (c_next_id s))))))"
    if small: "\<not> MAX_STREAM_ID < c_next_id s" for f n st
  proof -
    let ?s1 = "s\<lparr>c_next_id := n\<rparr>"
    let ?e = "(entry_new h (ps_initial_window_size (c_peer s)) (c_recv_init s) ih)
        \<lparr>e_holds_slot := True, e_state := st\<rparr>"
    have sid: "c_next_id s < 2 ^ 31" using small by (simp add: MAX_STREAM_ID_def)
    have "kept ?s1 (?s1\<lparr>c_streams := hm_put (c_streams ?s1) (c_next_id s) ?e,
        c_num_active := usize_add (c_num_active ?s1) 1\<rparr>)"
    proof (rule kept_insert)
      assume "conn_ok ?s1"
      then have ok: "conn_ok s" by simp
      then show "entry_ok (c_next_id s) ?e"
        using entry_ok_new(2) free(2) sid by (simp add: conn_ok_def peer_ok_def)
      show "slots_held ?s1 + slot_weight ?e \<le> c_num_open_streams ?s1"
        using claimed [OF ok] by (simp add: slots_held_def slot_weight_def)
    qed (use free in \<open>simp_all add: entry_new_def\<close>)
    then have "kept s (?s1\<lparr>c_streams := hm_put (c_streams ?s1) (c_next_id s) ?e,
        c_num_active := usize_add (c_num_active ?s1) 1\<rparr>)"
      by (rule kept_trans [rotated]) simp
    then show ?thesis by (intro kept_and_then) simp_all
  qed
  then show ?thesis
    using rel by (auto simp: open_stream_def Let_def split: sum.split)
qed

subsection \<open>DATA\<close>

lemma kept_queue_data [simp]: "kept s (fst (queue_data sid p eos s')) = kept s s'"
  by (simp add: queue_data_def split: sum.split)

lemma send_close_open: "send_close st = Some st' \<Longrightarrow> \<not> is_closed st"
  by (induction st rule: send_close.induct) auto

lemma kept_send_close:
  assumes "entry_of sid s = Some e" and "send_close (e_state e) = Some st"
  shows "kept s (upd_entry sid (\<lambda>e. e\<lparr>e_state := st\<rparr>) s)"
  using assms send_close_open [OF assms(2)] recv_done_send_close [OF assms(2)]
  by (intro kept_set_state) (auto simp: entry_ok_def)

lemma kept_send_open:
  assumes "entry_of sid s = Some e" and "send_open eos (e_state e) = Inr st"
  shows "kept s (upd_entry sid (\<lambda>e. e\<lparr>e_state := st\<rparr>) s)"
  using assms send_open_from_open [OF assms(2)] recv_done_send_open [OF assms(2)]
  by (intro kept_set_state) (auto simp: entry_ok_def)

lemma kept_close_send_half: "kept s (fst (close_send_half now sid s))"
proof -
  have "kept s (fst (finish_stream now sid (upd_entry sid (\<lambda>e. e\<lparr>e_state := st\<rparr>) s)))"
    if "entry_of sid s = Some e" "send_close (e_state e) = Some st" for e st
    using kept_trans [OF kept_send_close [OF that] kept_finish_stream] .
  then show ?thesis
    by (auto simp: close_send_half_def split_beta split: option.split)
qed

lemma kept_send_empty_data: "kept s (fst (send_empty_data now sid eos s))"
  unfolding send_empty_data_def
  by (intro kept_and_then) (auto intro: kept_trans [OF _ kept_close_send_half])

lemma kept_after_frame:
  assumes "\<And>e. entry_of sid s = Some e \<Longrightarrow> \<not> e_finished e"
  shows "kept s (fst (after_frame sid fin s))"
  using kept_trans [OF kept_enqueue_capacity kept_leave_send_queue, of sid s sid] assms
  by (auto simp: after_frame_def Let_def split: option.split)

text \<open>Taking send window: the record stays consistent, whether it is granted or refused.\<close>

lemma fc_send_data_send_ok:
  assumes "fc_send_data n f = Some (f', r)" and "send_flow_ok f"
  shows "send_flow_ok f'" and "0 \<le> fc_window f \<Longrightarrow> 0 \<le> fc_window f'"
    and "fc_window f' \<le> fc_window f"
    and "r = Inr () \<Longrightarrow> n \<le> fc_window_size f \<and> fc_window f' = fc_window f - int n"
proof -
  have f: "fc_ok f" "fc_available f = fc_window f" using assms(2) by (simp_all add: send_flow_ok_def)
  from fc_send_data_cases [OF assms(1) f(1)] f(2)
  have c: "(r = Inl FLOW_CONTROL_ERROR \<and> f' = f)
    \<or> (r = Inr () \<and> n \<le> fc_window_size f
       \<and> f' = f\<lparr>fc_window := fc_window f - int n, fc_available := fc_available f - int n\<rparr>)" by auto
  have w: "fc_window_size f = nat (fc_window f)" by (rule fc_window_size_eq [OF f(1)])
  show "send_flow_ok f'" using c w f by (auto simp: send_flow_ok_def fc_ok_def in_i32_def)
  show "0 \<le> fc_window f \<Longrightarrow> 0 \<le> fc_window f'" using c w by auto
  show "fc_window f' \<le> fc_window f" using c by auto
  show "r = Inr () \<Longrightarrow> n \<le> fc_window_size f \<and> fc_window f' = fc_window f - int n" using c by auto
qed

lemma kept_send_frame:
  assumes live: "\<And>e. entry_of sid s = Some e \<Longrightarrow> \<not> e_finished e"
  shows "kept s (fst (send_frame now sid data off eos budget before s))"
proof -
  define n where "n = min (min budget (usize_sub (length data) off)) (ps_max_frame_size (c_peer s))"
  define fin where "fin \<longleftrightarrow> n = usize_sub (length data) off"
  have conn: "kept s (s\<lparr>c_conn_send := cf\<rparr>)"
    if "fc_send_data (n mod 2 ^ 32) (c_conn_send s) = Some (cf, q)" for cf q
    using fc_send_data_send_ok(1,2) [OF that]
    by (intro kept_conn_send) (auto simp: conn_ok_def conn_send_ok_def)
  have flow: "kept s (upd_entry sid (\<lambda>e. e\<lparr>e_send_flow := sf\<rparr>) t)"
    "kept s (upd_entry sid (\<lambda>e. e\<lparr>e_send_flow := sf, e_send_buffered := b,
               e_turn_frames := tf\<rparr>) t)"
    if "kept s t" "entry_of sid t = Some e" "fc_send_data (n mod 2 ^ 32) (e_send_flow e) = Some (sf, q)"
    for t :: "'a inner" and e sf q b tf
    using that fc_send_data_send_ok(1) [OF that(3)]
    by (auto intro!: kept_trans [OF that(1) kept_upd]
        simp: entry_step_def entry_ok_def owes_ledger_def same_place_def)
  have tail: "kept s (fst (and_then (queue_data sid p fl t) (\<lambda>s4 _.
      let s5 = s4\<lparr>c_credit := add_credit sid n (c_credit s4)\<rparr>
      in if fl then and_then (close_send_half now sid s5) (\<lambda>s6 tl. (s6, Inr (g s6 tl)))
         else (s5, Inr (h s5)))))" if "kept s t" for t :: "'a inner" and p fl g h
    using that by (intro kept_and_then)
      (auto simp: Let_def intro!: kept_and_then intro: kept_trans [OF _ kept_close_send_half])
  show ?thesis
  proof (cases "fc_send_data (n mod 2 ^ 32) (c_conn_send s)")
    case None
    then show ?thesis by (simp add: send_frame_def Let_def n_def [symmetric])
  next
    case (Some p)
    obtain cf q where p: "p = (cf, q)" by fastforce
    let ?s1 = "s\<lparr>c_conn_send := cf\<rparr>"
    have k1: "kept s ?s1" using conn Some p by simp
    show ?thesis
    proof (cases "entry_of sid s")
      case None
      then show ?thesis
        using Some p k1 by (simp add: send_frame_def Let_def n_def [symmetric] split: sum.split)
    next
      case e: (Some e)
      have e1: "entry_of sid ?s1 = Some e" using e by simp
      show ?thesis
      proof (cases "fc_send_data (n mod 2 ^ 32) (e_send_flow e)")
        case None
        then show ?thesis
          using Some p k1 e by (simp add: send_frame_def Let_def n_def [symmetric] split: sum.split)
      next
        case sf: (Some pp)
        obtain sf q2 where pp: "pp = (sf, q2)" by fastforce
        let ?s2 = "upd_entry sid (\<lambda>e. e\<lparr>e_send_flow := sf,
            e_send_buffered := usize_add (e_send_buffered e) n,
            e_turn_frames := usize_add (e_turn_frames e) 1\<rparr>) ?s1"
        have s2c: "?s2 = upd_entry sid (\<lambda>x. x\<lparr>e_send_flow := sf,
            e_send_buffered := usize_add (e_send_buffered e) n,
            e_turn_frames := usize_add (e_turn_frames e) 1\<rparr>) ?s1"
          using e1 by (simp add: upd_entry_def)
        have k2: "kept s ?s2"
          unfolding s2c using flow(2) [OF k1 e1] sf pp by blast
        have k3: "kept s (fst (after_frame sid fin ?s2))"
          by (rule kept_trans [OF k2 kept_after_frame]) (use live e in auto)
        have kx: "kept s (upd_entry sid (\<lambda>e. e\<lparr>e_send_flow := sf\<rparr>) ?s1)"
          using flow(1) [OF k1 e1] sf pp by blast
        show ?thesis
          unfolding send_frame_def Let_def n_def [symmetric] fin_def [symmetric]
          using Some p e sf pp k1 k3 kx tail [OF k3, unfolded Let_def]
          by (cases "after_frame sid fin ?s2") (auto split: sum.split)
      qed
    qed
  qed
qed

text \<open>No longer waiting for the connection window.\<close>

lemma kept_drop_capacity_wait:
  assumes e: "entry_of sid s = Some e"
  shows "kept s ((upd_entry sid (\<lambda>e. e\<lparr>e_is_pending_capacity := False\<rparr>) s)
    \<lparr>c_pending_capacity := filter (\<lambda>i. i \<noteq> sid) (c_pending_capacity s)\<rparr>)"
proof (cases "conn_ok s")
  case False
  then show ?thesis by (simp add: kept_def)
next
  case True
  note q = conn_ok_queue_facts [OF True]
  let ?e = "e\<lparr>e_is_pending_capacity := False\<rparr>"
  show ?thesis
  proof (rule kept_requeue [OF e])
    show "(upd_entry sid (\<lambda>e. e\<lparr>e_is_pending_capacity := False\<rparr>) s)
        \<lparr>c_pending_capacity := filter (\<lambda>i. i \<noteq> sid) (c_pending_capacity s)\<rparr>
      = s\<lparr>c_streams := hm_put (c_streams s) sid ?e, c_pending_send := c_pending_send s,
          c_pending_capacity := filter (\<lambda>i. i \<noteq> sid) (c_pending_capacity s)\<rparr>"
      by (simp add: upd_entry_Some [OF e])
    show "entry_ok sid ?e" using conn_ok_entry [OF True e] by (auto simp: entry_ok_def owes_ledger_def)
    show "queue_ok e_is_pending_capacity (filter (\<lambda>i. i \<noteq> sid) (c_pending_capacity s))
        (s\<lparr>c_streams := hm_put (c_streams s) sid ?e\<rparr>)" by (rule queue_put_filter [OF q(2)])
    show "queue_ok e_is_pending_send (c_pending_send s) (s\<lparr>c_streams := hm_put (c_streams s) sid ?e\<rparr>)"
      by (rule queue_put_other [OF q(1) e]) simp
  qed simp_all
qed

lemma kept_turn_over: "kept s (fst (turn_over sid e s))"
  using kept_yield_send_turn [of s sid] by (auto simp: turn_over_def split_beta)

text \<open>Whether a stored stream is finished does not depend on the queues.\<close>

definition unfinished :: "u32 \<Rightarrow> 'h inner \<Rightarrow> bool" where
  "unfinished sid s \<longleftrightarrow> (\<forall>e. entry_of sid s = Some e \<longrightarrow> \<not> e_finished e)"

lemma unfinished_upd:
  "unfinished sid s \<Longrightarrow> (\<And>e. \<not> e_finished e \<Longrightarrow> \<not> e_finished (f e)) \<Longrightarrow>
   unfinished sid (upd_entry j f s)"
  by (auto simp: unfinished_def)

lemma unfinished_frame [simp]:
  "unfinished sid (s\<lparr>c_pending_send := q\<rparr>) = unfinished sid s"
  "unfinished sid (s\<lparr>c_pending_capacity := q\<rparr>) = unfinished sid s"
  by (simp_all add: unfinished_def)

lemma unfinished_queues:
  assumes "unfinished sid s"
  shows "unfinished sid (fst (send_front s))" and "unfinished sid (enqueue_send j s)"
    and "unfinished sid (enqueue_capacity j s)" and "unfinished sid (fst (turn_over j e s))"
    and "unfinished sid (fst (yield_send_turn j s))"
proof -
  show y: "unfinished sid (fst (yield_send_turn j s))"
    using assms by (auto simp: yield_send_turn_def Let_def intro!: unfinished_upd split: list.split)
  show "unfinished sid (fst (send_front s))" using assms by (simp add: send_front_def Let_def)
  show "unfinished sid (enqueue_send j s)"
    using assms by (auto simp: enqueue_send_def intro!: unfinished_upd split: option.split)
  show "unfinished sid (enqueue_capacity j s)"
    using assms by (auto simp: enqueue_capacity_def intro!: unfinished_upd split: option.split)
  show "unfinished sid (fst (turn_over j e s))"
    using assms y by (auto simp: turn_over_def split_beta)
qed

lemma kept_send_frame_unfinished:
  "kept s t \<Longrightarrow> unfinished sid t \<Longrightarrow> kept s (fst (send_frame now sid data off eos budget before t))"
  using kept_trans [OF _ kept_send_frame [of sid t]] by (auto simp: unfinished_def)

text \<open>The end of \<open>send_data\<close>: the stream is ready and its turn is looked up.\<close>

lemma kept_take_turn:
  assumes "kept s t" and "unfinished sid t"
  shows "kept s (fst (case send_front t of (s2, front) \<Rightarrow>
     if front \<noteq> None \<and> front \<noteq> Some sid then (enqueue_send sid s2, Inr (no_window 0))
     else
       let s3 = (if front = None then enqueue_send sid s2 else s2)
       in case entry_of sid s3 of
            None \<Rightarrow> (s3, Inl RustPanic)
          | Some e3 \<Rightarrow>
              (case turn_over sid e3 s3 of
                 (s4, Some flags) \<Rightarrow> (s4, Inr (no_window flags))
               | (s4, None) \<Rightarrow> send_frame now sid data off eos budget before s4)))"
proof -
  obtain s2 front where f: "send_front t = (s2, front)" by fastforce
  have k2: "kept s s2" and u2: "unfinished sid s2"
    using kept_trans [OF assms(1) kept_send_front [of t]] unfinished_queues(1) [OF assms(2)]
    by (simp_all add: f)
  define s3 where "s3 = (if front = None then enqueue_send sid s2 else s2)"
  have en: "kept s (enqueue_send sid s2)"
    using kept_trans [OF k2 kept_enqueue_send] u2 by (auto simp: unfinished_def)
  have k3: "kept s s3" and u3: "unfinished sid s3"
    using k2 u2 en unfinished_queues(2) [OF u2] by (simp_all add: s3_def)
  have k4: "kept s (fst (turn_over sid e s3))" and u4: "unfinished sid (fst (turn_over sid e s3))" for e
    using kept_trans [OF k3 kept_turn_over] unfinished_queues(4) [OF u3] by simp_all
  have "kept s (fst (send_frame now sid data off eos budget before (fst (turn_over sid e s3))))" for e
    using kept_send_frame_unfinished [OF k4 u4] .
  then show ?thesis
    unfolding f prod.case Let_def s3_def [symmetric]
    using en k3 k4 by (auto simp: split_beta split: option.split)
qed

lemma kept_send_data: "kept s (fst (send_data now sid data off eos s))"
proof (cases "conn_ok s \<and> (\<exists>e. entry_of sid s = Some e \<and> is_send_streaming (e_state e))")
  case False
  then show ?thesis
    by (auto simp: send_data_def Let_def kept_def split: option.split)
next
  case True
  then obtain e where e: "entry_of sid s = Some e" and st: "is_send_streaming (e_state e)"
    and ok: "conn_ok s" by blast
  have fin: "unfinished sid s"
    using kept_not_finished [OF ok e] st e by (simp add: unfinished_def)
  define room where "room = stream_room e s"
  define conn where "conn = fc_window_size (c_conn_send s)"
  define s1 where "s1 = (if e_is_pending_capacity e
      then (upd_entry sid (\<lambda>e. e\<lparr>e_is_pending_capacity := False\<rparr>) s)
             \<lparr>c_pending_capacity := filter (\<lambda>i. i \<noteq> sid) (c_pending_capacity s)\<rparr>
      else s)"
  have k1: "kept s s1" using kept_drop_capacity_wait [OF e] by (simp add: s1_def)
  have u1: "unfinished sid s1" using fin by (auto simp: s1_def intro!: unfinished_upd)
  have "kept s (fst (leave_send_queue sid (enqueue_capacity sid s)))"
    using fin kept_trans [OF kept_enqueue_capacity kept_leave_send_queue] by (auto simp: unfinished_def)
  then have idle: "kept s (fst (leave_send_queue sid
      (if conn = 0 \<and> 0 < room then enqueue_capacity sid s else s)))" by simp
  show ?thesis
    unfolding send_data_def Let_def
    using e st idle kept_send_empty_data [of s] kept_take_turn [OF k1 u1, unfolded Let_def]
    by (simp add: room_def [symmetric] conn_def [symmetric] s1_def [symmetric] split_beta)
qed

subsection \<open>Trailers and response heads\<close>

lemma kept_send_trailers: "kept s (fst (send_trailers hp now sid tr s))"
proof -
  have "kept s (fst (and_then (queue_headers hp f (upd_entry i (\<lambda>e. e\<lparr>e_state := st\<rparr>) s))
      (\<lambda>s1 _. case finish_stream now i s1 of (s2, tail) \<Rightarrow> (s2, Inr (g s2 tail)))))"
    if "entry_of i s = Some e" "send_close (e_state e) = Some st" for e st f g i
    using kept_send_close [OF that]
    by (intro kept_and_then) (auto simp: split_beta intro: kept_trans [OF _ kept_finish_stream])
  then show ?thesis
    by (auto simp: send_trailers_def stream_id_from_def Let_def split: option.split)
qed

lemma kept_send_response_head:
  "kept s (fst (send_response_head hp http now sid status flds eos s))"
proof -
  have "kept s (fst (and_then (queue_headers hp f (upd_entry sid (\<lambda>e. e\<lparr>e_state := st\<rparr>) s))
      (\<lambda>s1 _. case (if eos then finish_stream now sid s1 else (s1, no_tail)) of
         (s2, tail) \<Rightarrow> (s2, Inr (completed_send 0 (wake_flag (length (c_pending s)) s2) tail)))))"
    if "entry_of sid s = Some e" "send_open eos (e_state e) = Inr st" for e st f
    using kept_send_open [OF that]
    by (intro kept_and_then) (auto simp: split_beta intro: kept_trans [OF _ kept_finish_stream])
  then show ?thesis
    by (auto simp: send_response_head_def split: option.split sum.split)
qed

subsection \<open>The write pump\<close>

lemma kept_take_pending: "kept s (fst (take_pending s))"
proof -
  have p: "kept x (y\<lparr>c_pending := p\<rparr>) = kept x y" for x y :: "'a inner" and p
    by (simp add: kept_def)
  show ?thesis
    by (simp add: take_pending_def p)
qed

lemma kept_write_batch_drop: "kept s (write_batch_drop s)"
  by (simp add: write_batch_drop_def)

lemma kept_credit_loop: "kept s (fst (credit_loop batch woken s))"
proof (induction batch woken s rule: credit_loop.induct)
  case (1 woken s)
  then show ?case by simp
next
  case (2 sid n batch woken s)
  show ?case
  proof (cases "entry_of sid s")
    case None
    then show ?thesis using 2 by simp
  next
    case (Some e)
    have "kept s (upd_entry sid (\<lambda>e. e\<lparr>e_send_buffered := saturating_sub (e_send_buffered e) n,
        e_turn_frames := 0\<rparr>) s)"
      by (rule kept_upd) (auto simp: entry_step_def entry_ok_def owes_ledger_def same_place_def)
    then show ?thesis
      using Some 2(2) [OF Some] by (auto simp: split_beta intro: kept_trans)
  qed
qed

lemma kept_credit_written: "kept s (fst (credit_written s))"
  unfolding credit_written_def by (rule kept_trans [OF _ kept_credit_loop]) simp

lemma kept_next_capacity_wake: "kept s (fst (next_capacity_wake s))"
  using kept_trans [OF kept_admit_capacity_front kept_send_front, of s]
  by (cases "send_front (fst (admit_capacity_front s))")
    (auto simp: next_capacity_wake_def split: option.split)

end
