(* ===== verification/Conn_Preserve_Control.thy ===== *)
theory Conn_Preserve_Control
  imports Conn_Preserve_Send
begin

section \<open>The connection's own frames keep the invariant\<close>

text \<open>
  Construction and handshake establish the invariant; SETTINGS, PING, GOAWAY and failure keep it.
  A failing connection drops its streams with what they had not released: there the ledger's total
  may fall (\<open>shrunk\<close>).
\<close>

subsection \<open>All entries at once\<close>

text \<open>A pass over \<open>values_mut()\<close> that writes each entry within \<open>entry_step\<close>.\<close>

definition entries_step ::
  "(u32, stream_entry) hmap \<Rightarrow> (u32, stream_entry) hmap \<Rightarrow> bool" where
  "entries_step = list_all2 (\<lambda>x y. fst y = fst x \<and> (entry_ok (fst x) (snd x) \<longrightarrow> entry_step (snd x) (snd y)))"

lemma entries_step_keys: "entries_step m m' \<Longrightarrow> map fst m' = map fst m"
  unfolding entries_step_def by (induction rule: list_all2_induct) auto

lemma entries_step_get:
  "entries_step m m' \<Longrightarrow>
   (case hm_get m k of
      None \<Rightarrow> hm_get m' k = None
    | Some e \<Rightarrow> \<exists>e'. hm_get m' k = Some e' \<and> (entry_ok k e \<longrightarrow> entry_step e e'))"
  unfolding entries_step_def
proof (induction rule: list_all2_induct)
  case Nil
  then show ?case by simp
next
  case (Cons x xs y ys)
  then show ?case by (cases x; cases y) (auto split: option.splits)
qed

lemma entries_step_sum:
  assumes "entries_step m m'" and "\<forall>x \<in> set m. entry_ok (fst x) (snd x)"
    and "\<And>e e'. entry_step e e' \<Longrightarrow> w e' = w e"
  shows "hm_sum w m' = hm_sum w m"
  using assms(1,2) unfolding entries_step_def
proof (induction rule: list_all2_induct)
  case Nil
  then show ?case by simp
next
  case (Cons x xs y ys)
  then show ?case using assms(3) by (cases x; cases y) auto
qed

lemma kept_entries:
  assumes "entries_step (c_streams s) m"
  shows "kept s (s\<lparr>c_streams := m\<rparr>)"
  unfolding kept_def
proof
  assume ok: "conn_ok s"
  let ?s = "s\<lparr>c_streams := m\<rparr>"
  have hm: "hm_ok (c_streams s)" and all: "\<forall>sid e. entry_of sid s = Some e \<longrightarrow> entry_ok sid e"
    using ok by (simp_all add: conn_ok_def store_ok_def)
  have mem: "\<forall>x \<in> set (c_streams s). entry_ok (fst x) (snd x)"
    using all hm_in_set [OF hm] by (auto simp: entry_of_def)
  have step: "\<exists>e. entry_of sid s = Some e \<and> entry_step e e'" if "entry_of sid ?s = Some e'" for sid e'
    using entries_step_get [OF assms, of sid] that all by (auto simp: entry_of_def split: option.splits)
  have stays: "\<exists>e'. entry_of sid ?s = Some e' \<and> entry_step e e'" if "entry_of sid s = Some e" for sid e
    using entries_step_get [OF assms, of sid] that all by (auto simp: entry_of_def split: option.splits)
  have sums: "hm_sum active_weight m = hm_sum active_weight (c_streams s)"
    "hm_sum slot_weight m = hm_sum slot_weight (c_streams s)"
    "hm_sum e_recv_unreleased m = hm_sum e_recv_unreleased (c_streams s)"
    by ((rule entries_step_sum [OF assms mem],
        simp add: entry_step_def same_place_def active_weight_def slot_weight_def)+)
  have "hm_ok m" using hm entries_step_keys [OF assms] by (simp add: hm_ok_def hm_keys_def)
  then have "store_ok ?s"
    using ok sums(1) step entry_step_ok all by (fastforce simp: conn_ok_def store_ok_def)
  moreover have "queues_ok ?s"
    using ok stays by (fastforce simp: conn_ok_def queues_ok_def queue_ok_def entry_step_def same_place_def)
  moreover have "conn_send_ok ?s" using ok by (simp add: conn_ok_def conn_send_ok_def)
  moreover have "ledger_ok ?s" "recv_total ?s = recv_total s"
    using ok sums(3) by (simp_all add: conn_ok_def ledger_ok_def recv_total_def unreleased_def)
  moreover have "slots_ok ?s" using ok sums(2) by (simp add: conn_ok_def slots_ok_def slots_held_def)
  ultimately show "conn_ok ?s \<and> recv_total ?s = recv_total s" using ok by (simp add: conn_ok_def)
qed

lemma entry_step_refl: "entry_ok sid e \<Longrightarrow> entry_step e e"
  by (auto simp: entry_step_def entry_ok_def)

subsection \<open>SETTINGS\<close>

lemma shift_send_window_ok:
  assumes "new < 2 ^ 31" and "old < 2 ^ 31"
  shows "\<exists>f. fst (shift_send_window new old e) = e\<lparr>e_send_flow := f\<rparr>
    \<and> (send_flow_ok (e_send_flow e) \<longrightarrow> send_flow_ok f)"
proof (cases "is_send_closed (e_state e)")
  case True
  then show ?thesis by (intro exI [of _ "e_send_flow e"]) (simp add: shift_send_window_def)
next
  case False
  show ?thesis
  proof (cases "old \<le> new")
    case True
    have "new - old < 2 ^ 31" using assms by simp
    then show ?thesis
      using False True fc_open_by_ok(1) [of "new - old" "e_send_flow e"]
      by (intro exI [of _ "fst (fc_open_by (new - old) (e_send_flow e))"])
        (simp add: shift_send_window_def split_beta split: sum.split)
  next
    case dec: False
    let ?r = "and_then (fc_dec_send_window (old - new) (e_send_flow e)) (\<lambda>f _. fc_claim_capacity (old - new) f)"
    have n: "old - new < 2 ^ 31" using assms by simp
    have "send_flow_ok (fst ?r)" if ok: "send_flow_ok (e_send_flow e)"
    proof -
      let ?f = "e_send_flow e"
      have f: "fc_ok ?f" "fc_available ?f = fc_window ?f" using ok by (simp_all add: send_flow_ok_def)
      show ?thesis
      proof (cases "- (2 ^ 31) \<le> fc_window ?f - int (old - new)")
        case True
        let ?g = "?f\<lparr>fc_window := fc_window ?f - int (old - new)\<rparr>"
        have g: "fc_ok ?g" using f True by (simp add: fc_ok_def in_i32_def)
        show ?thesis
          using fc_dec_send_window_ok [OF n f(1) True] fc_claim_capacity_ok [OF n g] f True g
          by (simp add: send_flow_ok_def fc_ok_def in_i32_def)
      next
        case False
        then have "fc_dec_send_window (old - new) ?f = (?f, Inl FLOW_CONTROL_ERROR)"
          using n by (simp add: fc_dec_send_window_def window_defs in_i32_def)
        then show ?thesis using ok by simp
      qed
    qed
    then show ?thesis
      using False dec
      by (intro exI [of _ "fst ?r"]) (simp add: shift_send_window_def split_beta split: sum.split)
  qed
qed

lemma entry_step_send_flow:
  "entry_ok sid e \<Longrightarrow> (send_flow_ok (e_send_flow e) \<longrightarrow> send_flow_ok f) \<Longrightarrow>
   entry_step e (e\<lparr>e_send_flow := f\<rparr>)"
  by (auto simp: entry_step_def entry_ok_def owes_ledger_def)

lemma entry_step_recv_flow:
  "entry_ok sid e \<Longrightarrow> (fc_ok (e_recv_flow e) \<longrightarrow> fc_ok f) \<Longrightarrow>
   entry_step e (e\<lparr>e_recv_flow := f\<rparr>)"
  by (auto simp: entry_step_def entry_ok_def owes_ledger_def)

lemma entries_step_refl: "entries_step m m"
  unfolding entries_step_def by (rule list_all2_refl) (simp add: entry_step_refl)

lemma entries_step_Cons:
  "(entry_ok sid e \<Longrightarrow> entry_step e e') \<Longrightarrow> entries_step m m' \<Longrightarrow>
   entries_step ((sid, e) # m) ((sid, e') # m')"
  by (simp add: entries_step_def)

lemma shift_send_windows_step:
  assumes "new < 2 ^ 31" and "old < 2 ^ 31"
  shows "entries_step m (fst (shift_send_windows new old m))"
proof (induction m)
  case Nil
  then show ?case by (simp add: entries_step_refl)
next
  case (Cons x m)
  obtain sid e where x: "x = (sid, e)" by fastforce
  obtain f where f: "fst (shift_send_window new old e) = e\<lparr>e_send_flow := f\<rparr>"
    "send_flow_ok (e_send_flow e) \<longrightarrow> send_flow_ok f"
    using shift_send_window_ok [OF assms] by blast
  have "entry_ok sid e \<Longrightarrow> entry_step e (fst (shift_send_window new old e))"
    using entry_step_send_flow f by simp
  then show ?case
    using Cons.IH entries_step_refl [of m]
    by (cases "shift_send_window new old e"; cases "shift_send_windows new old m")
      (auto simp: x intro!: entries_step_Cons split: sum.split)
qed

lemma shift_recv_windows_step: "entries_step m (fst (shift_recv_windows target old m))"
proof (induction m)
  case Nil
  then show ?case by (simp add: entries_step_refl)
next
  case (Cons x m)
  obtain sid e where x: "x = (sid, e)" by fastforce
  have "fc_ok f \<Longrightarrow> fc_ok (fst (fc_open_by n f))" for f n
    using fc_ok_inc [of f n] fc_ok_assign
    by (auto simp: fc_open_by_def and_then_def split: prod.split sum.split)
  then have "entry_ok sid e \<Longrightarrow> entry_step e (fst (shift_recv_window target old e))"
    using entry_step_recv_flow [of sid e] fc_ok_dec_recv
    by (auto simp: shift_recv_window_def split_beta)
  then show ?case
    using Cons.IH entries_step_refl [of m]
    by (cases "shift_recv_window target old e"; cases "shift_recv_windows target old m")
      (auto simp: x intro!: entries_step_Cons split: sum.split)
qed

lemma kept_peer:
  assumes "conn_ok s \<Longrightarrow> ps_initial_window_size p < 2 ^ 31 \<and> enc_ok enc
      \<and> ps_max_frame_size p = enc_send_max_frame_size enc"
  shows "kept s (s\<lparr>c_peer := p, c_encoder := enc\<rparr>)"
  using assms by (auto simp: kept_def conn_ok_defs)

text \<open>The peer's initial window as the loader admits it.\<close>

definition seen_ok :: "settings_seen \<Rightarrow> bool" where
  "seen_ok f \<longleftrightarrow> (\<forall>v. fs_initial_window_size f = Some v \<longrightarrow> v < 2 ^ 31)"

lemma settings_seen_ok: "settings_load h payload = Inr s \<Longrightarrow> seen_ok (settings_seen_of s)"
  using settings_load_valid [of h payload s]
  by (auto simp: seen_ok_def settings_seen_of_def settings_valid_def)

lemma conn_ok_peer_facts:
  "conn_ok s \<Longrightarrow> ps_initial_window_size (c_peer s) < 2 ^ 31 \<and> enc_ok (c_encoder s)
     \<and> ps_max_frame_size (c_peer s) = enc_send_max_frame_size (c_encoder s)"
  by (simp add: conn_ok_def peer_ok_def)

lemma kept_header_table_size:
  "kept s (s\<lparr>c_peer := (c_peer s)\<lparr>ps_header_table_size := v\<rparr>,
             c_encoder := enc_set_send_header_table_size hp v (c_encoder s)\<rparr>)"
  using conn_ok_peer_facts [of s]
  by (intro kept_peer) (simp add: enc_set_send_header_table_size_def enc_ok_def)

lemma kept_max_frame_size:
  assumes "enc_set_send_max_frame_size v (c_encoder s) = (enc, r)"
  shows "r = Inl e \<Longrightarrow> kept s (s\<lparr>c_encoder := enc\<rparr>)"
    and "r = Inr u \<Longrightarrow> kept s (s\<lparr>c_encoder := enc, c_peer := (c_peer s)\<lparr>ps_max_frame_size := v\<rparr>\<rparr>)"
proof -
  assume "r = Inl e"
  then have "enc = c_encoder s"
    using assms by (auto simp: enc_set_send_max_frame_size_def split: sum.splits)
  then show "kept s (s\<lparr>c_encoder := enc\<rparr>)" by simp
next
  assume "r = Inr u"
  then have "enc_send_max_frame_size enc = v"
    using assms by (auto simp: enc_set_send_max_frame_size_def split: sum.splits)
  moreover have "enc_ok enc" if "conn_ok s"
    using enc_ok_set_frame_size [of "c_encoder s" v] conn_ok_peer_facts [OF that] assms by simp
  ultimately have "kept s (s\<lparr>c_peer := (c_peer s)\<lparr>ps_max_frame_size := v\<rparr>, c_encoder := enc\<rparr>)"
    using conn_ok_peer_facts [of s] by (intro kept_peer) simp
  moreover have "s\<lparr>c_peer := (c_peer s)\<lparr>ps_max_frame_size := v\<rparr>, c_encoder := enc\<rparr>
      = s\<lparr>c_encoder := enc, c_peer := (c_peer s)\<lparr>ps_max_frame_size := v\<rparr>\<rparr>" by simp
  ultimately show "kept s (s\<lparr>c_encoder := enc, c_peer := (c_peer s)\<lparr>ps_max_frame_size := v\<rparr>\<rparr>)"
    by (simp only:)
qed

lemma kept_max_concurrent:
  "kept s (s\<lparr>c_peer := (c_peer s)\<lparr>ps_max_concurrent_streams := v\<rparr>\<rparr>)"
  using kept_peer [of s "(c_peer s)\<lparr>ps_max_concurrent_streams := v\<rparr>" "c_encoder s"]
    conn_ok_peer_facts [of s] by simp

lemma kept_initial_window:
  assumes "new < 2 ^ 31" and "m = fst (shift_send_windows new (ps_initial_window_size (c_peer s)) (c_streams s))"
  shows "kept s (s\<lparr>c_peer := (c_peer s)\<lparr>ps_initial_window_size := new\<rparr>, c_streams := m\<rparr>)"
proof (cases "conn_ok s")
  case False
  then show ?thesis by (simp add: kept_def)
next
  case True
  let ?t = "s\<lparr>c_peer := (c_peer s)\<lparr>ps_initial_window_size := new\<rparr>\<rparr>"
  have old: "ps_initial_window_size (c_peer s) < 2 ^ 31" using conn_ok_peer_facts [OF True] by simp
  have "kept s ?t"
    using kept_peer [of s "(c_peer s)\<lparr>ps_initial_window_size := new\<rparr>" "c_encoder s"]
      conn_ok_peer_facts [of s] assms(1) by simp
  moreover have "kept ?t (?t\<lparr>c_streams := m\<rparr>)"
    using shift_send_windows_step [OF assms(1) old, of "c_streams s"] assms(2)
    by (intro kept_entries) simp
  ultimately show ?thesis by (rule kept_trans)
qed

text \<open>The four steps of \<open>apply_remote_settings\<close>.\<close>

lemma kept_apply_remote_settings:
  assumes f: "seen_ok f"
  shows "kept s (fst (apply_remote_settings hp f s))"
proof -
  define s1 where "s1 = (case fs_header_table_size f of
                  Some v \<Rightarrow> s\<lparr>c_peer := (c_peer s)\<lparr>ps_header_table_size := v\<rparr>,
                              c_encoder := enc_set_send_header_table_size hp v (c_encoder s)\<rparr>
                | None \<Rightarrow> s)"
  have k1: "kept s s1"
    using kept_header_table_size [of s] by (auto simp: s1_def split: option.split)
  define r2 where "r2 = (case fs_max_frame_size f of
              Some v \<Rightarrow>
                (case enc_set_send_max_frame_size v (c_encoder s1) of
                   (enc, Inl e) \<Rightarrow> (s1\<lparr>c_encoder := enc\<rparr>, Inl e)
                 | (enc, Inr _) \<Rightarrow>
                     (s1\<lparr>c_encoder := enc, c_peer := (c_peer s1)\<lparr>ps_max_frame_size := v\<rparr>\<rparr>, Inr ()))
            | None \<Rightarrow> (s1, Inr ()))"
  have k2: "kept s (fst r2)"
    using k1 kept_trans [OF k1 kept_max_frame_size(1)] kept_trans [OF k1 kept_max_frame_size(2)]
    by (auto simp: r2_def split: option.split prod.split sum.split)
  have k3: "kept s (fst (case fs_max_concurrent_streams f of
                      Some v \<Rightarrow>
                        let s3 = s2\<lparr>c_peer := (c_peer s2)\<lparr>ps_max_concurrent_streams := Some v\<rparr>\<rparr>
                        in if c_role s3 = Client
                           then (s3\<lparr>c_stream_limit := Some v\<rparr>, FLAG_SLOT_FREED) else (s3, 0)
                    | None \<Rightarrow> (s2, 0)))" if "kept s s2" for s2
    using that kept_trans [OF that kept_max_concurrent] by (auto simp: Let_def split: option.split)
  have k4: "kept s (s3\<lparr>c_peer := (c_peer s3)\<lparr>ps_initial_window_size := new\<rparr>,
      c_streams := fst (shift_send_windows new (ps_initial_window_size (c_peer s3)) (c_streams s3))\<rparr>)"
    if "kept s s3" "fs_initial_window_size f = Some new" for s3 new
    using kept_trans [OF that(1) kept_initial_window [OF _ refl]] f that(2) by (simp add: seen_ok_def)
  show ?thesis
    unfolding apply_remote_settings_def Let_def s1_def [symmetric] r2_def [symmetric]
  proof (rule kept_and_then [OF k2])
    fix s2 :: "'a inner" and u assume s2: "kept s s2"
    show "kept s (fst (case (case fs_max_concurrent_streams f of
                      Some v \<Rightarrow>
                        if c_role (s2\<lparr>c_peer := (c_peer s2)\<lparr>ps_max_concurrent_streams := Some v\<rparr>\<rparr>) = Client
                           then (s2\<lparr>c_peer := (c_peer s2)\<lparr>ps_max_concurrent_streams := Some v\<rparr>\<rparr>
                                  \<lparr>c_stream_limit := Some v\<rparr>, FLAG_SLOT_FREED)
                           else (s2\<lparr>c_peer := (c_peer s2)\<lparr>ps_max_concurrent_streams := Some v\<rparr>\<rparr>, 0)
                    | None \<Rightarrow> (s2, 0)) of (s3, flags) \<Rightarrow>
               (case fs_initial_window_size f of
                  Some new \<Rightarrow>
                    if new = ps_initial_window_size (c_peer s3) then (s3, Inr ([], flags))
                    else (case shift_send_windows new (ps_initial_window_size (c_peer s3)) (c_streams s3) of
                            (m, r) \<Rightarrow>
                              (s3\<lparr>c_peer := (c_peer s3)\<lparr>ps_initial_window_size := new\<rparr>,
                                  c_streams := m\<rparr>,
                               case r of Inl e \<Rightarrow> Inl (map_reason e)
                                       | Inr wake \<Rightarrow> Inr (wake, flags)))
                | None \<Rightarrow> (s3, Inr ([], flags)))))"
      using k3 [OF s2, unfolded Let_def] k4
      by (auto simp: split_beta split: option.split)
  qed
qed

lemma kept_apply_local_settings: "kept s (fst (fst (apply_local_settings dec s)))"
proof -
  have "kept s (s\<lparr>c_recv_init := t,
      c_streams := fst (shift_recv_windows t old (c_streams (s\<lparr>c_recv_init := t\<rparr>)))\<rparr>)" for t old
    using kept_trans [OF _ kept_entries [OF shift_recv_windows_step], of s "s\<lparr>c_recv_init := t\<rparr>"]
    by simp
  then show ?thesis
    by (auto simp: apply_local_settings_def Let_def split_beta split: option.split sum.split)
qed

lemma kept_recv_settings:
  assumes "seen_ok f"
  shows "kept s (fst (fst (H2Streams_recv_settings hp f (s, dec))))"
proof -
  have "kept s (fst (apply_remote_settings hp f (push encode_settings_ack s\<lparr>c_settings := ss\<rparr>)))" for ss
    by (rule kept_trans [OF _ kept_apply_remote_settings [OF assms]]) simp
  moreover have "kept s (fst (fst (apply_local_settings dec (s\<lparr>c_settings := ss\<rparr>))))" for ss
    by (rule kept_trans [OF _ kept_apply_local_settings]) simp
  moreover have "fst (fst (and_then r (\<lambda>sd1 _. (sd1, Inr x)))) = fst (fst r)"
    for r :: "('a inner \<times> frame_decoder) \<times> (pyerr + unit)" and x :: "bool \<times> pyobj list \<times> flags"
    by (simp add: and_then_def split: prod.split sum.split)
  ultimately show ?thesis
    by (auto simp: H2Streams_recv_settings_def Let_def split_beta settings_recv_remote_def
        split: sum.split)
qed

subsection \<open>PING, GOAWAY, handles\<close>

lemma kept_recv_ping: "kept s (fst (recv_ping f s))"
  by (auto simp: recv_ping_def Let_def split: sum.split)

lemma kept_send_goaway: "kept s (fst (send_goaway r d s))"
  by (simp add: send_goaway_def Let_def)

lemma kept_begin_graceful_shutdown: "kept s (fst (begin_graceful_shutdown s))"
  by (auto simp: begin_graceful_shutdown_def Let_def split: sum.split)

lemma kept_handles:
  "kept s (store_task_handles rd pump s)" "kept s (fst (take_read_handle s))"
  "kept s (fst (take_pump_handle s))" "kept s (fst (writer_start s))" "kept s (fst (writer_end s))"
  "kept s (fst (release_writers s))" "kept s (stop_pump s)"
  by (simp_all add: store_task_handles_def take_read_handle_def take_pump_handle_def
      writer_start_def writer_end_def release_writers_def Let_def stop_pump_def)

subsection \<open>Aborted streams\<close>

definition shrunk :: "'h inner \<Rightarrow> 'h inner \<Rightarrow> bool" where
  "shrunk s s' \<longleftrightarrow> (conn_ok s \<longrightarrow> conn_ok s' \<and> recv_total s' \<le> recv_total s)"

lemma shrunk_trans: "shrunk s t \<Longrightarrow> shrunk t u \<Longrightarrow> shrunk s u"
  by (auto simp: shrunk_def)

lemma kept_shrunk: "kept s t \<Longrightarrow> shrunk s t"
  by (simp add: kept_def shrunk_def)

lemma abort_stream_ok:
  assumes "conn_ok s"
  shows "conn_ok (fst (abort_stream sid r s))"
    and "recv_total (fst (abort_stream sid r s))
         + (case entry_of sid s of Some e \<Rightarrow> int (e_recv_unreleased e) | None \<Rightarrow> 0) = recv_total s"
    and "entry_of j (fst (abort_stream sid r s)) = (if j = sid then None else entry_of j s)"
proof -
  have "conn_ok (fst (abort_stream sid r s))
    \<and> recv_total (fst (abort_stream sid r s))
         + (case entry_of sid s of Some e \<Rightarrow> int (e_recv_unreleased e) | None \<Rightarrow> 0) = recv_total s
    \<and> entry_of j (fst (abort_stream sid r s)) = (if j = sid then None else entry_of j s)"
  proof (cases "entry_of sid s")
    case None
    then show ?thesis using assms by (simp add: abort_stream_def)
  next
    case (Some e)
    define st where "st = (case r of Some c \<Rightarrow> handle_error (remote_go_away [] c) (e_state e)
                     | None \<Rightarrow> recv_eof (e_state e))"
    have cl: "is_closed st" by (simp add: st_def split: option.split)
    let ?e = "e\<lparr>e_state := st, e_recv_unreleased := 0, e_data_budget_charged := 0,
                e_recv_reclaimed := True\<rparr>"
    let ?t = "s\<lparr>c_streams := hm_put (c_streams s) sid ?e\<rparr>"
    have t: "entry_of sid ?t = Some ?e" by (simp add: entry_of_def)
    have owe: "\<not> owes_ledger ?e" by (simp add: owes_ledger_def)
    have abort: "fst (abort_stream sid r s) = drop_entry sid (fst (close_stream sid ?t))"
      by (simp add: abort_stream_def Some Let_def split_beta upd_entry_Some [OF Some] st_def)
    show ?thesis
    proof (cases "e_finished e")
      case True
      then have "close_stream sid ?t = (?t, 0)" using t by (intro close_stream_other) simp
      then have "fst (abort_stream sid r s) = s\<lparr>c_streams := hm_del (c_streams s) sid\<rparr>"
        by (simp add: abort drop_entry_def)
      then show ?thesis
        using conn_ok_drop_finished [OF assms Some True] Some
        by (simp add: recv_total_def) (simp add: entry_of_def)
    next
      case False
      have "entry_ok sid ?e" using conn_ok_entry [OF assms Some] cl False by (simp add: entry_ok_def)
      moreover have "same_place e ?e" by (simp add: same_place_def)
      ultimately have ok: "conn_ok ?t"
        using conn_ok_put [OF assms Some] conn_ok_ledger [OF assms] by simp
      let ?u = "fst (close_stream sid ?t)"
      have u: "entry_of i ?u = (if i = sid then None else entry_of i s)" for i
        using entry_of_close_stream [OF ok, of i sid] t cl False owe
        by (simp add: entry_of_def)
      have "drop_entry sid ?u = ?u"
        using u [of sid] hm_sum_del_notin [of "c_streams ?u" sid] by (simp add: drop_entry_def entry_of_def)
      moreover have "recv_total ?t + int (e_recv_unreleased e) = recv_total s"
        using unreleased_put [OF Some, of ?e] by (simp add: recv_total_def)
      ultimately show ?thesis
        using conn_ok_close_stream [OF ok] recv_total_close_stream [OF ok] Some u by (simp add: abort)
    qed
  qed
  then show "conn_ok (fst (abort_stream sid r s))"
    and "recv_total (fst (abort_stream sid r s))
         + (case entry_of sid s of Some e \<Rightarrow> int (e_recv_unreleased e) | None \<Rightarrow> 0) = recv_total s"
    and "entry_of j (fst (abort_stream sid r s)) = (if j = sid then None else entry_of j s)"
    by blast+
qed

lemma abort_all_ok:
  "conn_ok s \<Longrightarrow> conn_ok (fst (abort_all sids r s)) \<and> recv_total (fst (abort_all sids r s)) \<le> recv_total s
     \<and> entry_of j (fst (abort_all sids r s)) = (if j \<in> set sids then None else entry_of j s)"
proof (induction sids r s rule: abort_all.induct)
  case (1 r s)
  then show ?case by simp
next
  case (2 sid sids r s)
  obtain s1 x f1 where a: "abort_stream sid r s = (s1, x, f1)" by (cases "abort_stream sid r s")
  have s1: "conn_ok s1" "recv_total s1 \<le> recv_total s"
    "entry_of j s1 = (if j = sid then None else entry_of j s)"
    using abort_stream_ok(1,2) [OF 2(2), of sid r] abort_stream_ok(3) [OF 2(2), of j sid r]
    by (auto simp: a split: option.splits if_splits)
  show ?case
    using 2(1) [OF a [symmetric] refl s1(1)] s1 by (auto simp: a split_beta)
qed

lemma shrunk_recv_go_away: "shrunk s (fst (H2Streams_recv_go_away f s))"
proof -
  let ?s = "s\<lparr>c_goaway_last_id := Some (ga_last_stream_id f),
      c_goaway := Some \<lparr>gi_last_stream_id = ga_last_stream_id f, gi_reason = ga_error_code f,
                        gi_debug_data = ga_debug_data f\<rparr>\<rparr>"
  have "kept s ?s" by simp
  moreover have "shrunk ?s (fst (abort_all sids r ?s))" for sids r
    using abort_all_ok [of ?s sids r] by (simp add: shrunk_def)
  ultimately have "shrunk s ?s" and "shrunk s (fst (abort_all sids r ?s))" for sids r
    using shrunk_trans [OF kept_shrunk] kept_shrunk by blast+
  moreover have "shrunk s s" by (simp add: shrunk_def)
  ultimately show ?thesis
    by (simp add: H2Streams_recv_go_away_def Let_def split_beta)
qed

lemma shrunk_fail_all: "shrunk s (fst (fail_all s))"
  using abort_all_ok [of s "hm_keys (c_streams s)" None]
  by (simp add: shrunk_def fail_all_def split_beta)

lemma shrunk_conn_fail: "shrunk s (fst (conn_fail exc msg s))"
proof -
  have "shrunk s (fst (fail_all (s\<lparr>c_error := x\<rparr>)))" for x
    by (rule shrunk_trans [OF kept_shrunk shrunk_fail_all]) simp
  then show ?thesis using shrunk_fail_all [of s] by (auto simp: conn_fail_def)
qed

text \<open>Nothing is left of the streams.\<close>

lemma fail_all_empty:
  assumes "conn_ok s"
  shows "c_streams (fst (fail_all s)) = []" and "c_num_active (fst (fail_all s)) = 0"
proof -
  let ?t = "fst (fail_all s)"
  have ok: "conn_ok ?t" using shrunk_fail_all [of s] assms by (simp add: shrunk_def)
  have none: "entry_of j ?t = None" for j
    using abort_all_ok [OF assms, of "hm_keys (c_streams s)" None j]
    by (auto simp: fail_all_def split_beta entry_of_def hm_get_None_iff)
  show e: "c_streams ?t = []"
  proof (cases "c_streams ?t")
    case (Cons x xs)
    then show ?thesis using none [of "fst x"] by (cases x) (simp add: entry_of_def)
  qed simp
  show "c_num_active ?t = 0" using ok e by (simp add: conn_ok_def store_ok_def)
qed

subsection \<open>The start\<close>

lemma conn_ok_new: "conn_ok (inner_new hp cf)" "recv_total (inner_new hp cf) = 65535"
proof -
  have w: "send_flow_ok (flow_open 65535)" "fc_window (flow_open 65535) = 65535"
    "fc_available (flow_open 65535) = 65535"
    using fc_inc_window_ok [of 65535 fc_new]
      fc_assign_capacity_ok [of 65535 "fc_new\<lparr>fc_window := 65535\<rparr>"]
    by (simp_all add: flow_open_def send_flow_ok_def fc_new_def fc_ok_def in_i32_def)
  then show "recv_total (inner_new hp cf) = 65535"
    by (simp add: recv_total_def unreleased_def inner_new_def DEFAULT_INITIAL_WINDOW_SIZE_def)
  show "conn_ok (inner_new hp cf)"
    using w enc_ok_new [of hp]
    by (simp add: conn_ok_defs inner_new_def DEFAULT_INITIAL_WINDOW_SIZE_def entry_of_def
        peer_settings_new_def encoder_new_def send_flow_ok_def)
qed

lemma h2_begin_ok:
  assumes "conn_ok s" and "recv_total s = 65535" and "c_conn_recv_target s < 2 ^ 31"
    and "h2_begin s = (s', Inr ())"
  shows "conn_ok s'" and "recv_total s' = int (max 65535 (c_conn_recv_target s))"
proof -
  define d where "d = saturating_sub (c_conn_recv_target s) DEFAULT_INITIAL_WINDOW_SIZE"
  have d: "int d = int (max 65535 (c_conn_recv_target s)) - 65535"
    by (simp add: d_def saturating_sub_def DEFAULT_INITIAL_WINDOW_SIZE_def)
  define u where "u = (if c_role s = Client then push H2_PREFACE s else s)"
  obtain out where e: "encode_settings (ss_local (c_settings u)) = Inr out"
    using assms(4) by (auto simp: h2_begin_def Let_def u_def [symmetric] split: sum.splits)
  define t where "t = push out u\<lparr>c_settings := settings_mark_sent (c_settings (push out u))\<rparr>"
  have tgt: "c_conn_recv_target t = c_conn_recv_target s"
    by (simp add: t_def u_def push_def)
  have s': "s' = (if 0 < d then reclaim_conn d t else t)"
    using assms(4)
    unfolding h2_begin_def Let_def u_def [symmetric] e sum.case t_def [symmetric] tgt
    by (auto simp: d_def split: if_splits)
  have t: "kept s t" by (simp add: t_def u_def)
  have tk: "conn_ok t" "recv_total t = 65535" using t assms(1,2) by (simp_all add: kept_def)
  have "conn_ok s' \<and> recv_total s' = 65535 + int d"
    using reclaim_conn_ok [OF tk(1), of d] tk d assms(3) s' by auto
  then show "conn_ok s'" and "recv_total s' = int (max 65535 (c_conn_recv_target s))"
    using d by simp_all
qed

end
