(* ===== verification/Frame_Events.thy ===== *)
theory Frame_Events
  imports Frame_Stream Conn_Preserve_Control
begin

section \<open>What the decoder hands to the connection\<close>

text \<open>
  The range of every value in an event of \<open>Decoder::receive_frames\<close>: stream identifiers and window
  increments below \<open>2 ^ 31\<close>, the lengths of a DATA frame consistent with its payload, and an
  initial window the flow-control windows can hold. These are the assumptions the connection's
  handlers rest on, whatever bytes the peer sends.
\<close>

fun event_ok :: "frame_event \<Rightarrow> bool" where
  "event_ok (EHeaders f) \<longleftrightarrow> he_stream_id f < 2 ^ 31"
| "event_ok (EData f) \<longleftrightarrow> 0 < de_stream_id f \<and> de_stream_id f < 2 ^ 31 \<and> data_event_ok f"
| "event_ok (ESettings f) \<longleftrightarrow> seen_ok f"
| "event_ok (EWindowUpdate f) \<longleftrightarrow> wu_stream_id f < 2 ^ 31 \<and> 0 < wu_size_increment f \<and> wu_size_increment f < 2 ^ 31"
| "event_ok (EPing f) \<longleftrightarrow> length (pf_payload f) = 8"
| "event_ok (EGoAway f) \<longleftrightarrow> ga_last_stream_id f < 2 ^ 31"
| "event_ok (ERstStream f) \<longleftrightarrow> rf_stream_id f < 2 ^ 31"
| "event_ok (EPriority sid) \<longleftrightarrow> sid < 2 ^ 31"
| "event_ok (EStreamError sid r) \<longleftrightarrow> sid < 2 ^ 31"

text \<open>The block being assembled belongs to a stream in range, and the dynamic table is within its
  limit.\<close>

definition decoder_ok :: "frame_decoder \<Rightarrow> bool" where
  "decoder_ok d \<longleftrightarrow>
     (\<forall>p. dc_partial d = Some p \<longrightarrow> pt_stream_id p < 2 ^ 31) \<and> table_ok (hd_table (dc_decoder d))"

lemma decoder_ok_new [simp]: "decoder_ok (frame_decoder_new b)"
  by (simp add: decoder_ok_def frame_decoder_new_def hpack_decoder_new_def)

lemma decoder_ok_buf [simp]:
  "decoder_ok (d\<lparr>dc_buf := b\<rparr>) = decoder_ok d" "decoder_ok (d\<lparr>dc_preface_ok := x\<rparr>) = decoder_ok d"
  "decoder_ok (d\<lparr>dc_preface_buf := y\<rparr>) = decoder_ok d"
  by (simp_all add: decoder_ok_def)

text \<open>What one decoded frame may be: an event in range, or an error that is not a panic.\<close>

definition yields_ok :: "decode_result \<Rightarrow> bool" where
  "yields_ok r \<longleftrightarrow>
     decoder_ok (fst r) \<and> (\<forall>ev. snd r = Inr (Some ev) \<longrightarrow> event_ok ev) \<and> snd r \<noteq> Inl RustPanic"

lemma not_panic [simp]:
  "dec_protocol_err r msg \<noteq> RustPanic" "load_err e \<noteq> RustPanic"
  "protocol_err_with_debug r msg data \<noteq> RustPanic"
  by (simp_all add: load_err_def dec_protocol_err_def protocol_err_with_debug_def)

lemma header_block_load_ok:
  assumes "header_block_load env src m dec hb = (hb', src', dec', r)" and "table_ok (hd_table dec)"
  shows "table_ok (hd_table dec')" and "r \<noteq> Inl LPanic"
  using assms
  by (auto simp: header_block_load_def Let_def dest: hpack_decode_ok split: prod.splits sum.splits hpack_abort.splits
      if_splits)

lemma classify_no_panic: "r \<noteq> Inl LPanic \<Longrightarrow> classify_hpack r b \<noteq> Inl RustPanic"
  by (auto simp: classify_hpack_def split: sum.split load_abort.split)

lemma yields_load_partial:
  assumes "pt_stream_id p < 2 ^ 31" and "decoder_ok d"
  shows "yields_ok (load_partial env eh p d)"
proof -
  obtain hb buf dec r where l: "header_block_load env (pt_buf p) (dc_max_header_list_size d)
      (dc_decoder d) (pt_block p) = (hb, buf, dec, r)" by (metis surj_pair)
  have "table_ok (hd_table (dc_decoder d))" using assms(2) by (simp add: decoder_ok_def)
  note ok = header_block_load_ok [OF l this]
  have d1: "decoder_ok (d\<lparr>dc_decoder := dec\<rparr>)"
    and d2: "decoder_ok (d\<lparr>dc_decoder := dec, dc_partial := Some (p\<lparr>pt_block := hb, pt_buf := buf\<rparr>)\<rparr>)"
    using assms ok(1) by (simp_all add: decoder_ok_def)
  show ?thesis
    unfolding load_partial_def l prod.case Let_def
    using classify_no_panic [OF ok(2), of eh] assms(1) d1 d2
    by (auto simp: yields_ok_def headers_event_of_def split: sum.split hpack_outcome.split prod.split)
qed

lemma headers_load_id:
  assumes "headers_load h payload = Inr (pre, block)"
  shows "hp_stream_id pre = h_stream_id h"
proof -
  have "hp_stream_id pre = i"
    if "(if a then Inl x else if b then Inl y else
          case dep of Inl e \<Rightarrow> Inl e
          | Inr (sd, src) \<Rightarrow> if c src then Inl z
              else Inr (\<lparr>hp_stream_id = i, hp_stream_dep = sd, hp_flags = fl\<rparr>, blk src)) = Inr (pre, block)"
    for a b c i x y z fl dep and blk :: "bytes \<Rightarrow> bytes"
    using that by (auto split: sum.splits prod.splits if_splits)
  from this [OF assms [unfolded headers_load_def Let_def]] show ?thesis .
qed

lemma yields_headers:
  "h_stream_id h < 2 ^ 31 \<Longrightarrow> decoder_ok d \<Longrightarrow> yields_ok (decode_headers env h payload d)"
  using headers_load_id [of h payload]
  by (auto simp: decode_headers_def intro: yields_load_partial split: sum.splits prod.splits frame_error.splits)
    (auto simp: yields_ok_def)

lemma yields_continuation:
  assumes "decoder_ok d"
  shows "yields_ok (decode_continuation env h payload d)"
proof -
  let ?d = "d\<lparr>dc_partial := None\<rparr>"
  have d: "decoder_ok ?d" using assms by (simp add: decoder_ok_def)
  have err: "e \<noteq> RustPanic \<Longrightarrow> yields_ok (?d, Inl e)" for e using d by (simp add: yields_ok_def)
  show ?thesis
  proof (cases "dc_partial d")
    case None
    then show ?thesis by (simp add: decode_continuation_def err)
  next
    case (Some p)
    then have "pt_stream_id p < 2 ^ 31" using assms by (simp add: decoder_ok_def)
    then have "yields_ok (load_partial env eh (p\<lparr>pt_count := n, pt_buf := b\<rparr>) ?d)" for eh n b
      using d by (intro yields_load_partial) simp_all
    then show ?thesis
      unfolding decode_continuation_def Let_def Some option.case by (simp add: err)
  qed
qed

lemma data_load_event:
  assumes "data_load h payload = Inr f" and "length payload < 2 ^ 32" and "h_stream_id h < 2 ^ 31"
  shows "event_ok (EData \<lparr>de_stream_id = df_stream_id f, de_end_stream = data_is_end_stream f,
           de_data = df_data f, de_flow_controlled_len = data_flow_controlled_len f,
           de_padding = data_flow_controlled_len f - length (df_data f)\<rparr>)"
  using data_load_flow [OF assms(1)] assms(2,3) by (simp add: data_event_ok_def)

lemma window_update_load_ok:
  "window_update_load h payload = Inr w \<Longrightarrow> h_stream_id h < 2 ^ 31 \<Longrightarrow> event_ok (EWindowUpdate w)"
  by (auto simp: window_update_load_def Let_def split: if_splits)

lemma ping_load_ok: "ping_load h payload = Inr w \<Longrightarrow> event_ok (EPing w)"
  by (auto simp: ping_load_def split: if_splits)

lemma goaway_load_ok: "goaway_load h payload = Inr w \<Longrightarrow> event_ok (EGoAway w)"
  using stream_id_parse_less [of "take 4 payload"]
  by (auto simp: goaway_load_def split: if_splits)

lemma reset_load_ok: "reset_load h payload = Inr w \<Longrightarrow> h_stream_id h < 2 ^ 31 \<Longrightarrow> event_ok (ERstStream w)"
  by (auto simp: reset_load_def split: if_splits)

lemma yields_decode_one:
  assumes "decoder_ok d" and "length frame_buf < 2 ^ 32"
  shows "yields_ok (decode_one env frame_buf d)"
proof -
  define h where "h = head_parse (take HEADER_LEN frame_buf)"
  define payload where "payload = drop HEADER_LEN frame_buf"
  have h: "h_stream_id h < 2 ^ 31" by (simp only: h_def head_parse_less)
  have p: "length payload < 2 ^ 32" using assms(2) by (simp add: payload_def)
  note ok = yields_headers [OF h assms(1), of env payload]
    yields_continuation [OF assms(1), of env h payload]
    data_load_event [OF _ p h] window_update_load_ok [OF _ h, of payload] ping_load_ok [of h payload]
    goaway_load_ok [of h payload] reset_load_ok [OF _ h, of payload] settings_seen_ok [of h payload]
  show ?thesis
    unfolding decode_one_def Let_def h_def [symmetric] payload_def [symmetric]
    using ok(1,2) assms(1)
    by (cases "h_kind h")
      (auto simp: yields_ok_def h [simplified] simp del: event_ok.simps(2,4,5,6,7)
        intro: ok(3,4,5,6,7,8) split: sum.splits frame_error.splits)
qed

lemma wire_payload_len_less: "wire_payload_len b < 2 ^ 24"
proof -
  have u: "unat (b ! i) < 256" for i
    using unsigned_less [of "b ! i", where ?'a = nat] by simp
  have "x * 2 ^ 16 + y * 2 ^ 8 + z < 2 ^ 24" if "x < 256" "y < 256" "z < 256" for x y z :: nat
    using that by simp
  from this [OF u u u] show ?thesis by (simp only: wire_payload_len_def be24_def)
qed

lemma receive_loop_events:
  "decoder_ok d \<Longrightarrow> \<forall>ev \<in> set out. event_ok ev \<Longrightarrow> receive_loop env d out = (d', r) \<Longrightarrow>
   decoder_ok d' \<and> r \<noteq> Inl RustPanic \<and> (\<forall>evs. r = Inr evs \<longrightarrow> (\<forall>ev \<in> set evs. event_ok ev))"
proof (induction env d out arbitrary: d' r rule: receive_loop.induct)
  case (1 env d out)
  define n where "n = wire_payload_len (dc_buf d)"
  define t where "t = HEADER_LEN + n"
  define x where "x = decode_one env (take t (dc_buf d)) (d\<lparr>dc_buf := drop t (dc_buf d)\<rparr>)"
  have n: "n < 2 ^ 24" by (simp only: n_def wire_payload_len_less)
  have x: "yields_ok x"
    unfolding x_def by (rule yields_decode_one) (use 1(2) n in \<open>simp_all add: t_def HEADER_LEN_def\<close>)
  have step: "receive_loop env d out =
    (if length (dc_buf d) < HEADER_LEN then (d, Inr out)
     else if dc_max_recv_frame_size d < n then
       (d, Inl (dec_protocol_err FRAME_SIZE_ERROR ''frame length exceeds SETTINGS_MAX_FRAME_SIZE''))
     else if length (dc_buf d) < t then (d, Inr out)
     else case x of (d1, Inl e) \<Rightarrow> (d1, Inl e)
       | (d1, Inr ev) \<Rightarrow> receive_loop env d1 (out @ (case ev of Some y \<Rightarrow> [y] | None \<Rightarrow> [])))"
    by (subst receive_loop.simps) (simp add: Let_def n_def t_def x_def)
  show ?case
  proof (cases "length (dc_buf d) < HEADER_LEN \<or> dc_max_recv_frame_size d < n \<or> length (dc_buf d) < t")
    case True
    then show ?thesis using 1(2,3,4) unfolding step by (auto split: if_splits)
  next
    case False
    obtain d1 y where xy: "x = (d1, y)" by fastforce
    show ?thesis
    proof (cases y)
      case (Inl e)
      then show ?thesis using 1(4) False x unfolding step xy by (auto simp: yields_ok_def)
    next
      case (Inr ev)
      have p1: "decoder_ok d1" and ev: "\<forall>z \<in> set (case ev of Some y \<Rightarrow> [y] | None \<Rightarrow> []). event_ok z"
        using x by (auto simp: xy Inr yields_ok_def split: option.split)
      have ih: "receive_loop env d1 (out @ (case ev of Some y \<Rightarrow> [y] | None \<Rightarrow> [])) = (d', r) \<Longrightarrow> ?thesis"
        using 1(1) [OF _ n_def t_def] False x_def xy Inr p1 ev 1(3)
        by (metis (no_types, lifting) UnE set_append)
      show ?thesis
        by (rule ih) (use 1(4) False in \<open>simp add: step xy Inr\<close>)
    qed
  qed
qed

lemma receive_frames_events:
  assumes "decoder_ok d" and "receive_frames env data d = (d', r)"
  shows "decoder_ok d' \<and> r \<noteq> Inl RustPanic \<and> (\<forall>evs. r = Inr evs \<longrightarrow> (\<forall>ev \<in> set evs. event_ok ev))"
proof (cases "dc_expect_preface d \<and> \<not> dc_preface_ok d")
  case True
  obtain d1 v where f: "feed_preface data d = (d1, v)" by fastforce
  then have "decoder_ok d1"
    using assms(1) by (auto simp: feed_preface_def Let_def split: if_splits)
  then show ?thesis
    using assms(2) True receive_loop_events [of "d1\<lparr>dc_preface_ok := True\<rparr>" "[]" env d' r]
    by (auto simp: receive_frames_def f split: option.splits bool.splits)
next
  case False
  then show ?thesis
    using assms receive_loop_events [of "d\<lparr>dc_buf := dc_buf d @ data\<rparr>" "[]" env d' r]
    by (auto simp: receive_frames_def)
qed

end
