(* ===== verification/Conn_Run.thy ===== *)
theory Conn_Run
  imports Frame_Events
begin

section \<open>The life of a connection\<close>

text \<open>
  The operations of \<open>H2Streams\<close> (src/h2/conn.rs) as one system: what the read pump does with a
  decoded event, what the application and the write pump call, and what they must have done before.
  A run is any sequence of such calls. The invariant of \<open>Conn_Invariant\<close> holds after every prefix
  of every run, whatever the peer sends.
\<close>

subsection \<open>The calls\<close>

datatype conn_op =
    PeerEvent nat "pyobj option" frame_event     \<comment> \<open>\<open>recv_*\<close>, by the kind of the frame\<close>
  | ResetOnError nat u32 reason
  | GoAwayReply
  | SendGoAwayFrame u32 "bytes option"
  | BeginGraceful
  | ConnFail "pyobj option" string
  | ReleaseCapacity u32 u32
  | ReleaseDataFrame u32 usize
  | Accepted u32
  | ClaimSlot
  | ReleaseSlot
  | ApplyStreamLimit "usize option"
  | OpenStream string string header_map bool bool pyobj "string option" "string option"
  | SendDataCall nat u32 bytes usize bool
  | SendTrailersCall nat u32 header_map
  | SendHeadCall nat u32 u16 header_map bool
  | ResetStream nat u32 u32 string
  | CloseBody nat u32
  | TakePending | DropBatch | CreditWritten | NextCapacityWake
  | StopPump | WriterStart | WriterEnd | ReleaseWriters

text \<open>The handler of one event, on the state and the decoder (a SETTINGS ACK changes both).\<close>

fun handle_event ::
  "'h hpack_ops \<Rightarrow> nat \<Rightarrow> pyobj option \<Rightarrow> frame_event \<Rightarrow> 'h inner \<times> frame_decoder
   \<Rightarrow> 'h inner \<times> frame_decoder" where
  "handle_event hp now spare (EHeaders f) (s, d) = (fst (recv_headers hp now f spare s), d)"
| "handle_event hp now spare (EData f) (s, d) = (fst (recv_data now f s), d)"
| "handle_event hp now spare (ESettings f) (s, d) = fst (H2Streams_recv_settings hp f (s, d))"
| "handle_event hp now spare (EWindowUpdate f) (s, d) = (fst (recv_window_update f s), d)"
| "handle_event hp now spare (EPing f) (s, d) = (fst (recv_ping f s), d)"
| "handle_event hp now spare (EGoAway f) (s, d) = (fst (H2Streams_recv_go_away f s), d)"
| "handle_event hp now spare (ERstStream f) (s, d) = (fst (H2Streams_recv_reset f s), d)"
| "handle_event hp now spare (EPriority sid) (s, d) = (s, d)"
| "handle_event hp now spare (EStreamError sid r) (s, d) = (fst (reset_on_error now sid r s), d)"

fun conn_call ::
  "'h hpack_ops \<Rightarrow> http_ops \<Rightarrow> conn_op \<Rightarrow> 'h inner \<times> frame_decoder \<Rightarrow> 'h inner \<times> frame_decoder"
where
  "conn_call hp http (PeerEvent now spare ev) sd = handle_event hp now spare ev sd"
| "conn_call hp http (ResetOnError now sid r) (s, d) = (fst (reset_on_error now sid r s), d)"
| "conn_call hp http GoAwayReply (s, d) = (fst (maybe_goaway_reply s), d)"
| "conn_call hp http (SendGoAwayFrame r dbg) (s, d) = (fst (send_goaway r dbg s), d)"
| "conn_call hp http BeginGraceful (s, d) = (fst (begin_graceful_shutdown s), d)"
| "conn_call hp http (ConnFail exc msg) (s, d) = (fst (conn_fail exc msg s), d)"
| "conn_call hp http (ReleaseCapacity sid n) (s, d) = (fst (release_capacity sid n s), d)"
| "conn_call hp http (ReleaseDataFrame sid n) (s, d) = (release_data_frame sid n s, d)"
| "conn_call hp http (Accepted sid) (s, d) = (accepted sid s, d)"
| "conn_call hp http ClaimSlot (s, d) = (fst (try_claim_slot s), d)"
| "conn_call hp http ReleaseSlot (s, d) = (release_slot_count s, d)"
| "conn_call hp http (ApplyStreamLimit l) (s, d) = (apply_stream_limit l s, d)"
| "conn_call hp http (OpenStream m t flds eos ih h sch au) (s, d) =
     (fst (open_stream hp http m t flds eos ih h sch au s), d)"
| "conn_call hp http (SendDataCall now sid data off eos) (s, d) =
     (fst (send_data now sid data off eos s), d)"
| "conn_call hp http (SendTrailersCall now sid tr) (s, d) = (fst (send_trailers hp now sid tr s), d)"
| "conn_call hp http (SendHeadCall now sid status flds eos) (s, d) =
     (fst (send_response_head hp http now sid status flds eos s), d)"
| "conn_call hp http (ResetStream now sid r i) (s, d) =
     (fst (H2Streams_reset_stream now sid r i s), d)"
| "conn_call hp http (CloseBody now sid) (s, d) = (fst (aclose_body now sid s), d)"
| "conn_call hp http TakePending (s, d) = (fst (take_pending s), d)"
| "conn_call hp http DropBatch (s, d) = (write_batch_drop s, d)"
| "conn_call hp http CreditWritten (s, d) = (fst (credit_written s), d)"
| "conn_call hp http NextCapacityWake (s, d) = (fst (next_capacity_wake s), d)"
| "conn_call hp http StopPump (s, d) = (stop_pump s, d)"
| "conn_call hp http WriterStart (s, d) = (fst (writer_start s), d)"
| "conn_call hp http WriterEnd (s, d) = (fst (writer_end s), d)"
| "conn_call hp http ReleaseWriters (s, d) = (fst (release_writers s), d)"

text \<open>
  What the caller owes: events come from the decoder; the reader releases what it took; a slot is
  claimed before a stream is opened or the claim is given back; the next identifier is unused.
\<close>

definition slot_claimed :: "'h inner \<Rightarrow> bool" where
  "slot_claimed s \<longleftrightarrow> slots_held s < c_num_open_streams s"

fun conn_may :: "conn_op \<Rightarrow> 'h inner \<Rightarrow> bool" where
  "conn_may (PeerEvent now spare ev) s \<longleftrightarrow> event_ok ev"
| "conn_may (ReleaseCapacity sid n) s \<longleftrightarrow> may_release sid n s"
| "conn_may ClaimSlot s \<longleftrightarrow> c_num_open_streams s + 1 < 2 ^ 64"
| "conn_may ReleaseSlot s \<longleftrightarrow> slot_claimed s"
| "conn_may (OpenStream m t flds eos ih h sch au) s \<longleftrightarrow>
     slot_claimed s \<and> entry_of (c_next_id s) s = None \<and> 0 < c_next_id s"
| "conn_may op s \<longleftrightarrow> True"

definition conn_step ::
  "'h hpack_ops \<Rightarrow> http_ops \<Rightarrow> conn_op \<Rightarrow> 'h inner \<times> frame_decoder
   \<Rightarrow> ('h inner \<times> frame_decoder) option" where
  "conn_step hp http op sd = (if conn_may op (fst sd) then Some (conn_call hp http op sd) else None)"

subsection \<open>The invariant along a run\<close>

lemma shrunk_maybe_goaway_reply: "shrunk s (fst (maybe_goaway_reply s))"
  by (rule kept_shrunk) (simp add: maybe_goaway_reply_def)

lemma shrunk_handle_event:
  assumes "event_ok ev"
  shows "shrunk s (fst (handle_event hp now spare ev (s, d)))"
  using assms
proof (cases ev)
  case (ESettings f)
  then show ?thesis
    using assms kept_recv_settings [of f s hp d] by (simp add: kept_shrunk)
qed (use assms in \<open>auto intro!: kept_shrunk shrunk_recv_go_away kept_recv_headers kept_recv_data
  kept_recv_window_update kept_recv_ping kept_recv_reset kept_reset_on_error\<close>)

lemma shrunk_conn_call:
  assumes "conn_may op s"
  shows "shrunk s (fst (conn_call hp http op (s, d)))"
proof (cases op)
  case (PeerEvent now spare ev)
  then show ?thesis using assms shrunk_handle_event by simp
next
  case (ConnFail exc msg)
  then show ?thesis using shrunk_conn_fail by simp
qed (use assms in \<open>auto simp: slot_claimed_def kept_handles intro!: kept_shrunk
  kept_reset_on_error kept_send_goaway kept_begin_graceful_shutdown kept_release_capacity
  kept_release_data_frame kept_accepted kept_try_claim_slot kept_release_slot_count
  kept_apply_stream_limit kept_open_stream kept_send_data kept_send_trailers
  kept_send_response_head kept_H2Streams_reset_stream kept_aclose_body kept_take_pending
  kept_write_batch_drop kept_credit_written kept_next_capacity_wake shrunk_maybe_goaway_reply\<close>)

text \<open>The condition of the runs: the invariant, with a bound on the receive ledger.\<close>

definition conn_within :: "int \<Rightarrow> 'h inner \<times> frame_decoder \<Rightarrow> bool" where
  "conn_within n sd \<longleftrightarrow> conn_ok (fst sd) \<and> recv_total (fst sd) \<le> n"

interpretation conn: preserved "conn_step hp http" "conn_within n"
  for hp :: "'h hpack_ops" and http n
proof unfold_locales
  fix op :: conn_op and sd t :: "'h inner \<times> frame_decoder"
  assume "conn_step hp http op sd = Some t" and "conn_within n sd"
  then show "conn_within n t"
    using shrunk_conn_call [of op "fst sd" hp http "snd sd"]
    by (auto simp: conn_step_def conn_within_def shrunk_def split: if_splits)
qed

text \<open>A connection as its constructor and \<open>begin\<close> leave it.\<close>

definition conn_started :: "'h hpack_ops \<Rightarrow> config \<Rightarrow> 'h inner \<times> frame_decoder \<Rightarrow> bool" where
  "conn_started hp cf sd \<longleftrightarrow>
     (\<exists>s. H2Streams_new hp cf = Inr (s, snd sd) \<and> h2_begin s = (fst sd, Inr ()))"

lemma H2Streams_new_parts:
  assumes "H2Streams_new hp cf = Inr (s, d)"
  shows "s = inner_new hp cf" and "cf_connection_window cf < 2 ^ 31" and "decoder_ok d"
proof -
  have "check_windows (cf_initial_window_size cf) (cf_connection_window cf) = Inr ()"
    using assms by (auto simp: H2Streams_new_def Let_def split: sum.splits)
  then show "cf_connection_window cf < 2 ^ 31"
    by (simp add: check_windows_def MAX_WINDOW_SIZE_def split: if_splits)
  show "s = inner_new hp cf" and "decoder_ok d"
    using assms
    by (auto simp: H2Streams_new_def Let_def set_max_recv_frame_size_def set_max_header_list_size_def
        decoder_ok_def frame_decoder_new_def hpack_decoder_new_def split: sum.splits option.splits)
qed

lemma conn_started_within:
  assumes "conn_started hp cf sd"
  shows "conn_within (int (max 65535 (cf_connection_window cf))) sd"
    and "recv_total (fst sd) = int (max 65535 (cf_connection_window cf))" and "decoder_ok (snd sd)"
proof -
  obtain s where new: "H2Streams_new hp cf = Inr (s, snd sd)" and start: "h2_begin s = (fst sd, Inr ())"
    using assms by (auto simp: conn_started_def)
  note parts = H2Streams_new_parts [OF new]
  have target: "c_conn_recv_target s = cf_connection_window cf"
    by (simp add: parts(1) inner_new_def)
  have "conn_ok s" "recv_total s = 65535" using conn_ok_new [of hp cf] by (simp_all add: parts(1))
  from h2_begin_ok [OF this, of "fst sd"] parts(2) start target
  show "conn_within (int (max 65535 (cf_connection_window cf))) sd"
    and "recv_total (fst sd) = int (max 65535 (cf_connection_window cf))"
    by (simp_all add: conn_within_def)
  show "decoder_ok (snd sd)" by (rule parts(3))
qed

lemma conn_run_within:
  "conn_started hp cf sd \<Longrightarrow> run_ops (conn_step hp http) ops sd = Some t \<Longrightarrow>
   conn_within (int (max 65535 (cf_connection_window cf))) t"
  using conn.run_holds conn_started_within(1) by blast

text \<open>The events of a read are always accepted.\<close>

lemma conn_run_events:
  assumes "\<forall>ev \<in> set evs. event_ok ev" and "conn_within n sd"
  shows "\<exists>t. run_ops (conn_step hp http) (map (PeerEvent now spare) evs) sd = Some t \<and> conn_within n t"
proof -
  have "run_ops (conn_step hp http) (map (PeerEvent now spare) evs) sd \<noteq> None"
    using assms(1) by (induction evs arbitrary: sd) (auto simp: conn_step_def)
  then show ?thesis using conn.run_holds [OF _ assms(2)] by blast
qed

end
