(* ===== verification/Conn_Effects.thy ===== *)
theory Conn_Effects
  imports Conn_Run
begin

section \<open>What the calls do\<close>

text \<open>
  The functional side of the operations of src/h2/conn.rs that the invariant does not show: how much
  \<open>send_data\<close> accepts and what it writes, that it cannot panic, and what the end of the
  connection leaves.
\<close>

subsection \<open>Only bytes are added\<close>

text \<open>The fields the framing of DATA depends on, and the output as a growing sequence.\<close>

definition adds :: "'h inner \<Rightarrow> 'h inner \<Rightarrow> bool" where
  "adds s t \<longleftrightarrow>
     c_conn_send t = c_conn_send s \<and> c_encoder t = c_encoder s \<and> c_peer t = c_peer s
     \<and> (\<exists>out. c_pending t = c_pending s @ out)"

lemma adds_refl [simp, intro]: "adds s s"
  by (simp add: adds_def)

lemma adds_trans [trans]: "adds s t \<Longrightarrow> adds t u \<Longrightarrow> adds s u"
  by (auto simp: adds_def)

lemma adds_push: "adds s t \<Longrightarrow> adds s (push out t)"
  by (auto simp: adds_def push_def)

lemma adds_frame [simp]:
  "adds s (t\<lparr>c_streams := x1\<rparr>) = adds s t" "adds s (t\<lparr>c_num_active := x2\<rparr>) = adds s t"
  "adds s (t\<lparr>c_num_open_streams := x3\<rparr>) = adds s t" "adds s (t\<lparr>c_pending_send := x4\<rparr>) = adds s t"
  "adds s (t\<lparr>c_pending_capacity := x5\<rparr>) = adds s t" "adds s (t\<lparr>c_goaway_replied := x6\<rparr>) = adds s t"
  "adds s (t\<lparr>c_error := x7\<rparr>) = adds s t" "adds s (t\<lparr>c_conn_recv := x8\<rparr>) = adds s t"
  "adds s (t\<lparr>c_data_budget := x9\<rparr>) = adds s t" "adds s (t\<lparr>c_reset_streams := y1\<rparr>) = adds s t"
  "adds s (t\<lparr>c_credit := y2\<rparr>) = adds s t"
  by (simp_all add: adds_def)

lemma adds_upd [simp]: "adds s (upd_entry sid f t) = adds s t"
  by (simp add: upd_entry_def split: option.split)

lemma adds_drop [simp]: "adds s (drop_entry sid t) = adds s t"
  by (simp add: drop_entry_def)

lemma adds_leave_send_queue [simp]: "adds s (fst (leave_send_queue sid t)) = adds s t"
  by (simp add: leave_send_queue_def Let_def split: option.split list.split)

lemma adds_leave_capacity_queue [simp]: "adds s (fst (leave_capacity_queue sid t)) = adds s t"
  by (simp add: leave_capacity_queue_def Let_def split: option.split list.split)

lemma adds_goaway_reply: "adds s t \<Longrightarrow> adds s (fst (maybe_goaway_reply t))"
  by (simp add: maybe_goaway_reply_def adds_push)

lemma adds_stream_gone: "adds s t \<Longrightarrow> adds s (fst (on_stream_gone t))"
  using adds_goaway_reply [of s t] by (simp add: on_stream_gone_def split_beta Let_def)

lemma adds_close_stream: "adds s t \<Longrightarrow> adds s (fst (close_stream sid t))"
  by (auto simp: close_stream_def Let_def split_beta intro!: adds_stream_gone split: option.split)

lemma adds_reclaim_conn: "adds s t \<Longrightarrow> adds s (reclaim_conn n t)"
  by (auto simp: reclaim_conn_def Let_def intro!: adds_push split: option.split)

lemma adds_maybe_remove [simp]: "adds s (maybe_remove_settled sid t) = adds s t"
  by (simp add: maybe_remove_settled_def split: option.split)

lemma adds_reclaim_stream: "adds s t \<Longrightarrow> adds s (reclaim_stream_accounting sid t)"
  by (auto simp: reclaim_stream_accounting_def Let_def intro!: adds_reclaim_conn split: option.split)

lemma adds_reset_expiration [simp]: "adds s (enqueue_reset_expiration now sid t) = adds s t"
  by (simp add: enqueue_reset_expiration_def clear_expired_reset_streams_def Let_def)

lemmas adds_intros = adds_push adds_goaway_reply adds_stream_gone adds_close_stream
  adds_reclaim_conn adds_reclaim_stream

lemma adds_inner_reset_stream: "adds s t \<Longrightarrow> adds s (fst (inner_reset_stream now sid r i t))"
  by (auto simp: inner_reset_stream_def Let_def split_beta intro!: adds_intros split: option.split)

lemma adds_finish_stream: "adds s t \<Longrightarrow> adds s (fst (finish_stream now sid t))"
  by (auto simp: finish_stream_def Let_def split_beta intro!: adds_intros adds_inner_reset_stream
      split: option.split role.split)

subsection \<open>Taking a turn changes nothing but the queues\<close>

definition send_view :: "u32 \<Rightarrow> 'h inner \<Rightarrow> _" where
  "send_view sid s =
     (c_conn_send s, c_encoder s, c_peer s, c_max_send_buf_size s, c_pending s,
      map_option (\<lambda>e. (e_send_flow e, e_send_buffered e, e_state e, e_finished e)) (entry_of sid s))"

lemma send_view_queues [simp]:
  "send_view sid (s\<lparr>c_pending_send := q\<rparr>) = send_view sid s"
  "send_view sid (s\<lparr>c_pending_capacity := q\<rparr>) = send_view sid s"
  by (simp_all add: send_view_def entry_of_def)

lemma send_view_upd:
  assumes "\<And>e. (e_send_flow (f e), e_send_buffered (f e), e_state (f e), e_finished (f e))
                = (e_send_flow e, e_send_buffered e, e_state e, e_finished e)"
  shows "send_view sid (upd_entry j f s) = send_view sid s"
  using assms by (auto simp: send_view_def upd_entry_def entry_of_def split: option.split)

lemma send_view_ops [simp]:
  "send_view sid (enqueue_send j s) = send_view sid s"
  "send_view sid (enqueue_capacity j s) = send_view sid s"
  "send_view sid (fst (leave_send_queue j s)) = send_view sid s"
  "send_view sid (fst (yield_send_turn j s)) = send_view sid s"
  "send_view sid (fst (send_front s)) = send_view sid s"
  "send_view sid (fst (turn_over j e s)) = send_view sid s"
  by (simp_all add: enqueue_send_def enqueue_capacity_def leave_send_queue_def yield_send_turn_def
      send_front_def turn_over_def send_view_upd Let_def split_beta split: option.split list.split)

lemma send_view_entry:
  assumes "send_view sid t = send_view sid s" and "entry_of sid s = Some e"
  shows "\<exists>e'. entry_of sid t = Some e' \<and> e_send_flow e' = e_send_flow e \<and> e_state e' = e_state e
              \<and> e_finished e' = e_finished e \<and> stream_room e' t = stream_room e s"
    and "c_conn_send t = c_conn_send s" and "c_encoder t = c_encoder s" and "c_peer t = c_peer s"
    and "c_pending t = c_pending s"
  using assms by (auto simp: send_view_def stream_room_def)

subsection \<open>One DATA frame\<close>

text \<open>The bytes of a DATA frame.\<close>

definition data_frame_bytes :: "u32 \<Rightarrow> bytes \<Rightarrow> bool \<Rightarrow> bytes" where
  "data_frame_bytes sid payload eos =
     head_encode (head_new KData (if eos then 1 else 0) sid) (length payload) @ payload"

lemma queue_data_fits:
  "length payload \<le> enc_send_max_frame_size (c_encoder s) \<Longrightarrow>
   queue_data sid payload eos s = (push (data_frame_bytes sid payload eos) s, Inr ())"
  by (simp add: queue_data_def enc_encode_data_def data_frame_bytes_def)

text \<open>Closing the send half of a stream that streams succeeds and only adds output.\<close>

lemma close_send_half_streaming:
  assumes "entry_of sid s = Some e" and "is_send_streaming (e_state e)"
  shows "\<exists>t tail. close_send_half now sid s = (t, Inr tail) \<and> adds s t"
proof -
  obtain st where st: "send_close (e_state e) = Some st"
    using send_close_streaming [OF assms(2)] by blast
  let ?u = "upd_entry sid (\<lambda>e. e\<lparr>e_state := st\<rparr>) s"
  obtain t tail where f: "finish_stream now sid ?u = (t, tail)" by (rule prod.exhaust)
  have "adds s (fst (finish_stream now sid ?u))" by (rule adds_finish_stream) simp
  then show ?thesis using assms(1) st f by (cases tail) (simp add: close_send_half_def)
qed

lemma after_frame_view [simp]: "send_view sid (fst (after_frame j b s)) = send_view sid s"
  by (simp add: after_frame_def Let_def split: option.split)

lemma fc_take:
  assumes "send_flow_ok f" and "n \<le> fc_window_size f"
  shows "\<exists>g. fc_send_data n f = Some (g, Inr ()) \<and> fc_window g = fc_window f - int n"
proof -
  have ok: "fc_ok f" "fc_available f = fc_window f" using assms(1) by (simp_all add: send_flow_ok_def)
  have "- (2 ^ 31) \<le> fc_available f - int n"
    using assms(2) ok by (auto simp: fc_window_size_eq fc_ok_def in_i32_def)
  then show ?thesis using fc_send_data_taken [OF ok(1) assms(2)] by auto
qed

lemma send_frame_spec:
  assumes ok: "conn_ok s" and e: "entry_of sid s = Some e"
    and st: "is_send_streaming (e_state e)"
    and off: "off \<le> length data" and small: "length data < 2 ^ 64"
    and room: "budget \<le> stream_room e s" and conn: "budget \<le> fc_window_size (c_conn_send s)"
    and n: "n = min (min budget (length data - off)) (ps_max_frame_size (c_peer s))"
  shows "\<exists>t v. send_frame now sid data off eos budget before s = (t, Inr v) \<and> sdv_sent v = n
    \<and> sdv_done v = (n = length data - off)
    \<and> fc_window (c_conn_send t) = fc_window (c_conn_send s) - int n
    \<and> (\<exists>rest. c_pending t = c_pending s
         @ data_frame_bytes sid (take n (drop off data)) (eos \<and> n = length data - off) @ rest)"
proof -
  let ?final = "eos \<and> n = length data - off"
  have cs: "send_flow_ok (c_conn_send s)" and ms: "ps_max_frame_size (c_peer s) = enc_send_max_frame_size (c_encoder s)"
    using ok by (simp_all add: conn_ok_def conn_send_ok_def peer_ok_def)
  have es: "send_flow_ok (e_send_flow e)" using conn_ok_entry [OF ok e] by (simp add: entry_ok_def)
  have nb: "n \<le> fc_window_size (c_conn_send s)" "n \<le> fc_window_size (e_send_flow e)"
    using n room conn by (simp_all add: stream_room_def min_le_iff_disj)
  have n32: "n < 2 ^ 32"
    using nb(1) fc_window_size_bound [of "c_conn_send s"] cs
    by (simp add: send_flow_ok_def MAX_WINDOW_SIZE_def)
  have want: "usize_sub (length data) off = length data - off"
    using off by (simp add: usize_sub_def)
  obtain cf where cf: "fc_send_data n (c_conn_send s) = Some (cf, Inr ())"
    and cfw: "fc_window cf = fc_window (c_conn_send s) - int n"
    using fc_take [OF cs nb(1)] by blast
  obtain sf where sf: "fc_send_data n (e_send_flow e) = Some (sf, Inr ())"
    using fc_take [OF es nb(2)] by blast
  let ?s1 = "s\<lparr>c_conn_send := cf\<rparr>"
  have e1: "entry_of sid ?s1 = Some e" using e by simp
  define s2 where "s2 = upd_entry sid (\<lambda>e. e\<lparr>e_send_flow := sf,
      e_send_buffered := usize_add (e_send_buffered e) n,
      e_turn_frames := usize_add (e_turn_frames e) 1\<rparr>) ?s1"
  obtain s3 qf where s3: "after_frame sid (n = length data - off) s2 = (s3, qf)" by fastforce
  have v3: "send_view sid s3 = send_view sid s2" using after_frame_view [of sid sid _ s2] s3 by (metis fst_conv)
  have e2: "\<exists>e2. entry_of sid s2 = Some e2 \<and> e_state e2 = e_state e"
    using e1 by (simp add: s2_def upd_entry_Some [OF e1]) (simp add: entry_of_def)
  then obtain e2 where e2: "entry_of sid s2 = Some e2" "e_state e2 = e_state e" by blast
  note view = send_view_entry [OF v3 e2(1)]
  obtain e3 where e3: "entry_of sid s3 = Some e3" "e_state e3 = e_state e" using view(1) e2(2) by auto
  have f2: "c_conn_send s2 = cf" "c_encoder s2 = c_encoder s" "c_pending s2 = c_pending s"
    by (simp_all add: s2_def upd_entry_Some [OF e1])
  define out where "out = data_frame_bytes sid (take n (drop off data)) ?final"
  have q: "queue_data sid (take n (drop off data)) ?final s3 = (push out s3, Inr ())"
    unfolding out_def by (rule queue_data_fits) (use n ms view(3) f2 in simp)
  let ?s5 = "(push out s3)\<lparr>c_credit := add_credit sid n (c_credit (push out s3))\<rparr>"
  have p5: "c_conn_send ?s5 = cf" "c_pending ?s5 = c_pending s @ out"
    using view f2 by (simp_all add: push_def)
  have e5: "entry_of sid ?s5 = Some e3" using e3(1) by (simp add: push_def)
  have len: "\<not> length data < off + n" using n off by auto
  have run: "send_frame now sid data off eos budget before s =
    (if ?final then and_then (close_send_half now sid ?s5) (\<lambda>s6 tail.
         (s6, Inr (completed_send n (wake_flag before s6 OR qf) tail)))
     else (?s5, Inr \<lparr>sdv_sent = n, sdv_done = (n = length data - off), sdv_stopped = None,
        sdv_flags = wake_flag before ?s5 OR qf, sdv_handle = None, sdv_reader_stop = None\<rparr>))"
    unfolding send_frame_def Let_def want n [symmetric] mod_less [OF n32] cf option.case prod.case
      sum.case e1 sf s2_def [symmetric] s3 q and_then_simps
    using len by (simp only: if_False)
  show ?thesis
  proof (cases ?final)
    case True
    obtain t tail where t: "close_send_half now sid ?s5 = (t, Inr tail)" "adds ?s5 t"
      using close_send_half_streaming [OF e5, of now] st e3(2) by (metis (no_types))
    then have "c_conn_send t = cf" "\<exists>rest. c_pending t = c_pending s @ out @ rest"
      using p5 by (auto simp: adds_def)
    then show ?thesis
      unfolding run using True t(1) cfw
      by (auto simp: and_then_def completed_send_def out_def split: prod.splits)
  next
    case False
    then show ?thesis unfolding run using p5 cfw by (auto simp: out_def)
  qed
qed

subsection \<open>The call\<close>

text \<open>What a call may accept from a stream: nothing without window or room or in another stream's
  turn, at most what both windows, the buffer and the frame size leave.\<close>

definition send_fits :: "u32 \<Rightarrow> usize \<Rightarrow> 'h inner \<Rightarrow> bool" where
  "send_fits sid n s \<longleftrightarrow>
     n \<le> fc_window_size (c_conn_send s) \<and> n \<le> ps_max_frame_size (c_peer s)
     \<and> (case entry_of sid s of
          None \<Rightarrow> n = 0
        | Some e \<Rightarrow> n \<le> fc_window_size (e_send_flow e) \<and> e_send_buffered e + n \<le> max (e_send_buffered e) (c_max_send_buf_size s))"

text \<open>The outcome of a call: it took \<open>n\<close> bytes at the offset off the connection window and wrote
  their DATA frame.\<close>

definition send_took :: "u32 \<Rightarrow> bytes \<Rightarrow> usize \<Rightarrow> bool \<Rightarrow> usize \<Rightarrow> 'h inner \<Rightarrow> 'h inner \<Rightarrow> bool" where
  "send_took sid data off eos n s t \<longleftrightarrow>
     off + n \<le> length data
     \<and> fc_window (c_conn_send t) = fc_window (c_conn_send s) - int n
     \<and> (\<exists>out. c_pending t = c_pending s @ out
          \<and> (0 < n \<longrightarrow> (\<exists>rest. out =
                data_frame_bytes sid (take n (drop off data)) (eos \<and> n = length data - off) @ rest)))"

lemma send_fits_0: "send_fits sid 0 s"
  by (auto simp: send_fits_def split: option.split)

lemma send_took_0:
  "adds s t \<Longrightarrow> off \<le> length data \<Longrightarrow> send_took sid data off eos 0 s t"
  by (auto simp: send_took_def adds_def)

lemma adds_view:
  assumes "send_view sid t = send_view sid s"
  shows "adds s t"
  using assms by (simp add: adds_def send_view_def)

text \<open>A call that takes nothing.\<close>

definition sends_nothing :: "'h inner \<Rightarrow> 'h inner \<times> (pyerr + send_verdict) \<Rightarrow> bool" where
  "sends_nothing s r \<longleftrightarrow> (\<exists>t v. r = (t, Inr v) \<and> sdv_sent v = 0 \<and> adds s t)"

lemma send_empty_nothing:
  assumes "entry_of sid s = Some e" and "is_send_streaming (e_state e)"
  shows "sends_nothing s (send_empty_data now sid eos s)"
proof -
  have q: "queue_data sid [] eos s = (push (data_frame_bytes sid [] eos) s, Inr ())"
    by (rule queue_data_fits) simp
  let ?u = "push (data_frame_bytes sid [] eos) s"
  have u: "adds s ?u" by (simp add: adds_push)
  have "entry_of sid ?u = Some e" using assms(1) by (simp add: push_def)
  from close_send_half_streaming [OF this assms(2), of now]
  obtain t tail where t: "close_send_half now sid ?u = (t, Inr tail)" "adds ?u t" by blast
  show ?thesis
    unfolding send_empty_data_def q sends_nothing_def
    using t u adds_trans [OF u t(2)]
    by (cases eos) (auto simp: completed_send_def no_tail_def split: prod.splits)
qed

lemma send_frame_took:
  assumes ok: "conn_ok s" and e: "entry_of sid s = Some e"
    and st: "is_send_streaming (e_state e)"
    and off: "off \<le> length data" and small: "length data < 2 ^ 64"
    and room: "budget \<le> stream_room e s" and conn: "budget \<le> fc_window_size (c_conn_send s)"
  shows "\<exists>t v. send_frame now sid data off eos budget before s = (t, Inr v)
    \<and> send_fits sid (sdv_sent v) s \<and> send_took sid data off eos (sdv_sent v) s t"
proof -
  define n where "n = min (min budget (length data - off)) (ps_max_frame_size (c_peer s))"
  from send_frame_spec [OF assms n_def]
  obtain t v rest where t: "send_frame now sid data off eos budget before s = (t, Inr v)" "sdv_sent v = n"
    "fc_window (c_conn_send t) = fc_window (c_conn_send s) - int n"
    "c_pending t = c_pending s
       @ data_frame_bytes sid (take n (drop off data)) (eos \<and> n = length data - off) @ rest"
    by blast
  have "send_fits sid n s"
    using room conn e by (auto simp: send_fits_def n_def stream_room_def saturating_sub_def)
  moreover have "off + n \<le> length data" using off by (auto simp: n_def)
  ultimately show ?thesis using t by (auto simp: send_took_def)
qed

lemma send_took_view:
  assumes "send_view sid t = send_view sid s" and "send_took sid data off eos n t u"
  shows "send_took sid data off eos n s u"
  using assms by (simp add: send_took_def send_view_def)

lemma send_fits_view:
  assumes "send_view sid t = send_view sid s" and "send_fits sid n t"
  shows "send_fits sid n s"
  using assms by (auto simp: send_fits_def send_view_def split: option.splits)

text \<open>The result of \<open>send_data\<close> in terms of the state it is called on.\<close>

definition send_ok :: "u32 \<Rightarrow> bytes \<Rightarrow> usize \<Rightarrow> bool \<Rightarrow> 'h inner \<Rightarrow> 'h inner \<times> (pyerr + send_verdict) \<Rightarrow> bool"
where
  "send_ok sid data off eos s r \<longleftrightarrow>
     (\<exists>t v. r = (t, Inr v) \<and> send_fits sid (sdv_sent v) s
        \<and> send_took sid data off eos (sdv_sent v) s t)"

lemma send_ok_nothing:
  "sends_nothing s r \<Longrightarrow> off \<le> length data \<Longrightarrow> send_ok sid data off eos s r"
  by (auto simp: sends_nothing_def send_ok_def send_fits_0 intro: send_took_0)

lemma send_ok_pause:
  assumes "send_view sid t = send_view sid s" and "off \<le> length data"
  shows "send_ok sid data off eos s (t, Inr (no_window flags))"
  using assms adds_view [OF assms(1)]
  by (intro send_ok_nothing) (auto simp: sends_nothing_def no_window_def)

lemma send_ok_stopped:
  "off \<le> length data \<Longrightarrow> send_ok sid data off eos s (s, Inr (stopped_send st))"
  by (intro send_ok_nothing) (auto simp: sends_nothing_def stopped_send_def)

text \<open>The turn: the stream waits, pauses, or frames with both states seeing the same windows.\<close>

lemma send_ok_turn:
  assumes ok: "conn_ok s" and e: "entry_of sid s = Some e" and st: "is_send_streaming (e_state e)"
    and off: "off \<le> length data" and small: "length data < 2 ^ 64"
    and room: "budget \<le> stream_room e s" and conn: "budget \<le> fc_window_size (c_conn_send s)"
    and s1: "kept s s1" "unfinished sid s1" "send_view sid s1 = send_view sid s"
  shows "send_ok sid data off eos s (case send_front s1 of (s2, front) \<Rightarrow>
     if front \<noteq> None \<and> front \<noteq> Some sid then (enqueue_send sid s2, Inr (no_window 0))
     else
       let s3 = (if front = None then enqueue_send sid s2 else s2)
       in case entry_of sid s3 of
            None \<Rightarrow> (s3, Inl RustPanic)
          | Some e3 \<Rightarrow>
              (case turn_over sid e3 s3 of
                 (s4, Some flags) \<Rightarrow> (s4, Inr (no_window flags))
               | (s4, None) \<Rightarrow> send_frame now sid data off eos budget before s4))"
proof -
  obtain s2 front where f: "send_front s1 = (s2, front)" by fastforce
  have k2: "kept s s2" and u2: "unfinished sid s2" and v2: "send_view sid s2 = send_view sid s"
    using kept_trans [OF s1(1) kept_send_front [of s1]] unfinished_queues(1) [OF s1(2)] s1(3)
      send_view_ops(5) [of sid s1]
    by (simp_all add: f)
  define s3 where "s3 = (if front = None then enqueue_send sid s2 else s2)"
  have k3: "kept s s3"
    using k2 kept_trans [OF k2 kept_enqueue_send] u2 by (simp add: s3_def unfinished_def)
  have v3: "send_view sid s3 = send_view sid s" using v2 by (simp add: s3_def)
  obtain e3 where e3: "entry_of sid s3 = Some e3" using send_view_entry(1) [OF v3 e] by blast
  obtain s4 y where t: "turn_over sid e3 s3 = (s4, y)" by fastforce
  have k4: "conn_ok s4"
    using kept_conn_ok [OF kept_trans [OF k3 kept_turn_over] ok, of sid e3] by (simp add: t)
  have v4: "send_view sid s4 = send_view sid s"
    using v3 send_view_ops(6) [of sid sid e3 s3] by (simp add: t)
  obtain e4 where e4: "entry_of sid s4 = Some e4" "e_state e4 = e_state e" "stream_room e4 s4 = stream_room e s"
    using send_view_entry(1) [OF v4 e] by blast
  have "\<exists>t v. send_frame now sid data off eos budget before s4 = (t, Inr v)
      \<and> send_fits sid (sdv_sent v) s4 \<and> send_took sid data off eos (sdv_sent v) s4 t"
    using e4 st room conn send_view_entry(2) [OF v4 e]
    by (intro send_frame_took [OF k4 e4(1) _ off small]) simp_all
  then have frame: "send_ok sid data off eos s (send_frame now sid data off eos budget before s4)"
    using send_took_view [OF v4] send_fits_view [OF v4] by (auto simp: send_ok_def)
  have "send_ok sid data off eos s (enqueue_send sid s2, Inr (no_window 0))"
    and "send_ok sid data off eos s (s4, Inr (no_window flags))" for flags
    by (rule send_ok_pause [OF _ off]; simp add: v2 v4)+
  then show ?thesis
    unfolding f prod.case Let_def s3_def [symmetric] e3 option.case t
    using frame by (simp split: option.split)
qed

lemma send_data_ok:
  assumes ok: "conn_ok s" and off: "off \<le> length data" and small: "length data < 2 ^ 64"
  shows "send_ok sid data off eos s (send_data now sid data off eos s)"
proof (cases "\<exists>e. entry_of sid s = Some e \<and> is_send_streaming (e_state e)")
  case False
  then show ?thesis
    using send_ok_stopped [OF off] by (auto simp: send_data_def Let_def split: option.split)
next
  case True
  then obtain e where e: "entry_of sid s = Some e" and st: "is_send_streaming (e_state e)" by blast
  have fin: "unfinished sid s"
    using kept_not_finished [OF ok e] st e by (simp add: unfinished_def)
  define room where "room = stream_room e s"
  define conn where "conn = fc_window_size (c_conn_send s)"
  define s1 where "s1 = (if e_is_pending_capacity e
      then (upd_entry sid (\<lambda>e. e\<lparr>e_is_pending_capacity := False\<rparr>) s)
             \<lparr>c_pending_capacity := filter (\<lambda>i. i \<noteq> sid) (c_pending_capacity s)\<rparr>
      else s)"
  have k1: "kept s s1" using kept_drop_capacity_wait [OF e] by (simp add: s1_def)
  have u1: "unfinished sid s1" using fin by (auto simp: s1_def intro!: unfinished_upd)
  have v1: "send_view sid s1 = send_view sid s" by (simp add: s1_def send_view_upd)
  have turn: "send_ok sid data off eos s (case send_front s1 of (s2, front) \<Rightarrow>
     if front \<noteq> None \<and> front \<noteq> Some sid then (enqueue_send sid s2, Inr (no_window 0))
     else
       let s3 = (if front = None then enqueue_send sid s2 else s2)
       in case entry_of sid s3 of
            None \<Rightarrow> (s3, Inl RustPanic)
          | Some e3 \<Rightarrow>
              (case turn_over sid e3 s3 of
                 (s4, Some flags) \<Rightarrow> (s4, Inr (no_window flags))
               | (s4, None) \<Rightarrow> send_frame now sid data off eos (min room conn) before s4))" for before
    by (rule send_ok_turn [OF ok e st off small _ _ k1 u1 v1]) (simp_all add: room_def conn_def)
  have empty: "send_ok sid data off eos s (send_empty_data now sid eos s)"
    using send_ok_nothing [OF send_empty_nothing [OF e st] off] .
  have idle: "send_ok sid data off eos s
    (case leave_send_queue sid (if conn = 0 \<and> 0 < room then enqueue_capacity sid s else s) of
       (s2, flags) \<Rightarrow> (s2, Inr (no_window flags)))"
    unfolding split_beta by (rule send_ok_pause [OF _ off]) simp
  show ?thesis
    unfolding send_data_def Let_def e option.case room_def [symmetric] conn_def [symmetric]
      s1_def [symmetric]
    using st empty idle turn [unfolded Let_def] by (cases "data = []") simp_all
qed

subsection \<open>The end of streams\<close>

text \<open>The handles of the streams of a list that still run, in its order.\<close>

fun open_handles :: "u32 list \<Rightarrow> 'h inner \<Rightarrow> pyobj list" where
  "open_handles [] s = []"
| "open_handles (sid # sids) s =
     (case entry_of sid s of
        Some e \<Rightarrow> if is_closed (e_state e) then open_handles sids s else e_handle e # open_handles sids s
      | None \<Rightarrow> open_handles sids s)"

lemma open_handles_cong:
  "(\<And>j. j \<in> set sids \<Longrightarrow> entry_of j t = entry_of j s) \<Longrightarrow> open_handles sids t = open_handles sids s"
  by (induction sids) (auto split: option.splits)

lemma abort_all_notifies:
  assumes "conn_ok s" and "distinct sids"
  shows "map fst (fst (snd (abort_all sids r s))) = open_handles sids s"
  using assms
proof (induction sids r s rule: abort_all.induct)
  case (2 sid sids r s)
  obtain s1 x f1 where a: "abort_stream sid r s = (s1, x, f1)" by (metis surj_pair)
  have s1: "conn_ok s1" "\<And>j. entry_of j s1 = (if j = sid then None else entry_of j s)"
    using abort_stream_ok(1) [OF 2(2), of sid r] abort_stream_ok(3) [OF 2(2), of _ sid r] by (auto simp: a)
  have "map fst (fst (snd (abort_all sids r s1))) = open_handles sids s1"
    using 2(1) [OF a [symmetric] refl s1(1)] 2(3) by simp
  moreover have "open_handles sids s1 = open_handles sids s"
    using 2(3) s1(2) by (intro open_handles_cong) auto
  moreover have "map_option fst x = (case entry_of sid s of
      Some e \<Rightarrow> if is_closed (e_state e) then None else Some (e_handle e) | None \<Rightarrow> None)"
    using a by (auto simp: abort_stream_def Let_def split_beta split: option.splits)
  ultimately show ?case
    by (auto simp: a split_beta split: option.splits if_splits)
qed simp

lemma hm_keys_distinct: "conn_ok s \<Longrightarrow> distinct (hm_keys (c_streams s))"
  by (simp add: conn_ok_def store_ok_def hm_ok_def)

lemma fail_all_notifies:
  assumes "conn_ok s"
  shows "map fst (snd (fail_all s)) = open_handles (hm_keys (c_streams s)) s"
  using abort_all_notifies [OF assms hm_keys_distinct [OF assms], of None]
  by (simp add: fail_all_def split_beta)

text \<open>A GOAWAY of the peer, on a client: the streams above its last identifier end, the others
  stay as they are.\<close>

lemma recv_go_away_accepted:
  assumes "conn_ok s" and "c_role s = Client"
    and "case c_goaway_last_id s of Some prev \<Rightarrow> ga_last_stream_id f \<le> prev | None \<Rightarrow> True"
  shows "\<exists>t out flags. H2Streams_recv_go_away f s = (t, Inr (out, flags))
    \<and> (\<forall>j. entry_of j t = (if ga_last_stream_id f < j then None else entry_of j s))
    \<and> map fst out = open_handles (filter (\<lambda>i. ga_last_stream_id f < i) (hm_keys (c_streams s))) s"
proof -
  let ?l = "ga_last_stream_id f"
  define s1 where "s1 = s\<lparr>c_goaway_last_id := Some ?l,
      c_goaway := Some \<lparr>gi_last_stream_id = ?l, gi_reason = ga_error_code f, gi_debug_data = ga_debug_data f\<rparr>\<rparr>"
  let ?ids = "filter (\<lambda>i. ?l < i) (hm_keys (c_streams s))"
  have s1: "conn_ok s1" "\<And>j. entry_of j s1 = entry_of j s" "c_streams s1 = c_streams s" "c_role s1 = Client"
    using assms(1,2) kept_conn_ok [of s s1] by (simp_all add: s1_def)
  obtain t out fl where a: "abort_all ?ids (Some (ga_error_code f)) s1 = (t, out, fl)" by (metis surj_pair)
  have "entry_of j t = (if j \<in> set ?ids then None else entry_of j s)" for j
    using abort_all_ok [OF s1(1), of ?ids "Some (ga_error_code f)" j] by (simp only: a fst_conv s1(2))
  then have "entry_of j t = (if ?l < j then None else entry_of j s)" for j
    by (auto simp: entry_of_def hm_get_None_iff [symmetric])
  moreover have "map fst out = open_handles ?ids s1"
    using abort_all_notifies [OF s1(1), of ?ids "Some (ga_error_code f)"] hm_keys_distinct [OF assms(1)]
    by (simp add: a)
  moreover have "open_handles ?ids s1 = open_handles ?ids s" by (rule open_handles_cong) (simp add: s1(2))
  moreover have "H2Streams_recv_go_away f s = (t, Inr (out, fl OR FLAG_SLOT_FREED))"
    using assms(3) s1(4) a s1(3)
    by (auto simp: H2Streams_recv_go_away_def Let_def s1_def [symmetric] split: option.splits)
  ultimately show ?thesis by simp
qed

lemma recv_go_away_raised:
  assumes "c_goaway_last_id s = Some prev" and "prev < ga_last_stream_id f"
  shows "\<exists>e. H2Streams_recv_go_away f s = (s, Inl e)"
  using assms by (simp add: H2Streams_recv_go_away_def)

text \<open>Our own GOAWAY in reply goes out once: the reply marks the connection, and a marked
  connection writes no other.\<close>

lemma goaway_reply_once:
  assumes "maybe_goaway_reply s = (t, flags)" and "flags \<noteq> 0"
  shows "c_num_active s = 0 \<and> c_goaway s \<noteq> None \<and> c_error s = None
    \<and> c_pending t = c_pending s @ encode_go_away (goaway_last_stream_id s) NO_ERROR []
    \<and> maybe_goaway_reply t = (t, 0)"
  using assms by (auto simp: maybe_goaway_reply_def push_def split: if_splits)

text \<open>A claim is granted only below the peer's limit.\<close>

lemma claim_below_limit:
  assumes "try_claim_slot s = (t, granted)" and "c_num_open_streams s + 1 < 2 ^ 64"
  shows "granted \<longleftrightarrow> (\<forall>lim. c_stream_limit s = Some lim \<longrightarrow> c_num_open_streams s < lim)"
    and "c_num_open_streams t = c_num_open_streams s + (if granted then 1 else 0)"
    and "granted \<Longrightarrow> slots_held s \<le> c_num_open_streams s \<Longrightarrow> slot_claimed t"
  using assms
  by (auto simp: try_claim_slot_def can_open_def usize_add_def slot_claimed_def slots_held_def
      split: option.splits if_splits)

end
