(* ===== verification/Conn_No_Panic.thy ===== *)
theory Conn_No_Panic
  imports Conn_Effects
begin

section \<open>No call panics\<close>

text \<open>
  Every \<open>expect\<close>, \<open>unwrap\<close> and assertion on the paths of src/h2/conn.rs and below is a \<open>RustPanic\<close>
  branch of the model. None of them is reached: under the invariant of the connection, whatever
  event the decoder yields and whatever the application calls.
\<close>

definition sane :: "'s \<times> (pyerr + 'a) \<Rightarrow> bool" where
  "sane r \<longleftrightarrow> snd r \<noteq> Inl RustPanic"

lemma sane_simps [simp]:
  "sane (s, Inr a)" "sane (s, Inl (stream_err sid r))" "sane (s, Inl (protocol_err r msg))"
  "sane (s, Inl (map_user_err ue))" "sane (s, Inl (map_reason rs))"
  "sane (s, Inl (protocol_err_with_debug r msg data))" "sane (s, Inl (ValueError msg))"
  "sane (s, Inl (H2ProtocolError r msg dbg))"
  by (simp_all add: sane_def stream_err_def protocol_err_def map_user_err_def map_reason_def
      protocol_err_with_debug_def)

lemma sane_proto [simp]: "sane (s, Inl (map_proto_err pe))"
  by (cases pe) (simp_all add: sane_def protocol_err_with_debug_def)

lemma sane_and_then:
  assumes "sane r" and "\<And>s a. r = (s, Inr a) \<Longrightarrow> sane (k s a)"
  shows "sane (and_then r k)"
  using assms by (cases r; cases "snd r") (auto simp: sane_def)

lemma sane_fst: "sane (s, r) \<Longrightarrow> sane (t, r)"
  by (simp add: sane_def)

lemma sane_map_reason [simp]: "sane (s, map_err map_reason r)"
  by (cases r) simp_all

lemma sane_not_idle: "sane (t, ensure_not_idle sid s)"
  by (simp add: ensure_not_idle_def Let_def)

lemma not_idle_sane: "ensure_not_idle sid s = Inl e \<Longrightarrow> sane (t, Inl e)"
  using sane_not_idle [of t sid s] by (simp add: sane_def)

subsection \<open>Headers out\<close>

lemma sane_queue_headers:
  assumes "enc_ok (c_encoder s)"
  shows "sane (queue_headers hp f s)"
  using enc_encode_headers_total [OF assms, of hp f]
  by (auto simp: queue_headers_def split: prod.split option.split)

lemma conn_ok_enc: "conn_ok s \<Longrightarrow> enc_ok (c_encoder s)"
  using conn_ok_peer_facts by blast

lemma encoder_upd [simp]: "c_encoder (upd_entry sid f s) = c_encoder s"
  by (simp add: upd_entry_def split: option.split)

lemma sane_reject_oversize:
  assumes "enc_ok (c_encoder s)" and "entry_of sid s \<noteq> None"
  shows "sane (reject_oversize_request hp now sid s)"
  using assms
  by (auto simp: reject_oversize_request_def Let_def split_beta intro!: sane_and_then
      sane_queue_headers split: option.split sum.split)

lemma sane_apply_content_length: "sane (apply_content_length sid f s)"
  by (simp add: apply_content_length_def Let_def split: option.split)

lemma apply_content_length_keeps:
  "apply_content_length sid f s = (t, r) \<Longrightarrow>
   c_encoder t = c_encoder s \<and> (entry_of j s \<noteq> None \<longrightarrow> entry_of j t \<noteq> None)"
  by (auto simp: apply_content_length_def Let_def split: option.splits if_splits)

subsection \<open>The receive side\<close>

lemma sane_open_request:
  assumes "enc_ok (c_encoder s)"
  shows "sane (open_request hp now f spare before flags s)"
proof -
  have "sane (and_then (apply_content_length (he_stream_id f) f s2) (\<lambda>s3 _.
      if he_is_over_size f then and_then (reject_oversize_request hp now (he_stream_id f) s3) (\<lambda>s4 g. (s4, Inr (h s4 g)))
      else (k s3, Inr (l s3))))"
    if "enc_ok (c_encoder s2)" and "entry_of (he_stream_id f) s2 \<noteq> None"
    for s2 and h :: "'a inner \<Rightarrow> flags \<Rightarrow> recv_headers_verdict" and k l
  proof (rule sane_and_then [OF sane_apply_content_length])
    fix s3 u
    assume "apply_content_length (he_stream_id f) f s2 = (s3, Inr u)"
    from apply_content_length_keeps [OF this, of "he_stream_id f"] that
    show "sane (if he_is_over_size f then and_then (reject_oversize_request hp now (he_stream_id f) s3)
        (\<lambda>s4 g. (s4, Inr (h s4 g))) else (k s3, Inr (l s3)))"
      by (auto intro!: sane_and_then sane_reject_oversize)
  qed
  note body = this
  show ?thesis
    unfolding open_request_def Let_def
    using assms by (auto simp: entry_of_def intro!: body split: option.split sum.split)
qed

lemma sane_recv_head: "sane (recv_head f e before s)"
  by (auto simp: recv_head_def Let_def split_beta intro!: sane_and_then sane_apply_content_length
      split: sum.split)

lemma sane_recv_trailers: "sane (recv_trailers f e before s)"
  by (auto simp: recv_trailers_def Let_def split_beta split: sum.split)

lemma encoder_in_reset_store [simp]: "c_encoder (fst (in_reset_store now sid s)) = c_encoder s"
  by (auto simp: in_reset_store_def split: option.split)

lemma sane_recv_headers_new:
  assumes "enc_ok (c_encoder s)"
  shows "sane (recv_headers_new hp now f spare before flags s)"
proof -
  obtain s1 b where r: "in_reset_store now (he_stream_id f) s = (s1, b)" by fastforce
  then have "enc_ok (c_encoder s1)" using assms encoder_in_reset_store [of now "he_stream_id f" s] by simp
  then show ?thesis
    by (auto simp: recv_headers_new_def Let_def r not_idle_sane sane_open_request
        split: bool.split role.split sum.split)
qed

lemma adds_encoder: "adds s t \<Longrightarrow> c_encoder t = c_encoder s"
  by (simp add: adds_def)

lemma sane_recv_headers:
  assumes "conn_ok s"
  shows "sane (recv_headers hp now f spare s)"
proof -
  have "adds s (fst (drop_closed_stored (he_stream_id f) s))"
    by (simp add: drop_closed_stored_def adds_intros)
  then have "enc_ok (c_encoder (fst (drop_closed_stored (he_stream_id f) s)))"
    using conn_ok_enc [OF assms] by (simp add: adds_encoder)
  then show ?thesis
    using conn_ok_enc [OF assms]
    by (auto simp: recv_headers_def Let_def split_beta sane_recv_head sane_recv_trailers
        sane_recv_headers_new split: option.split)
qed

lemma consume_sane:
  assumes "fc_ok (c_conn_recv s)" and "sz < 2 ^ 32"
  shows "sane (consume_conn_recv sz s)"
  using fc_send_data_no_panic [OF assms] by (auto simp: consume_conn_recv_def split: option.split)

lemma sane_record: "sane (record_data_frame sid n s)"
  by (auto simp: record_data_frame_def dfc_record_def budget_exhausted_def Let_def
      split: prod.split sum.split option.split bool.split)

lemma sane_recv_lookup: "sane (recv_lookup now sid s)"
  by (auto simp: recv_lookup_def not_idle_sane split: option.split prod.split bool.split sum.split)

lemma sane_deliver_data:
  assumes "live (de_stream_id f) st s"
  shows "sane (deliver_data f h before s)"
proof -
  let ?s1 = "if 0 < de_padding f then release_capacity_inner (de_stream_id f) (de_padding f mod 2 ^ 32) s else s"
  have l1: "live (de_stream_id f) st ?s1" using assms live_release [OF assms] by simp
  have l2: "live (de_stream_id f) st s2"
    if "(if \<not> de_end_stream f then record_data_frame (de_stream_id f) (length (de_data f)) ?s1
         else (?s1, Inr ())) = (s2, Inr u)" for s2 u
    using that live_record(1) [OF l1, of "length (de_data f)"] l1 by (auto split: if_splits)
  show ?thesis
    unfolding deliver_data_def Let_def
    by (rule sane_and_then)
      (auto simp: sane_record live_def split_beta dest!: l2 intro!: sane_and_then
        split: option.split sum.split)
qed

lemma sane_recv_data:
  assumes ok: "conn_ok s" and f: "data_event_ok f"
  shows "sane (recv_data now f s)"
proof -
  let ?sid = "de_stream_id f" and ?sz = "de_flow_controlled_len f mod 2 ^ 32"
  obtain s1 r where look: "recv_lookup now ?sid s = (s1, r)" by fastforce
  have ok1: "conn_ok s1" using kept_conn_ok [OF kept_recv_lookup ok] look by (metis fst_conv)
  have sz: "?sz < 2 ^ 32" by simp
  have consume: "sane (consume_conn_recv ?sz s1)"
    using ok1 by (intro consume_sane sz) (simp add: conn_ok_def ledger_ok_def)
  have lsane: "sane (t, r)" for t :: "'a inner" using sane_recv_lookup [of now ?sid s] look by (simp add: sane_def)
  show ?thesis
  proof (cases "\<exists>i. r = Inr (Some i)")
    case False
    have err: "r = Inl e \<Longrightarrow> sane (t, Inl e)" for e and t :: "'a inner"
      using lsane by (simp add: sane_def)
    show ?thesis
      using False err
      by (cases r) (auto simp: recv_data_def Let_def look intro!: sane_and_then
          consume [simplified] split: option.split)
  next
    case True
    then obtain i where i: "r = Inr (Some i)" by blast
    then obtain e where e: "entry_of ?sid s = Some e" and nc: "\<not> is_closed (e_state e)" and i': "i = ?sid" "s1 = s"
      using recv_lookup_live [of now ?sid s s1 i] look by blast
    show ?thesis
    proof (cases "is_recv_streaming (e_state e)")
      case False
      then show ?thesis by (simp add: recv_data_def Let_def look i i' e)
    next
      case True
      have fin: "\<not> e_finished e" and fl: "fc_ok (e_recv_flow e)"
        using kept_not_finished [OF ok e nc] conn_ok_entry [OF ok e] by (simp_all add: entry_ok_def)
      have deliver: "sane (deliver_data f h before (upd_entry ?sid (\<lambda>e. e\<lparr>e_recv_unreleased := u e\<rparr>)
          (upd_entry ?sid (\<lambda>e. e\<lparr>e_recv_flow := rf, e_content_length := cl\<rparr>) s2)))"
        if "consume_conn_recv ?sz s = (s2, Inr ())" for s2 h before u rf cl
      proof (rule sane_deliver_data)
        have "entry_of ?sid s2 = Some e"
          using spent_consume(2) [OF that sz] e by auto
        then show "live ?sid (e_state e) (upd_entry ?sid (\<lambda>e. e\<lparr>e_recv_unreleased := u e\<rparr>)
          (upd_entry ?sid (\<lambda>e. e\<lparr>e_recv_flow := rf, e_content_length := cl\<rparr>) s2))"
          using fin by (simp add: live_def)
      qed
      show ?thesis
        unfolding recv_data_def Let_def look i i' prod.case sum.case option.case e
        using True consume [unfolded i'] fc_send_data_no_panic [OF fl sz]
        by (auto simp: split_beta intro!: sane_and_then deliver split: option.split sum.split)
    qed
  qed
qed

lemma sane_front_handle:
  "sane (case send_front s of (s1, None) \<Rightarrow> (s1, Inr [])
     | (s1, Some front) \<Rightarrow>
         (case entry_of front s1 of None \<Rightarrow> (s1, Inl RustPanic) | Some e \<Rightarrow> (s1, Inr [e_handle e])))"
  using send_front_live [of s] by (cases "send_front s") (fastforce split: option.split)

lemma sane_recv_window_update: "sane (recv_window_update w s)"
  unfolding recv_window_update_def Let_def
  by (auto simp: not_idle_sane sane_front_handle split: sum.split option.split prod.split)

lemma sane_recv_reset: "sane (H2Streams_recv_reset f s)"
  by (auto simp: H2Streams_recv_reset_def Let_def split_beta not_idle_sane split: option.split sum.split)

lemma sane_reset_on_error: "sid < 2 ^ 31 \<Longrightarrow> sane (reset_on_error now sid r s)"
  by (auto simp: reset_on_error_def Let_def split_beta stream_id_from_def split: option.split)

subsection \<open>SETTINGS, PING, GOAWAY\<close>

lemma sane_apply_remote_settings: "sane (apply_remote_settings hp f s)"
  unfolding apply_remote_settings_def Let_def
  by (intro sane_and_then)
    (auto simp: enc_set_send_max_frame_size_def check_max_frame_size_def split_beta
      split: option.split sum.split prod.split)

lemma sane_apply_local_settings: "sane (apply_local_settings d s)"
  by (auto simp: apply_local_settings_def Let_def set_max_recv_frame_size_def check_max_frame_size_def
      split: option.split sum.split prod.split)

lemma sane_recv_settings: "sane (H2Streams_recv_settings hp f (s, d))"
proof -
  have "sane (t, Inl e)" if "apply_remote_settings hp f u = (v, Inl e)" for t :: "'a inner \<times> frame_decoder" and u v e
    using that sane_apply_remote_settings [of hp f u] by (simp add: sane_def)
  then show ?thesis
    by (auto simp: H2Streams_recv_settings_def Let_def settings_recv_ack_def
        intro!: sane_and_then sane_apply_local_settings split: prod.split sum.split)
qed

lemma sane_recv_ping: "sane (recv_ping f s)"
  by (auto simp: recv_ping_def encode_ping_def Let_def split: sum.split)

lemma sane_recv_go_away: "sane (H2Streams_recv_go_away f s)"
  by (simp add: H2Streams_recv_go_away_def Let_def split_beta)

lemma sane_begin_graceful: "sane (begin_graceful_shutdown s)"
  by (simp add: begin_graceful_shutdown_def encode_ping_def Let_def)

subsection \<open>The send side\<close>

lemma sane_send_data:
  assumes "conn_ok s" and "off \<le> length data" and "length data < 2 ^ 64"
  shows "sane (send_data now sid data off eos s)"
  using send_data_ok [OF assms, of sid eos now] by (auto simp: send_ok_def sane_def)

lemma sane_queue_then:
  assumes "conn_ok s"
  shows "sane (and_then (queue_headers hp f (upd_entry sid g s)) (\<lambda>s1 _. (k s1, Inr (r s1))))"
  using conn_ok_enc [OF assms] by (intro sane_and_then sane_queue_headers) simp_all

lemma sane_send_trailers:
  assumes "conn_ok s" and "sid < 2 ^ 31"
  shows "sane (send_trailers hp now sid tr s)"
  using sane_queue_then [OF assms(1)] assms(2)
  by (auto simp: send_trailers_def stream_id_from_def Let_def split_beta
      dest: send_close_streaming split: option.split)

lemma sane_send_response_head:
  assumes "conn_ok s"
  shows "sane (send_response_head hp http now sid status flds eos s)"
  using sane_queue_then [OF assms]
  by (auto simp: send_response_head_def check_send_fields_def build_response_headers_def Let_def split_beta
      value_err_def split: option.split sum.split)

lemma sane_open_stream:
  assumes "conn_ok s"
  shows "sane (open_stream hp http m t flds eos ih h sch au s)"
  using conn_ok_enc [OF assms]
  by (auto simp: open_stream_def Let_def build_request_headers_def value_err_def check_send_fields_def
      intro!: sane_and_then sane_queue_headers split: option.split sum.split)

lemma sane_reset_stream: "sane (H2Streams_reset_stream now sid r i s)"
  by (simp add: H2Streams_reset_stream_def parse_initiator_def split_beta)

subsection \<open>Every call\<close>

definition error_of :: "'s \<times> (pyerr + 'a) \<Rightarrow> pyerr option" where
  "error_of r = (case snd r of Inl e \<Rightarrow> Some e | Inr _ \<Rightarrow> None)"

lemma sane_error_of: "sane r \<longleftrightarrow> error_of r \<noteq> Some RustPanic"
  by (auto simp: sane_def error_of_def split: sum.split)

text \<open>The exception a call ends in, if any.\<close>

fun event_error ::
  "'h hpack_ops \<Rightarrow> nat \<Rightarrow> pyobj option \<Rightarrow> frame_event \<Rightarrow> 'h inner \<times> frame_decoder \<Rightarrow> pyerr option" where
  "event_error hp now spare (EHeaders f) (s, d) = error_of (recv_headers hp now f spare s)"
| "event_error hp now spare (EData f) (s, d) = error_of (recv_data now f s)"
| "event_error hp now spare (ESettings f) (s, d) = error_of (H2Streams_recv_settings hp f (s, d))"
| "event_error hp now spare (EWindowUpdate f) (s, d) = error_of (recv_window_update f s)"
| "event_error hp now spare (EPing f) (s, d) = error_of (recv_ping f s)"
| "event_error hp now spare (EGoAway f) (s, d) = error_of (H2Streams_recv_go_away f s)"
| "event_error hp now spare (ERstStream f) (s, d) = error_of (H2Streams_recv_reset f s)"
| "event_error hp now spare (EPriority sid) (s, d) = None"
| "event_error hp now spare (EStreamError sid r) (s, d) = error_of (reset_on_error now sid r s)"

fun call_error ::
  "'h hpack_ops \<Rightarrow> http_ops \<Rightarrow> conn_op \<Rightarrow> 'h inner \<times> frame_decoder \<Rightarrow> pyerr option" where
  "call_error hp http (PeerEvent now spare ev) sd = event_error hp now spare ev sd"
| "call_error hp http (ResetOnError now sid r) (s, d) = error_of (reset_on_error now sid r s)"
| "call_error hp http BeginGraceful (s, d) = error_of (begin_graceful_shutdown s)"
| "call_error hp http (OpenStream m t flds eos ih h sch au) (s, d) =
     error_of (open_stream hp http m t flds eos ih h sch au s)"
| "call_error hp http (SendDataCall now sid data off eos) (s, d) =
     error_of (send_data now sid data off eos s)"
| "call_error hp http (SendTrailersCall now sid tr) (s, d) = error_of (send_trailers hp now sid tr s)"
| "call_error hp http (SendHeadCall now sid status flds eos) (s, d) =
     error_of (send_response_head hp http now sid status flds eos s)"
| "call_error hp http (ResetStream now sid r i) (s, d) = error_of (H2Streams_reset_stream now sid r i s)"
| "call_error hp http _ sd = None"

text \<open>Arguments as the driver passes them: a stream's own identifier, an offset in the buffer.\<close>

fun args_ok :: "conn_op \<Rightarrow> bool" where
  "args_ok (ResetOnError now sid r) \<longleftrightarrow> sid < 2 ^ 31"
| "args_ok (SendDataCall now sid data off eos) \<longleftrightarrow> off \<le> length data \<and> length data < 2 ^ 64"
| "args_ok (SendTrailersCall now sid tr) \<longleftrightarrow> sid < 2 ^ 31"
| "args_ok op \<longleftrightarrow> True"

lemma event_error_sane:
  assumes "conn_ok s" and "event_ok ev"
  shows "event_error hp now spare ev (s, d) \<noteq> Some RustPanic"
  using assms
  by (cases ev)
    (simp_all add: sane_error_of [symmetric] sane_recv_headers sane_recv_data sane_recv_settings
      sane_recv_window_update sane_recv_ping sane_recv_go_away sane_recv_reset sane_reset_on_error)

lemma call_error_sane:
  assumes "conn_ok s" and "conn_may op s" and "args_ok op"
  shows "call_error hp http op (s, d) \<noteq> Some RustPanic"
  using assms
  by (cases op)
    (simp_all add: sane_error_of [symmetric] event_error_sane sane_reset_on_error sane_begin_graceful
      sane_open_stream sane_send_data sane_send_trailers sane_send_response_head sane_reset_stream)

end
