(* ===== verification/Properties_Streams.thy ===== *)
theory Properties_Streams
  imports Flow_Control Stream_State Stream_Counts Settings_Sync
begin

section \<open>Properties of the per-stream machinery\<close>

text \<open>
  Flow-control windows, the stream state machine, content lengths, the DATA-frame budget and the
  SETTINGS handshake: what each promises to the connection that is built from them.
\<close>

text \<open>C13: the stream states follow the state diagram of RFC 9113, section 5.1: every accepted
  operation is the diagram's step for its event, except an interim head on a reserved stream,
  which changes nothing the diagram shows.\<close>

theorem stream_states_refine_diagram:
  assumes "stream_step op s = Some s'"
  shows "if interim_on_reserved op s then rfc_abs s' = rfc_abs s
    else rfc_step (rfc_abs s) (op_event op) (rfc_abs s')"
  using assms stream_step_refines [OF assms] by (auto simp: interim_on_reserved_def)

theorem stream_states_refine_diagram_witness:
  "rfc_step (rfc_abs (Open Streaming Streaming)) RecvES (rfc_abs (HalfClosedRemote Streaming))"
  using stream_states_refine_diagram [of OpRecvClose "Open Streaming Streaming"]
  by (simp add: interim_on_reserved_def)

text \<open>C14: closing is final. No sequence of operations takes a closed stream out of \<open>Closed\<close>, and
  none makes a stream whose send half is closed sendable again, so that no frame with content
  follows END\_STREAM.\<close>

theorem closing_is_final:
  assumes "stream_run ops s = Some s'"
  shows "(is_closed s \<longrightarrow> is_closed s')
    \<and> (is_send_closed s \<and> s \<noteq> ReservedRemote \<longrightarrow> is_send_closed s' \<and> \<not> is_send_streaming s')"
  using stream_run_closed [OF assms] stream_run_send_closed [OF assms]
    send_streaming_not_send_closed [of s'] by blast

theorem closing_is_final_witness:
  "is_send_closed (HalfClosedRemote Streaming) = False
   \<and> is_closed (the (stream_run [OpSetReset 1 8 User, OpRecvReset 1 0 False] (HalfClosedLocal AwaitingHeaders)))
   \<and> is_send_closed (the (stream_run [OpRecvOpen False False] (HalfClosedLocal AwaitingHeaders)))"
  using closing_is_final [of "[OpRecvOpen False False]" "HalfClosedLocal AwaitingHeaders" "HalfClosedLocal Streaming"]
  by (simp add: stream_run_def)

text \<open>C15: a reset of the peer on a live stream always stops our sender with the peer's code; a reader
  that already has the whole message keeps it, any other reader sees the reset.\<close>

theorem remote_reset_outcome:
  assumes "\<not> is_closed s"
  shows "is_closed (recv_reset sid r q s)
    \<and> ensure_reason mode (recv_reset sid r q s) = Inr (Some r)
    \<and> ensure_recv_open (recv_reset sid r q s)
        = (if is_recv_end_stream s then Inr False else Inl (Reset sid r Remote))"
  using recv_reset_sender [OF assms, of mode sid r q] recv_reset_reader [OF assms, of sid r q] by simp

theorem remote_reset_outcome_witness:
  "ensure_recv_open (recv_reset 3 0 False (HalfClosedRemote Streaming)) = Inr False
   \<and> ensure_recv_open (recv_reset 3 8 False (Open Streaming Streaming)) = Inl (Reset 3 8 Remote)"
  using remote_reset_outcome [of "HalfClosedRemote Streaming" 3 0 False]
    remote_reset_outcome [of "Open Streaming Streaming" 3 8 False] by simp

text \<open>C16: no sequence of flow-control operations, with any 32-bit amounts, panics or takes a window
  or its capacity out of the range of an \<open>i32\<close>.\<close>

theorem flow_control_never_overflows:
  assumes "fc_ok f" and "\<forall>op \<in> set ops. fc_amount op < 2 ^ 32"
  shows "\<exists>f'. run_ops fc_step ops f = Some f' \<and> fc_ok f'"
  by (rule fc_run_total [OF assms])

theorem flow_control_never_overflows_witness:
  "\<exists>f'. run_ops fc_step [FcInc 2147483647, FcInc 1, FcDecSend 2147483647, FcDecSend 2147483647,
                          FcSendData 4294967295] fc_new = Some f' \<and> fc_ok f'"
  by (rule flow_control_never_overflows) simp_all

text \<open>\<open>send_data\<close> on a window whose capacity has not dropped below it never panics. A request
  within the window is taken from both counters, a larger one is a FLOW\_CONTROL\_ERROR and
  changes nothing.\<close>

theorem fc_send_data_exact:
  assumes "fc_ok f" and "fc_window f \<le> fc_available f" and "sz < 2 ^ 32"
  shows "fc_send_data sz f =
    Some (if sz \<le> fc_window_size f
          then (f\<lparr>fc_window := fc_window f - int sz, fc_available := fc_available f - int sz\<rparr>, Inr ())
          else (f, Inl FLOW_CONTROL_ERROR))"
proof -
  obtain f' r where "fc_send_data sz f = Some (f', r)"
    using fc_send_data_no_panic [OF assms(1,3)] by fastforce
  with fc_send_data_cases [OF this assms(1,2)] show ?thesis by auto
qed

theorem fc_send_data_exact_witness:
  "fc_send_data 40 \<lparr>fc_window = 100, fc_available = 120\<rparr>
     = Some (\<lparr>fc_window = 60, fc_available = 80\<rparr>, Inr ())
   \<and> fc_send_data 140 \<lparr>fc_window = 100, fc_available = 120\<rparr>
     = Some (\<lparr>fc_window = 100, fc_available = 120\<rparr>, Inl FLOW_CONTROL_ERROR)"
  using fc_send_data_exact [of "\<lparr>fc_window = 100, fc_available = 120\<rparr>" 40]
    fc_send_data_exact [of "\<lparr>fc_window = 100, fc_available = 120\<rparr>" 140]
  by (simp_all add: fc_ok_def in_i32_def fc_window_size_def window_as_size_def)

text \<open>Unclaimed capacity is reported for a WINDOW\_UPDATE only once it reaches half the window,
  it is a legal increment, and advertising it brings the window exactly up to the capacity.\<close>

theorem unclaimed_capacity_readvertised:
  assumes "fc_ok f" and "0 \<le> fc_window f" and "fc_unclaimed_capacity f = Some n"
  shows "0 < n \<and> n < 2 ^ 31 \<and> fc_window f div 2 \<le> int n
    \<and> fc_inc_window n f = (f\<lparr>fc_window := fc_available f\<rparr>, Inr ())"
  using fc_unclaimed_Some [OF assms] fc_unclaimed_readvertise [OF assms] by simp

theorem unclaimed_capacity_readvertised_witness:
  "fc_inc_window 100 \<lparr>fc_window = 50, fc_available = 150\<rparr> = (\<lparr>fc_window = 150, fc_available = 150\<rparr>, Inr ())"
  using unclaimed_capacity_readvertised [of "\<lparr>fc_window = 50, fc_available = 150\<rparr>" 100]
  by (simp add: fc_ok_def in_i32_def fc_unclaimed_capacity_def i32_div_def UNCLAIMED_DENOMINATOR_def
      UNCLAIMED_NUMERATOR_def Let_def i32_as_u32_def i32_wrap_def)

text \<open>A body is accepted chunk by chunk exactly while its total stays within the declared length,
  and the declaration is satisfied exactly when the totals agree.\<close>

theorem content_length_counts:
  "cl_run ns (Remaining n) = (if sum_list ns \<le> n then Some (Remaining (n - sum_list ns)) else None)
   \<and> (\<forall>c. cl_run ns (Remaining n) = Some c \<longrightarrow> (cl_is_satisfied c \<longleftrightarrow> sum_list ns = n))"
  by (auto simp: cl_run_Remaining)

theorem content_length_counts_witness:
  "cl_run [3, 4] (Remaining 7) = Some (Remaining 0) \<and> cl_run [3, 5] (Remaining 7) = None"
  using content_length_counts [of "[3, 4]" 7] content_length_counts [of "[3, 5]" 7] by simp

text \<open>C18: the accounting against floods of tiny DATA frames: in any accepted sequence of frames the
  overhead of the small ones is paid by the budget and by what larger frames earn, and at most a
  hundred frames are empty.\<close>

theorem data_frame_floods_bounded:
  assumes "dfc_run ns d = Some d'"
  shows "dfc_available d' + sum_list (map frame_cost ns) \<le> dfc_available d + sum_list (map frame_gain ns)
    \<and> count_list ns 0 + min 100 (dfc_num_empty d) \<le> 100"
  using dfc_run_bound [OF assms] dfc_run_empty_cap [OF assms] by simp

theorem data_frame_floods_bounded_witness:
  "dfc_available (the (dfc_run [0, 100, 300] (dfc_new None None))) + 156 \<le> 32767 + 44"
proof -
  have "\<exists>d'. dfc_run [0, 100, 300] (dfc_new None None) = Some d'"
    by (simp add: dfc_run_def dfc_step_def dfc_record_def dfc_new_def budget_consume_def
        budget_replenish_def usize_checked_add_def DATA_FRAME_OVERHEAD_THRESHOLD_def
        DATA_FRAME_BUDGET_def MAX_RECV_EMPTY_DATA_FRAMES_def usize_max_def Let_def)
  then show ?thesis
    using data_frame_floods_bounded [of "[0, 100, 300]" "dfc_new None None"]
    by (auto simp: frame_cost_def frame_gain_def dfc_new_def dfc_available_def DATA_FRAME_BUDGET_def
        DATA_FRAME_OVERHEAD_THRESHOLD_def Let_def)
qed

text \<open>Releasing the charge of a small frame restores the budget it took, exactly.\<close>

theorem budget_charge_release:
  assumes "dfc_ok d" and "0 < n" and "n < 256" and "dfc_record n d = (d', Inr charge)"
    and "b_max (dfc_budget d) \<le> usize_max"
  shows "dfc_release charge d' = d"
  by (rule dfc_record_release [OF assms])

theorem budget_charge_release_witness:
  "dfc_release 246 (fst (dfc_record 10 (dfc_new None None))) = dfc_new None None"
  by (rule budget_charge_release [of _ 10])
    (simp_all add: dfc_record_def dfc_new_def budget_consume_def DATA_FRAME_OVERHEAD_THRESHOLD_def
      DATA_FRAME_BUDGET_def dfc_ok_def usize_max_def Let_def)

text \<open>SETTINGS acknowledgements: in any history, the peer's ACKs accepted never outnumber the
  SETTINGS frames sent; an ACK with none outstanding is an error; the local values never change.\<close>

theorem settings_acks_matched:
  assumes "settings_trace s es t" and "ss_state s = ToSend"
  shows "count_list es EvAck + (if ss_state t = WaitingAck then 1 else 0) \<le> count_list es EvSent
    \<and> ss_local t = ss_local s
    \<and> (ss_state t \<noteq> WaitingAck \<longrightarrow> (\<exists>e. settings_recv_ack t = (t, Inl e)))"
  using settings_trace_acks [OF assms] settings_local_const [OF assms(1)]
  by (simp add: settings_recv_ack_def)

definition sample_settings :: settings_sync where
  "sample_settings = settings_new \<lparr>sv_header_table_size = None, sv_enable_push = None,
     sv_max_concurrent_streams = Some 200, sv_initial_window_size = Some 65535, sv_max_frame_size = None,
     sv_max_header_list_size = None\<rparr>"

theorem settings_acks_matched_witness:
  "\<exists>t. settings_trace sample_settings [EvSent] t \<and> ss_state t = WaitingAck
     \<and> ss_local t = ss_local sample_settings"
proof -
  have "settings_trace sample_settings ([] @ [EvSent]) (settings_mark_sent sample_settings)"
    by (rule settings_trace.snoc [OF settings_trace.nil sent])
  then show ?thesis
    using settings_acks_matched [of sample_settings "[EvSent]" "settings_mark_sent sample_settings"]
    by (auto simp: settings_mark_sent_def sample_settings_def settings_new_def)
qed

end
