(* ===== verification/Http_Map.thy ===== *)
theory Http_Map
  imports Http_Headers
begin

section \<open>The header map of Python\<close>

text \<open>
  src/http/mod.rs: the Python class \<open>HeaderMap\<close> over \<open>http::HeaderMap\<close>, which the application builds
  and reads heads with, and \<open>uri_parts\<close>. A method is a function of the map behind the object's mutex;
  one that changes it returns the new map. What Python hands over is a \<open>py_value\<close>; a \<open>str\<close> is its UTF-8
  encoding, \<open>None\<close> if it has none (a lone surrogate). The parsers of the crate http and its capacity
  are arguments (\<open>header_lib\<close>); so is its URI parser.
\<close>

datatype py_value = PyText "bytes option" | PyRaw bytes | PyOther

datatype map_error =
    MapValueError string
  | MapTypeError string
  | MapKeyError header_name
  | MapEncodeError
  | MapForeign pyobj

record header_lib =
  hm_name_from_bytes :: "bytes \<Rightarrow> string + header_name"
  hm_value_from_str :: "bytes \<Rightarrow> string + header_value"
  hm_value_from_bytes :: "bytes \<Rightarrow> string + header_value"
  hm_full :: "header_map \<Rightarrow> header_name \<Rightarrow> bool"

subsection \<open>Names and values\<close>

definition map_value_err :: "string \<Rightarrow> string \<Rightarrow> map_error" where
  "map_value_err what e = MapValueError (what @ '': '' @ e)"

definition max_size_err :: map_error where
  "max_size_err = MapValueError ''header map is full (http::HeaderMap MAX_SIZE, 32768 entries)''"

definition or_err :: "string \<Rightarrow> string + 'a \<Rightarrow> map_error + 'a" where
  "or_err what r = (case r of Inl e \<Rightarrow> Inl (map_value_err what e) | Inr x \<Rightarrow> Inr x)"

definition parse_name :: "header_lib \<Rightarrow> py_value \<Rightarrow> map_error + header_name" where
  "parse_name lib name =
     (case name of
        PyText (Some s) \<Rightarrow> or_err ''invalid header name'' (hm_name_from_bytes lib s)
      | PyText None \<Rightarrow> Inl MapEncodeError
      | PyRaw b \<Rightarrow> or_err ''invalid header name'' (hm_name_from_bytes lib b)
      | PyOther \<Rightarrow> Inl (MapTypeError ''header name must be str or bytes''))"

definition parse_value :: "header_lib \<Rightarrow> py_value \<Rightarrow> map_error + header_value" where
  "parse_value lib val =
     (case val of
        PyText (Some s) \<Rightarrow> or_err ''invalid header value'' (hm_value_from_str lib s)
      | PyText None \<Rightarrow> Inl MapEncodeError
      | PyRaw b \<Rightarrow> or_err ''invalid header value'' (hm_value_from_bytes lib b)
      | PyOther \<Rightarrow> Inl (MapTypeError ''header value must be str or bytes''))"

subsection \<open>Changes\<close>

text \<open>\<open>try_append\<close> and \<open>try_insert\<close> fail, without effect, on a map that has no room for the name.\<close>

definition try_append :: "header_lib \<Rightarrow> header_name \<Rightarrow> header_value \<Rightarrow> header_map \<Rightarrow> header_map \<times> (map_error + unit)" where
  "try_append lib n v m = (if hm_full lib m n then (m, Inl max_size_err) else (header_append n v m, Inr ()))"

definition try_insert :: "header_lib \<Rightarrow> header_name \<Rightarrow> header_value \<Rightarrow> header_map \<Rightarrow> header_map \<times> (map_error + unit)" where
  "try_insert lib n v m = (if hm_full lib m n then (m, Inl max_size_err) else (header_insert n v m, Inr ()))"

definition map_add :: "header_lib \<Rightarrow> py_value \<Rightarrow> py_value \<Rightarrow> header_map \<Rightarrow> header_map \<times> (map_error + unit)" where
  "map_add lib name val m =
     (case parse_name lib name of
        Inl e \<Rightarrow> (m, Inl e)
      | Inr n \<Rightarrow> (case parse_value lib val of Inl e \<Rightarrow> (m, Inl e) | Inr v \<Rightarrow> try_append lib n v m))"

definition map_setitem :: "header_lib \<Rightarrow> py_value \<Rightarrow> py_value \<Rightarrow> header_map \<Rightarrow> header_map \<times> (map_error + unit)" where
  "map_setitem lib name val m =
     (case parse_name lib name of
        Inl e \<Rightarrow> (m, Inl e)
      | Inr n \<Rightarrow> (case parse_value lib val of Inl e \<Rightarrow> (m, Inl e) | Inr v \<Rightarrow> try_insert lib n v m))"

definition map_delitem :: "header_lib \<Rightarrow> py_value \<Rightarrow> header_map \<Rightarrow> header_map \<times> (map_error + unit)" where
  "map_delitem lib name m =
     (case parse_name lib name of
        Inl e \<Rightarrow> (m, Inl e)
      | Inr n \<Rightarrow> (if header_contains m n then (header_remove n m, Inr ()) else (m, Inl (MapKeyError n))))"

definition map_setdefault :: "header_lib \<Rightarrow> py_value \<Rightarrow> py_value \<Rightarrow> header_map \<Rightarrow> header_map \<times> (map_error + header_value)" where
  "map_setdefault lib name val m =
     (case parse_name lib name of
        Inl e \<Rightarrow> (m, Inl e)
      | Inr n \<Rightarrow>
          (case header_get m n of
             Some v \<Rightarrow> (m, Inr v)
           | None \<Rightarrow>
               (case parse_value lib val of
                  Inl e \<Rightarrow> (m, Inl e)
                | Inr v \<Rightarrow> (case try_append lib n v m of
                     (m', Inl e) \<Rightarrow> (m', Inl e) | (m', Inr _) \<Rightarrow> (m', Inr v)))))"

text \<open>The constructor: a copy of another map, a \<open>dict\<close>, or any iterable of pairs. An item that is not a
  pair, and an object that is not iterable, raise whatever Python raises (\<open>MapForeign\<close>).\<close>

datatype map_init =
    InitMap header_map
  | InitDict "(py_value \<times> py_value) list"
  | InitItems "(pyobj + py_value \<times> py_value) list"
  | InitNotIterable pyobj

fun append_items ::
  "header_lib \<Rightarrow> (pyobj + py_value \<times> py_value) list \<Rightarrow> header_map \<Rightarrow> map_error + header_map" where
  "append_items lib [] m = Inr m"
| "append_items lib (Inl e # items) m = Inl (MapForeign e)"
| "append_items lib (Inr (name, val) # items) m =
     (case map_add lib name val m of (m', Inl e) \<Rightarrow> Inl e | (m', Inr _) \<Rightarrow> append_items lib items m')"

definition map_new :: "header_lib \<Rightarrow> map_init option \<Rightarrow> map_error + header_map" where
  "map_new lib init =
     (case init of
        None \<Rightarrow> Inr []
      | Some (InitMap other) \<Rightarrow> Inr other
      | Some (InitDict items) \<Rightarrow> append_items lib (map Inr items) []
      | Some (InitItems items) \<Rightarrow> append_items lib items []
      | Some (InitNotIterable e) \<Rightarrow> Inl (MapForeign e))"

subsection \<open>Reading\<close>

definition map_getitem :: "header_lib \<Rightarrow> py_value \<Rightarrow> header_map \<Rightarrow> map_error + header_value" where
  "map_getitem lib name m =
     (case parse_name lib name of
        Inl e \<Rightarrow> Inl e
      | Inr n \<Rightarrow> (case header_get m n of Some v \<Rightarrow> Inr v | None \<Rightarrow> Inl (MapKeyError n)))"

text \<open>The default is the caller's object; \<open>None\<close> stands for it (or for Python's \<open>None\<close>).\<close>

definition map_get :: "header_lib \<Rightarrow> py_value \<Rightarrow> header_map \<Rightarrow> map_error + header_value option" where
  "map_get lib name m = (case parse_name lib name of Inl e \<Rightarrow> Inl e | Inr n \<Rightarrow> Inr (header_get m n))"

definition map_get_all :: "header_lib \<Rightarrow> py_value \<Rightarrow> header_map \<Rightarrow> map_error + header_value list" where
  "map_get_all lib name m = (case parse_name lib name of Inl e \<Rightarrow> Inl e | Inr n \<Rightarrow> Inr (header_get_all m n))"

definition map_contains :: "header_lib \<Rightarrow> py_value \<Rightarrow> header_map \<Rightarrow> bool" where
  "map_contains lib name m = (case parse_name lib name of Inr n \<Rightarrow> header_contains m n | Inl _ \<Rightarrow> False)"

definition map_keys :: "header_map \<Rightarrow> header_name list" where
  "map_keys m = List.map_filter fst (header_drain m)"

definition map_values :: "header_map \<Rightarrow> header_value list" where
  "map_values m = map snd m"

definition map_items :: "header_map \<Rightarrow> (header_name \<times> header_value) list" where
  "map_items m = m"

definition map_raw_items :: "header_map \<Rightarrow> (bytes \<times> header_value) list" where
  "map_raw_items m = map (\<lambda>(n, v). (ascii n, v)) m"

definition map_len :: "header_map \<Rightarrow> usize" where
  "map_len m = length m"

text \<open>\<open>PartialEq\<close> of the crate's map: as many values, and for every name of the left map the same ones.\<close>

definition header_map_eq :: "header_map \<Rightarrow> header_map \<Rightarrow> bool" where
  "header_map_eq a b \<longleftrightarrow>
     length a = length b \<and> list_all (\<lambda>n. header_get_all a n = header_get_all b n) (map_keys a)"

text \<open>\<open>__eq__\<close> with the addresses of the two objects; \<open>None\<close> is an object of another class. The locks are
  taken in the order of the addresses, which the result does not show; \<open>map_eq_locks\<close> is that order.\<close>

definition map_eq :: "nat \<times> header_map \<Rightarrow> (nat \<times> header_map) option \<Rightarrow> bool" where
  "map_eq self other =
     (case other of
        None \<Rightarrow> False
      | Some o2 \<Rightarrow> if fst self = fst o2 then True else header_map_eq (snd self) (snd o2))"

definition map_eq_locks :: "nat \<Rightarrow> nat \<Rightarrow> nat list" where
  "map_eq_locks self other =
     (if self = other then [] else if self < other then [self, other] else [other, self])"

subsection \<open>URLs\<close>

record uri_view =
  uv_scheme :: "string option"
  uv_host :: "string option"
  uv_port :: "u16 option"

text \<open>The text that \<open>{:?}\<close> makes of the URL inside the error is left out, as everywhere.\<close>

definition uri_parts ::
  "(string \<Rightarrow> string + uri_view) \<Rightarrow> string
   \<Rightarrow> map_error + string option \<times> string option \<times> u16 option \<times> string option" where
  "uri_parts parse url =
     (case parse url of
        Inl e \<Rightarrow> Inl (map_value_err ''invalid url'' e)
      | Inr uri \<Rightarrow>
          (let scheme = uv_scheme uri;
               port = (case uv_port uri of
                         Some p \<Rightarrow> Some p
                       | None \<Rightarrow>
                           if scheme = Some ''http'' \<or> scheme = Some ''ws'' then Some 80
                           else if scheme = Some ''https'' \<or> scheme = Some ''wss'' then Some 443 else None);
               authority = (case (uv_host uri, port) of
                              (Some h, Some p) \<Rightarrow> Some (h @ '':'' @ show_nat p)
                            | _ \<Rightarrow> None);
               host = map_option (\<lambda>h. rev (dropWhile (\<lambda>c. c = CHR '']'') (rev (dropWhile (\<lambda>c. c = CHR ''['') h))))
                        (uv_host uri)
           in Inr (scheme, host, port, authority)))"

subsection \<open>The values of a name stand together\<close>

fun grouped :: "header_map \<Rightarrow> bool" where
  "grouped [] \<longleftrightarrow> True"
| "grouped ((n, v) # m) \<longleftrightarrow> grouped m \<and> (header_contains m n \<longrightarrow> fst (hd m) = n)"

lemma hd_header_append: "m \<noteq> [] \<Longrightarrow> hd (header_append n v m) = hd m"
  by (cases m) auto

lemma header_contains_append [simp]:
  "header_contains (header_append n v m) k \<longleftrightarrow> k = n \<or> header_contains m k"
  by (auto simp: header_contains_get_all)

lemma grouped_append: "grouped m \<Longrightarrow> grouped (header_append n v m)"
proof (induction m)
  case (Cons f m)
  obtain k w where f: "f = (k, w)" by fastforce
  have "fst (hd (header_append n v m)) = k" if "header_contains m k"
    using hd_header_append [of m n v] that Cons.prems f by (cases m) auto
  then show ?case using Cons f by auto
qed simp

lemma grouped_remove: "grouped m \<Longrightarrow> grouped (header_remove n m)"
proof (induction m)
  case (Cons f m)
  obtain k w where f: "f = (k, w)" by fastforce
  have "fst (hd (header_remove n m)) = k" if "header_contains m k" "k \<noteq> n"
    using that Cons.prems f by (cases m) (auto simp: header_remove_def)
  moreover have "header_remove n (f # m) = (if k = n then header_remove n m else f # header_remove n m)"
    by (simp add: header_remove_def f)
  ultimately show ?case using Cons f by simp
qed (simp add: header_remove_def)

lemma grouped_insert: "grouped m \<Longrightarrow> grouped (header_insert n v m)"
proof (induction m)
  case (Cons f m)
  obtain k w where f: "f = (k, w)" by fastforce
  have "fst (hd (header_insert n v m)) = k" if "header_contains m k" "k \<noteq> n"
    using that Cons.prems f by (cases m) auto
  then show ?case using Cons f grouped_remove [of m n] by auto
qed simp

text \<open>So \<open>keys\<close> yields every name once.\<close>

lemma map_keys_from:
  "List.map_filter fst (header_drain_from prev ((n, v) # m))
   = (if prev = Some n then [] else [n]) @ List.map_filter fst (header_drain_from (Some n) m)"
  by (simp add: map_filter_simps)

lemma drain_names:
  "set (List.map_filter fst (header_drain_from prev m)) \<subseteq> fst ` set m"
  "fst ` set m \<subseteq> set (List.map_filter fst (header_drain_from prev m)) \<union> set_option prev"
  by (induction m arbitrary: prev) (force simp: map_filter_simps split: if_splits)+

lemma grouped_drain:
  "grouped m \<Longrightarrow> distinct (List.map_filter fst (header_drain_from prev m))
    \<and> (\<forall>n. prev = Some n \<and> (header_contains m n \<longrightarrow> fst (hd m) = n) \<longrightarrow> n \<notin> set (List.map_filter fst (header_drain_from prev m)))"
proof (induction m arbitrary: prev)
  case (Cons f m)
  obtain k w where f: "f = (k, w)" by fastforce
  have IH: "distinct (List.map_filter fst (header_drain_from (Some k) m))"
    "k \<notin> set (List.map_filter fst (header_drain_from (Some k) m))"
    using Cons.IH [of "Some k"] Cons.prems f by auto
  have sub: "set (List.map_filter fst (header_drain_from (Some k) m)) \<subseteq> fst ` set m" by (rule drain_names)
  show ?case
    using IH sub unfolding f map_keys_from by (auto simp: header_contains_def)
qed simp

lemma map_keys_set: "set (map_keys m) = fst ` set m"
  using drain_names [where prev = None and m = m] by (auto simp: map_keys_def header_drain_def)

lemma map_keys_distinct: "grouped m \<Longrightarrow> distinct (map_keys m)"
  using grouped_drain [where prev = None and m = m] by (simp add: map_keys_def header_drain_def)

subsection \<open>The map is a multimap\<close>

text \<open>Counting by names.\<close>

lemma length_by_names:
  "finite A \<Longrightarrow> fst ` set m \<subseteq> A \<Longrightarrow> length m = (\<Sum>n \<in> A. length (header_get_all m n))"
proof (induction m)
  case (Cons f m)
  obtain k w where f: "f = (k, w)" by fastforce
  have k: "k \<in> A" using Cons.prems(2) f by auto
  have "(\<Sum>n \<in> A. length (header_get_all (f # m) n)) = (\<Sum>n \<in> A. (if n = k then 1 else 0) + length (header_get_all m n))"
    by (intro sum.cong) (auto simp: f)
  also have "\<dots> = 1 + length m"
    using Cons k by (simp add: sum.distrib sum.delta)
  finally show ?case by simp
qed simp

lemma names_get_all: "fst ` set m = {n. header_get_all m n \<noteq> []}"
  by (auto simp: header_contains_get_all [symmetric] header_contains_def)

lemma header_map_eq_iff: "header_map_eq a b \<longleftrightarrow> header_get_all a = header_get_all b"
proof
  assume eq: "header_map_eq a b"
  then have same: "header_get_all a n = header_get_all b n" if "n \<in> fst ` set a" for n
    using that by (auto simp: header_map_eq_def list_all_iff map_keys_set)
  let ?A = "fst ` set a \<union> fst ` set b"
  have "header_get_all a n = header_get_all b n" for n
  proof (rule ccontr)
    assume ne: "header_get_all a n \<noteq> header_get_all b n"
    then have n: "n \<notin> fst ` set a" using same by blast
    then have a: "header_get_all a n = []" by (simp add: names_get_all)
    then have b: "n \<in> fst ` set b" using ne by (simp add: names_get_all)
    have le: "length (header_get_all a k) \<le> length (header_get_all b k)" for k
      using same [of k] names_get_all [of a] by (cases "k \<in> fst ` set a") auto
    have "length a < length b"
      unfolding length_by_names [of ?A a, simplified] length_by_names [of ?A b, simplified]
    proof (rule sum_strict_mono_ex1)
      show "\<exists>k \<in> ?A. length (header_get_all a k) < length (header_get_all b k)"
        using a b ne by (intro bexI [of _ n]) auto
    qed (use le in auto)
    then show False using eq by (simp add: header_map_eq_def)
  qed
  then show "header_get_all a = header_get_all b" ..
next
  assume eq: "header_get_all a = header_get_all b"
  then have "fst ` set a = fst ` set b" by (simp add: names_get_all)
  then have "length a = length b"
    using eq length_by_names [of "fst ` set a" a] length_by_names [of "fst ` set b" b] by simp
  then show "header_map_eq a b" using eq by (simp add: header_map_eq_def list_all_iff)
qed

text \<open>
  The contract: a map from names to lists of values, of which \<open>HeaderMap\<close> is a representation. \<open>full\<close>
  says for which names the map has no room.
\<close>

datatype map_call =
    CallAdd py_value py_value | CallSetItem py_value py_value | CallDelItem py_value
  | CallSetDefault py_value py_value | CallGet py_value | CallGetAll py_value | CallGetItem py_value
  | CallContains py_value | CallLen | CallEq header_map

datatype map_result =
    MapDone | MapGot "header_value option" | MapValues "header_value list" | MapBool bool | MapCount usize

fun map_call_step :: "header_lib \<Rightarrow> map_call \<Rightarrow> header_map \<Rightarrow> header_map \<times> (map_error + map_result)" where
  "map_call_step lib (CallAdd name val) m = apsnd (map_sum id (\<lambda>_. MapDone)) (map_add lib name val m)"
| "map_call_step lib (CallSetItem name val) m = apsnd (map_sum id (\<lambda>_. MapDone)) (map_setitem lib name val m)"
| "map_call_step lib (CallDelItem name) m = apsnd (map_sum id (\<lambda>_. MapDone)) (map_delitem lib name m)"
| "map_call_step lib (CallSetDefault name val) m = apsnd (map_sum id (\<lambda>v. MapGot (Some v))) (map_setdefault lib name val m)"
| "map_call_step lib (CallGet name) m = (m, map_sum id MapGot (map_get lib name m))"
| "map_call_step lib (CallGetAll name) m = (m, map_sum id MapValues (map_get_all lib name m))"
| "map_call_step lib (CallGetItem name) m = (m, map_sum id (\<lambda>v. MapGot (Some v)) (map_getitem lib name m))"
| "map_call_step lib (CallContains name) m = (m, Inr (MapBool (map_contains lib name m)))"
| "map_call_step lib CallLen m = (m, Inr (MapCount (map_len m)))"
| "map_call_step lib (CallEq other) m = (m, Inr (MapBool (header_map_eq m other)))"

type_synonym multimap = "header_name \<Rightarrow> header_value list"

definition multi_put :: "(header_name \<Rightarrow> bool) \<Rightarrow> header_name \<Rightarrow> header_value list \<Rightarrow> map_result \<Rightarrow> multimap \<Rightarrow> multimap \<times> (map_error + map_result)" where
  "multi_put full n vs r f = (if full n then (f, Inl max_size_err) else (f(n := vs), Inr r))"

fun multimap_step ::
  "header_lib \<Rightarrow> (header_name \<Rightarrow> bool) \<Rightarrow> map_call \<Rightarrow> multimap \<Rightarrow> multimap \<times> (map_error + map_result)" where
  "multimap_step lib full (CallAdd name val) f =
     (case (parse_name lib name, parse_value lib val) of
        (Inl e, _) \<Rightarrow> (f, Inl e) | (_, Inl e) \<Rightarrow> (f, Inl e)
      | (Inr n, Inr v) \<Rightarrow> multi_put full n (f n @ [v]) MapDone f)"
| "multimap_step lib full (CallSetItem name val) f =
     (case (parse_name lib name, parse_value lib val) of
        (Inl e, _) \<Rightarrow> (f, Inl e) | (_, Inl e) \<Rightarrow> (f, Inl e)
      | (Inr n, Inr v) \<Rightarrow> multi_put full n [v] MapDone f)"
| "multimap_step lib full (CallDelItem name) f =
     (case parse_name lib name of
        Inl e \<Rightarrow> (f, Inl e)
      | Inr n \<Rightarrow> if f n = [] then (f, Inl (MapKeyError n)) else (f(n := []), Inr MapDone))"
| "multimap_step lib full (CallSetDefault name val) f =
     (case parse_name lib name of
        Inl e \<Rightarrow> (f, Inl e)
      | Inr n \<Rightarrow>
          if f n \<noteq> [] then (f, Inr (MapGot (Some (hd (f n)))))
          else (case parse_value lib val of
                  Inl e \<Rightarrow> (f, Inl e) | Inr v \<Rightarrow> multi_put full n [v] (MapGot (Some v)) f))"
| "multimap_step lib full (CallGet name) f =
     (f, map_sum id (\<lambda>n. MapGot (if f n = [] then None else Some (hd (f n)))) (parse_name lib name))"
| "multimap_step lib full (CallGetAll name) f = (f, map_sum id (\<lambda>n. MapValues (f n)) (parse_name lib name))"
| "multimap_step lib full (CallGetItem name) f =
     (f, case parse_name lib name of
           Inl e \<Rightarrow> Inl e | Inr n \<Rightarrow> if f n = [] then Inl (MapKeyError n) else Inr (MapGot (Some (hd (f n)))))"
| "multimap_step lib full (CallContains name) f =
     (f, Inr (MapBool (case parse_name lib name of Inl _ \<Rightarrow> False | Inr n \<Rightarrow> f n \<noteq> [])))"
| "multimap_step lib full CallLen f = (f, Inr (MapCount (\<Sum>n \<in> {n. f n \<noteq> []}. length (f n))))"
| "multimap_step lib full (CallEq other) f = (f, Inr (MapBool (f = header_get_all other)))"

lemma header_get_first:
  "header_get m n = (if header_get_all m n = [] then None else Some (hd (header_get_all m n)))"
  by (induction m) (auto simp: header_get_def)

lemma get_all_updates:
  "header_get_all (header_append n v m) = (header_get_all m)(n := header_get_all m n @ [v])"
  "header_get_all (header_insert n v m) = (header_get_all m)(n := [v])"
  "header_get_all (header_remove n m) = (header_get_all m)(n := [])"
  by (simp_all add: fun_eq_iff)

lemma map_len_names: "map_len m = (\<Sum>n \<in> {n. header_get_all m n \<noteq> []}. length (header_get_all m n))"
  using length_by_names [of "fst ` set m" m] by (simp add: map_len_def names_get_all [symmetric])

lemmas map_ops = map_add_def map_setitem_def map_delitem_def map_setdefault_def map_get_def map_get_all_def
  map_getitem_def map_contains_def try_append_def try_insert_def multi_put_def

lemma map_refines:
  "multimap_step lib (hm_full lib m) call (header_get_all m)
   = (header_get_all (fst (map_call_step lib call m)), snd (map_call_step lib call m))"
  by (cases call) (simp_all add: map_ops get_all_updates header_contains_get_all header_get_first map_len_names
      header_map_eq_iff split: sum.split)

lemma map_stays_grouped: "grouped m \<Longrightarrow> grouped (fst (map_call_step lib call m))"
  by (cases call) (auto simp: map_ops grouped_append grouped_insert grouped_remove split: sum.split option.split)

lemma append_items_grouped: "append_items lib items m = Inr m' \<Longrightarrow> grouped m \<Longrightarrow> grouped m'"
proof (induction lib items m rule: append_items.induct)
  case (3 lib name val items m)
  then show ?case
    by (auto simp: map_add_def try_append_def grouped_append split: sum.splits if_splits)
qed auto

subsection \<open>Comparing two maps at once\<close>

text \<open>Both sides of \<open>a == b\<close> and \<open>b == a\<close> take the two locks in one order, and no lock twice.\<close>

lemma map_eq_lock_order:
  "map_eq_locks a b = map_eq_locks b a" "sorted_wrt (<) (map_eq_locks a b)"
  by (auto simp: map_eq_locks_def)

end
