(* ===== verification/Properties_Codec.thy ===== *)
theory Properties_Codec
  imports Frame_Stream Http_Map
begin

section \<open>Properties of the codec\<close>

text \<open>
  The frame decoder and encoder and the HPACK decoder: reads may be cut anywhere, what is written is
  what is read, header blocks and tables stay within their bounds; and the header map of Python.
\<close>

subsection \<open>Decimal numbers\<close>

lemma parse_digits_append:
  "parse_digits r (as @ bs) = Option.bind (parse_digits r as) (\<lambda>n. parse_digits n bs)"
  by (induction as arbitrary: r) auto

lemma parse_digits_bound: "parse_digits r ds = Some n \<Longrightarrow> n < (r + 1) * 10 ^ length ds"
proof (induction ds arbitrary: r)
  case (Cons d ds)
  let ?r = "r * 10 + (unat d - 48)"
  have "unat d - 48 \<le> 9" and "n < (?r + 1) * 10 ^ length ds"
    using Cons by (auto split: if_splits)
  moreover from this(1) have "(?r + 1) * 10 ^ length ds \<le> ((r + 1) * 10) * 10 ^ length ds"
    by (intro mult_le_mono1) simp
  ultimately have "n < ((r + 1) * 10) * 10 ^ length ds" using less_le_trans by blast
  then show ?case by (simp only: mult.assoc list.size power_Suc add_Suc_right add_0_right)
qed simp

lemma parse_show_nat: "parse_digits r (ascii (show_nat n)) = Some (r * 10 ^ length (show_nat n) + n)"
proof (induction n arbitrary: r rule: show_nat.induct)
  case (1 n)
  have digit: "parse_digits m (ascii [char_of (48 + d :: nat)]) = Some (m * 10 + d)" if "d < 10" for m d
  proof -
    have "of_char (char_of (48 + d :: nat)) = 48 + d" using that by simp
    moreover have "unat (word_of_nat (48 + d) :: byte) = 48 + d"
      using that by (simp only: unat_of_nat) simp
    ultimately show ?thesis using that by (simp add: ascii_def del: of_nat_add)
  qed
  show ?case
  proof (cases "n < 10")
    case True
    then show ?thesis using digit [of n r] by (simp add: show_nat.simps [of n])
  next
    case False
    have "show_nat n = show_nat (n div 10) @ [char_of (48 + n mod 10)]"
      using False by (subst show_nat.simps) simp
    moreover have "ascii (as @ bs) = ascii as @ ascii bs" for as bs by (simp add: ascii_def)
    ultimately show ?thesis
      using 1 [OF False, of r] digit [of "n mod 10"]
      by (simp add: parse_digits_append algebra_simps)
  qed
qed

subsection \<open>Frames\<close>


definition plain_env :: decoder_env where
  "plain_env = \<lparr>env_lib = \<lparr>hl_huffman = (\<lambda>_. None), hl_method_from_bytes = (\<lambda>_. None),
     hl_status_from_bytes = (\<lambda>_. None), hl_name_from_lowercase = (\<lambda>_. None),
     hl_value_from_bytes = (\<lambda>_. None)\<rparr>, env_map_full = (\<lambda>_ _. False)\<rparr>"


text \<open>What the encoder writes is what a decoder reads: the bytes of any sequence of frames below
  the header layer (WINDOW\_UPDATE, RST\_STREAM, GOAWAY, PING, SETTINGS and its ACK, DATA within the
  frame size) come out as exactly their events, in order, with nothing left over.\<close>

theorem frames_written_are_read:
  assumes "sent_all enc fs = Inr out" and "\<forall>f \<in> set fs. sent_ok f" and "enc_ok enc"
    and "max 16384 (enc_send_max_frame_size enc) \<le> dc_max_recv_frame_size d"
    and "dc_partial d = None" and "dc_buf d = []" and "dc_preface_ok d"
  shows "receive_frames env out d = (d, Inr (map sent_event fs))"
proof -
  have "d\<lparr>dc_buf := []\<rparr> = d" using assms(6) by simp
  then show ?thesis
    using receive_loop_sent [OF assms(1-5), of env "[]"] assms(6,7) by (simp add: receive_frames_def)
qed

definition plain_frames :: "sent_frame list" where
  "plain_frames = [SendSettingsAck, SendPing [1, 2, 3, 4, 5, 6, 7, 8] False, SendData 1 [104, 105] True]"

definition plain_encoder :: "unit encoder" where
  "plain_encoder = \<lparr>enc_hpack = (), enc_send_max_frame_size = 16384\<rparr>"

theorem frames_written_are_read_witness:
  "\<exists>out. sent_all plain_encoder plain_frames = Inr out
     \<and> receive_frames plain_env out (frame_decoder_new False)
       = (frame_decoder_new False, Inr (map sent_event plain_frames))"
proof -
  have "\<exists>out. sent_all plain_encoder plain_frames = Inr out"
    by (simp add: plain_frames_def plain_encoder_def encode_ping_def enc_encode_data_def)
  then show ?thesis
    using frames_written_are_read [of plain_encoder plain_frames _ "frame_decoder_new False" plain_env]
    by (auto simp: plain_frames_def plain_encoder_def enc_ok_def frame_decoder_new_def
        DEFAULT_MAX_FRAME_SIZE_def MAX_MAX_FRAME_SIZE_def)
qed

text \<open>SETTINGS: a payload is loaded only with every value in its legal range, and a frame of legal
  values is read back as it was written.\<close>

theorem settings_values_legal:
  "(settings_load h payload = Inr s \<longrightarrow> settings_valid s)
   \<and> (settings_valid s \<and> (sf_ack s \<longrightarrow> s = settings_ack) \<longrightarrow>
      settings_load (head_new KSettings (if sf_ack s then 1 else 0) 0)
        (concat (map setting_encode (settings_for_each s))) = Inr s)"
  using settings_load_valid settings_roundtrip_payload by blast

theorem settings_values_legal_witness:
  "settings_load (head_new KSettings 0 0) (concat (map setting_encode (settings_for_each
     (settings_default\<lparr>sf_initial_window_size := Some 2147483647, sf_max_frame_size := Some 16384\<rparr>))))
   = Inr (settings_default\<lparr>sf_initial_window_size := Some 2147483647, sf_max_frame_size := Some 16384\<rparr>)"
  using settings_values_legal [of _ _
      "settings_default\<lparr>sf_initial_window_size := Some 2147483647, sf_max_frame_size := Some 16384\<rparr>"]
  by (simp add: settings_valid_def settings_default_def DEFAULT_MAX_FRAME_SIZE_def MAX_MAX_FRAME_SIZE_def)

text \<open>A header block longer than a frame is split losslessly: the encoder writes one HEADERS frame
  and CONTINUATION frames whose payloads concatenate to the block, each within the frame size,
  END\_HEADERS on the last only; and it always writes something.\<close>

theorem header_block_split:
  assumes "0 < n" and "n < 2 ^ 24"
    and "hpk_encode hp (header_iter (hf_pseudo f) (hf_fields f)) h = (h', block)"
  shows "encode_headers_frame hp f n h =
      (h', Some (piece_frames (head_new KHeaders (hf_flags f) (hf_stream_id f)) (pieces n block)))
    \<and> concat (pieces n block) = block \<and> pieces n block \<noteq> []
    \<and> (\<forall>p \<in> set (pieces n block). length p \<le> n)"
  using encode_headers_frame_pieces [OF assms] pieces_length [OF assms(1)] by simp

theorem header_block_split_witness:
  "snd (encode_headers_frame \<lparr>hpk_default = (), hpk_encode = (\<lambda>hs h. (h, [1, 2, 3])), hpk_update_max_size = (\<lambda>_ h. h)\<rparr>
      \<lparr>hf_stream_id = 1, hf_flags = 4, hf_pseudo = pseudo_default, hf_fields = []\<rparr> 2 ())
   = Some (piece_frames (head_new KHeaders 4 1) [[1, 2], [3]])"
  using header_block_split [of 2 "\<lparr>hpk_default = (), hpk_encode = (\<lambda>hs h. (h, [1, 2, 3])), hpk_update_max_size = (\<lambda>_ h. h)\<rparr>"
      "\<lparr>hf_stream_id = 1, hf_flags = 4, hf_pseudo = pseudo_default, hf_fields = []\<rparr>" "()" "()" "[1, 2, 3]"]
    pieces.simps [of 2 "[1, 2, 3]"] pieces.simps [of 2 "[3]"] by simp

subsection \<open>HPACK\<close>



text \<open>An entry that fits becomes the newest of the dynamic table and only old ones are evicted;
  one that does not fit empties the table.\<close>

theorem table_insert_evicts_oldest:
  assumes "table_ok t"
  shows "if header_len h \<le> ht_max_size t
    then \<exists>n. ht_entries (table_insert h t) = h # take n (ht_entries t)
    else ht_entries (table_insert h t) = []"
  using table_insert_entries [OF assms, of h] by simp

theorem table_insert_evicts_oldest_witness:
  "\<exists>n. ht_entries (table_insert (HPath []) (table_insert (HField ''a'' [1]) (table_new 50)))
     = HPath [] # take n (ht_entries (table_insert (HField ''a'' [1]) (table_new 50)))"
proof -
  have "table_ok (table_insert (HField ''a'' [1]) (table_new 50))"
    and "ht_max_size (table_insert (HField ''a'' [1]) (table_new 50)) = 50"
    using table_insert_ok [OF table_ok_new [of 50], of "HField ''a'' [1]"]
    by (simp_all add: table_new_def [of 50, THEN arg_cong, of ht_max_size])
  from table_insert_evicts_oldest [OF this(1), of "HPath []"] this(2) show ?thesis by simp
qed

text \<open>The prefix-coded integers of the encoder are read back as they were written, behind any
  prefix size and first byte, up to the decoder's bound of five bytes.\<close>

theorem integers_written_are_read:
  assumes "1 \<le> p" and "p \<le> 8" and "take_bit p first = 0" and "v - (2 ^ p - 1) < 2 ^ 28"
  shows "decode_int p (encode_int v p first @ rest, 0) =
    ((encode_int v p first @ rest, length (encode_int v p first)), Inr v)"
  by (rule decode_encode_int [OF assms])

theorem integers_written_are_read_witness:
  "decode_int 5 (encode_int 1337 5 64 @ [9], 0)
   = ((encode_int 1337 5 64 @ [9], length (encode_int 1337 5 64)), Inr 1337)"
  by (rule integers_written_are_read) (simp_all add: take_bit_eq_mask mask_numeral)

text \<open>Content-length values: what is parsed fits 64 bits, and every number below \<open>10 ^ 19\<close> in
  decimal is parsed as itself.\<close>

theorem content_length_parsed:
  "(parse_u64 src = Some n \<longrightarrow> n < 2 ^ 64) \<and> (m < 10 ^ 19 \<longrightarrow> parse_u64 (ascii (show_nat m)) = Some m)"
proof -
  have "n < 2 ^ 64" if "parse_u64 src = Some n"
  proof -
    have "n < 10 ^ length src" and "length src \<le> 19"
      using that parse_digits_bound [of 0 src n] by (auto simp: parse_u64_def split: if_splits)
    then have "n < 10 ^ 19" using power_increasing [of "length src" 19 "10::nat"] by simp
    then show ?thesis by simp
  qed
  moreover have "parse_u64 (ascii (show_nat m)) = Some m" if "m < 10 ^ 19"
    using length_show_nat [OF that] parse_show_nat [of 0 m] by (simp add: parse_u64_def)
  ultimately show ?thesis by blast
qed

theorem content_length_parsed_witness: "parse_u64 (ascii (show_nat 120)) = Some 120"
  using content_length_parsed [of "[]" 0 120] by simp

subsection \<open>Header maps\<close>


end
