(* ===== verification/H1_Errors.thy ===== *)
theory H1_Errors
  imports Prelude
begin

section \<open>HTTP/1 errors\<close>

text \<open>
  The error type of the vendored hyper core (crates/vendor-hyper/src/error.rs: \<open>Kind\<close>, \<open>Parse\<close>,
  \<open>Header\<close>, \<open>User\<close>, the text of \<open>description\<close>), its classification tags
  (proto/h1/httpunk.rs) and the Python exceptions it is mapped to (src/h1/errors.rs). The causes
  are the two the sans-IO core attaches: an \<open>io::Error\<close> of the body decoder and the encoder's
  \<open>NotEof\<close>.
\<close>

datatype header_error =
    Token | ContentLengthInvalid | TransferEncodingInvalid | TransferEncodingUnexpected

datatype parse_error =
    ParseMethod | ParseVersion | ParseVersionH2 | ParseUri | ParseUriTooLong
  | ParseHeader header_error | ParseTooLarge | ParseStatus | ParseInternal

datatype hyper_user =
    UserBody | UserBodyWriteAborted | UserService | UserUnexpectedHeader
  | UserUnsupportedStatusCode | UserNoUpgrade | UserManualUpgrade | UserDispatchGone

datatype hyper_kind =
    KindParse parse_error | KindUser hyper_user | KindIncompleteMessage | KindUnexpectedMessage
  | KindCanceled | KindChannelClosed | KindIo | KindHeaderTimeout | KindBody | KindBodyWrite
  | KindShutdown

datatype io_kind = UnexpectedEof | InvalidInput | InvalidData

text \<open>The cause of an error with its text.\<close>

datatype hyper_cause = IoCause io_kind string | NotEofCause nat

datatype hyper_error = HyperError hyper_kind "hyper_cause option"

fun error_kind :: "hyper_error \<Rightarrow> string" where
  "error_kind (HyperError k _) =
     (case k of
        KindParse _ \<Rightarrow> ''parse''
      | KindUser _ \<Rightarrow> ''user''
      | KindIncompleteMessage \<Rightarrow> ''incomplete_message''
      | KindUnexpectedMessage \<Rightarrow> ''unexpected_message''
      | KindCanceled \<Rightarrow> ''canceled''
      | KindChannelClosed \<Rightarrow> ''channel_closed''
      | KindIo \<Rightarrow> ''io''
      | KindHeaderTimeout \<Rightarrow> ''header_timeout''
      | KindBody \<Rightarrow> ''body''
      | KindBodyWrite \<Rightarrow> ''body_write''
      | KindShutdown \<Rightarrow> ''shutdown'')"

fun parse_tag :: "parse_error \<Rightarrow> string" where
  "parse_tag ParseMethod = ''method''"
| "parse_tag ParseVersion = ''version''"
| "parse_tag ParseVersionH2 = ''version_h2''"
| "parse_tag ParseUri = ''uri''"
| "parse_tag ParseUriTooLong = ''uri_too_long''"
| "parse_tag (ParseHeader Token) = ''header_token''"
| "parse_tag (ParseHeader ContentLengthInvalid) = ''header_content_length_invalid''"
| "parse_tag (ParseHeader TransferEncodingInvalid) = ''header_transfer_encoding_invalid''"
| "parse_tag (ParseHeader TransferEncodingUnexpected) = ''header_transfer_encoding_unexpected''"
| "parse_tag ParseTooLarge = ''too_large''"
| "parse_tag ParseStatus = ''status''"
| "parse_tag ParseInternal = ''internal''"

fun error_parse_kind :: "hyper_error \<Rightarrow> string option" where
  "error_parse_kind (HyperError k _) =
     (case k of KindParse p \<Rightarrow> Some (parse_tag p) | _ \<Rightarrow> None)"

fun user_tag :: "hyper_user \<Rightarrow> string" where
  "user_tag UserBody = ''body''"
| "user_tag UserBodyWriteAborted = ''body_write_aborted''"
| "user_tag UserService = ''service''"
| "user_tag UserUnexpectedHeader = ''unexpected_header''"
| "user_tag UserUnsupportedStatusCode = ''unsupported_status_code''"
| "user_tag UserNoUpgrade = ''no_upgrade''"
| "user_tag UserManualUpgrade = ''manual_upgrade''"
| "user_tag UserDispatchGone = ''dispatch_gone''"

fun error_user_kind :: "hyper_error \<Rightarrow> string option" where
  "error_user_kind (HyperError k _) =
     (case k of KindUser u \<Rightarrow> Some (user_tag u) | _ \<Rightarrow> None)"

fun parse_description :: "parse_error \<Rightarrow> string" where
  "parse_description ParseMethod = ''invalid HTTP method parsed''"
| "parse_description ParseVersion = ''invalid HTTP version parsed''"
| "parse_description ParseVersionH2 = ''invalid HTTP version parsed (found HTTP2 preface)''"
| "parse_description ParseUri = ''invalid URI''"
| "parse_description ParseUriTooLong = ''URI too long''"
| "parse_description (ParseHeader Token) = ''invalid HTTP header parsed''"
| "parse_description (ParseHeader ContentLengthInvalid) = ''invalid content-length parsed''"
| "parse_description (ParseHeader TransferEncodingInvalid) = ''invalid transfer-encoding parsed''"
| "parse_description (ParseHeader TransferEncodingUnexpected) =
     ''unexpected transfer-encoding parsed''"
| "parse_description ParseTooLarge = ''message head is too large''"
| "parse_description ParseStatus = ''invalid HTTP status-code parsed''"
| "parse_description ParseInternal =
     ''internal error inside Hyper and/or its dependencies, please report''"

fun user_description :: "hyper_user \<Rightarrow> string" where
  "user_description UserBody = ''error from user's Body stream''"
| "user_description UserBodyWriteAborted = ''user body write aborted''"
| "user_description UserService = ''error from user's Service''"
| "user_description UserUnexpectedHeader = ''user sent unexpected header''"
| "user_description UserUnsupportedStatusCode =
     ''response has 1xx status code, not supported by server''"
| "user_description UserNoUpgrade = ''no upgrade available''"
| "user_description UserManualUpgrade = ''upgrade expected but low level API in use''"
| "user_description UserDispatchGone = ''dispatch task is gone''"

fun description :: "hyper_error \<Rightarrow> string" where
  "description (HyperError k _) =
     (case k of
        KindParse p \<Rightarrow> parse_description p
      | KindUser u \<Rightarrow> user_description u
      | KindIncompleteMessage \<Rightarrow> ''connection closed before message completed''
      | KindUnexpectedMessage \<Rightarrow> ''received unexpected message from connection''
      | KindCanceled \<Rightarrow> ''operation was canceled''
      | KindChannelClosed \<Rightarrow> ''channel closed''
      | KindIo \<Rightarrow> ''connection error''
      | KindHeaderTimeout \<Rightarrow> ''read header from client timeout''
      | KindBody \<Rightarrow> ''error reading a body from connection''
      | KindBodyWrite \<Rightarrow> ''error writing a body to connection''
      | KindShutdown \<Rightarrow> ''error shutting down connection'')"

definition new_body :: "hyper_cause \<Rightarrow> hyper_error" where
  "new_body c = HyperError KindBody (Some c)"

definition new_body_write_aborted :: "nat \<Rightarrow> hyper_error" where
  "new_body_write_aborted n = HyperError (KindUser UserBodyWriteAborted) (Some (NotEofCause n))"

definition new_user_header :: hyper_error where
  "new_user_header = HyperError (KindUser UserUnexpectedHeader) None"

definition new_user_unsupported_status_code :: hyper_error where
  "new_user_unsupported_status_code = HyperError (KindUser UserUnsupportedStatusCode) None"

definition error_of_parse :: "parse_error \<Rightarrow> hyper_error" where
  "error_of_parse p = HyperError (KindParse p) None"

definition too_large_error :: hyper_error where
  "too_large_error = error_of_parse ParseTooLarge"

definition new_version_h2 :: hyper_error where
  "new_version_h2 = error_of_parse ParseVersionH2"

subsection \<open>Python exceptions\<close>

text \<open>\<open>H1Panic\<close> stands for a Rust panic.\<close>

datatype h1_pyerr =
    H1ParseError string string
  | H1BodyError string string
  | H1IncompleteMessageError string
  | H1UnexpectedMessageError string
  | H1UserError string string
  | H1Error string
  | H1ConnectionClosedError string
  | H1ValueError string
  | H1Panic

fun cause_display :: "hyper_cause \<Rightarrow> string" where
  "cause_display (IoCause _ msg) = msg"
| "cause_display (NotEofCause n) = ''early end, expected '' @ show_nat n @ '' more bytes''"

fun error_message :: "hyper_error \<Rightarrow> string" where
  "error_message (HyperError k c) =
     (case c of
        Some c \<Rightarrow> description (HyperError k (Some c)) @ '': '' @ cause_display c
      | None \<Rightarrow> description (HyperError k None))"

text \<open>\<open>io_kind_tag\<close> lowers the \<open>Debug\<close> name of the kind, with an underscore before an
  upper-case letter that is not the first.\<close>

fun io_kind_debug :: "io_kind \<Rightarrow> string" where
  "io_kind_debug UnexpectedEof = ''UnexpectedEof''"
| "io_kind_debug InvalidInput = ''InvalidInput''"
| "io_kind_debug InvalidData = ''InvalidData''"

definition is_ascii_uppercase :: "char \<Rightarrow> bool" where
  "is_ascii_uppercase c \<longleftrightarrow> 65 \<le> (of_char c :: nat) \<and> (of_char c :: nat) \<le> 90"

definition to_ascii_lowercase :: "char \<Rightarrow> char" where
  "to_ascii_lowercase c = (if is_ascii_uppercase c then char_of ((of_char c :: nat) + 32) else c)"

fun snake_case_from :: "nat \<Rightarrow> string \<Rightarrow> string" where
  "snake_case_from i [] = []"
| "snake_case_from i (c # cs) =
     (if is_ascii_uppercase c
      then (if 0 < i then [CHR 95] else []) @ [to_ascii_lowercase c]
      else [c]) @ snake_case_from (Suc i) cs"

definition io_kind_tag :: "io_kind \<Rightarrow> string" where
  "io_kind_tag k = snake_case_from 0 (io_kind_debug k)"

definition find_io_cause :: "hyper_cause option \<Rightarrow> io_kind option" where
  "find_io_cause c = (case c of Some (IoCause k _) \<Rightarrow> Some k | _ \<Rightarrow> None)"

fun map_hyper_err :: "hyper_error \<Rightarrow> h1_pyerr" where
  "map_hyper_err (HyperError k c) =
     (let e = HyperError k c; msg = error_message e
      in if error_kind e = ''parse''
         then H1ParseError (case error_parse_kind e of Some t \<Rightarrow> t | None \<Rightarrow> ''internal'') msg
         else if error_kind e = ''body''
         then H1BodyError (case find_io_cause c of Some io \<Rightarrow> io_kind_tag io | None \<Rightarrow> ''other'') msg
         else if error_kind e = ''incomplete_message'' then H1IncompleteMessageError msg
         else if error_kind e = ''unexpected_message'' then H1UnexpectedMessageError msg
         else if error_kind e = ''user''
         then H1UserError (case error_user_kind e of Some t \<Rightarrow> t | None \<Rightarrow> ''other'') msg
         else if error_kind e = ''io'' \<or> error_kind e = ''shutdown'' then H1ConnectionClosedError msg
         else H1Error msg)"

subsection \<open>The tags are distinct\<close>

lemma io_kind_tags [simp]:
  "io_kind_tag UnexpectedEof = ''unexpected_eof''" "io_kind_tag InvalidInput = ''invalid_input''"
  "io_kind_tag InvalidData = ''invalid_data''"
  by (code_simp, code_simp, code_simp)

lemma parse_tag_inj: "parse_tag p = parse_tag q \<Longrightarrow> p = q"
  by (cases p rule: parse_tag.cases; cases q rule: parse_tag.cases) simp_all

lemma user_tag_inj: "user_tag u = user_tag v \<Longrightarrow> u = v"
  by (cases u; cases v) simp_all

lemma map_hyper_err_no_panic [simp]: "map_hyper_err e \<noteq> H1Panic"
  by (cases e) (simp add: Let_def)

lemma map_hyper_err_parse [simp]:
  "map_hyper_err (error_of_parse p) = H1ParseError (parse_tag p) (parse_description p)"
  by (simp add: error_of_parse_def Let_def)

lemma map_hyper_err_body [simp]:
  "map_hyper_err (new_body (IoCause k msg)) =
     H1BodyError (io_kind_tag k) (''error reading a body from connection: '' @ msg)"
  by (simp add: new_body_def find_io_cause_def Let_def)

end
