(* ===== verification/H1_Body_Decode.thy ===== *)
theory H1_Body_Decode
  imports H1_Errors Http_Headers
begin

section \<open>Decoding an HTTP/1 body\<close>

text \<open>
  crates/vendor-hyper/src/proto/h1/decode.rs: \<open>Decoder\<close> with its three kinds and the state machine
  \<open>ChunkedState\<close>; and the facade \<open>BodyDecoder\<close> of proto/h1/httpunk.rs that drives it over a
  buffer (\<open>SyncMemRead\<close>). \<open>poll\<close> is Rust's \<open>Poll\<close>: \<open>Pending\<close> asks for more bytes.

  The trailer block is parsed by the crates httparse and http, arguments of the model
  (\<open>trailer_lib\<close>). What \<open>{header:?}\<close> prints inside an error message is left out. A header map
  holds 24576 fields; a block of more trailers is not considered.
\<close>

subsection \<open>The reader\<close>

datatype 'a poll = Pending | Ready 'a

record mem_read =
  mr_buf :: bytes
  mr_eof :: bool

definition read_mem :: "usize \<Rightarrow> mem_read \<Rightarrow> mem_read \<times> bytes poll" where
  "read_mem len r =
     (if mr_buf r \<noteq> [] then
        (let n = min len (length (mr_buf r))
         in (r\<lparr>mr_buf := drop n (mr_buf r)\<rparr>, Ready (take n (mr_buf r))))
      else if mr_eof r then (r, Ready [])
      else (r, Pending))"

subsection \<open>The state of a decoder\<close>

datatype chunked_state =
    Start | Size | SizeLws | Extension | SizeLf | Body | BodyCr | BodyLf
  | Trailer | TrailerLf | EndCr | EndLf | End

record chunked =
  ch_state :: chunked_state
  ch_len :: u64
  ch_extensions_cnt :: u64
  ch_trailers_buf :: "bytes option"
  ch_trailers_cnt :: usize
  ch_max_headers :: "usize option"
  ch_max_header_size :: "usize option"

datatype decoder = DLength u64 | DChunked chunked | DEof bool

text \<open>An I/O error, or a panic of an \<open>expect\<close>.\<close>

datatype body_error = BodyIo io_kind string | BodyPanic

definition CHUNKED_EXTENSIONS_LIMIT :: u64 where "CHUNKED_EXTENSIONS_LIMIT = 1024 * 16"
definition TRAILER_LIMIT :: usize where "TRAILER_LIMIT = 1024 * 16"
definition DEFAULT_MAX_HEADERS :: usize where "DEFAULT_MAX_HEADERS = 100"

definition decoder_length :: "u64 \<Rightarrow> decoder" where "decoder_length x = DLength x"

definition decoder_chunked :: "usize option \<Rightarrow> usize option \<Rightarrow> decoder" where
  "decoder_chunked mh mhs = DChunked \<lparr>ch_state = Start, ch_len = 0, ch_extensions_cnt = 0,
     ch_trailers_buf = None, ch_trailers_cnt = 0, ch_max_headers = mh, ch_max_header_size = mhs\<rparr>"

definition decoder_eof :: decoder where "decoder_eof = DEof False"

fun decoder_is_eof :: "decoder \<Rightarrow> bool" where
  "decoder_is_eof (DLength n) \<longleftrightarrow> n = 0"
| "decoder_is_eof (DChunked c) \<longleftrightarrow> ch_state c = End"
| "decoder_is_eof (DEof b) \<longleftrightarrow> b"

definition max_headers_cnt :: "chunked \<Rightarrow> usize" where
  "max_headers_cnt c = (case ch_max_headers c of Some n \<Rightarrow> n | None \<Rightarrow> DEFAULT_MAX_HEADERS)"

definition max_headers_bytes :: "chunked \<Rightarrow> usize" where
  "max_headers_bytes c = (case ch_max_header_size c of Some n \<Rightarrow> n | None \<Rightarrow> TRAILER_LIMIT)"

subsection \<open>One step of the chunked state machine\<close>

text \<open>What a step leaves: the variables, and the next state or an error.\<close>

type_synonym step_result = "chunked \<times> (body_error + chunked_state)"

text \<open>The macro \<open>byte!\<close> and what follows it.\<close>

definition with_byte ::
  "(byte \<Rightarrow> step_result) \<Rightarrow> chunked \<Rightarrow> mem_read
   \<Rightarrow> mem_read \<times> chunked \<times> (body_error + chunked_state) poll" where
  "with_byte k c rdr =
     (case read_mem 1 rdr of
        (rdr', Pending) \<Rightarrow> (rdr', c, Pending)
      | (rdr', Ready []) \<Rightarrow>
          (rdr', c, Ready (Inl (BodyIo UnexpectedEof ''unexpected EOF during chunk size line'')))
      | (rdr', Ready (b # _)) \<Rightarrow> (case k b of (c', r) \<Rightarrow> (rdr', c', Ready r)))"

definition u64_checked_mul :: "u64 \<Rightarrow> u64 \<Rightarrow> u64 option" where
  "u64_checked_mul a b = (if a * b < 2 ^ 64 then Some (a * b) else None)"

definition u64_checked_add :: "u64 \<Rightarrow> u64 \<Rightarrow> u64 option" where
  "u64_checked_add a b = (if a + b < 2 ^ 64 then Some (a + b) else None)"

definition size_overflow :: body_error where
  "size_overflow = BodyIo InvalidData ''invalid chunk size: overflow''"

text \<open>The two \<open>or_overflow!\<close> assignments of a digit.\<close>

definition push_digit :: "nat \<Rightarrow> chunked \<Rightarrow> step_result" where
  "push_digit d c =
     (case u64_checked_mul (ch_len c) 16 of
        None \<Rightarrow> (c, Inl size_overflow)
      | Some m \<Rightarrow>
          (case u64_checked_add m d of
             None \<Rightarrow> (c\<lparr>ch_len := m\<rparr>, Inl size_overflow)
           | Some s \<Rightarrow> (c\<lparr>ch_len := s\<rparr>, Inr Size)))"

definition hex_digit :: "byte \<Rightarrow> nat option" where
  "hex_digit b =
     (let n = unat b
      in if 48 \<le> n \<and> n \<le> 57 then Some (n - 48)
         else if 97 \<le> n \<and> n \<le> 102 then Some (n + 10 - 97)
         else if 65 \<le> n \<and> n \<le> 70 then Some (n + 10 - 65)
         else None)"

definition read_start :: "chunked \<Rightarrow> byte \<Rightarrow> step_result" where
  "read_start c b =
     (case hex_digit b of
        Some d \<Rightarrow> push_digit d c
      | None \<Rightarrow> (c, Inl (BodyIo InvalidInput ''Invalid chunk size line: missing size digit'')))"

definition read_size :: "chunked \<Rightarrow> byte \<Rightarrow> step_result" where
  "read_size c b =
     (case hex_digit b of
        Some d \<Rightarrow> push_digit d c
      | None \<Rightarrow>
          if b = 9 \<or> b = 32 then (c, Inr SizeLws)
          else if b = 59 then (c, Inr Extension)
          else if b = 13 then (c, Inr SizeLf)
          else (c, Inl (BodyIo InvalidInput ''Invalid chunk size line: Invalid Size'')))"

definition read_size_lws :: "chunked \<Rightarrow> byte \<Rightarrow> step_result" where
  "read_size_lws c b =
     (if b = 9 \<or> b = 32 then (c, Inr SizeLws)
      else if b = 59 then (c, Inr Extension)
      else if b = 13 then (c, Inr SizeLf)
      else (c, Inl (BodyIo InvalidInput ''Invalid chunk size linear white space'')))"

definition read_extension :: "chunked \<Rightarrow> byte \<Rightarrow> step_result" where
  "read_extension c b =
     (if b = 13 then (c, Inr SizeLf)
      else if b = 10
      then (c, Inl (BodyIo InvalidData ''invalid chunk extension contains newline''))
      else
        let c1 = c\<lparr>ch_extensions_cnt := ch_extensions_cnt c + 1\<rparr>
        in if CHUNKED_EXTENSIONS_LIMIT \<le> ch_extensions_cnt c1
           then (c1, Inl (BodyIo InvalidData ''chunk extensions over limit''))
           else (c1, Inr Extension))"

definition read_size_lf :: "chunked \<Rightarrow> byte \<Rightarrow> step_result" where
  "read_size_lf c b =
     (if b = 10 then (c, Inr (if ch_len c = 0 then EndCr else Body))
      else (c, Inl (BodyIo InvalidInput ''Invalid chunk size LF'')))"

definition incomplete_body :: body_error where
  "incomplete_body = BodyIo UnexpectedEof ''end of file before message length reached''"

text \<open>\<open>read_body\<close> is the one step that takes more than a byte and yields data.\<close>

definition read_body ::
  "chunked \<Rightarrow> mem_read
   \<Rightarrow> mem_read \<times> chunked \<times> bytes option \<times> (body_error + chunked_state) poll" where
  "read_body c rdr =
     (case read_mem (ch_len c) rdr of
        (rdr', Pending) \<Rightarrow> (rdr', c, None, Pending)
      | (rdr', Ready got) \<Rightarrow>
          if got = [] then (rdr', c\<lparr>ch_len := 0\<rparr>, None, Ready (Inl incomplete_body))
          else
            let rest = usize_sub (ch_len c) (length got)
            in (rdr', c\<lparr>ch_len := rest\<rparr>, Some got,
                Ready (Inr (if 0 < rest then Body else BodyCr))))"

definition read_body_cr :: "chunked \<Rightarrow> byte \<Rightarrow> step_result" where
  "read_body_cr c b =
     (if b = 13 then (c, Inr BodyLf)
      else (c, Inl (BodyIo InvalidInput ''Invalid chunk body CR'')))"

definition read_body_lf :: "chunked \<Rightarrow> byte \<Rightarrow> step_result" where
  "read_body_lf c b =
     (if b = 10 then (c, Inr Start)
      else (c, Inl (BodyIo InvalidInput ''Invalid chunk body LF'')))"

text \<open>The macro \<open>put_u8!\<close> on a buffer, and what follows when the limit is not reached.\<close>

definition put_u8 :: "bytes \<Rightarrow> byte \<Rightarrow> chunked_state \<Rightarrow> chunked \<Rightarrow> step_result" where
  "put_u8 buf b next c =
     (let c1 = c\<lparr>ch_trailers_buf := Some (buf @ [b])\<rparr>
      in if max_headers_bytes c \<le> length (buf @ [b])
         then (c1, Inl (BodyIo InvalidData ''chunk trailers bytes over limit''))
         else (c1, Inr next))"

definition read_trailer :: "chunked \<Rightarrow> byte \<Rightarrow> step_result" where
  "read_trailer c b =
     (case ch_trailers_buf c of
        None \<Rightarrow> (c, Inl BodyPanic)
      | Some buf \<Rightarrow> put_u8 buf b (if b = 13 then TrailerLf else Trailer) c)"

definition read_trailer_lf :: "chunked \<Rightarrow> byte \<Rightarrow> step_result" where
  "read_trailer_lf c b =
     (if b = 10 then
        if max_headers_cnt c \<le> ch_trailers_cnt c
        then (c, Inl (BodyIo InvalidData ''chunk trailers count overflow''))
        else
          let c1 = c\<lparr>ch_trailers_cnt := ch_trailers_cnt c + 1\<rparr>
          in (case ch_trailers_buf c1 of
                None \<Rightarrow> (c1, Inl BodyPanic)
              | Some buf \<Rightarrow> put_u8 buf b EndCr c1)
      else (c, Inl (BodyIo InvalidInput ''Invalid trailer end LF'')))"

definition read_end_cr :: "chunked \<Rightarrow> byte \<Rightarrow> step_result" where
  "read_end_cr c b =
     (if b = 13 then
        (case ch_trailers_buf c of
           Some buf \<Rightarrow> put_u8 buf b EndLf c
         | None \<Rightarrow> (c, Inr EndLf))
      else
        (case ch_trailers_buf c of
           None \<Rightarrow> (c\<lparr>ch_trailers_buf := Some [b]\<rparr>, Inr Trailer)
         | Some buf \<Rightarrow> put_u8 buf b Trailer c))"

definition read_end_lf :: "chunked \<Rightarrow> byte \<Rightarrow> step_result" where
  "read_end_lf c b =
     (if b = 10 then
        (case ch_trailers_buf c of
           Some buf \<Rightarrow> put_u8 buf b End c
         | None \<Rightarrow> (c, Inr End))
      else (c, Inl (BodyIo InvalidInput ''Invalid chunk end LF'')))"

text \<open>\<open>ChunkedState::step\<close>, by the steps that read one byte and the two that do not.\<close>

fun byte_step :: "chunked \<Rightarrow> byte \<Rightarrow> step_result" where
  "byte_step c b =
     (case ch_state c of
        Start \<Rightarrow> read_start c b
      | Size \<Rightarrow> read_size c b
      | SizeLws \<Rightarrow> read_size_lws c b
      | Extension \<Rightarrow> read_extension c b
      | SizeLf \<Rightarrow> read_size_lf c b
      | BodyCr \<Rightarrow> read_body_cr c b
      | BodyLf \<Rightarrow> read_body_lf c b
      | Trailer \<Rightarrow> read_trailer c b
      | TrailerLf \<Rightarrow> read_trailer_lf c b
      | EndCr \<Rightarrow> read_end_cr c b
      | EndLf \<Rightarrow> read_end_lf c b
      | _ \<Rightarrow> (c, Inr End))"

definition chunked_step ::
  "chunked \<Rightarrow> mem_read
   \<Rightarrow> mem_read \<times> chunked \<times> bytes option \<times> (body_error + chunked_state) poll" where
  "chunked_step c rdr =
     (if ch_state c = Body then read_body c rdr
      else if ch_state c = End then (rdr, c, None, Ready (Inr End))
      else case with_byte (byte_step c) c rdr of (rdr', c', r) \<Rightarrow> (rdr', c', None, r))"

subsection \<open>The decoder\<close>

record trailer_lib =
  tl_parse_headers :: "bytes \<Rightarrow> usize \<Rightarrow> string + (bytes \<times> bytes) list option"
  tl_header_name :: "bytes \<Rightarrow> header_name option"
  tl_header_value :: "bytes \<Rightarrow> bool"

fun append_trailers ::
  "trailer_lib \<Rightarrow> (bytes \<times> bytes) list \<Rightarrow> header_map \<Rightarrow> body_error + header_map" where
  "append_trailers lib [] acc = Inr acc"
| "append_trailers lib ((n, v) # hs) acc =
     (case tl_header_name lib n of
        None \<Rightarrow> Inl (BodyIo InvalidInput ''Invalid header name: '')
      | Some name \<Rightarrow>
          if \<not> tl_header_value lib v
          then Inl (BodyIo InvalidInput ''Invalid header value: '')
          else append_trailers lib hs (header_append name v acc))"

definition decode_trailers :: "trailer_lib \<Rightarrow> bytes \<Rightarrow> usize \<Rightarrow> body_error + header_map" where
  "decode_trailers lib buf count =
     (case tl_parse_headers lib buf count of
        Inr (Some hs) \<Rightarrow> append_trailers lib hs []
      | Inr None \<Rightarrow> Inl (BodyIo InvalidInput ''Partial header'')
      | Inl e \<Rightarrow> Inl (BodyIo InvalidInput e))"

datatype body_frame = FrameData bytes | FrameTrailers header_map

text \<open>What the loop does once the state is \<open>End\<close>: \<open>trailers_buf.take()\<close>.\<close>

definition finish_chunked :: "trailer_lib \<Rightarrow> chunked \<Rightarrow> chunked \<times> (body_error + body_frame)" where
  "finish_chunked lib c =
     (case ch_trailers_buf c of
        Some buf \<Rightarrow>
          (c\<lparr>ch_trailers_buf := None\<rparr>,
           map_sum id FrameTrailers (decode_trailers lib buf (ch_trailers_cnt c)))
      | None \<Rightarrow> (c, Inr (FrameData [])))"

subsubsection \<open>Every step takes a byte\<close>

lemma read_mem_Ready:
  "read_mem n r = (r', Ready got) \<Longrightarrow>
   mr_buf r = got @ mr_buf r' \<and> mr_eof r' = mr_eof r \<and> (got = [] \<longrightarrow> n = 0 \<or> mr_buf r = [])"
  by (auto simp: read_mem_def Let_def min_def split: if_splits)

lemma read_mem_Pending: "read_mem n r = (r', Pending) \<Longrightarrow> r' = r \<and> mr_buf r = [] \<and> \<not> mr_eof r"
  by (auto simp: read_mem_def Let_def split: if_splits)

lemma with_byte_shorter:
  assumes "with_byte k c r = (r', c', Ready (Inr st))"
  shows "length (mr_buf r') < length (mr_buf r)"
proof -
  obtain r1 p where m: "read_mem 1 r = (r1, p)" by (rule prod.exhaust)
  show ?thesis
  proof (cases p)
    case (Ready got)
    then show ?thesis
      using assms m read_mem_Ready [of 1 r r1 got]
      by (cases got) (auto simp: with_byte_def split: prod.splits)
  qed (use assms m in \<open>simp add: with_byte_def\<close>)
qed

lemma chunked_step_shorter:
  assumes "chunked_step c r = (r', c', None, Ready (Inr st))" and "st \<noteq> End \<or> ch_state c \<noteq> End"
  shows "length (mr_buf r') < length (mr_buf r)"
proof -
  have "ch_state c \<noteq> Body"
    using assms by (auto simp: chunked_step_def read_body_def Let_def split: prod.splits poll.splits if_splits)
  moreover have "ch_state c \<noteq> End" using assms by (auto simp: chunked_step_def)
  ultimately show ?thesis
    using assms with_byte_shorter [of "byte_step c" c r r' c' st]
    by (auto simp: chunked_step_def split: prod.splits)
qed

text \<open>The loop of \<open>Decoder::decode\<close>.\<close>

function decode_chunked ::
  "trailer_lib \<Rightarrow> chunked \<Rightarrow> mem_read \<Rightarrow> mem_read \<times> chunked \<times> (body_error + body_frame) poll" where
  "decode_chunked lib c rdr =
     (case chunked_step c rdr of
        (rdr', c', _, Pending) \<Rightarrow> (rdr', c', Pending)
      | (rdr', c', _, Ready (Inl e)) \<Rightarrow> (rdr', c', Ready (Inl e))
      | (rdr', c', buf, Ready (Inr st)) \<Rightarrow>
          let c2 = c'\<lparr>ch_state := st\<rparr>
          in if st = End
             then (case finish_chunked lib c2 of (c3, r) \<Rightarrow> (rdr', c3, Ready r))
             else (case buf of
                     Some d \<Rightarrow> (rdr', c2, Ready (Inr (FrameData d)))
                   | None \<Rightarrow> decode_chunked lib c2 rdr'))"
  by pat_completeness auto
termination
  by (relation "measure (\<lambda>(lib, c, r). length (mr_buf r))")
    (auto dest: chunked_step_shorter [OF sym] intro: chunked_step_shorter)

declare decode_chunked.simps [simp del]

fun decoder_decode ::
  "trailer_lib \<Rightarrow> decoder \<Rightarrow> mem_read \<Rightarrow> mem_read \<times> decoder \<times> (body_error + body_frame) poll" where
  "decoder_decode lib (DLength remaining) rdr =
     (if remaining = 0 then (rdr, DLength remaining, Ready (Inr (FrameData [])))
      else
        (case read_mem remaining rdr of
           (rdr', Pending) \<Rightarrow> (rdr', DLength remaining, Pending)
         | (rdr', Ready buf) \<Rightarrow>
             let num = length buf
             in if remaining < num then (rdr', DLength 0, Ready (Inr (FrameData buf)))
                else if num = 0 then (rdr', DLength remaining, Ready (Inl incomplete_body))
                else (rdr', DLength (remaining - num), Ready (Inr (FrameData buf)))))"
| "decoder_decode lib (DChunked c) rdr =
     (case decode_chunked lib c rdr of (rdr', c', r) \<Rightarrow> (rdr', DChunked c', r))"
| "decoder_decode lib (DEof is_eof) rdr =
     (if is_eof then (rdr, DEof is_eof, Ready (Inr (FrameData [])))
      else
        (case read_mem 8192 rdr of
           (rdr', Pending) \<Rightarrow> (rdr', DEof is_eof, Pending)
         | (rdr', Ready buf) \<Rightarrow> (rdr', DEof (buf = []), Ready (Inr (FrameData buf)))))"

subsection \<open>The facade\<close>

record body_decoder =
  bd_decoder :: decoder
  bd_read :: mem_read
  bd_done :: bool
  bd_trailers :: "header_map option"

definition body_decoder_new :: "string \<Rightarrow> u64 \<Rightarrow> usize option \<Rightarrow> usize option \<Rightarrow> body_decoder" where
  "body_decoder_new kind len mh mhs =
     (let d = (if kind = ''length'' then decoder_length len
               else if kind = ''chunked'' then decoder_chunked mh mhs
               else if kind = ''close'' then decoder_eof
               else decoder_length 0)
      in \<lparr>bd_decoder = d, bd_read = \<lparr>mr_buf = [], mr_eof = False\<rparr>, bd_done = decoder_is_eof d,
          bd_trailers = None\<rparr>)"

definition take_trailers :: "body_decoder \<Rightarrow> body_decoder \<times> header_map option" where
  "take_trailers bd = (bd\<lparr>bd_trailers := None\<rparr>, bd_trailers bd)"

text \<open>\<open>feed\<close> and \<open>feed_buf\<close> append; \<open>take_buffered\<close> empties the buffer.\<close>

definition feed :: "bytes \<Rightarrow> body_decoder \<Rightarrow> body_decoder" where
  "feed data bd = bd\<lparr>bd_read := (bd_read bd)\<lparr>mr_buf := mr_buf (bd_read bd) @ data\<rparr>\<rparr>"

definition mark_eof :: "body_decoder \<Rightarrow> body_decoder" where
  "mark_eof bd = bd\<lparr>bd_read := (bd_read bd)\<lparr>mr_eof := True\<rparr>\<rparr>"

definition is_complete :: "body_decoder \<Rightarrow> bool" where "is_complete bd = bd_done bd"

definition take_buffered :: "body_decoder \<Rightarrow> body_decoder \<times> bytes" where
  "take_buffered bd =
     (bd\<lparr>bd_read := (bd_read bd)\<lparr>mr_buf := []\<rparr>\<rparr>, mr_buf (bd_read bd))"

definition buffered :: "body_decoder \<Rightarrow> usize" where
  "buffered bd = length (mr_buf (bd_read bd))"

text \<open>The \<open>io::Error\<close> wrapped by \<open>Error::new_body\<close> and mapped to an exception.\<close>

fun body_pyerr :: "body_error \<Rightarrow> h1_pyerr" where
  "body_pyerr (BodyIo k msg) = map_hyper_err (new_body (IoCause k msg))"
| "body_pyerr BodyPanic = H1Panic"

definition body_decode ::
  "trailer_lib \<Rightarrow> body_decoder \<Rightarrow> body_decoder \<times> (h1_pyerr + bytes option)" where
  "body_decode lib bd =
     (if bd_done bd then (bd, Inr None)
      else
        case decoder_decode lib (bd_decoder bd) (bd_read bd) of
          (rdr, d, r) \<Rightarrow>
            let bd1 = bd\<lparr>bd_decoder := d, bd_read := rdr\<rparr>
            in case r of
                 Pending \<Rightarrow> (bd1, Inr None)
               | Ready (Inr (FrameData data)) \<Rightarrow>
                   if data = [] then (bd1\<lparr>bd_done := True\<rparr>, Inr None)
                   else (bd1\<lparr>bd_done := decoder_is_eof d\<rparr>, Inr (Some data))
               | Ready (Inr (FrameTrailers hs)) \<Rightarrow>
                   (bd1\<lparr>bd_trailers := Some hs, bd_done := True\<rparr>, Inr None)
               | Ready (Inl e) \<Rightarrow> (bd1, Inl (body_pyerr e)))"

text \<open>\<open>finish\<close> of \<open>H1BodyDecoder\<close> (src/h1/codec.rs).\<close>

definition body_finish :: "body_decoder \<Rightarrow> body_decoder \<times> header_map option \<times> usize" where
  "body_finish bd = (case take_trailers bd of (bd', t) \<Rightarrow> (bd', t, buffered bd'))"

end
