(* ===== verification/H1_Body_Stream.thy ===== *)
theory H1_Body_Stream
  imports H1_Body_Decode
begin

section \<open>A body decoder as a whole\<close>

text \<open>
  \<open>drain\<close> is the reader's loop around \<open>BodyDecoder::decode\<close>: it takes chunks until the decoder
  has none. A reference decoder, \<open>scan\<close>, handles one byte at a time; \<open>drain\<close> is shown to compute
  the same, so how the transport cuts the bytes does not matter, and the limits of the state
  machine are shown on single bytes.
\<close>

subsection \<open>The reference decoder\<close>

datatype verdict = More | Done "header_map option" | Failed body_error

definition take_body_byte :: "chunked \<Rightarrow> chunked" where
  "take_body_byte c = c\<lparr>ch_len := ch_len c - 1, ch_state := (if 1 < ch_len c then Body else BodyCr)\<rparr>"

fun scan :: "trailer_lib \<Rightarrow> chunked \<Rightarrow> bytes \<Rightarrow> chunked \<times> bytes \<times> bytes \<times> verdict" where
  "scan lib c [] = (c, [], [], More)"
| "scan lib c (b # bs) =
     (if ch_state c = Body then
        (case scan lib (take_body_byte c) bs of (c', rest, d, v) \<Rightarrow> (c', rest, b # d, v))
      else
        (case byte_step c b of
           (c1, Inl e) \<Rightarrow> (c1, bs, [], Failed e)
         | (c1, Inr st) \<Rightarrow>
             let c2 = c1\<lparr>ch_state := st\<rparr>
             in if st = End
                then (case finish_chunked lib c2 of
                        (c3, Inl e) \<Rightarrow> (c3, bs, [], Failed e)
                      | (c3, Inr (FrameTrailers t)) \<Rightarrow> (c3, bs, [], Done (Some t))
                      | (c3, Inr (FrameData _)) \<Rightarrow> (c3, bs, [], Done None))
                else scan lib c2 bs))"

text \<open>Output in front of what a scan yields.\<close>

definition with_data :: "bytes \<Rightarrow> 'c \<times> bytes \<times> bytes \<times> verdict \<Rightarrow> 'c \<times> bytes \<times> bytes \<times> verdict" where
  "with_data d r = (case r of (c, rest, d', v) \<Rightarrow> (c, rest, d @ d', v))"

lemma with_data_simps [simp]:
  "with_data d (c, rest, d', v) = (c, rest, d @ d', v)"
  "with_data [] r = r" "with_data a (with_data b r) = with_data (a @ b) r"
  by (cases r; simp add: with_data_def)+

lemma scan_append:
  "scan lib c (xs @ ys) =
     (case scan lib c xs of
        (c', rest, d, More) \<Rightarrow> with_data d (scan lib c' ys)
      | (c', rest, d, v) \<Rightarrow> (c', rest @ ys, d, v))"
proof (induction xs arbitrary: c)
  case (Cons b xs)
  then show ?case
    by (auto simp: Let_def with_data_def split: prod.splits sum.splits verdict.splits body_frame.splits)
qed simp

lemma scan_More: "scan lib c xs = (c', rest, d, More) \<Longrightarrow> rest = []"
  by (induction lib c xs arbitrary: d rule: scan.induct)
    (auto simp: Let_def split: prod.splits sum.splits body_frame.splits if_splits)

subsection \<open>The invariant of the state machine\<close>

definition chunked_ok :: "chunked \<Rightarrow> bool" where
  "chunked_ok c \<longleftrightarrow>
     ch_state c \<noteq> End \<and> ch_len c < 2 ^ 64
     \<and> (ch_state c = Body \<longrightarrow> 0 < ch_len c)
     \<and> (ch_state c \<in> {Start, BodyCr, BodyLf} \<longrightarrow> ch_len c = 0)
     \<and> ch_extensions_cnt c < CHUNKED_EXTENSIONS_LIMIT
     \<and> (ch_state c \<in> {Trailer, TrailerLf} \<longrightarrow> ch_trailers_buf c \<noteq> None)
     \<and> (\<forall>buf. ch_trailers_buf c = Some buf \<longrightarrow> length buf \<le> max 1 (max_headers_bytes c - 1))
     \<and> ch_trailers_cnt c \<le> max_headers_cnt c"

lemma decoder_chunked_ok: "decoder_chunked mh mhs = DChunked c \<Longrightarrow> chunked_ok c"
  by (auto simp: decoder_chunked_def chunked_ok_def CHUNKED_EXTENSIONS_LIMIT_def)

lemma max_limits_upd [simp]:
  "max_headers_bytes (c\<lparr>ch_state := st\<rparr>) = max_headers_bytes c"
  "max_headers_bytes (c\<lparr>ch_len := n\<rparr>) = max_headers_bytes c"
  "max_headers_bytes (c\<lparr>ch_extensions_cnt := n\<rparr>) = max_headers_bytes c"
  "max_headers_bytes (c\<lparr>ch_trailers_buf := b\<rparr>) = max_headers_bytes c"
  "max_headers_bytes (c\<lparr>ch_trailers_cnt := n\<rparr>) = max_headers_bytes c"
  "max_headers_cnt (c\<lparr>ch_state := st\<rparr>) = max_headers_cnt c"
  "max_headers_cnt (c\<lparr>ch_len := n\<rparr>) = max_headers_cnt c"
  "max_headers_cnt (c\<lparr>ch_extensions_cnt := n\<rparr>) = max_headers_cnt c"
  "max_headers_cnt (c\<lparr>ch_trailers_buf := b\<rparr>) = max_headers_cnt c"
  "max_headers_cnt (c\<lparr>ch_trailers_cnt := n\<rparr>) = max_headers_cnt c"
  by (simp_all add: max_headers_bytes_def max_headers_cnt_def)

lemmas read_defs =
  read_start_def read_size_def read_size_lws_def read_extension_def read_size_lf_def
  read_body_cr_def read_body_lf_def read_trailer_def read_trailer_lf_def read_end_cr_def
  read_end_lf_def put_u8_def push_digit_def u64_checked_mul_def u64_checked_add_def

lemma take_body_byte_ok:
  "chunked_ok c \<Longrightarrow> ch_state c = Body \<Longrightarrow> chunked_ok (take_body_byte c)"
  by (auto simp: chunked_ok_def take_body_byte_def max_headers_bytes_def max_headers_cnt_def)

lemma byte_step_ok:
  assumes "chunked_ok c" and "byte_step c b = (c1, Inr st)" and "st \<noteq> End" and "ch_state c \<noteq> Body"
  shows "chunked_ok (c1\<lparr>ch_state := st\<rparr>)"
  using assms
  by (cases "ch_state c")
    (auto simp: chunked_ok_def read_defs Let_def split: if_splits option.splits)

lemma byte_step_no_panic: "chunked_ok c \<Longrightarrow> byte_step c b \<noteq> (c1, Inl BodyPanic)"
  by (cases "ch_state c")
    (auto simp: chunked_ok_def read_defs Let_def size_overflow_def split: if_splits option.splits)

declare byte_step.simps [simp del]

subsection \<open>The decoder computes the reference\<close>

lemma scan_body:
  "ch_state c = Body \<Longrightarrow> 0 < n \<Longrightarrow> n \<le> ch_len c \<Longrightarrow> n \<le> length bs \<Longrightarrow>
   scan lib c bs =
     with_data (take n bs)
       (scan lib (c\<lparr>ch_len := ch_len c - n, ch_state := (if n < ch_len c then Body else BodyCr)\<rparr>)
          (drop n bs))"
proof (induction n arbitrary: c bs)
  case (Suc n)
  then obtain b bs' where bs: "bs = b # bs'" by (cases bs) auto
  show ?case
  proof (cases "n = 0")
    case True
    with Suc.prems bs show ?thesis by (auto simp: take_body_byte_def with_data_def split: prod.splits)
  next
    case False
    define c1 where "c1 = take_body_byte c"
    have c1: "ch_state c1 = Body" "ch_len c1 = ch_len c - 1"
      using Suc.prems False by (simp_all add: c1_def take_body_byte_def)
    have "scan lib c1 bs' = with_data (take n bs')
        (scan lib (c1\<lparr>ch_len := ch_len c1 - n, ch_state := (if n < ch_len c1 then Body else BodyCr)\<rparr>)
           (drop n bs'))"
      using Suc.IH [of c1 bs'] c1 Suc.prems False bs by simp
    moreover have "c1\<lparr>ch_len := ch_len c1 - n, ch_state := (if n < ch_len c1 then Body else BodyCr)\<rparr>
        = c\<lparr>ch_len := ch_len c - Suc n, ch_state := (if Suc n < ch_len c then Body else BodyCr)\<rparr>"
      using Suc.prems(3) False by (simp add: c1_def take_body_byte_def less_diff_conv)
    moreover have "scan lib c bs = with_data [b] (scan lib c1 bs')"
      using Suc.prems(1) bs by (auto simp: c1_def with_data_def split: prod.splits)
    ultimately show ?thesis using bs by simp
  qed
qed simp

text \<open>What \<open>decode_chunked\<close> returns, in terms of the scan of the buffer it started with.\<close>

definition decoded_as ::
  "trailer_lib \<Rightarrow> chunked \<times> bytes \<times> bytes \<times> verdict
   \<Rightarrow> mem_read \<times> chunked \<times> (body_error + body_frame) poll \<Rightarrow> bool" where
  "decoded_as lib sc out \<longleftrightarrow>
     (case out of
        (r', c', Pending) \<Rightarrow> mr_buf r' = [] \<and> chunked_ok c' \<and> sc = (c', [], [], More)
      | (r', c', Ready (Inl e)) \<Rightarrow> sc = (c', mr_buf r', [], Failed e)
      | (r', c', Ready (Inr (FrameTrailers t))) \<Rightarrow> sc = (c', mr_buf r', [], Done (Some t))
      | (r', c', Ready (Inr (FrameData d))) \<Rightarrow>
          if d = [] then sc = (c', mr_buf r', [], Done None)
          else chunked_ok c' \<and> sc = with_data d (scan lib c' (mr_buf r')))"

lemma read_body_Pending:
  "ch_state c = Body \<Longrightarrow> mr_buf r = [] \<Longrightarrow> \<not> mr_eof r \<Longrightarrow> decode_chunked lib c r = (r, c, Pending)"
  by (subst decode_chunked.simps) (simp add: chunked_step_def read_body_def read_mem_def)

lemma read_body_Ready:
  assumes "chunked_ok c" and "ch_state c = Body" and "mr_buf r \<noteq> []"
  defines "n \<equiv> min (ch_len c) (length (mr_buf r))"
  shows "decode_chunked lib c r =
     (r\<lparr>mr_buf := drop n (mr_buf r)\<rparr>,
      c\<lparr>ch_len := ch_len c - n, ch_state := (if n < ch_len c then Body else BodyCr)\<rparr>,
      Ready (Inr (FrameData (take n (mr_buf r)))))"
  using assms
  by (subst decode_chunked.simps)
    (auto simp: chunked_step_def read_body_def read_mem_def chunked_ok_def Let_def n_def)

lemma decode_chunked_byte:
  assumes "ch_state c \<noteq> Body" and "ch_state c \<noteq> End" and "mr_buf r = b # bs"
  shows "decode_chunked lib c r =
     (case byte_step c b of
        (c1, Inl e) \<Rightarrow> (r\<lparr>mr_buf := bs\<rparr>, c1, Ready (Inl e))
      | (c1, Inr st) \<Rightarrow>
          if st = End
          then (case finish_chunked lib (c1\<lparr>ch_state := st\<rparr>) of
                  (c3, v) \<Rightarrow> (r\<lparr>mr_buf := bs\<rparr>, c3, Ready v))
          else decode_chunked lib (c1\<lparr>ch_state := st\<rparr>) (r\<lparr>mr_buf := bs\<rparr>))"
  by (subst decode_chunked.simps)
    (use assms in \<open>simp add: chunked_step_def with_byte_def read_mem_def Let_def split: prod.split sum.split\<close>)

lemma decode_chunked_empty:
  assumes "ch_state c \<noteq> End" and "mr_buf r = []" and "\<not> mr_eof r"
  shows "decode_chunked lib c r = (r, c, Pending)"
  using assms
  by (subst decode_chunked.simps)
    (simp add: chunked_step_def with_byte_def read_body_def read_mem_def)

lemma finish_chunked_scan:
  "decoded_as lib
     (case finish_chunked lib c of
        (c3, Inl e) \<Rightarrow> (c3, bs, [], Failed e)
      | (c3, Inr (FrameTrailers t)) \<Rightarrow> (c3, bs, [], Done (Some t))
      | (c3, Inr (FrameData _)) \<Rightarrow> (c3, bs, [], Done None))
     (case finish_chunked lib c of (c3, v) \<Rightarrow> (r\<lparr>mr_buf := bs\<rparr>, c3, Ready v))"
  by (cases "ch_trailers_buf c")
    (auto simp: finish_chunked_def decoded_as_def split: sum.split body_frame.split
      elim!: map_sum_eq_Inr)

lemma decode_chunked_scan:
  "chunked_ok c \<Longrightarrow> \<not> mr_eof r \<Longrightarrow>
   decoded_as lib (scan lib c (mr_buf r)) (decode_chunked lib c r)"
proof (induction "length (mr_buf r)" arbitrary: c r rule: less_induct)
  case less
  have not_end: "ch_state c \<noteq> End" using less.prems(1) by (simp add: chunked_ok_def)
  show ?case
  proof (cases "mr_buf r")
    case Nil
    then show ?thesis
      using less.prems not_end by (simp add: decode_chunked_empty decoded_as_def)
  next
    case (Cons b bs)
    show ?thesis
    proof (cases "ch_state c = Body")
      case True
      define n where "n = min (ch_len c) (length (mr_buf r))"
      have n: "0 < n" "n \<le> ch_len c" "n \<le> length (mr_buf r)"
        using less.prems(1) True Cons by (auto simp: n_def chunked_ok_def)
      have "chunked_ok (c\<lparr>ch_len := ch_len c - n, ch_state := (if n < ch_len c then Body else BodyCr)\<rparr>)"
        using less.prems(1) True n
        by (auto simp: chunked_ok_def max_headers_bytes_def max_headers_cnt_def)
      then show ?thesis
        using read_body_Ready [OF less.prems(1) True] scan_body [OF True n] Cons n
        by (auto simp: decoded_as_def n_def)
    next
      case False
      obtain c1 v where st: "byte_step c b = (c1, v)" by (rule prod.exhaust)
      show ?thesis
      proof (cases v)
        case (Inl e)
        then show ?thesis
          using decode_chunked_byte [OF False not_end Cons] st False Cons by (simp add: decoded_as_def)
      next
        case (Inr s)
        show ?thesis
        proof (cases "s = End")
          case True
          then show ?thesis
            using decode_chunked_byte [OF False not_end Cons] st Inr False Cons
              finish_chunked_scan [where lib = lib and c = "c1\<lparr>ch_state := End\<rparr>" and bs = bs and r = r]
            by (simp add: Let_def)
        next
          case s: False
          have "chunked_ok (c1\<lparr>ch_state := s\<rparr>)"
            using byte_step_ok [OF less.prems(1)] st Inr s False by blast
          with less.hyps [of "r\<lparr>mr_buf := bs\<rparr>" "c1\<lparr>ch_state := s\<rparr>"] less.prems(2) Cons
          show ?thesis
            using decode_chunked_byte [OF False not_end Cons] st Inr False s by (simp add: Let_def)
        qed
      qed
    qed
  qed
qed

subsection \<open>The reader's loop\<close>

lemma decode_chunked_shorter:
  "decode_chunked lib c r = (r', c', Ready (Inr (FrameData d))) \<Longrightarrow> d \<noteq> [] \<Longrightarrow>
   length (mr_buf r') < length (mr_buf r)"
proof (induction lib c r rule: decode_chunked.induct)
  case (1 lib c r)
  obtain r1 c1 buf p where st: "chunked_step c r = (r1, c1, buf, p)" by (metis surj_pair)
  obtain s where p: "p = Ready (Inr s)"
    using 1(2) st by (subst (asm) decode_chunked.simps) (auto split: poll.splits sum.splits)
  have ne: "s \<noteq> End"
    using 1(2,3) st p
    by (subst (asm) decode_chunked.simps)
      (auto simp: finish_chunked_def Let_def split: prod.splits option.splits elim!: map_sum_eq_Inr)
  show ?case
  proof (cases buf)
    case None
    then have "length (mr_buf r1) < length (mr_buf r)" using chunked_step_shorter st p ne by blast
    moreover have "decode_chunked lib (c1\<lparr>ch_state := s\<rparr>) r1 = (r', c', Ready (Inr (FrameData d)))"
      using 1(2) st p ne None by (subst (asm) decode_chunked.simps) simp
    ultimately show ?thesis using 1(1) [of _ _ _ _ _ _ _ s] st p ne None 1(3) by fastforce
  next
    case (Some x)
    then have "r' = r1" "d = x"
      using 1(2) st p ne by (subst (asm) decode_chunked.simps; simp)+
    moreover have "read_body c r = (r1, c1, Some x, Ready (Inr s))"
      using st p Some by (auto simp: chunked_step_def split: if_splits prod.splits)
    ultimately show ?thesis
      using 1(3) read_mem_Ready
      by (fastforce simp: read_body_def Let_def split: prod.splits poll.splits if_splits)
  qed
qed

lemma decoder_decode_shorter:
  assumes "decoder_decode lib d r = (r', d', Ready (Inr (FrameData got)))" and "got \<noteq> []"
  shows "length (mr_buf r') < length (mr_buf r)"
proof (cases d)
  case (DChunked c)
  then show ?thesis using assms decode_chunked_shorter by (auto split: prod.splits)
next
  case (DLength n)
  then show ?thesis
    using assms read_mem_Ready [of n r]
    by (auto simp: Let_def split: prod.splits poll.splits if_splits)
next
  case (DEof b)
  then show ?thesis
    using assms read_mem_Ready [of 8192 r] by (auto split: prod.splits poll.splits if_splits)
qed

lemma body_decode_shorter:
  assumes "body_decode lib bd = (bd', Inr (Some d))"
  shows "length (mr_buf (bd_read bd')) < length (mr_buf (bd_read bd))"
proof -
  obtain r' d' p where f: "decoder_decode lib (bd_decoder bd) (bd_read bd) = (r', d', p)"
    by (metis surj_pair)
  with assms have "p = Ready (Inr (FrameData d))" "d \<noteq> []" "bd_read bd' = r'"
    by (auto simp: body_decode_def Let_def split: if_splits poll.splits sum.splits body_frame.splits)
  then show ?thesis using decoder_decode_shorter f by simp
qed

function drain :: "trailer_lib \<Rightarrow> body_decoder \<Rightarrow> body_decoder \<times> bytes \<times> (h1_pyerr + unit)" where
  "drain lib bd =
     (case body_decode lib bd of
        (bd', Inl e) \<Rightarrow> (bd', [], Inl e)
      | (bd', Inr None) \<Rightarrow> (bd', [], Inr ())
      | (bd', Inr (Some d)) \<Rightarrow> (case drain lib bd' of (bd2, ds, r) \<Rightarrow> (bd2, d @ ds, r)))"
  by pat_completeness auto
termination
  by (relation "measure (\<lambda>(lib, bd). length (mr_buf (bd_read bd)))")
    (auto dest: body_decode_shorter [OF sym])

declare drain.simps [simp del]

lemma drain_done: "bd_done bd \<Longrightarrow> drain lib bd = (bd, [], Inr ())"
  by (subst drain.simps) (simp add: body_decode_def)

text \<open>Where a scan leaves the decoder.\<close>

definition after_scan :: "body_decoder \<Rightarrow> chunked \<times> bytes \<times> bytes \<times> verdict
   \<Rightarrow> body_decoder \<times> bytes \<times> (h1_pyerr + unit)" where
  "after_scan bd sc =
     (case sc of (c, rest, d, v) \<Rightarrow>
        (bd\<lparr>bd_decoder := DChunked c, bd_read := (bd_read bd)\<lparr>mr_buf := rest\<rparr>,
            bd_done := (case v of Done _ \<Rightarrow> True | _ \<Rightarrow> False),
            bd_trailers := (case v of Done (Some t) \<Rightarrow> Some t | _ \<Rightarrow> bd_trailers bd)\<rparr>,
         d, (case v of Failed e \<Rightarrow> Inl (body_pyerr e) | _ \<Rightarrow> Inr ())))"

lemma decode_chunked_eof: "decode_chunked lib c r = (r', c', p) \<Longrightarrow> mr_eof r' = mr_eof r"
proof (induction lib c r rule: decode_chunked.induct)
  case (1 lib c r)
  obtain r1 c1 buf q where st: "chunked_step c r = (r1, c1, buf, q)" by (metis surj_pair)
  have "mr_eof r1 = mr_eof r"
    using st read_mem_Ready read_mem_Pending
    by (fastforce simp: chunked_step_def read_body_def with_byte_def Let_def
        split: if_splits prod.splits poll.splits list.splits)
  then show ?case
    using 1(2) 1(1) [OF st [symmetric]] st
    by (subst (asm) decode_chunked.simps)
      (fastforce simp: Let_def split: poll.splits sum.splits if_splits option.splits prod.splits)
qed

lemma drain_chunked:
  "bd_decoder bd = DChunked c \<Longrightarrow> \<not> bd_done bd \<Longrightarrow> \<not> mr_eof (bd_read bd) \<Longrightarrow> chunked_ok c \<Longrightarrow>
   drain lib bd = after_scan bd (scan lib c (mr_buf (bd_read bd)))"
proof (induction "length (mr_buf (bd_read bd))" arbitrary: bd c rule: less_induct)
  case less
  obtain r' c' p where f: "decode_chunked lib c (bd_read bd) = (r', c', p)" by (metis surj_pair)
  have dec: "decoded_as lib (scan lib c (mr_buf (bd_read bd))) (r', c', p)"
    using decode_chunked_scan [OF less.prems(4,3), of lib] f by simp
  have eof: "mr_eof r' = mr_eof (bd_read bd)" using decode_chunked_eof f by blast
  have rd: "r'\<lparr>mr_buf := a\<rparr> = (bd_read bd)\<lparr>mr_buf := a\<rparr>" for a
    using eof by (cases r'; cases "bd_read bd") simp
  have rd0: "(bd_read bd)\<lparr>mr_buf := mr_buf r'\<rparr> = r'" using rd [of "mr_buf r'"] by simp
  have dd: "decoder_decode lib (bd_decoder bd) (bd_read bd) = (r', DChunked c', p)"
    using less.prems(1) f by simp
  show ?case
  proof (cases "\<exists>d. p = Ready (Inr (FrameData d)) \<and> d \<noteq> []")
    case True
    then obtain d where p: "p = Ready (Inr (FrameData d))" and d: "d \<noteq> []" by blast
    define bd1 where "bd1 = bd\<lparr>bd_decoder := DChunked c', bd_read := r', bd_done := False\<rparr>"
    have ok: "chunked_ok c'" and sc: "scan lib c (mr_buf (bd_read bd)) = with_data d (scan lib c' (mr_buf r'))"
      using dec p d by (auto simp: decoded_as_def)
    have step: "body_decode lib bd = (bd1, Inr (Some d))"
      using dd p d ok less.prems(2) by (simp add: body_decode_def bd1_def chunked_ok_def)
    have "drain lib bd1 = after_scan bd1 (scan lib c' (mr_buf (bd_read bd1)))"
      using less.hyps [OF body_decode_shorter [OF step]] ok less.prems(3) eof by (simp add: bd1_def)
    then show ?thesis
      by (subst drain.simps)
        (simp add: step sc bd1_def after_scan_def with_data_def rd split: prod.split verdict.split option.split)
  next
    case False
    then have "drain lib bd = after_scan bd (scan lib c (mr_buf (bd_read bd)))"
      using dec dd less.prems(2) rd0
      by (subst drain.simps)
        (auto simp: decoded_as_def body_decode_def after_scan_def split: poll.splits sum.splits body_frame.splits)
    then show ?thesis .
  qed
qed

lemma drain_length:
  assumes "bd_decoder bd = DLength n" and "\<not> bd_done bd" and "\<not> mr_eof (bd_read bd)" and "0 < n"
  defines "m \<equiv> length (mr_buf (bd_read bd))"
  shows "drain lib bd =
     (if m = 0 then bd
      else bd\<lparr>bd_decoder := DLength (n - m),
              bd_read := (bd_read bd)\<lparr>mr_buf := drop n (mr_buf (bd_read bd))\<rparr>, bd_done := (n \<le> m)\<rparr>,
      take n (mr_buf (bd_read bd)), Inr ())"
proof (cases "m = 0")
  case True
  then show ?thesis
    using assms by (subst drain.simps) (simp add: body_decode_def read_mem_def)
next
  case False
  define bd1 where "bd1 = bd\<lparr>bd_decoder := DLength (n - m),
      bd_read := (bd_read bd)\<lparr>mr_buf := drop n (mr_buf (bd_read bd))\<rparr>, bd_done := (n \<le> m)\<rparr>"
  have step: "body_decode lib bd = (bd1, Inr (Some (take n (mr_buf (bd_read bd)))))"
    using assms False by (auto simp: body_decode_def read_mem_def bd1_def Let_def min_def)
  have "drain lib bd1 = (bd1, [], Inr ())"
  proof (cases "n \<le> m")
    case True
    then show ?thesis by (simp add: drain_done bd1_def)
  next
    case False
    then show ?thesis
      using assms(3) by (subst drain.simps) (simp add: body_decode_def read_mem_def bd1_def m_def)
  qed
  then show ?thesis
    using False step by (subst drain.simps) (simp add: bd1_def)
qed

lemma drain_eof:
  "bd_decoder bd = DEof False \<Longrightarrow> \<not> bd_done bd \<Longrightarrow> \<not> mr_eof (bd_read bd) \<Longrightarrow>
   drain lib bd = (bd\<lparr>bd_read := (bd_read bd)\<lparr>mr_buf := []\<rparr>\<rparr>, mr_buf (bd_read bd), Inr ())"
proof (induction "length (mr_buf (bd_read bd))" arbitrary: bd rule: less_induct)
  case less
  let ?buf = "mr_buf (bd_read bd)"
  show ?case
  proof (cases "?buf = []")
    case True
    then have "bd\<lparr>bd_decoder := DEof False, bd_read := bd_read bd\<rparr> = bd"
      and "bd\<lparr>bd_read := (bd_read bd)\<lparr>mr_buf := []\<rparr>\<rparr> = bd"
      using less.prems(1) by simp_all
    then show ?thesis
      using less.prems True by (subst drain.simps) (simp add: body_decode_def read_mem_def)
  next
    case False
    define n where "n = min 8192 (length ?buf)"
    define bd1 where "bd1 = bd\<lparr>bd_decoder := DEof False,
        bd_read := (bd_read bd)\<lparr>mr_buf := drop n ?buf\<rparr>, bd_done := False\<rparr>"
    have n: "0 < n" "take n ?buf \<noteq> []" using False by (auto simp: n_def)
    have step: "body_decode lib bd = (bd1, Inr (Some (take n ?buf)))"
      using less.prems False n by (simp add: body_decode_def read_mem_def bd1_def n_def Let_def)
    have "drain lib bd1 = (bd1\<lparr>bd_read := (bd_read bd1)\<lparr>mr_buf := []\<rparr>\<rparr>, mr_buf (bd_read bd1), Inr ())"
      using less.hyps [OF body_decode_shorter [OF step]] less.prems by (simp add: bd1_def)
    moreover have "bd1\<lparr>bd_read := (bd_read bd1)\<lparr>mr_buf := []\<rparr>\<rparr> = bd\<lparr>bd_read := (bd_read bd)\<lparr>mr_buf := []\<rparr>\<rparr>"
      using less.prems(1,2) by (simp add: bd1_def)
    moreover have "mr_buf (bd_read bd1) = drop n ?buf" by (simp add: bd1_def)
    ultimately show ?thesis
      by (subst drain.simps) (simp add: step)
  qed
qed

subsection \<open>Reads may be cut anywhere\<close>

text \<open>One read of the transport: the bytes are fed, then the body is drained. A failure carries the
  data that came before it.\<close>

definition body_read ::
  "trailer_lib \<Rightarrow> bytes \<Rightarrow> body_decoder \<Rightarrow> body_decoder \<times> (bytes \<times> h1_pyerr + bytes)" where
  "body_read lib data bd =
     (case drain lib (feed data bd) of
        (bd', d, Inr _) \<Rightarrow> (bd', Inr d)
      | (bd', d, Inl e) \<Rightarrow> (bd', Inl (d, e)))"

definition data_before :: "bytes \<Rightarrow> bytes \<times> h1_pyerr \<Rightarrow> bytes \<times> h1_pyerr" where
  "data_before xs de = (xs @ fst de, snd de)"

text \<open>A decoder on an open transport.\<close>

definition body_fit :: "body_decoder \<Rightarrow> bool" where
  "body_fit bd \<longleftrightarrow> \<not> mr_eof (bd_read bd)
     \<and> (case bd_decoder bd of
          DLength n \<Rightarrow> bd_done bd \<longleftrightarrow> n = 0
        | DChunked c \<Rightarrow> bd_done bd \<or> chunked_ok c
        | DEof b \<Rightarrow> \<not> b \<and> \<not> bd_done bd)"

lemma body_decoder_new_fit: "body_fit (body_decoder_new kind n mh mhs)"
  using decoder_chunked_ok [of mh mhs]
  by (auto simp: body_fit_def body_decoder_new_def decoder_length_def decoder_eof_def
      decoder_chunked_def Let_def)

lemma feed_sel [simp]:
  "bd_decoder (feed data bd) = bd_decoder bd" "bd_done (feed data bd) = bd_done bd"
  "bd_trailers (feed data bd) = bd_trailers bd"
  "mr_eof (bd_read (feed data bd)) = mr_eof (bd_read bd)"
  "mr_buf (bd_read (feed data bd)) = mr_buf (bd_read bd) @ data"
  by (simp_all add: feed_def)

lemma feed_feed: "feed b (feed a bd) = feed (a @ b) bd"
  by (simp add: feed_def)

lemma body_read_done: "bd_done bd \<Longrightarrow> body_read lib data bd = (feed data bd, Inr [])"
  by (simp add: body_read_def drain_done)

lemma scan_ok:
  "chunked_ok c \<Longrightarrow> scan lib c xs = (c', rest, d, More) \<Longrightarrow> chunked_ok c'"
proof (induction xs arbitrary: c d)
  case (Cons b xs)
  show ?case
  proof (cases "ch_state c = Body")
    case True
    then show ?thesis
      using Cons.prems Cons.IH [OF take_body_byte_ok [OF Cons.prems(1) True]]
      by (auto split: prod.splits)
  next
    case False
    then obtain c1 st where st: "byte_step c b = (c1, Inr st)" "st \<noteq> End"
      "scan lib (c1\<lparr>ch_state := st\<rparr>) xs = (c', rest, d, More)"
      using Cons.prems(2)
      by (auto simp: Let_def split: prod.splits sum.splits if_splits body_frame.splits)
    show ?thesis by (rule Cons.IH [OF byte_step_ok [OF Cons.prems(1) st(1,2) False] st(3)])
  qed
qed simp

lemma body_read_chunked:
  assumes "body_fit bd" and "bd_decoder bd = DChunked c" and "\<not> bd_done bd"
  shows "body_read lib data bd =
     (case after_scan (feed data bd) (scan lib c (mr_buf (bd_read bd) @ data)) of
        (bd', d, Inr _) \<Rightarrow> (bd', Inr d)
      | (bd', d, Inl e) \<Rightarrow> (bd', Inl (d, e)))"
  using assms drain_chunked [of "feed data bd" c lib]
  by (simp add: body_read_def body_fit_def)

lemma body_read_length:
  assumes "body_fit bd" and "bd_decoder bd = DLength n" and "\<not> bd_done bd"
  defines "all \<equiv> \<lambda>data. mr_buf (bd_read bd) @ data"
  shows "body_read lib data bd =
     (bd\<lparr>bd_decoder := DLength (n - length (all data)),
         bd_read := (bd_read bd)\<lparr>mr_buf := drop n (all data)\<rparr>, bd_done := (n \<le> length (all data))\<rparr>,
      Inr (take n (all data)))"
proof -
  have n: "0 < n" and ne: "\<not> mr_eof (bd_read (feed data bd))"
    using assms(1,2,3) by (auto simp: body_fit_def)
  show ?thesis
  proof (cases "all data = []")
    case True
    then have "feed data bd = bd\<lparr>bd_decoder := DLength n, bd_read := (bd_read bd)\<lparr>mr_buf := []\<rparr>, bd_done := False\<rparr>"
      using assms(2,3) by (simp add: feed_def all_def)
    moreover have "drain lib (feed data bd) = (feed data bd, [], Inr ())"
      using drain_length [of "feed data bd" n lib] n ne True assms(2,3) by (simp add: all_def)
    ultimately show ?thesis using True n by (simp add: body_read_def)
  next
    case False
    then show ?thesis
      using drain_length [of "feed data bd" n lib] n ne assms(2,3)
      by (simp add: body_read_def all_def feed_def)
  qed
qed

lemma body_read_eof:
  assumes "body_fit bd" and "bd_decoder bd = DEof b"
  shows "body_read lib data bd =
     (bd\<lparr>bd_read := (bd_read bd)\<lparr>mr_buf := []\<rparr>\<rparr>, Inr (mr_buf (bd_read bd) @ data))"
proof -
  have "drain lib (feed data bd) =
      ((feed data bd)\<lparr>bd_read := (bd_read (feed data bd))\<lparr>mr_buf := []\<rparr>\<rparr>, mr_buf (bd_read bd) @ data, Inr ())"
    using assms drain_eof [of "feed data bd" lib] by (simp add: body_fit_def)
  then show ?thesis by (simp add: body_read_def feed_def)
qed

lemma after_scan_sel [simp]:
  "snd (after_scan bd (c, rest, d, v)) = (d, case v of Failed e \<Rightarrow> Inl (body_pyerr e) | _ \<Rightarrow> Inr ())"
  by (simp add: after_scan_def)

text \<open>The state after a read that did not fail, and the next read from there.\<close>

lemma body_read_chunked_Inr:
  assumes "body_fit bd" and "bd_decoder bd = DChunked c" and "\<not> bd_done bd"
    and "body_read lib data bd = (bd', Inr d)"
  obtains c' rest v where "scan lib c (mr_buf (bd_read bd) @ data) = (c', rest, d, v)"
    and "bd' = fst (after_scan (feed data bd) (c', rest, d, v))" and "\<forall>e. v \<noteq> Failed e"
  using assms body_read_chunked [OF assms(1-3), of lib data]
  by (cases "scan lib c (mr_buf (bd_read bd) @ data)")
    (auto simp: after_scan_def split: verdict.splits prod.splits)

lemma body_read_fit:
  assumes "body_fit bd" and "body_read lib data bd = (bd', Inr d)"
  shows "body_fit bd'"
proof (cases "bd_done bd")
  case True
  then show ?thesis using assms body_read_done by (auto simp: body_fit_def split: decoder.splits)
next
  case False
  show ?thesis
  proof (cases "bd_decoder bd")
    case (DChunked c)
    from body_read_chunked_Inr [OF assms(1) DChunked False assms(2)]
    obtain c' rest v where sc: "scan lib c (mr_buf (bd_read bd) @ data) = (c', rest, d, v)"
      and bd': "bd' = fst (after_scan (feed data bd) (c', rest, d, v))" and v: "\<forall>e. v \<noteq> Failed e"
      by blast
    have "chunked_ok c" using assms(1) DChunked False by (simp add: body_fit_def)
    then show ?thesis
      using sc bd' v assms(1) scan_ok [of c lib _ c' rest d]
      by (cases v) (auto simp: body_fit_def after_scan_def)
  next
    case (DLength n)
    then show ?thesis
      using assms body_read_length [OF assms(1) DLength False, of lib data] by (auto simp: body_fit_def)
  next
    case (DEof b)
    then show ?thesis
      using assms body_read_eof [OF assms(1) DEof, of lib data] by (auto simp: body_fit_def)
  qed
qed

lemma after_scan_More:
  "after_scan (fst (after_scan (feed a bd) (c, [], d, More))) x = after_scan (feed b bd) x"
  by (cases x) (auto simp: after_scan_def feed_def split: verdict.split option.split)

lemma body_read_append:
  assumes fit: "body_fit bd" and a: "body_read lib a bd = (bd1, Inr xs)"
    and b: "body_read lib b bd1 = (bd2, r)"
  shows "body_read lib (a @ b) bd = (bd2, map_sum (data_before xs) ((@) xs) r)"
proof (cases "bd_done bd")
  case True
  then show ?thesis
    using a b body_read_done [of bd lib a] body_read_done [of "feed a bd" lib b]
      body_read_done [of bd lib "a @ b"] by (auto simp: feed_feed)
next
  case False
  show ?thesis
  proof (cases "bd_decoder bd")
    case (DLength n)
    note rd = body_read_length [OF fit DLength False, where lib = lib]
    show ?thesis
    proof (cases "bd_done bd1")
      case True
      then show ?thesis
        using a b rd [of a] rd [of "a @ b"] body_read_done [OF True, of lib b]
        by (auto simp: feed_def)
    next
      case nd: False
      have bd1: "bd_decoder bd1 = DLength (n - length (mr_buf (bd_read bd) @ a))"
        and lt: "length (mr_buf (bd_read bd) @ a) < n"
        using a rd [of a] nd by auto
      show ?thesis
        using a b rd [of a] rd [of "a @ b"] lt
          body_read_length [OF body_read_fit [OF fit a] bd1 nd, of lib b]
        by (auto simp: add.assoc le_diff_conv add.commute add.left_commute)
    qed
  next
    case (DEof e)
    then show ?thesis
      using a b body_read_eof [OF fit DEof, where lib = lib]
        body_read_eof [OF body_read_fit [OF fit a], of e lib b]
      by auto
  next
    case (DChunked c)
    from body_read_chunked_Inr [OF fit DChunked False a]
    obtain c1 rest v where sc: "scan lib c (mr_buf (bd_read bd) @ a) = (c1, rest, xs, v)"
      and bd1: "bd1 = fst (after_scan (feed a bd) (c1, rest, xs, v))" and v: "\<forall>e. v \<noteq> Failed e"
      by blast
    note ab = body_read_chunked [OF fit DChunked False, of lib "a @ b"]
      scan_append [of lib c "mr_buf (bd_read bd) @ a" b]
    show ?thesis
    proof (cases v)
      case More
      then have rest: "rest = []" using sc scan_More by simp
      have nd: "\<not> bd_done bd1" "bd_decoder bd1 = DChunked c1" "mr_buf (bd_read bd1) = []"
        using bd1 More rest by (simp_all add: after_scan_def)
      obtain x where x: "scan lib c1 b = x" by blast
      have sc2: "scan lib c ((mr_buf (bd_read bd) @ a) @ b) = with_data xs x"
        using ab(2) sc More x by simp
      have eq: "after_scan (feed b bd1) x = after_scan (feed (a @ b) bd) x"
        using bd1 More rest by (cases x) (auto simp: after_scan_def feed_def split: verdict.split option.split)
      then show ?thesis
        using body_read_chunked [OF body_read_fit [OF fit a] nd(2,1), of lib b] nd(3) x b
          ab(1) sc2
        by (cases x) (auto simp: after_scan_def with_data_def data_before_def split: verdict.splits)
    next
      case (Done t)
      then have "bd_done bd1" using bd1 by (simp add: after_scan_def)
      then show ?thesis
        using body_read_done b sc Done ab bd1
        by (cases t) (auto simp: after_scan_def feed_def)
    next
      case (Failed e)
      then show ?thesis using v by simp
    qed
  qed
qed

lemma body_read_fails:
  assumes fit: "body_fit bd" and a: "body_read lib a bd = (bd1, Inl e)"
  shows "\<exists>u. body_read lib (a @ b) bd = (u, Inl e)"
proof -
  have nd: "\<not> bd_done bd" using a body_read_done by fastforce
  obtain c where c: "bd_decoder bd = DChunked c"
    using a nd body_read_length [OF fit, of _ lib a] body_read_eof [OF fit, of _ lib a]
    by (cases "bd_decoder bd") auto
  obtain c1 rest d x where "scan lib c (mr_buf (bd_read bd) @ a) = (c1, rest, d, Failed x)"
    "e = (d, body_pyerr x)"
    using a body_read_chunked [OF fit c nd, of lib a]
    by (cases "scan lib c (mr_buf (bd_read bd) @ a)")
      (auto simp: after_scan_def split: verdict.splits)
  then show ?thesis
    using body_read_chunked [OF fit c nd, of lib "a @ b"]
      scan_append [of lib c "mr_buf (bd_read bd) @ a" b]
    by (auto simp: after_scan_def)
qed

interpretation body: incremental_failing "body_read lib" data_before body_fit
  by unfold_locales (auto intro: body_read_append body_read_fit body_read_fails)

end
