(* ===== verification/H1_Body_Encode.thy ===== *)
theory H1_Body_Encode
  imports H1_Errors Http_Headers
begin

section \<open>Encoding an HTTP/1 body\<close>

text \<open>
  crates/vendor-hyper/src/proto/h1/encode.rs: \<open>Encoder\<close> and the buffers it frames chunks into; the
  writers of header lines of role.rs it uses; and the facade \<open>BodyEncoder\<close> of
  proto/h1/httpunk.rs. A buffer is the bytes it yields in the end (\<open>buf_bytes\<close>). The number of
  bytes of a chunk fits \<open>usize\<close>.
\<close>

definition crlf :: bytes where "crlf = [13, 10]"

subsection \<open>Header lines\<close>

text \<open>\<open>title_case\<close>: the first letter of the name and every letter behind a hyphen.\<close>

definition make_ascii_uppercase :: "byte \<Rightarrow> byte" where
  "make_ascii_uppercase b = (if 97 \<le> b \<and> b \<le> 122 then b - 32 else b)"

fun title_case_from :: "byte \<Rightarrow> bytes \<Rightarrow> bytes" where
  "title_case_from prev [] = []"
| "title_case_from prev (c # cs) =
     (let c' = (if prev = 45 then make_ascii_uppercase c else c) in c' # title_case_from c' cs)"

definition title_case :: "bytes \<Rightarrow> bytes" where
  "title_case name = title_case_from 45 name"

definition header_line :: "(bytes \<Rightarrow> bytes) \<Rightarrow> header_name \<times> header_value \<Rightarrow> bytes" where
  "header_line casing f = casing (ascii (fst f)) @ ascii '': '' @ snd f @ crlf"

definition write_headers :: "header_map \<Rightarrow> bytes" where
  "write_headers flds = concat (map (header_line (\<lambda>n. n)) flds)"

definition write_headers_title_case :: "header_map \<Rightarrow> bytes" where
  "write_headers_title_case flds = concat (map (header_line title_case) flds)"

subsection \<open>The encoder\<close>

datatype encoder_kind =
    EncChunked "header_name list option"
  | EncLength u64
  | EncCloseDelimited

record h1_encoder =
  en_kind :: encoder_kind
  en_is_last :: bool

definition new_encoder :: "encoder_kind \<Rightarrow> h1_encoder" where
  "new_encoder k = \<lparr>en_kind = k, en_is_last = False\<rparr>"

definition encoder_chunked :: h1_encoder where "encoder_chunked = new_encoder (EncChunked None)"
definition encoder_length :: "u64 \<Rightarrow> h1_encoder" where "encoder_length n = new_encoder (EncLength n)"
definition encoder_close_delimited :: h1_encoder where
  "encoder_close_delimited = new_encoder EncCloseDelimited"

definition into_chunked_with_trailing_fields :: "header_name list \<Rightarrow> h1_encoder \<Rightarrow> h1_encoder" where
  "into_chunked_with_trailing_fields ts e =
     (case en_kind e of EncChunked _ \<Rightarrow> e\<lparr>en_kind := EncChunked (Some ts)\<rparr> | _ \<Rightarrow> e)"

definition encoder_is_eof :: "h1_encoder \<Rightarrow> bool" where
  "encoder_is_eof e \<longleftrightarrow> en_kind e = EncLength 0"

definition set_last :: "bool \<Rightarrow> h1_encoder \<Rightarrow> h1_encoder" where
  "set_last b e = e\<lparr>en_is_last := b\<rparr>"

definition encoder_is_close_delimited :: "h1_encoder \<Rightarrow> bool" where
  "encoder_is_close_delimited e \<longleftrightarrow> en_kind e = EncCloseDelimited"

definition encoder_is_chunked :: "h1_encoder \<Rightarrow> bool" where
  "encoder_is_chunked e \<longleftrightarrow> (case en_kind e of EncChunked _ \<Rightarrow> True | _ \<Rightarrow> False)"

datatype encoded_buf =
    BufExact bytes
  | BufLimited bytes usize
  | BufChunked bytes bytes
  | BufChunkedEnd
  | BufTrailers bytes

fun buf_bytes :: "encoded_buf \<Rightarrow> bytes" where
  "buf_bytes (BufExact b) = b"
| "buf_bytes (BufLimited b n) = take n b"
| "buf_bytes (BufChunked line b) = line @ b @ crlf"
| "buf_bytes BufChunkedEnd = ascii ''0'' @ crlf @ crlf"
| "buf_bytes (BufTrailers b) = ascii ''0'' @ crlf @ b @ crlf"

definition buf_remaining :: "encoded_buf \<Rightarrow> usize" where
  "buf_remaining b = length (buf_bytes b)"

text \<open>\<open>ChunkSize::new\<close> formats the length in upper-case hexadecimal into 18 bytes; its \<open>expect\<close>
  (\<open>None\<close>) would fire on a longer line.\<close>

definition hex_upper_digit :: "nat \<Rightarrow> byte" where
  "hex_upper_digit d = (if d < 10 then word_of_nat (48 + d) else word_of_nat (55 + d))"

fun show_hex :: "nat \<Rightarrow> bytes" where
  "show_hex n = (if n < 16 then [hex_upper_digit n] else show_hex (n div 16) @ [hex_upper_digit (n mod 16)])"

declare show_hex.simps [simp del]

definition CHUNK_SIZE_MAX_BYTES :: usize where "CHUNK_SIZE_MAX_BYTES = 8 * 2"

definition chunk_size_new :: "usize \<Rightarrow> bytes option" where
  "chunk_size_new len =
     (let line = show_hex len @ crlf
      in if length line \<le> CHUNK_SIZE_MAX_BYTES + 2 then Some line else None)"

definition encoder_end :: "h1_encoder \<Rightarrow> u64 + encoded_buf option" where
  "encoder_end e =
     (case en_kind e of
        EncLength n \<Rightarrow> if n = 0 then Inr None else Inl n
      | EncChunked _ \<Rightarrow> Inr (Some BufChunkedEnd)
      | EncCloseDelimited \<Rightarrow> Inr None)"

definition encoder_encode :: "bytes \<Rightarrow> h1_encoder \<Rightarrow> (h1_encoder \<times> encoded_buf) option" where
  "encoder_encode msg e =
     (let len = length msg
      in case en_kind e of
           EncChunked _ \<Rightarrow> map_option (\<lambda>line. (e, BufChunked line msg)) (chunk_size_new len)
         | EncLength remaining \<Rightarrow>
             if remaining < len
             then Some (e\<lparr>en_kind := EncLength 0\<rparr>, BufLimited msg remaining)
             else Some (e\<lparr>en_kind := EncLength (remaining - len)\<rparr>, BufExact msg)
         | EncCloseDelimited \<Rightarrow> Some (e, BufExact msg))"

definition is_valid_trailer_field :: "header_name \<Rightarrow> bool" where
  "is_valid_trailer_field n \<longleftrightarrow>
     n \<notin> {''authorization'', ''cache-control'', ''content-encoding'', ''content-length'',
          ''content-range'', ''content-type'', ''host'', ''max-forwards'', ''set-cookie'',
          ''trailer'', ''transfer-encoding'', ''te''}"

text \<open>The loop over the trailers; the iterator names the first field of a group, and \<open>cur_name\<close>
  carries the name over the others, so every value is taken with its name.\<close>

fun allow_trailers :: "header_name list \<Rightarrow> header_map \<Rightarrow> header_map \<Rightarrow> header_map" where
  "allow_trailers allowed [] acc = acc"
| "allow_trailers allowed ((n, v) # flds) acc =
     (if n \<in> set allowed then
        if is_valid_trailer_field n then allow_trailers allowed flds (header_append n v acc)
        else allow_trailers allowed flds acc
      else allow_trailers allowed flds acc)"

definition encode_trailers :: "header_map \<Rightarrow> bool \<Rightarrow> h1_encoder \<Rightarrow> encoded_buf option" where
  "encode_trailers trailers title e =
     (case en_kind e of
        EncChunked (Some allowed) \<Rightarrow>
          (let allowed_trailers = allow_trailers allowed trailers [];
               buf = (if title then write_headers_title_case allowed_trailers
                      else write_headers allowed_trailers)
           in if buf = [] then None else Some (BufTrailers buf))
      | _ \<Rightarrow> None)"

subsection \<open>The facade\<close>

text \<open>A framed chunk with whether it is the caller's buffer itself.\<close>

definition body_encode :: "bytes \<Rightarrow> h1_encoder \<Rightarrow> (h1_encoder \<times> encoded_buf \<times> bool) option" where
  "body_encode chunk e =
     map_option
       (\<lambda>(e', buf). (e', buf, \<not> encoder_is_chunked e \<and> buf_remaining buf = length chunk))
       (encoder_encode chunk e)"

datatype body_tail = TailNone | TailTerminator | TailTrailers encoded_buf

definition CHUNKED_TERMINATOR :: bytes where
  "CHUNKED_TERMINATOR = ascii ''0'' @ crlf @ crlf"

fun tail_bytes :: "body_tail \<Rightarrow> bytes" where
  "tail_bytes TailNone = []"
| "tail_bytes TailTerminator = CHUNKED_TERMINATOR"
| "tail_bytes (TailTrailers b) = buf_bytes b"

definition body_end :: "h1_encoder \<Rightarrow> hyper_error + body_tail" where
  "body_end e =
     (case encoder_end e of
        Inr (Some _) \<Rightarrow> Inr TailTerminator
      | Inr None \<Rightarrow> Inr TailNone
      | Inl n \<Rightarrow> Inl (new_body_write_aborted n))"

definition end_with_trailers :: "header_map \<Rightarrow> bool \<Rightarrow> h1_encoder \<Rightarrow> hyper_error + body_tail" where
  "end_with_trailers trailers title e =
     (case encode_trailers trailers title e of
        Some buf \<Rightarrow> Inr (TailTrailers buf)
      | None \<Rightarrow> body_end e)"

subsection \<open>A chunk's size line fits\<close>

lemma length_show_hex: "n < 16 ^ Suc k \<Longrightarrow> length (show_hex n) \<le> Suc k"
proof (induction k arbitrary: n)
  case (Suc k)
  show ?case
  proof (cases "n < 16")
    case False
    have "n div 16 < 16 ^ Suc k" using Suc.prems by (simp add: less_mult_imp_div_less)
    then show ?thesis using Suc.IH False by (subst show_hex.simps) simp
  qed (subst show_hex.simps, simp)
qed (subst show_hex.simps, simp)

lemma chunk_size_fits:
  assumes "n < 2 ^ 64"
  shows "chunk_size_new n = Some (show_hex n @ crlf)"
proof -
  have "length (show_hex n) \<le> Suc 15" using assms by (intro length_show_hex) simp
  then show ?thesis by (simp add: chunk_size_new_def Let_def CHUNK_SIZE_MAX_BYTES_def crlf_def)
qed

lemma body_encode_no_panic: "length chunk < 2 ^ 64 \<Longrightarrow> body_encode chunk e \<noteq> None"
  by (simp add: body_encode_def encoder_encode_def chunk_size_fits Let_def split: encoder_kind.split)

text \<open>The whole body as the driver writes it: every chunk framed, then the end.\<close>

fun encode_chunks :: "bytes list \<Rightarrow> h1_encoder \<Rightarrow> (h1_encoder \<times> bytes) option" where
  "encode_chunks [] e = Some (e, [])"
| "encode_chunks (c # cs) e =
     (case body_encode c e of
        None \<Rightarrow> None
      | Some (e', buf, _) \<Rightarrow>
          map_option (\<lambda>(e2, out). (e2, buf_bytes buf @ out)) (encode_chunks cs e'))"

definition chunk_bytes :: "bytes \<Rightarrow> bytes" where
  "chunk_bytes c = show_hex (length c) @ crlf @ c @ crlf"

lemma encode_chunks_chunked:
  "en_kind e = EncChunked a \<Longrightarrow> \<forall>c \<in> set cs. length c < 2 ^ 64 \<Longrightarrow>
   encode_chunks cs e = Some (e, concat (map chunk_bytes cs))"
  by (induction cs)
    (simp_all add: body_encode_def encoder_encode_def chunk_size_fits Let_def chunk_bytes_def)

lemma encode_chunks_length:
  "en_kind e = EncLength n \<Longrightarrow>
   encode_chunks cs e =
     Some (e\<lparr>en_kind := EncLength (n - length (concat cs))\<rparr>, take n (concat cs))"
  by (induction cs arbitrary: e n)
    (auto simp: body_encode_def encoder_encode_def Let_def)

end
