(* ===== verification/H1_Body_Roundtrip.thy ===== *)
theory H1_Body_Roundtrip
  imports H1_Body_Stream H1_Body_Encode
begin

section \<open>What the body encoder writes is what a body decoder reads\<close>

text \<open>
  The size line, one chunk, a sequence of chunks with its terminator, and a trailer block, each
  scanned from the state the previous one leaves.
\<close>

subsection \<open>The size line\<close>

definition at :: "chunked_state \<Rightarrow> u64 \<Rightarrow> chunked \<Rightarrow> chunked" where
  "at st n c = c\<lparr>ch_state := st, ch_len := n\<rparr>"

lemma at_sel [simp]:
  "ch_state (at st n c) = st" "ch_len (at st n c) = n"
  "ch_trailers_buf (at st n c) = ch_trailers_buf c" "ch_trailers_cnt (at st n c) = ch_trailers_cnt c"
  "at st n (at st' m c) = at st n c"
  "(at st n c)\<lparr>ch_state := st'\<rparr> = at st' n c" "(at st n c)\<lparr>ch_len := m\<rparr> = at st m c"
  by (simp_all add: at_def)

lemma unat_hex_upper_digit: "d < 16 \<Longrightarrow> unat (hex_upper_digit d) = (if d < 10 then 48 + d else 55 + d)"
  unfolding hex_upper_digit_def by (auto simp del: of_nat_add)

lemma hex_digit_upper: "d < 16 \<Longrightarrow> hex_digit (hex_upper_digit d) = Some d"
  by (auto simp: hex_digit_def unat_hex_upper_digit Let_def)

lemma scan_then:
  "scan lib c xs = (c', [], d, More) \<Longrightarrow> scan lib c (xs @ ys) = with_data d (scan lib c' ys)"
  by (simp add: scan_append)

lemma scan_digit:
  assumes "st \<in> {Start, Size}" and "d < 16" and "m * 16 + d < 2 ^ 64"
  shows "scan lib (at st m c) [hex_upper_digit d] = (at Size (m * 16 + d) c, [], [], More)"
  using assms
  by (auto simp: byte_step.simps read_start_def read_size_def hex_digit_upper push_digit_def
      u64_checked_mul_def u64_checked_add_def)

lemma scan_show_hex:
  "n < 2 ^ 64 \<Longrightarrow> scan lib (at Start 0 c) (show_hex n) = (at Size n c, [], [], More)"
proof (induction n rule: show_hex.induct)
  case (1 n)
  show ?case
  proof (cases "n < 16")
    case True
    then show ?thesis using scan_digit [of Start n 0 lib c] 1(2) by (subst show_hex.simps) simp
  next
    case False
    have "n div 16 < 2 ^ 64" using 1(2) by (meson div_le_dividend le_less_trans)
    then have "scan lib (at Start 0 c) (show_hex (n div 16)) = (at Size (n div 16) c, [], [], More)"
      using 1(1) False by simp
    moreover have "scan lib (at Size (n div 16) c) [hex_upper_digit (n mod 16)] = (at Size n c, [], [], More)"
      using scan_digit [of Size "n mod 16" "n div 16" lib c] 1(2) by simp
    ultimately show ?thesis
      using False by (subst show_hex.simps) (simp add: scan_append)
  qed
qed

lemma scan_size_crlf:
  "scan lib (at Size n c) crlf = (at (if n = 0 then EndCr else Body) n c, [], [], More)"
  by (simp add: crlf_def byte_step.simps read_size_def hex_digit_def read_size_lf_def Let_def)

lemma scan_size_line:
  "n < 2 ^ 64 \<Longrightarrow>
   scan lib (at Start 0 c) (show_hex n @ crlf) = (at (if n = 0 then EndCr else Body) n c, [], [], More)"
  using scan_size_crlf by (simp add: scan_append scan_show_hex)

subsection \<open>Chunks\<close>

lemma scan_body_crlf: "scan lib (at BodyCr 0 c) crlf = (at Start 0 c, [], [], More)"
  by (simp add: crlf_def byte_step.simps read_body_cr_def read_body_lf_def)

lemma scan_chunk_data:
  "d \<noteq> [] \<Longrightarrow> scan lib (at Body (length d) c) d = (at BodyCr 0 c, [], d, More)"
  using scan_body [of "at Body (length d) c" "length d" d lib] by (simp add: with_data_def)

lemma scan_chunk:
  assumes "d \<noteq> []" and "length d < 2 ^ 64"
  shows "scan lib (at Start 0 c) (chunk_bytes d) = (at Start 0 c, [], d, More)"
proof -
  have "scan lib (at Start 0 c) ((show_hex (length d) @ crlf) @ d @ crlf)
      = with_data d (scan lib (at BodyCr 0 c) crlf)"
    using scan_then [OF scan_size_line [OF assms(2)], of lib c "d @ crlf"]
      scan_then [OF scan_chunk_data [OF assms(1)], of lib c crlf] assms(1)
    by simp
  then show ?thesis by (simp add: chunk_bytes_def scan_body_crlf)
qed

lemma scan_chunks:
  "\<forall>d \<in> set ds. d \<noteq> [] \<and> length d < 2 ^ 64 \<Longrightarrow>
   scan lib (at Start 0 c) (concat (map chunk_bytes ds)) = (at Start 0 c, [], concat ds, More)"
  by (induction ds) (simp_all add: scan_append scan_chunk)

lemma scan_zero_line: "scan lib (at Start 0 c) (ascii ''0'' @ crlf) = (at EndCr 0 c, [], [], More)"
proof -
  have "show_hex 0 = ascii ''0''" by (subst show_hex.simps) (simp add: hex_upper_digit_def ascii_def)
  then show ?thesis using scan_size_line [of 0 lib c] by simp
qed

lemma scan_end:
  "ch_trailers_buf c = None \<Longrightarrow>
   scan lib (at EndCr 0 c) (crlf @ rest) = (at End 0 c, rest, [], Done None)"
  by (simp add: crlf_def byte_step.simps read_end_cr_def read_end_lf_def finish_chunked_def)

lemma scan_terminator:
  "ch_trailers_buf c = None \<Longrightarrow>
   scan lib (at Start 0 c) (CHUNKED_TERMINATOR @ rest) = (at End 0 c, rest, [], Done None)"
  using scan_then [OF scan_zero_line, of lib c "crlf @ rest"]
  by (simp add: CHUNKED_TERMINATOR_def scan_end)

subsection \<open>Trailers\<close>

definition tr :: "bytes option \<Rightarrow> usize \<Rightarrow> chunked \<Rightarrow> chunked" where
  "tr b k c = c\<lparr>ch_trailers_buf := b, ch_trailers_cnt := k\<rparr>"

lemma tr_sel [simp]:
  "ch_state (tr b k c) = ch_state c" "ch_trailers_buf (tr b k c) = b" "ch_trailers_cnt (tr b k c) = k"
  "max_headers_bytes (tr b k c) = max_headers_bytes c" "max_headers_cnt (tr b k c) = max_headers_cnt c"
  "max_headers_bytes (at st n c) = max_headers_bytes c" "max_headers_cnt (at st n c) = max_headers_cnt c"
  "(tr b k c)\<lparr>ch_trailers_buf := b'\<rparr> = tr b' k c" "(tr b k c)\<lparr>ch_trailers_cnt := k'\<rparr> = tr b k' c"
  "(tr b k c)\<lparr>ch_state := st\<rparr> = tr b k (c\<lparr>ch_state := st\<rparr>)"
  by (simp_all add: tr_def at_def max_headers_bytes_def max_headers_cnt_def)

lemma scan_trailer_bytes:
  "13 \<notin> set l \<Longrightarrow> length b + length l < max_headers_bytes c \<Longrightarrow>
   scan lib (tr (Some b) k (at Trailer 0 c)) l = (tr (Some (b @ l)) k (at Trailer 0 c), [], [], More)"
proof (induction l arbitrary: b)
  case (Cons x l)
  then show ?case
    using Cons.IH [of "b @ [x]"]
    by (simp add: byte_step.simps read_trailer_def put_u8_def Let_def)
qed simp

lemma scan_trailer_crlf:
  assumes "length b + 2 < max_headers_bytes c" and "k < max_headers_cnt c"
  shows "scan lib (tr (Some b) k (at Trailer 0 c)) crlf
     = (tr (Some (b @ crlf)) (k + 1) (at EndCr 0 c), [], [], More)"
  using assms
  by (simp add: crlf_def byte_step.simps read_trailer_def read_trailer_lf_def put_u8_def Let_def)

text \<open>One line, from \<open>EndCr\<close> back to \<open>EndCr\<close>.\<close>

definition collected :: "bytes option \<Rightarrow> bytes" where
  "collected b = (case b of Some x \<Rightarrow> x | None \<Rightarrow> [])"

lemma scan_trailer_first:
  assumes "x \<noteq> 13" and "length (collected b) + 1 < max_headers_bytes c"
  shows "scan lib (tr b k (at EndCr 0 c)) [x] = (tr (Some (collected b @ [x])) k (at Trailer 0 c), [], [], More)"
  using assms
  by (cases b) (simp_all add: byte_step.simps read_end_cr_def put_u8_def Let_def collected_def)

lemma scan_trailer_line:
  assumes "l \<noteq> []" and "13 \<notin> set l" and "length (collected b) + length l + 2 < max_headers_bytes c"
    and "k < max_headers_cnt c"
  shows "scan lib (tr b k (at EndCr 0 c)) (l @ crlf)
     = (tr (Some (collected b @ l @ crlf)) (k + 1) (at EndCr 0 c), [], [], More)"
proof -
  obtain x l' where l: "l = x # l'" using assms(1) by (cases l) auto
  have 1: "scan lib (tr b k (at EndCr 0 c)) ([x] @ l' @ crlf)
      = scan lib (tr (Some (collected b @ [x])) k (at Trailer 0 c)) (l' @ crlf)"
    using scan_then [OF scan_trailer_first [of x b c lib k], of "l' @ crlf"] assms l by simp
  have 2: "scan lib (tr (Some (collected b @ [x])) k (at Trailer 0 c)) (l' @ crlf)
      = scan lib (tr (Some (collected b @ [x] @ l')) k (at Trailer 0 c)) crlf"
    using scan_then [OF scan_trailer_bytes [of l' "collected b @ [x]" c lib k], of crlf] assms l by simp
  show ?thesis
    using 1 2 scan_trailer_crlf [of "collected b @ [x] @ l'" c k lib] assms l by simp
qed

lemma scan_trailer_lines:
  "\<forall>l \<in> set ls. l \<noteq> [] \<and> 13 \<notin> set l \<Longrightarrow>
   length (collected b) + length (concat (map (\<lambda>l. l @ crlf) ls)) < max_headers_bytes c \<Longrightarrow>
   k + length ls \<le> max_headers_cnt c \<Longrightarrow>
   scan lib (tr b k (at EndCr 0 c)) (concat (map (\<lambda>l. l @ crlf) ls))
     = (tr (if ls = [] then b else Some (collected b @ concat (map (\<lambda>l. l @ crlf) ls)))
          (k + length ls) (at EndCr 0 c), [], [], More)"
proof (induction ls arbitrary: b k)
  case (Cons l ls)
  have "length (crlf) = 2" by (simp add: crlf_def)
  then have "scan lib (tr b k (at EndCr 0 c)) (l @ crlf)
     = (tr (Some (collected b @ l @ crlf)) (k + 1) (at EndCr 0 c), [], [], More)"
    using Cons.prems by (intro scan_trailer_line) auto
  from scan_then [OF this, of "concat (map (\<lambda>l. l @ crlf) ls)"]
    Cons.IH [of "Some (collected b @ l @ crlf)" "k + 1"] Cons.prems
  show ?case by (auto simp: collected_def)
qed simp

lemma scan_trailer_end:
  assumes "length b + 2 < max_headers_bytes c"
  shows "scan lib (tr (Some b) k (at EndCr 0 c)) (crlf @ rest) =
     (tr None k (at End 0 c), rest, [],
      case decode_trailers lib (b @ crlf) k of Inr t \<Rightarrow> Done (Some t) | Inl e \<Rightarrow> Failed e)"
  using assms
  by (simp add: crlf_def byte_step.simps read_end_cr_def read_end_lf_def put_u8_def finish_chunked_def
      Let_def split: sum.split)

text \<open>The trailer block of the encoder: the lines of the fields it lets through.\<close>

definition field_line :: "(bytes \<Rightarrow> bytes) \<Rightarrow> header_name \<times> header_value \<Rightarrow> bytes" where
  "field_line casing f = casing (ascii (fst f)) @ ascii '': '' @ snd f"

lemma header_lines: "concat (map (header_line casing) flds) = concat (map (\<lambda>l. l @ crlf) (map (field_line casing) flds))"
  by (induction flds) (simp_all add: header_line_def field_line_def)

lemma field_line_nonempty: "field_line casing f \<noteq> []"
  by (simp add: field_line_def ascii_def)

text \<open>The whole block, from the start of the line \<open>0\<close>.\<close>

lemma scan_trailers:
  fixes flds casing
  defines "block \<equiv> concat (map (header_line casing) flds)"
  assumes "flds \<noteq> []" and "\<forall>f \<in> set flds. 13 \<notin> set (field_line casing f)"
    and "length block + 2 < max_headers_bytes c" and "length flds \<le> max_headers_cnt c"
    and "ch_trailers_buf c = None" and "ch_trailers_cnt c = 0"
  shows "scan lib (at Start 0 c) (buf_bytes (BufTrailers block) @ rest) =
     (tr None (length flds) (at End 0 c), rest, [],
      case decode_trailers lib (block @ crlf) (length flds) of Inr t \<Rightarrow> Done (Some t) | Inl e \<Rightarrow> Failed e)"
proof -
  have c: "at EndCr 0 c = tr None 0 (at EndCr 0 c)" using assms(6,7) by (simp add: tr_def at_def)
  have block: "block = concat (map (\<lambda>l. l @ crlf) (map (field_line casing) flds))"
    unfolding block_def by (rule header_lines)
  have lines: "scan lib (tr None 0 (at EndCr 0 c)) block
      = (tr (Some block) (length flds) (at EndCr 0 c), [], [], More)"
    unfolding block
    using scan_trailer_lines [of "map (field_line casing) flds" None c 0 lib] assms(2-5) block
    by (simp add: field_line_nonempty collected_def)
  have "scan lib (at Start 0 c) ((ascii ''0'' @ crlf) @ block @ crlf @ rest)
      = scan lib (at EndCr 0 c) (block @ crlf @ rest)"
    using scan_then [OF scan_zero_line, of lib c "block @ crlf @ rest"] by simp
  also have "\<dots> = scan lib (tr (Some block) (length flds) (at EndCr 0 c)) (crlf @ rest)"
    using scan_then [OF lines, of "crlf @ rest"] by (simp add: c [symmetric])
  also have "\<dots> = (tr None (length flds) (at End 0 c), rest, [],
      case decode_trailers lib (block @ crlf) (length flds) of Inr t \<Rightarrow> Done (Some t) | Inl e \<Rightarrow> Failed e)"
    by (rule scan_trailer_end [OF assms(4)])
  finally show ?thesis by simp
qed

subsection \<open>Whole bodies\<close>

definition fresh_chunked :: "usize option \<Rightarrow> usize option \<Rightarrow> chunked" where
  "fresh_chunked mh mhs = \<lparr>ch_state = Start, ch_len = 0, ch_extensions_cnt = 0, ch_trailers_buf = None,
     ch_trailers_cnt = 0, ch_max_headers = mh, ch_max_header_size = mhs\<rparr>"

lemma at_fresh_chunked [simp]: "at Start 0 (fresh_chunked mh mhs) = fresh_chunked mh mhs"
  by (simp add: fresh_chunked_def at_def)

lemma fresh_chunked_sel [simp]:
  "ch_trailers_buf (fresh_chunked mh mhs) = None" "ch_trailers_cnt (fresh_chunked mh mhs) = 0"
  "max_headers_bytes (fresh_chunked mh mhs) = (case mhs of Some n \<Rightarrow> n | None \<Rightarrow> TRAILER_LIMIT)"
  "max_headers_cnt (fresh_chunked mh mhs) = (case mh of Some n \<Rightarrow> n | None \<Rightarrow> DEFAULT_MAX_HEADERS)"
  by (simp_all add: fresh_chunked_def max_headers_bytes_def max_headers_cnt_def)

lemma body_decoder_new_chunked:
  "body_decoder_new ''chunked'' n mh mhs =
     \<lparr>bd_decoder = DChunked (fresh_chunked mh mhs), bd_read = \<lparr>mr_buf = [], mr_eof = False\<rparr>, bd_done = False,
      bd_trailers = None\<rparr>"
  by (simp add: body_decoder_new_def decoder_chunked_def fresh_chunked_def Let_def)

lemma read_new_chunked:
  "body_read lib data (body_decoder_new ''chunked'' n mh mhs) =
     (case after_scan (feed data (body_decoder_new ''chunked'' n mh mhs)) (scan lib (fresh_chunked mh mhs) data) of
        (bd', d, Inr _) \<Rightarrow> (bd', Inr d)
      | (bd', d, Inl e) \<Rightarrow> (bd', Inl (d, e)))"
  using body_read_chunked [OF body_decoder_new_fit, of "''chunked''" n mh mhs "fresh_chunked mh mhs" lib data]
  by (simp add: body_decoder_new_chunked)

lemma chunked_written_is_read:
  assumes "\<forall>d \<in> set ds. d \<noteq> [] \<and> length d < 2 ^ 64"
  shows "\<exists>bd. body_read lib (concat (map chunk_bytes ds) @ CHUNKED_TERMINATOR @ rest)
        (body_decoder_new ''chunked'' n mh mhs) = (bd, Inr (concat ds))
     \<and> bd_done bd \<and> mr_buf (bd_read bd) = rest \<and> bd_trailers bd = None"
proof -
  have "scan lib (fresh_chunked mh mhs) (concat (map chunk_bytes ds) @ CHUNKED_TERMINATOR @ rest)
      = (at End 0 (fresh_chunked mh mhs), rest, concat ds, Done None)"
    using scan_then [OF scan_chunks [OF assms], of lib "fresh_chunked mh mhs" "CHUNKED_TERMINATOR @ rest"]
      scan_terminator [of "fresh_chunked mh mhs" lib rest]
    by simp
  then show ?thesis
    unfolding read_new_chunked
    by (simp add: after_scan_def body_decoder_new_chunked feed_def)
qed

lemma trailers_written_are_read:
  fixes flds casing
  defines "block \<equiv> concat (map (header_line casing) flds)"
  assumes "\<forall>d \<in> set ds. d \<noteq> [] \<and> length d < 2 ^ 64"
    and "flds \<noteq> []" and "\<forall>f \<in> set flds. 13 \<notin> set (field_line casing f)"
    and "length block + 2 < (case mhs of Some m \<Rightarrow> m | None \<Rightarrow> TRAILER_LIMIT)"
    and "length flds \<le> (case mh of Some m \<Rightarrow> m | None \<Rightarrow> DEFAULT_MAX_HEADERS)"
    and "decode_trailers lib (block @ crlf) (length flds) = Inr t"
  shows "\<exists>bd. body_read lib (concat (map chunk_bytes ds) @ buf_bytes (BufTrailers block) @ rest)
        (body_decoder_new ''chunked'' n mh mhs) = (bd, Inr (concat ds))
     \<and> bd_done bd \<and> mr_buf (bd_read bd) = rest \<and> bd_trailers bd = Some t"
proof -
  have "scan lib (at Start 0 (fresh_chunked mh mhs)) (buf_bytes (BufTrailers block) @ rest) =
     (tr None (length flds) (at End 0 (fresh_chunked mh mhs)), rest, [], Done (Some t))"
    using scan_trailers [of flds casing "fresh_chunked mh mhs" lib rest] assms(3-7)
    by (simp add: block_def)
  then have "scan lib (fresh_chunked mh mhs) (concat (map chunk_bytes ds) @ buf_bytes (BufTrailers block) @ rest)
      = (tr None (length flds) (at End 0 (fresh_chunked mh mhs)), rest, concat ds, Done (Some t))"
    using scan_then [OF scan_chunks [OF assms(2)], of lib "fresh_chunked mh mhs" "buf_bytes (BufTrailers block) @ rest"]
    by simp
  then show ?thesis
    unfolding read_new_chunked
    by (simp add: after_scan_def body_decoder_new_chunked feed_def)
qed

lemma length_written_is_read:
  assumes "0 < n" and "n \<le> length data"
  shows "body_read lib data (body_decoder_new ''length'' n mh mhs) =
     (\<lparr>bd_decoder = DLength 0, bd_read = \<lparr>mr_buf = drop n data, mr_eof = False\<rparr>, bd_done = True,
       bd_trailers = None\<rparr>, Inr (take n data))"
  using assms body_read_length [OF body_decoder_new_fit, of "''length''" n mh mhs n lib data]
  by (simp add: body_decoder_new_def decoder_length_def Let_def)

end
