(* ===== verification/H1_Fields.thy ===== *)
theory H1_Fields
  imports H1_Body_Encode
begin

section \<open>The header fields that frame a message\<close>

text \<open>
  crates/vendor-hyper/src/headers.rs: what \<open>Connection\<close>, \<open>TE\<close>, \<open>Content-Length\<close> and
  \<open>Transfer-Encoding\<close> say; and \<open>DecodedLength\<close> (body/length.rs). \<open>HeaderValue::to_str\<close> belongs to
  the crate http and is an argument (\<open>to_str\<close>): it yields the text of a value of visible ASCII.
\<close>

subsection \<open>Text\<close>

text \<open>\<open>str::split\<close> on a character, \<open>str::trim\<close>, \<open>eq_ignore_ascii_case\<close>. Characters are below 256;
  of those, Unicode's white space is the six ASCII ones, 133 and 160.\<close>

fun split_on :: "'a \<Rightarrow> 'a list \<Rightarrow> 'a list list" where
  "split_on sep [] = [[]]"
| "split_on sep (c # cs) =
     (if c = sep then [] # split_on sep cs
      else case split_on sep cs of p # ps \<Rightarrow> (c # p) # ps | [] \<Rightarrow> [[c]])"

definition is_whitespace :: "char \<Rightarrow> bool" where
  "is_whitespace c \<longleftrightarrow> (let n = (of_char c :: nat) in 9 \<le> n \<and> n \<le> 13 \<or> n = 32 \<or> n = 133 \<or> n = 160)"

definition trim :: "string \<Rightarrow> string" where
  "trim s = rev (dropWhile is_whitespace (rev (dropWhile is_whitespace s)))"

definition eq_ignore_ascii_case :: "string \<Rightarrow> string \<Rightarrow> bool" where
  "eq_ignore_ascii_case a b \<longleftrightarrow> map to_ascii_lowercase a = map to_ascii_lowercase b"

type_synonym to_str = "header_value \<Rightarrow> string option"

subsection \<open>Tokens\<close>

definition connection_has :: "to_str \<Rightarrow> header_value \<Rightarrow> string \<Rightarrow> bool" where
  "connection_has ts v needle =
     (case ts v of
        Some s \<Rightarrow> list_ex (\<lambda>tok. eq_ignore_ascii_case (trim tok) needle) (split_on (CHR '','') s)
      | None \<Rightarrow> False)"

definition connection_keep_alive :: "to_str \<Rightarrow> header_value \<Rightarrow> bool" where
  "connection_keep_alive ts v = connection_has ts v ''keep-alive''"

definition connection_close :: "to_str \<Rightarrow> header_value \<Rightarrow> bool" where
  "connection_close ts v = connection_has ts v ''close''"

definition connection_any_close :: "to_str \<Rightarrow> header_map \<Rightarrow> bool" where
  "connection_any_close ts flds = list_ex (connection_close ts) (header_get_all flds ''connection'')"

definition header_value_list_has :: "to_str \<Rightarrow> header_value list \<Rightarrow> string \<Rightarrow> bool" where
  "header_value_list_has ts values needle =
     list_ex (\<lambda>v. case ts v of
         Some line \<Rightarrow> list_ex (\<lambda>tok. eq_ignore_ascii_case (trim tok) needle) (split_on (CHR '','') line)
       | None \<Rightarrow> False) values"

definition te_is_trailers :: "to_str \<Rightarrow> header_map \<Rightarrow> bool" where
  "te_is_trailers ts flds = header_value_list_has ts (header_get_all flds ''te'') ''trailers''"

subsection \<open>Content-Length\<close>

definition u64_checked_digit :: "u64 \<Rightarrow> nat \<Rightarrow> u64 option" where
  "u64_checked_digit r d = (if r * 10 < 2 ^ 64 \<and> r * 10 + d < 2 ^ 64 then Some (r * 10 + d) else None)"

fun digits_from :: "u64 \<Rightarrow> nat list \<Rightarrow> u64 option" where
  "digits_from r [] = Some r"
| "digits_from r (b # bs) =
     (if 48 \<le> b \<and> b \<le> 57
      then case u64_checked_digit r (b - 48) of Some r' \<Rightarrow> digits_from r' bs | None \<Rightarrow> None
      else None)"

definition from_digits :: "nat list \<Rightarrow> u64 option" where
  "from_digits bs = (if bs = [] then None else digits_from 0 bs)"

definition content_length_parse :: "header_value \<Rightarrow> u64 option" where
  "content_length_parse v = from_digits (map unat v)"

text \<open>The inner loop, over the comma-separated parts of one line.\<close>

fun content_length_parts :: "string list \<Rightarrow> u64 option \<Rightarrow> u64 option option" where
  "content_length_parts [] acc = Some acc"
| "content_length_parts (p # ps) acc =
     (case from_digits (map of_char (trim p)) of
        None \<Rightarrow> None
      | Some n \<Rightarrow>
          if acc = None then content_length_parts ps (Some n)
          else if acc \<noteq> Some n then None
          else content_length_parts ps acc)"

fun content_length_lines :: "to_str \<Rightarrow> header_value list \<Rightarrow> u64 option \<Rightarrow> u64 option" where
  "content_length_lines ts [] acc = acc"
| "content_length_lines ts (v # vs) acc =
     (case ts v of
        None \<Rightarrow> None
      | Some line \<Rightarrow>
          (case content_length_parts (split_on (CHR '','') line) acc of
             None \<Rightarrow> None
           | Some acc' \<Rightarrow> content_length_lines ts vs acc'))"

definition content_length_parse_all_values :: "to_str \<Rightarrow> header_value list \<Rightarrow> u64 option" where
  "content_length_parse_all_values ts values = content_length_lines ts values None"

definition content_length_parse_all :: "to_str \<Rightarrow> header_map \<Rightarrow> u64 option" where
  "content_length_parse_all ts flds =
     content_length_parse_all_values ts (header_get_all flds ''content-length'')"

subsection \<open>Transfer-Encoding\<close>

definition is_chunked_line :: "to_str \<Rightarrow> header_value \<Rightarrow> bool" where
  "is_chunked_line ts v =
     (case ts v of
        Some s \<Rightarrow> eq_ignore_ascii_case (trim (last (split_on (CHR '','') s))) ''chunked''
      | None \<Rightarrow> False)"

definition is_chunked :: "to_str \<Rightarrow> header_value list \<Rightarrow> bool" where
  "is_chunked ts encodings = (encodings \<noteq> [] \<and> is_chunked_line ts (last encodings))"

definition transfer_encoding_is_chunked :: "to_str \<Rightarrow> header_map \<Rightarrow> bool" where
  "transfer_encoding_is_chunked ts flds = is_chunked ts (header_get_all flds ''transfer-encoding'')"

text \<open>\<open>add_chunked\<close> rewrites the last value of the entry.\<close>

fun map_last_value :: "header_name \<Rightarrow> (header_value \<Rightarrow> header_value) \<Rightarrow> header_map \<Rightarrow> header_map" where
  "map_last_value n f [] = []"
| "map_last_value n f ((m, v) # flds) =
     (if m = n \<and> \<not> header_contains flds n then (m, f v) # flds else (m, v) # map_last_value n f flds)"

definition add_chunked :: "header_map \<Rightarrow> header_map" where
  "add_chunked = map_last_value ''transfer-encoding'' (\<lambda>line. line @ ascii '', chunked'')"

subsection \<open>\<open>DecodedLength\<close>\<close>

type_synonym decoded_length = u64

definition MAX_LEN :: u64 where "MAX_LEN = 2 ^ 64 - 3"
definition CLOSE_DELIMITED :: decoded_length where "CLOSE_DELIMITED = 2 ^ 64 - 1"
definition CHUNKED :: decoded_length where "CHUNKED = 2 ^ 64 - 2"

definition checked_new :: "u64 \<Rightarrow> parse_error + decoded_length" where
  "checked_new len = (if len \<le> MAX_LEN then Inr len else Inl ParseTooLarge)"

definition into_opt :: "decoded_length \<Rightarrow> u64 option" where
  "into_opt d = (if d = CHUNKED \<or> d = CLOSE_DELIMITED then None else Some d)"

subsection \<open>Lemmas\<close>

lemma split_on_nonempty [simp]: "split_on sep s \<noteq> []"
  by (induction s) (auto split: list.splits)

lemma to_ascii_lowercase_idem [simp]: "to_ascii_lowercase (to_ascii_lowercase c) = to_ascii_lowercase c"
proof (cases "is_ascii_uppercase c")
  case True
  then have "(of_char (to_ascii_lowercase c) :: nat) = of_char c + 32"
    by (simp add: to_ascii_lowercase_def is_ascii_uppercase_def of_char_of)
  then show ?thesis using True by (simp add: to_ascii_lowercase_def is_ascii_uppercase_def)
qed (simp add: to_ascii_lowercase_def)

lemma digits_from_less: "digits_from r bs = Some n \<Longrightarrow> r < 2 ^ 64 \<Longrightarrow> n < 2 ^ 64"
  by (induction bs arbitrary: r) (auto simp: u64_checked_digit_def split: if_splits option.splits)

lemma from_digits_less: "from_digits bs = Some n \<Longrightarrow> n < 2 ^ 64"
  using digits_from_less [of 0 bs n] by (auto simp: from_digits_def split: if_splits)

lemma content_length_parse_less: "content_length_parse v = Some n \<Longrightarrow> n < 2 ^ 64"
  unfolding content_length_parse_def by (rule from_digits_less)

lemma content_length_parts_acc:
  "content_length_parts ps (Some n) = Some acc \<Longrightarrow> acc = Some n"
  by (induction ps) (auto split: option.splits if_splits)

lemma content_length_parts_less:
  "content_length_parts ps acc = Some (Some n) \<Longrightarrow> \<forall>m. acc = Some m \<longrightarrow> m < 2 ^ 64 \<Longrightarrow> n < 2 ^ 64"
  by (induction ps arbitrary: acc) (auto split: option.splits if_splits dest: from_digits_less)

lemma content_length_lines_less:
  "content_length_lines ts vs acc = Some n \<Longrightarrow> \<forall>m. acc = Some m \<longrightarrow> m < 2 ^ 64 \<Longrightarrow> n < 2 ^ 64"
proof (induction vs arbitrary: acc)
  case (Cons v vs)
  then obtain line acc' where l: "ts v = Some line"
    "content_length_parts (split_on (CHR '','') line) acc = Some acc'"
    "content_length_lines ts vs acc' = Some n"
    by (auto split: option.splits)
  moreover have "\<forall>m. acc' = Some m \<longrightarrow> m < 2 ^ 64"
    using l(2) Cons.prems(2) content_length_parts_less by blast
  ultimately show ?case using Cons.IH by blast
qed simp

lemma content_length_parse_all_less: "content_length_parse_all ts flds = Some n \<Longrightarrow> n < 2 ^ 64"
  by (auto simp: content_length_parse_all_def content_length_parse_all_values_def
      dest: content_length_lines_less)

lemma content_length_lines_None: "content_length_lines ts [] None = None"
  by simp

lemma header_contains_map_last [simp]:
  "header_contains (map_last_value n f flds) m = header_contains flds m"
  by (induction n f flds rule: map_last_value.induct) auto

lemma header_get_all_map_last:
  "header_get_all (map_last_value n f flds) m =
     (if m = n \<and> header_contains flds n
      then butlast (header_get_all flds n) @ [f (last (header_get_all flds n))]
      else header_get_all flds m)"
  by (induction n f flds rule: map_last_value.induct) (auto simp: header_contains_get_all)

lemma checked_new_known: "checked_new n = Inr d \<Longrightarrow> d = n \<and> d \<noteq> CHUNKED \<and> d \<noteq> CLOSE_DELIMITED"
  by (auto simp: checked_new_def MAX_LEN_def CHUNKED_def CLOSE_DELIMITED_def split: if_splits)

lemma special_lengths [simp]: "CHUNKED \<noteq> CLOSE_DELIMITED" "CLOSE_DELIMITED \<noteq> CHUNKED" "CHUNKED \<noteq> 0" "CLOSE_DELIMITED \<noteq> 0"
  "0 \<noteq> CHUNKED" "0 \<noteq> CLOSE_DELIMITED"
  by (simp_all add: CHUNKED_def CLOSE_DELIMITED_def)

end
