(* ===== verification/H1_Parse.thy ===== *)
theory H1_Parse
  imports H1_Fields
begin

section \<open>Reading a message head\<close>

text \<open>
  crates/vendor-hyper/src/proto/h1/role.rs, \<open>Server::parse\<close>, \<open>Client::parse\<close> and
  \<open>Client::decoder\<close>: what becomes of the lines the crate httparse has recognised, and above all
  how the body is framed; and the facade's \<open>parse_request\<close>, \<open>parse_response\<close> and
  \<open>server_parse_failure\<close> (proto/h1/httpunk.rs).

  Arguments (\<open>h1_lib\<close>): httparse itself, the parsers of the crate http for methods, targets and
  field names, and \<open>to_str\<close>. A target is the text it displays as. The facade neither preserves the
  case of names nor accepts HTTP/0.9, and it drops the reason phrase and 1xx heads; those branches
  are not modelled. In a release build an invalid field name is \<open>Parse::Internal\<close>.
\<close>

subsection \<open>The parsers of the crates\<close>

record parser_config =
  pc_ignore_invalid_headers_in_requests :: bool
  pc_multiple_spaces_in_request_line :: bool
  pc_spaces_after_header_name_in_responses :: bool
  pc_obsolete_multiline_headers_in_responses :: bool
  pc_ignore_invalid_headers_in_responses :: bool

datatype httparse_error =
    HpHeaderName | HpHeaderValue | HpNewLine | HpStatus | HpToken | HpTooManyHeaders | HpVersion

datatype 'a parse_status = HpComplete usize 'a | HpPartial

type_synonym raw_field = "bytes \<times> bytes"

record request_parts =
  rp_method :: bytes
  rp_path :: bytes
  rp_version :: nat
  rp_headers :: "raw_field list"

record response_parts =
  sp_code :: u16
  sp_version :: nat
  sp_headers :: "raw_field list"

text \<open>A failed request parse also tells whether the method was recognised.\<close>

record h1_lib =
  hp_request :: "parser_config \<Rightarrow> usize \<Rightarrow> bytes \<Rightarrow> (httparse_error \<times> bool) + request_parts parse_status"
  hp_response :: "parser_config \<Rightarrow> usize \<Rightarrow> bytes \<Rightarrow> httparse_error + response_parts parse_status"
  hp_method :: "bytes \<Rightarrow> string option"
  hp_uri :: "bytes \<Rightarrow> string option"
  hp_name :: "bytes \<Rightarrow> header_name option"
  hp_to_str :: to_str

fun parse_of_httparse :: "httparse_error \<Rightarrow> parse_error" where
  "parse_of_httparse HpHeaderName = ParseHeader Token"
| "parse_of_httparse HpHeaderValue = ParseHeader Token"
| "parse_of_httparse HpNewLine = ParseHeader Token"
| "parse_of_httparse HpToken = ParseHeader Token"
| "parse_of_httparse HpStatus = ParseStatus"
| "parse_of_httparse HpTooManyHeaders = ParseTooLarge"
| "parse_of_httparse HpVersion = ParseVersion"

subsection \<open>Messages\<close>

datatype http_version = Http10 | Http11

record 's message_head =
  mh_version :: http_version
  mh_subject :: 's
  mh_headers :: header_map

record 's parsed_message =
  pm_head :: "'s message_head"
  pm_decode :: decoded_length
  pm_expect_continue :: bool
  pm_keep_alive :: bool
  pm_wants_upgrade :: bool

type_synonym request_line = "string \<times> string"

definition MAX_URI_LEN :: usize where "MAX_URI_LEN = 2 ^ 16 - 2"

text \<open>\<open>record_header_indices\<close> fails on a name of 64 KB.\<close>

definition record_header_indices :: "raw_field list \<Rightarrow> parse_error + unit" where
  "record_header_indices hs =
     (if list_ex (\<lambda>(n, _). 2 ^ 16 \<le> length n) hs then Inl ParseTooLarge else Inr ())"

subsection \<open>\<open>Server::parse\<close>: the fields\<close>

text \<open>The locals of the loop over the fields.\<close>

record server_scan =
  sc_keep_alive :: bool
  sc_decoder :: decoded_length
  sc_expect :: bool
  sc_con_len :: "u64 option"
  sc_is_cl :: bool
  sc_is_te :: bool
  sc_is_te_chunked :: bool
  sc_wants_upgrade :: bool
  sc_saw_close :: bool
  sc_headers :: header_map

definition ascii_eq_ignore_case :: "bytes \<Rightarrow> string \<Rightarrow> bool" where
  "ascii_eq_ignore_case b s \<longleftrightarrow> eq_ignore_ascii_case (map (\<lambda>x. char_of (unat x)) b) s"

definition append_field :: "header_name \<Rightarrow> header_value \<Rightarrow> server_scan \<Rightarrow> server_scan" where
  "append_field n v s = s\<lparr>sc_headers := header_append n v (sc_headers s)\<rparr>"

definition server_field ::
  "to_str \<Rightarrow> bool \<Rightarrow> header_name \<Rightarrow> header_value \<Rightarrow> server_scan \<Rightarrow> parse_error + server_scan" where
  "server_field ts is_http_11 n v s =
     (if n = ''transfer-encoding'' then
        if \<not> is_http_11 then Inl (ParseHeader TransferEncodingUnexpected)
        else
          let s1 = s\<lparr>sc_is_te := True\<rparr>;
              s2 = (if sc_is_cl s1
                    then (if sc_con_len s1 \<noteq> None
                          then s1\<lparr>sc_con_len := None, sc_headers := header_remove ''content-length'' (sc_headers s1)\<rparr>
                          else s1)
                    else s1);
              s3 = (if is_chunked_line ts v
                    then s2\<lparr>sc_is_te_chunked := True, sc_decoder := CHUNKED\<rparr>
                    else s2\<lparr>sc_is_te_chunked := False\<rparr>)
          in Inr (append_field n v s3)
      else if n = ''content-length'' then
        let s1 = s\<lparr>sc_is_cl := True\<rparr>
        in if sc_is_te s1 then Inr s1
           else (case content_length_parse v of
                   None \<Rightarrow> Inl (ParseHeader ContentLengthInvalid)
                 | Some len \<Rightarrow>
                     (case sc_con_len s1 of
                        Some prev \<Rightarrow>
                          if prev \<noteq> len then Inl (ParseHeader ContentLengthInvalid) else Inr s1
                      | None \<Rightarrow>
                          (case checked_new len of
                             Inl e \<Rightarrow> Inl e
                           | Inr d \<Rightarrow>
                               Inr (append_field n v (s1\<lparr>sc_decoder := d, sc_con_len := Some len\<rparr>)))))
      else if n = ''connection'' then
        (if sc_saw_close s \<or> connection_close ts v
         then Inr (append_field n v (s\<lparr>sc_saw_close := True, sc_keep_alive := False\<rparr>))
         else if \<not> sc_keep_alive s
         then Inr (append_field n v (s\<lparr>sc_keep_alive := connection_keep_alive ts v\<rparr>))
         else Inr (append_field n v s))
      else if n = ''expect'' then
        Inr (append_field n v (s\<lparr>sc_expect := ascii_eq_ignore_case v ''100-continue''\<rparr>))
      else if n = ''upgrade'' then
        Inr (append_field n v (s\<lparr>sc_wants_upgrade := is_http_11\<rparr>))
      else Inr (append_field n v s))"

fun server_fields ::
  "h1_lib \<Rightarrow> bool \<Rightarrow> raw_field list \<Rightarrow> server_scan \<Rightarrow> parse_error + server_scan" where
  "server_fields lib is_http_11 [] s = Inr s"
| "server_fields lib is_http_11 ((rn, v) # hs) s =
     (case hp_name lib rn of
        None \<Rightarrow> Inl ParseInternal
      | Some n \<Rightarrow>
          (case server_field (hp_to_str lib) is_http_11 n v s of
             Inl e \<Rightarrow> Inl e
           | Inr s' \<Rightarrow> server_fields lib is_http_11 hs s'))"

definition server_start :: "bool \<Rightarrow> bool \<Rightarrow> server_scan" where
  "server_start is_http_11 is_connect =
     \<lparr>sc_keep_alive = is_http_11, sc_decoder = 0, sc_expect = False, sc_con_len = None,
      sc_is_cl = False, sc_is_te = False, sc_is_te_chunked = False, sc_wants_upgrade = is_connect,
      sc_saw_close = False, sc_headers = []\<rparr>"

text \<open>From the recognised lines to the message.\<close>

definition server_message ::
  "h1_lib \<Rightarrow> http_version \<Rightarrow> request_line \<Rightarrow> raw_field list \<Rightarrow> parse_error + request_line parsed_message"
where
  "server_message lib version subject raw =
     (case server_fields lib (version = Http11) raw
             (server_start (version = Http11) (fst subject = ''CONNECT'')) of
        Inl e \<Rightarrow> Inl e
      | Inr s \<Rightarrow>
          if sc_is_te s \<and> \<not> sc_is_te_chunked s then Inl (ParseHeader TransferEncodingInvalid)
          else
            Inr \<lparr>pm_head = \<lparr>mh_version = version, mh_subject = subject, mh_headers = sc_headers s\<rparr>,
                 pm_decode = sc_decoder s, pm_expect_continue = sc_expect s,
                 pm_keep_alive = (if sc_is_te s \<and> sc_is_cl s then False else sc_keep_alive s),
                 pm_wants_upgrade = sc_wants_upgrade s\<rparr>)"

definition max_headers_or_default :: "usize option \<Rightarrow> usize" where
  "max_headers_or_default m = (case m of Some n \<Rightarrow> n | None \<Rightarrow> 100)"

definition over_limit :: "usize option \<Rightarrow> usize \<Rightarrow> bool" where
  "over_limit m len = (case m of Some n \<Rightarrow> n < len | None \<Rightarrow> False)"

definition server_parse ::
  "h1_lib \<Rightarrow> parser_config \<Rightarrow> usize option \<Rightarrow> usize option \<Rightarrow> bytes
   \<Rightarrow> bytes \<times> (parse_error + request_line parsed_message option)" where
  "server_parse lib cfg max_headers max_header_size buf =
     (case hp_request lib cfg (max_headers_or_default max_headers) buf of
        Inl (HpToken, method_seen) \<Rightarrow> (buf, Inl (if method_seen then ParseUri else ParseMethod))
      | Inl (e, _) \<Rightarrow> (buf, Inl (parse_of_httparse e))
      | Inr HpPartial \<Rightarrow> (buf, Inr None)
      | Inr (HpComplete len parts) \<Rightarrow>
          if over_limit max_header_size len then (buf, Inl ParseTooLarge)
          else if MAX_URI_LEN < length (rp_path parts) then (buf, Inl ParseUriTooLong)
          else (case hp_method lib (rp_method parts) of
                  None \<Rightarrow> (buf, Inl ParseMethod)
                | Some method \<Rightarrow>
                    (case record_header_indices (rp_headers parts) of
                       Inl e \<Rightarrow> (buf, Inl e)
                     | Inr _ \<Rightarrow>
                         let rest = drop len buf
                         in (case hp_uri lib (rp_path parts) of
                               None \<Rightarrow> (rest, Inl ParseUri)
                             | Some uri \<Rightarrow>
                                 (rest, map_sum id Some
                                   (server_message lib (if rp_version parts = 1 then Http11 else Http10)
                                      (method, uri) (rp_headers parts)))))))"

subsection \<open>\<open>Client::decoder\<close>\<close>

definition client_decoder ::
  "to_str \<Rightarrow> u16 message_head \<Rightarrow> string option \<Rightarrow> parse_error + (decoded_length \<times> bool) option" where
  "client_decoder ts inc method =
     (let status = mh_subject inc; flds = mh_headers inc
      in if status = 101 then Inr (Some (0, True))
         else if status = 100 \<or> 102 \<le> status \<and> status \<le> 199 then Inr None
         else if status = 204 \<or> status = 304 then Inr (Some (0, False))
         else if method = Some ''HEAD'' then Inr (Some (0, False))
         else if method = Some ''CONNECT'' \<and> 200 \<le> status \<and> status \<le> 299 then Inr (Some (0, True))
         else if header_contains flds ''transfer-encoding'' then
           (if mh_version inc = Http10 then Inl (ParseHeader TransferEncodingUnexpected)
            else if transfer_encoding_is_chunked ts flds then Inr (Some (CHUNKED, False))
            else Inr (Some (CLOSE_DELIMITED, False)))
         else
           (case content_length_parse_all ts flds of
              Some len \<Rightarrow> map_sum id (\<lambda>d. Some (d, False)) (checked_new len)
            | None \<Rightarrow>
                if header_contains flds ''content-length'' then Inl (ParseHeader ContentLengthInvalid)
                else Inr (Some (CLOSE_DELIMITED, False))))"

subsection \<open>\<open>Client::parse\<close>\<close>

text \<open>\<open>obs_fold_line\<close>: every line of a folded value is trimmed and joined by a space.\<close>

definition is_ascii_whitespace :: "byte \<Rightarrow> bool" where
  "is_ascii_whitespace b \<longleftrightarrow> b = 32 \<or> b = 9 \<or> b = 10 \<or> b = 12 \<or> b = 13"

definition trim_start :: "bytes \<Rightarrow> bytes" where "trim_start s = dropWhile is_ascii_whitespace s"
definition trim_end :: "bytes \<Rightarrow> bytes" where
  "trim_end s = rev (dropWhile is_ascii_whitespace (rev s))"

definition obs_fold_line :: "bytes \<Rightarrow> bytes" where
  "obs_fold_line buf =
     (if (10 :: byte) \<notin> set buf then buf
      else trim_end (takeWhile (\<lambda>b. b \<noteq> 10) buf)
           @ concat (map (\<lambda>line. 32 # trim_start (trim_end line))
               (split_on 10 (tl (dropWhile (\<lambda>b. b \<noteq> 10) buf)))))"

record client_scan =
  cs_keep_alive :: bool
  cs_saw_close :: bool
  cs_headers :: header_map

definition client_field :: "to_str \<Rightarrow> header_name \<Rightarrow> header_value \<Rightarrow> client_scan \<Rightarrow> client_scan" where
  "client_field ts n v s =
     (let s1 = (if n = ''connection'' then
                  if cs_saw_close s \<or> connection_close ts v
                  then s\<lparr>cs_saw_close := True, cs_keep_alive := False\<rparr>
                  else if \<not> cs_keep_alive s then s\<lparr>cs_keep_alive := connection_keep_alive ts v\<rparr>
                  else s
                else s)
      in s1\<lparr>cs_headers := header_append n v (cs_headers s1)\<rparr>)"

fun client_fields :: "h1_lib \<Rightarrow> raw_field list \<Rightarrow> client_scan \<Rightarrow> parse_error + client_scan" where
  "client_fields lib [] s = Inr s"
| "client_fields lib ((rn, v) # hs) s =
     (case hp_name lib rn of
        None \<Rightarrow> Inl ParseInternal
      | Some n \<Rightarrow> client_fields lib hs (client_field (hp_to_str lib) n v s))"

text \<open>One response head: a message, or \<open>None\<close> for an interim head that is skipped.\<close>

definition client_message ::
  "h1_lib \<Rightarrow> parser_config \<Rightarrow> string option \<Rightarrow> http_version \<Rightarrow> u16 \<Rightarrow> raw_field list
   \<Rightarrow> parse_error + u16 parsed_message option" where
  "client_message lib cfg method version status raw =
     (let raw' = (if pc_obsolete_multiline_headers_in_responses cfg
                  then map (\<lambda>(n, v). (n, obs_fold_line v)) raw else raw)
      in case client_fields lib raw'
                \<lparr>cs_keep_alive = (version = Http11), cs_saw_close = False, cs_headers = []\<rparr> of
           Inl e \<Rightarrow> Inl e
         | Inr s \<Rightarrow>
             let head = \<lparr>mh_version = version, mh_subject = status, mh_headers = cs_headers s\<rparr>
             in (case client_decoder (hp_to_str lib) head method of
                   Inl e \<Rightarrow> Inl e
                 | Inr None \<Rightarrow> Inr None
                 | Inr (Some (d, is_upgrade)) \<Rightarrow>
                     Inr (Some \<lparr>pm_head = head, pm_decode = d, pm_expect_continue = False,
                                pm_keep_alive = (cs_keep_alive s \<and> \<not> is_upgrade),
                                pm_wants_upgrade = is_upgrade\<rparr>)))"

text \<open>The loop over interim heads. It ends because httparse never completes a head of no bytes
  (\<open>client_parse_returns\<close>).\<close>

partial_function (option) client_parse ::
  "h1_lib \<Rightarrow> parser_config \<Rightarrow> usize option \<Rightarrow> usize option \<Rightarrow> string option \<Rightarrow> bytes
   \<Rightarrow> (bytes \<times> (parse_error + u16 parsed_message option)) option" where
  "client_parse lib cfg max_headers max_header_size method buf =
     (case hp_response lib cfg (max_headers_or_default max_headers) buf of
        Inl e \<Rightarrow> Some (buf, Inl (parse_of_httparse e))
      | Inr HpPartial \<Rightarrow> Some (buf, Inr None)
      | Inr (HpComplete len parts) \<Rightarrow>
          if over_limit max_header_size len then Some (buf, Inl ParseTooLarge)
          else if sp_code parts < 100 \<or> 1000 \<le> sp_code parts then Some (buf, Inl ParseStatus)
          else (case record_header_indices (sp_headers parts) of
                  Inl e \<Rightarrow> Some (buf, Inl e)
                | Inr _ \<Rightarrow>
                    (case client_message lib cfg method
                            (if sp_version parts = 1 then Http11 else Http10)
                            (sp_code parts) (sp_headers parts) of
                       Inl e \<Rightarrow> Some (drop len buf, Inl e)
                     | Inr (Some m) \<Rightarrow> Some (drop len buf, Inr (Some m))
                     | Inr None \<Rightarrow>
                         if drop len buf = [] then Some (drop len buf, Inr None)
                         else client_parse lib cfg max_headers max_header_size method (drop len buf))))"

subsection \<open>The facade\<close>

datatype decode_kind = BodyEmpty | BodyLength u64 | BodyChunked | BodyCloseDelimited

definition map_body :: "decoded_length \<Rightarrow> decode_kind" where
  "map_body d =
     (if d = CHUNKED then BodyChunked
      else if d = CLOSE_DELIMITED then BodyCloseDelimited
      else case into_opt d of
             Some n \<Rightarrow> if 0 < n then BodyLength n else BodyEmpty
           | None \<Rightarrow> BodyEmpty)"

record parsed_head =
  ph_status :: u16
  ph_keep_alive :: bool
  ph_headers :: header_map
  ph_body :: decode_kind
  ph_wants_upgrade :: bool
  ph_http10 :: bool

record parsed_request =
  pq_method :: string
  pq_target :: string
  pq_headers :: header_map
  pq_body :: decode_kind
  pq_keep_alive :: bool
  pq_expect_continue :: bool
  pq_wants_upgrade :: bool
  pq_http10 :: bool
  pq_allow_trailers :: bool

definition parse_request ::
  "h1_lib \<Rightarrow> parser_config \<Rightarrow> usize option \<Rightarrow> usize option \<Rightarrow> bytes
   \<Rightarrow> bytes \<times> (hyper_error + parsed_request option)" where
  "parse_request lib cfg max_headers max_header_size buf =
     (if buf = [] then (buf, Inr None)
      else case server_parse lib cfg max_headers max_header_size buf of
        (rest, Inl e) \<Rightarrow> (rest, Inl (error_of_parse e))
      | (rest, Inr None) \<Rightarrow> (rest, Inr None)
      | (rest, Inr (Some p)) \<Rightarrow>
          let flds = mh_headers (pm_head p)
          in (rest, Inr (Some \<lparr>pq_method = fst (mh_subject (pm_head p)),
                pq_target = snd (mh_subject (pm_head p)), pq_headers = flds,
                pq_body = map_body (pm_decode p), pq_keep_alive = pm_keep_alive p,
                pq_expect_continue = pm_expect_continue p, pq_wants_upgrade = pm_wants_upgrade p,
                pq_http10 = (mh_version (pm_head p) = Http10),
                pq_allow_trailers = te_is_trailers (hp_to_str lib) flds\<rparr>)))"

definition parse_response ::
  "h1_lib \<Rightarrow> parser_config \<Rightarrow> usize option \<Rightarrow> usize option \<Rightarrow> string option \<Rightarrow> bytes
   \<Rightarrow> (bytes \<times> (hyper_error + parsed_head option)) option" where
  "parse_response lib cfg max_headers max_header_size method buf =
     (if buf = [] then Some (buf, Inr None)
      else map_option (\<lambda>(rest, r).
        (rest, case r of
           Inl e \<Rightarrow> Inl (error_of_parse e)
         | Inr None \<Rightarrow> Inr None
         | Inr (Some p) \<Rightarrow>
             Inr (Some \<lparr>ph_status = mh_subject (pm_head p), ph_keep_alive = pm_keep_alive p,
               ph_headers = mh_headers (pm_head p), ph_body = map_body (pm_decode p),
               ph_wants_upgrade = pm_wants_upgrade p,
               ph_http10 = (mh_version (pm_head p) = Http10)\<rparr>)))
        (client_parse lib cfg max_headers max_header_size method buf))"

definition H1_H2_PREFACE :: bytes where
  "H1_H2_PREFACE = ascii ''PRI * HTTP/2.0'' @ crlf @ crlf @ ascii ''SM'' @ crlf @ crlf"

definition has_h2_prefix :: "bytes \<Rightarrow> bool" where
  "has_h2_prefix read_buf \<longleftrightarrow> 24 \<le> length read_buf \<and> take 24 read_buf = H1_H2_PREFACE"

fun server_on_error :: "hyper_error \<Rightarrow> u16 option" where
  "server_on_error (HyperError k _) =
     (case k of
        KindParse p \<Rightarrow>
          (case p of
             ParseMethod \<Rightarrow> Some 400
           | ParseHeader _ \<Rightarrow> Some 400
           | ParseUri \<Rightarrow> Some 400
           | ParseVersion \<Rightarrow> Some 400
           | ParseTooLarge \<Rightarrow> Some 431
           | ParseUriTooLong \<Rightarrow> Some 414
           | _ \<Rightarrow> None)
      | _ \<Rightarrow> None)"

definition server_parse_failure :: "bytes \<Rightarrow> hyper_error \<Rightarrow> hyper_error \<times> u16 option" where
  "server_parse_failure read_buf e =
     (if has_h2_prefix read_buf then (new_version_h2, None) else (e, server_on_error e))"

end
