(* ===== verification/H1_Framing.thy ===== *)
theory H1_Framing
  imports H1_Parse
begin

section \<open>How a received message is framed\<close>

text \<open>
  What a successful \<open>Server::parse\<close> and \<open>Client::parse\<close> say about the fields they read: the body
  framing of RFC 9112 6.3, keep-alive, upgrades, and which fields reach the application. The
  framing decides where the next message starts, so it must be a function of all the fields of the
  message.
\<close>

lemma header_get_all_app [simp]: "header_get_all (p @ q) m = header_get_all p m @ header_get_all q m"
  by (simp add: header_get_all_def)

lemma is_chunked_Nil [simp]: "\<not> is_chunked ts []"
  by (simp add: is_chunked_def)

abbreviation te_lines :: "header_map \<Rightarrow> header_value list" where
  "te_lines p \<equiv> header_get_all p ''transfer-encoding''"
abbreviation cl_lines :: "header_map \<Rightarrow> header_value list" where
  "cl_lines p \<equiv> header_get_all p ''content-length''"
abbreviation conn_lines :: "header_map \<Rightarrow> header_value list" where
  "conn_lines p \<equiv> header_get_all p ''connection''"

subsection \<open>What the fields ask for\<close>

text \<open>A message persists unless a \<open>Connection\<close> line says \<open>close\<close>; HTTP/1.0 must ask for it.\<close>

definition persistent :: "to_str \<Rightarrow> bool \<Rightarrow> header_map \<Rightarrow> bool" where
  "persistent ts is11 p \<longleftrightarrow>
     \<not> list_ex (connection_close ts) (conn_lines p)
     \<and> (is11 \<or> list_ex (connection_keep_alive ts) (conn_lines p))"

text \<open>The lengths all say the same number.\<close>

definition lengths_say :: "header_map \<Rightarrow> u64 \<Rightarrow> bool" where
  "lengths_say p n \<longleftrightarrow> cl_lines p \<noteq> [] \<and> (\<forall>v \<in> set (cl_lines p). content_length_parse v = Some n)"

definition expects_continue :: "header_map \<Rightarrow> bool" where
  "expects_continue p \<longleftrightarrow>
     header_get_all p ''expect'' \<noteq> []
     \<and> ascii_eq_ignore_case (last (header_get_all p ''expect'')) ''100-continue''"

definition asks_upgrade :: "bool \<Rightarrow> bool \<Rightarrow> header_map \<Rightarrow> bool" where
  "asks_upgrade is11 is_connect p \<longleftrightarrow>
     (if header_get_all p ''upgrade'' \<noteq> [] then is11 else is_connect)"

text \<open>The fields that are kept: with a transfer coding no length, else one length line.\<close>

definition kept_fields :: "header_map \<Rightarrow> header_map \<Rightarrow> bool" where
  "kept_fields p h \<longleftrightarrow>
     (\<forall>n. header_get_all h n =
        (if n = ''content-length''
         then if te_lines p \<noteq> [] then [] else take 1 (cl_lines p)
         else header_get_all p n))"

subsection \<open>The server's scan\<close>

text \<open>The scan is five independent readers of the fields; each keeps its own part of the state.\<close>

definition frame_scanned :: "to_str \<Rightarrow> bool \<Rightarrow> header_map \<Rightarrow> server_scan \<Rightarrow> bool" where
  "frame_scanned ts is11 p s \<longleftrightarrow>
     (sc_is_te s \<longleftrightarrow> te_lines p \<noteq> []) \<and> (te_lines p \<noteq> [] \<longrightarrow> is11)
     \<and> (sc_is_cl s \<longleftrightarrow> cl_lines p \<noteq> [])
     \<and> (sc_is_te_chunked s \<longleftrightarrow> is_chunked ts (te_lines p))
     \<and> (is_chunked ts (te_lines p) \<longrightarrow> sc_decoder s = CHUNKED)
     \<and> (te_lines p = [] \<longrightarrow>
          (case sc_con_len s of
             None \<Rightarrow> cl_lines p = [] \<and> sc_decoder s = 0
           | Some n \<Rightarrow> lengths_say p n \<and> sc_decoder s = n \<and> n \<le> MAX_LEN))
     \<and> (te_lines p \<noteq> [] \<longrightarrow> sc_con_len s = None)"

definition conn_scanned :: "to_str \<Rightarrow> bool \<Rightarrow> header_map \<Rightarrow> server_scan \<Rightarrow> bool" where
  "conn_scanned ts is11 p s \<longleftrightarrow>
     (sc_saw_close s \<longleftrightarrow> list_ex (connection_close ts) (conn_lines p))
     \<and> (sc_keep_alive s \<longleftrightarrow> persistent ts is11 p)"

definition flags_scanned :: "bool \<Rightarrow> bool \<Rightarrow> header_map \<Rightarrow> server_scan \<Rightarrow> bool" where
  "flags_scanned is11 conn p s \<longleftrightarrow>
     (sc_expect s \<longleftrightarrow> expects_continue p) \<and> (sc_wants_upgrade s \<longleftrightarrow> asks_upgrade is11 conn p)"

definition scanned :: "to_str \<Rightarrow> bool \<Rightarrow> bool \<Rightarrow> header_map \<Rightarrow> server_scan \<Rightarrow> bool" where
  "scanned ts is11 conn p s \<longleftrightarrow>
     frame_scanned ts is11 p s \<and> conn_scanned ts is11 p s \<and> flags_scanned is11 conn p s
     \<and> kept_fields p (sc_headers s)"

lemma scanned_start: "scanned ts is11 conn [] (server_start is11 conn)"
  by (simp add: scanned_def frame_scanned_def conn_scanned_def flags_scanned_def server_start_def
      is_chunked_def persistent_def expects_continue_def asks_upgrade_def kept_fields_def)

lemma append_field_sel [simp]:
  "sc_keep_alive (append_field n v s) = sc_keep_alive s" "sc_decoder (append_field n v s) = sc_decoder s"
  "sc_expect (append_field n v s) = sc_expect s" "sc_con_len (append_field n v s) = sc_con_len s"
  "sc_is_cl (append_field n v s) = sc_is_cl s" "sc_is_te (append_field n v s) = sc_is_te s"
  "sc_is_te_chunked (append_field n v s) = sc_is_te_chunked s"
  "sc_wants_upgrade (append_field n v s) = sc_wants_upgrade s"
  "sc_saw_close (append_field n v s) = sc_saw_close s"
  "sc_headers (append_field n v s) = header_append n v (sc_headers s)"
  by (simp_all add: append_field_def)

text \<open>A field concerns one reader only.\<close>

lemma server_field_frame_other:
  "server_field ts is11 n v s = Inr s' \<Longrightarrow> n \<noteq> ''transfer-encoding'' \<Longrightarrow> n \<noteq> ''content-length'' \<Longrightarrow>
   sc_is_te s' = sc_is_te s \<and> sc_is_cl s' = sc_is_cl s \<and> sc_is_te_chunked s' = sc_is_te_chunked s
   \<and> sc_decoder s' = sc_decoder s \<and> sc_con_len s' = sc_con_len s"
  unfolding server_field_def by (simp split: if_splits) (auto simp: append_field_def)

lemma server_field_conn_other:
  "server_field ts is11 n v s = Inr s' \<Longrightarrow> n \<noteq> ''connection'' \<Longrightarrow>
   sc_saw_close s' = sc_saw_close s \<and> sc_keep_alive s' = sc_keep_alive s"
  unfolding server_field_def
  by (simp add: Let_def split: if_splits option.splits sum.splits) (auto simp: append_field_def)

lemma server_field_flags_other:
  "server_field ts is11 n v s = Inr s' \<Longrightarrow> n \<noteq> ''expect'' \<Longrightarrow> n \<noteq> ''upgrade'' \<Longrightarrow>
   sc_expect s' = sc_expect s \<and> sc_wants_upgrade s' = sc_wants_upgrade s"
  unfolding server_field_def
  by (simp add: Let_def split: if_splits option.splits sum.splits) (auto simp: append_field_def)

lemma conn_scanned_field:
  assumes "conn_scanned ts is11 p s" and "server_field ts is11 n v s = Inr s'"
  shows "conn_scanned ts is11 (p @ [(n, v)]) s'"
proof (cases "n = ''connection''")
  case True
  then show ?thesis
    using assms unfolding server_field_def conn_scanned_def persistent_def
    by (simp split: if_splits) auto
next
  case False
  then show ?thesis
    using assms server_field_conn_other [OF assms(2) False] by (simp add: conn_scanned_def persistent_def)
qed

lemma flags_scanned_field:
  assumes "flags_scanned is11 conn p s" and "server_field ts is11 n v s = Inr s'"
  shows "flags_scanned is11 conn (p @ [(n, v)]) s'"
proof -
  consider (e) "n = ''expect''" | (u) "n = ''upgrade''" | (other) "n \<noteq> ''expect''" "n \<noteq> ''upgrade''" by blast
  then show ?thesis
  proof cases
    case e
    then have "s' = append_field n v (s\<lparr>sc_expect := ascii_eq_ignore_case v ''100-continue''\<rparr>)"
      using assms(2) by (simp add: server_field_def)
    then show ?thesis using assms(1) e by (simp add: flags_scanned_def expects_continue_def asks_upgrade_def)
  next
    case u
    then have "s' = append_field n v (s\<lparr>sc_wants_upgrade := is11\<rparr>)"
      using assms(2) by (simp add: server_field_def)
    then show ?thesis using assms(1) u by (simp add: flags_scanned_def expects_continue_def asks_upgrade_def)
  next
    case other
    then show ?thesis
      using assms(1) server_field_flags_other [OF assms(2)]
      by (simp add: flags_scanned_def expects_continue_def asks_upgrade_def)
  qed
qed

lemma lengths_say_snoc:
  "lengths_say (p @ [(''content-length'', v)]) n \<longleftrightarrow>
     content_length_parse v = Some n \<and> (cl_lines p = [] \<or> lengths_say p n)"
  by (auto simp: lengths_say_def)

lemma frame_scanned_field:
  assumes "frame_scanned ts is11 p s" and "server_field ts is11 n v s = Inr s'"
  shows "frame_scanned ts is11 (p @ [(n, v)]) s'"
proof (cases "n = ''transfer-encoding'' \<or> n = ''content-length''")
  case False
  then show ?thesis
    using assms server_field_frame_other [OF assms(2)]
    by (cases "sc_con_len s") (auto simp: frame_scanned_def lengths_say_def is_chunked_def)
next
  case True
  then show ?thesis
  proof
    assume n: "n = ''transfer-encoding''"
    then have "is11" "sc_is_te s'" "sc_is_cl s' = sc_is_cl s"
      "sc_is_te_chunked s' = is_chunked_line ts v" "is_chunked_line ts v \<longrightarrow> sc_decoder s' = CHUNKED"
      "sc_con_len s' = (if sc_is_cl s then None else sc_con_len s)"
      using assms(2) by (auto simp: server_field_def Let_def split: if_splits)
    moreover have "sc_is_cl s \<longleftrightarrow> cl_lines p \<noteq> []" "sc_con_len s \<noteq> None \<Longrightarrow> sc_is_cl s"
      using assms(1) by (auto simp: frame_scanned_def lengths_say_def split: option.splits)
    ultimately have "is11" "sc_is_te s'" "sc_is_cl s' \<longleftrightarrow> cl_lines p \<noteq> []" "sc_con_len s' = None"
      "sc_is_te_chunked s' = is_chunked_line ts v" "is_chunked_line ts v \<longrightarrow> sc_decoder s' = CHUNKED"
      by auto
    then show ?thesis by (simp add: n frame_scanned_def is_chunked_def)
  next
    assume n: "n = ''content-length''"
    have cl: "te_lines (p @ [(n, v)]) = te_lines p" using n by simp
    show ?thesis
    proof (cases "te_lines p = []")
      case False
      then have "s' = s\<lparr>sc_is_cl := True\<rparr>"
        using assms n by (simp add: server_field_def Let_def frame_scanned_def)
      then show ?thesis using assms(1) n False by (simp add: frame_scanned_def)
    next
      case True
      then have te: "\<not> sc_is_te s" using assms(1) by (simp add: frame_scanned_def)
      obtain len where len: "content_length_parse v = Some len"
        using assms(2) n te by (auto simp: server_field_def Let_def split: option.splits)
      show ?thesis
      proof (cases "sc_con_len s")
        case None
        then obtain d where d: "checked_new len = Inr d"
          and s': "s' = append_field n v (s\<lparr>sc_is_cl := True, sc_decoder := d, sc_con_len := Some len\<rparr>)"
          using assms(2) n te len by (auto simp: server_field_def Let_def split: sum.splits)
        have "d = len" "len \<le> MAX_LEN" using d by (auto simp: checked_new_def split: if_splits)
        then show ?thesis
          using assms(1) n True None s' len by (simp add: frame_scanned_def lengths_say_snoc)
      next
        case (Some prev)
        then have "prev = len" "s' = s\<lparr>sc_is_cl := True\<rparr>"
          using assms(2) n te len by (auto simp: server_field_def Let_def split: if_splits)
        then show ?thesis
          using assms(1) n True Some len by (simp add: frame_scanned_def lengths_say_snoc)
      qed
    qed
  qed
qed

lemma kept_fields_field:
  assumes "kept_fields p (sc_headers s)" and "frame_scanned ts is11 p s"
    and "server_field ts is11 n v s = Inr s'"
  shows "kept_fields (p @ [(n, v)]) (sc_headers s')"
proof -
  consider (te) "n = ''transfer-encoding''" | (cl) "n = ''content-length''"
    | (other) "n \<noteq> ''transfer-encoding''" "n \<noteq> ''content-length''" by blast
  then show ?thesis
  proof cases
    case te
    have "sc_headers s' = header_append n v
        (if sc_is_cl s \<and> sc_con_len s \<noteq> None then header_remove ''content-length'' (sc_headers s)
         else sc_headers s)"
      using assms(3) te by (auto simp: server_field_def Let_def split: if_splits)
    then show ?thesis
      using assms(1,2) te
      by (auto simp: kept_fields_def frame_scanned_def lengths_say_def split: option.splits)
  next
    case cl
    have "sc_headers s' = (if sc_is_te s \<or> sc_con_len s \<noteq> None then sc_headers s
         else header_append n v (sc_headers s))"
      using assms(3) cl by (auto simp: server_field_def Let_def split: if_splits option.splits sum.splits)
    then show ?thesis
      using assms(1,2) cl
      by (auto simp: kept_fields_def frame_scanned_def lengths_say_def neq_Nil_conv split: option.splits)
  next
    case other
    then have "sc_headers s' = header_append n v (sc_headers s)"
      using assms(3) by (auto simp: server_field_def split: if_splits)
    then show ?thesis using assms(1) other by (simp add: kept_fields_def)
  qed
qed

lemma scanned_field:
  "scanned ts is11 conn p s \<Longrightarrow> server_field ts is11 n v s = Inr s' \<Longrightarrow>
   scanned ts is11 conn (p @ [(n, v)]) s'"
  unfolding scanned_def
  by (blast intro: frame_scanned_field conn_scanned_field flags_scanned_field kept_fields_field)

definition named_fields :: "h1_lib \<Rightarrow> raw_field list \<Rightarrow> header_map" where
  "named_fields lib raw = map (\<lambda>(n, v). (the (hp_name lib n), v)) raw"

lemma scanned_fields:
  "scanned (hp_to_str lib) is11 conn p s \<Longrightarrow> server_fields lib is11 raw s = Inr s' \<Longrightarrow>
   scanned (hp_to_str lib) is11 conn (p @ named_fields lib raw) s'"
proof (induction raw arbitrary: p s)
  case (Cons h raw)
  obtain rn v where h: "h = (rn, v)" by fastforce
  then obtain n s1 where n: "hp_name lib rn = Some n"
    and s1: "server_field (hp_to_str lib) is11 n v s = Inr s1" "server_fields lib is11 raw s1 = Inr s'"
    using Cons.prems(2) by (auto split: option.splits sum.splits)
  then have "scanned (hp_to_str lib) is11 conn ((p @ [(n, v)]) @ named_fields lib raw) s'"
    using Cons.IH scanned_field [OF Cons.prems(1)] by blast
  then show ?case using h n by (simp add: named_fields_def)
qed (simp add: named_fields_def)

text \<open>The message a server takes from the fields of a request.\<close>

definition framed_as :: "to_str \<Rightarrow> http_version \<Rightarrow> header_map \<Rightarrow> decoded_length \<Rightarrow> bool" where
  "framed_as ts version p d \<longleftrightarrow>
     (if te_lines p \<noteq> [] then version = Http11 \<and> is_chunked ts (te_lines p) \<and> d = CHUNKED
      else if cl_lines p \<noteq> [] then lengths_say p d \<and> d \<le> MAX_LEN
      else d = 0)"

lemma server_message_framing:
  fixes lib version subject raw
  defines "p \<equiv> named_fields lib raw" and "ts \<equiv> hp_to_str lib"
  assumes "server_message lib version subject raw = Inr m"
  shows "framed_as ts version p (pm_decode m)"
    and "pm_keep_alive m \<longleftrightarrow>
       persistent ts (version = Http11) p \<and> \<not> (te_lines p \<noteq> [] \<and> cl_lines p \<noteq> [])"
    and "pm_expect_continue m \<longleftrightarrow> expects_continue p"
    and "pm_wants_upgrade m \<longleftrightarrow> asks_upgrade (version = Http11) (fst subject = ''CONNECT'') p"
    and "kept_fields p (mh_headers (pm_head m))"
    and "mh_version (pm_head m) = version" and "mh_subject (pm_head m) = subject"
proof -
  obtain s where s: "server_fields lib (version = Http11) raw
        (server_start (version = Http11) (fst subject = ''CONNECT'')) = Inr s"
    and ok: "\<not> (sc_is_te s \<and> \<not> sc_is_te_chunked s)"
    and m: "m = \<lparr>pm_head = \<lparr>mh_version = version, mh_subject = subject, mh_headers = sc_headers s\<rparr>,
                 pm_decode = sc_decoder s, pm_expect_continue = sc_expect s,
                 pm_keep_alive = (if sc_is_te s \<and> sc_is_cl s then False else sc_keep_alive s),
                 pm_wants_upgrade = sc_wants_upgrade s\<rparr>"
    using assms(3) by (auto simp: server_message_def split: sum.splits if_splits)
  have sc: "scanned ts (version = Http11) (fst subject = ''CONNECT'') p s"
    using scanned_fields [OF scanned_start s] by (simp add: p_def ts_def)
  then have fr: "frame_scanned ts (version = Http11) p s" and cn: "conn_scanned ts (version = Http11) p s"
    and fl: "flags_scanned (version = Http11) (fst subject = ''CONNECT'') p s"
    and kf: "kept_fields p (sc_headers s)"
    by (simp_all add: scanned_def)
  show "framed_as ts version p (pm_decode m)"
    using fr m ok by (auto simp: framed_as_def frame_scanned_def lengths_say_def split: option.splits)
  show "pm_keep_alive m \<longleftrightarrow>
       persistent ts (version = Http11) p \<and> \<not> (te_lines p \<noteq> [] \<and> cl_lines p \<noteq> [])"
    using fr cn m by (auto simp: frame_scanned_def conn_scanned_def)
  show "pm_expect_continue m \<longleftrightarrow> expects_continue p"
    and "pm_wants_upgrade m \<longleftrightarrow> asks_upgrade (version = Http11) (fst subject = ''CONNECT'') p"
    using fl m by (simp_all add: flags_scanned_def)
  show "kept_fields p (mh_headers (pm_head m))" and "mh_version (pm_head m) = version"
    and "mh_subject (pm_head m) = subject"
    using kf m by simp_all
qed

subsection \<open>The client\<close>

lemma client_fields_headers:
  "client_fields lib raw s = Inr s' \<Longrightarrow>
   header_get_all (cs_headers s') n = header_get_all (cs_headers s) n @ header_get_all (named_fields lib raw) n"
proof (induction raw arbitrary: s)
  case (Cons h raw)
  then show ?case
    by (cases h) (auto simp: client_field_def named_fields_def Let_def split: option.splits)
qed (simp add: named_fields_def)

text \<open>The loop over interim heads ends.\<close>

lemma client_parse_returns:
  assumes "\<And>cfg n b len parts. hp_response lib cfg n b = Inr (HpComplete len parts) \<Longrightarrow> 0 < len"
  shows "\<exists>r. client_parse lib cfg mh mhs method buf = Some r"
proof (induction "length buf" arbitrary: buf rule: less_induct)
  case less
  show ?case
  proof (cases "hp_response lib cfg (max_headers_or_default mh) buf")
    case (Inr st)
    show ?thesis
    proof (cases st)
      case (HpComplete len parts)
      have "0 < len" using assms Inr HpComplete by blast
      then have "drop len buf \<noteq> [] \<Longrightarrow> length (drop len buf) < length buf" by simp
      then have rec: "drop len buf \<noteq> [] \<Longrightarrow> \<exists>r. client_parse lib cfg mh mhs method (drop len buf) = Some r"
        using less.hyps by blast
      then show ?thesis
        using Inr HpComplete
        by (subst client_parse.simps) (auto split: sum.split option.split)
    qed (use Inr in \<open>subst client_parse.simps, simp\<close>)
  qed (subst client_parse.simps, simp)
qed

end
