(* ===== verification/H1_Head_Encode.thy ===== *)
theory H1_Head_Encode
  imports H1_Parse
begin

section \<open>Writing a message head\<close>

text \<open>
  crates/vendor-hyper/src/proto/h1/role.rs, \<open>Server::encode\<close> with \<open>encode_headers\<close>, and
  \<open>Client::encode\<close> with \<open>set_length\<close>; the facade's \<open>enforce_version\<close>, \<open>encode_response\<close> and
  \<open>encode_request\<close> (proto/h1/httpunk.rs). A head is bytes and the body encoder that goes with it.

  Arguments: the reason phrases of the crate http (\<open>canonical_reason\<close>) and the 29 bytes of the
  current date. No message carries a \<open>HeaderCaseMap\<close> or a \<open>ReasonPhrase\<close>, so a name is written
  in lower case or in title case (\<open>casing\<close>). Debug assertions are off.
\<close>

subsection \<open>Messages to write\<close>

datatype body_length = LengthKnown u64 | LengthUnknown

record 's encode =
  ec_head :: "'s message_head"
  ec_body :: "body_length option"
  ec_keep_alive :: bool
  ec_req_method :: "string option"
  ec_title_case_headers :: bool
  ec_date_header :: bool

definition is_success :: "u16 \<Rightarrow> bool" where "is_success status \<longleftrightarrow> 200 \<le> status \<and> status < 300"
definition is_informational :: "u16 \<Rightarrow> bool" where
  "is_informational status \<longleftrightarrow> 100 \<le> status \<and> status < 200"

definition can_chunked :: "string option \<Rightarrow> u16 \<Rightarrow> bool" where
  "can_chunked method status =
     (if method = Some ''HEAD'' \<or> (method = Some ''CONNECT'' \<and> is_success status)
         \<or> is_informational status then False
      else \<not> (status = 204 \<or> status = 304))"

definition can_have_body :: "string option \<Rightarrow> u16 \<Rightarrow> bool" where
  "can_have_body method status = can_chunked method status"

definition can_have_content_length :: "string option \<Rightarrow> u16 \<Rightarrow> bool" where
  "can_have_content_length method status =
     (if is_informational status \<or> (method = Some ''CONNECT'' \<and> is_success status) then False
      else \<not> (status = 204 \<or> status = 304))"

definition can_have_implicit_zero_content_length :: "string option \<Rightarrow> u16 \<Rightarrow> bool" where
  "can_have_implicit_zero_content_length method status \<longleftrightarrow>
     can_have_content_length method status \<and> method \<noteq> Some ''HEAD''"

definition casing :: "bool \<Rightarrow> bytes \<Rightarrow> bytes" where
  "casing title n = (if title then title_case n else n)"

text \<open>\<open>HeaderName::from_bytes\<close> on the comma-separated names of a \<open>Trailer\<close> line.\<close>

definition trailer_names :: "h1_lib \<Rightarrow> string \<Rightarrow> header_name list" where
  "trailer_names lib line =
     List.map_filter (\<lambda>tok. hp_name lib (ascii (trim tok))) (split_on (CHR '','') line)"

subsection \<open>\<open>encode_headers\<close>: the loop over the fields\<close>

record head_scan =
  hs_dst :: bytes
  hs_is_last :: bool
  hs_wrote_len :: bool
  hs_encoder :: h1_encoder
  hs_allowed_trailer_fields :: "header_name list option"
  hs_wrote_date :: bool
  hs_cur_name :: "header_name option"
  hs_is_name_written :: bool
  hs_must_write_chunked :: bool
  hs_prev_con_len :: "u64 option"

definition hs_extend :: "bytes \<Rightarrow> head_scan \<Rightarrow> head_scan" where
  "hs_extend b s = s\<lparr>hs_dst := hs_dst s @ b\<rparr>"

text \<open>A name with its colon and the first value, the line left open; a further value behind it.\<close>

definition open_line :: "bool \<Rightarrow> header_name \<Rightarrow> header_value \<Rightarrow> head_scan \<Rightarrow> head_scan" where
  "open_line title n v s =
     (hs_extend (casing title (ascii n) @ ascii '': '' @ v) s)\<lparr>hs_is_name_written := True\<rparr>"

definition join_line :: "bool \<Rightarrow> header_name \<Rightarrow> header_value \<Rightarrow> head_scan \<Rightarrow> head_scan" where
  "join_line title n v s =
     (if \<not> hs_is_name_written s then open_line title n v s else hs_extend (ascii '', '' @ v) s)"

definition handle_is_name_written :: "head_scan \<Rightarrow> head_scan" where
  "handle_is_name_written s =
     (if hs_is_name_written s
      then if hs_must_write_chunked s then hs_extend (ascii '', chunked'' @ crlf) s else hs_extend crlf s
      else s)"

definition write_line :: "bool \<Rightarrow> header_name \<Rightarrow> header_value \<Rightarrow> head_scan \<Rightarrow> head_scan" where
  "write_line title n v s = hs_extend (header_line (casing title) (n, v)) s"

definition encode_content_length ::
  "u16 encode \<Rightarrow> header_value \<Rightarrow> head_scan \<Rightarrow> hyper_error + head_scan" where
  "encode_content_length msg v s =
     (let title = ec_title_case_headers msg in
      if hs_wrote_len s \<and> \<not> hs_is_name_written s then Inl new_user_header
      else case ec_body msg of
        Some (LengthKnown known_len) \<Rightarrow>
          if \<not> hs_is_name_written s
          then Inr (open_line title ''content-length'' v
                 (s\<lparr>hs_encoder := encoder_length known_len, hs_wrote_len := True\<rparr>))
          else Inr s
      | Some LengthUnknown \<Rightarrow>
          (case content_length_parse v of
             None \<Rightarrow> Inl new_user_header
           | Some len \<Rightarrow>
               (case hs_prev_con_len s of
                  Some prev \<Rightarrow> if prev \<noteq> len then Inl new_user_header else Inr s
                | None \<Rightarrow>
                    Inr (open_line title ''content-length'' v
                      (s\<lparr>hs_encoder := encoder_length len, hs_wrote_len := True,
                         hs_prev_con_len := Some len\<rparr>))))
      | None \<Rightarrow>
          if ec_req_method msg = Some ''HEAD''
          then Inr (write_line title ''content-length'' v (s\<lparr>hs_wrote_len := True\<rparr>))
          else Inr s)"

definition head_can_chunk :: "u16 encode \<Rightarrow> bool" where
  "head_can_chunk msg \<longleftrightarrow>
     \<not> (mh_version (ec_head msg) = Http10
        \<or> \<not> can_chunked (ec_req_method msg) (mh_subject (ec_head msg)))"

definition encode_transfer_encoding ::
  "h1_lib \<Rightarrow> u16 encode \<Rightarrow> header_value \<Rightarrow> head_scan \<Rightarrow> hyper_error + head_scan" where
  "encode_transfer_encoding lib msg v s =
     (if hs_wrote_len s \<and> \<not> hs_is_name_written s then Inl new_user_header
      else if \<not> head_can_chunk msg then Inr s
      else
        let s1 = s\<lparr>hs_wrote_len := True, hs_must_write_chunked := \<not> is_chunked_line (hp_to_str lib) v\<rparr>
        in if \<not> hs_is_name_written s1
           then Inr (open_line (ec_title_case_headers msg) ''transfer-encoding'' v
                  (s1\<lparr>hs_encoder := encoder_chunked\<rparr>))
           else Inr (hs_extend (ascii '', '' @ v) s1))"

definition encode_connection :: "h1_lib \<Rightarrow> u16 encode \<Rightarrow> header_value \<Rightarrow> head_scan \<Rightarrow> head_scan" where
  "encode_connection lib msg v s =
     join_line (ec_title_case_headers msg) ''connection'' v
       (if \<not> hs_is_last s \<and> connection_close (hp_to_str lib) v then s\<lparr>hs_is_last := True\<rparr> else s)"

definition encode_trailer :: "h1_lib \<Rightarrow> u16 encode \<Rightarrow> header_value \<Rightarrow> head_scan \<Rightarrow> head_scan" where
  "encode_trailer lib msg v s =
     (if \<not> head_can_chunk msg then s
      else
        let s1 = join_line (ec_title_case_headers msg) ''trailer'' v s
        in case hp_to_str lib v of
             None \<Rightarrow> s1
           | Some line \<Rightarrow>
               let names = trailer_names lib line
               in s1\<lparr>hs_allowed_trailer_fields :=
                       (case hs_allowed_trailer_fields s1 of
                          Some flds \<Rightarrow> Some (flds @ names)
                        | None \<Rightarrow> Some names)\<rparr>)"

definition encode_field ::
  "h1_lib \<Rightarrow> u16 encode \<Rightarrow> header_name \<Rightarrow> header_value \<Rightarrow> head_scan \<Rightarrow> hyper_error + head_scan" where
  "encode_field lib msg n v s =
     (let title = ec_title_case_headers msg in
      if n = ''content-length'' then encode_content_length msg v s
      else if n = ''transfer-encoding'' then encode_transfer_encoding lib msg v s
      else if n = ''connection'' then Inr (encode_connection lib msg v s)
      else if n = ''date'' then Inr (write_line title n v (s\<lparr>hs_wrote_date := True\<rparr>))
      else if n = ''trailer'' then Inr (encode_trailer lib msg v s)
      else Inr (write_line title n v s))"

text \<open>A new name closes the open line. \<open>None\<close>: the \<open>expect\<close> on the current name.\<close>

definition next_name :: "header_name option \<Rightarrow> head_scan \<Rightarrow> head_scan" where
  "next_name opt_name s =
     (case opt_name of
        Some n \<Rightarrow> (handle_is_name_written (s\<lparr>hs_cur_name := Some n\<rparr>))\<lparr>hs_is_name_written := False\<rparr>
      | None \<Rightarrow> s)"

fun encode_fields ::
  "h1_lib \<Rightarrow> u16 encode \<Rightarrow> (header_name option \<times> header_value) list \<Rightarrow> head_scan
   \<Rightarrow> (hyper_error + head_scan) option" where
  "encode_fields lib msg [] s = Some (Inr s)"
| "encode_fields lib msg ((opt_name, v) # fs) s =
     (let s1 = next_name opt_name s
      in case hs_cur_name s1 of
           None \<Rightarrow> None
         | Some n \<Rightarrow>
             (case encode_field lib msg n v s1 of
                Inl e \<Rightarrow> Some (Inl e)
              | Inr s2 \<Rightarrow> encode_fields lib msg fs s2))"

subsection \<open>\<open>encode_headers\<close>: the framing the fields left open\<close>

definition default_length :: "u16 encode \<Rightarrow> head_scan \<Rightarrow> head_scan" where
  "default_length msg s =
     (let title = ec_title_case_headers msg; method = ec_req_method msg;
          status = mh_subject (ec_head msg)
      in case ec_body msg of
           Some LengthUnknown \<Rightarrow>
             if \<not> head_can_chunk msg then s\<lparr>hs_encoder := encoder_close_delimited\<rparr>
             else (write_line title ''transfer-encoding'' (ascii ''chunked'') s)
                    \<lparr>hs_encoder := encoder_chunked\<rparr>
         | Some (LengthKnown len) \<Rightarrow>
             if len = 0 then
               (if can_have_implicit_zero_content_length method status
                then write_line title ''content-length'' (ascii ''0'') s else s)
                 \<lparr>hs_encoder := encoder_length 0\<rparr>
             else if \<not> can_have_content_length method status then s\<lparr>hs_encoder := encoder_length 0\<rparr>
             else (write_line title ''content-length'' (ascii (show_nat len)) s)
                    \<lparr>hs_encoder := encoder_length len\<rparr>
         | None \<Rightarrow>
             (if can_have_implicit_zero_content_length method status
              then write_line title ''content-length'' (ascii ''0'') s else s)
               \<lparr>hs_encoder := encoder_length 0\<rparr>)"

definition close_head :: "u16 encode \<Rightarrow> bytes \<Rightarrow> head_scan \<Rightarrow> bytes \<times> h1_encoder" where
  "close_head msg date s =
     (let s1 = (if \<not> hs_wrote_date s \<and> ec_date_header msg
                then hs_extend (casing (ec_title_case_headers msg) (ascii ''date'') @ ascii '': '' @ date
                       @ crlf @ crlf) s
                else hs_extend crlf s);
          encoder = (if encoder_is_chunked (hs_encoder s1)
                     then (case hs_allowed_trailer_fields s1 of
                             Some flds \<Rightarrow> into_chunked_with_trailing_fields flds (hs_encoder s1)
                           | None \<Rightarrow> hs_encoder s1)
                     else hs_encoder s1)
      in (hs_dst s1, set_last (hs_is_last s1) encoder))"

definition finish_head :: "u16 encode \<Rightarrow> bytes \<Rightarrow> head_scan \<Rightarrow> bytes \<times> h1_encoder" where
  "finish_head msg date s =
     (let s1 = handle_is_name_written s;
          s2 = (if \<not> hs_wrote_len s1 then default_length msg s1 else s1)
      in close_head msg date
           (if \<not> can_have_body (ec_req_method msg) (mh_subject (ec_head msg))
            then s2\<lparr>hs_encoder := encoder_length 0\<rparr> else s2))"

definition head_start :: "bytes \<Rightarrow> bool \<Rightarrow> bool \<Rightarrow> head_scan" where
  "head_start dst is_last wrote_len =
     \<lparr>hs_dst = dst, hs_is_last = is_last, hs_wrote_len = wrote_len, hs_encoder = encoder_length 0,
      hs_allowed_trailer_fields = None, hs_wrote_date = False, hs_cur_name = None,
      hs_is_name_written = False, hs_must_write_chunked = False, hs_prev_con_len = None\<rparr>"

definition encode_headers ::
  "h1_lib \<Rightarrow> u16 encode \<Rightarrow> bytes \<Rightarrow> bytes \<Rightarrow> bool \<Rightarrow> usize \<Rightarrow> bool
   \<Rightarrow> (bytes \<times> (hyper_error + h1_encoder)) option" where
  "encode_headers lib msg date dst is_last orig_len wrote_len =
     (case encode_fields lib msg (header_drain (mh_headers (ec_head msg)))
             (head_start dst is_last wrote_len) of
        None \<Rightarrow> None
      | Some (Inl e) \<Rightarrow> Some (take orig_len dst, Inl e)
      | Some (Inr s) \<Rightarrow> (case finish_head msg date s of (dst', encoder) \<Rightarrow> Some (dst', Inr encoder)))"

subsection \<open>\<open>Server::encode\<close>\<close>

definition status_line :: "(u16 \<Rightarrow> string option) \<Rightarrow> http_version \<Rightarrow> u16 \<Rightarrow> bytes" where
  "status_line canonical_reason version status =
     (if version = Http11 \<and> status = 200 then ascii ''HTTP/1.1 200 OK'' @ crlf
      else ascii (case version of Http10 \<Rightarrow> ''HTTP/1.0 '' | Http11 \<Rightarrow> ''HTTP/1.1 '')
           @ ascii (show_nat status) @ ascii '' ''
           @ ascii (case canonical_reason status of Some r \<Rightarrow> r | None \<Rightarrow> ''<none>'') @ crlf)"

text \<open>An interim status is answered 500 on the wire and reported as an error.\<close>

definition server_encode ::
  "h1_lib \<Rightarrow> (u16 \<Rightarrow> string option) \<Rightarrow> bytes \<Rightarrow> u16 encode \<Rightarrow> bytes
   \<Rightarrow> (bytes \<times> (hyper_error + h1_encoder)) option" where
  "server_encode lib canonical_reason date msg dst =
     (let status = mh_subject (ec_head msg);
          (msg', wrote_len, ret, is_last) =
            (if status = 101 then (msg, False, Inr (), True)
             else if ec_req_method msg = Some ''CONNECT'' \<and> is_success status
             then (msg, True, Inr (), True)
             else if is_informational status
             then (msg\<lparr>ec_head := \<lparr>mh_version = Http11, mh_subject = 500, mh_headers = []\<rparr>, ec_body := None\<rparr>,
                   False, Inl new_user_unsupported_status_code, True)
             else (msg, False, Inr (), \<not> ec_keep_alive msg));
          orig_len = length dst;
          dst1 = dst @ status_line canonical_reason (mh_version (ec_head msg')) (mh_subject (ec_head msg'))
      in case encode_headers lib msg' date dst1 is_last orig_len wrote_len of
           None \<Rightarrow> None
         | Some (dst2, Inl e) \<Rightarrow> Some (dst2, Inl e)
         | Some (dst2, Inr encoder) \<Rightarrow>
             Some (dst2, case ret of Inr _ \<Rightarrow> Inr encoder | Inl e \<Rightarrow> Inl e))"

subsection \<open>\<open>Client::encode\<close>\<close>

definition set_content_length :: "u64 \<Rightarrow> header_map \<Rightarrow> header_map \<times> h1_encoder" where
  "set_content_length len flds =
     (header_insert ''content-length'' (ascii (show_nat len)) flds, encoder_length len)"

definition request_trailer_names :: "h1_lib \<Rightarrow> header_map \<Rightarrow> header_name list" where
  "request_trailer_names lib flds =
     concat (map (trailer_names lib) (List.map_filter (hp_to_str lib) (header_get_all flds ''trailer'')))"

text \<open>The body encoder the fields and the body ask for, with the fields as they are sent.\<close>

definition set_length ::
  "h1_lib \<Rightarrow> http_version \<Rightarrow> string \<Rightarrow> header_map \<Rightarrow> body_length option \<Rightarrow> header_map \<times> h1_encoder"
where
  "set_length lib version method flds body =
     (case body of
        None \<Rightarrow> (header_remove ''transfer-encoding'' flds, encoder_length 0)
      | Some body \<Rightarrow>
          let existing_con_len = content_length_parse_all (hp_to_str lib) flds
          in if version \<noteq> Http11 then
               let flds1 = header_remove ''transfer-encoding'' flds
               in (case existing_con_len of
                     Some len \<Rightarrow> (flds1, encoder_length len)
                   | None \<Rightarrow>
                       (case body of
                          LengthKnown len \<Rightarrow> set_content_length len flds1
                        | LengthUnknown \<Rightarrow> (flds1, encoder_length 0)))
             else
               let (flds1, encoder, should_remove_con_len) =
                     (if header_contains flds ''transfer-encoding'' then
                        (if transfer_encoding_is_chunked (hp_to_str lib) flds
                         then (flds, Some encoder_chunked, True)
                         else (add_chunked flds, Some encoder_chunked, True))
                      else case existing_con_len of
                        Some len \<Rightarrow> (flds, Some (encoder_length len), False)
                      | None \<Rightarrow>
                          (case body of
                             LengthUnknown \<Rightarrow>
                               if method = ''GET'' \<or> method = ''HEAD'' \<or> method = ''CONNECT''
                               then (flds, Some (encoder_length 0), False)
                               else (header_insert ''transfer-encoding'' (ascii ''chunked'') flds,
                                     Some encoder_chunked, True)
                           | LengthKnown _ \<Rightarrow> (flds, None, False)));
                   encoder1 = map_option (\<lambda>enc.
                     if encoder_is_chunked enc \<and> request_trailer_names lib flds1 \<noteq> []
                     then into_chunked_with_trailing_fields (request_trailer_names lib flds1) enc
                     else enc) encoder
               in (case encoder1 of
                     Some enc \<Rightarrow>
                       (if should_remove_con_len then header_remove ''content-length'' flds1 else flds1, enc)
                   | None \<Rightarrow>
                       (case body of
                          LengthKnown len \<Rightarrow> set_content_length len flds1
                        | LengthUnknown \<Rightarrow> (flds1, encoder_length 0))))"

definition client_encode ::
  "h1_lib \<Rightarrow> request_line encode \<Rightarrow> bytes \<Rightarrow> bytes \<times> h1_encoder" where
  "client_encode lib msg dst =
     (let head = ec_head msg;
          (flds, encoder) = set_length lib (mh_version head) (fst (mh_subject head)) (mh_headers head) (ec_body msg)
      in (dst @ ascii (fst (mh_subject head)) @ ascii '' '' @ ascii (snd (mh_subject head)) @ ascii '' ''
            @ ascii (case mh_version head of Http10 \<Rightarrow> ''HTTP/1.0'' | Http11 \<Rightarrow> ''HTTP/1.1'') @ crlf
            @ (if ec_title_case_headers msg then write_headers_title_case flds else write_headers flds)
            @ crlf, encoder))"

subsection \<open>The facade\<close>

definition enforce_version ::
  "to_str \<Rightarrow> bool \<Rightarrow> bool \<Rightarrow> 's message_head \<Rightarrow> 's message_head" where
  "enforce_version ts remote_http10 wants_keep_alive head =
     (let flds = mh_headers head; lines = header_get_all flds ''connection''
      in if remote_http10 then
           head\<lparr>mh_headers :=
                  (if \<not> list_ex (connection_keep_alive ts) lines \<and> wants_keep_alive
                   then header_append ''connection'' (ascii ''keep-alive'') flds else flds),
                mh_version := Http10\<rparr>
         else if \<not> wants_keep_alive then
           head\<lparr>mh_headers :=
                  (if \<not> list_ex (connection_close ts) lines
                   then header_append ''connection'' (ascii ''close'') flds else flds)\<rparr>
         else head)"

definition body_len :: "u64 option option \<Rightarrow> body_length option" where
  "body_len body = map_option (\<lambda>n. case n of Some n \<Rightarrow> LengthKnown n | None \<Rightarrow> LengthUnknown) body"

definition encode_request ::
  "h1_lib \<Rightarrow> string \<Rightarrow> string \<Rightarrow> header_map \<Rightarrow> u64 option option \<Rightarrow> bool \<Rightarrow> bool \<Rightarrow> bytes \<times> h1_encoder"
where
  "encode_request lib method uri flds body http10 title =
     (let wants_keep_alive = \<not> connection_any_close (hp_to_str lib) flds;
          head = enforce_version (hp_to_str lib) http10 wants_keep_alive
                   \<lparr>mh_version = Http11, mh_subject = (method, uri), mh_headers = flds\<rparr>
      in client_encode lib
           \<lparr>ec_head = head, ec_body = body_len body, ec_keep_alive = True, ec_req_method = None,
            ec_title_case_headers = title, ec_date_header = False\<rparr> [])"

definition encode_response ::
  "h1_lib \<Rightarrow> (u16 \<Rightarrow> string option) \<Rightarrow> bytes \<Rightarrow> u16 \<Rightarrow> header_map \<Rightarrow> u64 option option \<Rightarrow> string option
   \<Rightarrow> bool \<Rightarrow> bool \<Rightarrow> bool \<Rightarrow> bool \<Rightarrow> (bytes \<times> (hyper_error + h1_encoder)) option" where
  "encode_response lib canonical_reason date status flds body req_method keep_alive http10 title date_header =
     server_encode lib canonical_reason date
       \<lparr>ec_head = enforce_version (hp_to_str lib) http10 keep_alive
                    \<lparr>mh_version = Http11, mh_subject = status, mh_headers = flds\<rparr>,
        ec_body = body_len body, ec_keep_alive = keep_alive, ec_req_method = req_method,
        ec_title_case_headers = title, ec_date_header = date_header\<rparr> []"

end
