(* ===== verification/H1_Head_Framing.thy ===== *)
theory H1_Head_Framing
  imports H1_Head_Encode H1_Framing
begin

section \<open>How a written message is framed\<close>

text \<open>
  A head written by \<open>Server::encode\<close> is its status line, whole header lines and an empty line, and
  the body encoder returned with it does what those lines say. A request's fields after
  \<open>set_length\<close> are read back by this program's own server as the framing its encoder writes.
\<close>

subsection \<open>Whole lines\<close>

definition open_bytes :: "bool \<Rightarrow> header_name \<times> header_value \<Rightarrow> bytes" where
  "open_bytes title l = casing title (ascii (fst l)) @ ascii '': '' @ snd l"

definition lines_bytes :: "bool \<Rightarrow> header_map \<Rightarrow> bytes" where
  "lines_bytes title ls = concat (map (header_line (casing title)) ls)"

lemma lines_bytes_simps [simp]:
  "lines_bytes title [] = []"
  "lines_bytes title (ls @ [l]) = lines_bytes title ls @ open_bytes title l @ crlf"
  by (simp_all add: lines_bytes_def open_bytes_def header_line_def)

text \<open>The names whose values share a line.\<close>

definition joins :: "u16 encode \<Rightarrow> header_name \<Rightarrow> bool" where
  "joins msg n \<longleftrightarrow> n = ''transfer-encoding'' \<or> n = ''connection'' \<or> n = ''trailer''
     \<or> (n = ''content-length'' \<and> ec_body msg \<noteq> None)"

definition head_shape :: "u16 encode \<Rightarrow> bytes \<Rightarrow> header_map \<Rightarrow> head_scan \<Rightarrow> bool" where
  "head_shape msg pre ls s \<longleftrightarrow>
     (if hs_is_name_written s
      then \<exists>ls0 n v. ls = ls0 @ [(n, v)] \<and> hs_cur_name s = Some n \<and> joins msg n
             \<and> hs_dst s = pre @ lines_bytes (ec_title_case_headers msg) ls0
                          @ open_bytes (ec_title_case_headers msg) (n, v)
      else hs_dst s = pre @ lines_bytes (ec_title_case_headers msg) ls)"

subsection \<open>What the lines say\<close>

definition length_line_says :: "u16 encode \<Rightarrow> header_map \<Rightarrow> h1_encoder \<Rightarrow> bool" where
  "length_line_says msg ls e \<longleftrightarrow>
     (\<forall>v. cl_lines ls = [v] \<longrightarrow>
        (case ec_body msg of
           None \<Rightarrow> en_kind e = EncLength 0
         | Some (LengthKnown n) \<Rightarrow> en_kind e = EncLength n
         | Some LengthUnknown \<Rightarrow> \<exists>n. content_length_parse v = Some n \<and> en_kind e = EncLength n))"

definition head_frames :: "u16 encode \<Rightarrow> bool \<Rightarrow> header_map \<Rightarrow> head_scan \<Rightarrow> bool" where
  "head_frames msg wl ls s \<longleftrightarrow>
     (te_lines ls = [] \<or> cl_lines ls = []) \<and> length (te_lines ls) \<le> 1 \<and> length (cl_lines ls) \<le> 1
     \<and> (te_lines ls \<noteq> [] \<longrightarrow> head_can_chunk msg \<and> hs_encoder s = encoder_chunked)
     \<and> (te_lines ls = [] \<and> cl_lines ls = [] \<longrightarrow> hs_encoder s = encoder_length 0)
     \<and> (cl_lines ls \<noteq> [] \<longrightarrow> (\<exists>n. hs_encoder s = encoder_length n))
     \<and> length_line_says msg ls (hs_encoder s)
     \<and> (hs_wrote_len s \<longleftrightarrow> wl \<or> te_lines ls \<noteq> [] \<or> cl_lines ls \<noteq> [])
     \<and> (wl \<longrightarrow> te_lines ls = [] \<and> cl_lines ls = [])
     \<and> (hs_must_write_chunked s \<longrightarrow> te_lines ls \<noteq> [])
     \<and> (ec_body msg = Some LengthUnknown \<and> hs_is_name_written s \<and> hs_cur_name s = Some ''content-length''
        \<longrightarrow> hs_prev_con_len s \<noteq> None)"

definition head_inv :: "u16 encode \<Rightarrow> bytes \<Rightarrow> bool \<Rightarrow> header_map \<Rightarrow> head_scan \<Rightarrow> bool" where
  "head_inv msg pre wl ls s \<longleftrightarrow> head_shape msg pre ls s \<and> head_frames msg wl ls s"

lemma hs_extend_sel [simp]:
  "hs_dst (hs_extend b s) = hs_dst s @ b" "hs_is_last (hs_extend b s) = hs_is_last s"
  "hs_wrote_len (hs_extend b s) = hs_wrote_len s" "hs_encoder (hs_extend b s) = hs_encoder s"
  "hs_allowed_trailer_fields (hs_extend b s) = hs_allowed_trailer_fields s"
  "hs_wrote_date (hs_extend b s) = hs_wrote_date s" "hs_cur_name (hs_extend b s) = hs_cur_name s"
  "hs_is_name_written (hs_extend b s) = hs_is_name_written s"
  "hs_must_write_chunked (hs_extend b s) = hs_must_write_chunked s"
  "hs_prev_con_len (hs_extend b s) = hs_prev_con_len s"
  by (simp_all add: hs_extend_def)

lemma head_inv_start: "head_inv msg pre wl [] (head_start pre is_last wl)"
  by (simp add: head_inv_def head_shape_def head_frames_def head_start_def length_line_says_def)

text \<open>A line opened, a value joined to it, a line of its own.\<close>

lemma head_shape_open:
  "head_shape msg pre ls s \<Longrightarrow> \<not> hs_is_name_written s \<Longrightarrow> hs_cur_name s = Some n \<Longrightarrow> joins msg n \<Longrightarrow>
   head_shape msg pre (ls @ [(n, v)]) (open_line (ec_title_case_headers msg) n v s)"
  by (simp add: head_shape_def open_line_def open_bytes_def)

lemma head_shape_join:
  assumes "head_shape msg pre ls s" and "hs_is_name_written s" and "hs_cur_name s = Some n"
  obtains ls0 w where "ls = ls0 @ [(n, w)]"
    "head_shape msg pre (ls0 @ [(n, w @ ascii '', '' @ v)]) (hs_extend (ascii '', '' @ v) s)"
  using assms by (fastforce simp: head_shape_def open_bytes_def)

lemma head_shape_line:
  "head_shape msg pre ls s \<Longrightarrow> \<not> hs_is_name_written s \<Longrightarrow>
   head_shape msg pre (ls @ [(n, v)]) (write_line (ec_title_case_headers msg) n v s)"
  by (simp add: head_shape_def write_line_def header_line_def open_bytes_def)

text \<open>A change of the other locals keeps the shape.\<close>

lemma head_shape_cong:
  "hs_dst s' = hs_dst s \<Longrightarrow> hs_is_name_written s' = hs_is_name_written s \<Longrightarrow> hs_cur_name s' = hs_cur_name s \<Longrightarrow>
   head_shape msg pre ls s' = head_shape msg pre ls s"
  by (simp add: head_shape_def)

text \<open>The last line is completed: where \<open>chunked\<close> is owed it is appended.\<close>

definition closed :: "head_scan \<Rightarrow> header_map \<Rightarrow> header_map" where
  "closed s ls =
     (if hs_is_name_written s \<and> hs_must_write_chunked s
      then butlast ls @ [(fst (last ls), snd (last ls) @ ascii '', chunked'')] else ls)"

lemma head_shape_close:
  "head_shape msg pre ls s \<Longrightarrow>
   hs_dst (handle_is_name_written s) = pre @ lines_bytes (ec_title_case_headers msg) (closed s ls)"
  by (auto simp: head_shape_def handle_is_name_written_def closed_def open_bytes_def split: if_splits)

lemma header_get_all_joined:
  "header_get_all (ls0 @ [(n, v)]) m = header_get_all ls0 m @ (if m = n then [v] else [])"
  by simp

lemma closed_get_all:
  assumes "head_inv msg pre wl ls s"
  shows "cl_lines (closed s ls) = cl_lines ls"
    and "te_lines (closed s ls) = [] \<longleftrightarrow> te_lines ls = []"
    and "length (te_lines (closed s ls)) = length (te_lines ls)"
proof -
  have "cl_lines (closed s ls) = cl_lines ls \<and> (te_lines (closed s ls) = [] \<longleftrightarrow> te_lines ls = [])
    \<and> length (te_lines (closed s ls)) = length (te_lines ls)"
  proof (cases "hs_is_name_written s \<and> hs_must_write_chunked s")
    case True
    then obtain ls0 n v where ls: "ls = ls0 @ [(n, v)]"
      using assms by (auto simp: head_inv_def head_shape_def)
    have te: "te_lines ls \<noteq> []" and "te_lines ls = [] \<or> cl_lines ls = []"
      using assms True by (auto simp: head_inv_def head_frames_def)
    then have "cl_lines ls = []" by simp
    then have "n \<noteq> ''content-length''" using ls by auto
    then show ?thesis using ls True by (simp add: closed_def)
  next
    case False
    then have "closed s ls = ls" by (auto simp: closed_def)
    then show ?thesis by simp
  qed
  then show "cl_lines (closed s ls) = cl_lines ls"
    and "te_lines (closed s ls) = [] \<longleftrightarrow> te_lines ls = []"
    and "length (te_lines (closed s ls)) = length (te_lines ls)" by simp_all
qed

lemma handle_sel [simp]:
  "hs_is_last (handle_is_name_written s) = hs_is_last s"
  "hs_wrote_len (handle_is_name_written s) = hs_wrote_len s"
  "hs_encoder (handle_is_name_written s) = hs_encoder s"
  "hs_allowed_trailer_fields (handle_is_name_written s) = hs_allowed_trailer_fields s"
  "hs_wrote_date (handle_is_name_written s) = hs_wrote_date s"
  "hs_cur_name (handle_is_name_written s) = hs_cur_name s"
  "hs_must_write_chunked (handle_is_name_written s) = hs_must_write_chunked s"
  "hs_prev_con_len (handle_is_name_written s) = hs_prev_con_len s"
  by (simp_all add: handle_is_name_written_def)

lemma head_inv_next_name:
  assumes "head_inv msg pre wl ls s"
  shows "\<exists>ls'. head_inv msg pre wl ls' (next_name opt_name s)"
proof (cases opt_name)
  case (Some n)
  let ?s = "s\<lparr>hs_cur_name := Some n\<rparr>"
  have dst: "hs_dst (handle_is_name_written ?s) = pre @ lines_bytes (ec_title_case_headers msg) (closed s ls)"
    using head_shape_close [of msg pre ls s] assms
    by (simp add: head_inv_def handle_is_name_written_def hs_extend_def split: if_splits)
  have "head_inv msg pre wl (closed s ls) (next_name opt_name s)"
    using assms dst closed_get_all [OF assms] Some
    by (simp add: next_name_def head_inv_def head_shape_def head_frames_def length_line_says_def)
  then show ?thesis by blast
next
  case None
  then show ?thesis using assms by (auto simp: next_name_def)
qed

text \<open>A field that does not frame the body.\<close>

lemma head_frames_other:
  assumes "head_frames msg wl ls s" and "te_lines ls' = te_lines ls" and "cl_lines ls' = cl_lines ls"
    and "hs_encoder s' = hs_encoder s" "hs_wrote_len s' = hs_wrote_len s"
    and "hs_must_write_chunked s' = hs_must_write_chunked s" "hs_prev_con_len s' = hs_prev_con_len s"
    and "hs_is_name_written s' = hs_is_name_written s \<or> hs_cur_name s' \<noteq> Some ''content-length''"
    and "hs_cur_name s' = hs_cur_name s"
  shows "head_frames msg wl ls' s'"
  using assms by (auto simp: head_frames_def length_line_says_def)

lemma head_inv_join:
  assumes "head_inv msg pre wl ls s" and "hs_cur_name s = Some n" and "joins msg n"
    and n: "n \<noteq> ''transfer-encoding''" "n \<noteq> ''content-length''"
  shows "\<exists>ls'. head_inv msg pre wl ls' (join_line (ec_title_case_headers msg) n v s)"
proof (cases "hs_is_name_written s")
  case True
  obtain ls0 w where ls: "ls = ls0 @ [(n, w)]" and
    shape: "head_shape msg pre (ls0 @ [(n, w @ ascii '', '' @ v)]) (hs_extend (ascii '', '' @ v) s)"
    using head_shape_join assms(1,2) True unfolding head_inv_def by blast
  have "head_frames msg wl (ls0 @ [(n, w @ ascii '', '' @ v)]) (hs_extend (ascii '', '' @ v) s)"
    by (rule head_frames_other [OF conjunct2 [OF assms(1) [unfolded head_inv_def]]])
      (use ls n assms(2) in simp_all)
  then show ?thesis using shape True by (auto simp: head_inv_def join_line_def)
next
  case False
  have "head_frames msg wl (ls @ [(n, v)]) (open_line (ec_title_case_headers msg) n v s)"
    by (rule head_frames_other [OF conjunct2 [OF assms(1) [unfolded head_inv_def]]])
      (use n assms(2) in \<open>simp_all add: open_line_def\<close>)
  moreover have "head_shape msg pre (ls @ [(n, v)]) (open_line (ec_title_case_headers msg) n v s)"
    using head_shape_open assms False by (auto simp: head_inv_def)
  ultimately show ?thesis using False by (auto simp: head_inv_def join_line_def)
qed

lemma head_inv_line:
  assumes "head_inv msg pre wl ls s" and "hs_cur_name s = Some n" and "\<not> joins msg n"
    and n: "n \<noteq> ''transfer-encoding''" "n \<noteq> ''content-length''"
  shows "\<exists>ls'. head_inv msg pre wl ls' (write_line (ec_title_case_headers msg) n v s)"
proof -
  have closed: "\<not> hs_is_name_written s"
    using assms(1-3) by (auto simp: head_inv_def head_shape_def)
  have "head_frames msg wl (ls @ [(n, v)]) (write_line (ec_title_case_headers msg) n v s)"
    by (rule head_frames_other [OF conjunct2 [OF assms(1) [unfolded head_inv_def]]])
      (use n assms(2) in \<open>simp_all add: write_line_def\<close>)
  then show ?thesis
    using head_shape_line assms(1) closed unfolding head_inv_def by blast
qed

lemma head_inv_cong:
  assumes "head_inv msg pre wl ls s" and "hs_dst s' = hs_dst s" "hs_encoder s' = hs_encoder s"
    "hs_wrote_len s' = hs_wrote_len s" "hs_must_write_chunked s' = hs_must_write_chunked s"
    "hs_prev_con_len s' = hs_prev_con_len s" "hs_is_name_written s' = hs_is_name_written s"
    "hs_cur_name s' = hs_cur_name s"
  shows "head_inv msg pre wl ls s'"
  using assms by (simp add: head_inv_def head_shape_def head_frames_def)

text \<open>The two fields that do.\<close>

lemma written_length_line:
  assumes "head_inv msg pre wl ls s" and "hs_cur_name s = Some ''content-length''" and "hs_is_name_written s"
  shows "cl_lines ls \<noteq> []"
  using assms by (auto simp: head_inv_def head_shape_def)

lemma head_inv_length:
  assumes inv: "head_inv msg pre wl ls s" and cur: "hs_cur_name s = Some ''content-length''"
    and step: "encode_content_length msg v s = Inr s'"
  shows "\<exists>ls'. head_inv msg pre wl ls' s'"
proof -
  let ?t = "ec_title_case_headers msg"
  let ?ls = "ls @ [(''content-length'', v)]"
  show ?thesis
  proof (cases "hs_is_name_written s")
    case True
    have "hs_prev_con_len s \<noteq> None" if "ec_body msg = Some LengthUnknown"
      using inv cur True that by (auto simp: head_inv_def head_frames_def)
    moreover have "ec_body msg \<noteq> None"
      using inv cur True by (auto simp: head_inv_def head_shape_def joins_def)
    ultimately have "s' = s"
      using step True
      by (auto simp: encode_content_length_def Let_def split: option.splits body_length.splits if_splits)
    then show ?thesis using inv by blast
  next
    case False
    then have wl: "\<not> hs_wrote_len s" using step by (auto simp: encode_content_length_def Let_def split: if_splits)
    then have none: "te_lines ls = []" "cl_lines ls = []" "\<not> wl" "\<not> hs_must_write_chunked s"
      "hs_encoder s = encoder_length 0"
      using inv by (auto simp: head_inv_def head_frames_def)
    have shape: "head_shape msg pre ls s" using inv by (simp add: head_inv_def)
    consider (known) k where "ec_body msg = Some (LengthKnown k)"
      | (unknown) "ec_body msg = Some LengthUnknown" | (nobody) "ec_body msg = None"
      by (metis body_length.exhaust option.exhaust)
    then show ?thesis
    proof cases
      case known
      let ?s = "s\<lparr>hs_encoder := encoder_length k, hs_wrote_len := True\<rparr>"
      have s': "s' = open_line ?t ''content-length'' v ?s"
        using step False wl known by (simp add: encode_content_length_def Let_def)
      have "head_shape msg pre ?ls s'"
        unfolding s' using shape False cur known
        by (intro head_shape_open) (simp_all add: head_shape_def joins_def)
      moreover have "head_frames msg wl ?ls s'"
        using none known s'
        by (auto simp: head_frames_def length_line_says_def open_line_def encoder_length_def new_encoder_def)
      ultimately show ?thesis by (auto simp: head_inv_def)
    next
      case unknown
      show ?thesis
      proof (cases "hs_prev_con_len s")
        case (Some p)
        then have "s' = s" using step wl unknown
          by (auto simp: encode_content_length_def Let_def split: option.splits if_splits)
        then show ?thesis using inv by blast
      next
        case None
        obtain k where k: "content_length_parse v = Some k"
          using step wl unknown by (auto simp: encode_content_length_def Let_def split: option.splits)
        let ?s = "s\<lparr>hs_encoder := encoder_length k, hs_wrote_len := True, hs_prev_con_len := Some k\<rparr>"
        have s': "s' = open_line ?t ''content-length'' v ?s"
          using step False wl unknown None k by (simp add: encode_content_length_def Let_def)
        have "head_shape msg pre ?ls s'"
          unfolding s' using shape False cur unknown
          by (intro head_shape_open) (simp_all add: head_shape_def joins_def)
        moreover have "head_frames msg wl ?ls s'"
          using none unknown s' k
          by (auto simp: head_frames_def length_line_says_def open_line_def encoder_length_def new_encoder_def)
        ultimately show ?thesis by (auto simp: head_inv_def)
      qed
    next
      case nobody
      show ?thesis
      proof (cases "ec_req_method msg = Some ''HEAD''")
        case True
        have s': "s' = write_line ?t ''content-length'' v (s\<lparr>hs_wrote_len := True\<rparr>)"
          using step wl nobody True by (simp add: encode_content_length_def Let_def)
        have "head_shape msg pre ?ls s'"
          unfolding s' using shape False by (intro head_shape_line) (simp_all add: head_shape_def)
        moreover have "head_frames msg wl ?ls s'"
          using none nobody s'
          by (auto simp: head_frames_def length_line_says_def write_line_def encoder_length_def new_encoder_def)
        ultimately show ?thesis by (auto simp: head_inv_def)
      next
        case False
        then have "s' = s" using step wl nobody by (simp add: encode_content_length_def Let_def)
        then show ?thesis using inv by blast
      qed
    qed
  qed
qed

lemma head_inv_coding:
  assumes inv: "head_inv msg pre wl ls s" and cur: "hs_cur_name s = Some ''transfer-encoding''"
    and step: "encode_transfer_encoding lib msg v s = Inr s'"
  shows "\<exists>ls'. head_inv msg pre wl ls' s'"
proof (cases "head_can_chunk msg")
  case False
  then have "s' = s" using step by (simp add: encode_transfer_encoding_def split: if_splits)
  then show ?thesis using inv by blast
next
  case chunk: True
  let ?t = "ec_title_case_headers msg" and ?m = "\<not> is_chunked_line (hp_to_str lib) v"
  have shape: "head_shape msg pre ls s" and frames: "head_frames msg wl ls s"
    using inv by (simp_all add: head_inv_def)
  show ?thesis
  proof (cases "hs_is_name_written s")
    case True
    obtain ls0 w where ls: "ls = ls0 @ [(''transfer-encoding'', w)]" and
      shape': "head_shape msg pre (ls0 @ [(''transfer-encoding'', w @ ascii '', '' @ v)]) (hs_extend (ascii '', '' @ v) s)"
      using head_shape_join [OF shape True cur] by blast
    let ?ls = "ls0 @ [(''transfer-encoding'', w @ ascii '', '' @ v)]"
    let ?s = "s\<lparr>hs_wrote_len := True, hs_must_write_chunked := ?m\<rparr>"
    have s': "s' = hs_extend (ascii '', '' @ v) ?s"
      using step True chunk by (simp add: encode_transfer_encoding_def Let_def)
    have "head_shape msg pre ?ls s'"
      using shape' True s' by (simp add: head_shape_def)
    moreover have "head_frames msg wl ?ls s'"
      using frames ls chunk cur unfolding s' by (simp add: head_frames_def length_line_says_def)
    ultimately show ?thesis by (auto simp: head_inv_def)
  next
    case False
    let ?ls = "ls @ [(''transfer-encoding'', v)]"
    let ?s = "s\<lparr>hs_wrote_len := True, hs_must_write_chunked := ?m, hs_encoder := encoder_chunked\<rparr>"
    have wl: "\<not> hs_wrote_len s"
      using step False by (simp add: encode_transfer_encoding_def split: if_splits)
    have none: "te_lines ls = []" "cl_lines ls = []" "\<not> wl"
      using frames wl by (simp_all add: head_frames_def)
    have s': "s' = open_line ?t ''transfer-encoding'' v ?s"
      using step False wl chunk by (simp add: encode_transfer_encoding_def Let_def)
    have "head_shape msg pre ?ls s'"
      unfolding s' using shape False cur by (intro head_shape_open) (simp_all add: head_shape_def joins_def)
    moreover have "head_frames msg wl ?ls s'"
      using none chunk cur unfolding s' by (simp add: head_frames_def length_line_says_def open_line_def)
    ultimately show ?thesis by (auto simp: head_inv_def)
  qed
qed

lemma head_inv_field:
  assumes inv: "head_inv msg pre wl ls s" and cur: "hs_cur_name s = Some n"
    and step: "encode_field lib msg n v s = Inr s'"
  shows "\<exists>ls'. head_inv msg pre wl ls' s'"
proof -
  consider (cl) "n = ''content-length''" | (te) "n = ''transfer-encoding''" | (conn) "n = ''connection''"
    | (trailer) "n = ''trailer''"
    | (other) "n \<noteq> ''content-length''" "n \<noteq> ''transfer-encoding''" "n \<noteq> ''connection''" "n \<noteq> ''trailer''"
    by blast
  then show ?thesis
  proof cases
    case cl
    then show ?thesis using head_inv_length inv cur step by (simp add: encode_field_def)
  next
    case te
    then show ?thesis using head_inv_coding [of msg pre wl ls s lib v s'] inv cur step by (simp add: encode_field_def)
  next
    case conn
    let ?s = "if \<not> hs_is_last s \<and> connection_close (hp_to_str lib) v then s\<lparr>hs_is_last := True\<rparr> else s"
    have "head_inv msg pre wl ls ?s" using head_inv_cong [OF inv] by simp
    moreover have "s' = join_line (ec_title_case_headers msg) n v ?s"
      using step conn by (simp add: encode_field_def encode_connection_def)
    ultimately show ?thesis
      using head_inv_join [of msg pre wl ls ?s n v] cur conn by (simp add: joins_def)
  next
    case trailer
    show ?thesis
    proof (cases "head_can_chunk msg")
      case True
      obtain ls' where ls': "head_inv msg pre wl ls' (join_line (ec_title_case_headers msg) n v s)"
        using head_inv_join [OF inv cur, of v] trailer by (auto simp: joins_def)
      obtain a where "s' = (join_line (ec_title_case_headers msg) n v s)\<lparr>hs_allowed_trailer_fields := a\<rparr>"
      proof (cases "hp_to_str lib v")
        case None
        then have "s' = (join_line (ec_title_case_headers msg) n v s)\<lparr>hs_allowed_trailer_fields :=
            hs_allowed_trailer_fields (join_line (ec_title_case_headers msg) n v s)\<rparr>"
          using step trailer True by (simp add: encode_field_def encode_trailer_def Let_def)
        then show ?thesis using that by blast
      next
        case (Some line)
        then have "s' = (join_line (ec_title_case_headers msg) n v s)\<lparr>hs_allowed_trailer_fields :=
            (case hs_allowed_trailer_fields (join_line (ec_title_case_headers msg) n v s) of
               Some flds \<Rightarrow> Some (flds @ trailer_names lib line)
             | None \<Rightarrow> Some (trailer_names lib line))\<rparr>"
          using step trailer True by (simp add: encode_field_def encode_trailer_def Let_def)
        then show ?thesis by (rule that)
      qed
      then have "head_inv msg pre wl ls' s'" using head_inv_cong [OF ls'] by simp
      then show ?thesis by blast
    next
      case False
      then have "s' = s" using step trailer by (simp add: encode_field_def encode_trailer_def)
      then show ?thesis using inv by blast
    qed
  next
    case other
    let ?s = "if n = ''date'' then s\<lparr>hs_wrote_date := True\<rparr> else s"
    have "head_inv msg pre wl ls ?s" using head_inv_cong [OF inv] by simp
    moreover have "s' = write_line (ec_title_case_headers msg) n v ?s"
      using step other by (simp add: encode_field_def Let_def split: if_splits)
    ultimately show ?thesis
      using head_inv_line [of msg pre wl ls ?s n v] cur other by (simp add: joins_def)
  qed
qed

lemma head_inv_fields:
  "encode_fields lib msg fs s = Some (Inr s') \<Longrightarrow> head_inv msg pre wl ls s \<Longrightarrow>
   \<exists>ls'. head_inv msg pre wl ls' s'"
proof (induction fs arbitrary: s ls)
  case (Cons f fs)
  obtain opt v where f: "f = (opt, v)" by fastforce
  obtain n s2 where cur: "hs_cur_name (next_name opt s) = Some n"
    and s2: "encode_field lib msg n v (next_name opt s) = Inr s2" "encode_fields lib msg fs s2 = Some (Inr s')"
    using Cons.prems(1) f by (auto simp: Let_def split: option.splits sum.splits)
  obtain ls1 where "head_inv msg pre wl ls1 (next_name opt s)"
    using head_inv_next_name Cons.prems(2) by blast
  then show ?case using head_inv_field cur s2 Cons.IH by blast
qed auto

text \<open>The current name is always set.\<close>

lemma hs_cur_name_field:
  "encode_field lib msg n v s = Inr s' \<Longrightarrow> hs_cur_name s' = hs_cur_name s"
  unfolding encode_field_def encode_content_length_def encode_transfer_encoding_def encode_connection_def
    encode_trailer_def open_line_def join_line_def write_line_def Let_def
  by (auto split: if_splits option.splits body_length.splits)

lemma encode_fields_no_panic:
  "encode_fields lib msg (header_drain_from prev flds) s \<noteq> None"
  if "prev \<noteq> None \<Longrightarrow> hs_cur_name s \<noteq> None"
  using that
proof (induction prev flds arbitrary: s rule: header_drain_from.induct)
  case (2 prev n v flds)
  define s1 where "s1 = next_name (if prev = Some n then None else Some n) s"
  obtain m where m: "hs_cur_name s1 = Some m"
  proof (cases "prev = Some n")
    case True
    then have "hs_cur_name s \<noteq> None" using 2 by simp
    then show ?thesis using that True by (auto simp: next_name_def s1_def)
  next
    case False
    then have "hs_cur_name s1 = Some n" by (simp add: next_name_def s1_def)
    then show ?thesis by (rule that)
  qed
  show ?case
  proof (cases "encode_field lib msg m v s1")
    case (Inr s2)
    then have "encode_fields lib msg (header_drain_from (Some n) flds) s2 \<noteq> None"
      using 2 m hs_cur_name_field [OF Inr] by simp
    then show ?thesis using m Inr by (simp add: Let_def s1_def [symmetric])
  qed (use m in \<open>simp add: Let_def s1_def [symmetric]\<close>)
qed simp

subsection \<open>The finished response head\<close>

text \<open>What a reader of the lines takes for the body, and what the encoder writes.\<close>

definition written_framing :: "header_map \<Rightarrow> encoder_kind \<Rightarrow> bool" where
  "written_framing ls k \<longleftrightarrow>
     length (te_lines ls) \<le> 1 \<and> length (cl_lines ls) \<le> 1
     \<and> (case k of
          EncChunked _ \<Rightarrow> te_lines ls \<noteq> [] \<and> cl_lines ls = []
        | EncLength _ \<Rightarrow> te_lines ls = [] \<and> cl_lines ls \<noteq> []
        | EncCloseDelimited \<Rightarrow> te_lines ls = [] \<and> cl_lines ls = [])"

definition response_written :: "u16 encode \<Rightarrow> header_map \<Rightarrow> h1_encoder \<Rightarrow> bool" where
  "response_written msg ls e \<longleftrightarrow>
     (if can_have_body (ec_req_method msg) (mh_subject (ec_head msg))
      then written_framing ls (en_kind e) \<and> length_line_says msg ls e
           \<and> (mh_version (ec_head msg) = Http10 \<longrightarrow> te_lines ls = [])
      else en_kind e = EncLength 0)"

lemma encoder_kinds [simp]:
  "en_kind encoder_chunked = EncChunked None" "en_kind (encoder_length n) = EncLength n"
  "en_kind encoder_close_delimited = EncCloseDelimited"
  by (simp_all add: encoder_chunked_def encoder_length_def encoder_close_delimited_def new_encoder_def)

lemma length_line_says_kind:
  "en_kind e' = en_kind e \<Longrightarrow> length_line_says msg ls e' = length_line_says msg ls e"
  by (cases "ec_body msg") (simp_all add: length_line_says_def split: body_length.split)

lemma write_line_sel [simp]:
  "hs_dst (write_line title n v s) = hs_dst s @ header_line (casing title) (n, v)"
  "hs_is_last (write_line title n v s) = hs_is_last s"
  "hs_encoder (write_line title n v s) = hs_encoder s"
  "hs_allowed_trailer_fields (write_line title n v s) = hs_allowed_trailer_fields s"
  "hs_wrote_date (write_line title n v s) = hs_wrote_date s"
  by (simp_all add: write_line_def)

text \<open>The default framing, where no field framed the body.\<close>

lemma default_length_written:
  assumes "can_have_body (ec_req_method msg) (mh_subject (ec_head msg))"
    and "te_lines ls = []" "cl_lines ls = []"
    and "hs_dst s = pre @ lines_bytes (ec_title_case_headers msg) ls"
  shows "\<exists>ls'. hs_dst (default_length msg s) = pre @ lines_bytes (ec_title_case_headers msg) ls'
     \<and> written_framing ls' (en_kind (hs_encoder (default_length msg s)))
     \<and> length_line_says msg ls' (hs_encoder (default_length msg s))
     \<and> (mh_version (ec_head msg) = Http10 \<longrightarrow> te_lines ls' = [])"
proof -
  let ?m = "ec_req_method msg" and ?st = "mh_subject (ec_head msg)" and ?t = "ec_title_case_headers msg"
  have can: "can_have_implicit_zero_content_length ?m ?st" "can_have_content_length ?m ?st"
    using assms(1) by (auto simp: can_have_body_def can_chunked_def
        can_have_implicit_zero_content_length_def can_have_content_length_def split: if_splits)
  have line: "hs_dst (write_line ?t n v s) = pre @ lines_bytes ?t (ls @ [(n, v)])" for n v
    using assms(4) by (simp add: open_bytes_def header_line_def)
  consider (unknown) "ec_body msg = Some LengthUnknown"
    | (known) k where "ec_body msg = Some (LengthKnown k)" "k \<noteq> 0"
    | (zero) "ec_body msg = None \<or> ec_body msg = Some (LengthKnown 0)"
    by (metis body_length.exhaust option.exhaust)
  then show ?thesis
  proof cases
    case unknown
    show ?thesis
    proof (cases "head_can_chunk msg")
      case True
      then have "mh_version (ec_head msg) \<noteq> Http10" by (simp add: head_can_chunk_def)
      then show ?thesis
        using assms unknown True line
        by (intro exI [of _ "ls @ [(''transfer-encoding'', ascii ''chunked'')]"])
          (simp add: default_length_def Let_def written_framing_def length_line_says_def)
    next
      case False
      then show ?thesis
        using assms unknown
        by (intro exI [of _ ls]) (simp add: default_length_def Let_def written_framing_def length_line_says_def)
    qed
  next
    case known
    then show ?thesis
      using assms can line
      by (intro exI [of _ "ls @ [(''content-length'', ascii (show_nat k))]"])
        (simp add: default_length_def Let_def written_framing_def length_line_says_def)
  next
    case zero
    then have "hs_dst (default_length msg s) = pre @ lines_bytes ?t (ls @ [(''content-length'', ascii ''0'')])"
      "hs_encoder (default_length msg s) = encoder_length 0"
      using can line [of "''content-length''" "ascii ''0''"] by (auto simp: default_length_def Let_def)
    then show ?thesis
      using assms zero
      by (intro exI [of _ "ls @ [(''content-length'', ascii ''0'')]"])
        (auto simp: written_framing_def length_line_says_def)
  qed
qed

lemma default_length_lines:
  assumes "hs_dst s = pre @ lines_bytes (ec_title_case_headers msg) ls"
  shows "\<exists>ls'. hs_dst (default_length msg s) = pre @ lines_bytes (ec_title_case_headers msg) ls'"
proof -
  let ?t = "ec_title_case_headers msg"
  have "hs_dst s @ header_line (casing ?t) (n, v) = pre @ lines_bytes ?t (ls @ [(n, v)])" for n v
    using assms by (simp add: open_bytes_def header_line_def)
  then have "\<exists>ls'. hs_dst s @ header_line (casing ?t) (n, v) = pre @ lines_bytes ?t ls'" for n v
    by blast
  moreover have "\<exists>ls'. hs_dst s = pre @ lines_bytes ?t ls'" using assms by blast
  ultimately show ?thesis
    by (simp add: default_length_def Let_def split: option.split body_length.split)
qed

lemma default_length_sel [simp]:
  "hs_is_last (default_length msg s) = hs_is_last s"
  "hs_wrote_date (default_length msg s) = hs_wrote_date s"
  "hs_allowed_trailer_fields (default_length msg s) = hs_allowed_trailer_fields s"
  by (simp_all add: default_length_def Let_def split: option.split body_length.split)

text \<open>The date and the empty line.\<close>

definition date_line :: "u16 encode \<Rightarrow> bytes \<Rightarrow> bool \<Rightarrow> header_map" where
  "date_line msg date wrote = (if \<not> wrote \<and> ec_date_header msg then [(''date'', date)] else [])"

lemma date_line_frames [simp]: "te_lines (date_line msg date b) = []" "cl_lines (date_line msg date b) = []"
  by (simp_all add: date_line_def)

lemma lines_bytes_append [simp]: "lines_bytes title (a @ b) = lines_bytes title a @ lines_bytes title b"
  by (simp add: lines_bytes_def)

lemma close_head_eq:
  "close_head msg date s =
     (hs_dst s @ lines_bytes (ec_title_case_headers msg) (date_line msg date (hs_wrote_date s)) @ crlf,
      set_last (hs_is_last s)
        (if encoder_is_chunked (hs_encoder s)
         then case hs_allowed_trailer_fields s of
                Some flds \<Rightarrow> into_chunked_with_trailing_fields flds (hs_encoder s)
              | None \<Rightarrow> hs_encoder s
         else hs_encoder s))"
  by (cases "hs_allowed_trailer_fields s")
    (simp_all add: close_head_def Let_def date_line_def lines_bytes_def header_line_def)

lemma finish_head_written:
  assumes inv: "head_inv msg pre wl ls s" and fin: "finish_head msg date s = (dst, e)"
    and wl: "wl \<Longrightarrow> \<not> can_have_body (ec_req_method msg) (mh_subject (ec_head msg))"
  shows "\<exists>ls'. dst = pre @ lines_bytes (ec_title_case_headers msg) ls' @ crlf \<and> response_written msg ls' e"
    and "en_is_last e = hs_is_last s"
proof -
  let ?t = "ec_title_case_headers msg" and ?body = "can_have_body (ec_req_method msg) (mh_subject (ec_head msg))"
  define s1 where "s1 = handle_is_name_written s"
  define s2 where "s2 = (if \<not> hs_wrote_len s1 then default_length msg s1 else s1)"
  define enc where "enc = (if ?body then hs_encoder s2 else encoder_length 0)"
  have fin': "dst = hs_dst s2 @ lines_bytes ?t (date_line msg date (hs_wrote_date s2)) @ crlf"
    "en_is_last e = hs_is_last s2"
    "(\<exists>a. en_kind enc = EncChunked a) \<longleftrightarrow> (\<exists>a. en_kind e = EncChunked a)"
    "(\<nexists>a. en_kind enc = EncChunked a) \<Longrightarrow> en_kind e = en_kind enc"
  proof -
    have "(if \<not> ?body then s2\<lparr>hs_encoder := encoder_length 0\<rparr> else s2) = s2\<lparr>hs_encoder := enc\<rparr>"
      by (simp add: enc_def)
    then have "close_head msg date (s2\<lparr>hs_encoder := enc\<rparr>) = (dst, e)"
      using fin by (simp only: finish_head_def Let_def s1_def s2_def)
    then show "dst = hs_dst s2 @ lines_bytes ?t (date_line msg date (hs_wrote_date s2)) @ crlf"
      "en_is_last e = hs_is_last s2"
      "(\<exists>a. en_kind enc = EncChunked a) \<longleftrightarrow> (\<exists>a. en_kind e = EncChunked a)"
      "(\<nexists>a. en_kind enc = EncChunked a) \<Longrightarrow> en_kind e = en_kind enc"
      by (auto simp: close_head_eq set_last_def into_chunked_with_trailing_fields_def encoder_is_chunked_def
          split: option.splits encoder_kind.splits)
  qed
  show "en_is_last e = hs_is_last s" using fin'(2) by (simp add: s1_def s2_def)
  have dst1: "hs_dst s1 = pre @ lines_bytes ?t (closed s ls)"
    using head_shape_close inv unfolding s1_def head_inv_def by blast
  have frames: "head_frames msg wl ls s" using inv by (simp add: head_inv_def)
  note ga = closed_get_all [OF inv]
  show "\<exists>ls'. dst = pre @ lines_bytes ?t ls' @ crlf \<and> response_written msg ls' e"
  proof (cases ?body)
    case False
    obtain ls' where "hs_dst s2 = pre @ lines_bytes ?t ls'"
      using default_length_lines [OF dst1] dst1 by (cases "hs_wrote_len s1") (auto simp: s2_def)
    then show ?thesis
      using fin' False
      by (intro exI [of _ "ls' @ date_line msg date (hs_wrote_date s2)"]) (simp add: response_written_def enc_def)
  next
    case True
    have "\<exists>ls'. hs_dst s2 = pre @ lines_bytes ?t ls' \<and> written_framing ls' (en_kind (hs_encoder s2))
        \<and> length_line_says msg ls' (hs_encoder s2) \<and> (mh_version (ec_head msg) = Http10 \<longrightarrow> te_lines ls' = [])"
    proof (cases "hs_wrote_len s")
      case w: True
      have enc2: "hs_encoder s2 = hs_encoder s" using w by (simp add: s2_def s1_def)
      have "te_lines ls \<noteq> [] \<or> cl_lines ls \<noteq> []" using frames w wl True by (auto simp: head_frames_def)
      then have "written_framing (closed s ls) (en_kind (hs_encoder s))"
      proof
        assume "te_lines ls \<noteq> []"
        then have "hs_encoder s = encoder_chunked" "cl_lines ls = []" "length (te_lines ls) \<le> 1"
          using frames by (auto simp: head_frames_def)
        then show ?thesis using ga \<open>te_lines ls \<noteq> []\<close> by (simp add: written_framing_def)
      next
        assume "cl_lines ls \<noteq> []"
        then obtain n where "hs_encoder s = encoder_length n" "te_lines ls = []" "length (cl_lines ls) \<le> 1"
          using frames by (auto simp: head_frames_def)
        then show ?thesis using ga \<open>cl_lines ls \<noteq> []\<close> by (simp add: written_framing_def)
      qed
      moreover have "length_line_says msg (closed s ls) (hs_encoder s)"
        using frames ga by (simp add: head_frames_def length_line_says_def)
      moreover have "mh_version (ec_head msg) = Http10 \<longrightarrow> te_lines (closed s ls) = []"
        using frames ga by (auto simp: head_frames_def head_can_chunk_def)
      ultimately show ?thesis using dst1 w enc2 by (auto simp: s2_def s1_def)
    next
      case w: False
      then have "te_lines (closed s ls) = []" "cl_lines (closed s ls) = []"
        using frames ga by (auto simp: head_frames_def)
      then show ?thesis
        using default_length_written [OF True _ _ dst1] w by (simp add: s2_def s1_def)
    qed
    then obtain ls' where ls': "hs_dst s2 = pre @ lines_bytes ?t ls'"
      "written_framing ls' (en_kind (hs_encoder s2))" "length_line_says msg ls' (hs_encoder s2)"
      "mh_version (ec_head msg) = Http10 \<longrightarrow> te_lines ls' = []" by blast
    let ?ls = "ls' @ date_line msg date (hs_wrote_date s2)"
    have wf: "written_framing ?ls (en_kind e)"
    proof (cases "\<exists>a. en_kind enc = EncChunked a")
      case c: True
      then show ?thesis using ls'(2) fin'(3) True by (auto simp: written_framing_def enc_def)
    next
      case c: False
      then show ?thesis using ls'(2) fin'(4) True by (simp add: written_framing_def enc_def split: encoder_kind.splits)
    qed
    have says: "length_line_says msg ?ls e"
    proof (cases "\<exists>a. en_kind enc = EncChunked a")
      case c: True
      then have "cl_lines ?ls = []" using ls'(2) True by (auto simp: written_framing_def enc_def)
      then show ?thesis by (simp add: length_line_says_def)
    next
      case c: False
      then have "en_kind e = en_kind (hs_encoder s2)" using fin'(4) True by (simp add: enc_def)
      then have "length_line_says msg ls' e" using ls'(3) length_line_says_kind by blast
      then show ?thesis by (simp add: length_line_says_def)
    qed
    show ?thesis
      using fin'(1) ls'(1,4) wf says True
      by (intro exI [of _ ?ls]) (simp add: response_written_def)
  qed
qed

subsection \<open>Whether the connection closes\<close>

lemma hs_is_last_join [simp]: "hs_is_last (join_line title n v s) = hs_is_last s"
  by (simp add: join_line_def open_line_def)

lemma hs_is_last_field:
  "encode_field lib msg n v s = Inr s' \<Longrightarrow>
   hs_is_last s' \<longleftrightarrow> hs_is_last s \<or> (n = ''connection'' \<and> connection_close (hp_to_str lib) v)"
proof (cases "n = ''connection''")
  case True
  then show "encode_field lib msg n v s = Inr s' \<Longrightarrow> ?thesis"
    by (auto simp: encode_field_def encode_connection_def)
next
  case False
  then show "encode_field lib msg n v s = Inr s' \<Longrightarrow> ?thesis"
    unfolding encode_field_def encode_content_length_def encode_transfer_encoding_def
      encode_trailer_def open_line_def join_line_def Let_def
    by (auto split: if_splits option.splits body_length.splits)
qed

lemma hs_is_last_fields:
  "encode_fields lib msg (header_drain_from prev flds) s = Some (Inr s') \<Longrightarrow>
   (prev \<noteq> None \<Longrightarrow> hs_cur_name s = prev) \<Longrightarrow>
   hs_is_last s' \<longleftrightarrow> hs_is_last s \<or> list_ex (connection_close (hp_to_str lib)) (conn_lines flds)"
proof (induction prev flds arbitrary: s rule: header_drain_from.induct)
  case (2 prev n v flds)
  define s1 where "s1 = next_name (if prev = Some n then None else Some n) s"
  have cur: "hs_cur_name s1 = Some n"
    using 2(3) by (cases "prev = Some n") (auto simp: s1_def next_name_def)
  obtain s2 where s2: "encode_field lib msg n v s1 = Inr s2"
    "encode_fields lib msg (header_drain_from (Some n) flds) s2 = Some (Inr s')"
    using 2(2) cur by (auto simp: Let_def s1_def [symmetric] split: sum.splits)
  have "hs_is_last s1 = hs_is_last s" by (simp add: s1_def next_name_def)
  moreover have "hs_cur_name s2 = Some n" using hs_cur_name_field [OF s2(1)] cur by simp
  ultimately show ?case
    using 2(1) [OF s2(2)] hs_is_last_field [OF s2(1)] by auto
qed simp

subsection \<open>\<open>Server::encode\<close>\<close>

definition unsupported_status :: "u16 encode \<Rightarrow> bool" where
  "unsupported_status msg \<longleftrightarrow>
     is_informational (mh_subject (ec_head msg)) \<and> mh_subject (ec_head msg) \<noteq> 101"

definition tunnels :: "u16 encode \<Rightarrow> bool" where
  "tunnels msg \<longleftrightarrow> ec_req_method msg = Some ''CONNECT'' \<and> is_success (mh_subject (ec_head msg))"

lemma tunnels_status: "tunnels msg \<Longrightarrow> mh_subject (ec_head msg) \<noteq> 101 \<and> \<not> unsupported_status msg"
  by (auto simp: tunnels_def is_success_def is_informational_def unsupported_status_def)

text \<open>A supported status is written by \<open>encode_headers\<close>; the others are reported as an error.\<close>

lemma server_encode_supported:
  assumes "\<not> unsupported_status msg"
  shows "server_encode lib canonical_reason date msg dst =
     encode_headers lib msg date
       (dst @ status_line canonical_reason (mh_version (ec_head msg)) (mh_subject (ec_head msg)))
       (mh_subject (ec_head msg) = 101 \<or> tunnels msg \<or> \<not> ec_keep_alive msg) (length dst) (tunnels msg)"
proof -
  have id: "(case r of None \<Rightarrow> None | Some (d, Inl x) \<Rightarrow> Some (d, Inl x)
      | Some (d, Inr x) \<Rightarrow> Some (d, case (Inr () :: hyper_error + unit) of Inr _ \<Rightarrow> Inr x | Inl e \<Rightarrow> Inl e)) = r"
    for r :: "(bytes \<times> (hyper_error + h1_encoder)) option"
    by (simp split: option.split prod.split sum.split)
  consider (switch) "mh_subject (ec_head msg) = 101" | (tunnel) "tunnels msg"
    | (plain) "mh_subject (ec_head msg) \<noteq> 101" "\<not> tunnels msg" by blast
  then show ?thesis
  proof cases
    case switch
    then have "\<not> tunnels msg" using tunnels_status by blast
    then show ?thesis using switch by (simp add: server_encode_def id)
  next
    case tunnel
    then show ?thesis
      using tunnels_status [OF tunnel] unfolding tunnels_def server_encode_def by (simp add: id)
  next
    case plain
    then have "\<not> is_informational (mh_subject (ec_head msg))"
      using assms by (simp add: unsupported_status_def)
    moreover have "\<not> (ec_req_method msg = Some ''CONNECT'' \<and> is_success (mh_subject (ec_head msg)))"
      using plain by (simp add: tunnels_def)
    ultimately show ?thesis
      using plain by (simp add: server_encode_def id del: de_Morgan_conj)
  qed
qed

text \<open>An interim status: an error, and a whole head of status 500 in the buffer.\<close>

definition refused :: "u16 encode \<Rightarrow> u16 encode" where
  "refused msg =
     msg\<lparr>ec_head := \<lparr>mh_version = Http11, mh_subject = 500, mh_headers = []\<rparr>, ec_body := None\<rparr>"

lemma server_encode_unsupported:
  assumes "unsupported_status msg"
  shows "server_encode lib canonical_reason date msg dst =
     Some (fst (finish_head (refused msg) date
                  (head_start (dst @ status_line canonical_reason Http11 500) True False)),
           Inl new_user_unsupported_status_code)"
proof -
  have "mh_subject (ec_head msg) \<noteq> 101" "is_informational (mh_subject (ec_head msg))"
    using assms by (simp_all add: unsupported_status_def)
  moreover from this have "\<not> is_success (mh_subject (ec_head msg))"
    by (simp add: is_success_def is_informational_def)
  ultimately show ?thesis
    unfolding server_encode_def
    by (simp add: refused_def encode_headers_def header_drain_def case_prod_beta)
qed

definition closes_after :: "to_str \<Rightarrow> u16 encode \<Rightarrow> bool" where
  "closes_after ts msg \<longleftrightarrow>
     mh_subject (ec_head msg) = 101 \<or> tunnels msg \<or> \<not> ec_keep_alive msg
     \<or> connection_any_close ts (mh_headers (ec_head msg))"

lemma server_encode_written:
  assumes "server_encode lib canonical_reason date msg dst = Some (dst', Inr e)"
  shows "\<exists>ls. dst' = dst @ status_line canonical_reason (mh_version (ec_head msg)) (mh_subject (ec_head msg))
              @ lines_bytes (ec_title_case_headers msg) ls @ crlf
            \<and> response_written msg ls e"
    and "en_is_last e \<longleftrightarrow> closes_after (hp_to_str lib) msg"
proof -
  let ?st = "mh_subject (ec_head msg)" and ?flds = "mh_headers (ec_head msg)"
  let ?pre = "dst @ status_line canonical_reason (mh_version (ec_head msg)) ?st"
  define il where "il = (?st = 101 \<or> tunnels msg \<or> \<not> ec_keep_alive msg)"
  have "\<not> unsupported_status msg" using server_encode_unsupported assms by fastforce
  then have "encode_headers lib msg date ?pre il (length dst) (tunnels msg) = Some (dst', Inr e)"
    using assms server_encode_supported by (simp add: il_def)
  then obtain s where s: "encode_fields lib msg (header_drain ?flds) (head_start ?pre il (tunnels msg)) = Some (Inr s)"
    and fin: "finish_head msg date s = (dst', e)"
    by (auto simp: encode_headers_def split: option.splits sum.splits prod.splits)
  obtain ls0 where inv: "head_inv msg ?pre (tunnels msg) ls0 s"
    using head_inv_fields [OF s head_inv_start] by blast
  have "tunnels msg \<Longrightarrow> \<not> can_have_body (ec_req_method msg) ?st"
    by (simp add: tunnels_def can_have_body_def can_chunked_def)
  note written = finish_head_written [OF inv fin this]
  show "\<exists>ls. dst' = dst @ status_line canonical_reason (mh_version (ec_head msg)) ?st
              @ lines_bytes (ec_title_case_headers msg) ls @ crlf \<and> response_written msg ls e"
    using written(1) by simp
  have "hs_is_last s \<longleftrightarrow> il \<or> list_ex (connection_close (hp_to_str lib)) (conn_lines ?flds)"
    using hs_is_last_fields [of lib msg None ?flds] s by (simp add: header_drain_def head_start_def)
  then show "en_is_last e \<longleftrightarrow> closes_after (hp_to_str lib) msg"
    using written(2) by (auto simp: il_def closes_after_def connection_any_close_def)
qed

text \<open>An error takes back what was written, save that an interim status leaves a 500 behind.\<close>

lemma encode_headers_error:
  "encode_headers lib msg date dst il n wl = Some (dst', Inl e) \<Longrightarrow> dst' = take n dst \<and> e = new_user_header"
proof -
  have field: "encode_field lib msg n v s = Inl e \<Longrightarrow> e = new_user_header" for n v s e
    unfolding encode_field_def encode_content_length_def encode_transfer_encoding_def Let_def
    by (auto split: if_splits option.splits body_length.splits)
  have "encode_fields lib msg fs s = Some (Inl e) \<Longrightarrow> e = new_user_header" for fs s
    by (induction fs arbitrary: s) (auto simp: Let_def split: option.splits sum.splits dest: field)
  then show "encode_headers lib msg date dst il n wl = Some (dst', Inl e) \<Longrightarrow> ?thesis"
    by (auto simp: encode_headers_def split: option.splits sum.splits prod.splits)
qed

lemma encode_headers_no_panic: "encode_headers lib msg date dst il n wl \<noteq> None"
  using encode_fields_no_panic [of None _ lib msg]
  by (auto simp: encode_headers_def header_drain_def split: option.splits sum.splits prod.splits)

lemma server_encode_no_panic: "server_encode lib canonical_reason date msg dst \<noteq> None"
  by (cases "unsupported_status msg")
    (simp_all add: server_encode_unsupported server_encode_supported encode_headers_no_panic)

lemma server_encode_rewinds:
  assumes "server_encode lib canonical_reason date msg dst = Some (dst', Inl e)"
    and "\<not> unsupported_status msg"
  shows "dst' = dst \<and> e = new_user_header"
  using assms encode_headers_error by (simp add: server_encode_supported) fastforce

subsection \<open>A request's fields\<close>

text \<open>\<open>HeaderValue::to_str\<close> on visible ASCII.\<close>

definition visible :: "header_value \<Rightarrow> bool" where
  "visible v \<longleftrightarrow> (\<forall>b \<in> set v. b = 9 \<or> (32 \<le> b \<and> b < 127))"

definition value_text :: "header_value \<Rightarrow> string" where
  "value_text v = map (\<lambda>b. char_of (unat b)) v"

definition reads_visible :: "to_str \<Rightarrow> bool" where
  "reads_visible ts \<longleftrightarrow> (\<forall>v. visible v \<longrightarrow> ts v = Some (value_text v))"

lemma digits_from_digits: "digits_from r bs = Some n \<Longrightarrow> \<forall>b \<in> set bs. 48 \<le> b \<and> b \<le> 57"
  by (induction bs arbitrary: r) (auto split: if_splits option.splits)

lemma content_length_digits:
  assumes "content_length_parse v = Some n"
  shows "v \<noteq> []" and "\<forall>b \<in> set v. 48 \<le> unat b \<and> unat b \<le> 57"
  using assms digits_from_digits
  by (fastforce simp: content_length_parse_def from_digits_def split: if_splits)+

lemma dropWhile_none: "\<forall>x \<in> set xs. \<not> P x \<Longrightarrow> dropWhile P xs = xs"
  by (cases xs) auto

lemma trim_none: "\<forall>c \<in> set s. \<not> is_whitespace c \<Longrightarrow> trim s = s"
  by (simp add: trim_def dropWhile_none)

lemma split_on_none: "sep \<notin> set s \<Longrightarrow> split_on sep s = [s]"
  by (induction s) auto

lemma content_length_reads:
  assumes "reads_visible ts" and v: "content_length_parse v = Some n"
  shows "\<exists>line. ts v = Some line \<and> split_on (CHR '','') line = [line]
     \<and> from_digits (map of_char (trim line)) = Some n"
proof -
  note digits = content_length_digits(2) [OF v]
  have "visible v"
    unfolding visible_def
  proof
    fix b assume "b \<in> set v"
    then have "48 \<le> unat b" "unat b \<le> 57" using digits by auto
    then show "b = 9 \<or> (32 \<le> b \<and> b < 127)" by (simp add: word_le_nat_alt word_less_nat_alt)
  qed
  moreover have uc: "(of_char (char_of (unat b)) :: nat) = unat b" for b :: byte
  proof -
    have "unat b < 256" by simp
    then show ?thesis by (simp add: of_char_of)
  qed
  have ws: "\<forall>c \<in> set (value_text v). \<not> is_whitespace c \<and> c \<noteq> CHR '',''"
  proof
    fix c assume "c \<in> set (value_text v)"
    then obtain b where b: "b \<in> set v" "c = char_of (unat b)" by (auto simp: value_text_def)
    then have n: "48 \<le> (of_char c :: nat)" "(of_char c :: nat) \<le> 57" using digits uc by auto
    have "(of_char (CHR '','') :: nat) = 44" by simp
    then have "c \<noteq> CHR '',''" using n by auto
    then show "\<not> is_whitespace c \<and> c \<noteq> CHR '',''" using n by (simp add: is_whitespace_def Let_def)
  qed
  moreover have "map of_char (value_text v) = map unat v" using uc by (simp add: value_text_def)
  moreover have "trim (value_text v) = value_text v" "split_on (CHR '','') (value_text v) = [value_text v]"
    using ws by (blast intro: trim_none, blast intro: split_on_none)
  ultimately show ?thesis
    using assms unfolding reads_visible_def content_length_parse_def by (metis map_map)
qed

lemma content_length_lines_agree:
  "reads_visible ts \<Longrightarrow> \<forall>v \<in> set vs. content_length_parse v = Some n \<Longrightarrow> vs \<noteq> [] \<or> acc = Some n \<Longrightarrow>
   acc = None \<or> acc = Some n \<Longrightarrow> content_length_lines ts vs acc = Some n"
proof (induction vs arbitrary: acc)
  case (Cons v vs)
  then obtain line where l: "ts v = Some line" "split_on (CHR '','') line = [line]"
    "from_digits (map of_char (trim line)) = Some n"
    using content_length_reads [of ts v n] by auto
  moreover have "content_length_lines ts vs (Some n) = Some n" using Cons by simp
  ultimately show ?case using Cons.prems(4) by auto
qed simp

lemma lengths_say_all:
  "reads_visible ts \<Longrightarrow> lengths_say p n \<Longrightarrow> content_length_parse_all ts p = Some n"
  using content_length_lines_agree [of ts "cl_lines p" n None]
  by (simp add: lengths_say_def content_length_parse_all_def content_length_parse_all_values_def)

text \<open>A written length reads back.\<close>

lemma digits_from_append:
  "digits_from r (a @ b) = (case digits_from r a of Some r' \<Rightarrow> digits_from r' b | None \<Rightarrow> None)"
  by (induction a arbitrary: r) (auto split: option.split)

lemma digits_from_show: "n < 2 ^ 64 \<Longrightarrow> digits_from 0 (map of_char (show_nat n)) = Some n"
proof (induction n rule: show_nat.induct)
  case (1 n)
  have d: "(of_char (char_of (48 + k) :: char) :: nat) = 48 + k" if "k < 10" for k :: nat
    using that by (simp add: of_char_of)
  show ?case
  proof (cases "n < 10")
    case True
    then show ?thesis
      using d [of n] by (subst show_nat.simps) (simp add: u64_checked_digit_def)
  next
    case False
    then have "digits_from 0 (map of_char (show_nat (n div 10))) = Some (n div 10)" using 1 by simp
    moreover have "n div 10 * 10 + n mod 10 = n" "n mod 10 < 10" "n div 10 * 10 < 2 ^ 64"
      using 1(2) by (simp, simp, linarith)
    ultimately show ?thesis
      using False 1(2) d [of "n mod 10"]
      by (subst show_nat.simps) (simp add: digits_from_append u64_checked_digit_def)
  qed
qed

lemma unat_ascii: "map unat (ascii s) = map of_char s"
proof -
  have "unat (word_of_nat (of_char c) :: byte) = of_char c" for c
  proof -
    have "(of_char c :: nat) < 256" by simp
    then show ?thesis by (simp add: unat_of_nat take_bit_nat_eq_self)
  qed
  then show ?thesis by (simp add: ascii_def)
qed

lemma content_length_parse_show: "n < 2 ^ 64 \<Longrightarrow> content_length_parse (ascii (show_nat n)) = Some n"
  using digits_from_show by (simp add: content_length_parse_def unat_ascii from_digits_def show_nat_nonempty)

text \<open>The length the encoder writes, as the reader names it.\<close>

fun kind_length :: "encoder_kind \<Rightarrow> decoded_length" where
  "kind_length (EncChunked _) = CHUNKED"
| "kind_length (EncLength n) = n"
| "kind_length EncCloseDelimited = CLOSE_DELIMITED"

lemma framed_length:
  assumes "framed_as ts version flds d" "te_lines flds = []" "reads_visible ts"
  shows "cl_lines flds = [] \<Longrightarrow> d = 0"
    and "cl_lines flds \<noteq> [] \<Longrightarrow> content_length_parse_all ts flds = Some d"
  using assms lengths_say_all by (auto simp: framed_as_def)

lemma framed_coding: "framed_as ts version flds d \<Longrightarrow> te_lines flds \<noteq> [] \<Longrightarrow> d = CHUNKED"
  by (simp add: framed_as_def)

lemma parse_all_lines: "content_length_parse_all ts flds = Some n \<Longrightarrow> cl_lines flds \<noteq> []"
  by (auto simp: content_length_parse_all_def content_length_parse_all_values_def)

lemma parse_all_cong:
  "cl_lines a = cl_lines b \<Longrightarrow> content_length_parse_all ts a = content_length_parse_all ts b"
  by (simp add: content_length_parse_all_def content_length_parse_all_values_def)

lemma framed_existing:
  assumes "framed_as ts version flds' d" "te_lines flds' = []" "reads_visible ts"
    "cl_lines flds' = cl_lines flds"
  shows "content_length_parse_all ts flds = Some n \<Longrightarrow> d = n"
    and "content_length_parse_all ts flds = None \<Longrightarrow> d = 0"
  using framed_length [OF assms(1-3)] parse_all_cong [OF assms(4)] parse_all_lines [of ts flds]
  by (metis assms(4) option.inject) (metis assms(4) parse_all_cong option.distinct(1) framed_length [OF assms(1-3)])

lemma framed_inserted:
  assumes "framed_as ts version (fst (set_content_length n flds)) d" "te_lines flds = []" "n < 2 ^ 64"
  shows "d = n"
  using assms content_length_parse_show [of n] by (simp add: set_content_length_def framed_as_def lengths_say_def)

lemma kind_into_chunked [simp]:
  "en_kind (into_chunked_with_trailing_fields a encoder_chunked) = EncChunked (Some a)"
  by (simp add: into_chunked_with_trailing_fields_def)

lemma encoder_is_chunked_kinds [simp]:
  "encoder_is_chunked encoder_chunked" "\<not> encoder_is_chunked (encoder_length n)"
  by (simp_all add: encoder_is_chunked_def)

lemma set_length_agrees:
  assumes ts: "reads_visible (hp_to_str lib)"
    and set: "set_length lib version method flds (Some body) = (flds', e)"
    and known: "\<And>n. body = LengthKnown n \<Longrightarrow> n < 2 ^ 64"
    and framed: "framed_as (hp_to_str lib) version flds' d"
  shows "d = kind_length (en_kind e)"
proof -
  let ?ts = "hp_to_str lib" and ?con = "content_length_parse_all (hp_to_str lib) flds"
  show ?thesis
  proof (cases "version = Http11")
    case False
    define flds1 where "flds1 = header_remove ''transfer-encoding'' flds"
    have te: "te_lines flds1 = []" "cl_lines flds1 = cl_lines flds" by (simp_all add: flds1_def)
    show ?thesis
    proof (cases ?con)
      case (Some len)
      then have "flds' = flds1" "e = encoder_length len"
        using set False by (simp_all add: set_length_def Let_def flds1_def)
      then show ?thesis using framed_existing(1) framed te ts Some by simp
    next
      case None
      show ?thesis
      proof (cases body)
        case (LengthKnown n)
        then have "flds' = fst (set_content_length n flds1)" "e = encoder_length n"
          using set False None by (auto simp: set_length_def Let_def flds1_def set_content_length_def)
        then show ?thesis using framed_inserted framed te known LengthKnown by simp
      next
        case LengthUnknown
        then have "flds' = flds1" "e = encoder_length 0"
          using set False None by (simp_all add: set_length_def Let_def flds1_def)
        then show ?thesis using framed_existing(2) framed te ts None by simp
      qed
    qed
  next
    case http11: True
    show ?thesis
    proof (cases "header_contains flds ''transfer-encoding''")
      case True
      then have "te_lines flds' \<noteq> [] \<and> kind_length (en_kind e) = CHUNKED"
        using set http11
        by (auto simp: set_length_def Let_def add_chunked_def header_get_all_map_last
            header_contains_get_all split: if_splits)
      then show ?thesis using framed_coding framed by simp
    next
      case False
      then have te: "te_lines flds = []" by (simp add: header_contains_get_all)
      show ?thesis
      proof (cases ?con)
        case (Some len)
        then have "flds' = flds" "e = encoder_length len"
          using set http11 False by (simp_all add: set_length_def Let_def)
        then show ?thesis using framed_existing(1) framed te ts Some by simp
      next
        case None
        show ?thesis
        proof (cases body)
          case (LengthKnown n)
          then have "flds' = fst (set_content_length n flds)" "e = encoder_length n"
            using set http11 False None by (auto simp: set_length_def Let_def set_content_length_def)
          then show ?thesis using framed_inserted framed te known LengthKnown by simp
        next
          case LengthUnknown
          show ?thesis
          proof (cases "method = ''GET'' \<or> method = ''HEAD'' \<or> method = ''CONNECT''")
            case True
            then have "flds' = flds" "e = encoder_length 0"
              using set http11 False None LengthUnknown by (auto simp: set_length_def Let_def)
            then show ?thesis using framed_existing(2) framed te ts None by simp
          next
            case m: False
            then have "te_lines flds' \<noteq> [] \<and> kind_length (en_kind e) = CHUNKED"
              using set http11 False None LengthUnknown
              by (auto simp: set_length_def Let_def split: if_splits)
            then show ?thesis using framed_coding framed by simp
          qed
        qed
      qed
    qed
  qed
qed

end
