(* ===== verification/H1_Codec.thy ===== *)
theory H1_Codec
  imports H1_Head_Encode H1_Body_Decode
begin

section \<open>The HTTP/1 codec\<close>

text \<open>
  src/h1/codec.rs: \<open>H1Codec\<close>, the read buffer of a connection with the framing state of its
  current message, in both roles; \<open>H1BodyDecoder\<close> only forwards to the facade of
  \<open>H1_Body_Decode\<close>. Every method runs under the codec's lock, so a method is one step on the state.
  Of a \<open>ValueError\<close> raised for an argument the crate http refuses only the part of the message that
  names the argument is kept. The library's parsers are the argument \<open>lib\<close>.
\<close>

subsection \<open>State and options\<close>

record h1_codec =
  hc_buf :: bytes
  hc_req_method :: "string option"
  hc_encoder :: "h1_encoder option"
  hc_head_buf :: bytes
  hc_request_connection_close :: bool
  hc_allow_trailer_fields :: bool
  hc_parse_error_status :: "u16 option"
  hc_response_is_last :: bool
  hc_response_close_delimited :: bool

record codec_options =
  co_max_headers :: "usize option"
  co_max_header_size :: "usize option"
  co_parser_config :: parser_config
  co_title_case_headers :: bool
  co_date_header :: bool
  co_max_buf_size :: usize

definition DEFAULT_MAX_BUFFER_SIZE :: usize where "DEFAULT_MAX_BUFFER_SIZE = 8192 + 4096 * 100"
definition MINIMUM_MAX_BUFFER_SIZE :: usize where "MINIMUM_MAX_BUFFER_SIZE = 8192"
definition CONTINUE_RESPONSE :: bytes where
  "CONTINUE_RESPONSE = ascii ''HTTP/1.1 100 Continue'' @ crlf @ crlf"

definition codec_start :: h1_codec where
  "codec_start =
     \<lparr>hc_buf = [], hc_req_method = None, hc_encoder = None, hc_head_buf = [],
      hc_request_connection_close = False, hc_allow_trailer_fields = True,
      hc_parse_error_status = None, hc_response_is_last = False, hc_response_close_delimited = False\<rparr>"

definition codec_new :: "codec_options \<Rightarrow> h1_pyerr + h1_codec \<times> codec_options" where
  "codec_new opts =
     (if co_max_buf_size opts < MINIMUM_MAX_BUFFER_SIZE
      then Inl (H1ValueError (''the max_buf_size cannot be smaller than '' @ show_nat MINIMUM_MAX_BUFFER_SIZE))
      else Inr (codec_start, opts))"

definition codec_reset :: "h1_codec \<Rightarrow> h1_codec" where
  "codec_reset c =
     c\<lparr>hc_req_method := None, hc_encoder := None, hc_request_connection_close := False,
       hc_allow_trailer_fields := True, hc_parse_error_status := None, hc_response_is_last := False,
       hc_response_close_delimited := False\<rparr>"

definition codec_feed :: "bytes \<Rightarrow> h1_codec \<Rightarrow> h1_codec" where
  "codec_feed data c = c\<lparr>hc_buf := hc_buf c @ data\<rparr>"

definition take_body :: "h1_codec \<Rightarrow> h1_codec \<times> bytes" where
  "take_body c = (c\<lparr>hc_buf := []\<rparr>, hc_buf c)"

definition take_body_into :: "h1_codec \<Rightarrow> body_decoder \<Rightarrow> h1_codec \<times> body_decoder" where
  "take_body_into c bd =
     (case take_body c of (c', body) \<Rightarrow> (c', if body \<noteq> [] then feed body bd else bd))"

definition codec_buffered :: "h1_codec \<Rightarrow> usize" where
  "codec_buffered c = length (hc_buf c)"

definition codec_body_kind :: "decode_kind \<Rightarrow> string \<times> u64 option" where
  "codec_body_kind b =
     (case b of
        BodyEmpty \<Rightarrow> (''empty'', Some 0)
      | BodyLength n \<Rightarrow> (''length'', Some n)
      | BodyChunked \<Rightarrow> (''chunked'', None)
      | BodyCloseDelimited \<Rightarrow> (''close'', None))"

subsection \<open>Parsing a head within bounds\<close>

type_synonym 'a head_result = "bytes \<times> (hyper_error + 'a option)"

definition bounded_parse ::
  "codec_options \<Rightarrow> (bytes \<Rightarrow> 'a head_result option) \<Rightarrow> bytes \<Rightarrow> 'a head_result option" where
  "bounded_parse opts parse buf =
     (case parse buf of
        None \<Rightarrow> None
      | Some (rest, Inr None) \<Rightarrow>
          if (case co_max_header_size opts of Some m \<Rightarrow> m \<le> length rest | None \<Rightarrow> False)
             \<or> co_max_buf_size opts \<le> length rest
          then Some (rest, Inl too_large_error) else Some (rest, Inr None)
      | Some (rest, r) \<Rightarrow> Some (rest, r))"

lemma bounded_parse_rest:
  "bounded_parse opts parse buf = Some (rest, Inr None) \<Longrightarrow> length rest < co_max_buf_size opts"
  by (auto simp: bounded_parse_def split: option.splits sum.splits if_splits)

text \<open>The loop shows the parser at most \<open>max_buf_size\<close> bytes at a time; a further round follows
  only when the parser has consumed some.\<close>

function parse_head ::
  "codec_options \<Rightarrow> (bytes \<Rightarrow> 'a head_result option) \<Rightarrow> bytes \<Rightarrow> 'a head_result option" where
  "parse_head opts parse buf =
     (if length buf \<le> co_max_buf_size opts then bounded_parse opts parse buf
      else
        let suffix = drop (co_max_buf_size opts) buf
        in case bounded_parse opts parse (take (co_max_buf_size opts) buf) of
             None \<Rightarrow> None
           | Some (rest, Inr None) \<Rightarrow> parse_head opts parse (rest @ suffix)
           | Some (rest, r) \<Rightarrow> Some (rest @ suffix, r))"
  by pat_completeness auto
termination
  by (relation "measure (\<lambda>(opts, parse, buf). length buf)") (auto dest!: bounded_parse_rest)

declare parse_head.simps [simp del]

subsection \<open>The client role\<close>

record response_head =
  rh_status :: u16
  rh_keep_alive :: bool
  rh_headers :: header_map
  rh_kind :: string
  rh_content_length :: "u64 option"
  rh_is_upgrade :: bool
  rh_http10 :: bool
  rh_wants_keep_alive :: bool

definition request_body :: "u64 option \<Rightarrow> bool \<Rightarrow> u64 option option" where
  "request_body content_length chunked = (if chunked then Some None else map_option Some content_length)"

definition serialize_request ::
  "h1_lib \<Rightarrow> codec_options \<Rightarrow> string \<Rightarrow> string \<Rightarrow> header_map option \<Rightarrow> bool \<Rightarrow> u64 option \<Rightarrow> bool
   \<Rightarrow> h1_codec \<Rightarrow> h1_codec \<times> (h1_pyerr + bytes)" where
  "serialize_request lib opts method url flds http10 content_length chunked c =
     (case hp_method lib (ascii method) of
        None \<Rightarrow> (c, Inl (H1ValueError ''invalid method''))
      | Some m \<Rightarrow>
          (case hp_uri lib (ascii url) of
             None \<Rightarrow> (c, Inl (H1ValueError ''invalid url''))
           | Some uri \<Rightarrow>
               let flds = (case flds of Some f \<Rightarrow> f | None \<Rightarrow> []);
                   (head, encoder) = encode_request lib m uri flds (request_body content_length chunked)
                                       http10 (co_title_case_headers opts)
               in (c\<lparr>hc_head_buf := head, hc_req_method := Some m, hc_encoder := Some encoder,
                     hc_request_connection_close := connection_any_close (hp_to_str lib) flds\<rparr>,
                   Inr head)))"

definition response_event :: "h1_codec \<Rightarrow> parsed_head \<Rightarrow> response_head" where
  "response_event c head =
     (case codec_body_kind (ph_body head) of (kind, content_length) \<Rightarrow>
        \<lparr>rh_status = ph_status head, rh_keep_alive = ph_keep_alive head, rh_headers = ph_headers head,
         rh_kind = kind, rh_content_length = content_length, rh_is_upgrade = ph_wants_upgrade head,
         rh_http10 = ph_http10 head,
         rh_wants_keep_alive =
           (ph_keep_alive head \<and> kind \<noteq> ''close'' \<and> \<not> hc_request_connection_close c)\<rparr>)"

definition receive_head ::
  "h1_lib \<Rightarrow> codec_options \<Rightarrow> bytes \<Rightarrow> h1_codec \<Rightarrow> (h1_codec \<times> (h1_pyerr + response_head option)) option"
where
  "receive_head lib opts data c =
     map_option (\<lambda>(buf, r).
         (c\<lparr>hc_buf := buf\<rparr>,
          case r of
            Inl e \<Rightarrow> Inl (map_hyper_err e)
          | Inr None \<Rightarrow> Inr None
          | Inr (Some head) \<Rightarrow> Inr (Some (response_event c head))))
       (parse_head opts
          (parse_response lib (co_parser_config opts) (co_max_headers opts) (co_max_header_size opts)
             (hc_req_method c))
          (hc_buf c @ data))"

subsection \<open>The server role\<close>

record request_head =
  qh_is_connect :: bool
  qh_method :: string
  qh_target :: string
  qh_keep_alive :: bool
  qh_headers :: header_map
  qh_kind :: string
  qh_content_length :: "u64 option"
  qh_expect_continue :: bool
  qh_is_upgrade :: bool
  qh_http10 :: bool
  qh_allow_trailers :: bool

definition request_event :: "parsed_request \<Rightarrow> request_head" where
  "request_event head =
     (case codec_body_kind (pq_body head) of (kind, content_length) \<Rightarrow>
        \<lparr>qh_is_connect = (pq_method head = ''CONNECT''), qh_method = pq_method head,
         qh_target = pq_target head, qh_keep_alive = pq_keep_alive head, qh_headers = pq_headers head,
         qh_kind = kind, qh_content_length = content_length,
         qh_expect_continue = pq_expect_continue head, qh_is_upgrade = pq_wants_upgrade head,
         qh_http10 = pq_http10 head, qh_allow_trailers = pq_allow_trailers head\<rparr>)"

definition receive_request_head ::
  "h1_lib \<Rightarrow> codec_options \<Rightarrow> bytes \<Rightarrow> h1_codec \<Rightarrow> h1_codec \<times> (h1_pyerr + request_head option)" where
  "receive_request_head lib opts data c =
     (case parse_head opts
             (\<lambda>buf. Some (parse_request lib (co_parser_config opts) (co_max_headers opts)
                            (co_max_header_size opts) buf))
             (hc_buf c @ data) of
        None \<Rightarrow> (c, Inl H1Panic)
      | Some (buf, Inl e) \<Rightarrow>
          (case server_parse_failure buf e of
             (e', status) \<Rightarrow>
               (c\<lparr>hc_buf := buf, hc_parse_error_status := status\<rparr>, Inl (map_hyper_err e')))
      | Some (buf, Inr None) \<Rightarrow> (c\<lparr>hc_buf := buf\<rparr>, Inr None)
      | Some (buf, Inr (Some head)) \<Rightarrow>
          (c\<lparr>hc_buf := buf, hc_req_method := Some (pq_method head),
             hc_allow_trailer_fields := pq_allow_trailers head\<rparr>,
           Inr (Some (request_event head))))"

definition serialize_response ::
  "h1_lib \<Rightarrow> (u16 \<Rightarrow> string option) \<Rightarrow> bytes \<Rightarrow> codec_options \<Rightarrow> u16 \<Rightarrow> header_map option \<Rightarrow> bool \<Rightarrow> bool
   \<Rightarrow> u64 option \<Rightarrow> bool \<Rightarrow> h1_codec \<Rightarrow> h1_codec \<times> (h1_pyerr + bytes)" where
  "serialize_response lib canonical_reason date opts status flds keep_alive http10 content_length chunked c =
     (if \<not> (100 \<le> status \<and> status < 1000) then (c, Inl (H1ValueError ''invalid status''))
      else case encode_response lib canonical_reason date status
                  (case flds of Some f \<Rightarrow> f | None \<Rightarrow> []) (request_body content_length chunked)
                  (hc_req_method c) keep_alive http10 (co_title_case_headers opts) (co_date_header opts) of
             None \<Rightarrow> (c, Inl H1Panic)
           | Some (head, Inl e) \<Rightarrow> (c\<lparr>hc_head_buf := head\<rparr>, Inl (map_hyper_err e))
           | Some (head, Inr encoder) \<Rightarrow>
               (c\<lparr>hc_head_buf := head, hc_response_is_last := en_is_last encoder,
                  hc_response_close_delimited := encoder_is_close_delimited encoder,
                  hc_encoder := Some encoder\<rparr>,
                Inr head))"

subsection \<open>The body\<close>

definition body_is_eof :: "h1_codec \<Rightarrow> bool" where
  "body_is_eof c = (case hc_encoder c of None \<Rightarrow> True | Some e \<Rightarrow> encoder_is_eof e)"

definition serialize_data :: "bytes \<Rightarrow> h1_codec \<Rightarrow> h1_codec \<times> (h1_pyerr + bytes)" where
  "serialize_data chunk c =
     (if chunk = [] then (c, Inr chunk)
      else case hc_encoder c of
             None \<Rightarrow> (c, Inl (H1ValueError ''serialize_data with no request in flight''))
           | Some enc \<Rightarrow>
               (case body_encode chunk enc of
                  None \<Rightarrow> (c, Inl H1Panic)
                | Some (enc', buf, verbatim) \<Rightarrow>
                    (c\<lparr>hc_encoder := Some enc'\<rparr>, Inr (if verbatim then chunk else buf_bytes buf))))"

definition serialize_end :: "h1_codec \<Rightarrow> h1_codec \<times> (h1_pyerr + bytes)" where
  "serialize_end c =
     (c\<lparr>hc_encoder := None\<rparr>,
      case hc_encoder c of
        Some enc \<Rightarrow> map_sum map_hyper_err tail_bytes (body_end enc)
      | None \<Rightarrow> Inr (tail_bytes TailNone))"

definition codec_tail :: "codec_options \<Rightarrow> bool \<Rightarrow> header_map option \<Rightarrow> h1_encoder \<Rightarrow> hyper_error + body_tail"
where
  "codec_tail opts allowed trailers enc =
     (case trailers of
        Some t \<Rightarrow> if allowed then end_with_trailers t (co_title_case_headers opts) enc else body_end enc
      | None \<Rightarrow> body_end enc)"

definition serialize_trailers ::
  "codec_options \<Rightarrow> header_map \<Rightarrow> h1_codec \<Rightarrow> h1_codec \<times> (h1_pyerr + bytes)" where
  "serialize_trailers opts trailers c =
     (c\<lparr>hc_encoder := None\<rparr>,
      case hc_encoder c of
        Some enc \<Rightarrow>
          map_sum map_hyper_err tail_bytes (codec_tail opts (hc_allow_trailer_fields c) (Some trailers) enc)
      | None \<Rightarrow> Inr (tail_bytes TailNone))"

definition serialize_head_and_body ::
  "codec_options \<Rightarrow> bytes \<Rightarrow> bytes option \<Rightarrow> header_map option \<Rightarrow> h1_codec
   \<Rightarrow> h1_codec \<times> (h1_pyerr + bytes)" where
  "serialize_head_and_body opts head body trailers c =
     (c\<lparr>hc_encoder := None\<rparr>,
      case hc_encoder c of
        None \<Rightarrow> Inr head
      | Some enc \<Rightarrow>
          if encoder_is_eof enc
          then map_sum map_hyper_err (\<lambda>tail. head @ tail_bytes tail) (body_end enc)
          else
            (case (case body of
                     Some b \<Rightarrow>
                       if b \<noteq> [] then map_option (\<lambda>(e, buf, _). (e, buf_bytes buf)) (body_encode b enc)
                       else Some (enc, [])
                   | None \<Rightarrow> Some (enc, [])) of
               None \<Rightarrow> Inl H1Panic
             | Some (enc', framed) \<Rightarrow>
                 map_sum map_hyper_err (\<lambda>tail. head @ framed @ tail_bytes tail)
                   (codec_tail opts (hc_allow_trailer_fields c) trailers enc')))"

subsection \<open>Lemmas\<close>

text \<open>A head that does not arrive is refused at the cap.\<close>

lemma parse_head_incomplete:
  "parse_head opts parse buf = Some (rest, Inr None) \<Longrightarrow>
   length rest < co_max_buf_size opts \<and> (\<forall>m. co_max_header_size opts = Some m \<longrightarrow> length rest < m)"
proof (induction opts parse buf rule: parse_head.induct)
  case (1 opts parse buf)
  show ?case
  proof (cases "length buf \<le> co_max_buf_size opts")
    case True
    then have "bounded_parse opts parse buf = Some (rest, Inr None)"
      using 1(2) by (simp add: parse_head.simps [of opts parse buf])
    then show ?thesis by (auto simp: bounded_parse_def split: option.splits sum.splits if_splits)
  next
    case False
    then obtain rest' where "bounded_parse opts parse (take (co_max_buf_size opts) buf) = Some (rest', Inr None)"
      "parse_head opts parse (rest' @ drop (co_max_buf_size opts) buf) = Some (rest, Inr None)"
      using 1(2)
      by (subst (asm) parse_head.simps) (auto simp: Let_def split: option.splits sum.splits)
    then show ?thesis using 1(1) False by simp
  qed
qed

text \<open>The parser returns whatever it is shown; a total parser makes the loop return.\<close>

lemma parse_head_returns:
  "\<forall>b. parse b \<noteq> None \<Longrightarrow> parse_head opts parse buf \<noteq> None"
proof (induction opts parse buf rule: parse_head.induct)
  case (1 opts parse buf)
  have bounded: "bounded_parse opts parse b \<noteq> None" for b
    using 1(2) by (auto simp: bounded_parse_def split: option.splits sum.splits)
  show ?case
  proof (cases "length buf \<le> co_max_buf_size opts")
    case True
    then show ?thesis using bounded by (simp add: parse_head.simps [of opts parse buf])
  next
    case False
    obtain rest r where r: "bounded_parse opts parse (take (co_max_buf_size opts) buf) = Some (rest, r)"
      using bounded by fastforce
    show ?thesis
    proof (cases "r = Inr None")
      case True
      then have "parse_head opts parse (rest @ drop (co_max_buf_size opts) buf) \<noteq> None"
        using 1(1) [OF False refl] r 1(2) by simp
      then show ?thesis using False r True by (simp add: parse_head.simps [of opts parse buf] Let_def)
    next
      case f: False
      then show ?thesis
        using False r
        by (simp add: parse_head.simps [of opts parse buf] Let_def split: sum.split option.split)
    qed
  qed
qed

lemma receive_request_head_no_panic:
  "snd (receive_request_head lib opts data c) \<noteq> Inl H1Panic"
proof -
  let ?parse = "\<lambda>buf. Some (parse_request lib (co_parser_config opts) (co_max_headers opts)
                     (co_max_header_size opts) buf)"
  have "parse_head opts ?parse (hc_buf c @ data) \<noteq> None" by (rule parse_head_returns) blast
  then obtain x where x: "parse_head opts ?parse (hc_buf c @ data) = Some x" by blast
  obtain buf r where "x = (buf, r)" by (rule prod.exhaust)
  with x have r: "parse_head opts ?parse (hc_buf c @ data) = Some (buf, r)" by (rule back_subst)
  show ?thesis
  proof (cases r)
    case (Inl e)
    obtain e' status where "server_parse_failure buf e = (e', status)" by fastforce
    then show ?thesis using r Inl by (simp add: receive_request_head_def)
  next
    case (Inr h)
    then show ?thesis using r by (cases h) (simp_all add: receive_request_head_def)
  qed
qed

lemma receive_request_head_incomplete:
  "receive_request_head lib opts data c = (c', Inr None) \<Longrightarrow>
   codec_buffered c' < co_max_buf_size opts
   \<and> (\<forall>m. co_max_header_size opts = Some m \<longrightarrow> codec_buffered c' < m)"
  by (auto simp: receive_request_head_def codec_buffered_def dest: parse_head_incomplete
      split: option.splits sum.splits prod.splits)

text \<open>A verbatim chunk is the caller's buffer.\<close>

lemma body_encode_verbatim:
  "body_encode chunk enc = Some (enc', buf, True) \<Longrightarrow> buf_bytes buf = chunk"
  by (auto simp: body_encode_def encoder_encode_def encoder_is_chunked_def buf_remaining_def Let_def
      split: encoder_kind.splits option.splits if_splits)

text \<open>One buffer for a whole message holds what the three separate calls write.\<close>

lemma head_and_body_pieces:
  assumes "\<not> body_is_eof c" and "length body < 2 ^ 64"
  shows "serialize_head_and_body opts head (Some body) None c =
     (case serialize_data body c of
        (c1, Inl e) \<Rightarrow> (c1, Inl e)
      | (c1, Inr d) \<Rightarrow> (case serialize_end c1 of (c2, r) \<Rightarrow> (c2, map_sum id (\<lambda>t. head @ d @ t) r)))"
proof -
  obtain enc where enc: "hc_encoder c = Some enc" "\<not> encoder_is_eof enc"
    using assms(1) by (auto simp: body_is_eof_def split: option.splits)
  obtain enc' buf verbatim where b: "body_encode body enc = Some (enc', buf, verbatim)"
    using body_encode_no_panic [OF assms(2)] by (metis not_None_eq surj_pair)
  have "(if verbatim then body else buf_bytes buf) = buf_bytes buf"
    using body_encode_verbatim b by auto
  then show ?thesis
    using enc b
    by (cases "body = []")
      (simp_all add: serialize_head_and_body_def serialize_data_def serialize_end_def codec_tail_def
        map_sum.compositionality map_sum.comp comp_def sum.map_comp split: sum.split)
qed

end
