(* ===== verification/H1_Server.thy ===== *)
theory H1_Server
  imports H1_Codec
begin

section \<open>The HTTP/1 server connection\<close>

text \<open>
  src/h1/conn.rs, \<open>H1ServerState\<close>: the connection and its current request under one mutex. Each
  method is one critical section and here one function on the state; besides the new state it
  returns what the method returns. The codec and the decoder of the current request are part of the
  state, since the methods change them under the same lock; the head parser and encoder, the date
  and the codec's options are the argument \<open>env\<close>. Clock readings are natural numbers of some unit.
  What a method hands back only to be dropped outside the lock is not modelled.
\<close>

subsection \<open>Verdicts\<close>

datatype conn_verdict =
    NEXT_NONE | NEXT_RAISE | NEXT_CLOSE | NEXT_DRAIN
  | READ_PARSE | READ_SHUTDOWN | READ_WATCHER | READ_TRANSPORT | READ_EOF

datatype req_verdict =
    REQ_OK | REQ_ALREADY | REQ_STALE | REQ_PARKED | REQ_PEER_CLOSED | REQ_CONTINUE

record h1_env =
  he_lib :: h1_lib
  he_reason :: "u16 \<Rightarrow> string option"
  he_date :: bytes
  he_opts :: codec_options

subsection \<open>State\<close>

record h1_watcher =
  wa_handle :: "pyobj option"
  wa_done :: pyobj
  wa_data :: "bytes option"
  wa_error :: "pyobj option"
  wa_completed :: bool

definition new_watcher :: "pyobj \<Rightarrow> h1_watcher" where
  "new_watcher done =
     \<lparr>wa_handle = None, wa_done = done, wa_data = None, wa_error = None, wa_completed = False\<rparr>"

record h1_current =
  cu_seq :: u64
  cu_decoder :: "body_decoder option"
  cu_expect_continue :: bool
  cu_http10 :: bool
  cu_request_keep_alive :: bool
  cu_is_upgrade :: bool
  cu_is_connect :: bool
  cu_upgrade_request :: bool
  cu_responded :: bool
  cu_head_pending :: bool
  cu_response_done :: bool
  cu_body_done :: bool
  cu_reading_body :: bool
  cu_continue_sent :: bool
  cu_peer_closed :: bool
  cu_head_negotiated :: bool
  cu_is_switch :: bool
  cu_keep_alive :: bool
  cu_watch_wanted :: bool

definition current_none :: h1_current where
  "current_none =
     \<lparr>cu_seq = 0, cu_decoder = None, cu_expect_continue = False, cu_http10 = False,
      cu_request_keep_alive = False, cu_is_upgrade = False, cu_is_connect = False,
      cu_upgrade_request = False, cu_responded = False, cu_head_pending = False,
      cu_response_done = True, cu_body_done = True, cu_reading_body = False,
      cu_continue_sent = False, cu_peer_closed = False, cu_head_negotiated = False,
      cu_is_switch = False, cu_keep_alive = False, cu_watch_wanted = False\<rparr>"

record h1_server =
  sv_codec :: h1_codec
  sv_transport :: "pyobj option"
  sv_closed :: bool
  sv_reusable :: bool
  sv_upgraded :: bool
  sv_half_close :: bool
  sv_keep_alive_enabled :: bool
  sv_shutdown_requested :: bool
  sv_idle_read_parked :: bool
  sv_head_read_since :: "nat option"
  sv_watcher :: "h1_watcher option"
  sv_current :: h1_current
  sv_next_seq :: u64

definition server_new :: "h1_codec \<Rightarrow> pyobj \<Rightarrow> bool \<Rightarrow> bool \<Rightarrow> h1_server" where
  "server_new codec transport keep_alive half_close =
     \<lparr>sv_codec = codec, sv_transport = Some transport, sv_closed = False, sv_reusable = True,
      sv_upgraded = False, sv_half_close = half_close, sv_keep_alive_enabled = keep_alive,
      sv_shutdown_requested = False, sv_idle_read_parked = False, sv_head_read_since = None,
      sv_watcher = None, sv_current = current_none, sv_next_seq = 1\<rparr>"

abbreviation in_current :: "(h1_current \<Rightarrow> h1_current) \<Rightarrow> h1_server \<Rightarrow> h1_server" where
  "in_current f s \<equiv> s\<lparr>sv_current := f (sv_current s)\<rparr>"

definition is_current :: "u64 \<Rightarrow> h1_server \<Rightarrow> bool" where
  "is_current seq s \<longleftrightarrow> cu_seq (sv_current s) = seq \<and> seq \<noteq> 0"

definition watcher_parked :: "h1_server \<Rightarrow> bool" where
  "watcher_parked s \<longleftrightarrow> (case sv_watcher s of Some w \<Rightarrow> \<not> wa_completed w | None \<Rightarrow> False)"

definition decoder_buffered :: "h1_current \<Rightarrow> usize" where
  "decoder_buffered c = (case cu_decoder c of Some d \<Rightarrow> buffered d | None \<Rightarrow> 0)"

subsection \<open>Internal transitions\<close>

text \<open>The bytes a decoder holds past its body go back to the codec.\<close>

definition feed_decoder_leftover :: "h1_server \<Rightarrow> h1_server" where
  "feed_decoder_leftover s =
     (case cu_decoder (sv_current s) of
        None \<Rightarrow> s
      | Some dec \<Rightarrow>
          if 0 < buffered dec then
            (case take_buffered dec of (dec', b) \<Rightarrow>
               (in_current (cu_decoder_update (\<lambda>_. Some dec')) s)\<lparr>sv_codec := codec_feed b (sv_codec s)\<rparr>)
          else s)"

definition arm_decision :: "pyobj \<Rightarrow> h1_server \<Rightarrow> h1_server \<times> bool" where
  "arm_decision done s =
     (let c = sv_current s
      in if \<not> cu_watch_wanted c then (s, False)
         else if sv_half_close s \<or> sv_closed s \<or> sv_transport s = None \<or> sv_watcher s \<noteq> None then (s, False)
         else if \<not> cu_body_done c \<or> cu_response_done c then (s, False)
         else if cu_upgrade_request c \<and> (\<not> cu_head_negotiated c \<or> cu_is_switch c) then (s, False)
         else if 0 < codec_buffered (sv_codec s) then (s, False)
         else if 0 < decoder_buffered c then (feed_decoder_leftover s, False)
         else (s\<lparr>sv_watcher := Some (new_watcher done)\<rparr>, True))"

definition get_or_insert :: "nat \<Rightarrow> nat option \<Rightarrow> nat option" where
  "get_or_insert now since = (case since of Some t \<Rightarrow> Some t | None \<Rightarrow> Some now)"

text \<open>The object handed back: the watcher's event or the transport.\<close>

definition read_verdict :: "nat \<Rightarrow> h1_server \<Rightarrow> h1_server \<times> conn_verdict \<times> pyobj option" where
  "read_verdict now s =
     (let started = s\<lparr>sv_head_read_since := get_or_insert now (sv_head_read_since s)\<rparr>
      in if 0 < codec_buffered (sv_codec s) then (started, READ_PARSE, None)
         else if sv_shutdown_requested s then (s, READ_SHUTDOWN, None)
         else case sv_watcher s of
                Some w \<Rightarrow> (started\<lparr>sv_idle_read_parked := True\<rparr>, READ_WATCHER, Some (wa_done w))
              | None \<Rightarrow>
                  (case sv_transport s of
                     Some t \<Rightarrow> (started\<lparr>sv_idle_read_parked := True\<rparr>, READ_TRANSPORT, Some t)
                   | None \<Rightarrow> (s, READ_EOF, None)))"

definition begin_request :: "body_decoder \<Rightarrow> request_head \<Rightarrow> bool \<Rightarrow> h1_server \<Rightarrow> h1_server \<times> u64" where
  "begin_request decoder head body_complete s =
     (s\<lparr>sv_next_seq := sv_next_seq s + 1,
        sv_current :=
          \<lparr>cu_seq = sv_next_seq s, cu_decoder = Some decoder,
           cu_expect_continue = qh_expect_continue head, cu_http10 = qh_http10 head,
           cu_request_keep_alive = qh_keep_alive head, cu_is_upgrade = qh_is_upgrade head,
           cu_is_connect = qh_is_connect head,
           cu_upgrade_request = (qh_is_upgrade head \<or> qh_is_connect head),
           cu_responded = False, cu_head_pending = False, cu_response_done = False,
           cu_body_done = body_complete, cu_reading_body = False, cu_continue_sent = False,
           cu_peer_closed = False, cu_head_negotiated = False, cu_is_switch = False,
           cu_keep_alive = False, cu_watch_wanted = False\<rparr>\<rparr>,
      sv_next_seq s)"

definition ready_for_next :: "h1_server \<Rightarrow> h1_server" where
  "ready_for_next s =
     (let s1 = feed_decoder_leftover s
      in s1\<lparr>sv_codec := codec_reset (sv_codec s1),
            sv_current := (sv_current s1)\<lparr>cu_decoder := None, cu_response_done := True, cu_body_done := True\<rparr>\<rparr>)"

definition close_now :: "h1_server \<Rightarrow> h1_server \<times> pyobj option" where
  "close_now s =
     (let s1 = s\<lparr>sv_closed := True, sv_reusable := False\<rparr>
      in if sv_upgraded s1 then (s1, None) else (s1\<lparr>sv_transport := None\<rparr>, sv_transport s1))"

subsection \<open>The accept loop\<close>

definition begin_read :: "nat \<Rightarrow> h1_server \<Rightarrow> h1_server \<times> conn_verdict \<times> pyobj option" where
  "begin_read now s =
     (if sv_closed s \<or> \<not> sv_reusable s then (s, NEXT_NONE, None)
      else if cu_seq (sv_current s) \<noteq> 0 \<and> \<not> cu_response_done (sv_current s) then (s, NEXT_RAISE, None)
      else if cu_seq (sv_current s) \<noteq> 0 \<and> \<not> cu_body_done (sv_current s) then
        (if cu_reading_body (sv_current s)
         then (case close_now s of (s', t) \<Rightarrow> (s', NEXT_CLOSE, t))
         else (in_current (cu_reading_body_update (\<lambda>_. True)) s, NEXT_DRAIN, None))
      else read_verdict now (ready_for_next s))"

definition drain_done :: "nat \<Rightarrow> bool \<Rightarrow> h1_server \<Rightarrow> h1_server \<times> conn_verdict \<times> pyobj option" where
  "drain_done now complete s =
     (let s1 = in_current (cu_reading_body_update (\<lambda>_. False)) s
      in if \<not> complete then (case close_now s1 of (s', t) \<Rightarrow> (s', NEXT_CLOSE, t))
         else read_verdict now (ready_for_next (in_current (cu_body_done_update (\<lambda>_. True)) s1)))"

definition unpark_idle_read :: "h1_server \<Rightarrow> h1_server \<times> bool" where
  "unpark_idle_read s = (s\<lparr>sv_idle_read_parked := False\<rparr>, sv_closed s)"

definition accept_head ::
  "h1_env \<Rightarrow> bytes \<Rightarrow> h1_server \<Rightarrow> h1_server \<times> (h1_pyerr + (request_head \<times> u64) option)" where
  "accept_head env data s =
     (let s1 = s\<lparr>sv_idle_read_parked := False\<rparr>
      in if sv_closed s1 then (s1, Inr None)
         else case receive_request_head (he_lib env) (he_opts env) data (sv_codec s1) of
                (c, Inl e) \<Rightarrow> (s1\<lparr>sv_codec := c\<rparr>, Inl e)
              | (c, Inr None) \<Rightarrow> (s1\<lparr>sv_codec := c\<rparr>, Inr None)
              | (c, Inr (Some h)) \<Rightarrow>
                  let decoder = body_decoder_new (qh_kind h)
                                  (case qh_content_length h of Some n \<Rightarrow> n | None \<Rightarrow> 0)
                                  (co_max_headers (he_opts env)) (co_max_header_size (he_opts env));
                      (c', decoder') = take_body_into c decoder;
                      (s2, seq) = begin_request decoder' h (is_complete decoder')
                                    (s1\<lparr>sv_codec := c', sv_head_read_since := None\<rparr>)
                  in (s2, Inr (Some (h, seq))))"

definition head_read_overdue ::
  "nat \<Rightarrow> nat \<Rightarrow> h1_server \<Rightarrow> h1_server \<times> bool \<times> nat option \<times> pyobj option" where
  "head_read_overdue now timeout s =
     (if sv_closed s then (s, False, None, None)
      else case sv_head_read_since s of
             None \<Rightarrow> (s, False, None, None)
           | Some since \<Rightarrow>
               let elapsed = now - since
               in if elapsed < timeout then (s, False, Some (timeout - elapsed), None)
                  else (case close_now s of (s', t) \<Rightarrow> (s', True, None, t)))"

definition fail_read :: "h1_server \<Rightarrow> h1_server \<times> pyobj option" where
  "fail_read s = close_now s"

definition stop_serving :: "h1_server \<Rightarrow> h1_server" where
  "stop_serving s = s\<lparr>sv_closed := True, sv_reusable := False\<rparr>"

definition mark_closed :: "h1_server \<Rightarrow> h1_server \<times> pyobj option \<times> pyobj option \<times> bool" where
  "mark_closed s =
     (case close_now s of (s', t) \<Rightarrow> (s', t, map_option wa_done (sv_watcher s'), sv_closed s))"

definition mark_unusable :: "h1_server \<Rightarrow> h1_server" where
  "mark_unusable s = s\<lparr>sv_reusable := False\<rparr>"

definition request_shutdown :: "h1_server \<Rightarrow> h1_server \<times> pyobj option" where
  "request_shutdown s =
     (let s1 = s\<lparr>sv_reusable := False, sv_shutdown_requested := True\<rparr>
      in if sv_idle_read_parked s1 then close_now s1 else (s1, None))"

subsection \<open>The current request\<close>

definition try_send_continue :: "u64 \<Rightarrow> h1_server \<Rightarrow> h1_server \<times> bool" where
  "try_send_continue seq s =
     (let c = sv_current s
      in if \<not> is_current seq s then (s, False)
         else if \<not> cu_expect_continue c \<or> cu_continue_sent c \<or> cu_responded c \<or> cu_http10 c then (s, False)
         else (in_current (cu_continue_sent_update (\<lambda>_. True)) s, True))"

definition begin_body_read :: "u64 \<Rightarrow> h1_server \<Rightarrow> h1_server \<times> bool" where
  "begin_body_read seq s =
     (if \<not> is_current seq s \<or> cu_body_done (sv_current s) \<or> cu_reading_body (sv_current s) then (s, False)
      else (in_current (cu_reading_body_update (\<lambda>_. True)) s, True))"

definition end_body_read :: "u64 \<Rightarrow> bool \<Rightarrow> h1_server \<Rightarrow> h1_server" where
  "end_body_read seq complete s =
     (if \<not> is_current seq s then s
      else
        let s1 = in_current (cu_reading_body_update (\<lambda>_. False)) s
        in if complete then in_current (cu_body_done_update (\<lambda>_. True)) s1 else s1)"

definition peer_closed_now :: "u64 \<Rightarrow> h1_server \<Rightarrow> bool option" where
  "peer_closed_now seq s =
     (if \<not> is_current seq s then Some False
      else if cu_response_done (sv_current s) then Some (cu_peer_closed (sv_current s))
      else None)"

definition peer_closed_flag :: "u64 \<Rightarrow> h1_server \<Rightarrow> bool" where
  "peer_closed_flag seq s \<longleftrightarrow> is_current seq s \<and> cu_peer_closed (sv_current s)"

definition arm_watcher :: "u64 \<Rightarrow> pyobj \<Rightarrow> bool \<Rightarrow> bool \<Rightarrow> h1_server \<Rightarrow> h1_server \<times> bool" where
  "arm_watcher seq done want head_negotiated s =
     (if \<not> is_current seq s then (s, False)
      else
        let s1 = (if head_negotiated then in_current (cu_head_negotiated_update (\<lambda>_. True)) s else s);
            s2 = (if want then in_current (cu_watch_wanted_update (\<lambda>_. True)) s1 else s1)
        in arm_decision done s2)"

definition store_watcher_handle :: "pyobj \<Rightarrow> h1_server \<Rightarrow> h1_server \<times> pyobj option" where
  "store_watcher_handle handle s =
     (if sv_closed s then (s, Some handle)
      else case sv_watcher s of
             Some w \<Rightarrow>
               if wa_handle w = None then (s\<lparr>sv_watcher := Some (w\<lparr>wa_handle := Some handle\<rparr>)\<rparr>, None)
               else (s, Some handle)
           | None \<Rightarrow> (s, Some handle))"

definition watcher_completed :: "bytes option \<Rightarrow> pyobj option \<Rightarrow> h1_server \<Rightarrow> h1_server \<times> bool" where
  "watcher_completed data error s =
     (let gone = (case data of None \<Rightarrow> True | Some d \<Rightarrow> d = [])
      in case sv_watcher s of
           None \<Rightarrow> (s, False)
         | Some w \<Rightarrow>
             let s1 = s\<lparr>sv_watcher := Some (w\<lparr>wa_data := data, wa_error := error, wa_completed := True\<rparr>)\<rparr>
             in if gone \<and> \<not> cu_response_done (sv_current s1) \<and> \<not> cu_peer_closed (sv_current s1)
                then ((in_current (cu_peer_closed_update (\<lambda>_. True)) s1)\<lparr>sv_reusable := False\<rparr>, True)
                else (s1, False))"

definition watcher_aborted :: "h1_server \<Rightarrow> h1_server" where
  "watcher_aborted s =
     (case sv_watcher s of
        Some w \<Rightarrow> s\<lparr>sv_watcher := Some (w\<lparr>wa_completed := True\<rparr>)\<rparr>
      | None \<Rightarrow> s)"

definition watcher_done :: "h1_server \<Rightarrow> pyobj option" where
  "watcher_done s = map_option wa_done (sv_watcher s)"

definition take_watcher_handle :: "h1_server \<Rightarrow> h1_server \<times> pyobj option" where
  "take_watcher_handle s =
     (case sv_watcher s of
        Some w \<Rightarrow> (s\<lparr>sv_watcher := Some (w\<lparr>wa_handle := None\<rparr>)\<rparr>, wa_handle w)
      | None \<Rightarrow> (s, None))"

definition take_watcher_result :: "h1_server \<Rightarrow> h1_server \<times> bytes option \<times> pyobj option" where
  "take_watcher_result s =
     (case sv_watcher s of
        None \<Rightarrow> (s, None, None)
      | Some w \<Rightarrow>
          (s\<lparr>sv_watcher := (if wa_handle w = None then None
                             else Some (w\<lparr>wa_data := None, wa_error := None\<rparr>))\<rparr>,
           wa_data w, wa_error w))"

definition close_window :: "u64 \<Rightarrow> h1_server \<Rightarrow> h1_server \<times> bool" where
  "close_window seq s =
     (if \<not> is_current seq s \<or> cu_response_done (sv_current s) then (s, False)
      else (in_current (cu_response_done_update (\<lambda>_. True)) s, True))"

subsection \<open>The response\<close>

text \<open>The claim: once per request; behind an interim response the claimant calls again.\<close>

definition claim_response :: "h1_server \<Rightarrow> h1_server \<times> req_verdict" where
  "claim_response s =
     (let c = sv_current s
      in if cu_head_pending c then (in_current (cu_head_pending_update (\<lambda>_. False)) s, REQ_OK)
         else if cu_responded c then (s, REQ_ALREADY)
         else
           let s1 = in_current (cu_responded_update (\<lambda>_. True)) s
           in if cu_continue_sent c
              then (in_current (cu_head_pending_update (\<lambda>_. True)) s1, REQ_CONTINUE)
              else (s1, REQ_OK))"

definition respond_head ::
  "h1_env \<Rightarrow> u64 \<Rightarrow> u16 \<Rightarrow> header_map option \<Rightarrow> pyobj \<Rightarrow> u64 option \<Rightarrow> bool \<Rightarrow> bool \<Rightarrow> h1_server
   \<Rightarrow> h1_server \<times> (h1_pyerr + req_verdict \<times> bytes option \<times> bool \<times> pyobj option)" where
  "respond_head env seq status flds done content_length chunked want s =
     (if \<not> is_current seq s then (s, Inr (REQ_STALE, None, False, None))
      else case claim_response s of
        (s1, REQ_OK) \<Rightarrow>
          if cu_peer_closed (sv_current s1) then (s1, Inr (REQ_PEER_CLOSED, None, False, None))
          else
            let c = sv_current s1;
                wants_keep_alive = (cu_request_keep_alive c \<and> sv_keep_alive_enabled s1
                                    \<and> \<not> sv_shutdown_requested s1);
                is_switch = ((status = 101 \<and> cu_is_upgrade c)
                             \<or> (cu_is_connect c \<and> 200 \<le> status \<and> status < 300))
            in (case serialize_response (he_lib env) (he_reason env) (he_date env) (he_opts env) status flds
                       wants_keep_alive (cu_http10 c) content_length chunked (sv_codec s1) of
                  (codec, Inl e) \<Rightarrow> (s1\<lparr>sv_codec := codec\<rparr>, Inl e)
                | (codec, Inr head) \<Rightarrow>
                    let keep_alive = (\<not> hc_response_is_last codec \<and> \<not> hc_response_close_delimited codec);
                        s2 = s1\<lparr>sv_codec := codec,
                                sv_current := c\<lparr>cu_is_switch := is_switch, cu_keep_alive := keep_alive,
                                                cu_head_negotiated := True,
                                                cu_watch_wanted := cu_watch_wanted c \<or> want\<rparr>\<rparr>;
                        (s3, armed) = arm_decision done s2
                    in (s3, Inr (REQ_OK, Some head, armed, sv_transport s3)))
      | (s1, verdict) \<Rightarrow> (s1, Inr (verdict, None, False, None)))"

text \<open>The bytes buffered past the head go with a transport that is handed over.\<close>

definition hand_over :: "h1_server \<Rightarrow> h1_server \<times> pyobj option \<times> bytes" where
  "hand_over s =
     (case take_body (sv_codec s) of (c, leftover) \<Rightarrow>
        (s\<lparr>sv_codec := c, sv_upgraded := True, sv_closed := True, sv_reusable := False,
           sv_transport := None\<rparr>, sv_transport s, leftover))"

definition finish_response ::
  "u64 \<Rightarrow> h1_server \<Rightarrow> h1_server \<times> bool \<times> bool \<times> pyobj option \<times> bytes option" where
  "finish_response seq s =
     (if \<not> is_current seq s then (s, False, False, None, None)
      else
        let s1 = in_current (cu_response_done_update (\<lambda>_. True)) s
        in if cu_is_switch (sv_current s1) then
             (case hand_over (feed_decoder_leftover s1) of (s2, t, leftover) \<Rightarrow>
                (s2, True, False, t, Some leftover))
           else
             let s2 = s1\<lparr>sv_reusable := sv_reusable s1 \<and> cu_keep_alive (sv_current s1)\<rparr>
             in if sv_reusable s2 then (s2, False, False, None, None)
                else (case close_now s2 of (s3, t) \<Rightarrow> (s3, False, True, t, None)))"

definition fail_response :: "u64 \<Rightarrow> h1_server \<Rightarrow> h1_server \<times> pyobj option" where
  "fail_response seq s =
     close_now (if is_current seq s then in_current (cu_response_done_update (\<lambda>_. True)) s else s)"

definition detach :: "u64 \<Rightarrow> h1_server \<Rightarrow> h1_server \<times> req_verdict \<times> pyobj option \<times> bytes option" where
  "detach seq s =
     (if \<not> is_current seq s then (s, REQ_STALE, None, None)
      else if cu_responded (sv_current s) then (s, REQ_ALREADY, None, None)
      else if watcher_parked s then (s, REQ_PARKED, None, None)
      else
        let s1 = in_current (\<lambda>c. c\<lparr>cu_responded := True, cu_response_done := True\<rparr>) s;
            s2 = feed_decoder_leftover s1;
            s3 = (case sv_watcher s2 of
                    Some w \<Rightarrow>
                      (case wa_data w of
                         Some data \<Rightarrow> s2\<lparr>sv_watcher := Some (w\<lparr>wa_data := None\<rparr>),
                                         sv_codec := codec_feed data (sv_codec s2)\<rparr>
                       | None \<Rightarrow> s2)
                  | None \<Rightarrow> s2)
        in (case hand_over s3 of (s4, t, leftover) \<Rightarrow> (s4, REQ_OK, t, Some leftover)))"

end
