(* ===== verification/H1_Server_Run.thy ===== *)
theory H1_Server_Run
  imports H1_Server
begin

section \<open>The life of an HTTP/1 server connection\<close>

text \<open>
  The methods of \<open>H1ServerState\<close> as one system, with the calls the driver makes on the codec and on
  the request's decoder beside it. A run is any sequence of such calls, from any task. It records
  the transports the caller was given to close or to keep, and the requests whose answer began
  (a head to write, or the hand-over of \<open>detach\<close>).
\<close>

subsection \<open>The calls\<close>

datatype server_op =
    BeginRead nat
  | DrainDone nat bool
  | UnparkIdleRead
  | AcceptHead bytes
  | HeadReadOverdue nat nat
  | FailRead
  | StopServing
  | MarkClosed
  | MarkUnusable
  | RequestShutdown
  | TrySendContinue u64
  | BeginBodyRead u64
  | EndBodyRead u64 bool
  | ArmWatcher u64 pyobj bool bool
  | StoreWatcherHandle pyobj
  | WatcherCompleted "bytes option" "pyobj option"
  | WatcherAborted
  | TakeWatcherHandle
  | TakeWatcherResult
  | CloseWindow u64
  | RespondHead u64 u16 "header_map option" pyobj "u64 option" bool bool
  | FinishResponse u64
  | FailResponse u64
  | Detach u64
  | CodecData bytes
  | CodecEnd
  | CodecTrailers header_map
  | CodecHeadAndBody bytes "bytes option" "header_map option"
  | DecoderFeed bytes
  | DecoderEof
  | DecoderDecode

definition on_decoder :: "(body_decoder \<Rightarrow> body_decoder) \<Rightarrow> h1_server \<Rightarrow> h1_server" where
  "on_decoder f = in_current (cu_decoder_update (map_option f))"

definition on_codec :: "(h1_codec \<Rightarrow> h1_codec) \<Rightarrow> h1_server \<Rightarrow> h1_server" where
  "on_codec f s = s\<lparr>sv_codec := f (sv_codec s)\<rparr>"

text \<open>The transport of a read verdict is only lent, save with \<open>NEXT_CLOSE\<close>.\<close>

definition given :: "conn_verdict \<Rightarrow> pyobj option \<Rightarrow> pyobj option" where
  "given v t = (if v = NEXT_CLOSE then t else None)"

definition answer_of :: "u64 \<Rightarrow> h1_pyerr + req_verdict \<times> 'a \<Rightarrow> u64 option" where
  "answer_of seq r = (case r of Inr (REQ_OK, _) \<Rightarrow> Some seq | _ \<Rightarrow> None)"

fun server_call ::
  "h1_env \<Rightarrow> trailer_lib \<Rightarrow> server_op \<Rightarrow> h1_server \<Rightarrow> h1_server \<times> pyobj option \<times> u64 option" where
  "server_call env lib (BeginRead now) s = (case begin_read now s of (s', v, t) \<Rightarrow> (s', given v t, None))"
| "server_call env lib (DrainDone now b) s = (case drain_done now b s of (s', v, t) \<Rightarrow> (s', given v t, None))"
| "server_call env lib UnparkIdleRead s = (fst (unpark_idle_read s), None, None)"
| "server_call env lib (AcceptHead data) s = (fst (accept_head env data s), None, None)"
| "server_call env lib (HeadReadOverdue now timeout) s =
     (case head_read_overdue now timeout s of (s', _, _, t) \<Rightarrow> (s', t, None))"
| "server_call env lib FailRead s = (case fail_read s of (s', t) \<Rightarrow> (s', t, None))"
| "server_call env lib StopServing s = (stop_serving s, None, None)"
| "server_call env lib MarkClosed s = (case mark_closed s of (s', t, _, _) \<Rightarrow> (s', t, None))"
| "server_call env lib MarkUnusable s = (mark_unusable s, None, None)"
| "server_call env lib RequestShutdown s = (case request_shutdown s of (s', t) \<Rightarrow> (s', t, None))"
| "server_call env lib (TrySendContinue q) s = (fst (try_send_continue q s), None, None)"
| "server_call env lib (BeginBodyRead q) s = (fst (begin_body_read q s), None, None)"
| "server_call env lib (EndBodyRead q b) s = (end_body_read q b s, None, None)"
| "server_call env lib (ArmWatcher q d w h) s = (fst (arm_watcher q d w h s), None, None)"
| "server_call env lib (StoreWatcherHandle h) s = (fst (store_watcher_handle h s), None, None)"
| "server_call env lib (WatcherCompleted d e) s = (fst (watcher_completed d e s), None, None)"
| "server_call env lib WatcherAborted s = (watcher_aborted s, None, None)"
| "server_call env lib TakeWatcherHandle s = (fst (take_watcher_handle s), None, None)"
| "server_call env lib TakeWatcherResult s = (fst (take_watcher_result s), None, None)"
| "server_call env lib (CloseWindow q) s = (fst (close_window q s), None, None)"
| "server_call env lib (RespondHead q st flds d n ch w) s =
     (case respond_head env q st flds d n ch w s of (s', r) \<Rightarrow> (s', None, answer_of q r))"
| "server_call env lib (FinishResponse q) s = (case finish_response q s of (s', _, _, t, _) \<Rightarrow> (s', t, None))"
| "server_call env lib (FailResponse q) s = (case fail_response q s of (s', t) \<Rightarrow> (s', t, None))"
| "server_call env lib (Detach q) s =
     (case detach q s of (s', v, t, _) \<Rightarrow> (s', t, if v = REQ_OK then Some q else None))"
| "server_call env lib (CodecData b) s = (on_codec (\<lambda>c. fst (serialize_data b c)) s, None, None)"
| "server_call env lib CodecEnd s = (on_codec (\<lambda>c. fst (serialize_end c)) s, None, None)"
| "server_call env lib (CodecTrailers t) s =
     (on_codec (\<lambda>c. fst (serialize_trailers (he_opts env) t c)) s, None, None)"
| "server_call env lib (CodecHeadAndBody h b t) s =
     (on_codec (\<lambda>c. fst (serialize_head_and_body (he_opts env) h b t c)) s, None, None)"
| "server_call env lib (DecoderFeed b) s = (on_decoder (feed b) s, None, None)"
| "server_call env lib DecoderEof s = (on_decoder mark_eof s, None, None)"
| "server_call env lib DecoderDecode s = (on_decoder (\<lambda>d. fst (body_decode lib d)) s, None, None)"

text \<open>The state with what was given away and which answers began, oldest first.\<close>

type_synonym server_run = "h1_server \<times> pyobj list \<times> u64 list"

definition opt_list :: "'a option \<Rightarrow> 'a list" where
  "opt_list x = (case x of Some y \<Rightarrow> [y] | None \<Rightarrow> [])"

definition server_step :: "h1_env \<Rightarrow> trailer_lib \<Rightarrow> server_op \<Rightarrow> server_run \<Rightarrow> server_run option" where
  "server_step env lib op r =
     (case r of (s, taken, answered) \<Rightarrow>
        (case server_call env lib op s of (s', g, a) \<Rightarrow>
           Some (s', taken @ opt_list g, answered @ opt_list a)))"

definition server_started :: "h1_codec \<Rightarrow> pyobj \<Rightarrow> bool \<Rightarrow> bool \<Rightarrow> server_run" where
  "server_started codec t keep_alive half_close = (server_new codec t keep_alive half_close, [], [])"

subsection \<open>What every state satisfies\<close>

definition flags_ok :: "h1_server \<Rightarrow> bool" where
  "flags_ok s \<longleftrightarrow>
     (sv_closed s \<longrightarrow> \<not> sv_reusable s) \<and> (sv_shutdown_requested s \<longrightarrow> \<not> sv_reusable s)
     \<and> (sv_upgraded s \<longrightarrow> sv_closed s \<and> sv_transport s = None)
     \<and> (\<not> sv_closed s \<longrightarrow> sv_transport s \<noteq> None)"

definition current_ok :: "h1_current \<Rightarrow> bool" where
  "current_ok c \<longleftrightarrow>
     (cu_seq c = 0 \<longrightarrow> cu_response_done c \<and> cu_body_done c)
     \<and> (cu_reading_body c \<longrightarrow> \<not> cu_body_done c)
     \<and> (\<not> cu_body_done c \<longrightarrow> cu_decoder c \<noteq> None)
     \<and> (cu_head_pending c \<longrightarrow> cu_responded c \<and> cu_continue_sent c)
     \<and> (cu_continue_sent c \<longrightarrow> cu_expect_continue c \<and> \<not> cu_http10 c)
     \<and> (cu_is_switch c \<longrightarrow> cu_responded c)"

definition server_ok :: "h1_server \<Rightarrow> bool" where
  "server_ok s \<longleftrightarrow>
     flags_ok s \<and> current_ok (sv_current s) \<and> cu_seq (sv_current s) < sv_next_seq s
     \<and> (cu_peer_closed (sv_current s) \<longrightarrow> \<not> sv_reusable s)"

definition transport_given :: "pyobj \<Rightarrow> h1_server \<Rightarrow> pyobj list \<Rightarrow> bool" where
  "transport_given t s taken \<longleftrightarrow> taken @ opt_list (sv_transport s) = [t]"

definition answers_ok :: "h1_server \<Rightarrow> u64 list \<Rightarrow> bool" where
  "answers_ok s answered \<longleftrightarrow>
     distinct answered \<and> (\<forall>q \<in> set answered. q < sv_next_seq s)
     \<and> (cu_seq (sv_current s) \<in> set answered \<longrightarrow>
          cu_responded (sv_current s) \<and> \<not> cu_head_pending (sv_current s))"

definition run_ok :: "pyobj \<Rightarrow> server_run \<Rightarrow> bool" where
  "run_ok t r \<longleftrightarrow>
     (case r of (s, taken, answered) \<Rightarrow>
        server_ok s \<and> transport_given t s taken \<and> answers_ok s answered)"

lemma opt_list_simps [simp]: "opt_list None = []" "opt_list (Some x) = [x]"
  by (simp_all add: opt_list_def)

lemma run_ok_started: "run_ok t (server_started codec t keep_alive half_close)"
  by (simp add: run_ok_def server_started_def server_new_def server_ok_def flags_ok_def current_ok_def
      current_none_def transport_given_def answers_ok_def opt_list_def)

subsection \<open>What the internal transitions keep\<close>

lemma feed_leftover_sel [simp]:
  "sv_transport (feed_decoder_leftover s) = sv_transport s" "sv_closed (feed_decoder_leftover s) = sv_closed s"
  "sv_reusable (feed_decoder_leftover s) = sv_reusable s" "sv_upgraded (feed_decoder_leftover s) = sv_upgraded s"
  "sv_shutdown_requested (feed_decoder_leftover s) = sv_shutdown_requested s"
  "sv_next_seq (feed_decoder_leftover s) = sv_next_seq s" "sv_watcher (feed_decoder_leftover s) = sv_watcher s"
  "sv_idle_read_parked (feed_decoder_leftover s) = sv_idle_read_parked s"
  "sv_half_close (feed_decoder_leftover s) = sv_half_close s"
  by (simp_all add: feed_decoder_leftover_def Let_def case_prod_beta split: option.split)

text \<open>Requests that differ in what is stored of the body only.\<close>

definition same_request :: "h1_current \<Rightarrow> h1_current \<Rightarrow> bool" where
  "same_request c d \<longleftrightarrow> (\<exists>x. c = d\<lparr>cu_decoder := x\<rparr> \<and> (cu_decoder c = None \<longleftrightarrow> cu_decoder d = None))"

lemma same_request_refl [simp]: "same_request c c"
  by (auto simp: same_request_def intro!: exI [of _ "cu_decoder c"])

lemma same_request_sel:
  assumes "same_request c d"
  shows "cu_seq c = cu_seq d" "cu_responded c = cu_responded d" "cu_head_pending c = cu_head_pending d"
    "cu_response_done c = cu_response_done d" "cu_body_done c = cu_body_done d"
    "cu_reading_body c = cu_reading_body d" "cu_continue_sent c = cu_continue_sent d"
    "cu_expect_continue c = cu_expect_continue d" "cu_http10 c = cu_http10 d"
    "cu_is_switch c = cu_is_switch d" "cu_peer_closed c = cu_peer_closed d"
    "cu_head_negotiated c = cu_head_negotiated d" "cu_keep_alive c = cu_keep_alive d"
    "(cu_decoder c = None) = (cu_decoder d = None)"
  using assms by (auto simp: same_request_def)

lemma same_request_update:
  "x = None \<longleftrightarrow> cu_decoder c = None \<Longrightarrow> same_request (c\<lparr>cu_decoder := x\<rparr>) c"
  by (auto simp: same_request_def)

lemma feed_leftover_current: "same_request (sv_current (feed_decoder_leftover s)) (sv_current s)"
  by (simp add: feed_decoder_leftover_def Let_def case_prod_beta same_request_update split: option.split)

lemma arm_decision_sel [simp]:
  "sv_transport (fst (arm_decision d s)) = sv_transport s" "sv_closed (fst (arm_decision d s)) = sv_closed s"
  "sv_reusable (fst (arm_decision d s)) = sv_reusable s" "sv_upgraded (fst (arm_decision d s)) = sv_upgraded s"
  "sv_shutdown_requested (fst (arm_decision d s)) = sv_shutdown_requested s"
  "sv_next_seq (fst (arm_decision d s)) = sv_next_seq s"
  "sv_idle_read_parked (fst (arm_decision d s)) = sv_idle_read_parked s"
  by (simp_all add: arm_decision_def Let_def)

lemma arm_decision_current: "same_request (sv_current (fst (arm_decision d s))) (sv_current s)"
  by (simp add: arm_decision_def Let_def feed_leftover_current)

lemma read_verdict_sel [simp]:
  "sv_transport (fst (read_verdict now s)) = sv_transport s" "sv_closed (fst (read_verdict now s)) = sv_closed s"
  "sv_reusable (fst (read_verdict now s)) = sv_reusable s" "sv_upgraded (fst (read_verdict now s)) = sv_upgraded s"
  "sv_shutdown_requested (fst (read_verdict now s)) = sv_shutdown_requested s"
  "sv_next_seq (fst (read_verdict now s)) = sv_next_seq s" "sv_current (fst (read_verdict now s)) = sv_current s"
  "sv_watcher (fst (read_verdict now s)) = sv_watcher s" "sv_codec (fst (read_verdict now s)) = sv_codec s"
  "fst (snd (read_verdict now s)) \<noteq> NEXT_CLOSE"
  by (simp_all add: read_verdict_def Let_def split: option.split)

lemma ready_for_next_sel [simp]:
  "sv_transport (ready_for_next s) = sv_transport s" "sv_closed (ready_for_next s) = sv_closed s"
  "sv_reusable (ready_for_next s) = sv_reusable s" "sv_upgraded (ready_for_next s) = sv_upgraded s"
  "sv_shutdown_requested (ready_for_next s) = sv_shutdown_requested s"
  "sv_next_seq (ready_for_next s) = sv_next_seq s" "sv_watcher (ready_for_next s) = sv_watcher s"
  "sv_idle_read_parked (ready_for_next s) = sv_idle_read_parked s"
  by (simp_all add: ready_for_next_def Let_def)

lemma ready_for_next_current [simp]:
  "cu_seq (sv_current (ready_for_next s)) = cu_seq (sv_current s)"
  "cu_responded (sv_current (ready_for_next s)) = cu_responded (sv_current s)"
  "cu_head_pending (sv_current (ready_for_next s)) = cu_head_pending (sv_current s)"
  "cu_response_done (sv_current (ready_for_next s))" "cu_body_done (sv_current (ready_for_next s))"
  "cu_reading_body (sv_current (ready_for_next s)) = cu_reading_body (sv_current s)"
  "cu_continue_sent (sv_current (ready_for_next s)) = cu_continue_sent (sv_current s)"
  "cu_expect_continue (sv_current (ready_for_next s)) = cu_expect_continue (sv_current s)"
  "cu_http10 (sv_current (ready_for_next s)) = cu_http10 (sv_current s)"
  "cu_is_switch (sv_current (ready_for_next s)) = cu_is_switch (sv_current s)"
  "cu_peer_closed (sv_current (ready_for_next s)) = cu_peer_closed (sv_current s)"
  "cu_decoder (sv_current (ready_for_next s)) = None"
  using same_request_sel [OF feed_leftover_current [of s]] by (simp_all add: ready_for_next_def Let_def)

lemma close_now_sel [simp]:
  "sv_closed (fst (close_now s))" "\<not> sv_reusable (fst (close_now s))"
  "sv_upgraded (fst (close_now s)) = sv_upgraded s" "sv_next_seq (fst (close_now s)) = sv_next_seq s"
  "sv_shutdown_requested (fst (close_now s)) = sv_shutdown_requested s"
  "sv_current (fst (close_now s)) = sv_current s" "sv_watcher (fst (close_now s)) = sv_watcher s"
  "sv_codec (fst (close_now s)) = sv_codec s"
  "sv_idle_read_parked (fst (close_now s)) = sv_idle_read_parked s"
  by (simp_all add: close_now_def Let_def)

lemma close_now_transport:
  "flags_ok s \<Longrightarrow> sv_transport (fst (close_now s)) = None \<and> snd (close_now s) = sv_transport s"
  by (auto simp: close_now_def flags_ok_def Let_def)

subsection \<open>One call\<close>

text \<open>What left the state was in it; an answer begins for the current request, if none has; a new
  request has the next number.\<close>

definition settled :: "h1_current \<Rightarrow> bool" where
  "settled c \<longleftrightarrow> cu_responded c \<and> \<not> cu_head_pending c"

definition hands_out :: "h1_server \<Rightarrow> h1_server \<Rightarrow> pyobj option \<Rightarrow> bool" where
  "hands_out s s' x \<longleftrightarrow> opt_list x @ opt_list (sv_transport s') = opt_list (sv_transport s)"

definition keeps_request :: "h1_server \<Rightarrow> h1_server \<Rightarrow> bool" where
  "keeps_request s s' \<longleftrightarrow>
     sv_next_seq s' = sv_next_seq s \<and> cu_seq (sv_current s') = cu_seq (sv_current s)
     \<and> (settled (sv_current s) \<longrightarrow> settled (sv_current s'))"

definition answers :: "h1_server \<Rightarrow> h1_server \<Rightarrow> u64 option \<Rightarrow> bool" where
  "answers s s' y \<longleftrightarrow>
     (case y of
        None \<Rightarrow> keeps_request s s'
          \<or> (cu_seq (sv_current s') = sv_next_seq s \<and> sv_next_seq s' = sv_next_seq s + 1)
      | Some q \<Rightarrow> keeps_request s s' \<and> cu_seq (sv_current s) = q
          \<and> \<not> settled (sv_current s) \<and> settled (sv_current s'))"

definition server_moves :: "h1_server \<Rightarrow> h1_server \<times> pyobj option \<times> u64 option \<Rightarrow> bool" where
  "server_moves s r \<longleftrightarrow>
     (case r of (s', x, y) \<Rightarrow> server_ok s \<longrightarrow> server_ok s' \<and> hands_out s s' x \<and> answers s s' y)"

lemma server_moves_run:
  assumes "run_ok t (s, taken, answered)" and "server_moves s (s', x, y)"
  shows "run_ok t (s', taken @ opt_list x, answered @ opt_list y)"
proof -
  have ok: "server_ok s" "transport_given t s taken" "answers_ok s answered"
    using assms(1) by (simp_all add: run_ok_def)
  then have s': "server_ok s'" "hands_out s s' x" "answers s s' y"
    using assms(2) by (simp_all add: server_moves_def)
  have "transport_given t s' (taken @ opt_list x)"
    using ok(2) s'(2) by (simp add: transport_given_def hands_out_def)
  moreover have "answers_ok s' (answered @ opt_list y)"
  proof (cases y)
    case None
    then show ?thesis
      using ok(1,3) s'(3)
      by (auto simp: answers_def answers_ok_def keeps_request_def settled_def server_ok_def less_Suc_eq)
  next
    case (Some q)
    then have "q \<notin> set answered" "q < sv_next_seq s"
      using ok(1,3) s'(3) by (auto simp: answers_def answers_ok_def settled_def server_ok_def)
    then show ?thesis
      using Some ok(3) s'(3) by (auto simp: answers_def answers_ok_def keeps_request_def settled_def)
  qed
  ultimately show ?thesis using s'(1) by (simp add: run_ok_def)
qed

lemmas moves_defs = server_moves_def server_ok_def flags_ok_def current_ok_def hands_out_def
  answers_def keeps_request_def settled_def

text \<open>A call that closes and gives the transport away; one that leaves the transport alone.\<close>

lemma moves_closed:
  assumes "sv_closed s'" "\<not> sv_reusable s'" "sv_transport s' = None" "flags_ok s \<Longrightarrow> x = sv_transport s"
    and "sv_next_seq s' = sv_next_seq s" "cu_seq (sv_current s') = cu_seq (sv_current s)"
    and "current_ok (sv_current s) \<Longrightarrow> current_ok (sv_current s')"
    and "settled (sv_current s) \<Longrightarrow> settled (sv_current s')"
  shows "server_moves s (s', x, None)"
  using assms
  by (simp add: server_moves_def server_ok_def flags_ok_def hands_out_def answers_def keeps_request_def)

lemma moves_same:
  assumes "sv_transport s' = sv_transport s" "sv_closed s' = sv_closed s" "sv_upgraded s' = sv_upgraded s"
    and "sv_reusable s' \<Longrightarrow> sv_reusable s"
    and "sv_shutdown_requested s' \<Longrightarrow> sv_shutdown_requested s \<or> \<not> sv_reusable s'"
    and "sv_next_seq s' = sv_next_seq s" "cu_seq (sv_current s') = cu_seq (sv_current s)"
    and "current_ok (sv_current s) \<Longrightarrow> current_ok (sv_current s')"
    and "settled (sv_current s) \<Longrightarrow> settled (sv_current s')"
    and "cu_peer_closed (sv_current s') \<Longrightarrow> cu_peer_closed (sv_current s) \<or> \<not> sv_reusable s'"
  shows "server_moves s (s', None, None)"
  using assms
  by (auto simp add: server_moves_def server_ok_def flags_ok_def hands_out_def answers_def keeps_request_def)

lemma moves_refl: "server_moves s (s, None, None)"
  by (rule moves_same) auto

lemma moves_close_now:
  assumes "flags_ok s \<Longrightarrow> flags_ok s1" "current_ok (sv_current s) \<Longrightarrow> current_ok (sv_current s1)"
    "settled (sv_current s) \<Longrightarrow> settled (sv_current s1)" "cu_seq (sv_current s1) = cu_seq (sv_current s)"
    "sv_transport s1 = sv_transport s" "sv_next_seq s1 = sv_next_seq s"
  shows "server_moves s (fst (close_now s1), snd (close_now s1), None)"
proof -
  have "server_ok s \<Longrightarrow> flags_ok s1" using assms(1) by (simp add: server_ok_def)
  then have c: "server_ok s \<Longrightarrow> sv_transport (fst (close_now s1)) = None \<and> snd (close_now s1) = sv_transport s"
    using close_now_transport assms(5) by simp
  show ?thesis
    unfolding server_moves_def prod.case
    using moves_closed [of "fst (close_now s1)" s "snd (close_now s1)", unfolded server_moves_def prod.case] c assms
    by (auto simp: server_ok_def)
qed

lemma current_ok_simps [simp]:
  "current_ok c \<Longrightarrow> current_ok (c\<lparr>cu_reading_body := False\<rparr>)"
  "current_ok c \<Longrightarrow> \<not> cu_body_done c \<Longrightarrow> current_ok (c\<lparr>cu_reading_body := True\<rparr>)"
  "current_ok c \<Longrightarrow> current_ok (c\<lparr>cu_reading_body := False, cu_body_done := True\<rparr>)"
  "current_ok c \<Longrightarrow> current_ok (c\<lparr>cu_body_done := True, cu_reading_body := False\<rparr>)"
  "current_ok c \<Longrightarrow> current_ok (c\<lparr>cu_response_done := True\<rparr>)"
  "current_ok c \<Longrightarrow> current_ok (c\<lparr>cu_peer_closed := True\<rparr>)"
  "current_ok c \<Longrightarrow> current_ok (c\<lparr>cu_head_negotiated := b\<rparr>)"
  "current_ok c \<Longrightarrow> current_ok (c\<lparr>cu_watch_wanted := b\<rparr>)"
  by (auto simp: current_ok_def)

lemma settled_simps [simp]:
  "settled (c\<lparr>cu_reading_body := b\<rparr>) = settled c" "settled (c\<lparr>cu_body_done := b\<rparr>) = settled c"
  "settled (c\<lparr>cu_response_done := b\<rparr>) = settled c" "settled (c\<lparr>cu_peer_closed := b\<rparr>) = settled c"
  "settled (c\<lparr>cu_head_negotiated := b\<rparr>) = settled c" "settled (c\<lparr>cu_watch_wanted := b\<rparr>) = settled c"
  "settled (c\<lparr>cu_continue_sent := b\<rparr>) = settled c" "settled (c\<lparr>cu_decoder := x\<rparr>) = settled c"
  by (simp_all add: settled_def)

lemma current_ok_same: "same_request c d \<Longrightarrow> current_ok d \<Longrightarrow> current_ok c"
  using same_request_sel [of c d] by (auto simp: current_ok_def)

lemma settled_same: "same_request c d \<Longrightarrow> settled c = settled d"
  using same_request_sel [of c d] by (simp add: settled_def)

lemma ready_for_next_ok:
  assumes "current_ok (sv_current s)" "cu_body_done (sv_current s)"
  shows "current_ok (sv_current (ready_for_next s))"
  using assms by (auto simp: current_ok_def)

lemma ready_for_next_settled: "settled (sv_current (ready_for_next s)) = settled (sv_current s)"
  by (simp add: settled_def)

subsection \<open>Every call\<close>

lemma moves_given: "server_moves s (s', x, None) \<Longrightarrow> v \<noteq> NEXT_CLOSE \<Longrightarrow> x = None \<Longrightarrow> server_moves s (s', given v t, None)"
  by (simp add: given_def)

lemma moves_read_verdict:
  assumes "server_moves s (s1, None, None)"
  shows "server_moves s (case read_verdict now s1 of (s', v, t) \<Rightarrow> (s', given v t, None))"
proof -
  have "given (fst (snd (read_verdict now s1))) t = None" for t by (simp add: given_def)
  moreover have "server_moves s (fst (read_verdict now s1), None, None)"
    using assms
    by (simp add: server_moves_def server_ok_def flags_ok_def hands_out_def answers_def keeps_request_def)
  ultimately show ?thesis by (simp add: case_prod_beta)
qed

lemma moves_ready:
  assumes "current_ok (sv_current s) \<Longrightarrow> cu_body_done (sv_current s1)"
    and "current_ok (sv_current s) \<Longrightarrow> current_ok (sv_current s1)"
    and "s1 = s\<lparr>sv_current := sv_current s1\<rparr>" "cu_seq (sv_current s1) = cu_seq (sv_current s)"
    "settled (sv_current s1) = settled (sv_current s)" "cu_peer_closed (sv_current s1) = cu_peer_closed (sv_current s)"
  shows "server_moves s (ready_for_next s1, None, None)"
proof -
  obtain c where s1: "s1 = s\<lparr>sv_current := c\<rparr>" using assms(3) by blast
  show ?thesis
    by (rule moves_same) (use assms s1 in \<open>auto simp: ready_for_next_ok ready_for_next_settled\<close>)
qed

lemma moves_begin_read: "server_moves s (server_call env lib (BeginRead now) s)"
proof -
  let ?c = "sv_current s"
  consider (none) "sv_closed s \<or> \<not> sv_reusable s"
    | (raise) "\<not> (sv_closed s \<or> \<not> sv_reusable s)" "cu_seq ?c \<noteq> 0" "\<not> cu_response_done ?c"
    | (close) "\<not> (sv_closed s \<or> \<not> sv_reusable s)" "cu_seq ?c \<noteq> 0" "cu_response_done ?c"
        "\<not> cu_body_done ?c" "cu_reading_body ?c"
    | (drain) "\<not> (sv_closed s \<or> \<not> sv_reusable s)" "cu_seq ?c \<noteq> 0" "cu_response_done ?c"
        "\<not> cu_body_done ?c" "\<not> cu_reading_body ?c"
    | (read) "\<not> (sv_closed s \<or> \<not> sv_reusable s)" "cu_seq ?c = 0 \<or> cu_response_done ?c \<and> cu_body_done ?c"
    by auto
  then show ?thesis
  proof cases
    case close
    have "server_moves s (fst (close_now s), snd (close_now s), None)" by (rule moves_close_now) auto
    then show ?thesis using close by (simp add: begin_read_def given_def case_prod_beta)
  next
    case drain
    have "server_moves s (in_current (cu_reading_body_update (\<lambda>_. True)) s, None, None)"
      by (rule moves_same) (use drain in auto)
    then show ?thesis using drain by (simp add: begin_read_def given_def)
  next
    case read
    have "server_moves s (ready_for_next s, None, None)"
      by (rule moves_ready) (use read in \<open>auto simp: current_ok_def\<close>)
    then have "server_moves s (case read_verdict now (ready_for_next s) of (s', v, t) \<Rightarrow> (s', given v t, None))"
      by (rule moves_read_verdict)
    moreover have "begin_read now s = read_verdict now (ready_for_next s)"
      using read by (auto simp: begin_read_def)
    ultimately show ?thesis by simp
  qed (simp_all add: begin_read_def given_def moves_refl)
qed

lemma moves_drain_done: "server_moves s (server_call env lib (DrainDone now b) s)"
proof -
  let ?s1 = "in_current (cu_reading_body_update (\<lambda>_. False)) s"
  show ?thesis
  proof (cases b)
    case False
    have "server_moves s (fst (close_now ?s1), snd (close_now ?s1), None)"
      by (rule moves_close_now) (auto simp: flags_ok_def)
    then show ?thesis using False by (simp add: drain_done_def given_def case_prod_beta Let_def)
  next
    case True
    have "server_moves s (ready_for_next (in_current (cu_body_done_update (\<lambda>_. True)) ?s1), None, None)"
      by (rule moves_ready) auto
    then show ?thesis using moves_read_verdict True by (simp add: drain_done_def Let_def)
  qed
qed

lemma moves_head_read_overdue: "server_moves s (server_call env lib (HeadReadOverdue now timeout) s)"
proof -
  have "server_moves s (fst (close_now s), snd (close_now s), None)" by (rule moves_close_now) auto
  then show ?thesis
    using moves_refl
    by (simp add: head_read_overdue_def case_prod_beta Let_def split: option.split)
qed

lemma moves_closing:
  "server_moves s (server_call env lib FailRead s)" "server_moves s (server_call env lib MarkClosed s)"
proof -
  have "server_moves s (fst (close_now s), snd (close_now s), None)" by (rule moves_close_now) auto
  then show "server_moves s (server_call env lib FailRead s)" "server_moves s (server_call env lib MarkClosed s)"
    by (simp_all add: fail_read_def mark_closed_def case_prod_beta)
qed

lemma moves_stop_serving: "server_moves s (server_call env lib StopServing s)"
  by (auto simp: stop_serving_def server_moves_def server_ok_def flags_ok_def hands_out_def answers_def
      keeps_request_def)

lemma moves_request_shutdown: "server_moves s (server_call env lib RequestShutdown s)"
proof -
  let ?s = "s\<lparr>sv_reusable := False, sv_shutdown_requested := True\<rparr>"
  have "server_moves s (fst (close_now ?s), snd (close_now ?s), None)"
    by (rule moves_close_now) (auto simp: flags_ok_def)
  moreover have "server_moves s (?s, None, None)" by (rule moves_same) auto
  ultimately show ?thesis by (simp add: request_shutdown_def case_prod_beta Let_def)
qed

lemma moves_fail_response: "server_moves s (server_call env lib (FailResponse q) s)"
proof -
  let ?s = "if is_current q s then in_current (cu_response_done_update (\<lambda>_. True)) s else s"
  have "server_moves s (fst (close_now ?s), snd (close_now ?s), None)"
    by (rule moves_close_now) (auto simp: flags_ok_def)
  then show ?thesis by (simp add: fail_response_def case_prod_beta)
qed

text \<open>The flags of the current request, the watcher's slot, the codec.\<close>

lemma moves_current:
  assumes "s' = in_current f s" "cu_seq (f (sv_current s)) = cu_seq (sv_current s)"
    "current_ok (sv_current s) \<Longrightarrow> current_ok (f (sv_current s))"
    "settled (sv_current s) \<Longrightarrow> settled (f (sv_current s))"
    "cu_peer_closed (f (sv_current s)) \<Longrightarrow> cu_peer_closed (sv_current s)"
  shows "server_moves s (s', None, None)"
  by (rule moves_same) (use assms in auto)

lemma moves_beside:
  assumes "sv_current s' = sv_current s" "sv_transport s' = sv_transport s" "sv_closed s' = sv_closed s"
    "sv_reusable s' \<Longrightarrow> sv_reusable s" "sv_upgraded s' = sv_upgraded s"
    "sv_shutdown_requested s' = sv_shutdown_requested s" "sv_next_seq s' = sv_next_seq s"
  shows "server_moves s (s', None, None)"
  by (rule moves_same) (use assms in auto)

lemma moves_flags:
  "server_moves s (server_call env lib UnparkIdleRead s)" "server_moves s (server_call env lib MarkUnusable s)"
  by (auto simp: unpark_idle_read_def mark_unusable_def intro!: moves_beside)

lemma moves_slot:
  "server_moves s (server_call env lib (StoreWatcherHandle h) s)"
  "server_moves s (server_call env lib WatcherAborted s)" "server_moves s (server_call env lib TakeWatcherHandle s)"
  "server_moves s (server_call env lib TakeWatcherResult s)"
  by (auto simp: store_watcher_handle_def watcher_aborted_def take_watcher_handle_def
      take_watcher_result_def intro!: moves_beside moves_refl split: option.split)

lemma moves_codec:
  "server_moves s (server_call env lib (CodecData b) s)" "server_moves s (server_call env lib CodecEnd s)"
  "server_moves s (server_call env lib (CodecTrailers t) s)"
  "server_moves s (server_call env lib (CodecHeadAndBody h b' t') s)"
  unfolding server_call.simps by (rule moves_beside; simp add: on_codec_def)+

lemma moves_decoder:
  "server_moves s (server_call env lib (DecoderFeed b) s)" "server_moves s (server_call env lib DecoderEof s)"
  "server_moves s (server_call env lib DecoderDecode s)"
proof -
  have c: "current_ok (c\<lparr>cu_decoder := map_option f (cu_decoder c)\<rparr>)" if "current_ok c" for c f
    using that by (auto simp: current_ok_def)
  have "server_moves s (on_decoder f s, None, None)" for f
    by (rule moves_same) (auto simp: on_decoder_def settled_def current_ok_def)
  then show "server_moves s (server_call env lib (DecoderFeed b) s)"
    "server_moves s (server_call env lib DecoderEof s)" "server_moves s (server_call env lib DecoderDecode s)"
    by simp_all
qed

lemma moves_continue: "server_moves s (server_call env lib (TrySendContinue q) s)"
proof -
  have "server_moves s (in_current (cu_continue_sent_update (\<lambda>_. True)) s, None, None)"
    if "cu_expect_continue (sv_current s)" "\<not> cu_http10 (sv_current s)"
    by (rule moves_same) (use that in \<open>auto simp: current_ok_def\<close>)
  then show ?thesis by (simp add: try_send_continue_def Let_def moves_refl)
qed

lemma moves_body:
  "server_moves s (server_call env lib (BeginBodyRead q) s)"
  "server_moves s (server_call env lib (EndBodyRead q b) s)"
  "server_moves s (server_call env lib (CloseWindow q) s)"
proof -
  have "server_moves s (in_current (cu_reading_body_update (\<lambda>_. True)) s, None, None)"
    if "\<not> cu_body_done (sv_current s)"
    by (rule moves_same) (use that in auto)
  moreover have "server_moves s (in_current (cu_reading_body_update (\<lambda>_. False)) s, None, None)"
    "server_moves s (in_current (cu_body_done_update (\<lambda>_. True)) (in_current (cu_reading_body_update (\<lambda>_. False)) s), None, None)"
    "server_moves s (in_current (cu_response_done_update (\<lambda>_. True)) s, None, None)"
    by (rule moves_same; auto)+
  ultimately show "server_moves s (server_call env lib (BeginBodyRead q) s)"
    "server_moves s (server_call env lib (EndBodyRead q b) s)"
    "server_moves s (server_call env lib (CloseWindow q) s)"
    by (simp_all add: begin_body_read_def end_body_read_def close_window_def Let_def moves_refl)
qed

lemma moves_watcher_completed: "server_moves s (server_call env lib (WatcherCompleted d e) s)"
proof -
  have "server_moves s (s\<lparr>sv_watcher := w\<rparr>, None, None)" for w
    by (rule moves_beside) simp_all
  moreover have "server_moves s (s\<lparr>sv_watcher := w, sv_current := (sv_current s)\<lparr>cu_peer_closed := True\<rparr>,
      sv_reusable := False\<rparr>, None, None)" for w
    by (rule moves_same) auto
  ultimately show ?thesis by (simp add: watcher_completed_def Let_def moves_refl split: option.split)
qed

lemma moves_arm: "server_moves s (server_call env lib (ArmWatcher q d w h) s)"
proof -
  have arm: "server_moves s (fst (arm_decision d s2), None, None)"
    if "s2 = s\<lparr>sv_current := c\<rparr>" "current_ok (sv_current s) \<Longrightarrow> current_ok c" "settled c = settled (sv_current s)"
      "cu_seq c = cu_seq (sv_current s)" "cu_peer_closed c = cu_peer_closed (sv_current s)" for s2 c
  proof (rule moves_same)
    note same = arm_decision_current [of d s2]
    note sel = same_request_sel [OF same]
    show "current_ok (sv_current s) \<Longrightarrow> current_ok (sv_current (fst (arm_decision d s2)))"
      using current_ok_same [OF same] that by simp
    show "settled (sv_current s) \<Longrightarrow> settled (sv_current (fst (arm_decision d s2)))"
      using settled_same [OF same] that by simp
    show "cu_seq (sv_current (fst (arm_decision d s2))) = cu_seq (sv_current s)" using sel that by simp
    show "cu_peer_closed (sv_current (fst (arm_decision d s2))) \<Longrightarrow>
        cu_peer_closed (sv_current s) \<or> \<not> sv_reusable (fst (arm_decision d s2))" using sel that by simp
  qed (use that in simp_all)
  let ?c1 = "if h then (sv_current s)\<lparr>cu_head_negotiated := True\<rparr> else sv_current s"
  let ?c2 = "if w then ?c1\<lparr>cu_watch_wanted := True\<rparr> else ?c1"
  have "server_moves s (fst (arm_decision d (s\<lparr>sv_current := ?c2\<rparr>)), None, None)"
    by (rule arm [OF refl]) auto
  then show ?thesis
    by (cases h; cases w) (simp_all add: arm_watcher_def Let_def moves_refl)
qed

text \<open>A new request.\<close>

lemma moves_accept_head: "server_moves s (server_call env lib (AcceptHead data) s)"
proof -
  let ?s1 = "s\<lparr>sv_idle_read_parked := False\<rparr>"
  have beside: "server_moves s (?s1\<lparr>sv_codec := c\<rparr>, None, None)" for c by (rule moves_beside) simp_all
  have fresh: "server_moves s (fst (begin_request d h b (?s1\<lparr>sv_codec := c, sv_head_read_since := None\<rparr>)), None, None)"
    if "\<not> sv_closed s" for d h b c
    using that
    by (auto simp: server_moves_def server_ok_def flags_ok_def current_ok_def hands_out_def answers_def
        begin_request_def)
  show ?thesis
  proof (cases "sv_closed s")
    case True
    then show ?thesis using beside [of "sv_codec s"] by (simp add: accept_head_def Let_def)
  next
    case False
    obtain c r where r: "receive_request_head (he_lib env) (he_opts env) data (sv_codec s) = (c, r)"
      by (rule prod.exhaust)
    show ?thesis
    proof (cases "\<exists>h. r = Inr (Some h)")
      case True
      then show ?thesis
        using fresh False r by (auto simp: accept_head_def Let_def case_prod_beta)
    next
      case r': False
      then have "fst (accept_head env data s) = ?s1\<lparr>sv_codec := c\<rparr>"
        using False r by (auto simp: accept_head_def Let_def split: sum.split option.split)
      then show ?thesis using beside by simp
    qed
  qed
qed

text \<open>The answer.\<close>

lemma claim_response_cases:
  assumes "claim_response s = (s1, v)"
  shows "v = REQ_OK \<Longrightarrow> current_ok (sv_current s) \<Longrightarrow> \<not> settled (sv_current s) \<and> s1 = s\<lparr>sv_current := sv_current s1\<rparr>
      \<and> settled (sv_current s1) \<and> current_ok (sv_current s1)
      \<and> cu_seq (sv_current s1) = cu_seq (sv_current s) \<and> cu_responded (sv_current s1)
      \<and> cu_peer_closed (sv_current s1) = cu_peer_closed (sv_current s)"
    and "v \<noteq> REQ_OK \<Longrightarrow> server_moves s (s1, None, None)"
proof -
  show "v = REQ_OK \<Longrightarrow> current_ok (sv_current s) \<Longrightarrow> \<not> settled (sv_current s) \<and> s1 = s\<lparr>sv_current := sv_current s1\<rparr>
      \<and> settled (sv_current s1) \<and> current_ok (sv_current s1)
      \<and> cu_seq (sv_current s1) = cu_seq (sv_current s) \<and> cu_responded (sv_current s1)
      \<and> cu_peer_closed (sv_current s1) = cu_peer_closed (sv_current s)"
    using assms
    by (auto simp: claim_response_def Let_def settled_def current_ok_def split: if_splits)
  assume v: "v \<noteq> REQ_OK"
  show "server_moves s (s1, None, None)"
  proof (cases "cu_responded (sv_current s)")
    case True
    then have "s1 = s" using assms v by (auto simp: claim_response_def Let_def split: if_splits)
    then show ?thesis by (simp add: moves_refl)
  next
    case False
    then have "s1 = in_current (\<lambda>c. c\<lparr>cu_responded := True, cu_head_pending := True\<rparr>) s"
      "cu_continue_sent (sv_current s)"
      using assms v by (auto simp: claim_response_def Let_def split: if_splits)
    then show ?thesis
      by (intro moves_same) (use False in \<open>auto simp: settled_def current_ok_def\<close>)
  qed
qed

text \<open>A claim that goes through: with an answer, or without one.\<close>

lemma moves_claimed:
  assumes "sv_transport s' = sv_transport s" "sv_closed s' = sv_closed s" "sv_upgraded s' = sv_upgraded s"
    "sv_reusable s' = sv_reusable s" "sv_shutdown_requested s' = sv_shutdown_requested s"
    "sv_next_seq s' = sv_next_seq s" "cu_seq (sv_current s') = cu_seq (sv_current s)"
    "current_ok (sv_current s) \<Longrightarrow> current_ok (sv_current s')" "settled (sv_current s')"
    "cu_peer_closed (sv_current s') = cu_peer_closed (sv_current s)" "\<not> settled (sv_current s)"
  shows "server_moves s (s', None, None)" "server_moves s (s', None, Some (cu_seq (sv_current s)))"
  using assms
  by (simp_all add: server_moves_def server_ok_def flags_ok_def hands_out_def answers_def keeps_request_def)

lemma moves_respond_head_ok:
  assumes ok: "current_ok (sv_current s)"
  shows "server_moves s (server_call env lib (RespondHead q st flds d n ch w) s)"
proof (cases "is_current q s")
  case False
  then show ?thesis by (simp add: respond_head_def answer_of_def moves_refl)
next
  case cur: True
  obtain s1 v where claim: "claim_response s = (s1, v)" by fastforce
  show ?thesis
  proof (cases "v = REQ_OK")
    case False
    then have "respond_head env q st flds d n ch w s = (s1, Inr (v, None, False, None))"
      using cur claim by (cases v) (simp_all add: respond_head_def)
    then show ?thesis
      using claim_response_cases(2) [OF claim False] False by (cases v) (simp_all add: answer_of_def)
  next
    case True
    note c = claim_response_cases(1) [OF claim True ok]
    obtain c1 where s1: "s1 = s\<lparr>sv_current := c1\<rparr>" using c by blast
    show ?thesis
    proof (cases "cu_peer_closed (sv_current s1)")
      case pc: True
      have "server_moves s (s1, None, None)" by (rule moves_claimed(1)) (use c s1 in auto)
      then show ?thesis using cur claim True pc by (simp add: respond_head_def answer_of_def)
    next
      case pc: False
      obtain codec r where enc: "serialize_response (he_lib env) (he_reason env) (he_date env) (he_opts env) st flds
          (cu_request_keep_alive (sv_current s1) \<and> sv_keep_alive_enabled s1 \<and> \<not> sv_shutdown_requested s1)
          (cu_http10 (sv_current s1)) n ch (sv_codec s1) = (codec, r)" by fastforce
      show ?thesis
      proof (cases r)
        case (Inl e)
        have "server_moves s (s1\<lparr>sv_codec := codec\<rparr>, None, None)" by (rule moves_claimed(1)) (use c s1 in auto)
        then show ?thesis using cur claim True pc enc Inl by (simp add: respond_head_def answer_of_def Let_def)
      next
        case (Inr head)
        define s2 where "s2 = s1\<lparr>sv_codec := codec, sv_current := (sv_current s1)\<lparr>
             cu_is_switch := ((st = 101 \<and> cu_is_upgrade (sv_current s1))
                              \<or> (cu_is_connect (sv_current s1) \<and> 200 \<le> st \<and> st < 300)),
             cu_keep_alive := (\<not> hc_response_is_last codec \<and> \<not> hc_response_close_delimited codec),
             cu_head_negotiated := True, cu_watch_wanted := cu_watch_wanted (sv_current s1) \<or> w\<rparr>\<rparr>"
        note sel = same_request_sel [OF arm_decision_current [of d s2]]
        have "current_ok (sv_current s2)" if "current_ok (sv_current s)"
          using c that by (auto simp: s2_def current_ok_def)
        then have "server_moves s (fst (arm_decision d s2), None, Some (cu_seq (sv_current s)))"
          using sel c s1 current_ok_same [OF arm_decision_current [of d s2]]
          by (intro moves_claimed(2)) (auto simp: s2_def settled_def)
        moreover have "cu_seq (sv_current s) = q" using cur by (simp add: is_current_def)
        moreover have "fst (respond_head env q st flds d n ch w s) = fst (arm_decision d s2)"
          "answer_of q (snd (respond_head env q st flds d n ch w s)) = Some q"
          using cur claim True pc enc Inr
          by (simp_all add: respond_head_def Let_def case_prod_beta s2_def [symmetric] answer_of_def)
        ultimately show ?thesis by (simp add: case_prod_beta)
      qed
    qed
  qed
qed

lemma moves_respond_head: "server_moves s (server_call env lib (RespondHead q st flds d n ch w) s)"
proof (cases "server_ok s")
  case True
  then show ?thesis by (intro moves_respond_head_ok) (simp add: server_ok_def)
qed (simp add: server_moves_def case_prod_beta)

lemma hand_over_sel [simp]:
  "sv_transport (fst (hand_over s)) = None" "fst (snd (hand_over s)) = sv_transport s"
  "sv_closed (fst (hand_over s))" "\<not> sv_reusable (fst (hand_over s))" "sv_upgraded (fst (hand_over s))"
  "sv_next_seq (fst (hand_over s)) = sv_next_seq s" "sv_current (fst (hand_over s)) = sv_current s"
  "sv_shutdown_requested (fst (hand_over s)) = sv_shutdown_requested s"
  "sv_watcher (fst (hand_over s)) = sv_watcher s"
  by (simp_all add: hand_over_def take_body_def)

lemma moves_finish_response: "server_moves s (server_call env lib (FinishResponse q) s)"
proof (cases "is_current q s")
  case False
  then show ?thesis by (simp add: finish_response_def moves_refl)
next
  case cur: True
  let ?s1 = "in_current (cu_response_done_update (\<lambda>_. True)) s"
  show ?thesis
  proof (cases "cu_is_switch (sv_current s)")
    case True
    let ?s2 = "feed_decoder_leftover ?s1"
    note sel = same_request_sel [OF feed_leftover_current [of ?s1]]
      and ok = current_ok_same [OF feed_leftover_current [of ?s1]]
    have "server_moves s (fst (hand_over ?s2), sv_transport s, None)"
      by (rule moves_closed) (use sel ok in \<open>auto simp: settled_def\<close>)
    then show ?thesis using cur True by (simp add: finish_response_def Let_def case_prod_beta)
  next
    case False
    let ?s2 = "?s1\<lparr>sv_reusable := sv_reusable s \<and> cu_keep_alive (sv_current s)\<rparr>"
    have "server_moves s (?s2, None, None)" by (rule moves_same) auto
    moreover have "server_moves s (fst (close_now ?s2), snd (close_now ?s2), None)"
      by (rule moves_close_now) (auto simp: flags_ok_def)
    ultimately show ?thesis
      using cur False
      by (cases "sv_reusable s \<and> cu_keep_alive (sv_current s)")
        (auto simp: finish_response_def Let_def case_prod_beta)
  qed
qed

lemma moves_detach: "server_moves s (server_call env lib (Detach q) s)"
proof (cases "is_current q s \<and> \<not> cu_responded (sv_current s) \<and> \<not> watcher_parked s")
  case False
  then show ?thesis by (auto simp: detach_def moves_refl)
next
  case True
  let ?s1 = "in_current (\<lambda>c. c\<lparr>cu_responded := True, cu_response_done := True\<rparr>) s"
  let ?s2 = "feed_decoder_leftover ?s1"
  define s3 where "s3 = (case sv_watcher ?s2 of
                    Some w \<Rightarrow>
                      (case wa_data w of
                         Some data \<Rightarrow> ?s2\<lparr>sv_watcher := Some (w\<lparr>wa_data := None\<rparr>),
                                         sv_codec := codec_feed data (sv_codec ?s2)\<rparr>
                       | None \<Rightarrow> ?s2)
                  | None \<Rightarrow> ?s2)"
  have s3: "sv_current s3 = sv_current ?s2" "sv_transport s3 = sv_transport s" "sv_next_seq s3 = sv_next_seq s"
    by (simp_all add: s3_def split: option.split)
  note sel = same_request_sel [OF feed_leftover_current [of ?s1]]
    and ok = current_ok_same [OF feed_leftover_current [of ?s1]]
  have pending: "\<not> cu_head_pending (sv_current s)" if "current_ok (sv_current s)"
    using True that by (auto simp: current_ok_def)
  have ok1: "current_ok (sv_current ?s1)" if "current_ok (sv_current s)"
    using that True by (auto simp: current_ok_def)
  have "server_moves s (fst (hand_over s3), sv_transport s, Some (cu_seq (sv_current s)))"
    using True s3 sel ok ok1 pending
    by (simp add: server_moves_def server_ok_def flags_ok_def hands_out_def answers_def keeps_request_def
        settled_def)
  moreover have "cu_seq (sv_current s) = q" using True by (simp add: is_current_def)
  moreover have "detach q s = (fst (hand_over s3), REQ_OK, sv_transport s3, Some (snd (snd (hand_over s3))))"
    using True by (simp add: detach_def Let_def case_prod_beta s3_def)
  ultimately show ?thesis using s3 by simp
qed

lemma server_call_moves: "server_moves s (server_call env lib op s)"
  by (cases op) (simp_all only: moves_begin_read moves_drain_done moves_head_read_overdue moves_closing
      moves_stop_serving moves_request_shutdown moves_fail_response moves_flags moves_slot moves_codec
      moves_decoder moves_continue moves_body moves_watcher_completed moves_arm moves_accept_head
      moves_respond_head moves_finish_response moves_detach)

interpretation server: preserved "server_step env lib" "run_ok t"
  for env lib t
proof unfold_locales
  fix op and r r' :: server_run
  assume "server_step env lib op r = Some r'" and "run_ok t r"
  then show "run_ok t r'"
    using server_call_moves [of "fst r" env lib op] server_moves_run
    by (auto simp: server_step_def split: prod.splits)
qed

end
