(* ===== verification/H1_Server_Readers.thy ===== *)
theory H1_Server_Readers
  imports H1_Server_Run H1_Body_Stream
begin

section \<open>One reader on the transport\<close>

text \<open>
  Three tasks may read the transport of a server connection: the reader of a request's body, the
  mid-message watcher and the reader of the next head. The driver (httpunk/h1/server.py) passes to
  \<open>accept_head\<close> what the read of the last verdict returned, after it has consumed a parked watcher,
  and feeds the decoder only while the body is not complete; \<open>driver_may\<close> says so. Then the state
  never lets two of them read at once.
\<close>

fun driver_may :: "server_op \<Rightarrow> h1_server \<Rightarrow> bool" where
  "driver_may (AcceptHead data) s \<longleftrightarrow> \<not> watcher_parked s"
| "driver_may (DecoderFeed b) s \<longleftrightarrow> \<not> cu_body_done (sv_current s)"
| "driver_may op s \<longleftrightarrow> True"

definition driven_step :: "h1_env \<Rightarrow> trailer_lib \<Rightarrow> server_op \<Rightarrow> h1_server \<Rightarrow> h1_server option" where
  "driven_step env lib op s = (if driver_may op s then Some (fst (server_call env lib op s)) else None)"

text \<open>A parked watcher: the body is complete and no byte of the next request waits anywhere. A head
  reader that is parked: the previous exchange is over.\<close>

definition idle_exchange :: "h1_server \<Rightarrow> bool" where
  "idle_exchange s \<longleftrightarrow> cu_response_done (sv_current s) \<and> cu_body_done (sv_current s)"

definition readers_ok :: "h1_server \<Rightarrow> bool" where
  "readers_ok s \<longleftrightarrow>
     (cu_reading_body (sv_current s) \<longrightarrow> \<not> cu_body_done (sv_current s))
     \<and> (cu_seq (sv_current s) = 0 \<longrightarrow> cu_body_done (sv_current s))
     \<and> (watcher_parked s \<longrightarrow>
          cu_body_done (sv_current s) \<and> codec_buffered (sv_codec s) = 0
          \<and> decoder_buffered (sv_current s) = 0)
     \<and> (sv_idle_read_parked s \<longrightarrow> idle_exchange s) \<and> 0 < sv_next_seq s"

lemma readers_ok_started: "readers_ok (server_new codec t keep_alive half_close)"
  by (simp add: readers_ok_def server_new_def current_none_def watcher_parked_def)

lemma readers_apart:
  assumes "readers_ok s"
  shows "\<not> (cu_reading_body (sv_current s) \<and> watcher_parked s)"
    and "\<not> (cu_reading_body (sv_current s) \<and> sv_idle_read_parked s)"
  using assms by (auto simp: readers_ok_def idle_exchange_def)

subsection \<open>An empty decoder stays empty\<close>

lemma read_mem_empty: "read_mem n r = (r', p) \<Longrightarrow> mr_buf r = [] \<Longrightarrow> mr_buf r' = []"
  by (cases p) (auto dest: read_mem_Ready read_mem_Pending)

lemma chunked_step_empty:
  assumes "chunked_step c r = (r', c', b, p)" and "mr_buf r = []"
  shows "mr_buf r' = []"
proof -
  obtain r1 q where "read_mem (if ch_state c = Body then ch_len c else 1) r = (r1, q)" by (rule prod.exhaust)
  then show ?thesis
    using assms read_mem_empty
    by (cases q) (auto simp: chunked_step_def read_body_def with_byte_def Let_def
        split: if_splits prod.splits list.splits)
qed

lemma decode_chunked_drained:
  "decode_chunked lib c r = (r', c', p) \<Longrightarrow> mr_buf r = [] \<Longrightarrow> mr_buf r' = []"
proof -
  assume dec: "decode_chunked lib c r = (r', c', p)" and empty: "mr_buf r = []"
  obtain r1 c1 b q where st: "chunked_step c r = (r1, c1, b, q)" by (rule prod_cases4)
  have r1: "mr_buf r1 = []" using chunked_step_empty st empty by blast
  have "st' = End" if "q = Ready (Inr st')" "b = None" for st'
    using chunked_step_shorter [of c r r1 c1 st'] st that empty by auto
  then show "mr_buf r' = []"
    using dec st r1
    by (subst (asm) decode_chunked.simps)
      (auto simp: Let_def split: poll.splits sum.splits prod.splits if_splits option.splits)
qed

lemma body_decode_empty: "buffered d = 0 \<Longrightarrow> buffered (fst (body_decode lib d)) = 0"
proof -
  assume e: "buffered d = 0"
  obtain r' d' p where dec: "decoder_decode lib (bd_decoder d) (bd_read d) = (r', d', p)" by (rule prod_cases3)
  have "mr_buf r' = []"
  proof (cases "bd_decoder d")
    case (DLength n)
    then show ?thesis
      using dec e read_mem_empty [of n "bd_read d"]
      by (auto simp: buffered_def Let_def split: if_splits prod.splits poll.splits)
  next
    case (DChunked c)
    then show ?thesis
      using dec e decode_chunked_drained by (auto simp: buffered_def split: prod.splits)
  next
    case (DEof b)
    then show ?thesis
      using dec e read_mem_empty [of 8192 "bd_read d"]
      by (auto simp: buffered_def split: if_splits prod.splits poll.splits)
  qed
  then show ?thesis
    using dec e
    by (auto simp: body_decode_def buffered_def Let_def split: poll.split sum.split body_frame.split)
qed

subsection \<open>The codec's own calls leave the read buffer alone\<close>

lemma serialize_buf [simp]:
  "hc_buf (fst (serialize_data b c)) = hc_buf c" "hc_buf (fst (serialize_end c)) = hc_buf c"
  "hc_buf (fst (serialize_trailers opts t c)) = hc_buf c"
  "hc_buf (fst (serialize_head_and_body opts h b' t' c)) = hc_buf c"
  "hc_buf (fst (serialize_response lib reason date opts st flds ka h10 n ch c)) = hc_buf c"
  by (simp_all add: serialize_data_def serialize_end_def serialize_trailers_def
      serialize_head_and_body_def serialize_response_def split: option.split sum.split)

lemma codec_buffered_simps [simp]:
  "codec_buffered (codec_reset c) = codec_buffered c" "codec_buffered (fst (take_body c)) = 0"
  "codec_buffered (fst (serialize_data b c)) = codec_buffered c"
  "codec_buffered (fst (serialize_end c)) = codec_buffered c"
  "codec_buffered (fst (serialize_trailers opts t c)) = codec_buffered c"
  "codec_buffered (fst (serialize_head_and_body opts h b' t' c)) = codec_buffered c"
  "codec_buffered (fst (serialize_response lib reason date opts st flds ka h10 n ch c)) = codec_buffered c"
  by (simp_all add: codec_buffered_def codec_reset_def take_body_def)

subsection \<open>The calls that start no reader\<close>

text \<open>What such a call may do to the two halves of the exchange and to the buffers.\<close>

definition starts_no_reader :: "h1_server \<Rightarrow> h1_server \<Rightarrow> bool" where
  "starts_no_reader s s' \<longleftrightarrow>
     sv_next_seq s' = sv_next_seq s \<and> cu_seq (sv_current s') = cu_seq (sv_current s)
     \<and> (cu_body_done (sv_current s) \<longrightarrow> cu_body_done (sv_current s'))
     \<and> (cu_response_done (sv_current s) \<longrightarrow> cu_response_done (sv_current s'))
     \<and> (cu_reading_body (sv_current s') \<longrightarrow>
          cu_reading_body (sv_current s) \<and> cu_body_done (sv_current s') = cu_body_done (sv_current s))
     \<and> (sv_idle_read_parked s' \<longrightarrow> sv_idle_read_parked s)
     \<and> (watcher_parked s' \<longrightarrow> watcher_parked s)
     \<and> (watcher_parked s \<and> cu_body_done (sv_current s) \<and> codec_buffered (sv_codec s) = 0
          \<and> decoder_buffered (sv_current s) = 0 \<longrightarrow>
        codec_buffered (sv_codec s') = 0 \<and> decoder_buffered (sv_current s') = 0)"

lemma readers_keep: "starts_no_reader s s' \<Longrightarrow> readers_ok s \<Longrightarrow> readers_ok s'"
  unfolding starts_no_reader_def readers_ok_def idle_exchange_def by auto

lemma starts_no_reader_refl: "starts_no_reader s s"
  by (simp add: starts_no_reader_def)

lemma feed_leftover_empty [simp]: "decoder_buffered (sv_current s) = 0 \<Longrightarrow> feed_decoder_leftover s = s"
  by (simp add: feed_decoder_leftover_def decoder_buffered_def split: option.splits)

lemma feed_leftover_parked [simp]: "watcher_parked (feed_decoder_leftover s) = watcher_parked s"
  by (simp add: watcher_parked_def)

lemmas feed_leftover_keeps [simp] = same_request_sel [OF feed_leftover_current]

lemma decoder_buffered_update [simp]:
  "decoder_buffered (c\<lparr>cu_reading_body := b\<rparr>) = decoder_buffered c"
  "decoder_buffered (c\<lparr>cu_body_done := b\<rparr>) = decoder_buffered c"
  "decoder_buffered (c\<lparr>cu_response_done := b\<rparr>) = decoder_buffered c"
  "decoder_buffered (c\<lparr>cu_responded := b\<rparr>) = decoder_buffered c"
  "decoder_buffered (c\<lparr>cu_head_pending := b\<rparr>) = decoder_buffered c"
  "decoder_buffered (c\<lparr>cu_continue_sent := b\<rparr>) = decoder_buffered c"
  "decoder_buffered (c\<lparr>cu_peer_closed := b\<rparr>) = decoder_buffered c"
  "decoder_buffered (c\<lparr>cu_head_negotiated := b\<rparr>) = decoder_buffered c"
  "decoder_buffered (c\<lparr>cu_is_switch := b\<rparr>) = decoder_buffered c"
  "decoder_buffered (c\<lparr>cu_keep_alive := b\<rparr>) = decoder_buffered c"
  "decoder_buffered (c\<lparr>cu_watch_wanted := b\<rparr>) = decoder_buffered c"
  "decoder_buffered (c\<lparr>cu_decoder := None\<rparr>) = 0"
  by (simp_all add: decoder_buffered_def)

lemma watcher_parked_close [simp]: "watcher_parked (fst (close_now s)) = watcher_parked s"
  by (simp add: watcher_parked_def)

lemma watcher_parked_update [simp]:
  "watcher_parked (s\<lparr>sv_current := c\<rparr>) = watcher_parked s"
  "watcher_parked (s\<lparr>sv_codec := d\<rparr>) = watcher_parked s"
  "watcher_parked (s\<lparr>sv_reusable := b\<rparr>) = watcher_parked s"
  "watcher_parked (s\<lparr>sv_closed := b\<rparr>) = watcher_parked s"
  "watcher_parked (s\<lparr>sv_transport := t\<rparr>) = watcher_parked s"
  "watcher_parked (s\<lparr>sv_upgraded := b\<rparr>) = watcher_parked s"
  "watcher_parked (s\<lparr>sv_next_seq := n\<rparr>) = watcher_parked s"
  "watcher_parked (s\<lparr>sv_head_read_since := x\<rparr>) = watcher_parked s"
  "watcher_parked (s\<lparr>sv_shutdown_requested := b\<rparr>) = watcher_parked s"
  "watcher_parked (s\<lparr>sv_idle_read_parked := b\<rparr>) = watcher_parked s"
  "watcher_parked (s\<lparr>sv_watcher := w\<rparr>) = (case w of Some v \<Rightarrow> \<not> wa_completed v | None \<Rightarrow> False)"
  by (simp_all add: watcher_parked_def)

abbreviation after :: "h1_env \<Rightarrow> trailer_lib \<Rightarrow> server_op \<Rightarrow> h1_server \<Rightarrow> h1_server" where
  "after env lib op s \<equiv> fst (server_call env lib op s)"

lemma quiet_calls:
  "starts_no_reader s (after env lib UnparkIdleRead s)"
  "starts_no_reader s (after env lib (HeadReadOverdue now timeout) s)"
  "starts_no_reader s (after env lib FailRead s)"
  "starts_no_reader s (after env lib StopServing s)"
  "starts_no_reader s (after env lib MarkClosed s)"
  "starts_no_reader s (after env lib MarkUnusable s)"
  "starts_no_reader s (after env lib RequestShutdown s)"
  "starts_no_reader s (after env lib (TrySendContinue q) s)"
  "starts_no_reader s (after env lib (EndBodyRead q b) s)"
  "starts_no_reader s (after env lib (StoreWatcherHandle h) s)"
  "starts_no_reader s (after env lib WatcherAborted s)"
  "starts_no_reader s (after env lib TakeWatcherHandle s)"
  "starts_no_reader s (after env lib TakeWatcherResult s)"
  "starts_no_reader s (after env lib (CloseWindow q) s)"
  "starts_no_reader s (after env lib (FailResponse q) s)"
  "starts_no_reader s (after env lib (CodecData d) s)"
  "starts_no_reader s (after env lib CodecEnd s)"
  "starts_no_reader s (after env lib (CodecTrailers ts) s)"
  "starts_no_reader s (after env lib (CodecHeadAndBody d b' t') s)"
proof -
  note defs = starts_no_reader_def unpark_idle_read_def head_read_overdue_def fail_read_def
    stop_serving_def mark_closed_def mark_unusable_def request_shutdown_def try_send_continue_def
    end_body_read_def store_watcher_handle_def watcher_aborted_def take_watcher_handle_def
    take_watcher_result_def close_window_def fail_response_def on_codec_def case_prod_beta Let_def
  show "starts_no_reader s (after env lib UnparkIdleRead s)"
    "starts_no_reader s (after env lib FailRead s)"
    "starts_no_reader s (after env lib StopServing s)"
    "starts_no_reader s (after env lib MarkClosed s)"
    "starts_no_reader s (after env lib MarkUnusable s)"
    "starts_no_reader s (after env lib RequestShutdown s)"
    "starts_no_reader s (after env lib (TrySendContinue q) s)"
    "starts_no_reader s (after env lib (EndBodyRead q b) s)"
    "starts_no_reader s (after env lib (CloseWindow q) s)"
    "starts_no_reader s (after env lib (FailResponse q) s)"
    "starts_no_reader s (after env lib (CodecData d) s)"
    "starts_no_reader s (after env lib CodecEnd s)"
    "starts_no_reader s (after env lib (CodecTrailers ts) s)"
    "starts_no_reader s (after env lib (CodecHeadAndBody d b' t') s)"
    by (simp_all add: defs)
  show "starts_no_reader s (after env lib (HeadReadOverdue now timeout) s)"
    by (simp add: defs split: option.split)
  show "starts_no_reader s (after env lib (StoreWatcherHandle h) s)"
    "starts_no_reader s (after env lib WatcherAborted s)"
    "starts_no_reader s (after env lib TakeWatcherHandle s)"
    "starts_no_reader s (after env lib TakeWatcherResult s)"
    by (cases "sv_watcher s"; simp add: defs watcher_parked_def)+
qed

lemma quiet_watcher_completed: "starts_no_reader s (after env lib (WatcherCompleted d e) s)"
  by (cases "sv_watcher s")
    (simp_all add: starts_no_reader_def watcher_completed_def Let_def watcher_parked_def)

lemma quiet_decoder_eof: "starts_no_reader s (after env lib DecoderEof s)"
  by (simp add: starts_no_reader_def on_decoder_def decoder_buffered_def buffered_def mark_eof_def
      split: option.split)

lemma quiet_decoder_decode: "starts_no_reader s (after env lib DecoderDecode s)"
  by (cases "cu_decoder (sv_current s)")
    (simp_all add: starts_no_reader_def on_decoder_def decoder_buffered_def body_decode_empty)

lemma quiet_finish_response: "starts_no_reader s (after env lib (FinishResponse q) s)"
  by (cases "decoder_buffered (sv_current s) = 0")
    (simp_all add: starts_no_reader_def finish_response_def hand_over_def case_prod_beta Let_def)

lemma parked_readers:
  "readers_ok s \<Longrightarrow> watcher_parked s \<Longrightarrow>
   cu_body_done (sv_current s) \<and> codec_buffered (sv_codec s) = 0 \<and> decoder_buffered (sv_current s) = 0"
  by (simp add: readers_ok_def)

lemma quiet_decoder_feed:
  "readers_ok s \<Longrightarrow> driver_may (DecoderFeed b) s \<Longrightarrow> starts_no_reader s (after env lib (DecoderFeed b) s)"
  by (simp add: starts_no_reader_def on_decoder_def)

lemma quiet_detach: "readers_ok s \<Longrightarrow> starts_no_reader s (after env lib (Detach q) s)"
  by (cases "watcher_parked s"; cases "sv_watcher s")
    (auto simp: starts_no_reader_def detach_def hand_over_def watcher_parked_def case_prod_beta Let_def
      split: option.split)

subsection \<open>The calls that start one\<close>

lemma readers_begin_body_read: "readers_ok s \<Longrightarrow> readers_ok (after env lib (BeginBodyRead q) s)"
  by (auto simp: begin_body_read_def readers_ok_def idle_exchange_def is_current_def)

lemma readers_read_verdict:
  assumes "idle_exchange s" and "\<not> cu_reading_body (sv_current s)" and "0 < sv_next_seq s"
    and "watcher_parked s \<longrightarrow> codec_buffered (sv_codec s) = 0" and "decoder_buffered (sv_current s) = 0"
  shows "readers_ok (fst (read_verdict now s))"
  using assms by (simp add: readers_ok_def idle_exchange_def watcher_parked_def)

lemma readers_ready:
  assumes "\<not> cu_reading_body (sv_current s)" and "0 < sv_next_seq s"
    and "watcher_parked s \<longrightarrow> codec_buffered (sv_codec s) = 0 \<and> decoder_buffered (sv_current s) = 0"
  shows "readers_ok (fst (read_verdict now (ready_for_next s)))"
proof (rule readers_read_verdict)
  show "idle_exchange (ready_for_next s)" by (simp add: idle_exchange_def)
  show "decoder_buffered (sv_current (ready_for_next s)) = 0" by (simp add: decoder_buffered_def)
  show "watcher_parked (ready_for_next s) \<longrightarrow> codec_buffered (sv_codec (ready_for_next s)) = 0"
  proof
    assume "watcher_parked (ready_for_next s)"
    then have "watcher_parked s" by (simp add: watcher_parked_def)
    then show "codec_buffered (sv_codec (ready_for_next s)) = 0"
      using assms(3) by (simp add: ready_for_next_def Let_def)
  qed
qed (use assms in simp_all)

lemma readers_begin_read: "readers_ok s \<Longrightarrow> readers_ok (after env lib (BeginRead now) s)"
proof -
  assume ok: "readers_ok s"
  let ?c = "sv_current s"
  consider (none) "sv_closed s \<or> \<not> sv_reusable s"
    | (wait) "\<not> (sv_closed s \<or> \<not> sv_reusable s)" "cu_seq ?c \<noteq> 0" "\<not> cu_response_done ?c \<or> \<not> cu_body_done ?c"
    | (read) "\<not> (sv_closed s \<or> \<not> sv_reusable s)" "\<not> cu_reading_body ?c"
        "cu_seq ?c = 0 \<or> cu_response_done ?c \<and> cu_body_done ?c"
    using ok by (auto simp: readers_ok_def)
  then show ?thesis
  proof cases
    case none
    then show ?thesis using ok by (simp add: begin_read_def)
  next
    case wait
    then show ?thesis
      using ok by (auto simp: begin_read_def readers_ok_def idle_exchange_def case_prod_beta)
  next
    case read
    then have "begin_read now s = read_verdict now (ready_for_next s)" by (auto simp: begin_read_def)
    moreover have "readers_ok (fst (read_verdict now (ready_for_next s)))"
      by (rule readers_ready) (use ok read in \<open>auto simp: readers_ok_def\<close>)
    ultimately show ?thesis by (simp add: case_prod_beta)
  qed
qed

lemma readers_drain_done: "readers_ok s \<Longrightarrow> readers_ok (after env lib (DrainDone now b) s)"
proof -
  assume ok: "readers_ok s"
  let ?s1 = "in_current (cu_body_done_update (\<lambda>_. True)) (in_current (cu_reading_body_update (\<lambda>_. False)) s)"
  show ?thesis
  proof (cases b)
    case True
    have "readers_ok (fst (read_verdict now (ready_for_next ?s1)))"
      by (rule readers_ready) (use ok in \<open>auto simp: readers_ok_def\<close>)
    then show ?thesis using True by (simp add: drain_done_def case_prod_beta Let_def)
  next
    case False
    then show ?thesis
      using ok by (auto simp: drain_done_def case_prod_beta Let_def readers_ok_def idle_exchange_def)
  qed
qed

lemma readers_arm_decision: "readers_ok s \<Longrightarrow> readers_ok (fst (arm_decision d s))"
  by (cases "sv_idle_read_parked s")
    (auto simp: arm_decision_def readers_ok_def idle_exchange_def new_watcher_def watcher_parked_def Let_def)

lemma readers_arm_watcher: "readers_ok s \<Longrightarrow> readers_ok (after env lib (ArmWatcher q d w h) s)"
proof -
  assume ok: "readers_ok s"
  let ?s1 = "if h then in_current (cu_head_negotiated_update (\<lambda>_. True)) s else s"
  let ?s2 = "if w then in_current (cu_watch_wanted_update (\<lambda>_. True)) ?s1 else ?s1"
  have "readers_ok ?s2" using ok by (simp add: readers_ok_def idle_exchange_def)
  then show ?thesis using ok readers_arm_decision by (auto simp: arm_watcher_def Let_def)
qed

lemma claim_response_quiet: "starts_no_reader s (fst (claim_response s))"
  by (simp add: starts_no_reader_def claim_response_def Let_def)

lemma readers_respond_head: "readers_ok s \<Longrightarrow> readers_ok (after env lib (RespondHead q st flds d n ch w) s)"
proof -
  assume ok: "readers_ok s"
  obtain s1 v where cl: "claim_response s = (s1, v)" by (rule prod.exhaust)
  then have s1: "readers_ok s1" using readers_keep [OF claim_response_quiet [of s] ok] by simp
  let ?r = "\<lambda>c. serialize_response (he_lib env) (he_reason env) (he_date env) (he_opts env) st flds
     (cu_request_keep_alive c \<and> sv_keep_alive_enabled s1 \<and> \<not> sv_shutdown_requested s1) (cu_http10 c) n ch
     (sv_codec s1)"
  let ?c = "sv_current s1"
  obtain codec r where r: "?r ?c = (codec, r)" by (rule prod.exhaust)
  have buf: "codec_buffered codec = codec_buffered (sv_codec s1)"
    using codec_buffered_simps(7) r by (metis fst_conv)
  have "readers_ok (s1\<lparr>sv_codec := codec, sv_current := ?c\<lparr>cu_is_switch := a, cu_keep_alive := b,
      cu_head_negotiated := e, cu_watch_wanted := g\<rparr>\<rparr>)" for a b e g
    using s1 buf by (simp add: readers_ok_def idle_exchange_def)
  note ready = this [THEN readers_arm_decision]
  have "readers_ok (s1\<lparr>sv_codec := codec\<rparr>)" using s1 buf by (simp add: readers_ok_def idle_exchange_def)
  with ready ok cl s1 r show ?thesis
    by (cases v; cases r) (simp_all add: respond_head_def case_prod_beta Let_def)
qed

lemma readers_accept_head:
  assumes "readers_ok s" and "driver_may (AcceptHead data) s"
  shows "readers_ok (after env lib (AcceptHead data) s)"
proof -
  have np: "\<not> watcher_parked s" using assms(2) by simp
  show ?thesis
  proof (cases "sv_closed s")
    case True
    then show ?thesis using assms np by (simp add: accept_head_def readers_ok_def Let_def)
  next
    case False
    obtain c r where r: "receive_request_head (he_lib env) (he_opts env) data (sv_codec s) = (c, r)"
      by (rule prod.exhaust)
    then show ?thesis
      using assms np False
      by (auto simp: accept_head_def readers_ok_def begin_request_def Let_def case_prod_beta
          split: sum.split option.split)
  qed
qed

lemma readers_after:
  "readers_ok s \<Longrightarrow> driver_may op s \<Longrightarrow> readers_ok (after env lib op s)"
proof (cases op)
qed (simp_all only: quiet_calls [THEN readers_keep] quiet_watcher_completed [THEN readers_keep]
    quiet_decoder_eof [THEN readers_keep] quiet_decoder_decode [THEN readers_keep]
    quiet_finish_response [THEN readers_keep] quiet_decoder_feed [THEN readers_keep]
    quiet_detach [THEN readers_keep] readers_begin_body_read readers_begin_read readers_drain_done
    readers_arm_watcher readers_respond_head readers_accept_head)

interpretation readers: preserved "driven_step env lib" readers_ok
  for env lib
  by unfold_locales (auto simp: driven_step_def readers_after split: if_splits)

text \<open>A call that arms a watcher.\<close>

definition arms :: "h1_env \<Rightarrow> server_op \<Rightarrow> h1_server \<Rightarrow> bool" where
  "arms env op s \<longleftrightarrow>
     (case op of
        ArmWatcher q d w h \<Rightarrow> snd (arm_watcher q d w h s)
      | RespondHead q st flds d n ch w \<Rightarrow>
          (case snd (respond_head env q st flds d n ch w s) of Inr (_, _, armed, _) \<Rightarrow> armed | Inl _ \<Rightarrow> False)
      | _ \<Rightarrow> False)"

lemma arm_decision_alone:
  "cu_response_done (sv_current s) \<or> \<not> cu_body_done (sv_current s) \<Longrightarrow> \<not> snd (arm_decision d s)"
  by (auto simp: arm_decision_def Let_def)

lemma arm_watcher_alone:
  "cu_response_done (sv_current s) \<or> \<not> cu_body_done (sv_current s) \<Longrightarrow> \<not> snd (arm_watcher q d w h s)"
  by (simp add: arm_watcher_def arm_decision_alone Let_def)

lemma respond_head_alone:
  assumes "cu_response_done (sv_current s) \<or> \<not> cu_body_done (sv_current s)"
  shows "\<not> arms env (RespondHead q st flds d n ch w) s"
proof -
  obtain s1 v where cl: "claim_response s = (s1, v)" by (rule prod.exhaust)
  then have s1: "cu_response_done (sv_current s1) \<or> \<not> cu_body_done (sv_current s1)"
    using assms by (auto simp: claim_response_def Let_def split: if_splits)
  let ?r = "serialize_response (he_lib env) (he_reason env) (he_date env) (he_opts env) st flds
     (cu_request_keep_alive (sv_current s1) \<and> sv_keep_alive_enabled s1 \<and> \<not> sv_shutdown_requested s1)
     (cu_http10 (sv_current s1)) n ch (sv_codec s1)"
  obtain codec r where r: "?r = (codec, r)" by (rule prod.exhaust)
  have "\<not> snd (arm_decision d (s1\<lparr>sv_codec := codec, sv_current := (sv_current s1)\<lparr>cu_is_switch := a,
      cu_keep_alive := b, cu_head_negotiated := e, cu_watch_wanted := g\<rparr>\<rparr>))" for a b e g
    using s1 by (simp add: arm_decision_alone)
  with cl r show ?thesis
    by (cases v; cases r) (simp_all add: arms_def respond_head_def case_prod_beta Let_def)
qed

lemma readers_arm_alone:
  assumes "readers_ok s" and "sv_idle_read_parked s \<or> cu_reading_body (sv_current s)"
  shows "\<not> arms env op s"
proof -
  have "cu_response_done (sv_current s) \<or> \<not> cu_body_done (sv_current s)"
    using assms by (auto simp: readers_ok_def idle_exchange_def)
  then show ?thesis
    using arm_watcher_alone respond_head_alone [of s env] by (cases op) (auto simp: arms_def)
qed

end
