(* ===== verification/H1_Client.thy ===== *)
theory H1_Client
  imports H1_Server
begin

section \<open>The HTTP/1 client connection\<close>

text \<open>
  src/h1/conn.rs, \<open>H1ClientState\<close>: the one exchange a client connection runs at a time, the watcher
  that reads while it is idle, the writer of the request's body, the error that ended it; and
  \<open>OnceLatch\<close>. Each method is one critical section and here one function on the state.
\<close>

subsection \<open>State\<close>

datatype watch_verdict =
    WATCH_HANDOFF | WATCH_IDLE_EOF | WATCH_IDLE_BYTES | WATCH_IDLE_ERROR | WATCH_IGNORED

record h1_client =
  cl_codec :: h1_codec
  cl_transport :: "pyobj option"
  cl_closed :: bool
  cl_upgraded :: bool
  cl_error :: "pyobj option"
  cl_busy :: bool
  cl_exchange_active :: bool
  cl_peer_http10 :: bool
  cl_writer :: "pyobj option"
  cl_writer_finished :: bool
  cl_watcher :: "h1_watcher option"

definition client_new :: "h1_codec \<Rightarrow> pyobj \<Rightarrow> h1_client" where
  "client_new codec transport =
     \<lparr>cl_codec = codec, cl_transport = Some transport, cl_closed = False, cl_upgraded = False,
      cl_error = None, cl_busy = False, cl_exchange_active = False, cl_peer_http10 = False,
      cl_writer = None, cl_writer_finished = False, cl_watcher = None\<rparr>"

definition client_close_now :: "h1_client \<Rightarrow> h1_client \<times> pyobj option" where
  "client_close_now s =
     (let s1 = s\<lparr>cl_closed := True\<rparr>
      in if cl_upgraded s1 then (s1, None) else (s1\<lparr>cl_transport := None\<rparr>, cl_transport s1))"

definition set_peer_http10 :: "bool \<Rightarrow> h1_client \<Rightarrow> h1_client" where
  "set_peer_http10 v s = s\<lparr>cl_peer_http10 := v\<rparr>"

definition client_is_dead :: "h1_client \<Rightarrow> bool" where
  "client_is_dead s \<longleftrightarrow> cl_closed s \<or> cl_error s \<noteq> None"

definition begin_send :: "h1_client \<Rightarrow> pyobj option \<times> pyobj option" where
  "begin_send s =
     (if cl_error s \<noteq> None then (None, None)
      else (cl_transport s, map_option wa_done (cl_watcher s)))"

subsection \<open>The exchange\<close>

definition try_begin_exchange :: "h1_client \<Rightarrow> h1_client \<times> bool" where
  "try_begin_exchange s =
     (if cl_busy s then (s, False)
      else (s\<lparr>cl_busy := True, cl_exchange_active := False, cl_writer_finished := False,
              cl_codec := codec_reset (cl_codec s)\<rparr>, True))"

definition end_exchange :: "h1_client \<Rightarrow> h1_client \<times> bool" where
  "end_exchange s =
     (if \<not> cl_busy s then (s, False) else (s\<lparr>cl_busy := False, cl_exchange_active := False\<rparr>, True))"

definition exchange_started :: "h1_client \<Rightarrow> h1_client" where
  "exchange_started s = s\<lparr>cl_exchange_active := True\<rparr>"

definition client_fail :: "pyobj option \<Rightarrow> h1_client \<Rightarrow> h1_client \<times> pyobj option" where
  "client_fail exc s =
     client_close_now
       (case exc of
          Some e \<Rightarrow> if cl_error s = None then s\<lparr>cl_error := Some e\<rparr> else s
        | None \<Rightarrow> s)"

definition finish_exchange :: "bool \<Rightarrow> h1_client \<Rightarrow> h1_client \<times> bool \<times> bool \<times> pyobj option" where
  "finish_exchange resp_keep_alive s =
     (let fully_sent = cl_writer_finished s
      in if resp_keep_alive \<and> fully_sent then (s, True, True, None)
         else (case client_close_now s of (s', t) \<Rightarrow> (s', False, fully_sent, t)))"

definition client_mark_closed ::
  "h1_client \<Rightarrow> h1_client \<times> pyobj option \<times> pyobj option \<times> pyobj option \<times> bool" where
  "client_mark_closed s =
     (case client_close_now s of (s', t) \<Rightarrow>
        (s'\<lparr>cl_writer := None\<rparr>, t, map_option wa_done (cl_watcher s'), cl_writer s', \<not> cl_busy s))"

definition upgrade :: "h1_client \<Rightarrow> h1_client \<times> pyobj option" where
  "upgrade s = (s\<lparr>cl_upgraded := True, cl_closed := True, cl_transport := None\<rparr>, cl_transport s)"

subsection \<open>The writer of the body\<close>

definition store_writer :: "pyobj \<Rightarrow> h1_client \<Rightarrow> h1_client \<times> pyobj option" where
  "store_writer scope s =
     (if cl_closed s then (s, Some scope) else (s\<lparr>cl_writer := Some scope\<rparr>, None))"

definition take_writer :: "h1_client \<Rightarrow> h1_client \<times> pyobj option" where
  "take_writer s = (s\<lparr>cl_writer := None\<rparr>, cl_writer s)"

definition writer_done :: "h1_client \<Rightarrow> h1_client" where
  "writer_done s = s\<lparr>cl_writer_finished := True\<rparr>"

subsection \<open>The idle watcher\<close>

definition client_arm_watcher :: "pyobj \<Rightarrow> h1_client \<Rightarrow> h1_client \<times> bool" where
  "client_arm_watcher done s =
     (if cl_closed s \<or> cl_error s \<noteq> None \<or> cl_transport s = None \<or> cl_watcher s \<noteq> None then (s, False)
      else (s\<lparr>cl_exchange_active := False, cl_watcher := Some (new_watcher done)\<rparr>, True))"

definition client_store_watcher_handle :: "pyobj \<Rightarrow> h1_client \<Rightarrow> h1_client \<times> pyobj option" where
  "client_store_watcher_handle handle s =
     (if cl_closed s then (s, Some handle)
      else case cl_watcher s of
             Some w \<Rightarrow>
               if wa_handle w = None then (s\<lparr>cl_watcher := Some (w\<lparr>wa_handle := Some handle\<rparr>)\<rparr>, None)
               else (s, Some handle)
           | None \<Rightarrow> (s, Some handle))"

definition client_watcher_aborted :: "h1_client \<Rightarrow> h1_client" where
  "client_watcher_aborted s =
     (case cl_watcher s of
        Some w \<Rightarrow> s\<lparr>cl_watcher := Some (w\<lparr>wa_completed := True\<rparr>)\<rparr>
      | None \<Rightarrow> s)"

definition client_watcher_completed ::
  "bytes option \<Rightarrow> pyobj option \<Rightarrow> h1_client \<Rightarrow> h1_client \<times> watch_verdict \<times> pyobj option" where
  "client_watcher_completed data error s =
     (case cl_watcher s of
        None \<Rightarrow> (s, WATCH_IGNORED, None)
      | Some w0 \<Rightarrow>
          let w = w0\<lparr>wa_completed := True\<rparr>;
              s1 = s\<lparr>cl_watcher := Some w\<rparr>
          in if cl_exchange_active s1 then
               (s1\<lparr>cl_watcher := Some (w\<lparr>wa_data := data, wa_error := error\<rparr>)\<rparr>, WATCH_HANDOFF, None)
             else
               let empty = (case data of None \<Rightarrow> True | Some d \<Rightarrow> d = [])
               in if error \<noteq> None then
                    (if cl_closed s1 then (s1, WATCH_IGNORED, None) else (s1, WATCH_IDLE_ERROR, None))
                  else if empty then (case client_close_now s1 of (s2, t) \<Rightarrow> (s2, WATCH_IDLE_EOF, t))
                  else (s1, WATCH_IDLE_BYTES, None))"

definition client_take_watcher_handle :: "h1_client \<Rightarrow> h1_client \<times> pyobj option" where
  "client_take_watcher_handle s =
     (case cl_watcher s of
        Some w \<Rightarrow> (s\<lparr>cl_watcher := Some (w\<lparr>wa_handle := None\<rparr>)\<rparr>, wa_handle w)
      | None \<Rightarrow> (s, None))"

definition take_watcher_handoff ::
  "h1_client \<Rightarrow> h1_client \<times> pyobj option \<times> bytes option \<times> pyobj option" where
  "take_watcher_handoff s =
     (case cl_watcher s of
        None \<Rightarrow> (s, None, None, None)
      | Some w \<Rightarrow> (s\<lparr>cl_watcher := None\<rparr>, wa_handle w, wa_data w, wa_error w))"

definition client_take_watcher_result :: "h1_client \<Rightarrow> h1_client \<times> bytes option \<times> pyobj option" where
  "client_take_watcher_result s =
     (case cl_watcher s of
        None \<Rightarrow> (s, None, None)
      | Some w \<Rightarrow>
          (s\<lparr>cl_watcher := (if wa_handle w = None then None
                             else Some (w\<lparr>wa_data := None, wa_error := None\<rparr>))\<rparr>,
           wa_data w, wa_error w))"

subsection \<open>\<open>OnceLatch\<close>\<close>

definition try_acquire :: "bool \<Rightarrow> bool \<times> bool" where
  "try_acquire flag = (if flag then (flag, False) else (True, True))"

subsection \<open>The methods as one system\<close>

datatype client_op =
    SetPeerHttp10 bool | TryBeginExchange | EndExchange | ExchangeStarted | ClientFail "pyobj option"
  | ClientCloseNow | FinishExchange bool | ClientMarkClosed | Upgrade | StoreWriter pyobj | TakeWriter
  | WriterDone | ClientArmWatcher pyobj | ClientStoreHandle pyobj | ClientWatcherAborted
  | ClientWatcherCompleted "bytes option" "pyobj option" | ClientTakeHandle | TakeHandoff
  | ClientTakeResult | ClientCodec "h1_codec"

text \<open>The transport given away by a call, and whether it claimed (\<open>1\<close>) or released (\<open>- 1\<close>) the slot.
  The last operation stands for the driver's calls on the codec: any change of it.\<close>

definition slot_of :: "int \<Rightarrow> bool \<Rightarrow> int" where
  "slot_of n b = (if b then n else 0)"

fun client_call :: "client_op \<Rightarrow> h1_client \<Rightarrow> h1_client \<times> pyobj option \<times> int" where
  "client_call (SetPeerHttp10 v) s = (set_peer_http10 v s, None, 0)"
| "client_call TryBeginExchange s = (case try_begin_exchange s of (s', b) \<Rightarrow> (s', None, slot_of 1 b))"
| "client_call EndExchange s = (case end_exchange s of (s', b) \<Rightarrow> (s', None, slot_of (- 1) b))"
| "client_call ExchangeStarted s = (exchange_started s, None, 0)"
| "client_call (ClientFail e) s = (case client_fail e s of (s', t) \<Rightarrow> (s', t, 0))"
| "client_call ClientCloseNow s = (case client_close_now s of (s', t) \<Rightarrow> (s', t, 0))"
| "client_call (FinishExchange b) s = (case finish_exchange b s of (s', _, _, t) \<Rightarrow> (s', t, 0))"
| "client_call ClientMarkClosed s = (case client_mark_closed s of (s', t, _) \<Rightarrow> (s', t, 0))"
| "client_call Upgrade s = (case upgrade s of (s', t) \<Rightarrow> (s', t, 0))"
| "client_call (StoreWriter w) s = (fst (store_writer w s), None, 0)"
| "client_call TakeWriter s = (fst (take_writer s), None, 0)"
| "client_call WriterDone s = (writer_done s, None, 0)"
| "client_call (ClientArmWatcher d) s = (fst (client_arm_watcher d s), None, 0)"
| "client_call (ClientStoreHandle h) s = (fst (client_store_watcher_handle h s), None, 0)"
| "client_call ClientWatcherAborted s = (client_watcher_aborted s, None, 0)"
| "client_call (ClientWatcherCompleted d e) s =
     (case client_watcher_completed d e s of (s', _, t) \<Rightarrow> (s', t, 0))"
| "client_call ClientTakeHandle s = (fst (client_take_watcher_handle s), None, 0)"
| "client_call TakeHandoff s = (fst (take_watcher_handoff s), None, 0)"
| "client_call ClientTakeResult s = (fst (client_take_watcher_result s), None, 0)"
| "client_call (ClientCodec c) s = (s\<lparr>cl_codec := c\<rparr>, None, 0)"

text \<open>The state, the transports given away, the number of exchanges that hold the connection.\<close>

type_synonym client_run = "h1_client \<times> pyobj list \<times> int"

definition client_step :: "client_op \<Rightarrow> client_run \<Rightarrow> client_run option" where
  "client_step op r =
     (case r of (s, taken, held) \<Rightarrow>
        (case client_call op s of (s', t, n) \<Rightarrow>
           Some (s', taken @ (case t of Some x \<Rightarrow> [x] | None \<Rightarrow> []), held + n)))"

definition client_ok :: "h1_client \<Rightarrow> bool" where
  "client_ok s \<longleftrightarrow>
     (cl_upgraded s \<longrightarrow> cl_transport s = None)
     \<and> (cl_closed s \<longleftrightarrow> cl_transport s = None)
     \<and> (cl_error s \<noteq> None \<longrightarrow> cl_transport s = None)"

definition client_run_ok :: "pyobj \<Rightarrow> client_run \<Rightarrow> bool" where
  "client_run_ok t r \<longleftrightarrow>
     (case r of (s, taken, held) \<Rightarrow>
        client_ok s \<and> taken = (if cl_transport s = None then [t] else []) \<and> cl_transport s \<in> {None, Some t}
        \<and> held = (if cl_busy s then 1 else 0))"

lemmas client_defs = set_peer_http10_def try_begin_exchange_def end_exchange_def exchange_started_def
  client_fail_def client_close_now_def finish_exchange_def client_mark_closed_def upgrade_def
  store_writer_def take_writer_def writer_done_def client_arm_watcher_def
  client_store_watcher_handle_def client_watcher_aborted_def client_watcher_completed_def
  client_take_watcher_handle_def take_watcher_handoff_def client_take_watcher_result_def

definition client_moves :: "h1_client \<Rightarrow> h1_client \<times> pyobj option \<times> int \<Rightarrow> bool" where
  "client_moves s r \<longleftrightarrow>
     (case r of (s', t, n) \<Rightarrow>
        client_ok s' \<and> (cl_transport s' = cl_transport s \<and> t = None \<or> cl_transport s' = None \<and> t = cl_transport s)
        \<and> slot_of 1 (cl_busy s') = slot_of 1 (cl_busy s) + n)"

lemma client_call_moves: "client_ok s \<Longrightarrow> client_moves s (client_call op s)"
proof (cases op)
  case (ClientWatcherCompleted d e)
  assume "client_ok s"
  then show ?thesis
    unfolding ClientWatcherCompleted client_call.simps client_watcher_completed_def Let_def
    by (cases "cl_watcher s"; cases "cl_exchange_active s"; cases e; cases d)
      (simp_all add: client_moves_def client_ok_def client_close_now_def slot_of_def Let_def)
next
  case (ClientFail e)
  assume "client_ok s"
  then show ?thesis
    unfolding ClientFail
    by (cases e) (simp_all add: client_moves_def client_ok_def client_defs slot_of_def Let_def)
qed (simp_all add: client_moves_def client_ok_def client_defs slot_of_def Let_def split: option.split)

lemma client_step_ok: "client_step op r = Some r' \<Longrightarrow> client_run_ok t r \<Longrightarrow> client_run_ok t r'"
proof -
  assume step: "client_step op r = Some r'" and ok: "client_run_ok t r"
  obtain s taken held where r: "r = (s, taken, held)" by (rule prod_cases3)
  obtain s' x n where c: "client_call op s = (s', x, n)" by (rule prod_cases3)
  have "client_moves s (s', x, n)"
    using client_call_moves [of s op] ok c by (simp add: client_run_ok_def r)
  then show "client_run_ok t r'"
    using ok step c
    by (auto simp: client_run_ok_def client_step_def client_moves_def slot_of_def r split: if_splits)
qed

interpretation client: preserved client_step "client_run_ok t"
  for t
  by unfold_locales (rule client_step_ok)

text \<open>The first error stays.\<close>

definition client_error_stays :: "pyobj \<Rightarrow> client_run \<Rightarrow> bool" where
  "client_error_stays e r \<longleftrightarrow> cl_error (fst r) = Some e"

lemma client_call_error: "cl_error s = Some e \<Longrightarrow> cl_error (fst (client_call op s)) = Some e"
proof (cases op)
  case (ClientWatcherCompleted d e')
  assume "cl_error s = Some e"
  then show ?thesis
    unfolding ClientWatcherCompleted client_call.simps client_watcher_completed_def Let_def
    by (cases "cl_watcher s"; cases "cl_exchange_active s"; cases e'; cases d)
      (simp_all add: client_close_now_def Let_def)
next
  case (ClientFail e')
  assume "cl_error s = Some e"
  then show ?thesis
    unfolding ClientFail by (cases e') (simp_all add: client_defs Let_def)
qed (simp_all add: client_defs Let_def split: option.split)

lemma client_step_error: "client_step op r = Some r' \<Longrightarrow> client_error_stays e r \<Longrightarrow> client_error_stays e r'"
  using client_call_error [of "fst r" e op]
  by (auto simp: client_step_def client_error_stays_def split: prod.splits)

interpretation client_error: preserved client_step "client_error_stays e"
  for e
  by unfold_locales (rule client_step_error)

end
