(* ===== verification/Properties_H1.thy ===== *)
theory Properties_H1
  imports H1_Body_Roundtrip H1_Framing H1_Head_Framing H1_Codec H1_Server_Readers H1_Client
begin

section \<open>Properties of HTTP/1\<close>

text \<open>
  Bodies are read as they were written, however the reads are cut; heads are framed unambiguously in
  both directions; the head parsers return within their bounds; the connection states of both roles
  give their transport away once and keep their readers apart.
\<close>

subsection \<open>A parser library for the examples\<close>

text \<open>Names and methods are the bytes as text; requests and responses of two bytes are complete.\<close>

definition sample_lib :: h1_lib where
  "sample_lib =
     \<lparr>hp_request = (\<lambda>cfg n b. Inr (if length b < 2 then HpPartial
        else HpComplete 2 \<lparr>rp_method = ascii ''GET'', rp_path = ascii ''/'', rp_version = 1, rp_headers = []\<rparr>)),
      hp_response = (\<lambda>cfg n b. Inr (if length b < 2 then HpPartial
        else HpComplete 2 \<lparr>sp_code = 204, sp_version = 1, sp_headers = []\<rparr>)),
      hp_method = (\<lambda>b. Some (value_text b)), hp_uri = (\<lambda>b. Some (value_text b)),
      hp_name = (\<lambda>b. Some (value_text b)), hp_to_str = (\<lambda>v. Some (value_text v))\<rparr>"

definition sample_parser :: parser_config where
  "sample_parser =
     \<lparr>pc_ignore_invalid_headers_in_requests = False, pc_multiple_spaces_in_request_line = False,
      pc_spaces_after_header_name_in_responses = False, pc_obsolete_multiline_headers_in_responses = False,
      pc_ignore_invalid_headers_in_responses = False\<rparr>"

definition sample_options :: codec_options where
  "sample_options =
     \<lparr>co_max_headers = None, co_max_header_size = Some 16384, co_parser_config = sample_parser,
      co_title_case_headers = False, co_date_header = False, co_max_buf_size = 8192\<rparr>"

definition sample_env :: h1_env where
  "sample_env =
     \<lparr>he_lib = sample_lib, he_reason = (\<lambda>_. None), he_date = [], he_opts = sample_options\<rparr>"

definition sample_trailers :: trailer_lib where
  "sample_trailers =
     \<lparr>tl_parse_headers = (\<lambda>b n. Inr (Some [(take 1 b, take 1 (drop 3 b))])),
      tl_header_name = (\<lambda>b. Some (value_text b)), tl_header_value = (\<lambda>v. True)\<rparr>"


lemma char_of_5: "char_of (53 :: nat) = CHR ''5''"
proof -
  have "of_char (CHR ''5'') = (53 :: nat)" by simp
  then show ?thesis using char_of_char [of "CHR ''5''"] by metis
qed

lemma sample_reads_visible [simp]: "reads_visible (hp_to_str sample_lib)"
  by (simp add: reads_visible_def sample_lib_def)

subsection \<open>Bodies\<close>

lemma read_all_of_concat:
  assumes "body_read lib (concat reads) (body_decoder_new kind n mh mhs) = (bd, Inr d)" and "reads \<noteq> []"
  shows "read_all (body_read lib) data_before reads (body_decoder_new kind n mh mhs) = (bd, Inr d)"
proof -
  let ?new = "body_decoder_new kind n mh mhs"
  obtain u r where all: "read_all (body_read lib) data_before reads ?new = (u, r)" by (rule prod.exhaust)
  show ?thesis
  proof (cases r)
    case (Inl e)
    then show ?thesis
      using body.read_all_concat_fails [OF body_decoder_new_fit, of lib reads kind n mh mhs] all assms(1)
      by fastforce
  next
    case (Inr x)
    then show ?thesis
      using body.read_all_concat [OF body_decoder_new_fit assms(2), of lib kind n mh mhs] all assms(1) by simp
  qed
qed

text \<open>C29: how the transport cuts a message body into reads does not matter. Whatever the framing,
  draining the decoder after each read yields the data, and leaves the decoder and the bytes of the
  next message, as one read of the whole would; and where the body is malformed it fails with the
  same error behind the same data.\<close>

theorem body_reads_may_be_cut:
  assumes "read_all (body_read lib) data_before reads (body_decoder_new kind n mh mhs) = (bd, r)"
    and "reads \<noteq> []"
  shows "case r of
      Inr d \<Rightarrow> body_read lib (concat reads) (body_decoder_new kind n mh mhs) = (bd, Inr d)
    | Inl e \<Rightarrow> \<exists>bd'. body_read lib (concat reads) (body_decoder_new kind n mh mhs) = (bd', Inl e)"
  using body.read_all_concat [OF body_decoder_new_fit assms(2)]
    body.read_all_concat_fails [OF body_decoder_new_fit] assms(1)
  by (cases r) auto

theorem body_reads_may_be_cut_witness:
  "body_read sample_trailers (concat [[104], [105, 33]]) (body_decoder_new ''length'' 2 None None)
   = (\<lparr>bd_decoder = DLength 0, bd_read = \<lparr>mr_buf = [33], mr_eof = False\<rparr>, bd_done = True,
       bd_trailers = None\<rparr>, Inr [104, 105])"
proof -
  have "read_all (body_read sample_trailers) data_before [[104], [105, 33]]
      (body_decoder_new ''length'' 2 None None) = (\<lparr>bd_decoder = DLength 0,
        bd_read = \<lparr>mr_buf = [33], mr_eof = False\<rparr>, bd_done = True, bd_trailers = None\<rparr>, Inr [104, 105])"
    by (rule read_all_of_concat) (simp_all add: length_written_is_read)
  from body_reads_may_be_cut [OF this] show ?thesis by simp
qed

text \<open>C30: a chunked body round trip: the non-empty chunks the encoder frames, with the end of the
  body, are read back as their concatenation, however the bytes are cut into reads; the decoder is
  then complete, has no trailers, and holds exactly the bytes that came behind the body.\<close>

theorem chunked_body_roundtrip:
  assumes "en_kind enc = EncChunked a" and "\<forall>c \<in> set cs. c \<noteq> [] \<and> length c < 2 ^ 64"
    and "encode_chunks cs enc = Some (enc', out)" and "body_end enc' = Inr tail"
    and "concat reads = out @ tail_bytes tail @ rest"
  shows "\<exists>bd. read_all (body_read lib) data_before reads (body_decoder_new ''chunked'' n mh mhs)
        = (bd, Inr (concat cs))
     \<and> is_complete bd \<and> bd_trailers bd = None \<and> snd (take_buffered bd) = rest"
proof -
  have "enc' = enc" "out = concat (map chunk_bytes cs)"
    using encode_chunks_chunked [OF assms(1)] assms(2,3) by auto
  moreover from this(1) have "tail = TailTerminator"
    using assms(1,4) by (simp add: body_end_def encoder_end_def)
  ultimately have all: "concat reads = concat (map chunk_bytes cs) @ CHUNKED_TERMINATOR @ rest"
    using assms(5) by simp
  then have ne: "reads \<noteq> []" by (auto simp: CHUNKED_TERMINATOR_def crlf_def)
  obtain bd where bd: "body_read lib (concat reads) (body_decoder_new ''chunked'' n mh mhs) = (bd, Inr (concat cs))"
    and st: "bd_done bd" "mr_buf (bd_read bd) = rest" "bd_trailers bd = None"
    using chunked_written_is_read [OF assms(2), of lib rest n mh mhs] unfolding all by auto
  show ?thesis
    using read_all_of_concat [OF bd ne] st by (auto simp: is_complete_def take_buffered_def)
qed

theorem chunked_body_roundtrip_witness:
  fixes out
  defines "out \<equiv> concat (map chunk_bytes [[104, 105], [33]])"
  shows "\<exists>bd. read_all (body_read sample_trailers) data_before [take 3 out, drop 3 out, CHUNKED_TERMINATOR @ [71]]
      (body_decoder_new ''chunked'' 0 None None) = (bd, Inr [104, 105, 33])
    \<and> is_complete bd \<and> bd_trailers bd = None \<and> snd (take_buffered bd) = [71]"
proof -
  have "\<exists>bd. read_all (body_read sample_trailers) data_before [take 3 out, drop 3 out, CHUNKED_TERMINATOR @ [71]]
      (body_decoder_new ''chunked'' 0 None None) = (bd, Inr (concat [[104, 105], [33]]))
    \<and> is_complete bd \<and> bd_trailers bd = None \<and> snd (take_buffered bd) = [71]"
  proof (rule chunked_body_roundtrip)
    show "encode_chunks [[104, 105], [33]] encoder_chunked = Some (encoder_chunked, out)"
      unfolding out_def by (rule encode_chunks_chunked) auto
    show "body_end encoder_chunked = Inr TailTerminator" by (simp add: body_end_def encoder_end_def)
    show "concat [take 3 out, drop 3 out, CHUNKED_TERMINATOR @ [71]] = out @ tail_bytes TailTerminator @ [71]"
      using append_take_drop_id [of 3 out] by (simp del: append_take_drop_id)
  qed simp_all
  then show ?thesis by simp
qed




subsection \<open>Heads received\<close>

lemma value_text_ascii [simp]: "value_text (ascii s) = s"
proof -
  have "value_text (ascii s) = map char_of (map unat (ascii s))" by (simp add: value_text_def)
  also have "\<dots> = s" unfolding unat_ascii by (simp add: comp_def)
  finally show ?thesis .
qed

text \<open>C32: how a request is framed is a function of all its fields: with a transfer coding, whose last
  must be chunked and which only HTTP/1.1 may have, chunked; else the one length that all the
  Content-Length lines say; else no body. A request with both codings and lengths ends the
  connection, and its lengths are dropped; keep-alive, Expect and Upgrade are read off all the lines
  of their fields; no other field is dropped or changed.\<close>

theorem request_framing:
  assumes "server_message lib version subject raw = Inr m"
  shows "framed_as (hp_to_str lib) version (named_fields lib raw) (pm_decode m)
    \<and> (pm_keep_alive m \<longleftrightarrow>
         persistent (hp_to_str lib) (version = Http11) (named_fields lib raw)
         \<and> \<not> (te_lines (named_fields lib raw) \<noteq> [] \<and> cl_lines (named_fields lib raw) \<noteq> []))
    \<and> (pm_expect_continue m \<longleftrightarrow> expects_continue (named_fields lib raw))
    \<and> (pm_wants_upgrade m \<longleftrightarrow>
         asks_upgrade (version = Http11) (fst subject = ''CONNECT'') (named_fields lib raw))
    \<and> kept_fields (named_fields lib raw) (mh_headers (pm_head m))"
  using server_message_framing [OF assms] by blast

definition sample_raw :: "raw_field list" where
  "sample_raw =
     [(ascii ''content-length'', ascii ''5''), (ascii ''transfer-encoding'', ascii ''chunked''),
      (ascii ''content-length'', ascii ''7'')]"

lemma content_length_5: "content_length_parse (ascii ''5'') = Some 5"
  by (simp add: content_length_parse_def ascii_def from_digits_def u64_checked_digit_def)

lemma sample_chunked: "is_chunked_line (hp_to_str sample_lib) (ascii ''chunked'')"
proof -
  have "last (split_on (CHR '','') ''chunked'') = ''chunked''" by simp
  moreover have "trim ''chunked'' = ''chunked''" by (rule trim_none) (simp add: is_whitespace_def)
  ultimately show ?thesis by (simp add: is_chunked_line_def sample_lib_def eq_ignore_ascii_case_def)
qed

theorem request_framing_witness:
  "\<exists>m. server_message sample_lib Http11 (''POST'', ''/'') sample_raw = Inr m \<and> pm_decode m = CHUNKED
     \<and> \<not> pm_keep_alive m \<and> header_get_all (mh_headers (pm_head m)) ''content-length'' = []"
proof -
  have "\<exists>m. server_message sample_lib Http11 (''POST'', ''/'') sample_raw = Inr m"
    using sample_chunked
    by (simp add: server_message_def sample_raw_def server_start_def server_field_def content_length_5
        checked_new_def MAX_LEN_def append_field_def sample_lib_def Let_def)
  then obtain m where m: "server_message sample_lib Http11 (''POST'', ''/'') sample_raw = Inr m" by blast
  have "te_lines (named_fields sample_lib sample_raw) \<noteq> []" "cl_lines (named_fields sample_lib sample_raw) \<noteq> []"
    by (simp_all add: named_fields_def sample_raw_def sample_lib_def)
  then show ?thesis
    using request_framing [OF m] m by (auto simp: framed_as_def kept_fields_def)
qed

text \<open>C33: the client reads a head in finitely many steps: as long as httparse never completes a head of
  no bytes, \<open>receive_head\<close> returns whatever is buffered, however many interim responses are in front
  and however far the buffer is past the cap.\<close>

theorem receive_head_returns:
  assumes "\<And>cfg n b len parts. hp_response lib cfg n b = Inr (HpComplete len parts) \<Longrightarrow> 0 < len"
  shows "\<exists>c' r. receive_head lib opts data c = Some (c', r)"
proof -
  have "parse_response lib cfg mh mhs meth b \<noteq> None" for cfg mh mhs meth b
    using client_parse_returns [of lib cfg mh mhs meth b] assms by (auto simp: parse_response_def)
  then have "parse_head opts (parse_response lib (co_parser_config opts) (co_max_headers opts)
      (co_max_header_size opts) (hc_req_method c)) (hc_buf c @ data) \<noteq> None"
    by (intro parse_head_returns) blast
  then show ?thesis by (auto simp: receive_head_def)
qed

theorem receive_head_returns_witness:
  "\<exists>c' r. receive_head sample_lib sample_options [72, 84] codec_start = Some (c', r)"
  by (rule receive_head_returns) (auto simp: sample_lib_def split: if_splits)



subsection \<open>Heads sent\<close>


definition sample_response :: "u16 \<Rightarrow> header_map \<Rightarrow> body_length option \<Rightarrow> u16 encode" where
  "sample_response status flds body =
     \<lparr>ec_head = \<lparr>mh_version = Http11, mh_subject = status, mh_headers = flds\<rparr>, ec_body = body,
      ec_keep_alive = True, ec_req_method = None, ec_title_case_headers = False, ec_date_header = False\<rparr>"

lemmas encode_defs = encode_headers_def finish_head_def close_head_def default_length_def
  encode_fields.simps encode_field_def encode_connection_def encode_transfer_encoding_def
  encode_content_length_def next_name_def handle_is_name_written_def join_line_def open_line_def
  write_line_def hs_extend_def head_start_def header_drain_def head_can_chunk_def can_chunked_def
  can_have_body_def can_have_content_length_def can_have_implicit_zero_content_length_def
  is_informational_def is_success_def


text \<open>C36: what this client frames, this server reads: when the fields \<open>set_length\<close> gives a request with
  a body are read back by \<open>Server::parse\<close> at all, it takes for the body what the body encoder writes:
  chunked for chunked, the same length for a length.\<close>

theorem request_framing_agrees:
  assumes "reads_visible (hp_to_str lib)"
    and "set_length lib version method flds (Some body) = (flds', e)"
    and "\<And>n. body = LengthKnown n \<Longrightarrow> n < 2 ^ 64"
    and "named_fields lib' raw = flds'" and "hp_to_str lib' = hp_to_str lib"
    and "server_message lib' version subject raw = Inr m"
  shows "pm_decode m = kind_length (en_kind e)"
  using set_length_agrees [OF assms(1-3)] server_message_framing(1) [OF assms(6)] assms(4,5) by simp

theorem request_framing_agrees_witness:
  "\<exists>m. server_message sample_lib Http11 (''POST'', ''/'') [(ascii ''content-length'', ascii ''5'')] = Inr m
     \<and> pm_decode m = 5"
proof -
  have "\<exists>m. server_message sample_lib Http11 (''POST'', ''/'') [(ascii ''content-length'', ascii ''5'')] = Inr m"
    by (simp add: server_message_def server_start_def server_field_def content_length_5
        checked_new_def MAX_LEN_def append_field_def sample_lib_def Let_def)
  then obtain m where m: "server_message sample_lib Http11 (''POST'', ''/'')
      [(ascii ''content-length'', ascii ''5'')] = Inr m" by blast
  have "show_nat 5 = ''5''" by (subst show_nat.simps) (simp add: char_of_5)
  then have "set_length sample_lib Http11 ''POST'' [] (Some (LengthKnown 5))
      = ([(''content-length'', ascii ''5'')], encoder_length 5)"
    by (simp add: set_length_def set_content_length_def content_length_parse_all_def
        content_length_parse_all_values_def)
  from request_framing_agrees [OF sample_reads_visible this _ _ refl m] m show ?thesis
    by (simp add: named_fields_def sample_lib_def)
qed



text \<open>The flag \<open>must_write_chunked\<close> outlives the Transfer-Encoding line: a Connection line behind it is
  closed with a second \<open>, chunked\<close>.\<close>

lemma chunked_written_twice:
  "\<exists>e. server_encode sample_lib (\<lambda>_. None) []
     (sample_response 200 [(''transfer-encoding'', ascii ''gzip''), (''connection'', ascii ''upgrade'')]
        (Some LengthUnknown)) []
   = Some (ascii ''HTTP/1.1 200 OK'' @ crlf @ ascii ''transfer-encoding: gzip, chunked'' @ crlf
       @ ascii ''connection: upgrade, chunked'' @ crlf @ crlf, Inr e)"
proof -
  have "\<not> is_chunked_line (hp_to_str sample_lib) (ascii ''gzip'')"
    using trim_none [of "''gzip''"]
    by (simp add: is_chunked_line_def sample_lib_def eq_ignore_ascii_case_def is_whitespace_def)
  moreover have "\<not> connection_close (hp_to_str sample_lib) (ascii ''upgrade'')"
    using trim_none [of "''upgrade''"]
    by (simp add: connection_close_def connection_has_def sample_lib_def eq_ignore_ascii_case_def
        is_whitespace_def)
  ultimately show ?thesis
    by (simp add: sample_response_def server_encode_def encode_defs status_line_def casing_def ascii_def Let_def)
qed

subsection \<open>Connections\<close>

text \<open>C38: whatever the tasks of a server connection call in whatever order, the transport is given away
  at most once, and exactly when the state no longer holds it; every request is answered at most
  once; a closed or shut-down connection is not reusable, an upgraded one is closed and has given
  its transport away; and an open connection still has it.\<close>

theorem server_connection_safe:
  assumes "run_ops (server_step env lib) ops (server_started codec t keep_alive half_close)
      = Some (s, taken, answered)"
  shows "taken @ opt_list (sv_transport s) = [t] \<and> distinct answered
    \<and> (sv_closed s \<or> sv_shutdown_requested s \<longrightarrow> \<not> sv_reusable s)
    \<and> (sv_upgraded s \<longrightarrow> sv_closed s \<and> taken = [t]) \<and> (\<not> sv_closed s \<longrightarrow> taken = [])"
proof -
  have "run_ok t (s, taken, answered)" by (rule server.run_holds [OF assms run_ok_started])
  then show ?thesis
    by (cases "sv_transport s")
      (auto simp: run_ok_def server_ok_def flags_ok_def transport_given_def answers_ok_def)
qed

theorem server_connection_safe_witness:
  "\<exists>s. run_ops (server_step sample_env sample_trailers) [BeginRead 0, RequestShutdown, MarkClosed]
       (server_started codec_start 7 True False) = Some (s, [7], []) \<and> \<not> sv_reusable s"
proof -
  have "\<exists>s. run_ops (server_step sample_env sample_trailers) [BeginRead 0, RequestShutdown, MarkClosed]
      (server_started codec_start 7 True False) = Some (s, [7], []) \<and> sv_closed s"
    by (simp add: server_step_def server_started_def server_new_def current_none_def begin_read_def
        ready_for_next_def feed_decoder_leftover_def read_verdict_def request_shutdown_def mark_closed_def
        close_now_def codec_reset_def codec_buffered_def codec_start_def given_def Let_def)
  then show ?thesis using server_connection_safe by blast
qed



text \<open>C40: whatever is called on a client connection, its transport is given away once, just when the
  connection closes; the exchanges that hold the connection are none or one, as the state says; and
  a first error is never replaced, and closes it.\<close>

theorem client_connection_safe:
  assumes "run_ops client_step ops (client_new codec t, [], 0) = Some (s, taken, held)"
    and "run_ops client_step ops' (s, taken, held) = Some (s', taken', held')"
  shows "taken = (if cl_closed s then [t] else [])
    \<and> cl_transport s = (if cl_closed s then None else Some t)
    \<and> held = (if cl_busy s then 1 else 0)
    \<and> (\<forall>e. cl_error s = Some e \<longrightarrow> cl_closed s \<and> cl_error s' = Some e)"
proof -
  have "client_run_ok t (client_new codec t, [], 0)"
    by (simp add: client_run_ok_def client_ok_def client_new_def)
  then have ok: "client_run_ok t (s, taken, held)" by (rule client.run_holds [OF assms(1)])
  have "cl_error s' = Some e" if "cl_error s = Some e" for e
    using client_error.run_holds [OF assms(2), of e] that by (simp add: client_error_stays_def)
  then show ?thesis using ok by (auto simp: client_run_ok_def client_ok_def)
qed

theorem client_connection_safe_witness:
  "\<exists>s s' r. run_ops client_step [TryBeginExchange, TryBeginExchange, ClientFail (Some 3)]
         (client_new codec_start 7, [], 0) = Some (s, [7], 1)
     \<and> run_ops client_step [ClientFail (Some 4)] (s, [7], 1) = Some (s', r)
     \<and> cl_closed s \<and> cl_error s' = Some 3"
proof -
  have "\<exists>s. run_ops client_step [TryBeginExchange, TryBeginExchange, ClientFail (Some 3)]
       (client_new codec_start 7, [], 0) = Some (s, [7], 1) \<and> cl_error s = Some 3"
    by (simp add: client_step_def client_new_def client_defs slot_of_def Let_def)
  then obtain s where s: "run_ops client_step [TryBeginExchange, TryBeginExchange, ClientFail (Some 3)]
       (client_new codec_start 7, [], 0) = Some (s, [7], 1)" "cl_error s = Some 3" by blast
  have "\<exists>x. run_ops client_step [ClientFail (Some 4)] (s, [7], 1) = Some x"
    by (cases "client_call (ClientFail (Some 4)) s") (simp add: client_step_def)
  then obtain s' taken' held' where
    s': "run_ops client_step [ClientFail (Some 4)] (s, [7], 1) = Some (s', taken', held')"
    using prod_cases3 by metis
  show ?thesis using client_connection_safe [OF s(1) s'] s s' by blast
qed

end
