(* ===== verification/Hpack_Table.thy ===== *)
theory Hpack_Table
  imports Hpack_Decode
begin

section \<open>The HPACK encoder's table\<close>

text \<open>
  crates/vendor-h2/src/hpack/table.rs and the accessors of header.rs it calls. The table is a
  queue of slots, newest first, with an open-addressing hash map over the names (\<open>indices\<close>, Robin
  Hood probing): a \<open>pos\<close> leads to the oldest slot of a name, \<open>next\<close> from a slot to the next newer
  one of the same name. Slots are named by a counter that wraps: the slot \<open>inserted\<close> puts at the
  front has the index \<open>- inserted\<close>, so its place in the queue is \<open>index + inserted\<close>.

  Every operation returns an option: \<open>None\<close> is a panic of the code (an index out of range, an
  \<open>unwrap\<close> of \<open>None\<close>) or a loop that does not end. The hash of a name (crate \<open>fnv\<close>) is an argument.
  The sizes are \<open>nat\<close>, the counters that wrap are 64-bit words.
\<close>

subsection \<open>Headers as the encoder sees them\<close>

datatype hpack_name =
  NField header_name | NAuthority | NMethod | NScheme | NPath | NProtocol | NStatus

text \<open>A header with the flag of its value (\<open>HeaderValue::is_sensitive\<close>, kept by fields only).\<close>

type_synonym enc_header = "hpack_header \<times> bool"

type_synonym name_hasher = "hpack_name \<Rightarrow> 64 word"

fun header_name_of :: "hpack_header \<Rightarrow> hpack_name" where
  "header_name_of (HField n _) = NField n"
| "header_name_of (HAuthority _) = NAuthority"
| "header_name_of (HMethod _) = NMethod"
| "header_name_of (HScheme _) = NScheme"
| "header_name_of (HPath _) = NPath"
| "header_name_of (HProtocol _) = NProtocol"
| "header_name_of (HStatus _) = NStatus"

fun header_value_eq :: "hpack_header \<Rightarrow> hpack_header \<Rightarrow> bool" where
  "header_value_eq (HField _ a) (HField _ b) = (a = b)"
| "header_value_eq (HAuthority a) (HAuthority b) = (a = b)"
| "header_value_eq (HMethod a) (HMethod b) = (a = b)"
| "header_value_eq (HScheme a) (HScheme b) = (a = b)"
| "header_value_eq (HPath a) (HPath b) = (a = b)"
| "header_value_eq (HProtocol a) (HProtocol b) = (a = b)"
| "header_value_eq (HStatus a) (HStatus b) = (a = b)"
| "header_value_eq _ _ = False"

definition header_is_sensitive :: "enc_header \<Rightarrow> bool" where
  "header_is_sensitive h = (case fst h of HField _ _ \<Rightarrow> snd h | _ \<Rightarrow> False)"

definition skip_value_index :: "hpack_header \<Rightarrow> bool" where
  "skip_value_index h =
     (case h of
        HField n _ \<Rightarrow> n \<in> set [''age'', ''authorization'', ''content-length'', ''etag'',
          ''if-modified-since'', ''if-none-match'', ''location'', ''cookie'', ''set-cookie'']
      | HPath _ \<Rightarrow> True
      | _ \<Rightarrow> False)"

subsection \<open>The static table, searched\<close>

definition static_fields :: "(header_name \<times> usize) list" where
  "static_fields =
     [(''accept-charset'', 15), (''accept-encoding'', 16), (''accept-language'', 17),
      (''accept-ranges'', 18), (''accept'', 19), (''access-control-allow-origin'', 20),
      (''age'', 21), (''allow'', 22), (''authorization'', 23), (''cache-control'', 24),
      (''content-disposition'', 25), (''content-encoding'', 26), (''content-language'', 27),
      (''content-length'', 28), (''content-location'', 29), (''content-range'', 30),
      (''content-type'', 31), (''cookie'', 32), (''date'', 33), (''etag'', 34), (''expect'', 35),
      (''expires'', 36), (''from'', 37), (''host'', 38), (''if-match'', 39),
      (''if-modified-since'', 40), (''if-none-match'', 41), (''if-range'', 42),
      (''if-unmodified-since'', 43), (''last-modified'', 44), (''link'', 45), (''location'', 46),
      (''max-forwards'', 47), (''proxy-authenticate'', 48), (''proxy-authorization'', 49),
      (''range'', 50), (''referer'', 51), (''refresh'', 52), (''retry-after'', 53),
      (''server'', 54), (''set-cookie'', 55), (''strict-transport-security'', 56),
      (''transfer-encoding'', 57), (''user-agent'', 58), (''vary'', 59), (''via'', 60),
      (''www-authenticate'', 61)]"

definition index_static :: "hpack_header \<Rightarrow> (usize \<times> bool) option" where
  "index_static h =
     (case h of
        HField n v \<Rightarrow>
          (if n = ''accept-encoding'' then Some (16, v = ascii ''gzip, deflate'')
           else case map_of static_fields n of Some i \<Rightarrow> Some (i, False) | None \<Rightarrow> None)
      | HAuthority _ \<Rightarrow> Some (1, False)
      | HMethod v \<Rightarrow>
          (if v = ''GET'' then Some (2, True) else if v = ''POST'' then Some (3, True)
           else Some (2, False))
      | HScheme v \<Rightarrow>
          (if v = ''http'' then Some (6, True) else if v = ''https'' then Some (7, True)
           else Some (6, False))
      | HPath v \<Rightarrow>
          (if v = ''/'' then Some (4, True) else if v = ''/index.html'' then Some (5, True)
           else Some (4, False))
      | HProtocol _ \<Rightarrow> None
      | HStatus v \<Rightarrow>
          (if v = 200 then Some (8, True) else if v = 204 then Some (9, True)
           else if v = 206 then Some (10, True) else if v = 304 then Some (11, True)
           else if v = 400 then Some (12, True) else if v = 404 then Some (13, True)
           else if v = 500 then Some (14, True) else Some (8, False)))"

subsection \<open>The state\<close>

record pos =
  ps_index :: "64 word"
  ps_hash :: usize

record slot =
  sl_hash :: usize
  sl_header :: enc_header
  sl_next :: "64 word option"

record enc_table =
  et_mask :: usize
  et_indices :: "pos option list"
  et_slots :: "slot list"
  et_inserted :: "64 word"
  et_size :: usize
  et_max_size :: usize

datatype index =
    IxIndexed usize enc_header
  | IxName usize enc_header
  | IxInserted usize
  | IxInsertedValue usize usize
  | IxNotIndexed enc_header

definition DYN_OFFSET :: usize where "DYN_OFFSET = 62"

definition usable_capacity :: "usize \<Rightarrow> usize" where
  "usable_capacity cap = cap - cap div 4"

definition to_raw_capacity :: "usize \<Rightarrow> usize" where
  "to_raw_capacity n = n + n div 3"

definition desired_pos :: "usize \<Rightarrow> usize \<Rightarrow> usize" where
  "desired_pos m hash = hash AND m"

definition probe_distance :: "usize \<Rightarrow> usize \<Rightarrow> usize \<Rightarrow> usize" where
  "probe_distance m hash current = usize_sub current (desired_pos m hash) AND m"

definition hash_header :: "name_hasher \<Rightarrow> hpack_header \<Rightarrow> usize" where
  "hash_header hf h = unat (hf (header_name_of h) AND 0xffff)"

text \<open>\<open>n.next_power_of_two()\<close>.\<close>

function next_power_from :: "usize \<Rightarrow> usize \<Rightarrow> usize" where
  "next_power_from p n = (if n \<le> p \<or> p = 0 then p else next_power_from (2 * p) n)"
  by auto
termination by (relation "measure (\<lambda>(p, n). n - p)") auto

declare next_power_from.simps [simp del]

definition enc_table_new :: "usize \<Rightarrow> usize \<Rightarrow> enc_table" where
  "enc_table_new max_size capacity =
     (if capacity = 0 then
        \<lparr>et_mask = 0, et_indices = [], et_slots = [], et_inserted = 0, et_size = 0,
         et_max_size = max_size\<rparr>
      else
        let cap = max (next_power_from 1 (to_raw_capacity capacity)) 8
        in \<lparr>et_mask = cap - 1, et_indices = replicate cap None, et_slots = [], et_inserted = 0,
            et_size = 0, et_max_size = max_size\<rparr>)"

definition et_capacity :: "enc_table \<Rightarrow> usize" where
  "et_capacity t = usable_capacity (length (et_indices t))"

definition real_idx :: "enc_table \<Rightarrow> 64 word \<Rightarrow> usize" where
  "real_idx t i = unat (i + et_inserted t)"

definition slot_at :: "enc_table \<Rightarrow> usize \<Rightarrow> slot option" where
  "slot_at t i = (if i < length (et_slots t) then Some (et_slots t ! i) else None)"

text \<open>\<open>resolve\<close> and \<open>resolve_idx\<close>.\<close>

definition et_resolve :: "enc_table \<Rightarrow> index \<Rightarrow> enc_header option" where
  "et_resolve t ix =
     (case ix of
        IxIndexed _ h \<Rightarrow> Some h
      | IxName _ h \<Rightarrow> Some h
      | IxInserted idx \<Rightarrow> map_option sl_header (slot_at t idx)
      | IxInsertedValue _ idx \<Rightarrow> map_option sl_header (slot_at t idx)
      | IxNotIndexed h \<Rightarrow> Some h)"

definition resolve_idx :: "index \<Rightarrow> usize option" where
  "resolve_idx ix =
     (case ix of
        IxIndexed idx _ \<Rightarrow> Some idx
      | IxName idx _ \<Rightarrow> Some idx
      | IxInserted idx \<Rightarrow> Some (idx + DYN_OFFSET)
      | IxInsertedValue _ slot_idx \<Rightarrow> Some (slot_idx + DYN_OFFSET)
      | IxNotIndexed _ \<Rightarrow> None)"

definition index_new :: "(usize \<times> bool) option \<Rightarrow> enc_header \<Rightarrow> index" where
  "index_new v e =
     (case v of
        None \<Rightarrow> IxNotIndexed e
      | Some (n, True) \<Rightarrow> IxIndexed n e
      | Some (n, False) \<Rightarrow> IxName n e)"

subsection \<open>Eviction\<close>

text \<open>\<open>remove_phase_two\<close>: \<open>probe_loop!\<close> starts over at 0 when the probe reaches the end.\<close>

partial_function (option) shift_back ::
  "usize \<Rightarrow> usize \<Rightarrow> usize \<Rightarrow> pos option list \<Rightarrow> pos option list option" where
  "shift_back m last_probe probe ix =
     (if probe < length ix then
        (case ix ! probe of
           Some p \<Rightarrow>
             (if 0 < probe_distance m (ps_hash p) probe
              then shift_back m probe (probe + 1) (ix[last_probe := Some p, probe := None])
              else Some ix)
         | None \<Rightarrow> Some ix)
      else shift_back m last_probe 0 ix)"

definition remove_phase_two :: "usize \<Rightarrow> enc_table \<Rightarrow> enc_table option" where
  "remove_phase_two probe t =
     map_option (\<lambda>ix. t\<lparr>et_indices := ix\<rparr>) (shift_back (et_mask t) probe (probe + 1) (et_indices t))"

partial_function (option) evict_probe ::
  "64 word \<Rightarrow> slot \<Rightarrow> 64 word option \<Rightarrow> enc_table \<Rightarrow> usize \<Rightarrow> enc_table option" where
  "evict_probe pos_idx s prev_idx t probe =
     (if probe < length (et_indices t) then
        (case et_indices t ! probe of
           None \<Rightarrow> None
         | Some p \<Rightarrow>
             (if ps_index p = pos_idx then
                (case sl_next s of
                   Some idx \<Rightarrow>
                     Some (t\<lparr>et_indices := (et_indices t)[probe := Some (p\<lparr>ps_index := idx\<rparr>)]\<rparr>)
                 | None \<Rightarrow>
                     (if Some (ps_index p) = prev_idx then
                        Some (t\<lparr>et_indices :=
                          (et_indices t)[probe := Some (p\<lparr>ps_index := - (et_inserted t + 1)\<rparr>)]\<rparr>)
                      else
                        remove_phase_two probe
                          (t\<lparr>et_indices := (et_indices t)[probe := None]\<rparr>)))
              else evict_probe pos_idx s prev_idx t (probe + 1)))
      else evict_probe pos_idx s prev_idx t 0)"

definition evict :: "64 word option \<Rightarrow> enc_table \<Rightarrow> enc_table option" where
  "evict prev_idx t =
     (let pos_idx = word_of_nat (usize_sub (length (et_slots t)) 1) - et_inserted t
      in if et_slots t = [] then None
         else
           let s = last (et_slots t);
               t1 = t\<lparr>et_slots := butlast (et_slots t),
                      et_size := usize_sub (et_size t) (header_len (fst (sl_header s)))\<rparr>
           in evict_probe pos_idx s prev_idx t1 (desired_pos (et_mask t) (sl_hash s)))"

partial_function (option) converge ::
  "64 word option \<Rightarrow> enc_table \<Rightarrow> bool \<Rightarrow> (enc_table \<times> bool) option" where
  "converge prev_idx t ret =
     (if et_max_size t < et_size t then
        Option.bind (evict prev_idx t) (\<lambda>t'. converge prev_idx t' True)
      else Some (t, ret))"

definition update_size :: "usize \<Rightarrow> 64 word option \<Rightarrow> enc_table \<Rightarrow> (enc_table \<times> bool) option" where
  "update_size len prev_idx t = converge prev_idx (t\<lparr>et_size := et_size t + len\<rparr>) False"

definition et_resize :: "usize \<Rightarrow> enc_table \<Rightarrow> enc_table option" where
  "et_resize sz t =
     (let t1 = t\<lparr>et_max_size := sz\<rparr>
      in if sz = 0 then
           Some (t1\<lparr>et_size := 0, et_indices := map (\<lambda>_. None) (et_indices t1), et_slots := [],
                    et_inserted := 0\<rparr>)
         else map_option fst (converge None t1 False))"

subsection \<open>Growth\<close>

partial_function (option) reinsert_probe ::
  "pos \<Rightarrow> pos option list \<Rightarrow> usize \<Rightarrow> pos option list option" where
  "reinsert_probe p ix probe =
     (if probe < length ix then
        (if ix ! probe = None then Some (ix[probe := Some p]) else reinsert_probe p ix (probe + 1))
      else reinsert_probe p ix 0)"

definition reinsert_entry_in_order ::
  "usize \<Rightarrow> pos option \<Rightarrow> pos option list \<Rightarrow> pos option list option" where
  "reinsert_entry_in_order m p ix =
     (case p of None \<Rightarrow> Some ix | Some p \<Rightarrow> reinsert_probe p ix (desired_pos m (ps_hash p)))"

fun reinsert_all ::
  "usize \<Rightarrow> pos option list \<Rightarrow> pos option list \<Rightarrow> pos option list option" where
  "reinsert_all m [] ix = Some ix"
| "reinsert_all m (p # ps) ix = Option.bind (reinsert_entry_in_order m p ix) (reinsert_all m ps)"

text \<open>The first entry at its ideal place, or 0.\<close>

fun first_ideal :: "usize \<Rightarrow> usize \<Rightarrow> pos option list \<Rightarrow> usize" where
  "first_ideal m i [] = 0"
| "first_ideal m i (None # ps) = first_ideal m (i + 1) ps"
| "first_ideal m i (Some p # ps) =
     (if probe_distance m (ps_hash p) i = 0 then i else first_ideal m (i + 1) ps)"

definition grow :: "usize \<Rightarrow> enc_table \<Rightarrow> enc_table option" where
  "grow new_raw_cap t =
     (let f = first_ideal (et_mask t) 0 (et_indices t);
          old = et_indices t;
          m = usize_sub new_raw_cap 1
      in map_option (\<lambda>ix. t\<lparr>et_mask := m, et_indices := ix\<rparr>)
           (Option.bind (reinsert_all m (drop f old) (replicate new_raw_cap None))
              (reinsert_all m (take f old))))"

definition reserve_one :: "enc_table \<Rightarrow> enc_table option" where
  "reserve_one t =
     (if length (et_slots t) = et_capacity t then
        (if length (et_slots t) = 0
         then Some (t\<lparr>et_mask := 8 - 1, et_indices := replicate 8 None\<rparr>)
         else grow (2 * length (et_indices t)) t)
      else Some t)"

subsection \<open>Lookup and insertion\<close>

definition et_insert :: "enc_header \<Rightarrow> usize \<Rightarrow> enc_table \<Rightarrow> enc_table" where
  "et_insert h hash t =
     t\<lparr>et_inserted := et_inserted t + 1,
       et_slots := \<lparr>sl_hash = hash, sl_header = h, sl_next = None\<rparr> # et_slots t\<rparr>"

text \<open>\<open>index_vacant\<close>: back towards the ideal place after an eviction, and the shift that makes room.\<close>

fun vacant_back ::
  "usize \<Rightarrow> pos option list \<Rightarrow> usize \<Rightarrow> usize \<Rightarrow> (usize \<times> usize) option" where
  "vacant_back m ix 0 probe = Some (0, probe)"
| "vacant_back m ix (Suc d) probe =
     (let prior = usize_sub probe 1 AND m
      in if prior < length ix then
           (case ix ! prior of
              Some p \<Rightarrow>
                (if probe_distance m (ps_hash p) prior < d then vacant_back m ix d prior
                 else Some (Suc d, probe))
            | None \<Rightarrow> vacant_back m ix d prior)
         else None)"

partial_function (option) shift_forward ::
  "pos \<Rightarrow> usize \<Rightarrow> pos option list \<Rightarrow> pos option list option" where
  "shift_forward prev probe ix =
     (if probe < length ix then
        (case ix ! probe of
           Some p \<Rightarrow> shift_forward p (probe + 1) (ix[probe := Some prev])
         | None \<Rightarrow> Some (ix[probe := Some prev]))
      else shift_forward prev 0 ix)"

definition place_pos :: "pos \<Rightarrow> usize \<Rightarrow> pos option list \<Rightarrow> pos option list option" where
  "place_pos p probe ix =
     (if probe < length ix then
        (case ix ! probe of
           Some prev \<Rightarrow> shift_forward prev (probe + 1) (ix[probe := Some p])
         | None \<Rightarrow> Some (ix[probe := Some p]))
      else None)"

definition index_vacant ::
  "enc_header \<Rightarrow> usize \<Rightarrow> usize \<Rightarrow> usize \<Rightarrow> (usize \<times> bool) option \<Rightarrow> enc_table
   \<Rightarrow> (enc_table \<times> index) option" where
  "index_vacant h hash dist probe statik t =
     (if header_is_sensitive h then Some (t, index_new statik h)
      else
        Option.bind (update_size (header_len (fst h)) None t) (\<lambda>(t1, evicted).
        Option.bind (if evicted then vacant_back (et_mask t1) (et_indices t1) dist probe
                     else Some (dist, probe)) (\<lambda>(_, probe1).
          let t2 = et_insert h hash t1;
              pos_idx = - et_inserted t2
          in Option.bind (place_pos \<lparr>ps_index = pos_idx, ps_hash = hash\<rparr> probe1 (et_indices t2))
               (\<lambda>ix. Some (t2\<lparr>et_indices := ix\<rparr>,
                  case statik of Some (n, _) \<Rightarrow> IxInsertedValue n 0 | None \<Rightarrow> IxInserted 0)))))"

text \<open>\<open>index_occupied\<close>: along the chain of a name, to the value or to the newest slot.\<close>

partial_function (option) occupied_walk ::
  "enc_table \<Rightarrow> hpack_header \<Rightarrow> 64 word \<Rightarrow> (64 word \<times> bool) option" where
  "occupied_walk t h i =
     (case slot_at t (real_idx t i) of
        None \<Rightarrow> None
      | Some s \<Rightarrow>
          (if header_value_eq (fst (sl_header s)) h then Some (i, True)
           else case sl_next s of
                  Some nxt \<Rightarrow> occupied_walk t h nxt
                | None \<Rightarrow> Some (i, False)))"

definition link_newest :: "64 word \<Rightarrow> enc_table \<Rightarrow> enc_table" where
  "link_newest i t =
     (let r = real_idx t i
      in if r < length (et_slots t)
         then t\<lparr>et_slots := (et_slots t)[r := (et_slots t ! r)\<lparr>sl_next := Some (- et_inserted t)\<rparr>]\<rparr>
         else t)"

definition index_occupied ::
  "enc_header \<Rightarrow> usize \<Rightarrow> 64 word \<Rightarrow> usize option \<Rightarrow> enc_table \<Rightarrow> (enc_table \<times> index) option" where
  "index_occupied h hash i0 statik t =
     Option.bind (occupied_walk t (fst h) i0) (\<lambda>(i, found).
       let r = real_idx t i
       in if found then Some (t, IxIndexed (r + DYN_OFFSET) h)
          else if header_is_sensitive h then Some (t, IxName (r + DYN_OFFSET) h)
          else
            Option.bind (update_size (header_len (fst h)) (Some i) t) (\<lambda>(t1, _).
              Some (link_newest i (et_insert h hash t1),
                    case statik of Some n \<Rightarrow> IxInsertedValue n 0
                                 | None \<Rightarrow> IxInsertedValue (r + DYN_OFFSET) 0)))"

datatype probe_result = ProbeVacant usize usize | ProbeOccupied "64 word"

partial_function (option) probe_name ::
  "enc_table \<Rightarrow> hpack_name \<Rightarrow> usize \<Rightarrow> usize \<Rightarrow> usize \<Rightarrow> probe_result option" where
  "probe_name t n hash probe dist =
     (if probe < length (et_indices t) then
        (case et_indices t ! probe of
           None \<Rightarrow> Some (ProbeVacant dist probe)
         | Some p \<Rightarrow>
             (if probe_distance (et_mask t) (ps_hash p) probe < dist
              then Some (ProbeVacant dist probe)
              else if ps_hash p = hash then
                (case slot_at t (real_idx t (ps_index p)) of
                   None \<Rightarrow> None
                 | Some s \<Rightarrow>
                     (if header_name_of (fst (sl_header s)) = n then Some (ProbeOccupied (ps_index p))
                      else probe_name t n hash (probe + 1) (dist + 1)))
              else probe_name t n hash (probe + 1) (dist + 1)))
      else probe_name t n hash 0 dist)"

definition index_dynamic ::
  "name_hasher \<Rightarrow> enc_header \<Rightarrow> (usize \<times> bool) option \<Rightarrow> enc_table
   \<Rightarrow> (enc_table \<times> index) option" where
  "index_dynamic hf h statik t =
     Option.bind (if header_len (fst h) + et_size t < et_max_size t \<or> \<not> header_is_sensitive h
                  then reserve_one t else Some t) (\<lambda>t1.
       if et_indices t1 = [] then Some (t1, index_new statik h)
       else
         let hash = hash_header hf (fst h)
         in Option.bind
              (probe_name t1 (header_name_of (fst h)) hash (desired_pos (et_mask t1) hash) 0)
              (\<lambda>r. case r of
                 ProbeVacant dist probe \<Rightarrow> index_vacant h hash dist probe statik t1
               | ProbeOccupied i \<Rightarrow> index_occupied h hash i (map_option fst statik) t1))"

definition et_index ::
  "name_hasher \<Rightarrow> enc_header \<Rightarrow> enc_table \<Rightarrow> (enc_table \<times> index) option" where
  "et_index hf h t =
     (let statik = index_static (fst h)
      in if skip_value_index (fst h) then Some (t, index_new statik h)
         else case statik of
           Some (n, True) \<Rightarrow> Some (t, IxIndexed n h)
         | _ \<Rightarrow>
             (if et_max_size t * 3 < header_len (fst h) * 4 then Some (t, index_new statik h)
              else index_dynamic hf h statik t))"

end
