(* ===== verification/Hpack_Probe.thy ===== *)
theory Hpack_Probe
  imports Hpack_Table "HOL-Library.Multiset"
begin

section \<open>Robin Hood probing\<close>

text \<open>
  The array \<open>indices\<close> read as a circle, and the invariant of Robin Hood hashing: an entry away from
  its ideal place follows an entry at most one step nearer to its own. The lemmas say that finding,
  placing, removing and moving an entry keep it, that every loop ends while one place is empty, and
  which entries the array holds afterwards.
\<close>

subsection \<open>The circle\<close>

definition at :: "pos option list \<Rightarrow> nat \<Rightarrow> pos option" where
  "at ix i = ix ! (i mod length ix)"

definition put :: "pos option list \<Rightarrow> nat \<Rightarrow> pos option \<Rightarrow> pos option list" where
  "put ix i x = ix[i mod length ix := x]"

text \<open>The distance of an entry from its ideal place; the masks of the code are \<open>mod\<close>.\<close>

definition away :: "nat \<Rightarrow> pos \<Rightarrow> nat \<Rightarrow> nat" where
  "away n p i = (i + (n - ps_hash p mod n)) mod n"

lemma Suc_mod_neq: "2 \<le> n \<Longrightarrow> Suc i mod n \<noteq> i mod (n::nat)"
  by (auto simp: mod_Suc)

lemma Suc_mod_eq_iff: "0 < (n::nat) \<Longrightarrow> Suc i mod n = Suc j mod n \<longleftrightarrow> i mod n = j mod n"
  by (auto simp: mod_Suc)

definition prior :: "nat \<Rightarrow> nat \<Rightarrow> nat" where
  "prior n i = i + n - 1"

lemma Suc_prior: "0 < n \<Longrightarrow> Suc (prior n i) = i + n"
  by (simp add: prior_def)

lemma prior_mod:
  assumes "0 < n" and "i mod n = Suc j mod n" shows "prior n i mod n = j mod n"
proof -
  have "Suc (prior n i) mod n = Suc j mod n" using assms by (simp add: Suc_prior)
  then show ?thesis using assms(1) by (simp add: Suc_mod_eq_iff)
qed

lemma prior_Suc_mod: "0 < n \<Longrightarrow> prior n (Suc i) mod n = i mod n"
  by (rule prior_mod) simp_all

lemma mod_add_cancel: "0 < (n::nat) \<Longrightarrow> (i + k) mod n = (j + k) mod n \<longleftrightarrow> i mod n = j mod n"
  by (induction k) (simp_all add: Suc_mod_eq_iff)

lemma add_mod_neq: 
  assumes "0 < k" and "k < (n::nat)" shows "(i + k) mod n \<noteq> i mod n"
proof
  assume "(i + k) mod n = i mod n"
  then have "k mod n = 0 mod n"
    using mod_add_cancel [of n k i 0] assms by (simp add: add.commute)
  then show False using assms by simp
qed

definition masked :: "nat \<Rightarrow> pos option list \<Rightarrow> bool" where
  "masked m ix \<longleftrightarrow> (\<exists>k. 3 \<le> k \<and> k \<le> 60 \<and> length ix = 2 ^ k) \<and> m = length ix - 1"

lemma masked_length: 
  assumes "masked m ix" shows "8 \<le> length ix" and "length ix \<le> 2 ^ 60"
proof -
  obtain k where k: "3 \<le> k" "k \<le> 60" "length ix = 2 ^ k" using assms by (auto simp: masked_def)
  have "(2::nat) ^ 3 \<le> 2 ^ k" "(2::nat) ^ k \<le> 2 ^ 60" 
    using k(1,2) by (simp_all only: power_increasing one_le_numeral)
  then show "8 \<le> length ix" and "length ix \<le> 2 ^ 60" using k(3) by simp_all
qed

lemma nat_and_mask: "(h :: nat) AND (2 ^ k - Suc 0) = h mod 2 ^ k"
  by (metis One_nat_def mask_eq_exp_minus_1 take_bit_eq_mask take_bit_eq_mod)

lemma desired_pos_mod: "masked m ix \<Longrightarrow> desired_pos m h = h mod length ix"
  by (auto simp: masked_def desired_pos_def nat_and_mask)

lemma probe_distance_away:
  assumes "masked m ix" and "i < length ix"
  shows "probe_distance m (ps_hash p) i = away (length ix) p i"
proof -
  obtain k where k: "k \<le> 60" "length ix = 2 ^ k" "m = 2 ^ k - 1" using assms(1) by (auto simp: masked_def)
  let ?n = "(2::nat) ^ k" and ?d = "ps_hash p mod 2 ^ k"
  have d: "?d < ?n" by simp
  have "usize_sub i ?d mod ?n = (i + (?n - ?d)) mod ?n"
  proof (cases "?d \<le> i")
    case True
    then have "i + (?n - ?d) = (i - ?d) + ?n" using d by simp
    then have "(i + (?n - ?d)) mod ?n = (i - ?d) mod ?n" by (metis mod_add_self2)
    then show ?thesis using True by simp
  next
    case False
    have "(2::nat) ^ 64 = 2 ^ (64 - k) * 2 ^ k" using k(1) by (simp flip: power_add)
    moreover have "(2::nat) ^ (64 - k) = Suc (2 ^ (64 - k) - 1)" by simp
    ultimately have "(2::nat) ^ 64 = ?n + (2 ^ (64 - k) - 1) * ?n"
      by (metis mult_Suc)
    then have e: "i + 2 ^ 64 - ?d = (i + (?n - ?d)) + (2 ^ (64 - k) - 1) * ?n" using d by linarith
    show ?thesis using False by (simp only: usize_sub_def if_False e mod_mult_self1)
  qed
  then show ?thesis
    using desired_pos_mod [OF assms(1), of "ps_hash p"]
    by (simp add: probe_distance_def away_def k nat_and_mask)
qed

lemma length_put_at [simp]: "length (put ix i x) = length ix"
  by (simp add: put_def)

lemma at_put: "ix \<noteq> [] \<Longrightarrow> at (put ix i x) j = (if j mod length ix = i mod length ix then x else at ix j)"
  by (simp add: at_def put_def nth_list_update)

lemma at_add [simp]: "at ix (i + length ix) = at ix i" "at ix (length ix + i) = at ix i"
  by (simp_all add: at_def)

lemma at_mod [simp]: "at ix (i mod length ix) = at ix i"
  by (simp add: at_def)

lemma at_in: "ix \<noteq> [] \<Longrightarrow> at ix i \<in># mset ix"
  by (simp add: at_def)

lemma in_at: "x \<in># mset ix \<Longrightarrow> \<exists>i < length ix. at ix i = x"
  by (auto simp: at_def in_set_conv_nth)

lemma mset_put: "ix \<noteq> [] \<Longrightarrow> mset (put ix i x) = add_mset x (mset ix - {# at ix i #})"
  by (simp add: put_def at_def mset_update)

lemma away_lt [simp]: "0 < n \<Longrightarrow> away n p i < n"
  by (simp add: away_def)

lemma away_add [simp]: "away n p (i + n) = away n p i" "away n p (n + i) = away n p i"
  by (simp_all add: away_def add.assoc add.left_commute [of _ n])

lemma away_mod [simp]: "away n p (i mod n) = away n p i"
  by (simp add: away_def mod_add_left_eq)

lemma away_Suc: "away n p (Suc i) = (if Suc (away n p i) = n then 0 else Suc (away n p i))"
  unfolding away_def add_Suc by (rule mod_Suc)

lemma away_cong: "i mod n = j mod n \<Longrightarrow> away n p i = away n p j"
  by (metis away_mod)

lemma at_cong: "i mod length ix = j mod length ix \<Longrightarrow> at ix i = at ix j"
  by (metis at_mod)

lemma away_back: "0 < away n p (Suc i) \<Longrightarrow> Suc (away n p i) = away n p (Suc i)"
  by (simp add: away_Suc split: if_splits)

lemma away_ideal: "0 < n \<Longrightarrow> away n p (ps_hash p mod n + k) = k mod n"
proof -
  assume "0 < n"
  then have "ps_hash p mod n \<le> n" by (simp add: less_imp_le)
  then have "ps_hash p mod n + k + (n - ps_hash p mod n) = k + n" by simp
  then show ?thesis by (simp add: away_def)
qed

subsection \<open>The invariant\<close>

definition robin_at :: "pos option list \<Rightarrow> nat \<Rightarrow> bool" where
  "robin_at ix i \<longleftrightarrow>
     (\<forall>q. at ix (Suc i) = Some q \<longrightarrow> 0 < away (length ix) q (Suc i) \<longrightarrow>
        (\<exists>p. at ix i = Some p \<and> away (length ix) q (Suc i) \<le> Suc (away (length ix) p i)))"

definition robin :: "pos option list \<Rightarrow> bool" where
  "robin ix \<longleftrightarrow> (\<forall>i. robin_at ix i)"

lemma robin_empty: "0 < n \<Longrightarrow> robin (replicate n None)"
  by (simp add: robin_def robin_at_def at_def)

lemma robin_run:
  assumes "robin ix" and "at ix j = Some q" and "k \<le> away (length ix) q j" and "k \<le> j"
  shows "\<exists>p. at ix (j - k) = Some p \<and> away (length ix) q j \<le> away (length ix) p (j - k) + k"
  using assms(3,4)
proof (induction k)
  case 0 then show ?case using assms(2) by simp
next
  case (Suc k)
  then obtain p where p: "at ix (j - k) = Some p"
    "away (length ix) q j \<le> away (length ix) p (j - k) + k" by auto
  have j: "j - k = Suc (j - Suc k)" using Suc(3) by simp
  have "0 < away (length ix) p (j - k)" using p(2) Suc(2) by simp
  then obtain p' where "at ix (j - Suc k) = Some p'"
    "away (length ix) p (j - k) \<le> Suc (away (length ix) p' (j - Suc k))"
    using assms(1) p(1) j by (auto simp: robin_def robin_at_def)
  then show ?case using p(2) by auto
qed

lemma away_not_last:
  assumes "robin ix" and "at ix j = Some q" and "at ix e = None" and "ix \<noteq> []"
  shows "Suc (away (length ix) q j) < length ix"
proof (rule ccontr)
  let ?n = "length ix"
  assume "\<not> Suc (away ?n q j) < ?n"
  moreover have "away ?n q j < ?n" using assms(4) by simp
  ultimately have a: "away ?n q j = ?n - 1" by linarith
  define k where "k = (j mod ?n + (?n - e mod ?n)) mod ?n"
  have n: "0 < ?n" using assms(4) by simp
  then have k: "k < ?n" by (simp add: k_def)
  have "k \<le> ?n - 1" using k by linarith
  then have "\<exists>p. at ix (j + ?n - k) = Some p"
    using robin_run [OF assms(1), of "j + ?n" q k] assms(2) a k by auto
  moreover have "(j + ?n - k) mod ?n = e mod ?n"
  proof -
    have "(j + ?n - k + k) mod ?n = j mod ?n" using k by simp
    also have "\<dots> = (e mod ?n + (j mod ?n + (?n - e mod ?n))) mod ?n"
      using mod_less_divisor [OF n, of e] by simp
    also have "\<dots> = (e + k) mod ?n"
      unfolding k_def by (simp add: mod_add_left_eq mod_add_right_eq)
        (metis add.left_commute mod_add_left_eq)
    finally have *: "(j + ?n - k + k) mod ?n = (e + k) mod ?n" .
    show ?thesis using * n by (simp only: mod_add_cancel)
  qed
  ultimately show False using assms(3) at_cong by (metis option.distinct(1))
qed

subsection \<open>Placing an entry\<close>

text \<open>\<open>x\<close> may stand at \<open>i\<close>: the entry before is near enough, the occupant is no farther away.\<close>

definition fits :: "pos option list \<Rightarrow> pos \<Rightarrow> nat \<Rightarrow> bool" where
  "fits ix x i \<longleftrightarrow>
     (0 < away (length ix) x i \<longrightarrow>
        (\<exists>p. at ix (prior (length ix) i) = Some p
             \<and> away (length ix) x i \<le> Suc (away (length ix) p (prior (length ix) i))))
     \<and> (\<forall>y. at ix i = Some y \<longrightarrow> away (length ix) y i \<le> away (length ix) x i)"

lemma at_prior [simp]: "ix \<noteq> [] \<Longrightarrow> at ix (Suc (prior (length ix) i)) = at ix i"
  by (simp add: Suc_prior flip: length_greater_0_conv)

lemma away_prior [simp]: "0 < n \<Longrightarrow> away n p (Suc (prior n i)) = away n p i"
  by (simp add: Suc_prior)

lemma robin_at_cong:
  assumes "i mod length ix = j mod length ix" and "robin_at ix i" shows "robin_at ix j"
proof -
  have s: "Suc i mod length ix = Suc j mod length ix"
    using assms(1) by (metis Suc_eq_plus1 mod_add_cong)
  show ?thesis
    using assms(2) at_cong [OF assms(1)] at_cong [OF s] away_cong [OF assms(1)] away_cong [OF s]
    by (simp add: robin_at_def)
qed

lemma fits_at:
  assumes "ix \<noteq> []" and "fits ix x i" and "i mod length ix = Suc j mod length ix"
    and "0 < away (length ix) x i"
  shows "\<exists>p. at ix j = Some p \<and> away (length ix) x i \<le> Suc (away (length ix) p j)"
proof -
  have "prior (length ix) i mod length ix = j mod length ix" using assms(1,3) by (simp add: prior_mod)
  then show ?thesis
    using assms(2,4) at_cong away_cong unfolding fits_def by metis
qed

lemma robin_put:
  assumes r: "robin ix" and f: "fits ix x i" and n: "2 \<le> length ix"
  shows "robin (put ix i (Some x))"
  unfolding robin_def
proof
  fix j
  let ?n = "length ix" and ?ix = "put ix i (Some x)"
  have ne: "ix \<noteq> []" using n by auto
  have rj: "robin_at ix j" using r by (simp add: robin_def)
  show "robin_at ?ix j"
  proof (cases "Suc j mod ?n = i mod ?n")
    case True
    then have ji: "j mod ?n \<noteq> i mod ?n" using Suc_mod_neq [OF n, of j] by simp
    have "away ?n x (Suc j) = away ?n x i" using True by (rule away_cong)
    then show ?thesis
      using fits_at [OF ne f True [symmetric]] ji True
      by (simp add: robin_at_def at_put [OF ne])
  next
    case S: False
    show ?thesis
    proof (cases "j mod ?n = i mod ?n")
      case False
      then show ?thesis using rj S by (simp add: robin_at_def at_put [OF ne])
    next
      case True
      have a: "away ?n x j = away ?n x i" "at ix j = at ix i"
        using True by (rule away_cong, rule at_cong)
      have b: "away ?n y j = away ?n y i" for y using True by (rule away_cong)
      show ?thesis
        using rj S f True a b unfolding robin_at_def fits_def
        by (fastforce simp add: at_put [OF ne])
    qed
  qed
qed

lemma fits_displaced:
  assumes r: "robin ix" and f: "fits ix x i" and n: "2 \<le> length ix" and y: "at ix i = Some y"
    and a: "Suc (away (length ix) y i) < length ix"
  shows "fits (put ix i (Some x)) y (Suc i)"
proof -
  let ?n = "length ix"
  have ne: "ix \<noteq> []" using n by auto
  have "away ?n y (Suc i) = Suc (away ?n y i)" using a by (simp add: away_Suc)
  moreover have "away ?n y i \<le> away ?n x i" using f y by (simp add: fits_def)
  moreover have "away ?n z (Suc i) \<le> Suc (away ?n y i)" if "at ix (Suc i) = Some z" for z
    using r y that unfolding robin_def robin_at_def
    by (metis gr0I le0 option.inject)
  moreover have "prior ?n (Suc i) = i + ?n" by (simp add: prior_def)
  ultimately show ?thesis
    using Suc_mod_neq [OF n, of i] by (simp add: fits_def at_put [OF ne])
qed

lemma shift_forward_wrap:
  assumes "j < length ix"
  shows "shift_forward x (Suc j) ix = shift_forward x (Suc j mod length ix) ix"
proof (cases "Suc j = length ix")
  case True then show ?thesis by (subst shift_forward.simps) simp
next
  case False then show ?thesis using assms by simp
qed

lemma shift_forward_step:
  assumes "ix \<noteq> []"
  shows "shift_forward x (i mod length ix) ix =
    (case at ix i of
       Some p \<Rightarrow> shift_forward p (Suc i mod length ix) (put ix i (Some x))
     | None \<Rightarrow> Some (put ix i (Some x)))"
proof -
  have "i mod length ix < length ix" using assms by simp
  then show ?thesis
    using shift_forward_wrap [of "i mod length ix" "put ix i (Some x)"]
    by (subst shift_forward.simps) (simp add: at_def put_def mod_Suc_eq split: option.split)
qed

lemma shift_forward_ok:
  assumes "robin ix" and "fits ix x i" and "at ix (i + k) = None" and "k < length ix"
    and "2 \<le> length ix"
  shows "\<exists>ix'. shift_forward x (i mod length ix) ix = Some ix' \<and> robin ix' \<and> length ix' = length ix
    \<and> mset ix' = add_mset (Some x) (mset ix - {#None#})"
  using assms
proof (induction k arbitrary: i x ix)
  case 0
  then have "ix \<noteq> []" by auto
  then show ?case
    using 0 by (simp add: shift_forward_step robin_put mset_put)
next
  case (Suc k)
  have ne: "ix \<noteq> []" using Suc.prems(5) by auto
  show ?case
  proof (cases "at ix i")
    case None
    then show ?thesis
      using Suc.prems ne by (simp add: shift_forward_step robin_put mset_put)
  next
    case (Some y)
    let ?ix = "put ix i (Some x)"
    have "(Suc i + k) mod length ix \<noteq> i mod length ix"
      using add_mod_neq [of "Suc k" "length ix" i] Suc.prems(4) by simp
    then have e: "at ?ix (Suc i + k) = None" using Suc.prems(3) by (simp add: at_put [OF ne])
    have "Suc (away (length ix) y i) < length ix"
      using away_not_last [OF Suc.prems(1) Some Suc.prems(3)] ne by simp
    then have "fits ?ix y (Suc i)" by (rule fits_displaced [OF Suc.prems(1,2,5) Some])
    from Suc.IH [OF robin_put [OF Suc.prems(1,2,5)] this e] Suc.prems(4,5)
    obtain ix' where ix': "shift_forward y (Suc i mod length ix) ?ix = Some ix'" "robin ix'"
      "length ix' = length ix" "mset ix' = add_mset (Some y) (mset ?ix - {#None#})" by auto
    have "Some y \<in># mset ix" using at_in [OF ne, of i] Some by simp
    moreover have "None \<in># mset ix" using at_in [OF ne, of "i + Suc k"] Suc.prems(3) by simp
    ultimately have "mset ix' = add_mset (Some x) (mset ix - {#None#})"
      using ix'(4) Some ne by (simp add: mset_put multiset_eq_iff)
    then show ?thesis using ix' Some ne by (auto simp: shift_forward_step)
  qed
qed

lemma place_pos_ok:
  assumes "robin ix" and "fits ix x i" and "None \<in># mset ix" and "2 \<le> length ix"
  shows "\<exists>ix'. place_pos x (i mod length ix) ix = Some ix' \<and> robin ix' \<and> length ix' = length ix
    \<and> mset ix' = add_mset (Some x) (mset ix - {#None#})"
proof -
  have ne: "ix \<noteq> []" using assms(4) by auto
  obtain e where e: "e < length ix" "at ix e = None" using in_at [OF assms(3)] by auto
  define k where "k = (e + (length ix - i mod length ix)) mod length ix"
  have "(i + k) mod length ix = (i mod length ix + (e + (length ix - i mod length ix))) mod length ix"
    by (simp add: k_def mod_add_left_eq mod_add_right_eq)
  also have "i mod length ix + (e + (length ix - i mod length ix)) = e + length ix"
    using mod_less_divisor [of "length ix" i, OF ne [folded length_greater_0_conv]] by linarith
  finally have "at ix (i + k) = at ix e" by (intro at_cong) simp
  with e(2) have "at ix (i + k) = None" by simp
  moreover have "k < length ix" using ne by (simp add: k_def)
  moreover have "place_pos x (i mod length ix) ix = shift_forward x (i mod length ix) ix"
    using ne shift_forward_wrap [of "i mod length ix" "put ix i (Some x)"]
    by (simp add: shift_forward_step place_pos_def at_def put_def mod_Suc_eq split: option.split)
  ultimately show ?thesis using shift_forward_ok [OF assms(1,2) _ _ assms(4)] by simp
qed

subsection \<open>Removing an entry\<close>

text \<open>A hole at \<open>h\<close> where an entry \<open>v\<close> steps away from its place stood: the invariant holds
  everywhere else, and would hold with that entry.\<close>

definition hole :: "pos option list \<Rightarrow> nat \<Rightarrow> nat \<Rightarrow> bool" where
  "hole ix h v \<longleftrightarrow>
     at ix h = None
     \<and> (\<forall>i. i mod length ix \<noteq> h mod length ix \<longrightarrow> Suc i mod length ix \<noteq> h mod length ix \<longrightarrow> robin_at ix i)
     \<and> (\<forall>z. at ix (Suc h) = Some z \<longrightarrow> away (length ix) z (Suc h) \<le> Suc v)
     \<and> (0 < v \<longrightarrow> (\<exists>p. at ix (prior (length ix) h) = Some p
                        \<and> v \<le> Suc (away (length ix) p (prior (length ix) h))))"

text \<open>No entry of \<open>ix'\<close> is farther from home than the one that stood there in \<open>ix\<close>.\<close>

definition below :: "pos option list \<Rightarrow> pos option list \<Rightarrow> bool" where
  "below ix' ix \<longleftrightarrow>
     (\<forall>i z. at ix' i = Some z \<longrightarrow>
        (\<exists>y. at ix i = Some y \<and> away (length ix) z i \<le> away (length ix) y i))"

lemma below_refl [simp]: "below ix ix"
  by (simp add: below_def)

lemma below_trans:
  assumes "below a b" and "below b c" and "length b = length c" shows "below a c"
  unfolding below_def
proof (intro allI impI)
  fix i z assume "at a i = Some z"
  with assms(1) obtain y where "at b i = Some y" "away (length b) z i \<le> away (length b) y i"
    by (auto simp: below_def)
  moreover with assms(2) obtain x where "at c i = Some x" "away (length c) y i \<le> away (length c) x i"
    unfolding below_def by blast
  ultimately show "\<exists>y. at c i = Some y \<and> away (length c) z i \<le> away (length c) y i"
    using assms(3) by auto
qed

lemma hole_robin:
  assumes h: "hole ix h v" and z: "\<And>z. at ix (Suc h) = Some z \<Longrightarrow> away (length ix) z (Suc h) = 0"
    and ne: "ix \<noteq> []"
  shows "robin ix"
  unfolding robin_def
proof
  fix i
  show "robin_at ix i"
  proof (cases "i mod length ix = h mod length ix")
    case True
    have "robin_at ix h" using z by (simp add: robin_at_def)
    then show ?thesis using True robin_at_cong by metis
  next
    case i: False
    show ?thesis
    proof (cases "Suc i mod length ix = h mod length ix")
      case True
      then have "at ix (Suc i) = None" using at_cong [OF True] h by (simp add: hole_def)
      then show ?thesis by (simp add: robin_at_def)
    next
      case False
      then show ?thesis using h i by (simp add: hole_def)
    qed
  qed
qed

lemma remove_hole:
  assumes r: "robin ix" and y: "at ix h = Some y" and n: "2 \<le> length ix"
  shows "hole (put ix h None) h (away (length ix) y h)"
proof -
  have ne: "ix \<noteq> []" using n by auto
  have p: "prior (length ix) h mod length ix \<noteq> h mod length ix"
    using Suc_mod_neq [OF n, of "prior (length ix) h"] Suc_prior [of "length ix" h] ne by simp
  have a: "\<exists>p. at ix (prior (length ix) h) = Some p
      \<and> away (length ix) y h \<le> Suc (away (length ix) p (prior (length ix) h))"
    if "0 < away (length ix) y h"
    using r that y ne unfolding robin_def robin_at_def
    by (metis at_prior away_prior length_greater_0_conv)
  have b: "away (length ix) z (Suc h) \<le> Suc (away (length ix) y h)" if "at ix (Suc h) = Some z" for z
    using r y that unfolding robin_def robin_at_def by (metis gr0I le0 option.inject)
  have c: "robin_at (put ix h None) i"
    if "i mod length ix \<noteq> h mod length ix" "Suc i mod length ix \<noteq> h mod length ix" for i
    using r that by (simp add: robin_def robin_at_def at_put [OF ne])
  show ?thesis
    using a b c p Suc_mod_neq [OF n, of h] by (simp add: hole_def at_put [OF ne])
qed

lemma hole_move:
  assumes h: "hole ix h v" and z: "at ix (Suc h) = Some z" and a: "0 < away (length ix) z (Suc h)"
    and n: "3 \<le> length ix"
  shows "hole (put (put ix h (Some z)) (Suc h) None) (Suc h) (away (length ix) z (Suc h))"
proof -
  let ?n = "length ix" and ?ix = "put (put ix h (Some z)) (Suc h) None"
  have ne: "ix \<noteq> []" using n by auto
  have n2: "2 \<le> ?n" using n by simp
  have at': "at ?ix j = (if j mod ?n = Suc h mod ?n then None
      else if j mod ?n = h mod ?n then Some z else at ix j)" for j
    using at_put [of "put ix h (Some z)" "Suc h" None j] at_put [OF ne, of h "Some z" j] ne
    by (auto simp: put_def)
  have az: "Suc (away ?n z h) = away ?n z (Suc h)" using a by (rule away_back)
  have zv: "away ?n z h \<le> v" using h z az unfolding hole_def by auto
  have s: "Suc (Suc h) mod ?n \<noteq> Suc h mod ?n" "Suc h mod ?n \<noteq> h mod ?n"
    using Suc_mod_neq [OF n2] by blast+
  have ss: "Suc (Suc h) mod ?n \<noteq> h mod ?n"
    using add_mod_neq [of 2 ?n h] n by simp
  have r1: "robin_at ix (Suc h)" using h s ss by (simp add: hole_def)
  have "robin_at ?ix i" if i: "i mod ?n \<noteq> Suc h mod ?n" "Suc i mod ?n \<noteq> Suc h mod ?n" for i
  proof (cases "Suc i mod ?n = h mod ?n")
    case True
    have "prior ?n h mod ?n = i mod ?n" using True ne by (simp add: prior_mod)
    then have e: "at ix (prior ?n h) = at ix i" "away ?n p (prior ?n h) = away ?n p i" for p
      by (rule at_cong, rule away_cong)
    have ih: "i mod ?n \<noteq> h mod ?n" using True Suc_mod_neq [OF n2, of i] by simp
    have s: "away ?n z (Suc i) = away ?n z h" using True by (rule away_cong)
    have "\<exists>p. at ix i = Some p \<and> away ?n z h \<le> Suc (away ?n p i)" if "0 < away ?n z h"
      using h zv that unfolding hole_def e by (meson le_trans less_le_trans)
    then show ?thesis
      using ih i True s by (simp add: robin_at_def at')
  next
    case False
    then have "i mod ?n \<noteq> h mod ?n" using i(2) ne Suc_mod_eq_iff [of ?n i h] by simp
    then show ?thesis using h i False unfolding hole_def robin_at_def by (simp add: at')
  qed
  moreover have "away ?n w (Suc (Suc h)) \<le> Suc (away ?n z (Suc h))"
    if "at ix (Suc (Suc h)) = Some w" for w
    using r1 that z unfolding robin_at_def by (metis gr0I le0 option.inject)
  moreover have "prior ?n (Suc h) mod ?n = h mod ?n" using ne by (simp add: prior_Suc_mod)
  then have "at ?ix (prior ?n (Suc h)) = Some z" "away ?n z (prior ?n (Suc h)) = away ?n z h"
    using s by (simp_all add: at') (rule away_cong)
  ultimately show ?thesis
    using s ss az at' [of "Suc h"] at' [of "Suc (Suc h)"] by (simp add: hole_def)
qed

lemma shift_back_wrap:
  assumes "j < length ix"
  shows "shift_back m l (Suc j) ix = shift_back m l (Suc j mod length ix) ix"
proof (cases "Suc j = length ix")
  case True then show ?thesis by (subst shift_back.simps) simp
next
  case False then show ?thesis using assms by simp
qed

lemma shift_back_step:
  assumes "masked m ix"
  shows "shift_back m (h mod length ix) (Suc h mod length ix) ix =
    (case at ix (Suc h) of
       Some p \<Rightarrow>
         (if 0 < away (length ix) p (Suc h)
          then shift_back m (Suc h mod length ix) (Suc (Suc h) mod length ix)
                 (put (put ix h (Some p)) (Suc h) None)
          else Some ix)
     | None \<Rightarrow> Some ix)"
proof -
  have ne: "ix \<noteq> []" using masked_length [OF assms] by auto
  then have l: "Suc h mod length ix < length ix" by simp
  have d: "probe_distance m (ps_hash p) (Suc h mod length ix) = away (length ix) p (Suc h)" for p
    using probe_distance_away [OF assms l] by simp
  show ?thesis
    using l d shift_back_wrap [of "Suc h mod length ix" "put (put ix h _) (Suc h) None"]
    by (subst shift_back.simps) (simp add: at_def put_def mod_Suc_eq split: option.split)
qed

lemma mset_move:
  assumes "ix \<noteq> []" and "at ix h = None" and "at ix (Suc h) = Some z" and "2 \<le> length ix"
  shows "mset (put (put ix h (Some z)) (Suc h) None) = mset ix"
proof -
  have "None \<in># mset ix" "Some z \<in># mset ix" using at_in [OF assms(1)] assms(2,3) by metis+
  moreover have "at (put ix h (Some z)) (Suc h) = Some z"
    using assms(3) by (simp add: at_put [OF assms(1)])
  moreover have "put ix h (Some z) \<noteq> []" using assms(1) by (simp add: put_def)
  ultimately show ?thesis using assms by (simp add: mset_put)
qed

lemma shift_back_ok:
  assumes "masked m ix" and "hole ix h v" and "at ix (h + k) = None" and "0 < k" and "k < length ix"
  shows "\<exists>ix'. shift_back m (h mod length ix) (Suc h mod length ix) ix = Some ix' \<and> robin ix'
    \<and> length ix' = length ix \<and> mset ix' = mset ix
    \<and> (\<forall>i z. at ix' i = Some z \<longrightarrow>
         (if i mod length ix = h mod length ix then away (length ix) z i \<le> v
          else \<exists>y. at ix i = Some y \<and> away (length ix) z i \<le> away (length ix) y i))"
  using assms
proof (induction k arbitrary: h v ix)
  case 0 then show ?case by simp
next
  case (Suc k)
  let ?n = "length ix"
  have n: "8 \<le> ?n" using masked_length [OF Suc.prems(1)] by simp
  then have ne: "ix \<noteq> []" by auto
  have none: "at ix i = None" if "i mod ?n = h mod ?n" for i
    using that at_cong Suc.prems(2) unfolding hole_def by metis
  show ?case
  proof (cases "\<exists>z. at ix (Suc h) = Some z \<and> 0 < away ?n z (Suc h)")
    case False
    then have "shift_back m (h mod ?n) (Suc h mod ?n) ix = Some ix"
      using Suc.prems(1) by (simp add: shift_back_step split: option.split)
    moreover have "robin ix" by (rule hole_robin [OF Suc.prems(2) _ ne]) (use False in auto)
    ultimately show ?thesis using none by auto
  next
    case True
    then obtain z where z: "at ix (Suc h) = Some z" and a: "0 < away ?n z (Suc h)" by auto
    let ?ix = "put (put ix h (Some z)) (Suc h) None"
    have k: "0 < k" using z Suc.prems(3) by (cases k) auto
    have "(Suc h + k) mod ?n \<noteq> h mod ?n" "(Suc h + k) mod ?n \<noteq> Suc h mod ?n"
      using add_mod_neq [of "Suc k" ?n h] add_mod_neq [of k ?n "Suc h"] Suc.prems(5) k by simp_all
    moreover have ne': "put ix h (Some z) \<noteq> []" using ne by (simp add: put_def)
    ultimately have e: "at ?ix (Suc h + k) = None"
      using Suc.prems(3) by (simp add: at_put [OF ne'] at_put [OF ne])
    have h': "hole ?ix (Suc h) (away ?n z (Suc h))"
      by (rule hole_move [OF Suc.prems(2) z a]) (use n in simp)
    have m: "masked m ?ix" using Suc.prems(1) by (simp add: masked_def)
    obtain ix' where ix': "shift_back m (Suc h mod ?n) (Suc (Suc h) mod ?n) ?ix = Some ix'"
      "robin ix'" "length ix' = ?n" "mset ix' = mset ?ix"
      and b: "\<And>i w. at ix' i = Some w \<Longrightarrow>
        (if i mod ?n = Suc h mod ?n then away ?n w i \<le> away ?n z (Suc h)
         else \<exists>y. at ?ix i = Some y \<and> away ?n w i \<le> away ?n y i)"
      using Suc.IH [OF m h' e k] Suc_lessD [OF Suc.prems(5)] unfolding length_put_at by blast
    have az: "away ?n z h \<le> v"
      using Suc.prems(2) z away_back [OF a] unfolding hole_def by auto
    have "if i mod ?n = h mod ?n then away ?n w i \<le> v
          else \<exists>y. at ix i = Some y \<and> away ?n w i \<le> away ?n y i" if w: "at ix' i = Some w" for i w
    proof (cases "i mod ?n = Suc h mod ?n")
      case True
      then have "at ix i = Some z" "away ?n z i = away ?n z (Suc h)"
        using z at_cong by (metis, metis away_cong)
      then show ?thesis using b [OF w] True none by auto
    next
      case False
      then obtain y where y: "at ?ix i = Some y" "away ?n w i \<le> away ?n y i" using b [OF w] by auto
      show ?thesis
      proof (cases "i mod ?n = h mod ?n")
        case True
        then have "y = z" "away ?n z i = away ?n z h"
          using y(1) False by (auto simp: at_put [OF ne'] at_put [OF ne] intro: away_cong)
        then show ?thesis using y(2) az True by simp
      next
        case F: False
        then show ?thesis using y False by (auto simp: at_put [OF ne'] at_put [OF ne])
      qed
    qed
    moreover have "shift_back m (h mod ?n) (Suc h mod ?n) ix = Some ix'"
      using ix'(1) z a Suc.prems(1) by (simp add: shift_back_step)
    moreover have "mset ix' = mset ix"
      using ix'(4) mset_move [OF ne _ z] n Suc.prems(2) by (simp add: hole_def)
    ultimately show ?thesis using ix'(2,3) by blast
  qed
qed

text \<open>An offset from \<open>h\<close> to any other place of the circle.\<close>

lemma offset:
  assumes "0 < (n::nat)" shows "\<exists>k < n. (h + k) mod n = e mod n"
proof -
  let ?k = "(e + (n - h mod n)) mod n"
  have "h mod n < n" using assms by simp
  then have "h mod n + (e + (n - h mod n)) = e + n" by linarith
  then have "(h + ?k) mod n = e mod n"
    by (metis mod_add_left_eq mod_add_right_eq mod_add_self2)
  then show ?thesis using assms by (intro exI [of _ ?k]) simp
qed

lemma remove_ok:
  assumes "masked m ix" and "robin ix" and "at ix h = Some y" and "None \<in># mset ix"
  shows "\<exists>ix'. shift_back m (h mod length ix) (Suc (h mod length ix)) (put ix h None) = Some ix'
    \<and> robin ix' \<and> length ix' = length ix \<and> mset ix' = add_mset None (mset ix - {#Some y#})
    \<and> below ix' ix"
proof -
  let ?n = "length ix" and ?ix = "put ix h None"
  have n: "8 \<le> ?n" using masked_length [OF assms(1)] by simp
  then have ne: "ix \<noteq> []" by auto
  obtain e where e: "at ix e = None" using in_at [OF assms(4)] by auto
  obtain k where k: "k < ?n" "(h + k) mod ?n = e mod ?n" using offset [of ?n h e] n by fastforce
  have "k \<noteq> 0"
    using k e assms(3) at_cong by (metis add_0_right option.distinct(1))
  moreover have "at ?ix (h + k) = None"
    using at_cong [OF k(2)] e by (simp add: at_put [OF ne])
  moreover have "masked m ?ix" using assms(1) by (simp add: masked_def)
  moreover have "hole ?ix h (away ?n y h)"
    by (rule remove_hole [OF assms(2,3)]) (use n in simp)
  ultimately obtain ix' where s: "shift_back m (h mod ?n) (Suc h mod ?n) ?ix = Some ix'" "robin ix'"
    "length ix' = ?n" "mset ix' = mset ?ix"
    and b: "\<And>i z. at ix' i = Some z \<Longrightarrow> (if i mod ?n = h mod ?n then away ?n z i \<le> away ?n y h
      else \<exists>y. at ?ix i = Some y \<and> away ?n z i \<le> away ?n y i)"
    using shift_back_ok [of m ?ix h "away ?n y h" k] k(1) unfolding length_put_at by blast
  have "below ix' ix"
    unfolding below_def
  proof (intro allI impI)
    fix i z assume z: "at ix' i = Some z"
    show "\<exists>y. at ix i = Some y \<and> away ?n z i \<le> away ?n y i"
    proof (cases "i mod ?n = h mod ?n")
      case True
      then show ?thesis using b [OF z] assms(3) at_cong [OF True] away_cong [OF True] by auto
    next
      case False
      then show ?thesis using b [OF z] by (simp add: at_put [OF ne])
    qed
  qed
  moreover have "shift_back m (h mod ?n) (Suc (h mod ?n)) ?ix = Some ix'"
    using s(1) shift_back_wrap [of "h mod ?n" ?ix] ne by (simp add: mod_Suc_eq)
  ultimately show ?thesis using s(2-4) assms(3) by (simp add: mset_put [OF ne])
qed

subsection \<open>Walking back\<close>

lemma prior_mask:
  assumes "masked m ix"
  shows "usize_sub (i mod length ix) 1 AND m = prior (length ix) i mod length ix"
proof -
  obtain k where k: "k \<le> 60" "length ix = 2 ^ k" "m = 2 ^ k - 1" using assms by (auto simp: masked_def)
  let ?n = "(2::nat) ^ k"
  have "usize_sub (i mod ?n) 1 mod ?n = prior ?n i mod ?n"
  proof (cases "i mod ?n = 0")
    case False
    then have "Suc (i mod ?n - 1) mod ?n = i mod ?n" by simp
    then have "prior ?n i mod ?n = (i mod ?n - 1) mod ?n" by (intro prior_mod) simp_all
    then show ?thesis using False by simp
  next
    case True
    then have "i mod ?n = Suc (?n - 1) mod ?n" by simp
    then have "prior ?n i mod ?n = (?n - 1) mod ?n" by (intro prior_mod) simp_all
    moreover have e: "(2::nat) ^ 64 - 1 = (?n - 1) + (2 ^ (64 - k) - 1) * ?n"
    proof -
      have "(2::nat) ^ 64 = 2 ^ (64 - k) * 2 ^ k" using k(1) by (simp flip: power_add)
      moreover have "?n \<le> 2 ^ (64 - k) * 2 ^ k" by simp
      ultimately show ?thesis by (simp only: diff_mult_distrib)
          (simp add: Nat.diff_add_assoc)
    qed
    have "usize_sub 0 1 = 2 ^ 64 - 1" by (simp add: usize_sub_def)
    then have "usize_sub 0 1 mod ?n = (?n - 1) mod ?n" by (simp only: e mod_mult_self1)
    ultimately show ?thesis unfolding True by simp
  qed
  then show ?thesis using k by (simp add: nat_and_mask)
qed

lemma vacant_back_ok:
  assumes "masked m ix" and "away (length ix) x i = d"
    and "\<And>y. at ix i = Some y \<Longrightarrow> away (length ix) y i \<le> d"
  shows "\<exists>j. vacant_back m ix d (i mod length ix) = Some (away (length ix) x j, j mod length ix)
    \<and> fits ix x j"
  using assms(2,3)
proof (induction d arbitrary: i)
  case 0 then show ?case by (auto simp: fits_def)
next
  case (Suc d)
  let ?n = "length ix" and ?j = "prior (length ix) i"
  have n: "0 < ?n" using masked_length [OF assms(1)] by linarith
  have aj: "away ?n x ?j = d"
    using away_back [of ?n x ?j] Suc.prems(1) n by simp
  have prior: "usize_sub (i mod ?n) (Suc 0) AND m = ?j mod ?n"
    using prior_mask [OF assms(1)] by simp
  have pd: "probe_distance m (ps_hash p) (?j mod ?n) = away ?n p ?j" for p
    using probe_distance_away [OF assms(1), of "?j mod ?n"] n by simp
  show ?case
  proof (cases "\<exists>p. at ix ?j = Some p \<and> d \<le> away ?n p ?j")
    case True
    then have "fits ix x i" using Suc.prems by (auto simp: fits_def)
    moreover have "vacant_back m ix (Suc d) (i mod ?n) = Some (Suc d, i mod ?n)"
      using True n by (auto simp: prior pd Let_def at_def [symmetric])
    ultimately show ?thesis using Suc.prems(1) by metis
  next
    case False
    then have "vacant_back m ix (Suc d) (i mod ?n) = vacant_back m ix d (?j mod ?n)"
      using n by (auto simp: prior pd Let_def at_def [symmetric] split: option.split)
    moreover have "away ?n y ?j \<le> d" if "at ix ?j = Some y" for y using False that by auto
    ultimately show ?thesis using Suc.IH [OF aj] by simp
  qed
qed

subsection \<open>Finding a name\<close>

lemma probe_name_wrap:
  assumes "j < length (et_indices t)"
  shows "probe_name t n hash (Suc j) d = probe_name t n hash (Suc j mod length (et_indices t)) d"
proof (cases "Suc j = length (et_indices t)")
  case True then show ?thesis by (subst probe_name.simps) simp
next
  case False then show ?thesis using assms by simp
qed

lemma probe_name_step:
  assumes "masked (et_mask t) (et_indices t)"
  shows "probe_name t n hash (i mod length (et_indices t)) d =
    (case at (et_indices t) i of
       None \<Rightarrow> Some (ProbeVacant d (i mod length (et_indices t)))
     | Some p \<Rightarrow>
         (if away (length (et_indices t)) p i < d
          then Some (ProbeVacant d (i mod length (et_indices t)))
          else if ps_hash p = hash then
            (case slot_at t (real_idx t (ps_index p)) of
               None \<Rightarrow> None
             | Some s \<Rightarrow>
                 (if header_name_of (fst (sl_header s)) = n then Some (ProbeOccupied (ps_index p))
                  else probe_name t n hash (Suc i mod length (et_indices t)) (Suc d)))
          else probe_name t n hash (Suc i mod length (et_indices t)) (Suc d)))"
proof -
  let ?n = "length (et_indices t)"
  have ne: "et_indices t \<noteq> []" using masked_length [OF assms] by auto
  then have l: "i mod ?n < ?n" by simp
  have "probe_distance (et_mask t) (ps_hash p) (i mod ?n) = away ?n p i" for p
    using probe_distance_away [OF assms l] by simp
  then show ?thesis
    using l probe_name_wrap [OF l]
    by (subst probe_name.simps) (simp add: at_def mod_Suc_eq split: option.split)
qed

definition matches :: "enc_table \<Rightarrow> hpack_name \<Rightarrow> usize \<Rightarrow> pos \<Rightarrow> bool" where
  "matches t n hash p \<longleftrightarrow> ps_hash p = hash
     \<and> (\<exists>s. slot_at t (real_idx t (ps_index p)) = Some s \<and> header_name_of (fst (sl_header s)) = n)"

lemma probe_stop:
  assumes r: "robin ix" and ne: "ix \<noteq> []" and h: "h = hash mod length ix" and d: "d < length ix"
    and seen: "\<And>c. c < d \<Longrightarrow> \<exists>p. at ix (h + c) = Some p \<and> c \<le> away (length ix) p (h + c)
        \<and> \<not> matches t n hash p"
    and stop: "\<And>y. at ix (h + d) = Some y \<Longrightarrow> away (length ix) y (h + d) < d"
  shows "ps_hash x = hash \<Longrightarrow> away (length ix) x (h + d) = d \<and> fits ix x (h + d)"
    and "Some p \<in># mset ix \<Longrightarrow> \<not> matches t n hash p"
proof -
  let ?n = "length ix"
  assume "ps_hash x = hash"
  then have "away ?n x (h + d) = d mod ?n" using away_ideal [of ?n x d] ne h by simp
  then have a: "away ?n x (h + d) = d" using d by simp
  have "\<exists>p. at ix (prior ?n (h + d)) = Some p \<and> d \<le> Suc (away ?n p (prior ?n (h + d)))" if "0 < d"
  proof -
    from that obtain c where c: "d = Suc c" by (cases d) auto
    have "prior ?n (h + d) mod ?n = (h + c) mod ?n" using ne by (intro prior_mod) (simp_all add: c)
    then show ?thesis using seen [of c] c at_cong away_cong by (metis Suc_le_mono lessI)
  qed
  then show "away ?n x (h + d) = d \<and> fits ix x (h + d)"
    using a stop by (auto simp: fits_def less_imp_le)
next
  let ?n = "length ix"
  assume "Some p \<in># mset ix"
  then obtain j where j: "at ix j = Some p" using in_at by metis
  show "\<not> matches t n hash p"
  proof
    assume q: "matches t n hash p"
    let ?a = "away ?n p j"
    have hn: "h \<le> ?n" using ne by (simp add: h less_imp_le)
    have "(h + ?a) mod ?n = (h + (j + (?n - h))) mod ?n"
      using q by (simp add: away_def matches_def h mod_add_right_eq)
    also have "h + (j + (?n - h)) = j + ?n" using hn by simp
    finally have c: "(h + ?a) mod ?n = j mod ?n" by simp
    have p: "at ix (h + ?a) = Some p" using at_cong [OF c] j by simp
    have ap: "away ?n p (h + ?a) = ?a" using c by (rule away_cong)
    show False
    proof (cases "?a < d")
      case True
      then show False using seen [of ?a] p q by auto
    next
      case False
      then obtain y where "at ix (h + d) = Some y" "?a \<le> away ?n y (h + d) + (?a - d)"
        using robin_run [OF r p, of "?a - d"] ap by (auto simp: le_diff_conv)
      then show False using stop [of y] False by simp
    qed
  qed
qed

text \<open>What the search answers: the entry of the name, or a place for it and that there is none.\<close>

definition probe_answer :: "enc_table \<Rightarrow> hpack_name \<Rightarrow> usize \<Rightarrow> probe_result option \<Rightarrow> bool" where
  "probe_answer t n hash r \<longleftrightarrow>
     (\<exists>p. r = Some (ProbeOccupied (ps_index p)) \<and> Some p \<in># mset (et_indices t) \<and> matches t n hash p)
     \<or> (\<exists>c i. r = Some (ProbeVacant c (i mod length (et_indices t)))
         \<and> (\<forall>x. ps_hash x = hash \<longrightarrow> away (length (et_indices t)) x i = c \<and> fits (et_indices t) x i)
         \<and> (\<forall>y. at (et_indices t) i = Some y \<longrightarrow> away (length (et_indices t)) y i < c)
         \<and> (\<forall>p. Some p \<in># mset (et_indices t) \<longrightarrow> \<not> matches t n hash p))"

lemma probe_name_run:
  assumes m: "masked (et_mask t) (et_indices t)" and r: "robin (et_indices t)"
    and h: "h = hash mod length (et_indices t)"
    and s: "\<And>p. Some p \<in># mset (et_indices t) \<Longrightarrow> slot_at t (real_idx t (ps_index p)) \<noteq> None"
    and e: "at (et_indices t) (h + d + k) = None"
    and k: "d + k < length (et_indices t)"
    and seen: "\<And>c. c < d \<Longrightarrow> \<exists>p. at (et_indices t) (h + c) = Some p
        \<and> c \<le> away (length (et_indices t)) p (h + c) \<and> \<not> matches t n hash p"
  shows "probe_answer t n hash (probe_name t n hash ((h + d) mod length (et_indices t)) d)"
  using e k seen
proof (induction k arbitrary: d)
  let ?ix = "et_indices t" and ?n = "length (et_indices t)"
  have ne: "?ix \<noteq> []" using masked_length [OF m] by auto
  have vacant: "probe_answer t n hash (Some (ProbeVacant d ((h + d) mod ?n)))"
    if "d < ?n" and "\<And>c. c < d \<Longrightarrow> \<exists>p. at ?ix (h + c) = Some p \<and> c \<le> away ?n p (h + c)
        \<and> \<not> matches t n hash p"
      and "\<And>y. at ?ix (h + d) = Some y \<Longrightarrow> away ?n y (h + d) < d" for d
    using probe_stop [OF r ne h that] that(3) unfolding probe_answer_def by blast
  {
    case 0
    show ?case
      using vacant [of d] 0 by (simp add: probe_name_step [OF m])
  next
    case (Suc k)
    show ?case
    proof (cases "at ?ix (h + d)")
      case None
      then show ?thesis using vacant [of d] Suc.prems by (simp add: probe_name_step [OF m])
    next
      case (Some p)
      have p: "Some p \<in># mset ?ix" using at_in [OF ne, of "h + d"] Some by simp
      then obtain sl where sl: "slot_at t (real_idx t (ps_index p)) = Some sl" using s by blast
      show ?thesis
      proof (cases "away ?n p (h + d) < d \<or> matches t n hash p")
        case True
        then show ?thesis
          using vacant [of d] Suc.prems Some p sl
          by (auto simp add: probe_name_step [OF m] probe_answer_def matches_def)
      next
        case False
        then have "probe_answer t n hash (probe_name t n hash ((h + Suc d) mod ?n) (Suc d))"
          using Suc.prems(3) Some by (intro Suc.IH) (use Suc.prems in \<open>auto simp: less_Suc_eq\<close>)
        then show ?thesis
          using False Some sl by (simp add: probe_name_step [OF m] matches_def)
      qed
    qed
  }
qed

lemma probe_name_ok:
  assumes "masked (et_mask t) (et_indices t)" and "robin (et_indices t)"
    and "None \<in># mset (et_indices t)"
    and "\<And>p. Some p \<in># mset (et_indices t) \<Longrightarrow> slot_at t (real_idx t (ps_index p)) \<noteq> None"
  shows "probe_answer t n hash (probe_name t n hash (desired_pos (et_mask t) hash) 0)"
proof -
  let ?n = "length (et_indices t)"
  have n: "0 < ?n" using masked_length [OF assms(1)] by linarith
  obtain e where e: "at (et_indices t) e = None" using in_at [OF assms(3)] by auto
  obtain k where k: "k < ?n" "(hash mod ?n + k) mod ?n = e mod ?n" using offset [OF n] by blast
  have "probe_answer t n hash (probe_name t n hash ((hash mod ?n + 0) mod ?n) 0)"
    by (rule probe_name_run [OF assms(1,2) refl, where d = 0 and k = k])
      (use k e at_cong [OF k(2)] assms(4) in auto)
  then show ?thesis by (simp add: desired_pos_mod [OF assms(1)])
qed

end
