(* ===== verification/Hpack_Grow.thy ===== *)
theory Hpack_Grow
  imports Hpack_Probe
begin

section \<open>Eviction and growth of the encoder's index\<close>

text \<open>
  The two operations of the index that touch more than one cluster: taking the oldest slot's entry out,
  or handing it to the next slot of the name, and moving every entry to an array of twice the size. The
  entries are visited from one at its ideal place on, so their ideal places never decrease, and each
  finds its new place at or before the one it came from: no entry has to give way to another.
\<close>

subsection \<open>Eviction\<close>

lemma evict_probe_wrap:
  assumes "j < length (et_indices t)"
  shows "evict_probe i s prev t (Suc j) = evict_probe i s prev t (Suc j mod length (et_indices t))"
proof (cases "Suc j = length (et_indices t)")
  case True then show ?thesis by (subst evict_probe.simps) simp
next
  case False then show ?thesis using assms by simp
qed

text \<open>What the entry is replaced with.\<close>

definition heir :: "64 word \<Rightarrow> slot \<Rightarrow> 64 word option \<Rightarrow> enc_table \<Rightarrow> 64 word option" where
  "heir i s prev t =
     (case sl_next s of
        Some idx \<Rightarrow> Some idx
      | None \<Rightarrow> if Some i = prev then Some (- (et_inserted t + 1)) else None)"

lemma evict_probe_here:
  assumes "et_indices t \<noteq> []" and "at (et_indices t) j = Some p" and "ps_index p = i"
  shows "evict_probe i s prev t (j mod length (et_indices t)) =
    (case heir i s prev t of
       Some idx \<Rightarrow> Some (t\<lparr>et_indices := put (et_indices t) j (Some (p\<lparr>ps_index := idx\<rparr>))\<rparr>)
     | None \<Rightarrow> map_option (\<lambda>ix. t\<lparr>et_indices := ix\<rparr>)
         (shift_back (et_mask t) (j mod length (et_indices t)) (Suc (j mod length (et_indices t)))
            (put (et_indices t) j None)))"
  using assms
  by (subst evict_probe.simps)
    (auto simp: at_def heir_def remove_phase_two_def put_def map_option_case
      split: option.split)

lemma evict_probe_finds:
  assumes r: "robin (et_indices t)" and ne: "et_indices t \<noteq> []"
    and p: "at (et_indices t) j = Some p" "ps_index p = i"
    and u: "\<And>q k. at (et_indices t) k = Some q \<Longrightarrow> ps_index q = i \<Longrightarrow>
        k mod length (et_indices t) = j mod length (et_indices t)"
    and d: "d \<le> away (length (et_indices t)) p j" "d \<le> j"
  shows "evict_probe i s prev t ((j - d) mod length (et_indices t))
       = evict_probe i s prev t (j mod length (et_indices t))"
  using d
proof (induction d)
  case 0 then show ?case by simp
next
  case (Suc d)
  let ?ix = "et_indices t" and ?n = "length (et_indices t)"
  have s: "Suc (j - Suc d) = j - d" using Suc.prems(2) by simp
  obtain q where q: "at ?ix (j - Suc d) = Some q"
    using robin_run [OF r p(1) Suc.prems] by auto
  have "ps_index q \<noteq> i"
  proof
    assume "ps_index q = i"
    then have "(j - Suc d) mod ?n = j mod ?n" by (rule u [OF q])
    moreover have "Suc d < ?n" 
      using Suc.prems(1) away_lt [of ?n p j] ne by (metis le_less_trans length_greater_0_conv)
    ultimately show False
      using add_mod_neq [of "Suc d" ?n "j - Suc d"] Suc.prems(2) by simp
  qed
  moreover have "(j - Suc d) mod ?n < ?n" using ne by simp
  ultimately have "evict_probe i s prev t ((j - Suc d) mod ?n)
      = evict_probe i s prev t (Suc ((j - Suc d) mod ?n))"
    using q by (subst evict_probe.simps) (simp add: at_def)
  also have "\<dots> = evict_probe i s prev t ((j - d) mod ?n)"
    using evict_probe_wrap [of "(j - Suc d) mod ?n" t] ne s by (simp add: mod_Suc_eq)
  finally show ?case using Suc by simp
qed

lemma evict_probe_ok:
  assumes m: "masked (et_mask t) (et_indices t)" and r: "robin (et_indices t)"
    and none: "None \<in># mset (et_indices t)"
    and p: "Some p \<in># mset (et_indices t)" "ps_index p = i" "ps_hash p = sl_hash s"
    and u: "\<And>j k q. at (et_indices t) j = Some p \<Longrightarrow> at (et_indices t) k = Some q \<Longrightarrow> ps_index q = i
        \<Longrightarrow> k mod length (et_indices t) = j mod length (et_indices t)"
  shows "\<exists>ix. evict_probe i s prev t (desired_pos (et_mask t) (sl_hash s)) = Some (t\<lparr>et_indices := ix\<rparr>)
    \<and> robin ix \<and> length ix = length (et_indices t) \<and> below ix (et_indices t)
    \<and> mset ix = add_mset (map_option (\<lambda>idx. p\<lparr>ps_index := idx\<rparr>) (heir i s prev t))
                  (mset (et_indices t) - {#Some p#})"
proof -
  let ?ix = "et_indices t" and ?n = "length (et_indices t)"
  have n: "0 < ?n" "?ix \<noteq> []" using masked_length [OF m] by auto
  obtain j0 where j0: "at ?ix j0 = Some p" using in_at [OF p(1)] by auto
  let ?j = "j0 + ?n" and ?a = "away ?n p j0"
  have j: "at ?ix ?j = Some p" "away ?n p ?j = ?a" using j0 by simp_all
  have a: "?a \<le> ?j" using away_lt [OF n(1), of p j0] by linarith
  have "evict_probe i s prev t ((?j - ?a) mod ?n) = evict_probe i s prev t (?j mod ?n)"
    by (rule evict_probe_finds [OF r n(2) j(1) p(2)]) (use u j a in auto)
  moreover have "(?j - ?a) mod ?n = desired_pos (et_mask t) (sl_hash s)"
  proof -
    have "(ps_hash p mod ?n + ?a) mod ?n = (ps_hash p mod ?n + (j0 + (?n - ps_hash p mod ?n))) mod ?n"
      by (simp add: away_def mod_add_right_eq)
    also have "ps_hash p mod ?n + (j0 + (?n - ps_hash p mod ?n)) = ?j"
      using mod_less_divisor [OF n(1), of "ps_hash p"] by linarith
    also have "?j mod ?n = (?j - ?a + ?a) mod ?n" using a by simp
    finally have "(?j - ?a) mod ?n = ps_hash p mod ?n"
      using mod_add_cancel [OF n(1), of "ps_hash p mod ?n" ?a "?j - ?a"] by simp
    then show ?thesis using p(3) by (simp add: desired_pos_mod [OF m])
  qed
  moreover have "\<exists>ix. evict_probe i s prev t (?j mod ?n) = Some (t\<lparr>et_indices := ix\<rparr>) \<and> robin ix
    \<and> length ix = ?n \<and> below ix ?ix
    \<and> mset ix = add_mset (map_option (\<lambda>idx. p\<lparr>ps_index := idx\<rparr>) (heir i s prev t)) (mset ?ix - {#Some p#})"
  proof (cases "heir i s prev t")
    case None
    then show ?thesis
      using remove_ok [OF m r j(1) none] evict_probe_here [OF n(2) j(1) p(2), of s prev] by auto
  next
    case (Some idx)
    let ?ix' = "put ?ix ?j (Some (p\<lparr>ps_index := idx\<rparr>))"
    have same: "away ?n (p\<lparr>ps_index := idx\<rparr>) k = away ?n p k" for k by (simp add: away_def)
    have at': "at ?ix' k = (if at ?ix k = Some p then Some (p\<lparr>ps_index := idx\<rparr>) else at ?ix k)" for k
      using u [OF j(1), of k p] p(2) at_cong [of k ?ix ?j] j(1) by (auto simp: at_put [OF n(2)])
    have "robin ?ix'"
      using r same unfolding robin_def robin_at_def by (fastforce simp: at' split: if_splits)
    moreover have "below ?ix' ?ix"
      using same by (auto simp: below_def at' split: if_splits)
    ultimately show ?thesis
      using Some evict_probe_here [OF n(2) j(1) p(2), of s prev] j(1)
      by (intro exI [of _ ?ix']) (simp add: mset_put [OF n(2)])
  qed
  ultimately show ?thesis by simp
qed

subsection \<open>Growth\<close>

lemma reinsert_all_append:
  "reinsert_all m (ps @ qs) ix = Option.bind (reinsert_all m ps ix) (reinsert_all m qs)"
  by (induction ps arbitrary: ix) (simp_all add: Option.bind_assoc, metis bind_assoc)

lemma reinsert_probe_finds:
  assumes "ix \<noteq> []" and "at ix (i + e) = None" and "\<And>c. c < e \<Longrightarrow> at ix (i + c) \<noteq> None"
  shows "reinsert_probe p ix (i mod length ix) = Some (put ix (i + e) (Some p))"
  using assms
proof (induction e arbitrary: i)
  case 0
  then show ?case by (subst reinsert_probe.simps) (simp add: at_def put_def)
next
  case (Suc e)
  have w: "reinsert_probe p ix (Suc j) = reinsert_probe p ix (Suc j mod length ix)"
    if "j < length ix" for j
  proof (cases "Suc j = length ix")
    case True then show ?thesis by (subst reinsert_probe.simps) simp
  next
    case False then show ?thesis using that by simp
  qed
  have "i mod length ix < length ix" using Suc.prems(1) by simp
  then have "reinsert_probe p ix (i mod length ix) = reinsert_probe p ix (Suc (i mod length ix))"
    using Suc.prems(3) [of 0] by (subst reinsert_probe.simps) (auto simp: at_def)
  also have "\<dots> = reinsert_probe p ix (Suc i mod length ix)"
    using w [of "i mod length ix"] Suc.prems(1) by (simp add: mod_Suc_eq)
  also have "\<dots> = Some (put ix (Suc i + e) (Some p))"
    using Suc.prems(2) Suc.prems(3) [of "Suc _"] by (intro Suc.IH [OF Suc.prems(1)]) simp_all
  finally show ?case by simp
qed

lemma first_ideal_ok:
  assumes "\<exists>j < length ps. \<exists>p. ps ! j = Some p \<and> probe_distance m (ps_hash p) (i + j) = 0"
  shows "i \<le> first_ideal m i ps \<and> first_ideal m i ps < i + length ps
    \<and> (\<exists>p. ps ! (first_ideal m i ps - i) = Some p
         \<and> probe_distance m (ps_hash p) (first_ideal m i ps) = 0)"
  using assms
proof (induction m i ps rule: first_ideal.induct)
  case (1 m i) then show ?case by simp
next
  case (2 m i ps)
  then obtain j p where j: "j < length (None # ps)" "(None # ps) ! j = Some p"
    "probe_distance m (ps_hash p) (i + j) = 0" by auto
  then obtain j' where "j = Suc j'" by (cases j) auto
  with j have "\<exists>j < length ps. \<exists>p. ps ! j = Some p \<and> probe_distance m (ps_hash p) (i + 1 + j) = 0"
    by auto
  from 2(1) [OF this] show ?case by (auto simp: nth_Cons' Suc_diff_Suc)
next
  case (3 m i q ps)
  show ?case
  proof (cases "probe_distance m (ps_hash q) i = 0")
    case True then show ?thesis by simp
  next
    case False
    obtain j p where j: "j < length (Some q # ps)" "(Some q # ps) ! j = Some p"
      "probe_distance m (ps_hash p) (i + j) = 0" using 3(2) by auto
    then obtain j' where "j = Suc j'" using False by (cases j) auto
    with j have "\<exists>j < length ps. \<exists>p. ps ! j = Some p \<and> probe_distance m (ps_hash p) (i + 1 + j) = 0"
      by auto
    from 3(1) [OF False this] show ?thesis using False by (auto simp: nth_Cons' Suc_diff_Suc)
  qed
qed

lemma ideal_exists:
  assumes r: "robin ix" and e: "at ix e = None" and p: "Some p \<in># mset ix"
  shows "\<exists>j < length ix. \<exists>q. at ix j = Some q \<and> away (length ix) q j = 0"
proof -
  have ne: "0 < length ix" using p by (cases ix) auto
  obtain j where j: "at ix j = Some p" using in_at [OF p] by auto
  obtain k where "(e + k) mod length ix = j mod length ix" using offset [OF ne] by blast
  then have "at ix (e + k) \<noteq> None" using j at_cong by (metis option.distinct(1))
  then have l: "at ix (e + (LEAST k. at ix (e + k) \<noteq> None)) \<noteq> None" by (rule LeastI)
  define c where "c = (LEAST k. at ix (e + k) \<noteq> None)"
  from l obtain q where q: "at ix (e + c) = Some q" by (auto simp: c_def)
  have "c \<noteq> 0" using q e by (metis add_0_right option.distinct(1))
  then obtain c' where c': "c = Suc c'" by (cases c) auto
  then have "at ix (e + c') = None" using not_less_Least [of c' "\<lambda>k. at ix (e + k) \<noteq> None"] by (auto simp: c_def)
  then have "away (length ix) q (e + c) = 0"
    using r q c' unfolding robin_def robin_at_def by (metis add_Suc_right neq0_conv option.distinct(1))
  then show ?thesis
    using q ne by (intro exI [of _ "(e + c) mod length ix"]) (simp add: away_mod)
qed

text \<open>The ideal places of the entries from \<open>f\<close> on, unrolled.\<close>

lemma away_from_ideal:
  assumes r: "robin ix" and f: "at ix f = Some q" "away (length ix) q f = 0" and le: "f \<le> i"
    and p: "at ix i = Some p"
  shows "away (length ix) p i \<le> i - f"
  using le p
proof (induction i arbitrary: p rule: nat_induct_at_least)
  case base then show ?case using f by simp
next
  case (Suc i)
  show ?case
  proof (cases "away (length ix) p (Suc i) = 0")
    case True then show ?thesis by simp
  next
    case False
    then obtain p' where "at ix i = Some p'" "away (length ix) p (Suc i) \<le> Suc (away (length ix) p' i)"
      using r Suc.prems unfolding robin_def robin_at_def by blast
    then show ?thesis using Suc.IH [of p'] Suc.hyps by simp
  qed
qed

lemma ideal_mono:
  assumes r: "robin ix" and p: "at ix i = Some p" and le: "i \<le> j" and q: "at ix j = Some q"
  shows "i - away (length ix) p i \<le> j - away (length ix) q j"
  using le q
proof (induction j arbitrary: q rule: nat_induct_at_least)
  case base then show ?case using p by simp
next
  case (Suc j)
  show ?case
  proof (cases "away (length ix) q (Suc j) = 0")
    case True then show ?thesis using Suc.hyps by simp
  next
    case False
    then obtain p' where "at ix j = Some p'" "away (length ix) q (Suc j) \<le> Suc (away (length ix) p' j)"
      using r Suc.prems unfolding robin_def robin_at_def by blast
    then show ?thesis using Suc.IH [of p'] by simp
  qed
qed

lemma window:
  assumes "f \<le> x" and "x < f + m" and "f \<le> y" and "y < f + m" and "x mod m = y mod (m::nat)"
  shows "x = y"
proof -
  have "x = y" if "x \<le> y" "f \<le> x" "y < f + m" "x mod m = y mod m" for x y
  proof (rule ccontr)
    assume "x \<noteq> y"
    moreover have "y - x < m" using that by linarith
    ultimately show False using that add_mod_neq [of "y - x" m x] by simp
  qed
  then show ?thesis using assms by (metis nat_le_linear)
qed

lemma mod_double:
  assumes "x mod n = y mod (n::nat)" and "0 < n"
  shows "\<exists>l < 2. x mod (2 * n) = (y + l * n) mod (2 * n)"
proof -
  have e: "z mod (2 * n) = n * (z div n mod 2) + z mod n" for z
    by (simp add: mult.commute [of 2] mod_mult2_eq)
  have "(y + l * n) div n = l + y div n" for l using assms(2) by simp
  then have "(y + l * n) mod (2 * n) = n * ((l + y div n) mod 2) + y mod n" for l
    by (simp add: e)
  moreover have "x div n mod 2 = (0 + y div n) mod 2 \<or> x div n mod 2 = (1 + y div n) mod 2"
    by (cases "even (x div n)"; cases "even (y div n)") (simp_all add: mod2_eq_if)
  ultimately have "x mod (2 * n) = (y + 0 * n) mod (2 * n) \<or> x mod (2 * n) = (y + 1 * n) mod (2 * n)"
    using e [of x] assms(1) by metis
  moreover have "(0::nat) < 2" "(1::nat) < 2" by simp_all
  ultimately show ?thesis by blast
qed

text \<open>
  The new array while the old one is visited from \<open>f\<close>, up to \<open>t\<close>. Read from \<open>f\<close> on it has two
  halves (\<open>l\<close>); an entry that came from \<open>i\<close> stands in one of them, between its ideal place and \<open>i\<close>.
\<close>

definition grown :: "pos option list \<Rightarrow> nat \<Rightarrow> nat \<Rightarrow> pos option list \<Rightarrow> bool" where
  "grown ix f t nx \<longleftrightarrow>
     robin nx \<and> length nx = 2 * length ix
     \<and> (\<forall>l N p. l < 2 \<longrightarrow> f \<le> N \<longrightarrow> N < f + length ix \<longrightarrow> at nx (N + l * length ix) = Some p \<longrightarrow>
          (\<exists>i. f \<le> i \<and> i < t \<and> N \<le> i \<and> at ix i = Some p
             \<and> away (length nx) p (N + l * length ix) = N - (i - away (length ix) p i)))"

lemma grown_step:
  assumes r: "robin ix" and f: "at ix f = Some q" "away (length ix) q f = 0"
    and g: "grown ix f t nx" and t: "f \<le> t" "t < f + length ix" and p: "at ix t = Some p"
    and n: "2 \<le> length ix"
  shows "\<exists>nx'. reinsert_probe p nx (ps_hash p mod length nx) = Some nx' \<and> grown ix f (Suc t) nx'
    \<and> mset nx' = add_mset (Some p) (mset nx - {#None#}) \<and> None \<in># mset nx"
proof -
  let ?n = "length ix" and ?m = "length nx"
  have m: "?m = 2 * ?n" using g by (simp add: grown_def)
  have ne: "nx \<noteq> []" using m n by auto
  define a where "a = away ?n p t"
  define u where "u = t - a"
  have a: "a \<le> t - f" unfolding a_def by (rule away_from_ideal [OF r f t(1) p])
  then have u: "f \<le> u" "u \<le> t" "u + a = t" using t(1) by (simp_all add: u_def)
  have "ps_hash p mod ?n = u mod ?n"
  proof -
    have "(ps_hash p mod ?n + a) mod ?n = (ps_hash p mod ?n + (t + (?n - ps_hash p mod ?n))) mod ?n"
      by (simp add: a_def away_def mod_add_right_eq)
    also have "ps_hash p mod ?n + (t + (?n - ps_hash p mod ?n)) = t + ?n"
      using mod_less_divisor [of ?n "ps_hash p"] n by linarith
    finally have "(ps_hash p mod ?n + a) mod ?n = (u + a) mod ?n" using u by simp
    then show ?thesis using mod_add_cancel [of ?n "ps_hash p mod ?n" a u] n by fastforce
  qed
  then obtain l where l: "l < 2" "ps_hash p mod ?m = (u + l * ?n) mod ?m"
    using mod_double [of "ps_hash p" ?n u] n m by fastforce
  have content: "\<exists>i. f \<le> i \<and> i < t \<and> N \<le> i \<and> at ix i = Some p'
      \<and> away ?m p' (N + l * ?n) = N - (i - away ?n p' i)"
    if "l < 2" "f \<le> N" "N < f + ?n" "at nx (N + l * ?n) = Some p'" for l N p'
    using g that unfolding grown_def by blast
  have free: "at nx (t + l * ?n) = None"
  proof (rule ccontr)
    assume "at nx (t + l * ?n) \<noteq> None"
    then obtain p' where "at nx (t + l * ?n) = Some p'" by auto
    from content [OF l(1) t this] show False by auto
  qed
  define e where "e = (LEAST c. at nx (u + c + l * ?n) = None)"
  have "at nx (u + a + l * ?n) = None" using free u by simp
  then have e: "at nx (u + e + l * ?n) = None" and "e \<le> a"
    unfolding e_def by (rule LeastI, rule Least_le)
  have before: "at nx (u + c + l * ?n) \<noteq> None" if "c < e" for c
    using not_less_Least [OF that [unfolded e_def]] by simp
  let ?nx = "put nx (u + l * ?n + e) (Some p)"
  have found: "reinsert_probe p nx (ps_hash p mod ?m) = Some ?nx"
    unfolding l(2) using e before
    by (intro reinsert_probe_finds [OF ne]) (simp_all add: ac_simps)
  have ap: "away ?m p (u + l * ?n + c) = c mod ?m" for c
  proof -
    have "(u + l * ?n + c) mod ?m = (ps_hash p mod ?m + c) mod ?m" by (simp add: l(2) mod_add_left_eq)
    then show ?thesis using away_cong away_ideal [of ?m p c] ne by (metis length_greater_0_conv)
  qed
  have em: "e < ?m" using \<open>e \<le> a\<close> a t m by linarith
  then have ae: "away ?m p (u + l * ?n + e) = e" by (simp add: ap)
  have fit: "fits nx p (u + l * ?n + e)"
  proof -
    have "\<exists>y. at nx (prior ?m (u + l * ?n + e)) = Some y \<and> e \<le> Suc (away ?m y (prior ?m (u + l * ?n + e)))"
      if "0 < e"
    proof -
      from that obtain c where c: "e = Suc c" by (cases e) auto
      have "c < e" by (simp add: c)
      then obtain y where y: "at nx (u + c + l * ?n) = Some y" using before by blast
      obtain i where i: "f \<le> i" "i < t" "at ix i = Some y"
        "away ?m y (u + c + l * ?n) = u + c - (i - away ?n y i)"
        using content [OF l(1) _ _ y] u(1) \<open>e \<le> a\<close> c t u(3) by auto
      have "i - away ?n y i \<le> u"
        using ideal_mono [OF r i(3) _ p] i(2) by (simp add: u_def a_def)
      then have "c \<le> away ?m y (u + c + l * ?n)" using i(4) by simp
      moreover have "prior ?m (u + l * ?n + e) mod ?m = (u + c + l * ?n) mod ?m"
        using ne by (intro prior_mod) (simp_all add: c ac_simps)
      ultimately show ?thesis using y c at_cong away_cong by (metis Suc_le_mono)
    qed
    moreover have "at nx (u + l * ?n + e) = None" using e by (simp add: ac_simps)
    ultimately show ?thesis by (simp add: fits_def ae)
  qed
  have "grown ix f (Suc t) ?nx"
    unfolding grown_def
  proof (intro conjI allI impI)
    show "robin ?nx" by (rule robin_put) (use g fit n m in \<open>auto simp: grown_def\<close>)
    show "length ?nx = 2 * ?n" using m by simp
    fix l' N p' assume A: "l' < 2" "f \<le> N" "N < f + ?n" "at ?nx (N + l' * ?n) = Some p'"
    show "\<exists>i. f \<le> i \<and> i < Suc t \<and> N \<le> i \<and> at ix i = Some p'
      \<and> away (length ?nx) p' (N + l' * ?n) = N - (i - away ?n p' i)"
    proof (cases "(N + l' * ?n) mod ?m = (u + l * ?n + e) mod ?m")
      case False
      then have "at nx (N + l' * ?n) = Some p'" using A(4) by (simp add: at_put [OF ne])
      from content [OF A(1-3) this] show ?thesis by (auto intro: less_SucI)
    next
      case True
      have "l = 0 \<or> l = 1" "l' = 0 \<or> l' = 1" using l(1) A(1) by auto
      moreover from this have "N + l' * ?n = u + l * ?n + e"
        by (intro window [of f _ ?m _, OF _ _ _ _ True]) (use A u \<open>e \<le> a\<close> t m in auto)
      ultimately have "N = u + e" using A(2,3) u \<open>e \<le> a\<close> t by auto
      moreover have "p' = p" using A(4) True by (simp add: at_put [OF ne])
      moreover have "away ?m p (N + l' * ?n) = e" using away_cong [OF True, of p] ae by simp
      moreover have "t - away ?n p t = u" by (simp add: u_def a_def)
      moreover have "u + e \<le> t" using u(3) \<open>e \<le> a\<close> by simp
      ultimately show ?thesis using p t by (intro exI [of _ t]) simp
    qed
  qed
  moreover have "at nx (u + l * ?n + e) = None" using e by (simp add: ac_simps)
  ultimately show ?thesis
    using found ne at_in [OF ne, of "u + l * ?n + e"] by (auto simp: mset_put)
qed

lemma grown_run:
  assumes r: "robin ix" and f: "at ix f = Some q" "away (length ix) q f = 0" and n: "2 \<le> length ix"
    and m: "masked m (replicate (2 * length ix) None)"
    and g: "grown ix f t nx" and t: "f \<le> t" and ps: "ps = map (at ix) [t..<f + length ix]"
  shows "\<exists>nx'. reinsert_all m ps nx = Some nx' \<and> robin nx' \<and> length nx' = 2 * length ix
    \<and> filter_mset (\<lambda>x. x \<noteq> None) (mset nx')
      = filter_mset (\<lambda>x. x \<noteq> None) (mset nx) + filter_mset (\<lambda>x. x \<noteq> None) (mset ps)"
  using g t ps
proof (induction ps arbitrary: t nx)
  case Nil then show ?case by (simp add: grown_def)
next
  case (Cons x ps)
  then have lt: "t < f + length ix" by (metis list.simps(3) list.simps(8) not_le upt_conv_Nil)
  then have x: "x = at ix t" "ps = map (at ix) [Suc t..<f + length ix]"
    using Cons.prems(3) by (simp_all add: upt_conv_Cons)
  show ?case
  proof (cases x)
    case None
    have "grown ix f (Suc t) nx" using Cons.prems(1) unfolding grown_def by (meson less_SucI)
    from Cons.IH [OF this _ x(2)] Cons.prems(2) None show ?thesis
      by (simp add: reinsert_entry_in_order_def)
  next
    case (Some p)
    have ln: "length nx = length (replicate (2 * length ix) (None::pos option))"
      using Cons.prems(1) by (simp add: grown_def)
    have "masked m nx" using m by (simp add: masked_def ln)
    then have d: "desired_pos m (ps_hash p) = ps_hash p mod length nx" by (rule desired_pos_mod)
    obtain nx1 where nx1: "reinsert_probe p nx (ps_hash p mod length nx) = Some nx1"
      "grown ix f (Suc t) nx1" "mset nx1 = add_mset (Some p) (mset nx - {#None#})"
      using grown_step [OF r f Cons.prems(1,2) lt _ n, of p] Some x(1) by auto
    obtain nx' where "reinsert_all m ps nx1 = Some nx'" "robin nx'" "length nx' = 2 * length ix"
      "filter_mset (\<lambda>x. x \<noteq> None) (mset nx')
        = filter_mset (\<lambda>x. x \<noteq> None) (mset nx1) + filter_mset (\<lambda>x. x \<noteq> None) (mset ps)"
      using Cons.IH [OF nx1(2) _ x(2)] Cons.prems(2) by auto
    moreover have "filter_mset (\<lambda>x. x \<noteq> None) (mset nx1)
        = add_mset (Some p) (filter_mset (\<lambda>x. x \<noteq> None) (mset nx))"
      using nx1(3) by simp
    ultimately show ?thesis
      using Some nx1(1) by (simp add: reinsert_entry_in_order_def d)
  qed
qed

lemma rotate_at:
  assumes "f < length ix"
  shows "drop f ix @ take f ix = map (at ix) [f..<f + length ix]"
proof (rule nth_equalityI)
  fix i assume "i < length (drop f ix @ take f ix)"
  then have i: "i < length ix" by simp
  have "f + i - length ix < f" if "\<not> f + i < length ix" using i that assms by linarith
  then have "(f + i) mod length ix = (if f + i < length ix then f + i else f + i - length ix)"
    using assms i by (simp add: le_mod_geq)
  then show "(drop f ix @ take f ix) ! i = map (at ix) [f..<f + length ix] ! i"
    using i assms by (auto simp: nth_append at_def add.commute)
qed simp

lemma masked_double:
  assumes "masked m ix" and "2 * length ix \<le> 2 ^ 60"
  shows "masked (2 * length ix - 1) (replicate (2 * length ix) None)"
proof -
  obtain k where k: "3 \<le> k" "length ix = 2 ^ k" using assms(1) by (auto simp: masked_def)
  then have "(2::nat) ^ Suc k \<le> 2 ^ 60" using assms(2) by simp
  then have "Suc k \<le> 60" by (rule power_le_imp_le_exp [rotated]) simp
  then show ?thesis
    unfolding masked_def length_replicate using k by (intro conjI exI [of _ "Suc k"]) simp_all
qed

lemma grow_ok:
  assumes m: "masked (et_mask t) (et_indices t)" and r: "robin (et_indices t)"
    and none: "None \<in># mset (et_indices t)" and p: "Some p \<in># mset (et_indices t)"
    and big: "2 * length (et_indices t) \<le> 2 ^ 60"
  shows "\<exists>ix. grow (2 * length (et_indices t)) t
        = Some (t\<lparr>et_mask := 2 * length (et_indices t) - 1, et_indices := ix\<rparr>)
    \<and> masked (2 * length (et_indices t) - 1) ix \<and> robin ix \<and> length ix = 2 * length (et_indices t)
    \<and> filter_mset (\<lambda>x. x \<noteq> None) (mset ix) = filter_mset (\<lambda>x. x \<noteq> None) (mset (et_indices t))"
proof -
  let ?ix = "et_indices t" and ?n = "length (et_indices t)"
  have n: "8 \<le> ?n" using masked_length [OF m] by simp
  obtain e where e: "at ?ix e = None" using in_at [OF none] by auto
  have pd: "probe_distance (et_mask t) (ps_hash q) j = away ?n q j" if "j < ?n" for q j
    using probe_distance_away [OF m that] .
  have "\<exists>j < ?n. \<exists>q. ?ix ! j = Some q \<and> probe_distance (et_mask t) (ps_hash q) (0 + j) = 0"
    using ideal_exists [OF r e p] pd by (auto simp: at_def)
  from first_ideal_ok [OF this] obtain f q where f: "f = first_ideal (et_mask t) 0 ?ix" "f < ?n"
    "?ix ! f = Some q" "probe_distance (et_mask t) (ps_hash q) f = 0" by auto
  have af: "at ?ix f = Some q" "away ?n q f = 0" using f pd by (simp_all add: at_def)
  let ?m = "2 * ?n - 1" and ?new = "replicate (2 * ?n) None :: pos option list"
  have mm: "masked ?m ?new" by (rule masked_double [OF m big])
  have "robin ?new" using n by (intro robin_empty) linarith
  moreover have "at ?new i = None" for i
  proof -
    have "i mod (2 * ?n) < 2 * ?n" using n by (intro mod_less_divisor) linarith
    then show ?thesis by (simp add: at_def)
  qed
  ultimately have "grown ?ix f f ?new" by (simp add: grown_def)
  from grown_run [OF r af _ mm this le_refl refl] n obtain nx where
    nx: "reinsert_all ?m (map (at ?ix) [f..<f + ?n]) ?new = Some nx" "robin nx" "length nx = 2 * ?n"
      "filter_mset (\<lambda>x. x \<noteq> None) (mset nx)
        = filter_mset (\<lambda>x. x \<noteq> None) (mset (map (at ?ix) [f..<f + ?n]))" by auto
  have "Option.bind (reinsert_all ?m (drop f ?ix) ?new) (reinsert_all ?m (take f ?ix)) = Some nx"
    using nx(1) by (simp only: rotate_at [OF f(2), symmetric] reinsert_all_append)
  moreover have "usize_sub (2 * ?n) 1 = ?m" using n by simp
  ultimately have "grow (2 * ?n) t = Some (t\<lparr>et_mask := ?m, et_indices := nx\<rparr>)"
    by (simp add: grow_def f(1) [symmetric] Let_def)
  moreover have "mset (map (at ?ix) [f..<f + ?n]) = mset ?ix"
    unfolding rotate_at [OF f(2), symmetric] by (metis append_take_drop_id mset_append union_commute)
  moreover have "masked ?m nx" using mm nx(3) by (simp add: masked_def)
  ultimately show ?thesis using nx(2-4) by (intro exI [of _ nx]) simp
qed

end
