(* ===== verification/Hpack_Links.thy ===== *)
theory Hpack_Links
  imports Hpack_Grow
begin

section \<open>The slots and the chains of names\<close>

text \<open>
  What the index holds besides the probe invariant: one entry per name, for its oldest slot, and from
  every slot the link to the next newer slot of its name. \<open>heads\<close> and \<open>last_of\<close> say which; the
  lemmas follow them through eviction and insertion.
\<close>

subsection \<open>Heads and links\<close>

definition sl_name :: "slot \<Rightarrow> hpack_name" where
  "sl_name s = header_name_of (fst (sl_header s))"

text \<open>The entries of the index for the slots \<open>ss\<close>, newest first, \<open>w\<close> the index of the first.\<close>

fun heads :: "64 word \<Rightarrow> slot list \<Rightarrow> pos list" where
  "heads w [] = []"
| "heads w (s # ss) =
     (if sl_name s \<in> sl_name ` set ss then [] else [\<lparr>ps_index = w, ps_hash = sl_hash s\<rparr>])
     @ heads (w + 1) ss"

text \<open>The oldest slot of a name.\<close>

fun last_of :: "64 word \<Rightarrow> slot list \<Rightarrow> hpack_name \<Rightarrow> 64 word option" where
  "last_of w [] n = None"
| "last_of w (s # ss) n =
     (case last_of (w + 1) ss n of
        Some x \<Rightarrow> Some x
      | None \<Rightarrow> if sl_name s = n then Some w else None)"

definition linked :: "64 word \<Rightarrow> slot list \<Rightarrow> bool" where
  "linked w ss \<longleftrightarrow> (\<forall>i < length ss. sl_next (ss ! i) = last_of w (take i ss) (sl_name (ss ! i)))"

definition filled :: "pos option list \<Rightarrow> pos option multiset" where
  "filled ix = filter_mset (\<lambda>x. x \<noteq> None) (mset ix)"

definition tracked :: "64 word \<Rightarrow> slot list \<Rightarrow> pos option list \<Rightarrow> bool" where
  "tracked w ss ix \<longleftrightarrow> linked w ss \<and> filled ix = mset (map Some (heads w ss))"

lemma last_of_None: "last_of w ss n = None \<longleftrightarrow> n \<notin> sl_name ` set ss"
  by (induction w ss n rule: last_of.induct) (auto split: option.split)

lemma last_of_index:
  "last_of w ss n = Some x \<Longrightarrow>
   \<exists>i < length ss. x = w + of_nat i \<and> sl_name (ss ! i) = n \<and> (\<forall>j. i < j \<longrightarrow> j < length ss \<longrightarrow> sl_name (ss ! j) \<noteq> n)"
proof (induction w ss n rule: last_of.induct)
  case (2 w s ss n)
  show ?case
  proof (cases "last_of (w + 1) ss n")
    case None
    then have "\<forall>j < length ss. sl_name (ss ! j) \<noteq> n" by (auto simp: last_of_None)
    then show ?thesis using 2(2) None
      by (intro exI [of _ 0]) (auto simp: nth_Cons' split: if_splits)
  next
    case (Some y)
    then obtain i where "i < length ss" "y = w + 1 + of_nat i" "sl_name (ss ! i) = n"
      "\<forall>j. i < j \<longrightarrow> j < length ss \<longrightarrow> sl_name (ss ! j) \<noteq> n"
      using 2(1) 2(2) by auto
    then show ?thesis using Some 2(2)
      by (intro exI [of _ "Suc i"]) (auto simp: nth_Cons' add.assoc)
  qed
qed simp

lemma linked_snoc: "linked w (ss @ [s]) \<longleftrightarrow> linked w ss \<and> sl_next s = last_of w ss (sl_name s)"
  by (auto simp: linked_def nth_append less_Suc_eq)

lemma linked_Nil [simp]: "linked w []"
  by (simp add: linked_def)

lemma heads_bound: "length (heads w ss) \<le> length ss"
  by (induction w ss rule: heads.induct) auto

lemma heads_index:
  "p \<in> set (heads w ss) \<Longrightarrow> \<exists>i < length ss. p = \<lparr>ps_index = w + of_nat i, ps_hash = sl_hash (ss ! i)\<rparr>"
proof (induction w ss rule: heads.induct)
  case (2 w s ss)
  show ?case
  proof (cases "p \<in> set (heads (w + 1) ss)")
    case True
    then obtain i where "i < length ss" "p = \<lparr>ps_index = w + 1 + of_nat i, ps_hash = sl_hash (ss ! i)\<rparr>"
      using 2(1) by blast
    then show ?thesis by (intro exI [of _ "Suc i"]) (simp add: add.assoc)
  next
    case False
    then show ?thesis using 2(2) by (intro exI [of _ 0]) (auto split: if_splits)
  qed
qed simp

lemma of_nat_inj64: "i < 2 ^ 64 \<Longrightarrow> j < 2 ^ 64 \<Longrightarrow> (of_nat i :: 64 word) = of_nat j \<longleftrightarrow> i = j"
  by (simp add: word_of_nat_eq_iff take_bit_nat_eq_self)

text \<open>No two entries have the same index.\<close>

lemma heads_distinct:
  "length ss < 2 ^ 64 \<Longrightarrow> distinct (map ps_index (heads w ss))"
proof (induction w ss rule: heads.induct)
  case (2 w s ss)
  have "w \<notin> ps_index ` set (heads (w + 1) ss)"
  proof
    assume "w \<in> ps_index ` set (heads (w + 1) ss)"
    then obtain p where p: "p \<in> set (heads (w + 1) ss)" "ps_index p = w" by auto
    then obtain i where "i < length ss"
      "p = \<lparr>ps_index = w + 1 + of_nat i, ps_hash = sl_hash (ss ! i)\<rparr>" using heads_index [OF p(1)] by blast
    then have i: "i < length ss" "w = w + 1 + of_nat i" using p(2) by (simp, metis pos.select_convs(1))
    then have "(of_nat (Suc i) :: 64 word) = of_nat 0" by (simp add: add.assoc)
    then show False using of_nat_inj64 [of "Suc i" 0] i(1) 2(2) by simp
  qed
  then show ?case using 2 by auto
qed simp

lemma filter_pos:
  assumes "distinct (map f (filter P xs))" and "i < length xs" "j < length xs" "P (xs ! i)" "P (xs ! j)"
    and "f (xs ! i) = f (xs ! j)"
  shows "i = j"
  using assms
proof (induction xs arbitrary: i j)
  case (Cons x xs)
  show ?case
  proof (cases i)
    case 0
    show ?thesis
    proof (cases j)
      case (Suc j')
      then have "xs ! j' \<in> set (filter P xs)" using Cons.prems by (auto simp: nth_mem)
      then show ?thesis using Cons.prems 0 Suc by (auto simp: image_iff)
    qed (use 0 in simp)
  next
    case (Suc i')
    note i = Suc
    show ?thesis
    proof (cases j)
      case 0
      then have "xs ! i' \<in> set (filter P xs)" using Cons.prems i by (auto simp: nth_mem)
      then show ?thesis using Cons.prems 0 i by (auto simp: image_iff)
    next
      case (Suc j')
      then show ?thesis using Cons.IH [of i' j'] Cons.prems i by (auto split: if_splits)
    qed
  qed
qed simp

lemma tracked_unique:
  assumes "tracked w ss ix" and "length ss < 2 ^ 64" and "at ix j = Some p" and "at ix k = Some q"
    and "ps_index p = ps_index q" and ne: "ix \<noteq> []"
  shows "k mod length ix = j mod length ix"
proof -
  let ?P = "\<lambda>x :: pos option. x \<noteq> None"
  have "mset (filter ?P ix) = mset (map Some (heads w ss))"
    using assms(1) by (simp add: tracked_def filled_def)
  then have "mset (map (ps_index \<circ> the) (filter ?P ix)) = mset (map (ps_index \<circ> the) (map Some (heads w ss)))"
    by (metis mset_map)
  moreover have "map (ps_index \<circ> the) (map Some (heads w ss)) = map ps_index (heads w ss)" by simp
  ultimately have "distinct (map (ps_index \<circ> the) (filter ?P ix))"
    using heads_distinct [OF assms(2)] by (metis mset_eq_imp_distinct_iff)
  from filter_pos [OF this, of "k mod length ix" "j mod length ix"] show ?thesis
    using assms(3-5) ne by (simp add: at_def)
qed

lemma none_in:
  assumes "filled ix = mset (map Some hs)" and "length hs < length ix"
  shows "None \<in># mset ix"
proof (rule ccontr)
  assume "None \<notin># mset ix"
  then have "filled ix = mset ix" unfolding filled_def by (subst filter_mset_eq_conv) (auto, metis not_None_eq)
  then have "size (mset ix) = size (mset (map Some hs))" using assms(1) by simp
  then show False using assms(2) by (simp only: size_mset length_map)
qed

subsection \<open>The oldest slot\<close>

lemma heads_snoc_new:
  "sl_name s \<notin> sl_name ` set ss \<Longrightarrow>
   mset (heads w (ss @ [s])) = add_mset \<lparr>ps_index = w + of_nat (length ss), ps_hash = sl_hash s\<rparr> (mset (heads w ss))"
  by (induction w ss rule: heads.induct) (auto simp: add.assoc)

lemma heads_snoc_old:
  assumes "last_of w ss (sl_name s) = Some x"
    and "\<And>a. a \<in> set ss \<Longrightarrow> sl_name a = sl_name s \<Longrightarrow> sl_hash a = sl_hash s"
  shows "add_mset \<lparr>ps_index = x, ps_hash = sl_hash s\<rparr> (mset (heads w (ss @ [s])))
    = add_mset \<lparr>ps_index = w + of_nat (length ss), ps_hash = sl_hash s\<rparr> (mset (heads w ss))"
  using assms
proof (induction w ss rule: heads.induct)
  case (2 w a ss)
  show ?case
  proof (cases "last_of (w + 1) ss (sl_name s)")
    case None
    then have n: "sl_name s \<notin> sl_name ` set ss" by (simp add: last_of_None)
    then have ax: "sl_name a = sl_name s" "x = w" using 2(2) None by (auto split: if_splits)
    have "a \<in> set (a # ss)" by simp
    then have "sl_hash a = sl_hash s" using ax(1) by (rule 2(3))
    moreover have "heads w ((a # ss) @ [s]) = heads (w + 1) (ss @ [s])" using ax(1) by simp
    moreover have "heads w (a # ss) = \<lparr>ps_index = w, ps_hash = sl_hash a\<rparr> # heads (w + 1) ss"
      using ax(1) n by simp
    moreover have "w + of_nat (length (a # ss)) = w + 1 + of_nat (length ss)" by (simp add: add.assoc)
    ultimately show ?thesis
      using heads_snoc_new [OF n, of "w + 1"] ax(2) by (simp only: mset.simps add_mset_commute)
  next
    case (Some y)
    then have "y = x" using 2(2) by simp
    have i: "add_mset \<lparr>ps_index = x, ps_hash = sl_hash s\<rparr> (mset (heads (w + 1) (ss @ [s])))
      = add_mset \<lparr>ps_index = w + 1 + of_nat (length ss), ps_hash = sl_hash s\<rparr> (mset (heads (w + 1) ss))"
    proof (rule 2(1))
      show "last_of (w + 1) ss (sl_name s) = Some x" using Some \<open>y = x\<close> by simp
      fix b assume b: "b \<in> set ss" "sl_name b = sl_name s"
      then have "b \<in> set (a # ss)" by simp
      then show "sl_hash b = sl_hash s" using b(2) by (rule 2(3))
    qed
    have "sl_name s \<in> sl_name ` set ss" using Some last_of_None [of "w + 1" ss "sl_name s"] by auto
    then have "sl_name a \<in> sl_name ` set (ss @ [s]) \<longleftrightarrow> sl_name a \<in> sl_name ` set ss" by auto
    moreover have "w + of_nat (length (a # ss)) = w + 1 + of_nat (length ss)" by (simp add: add.assoc)
    ultimately show ?thesis using i by (simp only: append_Cons heads.simps mset_append) (simp add: ac_simps)
  qed
qed simp

end
