(* ===== verification/Hpack_Evict.thy ===== *)
theory Hpack_Evict
  imports Hpack_Links
begin

section \<open>Eviction keeps the table's structure\<close>

text \<open>
  Room is made before the new slot is pushed. When the new slot continues the chain of a name, the
  index already counts it (\<open>prev_idx\<close>): the lemmas speak of the slots as they will be, \<open>vslots\<close>, the
  pending slot in front and linked from the newest of its name, at place \<open>r\<close>.
\<close>

type_synonym pending = "(slot \<times> nat) option"

definition link_at :: "nat \<Rightarrow> 64 word \<Rightarrow> slot list \<Rightarrow> slot list" where
  "link_at r x ss = ss[r := (ss ! r)\<lparr>sl_next := Some x\<rparr>]"

definition vslots :: "pending \<Rightarrow> 64 word \<Rightarrow> slot list \<Rightarrow> slot list" where
  "vslots pr ins ss = (case pr of None \<Rightarrow> ss | Some (x, r) \<Rightarrow> x # link_at r (- (ins + 1)) ss)"

definition vbase :: "pending \<Rightarrow> 64 word \<Rightarrow> 64 word" where
  "vbase pr ins = (case pr of None \<Rightarrow> - ins | Some _ \<Rightarrow> - (ins + 1))"

definition vprev :: "pending \<Rightarrow> 64 word \<Rightarrow> 64 word option" where
  "vprev pr ins = map_option (\<lambda>(x, r). of_nat r - ins) pr"

definition hashed :: "name_hasher \<Rightarrow> slot list \<Rightarrow> bool" where
  "hashed hf ss \<longleftrightarrow> (\<forall>s \<in> set ss. sl_hash s = hash_header hf (fst (sl_header s)))"

definition pending_ok :: "pending \<Rightarrow> slot list \<Rightarrow> bool" where
  "pending_ok pr ss \<longleftrightarrow>
     (case pr of None \<Rightarrow> True
      | Some (x, r) \<Rightarrow> r < 2 ^ 62 \<and> (r < length ss \<longrightarrow> sl_next (ss ! r) = None))"

lemma hash_header_name:
  "header_name_of a = header_name_of b \<Longrightarrow> hash_header hf a = hash_header hf b"
  by (simp add: hash_header_def)

lemma link_at_simps [simp]:
  "length (link_at r x ss) = length ss" "link_at r x [] = []"
  by (simp_all add: link_at_def)

lemma link_at_beyond [simp]: "length ss \<le> r \<Longrightarrow> link_at r x ss = ss"
  by (simp add: link_at_def list_update_beyond)

lemma link_at_snoc:
  "link_at r x (ss @ [s]) =
     (if r = length ss then ss @ [s\<lparr>sl_next := Some x\<rparr>] else link_at r x ss @ [s])"
proof (cases "r \<le> length ss")
  case True then show ?thesis by (auto simp: link_at_def list_update_append nth_append)
next
  case False then show ?thesis by simp
qed

lemma vslots_snoc:
  "vslots pr ins (ss @ [s]) = vslots pr ins ss @
     [if \<exists>x. pr = Some (x, length ss) then s\<lparr>sl_next := Some (- (ins + 1))\<rparr> else s]"
proof (cases "\<exists>x. pr = Some (x, length ss)")
  case True
  then show ?thesis using True by (auto simp: vslots_def link_at_snoc)
next
  case False
  then show ?thesis by (auto simp: vslots_def link_at_snoc split: option.split)
qed

lemma length_vslots: "length (vslots pr ins ss) = length ss + (if pr = None then 0 else 1)"
  by (simp add: vslots_def split: option.split)

lemma vslots_index:
  "vbase pr ins + of_nat (length (vslots pr ins ss)) = of_nat (length ss) - ins"
  by (auto simp: vbase_def length_vslots split: option.split)

lemma hashed_link_at [simp]: "hashed hf (link_at r x ss) = hashed hf ss"
proof (cases "r < length ss")
  case True
  then have "ss = take r ss @ ss ! r # drop (Suc r) ss" by (rule id_take_nth_drop)
  then have "set ss = set (take r ss) \<union> {ss ! r} \<union> set (drop (Suc r) ss)"
    by (metis Un_insert_right list.simps(15) set_append sup_bot.right_neutral insert_is_Un Un_assoc)
  moreover have "link_at r x ss = take r ss @ (ss ! r)\<lparr>sl_next := Some x\<rparr> # drop (Suc r) ss"
    using True by (simp add: link_at_def upd_conv_take_nth_drop)
  ultimately show ?thesis by (auto simp: hashed_def)
qed simp

lemma evict_tracked:
  assumes tr: "tracked w (vs @ [s]) ix" and h: "hashed hf (vs @ [s])" and b: "length vs < 2 ^ 63"
  defines "p \<equiv> \<lparr>ps_index = w + of_nat (length vs), ps_hash = sl_hash s\<rparr>"
  shows "Some p \<in># mset ix"
    and "mset ix' = add_mset (map_option (\<lambda>idx. p\<lparr>ps_index := idx\<rparr>) (sl_next s)) (mset ix - {#Some p#})
      \<Longrightarrow> tracked w vs ix'"
proof -
  have l: "linked w vs" "sl_next s = last_of w vs (sl_name s)"
    and f: "filled ix = mset (map Some (heads w (vs @ [s])))"
    using tr by (simp_all add: tracked_def linked_snoc)
  have hash: "sl_hash a = sl_hash s" if "a \<in> set vs" "sl_name a = sl_name s" for a
    using h that hash_header_name [of "fst (sl_header a)" "fst (sl_header s)" hf]
    unfolding hashed_def sl_name_def by (metis UnCI list.set_intros(1) set_append)
  have *: "p \<in> set (heads w (vs @ [s])) \<and>
     (case sl_next s of
        None \<Rightarrow> mset (heads w (vs @ [s])) = add_mset p (mset (heads w vs))
      | Some x \<Rightarrow> add_mset (p\<lparr>ps_index := x\<rparr>) (mset (heads w (vs @ [s]))) = add_mset p (mset (heads w vs)))"
  proof (cases "sl_next s")
    case None
    then have "sl_name s \<notin> sl_name ` set vs" using l(2) last_of_None by metis
    from heads_snoc_new [OF this, of w]
    have "mset (heads w (vs @ [s])) = add_mset p (mset (heads w vs))" by (simp add: p_def)
    moreover from this have "p \<in># mset (heads w (vs @ [s]))" by (simp only: union_single_eq_member)
    then have "p \<in> set (heads w (vs @ [s]))" by (simp only: set_mset_mset)
    ultimately show ?thesis using None by simp
  next
    case (Some x)
    then have la: "last_of w vs (sl_name s) = Some x" using l(2) by simp
    have e: "add_mset (p\<lparr>ps_index := x\<rparr>) (mset (heads w (vs @ [s]))) = add_mset p (mset (heads w vs))"
      using heads_snoc_old [OF la hash] by (simp add: p_def)
    obtain i where i: "i < length vs" "x = w + of_nat i" using last_of_index [OF la] by auto
    have "p \<noteq> p\<lparr>ps_index := x\<rparr>"
    proof
      assume "p = p\<lparr>ps_index := x\<rparr>"
      then have "w + of_nat (length vs) = w + of_nat i" using i(2) by (simp add: p_def)
      then have "(of_nat (length vs) :: 64 word) = of_nat i" by simp
      then show False using of_nat_inj64 [of "length vs" i] b i(1) by simp
    qed
    moreover have "p \<in># add_mset (p\<lparr>ps_index := x\<rparr>) (mset (heads w (vs @ [s])))" unfolding e by simp
    ultimately have "p \<in># mset (heads w (vs @ [s]))" by simp
    then show ?thesis using Some e by simp
  qed
  have "Some p \<in># filled ix" unfolding f using * by auto
  then show "Some p \<in># mset ix" by (simp add: filled_def)
  assume ix': "mset ix' = add_mset (map_option (\<lambda>idx. p\<lparr>ps_index := idx\<rparr>) (sl_next s)) (mset ix - {#Some p#})"
  have "filled ix' = mset (map Some (heads w vs))"
  proof (cases "sl_next s")
    case None
    then have "filled ix' = filled ix - {#Some p#}" using ix' by (simp add: filled_def)
    then show ?thesis using * None f by simp
  next
    case (Some x)
    let ?x = "p\<lparr>ps_index := x\<rparr>" and ?h = "mset (heads w (vs @ [s]))"
    have "filled ix' = add_mset (Some ?x) (filled ix - {#Some p#})"
      using ix' Some by (simp add: filled_def)
    also have "\<dots> = image_mset Some (add_mset ?x (?h - {#p#}))"
      using * f by (simp add: image_mset_Diff)
    also have "add_mset ?x (?h - {#p#}) = add_mset ?x ?h - {#p#}" using * by simp
    also have "\<dots> = mset (heads w vs)" using * Some by simp
    finally show ?thesis by simp
  qed
  then show "tracked w vs ix'" using l(1) by (simp add: tracked_def)
qed

lemma evict_ok:
  assumes m: "masked (et_mask t) (et_indices t)" and r: "robin (et_indices t)"
    and tr: "tracked (vbase pr (et_inserted t)) (vslots pr (et_inserted t) (et_slots t)) (et_indices t)"
    and h: "hashed hf (vslots pr (et_inserted t) (et_slots t))" and pr: "pending_ok pr (et_slots t)"
    and cap: "length (vslots pr (et_inserted t) (et_slots t)) < length (et_indices t)"
    and ss: "et_slots t = ss @ [s]"
  shows "\<exists>ix. evict (vprev pr (et_inserted t)) t = Some (t\<lparr>et_slots := ss,
        et_size := usize_sub (et_size t) (header_len (fst (sl_header s))), et_indices := ix\<rparr>)
    \<and> robin ix \<and> length ix = length (et_indices t) \<and> below ix (et_indices t)
    \<and> tracked (vbase pr (et_inserted t)) (vslots pr (et_inserted t) ss) ix"
proof -
  let ?ins = "et_inserted t" and ?w = "vbase pr (et_inserted t)" and ?ix = "et_indices t"
  let ?vs = "vslots pr (et_inserted t) ss"
  let ?s = "if \<exists>x. pr = Some (x, length ss) then s\<lparr>sl_next := Some (- (?ins + 1))\<rparr> else s"
  let ?i = "of_nat (length ss) - ?ins"
  let ?p = "\<lparr>ps_index = ?i, ps_hash = sl_hash s\<rparr>"
  let ?t = "t\<lparr>et_slots := ss, et_size := usize_sub (et_size t) (header_len (fst (sl_header s)))\<rparr>"
  have v: "vslots pr ?ins (et_slots t) = ?vs @ [?s]" by (simp only: ss vslots_snoc)
  have tr': "tracked ?w (?vs @ [?s]) ?ix" and h': "hashed hf (?vs @ [?s])" using tr h by (simp_all add: v)
  have n: "length ?ix \<le> 2 ^ 60" using masked_length [OF m] by simp
  then have b: "length ?vs < 2 ^ 63" "length (?vs @ [?s]) < 2 ^ 64" "length ss < 2 ^ 63" 
    using cap unfolding v by (simp_all add: length_vslots)
  have w: "?w + of_nat (length ?vs) = ?i" by (rule vslots_index)
  have hs: "sl_hash ?s = sl_hash s" by simp
  have none: "None \<in># mset ?ix"
    by (rule none_in [of _ "heads ?w (?vs @ [?s])"])
      (use tr' cap heads_bound [of ?w "?vs @ [?s]"] v in \<open>auto simp: tracked_def\<close>)
  have p: "Some ?p \<in># mset ?ix" using evict_tracked(1) [OF tr' h' b(1)] by (simp only: w hs)
  have prev: "Some ?i = vprev pr ?ins \<longleftrightarrow> (\<exists>x. pr = Some (x, length ss))"
  proof (cases pr)
    case (Some y)
    obtain x q where y: "y = (x, q)" by (cases y)
    have "q < 2 ^ 64" using pr Some y by (simp add: pending_ok_def)
    then have "(of_nat (length ss) :: 64 word) = of_nat q \<longleftrightarrow> length ss = q"
      using b(3) by (intro of_nat_inj64) simp_all
    then show ?thesis using Some y by (auto simp: vprev_def)
  qed (simp add: vprev_def)
  have heir: "heir ?i s (vprev pr ?ins) ?t = sl_next ?s"
  proof (cases "\<exists>x. pr = Some (x, length ss)")
    case True
    then have "sl_next s = None" using pr ss by (auto simp: pending_ok_def)
    then show ?thesis using True prev by (auto simp: heir_def)
  next
    case False
    then have "Some ?i \<noteq> vprev pr ?ins" using prev by blast
    then show ?thesis using False by (simp add: heir_def split: option.split)
  qed
  have "\<exists>ix. evict_probe ?i s (vprev pr ?ins) ?t (desired_pos (et_mask ?t) (sl_hash s)) = Some (?t\<lparr>et_indices := ix\<rparr>)
    \<and> robin ix \<and> length ix = length (et_indices ?t) \<and> below ix (et_indices ?t)
    \<and> mset ix = add_mset (map_option (\<lambda>idx. ?p\<lparr>ps_index := idx\<rparr>) (heir ?i s (vprev pr ?ins) ?t))
                  (mset (et_indices ?t) - {#Some ?p#})"
  proof (rule evict_probe_ok)
    fix j k q
    assume "at (et_indices ?t) j = Some ?p" "at (et_indices ?t) k = Some q" "ps_index q = ?i"
    then show "k mod length (et_indices ?t) = j mod length (et_indices ?t)"
      using tracked_unique [OF tr' b(2), of j ?p k q] cap by fastforce
  qed (use m r none p in simp_all)
  then obtain ix where ix: "evict_probe ?i s (vprev pr ?ins) ?t (desired_pos (et_mask t) (sl_hash s))
        = Some (?t\<lparr>et_indices := ix\<rparr>)"
    "robin ix" "length ix = length ?ix" "below ix ?ix"
    "mset ix = add_mset (map_option (\<lambda>idx. ?p\<lparr>ps_index := idx\<rparr>) (sl_next ?s)) (mset ?ix - {#Some ?p#})"
    unfolding heir by auto
  have "tracked ?w ?vs ix"
    by (rule evict_tracked(2) [OF tr' h' b(1)]) (simp only: w hs ix(5))
  moreover have "evict (vprev pr ?ins) t = Some (?t\<lparr>et_indices := ix\<rparr>)"
    using ix(1) by (simp add: evict_def ss)
  ultimately show ?thesis using ix(2-4) by (intro exI [of _ ix]) simp
qed

subsection \<open>Making room\<close>

definition slots_size :: "slot list \<Rightarrow> nat" where
  "slots_size ss = sum_list (map (\<lambda>s. header_len (fst (sl_header s))) ss)"

text \<open>The table of the decoder that holds the same headers.\<close>

definition mirror :: "nat \<Rightarrow> slot list \<Rightarrow> hpack_table" where
  "mirror mx ss = \<lparr>ht_entries = map (\<lambda>s. fst (sl_header s)) ss, ht_size = slots_size ss, ht_max_size = mx\<rparr>"

lemma slots_size_simps [simp]:
  "slots_size [] = 0" "slots_size (s # ss) = header_len (fst (sl_header s)) + slots_size ss"
  "slots_size (ss @ ss') = slots_size ss + slots_size ss'"
  by (simp_all add: slots_size_def)

lemma slots_size_ge: "32 * length ss \<le> slots_size ss"
proof (induction ss)
  case (Cons s ss)
  then show ?case using header_len_ge [of "fst (sl_header s)"] by simp
qed simp

lemma mirror_reserve:
  "table_reserve len (mirror mx ss) =
     (if slots_size ss + len \<le> mx \<or> ss = [] then mirror mx ss else table_reserve len (mirror mx (butlast ss)))"
proof (cases ss rule: rev_cases)
  case (snoc ss' s)
  then show ?thesis by (subst table_reserve.simps) (simp add: mirror_def)
qed (subst table_reserve.simps, simp add: mirror_def)

lemma hashed_append [simp]: "hashed hf (a @ b) \<longleftrightarrow> hashed hf a \<and> hashed hf b"
  by (auto simp: hashed_def)

lemma converge_ok:
  assumes "masked (et_mask t) (et_indices t)" and "robin (et_indices t)"
    and "tracked (vbase pr (et_inserted t)) (vslots pr (et_inserted t) (et_slots t)) (et_indices t)"
    and "hashed hf (vslots pr (et_inserted t) (et_slots t))" and "pending_ok pr (et_slots t)"
    and "length (vslots pr (et_inserted t) (et_slots t)) < length (et_indices t)"
    and "et_size t = slots_size (et_slots t) + extra" and "extra \<le> et_max_size t"
  shows "\<exists>ss ix ev. converge (vprev pr (et_inserted t)) t ret
        = Some (t\<lparr>et_slots := ss, et_size := slots_size ss + extra, et_indices := ix\<rparr>, ev)
    \<and> (\<exists>gone. et_slots t = ss @ gone) \<and> slots_size ss + extra \<le> et_max_size t
    \<and> table_reserve extra (mirror (et_max_size t) (et_slots t)) = mirror (et_max_size t) ss
    \<and> robin ix \<and> length ix = length (et_indices t) \<and> below ix (et_indices t)
    \<and> tracked (vbase pr (et_inserted t)) (vslots pr (et_inserted t) ss) ix
    \<and> (\<not> ev \<longrightarrow> ss = et_slots t \<and> ix = et_indices t) \<and> (ret \<longrightarrow> ev)"
  using assms
proof (induction "length (et_slots t)" arbitrary: t ret)
  case 0
  then have "converge (vprev pr (et_inserted t)) t ret = Some (t, ret)"
    by (subst converge.simps) simp
  moreover have "t\<lparr>et_slots := [], et_size := extra, et_indices := et_indices t\<rparr> = t"
    using 0 by (cases t) simp
  ultimately show ?case
    using 0 by (intro exI [of _ "[]"] exI [of _ "et_indices t"] exI [of _ ret]) (simp add: mirror_reserve)
next
  case (Suc n)
  let ?ins = "et_inserted t" and ?mx = "et_max_size t"
  show ?case
  proof (cases "?mx < et_size t")
    case False
    then have "converge (vprev pr ?ins) t ret = Some (t, ret)" by (subst converge.simps) simp
    moreover have "t\<lparr>et_slots := et_slots t, et_size := slots_size (et_slots t) + extra,
        et_indices := et_indices t\<rparr> = t"
      using Suc.prems(7) by (cases t) simp
    ultimately show ?thesis
      using False Suc.prems
      by (intro exI [of _ "et_slots t"] exI [of _ "et_indices t"] exI [of _ ret])
        (simp add: mirror_reserve)
  next
    case True
    obtain ss s where ss: "et_slots t = ss @ [s]" using Suc.hyps(2) by (cases "et_slots t" rule: rev_cases) auto
    obtain ix where ix: "evict (vprev pr ?ins) t = Some (t\<lparr>et_slots := ss,
        et_size := usize_sub (et_size t) (header_len (fst (sl_header s))), et_indices := ix\<rparr>)"
      "robin ix" "length ix = length (et_indices t)" "below ix (et_indices t)"
      "tracked (vbase pr ?ins) (vslots pr ?ins ss) ix"
      using evict_ok [OF Suc.prems(1-6) ss] by auto
    have sz: "usize_sub (et_size t) (header_len (fst (sl_header s))) = slots_size ss + extra"
      using Suc.prems(7) ss by simp
    let ?t = "t\<lparr>et_slots := ss, et_size := slots_size ss + extra, et_indices := ix\<rparr>"
    have "\<exists>ss' ix' ev. converge (vprev pr (et_inserted ?t)) ?t True
        = Some (?t\<lparr>et_slots := ss', et_size := slots_size ss' + extra, et_indices := ix'\<rparr>, ev)
    \<and> (\<exists>gone. et_slots ?t = ss' @ gone) \<and> slots_size ss' + extra \<le> et_max_size ?t
    \<and> table_reserve extra (mirror (et_max_size ?t) (et_slots ?t)) = mirror (et_max_size ?t) ss'
    \<and> robin ix' \<and> length ix' = length (et_indices ?t) \<and> below ix' (et_indices ?t)
    \<and> tracked (vbase pr (et_inserted ?t)) (vslots pr (et_inserted ?t) ss') ix'
    \<and> (\<not> ev \<longrightarrow> ss' = et_slots ?t \<and> ix' = et_indices ?t) \<and> (True \<longrightarrow> ev)"
    proof (rule Suc.hyps(1))
      show "n = length (et_slots ?t)" using Suc.hyps(2) ss by simp
      show "masked (et_mask ?t) (et_indices ?t)" using Suc.prems(1) ix(3) by (simp add: masked_def)
      show "hashed hf (vslots pr (et_inserted ?t) (et_slots ?t))"
        using Suc.prems(4) by (simp add: ss vslots_snoc)
      show "pending_ok pr (et_slots ?t)"
        using Suc.prems(5) by (auto simp: ss pending_ok_def nth_append split: option.splits)
      show "length (vslots pr (et_inserted ?t) (et_slots ?t)) < length (et_indices ?t)"
        using Suc.prems(6) ix(3) by (simp add: ss length_vslots)
    qed (use ix Suc.prems in simp_all)
    then obtain ss' ix' ev where c0: "converge (vprev pr ?ins) ?t True
        = Some (?t\<lparr>et_slots := ss', et_size := slots_size ss' + extra, et_indices := ix'\<rparr>, ev)"
      "\<exists>gone. et_slots ?t = ss' @ gone" "slots_size ss' + extra \<le> et_max_size ?t"
      "table_reserve extra (mirror (et_max_size ?t) (et_slots ?t)) = mirror (et_max_size ?t) ss'"
      "robin ix'" "length ix' = length (et_indices ?t)" "below ix' (et_indices ?t)"
      "tracked (vbase pr (et_inserted ?t)) (vslots pr (et_inserted ?t) ss') ix'" "True \<longrightarrow> ev"
      by (elim exE conjE) simp
    obtain gone where c: "converge (vprev pr ?ins) ?t True
        = Some (t\<lparr>et_slots := ss', et_size := slots_size ss' + extra, et_indices := ix'\<rparr>, True)"
      "ss = ss' @ gone" "slots_size ss' + extra \<le> ?mx"
      "table_reserve extra (mirror ?mx ss) = mirror ?mx ss'"
      "robin ix'" "length ix' = length ix" "below ix' ix"
      "tracked (vbase pr ?ins) (vslots pr ?ins ss') ix'" using c0 by auto
    have "below ix' (et_indices t)"
      by (rule below_trans [OF c(7) ix(4)]) (simp add: ix(3))
    moreover have "converge (vprev pr ?ins) t ret = converge (vprev pr ?ins) ?t True"
      using True ix(1) by (subst converge.simps) (simp add: sz)
    moreover have "table_reserve extra (mirror ?mx (et_slots t)) = mirror ?mx ss'"
      using True Suc.prems(7) c(4) by (subst mirror_reserve) (simp add: ss)
    ultimately show ?thesis
      using c ss ix(3) by (intro exI [of _ ss'] exI [of _ ix'] exI [of _ True]) simp
  qed
qed

lemma update_size_ok:
  assumes "masked (et_mask t) (et_indices t)" and "robin (et_indices t)"
    and "tracked (vbase pr (et_inserted t)) (vslots pr (et_inserted t) (et_slots t)) (et_indices t)"
    and "hashed hf (vslots pr (et_inserted t) (et_slots t))" and "pending_ok pr (et_slots t)"
    and "length (vslots pr (et_inserted t) (et_slots t)) < length (et_indices t)"
    and "et_size t = slots_size (et_slots t)" and "len \<le> et_max_size t"
  obtains ss ix ev gone where "update_size len (vprev pr (et_inserted t)) t
        = Some (t\<lparr>et_slots := ss, et_size := slots_size ss + len, et_indices := ix\<rparr>, ev)"
    "et_slots t = ss @ gone" "slots_size ss + len \<le> et_max_size t"
    "table_reserve len (mirror (et_max_size t) (et_slots t)) = mirror (et_max_size t) ss"
    "robin ix" "length ix = length (et_indices t)" "below ix (et_indices t)"
    "tracked (vbase pr (et_inserted t)) (vslots pr (et_inserted t) ss) ix"
    "\<not> ev \<longrightarrow> ss = et_slots t \<and> ix = et_indices t"
proof -
  let ?t = "t\<lparr>et_size := et_size t + len\<rparr>"
  have "\<exists>ss ix ev. converge (vprev pr (et_inserted ?t)) ?t False
        = Some (?t\<lparr>et_slots := ss, et_size := slots_size ss + len, et_indices := ix\<rparr>, ev)
    \<and> (\<exists>gone. et_slots ?t = ss @ gone) \<and> slots_size ss + len \<le> et_max_size ?t
    \<and> table_reserve len (mirror (et_max_size ?t) (et_slots ?t)) = mirror (et_max_size ?t) ss
    \<and> robin ix \<and> length ix = length (et_indices ?t) \<and> below ix (et_indices ?t)
    \<and> tracked (vbase pr (et_inserted ?t)) (vslots pr (et_inserted ?t) ss) ix
    \<and> (\<not> ev \<longrightarrow> ss = et_slots ?t \<and> ix = et_indices ?t) \<and> (False \<longrightarrow> ev)"
    by (rule converge_ok [where hf = hf]) (use assms in simp_all)
  then obtain ss ix ev where c: "converge (vprev pr (et_inserted ?t)) ?t False
        = Some (?t\<lparr>et_slots := ss, et_size := slots_size ss + len, et_indices := ix\<rparr>, ev)"
    and g: "\<exists>gone. et_slots ?t = ss @ gone" and rest: "slots_size ss + len \<le> et_max_size ?t"
    "table_reserve len (mirror (et_max_size ?t) (et_slots ?t)) = mirror (et_max_size ?t) ss"
    "robin ix" "length ix = length (et_indices ?t)" "below ix (et_indices ?t)"
    "tracked (vbase pr (et_inserted ?t)) (vslots pr (et_inserted ?t) ss) ix"
    "\<not> ev \<longrightarrow> ss = et_slots ?t \<and> ix = et_indices ?t" by (elim exE conjE) simp
  from g obtain gone where gone: "et_slots t = ss @ gone" by auto
  have u: "update_size len (vprev pr (et_inserted t)) t
      = Some (t\<lparr>et_slots := ss, et_size := slots_size ss + len, et_indices := ix\<rparr>, ev)"
    using c by (simp add: update_size_def)
  show thesis by (rule that [OF u gone]) (use rest in simp_all)
qed

end
