(* ===== verification/Hpack_Index.thy ===== *)
theory Hpack_Index
  imports Hpack_Evict
begin

section \<open>Indexing a header\<close>

text \<open>
  The invariant of the encoder's table and what \<open>Table::index\<close> answers under it: it never panics, its
  answer names an entry the decoder holds at that place, and what it inserts and evicts is what the
  decoder's table inserts and evicts.
\<close>

subsection \<open>The invariant\<close>

definition table_inv :: "name_hasher \<Rightarrow> enc_table \<Rightarrow> bool" where
  "table_inv hf t \<longleftrightarrow>
     (et_indices t = [] \<or> masked (et_mask t) (et_indices t) \<and> robin (et_indices t))
     \<and> tracked (- et_inserted t) (et_slots t) (et_indices t) \<and> hashed hf (et_slots t)
     \<and> (\<forall>s \<in> set (et_slots t). \<not> header_is_sensitive (sl_header s))
     \<and> et_size t = slots_size (et_slots t) \<and> et_size t \<le> et_max_size t \<and> et_max_size t \<le> 2 ^ 60
     \<and> length (et_slots t) \<le> et_capacity t"

text \<open>After \<open>reserve_one\<close>: room for one more.\<close>

definition table_room :: "name_hasher \<Rightarrow> enc_table \<Rightarrow> bool" where
  "table_room hf t \<longleftrightarrow> table_inv hf t \<and> masked (et_mask t) (et_indices t) \<and> robin (et_indices t)
     \<and> length (et_slots t) < et_capacity t"

lemma usable_lt: "0 < n \<Longrightarrow> usable_capacity n \<le> n"
  by (simp add: usable_capacity_def)

lemma table_room_inv: "table_room hf t \<Longrightarrow> table_inv hf t"
  by (simp add: table_room_def)

lemma heads_nonempty: "ss \<noteq> [] \<Longrightarrow> heads w ss \<noteq> []"
proof (induction ss arbitrary: w)
  case (Cons s ss) then show ?case by (cases "ss = []") auto
qed simp

lemma masked_capacity:
  assumes "masked m ix" shows "usable_capacity (length ix) < length ix"
  using masked_length [OF assms] by (simp add: usable_capacity_def)

lemma table_inv_none:
  assumes "table_inv hf t" and "masked (et_mask t) (et_indices t)"
  shows "None \<in># mset (et_indices t)"
  by (rule none_in [of _ "heads (- et_inserted t) (et_slots t)"])
    (use assms heads_bound [of "- et_inserted t" "et_slots t"] masked_capacity [OF assms(2)]
      in \<open>auto simp: table_inv_def tracked_def et_capacity_def\<close>)

lemma reserve_one_ok:
  assumes inv: "table_inv hf t"
  shows "\<exists>m ix. reserve_one t = Some (t\<lparr>et_mask := m, et_indices := ix\<rparr>)
    \<and> table_room hf (t\<lparr>et_mask := m, et_indices := ix\<rparr>)"
proof (cases "length (et_slots t) = et_capacity t")
  case False
  then have lt: "length (et_slots t) < et_capacity t" using inv by (simp add: table_inv_def)
  then have "et_indices t \<noteq> []" by (auto simp: et_capacity_def usable_capacity_def)
  moreover have "t\<lparr>et_mask := et_mask t, et_indices := et_indices t\<rparr> = t" by (cases t) simp
  ultimately show ?thesis
    using inv lt False
    by (intro exI [of _ "et_mask t"] exI [of _ "et_indices t"])
      (auto simp: reserve_one_def table_room_def table_inv_def)
next
  case full: True
  show ?thesis
  proof (cases "et_slots t = []")
    case True
    let ?new = "replicate 8 None :: pos option list"
    have "masked 7 ?new" unfolding masked_def length_replicate by (intro conjI exI [of _ 3]) simp_all
    moreover have "robin ?new" by (rule robin_empty) simp
    moreover have "filled ?new = {#}" by (simp add: filled_def)
    moreover have "usable_capacity (length (et_indices t)) = 0"
      using full True by (simp add: et_capacity_def)
    then have "et_indices t = []" by (cases "et_indices t") (simp_all add: usable_capacity_def)
    ultimately show ?thesis
      using inv full True
      by (intro exI [of _ 7] exI [of _ ?new])
        (simp add: reserve_one_def table_room_def table_inv_def tracked_def et_capacity_def
          usable_capacity_def)
  next
    case False
    let ?n = "length (et_indices t)"
    have ne: "et_indices t \<noteq> []" using False full by (auto simp: et_capacity_def usable_capacity_def)
    then have m: "masked (et_mask t) (et_indices t)" and r: "robin (et_indices t)"
      using inv by (simp_all add: table_inv_def)
    have n: "8 \<le> ?n" using masked_length [OF m] by simp
    have f: "filled (et_indices t) = mset (map Some (heads (- et_inserted t) (et_slots t)))"
      using inv by (simp add: table_inv_def tracked_def)
    obtain p where "p \<in> set (heads (- et_inserted t) (et_slots t))"
      using heads_nonempty [OF False, of "- et_inserted t"] by (meson list.set_sel(1))
    then have "Some p \<in># filled (et_indices t)" unfolding f by simp
    then have p: "Some p \<in># mset (et_indices t)" by (simp add: filled_def)
    have "32 * length (et_slots t) \<le> 2 ^ 60"
      using inv slots_size_ge [of "et_slots t"] by (simp add: table_inv_def)
    then have big: "2 * ?n \<le> 2 ^ 60" using full by (simp add: et_capacity_def usable_capacity_def)
    obtain ix where ix: "grow (2 * ?n) t = Some (t\<lparr>et_mask := 2 * ?n - 1, et_indices := ix\<rparr>)"
      "masked (2 * ?n - 1) ix" "robin ix" "length ix = 2 * ?n" "filled ix = filled (et_indices t)"
      using grow_ok [OF m r table_inv_none [OF inv m] p big] by (auto simp: filled_def)
    have "et_capacity t < usable_capacity (2 * ?n)"
      using n by (simp add: et_capacity_def usable_capacity_def)
    moreover have "tracked (- et_inserted t) (et_slots t) ix"
      using inv ix(5) by (simp add: table_inv_def tracked_def)
    moreover have "et_capacity t \<noteq> 0" using n by (simp add: et_capacity_def usable_capacity_def)
    ultimately show ?thesis
      using ix(1-4) inv full False
      by (intro exI [of _ "2 * ?n - 1"] exI [of _ ix])
        (simp add: reserve_one_def table_room_def table_inv_def et_capacity_def)
  qed
qed

lemma real_idx_of_nat:
  assumes "i < 2 ^ 64" shows "real_idx t (- et_inserted t + of_nat i) = i"
  using assms by (simp add: real_idx_def unat_of_nat)

lemma heads_oldest:
  "p \<in> set (heads w ss) \<Longrightarrow> \<exists>i < length ss. p = \<lparr>ps_index = w + of_nat i, ps_hash = sl_hash (ss ! i)\<rparr>
     \<and> (\<forall>j. i < j \<longrightarrow> j < length ss \<longrightarrow> sl_name (ss ! j) \<noteq> sl_name (ss ! i))"
proof (induction w ss rule: heads.induct)
  case (2 w s ss)
  show ?case
  proof (cases "p \<in> set (heads (w + 1) ss)")
    case True
    then obtain i where "i < length ss" "p = \<lparr>ps_index = w + 1 + of_nat i, ps_hash = sl_hash (ss ! i)\<rparr>"
      "\<forall>j. i < j \<longrightarrow> j < length ss \<longrightarrow> sl_name (ss ! j) \<noteq> sl_name (ss ! i)"
      using 2(1) by blast
    then show ?thesis by (intro exI [of _ "Suc i"]) (auto simp: add.assoc nth_Cons')
  next
    case False
    then have "p = \<lparr>ps_index = w, ps_hash = sl_hash s\<rparr>" "sl_name s \<notin> sl_name ` set ss"
      using 2(2) by (auto split: if_splits)
    moreover from this have "sl_name (ss ! j) \<noteq> sl_name s" if "j < length ss" for j
      using that by (metis image_eqI nth_mem)
    ultimately show ?thesis by (intro exI [of _ 0]) (auto simp: nth_Cons')
  qed
qed simp

lemma heads_name:
  "n \<in> sl_name ` set ss \<Longrightarrow> \<exists>i < length ss. sl_name (ss ! i) = n
     \<and> \<lparr>ps_index = w + of_nat i, ps_hash = sl_hash (ss ! i)\<rparr> \<in> set (heads w ss)"
proof (induction w ss rule: heads.induct)
  case (2 w s ss)
  show ?case
  proof (cases "n \<in> sl_name ` set ss")
    case True
    then obtain i where "i < length ss" "sl_name (ss ! i) = n"
      "\<lparr>ps_index = w + 1 + of_nat i, ps_hash = sl_hash (ss ! i)\<rparr> \<in> set (heads (w + 1) ss)"
      using 2(1) by auto
    then show ?thesis by (intro exI [of _ "Suc i"]) (auto simp: add.assoc)
  next
    case False
    then show ?thesis using 2(2) by (intro exI [of _ 0]) auto
  qed
qed simp

lemma table_inv_slots:
  assumes "table_inv hf t" shows "length (et_slots t) < 2 ^ 60"
  using assms slots_size_ge [of "et_slots t"] by (simp add: table_inv_def)

lemma table_inv_entry:
  assumes inv: "table_inv hf t" and p: "Some p \<in># mset (et_indices t)"
  shows "\<exists>i < length (et_slots t). ps_index p = - et_inserted t + of_nat i
    \<and> real_idx t (ps_index p) = i \<and> slot_at t i = Some (et_slots t ! i)
    \<and> (\<forall>j. i < j \<longrightarrow> j < length (et_slots t) \<longrightarrow> sl_name (et_slots t ! j) \<noteq> sl_name (et_slots t ! i))"
proof -
  have "Some p \<in># filled (et_indices t)" using p by (simp add: filled_def)
  then have "p \<in> set (heads (- et_inserted t) (et_slots t))"
    using inv by (auto simp: table_inv_def tracked_def)
  from heads_oldest [OF this] obtain i where i: "i < length (et_slots t)"
    "ps_index p = - et_inserted t + of_nat i"
    "\<forall>j. i < j \<longrightarrow> j < length (et_slots t) \<longrightarrow> sl_name (et_slots t ! j) \<noteq> sl_name (et_slots t ! i)"
    by auto
  moreover have "i < 2 ^ 64" using i(1) table_inv_slots [OF inv] by simp
  ultimately show ?thesis using real_idx_of_nat [of i t] by (auto simp: slot_at_def)
qed

lemma table_inv_name:
  assumes inv: "table_inv hf t" and n: "header_name_of h \<in> sl_name ` set (et_slots t)"
  shows "\<exists>p. Some p \<in># mset (et_indices t) \<and> matches t (header_name_of h) (hash_header hf h) p"
proof -
  obtain i where i: "i < length (et_slots t)" "sl_name (et_slots t ! i) = header_name_of h"
    "\<lparr>ps_index = - et_inserted t + of_nat i, ps_hash = sl_hash (et_slots t ! i)\<rparr>
      \<in> set (heads (- et_inserted t) (et_slots t))"
    using heads_name [OF n] by blast
  let ?p = "\<lparr>ps_index = - et_inserted t + of_nat i, ps_hash = sl_hash (et_slots t ! i)\<rparr>"
  have "Some ?p \<in># filled (et_indices t)" using inv i(3) by (auto simp: table_inv_def tracked_def)
  then have "Some ?p \<in># mset (et_indices t)" by (simp add: filled_def)
  moreover have "i < 2 ^ 64" using i(1) table_inv_slots [OF inv] by simp
  moreover have "sl_hash (et_slots t ! i) = hash_header hf h"
    using inv i(1,2) hash_header_name unfolding table_inv_def hashed_def sl_name_def
    by (metis nth_mem)
  ultimately show ?thesis
    using i(1,2) real_idx_of_nat [of i t]
    by (intro exI [of _ ?p]) (simp add: matches_def slot_at_def sl_name_def)
qed

subsection \<open>A new name\<close>

lemma last_of_push:
  "last_of w (x # ss) n =
    (case last_of (w + 1) ss n of Some y \<Rightarrow> Some y | None \<Rightarrow> if sl_name x = n then Some w else None)"
  by simp

lemma linked_push_new:
  assumes "linked (w + 1) ss" and "sl_name x \<notin> sl_name ` set ss" and "sl_next x = None"
  shows "linked w (x # ss)"
  unfolding linked_def
proof (intro allI impI)
  fix i assume i: "i < length (x # ss)"
  show "sl_next ((x # ss) ! i) = last_of w (take i (x # ss)) (sl_name ((x # ss) ! i))"
  proof (cases i)
    case (Suc j)
    then have "j < length ss" using i by simp
    moreover from this have "sl_name x \<noteq> sl_name (ss ! j)" using assms(2) by (metis image_eqI nth_mem)
    ultimately show ?thesis using assms(1) Suc by (simp add: linked_def split: option.split)
  qed (simp add: assms(3))
qed

lemma filled_place:
  assumes "mset ix' = add_mset (Some x) (mset ix - {#None#})"
  shows "filled ix' = add_mset (Some x) (filled ix)"
  using assms by (simp add: filled_def)

text \<open>What an insertion does to the mirror.\<close>

lemma mirror_insert:
  assumes "table_reserve len (mirror mx ss) = mirror mx ss'" and "len = header_len (fst h)"
    and "slots_size ss' + len \<le> mx"
  shows "table_insert (fst h) (mirror mx ss)
    = mirror mx (\<lparr>sl_hash = x, sl_header = h, sl_next = y\<rparr> # ss')"
  using assms by (simp add: table_insert_def mirror_def Let_def)

lemma map_link_at:
  assumes "\<And>s. f (s\<lparr>sl_next := Some x\<rparr>) = f s"
  shows "map f (link_at r x ss) = map f ss"
proof (cases "r < length ss")
  case True
  then show ?thesis by (intro nth_equalityI) (auto simp: link_at_def nth_list_update assms)
qed simp

lemma slots_size_link_at [simp]: "slots_size (link_at r x ss) = slots_size ss"
  unfolding slots_size_def by (subst map_link_at) simp_all

lemma mirror_link_at [simp]: "mirror mx (s # link_at r x ss) = mirror mx (s # ss)"
  unfolding mirror_def by (simp add: map_link_at)

subsection \<open>Inserting a new name\<close>

lemma index_vacant_ok:
  assumes room: "table_room hf t" and hash: "hash = hash_header hf (fst h)"
    and sens: "\<not> header_is_sensitive h" and len: "header_len (fst h) \<le> et_max_size t"
    and fit: "\<And>x. ps_hash x = hash \<Longrightarrow> away (length (et_indices t)) x i = c \<and> fits (et_indices t) x i"
    and occ: "\<And>y. at (et_indices t) i = Some y \<Longrightarrow> away (length (et_indices t)) y i < c"
    and new: "header_name_of (fst h) \<notin> sl_name ` set (et_slots t)"
  shows "\<exists>t' ss. index_vacant h hash c (i mod length (et_indices t)) statik t
      = Some (t', case statik of Some (n, _) \<Rightarrow> IxInsertedValue n 0 | None \<Rightarrow> IxInserted 0)
    \<and> table_inv hf t' \<and> et_max_size t' = et_max_size t
    \<and> et_slots t' = \<lparr>sl_hash = hash, sl_header = h, sl_next = None\<rparr> # ss
    \<and> mirror (et_max_size t) (et_slots t') = table_insert (fst h) (mirror (et_max_size t) (et_slots t))"
proof -
  let ?n = "length (et_indices t)" and ?ins = "et_inserted t" and ?len = "header_len (fst h)"
  let ?x = "\<lparr>ps_index = - (?ins + 1), ps_hash = hash\<rparr>"
  let ?new = "\<lparr>sl_hash = hash, sl_header = h, sl_next = None\<rparr>"
  have inv: "table_inv hf t" and m: "masked (et_mask t) (et_indices t)" and r: "robin (et_indices t)"
    and cap: "length (et_slots t) < et_capacity t" using room by (simp_all add: table_room_def)
  have n: "8 \<le> ?n" using masked_length [OF m] by simp
  obtain ss ix ev gone where c: "update_size ?len None t
        = Some (t\<lparr>et_slots := ss, et_size := slots_size ss + ?len, et_indices := ix\<rparr>, ev)"
    "et_slots t = ss @ gone" "slots_size ss + ?len \<le> et_max_size t"
    "table_reserve ?len (mirror (et_max_size t) (et_slots t)) = mirror (et_max_size t) ss"
    "robin ix" "length ix = ?n" "below ix (et_indices t)" "tracked (- ?ins) ss ix"
    "\<not> ev \<longrightarrow> ix = et_indices t"
    using update_size_ok [of t None hf ?len] inv m r len cap masked_capacity [OF m]
    by (simp add: vprev_def vbase_def vslots_def pending_ok_def table_inv_def et_capacity_def) metis
  have mix: "masked (et_mask t) ix" using m c(6) by (simp add: masked_def)
  have "\<exists>d j. (if ev then vacant_back (et_mask t) ix c (i mod ?n) else Some (c, i mod ?n))
      = Some (d, j mod ?n) \<and> fits ix ?x j"
  proof (cases ev)
    case True
    have "away ?n y i \<le> c" if "at ix i = Some y" for y
      using c(7) that occ unfolding below_def by (metis le_trans less_imp_le)
    then show ?thesis
      using vacant_back_ok [OF mix, of ?x i c] fit [of ?x] True c(6) by auto
  next
    case False then show ?thesis using fit [of ?x] c(9) by auto
  qed
  then obtain d j where bk: "(if ev then vacant_back (et_mask t) ix c (i mod ?n) else Some (c, i mod ?n))
      = Some (d, j mod ?n)" and fj: "fits ix ?x j" by auto
  have ln: "length ss \<le> length (et_slots t)" by (simp add: c(2))
  have "None \<in># mset ix"
    by (rule none_in [of _ "heads (- ?ins) ss"])
      (use c(6,8) ln cap heads_bound [of "- ?ins" ss] masked_capacity [OF m]
        in \<open>auto simp: tracked_def et_capacity_def\<close>)
  from place_pos_ok [OF c(5) fj this] n obtain ix' where ix': "place_pos ?x (j mod ?n) ix = Some ix'"
    "robin ix'" "length ix' = ?n" "mset ix' = add_mset (Some ?x) (mset ix - {#None#})"
    using c(6) by auto
  let ?t' = "t\<lparr>et_slots := ?new # ss, et_size := slots_size ss + ?len, et_inserted := ?ins + 1,
    et_indices := ix'\<rparr>"
  have run: "index_vacant h hash c (i mod ?n) statik t
      = Some (?t', case statik of Some (n, _) \<Rightarrow> IxInsertedValue n 0 | None \<Rightarrow> IxInserted 0)"
    using sens c(1) bk ix'(1) by (cases ev) (simp_all add: index_vacant_def et_insert_def Let_def)
  have nn: "sl_name ?new \<notin> sl_name ` set ss" using new c(2) by (auto simp: sl_name_def)
  have w: "- (?ins + 1) + 1 = - ?ins" by simp
  have "linked (- (?ins + 1)) (?new # ss)"
    by (rule linked_push_new) (use c(8) nn w in \<open>simp_all add: tracked_def\<close>)
  moreover have "filled ix' = mset (map Some (heads (- (?ins + 1)) (?new # ss)))"
    unfolding filled_place [OF ix'(4)] using c(8) nn w by (simp add: tracked_def)
  ultimately have "tracked (- (?ins + 1)) (?new # ss) ix'" by (simp add: tracked_def)
  then have "table_inv hf ?t'"
    using inv m ix'(2,3) c(2,3) sens hash ln cap
    by (auto simp: table_inv_def hashed_def masked_def et_capacity_def)
  moreover have "mirror (et_max_size t) (?new # ss) = table_insert (fst h) (mirror (et_max_size t) (et_slots t))"
    using mirror_insert [OF c(4) refl c(3)] by simp
  ultimately show ?thesis using run by (intro exI [of _ ?t'] exI [of _ ss]) simp
qed

subsection \<open>Along a chain\<close>

lemma occupied_walk_ok:
  assumes inv: "linked (- et_inserted t) (et_slots t)" and b: "length (et_slots t) < 2 ^ 60"
  shows "i < length (et_slots t) \<Longrightarrow>
    \<exists>j found. occupied_walk t h (- et_inserted t + of_nat i) = Some (- et_inserted t + of_nat j, found)
      \<and> j \<le> i \<and> sl_name (et_slots t ! j) = sl_name (et_slots t ! i)
      \<and> (found \<longrightarrow> header_value_eq (fst (sl_header (et_slots t ! j))) h)
      \<and> (\<not> found \<longrightarrow> sl_next (et_slots t ! j) = None
           \<and> (\<forall>k \<le> i. sl_name (et_slots t ! k) = sl_name (et_slots t ! i)
                \<longrightarrow> \<not> header_value_eq (fst (sl_header (et_slots t ! k))) h))"
proof (induction i rule: less_induct)
  case (less i)
  let ?s = "et_slots t ! i" and ?w = "- et_inserted t"
  have at: "slot_at t (real_idx t (?w + of_nat i)) = Some ?s"
    using less.prems b real_idx_of_nat [of i t] by (simp add: slot_at_def)
  have nx: "sl_next ?s = last_of ?w (take i (et_slots t)) (sl_name ?s)"
    using inv less.prems by (simp add: linked_def)
  show ?case
  proof (cases "header_value_eq (fst (sl_header ?s)) h")
    case True
    then have "occupied_walk t h (?w + of_nat i) = Some (?w + of_nat i, True)"
      using at by (subst occupied_walk.simps) simp
    then show ?thesis using True by (intro exI [of _ i] exI [of _ True]) simp
  next
    case no: False
    show ?thesis
    proof (cases "sl_next ?s")
      case None
      then have "sl_name ?s \<notin> sl_name ` set (take i (et_slots t))" using nx last_of_None by metis
      then have "sl_name (et_slots t ! k) \<noteq> sl_name ?s" if "k < i" for k
        using that less.prems
        by (metis (no_types, lifting) image_eqI in_set_conv_nth length_take min.absorb4 nth_take)
      then have "\<forall>k \<le> i. sl_name (et_slots t ! k) = sl_name ?s
          \<longrightarrow> \<not> header_value_eq (fst (sl_header (et_slots t ! k))) h"
        using no by (metis le_neq_implies_less)
      moreover have "occupied_walk t h (?w + of_nat i) = Some (?w + of_nat i, False)"
        using at no None by (subst occupied_walk.simps) simp
      ultimately show ?thesis using None by (intro exI [of _ i] exI [of _ False]) simp
    next
      case (Some x)
      then have "last_of ?w (take i (et_slots t)) (sl_name ?s) = Some x" using nx by simp
      from last_of_index [OF this] less.prems obtain i' where i': "i' < i" "x = ?w + of_nat i'"
        "sl_name (et_slots t ! i') = sl_name ?s"
        and gap: "\<And>k. i' < k \<Longrightarrow> k < i \<Longrightarrow> sl_name (et_slots t ! k) \<noteq> sl_name ?s" by auto
      have step: "occupied_walk t h (?w + of_nat i) = occupied_walk t h (?w + of_nat i')"
        using at no Some i'(2) by (subst occupied_walk.simps) simp
      obtain j found where j: "occupied_walk t h (?w + of_nat i') = Some (?w + of_nat j, found)"
        "j \<le> i'" "sl_name (et_slots t ! j) = sl_name ?s"
        "found \<longrightarrow> header_value_eq (fst (sl_header (et_slots t ! j))) h"
        and none: "\<not> found \<longrightarrow> sl_next (et_slots t ! j) = None
           \<and> (\<forall>k \<le> i'. sl_name (et_slots t ! k) = sl_name ?s
                \<longrightarrow> \<not> header_value_eq (fst (sl_header (et_slots t ! k))) h)"
        using less.IH [OF i'(1)] i' less.prems by auto
      have "\<forall>k \<le> i. sl_name (et_slots t ! k) = sl_name ?s
          \<longrightarrow> \<not> header_value_eq (fst (sl_header (et_slots t ! k))) h" if "\<not> found"
        using none that gap no by (metis le_neq_implies_less linorder_not_le)
      then show ?thesis using step j none i'(1) by (intro exI [of _ j] exI [of _ found]) auto
    qed
  qed
qed

lemma heads_cong:
  "map (\<lambda>s. (sl_name s, sl_hash s)) ss = map (\<lambda>s. (sl_name s, sl_hash s)) ss' \<Longrightarrow> heads w ss = heads w ss'"
proof (induction ss arbitrary: w ss')
  case (Cons s ss)
  then obtain s' ss1 where c: "ss' = s' # ss1" "sl_name s = sl_name s'" "sl_hash s = sl_hash s'"
    "map (\<lambda>s. (sl_name s, sl_hash s)) ss = map (\<lambda>s. (sl_name s, sl_hash s)) ss1" by auto
  then have "map fst (map (\<lambda>s. (sl_name s, sl_hash s)) ss) = map fst (map (\<lambda>s. (sl_name s, sl_hash s)) ss1)"
    by simp
  then have "map sl_name ss = map sl_name ss1" by (simp add: comp_def)
  then have "sl_name ` set ss = sl_name ` set ss1" by (metis set_map)
  then show ?case using Cons.IH [OF c(4)] c(1-3) by simp
qed simp

lemma last_of_cong: "map sl_name ss = map sl_name ss' \<Longrightarrow> last_of w ss n = last_of w ss' n"
proof (induction ss arbitrary: w ss')
  case (Cons s ss)
  then obtain s' ss1 where "ss' = s' # ss1" "sl_name s = sl_name s'" "map sl_name ss = map sl_name ss1"
    by auto
  then show ?case using Cons.IH [of ss1] by simp
qed simp

lemma map_link_at_simps [simp]:
  "map sl_name (link_at r x ss) = map sl_name ss" "map sl_hash (link_at r x ss) = map sl_hash ss"
  "map (\<lambda>s. (sl_name s, sl_hash s)) (link_at r x ss) = map (\<lambda>s. (sl_name s, sl_hash s)) ss"
  by (rule map_link_at; simp add: sl_name_def)+

lemma heads_push_old:
  assumes "sl_name x \<in> sl_name ` set ss"
  shows "heads w (x # link_at r y ss) = heads (w + 1) ss"
proof -
  have "sl_name ` set (link_at r y ss) = sl_name ` set ss"
    by (metis map_link_at_simps(1) set_map)
  moreover have "heads (w + 1) (link_at r y ss) = heads (w + 1) ss" by (rule heads_cong) simp
  ultimately show ?thesis using assms by simp
qed

lemma linked_push_old:
  assumes l: "linked (w + 1) ss" and r: "r < length ss" "sl_name (ss ! r) = sl_name x"
    and nx: "sl_next (ss ! r) = None" and x: "sl_next x = None"
  shows "linked w (x # link_at r w ss)"
  unfolding linked_def
proof (intro allI impI)
  fix i assume i: "i < length (x # link_at r w ss)"
  show "sl_next ((x # link_at r w ss) ! i)
    = last_of w (take i (x # link_at r w ss)) (sl_name ((x # link_at r w ss) ! i))"
  proof (cases i)
    case (Suc j)
    then have j: "j < length ss" using i by simp
    have n: "sl_name (link_at r w ss ! j) = sl_name (ss ! j)"
      using j by (metis length_map map_link_at_simps(1) nth_map)
    have "map sl_name (take j (link_at r w ss)) = map sl_name (take j ss)"
      by (metis map_link_at_simps(1) take_map)
    then have lo: "last_of (w + 1) (take j (link_at r w ss)) m = last_of (w + 1) (take j ss) m" for m
      by (rule last_of_cong)
    have lj: "sl_next (ss ! j) = last_of (w + 1) (take j ss) (sl_name (ss ! j))"
      using l j by (simp add: linked_def)
    have first: "last_of (w + 1) (take r ss) (sl_name x) = None"
      using l r nx by (simp add: linked_def)
    show ?thesis
    proof (cases "j = r")
      case True
      then show ?thesis
        using Suc n lo first r by (simp add: link_at_def)
    next
      case False
      then have e: "link_at r w ss ! j = ss ! j" by (simp add: link_at_def)
      have "sl_name x \<noteq> sl_name (ss ! j)" if none: "last_of (w + 1) (take j ss) (sl_name (ss ! j)) = None"
      proof
        assume same: "sl_name x = sl_name (ss ! j)"
        show False
        proof (cases "r < j")
          case True
          then have "ss ! r \<in> set (take j ss)" using j by (metis in_set_conv_nth length_take min.absorb4 nth_take)
          then show False using none same r(2) last_of_None by (metis image_eqI)
        next
          case F: False
          then have "j < r" using False by simp
          then have "ss ! j \<in> set (take r ss)" using r(1) by (metis in_set_conv_nth length_take min.absorb4 nth_take)
          then show False using first same last_of_None by (metis image_eqI)
        qed
      qed
      then show ?thesis using Suc e lo lj by (simp split: option.split)
    qed
  qed (simp add: x)
qed

lemma header_eq_iff:
  "header_name_of a = header_name_of b \<Longrightarrow> header_value_eq a b \<longleftrightarrow> a = b"
  by (cases a; cases b) auto

definition headers_of :: "slot list \<Rightarrow> hpack_header list" where
  "headers_of ss = map (\<lambda>s. fst (sl_header s)) ss"

lemma mirror_entries [simp]: "ht_entries (mirror mx ss) = headers_of ss"
  by (simp add: mirror_def headers_of_def)

subsection \<open>Inserting under a known name\<close>

lemma insert_known_ok:
  assumes room: "table_room hf t" and hash: "hash = hash_header hf (fst h)"
    and sens: "\<not> header_is_sensitive h" and len: "header_len (fst h) \<le> et_max_size t"
    and r: "r < length (et_slots t)" "sl_name (et_slots t ! r) = header_name_of (fst h)"
    and nx: "sl_next (et_slots t ! r) = None"
  shows "\<exists>t1 ev ss t'. update_size (header_len (fst h)) (Some (- et_inserted t + of_nat r)) t = Some (t1, ev)
    \<and> link_newest (- et_inserted t + of_nat r) (et_insert h hash t1) = t'
    \<and> table_inv hf t' \<and> et_max_size t' = et_max_size t
    \<and> et_slots t' = \<lparr>sl_hash = hash, sl_header = h, sl_next = None\<rparr> # ss
    \<and> mirror (et_max_size t) (et_slots t') = table_insert (fst h) (mirror (et_max_size t) (et_slots t))"
proof -
  let ?ins = "et_inserted t" and ?len = "header_len (fst h)" and ?w = "- (et_inserted t + 1)"
  let ?new = "\<lparr>sl_hash = hash, sl_header = h, sl_next = None\<rparr>"
  let ?pr = "Some (?new, r)"
  have inv: "table_inv hf t" and m: "masked (et_mask t) (et_indices t)" and rb: "robin (et_indices t)"
    and cap: "length (et_slots t) < et_capacity t" using room by (simp_all add: table_room_def)
  have b: "length (et_slots t) < 2 ^ 60" by (rule table_inv_slots [OF inv])
  have nm: "sl_name ?new \<in> sl_name ` set (et_slots t)"
    using r by (metis (no_types, lifting) image_eqI nth_mem sl_name_def slot.select_convs(2))
  have w: "?w + 1 = - ?ins" by simp
  have "linked ?w (?new # link_at r ?w (et_slots t))"
    by (rule linked_push_old) (use inv r nx w in \<open>simp_all add: table_inv_def tracked_def sl_name_def\<close>)
  then have tr: "tracked (vbase ?pr ?ins) (vslots ?pr ?ins (et_slots t)) (et_indices t)"
    using inv heads_push_old [OF nm, of ?w r ?w] w
    by (simp add: table_inv_def tracked_def vbase_def vslots_def)
  have hd: "hashed hf (vslots ?pr ?ins (et_slots t))"
    using inv hash hashed_link_at [of hf r ?w "et_slots t"]
    unfolding vslots_def table_inv_def by (simp add: hashed_def)
  have po: "pending_ok ?pr (et_slots t)" using r(1) nx b by (simp add: pending_ok_def)
  have cp: "length (vslots ?pr ?ins (et_slots t)) < length (et_indices t)"
    using cap masked_capacity [OF m] by (simp add: length_vslots et_capacity_def)
  have sz: "et_size t = slots_size (et_slots t)" using inv by (simp add: table_inv_def)
  obtain ss ix ev gone where c: "update_size ?len (vprev ?pr ?ins) t
        = Some (t\<lparr>et_slots := ss, et_size := slots_size ss + ?len, et_indices := ix\<rparr>, ev)"
    "et_slots t = ss @ gone" "slots_size ss + ?len \<le> et_max_size t"
    "table_reserve ?len (mirror (et_max_size t) (et_slots t)) = mirror (et_max_size t) ss"
    "robin ix" "length ix = length (et_indices t)" "below ix (et_indices t)"
    "tracked (vbase ?pr ?ins) (vslots ?pr ?ins ss) ix"
    by (rule update_size_ok [OF m rb tr hd po cp sz len]) blast
  have ln: "length ss \<le> length (et_slots t)" by (simp add: c(2))
  let ?t1 = "t\<lparr>et_slots := ss, et_size := slots_size ss + ?len, et_indices := ix\<rparr>"
  let ?t' = "t\<lparr>et_slots := ?new # link_at r ?w ss, et_size := slots_size ss + ?len,
    et_inserted := ?ins + 1, et_indices := ix\<rparr>"
  have "real_idx (et_insert h hash ?t1) (- ?ins + of_nat r) = unat (of_nat (Suc r) :: 64 word)"
    by (simp add: real_idx_def et_insert_def add.commute)
  also have "\<dots> = Suc r" using r(1) b by (simp only: unsigned_of_nat) (simp add: take_bit_nat_eq_self)
  finally have ri: "real_idx (et_insert h hash ?t1) (- ?ins + of_nat r) = Suc r" .
  have lk: "link_newest (- ?ins + of_nat r) (et_insert h hash ?t1) = ?t'"
    unfolding link_newest_def ri Let_def by (auto simp: et_insert_def link_at_def list_update_beyond)
  have up: "update_size ?len (Some (- ?ins + of_nat r)) t = Some (?t1, ev)"
    using c(1) by (simp add: vprev_def add.commute)
  have "hashed hf ss" using inv c(2) by (simp add: table_inv_def)
  then have hs: "hashed hf (?new # link_at r ?w ss)"
    using hash hashed_link_at [of hf r ?w ss] by (simp add: hashed_def)
  have ns: "\<not> header_is_sensitive (sl_header s)" if "s \<in> set (link_at r ?w ss)" for s
  proof -
    have "sl_header s \<in> set (map sl_header (link_at r ?w ss))" using that by auto
    also have "map sl_header (link_at r ?w ss) = map sl_header ss" by (rule map_link_at) simp
    finally show ?thesis using inv c(2) by (auto simp: table_inv_def)
  qed
  have "table_inv hf ?t'"
    using inv m c(3,5,6,8) hs ns sens ln cap
    by (auto simp: table_inv_def masked_def et_capacity_def vbase_def vslots_def)
  moreover have "mirror (et_max_size t) (?new # link_at r ?w ss)
      = table_insert (fst h) (mirror (et_max_size t) (et_slots t))"
    using mirror_insert [OF c(4) refl c(3)] by simp
  ultimately show ?thesis
    using up lk
    by (intro exI [of _ ?t1] exI [of _ ev] exI [of _ "link_at r ?w ss"] exI [of _ ?t']) simp
qed

subsection \<open>The answer\<close>

text \<open>
  What an answer means for a decoder whose table is \<open>d\<close> before and \<open>d'\<close> after: a reference finds
  the header or its name, an insertion is the one the decoder makes.
\<close>

definition index_ok :: "hpack_table \<Rightarrow> hpack_table \<Rightarrow> enc_header \<Rightarrow> index \<Rightarrow> bool" where
  "index_ok d d' h ix =
     (case ix of
        IxIndexed n e \<Rightarrow> e = h \<and> d' = d \<and> table_get n d = Inr (fst h)
      | IxName n e \<Rightarrow> e = h \<and> d' = d
          \<and> (\<exists>e'. table_get n d = Inr e' \<and> header_name_of e' = header_name_of (fst h))
      | IxInserted k \<Rightarrow> k = 0 \<and> d' = table_insert (fst h) d \<and> \<not> header_is_sensitive h
      | IxInsertedValue n k \<Rightarrow> k = 0 \<and> d' = table_insert (fst h) d \<and> \<not> header_is_sensitive h
          \<and> (\<exists>e'. table_get n d = Inr e' \<and> header_name_of e' = header_name_of (fst h))
      | IxNotIndexed e \<Rightarrow> e = h \<and> d' = d)"

definition static_ok :: "hpack_header \<Rightarrow> (usize \<times> bool) option \<Rightarrow> bool" where
  "static_ok h statik \<longleftrightarrow>
     (\<forall>n b. statik = Some (n, b) \<longrightarrow> 1 \<le> n \<and> n \<le> 61 \<and> header_name_of (get_static n) = header_name_of h
        \<and> (b \<longrightarrow> get_static n = h))"

lemma static_fields_ok:
  "\<forall>(n, i) \<in> set static_fields. 1 \<le> i \<and> i \<le> 61 \<and> header_name_of (get_static i) = NField n"
  by code_simp

lemma index_static_ok: "static_ok h (index_static h)"
proof (cases h)
  case (HField n v)
  show ?thesis
  proof (cases "n = ''accept-encoding''")
    case True
    have "get_static 16 = HField ''accept-encoding'' (ascii ''gzip, deflate'')" by code_simp
    then show ?thesis using HField True by (auto simp: static_ok_def index_static_def)
  next
    case False
    show ?thesis
    proof (cases "map_of static_fields n")
      case None then show ?thesis using HField False by (simp add: static_ok_def index_static_def)
    next
      case (Some i)
      then have "(n, i) \<in> set static_fields" by (rule map_of_SomeD)
      then show ?thesis
        using static_fields_ok HField False Some by (fastforce simp: static_ok_def index_static_def)
    qed
  qed
next
  case (HAuthority v)
  have "get_static 1 = HAuthority []" by code_simp
  then show ?thesis using HAuthority by (simp add: static_ok_def index_static_def)
next
  case (HMethod v)
  have "get_static 2 = HMethod ''GET''" "get_static 3 = HMethod ''POST''" by code_simp+
  then show ?thesis using HMethod by (auto simp: static_ok_def index_static_def split: if_splits)
next
  case (HScheme v)
  have "get_static 6 = HScheme ''http''" "get_static 7 = HScheme ''https''" by code_simp+
  then show ?thesis using HScheme by (auto simp: static_ok_def index_static_def split: if_splits)
next
  case (HPath v)
  have "get_static 4 = HPath ''/''" "get_static 5 = HPath ''/index.html''" by code_simp+
  then show ?thesis using HPath by (auto simp: static_ok_def index_static_def split: if_splits)
next
  case (HProtocol v)
  then show ?thesis by (simp add: static_ok_def index_static_def)
next
  case (HStatus v)
  have "get_static 8 = HStatus 200" "get_static 9 = HStatus 204" "get_static 10 = HStatus 206"
    "get_static 11 = HStatus 304" "get_static 12 = HStatus 400" "get_static 13 = HStatus 404"
    "get_static 14 = HStatus 500" by code_simp+
  then show ?thesis using HStatus by (auto simp: static_ok_def index_static_def split: if_splits)
qed

lemma table_get_static: "1 \<le> n \<Longrightarrow> n \<le> 61 \<Longrightarrow> table_get n d = Inr (get_static n)"
  by (simp add: table_get_def)

lemma table_get_dynamic:
  "i < length (ht_entries d) \<Longrightarrow> table_get (i + DYN_OFFSET) d = Inr (ht_entries d ! i)"
  by (simp add: table_get_def DYN_OFFSET_def)

lemma index_new_ok: "static_ok (fst h) statik \<Longrightarrow> index_ok d d h (index_new statik h)"
  by (auto simp: index_ok_def index_new_def static_ok_def table_get_static
      split: option.split bool.split)

definition of_table :: "enc_table \<Rightarrow> hpack_table" where
  "of_table t = mirror (et_max_size t) (et_slots t)"

definition index_good :: "name_hasher \<Rightarrow> enc_table \<Rightarrow> enc_table \<Rightarrow> enc_header \<Rightarrow> index \<Rightarrow> bool" where
  "index_good hf t t' h ix \<longleftrightarrow>
     table_inv hf t' \<and> et_max_size t' = et_max_size t \<and> index_ok (of_table t) (of_table t') h ix
     \<and> et_resolve t' ix = Some h"

lemma index_good_same:
  assumes "table_inv hf t" and "index_ok (of_table t) (of_table t) h ix"
    and "\<And>k. ix \<noteq> IxInserted k" and "\<And>n k. ix \<noteq> IxInsertedValue n k"
  shows "index_good hf t t h ix"
  using assms by (cases ix) (auto simp: index_good_def index_ok_def et_resolve_def)

lemma index_new_good:
  assumes "table_inv hf t" and "static_ok (fst h) statik"
  shows "index_good hf t t h (index_new statik h)"
  by (rule index_good_same [OF assms(1) index_new_ok [OF assms(2)]])
    (simp_all add: index_new_def split: option.split bool.split)

lemma of_table_get:
  "r < length (et_slots t) \<Longrightarrow> table_get (r + DYN_OFFSET) (of_table t) = Inr (fst (sl_header (et_slots t ! r)))"
  by (simp add: of_table_def table_get_dynamic headers_of_def)

lemma index_occupied_ok:
  assumes inv: "table_inv hf t" and p: "Some p \<in># mset (et_indices t)"
    and mt: "matches t (header_name_of (fst h)) hash p" and hash: "hash = hash_header hf (fst h)"
    and st: "static_ok (fst h) statik"
    and room: "\<not> header_is_sensitive h \<longrightarrow> table_room hf t \<and> header_len (fst h) \<le> et_max_size t"
  shows "\<exists>t' ix. index_occupied h hash (ps_index p) (map_option fst statik) t = Some (t', ix)
    \<and> index_good hf t t' h ix
    \<and> (fst h \<in> set (headers_of (et_slots t)) \<longrightarrow> (\<exists>n. ix = IxIndexed n h))"
proof -
  let ?ss = "et_slots t" and ?w = "- et_inserted t"
  have b: "length ?ss < 2 ^ 60" by (rule table_inv_slots [OF inv])
  obtain i where i: "i < length ?ss" "ps_index p = ?w + of_nat i" "real_idx t (ps_index p) = i"
    "slot_at t i = Some (?ss ! i)"
    and oldest: "\<And>j. i < j \<Longrightarrow> j < length ?ss \<Longrightarrow> sl_name (?ss ! j) \<noteq> sl_name (?ss ! i)"
    using table_inv_entry [OF inv p] by auto
  have ni: "sl_name (?ss ! i) = header_name_of (fst h)"
    using mt i(3,4) by (simp add: matches_def sl_name_def)
  obtain r found where walk: "occupied_walk t (fst h) (ps_index p) = Some (?w + of_nat r, found)"
    and r: "r \<le> i" "sl_name (?ss ! r) = header_name_of (fst h)"
    and yes: "found \<longrightarrow> header_value_eq (fst (sl_header (?ss ! r))) (fst h)"
    and no: "\<not> found \<longrightarrow> sl_next (?ss ! r) = None
       \<and> (\<forall>k \<le> i. sl_name (?ss ! k) = header_name_of (fst h)
            \<longrightarrow> \<not> header_value_eq (fst (sl_header (?ss ! k))) (fst h))"
    using occupied_walk_ok [OF _ b i(1), of "fst h"] inv i(2) ni
    by (auto simp: table_inv_def tracked_def)
  have rl: "r < length ?ss" using r(1) i(1) by simp
  have rr: "real_idx t (?w + of_nat r) = r" using real_idx_of_nat [of r t] rl b by simp
  have rn: "header_name_of (fst (sl_header (?ss ! r))) = header_name_of (fst h)"
    using r(2) by (simp add: sl_name_def)
  have absent: "fst h \<notin> set (headers_of ?ss)" if "\<not> found"
  proof
    assume "fst h \<in> set (headers_of ?ss)"
    then obtain k where k: "k < length ?ss" "fst (sl_header (?ss ! k)) = fst h"
      by (auto simp: headers_of_def in_set_conv_nth)
    then have "k \<le> i" using oldest [of k] ni by (force simp: sl_name_def)
    then show False
      using no that k header_eq_iff [of "fst (sl_header (?ss ! k))" "fst h"] by (auto simp: sl_name_def)
  qed
  show ?thesis
  proof (cases found)
    case True
    then have "fst (sl_header (?ss ! r)) = fst h" using yes header_eq_iff [OF rn] by simp
    then have "index_ok (of_table t) (of_table t) h (IxIndexed (r + DYN_OFFSET) h)"
      using of_table_get [OF rl] by (simp add: index_ok_def)
    then have "index_good hf t t h (IxIndexed (r + DYN_OFFSET) h)" by (intro index_good_same inv) simp_all
    then show ?thesis using walk True rr by (simp add: index_occupied_def)
  next
    case nf: False
    show ?thesis
    proof (cases "header_is_sensitive h")
      case True
      have "index_ok (of_table t) (of_table t) h (IxName (r + DYN_OFFSET) h)"
        using of_table_get [OF rl] rn by (simp add: index_ok_def)
      then have "index_good hf t t h (IxName (r + DYN_OFFSET) h)" by (intro index_good_same inv) simp_all
      then show ?thesis using walk nf rr True absent by (simp add: index_occupied_def)
    next
      case False
      have rm: "table_room hf t" "header_len (fst h) \<le> et_max_size t" using room False by simp_all
      have nx: "sl_next (?ss ! r) = None" using no nf by simp
      from insert_known_ok [OF rm(1) hash False rm(2) rl r(2) nx]
      obtain t1 ev ss t' where u: "update_size (header_len (fst h)) (Some (?w + of_nat r)) t = Some (t1, ev)"
        and link: "link_newest (?w + of_nat r) (et_insert h hash t1) = t'"
        and t': "table_inv hf t'" "et_max_size t' = et_max_size t"
          "et_slots t' = \<lparr>sl_hash = hash, sl_header = h, sl_next = None\<rparr> # ss"
          "mirror (et_max_size t) (et_slots t') = table_insert (fst h) (mirror (et_max_size t) (et_slots t))"
        by blast
      let ?n = "case map_option fst statik of Some n \<Rightarrow> n | None \<Rightarrow> r + DYN_OFFSET"
      have "\<exists>e'. table_get ?n (of_table t) = Inr e' \<and> header_name_of e' = header_name_of (fst h)"
        using st of_table_get [OF rl] rn by (cases statik) (auto simp: static_ok_def table_get_static)
      then have "index_ok (of_table t) (of_table t') h (IxInsertedValue ?n 0)"
        using t'(2,4) False by (simp add: index_ok_def of_table_def)
      moreover have "slot_at t' 0 = Some \<lparr>sl_hash = hash, sl_header = h, sl_next = None\<rparr>"
        by (simp add: slot_at_def t'(3))
      ultimately have "index_good hf t t' h (IxInsertedValue ?n 0)"
        using t'(1,2) by (simp add: index_good_def et_resolve_def)
      moreover have "index_occupied h hash (ps_index p) (map_option fst statik) t
          = Some (t', IxInsertedValue ?n 0)"
        using walk nf rr False u link by (cases statik) (simp_all add: index_occupied_def Let_def)
      ultimately show ?thesis using absent [OF nf] by blast
    qed
  qed
qed

lemma index_dynamic_ok:
  assumes inv: "table_inv hf t" and st: "static_ok (fst h) statik"
    and len: "header_len (fst h) \<le> et_max_size t"
  shows "\<exists>t' ix. index_dynamic hf h statik t = Some (t', ix) \<and> index_good hf t t' h ix
    \<and> (fst h \<in> set (headers_of (et_slots t)) \<longrightarrow> (\<exists>n. ix = IxIndexed n h))"
proof -
  obtain t1 where t1: "(if header_len (fst h) + et_size t < et_max_size t \<or> \<not> header_is_sensitive h
      then reserve_one t else Some t) = Some t1"
    and inv1: "table_inv hf t1" and same: "et_slots t1 = et_slots t" "et_max_size t1 = et_max_size t"
    and room: "\<not> header_is_sensitive h \<longrightarrow> table_room hf t1"
  proof (cases "header_len (fst h) + et_size t < et_max_size t \<or> \<not> header_is_sensitive h")
    case True
    obtain m ix where "reserve_one t = Some (t\<lparr>et_mask := m, et_indices := ix\<rparr>)"
      "table_room hf (t\<lparr>et_mask := m, et_indices := ix\<rparr>)" using reserve_one_ok [OF inv] by blast
    moreover from this have "table_inv hf (t\<lparr>et_mask := m, et_indices := ix\<rparr>)" by (simp add: table_room_inv)
    ultimately show thesis using True by (intro that [of "t\<lparr>et_mask := m, et_indices := ix\<rparr>"]) auto
  next
    case False
    then show thesis using inv by (intro that [of t]) auto
  qed
  have ot: "of_table t1 = of_table t" by (simp add: of_table_def same)
  have good: "index_good hf t t' h ix \<longleftrightarrow> index_good hf t1 t' h ix" for t' ix
    by (simp add: index_good_def ot same)
  show ?thesis
  proof (cases "et_indices t1 = []")
    case True
    then have "et_slots t1 = []" using inv1 by (simp add: table_inv_def et_capacity_def usable_capacity_def)
    then show ?thesis
      using t1 True index_new_good [OF inv1 st] same
      by (auto simp: index_dynamic_def good headers_of_def)
  next
    case False
    then have m: "masked (et_mask t1) (et_indices t1)" and r: "robin (et_indices t1)"
      using inv1 by (simp_all add: table_inv_def)
    let ?hash = "hash_header hf (fst h)" and ?n = "header_name_of (fst h)"
    have "probe_answer t1 ?n ?hash (probe_name t1 ?n ?hash (desired_pos (et_mask t1) ?hash) 0)"
    proof (rule probe_name_ok [OF m r table_inv_none [OF inv1 m]])
      fix p assume "Some p \<in># mset (et_indices t1)"
      from table_inv_entry [OF inv1 this] show "slot_at t1 (real_idx t1 (ps_index p)) \<noteq> None" by auto
    qed
    then consider (occ) p where "probe_name t1 ?n ?hash (desired_pos (et_mask t1) ?hash) 0
          = Some (ProbeOccupied (ps_index p))" "Some p \<in># mset (et_indices t1)" "matches t1 ?n ?hash p"
      | (vac) c i where "probe_name t1 ?n ?hash (desired_pos (et_mask t1) ?hash) 0
          = Some (ProbeVacant c (i mod length (et_indices t1)))"
        "\<forall>x. ps_hash x = ?hash \<longrightarrow> away (length (et_indices t1)) x i = c \<and> fits (et_indices t1) x i"
        "\<forall>y. at (et_indices t1) i = Some y \<longrightarrow> away (length (et_indices t1)) y i < c"
        "\<forall>p. Some p \<in># mset (et_indices t1) \<longrightarrow> \<not> matches t1 ?n ?hash p"
      unfolding probe_answer_def by blast
    then show ?thesis
    proof cases
      case occ
      have "index_dynamic hf h statik t = index_occupied h ?hash (ps_index p) (map_option fst statik) t1"
        using t1 occ(1) False by (simp add: index_dynamic_def Let_def)
      then show ?thesis
        using index_occupied_ok [OF inv1 occ(2,3) refl st] room len same by (simp add: good)
    next
      case vac
      have run: "index_dynamic hf h statik t
          = index_vacant h ?hash c (i mod length (et_indices t1)) statik t1"
        using t1 vac(1) False by (simp add: index_dynamic_def Let_def)
      have new: "?n \<notin> sl_name ` set (et_slots t1)" using table_inv_name [OF inv1] vac(4) by blast
      then have absent: "fst h \<notin> set (headers_of (et_slots t))"
        using same by (auto simp: headers_of_def sl_name_def)
      show ?thesis
      proof (cases "header_is_sensitive h")
        case True
        then have "index_vacant h ?hash c (i mod length (et_indices t1)) statik t1
            = Some (t1, index_new statik h)" by (simp add: index_vacant_def)
        then show ?thesis using run absent index_new_good [OF inv1 st] by (simp add: good)
      next
        case ns: False
        obtain t' ss where v: "index_vacant h ?hash c (i mod length (et_indices t1)) statik t1
            = Some (t', case statik of Some (n, _) \<Rightarrow> IxInsertedValue n 0 | None \<Rightarrow> IxInserted 0)"
          "table_inv hf t'" "et_max_size t' = et_max_size t1"
          "et_slots t' = \<lparr>sl_hash = ?hash, sl_header = h, sl_next = None\<rparr> # ss"
          "mirror (et_max_size t1) (et_slots t') = table_insert (fst h) (mirror (et_max_size t1) (et_slots t1))"
          using index_vacant_ok [of hf t1 ?hash h i c statik] room ns len same vac(2,3) new by auto
        have "slot_at t' 0 = Some \<lparr>sl_hash = ?hash, sl_header = h, sl_next = None\<rparr>"
          by (simp add: slot_at_def v(4))
        then have "index_good hf t1 t' h
            (case statik of Some (n, _) \<Rightarrow> IxInsertedValue n 0 | None \<Rightarrow> IxInserted 0)"
          using v(2,3,5) ns st
          by (auto simp: index_good_def index_ok_def of_table_def et_resolve_def static_ok_def
              table_get_static split: option.split)
        then show ?thesis using run v(1) absent by (simp add: good)
      qed
    qed
  qed
qed

text \<open>\<open>Table::index\<close>: no panic, a sound answer, and a header the table holds is never sent in full.\<close>

lemma et_index_ok:
  assumes inv: "table_inv hf t"
  shows "\<exists>t' ix. et_index hf h t = Some (t', ix) \<and> index_good hf t t' h ix
    \<and> (fst h \<in> set (headers_of (et_slots t)) \<longrightarrow> \<not> skip_value_index (fst h)
       \<longrightarrow> header_len (fst h) * 4 \<le> et_max_size t * 3 \<longrightarrow> (\<exists>n. ix = IxIndexed n h))"
proof -
  let ?st = "index_static (fst h)"
  have st: "static_ok (fst h) ?st" by (rule index_static_ok)
  note nw = index_new_good [OF inv st]
  show ?thesis
  proof (cases "skip_value_index (fst h)")
    case True
    then show ?thesis using nw by (simp add: et_index_def)
  next
    case ns: False
    show ?thesis
    proof (cases "\<exists>n. ?st = Some (n, True)")
      case True
      then obtain n where n: "?st = Some (n, True)" by auto
      then have "index_new ?st h = IxIndexed n h" by (simp add: index_new_def)
      then show ?thesis using nw ns n by (simp add: et_index_def)
    next
      case False
      then have run: "et_index hf h t = (if et_max_size t * 3 < header_len (fst h) * 4
          then Some (t, index_new ?st h) else index_dynamic hf h ?st t)"
        using ns by (cases ?st) (auto simp: et_index_def Let_def split: bool.split)
      show ?thesis
      proof (cases "et_max_size t * 3 < header_len (fst h) * 4")
        case True then show ?thesis using run nw by simp
      next
        case False
        then have "header_len (fst h) \<le> et_max_size t" by linarith
        from index_dynamic_ok [OF inv st this] show ?thesis using run False by auto
      qed
    qed
  qed
qed

subsection \<open>Resizing\<close>

lemma mirror_consolidate: "table_consolidate (mirror mx ss) = Some (table_reserve 0 (mirror mx ss))"
proof (induction ss rule: rev_induct)
  case Nil
  then show ?case by (subst table_consolidate.simps) (simp add: mirror_reserve, simp add: mirror_def)
next
  case (snoc s ss)
  have "table_consolidate (mirror mx (ss @ [s])) =
      (if slots_size (ss @ [s]) \<le> mx then Some (mirror mx (ss @ [s])) else table_consolidate (mirror mx ss))"
    by (subst table_consolidate.simps) (simp add: mirror_def)
  then show ?case using snoc by (subst mirror_reserve) simp
qed

lemma mirror_reserve_zero: "table_reserve 0 (mirror 0 ss) = mirror 0 []"
proof (induction ss rule: rev_induct)
  case Nil then show ?case by (simp add: mirror_reserve)
next
  case (snoc s ss)
  have "0 < header_len (fst (sl_header s))" using header_len_ge [of "fst (sl_header s)"] by linarith
  then show ?case using snoc by (subst mirror_reserve) simp
qed

lemma set_max_size_mirror:
  "table_set_max_size sz (mirror mx ss) = Some (table_reserve 0 (mirror sz ss))"
proof -
  have "(mirror mx ss)\<lparr>ht_max_size := sz\<rparr> = mirror sz ss" by (simp add: mirror_def)
  then show ?thesis by (simp add: table_set_max_size_def mirror_consolidate)
qed

lemma et_resize_ok:
  assumes inv: "table_inv hf t" and sz: "sz \<le> 2 ^ 60"
  shows "\<exists>t'. et_resize sz t = Some t' \<and> table_inv hf t' \<and> et_max_size t' = sz
    \<and> table_set_max_size sz (of_table t) = Some (of_table t')"
proof (cases "sz = 0")
  case True
  let ?none = "map (\<lambda>_. None) (et_indices t) :: pos option list"
  let ?t' = "t\<lparr>et_max_size := 0, et_size := 0, et_indices := ?none, et_slots := [], et_inserted := 0\<rparr>"
  have e: "?none = replicate (length (et_indices t)) None" by (simp add: map_replicate_const)
  have "robin ?none" if "et_indices t \<noteq> []" unfolding e by (rule robin_empty) (use that in simp)
  moreover have "filled ?none = {#}" unfolding e by (simp add: filled_def)
  ultimately have "table_inv hf ?t'"
    using inv by (auto simp: table_inv_def tracked_def hashed_def masked_def)
  moreover have "table_set_max_size 0 (of_table t) = Some (of_table ?t')"
    by (simp add: of_table_def set_max_size_mirror mirror_reserve_zero)
  ultimately show ?thesis using True by (intro exI [of _ ?t']) (simp add: et_resize_def)
next
  case nz: False
  let ?t = "t\<lparr>et_max_size := sz\<rparr>"
  have set: "table_set_max_size sz (of_table t) = Some (table_reserve 0 (mirror sz (et_slots t)))"
    by (simp add: of_table_def set_max_size_mirror)
  show ?thesis
  proof (cases "et_indices t = []")
    case True
    then have s: "et_slots t = []" using inv by (simp add: table_inv_def et_capacity_def usable_capacity_def)
    then have "converge None ?t False = Some (?t, False)"
      using inv by (subst converge.simps) (simp add: table_inv_def)
    moreover have "table_inv hf ?t" using inv s True sz by (simp add: table_inv_def et_capacity_def)
    ultimately show ?thesis
      using nz s set by (intro exI [of _ ?t]) (simp add: et_resize_def of_table_def mirror_reserve)
  next
    case False
    then have m: "masked (et_mask t) (et_indices t)" and r: "robin (et_indices t)"
      using inv by (simp_all add: table_inv_def)
    have "\<exists>ss ix ev. converge (vprev None (et_inserted ?t)) ?t False
          = Some (?t\<lparr>et_slots := ss, et_size := slots_size ss + 0, et_indices := ix\<rparr>, ev)
      \<and> (\<exists>gone. et_slots ?t = ss @ gone) \<and> slots_size ss + 0 \<le> et_max_size ?t
      \<and> table_reserve 0 (mirror (et_max_size ?t) (et_slots ?t)) = mirror (et_max_size ?t) ss
      \<and> robin ix \<and> length ix = length (et_indices ?t) \<and> below ix (et_indices ?t)
      \<and> tracked (vbase None (et_inserted ?t)) (vslots None (et_inserted ?t) ss) ix
      \<and> (\<not> ev \<longrightarrow> ss = et_slots ?t \<and> ix = et_indices ?t) \<and> (False \<longrightarrow> ev)"
      using inv m r masked_capacity [OF m]
      by (intro converge_ok [where hf = hf])
        (simp_all add: vbase_def vslots_def pending_ok_def table_inv_def et_capacity_def)
    then obtain ss ix ev gone where c: "converge None ?t False
          = Some (?t\<lparr>et_slots := ss, et_size := slots_size ss, et_indices := ix\<rparr>, ev)"
      "et_slots t = ss @ gone" "slots_size ss \<le> sz"
      "table_reserve 0 (mirror sz (et_slots t)) = mirror sz ss"
      "robin ix" "length ix = length (et_indices t)" "tracked (- et_inserted t) ss ix"
      unfolding vprev_def vbase_def vslots_def by (elim exE conjE) simp
    let ?t' = "?t\<lparr>et_slots := ss, et_size := slots_size ss, et_indices := ix\<rparr>"
    have "table_inv hf ?t'"
      using inv m c(2,3,5-7) sz by (auto simp: table_inv_def masked_def et_capacity_def)
    then show ?thesis
      using c(1,4) nz set by (intro exI [of _ ?t']) (simp add: et_resize_def of_table_def)
  qed
qed

lemma enc_table_new_inv: "mx \<le> 2 ^ 60 \<Longrightarrow> table_inv hf (enc_table_new mx 0)"
  by (simp add: table_inv_def enc_table_new_def tracked_def filled_def hashed_def)

end
