(* ===== verification/Huffman_Table.thy ===== *)
theory Huffman_Table
  imports Prelude
begin

section \<open>The Huffman code of HPACK\<close>

text \<open>
  crates/vendor-h2/src/hpack/huffman/table.rs: the codes, their lengths, and the decoding tables, 15
  tables of 256 entries. A decoding table is long runs of one entry; \<open>DECODE_RUNS\<close> lists them, with
  their lengths, and \<open>DECODE_TABLE\<close> is the array of the source. An entry is a symbol with the bits it
  used (\<open>used * 256 + symbol\<close>) or, from \<open>0x8000\<close> on, the table for the next byte.

  \<open>code_order\<close> lists the symbols by their codes. The lemmas compute what the rest needs from the
  constants: the codes tile the 30-bit windows, so one and only one of them, or the end-of-string code,
  begins every window; and the decoding tables follow them.
\<close>

definition ENCODE_CODES :: "u32 list" where
  "ENCODE_CODES =
    [8184, 8388568, 268435426, 268435427, 268435428, 268435429, 268435430, 268435431, 268435432,
     16777194, 1073741820, 268435433, 268435434, 1073741821, 268435435, 268435436, 268435437,
     268435438, 268435439, 268435440, 268435441, 268435442, 1073741822, 268435443, 268435444,
     268435445, 268435446, 268435447, 268435448, 268435449, 268435450, 268435451, 20, 1016, 1017,
     4090, 8185, 21, 248, 2042, 1018, 1019, 249, 2043, 250, 22, 23, 24, 0, 1, 2, 25, 26, 27, 28, 29,
     30, 31, 92, 251, 32764, 32, 4091, 1020, 8186, 33, 93, 94, 95, 96, 97, 98, 99, 100, 101, 102,
     103, 104, 105, 106, 107, 108, 109, 110, 111, 112, 113, 114, 252, 115, 253, 8187, 524272, 8188,
     16380, 34, 32765, 3, 35, 4, 36, 5, 37, 38, 39, 6, 116, 117, 40, 41, 42, 7, 43, 118, 44, 8, 9,
     45, 119, 120, 121, 122, 123, 32766, 2044, 16381, 8189, 268435452, 1048550, 4194258, 1048551,
     1048552, 4194259, 4194260, 4194261, 8388569, 4194262, 8388570, 8388571, 8388572, 8388573,
     8388574, 16777195, 8388575, 16777196, 16777197, 4194263, 8388576, 16777198, 8388577, 8388578,
     8388579, 8388580, 2097116, 4194264, 8388581, 4194265, 8388582, 8388583, 16777199, 4194266,
     2097117, 1048553, 4194267, 4194268, 8388584, 8388585, 2097118, 8388586, 4194269, 4194270,
     16777200, 2097119, 4194271, 8388587, 8388588, 2097120, 2097121, 4194272, 2097122, 8388589,
     4194273, 8388590, 8388591, 1048554, 4194274, 4194275, 4194276, 8388592, 4194277, 4194278,
     8388593, 67108832, 67108833, 1048555, 524273, 4194279, 8388594, 4194280, 33554412, 67108834,
     67108835, 67108836, 134217694, 134217695, 67108837, 16777201, 33554413, 524274, 2097123,
     67108838, 134217696, 134217697, 67108839, 134217698, 16777202, 2097124, 2097125, 67108840,
     67108841, 268435453, 134217699, 134217700, 134217701, 1048556, 16777203, 1048557, 2097126,
     4194281, 2097127, 2097128, 8388595, 4194282, 4194283, 33554414, 33554415, 16777204, 16777205,
     67108842, 8388596, 67108843, 134217702, 67108844, 67108845, 134217703, 134217704, 134217705,
     134217706, 134217707, 268435454, 134217708, 134217709, 134217710, 134217711, 134217712,
     67108846]"

definition ENCODE_CODE_LENGTHS :: "nat list" where
  "ENCODE_CODE_LENGTHS =
    [13, 23, 28, 28, 28, 28, 28, 28, 28, 24, 30, 28, 28, 30, 28, 28, 28, 28, 28, 28, 28, 28, 30, 28,
     28, 28, 28, 28, 28, 28, 28, 28, 6, 10, 10, 12, 13, 6, 8, 11, 10, 10, 8, 11, 8, 6, 6, 6, 5, 5,
     5, 6, 6, 6, 6, 6, 6, 6, 7, 8, 15, 6, 12, 10, 13, 6, 7, 7, 7, 7, 7, 7, 7, 7, 7, 7, 7, 7, 7, 7,
     7, 7, 7, 7, 7, 7, 7, 7, 8, 7, 8, 13, 19, 13, 14, 6, 15, 5, 6, 5, 6, 5, 6, 6, 6, 5, 7, 7, 6, 6,
     6, 5, 6, 7, 6, 5, 5, 6, 7, 7, 7, 7, 7, 15, 11, 14, 13, 28, 20, 22, 20, 20, 22, 22, 22, 23, 22,
     23, 23, 23, 23, 23, 24, 23, 24, 24, 22, 23, 24, 23, 23, 23, 23, 21, 22, 23, 22, 23, 23, 24, 22,
     21, 20, 22, 22, 23, 23, 21, 23, 22, 22, 24, 21, 22, 23, 23, 21, 21, 22, 21, 23, 22, 23, 23, 20,
     22, 22, 22, 23, 22, 22, 23, 26, 26, 20, 19, 22, 23, 22, 25, 26, 26, 26, 27, 27, 26, 24, 25, 19,
     21, 26, 27, 27, 26, 27, 24, 21, 21, 26, 26, 28, 27, 27, 27, 20, 24, 20, 21, 22, 21, 21, 23, 22,
     22, 25, 25, 24, 24, 26, 23, 26, 27, 26, 26, 27, 27, 27, 27, 27, 28, 27, 27, 27, 27, 27, 26]"

definition DECODE_RUNS :: "(nat \<times> u16) list list" where
  "DECODE_RUNS =
    [[(8, 1328), (8, 1329), (8, 1330), (8, 1377), (8, 1379), (8, 1381), (8, 1385), (8, 1391),
      (8, 1395), (8, 1396), (4, 1568), (4, 1573), (4, 1581), (4, 1582), (4, 1583), (4, 1587),
      (4, 1588), (4, 1589), (4, 1590), (4, 1591), (4, 1592), (4, 1593), (4, 1597), (4, 1601),
      (4, 1631), (4, 1634), (4, 1636), (4, 1638), (4, 1639), (4, 1640), (4, 1644), (4, 1645),
      (4, 1646), (4, 1648), (4, 1650), (4, 1653), (2, 1850), (2, 1858), (2, 1859), (2, 1860),
      (2, 1861), (2, 1862), (2, 1863), (2, 1864), (2, 1865), (2, 1866), (2, 1867), (2, 1868),
      (2, 1869), (2, 1870), (2, 1871), (2, 1872), (2, 1873), (2, 1874), (2, 1875), (2, 1876),
      (2, 1877), (2, 1878), (2, 1879), (2, 1881), (2, 1898), (2, 1899), (2, 1905), (2, 1910),
      (2, 1911), (2, 1912), (2, 1913), (2, 1914), (1, 2086), (1, 2090), (1, 2092), (1, 2107),
      (1, 2136), (1, 2138), (1, 34048), (1, 33024)],
     [(64, 575), (32, 807), (32, 811), (32, 892), (16, 1059), (16, 1086), (8, 1280), (8, 1316),
      (8, 1344), (8, 1371), (8, 1373), (8, 1406), (4, 1630), (4, 1661), (2, 1852), (2, 1888),
      (2, 1915), (1, 34304), (1, 33280)],
     [(8, 1456), (8, 1457), (8, 1459), (8, 1489), (8, 1496), (8, 1497), (8, 1507), (8, 1509),
      (8, 1510), (4, 1665), (4, 1668), (4, 1669), (4, 1670), (4, 1672), (4, 1682), (4, 1690),
      (4, 1692), (4, 1696), (4, 1699), (4, 1700), (4, 1705), (4, 1706), (4, 1709), (4, 1714),
      (4, 1717), (4, 1721), (4, 1722), (4, 1723), (4, 1725), (4, 1726), (4, 1732), (4, 1734),
      (4, 1764), (4, 1768), (4, 1769), (2, 1793), (2, 1927), (2, 1929), (2, 1930), (2, 1931),
      (2, 1932), (2, 1933), (2, 1935), (2, 1939), (2, 1941), (2, 1942), (2, 1943), (2, 1944),
      (2, 1947), (2, 1949), (2, 1950), (2, 1957), (2, 1958), (2, 1960), (2, 1966), (2, 1967),
      (2, 1972), (2, 1974), (2, 1975), (2, 1980), (2, 1983), (2, 1989), (2, 2023), (2, 2031),
      (1, 2057), (1, 2190), (1, 2192), (1, 2193), (1, 2196), (1, 2207), (1, 2219), (1, 2254),
      (1, 2263), (1, 2273), (1, 2284), (1, 2285), (1, 34816), (1, 36096), (1, 34560), (1, 35072),
      (1, 35840), (1, 35328), (1, 35584), (1, 36352), (1, 33536), (1, 33792)],
     [(32, 1022), (16, 1026), (16, 1027), (16, 1028), (16, 1029), (16, 1030), (16, 1031), (16, 1032),
      (16, 1035), (16, 1036), (16, 1038), (16, 1039), (16, 1040), (16, 1041), (16, 1042)],
     [(16, 1043), (16, 1044), (16, 1045), (16, 1047), (16, 1048), (16, 1049), (16, 1050), (16, 1051),
      (16, 1052), (16, 1053), (16, 1054), (16, 1055), (16, 1151), (16, 1244), (16, 1273), (4, 1546),
      (4, 1549), (4, 1558), (4, 33023)],
     [(64, 545), (64, 546), (64, 552), (64, 553)],
     [(32, 860), (32, 963), (32, 976), (16, 1152), (16, 1154), (16, 1155), (16, 1186), (16, 1208),
      (16, 1218), (16, 1248), (16, 1250), (8, 1433), (8, 1441), (8, 1447), (8, 1452)],
     [(64, 704), (64, 705), (64, 712), (64, 713)],
     [(128, 455), (128, 463)],
     [(64, 714), (64, 717), (64, 722), (64, 725)],
     [(64, 754), (64, 755), (64, 767), (32, 971), (32, 972)],
     [(32, 979), (32, 980), (32, 982), (32, 989), (32, 990), (32, 991), (32, 1009), (32, 1012)],
     [(64, 730), (64, 731), (64, 750), (64, 752)],
     [(128, 490), (128, 491)],
     [(32, 1013), (32, 1014), (32, 1015), (32, 1016), (32, 1018), (32, 1019), (32, 1020), (32, 1021)]]"

definition run_expand :: "(nat \<times> u16) list \<Rightarrow> u16 list" where
  "run_expand rs = concat (map (\<lambda>(n, e). replicate n e) rs)"

definition DECODE_TABLE :: "u16 list" where
  "DECODE_TABLE = concat (map run_expand DECODE_RUNS)"

definition TABLE_WIDTH :: nat where "TABLE_WIDTH = 256"

definition BRANCH :: u16 where "BRANCH = 0x8000"

definition TABLE_INDEX_MASK :: u16 where "TABLE_INDEX_MASK = 0x7f00"

definition code_of :: "nat \<Rightarrow> nat" where "code_of s = ENCODE_CODES ! s"

definition code_len :: "nat \<Rightarrow> nat" where "code_len s = ENCODE_CODE_LENGTHS ! s"

subsection \<open>The codes tile the windows\<close>

definition code_order :: "(nat \<times> nat \<times> nat) list" where
  "code_order =
    [(48, 0, 5), (49, 1, 5), (50, 2, 5), (97, 3, 5), (99, 4, 5), (101, 5, 5), (105, 6, 5),
     (111, 7, 5), (115, 8, 5), (116, 9, 5), (32, 20, 6), (37, 21, 6), (45, 22, 6), (46, 23, 6),
     (47, 24, 6), (51, 25, 6), (52, 26, 6), (53, 27, 6), (54, 28, 6), (55, 29, 6), (56, 30, 6),
     (57, 31, 6), (61, 32, 6), (65, 33, 6), (95, 34, 6), (98, 35, 6), (100, 36, 6), (102, 37, 6),
     (103, 38, 6), (104, 39, 6), (108, 40, 6), (109, 41, 6), (110, 42, 6), (112, 43, 6),
     (114, 44, 6), (117, 45, 6), (58, 92, 7), (66, 93, 7), (67, 94, 7), (68, 95, 7), (69, 96, 7),
     (70, 97, 7), (71, 98, 7), (72, 99, 7), (73, 100, 7), (74, 101, 7), (75, 102, 7), (76, 103, 7),
     (77, 104, 7), (78, 105, 7), (79, 106, 7), (80, 107, 7), (81, 108, 7), (82, 109, 7),
     (83, 110, 7), (84, 111, 7), (85, 112, 7), (86, 113, 7), (87, 114, 7), (89, 115, 7),
     (106, 116, 7), (107, 117, 7), (113, 118, 7), (118, 119, 7), (119, 120, 7), (120, 121, 7),
     (121, 122, 7), (122, 123, 7), (38, 248, 8), (42, 249, 8), (44, 250, 8), (59, 251, 8),
     (88, 252, 8), (90, 253, 8), (33, 1016, 10), (34, 1017, 10), (40, 1018, 10), (41, 1019, 10),
     (63, 1020, 10), (39, 2042, 11), (43, 2043, 11), (124, 2044, 11), (35, 4090, 12),
     (62, 4091, 12), (0, 8184, 13), (36, 8185, 13), (64, 8186, 13), (91, 8187, 13), (93, 8188, 13),
     (126, 8189, 13), (94, 16380, 14), (125, 16381, 14), (60, 32764, 15), (96, 32765, 15),
     (123, 32766, 15), (92, 524272, 19), (195, 524273, 19), (208, 524274, 19), (128, 1048550, 20),
     (130, 1048551, 20), (131, 1048552, 20), (162, 1048553, 20), (184, 1048554, 20),
     (194, 1048555, 20), (224, 1048556, 20), (226, 1048557, 20), (153, 2097116, 21),
     (161, 2097117, 21), (167, 2097118, 21), (172, 2097119, 21), (176, 2097120, 21),
     (177, 2097121, 21), (179, 2097122, 21), (209, 2097123, 21), (216, 2097124, 21),
     (217, 2097125, 21), (227, 2097126, 21), (229, 2097127, 21), (230, 2097128, 21),
     (129, 4194258, 22), (132, 4194259, 22), (133, 4194260, 22), (134, 4194261, 22),
     (136, 4194262, 22), (146, 4194263, 22), (154, 4194264, 22), (156, 4194265, 22),
     (160, 4194266, 22), (163, 4194267, 22), (164, 4194268, 22), (169, 4194269, 22),
     (170, 4194270, 22), (173, 4194271, 22), (178, 4194272, 22), (181, 4194273, 22),
     (185, 4194274, 22), (186, 4194275, 22), (187, 4194276, 22), (189, 4194277, 22),
     (190, 4194278, 22), (196, 4194279, 22), (198, 4194280, 22), (228, 4194281, 22),
     (232, 4194282, 22), (233, 4194283, 22), (1, 8388568, 23), (135, 8388569, 23),
     (137, 8388570, 23), (138, 8388571, 23), (139, 8388572, 23), (140, 8388573, 23),
     (141, 8388574, 23), (143, 8388575, 23), (147, 8388576, 23), (149, 8388577, 23),
     (150, 8388578, 23), (151, 8388579, 23), (152, 8388580, 23), (155, 8388581, 23),
     (157, 8388582, 23), (158, 8388583, 23), (165, 8388584, 23), (166, 8388585, 23),
     (168, 8388586, 23), (174, 8388587, 23), (175, 8388588, 23), (180, 8388589, 23),
     (182, 8388590, 23), (183, 8388591, 23), (188, 8388592, 23), (191, 8388593, 23),
     (197, 8388594, 23), (231, 8388595, 23), (239, 8388596, 23), (9, 16777194, 24),
     (142, 16777195, 24), (144, 16777196, 24), (145, 16777197, 24), (148, 16777198, 24),
     (159, 16777199, 24), (171, 16777200, 24), (206, 16777201, 24), (215, 16777202, 24),
     (225, 16777203, 24), (236, 16777204, 24), (237, 16777205, 24), (199, 33554412, 25),
     (207, 33554413, 25), (234, 33554414, 25), (235, 33554415, 25), (192, 67108832, 26),
     (193, 67108833, 26), (200, 67108834, 26), (201, 67108835, 26), (202, 67108836, 26),
     (205, 67108837, 26), (210, 67108838, 26), (213, 67108839, 26), (218, 67108840, 26),
     (219, 67108841, 26), (238, 67108842, 26), (240, 67108843, 26), (242, 67108844, 26),
     (243, 67108845, 26), (255, 67108846, 26), (203, 134217694, 27), (204, 134217695, 27),
     (211, 134217696, 27), (212, 134217697, 27), (214, 134217698, 27), (221, 134217699, 27),
     (222, 134217700, 27), (223, 134217701, 27), (241, 134217702, 27), (244, 134217703, 27),
     (245, 134217704, 27), (246, 134217705, 27), (247, 134217706, 27), (248, 134217707, 27),
     (250, 134217708, 27), (251, 134217709, 27), (252, 134217710, 27), (253, 134217711, 27),
     (254, 134217712, 27), (2, 268435426, 28), (3, 268435427, 28), (4, 268435428, 28),
     (5, 268435429, 28), (6, 268435430, 28), (7, 268435431, 28), (8, 268435432, 28),
     (11, 268435433, 28), (12, 268435434, 28), (14, 268435435, 28), (15, 268435436, 28),
     (16, 268435437, 28), (17, 268435438, 28), (18, 268435439, 28), (19, 268435440, 28),
     (20, 268435441, 28), (21, 268435442, 28), (23, 268435443, 28), (24, 268435444, 28),
     (25, 268435445, 28), (26, 268435446, 28), (27, 268435447, 28), (28, 268435448, 28),
     (29, 268435449, 28), (30, 268435450, 28), (31, 268435451, 28), (127, 268435452, 28),
     (220, 268435453, 28), (249, 268435454, 28), (10, 1073741820, 30), (13, 1073741821, 30),
     (22, 1073741822, 30)]"

text \<open>The 30-bit windows that begin with a code.\<close>

definition code_span :: "nat \<times> nat \<Rightarrow> nat \<times> nat" where
  "code_span = (\<lambda>(c, l). (c * 2 ^ (30 - l), (c + 1) * 2 ^ (30 - l)))"

fun tiles :: "nat \<Rightarrow> (nat \<times> nat) list \<Rightarrow> nat \<Rightarrow> bool" where
  "tiles a [] b = (a = b)"
| "tiles a ((l, h) # xs) b = (l = a \<and> a < h \<and> tiles h xs b)"

lemma tiles_covers: "tiles a xs b \<Longrightarrow> a \<le> x \<Longrightarrow> x < b \<Longrightarrow> \<exists>p \<in> set xs. fst p \<le> x \<and> x < snd p"
proof (induction a xs b rule: tiles.induct)
  case (2 a l h xs b)
  then show ?case by (cases "x < h") auto
qed simp

lemma tiles_le: "tiles a xs b \<Longrightarrow> a \<le> b"
  by (induction a xs b rule: tiles.induct) auto

lemma tiles_bounds: "tiles a xs b \<Longrightarrow> (l, h) \<in> set xs \<Longrightarrow> a \<le> l \<and> l < h \<and> h \<le> b"
proof (induction a xs b rule: tiles.induct)
  case (2 a l' h' xs b)
  then show ?case using tiles_le [of h' xs b] by auto
qed simp

lemma tiles_distinct: "tiles a xs b \<Longrightarrow> distinct (map fst xs)"
proof (induction a xs b rule: tiles.induct)
  case (2 a l' h' xs b)
  then show ?case using tiles_bounds [of h' xs b] by fastforce
qed simp

lemma tiles_unique:
  "tiles a xs b \<Longrightarrow> (l, h) \<in> set xs \<Longrightarrow> (l', h') \<in> set xs \<Longrightarrow> l \<le> x \<Longrightarrow> x < h \<Longrightarrow> l' \<le> x \<Longrightarrow> x < h' \<Longrightarrow> l = l'"
proof (induction a xs b rule: tiles.induct)
  case (2 a m n xs b)
  then show ?case using tiles_bounds [of n xs b] by fastforce
qed simp

lemma codes_range:
  "list_all (\<lambda>(s, c, l). 5 \<le> l \<and> l \<le> 30 \<and> c < 2 ^ l \<and> c \<noteq> 2 ^ l - 1) code_order"
  by (simp add: code_order_def)

lemma codes_tile: "tiles 0 (map (\<lambda>(s, c, l). code_span (c, l)) code_order) (2 ^ 30 - 1)"
  by (simp add: code_order_def code_span_def)

lemma order_codes:
  "list_all (\<lambda>(s, c, l). s < 256 \<and> ENCODE_CODES ! s = c \<and> ENCODE_CODE_LENGTHS ! s = l) code_order"
  by (simp add: code_order_def ENCODE_CODES_def ENCODE_CODE_LENGTHS_def)

lemma order_length: "length code_order = 256"
  by (simp add: code_order_def)

lemma order_code: "(s, c, l) \<in> set code_order \<Longrightarrow> s < 256 \<and> c = code_of s \<and> l = code_len s"
  using order_codes by (fastforce simp: list_all_iff code_of_def code_len_def)

lemma order_mem: 
  assumes "s < 256" shows "(s, code_of s, code_len s) \<in> set code_order"
proof -
  let ?g = "\<lambda>s. fst (code_span (code_of s, code_len s))"
  have "map fst (map (\<lambda>(s, c, l). code_span (c, l)) code_order) = map ?g (map fst code_order)"
    by (auto dest: order_code)
  then have "distinct (map fst code_order)"
    using tiles_distinct [OF codes_tile] by (metis distinct_map)
  then have "card (set (map fst code_order)) = 256"
    using distinct_card order_length by (metis length_map)
  moreover have sub: "set (map fst code_order) \<subseteq> {..<256}" by (auto dest: order_code)
  ultimately have "set (map fst code_order) = {..<256}" by (intro card_subset_eq) simp_all
  then have "s \<in> set (map fst code_order)" using assms by blast
  then obtain c l where "(s, c, l) \<in> set code_order" by auto
  moreover from order_code [OF this] have "c = code_of s" "l = code_len s" by simp_all
  ultimately show ?thesis by simp
qed

lemma code_range:
  assumes "s < 256"
  shows "5 \<le> code_len s" "code_len s \<le> 30" "code_of s < 2 ^ code_len s" "code_of s \<noteq> 2 ^ code_len s - 1"
  using order_mem [OF assms] codes_range by (auto simp: list_all_iff)

subsection \<open>Windows\<close>

definition begins :: "nat \<Rightarrow> nat \<Rightarrow> bool" where
  "begins s x \<longleftrightarrow> s < 256 \<and> x div 2 ^ (30 - code_len s) = code_of s"

lemma begins_span:
  assumes "s < 256"
  shows "begins s x \<longleftrightarrow> fst (code_span (code_of s, code_len s)) \<le> x \<and> x < snd (code_span (code_of s, code_len s))"
proof -
  let ?k = "(2::nat) ^ (30 - code_len s)"
  have k: "0 < ?k" by simp
  have "x div ?k = code_of s \<longleftrightarrow> code_of s * ?k \<le> x \<and> x < (code_of s + 1) * ?k"
    using k by (metis Suc_eq_plus1 div_nat_eqI less_eq_div_iff_mult_less_eq div_less_iff_less_mult
        mult.commute le_refl lessI)
  then show ?thesis using assms by (simp add: begins_def code_span_def)
qed

lemma span_mem: "s < 256 \<Longrightarrow> code_span (code_of s, code_len s) \<in> set (map (\<lambda>(s, c, l). code_span (c, l)) code_order)"
  using order_mem by force

lemma begins_unique:
  assumes "begins s x" and "begins s' x" shows "s = s'"
proof -
  have s: "s < 256" "s' < 256" using assms by (simp_all add: begins_def)
  let ?p = "\<lambda>s. code_span (code_of s, code_len s)"
  have mem: "(fst (?p s), snd (?p s)) \<in> set (map (\<lambda>(s, c, l). code_span (c, l)) code_order)"
    "(fst (?p s'), snd (?p s')) \<in> set (map (\<lambda>(s, c, l). code_span (c, l)) code_order)"
    using span_mem s by simp_all
  have "fst (?p s) = fst (?p s')"
    by (rule tiles_unique [OF codes_tile mem, of x]) (use assms begins_span s in blast)+
  moreover have "distinct (map (\<lambda>(s, c, l). fst (code_span (c, l))) code_order)"
    using tiles_distinct [OF codes_tile] by (simp add: comp_def case_prod_beta')
  ultimately have "(s, code_of s, code_len s) = (s', code_of s', code_len s')"
    using order_mem [OF s(1)] order_mem [OF s(2)] by (auto simp: distinct_map inj_on_def)
  then show ?thesis by simp
qed

lemma begins_exists:
  assumes "x < 2 ^ 30 - 1" shows "\<exists>s. begins s x"
proof -
  obtain p where p: "p \<in> set (map (\<lambda>(s, c, l). code_span (c, l)) code_order)" "fst p \<le> x" "x < snd p"
    using tiles_covers [OF codes_tile le0 assms] by blast
  then obtain s c l' where m: "(s, c, l') \<in> set code_order" "code_span (c, l') = p" by auto
  from order_code [OF m(1)] have "s < 256" "c = code_of s" "l' = code_len s" by simp_all
  then have "begins s x" using m(2) p(2,3) by (simp add: begins_span)
  then show ?thesis by blast
qed

lemma eos_begins_nothing: "\<not> begins s (2 ^ 30 - 1)"
proof
  assume b: "begins s (2 ^ 30 - 1)"
  then have s: "s < 256" by (simp add: begins_def)
  let ?p = "code_span (code_of s, code_len s)"
  have "(fst ?p, snd ?p) \<in> set (map (\<lambda>(s, c, l). code_span (c, l)) code_order)" using span_mem [OF s] by simp
  from tiles_bounds [OF codes_tile this] show False using b begins_span [OF s] by simp
qed

subsection \<open>The decoding tables follow the codes\<close>

text \<open>The bytes that lead to each table, as a number, and how many they are.\<close>

definition table_prefix :: "(nat \<times> nat) list" where
  "table_prefix =
    [(0, 0), (255, 1), (65535, 2), (16777214, 3), (16777215, 3), (254, 1), (65534, 2),
     (16777208, 3), (16777206, 3), (16777209, 3), (16777211, 3), (16777212, 3), (16777210, 3),
     (16777207, 3), (16777213, 3)]"

definition entry_ok :: "nat \<Rightarrow> nat \<Rightarrow> nat \<Rightarrow> u16 \<Rightarrow> bool" where
  "entry_ok p d b e \<longleftrightarrow> e < 2 ^ 16 \<and>
     (if e < BRANCH then
        1 \<le> e div 256 \<and> e div 256 \<le> 8 \<and> code_len (e mod 256) = 8 * d + e div 256
        \<and> code_of (e mod 256) = p * 2 ^ (e div 256) + b div 2 ^ (8 - e div 256)
      else let t = (e - BRANCH) div 256
        in if t = 0 then d = 3 \<and> p = 2 ^ 24 - 1 \<and> 252 \<le> b
           else t < 15 \<and> table_prefix ! t = (p * 256 + b, d + 1))"

fun runs_ok :: "nat \<Rightarrow> nat \<Rightarrow> nat \<Rightarrow> (nat \<times> u16) list \<Rightarrow> bool" where
  "runs_ok p d a [] \<longleftrightarrow> a = 256"
| "runs_ok p d a ((n, e) # rs) \<longleftrightarrow>
     entry_ok p d a e
     \<and> (if e < BRANCH then n = 2 ^ (8 - e div 256) \<and> a mod n = 0
        else (e - BRANCH) div 256 = 0 \<or> n = 1)
     \<and> runs_ok p d (a + n) rs"

lemma code_values: "list_all (\<lambda>(s, c, l). code_of s = c \<and> code_len s = l) code_order"
  using order_codes by (auto simp: list_all_iff code_of_def code_len_def)

lemmas code_vals = code_values [unfolded code_order_def list.pred_inject prod.case]

lemma decode_runs_ok: "list_all2 (\<lambda>(p, d) rs. runs_ok p d 0 rs) table_prefix DECODE_RUNS"
  by (simp add: table_prefix_def DECODE_RUNS_def entry_ok_def BRANCH_def code_vals del: One_nat_def)

lemma runs_length: "runs_ok p d a rs \<Longrightarrow> length (run_expand rs) = 256 - a \<and> a \<le> 256"
  by (induction p d a rs rule: runs_ok.induct) (auto simp: run_expand_def)

lemma runs_entry:
  "runs_ok p d a rs \<Longrightarrow> a \<le> b \<Longrightarrow> b < 256 \<Longrightarrow> entry_ok p d b (run_expand rs ! (b - a))"
proof (induction p d a rs rule: runs_ok.induct)
  case (2 p d a n e rs)
  show ?case
  proof (cases "b < a + n")
    case False
    then have "n \<le> b - a" "b - a - n = b - (a + n)" by linarith+
    then have "run_expand ((n, e) # rs) ! (b - a) = run_expand rs ! (b - (a + n))"
      by (simp add: run_expand_def nth_append)
    then show ?thesis using 2 False by simp
  next
    case True
    then have r: "run_expand ((n, e) # rs) ! (b - a) = e" using 2(3)
      by (simp add: run_expand_def nth_append less_diff_conv2)
    have e: "entry_ok p d a e" using 2(2) by simp
    show ?thesis
    proof (cases "e < BRANCH")
      case leaf: True
      let ?n = "(2::nat) ^ (8 - e div 256)"
      have "a = a div ?n * ?n" "b < a + ?n" using 2(2) leaf True by auto
      then have "b div ?n = a div ?n"
        using 2(3) by (metis add.commute div_nat_eqI mult.commute mult_Suc)
      then show ?thesis using e leaf r by (simp add: entry_ok_def)
    next
      case False
      then show ?thesis using e r 2(2,3) True by (auto simp: entry_ok_def Let_def)
    qed
  qed
qed simp

lemma concat_nth:
  "(\<And>x. x \<in> set xss \<Longrightarrow> length x = 256) \<Longrightarrow> t < length xss \<Longrightarrow> b < 256
   \<Longrightarrow> concat xss ! (t * 256 + b) = xss ! t ! b"
proof (induction xss arbitrary: t)
  case (Cons x xss)
  then show ?case by (cases t) (auto simp: nth_append add.assoc)
qed simp

text \<open>Every entry of every decoding table.\<close>

lemma decode_table_entry:
  assumes "t < 15" and "b < 256"
  shows "entry_ok (fst (table_prefix ! t)) (snd (table_prefix ! t)) b (DECODE_TABLE ! (t * TABLE_WIDTH + b))"
proof -
  have len: "length DECODE_RUNS = 15" by (simp add: DECODE_RUNS_def)
  have ok: "runs_ok (fst (table_prefix ! t)) (snd (table_prefix ! t)) 0 (DECODE_RUNS ! t)" if "t < 15" for t
    using list_all2_nthD2 [OF decode_runs_ok, of t] that len by (simp add: case_prod_beta)
  have "length x = 256" if "x \<in> set (map run_expand DECODE_RUNS)" for x
    using that ok runs_length len by (fastforce simp: in_set_conv_nth)
  then have "DECODE_TABLE ! (t * TABLE_WIDTH + b) = run_expand (DECODE_RUNS ! t) ! b"
    using concat_nth [of "map run_expand DECODE_RUNS" t b] assms len
    by (simp add: DECODE_TABLE_def TABLE_WIDTH_def)
  then show ?thesis using runs_entry [OF ok [OF assms(1)], of b] assms(2) by simp
qed

end
