(* ===== verification/Huffman_Encode.thy ===== *)
theory Huffman_Encode
  imports Huffman_Table
begin

section \<open>Huffman encoding\<close>

text \<open>
  crates/vendor-h2/src/hpack/huffman/encode.rs: the codes are shifted into a 64-bit accumulator that is
  flushed 32 bits at a time; the last byte is padded with ones. The result is stated on the bits of the
  output, most significant first: the codes one after another, then fewer than eight ones.
\<close>

text \<open>The state of the loop: \<open>bits\<close>, \<open>bits_len\<close> and the output.\<close>

type_synonym huff_state = "64 word \<times> nat \<times> bytes"

definition put_be32 :: "32 word \<Rightarrow> bytes" where
  "put_be32 x = [ucast (drop_bit 24 x), ucast (drop_bit 16 x), ucast (drop_bit 8 x), ucast x]"

definition huff_step :: "byte \<Rightarrow> huff_state \<Rightarrow> huff_state" where
  "huff_step b = (\<lambda>(bits, bits_len, dst).
     let nbits = ENCODE_CODE_LENGTHS ! unat b;
         code = (of_nat (ENCODE_CODES ! unat b) :: 64 word);
         bits1 = push_bit nbits bits OR code;
         len1 = bits_len + nbits
     in if 32 \<le> len1 then
          (let remaining = len1 - 32
           in (if remaining = 0 then 0 else bits1 AND (push_bit remaining 1 - 1), remaining,
               dst @ put_be32 (ucast (drop_bit remaining bits1))))
        else (bits1, len1, dst))"

text \<open>The closing loop; \<open>bits_len\<close> is a multiple of 8 there.\<close>

function huff_flush :: "64 word \<Rightarrow> nat \<Rightarrow> bytes" where
  "huff_flush bits n = (if n = 0 then [] else ucast (drop_bit (n - 8) bits) # huff_flush bits (n - 8))"
  by auto
termination by (relation "measure snd") auto

declare huff_flush.simps [simp del]

definition huff_finish :: "huff_state \<Rightarrow> bytes" where
  "huff_finish = (\<lambda>(bits, bits_len, dst).
     if bits_len \<noteq> 0 then
       (let p0 = 8 - bits_len mod 8;
            padding = (if p0 = 8 then 0 else p0)
        in dst @ huff_flush (push_bit padding bits OR (push_bit padding 1 - 1)) (bits_len + padding))
     else dst)"

definition huffman_encode :: "bytes \<Rightarrow> bytes" where
  "huffman_encode src = huff_finish (fold huff_step src (0, 0, []))"

subsection \<open>Bits\<close>

text \<open>The low \<open>n\<close> bits of a word, most significant first.\<close>

primrec wbits :: "nat \<Rightarrow> 'a::len word \<Rightarrow> bool list" where
  "wbits 0 w = []"
| "wbits (Suc n) w = bit w n # wbits n w"

definition stream_bits :: "bytes \<Rightarrow> bool list" where
  "stream_bits bs = concat (map (wbits 8) bs)"

definition code_bits :: "nat \<Rightarrow> bool list" where
  "code_bits s = wbits (code_len s) (of_nat (code_of s) :: 64 word)"

lemma length_wbits [simp]: "length (wbits n w) = n"
  by (induction n) auto

lemma wbits_nth: "i < n \<Longrightarrow> wbits n w ! i = bit w (n - 1 - i)"
  by (induction n arbitrary: i) (auto simp: nth_Cons' Suc_diff_Suc)

lemma wbits_cong: "(\<And>i. i < n \<Longrightarrow> bit w i = bit v i) \<Longrightarrow> wbits n w = wbits n v"
  by (induction n) auto

lemma wbits_append: "wbits (n + m) w = wbits n (drop_bit m w) @ wbits m w"
  by (induction n) (auto simp: bit_drop_bit_eq add.commute)

lemma stream_bits_append [simp]: "stream_bits (a @ b) = stream_bits a @ stream_bits b"
  by (simp add: stream_bits_def)

lemma stream_bits_Nil [simp]: "stream_bits [] = []"
  by (simp add: stream_bits_def)

lemma length_stream_bits: "length (stream_bits bs) = 8 * length bs"
  by (induction bs) (simp_all add: stream_bits_def)

lemma wbits_ucast:
  assumes "n \<le> LENGTH('b)" shows "wbits n (ucast (w :: 'a::len word) :: 'b::len word) = wbits n w"
  by (rule wbits_cong) (use assms in \<open>auto simp: bit_ucast_iff\<close>)

lemma stream_bits_u32: "stream_bits (put_be32 x) = wbits 32 x"
proof -
  have "wbits 32 x = wbits (8 + (8 + (8 + 8))) x" by simp
  also have "\<dots> = wbits 8 (drop_bit 24 x) @ wbits 8 (drop_bit 16 x) @ wbits 8 (drop_bit 8 x) @ wbits 8 x"
    by (subst wbits_append, subst wbits_append, subst wbits_append) simp
  finally show ?thesis by (simp add: put_be32_def stream_bits_def wbits_ucast)
qed

lemma bit_of_nat_small:
  assumes "v < 2 ^ n" and "n \<le> i" shows "\<not> bit (of_nat v :: 'a::len word) i"
proof -
  have "\<not> bit v i"
    using assms by (metis bit_take_bit_iff not_le take_bit_nat_eq_self)
  then show ?thesis by (simp add: bit_of_nat_iff)
qed

subsection \<open>The output\<close>

definition huff_inv :: "huff_state \<Rightarrow> bool list \<Rightarrow> bool" where
  "huff_inv st out = (case st of (bits, bits_len, dst) \<Rightarrow>
     bits_len < 32 \<and> stream_bits dst @ wbits bits_len bits = out)"

lemma wbits_push:
  fixes bits :: "64 word"
  assumes "n + m \<le> 64" and "v < 2 ^ m"
  shows "wbits (n + m) (push_bit m bits OR of_nat v) = wbits n bits @ wbits m (of_nat v :: 64 word)"
proof -
  have "wbits n (drop_bit m (push_bit m bits OR of_nat v)) = wbits n bits"
    using assms bit_of_nat_small [OF assms(2), where 'a = 64]
    by (intro wbits_cong) (auto simp: bit_drop_bit_eq bit_or_iff bit_push_bit_iff)
  moreover have "wbits m (push_bit m bits OR of_nat v) = wbits m (of_nat v :: 64 word)"
    by (intro wbits_cong) (auto simp: bit_or_iff bit_push_bit_iff)
  ultimately show ?thesis by (simp add: wbits_append)
qed

lemma bit_mask_minus: "bit (push_bit n 1 - 1 :: 64 word) i \<longleftrightarrow> i < n \<and> i < 64"
proof -
  have "push_bit n 1 - 1 = (mask n :: 64 word)" by (simp add: mask_eq_exp_minus_1 push_bit_eq_mult)
  then show ?thesis by (auto simp: bit_mask_iff)
qed

lemma bit_ones: "bit (2 ^ n - 1 :: 64 word) i \<longleftrightarrow> i < n \<and> i < 64"
  using bit_mask_minus [of n i] by (simp add: push_bit_eq_mult)

lemma huff_step_inv:
  assumes "huff_inv st out" shows "huff_inv (huff_step b st) (out @ code_bits (unat b))"
proof -
  obtain bits n dst where st: "st = (bits, n, dst)" by (cases st)
  have inv: "n < 32" "stream_bits dst @ wbits n bits = out" using assms by (simp_all add: huff_inv_def st)
  let ?s = "unat b" and ?m = "code_len (unat b)"
  have s: "?s < 256" using unsigned_less [of b] by simp
  have len: "n + ?m \<le> 61" "n + ?m \<le> 64" using inv(1) code_range(2) [OF s] by linarith+
  let ?b1 = "push_bit ?m bits OR of_nat (code_of ?s) :: 64 word"
  have b1: "wbits (n + ?m) ?b1 = wbits n bits @ code_bits ?s"
    unfolding code_bits_def by (rule wbits_push [OF len(2) code_range(3) [OF s]])
  show ?thesis
  proof (cases "32 \<le> n + ?m")
    case False
    then show ?thesis
      using inv b1 by (simp add: st huff_step_def huff_inv_def Let_def code_of_def code_len_def)
  next
    case True
    define r where "r = n + ?m - 32"
    define b1 where "b1 = ?b1"
    define b2 where "b2 = (if r = 0 then 0 else b1 AND (push_bit r 1 - 1))"
    define x where "x = (ucast (drop_bit r b1) :: 32 word)"
    have r: "n + ?m = 32 + r" "r < 32" using True len(1) by (simp_all add: r_def)
    have "wbits n bits @ code_bits ?s = wbits 32 (drop_bit r b1) @ wbits r b1"
      using b1 by (simp add: r(1) b1_def [symmetric] wbits_append)
    also have "wbits r b1 = wbits r b2"
    proof (cases "r = 0")
      case False
      then show ?thesis using r(2) by (intro wbits_cong) (auto simp: b2_def bit_and_iff bit_ones)
    qed simp
    also have "wbits 32 (drop_bit r b1) = stream_bits (put_be32 x)"
      by (simp add: x_def stream_bits_u32 wbits_ucast)
    finally have "stream_bits (dst @ put_be32 x) @ wbits r b2 = out @ code_bits ?s"
      using inv(2) by (metis append_assoc stream_bits_append)
    moreover have "huff_step b st = (b2, r, dst @ put_be32 x)"
      using True unfolding st huff_step_def b2_def x_def b1_def r_def code_of_def code_len_def Let_def
      by simp
    ultimately show ?thesis using r(2) by (simp add: huff_inv_def)
  qed
qed

lemma huff_fold_inv:
  "huff_inv st out \<Longrightarrow> huff_inv (fold huff_step src st) (out @ concat (map (\<lambda>b. code_bits (unat b)) src))"
proof (induction src arbitrary: st out)
  case (Cons b src)
  from Cons.IH [OF huff_step_inv [OF Cons.prems, of b]] show ?case by simp
qed simp

lemma huff_flush_bits: "stream_bits (huff_flush bits (8 * k)) = wbits (8 * k) bits"
proof (induction k)
  case (Suc k)
  have "huff_flush bits (8 * Suc k) = ucast (drop_bit (8 * k) bits) # huff_flush bits (8 * k)"
    by (subst huff_flush.simps) simp
  moreover have "wbits (8 * Suc k) bits = wbits 8 (drop_bit (8 * k) bits) @ wbits (8 * k) bits"
    using wbits_append [of 8 "8 * k" bits] by simp
  ultimately show ?case using Suc by (simp add: stream_bits_def wbits_ucast)
qed (simp add: huff_flush.simps)

lemma wbits_ones: "n \<le> 64 \<Longrightarrow> wbits n (push_bit n 1 - 1 :: 64 word) = replicate n True"
  by (rule nth_equalityI) (auto simp: wbits_nth bit_ones)

lemma huffman_encode_bits:
  "\<exists>p < 8. stream_bits (huffman_encode src) = concat (map (\<lambda>b. code_bits (unat b)) src) @ replicate p True"
proof -
  let ?out = "concat (map (\<lambda>b. code_bits (unat b)) src)"
  obtain bits n dst where f: "fold huff_step src (0, 0, []) = (bits, n, dst)"
    by (cases "fold huff_step src (0, 0, [])")
  have "huff_inv (0, 0, []) []" by (simp add: huff_inv_def)
  from huff_fold_inv [OF this, of src] have inv: "n < 32" "stream_bits dst @ wbits n bits = ?out"
    by (simp_all add: f huff_inv_def)
  show ?thesis
  proof (cases "n = 0")
    case True
    then show ?thesis using inv(2) f by (intro exI [of _ 0]) (simp add: huffman_encode_def huff_finish_def)
  next
    case False
    define p where "p = (if 8 - n mod 8 = 8 then 0 else 8 - n mod 8)"
    have p: "p < 8" by (auto simp: p_def)
    have "(n + p) mod 8 = 0" unfolding p_def by presburger
    then obtain k where k: "n + p = 8 * k" by auto
    let ?v = "2 ^ p - 1 :: nat"
    have v: "(of_nat ?v :: 64 word) = push_bit p 1 - 1" by (simp add: push_bit_eq_mult of_nat_diff)
    have "wbits (n + p) (push_bit p bits OR (push_bit p 1 - 1)) = wbits n bits @ replicate p True"
      using wbits_push [of n p ?v bits] inv(1) p wbits_ones [of p] by (simp add: v)
    then have "stream_bits (huffman_encode src) = ?out @ replicate p True"
      using inv(2) False huff_flush_bits [of "push_bit p bits OR (push_bit p 1 - 1)" k]
      by (simp add: huffman_encode_def huff_finish_def f Let_def p_def [symmetric] k)
    then show ?thesis using p by blast
  qed
qed

end
