(* ===== verification/Huffman_Decode.thy ===== *)
theory Huffman_Decode
  imports Huffman_Encode "HOL-Library.Sublist"
begin

section \<open>Huffman decoding\<close>

text \<open>
  crates/vendor-h2/src/hpack/huffman/decode.rs. The decoder keeps a 64-bit window of the input and looks
  twelve bits up in a table of one or two symbols; longer codes, and the end of the input, go through
  the byte-wise tables. Results are nested options: \<open>None\<close> is a panic (an index out of range) or a
  loop that does not end, \<open>Some None\<close> is \<open>InvalidHuffmanCode\<close>. The buffer \<open>dst\<close> is the output so far,
  with its capacity as a bound on where the code writes.

  \<open>reference_decode\<close> is the reference decoder of the file's tests.
\<close>

type_synonym 'a huff = "'a option option"

definition FAST_BITS :: nat where "FAST_BITS = 12"

subsection \<open>The fast table\<close>

definition fill_run :: "nat \<Rightarrow> nat \<Rightarrow> u32 \<Rightarrow> u32 list \<Rightarrow> u32 list" where
  "fill_run base n v table = fold (\<lambda>i t. t[base + i := v]) [0..<n] table"

definition fast_single :: "nat \<Rightarrow> u32 list \<Rightarrow> u32 list" where
  "fast_single a table =
     (let len1 = ENCODE_CODE_LENGTHS ! a; code1 = ENCODE_CODES ! a
      in if len1 \<le> FAST_BITS then
           let rem = FAST_BITS - len1;
               base = push_bit rem code1;
               single = push_bit 16 1 OR push_bit 24 len1 OR a
           in fill_run base (push_bit rem 1) single table
         else table)"

definition fast_pair :: "nat \<Rightarrow> nat \<Rightarrow> u32 list \<Rightarrow> u32 list" where
  "fast_pair a b table =
     (let len1 = ENCODE_CODE_LENGTHS ! a; code1 = ENCODE_CODES ! a; rem = FAST_BITS - len1;
          len2 = ENCODE_CODE_LENGTHS ! b; code2 = ENCODE_CODES ! b
      in if len2 \<le> rem then
           let rem2 = rem - len2;
               base = push_bit rem code1 OR push_bit rem2 code2;
               pair = push_bit 16 2 OR push_bit 24 (len1 + len2) OR push_bit 8 b OR a
           in fill_run base (push_bit rem2 1) pair table
         else table)"

definition fast_pairs :: "nat \<Rightarrow> u32 list \<Rightarrow> u32 list" where
  "fast_pairs a table =
     (if ENCODE_CODE_LENGTHS ! a + 5 \<le> FAST_BITS then fold (fast_pair a) [0..<256] table else table)"

definition FAST_DECODE_TABLE :: "u32 list" where
  "FAST_DECODE_TABLE =
     fold fast_pairs [0..<256] (fold fast_single [0..<256] (replicate (push_bit FAST_BITS 1) 0))"

subsection \<open>The decoder\<close>

text \<open>\<open>decode_code_slow\<close>, first without the buffer: the symbol, the window and its valid bits.\<close>

function code_slow :: "nat \<Rightarrow> 64 word \<Rightarrow> nat \<Rightarrow> (byte \<times> 64 word \<times> nat) huff" where
  "code_slow table acc bits =
     (let i = table * TABLE_WIDTH + unat (drop_bit 56 acc); e = DECODE_TABLE ! i
      in if length DECODE_TABLE \<le> i then None
         else if e AND BRANCH = 0 then
           (let used = drop_bit 8 e
            in if bits < used then Some None
               else Some (Some (of_nat e, push_bit used acc, bits - used)))
         else if bits < 8 then Some None
         else let t = drop_bit 8 (e AND TABLE_INDEX_MASK)
              in if t = 0 then Some None else code_slow t (push_bit 8 acc) (bits - 8))"
  by pat_completeness auto
termination by (relation "measure (\<lambda>(t, acc, bits). bits)") auto

declare code_slow.simps [simp del]

record window =
  wd_acc :: "64 word"
  wd_bits :: nat
  wd_out :: bytes

definition decode_code_slow :: "nat \<Rightarrow> window \<Rightarrow> window huff" where
  "decode_code_slow cap st =
     Option.bind (code_slow 0 (wd_acc st) (wd_bits st)) (\<lambda>r.
       case r of
         None \<Rightarrow> Some None
       | Some (b, acc, bits) \<Rightarrow>
           (if length (wd_out st) < cap
            then Some (Some \<lparr>wd_acc = acc, wd_bits = bits, wd_out = wd_out st @ [b]\<rparr>) else None))"

text \<open>The bit buffer is filled eight bytes at a time, or byte by byte near the end.\<close>

definition be_u64 :: "bytes \<Rightarrow> 64 word" where
  "be_u64 bs = fold (\<lambda>b w. push_bit 8 w OR ucast b) bs 0"

function refill_bytes :: "bytes \<Rightarrow> nat \<Rightarrow> window \<Rightarrow> nat \<times> window" where
  "refill_bytes src pos st =
     (if wd_bits st \<le> 56 \<and> pos < length src
      then refill_bytes src (pos + 1)
             (st\<lparr>wd_acc := wd_acc st OR push_bit (56 - wd_bits st) (ucast (src ! pos)),
                 wd_bits := wd_bits st + 8\<rparr>)
      else (pos, st))"
  by pat_completeness auto
termination by (relation "measure (\<lambda>(src, pos, st). length src - pos)") auto

declare refill_bytes.simps [simp del]

definition refill :: "bytes \<Rightarrow> nat \<Rightarrow> window \<Rightarrow> nat \<times> window" where
  "refill src pos st =
     (if pos + 8 \<le> length src then
        (pos + drop_bit 3 (63 - wd_bits st),
         st\<lparr>wd_acc := wd_acc st OR drop_bit (wd_bits st) (be_u64 (take 8 (drop pos src))),
            wd_bits := wd_bits st OR 56\<rparr>)
      else refill_bytes src pos st)"

text \<open>The fast loop; \<open>True\<close> is \<open>continue 'outer\<close>.\<close>

partial_function (option) fast_loop :: "nat \<Rightarrow> nat \<Rightarrow> nat \<Rightarrow> window \<Rightarrow> (window \<times> bool) huff" where
  "fast_loop len cap pos st =
     (if wd_bits st < FAST_BITS then Some (Some (st, False))
      else
        let entry = FAST_DECODE_TABLE ! unat (drop_bit (64 - FAST_BITS) (wd_acc st));
            count = drop_bit 16 entry AND 255;
            consumed = drop_bit 24 entry
        in if count = 0 then
             (if wd_bits st < 30 \<and> pos < len then Some (Some (st, True))
              else Option.bind (decode_code_slow cap st) (\<lambda>r.
                case r of None \<Rightarrow> Some None | Some st' \<Rightarrow> fast_loop len cap pos st'))
           else if length (wd_out st) + 1 < cap then
             fast_loop len cap pos
               \<lparr>wd_acc = push_bit consumed (wd_acc st), wd_bits = usize_sub (wd_bits st) consumed,
                wd_out = wd_out st @ take count [of_nat entry, of_nat (drop_bit 8 entry)]\<rparr>
           else None)"

partial_function (option) outer_loop :: "bytes \<Rightarrow> nat \<Rightarrow> nat \<Rightarrow> window \<Rightarrow> window huff" where
  "outer_loop src cap pos st =
     (let filled = refill src pos st
      in Option.bind (fast_loop (length src) cap (fst filled) (snd filled)) (\<lambda>r.
        case r of
          None \<Rightarrow> Some None
        | Some p \<Rightarrow>
            (if snd p then outer_loop src cap (fst filled) (fst p)
             else if length src \<le> fst filled then Some (Some (fst p))
             else outer_loop src cap (fst filled) (fst p))))"

partial_function (option) tail_loop :: "nat \<Rightarrow> window \<Rightarrow> bytes huff" where
  "tail_loop cap st =
     (if wd_bits st = 0 then Some (Some (wd_out st))
      else if wd_bits st < 8 \<and> drop_bit (64 - wd_bits st) (wd_acc st) = push_bit (wd_bits st) 1 - 1
      then Some (Some (wd_out st))
      else Option.bind (decode_code_slow cap st) (\<lambda>r.
        case r of None \<Rightarrow> Some None | Some st' \<Rightarrow> tail_loop cap st'))"

definition huffman_decode_run :: "bytes \<Rightarrow> bytes huff" where
  "huffman_decode_run src =
     (let cap = length src * 8 div 5 + 1
      in Option.bind (outer_loop src cap 0 \<lparr>wd_acc = 0, wd_bits = 0, wd_out = []\<rparr>) (\<lambda>r.
           case r of None \<Rightarrow> Some None | Some st \<Rightarrow> tail_loop cap st))"

definition huffman_decode :: "bytes \<Rightarrow> bytes option" where
  "huffman_decode src = Option.bind (huffman_decode_run src) id"

subsection \<open>The reference decoder\<close>

definition code_match :: "bool list \<Rightarrow> nat option" where
  "code_match r = find (\<lambda>s. prefix (code_bits s) r) [0..<256]"

lemma code_match_SomeD: "code_match r = Some s \<Longrightarrow> s < 256 \<and> prefix (code_bits s) r"
  by (auto simp: code_match_def find_Some_iff)

lemma length_code_bits [simp]: "length (code_bits s) = code_len s"
  by (simp add: code_bits_def)

function ref_loop :: "bool list \<Rightarrow> bytes \<Rightarrow> bool list \<times> bytes" where
  "ref_loop r out =
     (case code_match r of
        Some s \<Rightarrow> ref_loop (drop (length (code_bits s)) r) (out @ [of_nat s])
      | None \<Rightarrow> (r, out))"
  by pat_completeness auto
termination
proof (relation "measure (\<lambda>(r, out). length r)")
  fix r :: "bool list" and out :: bytes and s
  assume "code_match r = Some s"
  from code_match_SomeD [OF this] have "s < 256" "length (code_bits s) \<le> length r"
    by (auto dest: prefix_length_le)
  then show "((drop (length (code_bits s)) r, out @ [of_nat s]), r, out) \<in> measure (\<lambda>(r, out). length r)"
    using code_range(1) [of s] by simp
qed simp

declare ref_loop.simps [simp del]

definition ref_result :: "bool list \<Rightarrow> bytes \<Rightarrow> bytes option" where
  "ref_result r out =
     (case ref_loop r out of (rest, decoded) \<Rightarrow>
        if 8 \<le> length rest \<or> False \<in> set rest then None else Some decoded)"

definition reference_decode :: "bytes \<Rightarrow> bytes option" where
  "reference_decode src = ref_result (stream_bits src) []"

lemma ref_result_step:
  "code_match r = Some s \<Longrightarrow> ref_result r out = ref_result (drop (code_len s) r) (out @ [of_nat s])"
  by (simp add: ref_result_def ref_loop.simps [of r])

lemma ref_result_stop:
  "code_match r = None \<Longrightarrow> ref_result r out = (if 8 \<le> length r \<or> False \<in> set r then None else Some out)"
  by (simp add: ref_result_def ref_loop.simps)

end
