(* ===== verification/Huffman_Correct.thy ===== *)
theory Huffman_Correct
  imports Huffman_Decode
begin

section \<open>The Huffman decoder is its reference\<close>

text \<open>
  The window of the decoder against the bits that remain: what the byte-wise tables find, what an entry
  of the fast table stands for, and how the loops follow \<open>reference_decode\<close>, without a panic.
\<close>

subsection \<open>Codes at the top of a window\<close>

definition code_at :: "nat \<Rightarrow> 64 word \<Rightarrow> bool" where
  "code_at s acc \<longleftrightarrow> s < 256 \<and> unat acc div 2 ^ (64 - code_len s) = code_of s"

lemma code_at_begins: "code_at s acc \<longleftrightarrow> begins s (unat acc div 2 ^ 34)"
proof (cases "s < 256")
  case True
  then have "34 + (30 - code_len s) = 64 - code_len s" using code_range(2) [of s] by simp
  then have "unat acc div 2 ^ 34 div 2 ^ (30 - code_len s) = unat acc div 2 ^ (64 - code_len s)"
    by (metis div_mult2_eq power_add)
  then show ?thesis by (simp add: code_at_def begins_def)
qed (simp add: code_at_def begins_def)

lemma code_at_unique: "code_at s acc \<Longrightarrow> code_at s' acc \<Longrightarrow> s = s'"
  by (metis begins_unique code_at_begins)

lemma nat_div_split: "(x :: nat) div 2 ^ a div 2 ^ b = x div 2 ^ (a + b)"
  by (simp add: div_mult2_eq power_add)

lemma unat_drop_bit: "unat (drop_bit n (acc :: 64 word)) = unat acc div 2 ^ n"
proof -
  have "unat (drop_bit n acc) = drop_bit n (unat acc)" 
    by (rule bit_eqI) (use bit_imp_le_length in \<open>auto simp: bit_unsigned_iff bit_drop_bit_eq\<close>)
  then show ?thesis by (simp only: drop_bit_eq_div)
qed

lemma window_top:
  fixes acc :: "64 word"
  assumes "k + m \<le> 64"
  shows "unat (push_bit k acc) div 2 ^ (64 - m) = unat acc div 2 ^ (64 - m - k) mod 2 ^ m"
proof -
  have "drop_bit (64 - m) (push_bit k acc) = take_bit m (drop_bit (64 - m - k) acc)"
    by (rule bit_word_eqI) (use assms in \<open>auto simp: bit_drop_bit_eq bit_push_bit_iff bit_take_bit_iff\<close>)
  then have "unat (drop_bit (64 - m) (push_bit k acc)) = unat (take_bit m (drop_bit (64 - m - k) acc))"
    by (rule arg_cong)
  then show ?thesis unfolding unsigned_take_bit_eq by (simp add: unat_drop_bit take_bit_eq_mod)
qed

lemma code_at_push:
  assumes "k + code_len s \<le> 64" and "s < 256"
  shows "code_at s (push_bit k acc) \<longleftrightarrow> unat acc div 2 ^ (64 - code_len s - k) mod 2 ^ code_len s = code_of s"
  using assms by (simp add: code_at_def window_top)

subsection \<open>The byte-wise tables\<close>

lemma nat_and_127: "(x :: nat) AND 127 = x mod 128"
  using take_bit_eq_mask [of 7 x] by (simp add: mask_eq_exp_minus_1 take_bit_eq_mod)

lemma table_prefix_depth: "t < 15 \<Longrightarrow> snd (table_prefix ! t) \<le> 3"
proof -
  assume "t < 15"
  moreover have "list_all (\<lambda>(p, d). d \<le> 3) table_prefix" "length table_prefix = 15"
    by (simp_all add: table_prefix_def)
  ultimately show ?thesis by (auto simp: list_all_length case_prod_beta)
qed

lemma entry_branch: 
  assumes "(e::nat) < 2 ^ 16"
  shows "e AND BRANCH = 0 \<longleftrightarrow> e < BRANCH"
    and "\<not> e < BRANCH \<Longrightarrow> drop_bit 8 (e AND TABLE_INDEX_MASK) = (e - BRANCH) div 256"
proof -
  have "e AND 2 ^ 15 = 0 \<longleftrightarrow> \<not> bit e 15" by (rule and_exp_eq_0_iff_not_bit)
  moreover have "bit e 15 \<longleftrightarrow> \<not> e < 2 ^ 15"
    using assms by (auto simp: bit_iff_odd odd_iff_mod_2_eq_one)
  ultimately show "e AND BRANCH = 0 \<longleftrightarrow> e < BRANCH" by (simp add: BRANCH_def)
  assume ge: "\<not> e < BRANCH"
  have "drop_bit 8 TABLE_INDEX_MASK = 127" by (simp add: TABLE_INDEX_MASK_def drop_bit_eq_div)
  then have "drop_bit 8 (e AND TABLE_INDEX_MASK) = drop_bit 8 e AND 127"
    by (simp only: drop_bit_and)
  also have "\<dots> = (e div 256) mod 128" by (simp add: nat_and_127 drop_bit_eq_div)
  also have "\<dots> = (e - BRANCH) div 256"
  proof -
    obtain r where r: "e = r + 128 * 256" "r < 2 ^ 15"
      using assms ge that [of "e - BRANCH"] by (simp add: BRANCH_def)
    have "e div 256 = r div 256 + 128" 
      using div_mult_self1 [of 256 r 128] unfolding r(1) by simp
    moreover have "r div 256 < 128" using r(2) by simp
    ultimately show ?thesis by (simp add: r(1) BRANCH_def)
  qed
  finally show "drop_bit 8 (e AND TABLE_INDEX_MASK) = (e - BRANCH) div 256" .
qed

lemma slow_entry:
  fixes acc :: "64 word"
  assumes t: "t < 15" and p: "table_prefix ! t = (p, d)" and acc: "unat acc div 2 ^ (64 - 8 * d) = p"
    and bd: "b = unat (drop_bit 56 (push_bit (8 * d) acc))"
  shows "b < 256" and "unat acc div 2 ^ (56 - 8 * d) = p * 256 + b"
    and "entry_ok p d b (DECODE_TABLE ! (t * TABLE_WIDTH + b))"
proof -
  have d: "d \<le> 3" using table_prefix_depth [OF t] p by simp
  have "b = unat (push_bit (8 * d) acc) div 2 ^ 56" unfolding bd by (rule unat_drop_bit)
  also have "56 = 64 - (8 :: nat)" by simp
  also have "unat (push_bit (8 * d) acc) div 2 ^ (64 - 8) = unat acc div 2 ^ (64 - 8 - 8 * d) mod 2 ^ 8"
    using d by (intro window_top) simp
  finally have b: "b = unat acc div 2 ^ (56 - 8 * d) mod 256" by simp
  then show b256: "b < 256" by simp
  have "unat acc div 2 ^ (56 - 8 * d) div 2 ^ 8 = unat acc div 2 ^ (56 - 8 * d + 8)" by (rule nat_div_split)
  also have "56 - 8 * d + 8 = 64 - 8 * d" using d by simp
  finally have "unat acc div 2 ^ (56 - 8 * d) div 256 = p" using acc by simp
  then show "unat acc div 2 ^ (56 - 8 * d) = p * 256 + b" 
    unfolding b by (metis div_mult_mod_eq)
  show "entry_ok p d b (DECODE_TABLE ! (t * TABLE_WIDTH + b))"
    using decode_table_entry [OF t b256] p by simp
qed

text \<open>A branch at depth \<open>d\<close>: only longer codes can be at the top of the window.\<close>

lemma leaf_code:
  assumes "unat acc div 2 ^ (56 - 8 * d) = p * 256 + b" and "d \<le> 3" and "entry_ok p d b e" and "e < BRANCH"
  shows "code_at (e mod 256) acc" and "code_len (e mod 256) = 8 * d + e div 256"
proof -
  let ?s = "e mod 256" and ?u = "e div 256"
  have l: "1 \<le> ?u" "?u \<le> 8" "code_len ?s = 8 * d + ?u" "code_of ?s = p * 2 ^ ?u + b div 2 ^ (8 - ?u)"
    using assms(3,4) by (simp_all add: entry_ok_def)
  from l(3) show "code_len ?s = 8 * d + ?u" .
  have "unat acc div 2 ^ (64 - code_len ?s) = unat acc div 2 ^ (56 - 8 * d + (8 - ?u))"
    using l(1-3) assms(2) by (intro arg_cong [where f = "\<lambda>n. unat acc div 2 ^ n"]) simp
  also have "\<dots> = (p * 256 + b) div 2 ^ (8 - ?u)" using assms(1) by (simp flip: nat_div_split)
  also have "p * 256 = p * 2 ^ ?u * 2 ^ (8 - ?u)" using l(2) by (simp add: mult.assoc flip: power_add)
  also have "(p * 2 ^ ?u * 2 ^ (8 - ?u) + b) div 2 ^ (8 - ?u) = p * 2 ^ ?u + b div 2 ^ (8 - ?u)"
    by simp
  finally show "code_at ?s acc" using l(4) by (simp add: code_at_def)
qed

lemma branch_eos:
  fixes acc :: "64 word"
  assumes "t < 15" and "table_prefix ! t = (p, d)" and "unat acc div 2 ^ (64 - 8 * d) = p"
    and "b = unat (drop_bit 56 (push_bit (8 * d) acc))"
    and "\<not> DECODE_TABLE ! (t * TABLE_WIDTH + b) < BRANCH"
    and "(DECODE_TABLE ! (t * TABLE_WIDTH + b) - BRANCH) div 256 = 0"
  shows "\<not> code_at s acc"
proof -
  note en = slow_entry [OF assms(1-4)]
  have "d = 3" "p = 2 ^ 24 - 1" "252 \<le> b" using en(3) assms(5,6) by (simp_all add: entry_ok_def Let_def)
  then have "unat acc div 2 ^ 32 div 2 ^ 2 = 2 ^ 30 - 1" using en(1,2) by simp
  then have "unat acc div 2 ^ 34 = 2 ^ 30 - 1" unfolding nat_div_split by simp
  then show ?thesis using eos_begins_nothing by (simp add: code_at_begins)
qed

lemma branch_next:
  assumes "entry_ok p d b e" and "\<not> e < BRANCH" and "(e - BRANCH) div 256 \<noteq> 0"
  shows "(e - BRANCH) div 256 < 15" and "table_prefix ! ((e - BRANCH) div 256) = (p * 256 + b, d + 1)"
  using assms by (simp_all add: entry_ok_def Let_def)

lemma branch_longer:
  assumes "t < 15" and "table_prefix ! t = (p, d)" and "unat acc div 2 ^ (64 - 8 * d) = p"
    and "b = unat (drop_bit 56 (push_bit (8 * d) acc))"
    and "\<not> DECODE_TABLE ! (t * TABLE_WIDTH + b) < BRANCH" and "code_at s acc"
  shows "8 * d + 8 < code_len s"
  using assms
proof (induction "4 - d" arbitrary: t p d b rule: less_induct)
  case less
  let ?e = "DECODE_TABLE ! (t * TABLE_WIDTH + b)"
  note en = slow_entry [OF less.prems(1-4)]
  have d: "d \<le> 3" using table_prefix_depth [OF less.prems(1)] less.prems(2) by simp
  have "(?e - BRANCH) div 256 \<noteq> 0" using branch_eos [OF less.prems(1-5)] less.prems(6) by blast
  note t = branch_next [OF en(3) less.prems(5) this]
  have d1: "d + 1 \<le> 3" using table_prefix_depth [OF t(1)] t(2) by simp
  have acc: "unat acc div 2 ^ (64 - 8 * (d + 1)) = p * 256 + b" using en(2) d1 by simp
  obtain b' where b': "b' = unat (drop_bit 56 (push_bit (8 * (d + 1)) acc))" by blast
  note en' = slow_entry [OF t acc b']
  show ?case
  proof (cases "DECODE_TABLE ! ((?e - BRANCH) div 256 * TABLE_WIDTH + b') < BRANCH")
    case True
    note leaf = leaf_code [OF en'(2) d1 en'(3) True]
    have "1 \<le> DECODE_TABLE ! ((?e - BRANCH) div 256 * TABLE_WIDTH + b') div 256"
      using en'(3) True by (simp add: entry_ok_def)
    then show ?thesis using code_at_unique [OF less.prems(6) leaf(1)] leaf(2) by simp
  next
    case False
    have "4 - (d + 1) < 4 - d" using d by simp
    from less.hyps [OF this t acc b' False less.prems(6)] show ?thesis by simp
  qed
qed

text \<open>What the byte-wise tables answer for a window with \<open>n\<close> valid bits.\<close>

definition slow_answer :: "64 word \<Rightarrow> nat \<Rightarrow> (byte \<times> 64 word \<times> nat) huff" where
  "slow_answer acc n =
     (case find (\<lambda>s. code_at s acc \<and> code_len s \<le> n) [0..<256] of
        Some s \<Rightarrow> Some (Some (of_nat s, push_bit (code_len s) acc, n - code_len s))
      | None \<Rightarrow> Some None)"

lemma slow_answer_code:
  assumes "code_at s acc" and "code_len s \<le> n"
  shows "slow_answer acc n = Some (Some (of_nat s, push_bit (code_len s) acc, n - code_len s))"
proof (cases "find (\<lambda>s. code_at s acc \<and> code_len s \<le> n) [0..<256]")
  case None
  then show ?thesis using assms by (auto simp: find_None_iff code_at_def)
next
  case (Some s')
  then have "code_at s' acc" by (auto simp: find_Some_iff)
  then have "s' = s" using assms(1) code_at_unique by blast
  then show ?thesis using Some by (simp add: slow_answer_def)
qed

lemma slow_answer_fail:
  assumes "\<And>s. code_at s acc \<Longrightarrow> n < code_len s" shows "slow_answer acc n = Some None"
proof -
  have "find (\<lambda>s. code_at s acc \<and> code_len s \<le> n) [0..<256] = None"
    using assms by (force simp: find_None_iff)
  then show ?thesis by (simp add: slow_answer_def)
qed

lemma table_length: "length DECODE_TABLE = 15 * TABLE_WIDTH"
proof -
  have "list_all (\<lambda>rs. length (run_expand rs) = 256) DECODE_RUNS"
    using decode_runs_ok runs_length
    by (fastforce simp: list_all2_conv_all_nth list_all_length case_prod_beta)
  then have "map length (map run_expand DECODE_RUNS) = map (\<lambda>_. 256) DECODE_RUNS"
    by (simp add: list_all_iff)
  then show ?thesis
    by (simp add: DECODE_TABLE_def length_concat TABLE_WIDTH_def) (simp add: DECODE_RUNS_def)
qed

lemma of_nat_byte: "(of_nat e :: byte) = of_nat (e mod 256)"
  by (simp add: word_of_nat_eq_iff take_bit_eq_mod)

lemma code_slow_at:
  assumes "b = unat (drop_bit 56 acc)" and "t * TABLE_WIDTH + b < length DECODE_TABLE"
    and "e = DECODE_TABLE ! (t * TABLE_WIDTH + b)" and "e < 2 ^ 16"
  shows "code_slow t acc n =
     (if e < BRANCH then
        if n < e div 256 then Some None else Some (Some (of_nat e, push_bit (e div 256) acc, n - e div 256))
      else if n < 8 then Some None
      else if (e - BRANCH) div 256 = 0 then Some None
      else code_slow ((e - BRANCH) div 256) (push_bit 8 acc) (n - 8))"
proof -
  have d: "drop_bit 8 e = e div 256" by (simp add: drop_bit_eq_div)
  have "code_slow t acc n =
     (if e AND BRANCH = 0 then
        if n < drop_bit 8 e then Some None else Some (Some (of_nat e, push_bit (drop_bit 8 e) acc, n - drop_bit 8 e))
      else if n < 8 then Some None
      else if drop_bit 8 (e AND TABLE_INDEX_MASK) = 0 then Some None
      else code_slow (drop_bit 8 (e AND TABLE_INDEX_MASK)) (push_bit 8 acc) (n - 8))"
    using assms(2) by (subst code_slow.simps) (simp only: Let_def flip: assms(1,3), simp)
  then show ?thesis unfolding d using entry_branch [OF assms(4)] by simp
qed

lemma code_slow_answer:
  assumes "t < 15" and "table_prefix ! t = (p, d)" and "unat acc div 2 ^ (64 - 8 * d) = p"
  shows "code_slow t (push_bit (8 * d) acc) n = slow_answer acc (8 * d + n)"
  using assms
proof (induction "4 - d" arbitrary: t p d n rule: less_induct)
  case less
  obtain b where b: "b = unat (drop_bit 56 (push_bit (8 * d) acc))" by blast
  obtain e where e: "e = DECODE_TABLE ! (t * TABLE_WIDTH + b)" by blast
  note en = slow_entry [OF less.prems b]
  have d: "d \<le> 3" using table_prefix_depth [OF less.prems(1)] less.prems(2) by simp
  have e16: "e < 2 ^ 16" using en(3) by (simp add: entry_ok_def e)
  have i: "t * TABLE_WIDTH + b < length DECODE_TABLE"
    using less.prems(1) en(1) by (simp add: table_length TABLE_WIDTH_def)
  show ?case
  proof (cases "e < BRANCH")
    case True
    note leaf = leaf_code [OF en(2) d en(3)] 
    have l: "code_at (e mod 256) acc" "code_len (e mod 256) = 8 * d + e div 256"
      using leaf True e by simp_all
    have "code_slow t (push_bit (8 * d) acc) n
        = (if n < e div 256 then Some None
           else Some (Some (of_nat e, push_bit (e div 256) (push_bit (8 * d) acc), n - e div 256)))"
      using True code_slow_at [OF b i e e16] by simp
    also have "\<dots> = slow_answer acc (8 * d + n)"
    proof (cases "n < e div 256")
      case True
      have "slow_answer acc (8 * d + n) = Some None"
        by (rule slow_answer_fail) (use code_at_unique [OF l(1)] l(2) True in force)
      then show ?thesis using True by simp
    next
      case False
      then show ?thesis using slow_answer_code [OF l(1), of "8 * d + n"] l(2)
        by (simp add: push_bit_push_bit add.commute of_nat_byte [of e])
    qed
    finally show ?thesis .
  next
    case False
    note fb = False [unfolded e]
    let ?t = "(e - BRANCH) div 256"
    have step: "code_slow t (push_bit (8 * d) acc) n
        = (if n < 8 then Some None else if ?t = 0 then Some None
           else code_slow ?t (push_bit 8 (push_bit (8 * d) acc)) (n - 8))"
      using False code_slow_at [OF b i e e16] by simp
    consider "n < 8" | "8 \<le> n" "?t = 0" | "8 \<le> n" "?t \<noteq> 0" by linarith
    then show ?thesis
    proof cases
      case 1
      have "slow_answer acc (8 * d + n) = Some None"
        by (rule slow_answer_fail) (use branch_longer [OF less.prems b fb] 1 in force)
      then show ?thesis using 1 step by simp
    next
      case 2
      have "slow_answer acc (8 * d + n) = Some None"
        by (rule slow_answer_fail) (use branch_eos [OF less.prems b fb] 2 e in simp)
      then show ?thesis using 2 step by simp
    next
      case 3
      note t = branch_next [OF en(3) fb, folded e, OF 3(2)]
      have d1: "d + 1 \<le> 3" using table_prefix_depth [OF t(1)] t(2) by simp
      have acc: "unat acc div 2 ^ (64 - 8 * (d + 1)) = p * 256 + b" using en(2) d1 by simp
      have "4 - (d + 1) < 4 - d" using d by simp
      from less.hyps [OF this t acc, of "n - 8"] show ?thesis
        using 3 step by (simp add: push_bit_push_bit add.commute)
    qed
  qed
qed

lemma slow_top: "code_slow 0 acc n = slow_answer acc n"
proof -
  have "table_prefix ! 0 = (0, 0)" by (simp add: table_prefix_def)
  moreover have "unat acc < 2 ^ LENGTH(64)" by (rule unsigned_less)
  ultimately show ?thesis using code_slow_answer [of 0 0 0 acc n] by simp
qed

subsection \<open>Codes at the front of the remaining bits\<close>

lemma prefix_take_iff: "prefix xs ys \<longleftrightarrow> take (length xs) ys = xs"
  by (metis append_eq_conv_conj prefix_def append_take_drop_id)

lemma wbits_inj:
  assumes "wbits n w = wbits n v" and "\<And>i. n \<le> i \<Longrightarrow> bit w i = bit v i"
  shows "w = v"
proof (rule bit_eqI)
  fix i
  show "bit w i = bit v i"
  proof (cases "i < n")
    case True
    then have "n - 1 - (n - 1 - i) = i" "n - 1 - i < n" by simp_all
    then show ?thesis using assms(1) wbits_nth [of "n - 1 - i" n] by metis
  qed (use assms(2) in simp)
qed

lemma code_at_word:
  assumes "s < 256"
  shows "code_at s acc \<longleftrightarrow> drop_bit (64 - code_len s) acc = of_nat (code_of s)"
proof -
  have "code_of s < 2 ^ 64"
    using code_range(2,3) [OF assms] power_increasing [of "code_len s" 64 "2 :: nat"] by simp
  then have "unat (of_nat (code_of s) :: 64 word) = code_of s" 
    by (simp add: unsigned_of_nat take_bit_nat_eq_self)
  then show ?thesis using assms by (simp add: code_at_def unat_drop_bit word_unat_eq_iff)
qed

text \<open>\<open>acc\<close> holds the first \<open>n\<close> of the bits \<open>r\<close>.\<close>

definition shows_bits :: "64 word \<Rightarrow> nat \<Rightarrow> bool list \<Rightarrow> bool" where
  "shows_bits acc n r \<longleftrightarrow> n \<le> length r \<and> n \<le> 64 \<and> (\<forall>i < n. bit acc (63 - i) = r ! i)"

lemma shows_wbits:
  assumes "shows_bits acc n r" and "l \<le> n"
  shows "wbits l (drop_bit (64 - l) acc) = take l r"
proof (rule nth_equalityI)
  fix i assume "i < length (wbits l (drop_bit (64 - l) acc))"
  then have i: "i < l" by simp
  moreover have "64 - l + (l - 1 - i) = 63 - i" using i assms by (simp add: shows_bits_def)
  ultimately show "wbits l (drop_bit (64 - l) acc) ! i = take l r ! i"
    using assms by (simp add: wbits_nth bit_drop_bit_eq shows_bits_def)
qed (use assms in \<open>simp add: shows_bits_def\<close>)

lemma code_at_prefix:
  assumes "shows_bits acc n r" and "s < 256" and "code_len s \<le> n"
  shows "code_at s acc \<longleftrightarrow> prefix (code_bits s) r"
proof -
  let ?l = "code_len s"
  have "drop_bit (64 - ?l) acc = of_nat (code_of s) \<longleftrightarrow> wbits ?l (drop_bit (64 - ?l) acc) = code_bits s"
    unfolding code_bits_def
  proof (intro iffI; (elim wbits_inj)?)
    fix i assume i: "?l \<le> i"
    have "\<not> bit (drop_bit (64 - ?l) acc) i"
      using i code_range(2) [OF assms(2)] bit_imp_le_length [of acc]
      by (force simp: bit_drop_bit_eq)
    moreover have "\<not> bit (of_nat (code_of s) :: 64 word) i"
      by (rule bit_of_nat_small [OF code_range(3) [OF assms(2)] i])
    ultimately show "bit (drop_bit (64 - ?l) acc) i = bit (of_nat (code_of s) :: 64 word) i" by simp
  qed simp
  then show ?thesis
    using code_at_word [OF assms(2)] shows_wbits [OF assms(1,3)] by (simp add: prefix_take_iff)
qed

text \<open>No two codes start the same bits.\<close>

lemma shows_exists: "\<exists>acc. shows_bits acc (min 64 (length r)) r"
proof -
  let ?bs = "map (\<lambda>k. 63 - k < length r \<and> r ! (63 - k)) [0..<64]"
  let ?acc = "horner_sum of_bool 2 ?bs :: 64 word"
  have "bit ?acc (63 - i) = r ! i" if "i < 64" "i < length r" for i
  proof -
    have "63 - i < length [0..<64]" "[0..<64] ! (63 - i) = 63 - i" using that by simp_all
    then show ?thesis using that by (simp add: bit_horner_sum_bit_word_iff)
  qed
  then have "shows_bits ?acc (min 64 (length r)) r" by (auto simp: shows_bits_def)
  then show ?thesis by blast
qed

lemma code_prefix_unique:
  assumes "s < 256" "prefix (code_bits s) r" and "s' < 256" "prefix (code_bits s') r"
  shows "s = s'"
proof -
  obtain acc where acc: "shows_bits acc (min 64 (length r)) r" using shows_exists by blast
  have "code_at s acc"
    using assms(1,2) code_range(2) [OF assms(1)] prefix_length_le [OF assms(2)]
    by (subst code_at_prefix [OF acc]) simp_all
  moreover have "code_at s' acc"
    using assms(3,4) code_range(2) [OF assms(3)] prefix_length_le [OF assms(4)]
    by (subst code_at_prefix [OF acc]) simp_all
  ultimately show ?thesis by (rule code_at_unique)
qed

lemma code_match_Some: "s < 256 \<Longrightarrow> prefix (code_bits s) r \<Longrightarrow> code_match r = Some s"
proof (cases "code_match r")
  case None
  moreover assume "s < 256" "prefix (code_bits s) r"
  ultimately show ?thesis by (auto simp: code_match_def find_None_iff)
next
  case (Some s')
  moreover assume "s < 256" "prefix (code_bits s) r"
  ultimately show ?thesis using code_match_SomeD [OF Some] code_prefix_unique by blast
qed

lemma code_match_None: "(\<And>s. s < 256 \<Longrightarrow> \<not> prefix (code_bits s) r) \<Longrightarrow> code_match r = None"
  using code_match_SomeD by (cases "code_match r") auto

text \<open>The slow path on a window that holds enough of the remaining bits.\<close>

lemma slow_match:
  assumes sh: "shows_bits acc n r" and enough: "30 \<le> n \<or> n = length r"
  shows "code_match r = Some s \<Longrightarrow> code_len s \<le> n
      \<and> code_slow 0 acc n = Some (Some (of_nat s, push_bit (code_len s) acc, n - code_len s))"
    and "code_match r = None \<Longrightarrow> code_slow 0 acc n = Some None"
proof -
  assume "code_match r = Some s"
  then have s: "s < 256" "prefix (code_bits s) r" using code_match_SomeD by simp_all
  have l: "code_len s \<le> n"
    using enough code_range(2) [OF s(1)] prefix_length_le [OF s(2)] by auto
  with slow_answer_code [of s acc n] show "code_len s \<le> n
      \<and> code_slow 0 acc n = Some (Some (of_nat s, push_bit (code_len s) acc, n - code_len s))"
    using s code_at_prefix [OF sh s(1) l] by (simp add: slow_top)
next
  assume none: "code_match r = None"
  have "slow_answer acc n = Some None"
  proof (rule slow_answer_fail)
    fix s assume s: "code_at s acc"
    then have "s < 256" by (simp add: code_at_def)
    then show "n < code_len s"
      using s none code_at_prefix [OF sh, of s] code_match_Some [of s r] by fastforce
  qed
  then show "code_slow 0 acc n = Some None" by (simp add: slow_top)
qed

end
