(* ===== verification/Huffman_Fast.thy ===== *)
theory Huffman_Fast
  imports Huffman_Correct
begin

section \<open>The fast table of the Huffman decoder\<close>

text \<open>
  What an entry of \<open>FAST_DECODE_TABLE\<close> stands for: nothing, the one code at the top of its twelve bits,
  or the two. The table is written by nested loops, so this is an invariant of every write.
\<close>

subsection \<open>The parts of an entry\<close>

lemma nat_small_bit: "(v :: nat) < 2 ^ n \<Longrightarrow> n \<le> i \<Longrightarrow> \<not> bit v i"
  by (metis bit_take_bit_iff not_le take_bit_nat_eq_self)

lemma nat_push_or: "(b :: nat) < 2 ^ n \<Longrightarrow> push_bit n a OR b = a * 2 ^ n + b"
proof -
  assume b: "b < 2 ^ n"
  have "push_bit n a AND b = 0"
    by (rule bit_eqI) (use nat_small_bit [OF b] in \<open>auto simp: bit_and_iff bit_push_bit_iff\<close>)
  then have "push_bit n a + b = push_bit n a OR b" by (rule disjunctive_add_eq_or)
  then show ?thesis by (simp add: push_bit_eq_mult)
qed

definition fast_count :: "u32 \<Rightarrow> nat" where "fast_count e = drop_bit 16 e AND 255"
definition fast_used :: "u32 \<Rightarrow> nat" where "fast_used e = drop_bit 24 e"

lemma nat_and_255: "(x :: nat) AND 255 = x mod 256"
  using take_bit_eq_mask [of 8 x] by (simp add: mask_eq_exp_minus_1 take_bit_eq_mod)

lemma entry_parts:
  fixes l :: nat
  assumes "c < 256" and "b < 256" and "a < 256"
  defines "e \<equiv> push_bit 16 c OR push_bit 24 l OR push_bit 8 b OR (a :: nat)"
  shows "fast_count e = c" and "fast_used e = l"
    and "(of_nat (drop_bit 8 e) :: byte) = of_nat b" and "(of_nat e :: byte) = of_nat a"
proof -
  have "push_bit 8 b OR a = b * 256 + a" using nat_push_or [of a 8 b] assms(3) by simp
  moreover have "push_bit 16 c OR (b * 256 + a) = c * 2 ^ 16 + (b * 256 + a)"
    using assms(2,3) by (intro nat_push_or) simp
  moreover have "push_bit 24 l OR (c * 2 ^ 16 + (b * 256 + a)) = l * 2 ^ 24 + (c * 2 ^ 16 + (b * 256 + a))"
    using assms(1-3) by (intro nat_push_or) simp
  ultimately have e: "e = l * 2 ^ 24 + (c * 2 ^ 16 + (b * 256 + a))"
    unfolding e_def by (metis or.left_commute or.commute)
  have ba: "b * 256 + a < 2 ^ 16" using assms(2,3) by simp
  have cba: "c * 2 ^ 16 + (b * 256 + a) < 2 ^ 24" using assms(1) ba by simp
  show "fast_used e = l"
    using cba by (simp add: fast_used_def drop_bit_eq_div e div_mult_self3 del: power_numeral)
  have "e div 2 ^ 16 = l * 256 + c"
  proof -
    have "e = (l * 256 + c) * 2 ^ 16 + (b * 256 + a)" by (simp add: e)
    then show ?thesis using ba by simp
  qed
  then show "fast_count e = c" using assms(1) by (simp add: fast_count_def drop_bit_eq_div nat_and_255)
  have "e mod 256 = a" using assms(3) by (simp add: e mod_add_eq [symmetric] mod_mult_eq [symmetric])
  then show "(of_nat e :: byte) = of_nat a" by (metis of_nat_byte)
  have "e div 256 = (l * 2 ^ 16 + c * 256 + b)"
  proof -
    have "e = (l * 2 ^ 16 + c * 256 + b) * 256 + a" by (simp add: e)
    then show ?thesis using assms(3) by simp
  qed
  then have "e div 256 mod 256 = b" using assms(2) by (simp add: mod_add_eq [symmetric] mod_mult_eq [symmetric])
  then show "(of_nat (drop_bit 8 e) :: byte) = of_nat b" by (simp add: drop_bit_eq_div) (metis of_nat_byte)
qed

subsection \<open>The entries\<close>

definition fast_ok :: "nat \<Rightarrow> u32 \<Rightarrow> bool" where
  "fast_ok i e \<longleftrightarrow> fast_count e = 0
     \<or> (\<exists>a < 256. fast_count e = 1 \<and> fast_used e = code_len a \<and> code_len a \<le> 12
          \<and> (of_nat e :: byte) = of_nat a \<and> i div 2 ^ (12 - code_len a) = code_of a)
     \<or> (\<exists>a < 256. \<exists>b < 256. fast_count e = 2 \<and> fast_used e = code_len a + code_len b
          \<and> code_len a + code_len b \<le> 12
          \<and> (of_nat e :: byte) = of_nat a \<and> (of_nat (drop_bit 8 e) :: byte) = of_nat b
          \<and> i div 2 ^ (12 - (code_len a + code_len b)) = code_of a * 2 ^ code_len b + code_of b)"

lemma fast_ok_single:
  "\<lbrakk>a < 256; fast_count e = 1; fast_used e = code_len a; code_len a \<le> 12; (of_nat e :: byte) = of_nat a;
    i div 2 ^ (12 - code_len a) = code_of a\<rbrakk> \<Longrightarrow> fast_ok i e"
  unfolding fast_ok_def by blast

lemma fast_ok_pair:
  "\<lbrakk>a < 256; b < 256; fast_count e = 2; fast_used e = code_len a + code_len b; code_len a + code_len b \<le> 12;
    (of_nat e :: byte) = of_nat a; (of_nat (drop_bit 8 e) :: byte) = of_nat b;
    i div 2 ^ (12 - (code_len a + code_len b)) = code_of a * 2 ^ code_len b + code_of b\<rbrakk> \<Longrightarrow> fast_ok i e"
  unfolding fast_ok_def by blast

definition fast_table_ok :: "u32 list \<Rightarrow> bool" where
  "fast_table_ok t \<longleftrightarrow> length t = 4096 \<and> (\<forall>i < 4096. fast_ok i (t ! i))"

lemma fill_run_table_ok:
  assumes "fast_table_ok t" and "\<And>i. i < n \<Longrightarrow> fast_ok (base + i) v"
  shows "fast_table_ok (fill_run base n v t)"
  using assms(2) unfolding fill_run_def
proof (induction n)
  case (Suc n)
  then have "fast_table_ok (fold (\<lambda>i t. t[base + i := v]) [0..<n] t)" by simp
  then show ?case using Suc.prems [of n]
    by (auto simp: fast_table_ok_def) (metis nth_list_update_eq nth_list_update_neq)
qed (simp add: assms(1))

lemma run_index: "i < (2 :: nat) ^ n \<Longrightarrow> (c * 2 ^ n + i) div 2 ^ n = c"
  by simp

lemma fast_single_ok:
  assumes "fast_table_ok t" and a: "a < 256" shows "fast_table_ok (fast_single a t)"
proof (cases "code_len a \<le> 12")
  case True
  let ?e = "push_bit 16 1 OR push_bit 24 (code_len a) OR a"
  have parts: "fast_count ?e = 1" "fast_used ?e = code_len a" "(of_nat ?e :: byte) = of_nat a"
    using entry_parts(1,2,4) [of 1 0 a "code_len a"] a by simp_all
  have "fast_ok (push_bit (12 - code_len a) (code_of a) + i) ?e" if "i < push_bit (12 - code_len a) 1" for i
    using that by (intro fast_ok_single [OF a parts(1,2) True parts(3)]) (simp add: push_bit_eq_mult)
  then have "fast_table_ok (fill_run (push_bit (12 - code_len a) (code_of a)) (push_bit (12 - code_len a) 1) ?e t)"
    by (intro fill_run_table_ok assms(1))
  then show ?thesis using True by (simp add: fast_single_def Let_def FAST_BITS_def code_len_def code_of_def)
qed (simp add: fast_single_def Let_def FAST_BITS_def assms(1) flip: code_len_def)

lemma fast_pair_ok:
  assumes "fast_table_ok t" and a: "a < 256" and b: "b < 256" and len: "code_len a + 5 \<le> 12"
  shows "fast_table_ok (fast_pair a b t)"
proof (cases "code_len b \<le> 12 - code_len a")
  case True
  let ?e = "push_bit 16 2 OR push_bit 24 (code_len a + code_len b) OR push_bit 8 b OR a"
  define n where "n = 12 - (code_len a + code_len b)"
  have n: "12 - code_len a = code_len b + n" "12 - code_len a - code_len b = n" "code_len a + code_len b \<le> 12"
    using True len by (simp_all add: n_def)
  define base where "base = push_bit (12 - code_len a) (code_of a) OR push_bit n (code_of b)"
  have "code_of b * 2 ^ n < 2 ^ (code_len b + n)" using code_range(3) [OF b] by (simp add: power_add)
  then have base: "base = (code_of a * 2 ^ code_len b + code_of b) * 2 ^ n"
    using nat_push_or [of "code_of b * 2 ^ n" "code_len b + n" "code_of a"]
    by (simp add: base_def n(1) push_bit_eq_mult [of n] power_add distrib_right)
  have parts: "fast_count ?e = 2" "fast_used ?e = code_len a + code_len b"
    "(of_nat ?e :: byte) = of_nat a" "(of_nat (drop_bit 8 ?e) :: byte) = of_nat b"
    using entry_parts [of 2 b a "code_len a + code_len b"] a b by simp_all
  have "fast_ok (base + i) ?e" if "i < push_bit n 1" for i
    using that by (intro fast_ok_pair [OF a b parts(1,2) n(3) parts(3,4)])
      (simp add: n_def [symmetric] base push_bit_eq_mult)
  then have "fast_table_ok (fill_run base (push_bit n 1) ?e t)" by (intro fill_run_table_ok assms(1))
  then show ?thesis using True n(2)
    by (simp add: fast_pair_def Let_def FAST_BITS_def base_def flip: code_len_def code_of_def)
qed (simp add: fast_pair_def Let_def FAST_BITS_def assms(1) flip: code_len_def)

lemma fold_table_ok:
  "fast_table_ok t \<Longrightarrow> (\<And>x t. x \<in> set xs \<Longrightarrow> fast_table_ok t \<Longrightarrow> fast_table_ok (f x t))
   \<Longrightarrow> fast_table_ok (fold f xs t)"
  by (induction xs arbitrary: t) auto

lemma FAST_DECODE_TABLE_ok: "fast_table_ok FAST_DECODE_TABLE"
proof -
  have "fast_table_ok (replicate (push_bit FAST_BITS 1) 0)"
    by (simp add: fast_table_ok_def fast_ok_def fast_count_def FAST_BITS_def push_bit_eq_mult)
  then have "fast_table_ok (fold fast_single [0..<256] (replicate (push_bit FAST_BITS 1) 0))"
    by (rule fold_table_ok) (rule fast_single_ok, simp_all)
  then show ?thesis unfolding FAST_DECODE_TABLE_def
  proof (rule fold_table_ok)
    fix a t assume "a \<in> set [0..<256]" and t: "fast_table_ok t"
    then have a: "a < 256" by simp
    show "fast_table_ok (fast_pairs a t)"
    proof (cases "code_len a + 5 \<le> 12")
      case True
      then show ?thesis using t fast_pair_ok [OF _ a _ True]
        by (auto simp: fast_pairs_def FAST_BITS_def simp flip: code_len_def intro!: fold_table_ok)
    qed (simp add: fast_pairs_def FAST_BITS_def t flip: code_len_def)
  qed
qed

subsection \<open>A lookup\<close>

lemma fast_lookup:
  fixes acc :: "64 word"
  defines "e \<equiv> FAST_DECODE_TABLE ! unat (drop_bit (64 - FAST_BITS) acc)"
  shows "fast_count e = 0
    \<or> (\<exists>a. fast_count e = 1 \<and> code_at a acc \<and> fast_used e = code_len a \<and> code_len a \<le> 12
         \<and> (of_nat e :: byte) = of_nat a)
    \<or> (\<exists>a b. fast_count e = 2 \<and> code_at a acc \<and> code_at b (push_bit (code_len a) acc)
         \<and> fast_used e = code_len a + code_len b \<and> code_len a + code_len b \<le> 12
         \<and> (of_nat e :: byte) = of_nat a \<and> (of_nat (drop_bit 8 e) :: byte) = of_nat b)"
proof -
  let ?i = "unat acc div 2 ^ 52"
  have "unat acc < 2 ^ LENGTH(64)" by (rule unsigned_less)
  then have "?i < 4096" by (simp add: less_mult_imp_div_less)
  moreover have i: "unat (drop_bit (64 - FAST_BITS) acc) = ?i"
    unfolding unat_drop_bit by (simp add: FAST_BITS_def)
  ultimately have "fast_ok ?i e"
    using FAST_DECODE_TABLE_ok unfolding e_def i by (simp add: fast_table_ok_def)
  from this [unfolded fast_ok_def] consider "fast_count e = 0"
    | a where "a < 256" "fast_count e = 1" "fast_used e = code_len a" "code_len a \<le> 12"
        "(of_nat e :: byte) = of_nat a" "?i div 2 ^ (12 - code_len a) = code_of a"
    | a b where "a < 256" "b < 256" "fast_count e = 2" "fast_used e = code_len a + code_len b"
        "code_len a + code_len b \<le> 12" "(of_nat e :: byte) = of_nat a"
        "(of_nat (drop_bit 8 e) :: byte) = of_nat b"
        "?i div 2 ^ (12 - (code_len a + code_len b)) = code_of a * 2 ^ code_len b + code_of b"
    by (elim disjE exE conjE)
  then show ?thesis
  proof cases
    case (2 a)
    have "52 + (12 - code_len a) = 64 - code_len a" using 2(4) by simp
    then have "code_at a acc" using 2(1,6) unfolding code_at_def nat_div_split by simp
    then show ?thesis using 2 by blast
  next
    case (3 a b)
    let ?n = "12 - (code_len a + code_len b)"
    have n: "52 + ?n = 64 - (code_len a + code_len b)" "64 - (code_len a + code_len b) + code_len b = 64 - code_len a"
      using 3(5) by simp_all
    have v: "unat acc div 2 ^ (64 - (code_len a + code_len b)) = code_of a * 2 ^ code_len b + code_of b"
      using 3(8) unfolding nat_div_split n(1) .
    then have "unat acc div 2 ^ (64 - (code_len a + code_len b)) div 2 ^ code_len b = code_of a"
      using code_range(3) [OF 3(2)] by simp
    then have "code_at a acc" using 3(1) unfolding code_at_def nat_div_split n(2) by simp
    moreover have "code_at b (push_bit (code_len a) acc)"
      using code_at_push [of "code_len a" b acc] 3(2,5) v code_range(3) [OF 3(2)]
      by (simp add: add.commute)
    ultimately show ?thesis using 3 by blast
  qed simp
qed

end
