(* ===== verification/Huffman_Run.thy ===== *)
theory Huffman_Run
  imports Huffman_Fast
begin

section \<open>The Huffman decoder, run\<close>

text \<open>
  The loops of the decoder follow \<open>reference_decode\<close> on the bits that remain: the window holds their
  first bits, refilling and decoding a code keep that, every loop ends and no index leaves its range.
\<close>

subsection \<open>The bits of the input\<close>

lemma stream_bits_Cons: "stream_bits (b # bs) = wbits 8 b @ stream_bits bs"
  by (simp add: stream_bits_def)

lemma stream_bits_nth:
  "j < 8 * length bs \<Longrightarrow> stream_bits bs ! j = bit (bs ! (j div 8)) (7 - j mod 8)"
proof (induction bs arbitrary: j)
  case (Cons b bs)
  show ?case
  proof (cases "j < 8")
    case True
    then show ?thesis by (simp add: stream_bits_Cons nth_append wbits_nth)
  next
    case False
    then have "j - 8 < 8 * length bs" "j div 8 = Suc ((j - 8) div 8)" "j mod 8 = (j - 8) mod 8"
      using Cons.prems by (simp_all add: le_div_geq le_mod_geq)
    then show ?thesis using False Cons.IH by (simp add: stream_bits_Cons nth_append)
  qed
qed simp

lemma be_u64_bits:
  fixes w :: "64 word"
  assumes "n + 8 * length bs \<le> 64"
  shows "wbits (n + 8 * length bs) (fold (\<lambda>b w. push_bit 8 w OR ucast b) bs w) = wbits n w @ stream_bits bs"
  using assms
proof (induction bs arbitrary: n w)
  case (Cons b bs)
  have u: "ucast b = (of_nat (unat b) :: 64 word)" by (rule bit_eqI) (simp add: bit_ucast_iff bit_of_nat_iff bit_unsigned_iff)
  have "unat b < 2 ^ LENGTH(8)" by (rule unsigned_less)
  then have b8: "unat b < 2 ^ 8" by simp
  have "wbits (n + 8) (push_bit 8 w OR of_nat (unat b)) = wbits n w @ wbits 8 (of_nat (unat b) :: 64 word)"
    using Cons.prems by (intro wbits_push [OF _ b8]) simp
  then have "wbits (n + 8) (push_bit 8 w OR ucast b) = wbits n w @ wbits 8 (ucast b :: 64 word)"
    unfolding u .
  then have "wbits (n + 8) (push_bit 8 w OR ucast b) = wbits n w @ wbits 8 b" by (simp add: wbits_ucast)
  then show ?case using Cons.IH [of "n + 8" "push_bit 8 w OR ucast b"] Cons.prems
    by (simp add: stream_bits_Cons add.assoc)
qed simp

lemma be_u64_bit:
  assumes "length bs = 8" and "i < 64" shows "bit (be_u64 bs) (63 - i) = stream_bits bs ! i"
proof -
  have "wbits 64 (be_u64 bs) = stream_bits bs"
    using be_u64_bits [of 0 bs 0] assms(1) by (simp add: be_u64_def)
  then show ?thesis using assms(2) wbits_nth [of i 64 "be_u64 bs"] by simp
qed

subsection \<open>The window\<close>

definition win_ok :: "bytes \<Rightarrow> nat \<Rightarrow> window \<Rightarrow> bool list \<Rightarrow> bool" where
  "win_ok src pos st r \<longleftrightarrow> pos \<le> length src \<and> wd_bits st \<le> 8 * pos
     \<and> r = drop (8 * pos - wd_bits st) (stream_bits src)
     \<and> 5 * length (wd_out st) \<le> 8 * pos - wd_bits st
     \<and> shows_bits (wd_acc st) (wd_bits st) r
     \<and> (\<forall>i < 64. bit (wd_acc st) (63 - i) \<longrightarrow> i < length r \<and> r ! i)"

lemma win_length: "win_ok src pos st r \<Longrightarrow> length r = 8 * length src - 8 * pos + wd_bits st"
  by (auto simp: win_ok_def length_stream_bits)

lemma win_okD:
  assumes "win_ok src pos st r"
  shows "pos \<le> length src" and "wd_bits st \<le> 8 * pos" and "5 * length (wd_out st) \<le> 8 * pos - wd_bits st"
    and "shows_bits (wd_acc st) (wd_bits st) r" and "wd_bits st \<le> length r"
  using assms unfolding win_ok_def shows_bits_def by blast+

text \<open>The bits of \<open>r\<close> from the window's end on are those of the bytes at \<open>pos\<close>.\<close>

lemma win_next_bit:
  assumes "win_ok src pos st r" and "wd_bits st \<le> i" and "i - wd_bits st < 8 * (length src - pos)"
  shows "r ! i = bit (src ! (pos + (i - wd_bits st) div 8)) (7 - (i - wd_bits st) mod 8)"
proof -
  have w: "wd_bits st \<le> 8 * pos" "pos \<le> length src" "r = drop (8 * pos - wd_bits st) (stream_bits src)"
    using assms(1) by (simp_all add: win_ok_def)
  let ?k = "i - wd_bits st"
  have "r ! i = stream_bits src ! (8 * pos + ?k)"
    using w assms(2) by (simp add: length_stream_bits)
  also have "\<dots> = bit (src ! ((8 * pos + ?k) div 8)) (7 - (8 * pos + ?k) mod 8)"
    by (rule stream_bits_nth) (use assms(3) w(2) in linarith)
  finally show ?thesis by simp
qed

text \<open>New bits go under those that are there.\<close>

lemma win_fill:
  assumes w: "win_ok src pos st r" and n: "wd_bits st + 8 * n \<le> 64" "pos + n \<le> length src"
    and new: "\<And>i. i < 64 \<Longrightarrow> bit new (63 - i) \<Longrightarrow> i < length r \<and> r ! i"
    and there: "\<And>i. wd_bits st \<le> i \<Longrightarrow> i < wd_bits st + 8 * n \<Longrightarrow> bit new (63 - i) = r ! i"
  shows "win_ok src (pos + n) (st\<lparr>wd_acc := wd_acc st OR new, wd_bits := wd_bits st + 8 * n\<rparr>) r"
proof -
  let ?b = "wd_bits st + 8 * n"
  note len = win_length [OF w]
  have acc: "i < 64 \<Longrightarrow> bit (wd_acc st) (63 - i) \<Longrightarrow> i < length r \<and> r ! i"
    "i < wd_bits st \<Longrightarrow> bit (wd_acc st) (63 - i) = r ! i" for i
    using w unfolding win_ok_def shows_bits_def by blast+
  have "bit (wd_acc st OR new) (63 - i) = r ! i" if i: "i < ?b" for i
  proof (cases "i < wd_bits st")
    case True
    then have "bit (wd_acc st) (63 - i) = r ! i" by (rule acc)
    then show ?thesis using new [of i] i n(1) by (auto simp: bit_or_iff)
  next
    case False
    moreover have "bit (wd_acc st) (63 - i) \<longrightarrow> r ! i" using acc(1) [of i] i n(1) by simp
    ultimately show ?thesis using there [of i] i by (auto simp: bit_or_iff)
  qed
  moreover have "?b \<le> length r" using len n(2) w by (simp add: win_ok_def)
  moreover have "8 * (pos + n) - ?b = 8 * pos - wd_bits st" by simp
  moreover have "\<forall>i < 64. bit (wd_acc st OR new) (63 - i) \<longrightarrow> i < length r \<and> r ! i"
    using acc(1) new by (auto simp: bit_or_iff)
  moreover have "pos + n \<le> length src" "?b \<le> 8 * (pos + n)" "?b \<le> 64"
    "r = drop (8 * pos - wd_bits st) (stream_bits src)" "5 * length (wd_out st) \<le> 8 * pos - wd_bits st"
    using w n unfolding win_ok_def by auto
  ultimately show ?thesis unfolding win_ok_def shows_bits_def by simp
qed

lemma win_byte:
  assumes w: "win_ok src pos st r" and "wd_bits st \<le> 56" "pos < length src"
  shows "win_ok src (pos + 1) (st\<lparr>wd_acc := wd_acc st OR push_bit (56 - wd_bits st) (ucast (src ! pos)),
           wd_bits := wd_bits st + 8\<rparr>) r"
proof -
  let ?new = "push_bit (56 - wd_bits st) (ucast (src ! pos)) :: 64 word"
  have len: "wd_bits st + 8 \<le> length r" using win_length [OF w] assms(3) by simp
  have there: "bit ?new (63 - i) = r ! i" if "wd_bits st \<le> i" "i < wd_bits st + 8" for i
  proof -
    have "i - wd_bits st < 8 * (length src - pos)" using that assms(3) by linarith
    from win_next_bit [OF w that(1) this] have "r ! i = bit (src ! pos) (7 - (i - wd_bits st))"
      using that by (simp add: div_less)
    moreover have "63 - i - (56 - wd_bits st) = 7 - (i - wd_bits st)" using that assms(2) by simp
    moreover have "56 - wd_bits st \<le> 63 - i" "63 - i < 64" "7 - (i - wd_bits st) < 64"
      using that assms(2) by linarith+
    ultimately show ?thesis by (simp add: bit_push_bit_iff bit_ucast_iff)
  qed
  have "wd_bits st \<le> i \<and> i < wd_bits st + 8" if "i < 64" "bit ?new (63 - i)" for i
  proof -
    have "56 - wd_bits st \<le> 63 - i" "bit (src ! pos) (63 - i - (56 - wd_bits st))"
      using that by (simp_all add: bit_push_bit_iff bit_ucast_iff)
    moreover from this(2) have "63 - i - (56 - wd_bits st) < LENGTH(8)" by (rule bit_imp_le_length)
    ultimately show ?thesis using that(1) assms(2) by auto
  qed
  then have "win_ok src (pos + 1) (st\<lparr>wd_acc := wd_acc st OR ?new, wd_bits := wd_bits st + 8 * 1\<rparr>) r"
    using assms(2,3) there len by (intro win_fill [OF w]) (auto, fastforce)
  then show ?thesis by simp
qed

lemma refill_bytes_ok:
  assumes "win_ok src pos st r"
  shows "win_ok src (fst (refill_bytes src pos st)) (snd (refill_bytes src pos st)) r
    \<and> wd_out (snd (refill_bytes src pos st)) = wd_out st
    \<and> pos \<le> fst (refill_bytes src pos st)
    \<and> (wd_bits st \<le> 56 \<and> pos < length src \<longrightarrow> pos < fst (refill_bytes src pos st))"
  using assms
proof (induction src pos st rule: refill_bytes.induct)
  case (1 src pos st)
  show ?case
  proof (cases "wd_bits st \<le> 56 \<and> pos < length src")
    case True
    from 1(1) [OF True win_byte [OF 1(2)]] True show ?thesis
      by (subst (1 2 3 4 5) refill_bytes.simps) simp
  next
    case False
    then show ?thesis using 1(2) by (subst (1 2 3 4 5) refill_bytes.simps) auto
  qed
qed

lemma bits_or_56:
  assumes "b < (64 :: nat)" shows "b OR 56 = b + 8 * drop_bit 3 (63 - b)"
proof -
  define q r where "q = b div 8" and "r = b mod 8"
  have b: "b = q * 8 + r" "q < 8" "r < 8" using assms by (simp_all add: q_def r_def less_mult_imp_div_less)
  have "n < 3" if "bit q n" for n using nat_small_bit [of q 3 n] b(2) that by (cases "n < 3") auto
  then have "q OR mask 3 = mask 3" by (intro bit_eqI) (auto simp: bit_or_iff bit_mask_iff)
  then have q7: "q OR 7 = 7" by (simp add: mask_eq_exp_minus_1)
  have "b = push_bit 3 q OR r" using nat_push_or [of r 3 q] b by simp
  moreover have "(56 :: nat) = push_bit 3 7" by (simp add: push_bit_eq_mult)
  ultimately have "b OR 56 = push_bit 3 (q OR 7) OR r"
    by (metis or.assoc or.commute push_bit_or)
  also have "\<dots> = 56 + r" using nat_push_or [of r 3 7] b(3) by (simp add: q7)
  also have "\<dots> = b + 8 * drop_bit 3 (63 - b)"
  proof -
    have "63 - b = (7 - q) * 8 + (7 - r)" using b by linarith
    then have "(63 - b) div 8 = 7 - q" by simp
    then show ?thesis using b by (simp add: drop_bit_eq_div)
  qed
  finally show ?thesis .
qed

lemma refill_ok:
  assumes w: "win_ok src pos st r" and b: "wd_bits st < 56"
  shows "win_ok src (fst (refill src pos st)) (snd (refill src pos st)) r"
    and "wd_out (snd (refill src pos st)) = wd_out st"
    and "pos < length src \<Longrightarrow> pos < fst (refill src pos st)"
    and "fst (refill src pos st) \<le> length src" and "pos \<le> fst (refill src pos st)"
proof -
  have "win_ok src (fst (refill src pos st)) (snd (refill src pos st)) r
    \<and> wd_out (snd (refill src pos st)) = wd_out st
    \<and> (pos < length src \<longrightarrow> pos < fst (refill src pos st)) \<and> pos \<le> fst (refill src pos st)"
  proof (cases "pos + 8 \<le> length src")
    case True
    let ?n = "drop_bit 3 (63 - wd_bits st)" and ?new = "drop_bit (wd_bits st) (be_u64 (take 8 (drop pos src)))"
    have n: "wd_bits st OR 56 = wd_bits st + 8 * ?n" using b by (intro bits_or_56) simp
    have n8: "?n \<le> 7" "1 \<le> ?n" "8 * ?n \<le> 63 - wd_bits st" using b by (auto simp: drop_bit_eq_div)
    have bit: "bit ?new (63 - i) = (wd_bits st \<le> i \<and> r ! i)" if i: "i < 64" for i
    proof (cases "wd_bits st \<le> i")
      case ge: True
      let ?k = "i - wd_bits st"
      have k: "?k < 64" "?k div 8 < 8" using i by auto
      have "bit ?new (63 - i) = bit (be_u64 (take 8 (drop pos src))) (63 - ?k)"
      proof -
        have "wd_bits st + (63 - i) = 63 - ?k" using i ge by linarith
        then show ?thesis by (simp only: bit_drop_bit_eq comp_apply)
      qed
      also have "\<dots> = stream_bits (take 8 (drop pos src)) ! ?k"
        using True k by (intro be_u64_bit) simp_all
      also have "\<dots> = bit (src ! (pos + ?k div 8)) (7 - ?k mod 8)"
        using True k by (subst stream_bits_nth) simp_all
      also have "\<dots> = r ! i" using True k by (intro win_next_bit [OF w ge, symmetric]) linarith
      finally show ?thesis using ge by simp
    next
      case False
      then have "\<not> bit (be_u64 (take 8 (drop pos src))) (wd_bits st + (63 - i))"
        using bit_imp_le_length by fastforce
      then show ?thesis using False by (simp add: bit_drop_bit_eq)
    qed
    have "64 \<le> length r" using win_length [OF w] True by simp
    then have "win_ok src (pos + ?n) (st\<lparr>wd_acc := wd_acc st OR ?new, wd_bits := wd_bits st + 8 * ?n\<rparr>) r"
      using True n8 b bit by (intro win_fill [OF w]) auto
    then show ?thesis using True n n8 by (simp add: refill_def)
  next
    case False
    then show ?thesis using refill_bytes_ok [OF w] b by (simp add: refill_def)
  qed
  then show "win_ok src (fst (refill src pos st)) (snd (refill src pos st)) r"
    "wd_out (snd (refill src pos st)) = wd_out st"
    "pos < length src \<Longrightarrow> pos < fst (refill src pos st)"
    "fst (refill src pos st) \<le> length src" "pos \<le> fst (refill src pos st)"
    by (auto simp: win_ok_def)
qed

text \<open>A code is taken off.\<close>

lemma win_take:
  assumes w: "win_ok src pos st r" and k: "code_len s \<le> wd_bits st" and s: "s < 256"
  shows "win_ok src pos \<lparr>wd_acc = push_bit (code_len s) (wd_acc st), wd_bits = wd_bits st - code_len s,
           wd_out = wd_out st @ [x]\<rparr> (drop (code_len s) r)"
proof -
  let ?k = "code_len s"
  have b: "wd_bits st \<le> 64" "wd_bits st \<le> 8 * pos" "wd_bits st \<le> length r" "pos \<le> length src"
    "r = drop (8 * pos - wd_bits st) (stream_bits src)" "5 * length (wd_out st) \<le> 8 * pos - wd_bits st"
    using w unfolding win_ok_def shows_bits_def by blast+
  have d: "8 * pos - (wd_bits st - ?k) = (8 * pos - wd_bits st) + ?k" using k b(2) by simp
  have bit: "bit (push_bit ?k (wd_acc st)) (63 - i) \<longleftrightarrow> ?k + i < 64 \<and> bit (wd_acc st) (63 - (?k + i))"
    if "i < 64" for i
  proof -
    have "?k \<le> 63 - i \<longleftrightarrow> ?k + i < 64" "63 - i - ?k = 63 - (?k + i)" using that by linarith+
    then show ?thesis using that by (auto simp: bit_push_bit_iff)
  qed
  have sh: "shows_bits (push_bit ?k (wd_acc st)) (wd_bits st - ?k) (drop ?k r)"
    unfolding shows_bits_def
  proof (intro conjI allI impI)
    fix i assume i: "i < wd_bits st - ?k"
    then have "bit (wd_acc st) (63 - (?k + i)) = r ! (?k + i)"
      using w unfolding win_ok_def shows_bits_def by (metis add.commute less_diff_conv)
    then show "bit (push_bit ?k (wd_acc st)) (63 - i) = drop ?k r ! i"
      using i b(1,3) bit [of i] less_diff_conv [of i "wd_bits st" ?k] by (simp add: add.commute)
  qed (use b(1,3) in auto)
  have "drop ?k r = drop (8 * pos - (wd_bits st - ?k)) (stream_bits src)"
    unfolding d b(5) by (simp add: add.commute)
  moreover have "\<forall>i < 64. bit (push_bit ?k (wd_acc st)) (63 - i) \<longrightarrow> i < length (drop ?k r) \<and> drop ?k r ! i"
  proof (intro allI impI)
    fix i assume i: "i < 64" "bit (push_bit ?k (wd_acc st)) (63 - i)"
    then have "?k + i < 64" "bit (wd_acc st) (63 - (?k + i))" using bit [OF i(1)] by simp_all
    then have "?k + i < length r \<and> r ! (?k + i)" using w unfolding win_ok_def by blast
    then show "i < length (drop ?k r) \<and> drop ?k r ! i" by auto
  qed
  moreover have "5 * length (wd_out st @ [x]) \<le> 8 * pos - (wd_bits st - ?k)"
    using b(6) code_range(1) [OF s] unfolding d by simp
  ultimately show ?thesis using sh b(2,4) by (simp add: win_ok_def)
qed

subsection \<open>One code at a time\<close>

definition out_cap :: "bytes \<Rightarrow> nat" where
  "out_cap src = length src * 8 div 5 + 1"

lemma out_room:
  assumes "win_ok src pos st r"
  shows "length (wd_out st) < out_cap src"
    and "5 \<le> wd_bits st \<Longrightarrow> length (wd_out st) + 1 < out_cap src"
proof -
  have "5 * length (wd_out st) + wd_bits st \<le> 8 * length src"
    using win_okD(1-3) [OF assms] by linarith
  then show "length (wd_out st) < out_cap src"
    "5 \<le> wd_bits st \<Longrightarrow> length (wd_out st) + 1 < out_cap src"
    unfolding out_cap_def by linarith+
qed

lemma slow_step:
  assumes w: "win_ok src pos st r" and enough: "30 \<le> wd_bits st \<or> wd_bits st = length r"
  shows "code_match r = None \<Longrightarrow> decode_code_slow (out_cap src) st = Some None"
    and "code_match r = Some s \<Longrightarrow> \<exists>st'. decode_code_slow (out_cap src) st = Some (Some st')
      \<and> win_ok src pos st' (drop (code_len s) r) \<and> wd_out st' = wd_out st @ [of_nat s]
      \<and> wd_bits st' < wd_bits st"
proof -
  note sh = win_okD(4) [OF w]
  note m = slow_match [OF sh enough]
  show "code_match r = None \<Longrightarrow> decode_code_slow (out_cap src) st = Some None"
    using m(2) by (simp add: decode_code_slow_def)
  assume s: "code_match r = Some s"
  note c = m(1) [OF s]
  have s256: "s < 256" using code_match_SomeD [OF s] by simp
  have "decode_code_slow (out_cap src) st = Some (Some
      \<lparr>wd_acc = push_bit (code_len s) (wd_acc st), wd_bits = wd_bits st - code_len s, wd_out = wd_out st @ [of_nat s]\<rparr>)"
    using c out_room(1) [OF w] by (simp add: decode_code_slow_def)
  then show "\<exists>st'. decode_code_slow (out_cap src) st = Some (Some st')
      \<and> win_ok src pos st' (drop (code_len s) r) \<and> wd_out st' = wd_out st @ [of_nat s]
      \<and> wd_bits st' < wd_bits st"
    using win_take [OF w _ s256, of "of_nat s"] c code_range(1) [OF s256] by auto
qed

lemma code_at_match:
  assumes w: "win_ok src pos st r" and a: "code_at a (wd_acc st)" "code_len a \<le> wd_bits st"
  shows "code_match r = Some a"
    and "win_ok src pos \<lparr>wd_acc = push_bit (code_len a) (wd_acc st), wd_bits = wd_bits st - code_len a,
          wd_out = wd_out st @ [of_nat a]\<rparr> (drop (code_len a) r)"
proof -
  have a256: "a < 256" using a(1) by (simp add: code_at_def)
  from win_okD(4) [OF w] show "code_match r = Some a"
    using code_at_prefix [of "wd_acc st" "wd_bits st" r a] a a256 by (intro code_match_Some) simp_all
  show "win_ok src pos \<lparr>wd_acc = push_bit (code_len a) (wd_acc st), wd_bits = wd_bits st - code_len a,
          wd_out = wd_out st @ [of_nat a]\<rparr> (drop (code_len a) r)"
    by (rule win_take [OF w a(2) a256])
qed

text \<open>An entry of the fast table with symbols: the window after it, as far as the reference.\<close>

lemma fast_step:
  assumes w: "win_ok src pos st r" and bits: "12 \<le> wd_bits st"
  defines "e \<equiv> FAST_DECODE_TABLE ! unat (drop_bit (64 - FAST_BITS) (wd_acc st))"
  assumes n: "fast_count e \<noteq> 0"
  defines "st' \<equiv> \<lparr>wd_acc = push_bit (fast_used e) (wd_acc st), wd_bits = usize_sub (wd_bits st) (fast_used e),
      wd_out = wd_out st @ take (fast_count e) [of_nat e, of_nat (drop_bit 8 e)]\<rparr>"
  shows "\<exists>r'. win_ok src pos st' r' \<and> ref_result r' (wd_out st') = ref_result r (wd_out st)
    \<and> wd_bits st' < wd_bits st"
proof -
  have sub: "usize_sub (wd_bits st) (fast_used e) = wd_bits st - fast_used e" if "fast_used e \<le> 12"
    using that bits by (simp add: usize_sub_exact)
  consider a where "fast_count e = 1" "code_at a (wd_acc st)" "fast_used e = code_len a" "code_len a \<le> 12"
      "(of_nat e :: byte) = of_nat a"
    | a b where "fast_count e = 2" "code_at a (wd_acc st)" "code_at b (push_bit (code_len a) (wd_acc st))"
      "fast_used e = code_len a + code_len b" "code_len a + code_len b \<le> 12"
      "(of_nat e :: byte) = of_nat a" "(of_nat (drop_bit 8 e) :: byte) = of_nat b"
    using fast_lookup [of "wd_acc st", folded e_def] n by (elim disjE exE conjE) simp_all
  then show ?thesis
  proof cases
    case (1 a)
    have a: "code_len a \<le> wd_bits st" "5 \<le> code_len a"
      using 1 bits code_range(1) by (simp_all add: code_at_def)
    note m = code_at_match [OF w 1(2) a(1)]
    show ?thesis
      using m(2) ref_result_step [OF m(1)] 1 a bits sub
      by (intro exI [of _ "drop (code_len a) r"]) (simp add: st'_def)
  next
    case (2 a b)
    have a: "code_len a \<le> wd_bits st" "5 \<le> code_len a" "code_len b \<le> wd_bits st - code_len a"
      using 2 bits code_range(1) by (simp_all add: code_at_def)
    note m = code_at_match [OF w 2(2) a(1)]
    note m' = code_at_match [OF m(2), of b]
    have "st' = \<lparr>wd_acc = push_bit (code_len b) (push_bit (code_len a) (wd_acc st)),
        wd_bits = wd_bits st - code_len a - code_len b, wd_out = (wd_out st @ [of_nat a]) @ [of_nat b]\<rparr>"
      using 2 sub by (simp add: st'_def push_bit_push_bit add.commute numeral_2_eq_2)
    then show ?thesis
      using m' ref_result_step [OF m(1)] ref_result_step [OF m'(1)] 2(3) a
      by (intro exI [of _ "drop (code_len b) (drop (code_len a) r)"]) simp
  qed
qed

subsection \<open>The loops\<close>

lemma not_code_rest: "code_match r = None \<Longrightarrow> 8 \<le> length r \<Longrightarrow> ref_result r out = None"
  by (simp add: ref_result_stop)

definition follows :: "bytes \<Rightarrow> nat \<Rightarrow> bytes option \<Rightarrow> window \<Rightarrow> bool" where
  "follows src pos ans st \<longleftrightarrow> (\<exists>r. win_ok src pos st r \<and> ref_result r (wd_out st) = ans)"

lemma fast_loop_ok:
  assumes "follows src pos ans st"
  shows "(\<exists>p. fast_loop (length src) (out_cap src) pos st = Some (Some p) \<and> follows src pos ans (fst p)
      \<and> wd_bits (fst p) < 30 \<and> (snd p \<longrightarrow> pos < length src))
    \<or> (fast_loop (length src) (out_cap src) pos st = Some None \<and> ans = None)"
  using assms
proof (induction "wd_bits st" arbitrary: st rule: less_induct)
  case less
  let ?run = "fast_loop (length src) (out_cap src) pos"
  obtain r where w: "win_ok src pos st r" and r: "ref_result r (wd_out st) = ans"
    using less.prems by (auto simp: follows_def)
  show ?case
  proof (cases "wd_bits st < 12")
    case True
    then have "?run st = Some (Some (st, False))" by (subst fast_loop.simps) (simp add: FAST_BITS_def)
    then show ?thesis using less.prems True by simp
  next
    case bits: False
    define e where "e = FAST_DECODE_TABLE ! unat (drop_bit (64 - FAST_BITS) (wd_acc st))"
    show ?thesis
    proof (cases "fast_count e = 0")
      case True
      have unfold: "?run st = (if wd_bits st < 30 \<and> pos < length src then Some (Some (st, True))
            else Option.bind (decode_code_slow (out_cap src) st) (\<lambda>r.
                case r of None \<Rightarrow> Some None | Some st' \<Rightarrow> ?run st'))"
        using True bits
        by (subst fast_loop.simps) (simp add: FAST_BITS_def e_def fast_count_def Let_def)
      show ?thesis
      proof (cases "wd_bits st < 30 \<and> pos < length src")
        case True
        then show ?thesis using unfold less.prems by simp
      next
        case False
        then have enough: "30 \<le> wd_bits st \<or> wd_bits st = length r"
          using win_length [OF w] w by (auto simp: win_ok_def)
        have len: "8 \<le> length r" using bits win_okD(5) [OF w] by simp
        show ?thesis
        proof (cases "code_match r")
          case None
          then show ?thesis
            using slow_step(1) [OF w enough None] not_code_rest [OF None len] r unfold False by auto
        next
          case (Some s)
          then obtain st' where st': "decode_code_slow (out_cap src) st = Some (Some st')"
              "win_ok src pos st' (drop (code_len s) r)" "wd_out st' = wd_out st @ [of_nat s]"
              "wd_bits st' < wd_bits st"
            using slow_step(2) [OF w enough Some] by blast
          have "follows src pos ans st'"
            unfolding follows_def using st'(2,3) r ref_result_step [OF Some, of "wd_out st"] by auto
          from less.hyps [OF st'(4) this] show ?thesis using unfold False st'(1) by auto
        qed
      qed
    next
      case False
      define st' where "st' = \<lparr>wd_acc = push_bit (fast_used e) (wd_acc st),
        wd_bits = usize_sub (wd_bits st) (fast_used e),
        wd_out = wd_out st @ take (fast_count e) [of_nat e, of_nat (drop_bit 8 e)]\<rparr>"
      have unfold: "?run st = ?run st'"
        using False bits out_room(2) [OF w]
        by (subst fast_loop.simps) (simp add: FAST_BITS_def e_def st'_def fast_count_def fast_used_def Let_def)
      obtain r' where st': "win_ok src pos st' r'" "ref_result r' (wd_out st') = ref_result r (wd_out st)"
          "wd_bits st' < wd_bits st"
        using fast_step [OF w _ False [unfolded e_def]] bits by (auto simp: e_def st'_def)
      then have "follows src pos ans st'" using r by (auto simp: follows_def)
      from less.hyps [OF st'(3) this] show ?thesis using unfold by simp
    qed
  qed
qed

lemma outer_loop_ok:
  assumes "follows src pos ans st" and "wd_bits st < 30"
  shows "(\<exists>st'. outer_loop src (out_cap src) pos st = Some (Some st') \<and> follows src (length src) ans st')
    \<or> (outer_loop src (out_cap src) pos st = Some None \<and> ans = None)"
  using assms
proof (induction "length src - pos" arbitrary: pos st rule: less_induct)
  case less
  let ?p = "fst (refill src pos st)" and ?st = "snd (refill src pos st)"
  obtain r where w: "win_ok src pos st r" and r: "ref_result r (wd_out st) = ans"
    using less.prems by (auto simp: follows_def)
  have "wd_bits st < 56" using less.prems(2) by simp
  note f = refill_ok [OF w this]
  have "follows src ?p ans ?st" using f(1,2) r by (auto simp: follows_def)
  from fast_loop_ok [OF this] show ?case
  proof (elim disjE exE conjE)
    fix q
    assume q: "fast_loop (length src) (out_cap src) ?p ?st = Some (Some q)" "follows src ?p ans (fst q)"
      "wd_bits (fst q) < 30" "snd q \<longrightarrow> ?p < length src"
    have unfold: "outer_loop src (out_cap src) pos st =
        (if \<not> snd q \<and> length src \<le> ?p then Some (Some (fst q)) else outer_loop src (out_cap src) ?p (fst q))"
      by (subst outer_loop.simps) (simp add: Let_def q(1))
    show ?thesis
    proof (cases "?p < length src")
      case True
      then have "length src - ?p < length src - pos" using f(3,5) by linarith
      from less.hyps [OF this q(2,3)] show ?thesis using unfold True by simp
    next
      case False
      then have "?p = length src" using f(4) by simp
      then show ?thesis using unfold q(2,4) by auto
    qed
  next
    assume "fast_loop (length src) (out_cap src) ?p ?st = Some None" "ans = None"
    then show ?thesis by (subst (1 2) outer_loop.simps) (simp add: Let_def)
  qed
qed

text \<open>The padding is no code.\<close>

lemma wbits_eq_ones:
  assumes "n \<le> 64" and "\<And>i. n \<le> i \<Longrightarrow> \<not> bit (w :: 64 word) i"
  shows "wbits n w = replicate n True \<longleftrightarrow> w = push_bit n 1 - 1"
proof
  assume "wbits n w = replicate n True"
  then have "wbits n w = wbits n (push_bit n 1 - 1 :: 64 word)" using wbits_ones [OF assms(1)] by simp
  then show "w = push_bit n 1 - 1"
    by (rule wbits_inj) (use assms(2) in \<open>simp add: bit_ones push_bit_eq_mult\<close>)
qed (simp only: wbits_ones [OF assms(1)])

lemma ones_no_code:
  assumes "r = replicate n True" shows "code_match r = None"
proof (rule code_match_None, rule notI)
  fix s assume s: "s < 256" "prefix (code_bits s) r"
  let ?l = "code_len s" and ?w = "of_nat (code_of s) :: 64 word"
  have "code_bits s = replicate ?l True"
    using s(2) assms by (metis length_code_bits prefix_take_iff take_replicate min_def prefix_length_le length_replicate)
  then have "?w = push_bit ?l 1 - 1"
    unfolding code_bits_def
    using wbits_eq_ones [of ?l ?w] bit_of_nat_small [OF code_range(3) [OF s(1)], where 'a = 64] code_range(2) [OF s(1)]
    by auto
  also have "\<dots> = of_nat (2 ^ ?l - 1)" by (simp add: push_bit_eq_mult of_nat_diff)
  finally have w: "?w = of_nat (2 ^ ?l - 1)" .
  have "(2 :: nat) ^ ?l \<le> 2 ^ 30" using code_range(2) [OF s(1)] by (intro power_increasing) simp_all
  then have "2 ^ ?l - 1 < (2 :: nat) ^ 64" "code_of s < 2 ^ 64" using code_range(3) [OF s(1)] by simp_all
  with w have "code_of s = 2 ^ ?l - 1"
    by (simp add: word_of_nat_eq_iff take_bit_nat_eq_self del: of_nat_diff)
  with code_range(4) [OF s(1)] show False by simp
qed

lemma tail_padding:
  assumes "shows_bits acc n r" and "length r = n" and "0 < n"
  shows "drop_bit (64 - n) acc = push_bit n 1 - 1 \<longleftrightarrow> r = replicate n True"
proof -
  have n: "n \<le> 64" using assms(1) by (simp add: shows_bits_def)
  have "\<not> bit (drop_bit (64 - n) acc) i" if "n \<le> i" for i
    using that n bit_imp_le_length [of acc] by (force simp: bit_drop_bit_eq)
  from wbits_eq_ones [OF n this] shows_wbits [OF assms(1) le_refl] assms(2) show ?thesis by auto
qed

lemma tail_loop_ok:
  assumes "follows src (length src) ans st"
  shows "tail_loop (out_cap src) st = Some ans"
  using assms
proof (induction "wd_bits st" arbitrary: st rule: less_induct)
  case less
  obtain r where w: "win_ok src (length src) st r" and r: "ref_result r (wd_out st) = ans"
    using less.prems by (auto simp: follows_def)
  have len: "wd_bits st = length r" using win_length [OF w] by simp
  have sh: "shows_bits (wd_acc st) (length r) r" using w len by (simp add: win_ok_def)
  let ?pad = "wd_bits st < 8 \<and> drop_bit (64 - wd_bits st) (wd_acc st) = push_bit (wd_bits st) 1 - 1"
  have pad: "?pad \<longleftrightarrow> length r < 8 \<and> r = replicate (length r) True" if "wd_bits st \<noteq> 0"
    using tail_padding [OF sh refl] that len by simp
  show ?case
  proof (cases "wd_bits st = 0 \<or> ?pad")
    case True
    have ones: "length r < 8" "r = replicate (length r) True"
    proof (atomize (full), cases "wd_bits st = 0")
      case False
      then show "length r < 8 \<and> r = replicate (length r) True" 
        using True by (elim disjE) (use False in simp, rule pad [OF False, THEN iffD1])
    qed (simp add: len)
    then have "False \<notin> set r" by (metis in_set_replicate)
    then have "ans = Some (wd_out st)"
      using r ones(1) ref_result_stop [OF ones_no_code [OF ones(2)], of "wd_out st"] by simp
    then show ?thesis using True by (subst tail_loop.simps) auto
  next
    case False
    have unfold: "tail_loop (out_cap src) st = Option.bind (decode_code_slow (out_cap src) st) (\<lambda>r.
        case r of None \<Rightarrow> Some None | Some st' \<Rightarrow> tail_loop (out_cap src) st')"
      using False by (subst tail_loop.simps) auto
    show ?thesis
    proof (cases "code_match r")
      case None
      have "8 \<le> length r \<or> False \<in> set r"
      proof (rule ccontr)
        assume "\<not> (8 \<le> length r \<or> False \<in> set r)"
        moreover from this have "x" if "x \<in> set r" for x using that by (cases x) auto
        then have "r = replicate (length r) True" by (intro replicate_eqI) auto
        ultimately have "length r < 8" "r = replicate (length r) True" by auto
        then show False using False pad by blast
      qed
      then have "ans = None" using r ref_result_stop [OF None] by simp
      then show ?thesis using unfold slow_step(1) [OF w _ None] len by simp
    next
      case (Some s)
      then obtain st' where st': "decode_code_slow (out_cap src) st = Some (Some st')"
          "win_ok src (length src) st' (drop (code_len s) r)" "wd_out st' = wd_out st @ [of_nat s]"
          "wd_bits st' < wd_bits st"
        using slow_step(2) [OF w _ Some] len by auto
      have "follows src (length src) ans st'"
        unfolding follows_def using st'(2,3) r ref_result_step [OF Some, of "wd_out st"] by auto
      from less.hyps [OF st'(4) this] show ?thesis using unfold st'(1) by simp
    qed
  qed
qed

lemma huffman_decode_run_ok: "huffman_decode_run src = Some (reference_decode src)"
proof -
  let ?st = "\<lparr>wd_acc = 0, wd_bits = 0, wd_out = []\<rparr> :: window"
  have "win_ok src 0 ?st (stream_bits src)" by (simp add: win_ok_def shows_bits_def)
  then have "follows src 0 (reference_decode src) ?st"
    unfolding follows_def reference_decode_def by (intro exI [of _ "stream_bits src"]) simp
  from outer_loop_ok [OF this] show ?thesis
    using tail_loop_ok by (auto simp: huffman_decode_run_def out_cap_def)
qed

lemma huffman_decode_eq: "huffman_decode src = reference_decode src"
  by (simp add: huffman_decode_def huffman_decode_run_ok)

subsection \<open>Encoding and decoding\<close>

lemma ref_result_codes:
  "ref_result (concat (map (\<lambda>b. code_bits (unat b)) bs) @ rest) out = ref_result rest (out @ bs)"
proof (induction bs arbitrary: out)
  case (Cons b bs)
  let ?r = "code_bits (unat b) @ concat (map (\<lambda>b. code_bits (unat b)) bs) @ rest"
  have "unat b < 256" using unsigned_less [of b] by simp
  then have "code_match ?r = Some (unat b)" by (rule code_match_Some) simp
  from ref_result_step [OF this, of out] Cons [of "out @ [b]"] show ?case by simp
qed simp

lemma huffman_roundtrip: "huffman_decode (huffman_encode bs) = Some bs"
proof -
  obtain p where p: "p < 8"
      "stream_bits (huffman_encode bs) = concat (map (\<lambda>b. code_bits (unat b)) bs) @ replicate p True"
    using huffman_encode_bits by blast
  have "ref_result (replicate p True) bs = Some bs"
    using ref_result_stop [OF ones_no_code [OF refl, of p]] p(1) by simp
  then show ?thesis
    using ref_result_codes [of bs "replicate p True" "[]"] p(2)
    by (simp add: huffman_decode_eq reference_decode_def)
qed

end
