(* ===== verification/Hpack_Encode.thy ===== *)
theory Hpack_Encode
  imports Hpack_Index Huffman_Run
begin

section \<open>The HPACK encoder\<close>

text \<open>
  crates/vendor-h2/src/hpack/encoder.rs on the table and the Huffman coder: size updates, the five
  representations, and the strings, whose length is written in front of them after the fact. Results
  are options: \<open>None\<close> is a panic. The reusable \<open>scratch\<close> buffer is left out, it holds no state
  between blocks.
\<close>

subsection \<open>The state\<close>

definition DEFAULT_MAX_ALLOWED_SIZE :: usize where "DEFAULT_MAX_ALLOWED_SIZE = 4 * 1024"

datatype size_update = One usize | Two usize usize

record hpack_encoder =
  he_table :: enc_table
  he_max_allowed_size :: usize
  he_size_update :: "size_update option"

definition hpack_encoder_new :: "usize \<Rightarrow> usize \<Rightarrow> hpack_encoder" where
  "hpack_encoder_new max_size capacity =
     (let max_size = min max_size DEFAULT_MAX_ALLOWED_SIZE
      in \<lparr>he_table = enc_table_new max_size capacity,
          he_max_allowed_size = DEFAULT_MAX_ALLOWED_SIZE, he_size_update = None\<rparr>)"

definition hpack_encoder_default :: hpack_encoder where
  "hpack_encoder_default = hpack_encoder_new 4096 0"

definition update_max_size :: "usize \<Rightarrow> hpack_encoder \<Rightarrow> hpack_encoder" where
  "update_max_size val0 enc =
     (let val = min val0 (he_max_allowed_size enc)
      in case he_size_update enc of
           Some (One old) \<Rightarrow>
             (if old < val then
                (if et_max_size (he_table enc) < old
                 then enc\<lparr>he_size_update := Some (One val)\<rparr>
                 else enc\<lparr>he_size_update := Some (Two old val)\<rparr>)
              else enc\<lparr>he_size_update := Some (One val)\<rparr>)
         | Some (Two mn _) \<Rightarrow>
             (if val < mn then enc\<lparr>he_size_update := Some (One val)\<rparr>
              else enc\<lparr>he_size_update := Some (Two mn val)\<rparr>)
         | None \<Rightarrow>
             (if val \<noteq> et_max_size (he_table enc) then enc\<lparr>he_size_update := Some (One val)\<rparr> else enc))"

subsection \<open>Strings\<close>

text \<open>\<open>dst[i] = b\<close> panics out of range.\<close>

definition buf_set :: "nat \<Rightarrow> byte \<Rightarrow> bytes \<Rightarrow> bytes option" where
  "buf_set i b buf = (if i < length buf then Some (buf[i := b]) else None)"

definition PLACEHOLDER_LEN :: nat where "PLACEHOLDER_LEN = 8"

fun shift_string :: "nat \<Rightarrow> nat \<Rightarrow> nat \<Rightarrow> nat list \<Rightarrow> bytes \<Rightarrow> bytes option" where
  "shift_string idx head_len huff_len [] dst = Some dst"
| "shift_string idx head_len huff_len (i # is) dst =
     (let src_i = idx + 1 + (huff_len - (i + 1));
          dst_i = idx + head_len + (huff_len - (i + 1))
      in if src_i < length dst
         then Option.bind (buf_set dst_i (dst ! src_i) dst) (shift_string idx head_len huff_len is)
         else None)"

fun copy_head :: "nat \<Rightarrow> bytes \<Rightarrow> bytes \<Rightarrow> bytes option" where
  "copy_head i [] dst = Some dst"
| "copy_head i (b # bs) dst = Option.bind (buf_set i b dst) (copy_head (i + 1) bs)"

definition encode_str :: "bytes \<Rightarrow> bytes \<Rightarrow> bytes option" where
  "encode_str v dst =
     (if v \<noteq> [] then
        (let idx = length dst;
             dst = (dst @ [0]) @ huffman_encode v;
             huff_len = length dst - (idx + 1)
         in if encode_int_one_byte huff_len 7 then buf_set idx (128 OR word_of_nat huff_len) dst
            else
              (let head = encode_int huff_len 7 128;
                   head_len = length head
               in if PLACEHOLDER_LEN < head_len then None
                  else
                    Option.bind (shift_string idx head_len huff_len [0..<huff_len] (dst @ tl head))
                      (copy_head idx head)))
      else Some (dst @ [0]))"

subsection \<open>Headers\<close>

definition name_slice :: "hpack_name \<Rightarrow> bytes" where
  "name_slice n =
     (case n of
        NField n \<Rightarrow> ascii n
      | NAuthority \<Rightarrow> ascii '':authority''
      | NMethod \<Rightarrow> ascii '':method''
      | NScheme \<Rightarrow> ascii '':scheme''
      | NPath \<Rightarrow> ascii '':path''
      | NProtocol \<Rightarrow> ascii '':protocol''
      | NStatus \<Rightarrow> ascii '':status'')"

definition value_slice :: "hpack_header \<Rightarrow> bytes" where
  "value_slice h =
     (case h of
        HField _ v \<Rightarrow> v
      | HAuthority v \<Rightarrow> ascii v
      | HMethod v \<Rightarrow> ascii v
      | HScheme v \<Rightarrow> ascii v
      | HPath v \<Rightarrow> ascii v
      | HProtocol v \<Rightarrow> ascii v
      | HStatus v \<Rightarrow> ascii (show_nat v))"

text \<open>\<open>Header<Option<HeaderName>>\<close>: a field may leave its name to the one before it.\<close>

datatype enc_item = ItField "header_name option" header_value bool | ItPseudo hpack_header

definition reify :: "enc_item \<Rightarrow> (header_value \<times> bool) + enc_header" where
  "reify it =
     (case it of
        ItField (Some n) v s \<Rightarrow> Inr (HField n v, s)
      | ItField None v s \<Rightarrow> Inl (v, s)
      | ItPseudo h \<Rightarrow> Inr (h, False))"

definition encode_size_update :: "usize \<Rightarrow> bytes \<Rightarrow> bytes" where
  "encode_size_update val dst = dst @ encode_int val 5 32"

definition encode_not_indexed :: "usize \<Rightarrow> bytes \<Rightarrow> bool \<Rightarrow> bytes \<Rightarrow> bytes option" where
  "encode_not_indexed name v sensitive dst =
     encode_str v (dst @ encode_int name 4 (if sensitive then 16 else 0))"

definition encode_not_indexed2 :: "bytes \<Rightarrow> bytes \<Rightarrow> bool \<Rightarrow> bytes \<Rightarrow> bytes option" where
  "encode_not_indexed2 name v sensitive dst =
     Option.bind (encode_str name (dst @ [if sensitive then 16 else 0])) (encode_str v)"

definition encode_header :: "enc_table \<Rightarrow> index \<Rightarrow> bytes \<Rightarrow> bytes option" where
  "encode_header t ix dst =
     (case ix of
        IxIndexed idx _ \<Rightarrow> Some (dst @ encode_int idx 7 128)
      | IxName idx _ \<Rightarrow>
          Option.bind (et_resolve t ix) (\<lambda>h.
            encode_not_indexed idx (value_slice (fst h)) (header_is_sensitive h) dst)
      | IxInserted _ \<Rightarrow>
          Option.bind (et_resolve t ix) (\<lambda>h.
            if header_is_sensitive h then None
            else Option.bind (encode_str (name_slice (header_name_of (fst h))) (dst @ [64]))
                   (encode_str (value_slice (fst h))))
      | IxInsertedValue idx _ \<Rightarrow>
          Option.bind (et_resolve t ix) (\<lambda>h.
            if header_is_sensitive h then None
            else encode_str (value_slice (fst h)) (dst @ encode_int idx 6 64))
      | IxNotIndexed _ \<Rightarrow>
          Option.bind (et_resolve t ix) (\<lambda>h.
            encode_not_indexed2 (name_slice (header_name_of (fst h))) (value_slice (fst h))
              (header_is_sensitive h) dst))"

definition encode_header_without_name ::
  "enc_table \<Rightarrow> index \<Rightarrow> header_value \<times> bool \<Rightarrow> bytes \<Rightarrow> bytes option" where
  "encode_header_without_name t last_ix v dst =
     (case last_ix of
        IxNotIndexed _ \<Rightarrow>
          Option.bind (et_resolve t last_ix) (\<lambda>h.
            encode_not_indexed2 (name_slice (header_name_of (fst h))) (fst v) (snd v) dst)
      | _ \<Rightarrow>
          Option.bind (resolve_idx last_ix) (\<lambda>idx. encode_not_indexed idx (fst v) (snd v) dst))"

subsection \<open>A header block\<close>

definition encode_size_updates :: "hpack_encoder \<Rightarrow> bytes \<Rightarrow> (hpack_encoder \<times> bytes) option" where
  "encode_size_updates enc dst =
     (let enc' = enc\<lparr>he_size_update := None\<rparr>
      in case he_size_update enc of
           Some (One val) \<Rightarrow>
             Option.bind (et_resize val (he_table enc)) (\<lambda>t.
               Some (enc'\<lparr>he_table := t\<rparr>, encode_size_update val dst))
         | Some (Two mn mx) \<Rightarrow>
             Option.bind (et_resize mn (he_table enc)) (\<lambda>t1.
             Option.bind (et_resize mx t1) (\<lambda>t.
               Some (enc'\<lparr>he_table := t\<rparr>, encode_size_update mx (encode_size_update mn dst))))
         | None \<Rightarrow> Some (enc', dst))"

text \<open>The loop over the headers with \<open>last_index\<close>.\<close>

fun encode_items ::
  "name_hasher \<Rightarrow> enc_item list \<Rightarrow> enc_table \<Rightarrow> index option \<Rightarrow> bytes \<Rightarrow> (enc_table \<times> bytes) option" where
  "encode_items hf [] t last_index dst = Some (t, dst)"
| "encode_items hf (it # items) t last_index dst =
     (case reify it of
        Inr h \<Rightarrow>
          Option.bind (et_index hf h t) (\<lambda>(t', ix).
          Option.bind (encode_header t' ix dst) (encode_items hf items t' (Some ix)))
      | Inl v \<Rightarrow>
          Option.bind last_index (\<lambda>ix.
          Option.bind (encode_header_without_name t ix v dst) (encode_items hf items t last_index)))"

definition hpack_encode ::
  "name_hasher \<Rightarrow> enc_item list \<Rightarrow> hpack_encoder \<Rightarrow> bytes \<Rightarrow> (hpack_encoder \<times> bytes) option" where
  "hpack_encode hf items enc dst =
     Option.bind (encode_size_updates enc dst) (\<lambda>(enc1, dst1).
     Option.bind (encode_items hf items (he_table enc1) None dst1) (\<lambda>(t, dst2).
       Some (enc1\<lparr>he_table := t\<rparr>, dst2)))"

subsection \<open>The encoder of the frame layer\<close>

text \<open>
  What \<open>Iter\<close> of frame/headers.rs yields: the map's own iterator names only the first of the values
  of a name. Neither the engine nor its Python glue marks a value as sensitive.
\<close>

fun iter_items :: "header_name option \<Rightarrow> hpack_header list \<Rightarrow> enc_item list" where
  "iter_items prev [] = []"
| "iter_items prev (HField n v # hs) = ItField (if prev = Some n then None else Some n) v False # iter_items (Some n) hs"
| "iter_items prev (h # hs) = ItPseudo h # iter_items None hs"

text \<open>
  The operations the frame encoder calls, on the encoder of the source. The second case of
  \<open>hpk_encode\<close> stands for a panic; it is never taken (\<open>compressor.block\<close>).
\<close>

definition hpack_code :: "name_hasher \<Rightarrow> hpack_encoder hpack_ops" where
  "hpack_code hf =
     \<lparr>hpk_default = hpack_encoder_default,
      hpk_encode = (\<lambda>hs enc.
        case hpack_encode hf (iter_items None hs) enc [] of Some r \<Rightarrow> r | None \<Rightarrow> (enc, [])),
      hpk_update_max_size = update_max_size\<rparr>"

text \<open>The validations of the crates, with the Huffman decoder of the source.\<close>

definition code_lib :: "hpack_lib \<Rightarrow> hpack_lib" where
  "code_lib lib = lib\<lparr>hl_huffman := huffman_decode\<rparr>"

subsection \<open>What a string becomes\<close>

text \<open>The placeholder, the shift and the copy amount to the length in front of the code.\<close>

definition str_bytes :: "bytes \<Rightarrow> bytes" where
  "str_bytes v =
     (if v = [] then [0] else encode_int (length (huffman_encode v)) 7 128 @ huffman_encode v)"

lemma shift_string_ok:
  assumes n: "1 \<le> n" and H: "H = length huff"
  shows "i \<le> H \<Longrightarrow> length dst = idx + n + H \<Longrightarrow> take idx dst = pre
    \<Longrightarrow> (\<forall>j < H. H - i \<le> j \<longrightarrow> dst ! (idx + n + j) = huff ! j)
    \<Longrightarrow> (\<forall>j < H - i. dst ! (idx + 1 + j) = huff ! j)
    \<Longrightarrow> \<exists>gap. length gap = n \<and> shift_string idx n H [i..<H] dst = Some (pre @ gap @ huff)"
proof (induction "H - i" arbitrary: i dst)
  case 0
  then have "drop (idx + n) dst = huff" by (intro nth_equalityI) (auto simp: H)
  moreover have "dst = take idx dst @ take n (drop idx dst) @ drop (idx + n) dst"
    by (metis append_take_drop_id drop_drop add.commute)
  ultimately have "dst = pre @ take n (drop idx dst) @ huff" using 0(4) by simp
  then show ?case using 0 by (intro exI [of _ "take n (drop idx dst)"]) simp
next
  case (Suc d)
  then have i: "i < H" by simp
  let ?k = "H - (i + 1)" and ?dst = "dst[idx + n + (H - (i + 1)) := dst ! (idx + 1 + (H - (i + 1)))]"
  have "shift_string idx n H [i..<H] dst = shift_string idx n H [i + 1..<H] ?dst"
    using i Suc.prems(2) n by (simp add: upt_conv_Cons buf_set_def Let_def)
  moreover have "\<exists>gap. length gap = n \<and> shift_string idx n H [i + 1..<H] ?dst = Some (pre @ gap @ huff)"
  proof (rule Suc.hyps(1))
    show "\<forall>j < H. H - (i + 1) \<le> j \<longrightarrow> ?dst ! (idx + n + j) = huff ! j"
    proof (intro allI impI)
      fix j assume j: "j < H" "H - (i + 1) \<le> j"
      show "?dst ! (idx + n + j) = huff ! j"
      proof (cases "j = ?k")
        case True
        have "?k < H - i" using i by simp
        then have "dst ! (idx + 1 + ?k) = huff ! ?k" using Suc.prems(5) by blast
        then show ?thesis using True Suc.prems(2) i n by simp
      next
        case False
        then have "H - i \<le> j" using j by linarith
        then show ?thesis using False Suc.prems(4) j(1) by simp
      qed
    qed
    show "\<forall>j < H - (i + 1). ?dst ! (idx + 1 + j) = huff ! j"
      using Suc.prems(5) n by (auto simp: nth_list_update)
  qed (use Suc i n in auto)
  ultimately show ?case by simp
qed

lemma copy_head_ok:
  "length gap = length bs \<Longrightarrow> copy_head (length pre) bs (pre @ gap @ rest) = Some (pre @ bs @ rest)"
proof (induction bs arbitrary: pre gap)
  case (Cons b bs)
  then obtain g gap' where gap: "gap = g # gap'" "length gap' = length bs" by (cases gap) auto
  show ?case using Cons.IH [OF gap(2), of "pre @ [b]"] by (simp add: gap(1) buf_set_def list_update_append)
qed simp

lemma encode_str_ok:
  assumes "length (encode_int (length (huffman_encode v)) 7 128) \<le> PLACEHOLDER_LEN"
  shows "encode_str v dst = Some (dst @ str_bytes v)"
proof (cases "v = []")
  case False
  let ?h = "huffman_encode v"
  show ?thesis
  proof (cases "encode_int_one_byte (length ?h) 7")
    case True
    then show ?thesis using False
      by (simp add: encode_str_def str_bytes_def Let_def buf_set_def encode_int_def list_update_append)
  next
    case long: False
    let ?head = "encode_int (length ?h) 7 128" and ?dst = "dst @ 0 # ?h @ tl (encode_int (length ?h) 7 128)"
    have n: "1 \<le> length ?head" by (simp add: encode_int_def Let_def)
    have "\<exists>gap. length gap = length ?head
        \<and> shift_string (length dst) (length ?head) (length ?h) [0..<length ?h] ?dst = Some (dst @ gap @ ?h)"
      using n by (intro shift_string_ok) (auto simp: nth_append)
    then obtain gap where gap: "length gap = length ?head"
        "shift_string (length dst) (length ?head) (length ?h) [0..<length ?h] ?dst = Some (dst @ gap @ ?h)"
      by blast
    show ?thesis using False long assms gap(2) copy_head_ok [OF gap(1), of dst ?h]
      by (simp add: encode_str_def str_bytes_def Let_def)
  qed
qed (simp add: encode_str_def str_bytes_def)

text \<open>No string a header may hold comes near the eight bytes of the placeholder.\<close>

lemma length_encode_varint: "v < 128 ^ Suc n \<Longrightarrow> length (encode_varint v) \<le> Suc n"
proof (induction n arbitrary: v)
  case 0
  then show ?case by (subst encode_varint.simps) simp
next
  case (Suc n)
  have "v div 128 < 128 ^ Suc n" using Suc.prems by (simp add: less_mult_imp_div_less mult.commute)
  from Suc.IH [OF this] show ?case by (subst encode_varint.simps) simp
qed

lemma length_encode_int:
  "v < 2 ^ 28 \<Longrightarrow> length (encode_int v p first) \<le> 5"
proof -
  assume "v < 2 ^ 28"
  then have "v - (2 ^ p - 1) < 2 ^ 28" by (rule le_less_trans [OF diff_le_self])
  then have "v - (2 ^ p - 1) < 128 ^ Suc 3" by simp
  from length_encode_varint [OF this] show ?thesis by (simp add: encode_int_def Let_def)
qed

lemma length_huffman_encode: "length (huffman_encode v) \<le> 4 * length v"
proof -
  obtain p where p: "p < 8"
      "stream_bits (huffman_encode v) = concat (map (\<lambda>b. code_bits (unat b)) v) @ replicate p True"
    using huffman_encode_bits by blast
  have "length (concat (map (\<lambda>b. code_bits (unat b)) v)) \<le> 30 * length v"
  proof (induction v)
    case (Cons b v)
    have "code_len (unat b) \<le> 30" using unsigned_less [of b] by (intro code_range(2)) simp
    then show ?case using Cons by simp
  qed simp
  moreover have "8 * length (huffman_encode v) = length (concat (map (\<lambda>b. code_bits (unat b)) v)) + p"
    using arg_cong [OF p(2), of length] by (simp add: length_stream_bits)
  moreover have "v = [] \<Longrightarrow> p = 0"
  proof -
    assume "v = []"
    then have "8 * length (huffman_encode v) = p" using calculation(2) by simp
    then have "8 dvd p" by (rule dvdI [OF sym])
    then show "p = 0" using p(1) by (auto dest: dvd_imp_le)
  qed
  ultimately show ?thesis using p(1) by (cases v) auto
qed

lemma short_string:
  assumes "length v < 2 ^ 26"
  shows "length (huffman_encode v) < 2 ^ 28" and "encode_str v dst = Some (dst @ str_bytes v)"
proof -
  show l: "length (huffman_encode v) < 2 ^ 28" using length_huffman_encode [of v] assms by simp
  show "encode_str v dst = Some (dst @ str_bytes v)"
    using length_encode_int [OF l, of 7 128] by (intro encode_str_ok) (simp add: PLACEHOLDER_LEN_def)
qed

end
