(* ===== verification/Hpack_Chunks.thy ===== *)
theory Hpack_Chunks
  imports Hpack_Decode
begin

section \<open>Header blocks in pieces\<close>

text \<open>
  A header block arrives in as many frames as the sender cut it into. The decoder takes the headers
  that are complete, reports \<open>NeedMore\<close> at the one that is not, and is called again with the rest and
  the next piece: that comes to the same as decoding the block at once.
\<close>

subsection \<open>Readers on a prefix\<close>

definition cur_more :: "bytes \<Rightarrow> cursor \<Rightarrow> cursor" where
  "cur_more x c = (fst c @ x, snd c)"

definition cuts :: "(cursor \<Rightarrow> cursor \<times> (hpack_error + 'a)) \<Rightarrow> bool" where
  "cuts f \<longleftrightarrow> (\<forall>c x c' v. f (cur_more x c) = (c', Inr v) \<longrightarrow>
     (\<exists>c1. f c = (c1, Inr v) \<and> c' = cur_more x c1) \<or> (\<exists>c1. f c = (c1, Inl NeedMore) \<and> fst c1 = fst c))"

lemma cutsD:
  assumes "cuts f" and "f (cur_more x c) = (c', Inr v)"
  obtains c1 where "f c = (c1, Inr v)" "c' = cur_more x c1" | c1 where "f c = (c1, Inl NeedMore)" "fst c1 = fst c"
  using assms unfolding cuts_def by blast

lemma cutsI:
  assumes "\<And>c x c' v. f (cur_more x c) = (c', Inr v) \<Longrightarrow>
     (\<exists>c1. f c = (c1, Inr v) \<and> c' = cur_more x c1) \<or> (\<exists>c1. f c = (c1, Inl NeedMore) \<and> fst c1 = fst c)"
  shows "cuts f"
  using assms unfolding cuts_def by blast

lemma peek_more: "peek_u8 c = Some b \<Longrightarrow> peek_u8 (cur_more x c) = Some b"
  by (auto simp: peek_u8_def cur_remaining_def cur_more_def nth_append split: if_splits)

lemma advance_more: "cur_advance n (cur_more x c) = cur_more x (cur_advance n c)"
  by (simp add: cur_advance_def cur_more_def)

lemma decode_varint_cut:
  "decode_varint n shift ret (cur_more x c) = (c', Inr v) \<Longrightarrow>
     (\<exists>c1. decode_varint n shift ret c = (c1, Inr v) \<and> c' = cur_more x c1)
     \<or> (\<exists>c1. decode_varint n shift ret c = (c1, Inl NeedMore) \<and> fst c1 = fst c)"
proof (induction n shift ret c rule: decode_varint.induct)
  case (1 n shift ret c)
  show ?case
  proof (cases "peek_u8 c")
    case None
    then show ?thesis by (simp add: decode_varint.simps [of n shift ret c])
  next
    case (Some b)
    note more = peek_more [OF Some, of x]
    show ?thesis
    proof (cases "b AND 128 = 0 \<or> n + 1 = DECODE_MAX_BYTES")
      case True
      then show ?thesis
        using 1(2) Some more
        by (auto simp: decode_varint.simps [of n shift ret c] decode_varint.simps [of n shift ret "cur_more x c"]
            Let_def advance_more simp del: split_paired_Ex split: if_splits)
    next
      case False
      then have "decode_varint (n + 1) (shift + 7) (ret + unat (b AND 127) * 2 ^ shift)
          (cur_more x (cur_advance 1 c)) = (c', Inr v)"
        using 1(2) more by (simp add: decode_varint.simps [of n shift ret "cur_more x c"] Let_def advance_more)
      from 1(1) [OF Some refl refl _ _ this] False show ?thesis
        using Some by (simp add: decode_varint.simps [of n shift ret c] Let_def cur_advance_def)
    qed
  qed
qed

lemma decode_int_cut: "cuts (decode_int p)"
proof (rule cutsI)
  fix c x c' v
  assume d: "decode_int p (cur_more x c) = (c', Inr v)"
  show "(\<exists>c1. decode_int p c = (c1, Inr v) \<and> c' = cur_more x c1)
    \<or> (\<exists>c1. decode_int p c = (c1, Inl NeedMore) \<and> fst c1 = fst c)"
  proof (cases "peek_u8 c")
    case None
    then show ?thesis using d by (auto simp: decode_int_def simp del: split_paired_Ex split: if_splits)
  next
    case (Some b)
    note more = peek_more [OF Some, of x]
    show ?thesis
    proof (cases "unat b mod 2 ^ p < 2 ^ p - 1")
      case True
      then show ?thesis using d Some more by (auto simp: decode_int_def Let_def advance_more simp del: split_paired_Ex split: if_splits)
    next
      case False
      then have "decode_varint 1 0 (unat b mod 2 ^ p) (cur_more x (cur_advance 1 c)) = (c', Inr v)"
        using d more by (simp add: decode_int_def Let_def advance_more split: if_splits)
      from decode_varint_cut [OF this] False show ?thesis
        using d Some by (auto simp: decode_int_def Let_def cur_advance_def simp del: split_paired_Ex split: if_splits)
    qed
  qed
qed

lemma decode_varint_pos: "decode_varint n shift ret c = (c', Inr v) \<Longrightarrow> snd c < snd c' \<and> snd c' \<le> length (fst c)"
proof (induction n shift ret c rule: decode_varint.induct)
  case (1 n shift ret c)
  show ?case
  proof (cases "peek_u8 c")
    case None
    then show ?thesis using 1(2) by (simp add: decode_varint.simps [of n shift ret c])
  next
    case (Some b)
    then have lt: "snd c < length (fst c)" by (simp add: peek_u8_def cur_remaining_def split: if_splits)
    show ?thesis
    proof (cases "b AND 128 = 0 \<or> n + 1 = DECODE_MAX_BYTES")
      case True
      then show ?thesis
        using 1(2) Some lt
        by (auto simp: decode_varint.simps [of n shift ret c] Let_def cur_advance_def split: if_splits)
    next
      case False
      then have "decode_varint (n + 1) (shift + 7) (ret + unat (b AND 127) * 2 ^ shift) (cur_advance 1 c) = (c', Inr v)"
        using 1(2) Some by (simp add: decode_varint.simps [of n shift ret c] Let_def)
      from 1(1) [OF Some refl refl _ _ this] False show ?thesis by (simp add: cur_advance_def)
    qed
  qed
qed

lemma decode_int_pos:
  assumes "decode_int p c = (c', Inr v)"
  shows "fst c' = fst c \<and> snd c < snd c' \<and> snd c' \<le> length (fst c)"
proof -
  obtain b where b: "peek_u8 c = Some b" using assms by (cases "peek_u8 c") (auto simp: decode_int_def split: if_splits)
  then have "snd c < length (fst c)" by (simp add: peek_u8_def cur_remaining_def split: if_splits)
  moreover have "fst c' = fst c" using decode_int_buf [of p c] assms by simp
  ultimately show ?thesis
    using assms b by (auto simp: decode_int_def Let_def cur_advance_def split: if_splits dest!: decode_varint_pos)
qed

subsection \<open>Strings\<close>

lemma try_string_cut: "cuts (try_decode_string hl)"
proof (rule cutsI)
  fix c x c' v
  assume d: "try_decode_string hl (cur_more x c) = (c', Inr v)"
  show "(\<exists>c1. try_decode_string hl c = (c1, Inr v) \<and> c' = cur_more x c1)
    \<or> (\<exists>c1. try_decode_string hl c = (c1, Inl NeedMore) \<and> fst c1 = fst c)"
  proof (cases "peek_u8 c")
    case None
    then show ?thesis by (simp add: try_decode_string_def)
  next
    case (Some b)
    note more = peek_more [OF Some, of x]
    obtain c2 n where i: "decode_int 7 (cur_more x c) = (c2, Inr n)"
      using d more by (cases "decode_int 7 (cur_more x c)"; cases "snd (decode_int 7 (cur_more x c))")
        (auto simp: try_decode_string_def)
    from cutsD [OF decode_int_cut i] show ?thesis
    proof cases
      case (1 c1)
      have pos: "fst c1 = fst c" "snd c < snd c1" "snd c1 \<le> length (fst c)" using decode_int_pos [OF 1(1)] by auto
      show ?thesis
      proof (cases "cur_remaining c1 < n")
        case True
        then show ?thesis using Some 1(1) pos(1) by (simp add: try_decode_string_def)
      next
        case False
        then have "take n (drop (snd c1) (fst c1 @ x)) = take n (drop (snd c1) (fst c1))"
          using pos by (simp add: cur_remaining_def)
        moreover have "\<not> cur_remaining (cur_more x c1) < n" using False by (simp add: cur_remaining_def cur_more_def)
        ultimately show ?thesis
          using d Some more i 1 False
          by (auto simp: try_decode_string_def Let_def advance_more cur_more_def cur_advance_def simp del: split_paired_Ex
              split: option.splits if_splits)
      qed
    next
      case (2 c1)
      then show ?thesis using Some by (simp add: try_decode_string_def)
    qed
  qed
qed

lemma try_string_pos:
  assumes "try_decode_string hl c = (c', Inr m)"
  shows "fst c' = fst c \<and> snd c' = snd c + sm_offset m + sm_len m \<and> snd c' \<le> length (fst c)"
proof -
  obtain b c1 n where b: "peek_u8 c = Some b" and i: "decode_int 7 c = (c1, Inr n)"
    using assms by (cases "decode_int 7 c"; cases "snd (decode_int 7 c)"; cases "peek_u8 c")
      (auto simp: try_decode_string_def)
  have "fst c1 = fst c" "snd c < snd c1" "snd c1 \<le> length (fst c)" using decode_int_pos [OF i] by auto
  then show ?thesis
    using assms b i by (auto simp: try_decode_string_def Let_def cur_advance_def cur_remaining_def split: if_splits option.splits)
qed

lemma marker_more:
  assumes "snd c + sm_offset m + sm_len m \<le> length (fst c)" and "marker_consume m c = (s, c')"
  shows "marker_consume m (cur_more x c) = (s, cur_more x c')"
    and "length (fst c') - snd c' = length (fst c) - (snd c + sm_offset m + sm_len m)" and "snd c' \<le> length (fst c')"
  using assms
  by (auto simp: marker_consume_def Let_def cur_advance_def cur_take_def cur_more_def split: option.splits)

lemma decode_string_cut: "cuts (decode_string hl)"
proof (rule cutsI)
  fix c x c' v
  assume d: "decode_string hl (cur_more x c) = (c', Inr v)"
  obtain c2 m where t: "try_decode_string hl (cur_more x c) = (c2, Inr m)"
    using d by (cases "try_decode_string hl (cur_more x c)"; cases "snd (try_decode_string hl (cur_more x c))")
      (auto simp: decode_string_def)
  from cutsD [OF try_string_cut t]
  show "(\<exists>c1. decode_string hl c = (c1, Inr v) \<and> c' = cur_more x c1)
    \<or> (\<exists>c1. decode_string hl c = (c1, Inl NeedMore) \<and> fst c1 = fst c)"
  proof cases
    case (1 c1)
    obtain s c3 where m: "marker_consume m (fst c1, snd c) = (s, c3)" by (rule prod.exhaust)
    have pos: "snd c + sm_offset m + sm_len m \<le> length (fst c1)" using try_string_pos [OF 1(1)] by auto
    have "marker_consume m (fst c1 @ x, snd c) = (s, cur_more x c3)"
      using marker_more(1) [OF _ m, of x] pos by (simp add: cur_more_def)
    then show ?thesis using d t 1 m by (simp add: decode_string_def cur_more_def)
  next
    case (2 c1)
    then show ?thesis by (simp add: decode_string_def)
  qed
qed


subsection \<open>Representations\<close>

lemma decode_indexed_cut: "cuts (decode_indexed d)"
proof (rule cutsI)
  fix c x c' v
  assume i: "decode_indexed d (cur_more x c) = (c', Inr v)"
  obtain c2 n where t: "decode_int 7 (cur_more x c) = (c2, Inr n)"
    using i by (cases "decode_int 7 (cur_more x c)"; cases "snd (decode_int 7 (cur_more x c))")
      (auto simp: decode_indexed_def)
  from cutsD [OF decode_int_cut t]
  show "(\<exists>c1. decode_indexed d c = (c1, Inr v) \<and> c' = cur_more x c1)
    \<or> (\<exists>c1. decode_indexed d c = (c1, Inl NeedMore) \<and> fst c1 = fst c)"
    by cases (use i t in \<open>auto simp: decode_indexed_def simp del: split_paired_Ex\<close>)
qed

lemma decode_literal_cut: "cuts (decode_literal hl index d)"
proof (rule cutsI)
  fix c x c' v
  let ?p = "if index then 6 else 4"
  assume d: "decode_literal hl index d (cur_more x c) = (c', Inr v)"
  obtain c2 n where i: "decode_int ?p (cur_more x c) = (c2, Inr n)"
    using d by (cases "decode_int ?p (cur_more x c)"; cases "snd (decode_int ?p (cur_more x c))")
      (auto simp: decode_literal_def)
  from cutsD [OF decode_int_cut i]
  show "(\<exists>c1. decode_literal hl index d c = (c1, Inr v) \<and> c' = cur_more x c1)
    \<or> (\<exists>c1. decode_literal hl index d c = (c1, Inl NeedMore) \<and> fst c1 = fst c)" (is "?goal")
  proof cases
    case (2 c1)
    then show ?thesis by (simp add: decode_literal_def)
  next
    case (1 c1)
    have c1: "fst c1 = fst c" using decode_int_pos [OF 1(1)] by simp
    note rd = d [unfolded decode_literal_def i and_then_simps 1(2)]
    show ?thesis
    proof (cases "n = 0")
      case False
      obtain e where e: "table_get n (hd_table d) = Inr e"
        using rd False by (cases "table_get n (hd_table d)") simp_all
      obtain c3 w where str: "decode_string hl (cur_more x c1) = (c3, Inr w)"
        using rd False e by (cases "decode_string hl (cur_more x c1)"; cases "snd (decode_string hl (cur_more x c1))") auto
      from cutsD [OF decode_string_cut str] show ?thesis
        by cases (use rd str 1(1) c1 False e in \<open>auto simp: decode_literal_def simp del: split_paired_Ex\<close>)
    next
      case True
      obtain c3 nm where n: "try_decode_string hl (cur_more x c1) = (c3, Inr nm)"
        using rd True by (cases "try_decode_string hl (cur_more x c1)"; cases "snd (try_decode_string hl (cur_more x c1))") auto
      from cutsD [OF try_string_cut n] show ?thesis
      proof cases
        case (2 c4)
        then show ?thesis using 1(1) c1 True by (simp add: decode_literal_def)
      next
        case n1: (1 c4)
        obtain c5 vm where v: "try_decode_string hl (cur_more x c4) = (c5, Inr vm)"
          using rd True n n1(2)
          by (cases "try_decode_string hl (cur_more x c4)"; cases "snd (try_decode_string hl (cur_more x c4))") auto
        note p1 = try_string_pos [OF n1(1)]
        from cutsD [OF try_string_cut v] show ?thesis
        proof cases
          case (2 c6)
          then show ?thesis using 1(1) c1 True n1 p1 by (simp add: decode_literal_def)
        next
          case v1: (1 c6)
          note p2 = try_string_pos [OF v1(1)]
          obtain name c7 where m1: "marker_consume nm (fst c6, snd c1) = (name, c7)" by (rule prod.exhaust)
          obtain val c8 where m2: "marker_consume vm c7 = (val, c8)" by (rule prod.exhaust)
          have b1: "snd c1 + sm_offset nm + sm_len nm \<le> length (fst c6)" using p1 p2 by simp
          have mm1: "marker_consume nm (fst c6 @ x, snd c1) = (name, cur_more x c7)"
            "length (fst c7) - snd c7 = length (fst c6) - (snd c1 + sm_offset nm + sm_len nm)" "snd c7 \<le> length (fst c7)"
            using marker_more(1) [OF _ m1, of x] marker_more(2,3) [OF _ m1] b1 by (simp_all add: cur_more_def)
          have "snd c7 + sm_offset vm + sm_len vm \<le> length (fst c7)" using mm1(2,3) p1 p2 by simp arith
          note mm2 = marker_more(1) [OF this m2, of x]
          have "decode_literal hl index d c = (c8, header_new hl name val)"
            using 1(1) True n1(1) v1(1) m1 m2 by (simp add: decode_literal_def)
          moreover have "(c', Inr v) = (cur_more x c8, header_new hl name val)"
            using rd True n n1(2) v v1(2) mm1(1) mm2 by (simp add: cur_more_def)
          ultimately show ?thesis by auto
        qed
      qed
    qed
  qed
qed

subsection \<open>Items\<close>

lemma consume_more: "snd c \<le> length (fst c) \<Longrightarrow> cur_consume (cur_more x c) = cur_more x (cur_consume c)"
  by (simp add: cur_consume_def cur_take_def cur_more_def)


lemma decode_string_pos:
  assumes "decode_string hl c = (c', Inr v)" shows "snd c' \<le> length (fst c')"
proof -
  obtain c1 m where t: "try_decode_string hl c = (c1, Inr m)" and m: "marker_consume m (fst c1, snd c) = (v, c')"
    using assms by (cases "try_decode_string hl c"; cases "snd (try_decode_string hl c)")
      (auto simp: decode_string_def split: prod.splits)
  show ?thesis using marker_more(3) [OF _ m] try_string_pos [OF t] by simp
qed

lemma decode_literal_pos:
  assumes "decode_literal hl index d c = (c', Inr h)" shows "snd c' \<le> length (fst c')"
proof -
  let ?p = "if index then 6 else 4"
  obtain c1 idx where i: "decode_int ?p c = (c1, Inr idx)"
    using assms by (cases "decode_int ?p c"; cases "snd (decode_int ?p c)") (auto simp: decode_literal_def)
  show ?thesis
  proof (cases "idx = 0")
    case False
    then obtain e v where "decode_string hl c1 = (c', Inr v)"
      using assms i by (cases "decode_string hl c1"; cases "snd (decode_string hl c1)")
        (auto simp: decode_literal_def split: sum.splits)
    then show ?thesis by (rule decode_string_pos)
  next
    case True
    obtain c2 nm where n: "try_decode_string hl c1 = (c2, Inr nm)"
      using assms i True by (cases "try_decode_string hl c1"; cases "snd (try_decode_string hl c1)")
        (auto simp: decode_literal_def)
    obtain c3 vm where v: "try_decode_string hl c2 = (c3, Inr vm)"
      using assms i True n by (cases "try_decode_string hl c2"; cases "snd (try_decode_string hl c2)")
        (auto simp: decode_literal_def)
    obtain name c4 val where m: "marker_consume nm (fst c3, snd c1) = (name, c4)" "marker_consume vm c4 = (val, c')"
      using assms i True n v by (auto simp: decode_literal_def split: prod.splits)
    note p = try_string_pos [OF n] try_string_pos [OF v]
    have "snd c1 + sm_offset nm + sm_len nm \<le> length (fst c3)" using p by simp
    then have "snd c4 + sm_offset vm + sm_len vm \<le> length (fst c4)"
      using marker_more(2,3) [OF _ m(1)] p by simp arith
    then show ?thesis by (rule marker_more(3) [OF _ m(2)])
  qed
qed

lemma decode_item_cut:
  assumes whole: "decode_item hl cr d (cur_more x c) = ((d', c'), Inr v)" and b: "peek_u8 c = Some b"
  shows "(\<exists>c1. decode_item hl cr d c = ((d', cur_consume c1), Inr v) \<and> c' = cur_more x (cur_consume c1))
    \<or> (\<exists>c1. decode_item hl cr d c = ((d, c1), Inl (HErr NeedMore)) \<and> fst c1 = fst c)" (is ?goal)
proof -
  note more = peek_more [OF b, of x]
  obtain rep where rep: "representation_load b = Inr rep"
    using whole more by (cases "representation_load b") (auto simp: decode_item_def)
  have item: "decode_item hl cr d c =
      (case rep of
        Indexed \<Rightarrow>
          (case decode_indexed d c of
             (c1, Inl e) \<Rightarrow> ((d, c1), Inl (HErr e))
           | (c1, Inr entry) \<Rightarrow> ((d, cur_consume c1), Inr (Some entry)))
      | LiteralWithIndexing \<Rightarrow>
          (case decode_literal hl True d c of
             (c1, Inl e) \<Rightarrow> ((d, c1), Inl (HErr e))
           | (c1, Inr entry) \<Rightarrow>
               ((d\<lparr>hd_table := table_insert entry (hd_table d)\<rparr>, cur_consume c1), Inr (Some entry)))
      | SizeUpdate \<Rightarrow>
          (if \<not> cr then ((d, c), Inl (HErr InvalidMaxDynamicSize))
           else case decode_int 5 c of
             (c1, Inl e) \<Rightarrow> ((d, c1), Inl (HErr e))
           | (c1, Inr new_size) \<Rightarrow>
               if hd_last_max_update d < new_size then ((d, c1), Inl (HErr InvalidMaxDynamicSize))
               else case table_set_max_size new_size (hd_table d) of
                      None \<Rightarrow> ((d, c1), Inl HPanic)
                    | Some t \<Rightarrow> ((d\<lparr>hd_table := t\<rparr>, cur_consume c1), Inr None))
      | _ \<Rightarrow>
          (case decode_literal hl False d c of
             (c1, Inl e) \<Rightarrow> ((d, c1), Inl (HErr e))
           | (c1, Inr entry) \<Rightarrow> ((d, cur_consume c1), Inr (Some entry))))"
    if "peek_u8 c = Some b" for c
    using that rep by (simp add: decode_item_def split: representation.split)
  note w = whole [unfolded item [OF more]] and s = item [OF b]
  have lit: "(\<exists>c1. decode_literal hl index d c = (c1, Inr h) \<and> c2 = cur_more x c1 \<and> snd c1 \<le> length (fst c1))
      \<or> (\<exists>c1. decode_literal hl index d c = (c1, Inl NeedMore) \<and> fst c1 = fst c)"
    if "decode_literal hl index d (cur_more x c) = (c2, Inr h)" for index c2 h
    using cutsD [OF decode_literal_cut that] decode_literal_pos by metis
  show ?thesis
  proof (cases rep)
    case Indexed
    obtain c2 h where i: "decode_indexed d (cur_more x c) = (c2, Inr h)"
      using w Indexed by (auto split: prod.splits sum.splits)
    from cutsD [OF decode_indexed_cut i] show ?thesis
    proof cases
      case (1 c1)
      obtain n where "decode_int 7 c = (c1, Inr n)"
        using 1(1) by (cases "decode_int 7 c"; cases "snd (decode_int 7 c)") (auto simp: decode_indexed_def)
      then have "snd c1 \<le> length (fst c1)" using decode_int_pos by fastforce
      then show ?thesis using w s Indexed i 1 by (auto simp: consume_more simp del: split_paired_Ex)
    next
      case (2 c1)
      then show ?thesis using s Indexed by (auto simp del: split_paired_Ex)
    qed
  next
    case SizeUpdate
    obtain c2 n where i: "decode_int 5 (cur_more x c) = (c2, Inr n)" "cr"
      using w SizeUpdate by (auto split: prod.splits sum.splits if_splits)
    from cutsD [OF decode_int_cut i(1)] show ?thesis
    proof cases
      case (1 c1)
      then have "snd c1 \<le> length (fst c1)" using decode_int_pos by fastforce
      then show ?thesis using w s SizeUpdate i 1
        by (auto simp: consume_more simp del: split_paired_Ex split: if_splits option.splits)
    next
      case (2 c1)
      then show ?thesis using s SizeUpdate i(2) by (auto simp del: split_paired_Ex)
    qed
  next
    case LiteralWithIndexing
    obtain c2 h where i: "decode_literal hl True d (cur_more x c) = (c2, Inr h)"
      using w LiteralWithIndexing by (auto split: prod.splits sum.splits)
    show ?thesis using lit [OF i] w s LiteralWithIndexing i by (auto simp: consume_more simp del: split_paired_Ex)
  next
    case LiteralWithoutIndexing
    obtain c2 h where i: "decode_literal hl False d (cur_more x c) = (c2, Inr h)"
      using w LiteralWithoutIndexing by (auto split: prod.splits sum.splits)
    show ?thesis using lit [OF i] w s LiteralWithoutIndexing i by (auto simp: consume_more simp del: split_paired_Ex)
  next
    case LiteralNeverIndexed
    obtain c2 h where i: "decode_literal hl False d (cur_more x c) = (c2, Inr h)"
      using w LiteralNeverIndexed by (auto split: prod.splits sum.splits)
    show ?thesis using lit [OF i] w s LiteralNeverIndexed i by (auto simp: consume_more simp del: split_paired_Ex)
  qed
qed

subsection \<open>The loop\<close>

text \<open>A callback that never stops the decoder.\<close>

definition unstoppable :: "(hpack_header \<Rightarrow> 'a \<Rightarrow> 'a \<times> bool) \<Rightarrow> bool" where
  "unstoppable f \<longleftrightarrow> (\<forall>h acc. \<not> snd (f h acc))"

lemma cur_consume_0: "\<exists>b. cur_consume c = (b, 0)"
  by (simp add: cur_consume_def cur_take_def)

lemma decode_item_resize:
  "decode_item hl cr d c = (dc, Inr v) \<Longrightarrow> decode_item hl True d c = (dc, Inr v)"
  by (cases cr) (auto simp: decode_item_def split: option.splits sum.splits representation.splits if_splits)

lemma decode_item_header:
  "decode_item hl False d c = (dc, Inr v) \<Longrightarrow> peek_u8 c \<noteq> None \<Longrightarrow> v \<noteq> None"
  by (auto simp: decode_item_def split: option.splits sum.splits representation.splits prod.splits)

lemma decode_item_update:
  "decode_item hl cr d c = ((d', c'), r) \<Longrightarrow> hd_max_size_update d' = hd_max_size_update d"
  by (auto simp: decode_item_def split: option.splits sum.splits representation.splits prod.splits if_splits)

lemma decode_loop_resize:
  assumes "decode_loop hl f cr d c acc = (d', c', acc', Inr ())"
  shows "decode_loop hl f True d c acc = (d', c', acc', Inr ())"
proof (cases cr)
  case True
  then show ?thesis using assms by simp
next
  case False
  show ?thesis
  proof (cases "peek_u8 c = None")
    case True
    then have "decode_loop hl f b d c acc = (d, c, acc, Inr ())" for b
      by (simp add: decode_loop.simps [of hl f b d c acc])
    then show ?thesis using assms by simp
  next
    case some: False
    have a: "decode_loop hl f False d c acc = (d', c', acc', Inr ())" using assms False by simp
    obtain dc r where i: "decode_item hl False d c = (dc, r)" by fastforce
    obtain h where r: "r = Inr (Some h)"
      using a some i decode_item_header [of hl d c dc]
      by (cases r) (auto simp: decode_loop.simps [of hl f False d c acc] split: option.splits prod.splits)
    show ?thesis
      using a some i [unfolded r] decode_item_resize [OF i [unfolded r]]
      by (auto simp: decode_loop.simps [of hl f True d c acc] decode_loop.simps [of hl f False d c acc])
  qed
qed

lemma decode_loop_cut:
  assumes "unstoppable f"
  shows "decode_loop hl f cr d (b @ x, 0) acc = (d', c', acc', Inr ()) \<Longrightarrow>
    \<exists>d1 c1 acc1 r. decode_loop hl f cr d (b, 0) acc = (d1, c1, acc1, r)
      \<and> (r = Inr () \<and> fst c1 = [] \<or> r = Inl (HErr NeedMore)) \<and> hd_max_size_update d1 = hd_max_size_update d
      \<and> decode_loop hl f True d1 (fst c1 @ x, 0) acc1 = (d', c', acc', Inr ())"
proof (induction "length b" arbitrary: b cr d acc rule: less_induct)
  case less
  show ?case
  proof (cases b)
    case Nil
    then show ?thesis
      using less.prems decode_loop_resize by (simp add: decode_loop.simps [of hl f cr d "([], 0)"] peek_u8_def cur_remaining_def)
  next
    case (Cons b0 bs)
    have p: "peek_u8 (b, 0) = Some b0" by (simp add: Cons peek_u8_def cur_remaining_def)
    have m: "cur_more x (b, 0) = (b @ x, 0)" by (simp add: cur_more_def)
    have pm: "peek_u8 (b @ x, 0) = Some b0" using peek_more [OF p, of x] by (simp add: m)
    obtain d2 c2 v where i: "decode_item hl cr d (b @ x, 0) = ((d2, c2), Inr v)"
      using less.prems pm by (cases "decode_item hl cr d (b @ x, 0)"; cases "snd (decode_item hl cr d (b @ x, 0))")
        (auto simp: decode_loop.simps [of hl f cr d "(b @ x, 0)"])
    have "decode_item hl cr d (cur_more x (b, 0)) = ((d2, c2), Inr v)" by (simp only: m i)
    note cut = decode_item_cut [OF this p, unfolded fst_conv]
    from cut show ?thesis
    proof (elim disjE exE conjE)
      fix c1
      assume more: "decode_item hl cr d (b, 0) = ((d, c1), Inl (HErr NeedMore))" "fst c1 = b"
      have "decode_loop hl f cr d (b, 0) acc = (d, c1, acc, Inl (HErr NeedMore))"
        using p more(1) by (simp add: decode_loop.simps [of hl f cr d "(b, 0)"])
      then show ?thesis
        by (intro exI [of _ d] exI [of _ c1] exI [of _ acc] exI [of _ "Inl (HErr NeedMore)"])
          (simp add: decode_loop_resize [OF less.prems] more(2))
    next
      fix c1
      assume item: "decode_item hl cr d (b, 0) = ((d2, cur_consume c1), Inr v)" "c2 = cur_more x (cur_consume c1)"
      obtain b' where b': "cur_consume c1 = (b', 0)" using cur_consume_0 by blast
      have c2: "c2 = (b' @ x, 0)" using item(2) by (simp add: b' cur_more_def)
      have len: "length b' < length b"
        using decode_item_progress [OF item(1)] p by (simp add: b' cur_remaining_def)
      note u = decode_item_update [OF item(1)]
      show ?thesis
      proof (cases v)
        case None
        have "decode_loop hl f cr d2 (b' @ x, 0) acc = (d', c', acc', Inr ())"
          using less.prems pm i None c2 by (simp add: decode_loop.simps [of hl f cr d "(b @ x, 0)"])
        from less.hyps [OF len this] show ?thesis
          using p item(1) None b' u by (simp add: decode_loop.simps [of hl f cr d "(b, 0)"])
      next
        case (Some h)
        obtain acc2 where f: "f h acc = (acc2, False)"
          using assms unfolding unstoppable_def by (metis (full_types) prod.collapse)
        have "decode_loop hl f False d2 (b' @ x, 0) acc2 = (d', c', acc', Inr ())"
          using less.prems pm i Some c2 f by (simp add: decode_loop.simps [of hl f cr d "(b @ x, 0)"])
        from less.hyps [OF len this] show ?thesis
          using p item(1) Some b' u f by (simp add: decode_loop.simps [of hl f cr d "(b, 0)"])
      qed
    qed
  qed
qed

text \<open>A whole call.\<close>

lemma hpack_decode_cut:
  assumes "unstoppable f" and "hpack_decode hl f d (b @ x) acc = (d', [], acc', Inr ())"
  obtains d1 b1 acc1 r where "hpack_decode hl f d b acc = (d1, b1, acc1, r)"
    "r = Inr () \<and> b1 = [] \<or> r = Inl (HErr NeedMore)" "hpack_decode hl f d1 (b1 @ x) acc1 = (d', [], acc', Inr ())"
proof -
  define d0 where "d0 = (case hd_max_size_update d of
      Some sz \<Rightarrow> d\<lparr>hd_last_max_update := sz, hd_max_size_update := None\<rparr> | None \<Rightarrow> d)"
  have d0: "hd_max_size_update d0 = None" by (simp add: d0_def split: option.split)
  obtain c' where "decode_loop hl f True d0 (b @ x, 0) acc = (d', c', acc', Inr ())" "fst c' = []"
    using assms(2) by (auto simp: hpack_decode_def Let_def d0_def [symmetric] split: prod.splits)
  moreover from decode_loop_cut [OF assms(1) this(1)] obtain d1 c1 acc1 r where
    "decode_loop hl f True d0 (b, 0) acc = (d1, c1, acc1, r)"
    "r = Inr () \<and> fst c1 = [] \<or> r = Inl (HErr NeedMore)" "hd_max_size_update d1 = None"
    "decode_loop hl f True d1 (fst c1 @ x, 0) acc1 = (d', c', acc', Inr ())" unfolding d0 by blast
  ultimately show ?thesis
    using that [of d1 "fst c1" acc1 r] by (simp add: hpack_decode_def Let_def d0_def [symmetric])
qed

subsection \<open>The headers, and what a callback makes of them\<close>

definition collect :: "hpack_header \<Rightarrow> hpack_header list \<Rightarrow> hpack_header list \<times> bool" where
  "collect h hs = (hs @ [h], False)"

lemma unstoppable_collect [simp]: "unstoppable collect"
  by (simp add: unstoppable_def collect_def)

fun callbacks :: "(hpack_header \<Rightarrow> 'a \<Rightarrow> 'a \<times> bool) \<Rightarrow> hpack_header list \<Rightarrow> 'a \<Rightarrow> 'a" where
  "callbacks f [] acc = acc"
| "callbacks f (h # hs) acc = callbacks f hs (fst (f h acc))"

fun goes_on :: "(hpack_header \<Rightarrow> 'a \<Rightarrow> 'a \<times> bool) \<Rightarrow> hpack_header list \<Rightarrow> 'a \<Rightarrow> bool" where
  "goes_on f [] acc \<longleftrightarrow> True"
| "goes_on f (h # hs) acc \<longleftrightarrow> \<not> snd (f h acc) \<and> goes_on f hs (fst (f h acc))"

lemma decode_loop_callback:
  "decode_loop hl collect cr d c hs0 = (d', c', hs1, r) \<Longrightarrow>
   \<exists>hs. hs1 = hs0 @ hs
     \<and> (\<forall>acc. goes_on f hs acc \<longrightarrow> decode_loop hl f cr d c acc = (d', c', callbacks f hs acc, r))"
proof (induction "cur_remaining c" arbitrary: c cr d hs0 rule: less_induct)
  case less
  show ?case
  proof (cases "peek_u8 c = None")
    case True
    then have "decode_loop hl collect cr d c hs0 = (d, c, hs0, Inr ())"
      by (simp add: decode_loop.simps [of hl collect cr d c hs0])
    then have "d' = d \<and> c' = c \<and> hs1 = hs0 \<and> r = Inr ()" using less.prems by simp
    then show ?thesis using True by (intro exI [of _ "[]"]) (simp add: decode_loop.simps [of hl f cr d c])
  next
    case False
    obtain d2 c2 v where i: "decode_item hl cr d c = ((d2, c2), v)" by (metis prod.collapse)
    note unfold = decode_loop.simps [of hl f cr d c] decode_loop.simps [of hl collect cr d c hs0]
    show ?thesis
    proof (cases v)
      case (Inl e)
      then show ?thesis using less.prems False i
        by (intro exI [of _ "[]"]) (auto simp: unfold)
    next
      case (Inr v')
      have lt: "cur_remaining c2 < cur_remaining c" using decode_item_progress [OF i [unfolded Inr] False] .
      show ?thesis
      proof (cases v')
        case None
        have "decode_loop hl collect cr d2 c2 hs0 = (d', c', hs1, r)"
          using less.prems False i Inr None by (simp add: unfold)
        from less.hyps [OF lt this] show ?thesis using False i Inr None by (auto simp: unfold)
      next
        case (Some h)
        have "decode_loop hl collect False d2 c2 (hs0 @ [h]) = (d', c', hs1, r)"
          using less.prems False i Inr Some by (simp add: unfold collect_def)
        from less.hyps [OF lt this] obtain hs where hs: "hs1 = hs0 @ [h] @ hs"
          "\<And>acc. goes_on f hs acc \<Longrightarrow> decode_loop hl f False d2 c2 acc = (d', c', callbacks f hs acc, r)" by auto
        then show ?thesis
          using False i Inr Some by (intro exI [of _ "h # hs"]) (auto simp: unfold split: prod.split)
      qed
    qed
  qed
qed

lemma hpack_decode_callback:
  assumes "hpack_decode hl collect d b hs0 = (d', b', hs1, r)"
  obtains hs where "hs1 = hs0 @ hs"
    "\<And>acc. goes_on f hs acc \<Longrightarrow> hpack_decode hl f d b acc = (d', b', callbacks f hs acc, r)"
proof -
  define d0 where "d0 = (case hd_max_size_update d of
      Some sz \<Rightarrow> d\<lparr>hd_last_max_update := sz, hd_max_size_update := None\<rparr> | None \<Rightarrow> d)"
  obtain c' where "decode_loop hl collect True d0 (b, 0) hs0 = (d', c', hs1, r)" "fst c' = b'"
    using assms by (auto simp: hpack_decode_def Let_def d0_def [symmetric] split: prod.splits)
  with decode_loop_callback [OF this(1), of f] show ?thesis
    using that by (auto simp: hpack_decode_def Let_def d0_def [symmetric])
qed

end
