(* ===== verification/Hpack_Roundtrip.thy ===== *)
theory Hpack_Roundtrip
  imports Hpack_Encode Hpack_Chunks
begin

section \<open>HPACK, encoded and decoded\<close>

text \<open>
  A block of the encoder, read by the decoder: every representation gives back its header, the two
  dynamic tables stay equal, and the size updates are those the decoder allows. The session at the end
  is a connection's life: settings that change the table size, and blocks, in any order.
\<close>

subsection \<open>Strings\<close>

definition cur_rest :: "cursor \<Rightarrow> bytes" where
  "cur_rest c = drop (snd c) (fst c)"

definition str_mark :: "bytes \<Rightarrow> string_marker" where
  "str_mark v =
     (if v = [] then \<lparr>sm_offset = 1, sm_len = 0, sm_string = None\<rparr>
      else \<lparr>sm_offset = length (encode_int (length (huffman_encode v)) 7 128),
            sm_len = length (huffman_encode v), sm_string = Some v\<rparr>)"

lemma encode_int_head:
  "\<exists>w bs. w < 2 ^ p \<and> encode_int v p first = (first OR word_of_nat w) # bs"
proof (cases "encode_int_one_byte v p")
  case True
  then have "v < 2 ^ p" by (simp add: encode_int_one_byte_def)
  then show ?thesis using True by (auto simp: encode_int_def)
next
  case False
  then show ?thesis by (auto simp: encode_int_def Let_def intro!: exI [of _ "2 ^ p - 1"])
qed

lemma or_and_128: "((128 :: byte) OR x) AND 128 = 128"
  by (simp add: bit.conj_disj_distrib2)

lemma try_string:
  assumes hl: "hl_huffman hl = huffman_decode" and v: "length v < 2 ^ 26"
  shows "try_decode_string hl (pre @ str_bytes v @ rest, length pre)
    = ((pre @ str_bytes v @ rest, length pre + length (str_bytes v)), Inr (str_mark v))"
proof (cases "v = []")
  case True
  have "decode_int 7 (pre @ encode_int 0 7 0 @ rest, length pre)
      = ((pre @ encode_int 0 7 0 @ rest, length pre + length (encode_int 0 7 0)), Inr 0)"
    by (rule decode_int_at) simp_all
  then show ?thesis using True
    by (simp add: try_decode_string_def str_bytes_def str_mark_def encode_int_def encode_int_one_byte_def
        and_then_def Let_def cur_advance_def)
next
  case False
  let ?h = "huffman_encode v"
  let ?buf = "pre @ encode_int (length ?h) 7 128 @ ?h @ rest"
  obtain w bs where e: "encode_int (length ?h) 7 128 = (128 OR word_of_nat w) # bs"
    using encode_int_head [of 7 "length ?h" 128] by auto
  have "decode_int 7 (?buf, length pre) = ((?buf, length pre + length (encode_int (length ?h) 7 128)), Inr (length ?h))"
    using short_string(1) [OF v] by (intro decode_int_at) simp_all
  moreover have "peek_u8 (?buf, length pre) = Some (128 OR word_of_nat w)" unfolding e by simp
  ultimately show ?thesis using False
    by (simp add: try_decode_string_def str_bytes_def str_mark_def and_then_def Let_def cur_advance_def
        or_and_128 hl huffman_roundtrip cur_remaining_def)
qed

lemma marker_consume_rest:
  assumes "cur_rest c = str_bytes v @ rest"
  shows "\<exists>c'. marker_consume (str_mark v) c = (v, c') \<and> cur_rest c' = rest"
proof (cases "v = []")
  case True
  have "drop (snd c + 1) (fst c) = rest"
    using arg_cong [OF assms, of "drop 1"] True by (simp add: cur_rest_def str_bytes_def)
  then show ?thesis using True
    by (simp add: marker_consume_def str_mark_def cur_take_def cur_advance_def cur_rest_def)
next
  case False
  let ?n = "length (encode_int (length (huffman_encode v)) 7 128) + length (huffman_encode v)"
  have "drop (snd c + ?n) (fst c) = drop ?n (cur_rest c)" by (simp add: cur_rest_def add.commute)
  also have "\<dots> = rest" using assms False by (simp add: str_bytes_def)
  finally show ?thesis using False
    by (simp add: marker_consume_def str_mark_def cur_advance_def cur_rest_def Let_def add.assoc)
qed

lemma cur_rest_at [simp]: "cur_rest (pre @ xs, length pre) = xs"
  by (simp add: cur_rest_def)

lemma cur_consume_rest: "cur_consume c = (cur_rest c, 0)"
  by (simp add: cur_consume_def cur_take_def cur_rest_def)

lemma decode_string_rest:
  assumes "hl_huffman hl = huffman_decode" and "length v < 2 ^ 26"
  shows "\<exists>c'. decode_string hl (pre @ str_bytes v @ rest, length pre) = (c', Inr v) \<and> cur_rest c' = rest"
proof -
  obtain c' where "marker_consume (str_mark v) (pre @ str_bytes v @ rest, length pre) = (v, c')" "cur_rest c' = rest"
    using marker_consume_rest [of "(pre @ str_bytes v @ rest, length pre)" v rest] by auto
  then show ?thesis by (simp add: decode_string_def try_string [OF assms] and_then_def)
qed

subsection \<open>Literals\<close>

lemma literal_known:
  assumes hl: "hl_huffman hl = huffman_decode" and v: "length v < 2 ^ 26"
    and p: "p = (if index then 6 else 4)" and f: "take_bit p first = 0"
    and n: "n < 2 ^ 28" "n \<noteq> 0" and e: "table_get n (hd_table d) = Inr e"
  shows "\<exists>c'. decode_literal hl index d (encode_int n p first @ str_bytes v @ rest, 0)
      = (c', name_into_entry hl e v) \<and> cur_rest c' = rest"
proof -
  have i: "decode_int p (encode_int n p first @ str_bytes v @ rest, 0)
      = ((encode_int n p first @ str_bytes v @ rest, length (encode_int n p first)), Inr n)"
    using p f n(1) by (intro decode_encode_int) auto
  obtain c' where "decode_string hl (encode_int n p first @ str_bytes v @ rest, length (encode_int n p first)) = (c', Inr v)"
      "cur_rest c' = rest"
    using decode_string_rest [OF hl v] by blast
  then show ?thesis using i n(2) e p by (simp add: decode_literal_def and_then_def)
qed

lemma literal_new:
  assumes hl: "hl_huffman hl = huffman_decode" and n: "length n < 2 ^ 26" and v: "length v < 2 ^ 26"
    and p: "p = (if index then 6 else 4)" and f: "take_bit p first = 0"
  shows "\<exists>c'. decode_literal hl index d (first # str_bytes n @ str_bytes v @ rest, 0)
      = (c', header_new hl n v) \<and> cur_rest c' = rest"
proof -
  let ?buf = "[first] @ str_bytes n @ str_bytes v @ rest"
  have e: "encode_int 0 p first = [first]" using p by (simp add: encode_int_def encode_int_one_byte_def)
  have i: "decode_int p (?buf, 0) = ((?buf, 1), Inr 0)"
    using decode_encode_int [of p first 0 "str_bytes n @ str_bytes v @ rest"] p f
    unfolding e by auto
  have s1: "try_decode_string hl (?buf, 1) = ((?buf, 1 + length (str_bytes n)), Inr (str_mark n))"
    using try_string [OF hl n, of "[first]" "str_bytes v @ rest"] by simp
  have s2: "try_decode_string hl (?buf, 1 + length (str_bytes n))
      = ((?buf, 1 + length (str_bytes n) + length (str_bytes v)), Inr (str_mark v))"
    using try_string [OF hl v, of "first # str_bytes n" rest] by simp
  obtain c4 where c4: "marker_consume (str_mark n) (?buf, 1) = (n, c4)" "cur_rest c4 = str_bytes v @ rest"
    using marker_consume_rest [of "(?buf, 1)" n "str_bytes v @ rest"] by (auto simp: cur_rest_def)
  obtain c5 where c5: "marker_consume (str_mark v) c4 = (v, c5)" "cur_rest c5 = rest"
    using marker_consume_rest [OF c4(2)] by blast
  show ?thesis using i s1 s2 c4(1) c5 p by (simp add: decode_literal_def and_then_def)
qed

subsection \<open>Representations\<close>

lemma below_64: "w < 64 \<Longrightarrow> w \<in> set [0..<64]" and below_16: "w < 16 \<Longrightarrow> w \<in> set [0..<16]"
  and below_32: "w < 32 \<Longrightarrow> w \<in> set [0..<32]"
  by simp_all

lemma load_tables:
  "list_all (\<lambda>w. representation_load (64 OR word_of_nat w) = Inr LiteralWithIndexing) [0..<64]"
  "list_all (\<lambda>w. representation_load (0 OR word_of_nat w) = Inr LiteralWithoutIndexing) [0..<16]"
  "list_all (\<lambda>w. representation_load (16 OR word_of_nat w) = Inr LiteralNeverIndexed) [0..<16]"
  "list_all (\<lambda>w. representation_load (32 OR word_of_nat w) = Inr SizeUpdate) [0..<32]"
  by code_simp+

lemma load_first:
  "peek_u8 (encode_int v 7 128 @ rest, 0) = Some b \<Longrightarrow> representation_load b = Inr Indexed"
  "peek_u8 (encode_int v 6 64 @ rest, 0) = Some b \<Longrightarrow> representation_load b = Inr LiteralWithIndexing"
  "peek_u8 (encode_int v 4 (if s then 16 else 0) @ rest, 0) = Some b
     \<Longrightarrow> representation_load b = Inr (if s then LiteralNeverIndexed else LiteralWithoutIndexing)"
  "peek_u8 (encode_int v 5 32 @ rest, 0) = Some b \<Longrightarrow> representation_load b = Inr SizeUpdate"
  using encode_int_head [of 7 v 128] encode_int_head [of 6 v 64] encode_int_head [of 4 v "if s then 16 else 0"]
    encode_int_head [of 5 v 32] load_tables
  by (auto simp: peek_u8_def or_and_128 representation_load_def [of "128 OR _"] list_all_iff split: if_splits)

lemma peek_int: "\<exists>b. peek_u8 (encode_int v p first @ rest, 0) = Some b"
  using encode_int_head [of p v first] by (auto simp: peek_u8_def cur_remaining_def)

subsection \<open>Headers that can be read back\<close>

text \<open>
  What the crates guarantee of a header the encoder may be given: the decoder's validations accept
  what the type was made from. The lengths are far above every limit of the engine.
\<close>

fun sendable :: "hpack_lib \<Rightarrow> hpack_header \<Rightarrow> bool" where
  "sendable hl (HField n v) \<longleftrightarrow> n \<noteq> [] \<and> hd n \<noteq> CHR '':'' \<and> length n < 2 ^ 26 \<and> length v < 2 ^ 26
     \<and> hl_name_from_lowercase hl (ascii n) = Some n \<and> hl_value_from_bytes hl v = Some v"
| "sendable hl (HMethod v) \<longleftrightarrow> length v < 2 ^ 26 \<and> hl_method_from_bytes hl (ascii v) = Some v"
| "sendable hl (HStatus v) \<longleftrightarrow> v < 1000 \<and> hl_status_from_bytes hl (ascii (show_nat v)) = Some v"
| "sendable hl (HAuthority v) \<longleftrightarrow> length v < 2 ^ 26 \<and> utf8_valid (ascii v)"
| "sendable hl (HScheme v) \<longleftrightarrow> length v < 2 ^ 26 \<and> utf8_valid (ascii v)"
| "sendable hl (HPath v) \<longleftrightarrow> length v < 2 ^ 26 \<and> utf8_valid (ascii v)"
| "sendable hl (HProtocol v) \<longleftrightarrow> length v < 2 ^ 26 \<and> utf8_valid (ascii v)"

lemma unat_char: "unat (word_of_nat (of_char c) :: byte) = of_char c"
proof -
  have "(of_char c :: nat) < 256" by (rule nat_of_char_less_256)
  then show ?thesis by (simp add: unsigned_of_nat take_bit_nat_eq_self)
qed

lemma text_of_ascii [simp]: "text_of (ascii s) = s"
  by (simp add: text_of_def ascii_def unat_char comp_def)

lemma ascii_append [simp]: "ascii (a @ b) = ascii a @ ascii b"
  by (simp add: ascii_def)

lemma pseudo_slices:
  "name_slice NAuthority = 58 # ascii ''authority''" "name_slice NMethod = 58 # ascii ''method''"
  "name_slice NScheme = 58 # ascii ''scheme''" "name_slice NPath = 58 # ascii ''path''"
  "name_slice NProtocol = 58 # ascii ''protocol''" "name_slice NStatus = 58 # ascii ''status''"
  by (simp_all add: name_slice_def ascii_def)

lemma sendable_lengths:
  assumes "sendable hl h"
  shows "length (value_slice h) < 2 ^ 26" and "length (name_slice (header_name_of h)) < 2 ^ 26"
proof -
  have "length (show_nat v) \<le> 3" if "v < 1000" for v using length_show_nat [of v 3] that by simp
  then show "length (value_slice h) < 2 ^ 26"
    using assms by (cases h) (fastforce simp: value_slice_def)+
  show "length (name_slice (header_name_of h)) < 2 ^ 26"
    using assms by (cases h) (simp_all add: name_slice_def)
qed

text \<open>The representation of a header is at most four times its size in the table.\<close>

lemma length_str_bytes: "length v < 2 ^ 26 \<Longrightarrow> length (str_bytes v) \<le> 5 + 4 * length v"
  using length_encode_int [OF short_string(1), of v 7 128] length_huffman_encode [of v]
  by (auto simp: str_bytes_def)

lemma sendable_piece:
  assumes "sendable hl h"
  shows "length (str_bytes (name_slice (header_name_of h))) + length (str_bytes (value_slice h)) + 5 \<le> 4 * header_len h"
proof -
  have "length (show_nat v) \<le> 3" if "v < 1000" for v using length_show_nat [of v 3] that by simp
  then have "length (name_slice (header_name_of h)) + length (value_slice h) + 32 \<le> header_len h"
    using assms by (cases h) (fastforce simp: value_slice_def name_slice_def)+
  then show ?thesis
    using length_str_bytes [OF sendable_lengths(1) [OF assms]] length_str_bytes [OF sendable_lengths(2) [OF assms]]
    by simp
qed

lemma entry_of_name:
  "sendable hl h \<Longrightarrow> header_name_of e = header_name_of h \<Longrightarrow> name_into_entry hl e (value_slice h) = Inr h"
  by (cases h; cases e) (auto simp: value_slice_def map_ok_def opt_err_def bytes_str_def)

lemma new_of_name:
  assumes "sendable hl h"
  shows "header_new hl (name_slice (header_name_of h)) (value_slice h) = Inr h"
proof (cases h)
  case (HField n v)
  then obtain c cs where n: "n = c # cs" "c \<noteq> CHR '':''" using assms by (cases n) auto
  have "(word_of_nat (of_char c) :: byte) \<noteq> 58"
  proof
    assume "(word_of_nat (of_char c) :: byte) = 58"
    then have "(of_char c :: nat) = unat (58 :: byte)" by (metis unat_char)
    then have "(of_char c :: nat) = of_char CHR '':''" by simp
    then show False using n(2) by (simp only: of_char_eq_iff)
  qed
  then have "ascii n \<noteq> []" "hd (ascii n) \<noteq> 58" using n(1) by (simp_all add: ascii_def)
  then show ?thesis using assms HField
    by (simp add: header_new_def name_slice_def value_slice_def map_ok_def opt_err_def)
qed (use assms in \<open>simp_all add: header_new_def pseudo_slices value_slice_def map_ok_def opt_err_def bytes_str_def Let_def\<close>)

subsection \<open>One item of a block\<close>

definition reads_item :: "hpack_lib \<Rightarrow> hpack_decoder \<Rightarrow> hpack_decoder \<Rightarrow> bytes \<Rightarrow> hpack_header \<Rightarrow> bool" where
  "reads_item hl d d' piece h \<longleftrightarrow>
     (\<forall>cr rest. peek_u8 (piece @ rest, 0) \<noteq> None
        \<and> decode_item hl cr d (piece @ rest, 0) = ((d', (rest, 0)), Inr (Some h)))"

lemma reads_indexed:
  assumes "table_get n (hd_table d) = Inr h" and "n < 2 ^ 28"
  shows "reads_item hl d d (encode_int n 7 128) h"
  unfolding reads_item_def
proof (intro allI)
  fix cr rest
  obtain b where b: "peek_u8 (encode_int n 7 128 @ rest, 0) = Some b" using peek_int by blast
  have "decode_int 7 (encode_int n 7 128 @ rest, 0)
      = ((encode_int n 7 128 @ rest, length (encode_int n 7 128)), Inr n)"
    using assms(2) by (intro decode_encode_int) simp_all
  then show "peek_u8 (encode_int n 7 128 @ rest, 0) \<noteq> None
      \<and> decode_item hl cr d (encode_int n 7 128 @ rest, 0) = ((d, (rest, 0)), Inr (Some h))"
    using b load_first(1) [OF b] assms(1)
    by (simp add: decode_item_def decode_indexed_def and_then_def cur_consume_rest)
qed

lemma reads_literal:
  assumes lit: "\<And>rest. \<exists>c'. decode_literal hl index d (piece @ rest, 0) = (c', Inr h) \<and> cur_rest c' = rest"
    and load: "\<And>rest b. peek_u8 (piece @ rest, 0) = Some b
      \<Longrightarrow> representation_load b = Inr (if index then LiteralWithIndexing else if s then LiteralNeverIndexed else LiteralWithoutIndexing)"
    and peek: "\<And>rest. peek_u8 (piece @ rest, 0) \<noteq> None"
  shows "reads_item hl d (if index then d\<lparr>hd_table := table_insert h (hd_table d)\<rparr> else d) piece h"
  unfolding reads_item_def
proof (intro allI conjI)
  fix cr rest
  obtain b where b: "peek_u8 (piece @ rest, 0) = Some b" using peek by blast
  obtain c' where c': "decode_literal hl index d (piece @ rest, 0) = (c', Inr h)" "cur_rest c' = rest"
    using lit by blast
  show "decode_item hl cr d (piece @ rest, 0)
      = ((if index then d\<lparr>hd_table := table_insert h (hd_table d)\<rparr> else d, (rest, 0)), Inr (Some h))"
    using b load [OF b] c' by (auto simp: decode_item_def cur_consume_rest)
qed (rule peek)

lemma reads_known:
  assumes hl: "hl_huffman hl = huffman_decode" and h: "sendable hl h"
    and e: "table_get n (hd_table d) = Inr e" "header_name_of e = header_name_of h"
    and n: "n < 2 ^ 28" "n \<noteq> 0"
  shows "reads_item hl d (d\<lparr>hd_table := table_insert h (hd_table d)\<rparr>) (encode_int n 6 64 @ str_bytes (value_slice h)) h"
    and "reads_item hl d d (encode_int n 4 (if s then 16 else 0) @ str_bytes (value_slice h)) h"
proof -
  note v = sendable_lengths(1) [OF h] and r = entry_of_name [OF h e(2)]
  have "reads_item hl d (if True then d\<lparr>hd_table := table_insert h (hd_table d)\<rparr> else d)
      (encode_int n 6 64 @ str_bytes (value_slice h)) h"
    by (rule reads_literal [where s = s])
      (use literal_known [OF hl v _ _ n e(1), of 6 True 64] r load_first(2) [of n] peek_int [of n 6 64] in \<open>simp_all\<close>)
  then show "reads_item hl d (d\<lparr>hd_table := table_insert h (hd_table d)\<rparr>) (encode_int n 6 64 @ str_bytes (value_slice h)) h"
    by simp
  have "reads_item hl d (if False then d\<lparr>hd_table := table_insert h (hd_table d)\<rparr> else d)
      (encode_int n 4 (if s then 16 else 0) @ str_bytes (value_slice h)) h"
    by (rule reads_literal [where s = s])
      (use literal_known [OF hl v _ _ n e(1), of 4 False "if s then 16 else 0"] r load_first(3) [of n s]
        peek_int [of n 4 "if s then 16 else 0"] in \<open>simp_all\<close>)
  then show "reads_item hl d d (encode_int n 4 (if s then 16 else 0) @ str_bytes (value_slice h)) h" by simp
qed

lemma reads_new:
  assumes hl: "hl_huffman hl = huffman_decode" and h: "sendable hl h"
  defines "strs \<equiv> str_bytes (name_slice (header_name_of h)) @ str_bytes (value_slice h)"
  shows "reads_item hl d (d\<lparr>hd_table := table_insert h (hd_table d)\<rparr>) (64 # strs) h"
    and "reads_item hl d d ((if s then 16 else 0) # strs) h"
proof -
  note v = sendable_lengths [OF h] and r = new_of_name [OF h]
  have e: "encode_int 0 6 64 = [64]" "encode_int 0 4 (if s then 16 else 0) = [if s then 16 else 0]"
    by (simp_all add: encode_int_def encode_int_one_byte_def)
  have "reads_item hl d (if True then d\<lparr>hd_table := table_insert h (hd_table d)\<rparr> else d) (64 # strs) h"
    by (rule reads_literal [where s = s])
      (use literal_new [OF hl v(2,1), of 6 True 64] r load_first(2) [of 0, unfolded e] peek_int [of 0 6 64, unfolded e]
        in \<open>simp_all add: strs_def\<close>)
  then show "reads_item hl d (d\<lparr>hd_table := table_insert h (hd_table d)\<rparr>) (64 # strs) h" by simp
  have "reads_item hl d (if False then d\<lparr>hd_table := table_insert h (hd_table d)\<rparr> else d) ((if s then 16 else 0) # strs) h"
    by (rule reads_literal [where s = s])
      (use literal_new [OF hl v(2,1), of 4 False "if s then 16 else 0"] r load_first(3) [of 0 s, unfolded e]
        peek_int [of 0 4 "if s then 16 else 0", unfolded e] in \<open>simp_all add: strs_def\<close>)
  then show "reads_item hl d d ((if s then 16 else 0) # strs) h" by simp
qed

subsection \<open>The encoder's answer, written and read\<close>

lemma table_get_bound:
  "table_get n d = Inr e \<Longrightarrow> n \<noteq> 0 \<and> n < 62 + length (ht_entries d)"
  by (auto simp: table_get_def split: if_splits)

lemma same_table [simp]: "hd_table d = T \<Longrightarrow> d\<lparr>hd_table := T\<rparr> = d"
  by (cases d) simp

definition small_table :: "name_hasher \<Rightarrow> enc_table \<Rightarrow> bool" where
  "small_table hf t \<longleftrightarrow> table_inv hf t \<and> et_max_size t \<le> 4096"

lemma small_get:
  assumes "small_table hf t" and "table_get n (of_table t) = Inr e"
  shows "n < 2 ^ 28" and "n \<noteq> 0"
proof -
  have "32 * length (et_slots t) \<le> 4096"
    using assms(1) slots_size_ge [of "et_slots t"] by (simp add: small_table_def table_inv_def)
  then show "n < 2 ^ 28" "n \<noteq> 0"
    using table_get_bound [OF assms(2)] by (auto simp: of_table_def headers_of_def)
qed

lemma encode_header_read:
  assumes hl: "hl_huffman hl = huffman_decode" and h: "sendable hl (fst h)"
    and good: "index_good hf t t' h ix" and t: "small_table hf t" and d: "hd_table d = of_table t"
  shows "\<exists>piece. encode_header t' ix dst = Some (dst @ piece)
    \<and> reads_item hl d (d\<lparr>hd_table := of_table t'\<rparr>) piece (fst h) \<and> length piece \<le> 4 * header_len (fst h)"
proof -
  have ok: "index_ok (of_table t) (of_table t') h ix" and res: "et_resolve t' ix = Some h"
    using good by (simp_all add: index_good_def)
  note str = short_string(2) [OF sendable_lengths(1) [OF h]] short_string(2) [OF sendable_lengths(2) [OF h]]
  note len = sendable_piece [OF h] length_encode_int [OF small_get(1) [OF t]]
  show ?thesis
  proof (cases ix)
    case (IxIndexed n e)
    then have g: "table_get n (of_table t) = Inr (fst h)" "of_table t' = of_table t"
      using ok by (simp_all add: index_ok_def)
    show ?thesis using reads_indexed [of n d "fst h" hl] small_get [OF t g(1)] g d len(1) len(2) [OF g(1), of 7 128]
      by (auto simp: encode_header_def IxIndexed)
  next
    case (IxName n e)
    then obtain e' where g: "table_get n (of_table t) = Inr e'" "header_name_of e' = header_name_of (fst h)"
        "of_table t' = of_table t"
      using ok by (auto simp: index_ok_def)
    show ?thesis
      using reads_known(2) [OF hl h, of n d e' "header_is_sensitive h"] small_get [OF t g(1)] g d str res
        len(1) len(2) [OF g(1), of 4 "if header_is_sensitive h then 16 else 0"]
      by (auto simp: encode_header_def IxName encode_not_indexed_def)
  next
    case (IxInserted k)
    then have g: "of_table t' = table_insert (fst h) (of_table t)" "\<not> header_is_sensitive h"
      using ok by (simp_all add: index_ok_def)
    show ?thesis using reads_new(1) [OF hl h, of d] g d str res len(1)
      by (auto simp: encode_header_def IxInserted)
  next
    case (IxInsertedValue n k)
    then obtain e' where g: "table_get n (of_table t) = Inr e'" "header_name_of e' = header_name_of (fst h)"
        "of_table t' = table_insert (fst h) (of_table t)" "\<not> header_is_sensitive h"
      using ok by (auto simp: index_ok_def)
    show ?thesis
      using reads_known(1) [OF hl h, of n d e'] small_get [OF t g(1)] g d str res
        len(1) len(2) [OF g(1), of 6 64]
      by (auto simp: encode_header_def IxInsertedValue)
  next
    case (IxNotIndexed e)
    then have g: "of_table t' = of_table t" using ok by (simp add: index_ok_def)
    show ?thesis using reads_new(2) [OF hl h, of d "header_is_sensitive h"] g d str res len(1)
      by (auto simp: encode_header_def IxNotIndexed encode_not_indexed2_def)
  qed
qed

text \<open>A header without a name goes by the last index.\<close>

definition last_ok :: "enc_table \<Rightarrow> index \<Rightarrow> header_name \<Rightarrow> bool" where
  "last_ok t ix n \<longleftrightarrow>
     (case ix of
        IxNotIndexed h \<Rightarrow> header_name_of (fst h) = NField n
      | _ \<Rightarrow> \<exists>i e. resolve_idx ix = Some i \<and> table_get i (of_table t) = Inr e \<and> header_name_of e = NField n)"

lemma last_ok_index:
  assumes good: "index_good hf t t' h ix" and n: "header_name_of (fst h) = NField n"
  shows "last_ok t' ix n"
proof -
  have ok: "index_ok (of_table t) (of_table t') h ix" and res: "et_resolve t' ix = Some h"
    using good by (simp_all add: index_good_def)
  have front: "table_get (0 + DYN_OFFSET) (of_table t') = Inr (fst h)" if "map_option sl_header (slot_at t' 0) = Some h"
    using that of_table_get [of 0 t'] by (auto simp: slot_at_def split: if_splits)
  show ?thesis
    using ok res n front by (cases ix) (auto simp: last_ok_def index_ok_def resolve_idx_def et_resolve_def)
qed

lemma encode_unnamed_read:
  assumes hl: "hl_huffman hl = huffman_decode" and h: "sendable hl (HField n v)"
    and last_ix: "last_ok t ix n" and t: "small_table hf t" and d: "hd_table d = of_table t"
  shows "\<exists>piece. encode_header_without_name t ix (v, s) dst = Some (dst @ piece)
    \<and> reads_item hl d d piece (HField n v) \<and> length piece \<le> 4 * header_len (HField n v)"
proof -
  note len = sendable_piece [OF h] length_encode_int [OF small_get(1) [OF t]]
  note str = short_string(2) [OF sendable_lengths(1) [OF h]] short_string(2) [OF sendable_lengths(2) [OF h]]
  have v: "value_slice (HField n v) = v" by (simp add: value_slice_def)
  show ?thesis
  proof (cases "resolve_idx ix")
    case None
    then obtain e where ix: "ix = IxNotIndexed e" "header_name_of (fst e) = NField n"
      using last_ix by (cases ix) (auto simp: resolve_idx_def last_ok_def)
    show ?thesis using reads_new(2) [OF hl h, of d s] str ix v len(1)
      by (auto simp: encode_header_without_name_def encode_not_indexed2_def et_resolve_def)
  next
    case (Some i)
    then obtain e where e: "table_get i (of_table t) = Inr e" "header_name_of e = NField n"
      using last_ix by (cases ix) (auto simp: resolve_idx_def last_ok_def)
    have "encode_header_without_name t ix (v, s) dst = encode_not_indexed i v s dst"
      using Some by (cases ix) (auto simp: encode_header_without_name_def resolve_idx_def)
    then show ?thesis
      using reads_known(2) [OF hl h, of i d e s] small_get [OF t e(1)] e d str v len(1) len(2) [OF e(1), of 4 "if s then 16 else 0"]
      by (auto simp: encode_not_indexed_def)
  qed
qed

subsection \<open>A block\<close>

lemma decode_loop_item:
  assumes "reads_item hl d d' piece h"
  shows "decode_loop hl collect cr d (piece @ rest, 0) acc = decode_loop hl collect False d' (rest, 0) (acc @ [h])"
proof -
  have "peek_u8 (piece @ rest, 0) \<noteq> None" "decode_item hl cr d (piece @ rest, 0) = ((d', (rest, 0)), Inr (Some h))"
    using assms unfolding reads_item_def by blast+
  then show ?thesis by (subst decode_loop.simps) (auto simp: collect_def)
qed

text \<open>The headers of a list of items, and the items the encoder is given: the first is named.\<close>

fun items_headers :: "header_name \<Rightarrow> enc_item list \<Rightarrow> hpack_header list" where
  "items_headers n [] = []"
| "items_headers n (ItField (Some m) v s # items) = HField m v # items_headers m items"
| "items_headers n (ItField None v s # items) = HField n v # items_headers n items"
| "items_headers n (ItPseudo h # items) = h # items_headers n items"

fun items_named :: "bool \<Rightarrow> enc_item list \<Rightarrow> bool" where
  "items_named b [] \<longleftrightarrow> True"
| "items_named b (ItField (Some m) v s # items) \<longleftrightarrow> items_named True items"
| "items_named b (ItField None v s # items) \<longleftrightarrow> b \<and> items_named b items"
| "items_named b (ItPseudo h # items) \<longleftrightarrow> items_named False items"

lemma encode_items_read:
  assumes hl: "hl_huffman hl = huffman_decode"
  shows "small_table hf t \<Longrightarrow> items_named b items \<Longrightarrow> (\<forall>h \<in> set (items_headers n items). sendable hl h)
    \<Longrightarrow> (b \<longrightarrow> (\<exists>ix. last_ix = Some ix \<and> last_ok t ix n))
    \<Longrightarrow> \<exists>t' piece. encode_items hf items t last_ix dst = Some (t', dst @ piece)
      \<and> small_table hf t' \<and> et_max_size t' = et_max_size t
      \<and> length piece \<le> 4 * sum_list (map header_len (items_headers n items))
      \<and> (\<forall>d cr acc. hd_table d = of_table t \<longrightarrow>
           decode_loop hl collect cr d (piece, 0) acc
           = (d\<lparr>hd_table := of_table t'\<rparr>, ([], 0), acc @ items_headers n items, Inr ()))"
proof (induction items arbitrary: t b n last_ix dst)
  case Nil
  show ?case
    by (intro exI [of _ t] exI [of _ "[]"])
      (use Nil in \<open>simp add: decode_loop.simps [of _ _ _ _ "([], 0)"] peek_u8_def cur_remaining_def\<close>)
next
  case (Cons it items)
  show ?case
  proof (cases "reify it")
    case (Inr h)
    define m b' where "m = (case it of ItField (Some m) _ _ \<Rightarrow> m | _ \<Rightarrow> n)"
      and "b' = (case it of ItField _ _ _ \<Rightarrow> True | _ \<Rightarrow> False)"
    have it: "items_headers n (it # items) = fst h # items_headers m items" "items_named b' items"
      "b' \<longrightarrow> header_name_of (fst h) = NField m"
      using Inr Cons.prems(2) by (auto simp: reify_def m_def b'_def split: enc_item.splits option.splits)
    obtain t1 ix where ix: "et_index hf h t = Some (t1, ix)" "index_good hf t t1 h ix"
      using et_index_ok [of hf t h] Cons.prems(1) by (auto simp: small_table_def)
    have t1: "small_table hf t1" "et_max_size t1 = et_max_size t"
      using ix(2) Cons.prems(1) by (simp_all add: index_good_def small_table_def)
    have h: "sendable hl (fst h)" and rest: "\<forall>h \<in> set (items_headers m items). sendable hl h"
      using Cons.prems(3) it(1) by simp_all
    obtain piece where piece: "encode_header t1 ix dst = Some (dst @ piece)"
      "\<And>d. hd_table d = of_table t \<Longrightarrow> reads_item hl d (d\<lparr>hd_table := of_table t1\<rparr>) piece (fst h)"
      "length piece \<le> 4 * header_len (fst h)"
    proof -
      obtain d0 :: hpack_decoder where d0: "hd_table d0 = of_table t"
        by (rule that [of "\<lparr>hd_max_size_update = None, hd_last_max_update = 0, hd_table = of_table t\<rparr>"]) simp
      obtain piece where p: "encode_header t1 ix dst = Some (dst @ piece)"
        "length piece \<le> 4 * header_len (fst h)"
        using encode_header_read [OF hl h ix(2) Cons.prems(1) d0] by blast
      then show thesis using encode_header_read [OF hl h ix(2) Cons.prems(1), of _ dst] that [of piece] by auto
    qed
    have "b' \<longrightarrow> (\<exists>ix'. Some ix = Some ix' \<and> last_ok t1 ix' m)" using last_ok_index [OF ix(2)] it(3) by simp
    from Cons.IH [OF t1(1) it(2) rest this, of "dst @ piece"]
    obtain t' piece' where IH: "encode_items hf items t1 (Some ix) (dst @ piece) = Some (t', (dst @ piece) @ piece')"
      "small_table hf t'" "et_max_size t' = et_max_size t1"
      "length piece' \<le> 4 * sum_list (map header_len (items_headers m items))"
      "\<And>d cr acc. hd_table d = of_table t1 \<Longrightarrow> decode_loop hl collect cr d (piece', 0) acc
           = (d\<lparr>hd_table := of_table t'\<rparr>, ([], 0), acc @ items_headers m items, Inr ())"
      by blast
    show ?thesis
      using Inr ix(1) piece(1,3) IH t1(2) decode_loop_item [OF piece(2)] it(1)
      by (intro exI [of _ t'] exI [of _ "piece @ piece'"]) simp
  next
    case (Inl vs)
    obtain v s where it: "it = ItField None v s" "vs = (v, s)"
      using Inl by (auto simp: reify_def split: enc_item.splits option.splits)
    have b: "b" "items_named b items" using Cons.prems(2) it by auto
    then obtain ix where ix: "last_ix = Some ix" "last_ok t ix n" using Cons.prems(4) by blast
    have h: "sendable hl (HField n v)" and rest: "\<forall>h \<in> set (items_headers n items). sendable hl h"
      using Cons.prems(3) it by simp_all
    obtain piece where piece: "encode_header_without_name t ix (v, s) dst = Some (dst @ piece)"
      "\<And>d. hd_table d = of_table t \<Longrightarrow> reads_item hl d d piece (HField n v)"
      "length piece \<le> 4 * header_len (HField n v)"
    proof -
      obtain d0 :: hpack_decoder where d0: "hd_table d0 = of_table t"
        by (rule that [of "\<lparr>hd_max_size_update = None, hd_last_max_update = 0, hd_table = of_table t\<rparr>"]) simp
      obtain piece where p: "encode_header_without_name t ix (v, s) dst = Some (dst @ piece)"
        "length piece \<le> 4 * header_len (HField n v)"
        using encode_unnamed_read [OF hl h ix(2) Cons.prems(1) d0] by blast
      then show thesis using encode_unnamed_read [OF hl h ix(2) Cons.prems(1), of _ s dst] that [of piece] by auto
    qed
    from Cons.IH [OF Cons.prems(1) b(2) rest Cons.prems(4), of "dst @ piece"]
    obtain t' piece' where IH: "encode_items hf items t last_ix (dst @ piece) = Some (t', (dst @ piece) @ piece')"
      "small_table hf t'" "et_max_size t' = et_max_size t"
      "length piece' \<le> 4 * sum_list (map header_len (items_headers n items))"
      "\<And>d cr acc. hd_table d = of_table t \<Longrightarrow> decode_loop hl collect cr d (piece', 0) acc
           = (d\<lparr>hd_table := of_table t'\<rparr>, ([], 0), acc @ items_headers n items, Inr ())"
      by blast
    show ?thesis
      using Inl it ix(1) piece(1,3) IH decode_loop_item [OF piece(2)]
      by (intro exI [of _ t'] exI [of _ "piece @ piece'"]) simp
  qed
qed

subsection \<open>Size updates\<close>

definition pending_sizes :: "size_update option \<Rightarrow> usize list" where
  "pending_sizes u = (case u of None \<Rightarrow> [] | Some (One v) \<Rightarrow> [v] | Some (Two a b) \<Rightarrow> [a, b])"

lemma reads_size_update:
  assumes "v \<le> hd_last_max_update d" and "v \<le> 4096" and "table_set_max_size v (hd_table d) = Some T"
  shows "decode_loop hl collect True d (encode_int v 5 32 @ rest, 0) acc
    = decode_loop hl collect True (d\<lparr>hd_table := T\<rparr>) (rest, 0) acc"
proof -
  obtain b where b: "peek_u8 (encode_int v 5 32 @ rest, 0) = Some b" using peek_int by blast
  have "decode_int 5 (encode_int v 5 32 @ rest, 0)
      = ((encode_int v 5 32 @ rest, length (encode_int v 5 32)), Inr v)"
    using assms(2) by (intro decode_encode_int) simp_all
  then show ?thesis
    using b load_first(4) [OF b] assms(1,3)
    by (subst decode_loop.simps) (simp add: decode_item_def cur_consume_rest)
qed

lemma small_resize:
  assumes "small_table hf t" and "v \<le> 4096"
  obtains t' where "et_resize v t = Some t'" "small_table hf t'"
    "table_set_max_size v (of_table t) = Some (of_table t')" "et_max_size t' = v"
  using et_resize_ok [of hf t v] assms by (auto simp: small_table_def)

lemma encode_size_updates_read:
  assumes t: "small_table hf (he_table enc)" and v: "\<forall>v \<in> set (pending_sizes (he_size_update enc)). v \<le> 4096"
  shows "\<exists>t' piece. encode_size_updates enc dst = Some (enc\<lparr>he_table := t', he_size_update := None\<rparr>, dst @ piece)
    \<and> small_table hf t' \<and> length piece \<le> 10
    \<and> (\<forall>d rest acc. hd_table d = of_table (he_table enc)
         \<longrightarrow> (\<forall>v \<in> set (pending_sizes (he_size_update enc)). v \<le> hd_last_max_update d)
         \<longrightarrow> decode_loop hl collect True d (piece @ rest, 0) acc
           = decode_loop hl collect True (d\<lparr>hd_table := of_table t'\<rparr>) (rest, 0) acc)"
proof (cases "he_size_update enc")
  case None
  then show ?thesis
    by (intro exI [of _ "he_table enc"] exI [of _ "[]"]) (use t in \<open>simp add: encode_size_updates_def\<close>)
next
  case (Some u)
  show ?thesis
  proof (cases u)
    case (One a)
    then have a: "a \<le> 4096" using v Some by (simp add: pending_sizes_def)
    then have "length (encode_int a 5 32) \<le> 5" by (intro length_encode_int) simp
    obtain t' where t': "et_resize a (he_table enc) = Some t'" "small_table hf t'"
      "table_set_max_size a (of_table (he_table enc)) = Some (of_table t')" using small_resize [OF t a] by metis
    show ?thesis
      by (intro exI [of _ t'] exI [of _ "encode_int a 5 32"])
        (use Some One a t' \<open>length (encode_int a 5 32) \<le> 5\<close> reads_size_update in \<open>simp add: encode_size_updates_def encode_size_update_def pending_sizes_def\<close>)
  next
    case (Two a b)
    then have ab: "a \<le> 4096" "b \<le> 4096" using v Some by (simp_all add: pending_sizes_def)
    then have l: "length (encode_int a 5 32) \<le> 5" "length (encode_int b 5 32) \<le> 5"
      by (intro length_encode_int; simp)+
    obtain t1 where t1: "et_resize a (he_table enc) = Some t1" "small_table hf t1"
      "table_set_max_size a (of_table (he_table enc)) = Some (of_table t1)" using small_resize [OF t ab(1)] by metis
    obtain t' where t': "et_resize b t1 = Some t'" "small_table hf t'"
      "table_set_max_size b (of_table t1) = Some (of_table t')" using small_resize [OF t1(2) ab(2)] by metis
    show ?thesis
      by (intro exI [of _ t'] exI [of _ "encode_int a 5 32 @ encode_int b 5 32"])
        (use Some Two ab l t1 t' reads_size_update in \<open>simp add: encode_size_updates_def encode_size_update_def pending_sizes_def\<close>)
  qed
qed

subsection \<open>Sessions\<close>

text \<open>
  The two ends of a connection: our peer's SETTINGS_HEADER_TABLE_SIZE reaches the encoder
  (\<open>update_max_size\<close>) and is what its decoder allows (\<open>queue_size_update\<close>); a block is encoded and
  decoded. The result is what the decoder yields, block by block; \<open>None\<close> is a panic of either end, an
  error of the decoder or input it leaves.
\<close>

datatype hpack_op = TableSize usize | Block "enc_item list"

fun hpack_session ::
  "hpack_lib \<Rightarrow> name_hasher \<Rightarrow> hpack_op list \<Rightarrow> hpack_encoder \<Rightarrow> hpack_decoder \<Rightarrow> hpack_header list list option" where
  "hpack_session hl hf [] enc dec = Some []"
| "hpack_session hl hf (TableSize v # ops) enc dec =
     hpack_session hl hf ops (update_max_size v enc) (queue_size_update v dec)"
| "hpack_session hl hf (Block items # ops) enc dec =
     (case hpack_encode hf items enc [] of
        None \<Rightarrow> None
      | Some (enc', block) \<Rightarrow>
          (case hpack_decode hl collect dec block [] of
             (dec', [], hs, Inr _) \<Rightarrow> map_option ((#) hs) (hpack_session hl hf ops enc' dec')
           | _ \<Rightarrow> None))"

fun block_ok :: "hpack_lib \<Rightarrow> hpack_op \<Rightarrow> bool" where
  "block_ok hl (TableSize v) \<longleftrightarrow> True"
| "block_ok hl (Block items) \<longleftrightarrow>
     items_named False items \<and> list_all (sendable hl) (items_headers [] items)"

fun session_blocks :: "hpack_op list \<Rightarrow> hpack_header list list" where
  "session_blocks [] = []"
| "session_blocks (TableSize v # ops) = session_blocks ops"
| "session_blocks (Block items # ops) = items_headers [] items # session_blocks ops"

definition allowed_size :: "hpack_decoder \<Rightarrow> usize" where
  "allowed_size dec = (case hd_max_size_update dec of Some v \<Rightarrow> v | None \<Rightarrow> hd_last_max_update dec)"

definition session_ok :: "name_hasher \<Rightarrow> hpack_encoder \<Rightarrow> hpack_decoder \<Rightarrow> bool" where
  "session_ok hf enc dec \<longleftrightarrow>
     small_table hf (he_table enc) \<and> he_max_allowed_size enc = 4096
     \<and> hd_table dec = of_table (he_table enc)
     \<and> (\<forall>v \<in> set (pending_sizes (he_size_update enc)). v \<le> 4096 \<and> v \<le> allowed_size dec)"

lemma session_ok_start: "session_ok hf hpack_encoder_default (hpack_decoder_new 4096)"
  using enc_table_new_inv [of 4096 hf]
  by (simp add: session_ok_def hpack_encoder_default_def hpack_encoder_new_def hpack_decoder_new_def
      DEFAULT_MAX_ALLOWED_SIZE_def small_table_def pending_sizes_def of_table_def mirror_def table_new_def
      enc_table_new_def)

lemma update_max_size_pending:
  "\<forall>x \<in> set (pending_sizes (he_size_update (update_max_size v enc))).
     x \<le> min v (he_max_allowed_size enc) \<or> x \<in> set (pending_sizes (he_size_update enc)) \<and> x \<le> v"
  by (auto simp: update_max_size_def Let_def pending_sizes_def split: option.split size_update.split)

lemma update_max_size_const:
  "he_table (update_max_size v enc) = he_table enc"
  "he_max_allowed_size (update_max_size v enc) = he_max_allowed_size enc"
  by (simp_all add: update_max_size_def Let_def split: option.split size_update.split)

lemma session_ok_table_size:
  assumes "session_ok hf enc dec"
  shows "session_ok hf (update_max_size v enc) (queue_size_update v dec)"
proof -
  have "he_table (update_max_size v enc) = he_table enc"
    "he_max_allowed_size (update_max_size v enc) = he_max_allowed_size enc"
    by (rule update_max_size_const)+
  moreover have "v \<le> allowed_size (queue_size_update v dec)"
    by (simp add: allowed_size_def queue_size_update_def split: option.split)
  moreover have "hd_table (queue_size_update v dec) = hd_table dec" by (simp add: queue_size_update_def)
  ultimately show ?thesis
    using assms update_max_size_pending [of v enc] unfolding session_ok_def by fastforce
qed

lemma block_read:
  assumes hl: "hl_huffman hl = huffman_decode" and ok: "session_ok hf enc dec"
    and b: "block_ok hl (Block items)"
  shows "\<exists>enc' block dec'. hpack_encode hf items enc [] = Some (enc', block)
    \<and> hpack_decode hl collect dec block [] = (dec', [], items_headers [] items, Inr ())
    \<and> session_ok hf enc' dec'
    \<and> length block \<le> 10 + 4 * sum_list (map header_len (items_headers [] items))"
proof -
  have t: "small_table hf (he_table enc)" and d: "hd_table dec = of_table (he_table enc)"
    and p: "\<forall>v \<in> set (pending_sizes (he_size_update enc)). v \<le> 4096"
      "\<forall>v \<in> set (pending_sizes (he_size_update enc)). v \<le> allowed_size dec"
    using ok by (simp_all add: session_ok_def)
  define d0 where "d0 = (case hd_max_size_update dec of
      Some sz \<Rightarrow> dec\<lparr>hd_last_max_update := sz, hd_max_size_update := None\<rparr> | None \<Rightarrow> dec)"
  have d0: "hd_table d0 = of_table (he_table enc)" "hd_last_max_update d0 = allowed_size dec" "hd_max_size_update d0 = None"
    using d by (simp_all add: d0_def allowed_size_def split: option.split)
  obtain t1 p1 where s: "encode_size_updates enc [] = Some (enc\<lparr>he_table := t1, he_size_update := None\<rparr>, p1)"
    "small_table hf t1" "length p1 \<le> 10"
    "\<And>rest. decode_loop hl collect True d0 (p1 @ rest, 0) [] = decode_loop hl collect True (d0\<lparr>hd_table := of_table t1\<rparr>) (rest, 0) []"
    using encode_size_updates_read [OF t p(1), of "[]" hl] p(2) d0 by auto
  obtain t' p2 where i: "encode_items hf items t1 None p1 = Some (t', p1 @ p2)" "small_table hf t'"
    "length p2 \<le> 4 * sum_list (map header_len (items_headers [] items))"
    "decode_loop hl collect True (d0\<lparr>hd_table := of_table t1\<rparr>) (p2, 0) []
      = (d0\<lparr>hd_table := of_table t'\<rparr>, ([], 0), items_headers [] items, Inr ())"
    using encode_items_read [OF hl s(2), of False items "[]" None p1] b by (auto simp: list_all_iff)
  have "hpack_decode hl collect dec (p1 @ p2) [] = (d0\<lparr>hd_table := of_table t'\<rparr>, [], items_headers [] items, Inr ())"
    by (simp add: hpack_decode_def Let_def d0_def [symmetric] s(4) i(4))
  then show ?thesis
    using s(1,3) i(1,2,3) ok by (simp add: hpack_encode_def session_ok_def pending_sizes_def)
qed

lemma session_read:
  assumes hl: "hl_huffman hl = huffman_decode"
  shows "session_ok hf enc dec \<Longrightarrow> list_all (block_ok hl) ops
    \<Longrightarrow> hpack_session hl hf ops enc dec = Some (session_blocks ops)"
proof (induction ops arbitrary: enc dec)
  case (Cons op ops)
  show ?case
  proof (cases op)
    case (TableSize v)
    then show ?thesis using Cons session_ok_table_size by simp
  next
    case (Block items)
    then have "block_ok hl (Block items)" using Cons.prems(2) by simp
    from block_read [OF hl Cons.prems(1) this]
    obtain enc' block dec' where b: "hpack_encode hf items enc [] = Some (enc', block)"
      "hpack_decode hl collect dec block [] = (dec', [], items_headers [] items, Inr ())" "session_ok hf enc' dec'"
      by blast
    have "hpack_session hl hf ops enc' dec' = Some (session_blocks ops)"
      using Cons.IH [OF b(3)] Cons.prems(2) by simp
    then show ?thesis by (simp add: Block b(1,2))
  qed
qed simp

subsection \<open>What the size updates amount to\<close>

text \<open>
  RFC 7541 4.2: between two blocks the smallest size must be signalled, then the last one. With
  \<open>m\<close> the table's size and \<open>vs\<close> the sizes set since the last block.
\<close>

lemma update_max_size_sizes:
  fixes v :: usize
  assumes "m = et_max_size (he_table enc)" and "sorted (pending_sizes (he_size_update enc))"
    and "fold min (pending_sizes (he_size_update enc)) m = fold min vs m"
  defines "enc' \<equiv> update_max_size v enc" and "w \<equiv> min v (he_max_allowed_size enc)"
  shows "last (m # pending_sizes (he_size_update enc')) = w"
    and "fold min (pending_sizes (he_size_update enc')) m = fold min (vs @ [w]) m"
    and "sorted (pending_sizes (he_size_update enc'))"
proof -
  have mn: "fold min (vs @ [w]) m = min w (fold min (pending_sizes (he_size_update enc)) m)"
    using assms(3) by simp
  note d = enc'_def update_max_size_def w_def [symmetric] Let_def pending_sizes_def
  show "last (m # pending_sizes (he_size_update enc')) = w"
    using assms(1) by (simp add: d split: option.split size_update.split)
  show "fold min (pending_sizes (he_size_update enc')) m = fold min (vs @ [w]) m"
    unfolding mn
  proof (cases "he_size_update enc")
    case None
    then show "fold min (pending_sizes (he_size_update enc')) m = min w (fold min (pending_sizes (he_size_update enc)) m)"
      using assms(1) by (simp add: d)
  next
    case (Some u)
    show "fold min (pending_sizes (he_size_update enc')) m = min w (fold min (pending_sizes (he_size_update enc)) m)"
    proof (cases u)
      case (One old)
      have "fold min (pending_sizes (he_size_update enc')) m
          = (if old < w then if m < old then min w m else min w (min old m) else min w m)"
        using Some One assms(1) by (simp add: d)
      then show ?thesis using Some One by (simp add: pending_sizes_def min_def)
    next
      case (Two a b)
      have "fold min (pending_sizes (he_size_update enc')) m = (if w < a then min w m else min w (min a m))"
        using Some Two assms(1) by (simp add: d)
      moreover have "a \<le> b" using assms(2) Some Two by (simp add: pending_sizes_def)
      ultimately show ?thesis using Some Two by (simp add: pending_sizes_def min_def)
    qed
  qed
  show "sorted (pending_sizes (he_size_update enc'))"
    by (auto simp: d split: option.split size_update.split)
qed

lemma sizes_signalled:
  assumes "he_size_update enc = None"
  defines "m \<equiv> et_max_size (he_table enc)"
  defines "sizes \<equiv> \<lambda>vs. pending_sizes (he_size_update (fold update_max_size vs enc))"
  shows "last (m # sizes vs) = last (m # map (\<lambda>v. min v (he_max_allowed_size enc)) vs)
    \<and> fold min (sizes vs) m = fold min (map (\<lambda>v. min v (he_max_allowed_size enc)) vs) m
    \<and> sorted (sizes vs) \<and> length (sizes vs) \<le> 2"
proof -
  have "he_table (fold update_max_size vs enc) = he_table enc
      \<and> he_max_allowed_size (fold update_max_size vs enc) = he_max_allowed_size enc
      \<and> last (m # sizes vs) = last (m # map (\<lambda>v. min v (he_max_allowed_size enc)) vs)
      \<and> fold min (sizes vs) m = fold min (map (\<lambda>v. min v (he_max_allowed_size enc)) vs) m
      \<and> sorted (sizes vs)"
  proof (induction vs rule: rev_induct)
    case Nil
    then show ?case using assms by (simp add: pending_sizes_def)
  next
    case (snoc v vs)
    let ?enc = "fold update_max_size vs enc"
    have "m = et_max_size (he_table ?enc)" using snoc by (simp add: m_def)
    from update_max_size_sizes [OF this, of "map (\<lambda>v. min v (he_max_allowed_size enc)) vs" v] snoc
    show ?case by (simp add: update_max_size_const sizes_def)
  qed
  moreover have "length (sizes vs) \<le> 2"
    by (simp add: sizes_def pending_sizes_def split: option.split size_update.split)
  ultimately show ?thesis by blast
qed

end
