(* ===== verification/Hpack_Frames.thy ===== *)
theory Hpack_Frames
  imports Hpack_Roundtrip
begin

section \<open>Header frames and HPACK\<close>

text \<open>
  The interface between the frame encoder and HPACK: an encoder whose blocks a decoder reads back, and
  which stays in agreement with it over blocks and table sizes. What the frame encoder makes of it is
  proved against the interface; the encoder and the decoder of the source are an instance.
\<close>

text \<open>A block of at most \<open>k\<close> payloads is cut into at most \<open>k\<close>.\<close>

lemma length_pieces: "length b \<le> n * k \<Longrightarrow> 0 < n \<Longrightarrow> 0 < k \<Longrightarrow> length (pieces n b) \<le> k"
proof (induction n b arbitrary: k rule: pieces.induct)
  case (1 n b)
  show ?case
  proof (cases "n < length b")
    case True
    then obtain j where k: "k = Suc j" "0 < j" using "1.prems"(1,3) by (cases k; cases "k - 1") auto
    have "length (pieces n (drop n b)) \<le> j"
      using "1.IH" [of j] True k "1.prems"(1,2) by simp
    then show ?thesis using True "1.prems"(2) k by (subst pieces.simps) simp
  next
    case False
    then show ?thesis using "1.prems"(3) by (subst pieces.simps) simp
  qed
qed

text \<open>The payloads of the frames that the encoder cuts a header block into.\<close>

definition frame_pieces :: "'h hpack_ops \<Rightarrow> headers_frame \<Rightarrow> 'h encoder \<Rightarrow> bytes list" where
  "frame_pieces hp f enc = pieces (enc_send_max_frame_size enc)
     (snd (hpk_encode hp (header_iter (hf_pseudo f) (hf_fields f)) (enc_hpack enc)))"

locale header_compressor =
  fixes hp :: "'h hpack_ops" and lib :: hpack_lib
    and agrees :: "'h \<Rightarrow> hpack_decoder \<Rightarrow> bool" and good :: "hpack_header \<Rightarrow> bool"
  assumes start: "agrees (hpk_default hp) (hpack_decoder_new 4096)"
    and table_size: "agrees h d \<Longrightarrow> agrees (hpk_update_max_size hp v h) (queue_size_update v d)"
    and block: "agrees h d \<Longrightarrow> list_all good hs \<Longrightarrow> hpk_encode hp hs h = (h', bs)
      \<Longrightarrow> (\<exists>d'. hpack_decode lib collect d bs [] = (d', [], hs, Inr ()) \<and> agrees h' d')
        \<and> length bs \<le> 10 + 4 * sum_list (map header_len hs)"
begin

lemma encoder_start: "agrees (enc_hpack (encoder_new hp)) (hpack_decoder_new 4096)"
  by (simp add: encoder_new_def start)

lemma encoder_table_size:
  "agrees (enc_hpack enc) d
   \<Longrightarrow> agrees (enc_hpack (enc_set_send_header_table_size hp v enc)) (queue_size_update v d)"
  by (simp add: enc_set_send_header_table_size_def table_size)

lemma frame_pieces_carry:
  assumes agree: "agrees (enc_hpack enc) d" and ok: "enc_ok enc"
    and hs: "list_all good (header_iter (hf_pseudo f) (hf_fields f))"
  defines "ps \<equiv> frame_pieces hp f enc"
  shows "\<exists>enc' d'.
    enc_encode_headers hp f enc
      = (enc', Some (piece_frames (head_new KHeaders (hf_flags f) (hf_stream_id f)) ps))
    \<and> (\<forall>p \<in> set ps. length p \<le> enc_send_max_frame_size enc)
    \<and> hpack_decode lib collect d (concat ps) [] = (d', [], header_iter (hf_pseudo f) (hf_fields f), Inr ())
    \<and> agrees (enc_hpack enc') d' \<and> enc_ok enc' \<and> enc_send_max_frame_size enc' = enc_send_max_frame_size enc
    \<and> length (concat ps) \<le> 10 + 4 * sum_list (map header_len (header_iter (hf_pseudo f) (hf_fields f)))"
proof -
  let ?n = "enc_send_max_frame_size enc" and ?hs = "header_iter (hf_pseudo f) (hf_fields f)"
  obtain h' bs where e: "hpk_encode hp ?hs (enc_hpack enc) = (h', bs)" by fastforce
  have n: "0 < ?n" "?n < 2 ^ 24"
    using ok by (simp_all add: enc_ok_def DEFAULT_MAX_FRAME_SIZE_def MAX_MAX_FRAME_SIZE_def)
  obtain d' where d': "hpack_decode lib collect d bs [] = (d', [], ?hs, Inr ())" "agrees h' d'"
    "length bs \<le> 10 + 4 * sum_list (map header_len ?hs)"
    using block [OF agree hs e] by blast
  have "enc_ok (enc\<lparr>enc_hpack := h'\<rparr>)" using ok by (simp add: enc_ok_def)
  moreover have "ps = pieces ?n bs" by (simp add: ps_def frame_pieces_def e)
  ultimately show ?thesis
    using encode_headers_frame_pieces [OF n e] pieces_length [OF n(1)] d'
    by (intro exI [of _ "enc\<lparr>enc_hpack := h'\<rparr>"] exI [of _ d']) (simp add: enc_encode_headers_def)
qed

lemma frame_carries:
  assumes "agrees (enc_hpack enc) d" and "enc_ok enc"
    and "list_all good (header_iter (hf_pseudo f) (hf_fields f))"
  shows "\<exists>enc' ps d'.
    enc_encode_headers hp f enc
      = (enc', Some (piece_frames (head_new KHeaders (hf_flags f) (hf_stream_id f)) ps))
    \<and> (\<forall>p \<in> set ps. length p \<le> enc_send_max_frame_size enc)
    \<and> hpack_decode lib collect d (concat ps) [] = (d', [], header_iter (hf_pseudo f) (hf_fields f), Inr ())
    \<and> agrees (enc_hpack enc') d' \<and> enc_ok enc'"
  using frame_pieces_carry [OF assms] by blast

end

text \<open>The items of the map's iterator are the headers of the frame.\<close>

lemma iter_items_headers:
  "(\<forall>m. prev = Some m \<longrightarrow> m = n) \<Longrightarrow> items_headers n (iter_items prev hs) = hs"
  by (induction prev hs arbitrary: n rule: iter_items.induct) auto

lemma iter_items_named: "(prev \<noteq> None \<longrightarrow> b) \<Longrightarrow> items_named b (iter_items prev hs)"
  by (induction prev hs arbitrary: b rule: iter_items.induct) auto

interpretation compressor: header_compressor "hpack_code hf" "code_lib lib" "session_ok hf" "sendable (code_lib lib)"
  for hf lib
proof unfold_locales
  show "session_ok hf (hpk_default (hpack_code hf)) (hpack_decoder_new 4096)"
    by (simp add: hpack_code_def session_ok_start)
  show "session_ok hf (hpk_update_max_size (hpack_code hf) v enc) (queue_size_update v d)"
    if "session_ok hf enc d" for enc d v
    using session_ok_table_size [OF that] by (simp add: hpack_code_def)
  fix enc d hs enc' bs
  assume ok: "session_ok hf enc d" and hs: "list_all (sendable (code_lib lib)) hs"
    and e: "hpk_encode (hpack_code hf) hs enc = (enc', bs)"
  have hl: "hl_huffman (code_lib lib) = huffman_decode" by (simp add: code_lib_def)
  have "block_ok (code_lib lib) (Block (iter_items None hs))"
    using hs by (simp add: iter_items_headers iter_items_named)
  from block_read [OF hl ok this]
  show "(\<exists>d'. hpack_decode (code_lib lib) collect d bs [] = (d', [], hs, Inr ()) \<and> session_ok hf enc' d')
      \<and> length bs \<le> 10 + 4 * sum_list (map header_len hs)"
    using e by (auto simp: hpack_code_def iter_items_headers)
qed

end
