(* ===== verification/Properties_Hpack.thy ===== *)
theory Properties_Hpack
  imports Hpack_Frames
begin

section \<open>Properties of the HPACK encoder and of Huffman coding\<close>

text \<open>
  What the header compression of the engine promises, with an example of each property that has
  hypotheses.
\<close>

subsection \<open>Huffman coding\<close>

text \<open>C8: on any bytes the Huffman decoder of the code, with its 64-bit window, its table of one or two
  symbols per lookup and its byte-wise tables for long codes, returns what the reference decoder of the
  tests returns, which strips one code after another off the bits and accepts fewer than eight ones at
  the end. It never reads or writes out of range and it ends.\<close>

theorem huffman_decoder_is_reference: "huffman_decode_run src = Some (reference_decode src)"
  by (rule huffman_decode_run_ok)

text \<open>C26: what the Huffman encoder writes for any bytes is decoded to these bytes, in at most four
  times their length.\<close>

theorem huffman_written_is_read:
  "huffman_decode_run (huffman_encode bs) = Some (Some bs) \<and> length (huffman_encode bs) \<le> 4 * length bs"
  using huffman_roundtrip [of bs] length_huffman_encode [of bs]
  by (simp add: huffman_decode_eq huffman_decode_run_ok)

subsection \<open>The encoder's table\<close>

text \<open>C7: under the table's invariant (the Robin Hood map leads to the oldest slot of every name, the
  chains to the newer ones, the sizes add up) indexing any header neither panics nor probes for ever;
  it keeps the invariant; its answer names an entry that the decoder's table holds at that place, or
  the insertion that the decoder makes; and the answer resolves to the header.\<close>

theorem encoder_table_in_step:
  assumes "table_inv hf t"
  shows "\<exists>t' ix. et_index hf h t = Some (t', ix) \<and> table_inv hf t' \<and> et_max_size t' = et_max_size t
    \<and> index_ok (of_table t) (of_table t') h ix \<and> et_resolve t' ix = Some h"
  using et_index_ok [OF assms, of h] by (auto simp: index_good_def)

definition no_hash :: name_hasher where "no_hash = (\<lambda>n. 0)"

theorem encoder_table_in_step_witness:
  "\<exists>t' ix. et_index no_hash (HField ''x-a'' [65], False) (enc_table_new 4096 0) = Some (t', ix)
    \<and> table_inv no_hash t' \<and> et_max_size t' = 4096
    \<and> index_ok (of_table (enc_table_new 4096 0)) (of_table t') (HField ''x-a'' [65], False) ix
    \<and> et_resolve t' ix = Some (HField ''x-a'' [65], False)"
  using encoder_table_in_step [of no_hash "enc_table_new 4096 0" "(HField ''x-a'' [65], False)"]
    enc_table_new_inv [of 4096 no_hash] by (simp add: enc_table_new_def)

text \<open>The table of a new encoder after one header.\<close>

definition held_table :: enc_table where
  "held_table = \<lparr>et_mask = 7, et_indices = (replicate 8 None)[0 := Some \<lparr>ps_index = - 1, ps_hash = 0\<rparr>],
     et_slots = [\<lparr>sl_hash = 0, sl_header = (HField ''x-a'' [65], False), sl_next = None\<rparr>],
     et_inserted = 1, et_size = 36, et_max_size = 4096\<rparr>"

lemma held_table_indexed:
  "et_index no_hash (HField ''x-a'' [65], False) (enc_table_new 4096 0) = Some (held_table, IxInserted 0)"
  by (simp add: et_index_def index_static_def skip_value_index_def static_fields_def enc_table_new_def
      index_dynamic_def header_is_sensitive_def reserve_one_def et_capacity_def usable_capacity_def
      hash_header_def no_hash_def desired_pos_def probe_name.simps index_vacant_def update_size_def
      converge.simps et_insert_def place_pos_def held_table_def Let_def)

lemma held_table_inv: "table_inv no_hash held_table"
proof -
  have "table_inv no_hash (enc_table_new 4096 0)" by (rule enc_table_new_inv) simp
  from et_index_ok [OF this, of "(HField ''x-a'' [65], False)"] show ?thesis
    by (simp add: held_table_indexed index_good_def)
qed

text \<open>C24: a header the table holds is always found: if its value may be indexed and it is not too large
  for the table, the answer is a reference to it and the table keeps its entries.\<close>

theorem held_header_is_referenced:
  assumes "table_inv hf t" and "fst h \<in> set (headers_of (et_slots t))"
    and "\<not> skip_value_index (fst h)" and "header_len (fst h) * 4 \<le> et_max_size t * 3"
  shows "\<exists>t' n. et_index hf h t = Some (t', IxIndexed n h)
    \<and> table_get n (of_table t) = Inr (fst h) \<and> of_table t' = of_table t"
  using et_index_ok [OF assms(1), of h] assms(2-4) by (auto simp: index_good_def index_ok_def)

theorem held_header_is_referenced_witness:
  "\<exists>t' n. et_index no_hash (HField ''x-a'' [65], True) held_table = Some (t', IxIndexed n (HField ''x-a'' [65], True))"
proof -
  have "fst (HField ''x-a'' [65], True) \<in> set (headers_of (et_slots held_table))"
    by (simp add: held_table_def headers_of_def)
  moreover have "header_len (fst (HField ''x-a'' [65], True)) * 4 \<le> et_max_size held_table * 3"
    by (simp add: held_table_def)
  ultimately show ?thesis
    using held_header_is_referenced [OF held_table_inv, of "(HField ''x-a'' [65], True)"]
    by (auto simp: skip_value_index_def)
qed

text \<open>C25: resizing the encoder's table, with its evictions from the hash map, is resizing the decoder's.\<close>

theorem encoder_table_resized:
  assumes "table_inv hf t" and "sz \<le> 2 ^ 60"
  shows "\<exists>t'. et_resize sz t = Some t' \<and> table_inv hf t' \<and> et_max_size t' = sz
    \<and> table_set_max_size sz (of_table t) = Some (of_table t')"
  by (rule et_resize_ok [OF assms])

theorem encoder_table_resized_witness:
  "\<exists>t'. et_resize 32 (enc_table_new 4096 0) = Some t' \<and> table_inv no_hash t' \<and> et_max_size t' = 32
    \<and> table_set_max_size 32 (of_table (enc_table_new 4096 0)) = Some (of_table t')"
  using encoder_table_resized [of no_hash "enc_table_new 4096 0" 32] enc_table_new_inv [of 4096 no_hash] by simp

subsection \<open>The encoder\<close>

text \<open>A string is written as its length, coded as an integer with the Huffman bit, in front of its
  Huffman code (one zero byte if it is empty): moving the string to make room for a long length loses
  nothing and stays inside the buffer.\<close>

theorem string_written:
  assumes "length v < 2 ^ 26"
  shows "encode_str v dst = Some (dst
    @ (if v = [] then [0] else encode_int (length (huffman_encode v)) 7 128 @ huffman_encode v))"
  using short_string(2) [OF assms, of dst] by (simp add: str_bytes_def)

theorem string_written_witness:
  "encode_str (replicate 1000 97) [1, 2] = Some ([1, 2]
    @ encode_int (length (huffman_encode (replicate 1000 97))) 7 128 @ huffman_encode (replicate 1000 97))"
  using string_written [of "replicate 1000 97" "[1, 2]"] by simp

text \<open>C28: whatever sizes the peer sets between two blocks, at most two updates are signalled, the smaller
  one first, so that the table shrinks to the smallest of the sizes and ends at the last one (RFC 7541,
  4.2).\<close>

theorem size_updates_signalled:
  fixes vs :: "usize list"
  assumes "he_size_update enc = None"
  defines "m \<equiv> et_max_size (he_table enc)"
    and "signalled \<equiv> pending_sizes (he_size_update (fold update_max_size vs enc))"
    and "asked \<equiv> map (\<lambda>v. min v (he_max_allowed_size enc)) vs"
  shows "last (m # signalled) = last (m # asked) \<and> fold min signalled m = fold min asked m
    \<and> sorted signalled \<and> length signalled \<le> 2"
  using sizes_signalled [OF assms(1), of vs] by (simp add: m_def signalled_def asked_def)

theorem size_updates_signalled_witness:
  "last (4096 # pending_sizes (he_size_update (fold update_max_size [100, 5000, 20, 300] hpack_encoder_default))) = 300
   \<and> fold min (pending_sizes (he_size_update (fold update_max_size [100, 5000, 20, 300] hpack_encoder_default))) 4096 = 20"
  using size_updates_signalled [of hpack_encoder_default "[100, 5000, 20, 300]"]
  by (simp add: hpack_encoder_default_def hpack_encoder_new_def DEFAULT_MAX_ALLOWED_SIZE_def enc_table_new_def)

subsection \<open>Both ends\<close>

text \<open>C6: an encoder and a decoder that start a connection stay in step over any sequence of table
  sizes and header blocks: no end panics, no block is refused, and the decoder yields exactly the
  headers the encoder was given, sensitive ones and those without a name of their own included. The
  headers are those the crate \<open>http\<close> can hold (\<open>sendable\<close>).\<close>

theorem header_blocks_read_back:
  assumes "list_all (block_ok (code_lib lib)) ops"
  shows "hpack_session (code_lib lib) hf ops hpack_encoder_default (hpack_decoder_new 4096)
    = Some (session_blocks ops)"
  by (rule session_read [OF _ session_ok_start assms]) (simp add: code_lib_def)

definition plain_lib :: hpack_lib where
  "plain_lib = \<lparr>hl_huffman = (\<lambda>_. None), hl_method_from_bytes = (\<lambda>b. Some (text_of b)),
     hl_status_from_bytes = (\<lambda>b. if b = ascii ''200'' then Some 200 else None),
     hl_name_from_lowercase = (\<lambda>b. Some (text_of b)), hl_value_from_bytes = Some\<rparr>"

definition plain_session :: "hpack_op list" where
  "plain_session =
     [Block [ItPseudo (HMethod ''GET''), ItPseudo (HPath ''/x''), ItField (Some ''x-a'') [65] False, ItField None [66] True],
      TableSize 64, TableSize 4096, Block [ItField (Some ''x-a'') [65] False, ItField (Some ''cookie'') [67] False]]"

theorem header_blocks_read_back_witness:
  "hpack_session (code_lib plain_lib) no_hash plain_session hpack_encoder_default (hpack_decoder_new 4096)
   = Some [[HMethod ''GET'', HPath ''/x'', HField ''x-a'' [65], HField ''x-a'' [66]],
           [HField ''x-a'' [65], HField ''cookie'' [67]]]"
proof -
  have "utf8_valid (ascii ''/x'')" by (simp add: ascii_def)
  then have "list_all (block_ok (code_lib plain_lib)) plain_session"
    by (simp add: plain_session_def plain_lib_def code_lib_def)
  from header_blocks_read_back [OF this, of no_hash] show ?thesis by (simp only:) (simp add: plain_session_def)
qed

text \<open>A HEADERS frame the engine sends, split over as many CONTINUATION frames as the peer's frame
  size asks for, carries a block from which the decoder on the other side reads exactly the
  pseudo-headers and fields of the frame; both ends are in step again behind it.\<close>

theorem header_frames_carry_headers:
  assumes "session_ok hf (enc_hpack enc) d" and "enc_ok enc"
    and "list_all (sendable (code_lib lib)) (header_iter (hf_pseudo f) (hf_fields f))"
  shows "\<exists>enc' ps d'.
    enc_encode_headers (hpack_code hf) f enc
      = (enc', Some (piece_frames (head_new KHeaders (hf_flags f) (hf_stream_id f)) ps))
    \<and> (\<forall>p \<in> set ps. length p \<le> enc_send_max_frame_size enc)
    \<and> hpack_decode (code_lib lib) collect d (concat ps) [] = (d', [], header_iter (hf_pseudo f) (hf_fields f), Inr ())
    \<and> session_ok hf (enc_hpack enc') d' \<and> enc_ok enc'"
  by (rule compressor.frame_carries [OF assms])

theorem header_frames_carry_headers_witness:
  "\<exists>enc' ps d'.
    enc_encode_headers (hpack_code no_hash)
        \<lparr>hf_stream_id = 1, hf_flags = 4, hf_pseudo = pseudo_response 200, hf_fields = [(''x-a'', [65]), (''x-a'', [66])]\<rparr>
        (encoder_new (hpack_code no_hash))
      = (enc', Some (piece_frames (head_new KHeaders 4 1) ps))
    \<and> hpack_decode (code_lib plain_lib) collect (hpack_decoder_new 4096) (concat ps) []
      = (d', [], [HStatus 200, HField ''x-a'' [65], HField ''x-a'' [66]], Inr ())"
proof -
  let ?f = "\<lparr>hf_stream_id = 1, hf_flags = 4, hf_pseudo = pseudo_response 200, hf_fields = [(''x-a'', [65]), (''x-a'', [66])]\<rparr>"
  have i: "header_iter (hf_pseudo ?f) (hf_fields ?f) = [HStatus 200, HField ''x-a'' [65], HField ''x-a'' [66]]"
    by (simp add: header_iter_def pseudo_response_def pseudo_default_def)
  have "show_nat 200 = ''200''" by code_simp
  then have "list_all (sendable (code_lib plain_lib)) (header_iter (hf_pseudo ?f) (hf_fields ?f))"
    unfolding i by (simp add: plain_lib_def code_lib_def)
  from header_frames_carry_headers [OF compressor.encoder_start enc_ok_new this]
  show ?thesis unfolding i by (simp, blast)
qed

end
