(* ===== verification/H2_Codec.thy ===== *)
theory H2_Codec
  imports Frame_Decoder
begin

section \<open>The codec class\<close>

text \<open>
  src/h2/codec.rs, the Python class \<open>H2Codec\<close>: the frame decoder and the frame encoder behind one mutex,
  as the tests and the low-level users drive them. A method is a function from the codec to the codec
  with its result; \<open>PyBytes\<close> and \<open>Vec\<close> are the lists. A \<open>HeaderMap\<close> argument is the header map that
  \<open>snapshot\<close> copies, an argument left out is \<open>None\<close>. As everywhere, HPACK (\<open>hpack_ops\<close>) and the crate
  http with the clock (\<open>http_ops\<close>) are arguments. \<open>StreamId::from\<close> panics on an identifier with the
  top bit set, and the methods hand it whatever the caller gave: that is \<open>RustPanic\<close> here.
\<close>

record 'h h2_codec =
  hc_dec :: frame_decoder
  hc_enc :: "'h encoder"
  hc_role_client :: bool

definition h2_codec_new :: "'h hpack_ops \<Rightarrow> string \<Rightarrow> pyerr + 'h h2_codec" where
  "h2_codec_new hp role =
     (case (if role = ''client'' then Some True else if role = ''server'' then Some False else None) of
        None \<Rightarrow> Inl (ValueError (''role must be '' @ [CHR 0x27] @ ''client'' @ [CHR 0x27] @ '' or ''
                  @ [CHR 0x27] @ ''server'' @ [CHR 0x27] @ '', got '' @ [CHR 0x22] @ role @ [CHR 0x22]))
      | Some role_client \<Rightarrow>
          Inr \<lparr>hc_dec = frame_decoder_new False, hc_enc = encoder_new hp, hc_role_client = role_client\<rparr>)"

subsection \<open>Inbound\<close>

definition h2_codec_receive ::
  "decoder_env \<Rightarrow> bytes \<Rightarrow> 'h h2_codec \<Rightarrow> 'h h2_codec \<times> (pyerr + frame_event list)" where
  "h2_codec_receive env data c =
     (case receive_frames env data (hc_dec c) of (d, r) \<Rightarrow> (c\<lparr>hc_dec := d\<rparr>, r))"

definition h2_codec_buffered :: "'h h2_codec \<Rightarrow> usize" where
  "h2_codec_buffered c = length (dc_buf (hc_dec c))"

definition h2_codec_feed_preface :: "bytes \<Rightarrow> 'h h2_codec \<Rightarrow> 'h h2_codec \<times> bool option" where
  "h2_codec_feed_preface data c =
     (case feed_preface data (hc_dec c) of (d, r) \<Rightarrow> (c\<lparr>hc_dec := d\<rparr>, r))"

subsection \<open>Static methods\<close>

definition h2_codec_check_send_headers :: "header_map \<Rightarrow> pyerr + unit" where
  "h2_codec_check_send_headers headers = check_send_fields headers"

definition h2_codec_method_is_head :: "http_ops \<Rightarrow> string \<Rightarrow> bool" where
  "h2_codec_method_is_head http mth =
     (case http_method_from_bytes http mth of Inr m \<Rightarrow> m = ''HEAD'' | Inl _ \<Rightarrow> False)"

text \<open>\<open>StreamId::from\<close>, then a builder or an encoder.\<close>

definition with_stream_id :: "u32 \<Rightarrow> (u32 \<Rightarrow> pyerr + 'a) \<Rightarrow> pyerr + 'a" where
  "with_stream_id sid k = (case stream_id_from sid of None \<Rightarrow> Inl RustPanic | Some s \<Rightarrow> k s)"

definition h2_codec_is_client_initiated :: "u32 \<Rightarrow> pyerr + bool" where
  "h2_codec_is_client_initiated sid = with_stream_id sid (\<lambda>s. Inr (is_client_initiated s))"

subsection \<open>Settings\<close>

definition h2_codec_set_send_header_table_size :: "'h hpack_ops \<Rightarrow> u32 \<Rightarrow> 'h h2_codec \<Rightarrow> 'h h2_codec" where
  "h2_codec_set_send_header_table_size hp v c =
     c\<lparr>hc_enc := enc_set_send_header_table_size hp v (hc_enc c)\<rparr>"

definition h2_codec_set_recv_header_table_size :: "u32 \<Rightarrow> 'h h2_codec \<Rightarrow> 'h h2_codec" where
  "h2_codec_set_recv_header_table_size v c = c\<lparr>hc_dec := set_recv_header_table_size v (hc_dec c)\<rparr>"

definition h2_codec_set_max_recv_frame_size :: "u32 \<Rightarrow> 'h h2_codec \<Rightarrow> 'h h2_codec \<times> (pyerr + unit)" where
  "h2_codec_set_max_recv_frame_size v c =
     (case set_max_recv_frame_size v (hc_dec c) of (d, r) \<Rightarrow> (c\<lparr>hc_dec := d\<rparr>, r))"

definition h2_codec_set_max_header_list_size :: "u32 \<Rightarrow> 'h h2_codec \<Rightarrow> 'h h2_codec" where
  "h2_codec_set_max_header_list_size v c = c\<lparr>hc_dec := set_max_header_list_size v (hc_dec c)\<rparr>"

definition h2_codec_set_send_max_frame_size :: "u32 \<Rightarrow> 'h h2_codec \<Rightarrow> 'h h2_codec \<times> (pyerr + unit)" where
  "h2_codec_set_send_max_frame_size v c =
     (case enc_set_send_max_frame_size v (hc_enc c) of (e, r) \<Rightarrow> (c\<lparr>hc_enc := e\<rparr>, r))"

subsection \<open>Outbound\<close>

definition h2_serialize_settings :: "settings_values \<Rightarrow> pyerr + bytes" where
  "h2_serialize_settings v = encode_settings v"

definition h2_serialize_settings_ack :: bytes where
  "h2_serialize_settings_ack = encode_settings_ack"

text \<open>The header frame goes through the encoder under the lock, whose HPACK state moves on.\<close>

definition h2_codec_encode_headers ::
  "'h hpack_ops \<Rightarrow> headers_frame \<Rightarrow> 'h h2_codec \<Rightarrow> 'h h2_codec \<times> (pyerr + bytes)" where
  "h2_codec_encode_headers hp f c =
     (case enc_encode_headers hp f (hc_enc c) of
        (e, out) \<Rightarrow> (c\<lparr>hc_enc := e\<rparr>, case out of None \<Rightarrow> Inl RustPanic | Some bs \<Rightarrow> Inr bs))"

definition h2_serialize_request_headers ::
  "'h hpack_ops \<Rightarrow> http_ops \<Rightarrow> u32 \<Rightarrow> string \<Rightarrow> string \<Rightarrow> header_map option \<Rightarrow> bool
   \<Rightarrow> string option \<Rightarrow> string option \<Rightarrow> 'h h2_codec \<Rightarrow> 'h h2_codec \<times> (pyerr + bytes)" where
  "h2_serialize_request_headers hp http sid mth target headers end_stream scheme authority c =
     (let flds = (case headers of Some h \<Rightarrow> h | None \<Rightarrow> [])
      in case build_request_headers http sid mth target flds end_stream scheme authority of
           Inl e \<Rightarrow> (c, Inl e)
         | Inr f \<Rightarrow> (case stream_id_from sid of
              None \<Rightarrow> (c, Inl RustPanic)
            | Some _ \<Rightarrow> h2_codec_encode_headers hp f c))"

definition h2_serialize_response_headers ::
  "'h hpack_ops \<Rightarrow> http_ops \<Rightarrow> u32 \<Rightarrow> u16 \<Rightarrow> header_map option \<Rightarrow> bool \<Rightarrow> bool
   \<Rightarrow> 'h h2_codec \<Rightarrow> 'h h2_codec \<times> (pyerr + bytes)" where
  "h2_serialize_response_headers hp http sid status headers end_stream auto_date c =
     (let flds = (case headers of Some h \<Rightarrow> h | None \<Rightarrow> [])
      in case build_response_headers http sid status flds end_stream auto_date of
           Inl e \<Rightarrow> (c, Inl e)
         | Inr f \<Rightarrow> (case stream_id_from sid of
              None \<Rightarrow> (c, Inl RustPanic)
            | Some _ \<Rightarrow> h2_codec_encode_headers hp f c))"

definition h2_serialize_trailers ::
  "'h hpack_ops \<Rightarrow> u32 \<Rightarrow> header_map \<Rightarrow> 'h h2_codec \<Rightarrow> 'h h2_codec \<times> (pyerr + bytes)" where
  "h2_serialize_trailers hp sid trailers c =
     (case stream_id_from sid of
        None \<Rightarrow> (c, Inl RustPanic)
      | Some s \<Rightarrow> h2_codec_encode_headers hp (build_trailers s trailers) c)"

text \<open>The payload is measured before the identifier is converted.\<close>

definition h2_serialize_data :: "u32 \<Rightarrow> bytes \<Rightarrow> bool \<Rightarrow> 'h h2_codec \<Rightarrow> pyerr + bytes" where
  "h2_serialize_data sid data end_stream c =
     (case enc_encode_data sid data end_stream (hc_enc c) of
        Inl e \<Rightarrow> Inl e
      | Inr out \<Rightarrow> with_stream_id sid (\<lambda>_. Inr out))"

definition h2_serialize_window_update :: "u32 \<Rightarrow> u32 \<Rightarrow> pyerr + bytes" where
  "h2_serialize_window_update sid increment =
     with_stream_id sid (\<lambda>s. Inr (encode_window_update s increment))"

definition h2_serialize_ping_ack :: "bytes \<Rightarrow> pyerr + bytes" where
  "h2_serialize_ping_ack payload = encode_ping payload True"

definition h2_serialize_ping :: "bytes \<Rightarrow> pyerr + bytes" where
  "h2_serialize_ping payload = encode_ping payload False"

definition h2_serialize_go_away :: "u32 \<Rightarrow> u32 \<Rightarrow> bytes option \<Rightarrow> pyerr + bytes" where
  "h2_serialize_go_away last_id code debug =
     with_stream_id last_id (\<lambda>s. Inr (encode_go_away s code (case debug of Some b \<Rightarrow> b | None \<Rightarrow> [])))"

definition h2_serialize_rst_stream :: "u32 \<Rightarrow> u32 \<Rightarrow> pyerr + bytes" where
  "h2_serialize_rst_stream sid code = with_stream_id sid (\<lambda>s. Inr (encode_rst_stream s code))"

lemma with_stream_id_in_range: "sid < 2 ^ 31 \<Longrightarrow> with_stream_id sid k = k sid"
  by (simp add: with_stream_id_def stream_id_from_def)

end
