(* ===== verification/Frame_Headers.thy ===== *)
theory Frame_Headers
  imports Hpack_Chunks Frame_Stream
begin

section \<open>Header frames on the wire\<close>

text \<open>
  A HEADERS frame with its CONTINUATION frames, as the frame encoder writes them, comes out of the frame
  decoder as one event with the pseudo-headers and the fields of the frame, whatever the cuts.
\<close>

subsection \<open>The header block of the decoder\<close>

definition fields_of :: "hpack_header list \<Rightarrow> header_map" where
  "fields_of hs = List.map_filter (\<lambda>h. case h of HField n v \<Rightarrow> Some (n, v) | _ \<Rightarrow> None) hs"

fun write_pseudo :: "hpack_header \<Rightarrow> pseudo \<Rightarrow> pseudo" where
  "write_pseudo (HField n v) p = p"
| "write_pseudo (HAuthority v) p = p\<lparr>p_authority := Some v\<rparr>"
| "write_pseudo (HMethod v) p = p\<lparr>p_method := Some v\<rparr>"
| "write_pseudo (HScheme v) p = p\<lparr>p_scheme := Some v\<rparr>"
| "write_pseudo (HPath v) p = p\<lparr>p_path := Some v\<rparr>"
| "write_pseudo (HProtocol v) p = p\<lparr>p_protocol := Some v\<rparr>"
| "write_pseudo (HStatus v) p = p\<lparr>p_status := Some v\<rparr>"

definition pseudo_of :: "hpack_header list \<Rightarrow> pseudo" where
  "pseudo_of hs = fold write_pseudo hs pseudo_default"

text \<open>The order of \<open>header_iter\<close>: the pseudo-headers in a fixed order, each at most once, then the fields.\<close>

fun header_rank :: "hpack_header \<Rightarrow> nat" where
  "header_rank (HMethod v) = 0"
| "header_rank (HScheme v) = 1"
| "header_rank (HAuthority v) = 2"
| "header_rank (HPath v) = 3"
| "header_rank (HProtocol v) = 4"
| "header_rank (HStatus v) = 5"
| "header_rank (HField n v) = 6"

definition in_order :: "hpack_header list \<Rightarrow> bool" where
  "in_order = sorted_wrt (\<lambda>a b. header_rank a < header_rank b \<or> header_rank a = 6 \<and> header_rank b = 6)"

lemma header_iter_in_order: "in_order (header_iter p flds)"
proof -
  have f: "in_order (map (\<lambda>(n, v). HField n v) flds)"
    by (induction flds) (auto simp: in_order_def)
  have "\<forall>h \<in> set (map (\<lambda>(n, v). HField n v) flds). header_rank h = 6" by auto
  then show ?thesis
    using f by (simp add: header_iter_def in_order_def sorted_wrt_append split: option.split)
qed

lemma fields_of_iter: "fields_of (header_iter p flds) = flds"
proof -
  have "fields_of (map (\<lambda>(n, v). HField n v) flds) = flds"
    by (induction flds) (auto simp: fields_of_def map_filter_simps)
  then show ?thesis
    by (simp add: header_iter_def fields_of_def map_filter_def split: option.split)
qed

lemma pseudo_of_iter: "pseudo_of (header_iter p flds) = p"
proof -
  have f: "fold write_pseudo (map (\<lambda>(n, v). HField n v) flds) q = q" for q
    by (induction flds arbitrary: q) auto
  show ?thesis
    by (cases p) (auto simp: pseudo_of_def header_iter_def pseudo_default_def f split: option.split)
qed

text \<open>What the loader asks of a header: no field that belongs to the connection.\<close>

fun loadable :: "hpack_header \<Rightarrow> bool" where
  "loadable (HField n v) \<longleftrightarrow>
     n \<notin> {''connection'', ''transfer-encoding'', ''upgrade'', ''keep-alive'', ''proxy-connection''}
     \<and> (n = ''te'' \<longrightarrow> v = ascii ''trailers'')"
| "loadable h \<longleftrightarrow> True"

definition list_size :: "hpack_header list \<Rightarrow> nat" where
  "list_size hs = sum_list (map header_len hs)"

text \<open>The loader's state behind the headers \<open>hs\<close>: they are in the block, nothing is amiss.\<close>

definition block_of :: "hpack_header list \<Rightarrow> header_block" where
  "block_of hs =
     \<lparr>hb_fields = fields_of hs,
      hb_field_size = list_size (filter (\<lambda>h. header_rank h = 6) hs),
      hb_is_over_size = False, hb_pseudo = pseudo_of hs\<rparr>"

definition loaded :: "hpack_header list \<Rightarrow> load_state \<Rightarrow> bool" where
  "loaded hs st \<longleftrightarrow> ls_block st = block_of hs \<and> ls_reg st = (fields_of hs \<noteq> []) \<and> \<not> ls_malformed st
     \<and> \<not> ls_way_too_large st \<and> ls_headers_size st \<le> list_size hs"

definition roomy :: "(header_map \<Rightarrow> header_name \<Rightarrow> bool) \<Rightarrow> header_map \<Rightarrow> bool" where
  "roomy full flds \<longleftrightarrow> (\<forall>k < length flds. \<not> full (take k flds) (fst (flds ! k)))"

lemma pseudo_of_snoc [simp]: "pseudo_of (hs @ [h]) = write_pseudo h (pseudo_of hs)"
  by (simp add: pseudo_of_def)

lemma list_size_simps [simp]:
  "list_size [] = 0" "list_size (h # hs) = header_len h + list_size hs" "list_size (a @ b) = list_size a + list_size b"
  by (simp_all add: list_size_def)

lemma fields_of_simps [simp]:
  "fields_of [] = []" "fields_of (a @ b) = fields_of a @ fields_of b" "fields_of [HField n v] = [(n, v)]"
  "header_rank h \<noteq> 6 \<Longrightarrow> fields_of [h] = []"
  by (cases h; simp add: fields_of_def map_filter_simps map_filter_def)+

lemma no_fields: "\<forall>h \<in> set hs. header_rank h \<noteq> 6 \<Longrightarrow> fields_of hs = []"
proof (induction hs)
  case (Cons h hs)
  then show ?case using fields_of_simps(2) [of "[h]" hs] by simp
qed simp

lemma write_pseudo_other:
  "header_rank h \<noteq> 0 \<Longrightarrow> p_method (write_pseudo h p) = p_method p"
  "header_rank h \<noteq> 1 \<Longrightarrow> p_scheme (write_pseudo h p) = p_scheme p"
  "header_rank h \<noteq> 2 \<Longrightarrow> p_authority (write_pseudo h p) = p_authority p"
  "header_rank h \<noteq> 3 \<Longrightarrow> p_path (write_pseudo h p) = p_path p"
  "header_rank h \<noteq> 4 \<Longrightarrow> p_protocol (write_pseudo h p) = p_protocol p"
  "header_rank h \<noteq> 5 \<Longrightarrow> p_status (write_pseudo h p) = p_status p"
  by (cases h; simp)+

lemma pseudo_absent:
  "\<forall>a \<in> set hs. header_rank a \<noteq> 0 \<Longrightarrow> p_method (pseudo_of hs) = None"
  "\<forall>a \<in> set hs. header_rank a \<noteq> 1 \<Longrightarrow> p_scheme (pseudo_of hs) = None"
  "\<forall>a \<in> set hs. header_rank a \<noteq> 2 \<Longrightarrow> p_authority (pseudo_of hs) = None"
  "\<forall>a \<in> set hs. header_rank a \<noteq> 3 \<Longrightarrow> p_path (pseudo_of hs) = None"
  "\<forall>a \<in> set hs. header_rank a \<noteq> 4 \<Longrightarrow> p_protocol (pseudo_of hs) = None"
  "\<forall>a \<in> set hs. header_rank a \<noteq> 5 \<Longrightarrow> p_status (pseudo_of hs) = None"
  by (induction hs rule: rev_induct; simp add: pseudo_of_def pseudo_default_def write_pseudo_other)+

lemma check_size_fine:
  assumes "ls_headers_size st < max_size" and "max_size \<le> usize_max"
  shows "check_size max_size st = (st, False)"
  using assms by (simp add: check_size_def MAX_HEADER_LIST_ABUSE_MULTIPLIER_def)

lemma load_pseudo_step:
  assumes "loaded hs st" and "fields_of hs = []" and "\<not> present (pseudo_of hs)"
    and len: "decoded_header_size name_len val_len = header_len h" and rank: "header_rank h \<noteq> 6"
    and wr: "wr = write_pseudo h" and "list_size (hs @ [h]) < max_size" and "max_size \<le> usize_max"
  shows "\<exists>st'. set_pseudo max_size name_len val_len present wr st = (st', False) \<and> loaded (hs @ [h]) st'"
proof -
  let ?st = "st\<lparr>ls_headers_size := ls_headers_size st + header_len h\<rparr>"
  have "ls_headers_size ?st < max_size" using assms(1,7) by (simp add: loaded_def)
  from check_size_fine [OF this assms(8)] show ?thesis
    using assms(1,2,3) rank by (simp add: set_pseudo_def loaded_def len wr block_of_def)
qed

lemma load_header_step:
  assumes st: "loaded hs st" and ord: "in_order (hs @ [h])" and "loadable h"
    and size: "list_size (hs @ [h]) < max_size" "max_size \<le> usize_max"
    and full: "\<forall>n v. h = HField n v \<longrightarrow> \<not> full (fields_of hs) n"
  shows "\<exists>st'. load_header full max_size h st = (st', False) \<and> loaded (hs @ [h]) st'"
proof -
  have before: "\<forall>a \<in> set hs. header_rank a < header_rank h \<or> header_rank a = 6 \<and> header_rank h = 6"
    using ord by (simp add: in_order_def sorted_wrt_append)
  have nf: "fields_of hs = []" if "header_rank h \<noteq> 6"
  proof (rule no_fields)
    have "header_rank h \<le> 6" by (cases h) simp_all
    then show "\<forall>a \<in> set hs. header_rank a \<noteq> 6" using before that by fastforce
  qed
  note step = load_pseudo_step [OF st nf _ _ _ _ size]
  show ?thesis
  proof (cases h)
    case (HField n v)
    let ?st = "st\<lparr>ls_reg := True, ls_headers_size := ls_headers_size st + header_len h\<rparr>"
    have "ls_headers_size ?st < max_size" using st size(1) by (simp add: loaded_def)
    from check_size_fine [OF this size(2)] show ?thesis
      using st \<open>loadable h\<close> full HField
      by (simp add: loaded_def block_of_def Let_def decoded_header_size_def add_ac)
  next
    case (HAuthority v)
    have "\<forall>a \<in> set hs. header_rank a \<noteq> 2" using before HAuthority by auto
    from step [where present = "\<lambda>p. p_authority p \<noteq> None" and name_len = 10 and val_len = "length v"
        and wr = "\<lambda>p. p\<lparr>p_authority := Some v\<rparr>"] pseudo_absent(3) [OF this] show ?thesis
      by (simp add: HAuthority decoded_header_size_def fun_eq_iff)
  next
    case (HMethod v)
    have "\<forall>a \<in> set hs. header_rank a \<noteq> 0" using before HMethod by auto
    from step [where present = "\<lambda>p. p_method p \<noteq> None" and name_len = 7 and val_len = "length v"
        and wr = "\<lambda>p. p\<lparr>p_method := Some v\<rparr>"] pseudo_absent(1) [OF this] show ?thesis
      by (simp add: HMethod decoded_header_size_def fun_eq_iff)
  next
    case (HScheme v)
    have "\<forall>a \<in> set hs. header_rank a \<noteq> 1" using before HScheme by auto
    from step [where present = "\<lambda>p. p_scheme p \<noteq> None" and name_len = 7 and val_len = "length v"
        and wr = "\<lambda>p. p\<lparr>p_scheme := Some v\<rparr>"] pseudo_absent(2) [OF this] show ?thesis
      by (simp add: HScheme decoded_header_size_def fun_eq_iff)
  next
    case (HPath v)
    have "\<forall>a \<in> set hs. header_rank a \<noteq> 3" using before HPath by auto
    from step [where present = "\<lambda>p. p_path p \<noteq> None" and name_len = 5 and val_len = "length v"
        and wr = "\<lambda>p. p\<lparr>p_path := Some v\<rparr>"] pseudo_absent(4) [OF this] show ?thesis
      by (simp add: HPath decoded_header_size_def fun_eq_iff)
  next
    case (HProtocol v)
    have "\<forall>a \<in> set hs. header_rank a \<noteq> 4" using before HProtocol by auto
    from step [where present = "\<lambda>p. p_protocol p \<noteq> None" and name_len = 9 and val_len = "length v"
        and wr = "\<lambda>p. p\<lparr>p_protocol := Some v\<rparr>"] pseudo_absent(5) [OF this] show ?thesis
      by (simp add: HProtocol decoded_header_size_def fun_eq_iff)
  next
    case (HStatus v)
    have "\<forall>a \<in> set hs. header_rank a \<noteq> 5" using before HStatus by auto
    from step [where present = "\<lambda>p. p_status p \<noteq> None" and name_len = 7 and val_len = "3"
        and wr = "\<lambda>p. p\<lparr>p_status := Some v\<rparr>"] pseudo_absent(6) [OF this] show ?thesis
      by (simp add: HStatus decoded_header_size_def fun_eq_iff)
  qed
qed

text \<open>Any number of headers, in one call of the loader.\<close>

lemma load_headers:
  assumes "loaded pre st" and "in_order (pre @ hs @ post)" and "\<forall>h \<in> set (pre @ hs @ post). loadable h"
    and "list_size (pre @ hs @ post) < max_size" and "max_size \<le> usize_max"
    and "roomy full (fields_of (pre @ hs @ post))"
  shows "goes_on (load_header full max_size) hs st \<and> loaded (pre @ hs) (callbacks (load_header full max_size) hs st)"
  using assms
proof (induction hs arbitrary: pre st)
  case (Cons h hs)
  let ?all = "pre @ (h # hs) @ post"
  have "in_order (pre @ [h])" using Cons.prems(2) by (auto simp: in_order_def sorted_wrt_append)
  moreover have "list_size (pre @ [h]) < max_size" using Cons.prems(4) by simp
  moreover have "\<not> full (fields_of pre) n" if "h = HField n v" for n v
  proof -
    have f: "fields_of ?all = fields_of pre @ (n, v) # fields_of (hs @ post)"
      using fields_of_simps(2) [of "[h]" "hs @ post"] that by simp
    have "length (fields_of pre) < length (fields_of ?all)" unfolding f by simp
    then have "\<not> full (take (length (fields_of pre)) (fields_of ?all)) (fst (fields_of ?all ! length (fields_of pre)))"
      using Cons.prems(6) unfolding roomy_def by blast
    then show ?thesis unfolding f by simp
  qed
  moreover have "loadable h" using Cons.prems(3) by simp
  ultimately obtain st' where st': "load_header full max_size h st = (st', False)" "loaded (pre @ [h]) st'"
    using load_header_step [OF Cons.prems(1), of h max_size full] Cons.prems(5) by blast
  have "goes_on (load_header full max_size) hs st'
      \<and> loaded ((pre @ [h]) @ hs) (callbacks (load_header full max_size) hs st')"
    by (rule Cons.IH [OF st'(2)]) (use Cons.prems in simp_all)
  then show ?case by (simp add: st'(1))
qed simp

text \<open>The start of a call finds the state that the block stands for.\<close>

lemma block_of_size: "calculate_header_list_size (block_of hs) \<le> list_size hs"
proof (induction hs rule: rev_induct)
  case Nil
  then show ?case by (simp add: block_of_def pseudo_of_def calculate_header_list_size_def pseudo_default_def pseudo_size_def)
next
  case (snoc h hs)
  have "calculate_header_list_size (block_of (hs @ [h])) \<le> calculate_header_list_size (block_of hs) + header_len h"
    by (cases h) (auto simp: block_of_def calculate_header_list_size_def pseudo_size_def decoded_header_size_def
        split: option.split)
  then show ?case using snoc by simp
qed

lemma loaded_start:
  "loaded hs \<lparr>ls_block = block_of hs, ls_reg = (hb_fields (block_of hs) \<noteq> []), ls_malformed = False,
    ls_way_too_large = False, ls_headers_size = calculate_header_list_size (block_of hs)\<rparr>"
  using block_of_size [of hs] by (simp add: loaded_def block_of_def)

text \<open>So a call of \<open>load\<close> behind the headers \<open>pre\<close>, on bytes from which HPACK reads \<open>hs\<close> as far as they
  go, leaves the block of all of them.\<close>

lemma header_block_load_reads:
  assumes dec: "hpack_decode (env_lib env) collect dec b acc = (dec', b', acc @ hs, r)"
    and "in_order (pre @ hs @ post)" and "\<forall>h \<in> set (pre @ hs @ post). loadable h"
    and "list_size (pre @ hs @ post) < max_size" and "max_size \<le> usize_max"
    and "roomy (env_map_full env) (fields_of (pre @ hs @ post))"
    and r: "r = Inr () \<or> r = Inl (HErr NeedMore)"
  shows "header_block_load env b max_size dec (block_of pre)
    = (block_of (pre @ hs), b', dec', case r of Inr _ \<Rightarrow> Inr () | Inl _ \<Rightarrow> Inl (LErr (HpackError True)))"
proof -
  let ?f = "load_header (env_map_full env) max_size"
  let ?st = "\<lparr>ls_block = block_of pre, ls_reg = (hb_fields (block_of pre) \<noteq> []), ls_malformed = False,
    ls_way_too_large = False, ls_headers_size = calculate_header_list_size (block_of pre)\<rparr>"
  obtain hs' where hs': "acc @ hs = acc @ hs'"
    "\<And>st. goes_on ?f hs' st \<Longrightarrow> hpack_decode (env_lib env) ?f dec b st = (dec', b', callbacks ?f hs' st, r)"
    using hpack_decode_callback [OF dec] by blast
  then have run: "goes_on ?f hs ?st \<Longrightarrow> hpack_decode (env_lib env) ?f dec b ?st = (dec', b', callbacks ?f hs ?st, r)"
    by simp
  from load_headers [OF loaded_start assms(2-6)]
  have "goes_on ?f hs ?st" "loaded (pre @ hs) (callbacks ?f hs ?st)" by auto
  then show ?thesis
    using run r by (auto simp: header_block_load_def Let_def loaded_def)
qed

subsection \<open>One frame\<close>

lemma head_new_sel [simp]:
  "h_kind (head_new k fl sid) = k" "h_flag (head_new k fl sid) = fl" "h_stream_id (head_new k fl sid) = sid"
  by (simp_all add: head_new_def)

lemma end_headers_flag [simp]: "END_HEADERS AND 4 = 4"
  by (simp add: END_HEADERS_def)

lemma block_of_sel [simp]: "hb_is_over_size (block_of hs) = False"
  by (simp add: block_of_def)

definition accepts :: "decoder_env \<Rightarrow> usize \<Rightarrow> hpack_header list \<Rightarrow> bool" where
  "accepts env max_size hs \<longleftrightarrow> in_order hs \<and> (\<forall>h \<in> set hs. loadable h) \<and> list_size hs < max_size
     \<and> max_size \<le> usize_max \<and> roomy (env_map_full env) (fields_of hs)"

lemma collect_prefix:
  assumes "hpack_decode hl collect dec b acc = (dec', b', acc', r)" shows "\<exists>hs. acc' = acc @ hs"
  using hpack_decode_callback [OF assms, of collect] by blast

lemma load_partial_last:
  assumes dec: "hpack_decode (env_lib env) collect (dc_decoder d) (pt_buf p) pre = (dec', [], all, Inr ())"
    and p: "pt_block p = block_of pre" and ok: "accepts env (dc_max_header_list_size d) all"
  shows "load_partial env True p d = (d\<lparr>dc_decoder := dec'\<rparr>,
    Inr (Some (EHeaders (headers_event_of (pt_stream_id p) (pt_flags p) (block_of all)))))"
proof -
  obtain hs where all: "all = pre @ hs" using collect_prefix [OF dec] by blast
  have "header_block_load env (pt_buf p) (dc_max_header_list_size d) (dc_decoder d) (block_of pre)
      = (block_of (pre @ hs), [], dec', Inr ())"
    using header_block_load_reads [OF dec [unfolded all], where pre = pre and post = "[]"] ok by (simp add: accepts_def all)
  then show ?thesis by (simp add: load_partial_def p classify_hpack_def all)
qed

lemma load_partial_more:
  assumes dec: "hpack_decode (env_lib env) collect (dc_decoder d) (pt_buf p @ x) pre = (dec', [], all, Inr ())"
    and p: "pt_block p = block_of pre" and ok: "accepts env (dc_max_header_list_size d) all"
  obtains dec1 buf1 pre1 where
    "load_partial env False p d =
      (d\<lparr>dc_decoder := dec1, dc_partial := Some (p\<lparr>pt_block := block_of pre1, pt_buf := buf1\<rparr>)\<rparr>, Inr None)"
    "hpack_decode (env_lib env) collect dec1 (buf1 @ x) pre1 = (dec', [], all, Inr ())"
proof -
  obtain dec1 buf1 pre1 r where cut: "hpack_decode (env_lib env) collect (dc_decoder d) (pt_buf p) pre = (dec1, buf1, pre1, r)"
    "r = Inr () \<and> buf1 = [] \<or> r = Inl (HErr NeedMore)"
    "hpack_decode (env_lib env) collect dec1 (buf1 @ x) pre1 = (dec', [], all, Inr ())"
    using hpack_decode_cut [OF unstoppable_collect dec] by blast
  obtain hs where hs: "pre1 = pre @ hs" using collect_prefix [OF cut(1)] by blast
  obtain post where post: "all = pre1 @ post" using collect_prefix [OF cut(3)] by blast
  have "header_block_load env (pt_buf p) (dc_max_header_list_size d) (dc_decoder d) (block_of pre)
      = (block_of (pre @ hs), buf1, dec1, case r of Inr _ \<Rightarrow> Inr () | Inl _ \<Rightarrow> Inl (LErr (HpackError True)))"
    using header_block_load_reads [OF cut(1) [unfolded hs], where pre = pre and post = post] ok cut(2) by (auto simp: accepts_def post hs)
  then have "load_partial env False p d =
      (d\<lparr>dc_decoder := dec1, dc_partial := Some (p\<lparr>pt_block := block_of pre1, pt_buf := buf1\<rparr>)\<rparr>, Inr None)"
    using cut(2) by (auto simp: load_partial_def p classify_hpack_def hs)
  then show ?thesis using that cut(3) by blast
qed

lemma receive_loop_step:
  assumes h: "h_kind h \<noteq> KUnknown" "h_stream_id h < 2 ^ 31" and p: "length p \<le> dc_max_recv_frame_size d" "length p < 2 ^ 24"
    and dec: "decode_one env (on_wire h p) (d\<lparr>dc_buf := rest\<rparr>) = (d1, Inr ev)"
  shows "receive_loop env (d\<lparr>dc_buf := on_wire h p @ rest\<rparr>) evs
    = receive_loop env d1 (evs @ (case ev of Some x \<Rightarrow> [x] | None \<Rightarrow> []))"
  using on_wire_read [OF h p(2), of rest] p dec
  by (subst receive_loop.simps) (simp add: Let_def)

text \<open>The decoder between two frames of a block.\<close>

definition partial_of :: "u32 \<Rightarrow> byte \<Rightarrow> hpack_header list \<Rightarrow> bytes \<Rightarrow> usize \<Rightarrow> partial_headers" where
  "partial_of sid fl pre buf k =
     \<lparr>pt_stream_id = sid, pt_flags = fl, pt_block = block_of pre, pt_buf = buf, pt_count = k\<rparr>"

lemma continuation_last:
  assumes "sid < 2 ^ 31" and "length p < 2 ^ 24" and d: "dc_partial d = Some (partial_of sid fl pre buf k)"
    and dec: "hpack_decode (env_lib env) collect (dc_decoder d) (buf @ p) pre = (dec', [], all, Inr ())"
    and ok: "accepts env (dc_max_header_list_size d) all"
  shows "decode_one env (on_wire (head_new KContinuation END_HEADERS sid) p) d
    = (d\<lparr>dc_decoder := dec', dc_partial := None\<rparr>, Inr (Some (EHeaders (headers_event_of sid fl (block_of all)))))"
proof -
  let ?h = "head_new KContinuation END_HEADERS sid"
  have h: "h_kind ?h \<noteq> KUnknown" "h_stream_id ?h < 2 ^ 31" using assms(1) by simp_all
  note w = decode_on_wire [OF h assms(2)]
  have "load_partial env True (partial_of sid fl pre (buf @ p) 0) (d\<lparr>dc_partial := None\<rparr>)
      = (d\<lparr>dc_decoder := dec', dc_partial := None\<rparr>, Inr (Some (EHeaders (headers_event_of sid fl (block_of all)))))"
    using load_partial_last [of env "d\<lparr>dc_partial := None\<rparr>" "partial_of sid fl pre (buf @ p) 0" pre dec' all] dec ok
    by (simp add: partial_of_def)
  then show ?thesis
    using d by (cases "buf = []") (simp_all add: decode_one_def w decode_continuation_def
        partial_of_def Let_def)
qed

lemma continuation_more:
  assumes "sid < 2 ^ 31" and "length p < 2 ^ 24" and d: "dc_partial d = Some (partial_of sid fl pre buf k)"
    and dec: "hpack_decode (env_lib env) collect (dc_decoder d) ((buf @ p) @ x) pre = (dec', [], all, Inr ())"
    and ok: "accepts env (dc_max_header_list_size d) all" and k: "k < dc_max_continuation_frames d"
  obtains dec1 buf1 pre1 where
    "decode_one env (on_wire (head_new KContinuation 0 sid) p) d
      = (d\<lparr>dc_decoder := dec1, dc_partial := Some (partial_of sid fl pre1 buf1 (k + 1))\<rparr>, Inr None)"
    "hpack_decode (env_lib env) collect dec1 (buf1 @ x) pre1 = (dec', [], all, Inr ())"
proof -
  let ?h = "head_new KContinuation 0 sid" and ?p = "partial_of sid fl pre (buf @ p) (k + 1)"
  have h: "h_kind ?h \<noteq> KUnknown" "h_stream_id ?h < 2 ^ 31" using assms(1) by simp_all
  note w = decode_on_wire [OF h assms(2)]
  have "hpack_decode (env_lib env) collect (dc_decoder (d\<lparr>dc_partial := None\<rparr>)) (pt_buf ?p @ x) pre = (dec', [], all, Inr ())"
    "pt_block ?p = block_of pre" "accepts env (dc_max_header_list_size (d\<lparr>dc_partial := None\<rparr>)) all"
    using dec ok by (simp_all add: partial_of_def)
  from load_partial_more [OF this] obtain dec1 buf1 pre1 where
    "load_partial env False ?p (d\<lparr>dc_partial := None\<rparr>) = ((d\<lparr>dc_partial := None\<rparr>)\<lparr>dc_decoder := dec1,
        dc_partial := Some (?p\<lparr>pt_block := block_of pre1, pt_buf := buf1\<rparr>)\<rparr>, Inr None)"
    and next1: "hpack_decode (env_lib env) collect dec1 (buf1 @ x) pre1 = (dec', [], all, Inr ())" by blast
  then have "decode_one env (on_wire ?h p) d
      = (d\<lparr>dc_decoder := dec1, dc_partial := Some (partial_of sid fl pre1 buf1 (k + 1))\<rparr>, Inr None)"
    using d k by (cases "buf = []") (simp_all add: decode_one_def w decode_continuation_def
        partial_of_def Let_def)
  then show ?thesis using that next1 by blast
qed

subsection \<open>All frames of a block\<close>

lemma head_flag_clear: "(head_new k fl sid)\<lparr>h_flag := fl'\<rparr> = head_new k fl' sid"
  by (simp add: head_new_def)

lemma continuations_read:
  assumes "ps \<noteq> []" and "\<forall>p \<in> set ps. length p \<le> n" and "sid < 2 ^ 31" and "n < 2 ^ 24"
    and "n \<le> dc_max_recv_frame_size d" and "dc_partial d = Some (partial_of sid fl pre buf k)"
    and "hpack_decode (env_lib env) collect (dc_decoder d) (buf @ concat ps) pre = (dec', [], all, Inr ())"
    and "accepts env (dc_max_header_list_size d) all" and "k + length ps \<le> dc_max_continuation_frames d + 1"
  shows "receive_loop env (d\<lparr>dc_buf := piece_frames (head_new KContinuation END_HEADERS sid) ps @ rest\<rparr>) evs
    = receive_loop env (d\<lparr>dc_buf := rest, dc_decoder := dec', dc_partial := None\<rparr>)
        (evs @ [EHeaders (headers_event_of sid fl (block_of all))])"
  using assms
proof (induction ps arbitrary: d pre buf k)
  case (Cons p ps)
  let ?d = "d\<lparr>dc_buf := x\<rparr>"
  have len: "length p < 2 ^ 24" "length p \<le> dc_max_recv_frame_size d" using Cons.prems(2,4,5) by auto
  show ?case
  proof (cases ps)
    case Nil
    have "decode_one env (on_wire (head_new KContinuation END_HEADERS sid) p) (d\<lparr>dc_buf := rest\<rparr>)
        = ((d\<lparr>dc_buf := rest\<rparr>)\<lparr>dc_decoder := dec', dc_partial := None\<rparr>,
           Inr (Some (EHeaders (headers_event_of sid fl (block_of all)))))"
      by (rule continuation_last [OF Cons.prems(3) len(1)]) (use Cons.prems Nil in auto)
    from receive_loop_step [OF _ _ _ len(1) this] show ?thesis
      using Cons.prems(3) len(2) by (simp add: Nil)
  next
    case (Cons q qs)
    have dec: "hpack_decode (env_lib env) collect (dc_decoder d) ((buf @ p) @ concat ps) pre = (dec', [], all, Inr ())"
      using Cons.prems(7) by simp
    let ?x = "piece_frames (head_new KContinuation END_HEADERS sid) ps @ rest"
    have part: "dc_partial (d\<lparr>dc_buf := ?x\<rparr>) = Some (partial_of sid fl pre buf k)" using Cons.prems(6) by simp
    have "k < dc_max_continuation_frames (d\<lparr>dc_buf := ?x\<rparr>)" using Cons.prems(9) Cons by simp
    moreover have "hpack_decode (env_lib env) collect (dc_decoder (d\<lparr>dc_buf := ?x\<rparr>)) ((buf @ p) @ concat ps) pre
        = (dec', [], all, Inr ())" using dec by simp
    moreover have "accepts env (dc_max_header_list_size (d\<lparr>dc_buf := ?x\<rparr>)) all" using Cons.prems(8) by simp
    ultimately obtain dec1 buf1 pre1 where one: "decode_one env (on_wire (head_new KContinuation 0 sid) p) (d\<lparr>dc_buf := ?x\<rparr>)
        = ((d\<lparr>dc_buf := ?x\<rparr>)\<lparr>dc_decoder := dec1, dc_partial := Some (partial_of sid fl pre1 buf1 (k + 1))\<rparr>, Inr None)"
      and next1: "hpack_decode (env_lib env) collect dec1 (buf1 @ concat ps) pre1 = (dec', [], all, Inr ())"
      using continuation_more [OF Cons.prems(3) len(1) part] by metis
    let ?d1 = "d\<lparr>dc_decoder := dec1, dc_partial := Some (partial_of sid fl pre1 buf1 (k + 1))\<rparr>"
    have swap: "(d\<lparr>dc_buf := ?x\<rparr>)\<lparr>dc_decoder := dec1, dc_partial := Some (partial_of sid fl pre1 buf1 (k + 1))\<rparr>
        = ?d1\<lparr>dc_buf := ?x\<rparr>" by (cases d) simp
    have "receive_loop env (d\<lparr>dc_buf := on_wire (head_new KContinuation 0 sid) p @ ?x\<rparr>) evs
        = receive_loop env (?d1\<lparr>dc_buf := ?x\<rparr>) (evs @ [])"
      using receive_loop_step [OF _ _ len(2,1) one, of evs, unfolded swap] Cons.prems(3) by simp
    also have "\<dots> = receive_loop env (?d1\<lparr>dc_buf := ?x\<rparr>) evs" by simp
    also have "\<dots> = receive_loop env (?d1\<lparr>dc_buf := rest, dc_decoder := dec', dc_partial := None\<rparr>)
        (evs @ [EHeaders (headers_event_of sid fl (block_of all))])"
    proof (rule Cons.IH [OF _ _ Cons.prems(3,4)])
      show "k + 1 + length ps \<le> dc_max_continuation_frames ?d1 + 1" using Cons.prems(9) by simp
    qed (use Cons.prems Cons next1 in simp_all)
    finally show ?thesis
      using Cons by (simp add: head_flag_clear)
  qed
qed simp

lemma headers_load_plain:
  assumes "sid \<noteq> 0" and "fl \<in> {0, 1, 4, 5}"
  shows "headers_load (head_new KHeaders fl sid) p
    = Inr (\<lparr>hp_stream_id = sid, hp_stream_dep = None, hp_flags = fl\<rparr>, p)"
  using assms by (auto simp: headers_load_def Let_def)

lemma headers_event_flags:
  "fl \<in> {4, 5} \<Longrightarrow> headers_event_of sid (fl - END_HEADERS) hb = headers_event_of sid fl hb"
  by (auto simp: headers_event_of_def END_HEADERS_def split: prod.split)

text \<open>The pieces of a frame, as \<open>enc_encode_headers\<close> writes them.\<close>

lemma headers_read:
  assumes ps: "ps \<noteq> []" "\<forall>p \<in> set ps. length p \<le> n" and sid: "0 < sid" "sid < 2 ^ 31" and n: "n < 2 ^ 24"
    and fl: "fl \<in> {4, 5}" and d: "n \<le> dc_max_recv_frame_size d" "dc_partial d = None"
    and dec: "hpack_decode (env_lib env) collect (dc_decoder d) (concat ps) [] = (dec', [], all, Inr ())"
    and ok: "accepts env (dc_max_header_list_size d) all" and count: "length ps \<le> dc_max_continuation_frames d + 2"
  shows "receive_loop env (d\<lparr>dc_buf := piece_frames (head_new KHeaders fl sid) ps @ rest\<rparr>) evs
    = receive_loop env (d\<lparr>dc_buf := rest, dc_decoder := dec'\<rparr>)
        (evs @ [EHeaders (headers_event_of sid fl (block_of all))])"
proof -
  obtain p qs where p: "ps = p # qs" using ps(1) by (cases ps) auto
  have len: "length p \<le> dc_max_recv_frame_size d" "length p < 2 ^ 24" using ps(2) n d(1) by (auto simp: p)
  have start: "header_block_new = block_of []"
    by (simp add: header_block_new_def block_of_def pseudo_of_def)
  show ?thesis
  proof (cases "qs = []")
    case True
    let ?h = "head_new KHeaders fl sid"
    have h: "h_kind ?h \<noteq> KUnknown" "h_stream_id ?h < 2 ^ 31" using sid by simp_all
    note w = decode_on_wire [OF h len(2)]
    have "load_partial env True (partial_of sid fl [] p 0) (d\<lparr>dc_buf := rest\<rparr>)
        = ((d\<lparr>dc_buf := rest\<rparr>)\<lparr>dc_decoder := dec'\<rparr>,
           Inr (Some (EHeaders (headers_event_of sid fl (block_of all)))))"
      using load_partial_last [of env "d\<lparr>dc_buf := rest\<rparr>" "partial_of sid fl [] p 0" "[]" dec' all] dec ok
      by (simp add: partial_of_def p True)
    moreover have "fl AND 4 = 4" using fl by auto
    ultimately have "decode_one env (on_wire ?h p) (d\<lparr>dc_buf := rest\<rparr>)
        = ((d\<lparr>dc_buf := rest\<rparr>)\<lparr>dc_decoder := dec'\<rparr>,
           Inr (Some (EHeaders (headers_event_of sid fl (block_of all)))))"
      using d(2) sid fl headers_load_plain [of sid fl p]
      by (auto simp: decode_one_def w decode_headers_def partial_of_def start Let_def)
    from receive_loop_step [OF h len this] show ?thesis by (simp add: p True)
  next
    case False
    let ?h = "head_new KHeaders (fl - END_HEADERS) sid" and ?fl = "fl - END_HEADERS"
    let ?x = "piece_frames (head_new KContinuation END_HEADERS sid) qs @ rest"
    have h: "h_kind ?h \<noteq> KUnknown" "h_stream_id ?h < 2 ^ 31" using sid by simp_all
    note w = decode_on_wire [OF h len(2)]
    have fl0: "?fl \<in> {0, 1, 4, 5}" "?fl AND 4 \<noteq> 4" using fl by (auto simp: END_HEADERS_def)
    have "hpack_decode (env_lib env) collect (dc_decoder (d\<lparr>dc_buf := ?x\<rparr>)) (pt_buf (partial_of sid ?fl [] p 0) @ concat qs) []
        = (dec', [], all, Inr ())" "pt_block (partial_of sid ?fl [] p 0) = block_of []"
      "accepts env (dc_max_header_list_size (d\<lparr>dc_buf := ?x\<rparr>)) all"
      using dec ok by (simp_all add: partial_of_def p)
    from load_partial_more [OF this] obtain dec1 buf1 pre1 where
      l: "load_partial env False (partial_of sid ?fl [] p 0) (d\<lparr>dc_buf := ?x\<rparr>) = ((d\<lparr>dc_buf := ?x\<rparr>)\<lparr>dc_decoder := dec1,
        dc_partial := Some ((partial_of sid ?fl [] p 0)\<lparr>pt_block := block_of pre1, pt_buf := buf1\<rparr>)\<rparr>, Inr None)"
      and next1: "hpack_decode (env_lib env) collect dec1 (buf1 @ concat qs) pre1 = (dec', [], all, Inr ())" by blast
    let ?d1 = "d\<lparr>dc_decoder := dec1, dc_partial := Some (partial_of sid ?fl pre1 buf1 0)\<rparr>"
    have "decode_one env (on_wire ?h p) (d\<lparr>dc_buf := ?x\<rparr>) = (?d1\<lparr>dc_buf := ?x\<rparr>, Inr None)"
      using d(2) sid fl0 headers_load_plain [OF _ fl0(1), of sid p] l
      by (cases d) (simp add: decode_one_def w decode_headers_def partial_of_def start Let_def)
    from receive_loop_step [OF h len this, of evs]
    have "receive_loop env (d\<lparr>dc_buf := on_wire ?h p @ ?x\<rparr>) evs = receive_loop env (?d1\<lparr>dc_buf := ?x\<rparr>) evs" by simp
    also have "\<dots> = receive_loop env (?d1\<lparr>dc_buf := rest, dc_decoder := dec', dc_partial := None\<rparr>)
        (evs @ [EHeaders (headers_event_of sid ?fl (block_of all))])"
    proof (rule continuations_read [OF False _ sid(2) n])
      show "0 + length qs \<le> dc_max_continuation_frames ?d1 + 1" using count by (simp add: p)
    qed (use ps(2) d ok next1 in \<open>simp_all add: p\<close>)
    finally show ?thesis
      using False d(2) by (cases d) (simp add: p piece_frames_Cons head_flag_clear headers_event_flags [OF fl])
  qed
qed

end
