(* ===== verification/Codec_Calls.thy ===== *)
theory Codec_Calls
  imports H2_Codec Frame_Headers Hpack_Frames
begin

section \<open>A codec that sends, a decoder that reads\<close>

text \<open>
  Bytes that are read as a whole are read in any pieces, failures included; a call of a serializing
  method yields bytes that the decoder of the peer turns into the event the call stands for, and leaves
  the two in step; so does a batch of calls. The header layer enters through \<open>header_compressor\<close>.
\<close>

subsection \<open>A failure shows early\<close>

lemma receive_loop_fails:
  "receive_loop env d out = (d1, Inl e) \<Longrightarrow> \<exists>d2. receive_loop env (d\<lparr>dc_buf := dc_buf d @ b\<rparr>) out = (d2, Inl e)"
proof (induction env d out rule: receive_loop.induct)
  case (1 env d out)
  let ?n = "HEADER_LEN + wire_payload_len (dc_buf d)"
  have head: "\<not> length (dc_buf d) < HEADER_LEN"
    using "1.prems" by (subst (asm) receive_loop.simps) (auto split: if_splits)
  show ?case
  proof (cases "dc_max_recv_frame_size d < wire_payload_len (dc_buf d)")
    case True
    then show ?thesis
      using "1.prems" head by (subst receive_loop.simps, subst (asm) receive_loop.simps)
        (simp add: Let_def wire_payload_len_append)
  next
    case False
    then have len: "?n \<le> length (dc_buf d)"
      using "1.prems" head by (auto simp: Let_def receive_loop.simps [of env d] split: if_splits)
    obtain d2 y where dec: "decode_one env (take ?n (dc_buf d)) (d\<lparr>dc_buf := drop ?n (dc_buf d)\<rparr>) = (d2, y)"
      by fastforce
    have buf2: "dc_buf d2 = drop ?n (dc_buf d)" using decode_one_rest [OF dec [symmetric]] .
    have dec': "decode_one env (take ?n (dc_buf d @ b)) (d\<lparr>dc_buf := drop ?n (dc_buf d @ b)\<rparr>)
        = (d2\<lparr>dc_buf := dc_buf d2 @ b\<rparr>, y)"
      using dec len decode_one_rest_eq [where env = env and fb = "take ?n (dc_buf d)"
          and d = "d\<lparr>dc_buf := drop ?n (dc_buf d)\<rparr>" and b = "dc_buf d2 @ b"]
      by (simp add: buf2)
    show ?thesis
    proof (cases y)
      case (Inl e')
      then show ?thesis
        using "1.prems" head False len dec dec'
        by (subst receive_loop.simps, subst (asm) receive_loop.simps) (simp add: Let_def wire_payload_len_append)
    next
      case (Inr ev)
      let ?out = "out @ (case ev of Some x \<Rightarrow> [x] | None \<Rightarrow> [])"
      have "receive_loop env d2 ?out = (d1, Inl e)"
        using "1.prems" head False len dec Inr by (subst (asm) receive_loop.simps) (simp add: Let_def)
      from "1.IH" [OF head refl refl False _ dec [symmetric] Inr this] len
      obtain d3 where "receive_loop env (d2\<lparr>dc_buf := dc_buf d2 @ b\<rparr>) ?out = (d3, Inl e)" by auto
      then show ?thesis
        using head False len dec' Inr by (subst receive_loop.simps) (simp add: Let_def wire_payload_len_append)
    qed
  qed
qed

lemma feed_preface_bad:
  assumes "feed_preface a d = (d1, Some False)"
  shows "\<exists>d2. feed_preface (a @ b) d = (d2, Some False)"
proof -
  obtain P where P: "P = H2_PREFACE" by simp
  define x where "x = (case dc_preface_buf d of Some x \<Rightarrow> x | None \<Rightarrow> []) @ a"
  let ?n = "min (length x) (length P)" and ?m = "min (length (x @ b)) (length P)"
  have ne: "take ?n x \<noteq> take ?n P"
    using assms unfolding feed_preface_def Let_def x_def [symmetric] P [symmetric] by (auto split: if_splits)
  have "take ?n (take ?m (x @ b)) = take ?n x" "take ?n (take ?m P) = take ?n P" by (simp_all add: min_def)
  then have "take ?m (x @ b) \<noteq> take ?m P" using ne by metis
  then show ?thesis
    unfolding feed_preface_def Let_def P [symmetric] append_assoc [symmetric] x_def [symmetric] by simp
qed

lemma receive_frames_fails:
  assumes "receive_frames env a d = (d1, Inl e)"
  shows "\<exists>d2. receive_frames env (a @ b) d = (d2, Inl e)"
proof (cases "dc_expect_preface d \<and> \<not> dc_preface_ok d")
  case False
  then show ?thesis
    using assms receive_loop_fails [of env "d\<lparr>dc_buf := dc_buf d @ a\<rparr>" "[]" d1 e b]
    by (simp add: receive_frames_ready)
next
  case True
  obtain d0 v where f: "feed_preface a d = (d0, v)" by fastforce
  show ?thesis
  proof (cases "v = Some True")
    case v: True
    have "receive_loop env (d0\<lparr>dc_preface_ok := True\<rparr>) [] = (d1, Inl e)"
      using assms True f v by (simp add: receive_frames_def)
    from receive_loop_fails [OF this, of b] feed_preface_done [of a d d0 b] f v
    show ?thesis using True by (cases d0) (simp add: receive_frames_def)
  next
    case False
    then have "v = Some False" using assms True f by (auto simp: receive_frames_def split: option.splits bool.splits)
    then show ?thesis
      using assms True f feed_preface_bad [of a d d0 b] by (auto simp: receive_frames_def)
  qed
qed

interpretation failing_frames: incremental_failing "receive_frames env" "\<lambda>_ e. e" "\<lambda>_. True"
  by unfold_locales (rule receive_frames_fails)

text \<open>So bytes that are read as a whole are read in any pieces, to the same end.\<close>

lemma reads_in_pieces:
  assumes whole: "receive_frames env (concat as) d = (d', Inr evs)" and "as \<noteq> []"
  shows "receive_reads env as d = (d', Inr evs)"
proof -
  obtain d1 r where reads: "receive_reads env as d = (d1, r)" by fastforce
  show ?thesis
  proof (cases r)
    case (Inl e)
    then show ?thesis
      using failing_frames.read_all_concat_fails [where env = env and s = d and as = as] reads whole by (auto simp: receive_reads_def)
  next
    case (Inr xs)
    then show ?thesis using receive_reads_frames [of env as d d1 xs] reads whole assms(2) by simp
  qed
qed

subsection \<open>Calls and what they stand for\<close>

text \<open>The serializing methods of the class with their arguments.\<close>

datatype codec_call =
    CallSettings settings_values
  | CallSettingsAck
  | CallRequest u32 string string "header_map option" bool "string option" "string option"
  | CallResponse u32 u16 "header_map option" bool bool
  | CallTrailers u32 header_map
  | CallData u32 bytes bool
  | CallWindowUpdate u32 u32
  | CallPing bytes
  | CallPingAck bytes
  | CallGoAway u32 u32 "bytes option"
  | CallRstStream u32 u32

fun codec_serialize ::
  "'h hpack_ops \<Rightarrow> http_ops \<Rightarrow> codec_call \<Rightarrow> 'h h2_codec \<Rightarrow> 'h h2_codec \<times> (pyerr + bytes)" where
  "codec_serialize hp http (CallSettings v) c = (c, h2_serialize_settings v)"
| "codec_serialize hp http CallSettingsAck c = (c, Inr h2_serialize_settings_ack)"
| "codec_serialize hp http (CallRequest sid mth target hs eos scheme authority) c =
     h2_serialize_request_headers hp http sid mth target hs eos scheme authority c"
| "codec_serialize hp http (CallResponse sid status hs eos auto_date) c =
     h2_serialize_response_headers hp http sid status hs eos auto_date c"
| "codec_serialize hp http (CallTrailers sid hs) c = h2_serialize_trailers hp sid hs c"
| "codec_serialize hp http (CallData sid data eos) c = (c, h2_serialize_data sid data eos c)"
| "codec_serialize hp http (CallWindowUpdate sid n) c = (c, h2_serialize_window_update sid n)"
| "codec_serialize hp http (CallPing payload) c = (c, h2_serialize_ping payload)"
| "codec_serialize hp http (CallPingAck payload) c = (c, h2_serialize_ping_ack payload)"
| "codec_serialize hp http (CallGoAway last_id code debug) c = (c, h2_serialize_go_away last_id code debug)"
| "codec_serialize hp http (CallRstStream sid code) c = (c, h2_serialize_rst_stream sid code)"

text \<open>The frame of a call: a header frame, or one below the header layer.\<close>

fun call_frame :: "http_ops \<Rightarrow> codec_call \<Rightarrow> pyerr + (headers_frame + sent_frame)" where
  "call_frame http (CallSettings v) = Inr (Inr (SendSettings v))"
| "call_frame http CallSettingsAck = Inr (Inr SendSettingsAck)"
| "call_frame http (CallRequest sid mth target hs eos scheme authority) =
     map_sum id Inl (build_request_headers http sid mth target (case hs of Some h \<Rightarrow> h | None \<Rightarrow> []) eos scheme authority)"
| "call_frame http (CallResponse sid status hs eos auto_date) =
     map_sum id Inl (build_response_headers http sid status (case hs of Some h \<Rightarrow> h | None \<Rightarrow> []) eos auto_date)"
| "call_frame http (CallTrailers sid hs) = Inr (Inl (build_trailers sid hs))"
| "call_frame http (CallData sid data eos) = Inr (Inr (SendData sid data eos))"
| "call_frame http (CallWindowUpdate sid n) = Inr (Inr (SendWindowUpdate sid n))"
| "call_frame http (CallPing payload) = Inr (Inr (SendPing payload False))"
| "call_frame http (CallPingAck payload) = Inr (Inr (SendPing payload True))"
| "call_frame http (CallGoAway last_id code debug) =
     Inr (Inr (SendGoAway last_id code (case debug of Some b \<Rightarrow> b | None \<Rightarrow> [])))"
| "call_frame http (CallRstStream sid code) = Inr (Inr (SendRstStream sid code))"

text \<open>The event of a header frame: its pseudo-headers and its fields.\<close>

definition carried :: "headers_frame \<Rightarrow> frame_event" where
  "carried f = EHeaders (headers_event_of (hf_stream_id f) (hf_flags f)
     \<lparr>hb_fields = hf_fields f, hb_field_size = 0, hb_is_over_size = False, hb_pseudo = hf_pseudo f\<rparr>)"

lemma carried_block:
  "EHeaders (headers_event_of (hf_stream_id f) (hf_flags f) (block_of (header_iter (hf_pseudo f) (hf_fields f)))) = carried f"
  by (simp add: carried_def headers_event_of_def block_of_def fields_of_iter pseudo_of_iter)

definition call_events :: "http_ops \<Rightarrow> codec_call \<Rightarrow> frame_event list" where
  "call_events http call = (case call_frame http call of
     Inl _ \<Rightarrow> [] | Inr (Inl f) \<Rightarrow> [carried f] | Inr (Inr s) \<Rightarrow> [sent_event s])"

text \<open>The flags of the builders.\<close>

lemma end_flags [simp]: "(4 :: byte) OR 1 = 5" by simp

lemma built_frame:
  "build_request_headers http sid mth target flds eos scheme authority = Inr f \<Longrightarrow> hf_flags f \<in> {4, 5} \<and> hf_stream_id f = sid"
  "build_response_headers http sid status flds eos auto_date = Inr f \<Longrightarrow> hf_flags f \<in> {4, 5} \<and> hf_stream_id f = sid"
  "hf_flags (build_trailers sid flds) \<in> {4, 5} \<and> hf_stream_id (build_trailers sid flds) = sid"
  by (auto simp: build_request_headers_def build_response_headers_def build_trailers_def headers_trailers_def
      headers_set_end_stream_def headers_new_def END_HEADERS_def Let_def split: sum.splits option.splits if_splits)

lemma serialize_header_frame:
  assumes "call_frame http call = Inr (Inl f)" and "hf_stream_id f < 2 ^ 31"
  shows "codec_serialize hp http call c = h2_codec_encode_headers hp f c" and "hf_flags f \<in> {4, 5}"
  using assms built_frame
  by (cases call; fastforce simp: h2_serialize_request_headers_def h2_serialize_response_headers_def h2_serialize_trailers_def
      stream_id_from_def Let_def elim!: map_sum_eq_Inr)+

lemma serialize_sent_frame:
  assumes "call_frame http call = Inr (Inr s)" and "sent_ok s"
  shows "codec_serialize hp http call c = (c, sent_bytes (hc_enc c) s)"
  using assms
  by (cases call) (auto simp: h2_serialize_settings_def h2_serialize_settings_ack_def h2_serialize_data_def
      h2_serialize_window_update_def h2_serialize_ping_def h2_serialize_ping_ack_def h2_serialize_go_away_def
      h2_serialize_rst_stream_def with_stream_id_in_range elim!: map_sum_eq_Inr split: sum.split)

subsection \<open>One call\<close>

text \<open>What a call must keep to, given the receiver's limits on a header list and on a frame: values in
  range, fields that belong to a message and not to the connection, a list below the limit. HPACK may
  blow a header up (a Huffman code has up to 30 bits), so the last bound keeps the number of
  CONTINUATION frames within what the decoder takes.\<close>

definition headers_fit :: "(hpack_header \<Rightarrow> bool) \<Rightarrow> decoder_env \<Rightarrow> usize \<Rightarrow> usize \<Rightarrow> headers_frame \<Rightarrow> bool" where
  "headers_fit good env list_max frame_max f \<longleftrightarrow>
     (let hs = header_iter (hf_pseudo f) (hf_fields f)
      in 0 < hf_stream_id f \<and> hf_stream_id f < 2 ^ 31 \<and> list_all good hs \<and> accepts env list_max hs
         \<and> 10 + 4 * list_size hs \<le> frame_max * (calc_max_continuation_frames list_max frame_max + 2))"

fun frame_fits :: "usize \<Rightarrow> sent_frame \<Rightarrow> bool" where
  "frame_fits frame_max (SendData sid data eos) \<longleftrightarrow> length data \<le> frame_max"
| "frame_fits frame_max (SendSettings v) \<longleftrightarrow> (case encode_settings v of Inl _ \<Rightarrow> False | Inr _ \<Rightarrow> True)"
| "frame_fits frame_max _ \<longleftrightarrow> True"

definition call_fits ::
  "(hpack_header \<Rightarrow> bool) \<Rightarrow> decoder_env \<Rightarrow> http_ops \<Rightarrow> usize \<Rightarrow> usize \<Rightarrow> codec_call \<Rightarrow> bool" where
  "call_fits good env http list_max frame_max call = (case call_frame http call of
     Inl _ \<Rightarrow> False
   | Inr (Inl f) \<Rightarrow> headers_fit good env list_max frame_max f
   | Inr (Inr s) \<Rightarrow> sent_ok s \<and> frame_fits frame_max s)"

lemma frame_fits_sent:
  "sent_ok s \<Longrightarrow> frame_fits (enc_send_max_frame_size enc) s \<Longrightarrow> \<exists>out. sent_bytes enc s = Inr out"
  by (cases s) (auto simp: enc_encode_data_def encode_ping_def split: sum.splits)

text \<open>The two ends in step: HPACK agrees, both use one frame size, and no header block is open.\<close>

definition in_step :: "('h \<Rightarrow> hpack_decoder \<Rightarrow> bool) \<Rightarrow> 'h encoder \<Rightarrow> frame_decoder \<Rightarrow> bool" where
  "in_step agrees enc d \<longleftrightarrow> agrees (enc_hpack enc) (dc_decoder d) \<and> enc_ok enc \<and> dc_partial d = None
     \<and> enc_send_max_frame_size enc = dc_max_recv_frame_size d
     \<and> dc_max_continuation_frames d = calc_max_continuation_frames (dc_max_header_list_size d) (dc_max_recv_frame_size d)"

context header_compressor
begin

lemma header_frame_read:
  assumes step: "in_step agrees enc d" and env: "env_lib env = lib" and fl: "hf_flags f \<in> {4, 5}"
    and fit: "headers_fit good env (dc_max_header_list_size d) (dc_max_recv_frame_size d) f"
  shows "\<exists>enc' out dec'. enc_encode_headers hp f enc = (enc', Some out)
    \<and> (\<forall>rest evs. receive_loop env (d\<lparr>dc_buf := out @ rest\<rparr>) evs
        = receive_loop env (d\<lparr>dc_buf := rest, dc_decoder := dec'\<rparr>) (evs @ [carried f]))
    \<and> in_step agrees enc' (d\<lparr>dc_decoder := dec'\<rparr>)"
proof -
  let ?ps = "frame_pieces hp f enc" and ?n = "enc_send_max_frame_size enc" and ?k = "dc_max_continuation_frames d"
    and ?hs = "header_iter (hf_pseudo f) (hf_fields f)"
  have ok: "agrees (enc_hpack enc) (dc_decoder d)" "enc_ok enc" "dc_partial d = None" "?n \<le> dc_max_recv_frame_size d"
    "?n = dc_max_recv_frame_size d"
    "?k = calc_max_continuation_frames (dc_max_header_list_size d) (dc_max_recv_frame_size d)"
    using step by (simp_all add: in_step_def)
  have n: "?n < 2 ^ 24" "0 < ?n" using ok(2) by (simp_all add: enc_ok_def MAX_MAX_FRAME_SIZE_def DEFAULT_MAX_FRAME_SIZE_def)
  have f: "0 < hf_stream_id f" "hf_stream_id f < 2 ^ 31" "list_all good ?hs"
    "accepts env (dc_max_header_list_size d) ?hs" "10 + 4 * list_size ?hs \<le> ?n * (?k + 2)"
    using fit by (simp_all add: headers_fit_def Let_def ok(5,6))
  obtain enc' d' where e: "enc_encode_headers hp f enc
      = (enc', Some (piece_frames (head_new KHeaders (hf_flags f) (hf_stream_id f)) ?ps))"
    "\<forall>p \<in> set ?ps. length p \<le> ?n"
    "hpack_decode lib collect (dc_decoder d) (concat ?ps) [] = (d', [], ?hs, Inr ())"
    "agrees (enc_hpack enc') d'" "enc_ok enc'" "enc_send_max_frame_size enc' = ?n"
    "length (concat ?ps) \<le> 10 + 4 * list_size ?hs"
    using frame_pieces_carry [OF ok(1,2) f(3)] unfolding list_size_def by blast
  have ps: "?ps \<noteq> []" by (simp add: frame_pieces_def)
  have "length (concat ?ps) \<le> ?n * (?k + 2)" using e(7) f(5) by simp
  then have count: "length ?ps \<le> ?k + 2" using n(2) by (simp add: frame_pieces_def length_pieces)
  note headers_read [OF ps e(2) f(1,2) n(1) fl ok(4,3) e(3) [folded env] f(4) count]
  then have "receive_loop env (d\<lparr>dc_buf := piece_frames (head_new KHeaders (hf_flags f) (hf_stream_id f)) ?ps @ rest\<rparr>) evs
      = receive_loop env (d\<lparr>dc_buf := rest, dc_decoder := d'\<rparr>) (evs @ [carried f])" for rest evs
    by (simp add: carried_block)
  then show ?thesis
    using e ok by (intro exI [of _ enc'] exI [of _ d'] exI) (auto simp: in_step_def)
qed

lemma call_read:
  assumes step: "in_step agrees (hc_enc a) d" and env: "env_lib env = lib"
    and fit: "call_fits good env http (dc_max_header_list_size d) (dc_max_recv_frame_size d) call"
  shows "\<exists>a' out dec'. codec_serialize hp http call a = (a', Inr out)
    \<and> (\<forall>rest evs. receive_loop env (d\<lparr>dc_buf := out @ rest\<rparr>) evs
        = receive_loop env (d\<lparr>dc_buf := rest, dc_decoder := dec'\<rparr>) (evs @ call_events http call))
    \<and> in_step agrees (hc_enc a') (d\<lparr>dc_decoder := dec'\<rparr>)"
proof (cases "call_frame http call")
  case (Inr r)
  show ?thesis
  proof (cases r)
    case (Inl f)
    have hfit: "headers_fit good env (dc_max_header_list_size d) (dc_max_recv_frame_size d) f"
      using fit Inr Inl by (simp add: call_fits_def)
    then have "hf_stream_id f < 2 ^ 31" by (simp add: headers_fit_def Let_def)
    note s = serialize_header_frame [OF Inr [unfolded Inl] this]
    obtain enc' out dec' where "enc_encode_headers hp f (hc_enc a) = (enc', Some out)"
      "\<And>rest evs. receive_loop env (d\<lparr>dc_buf := out @ rest\<rparr>) evs
        = receive_loop env (d\<lparr>dc_buf := rest, dc_decoder := dec'\<rparr>) (evs @ [carried f])"
      "in_step agrees enc' (d\<lparr>dc_decoder := dec'\<rparr>)"
      using header_frame_read [OF step env s(2) hfit] by blast
    then show ?thesis
      by (intro exI [of _ "a\<lparr>hc_enc := enc'\<rparr>"] exI [of _ out] exI [of _ dec'])
        (simp add: s(1) h2_codec_encode_headers_def call_events_def Inr Inl)
  next
    case r: (Inr s)
    have enc: "enc_ok (hc_enc a)" "dc_partial d = None" "enc_send_max_frame_size (hc_enc a) = dc_max_recv_frame_size d"
      using step by (simp_all add: in_step_def)
    have ok: "sent_ok s" "frame_fits (enc_send_max_frame_size (hc_enc a)) s"
      using fit Inr r by (simp_all add: call_fits_def enc(3))
    from frame_fits_sent [OF ok] obtain out where out: "sent_bytes (hc_enc a) s = Inr out" by blast
    have n: "max 16384 (enc_send_max_frame_size (hc_enc a)) < 2 ^ 24"
      "max 16384 (enc_send_max_frame_size (hc_enc a)) \<le> dc_max_recv_frame_size d"
      using enc(1) by (simp_all add: enc_ok_def MAX_MAX_FRAME_SIZE_def DEFAULT_MAX_FRAME_SIZE_def enc(3))
    note receive_loop_frame [OF sent_reads_as [OF out ok(1) enc(1)] n(2,1) enc(2)]
    moreover have "d\<lparr>dc_buf := rest, dc_decoder := dc_decoder d\<rparr> = d\<lparr>dc_buf := rest\<rparr>" for rest by (cases d) simp
    moreover have "d\<lparr>dc_decoder := dc_decoder d\<rparr> = d" by simp
    ultimately show ?thesis
      using step serialize_sent_frame [OF Inr [unfolded r] ok(1), of hp a] out
      by (intro exI [of _ a] exI [of _ out] exI [of _ "dc_decoder d"]) (simp add: call_events_def Inr r)
  qed
qed (use fit in \<open>simp add: call_fits_def\<close>)

end

subsection \<open>A batch of calls\<close>

fun codec_serialize_all ::
  "'h hpack_ops \<Rightarrow> http_ops \<Rightarrow> codec_call list \<Rightarrow> 'h h2_codec \<Rightarrow> 'h h2_codec \<times> (pyerr + bytes)" where
  "codec_serialize_all hp http [] a = (a, Inr [])"
| "codec_serialize_all hp http (call # calls) a =
     (case codec_serialize hp http call a of
        (a1, Inl e) \<Rightarrow> (a1, Inl e)
      | (a1, Inr out) \<Rightarrow>
          (case codec_serialize_all hp http calls a1 of (a2, r) \<Rightarrow> (a2, map_sum id ((@) out) r)))"

context header_compressor
begin

lemma calls_read:
  assumes "in_step agrees (hc_enc a) d" and env: "env_lib env = lib"
    and "list_all (call_fits good env http (dc_max_header_list_size d) (dc_max_recv_frame_size d)) calls"
  shows "\<exists>a' out dec'. codec_serialize_all hp http calls a = (a', Inr out)
    \<and> (\<forall>rest evs. receive_loop env (d\<lparr>dc_buf := out @ rest\<rparr>) evs
        = receive_loop env (d\<lparr>dc_buf := rest, dc_decoder := dec'\<rparr>) (evs @ concat (map (call_events http) calls)))
    \<and> in_step agrees (hc_enc a') (d\<lparr>dc_decoder := dec'\<rparr>)"
  using assms(1,3)
proof (induction calls arbitrary: a d)
  case Nil
  moreover have "d\<lparr>dc_buf := rest, dc_decoder := dc_decoder d\<rparr> = d\<lparr>dc_buf := rest\<rparr>" for rest by (cases d) simp
  moreover have "d\<lparr>dc_decoder := dc_decoder d\<rparr> = d" by simp
  ultimately show ?case by (intro exI [of _ a] exI [of _ "[]"] exI [of _ "dc_decoder d"]) simp
next
  case (Cons call calls)
  have fit: "call_fits good env http (dc_max_header_list_size d) (dc_max_recv_frame_size d) call"
    using Cons.prems(2) by simp
  from call_read [OF Cons.prems(1) env fit] obtain a1 out1 dec1 where one:
    "codec_serialize hp http call a = (a1, Inr out1)"
    "\<And>rest evs. receive_loop env (d\<lparr>dc_buf := out1 @ rest\<rparr>) evs
        = receive_loop env (d\<lparr>dc_buf := rest, dc_decoder := dec1\<rparr>) (evs @ call_events http call)"
    "in_step agrees (hc_enc a1) (d\<lparr>dc_decoder := dec1\<rparr>)" by blast
  let ?d1 = "d\<lparr>dc_decoder := dec1\<rparr>"
  have "list_all (call_fits good env http (dc_max_header_list_size ?d1) (dc_max_recv_frame_size ?d1)) calls"
    using Cons.prems(2) by simp
  from Cons.IH [OF one(3) this] obtain a2 out2 dec2 where two:
    "codec_serialize_all hp http calls a1 = (a2, Inr out2)"
    "\<And>rest evs. receive_loop env (?d1\<lparr>dc_buf := out2 @ rest\<rparr>) evs
        = receive_loop env (?d1\<lparr>dc_buf := rest, dc_decoder := dec2\<rparr>) (evs @ concat (map (call_events http) calls))"
    "in_step agrees (hc_enc a2) (?d1\<lparr>dc_decoder := dec2\<rparr>)" by blast
  have swap: "d\<lparr>dc_buf := x, dc_decoder := dec1\<rparr> = ?d1\<lparr>dc_buf := x\<rparr>"
    "?d1\<lparr>dc_buf := x, dc_decoder := dec2\<rparr> = d\<lparr>dc_buf := x, dc_decoder := dec2\<rparr>"
    "?d1\<lparr>dc_decoder := dec2\<rparr> = d\<lparr>dc_decoder := dec2\<rparr>" for x by (cases d; simp)+
  show ?case
    using one two by (intro exI [of _ a2] exI [of _ "out1 @ out2"] exI [of _ dec2]) (simp add: swap)
qed

end

end
