(* ===== verification/Codec_Session.thy ===== *)
theory Codec_Session
  imports Codec_Calls
begin

section \<open>Two codecs, end to end\<close>

text \<open>
  A codec that serializes and a codec that receives, over a transport that cuts the bytes anywhere:
  settings, heads, data, trailers and control frames in any order come out as the events they stand for,
  and the two ends stay in step over changes of the table size, the frame size and the list size.
\<close>

subsection \<open>The session\<close>

definition codec_receive_all ::
  "decoder_env \<Rightarrow> bytes list \<Rightarrow> 'h h2_codec \<Rightarrow> 'h h2_codec \<times> (pyerr + frame_event list)" where
  "codec_receive_all env = read_all (h2_codec_receive env) (\<lambda>_ e. e)"

text \<open>A step: a batch of calls whose bytes travel, or a setting that the receiver has announced and the
  sender has seen.\<close>

datatype codec_step =
    Talk "codec_call list"
  | TableSizeTo u32
  | FrameSizeTo u32
  | ListSizeTo u32

text \<open>\<open>chop\<close> says how the transport cuts the bytes.\<close>

fun codec_session ::
  "'h hpack_ops \<Rightarrow> http_ops \<Rightarrow> decoder_env \<Rightarrow> (bytes \<Rightarrow> bytes list) \<Rightarrow> codec_step list
   \<Rightarrow> 'h h2_codec \<Rightarrow> 'h h2_codec \<Rightarrow> pyerr + frame_event list" where
  "codec_session hp http env chop [] a b = Inr []"
| "codec_session hp http env chop (Talk calls # steps) a b =
     (case codec_serialize_all hp http calls a of
        (a1, Inl e) \<Rightarrow> Inl e
      | (a1, Inr out) \<Rightarrow>
          (case codec_receive_all env (chop out) b of
             (b1, Inl e) \<Rightarrow> Inl e
           | (b1, Inr evs) \<Rightarrow> map_sum id ((@) evs) (codec_session hp http env chop steps a1 b1)))"
| "codec_session hp http env chop (TableSizeTo v # steps) a b =
     codec_session hp http env chop steps
       (h2_codec_set_send_header_table_size hp v a) (h2_codec_set_recv_header_table_size v b)"
| "codec_session hp http env chop (FrameSizeTo v # steps) a b =
     (case h2_codec_set_max_recv_frame_size v b of
        (b1, Inl e) \<Rightarrow> Inl e
      | (b1, Inr _) \<Rightarrow>
          (case h2_codec_set_send_max_frame_size v a of
             (a1, Inl e) \<Rightarrow> Inl e
           | (a1, Inr _) \<Rightarrow> codec_session hp http env chop steps a1 b1))"
| "codec_session hp http env chop (ListSizeTo v # steps) a b =
     codec_session hp http env chop steps a (h2_codec_set_max_header_list_size v b)"

text \<open>The events that the steps stand for, whatever the state of the codecs.\<close>

fun step_events :: "http_ops \<Rightarrow> codec_step \<Rightarrow> frame_event list" where
  "step_events http (Talk calls) = concat (map (call_events http) calls)"
| "step_events http _ = []"

definition session_events :: "http_ops \<Rightarrow> codec_step list \<Rightarrow> frame_event list" where
  "session_events http steps = concat (map (step_events http) steps)"

text \<open>Every call within what the receiver accepts at that point: \<open>list_max\<close> and \<open>frame_max\<close> are its limits.\<close>

fun session_fits ::
  "(hpack_header \<Rightarrow> bool) \<Rightarrow> decoder_env \<Rightarrow> http_ops \<Rightarrow> usize \<Rightarrow> usize \<Rightarrow> codec_step list \<Rightarrow> bool" where
  "session_fits good env http list_max frame_max [] \<longleftrightarrow> True"
| "session_fits good env http list_max frame_max (Talk calls # steps) \<longleftrightarrow>
     list_all (call_fits good env http list_max frame_max) calls
     \<and> session_fits good env http list_max frame_max steps"
| "session_fits good env http list_max frame_max (TableSizeTo v # steps) \<longleftrightarrow>
     session_fits good env http list_max frame_max steps"
| "session_fits good env http list_max frame_max (FrameSizeTo v # steps) \<longleftrightarrow>
     DEFAULT_MAX_FRAME_SIZE \<le> v \<and> v \<le> MAX_MAX_FRAME_SIZE \<and> session_fits good env http list_max v steps"
| "session_fits good env http list_max frame_max (ListSizeTo v # steps) \<longleftrightarrow>
     session_fits good env http v frame_max steps"

subsection \<open>The receiving end\<close>

lemma codec_receive_all_frames:
  "codec_receive_all env chunks b
   = (case receive_reads env chunks (hc_dec b) of (d, r) \<Rightarrow> (b\<lparr>hc_dec := d\<rparr>, r))"
proof (induction chunks arbitrary: b)
  case Nil
  then show ?case by (simp add: codec_receive_all_def receive_reads_def)
next
  case (Cons x chunks)
  then show ?case
    by (simp add: codec_receive_all_def receive_reads_def h2_codec_receive_def split: prod.split sum.split)
qed

definition at_rest :: "frame_decoder \<Rightarrow> bool" where
  "at_rest d \<longleftrightarrow> dc_buf d = [] \<and> \<not> (dc_expect_preface d \<and> \<not> dc_preface_ok d)"

lemma receive_loop_empty: "dc_buf d = [] \<Longrightarrow> receive_loop env d evs = (d, Inr evs)"
  by (subst receive_loop.simps) (simp add: HEADER_LEN_def)

lemma receive_in_pieces:
  assumes rest: "at_rest d" and out: "concat chunks = out"
    and loop: "\<And>rest evs. receive_loop env (d\<lparr>dc_buf := out @ rest\<rparr>) evs
      = receive_loop env (d\<lparr>dc_buf := rest, dc_decoder := dec'\<rparr>) (evs @ new)"
  shows "receive_reads env chunks d = (d\<lparr>dc_decoder := dec'\<rparr>, Inr new)"
proof -
  have b: "dc_buf d = []" using rest by (simp add: at_rest_def)
  have whole: "receive_loop env (d\<lparr>dc_buf := out\<rparr>) [] = (d\<lparr>dc_decoder := dec'\<rparr>, Inr new)"
  proof -
    have e: "d\<lparr>dc_buf := [], dc_decoder := dec'\<rparr> = d\<lparr>dc_decoder := dec'\<rparr>" using b by (cases d) simp
    have "receive_loop env (d\<lparr>dc_buf := out\<rparr>) [] = receive_loop env (d\<lparr>dc_buf := [], dc_decoder := dec'\<rparr>) new"
      using loop [of "[]" "[]"] by simp
    also have "\<dots> = receive_loop env (d\<lparr>dc_decoder := dec'\<rparr>) new" by (simp only: e)
    also have "\<dots> = (d\<lparr>dc_decoder := dec'\<rparr>, Inr new)" by (rule receive_loop_empty) (simp add: b)
    finally show ?thesis .
  qed
  have "receive_frames env out d = (d\<lparr>dc_decoder := dec'\<rparr>, Inr new)"
    using receive_frames_ready [of d env out] rest whole b by (simp add: at_rest_def)
  then show ?thesis
  proof (cases "chunks = []")
    case True
    then have "d\<lparr>dc_buf := out\<rparr> = d" using out b by (cases d) simp
    then have "(d, Inr []) = (d\<lparr>dc_decoder := dec'\<rparr>, Inr new)"
      using whole receive_loop_empty [OF b, of env "[]"] by simp
    then show ?thesis using True by (simp add: receive_reads_def)
  qed (use reads_in_pieces [of env chunks d] out in simp)
qed

subsection \<open>What is called is what comes out\<close>

context header_compressor
begin

definition ends_meet :: "'h h2_codec \<Rightarrow> 'h h2_codec \<Rightarrow> bool" where
  "ends_meet a b \<longleftrightarrow> in_step agrees (hc_enc a) (hc_dec b) \<and> at_rest (hc_dec b)"

lemma talk_read:
  assumes meet: "ends_meet a b" and env: "env_lib env = lib" and chop: "\<And>out. concat (chop out) = out"
    and fit: "list_all (call_fits good env http (dc_max_header_list_size (hc_dec b)) (dc_max_recv_frame_size (hc_dec b))) calls"
  shows "\<exists>a1 out dec1. codec_serialize_all hp http calls a = (a1, Inr out)
    \<and> codec_receive_all env (chop out) b
      = (b\<lparr>hc_dec := (hc_dec b)\<lparr>dc_decoder := dec1\<rparr>\<rparr>, Inr (step_events http (Talk calls)))
    \<and> ends_meet a1 (b\<lparr>hc_dec := (hc_dec b)\<lparr>dc_decoder := dec1\<rparr>\<rparr>)"
proof -
  have step: "in_step agrees (hc_enc a) (hc_dec b)" and rest: "at_rest (hc_dec b)"
    using meet by (simp_all add: ends_meet_def)
  from calls_read [OF step env fit] obtain a1 out dec1 where r:
    "codec_serialize_all hp http calls a = (a1, Inr out)"
    "\<And>rest evs. receive_loop env ((hc_dec b)\<lparr>dc_buf := out @ rest\<rparr>) evs
      = receive_loop env ((hc_dec b)\<lparr>dc_buf := rest, dc_decoder := dec1\<rparr>) (evs @ concat (map (call_events http) calls))"
    "in_step agrees (hc_enc a1) ((hc_dec b)\<lparr>dc_decoder := dec1\<rparr>)" by blast
  have "receive_reads env (chop out) (hc_dec b)
      = ((hc_dec b)\<lparr>dc_decoder := dec1\<rparr>, Inr (concat (map (call_events http) calls)))"
    by (rule receive_in_pieces [OF rest chop r(2)])
  then show ?thesis
    using r(1,3) rest by (intro exI [of _ dec1] exI [of _ out] exI [of _ a1])
      (simp add: codec_receive_all_frames ends_meet_def at_rest_def)
qed

lemma session_reads:
  assumes env: "env_lib env = lib" and chop: "\<And>out. concat (chop out) = out"
  shows "ends_meet a b
    \<Longrightarrow> session_fits good env http (dc_max_header_list_size (hc_dec b)) (dc_max_recv_frame_size (hc_dec b)) steps
    \<Longrightarrow> codec_session hp http env chop steps a b = Inr (session_events http steps)"
proof (induction steps arbitrary: a b)
  case (Cons step steps)
  show ?case
  proof (cases step)
    case (Talk calls)
    have "list_all (call_fits good env http (dc_max_header_list_size (hc_dec b)) (dc_max_recv_frame_size (hc_dec b))) calls"
      using Cons.prems by (simp add: Talk)
    from talk_read [OF Cons.prems(1) env chop this] obtain a1 out dec1 where r:
      "codec_serialize_all hp http calls a = (a1, Inr out)"
      "codec_receive_all env (chop out) b
        = (b\<lparr>hc_dec := (hc_dec b)\<lparr>dc_decoder := dec1\<rparr>\<rparr>, Inr (step_events http (Talk calls)))"
      "ends_meet a1 (b\<lparr>hc_dec := (hc_dec b)\<lparr>dc_decoder := dec1\<rparr>\<rparr>)" by blast
    have "codec_session hp http env chop steps a1 (b\<lparr>hc_dec := (hc_dec b)\<lparr>dc_decoder := dec1\<rparr>\<rparr>)
        = Inr (session_events http steps)"
      by (rule Cons.IH [OF r(3)]) (use Cons.prems(2) r(1) in \<open>simp add: Talk\<close>)
    then show ?thesis using r(1,2) by (simp add: Talk session_events_def)
  next
    case (TableSizeTo v)
    let ?a = "h2_codec_set_send_header_table_size hp v a" and ?b = "h2_codec_set_recv_header_table_size v b"
    have "ends_meet ?a ?b"
      using Cons.prems(1) encoder_table_size [of "hc_enc a" "dc_decoder (hc_dec b)" v]
      by (simp add: ends_meet_def in_step_def at_rest_def h2_codec_set_send_header_table_size_def
          h2_codec_set_recv_header_table_size_def set_recv_header_table_size_def enc_set_send_header_table_size_def enc_ok_def)
    from Cons.IH [OF this] show ?thesis
      using Cons.prems(2) by (simp add: TableSizeTo session_events_def h2_codec_set_recv_header_table_size_def
          set_recv_header_table_size_def)
  next
    case (FrameSizeTo v)
    have v: "check_max_frame_size v = Inr ()" using Cons.prems(2) by (simp add: FrameSizeTo check_max_frame_size_ok)
    let ?a = "a\<lparr>hc_enc := (hc_enc a)\<lparr>enc_send_max_frame_size := v\<rparr>\<rparr>"
    let ?d = "(hc_dec b)\<lparr>dc_max_recv_frame_size := v,
      dc_max_continuation_frames := calc_max_continuation_frames (dc_max_header_list_size (hc_dec b)) v\<rparr>"
    have s: "h2_codec_set_max_recv_frame_size v b = (b\<lparr>hc_dec := ?d\<rparr>, Inr ())" "h2_codec_set_send_max_frame_size v a = (?a, Inr ())"
      by (simp_all add: h2_codec_set_max_recv_frame_size_def set_max_recv_frame_size_def
          h2_codec_set_send_max_frame_size_def enc_set_send_max_frame_size_def v)
    have "ends_meet ?a (b\<lparr>hc_dec := ?d\<rparr>)"
      using Cons.prems FrameSizeTo
      by (simp add: ends_meet_def in_step_def at_rest_def enc_ok_def DEFAULT_MAX_FRAME_SIZE_def)
    from Cons.IH [OF this] show ?thesis
      using Cons.prems(2) by (simp add: FrameSizeTo session_events_def s)
  next
    case (ListSizeTo v)
    have "ends_meet a (h2_codec_set_max_header_list_size v b)"
      using Cons.prems(1) by (simp add: ends_meet_def in_step_def at_rest_def h2_codec_set_max_header_list_size_def
          set_max_header_list_size_def)
    from Cons.IH [OF this] show ?thesis
      using Cons.prems(2) by (simp add: ListSizeTo session_events_def h2_codec_set_max_header_list_size_def
          set_max_header_list_size_def)
  qed
qed (simp add: session_events_def)

lemma new_codecs_meet:
  assumes "h2_codec_new hp role = Inr a" and "h2_codec_new hp role' = Inr b"
  shows "ends_meet a b" and "dc_max_header_list_size (hc_dec b) = DEFAULT_MAX_HEADER_LIST_SIZE"
    and "dc_max_recv_frame_size (hc_dec b) = DEFAULT_MAX_FRAME_SIZE"
  using assms encoder_start
  by (auto simp: h2_codec_new_def ends_meet_def in_step_def at_rest_def frame_decoder_new_def
      DEFAULT_HEADER_TABLE_SIZE_def encoder_new_def enc_ok_def DEFAULT_MAX_FRAME_SIZE_def MAX_MAX_FRAME_SIZE_def
      split: if_splits)

lemma new_codecs_talk:
  assumes "h2_codec_new hp role = Inr a" and "h2_codec_new hp role' = Inr b"
    and "env_lib env = lib" and "\<And>out. concat (chop out) = out"
    and "session_fits good env http DEFAULT_MAX_HEADER_LIST_SIZE DEFAULT_MAX_FRAME_SIZE steps"
  shows "codec_session hp http env chop steps a b = Inr (session_events http steps)"
  using session_reads [OF assms(3,4) new_codecs_meet(1) [OF assms(1,2)]] new_codecs_meet(2,3) [OF assms(1,2)] assms(5)
  by simp

end

end
