(* ===== verification/Properties_Session.thy ===== *)
theory Properties_Session
  imports Codec_Session Properties_Hpack
begin

section \<open>Properties of two connected codecs\<close>

text \<open>
  The whole wire layer at once: builders, HPACK, frames, the byte stream and the decoder, over a
  connection's life.
\<close>

text \<open>C23: two new codecs, one serializing and one receiving over a transport that cuts the bytes
  anywhere. For any sequence of batches of calls (SETTINGS, heads, data, trailers, PING, WINDOW\_UPDATE,
  RST\_STREAM, GOAWAY), table sizes, frame sizes and list sizes, where each call keeps to the limits in
  force, nothing fails or panics and the receiver yields exactly the events of the calls, in their
  order: a head with its pseudo-headers, fields, END\_STREAM and declared length, whatever the number
  of CONTINUATION frames. The environment's HPACK is the code's, and the validations of the crate
  \<open>http\<close> accept what its types hold (\<open>sendable\<close>).\<close>

theorem codec_session_delivers:
  assumes "h2_codec_new (hpack_code hf) role = Inr a" and "h2_codec_new (hpack_code hf) role' = Inr b"
    and "env_lib env = code_lib lib" and "\<And>out. concat (chop out) = out"
    and "session_fits (sendable (code_lib lib)) env http DEFAULT_MAX_HEADER_LIST_SIZE DEFAULT_MAX_FRAME_SIZE steps"
  shows "codec_session (hpack_code hf) http env chop steps a b = Inr (session_events http steps)"
  by (rule compressor.new_codecs_talk [OF assms])

text \<open>A conversation, its bytes arriving one by one.\<close>

definition talk_env :: decoder_env where
  "talk_env = \<lparr>env_lib = code_lib plain_lib, env_map_full = (\<lambda>_ _. False)\<rparr>"

definition talk_http :: http_ops where
  "talk_http = \<lparr>http_method_from_bytes = Inr,
     http_uri_parse = (\<lambda>t. Inr \<lparr>u_scheme = None, u_authority = None, u_path_and_query = Some t\<rparr>),
     http_uri_build = (\<lambda>sc au t. Inr \<lparr>u_scheme = Some sc, u_authority = Some au, u_path_and_query = Some t\<rparr>),
     http_date_value = [84]\<rparr>"

definition talk_steps :: "codec_step list" where
  "talk_steps =
     [Talk [CallSettingsAck, CallRequest 3 ''GET'' ''/x'' (Some [(''x-a'', [65]), (''x-a'', [66])]) False (Some ''http'') (Some ''h'')],
      TableSizeTo 64, FrameSizeTo 20000, ListSizeTo 4096,
      Talk [CallData 3 [1, 2] False, CallTrailers 3 [(''x-t'', [67])], CallPing (replicate 8 0)],
      TableSizeTo 4096,
      Talk [CallResponse 2 200 None True False, CallGoAway 2 0 None]]"

lemma talk_frames:
  "call_frame talk_http (CallRequest 3 ''GET'' ''/x'' (Some [(''x-a'', [65]), (''x-a'', [66])]) False (Some ''http'') (Some ''h''))
   = Inr (Inl \<lparr>hf_stream_id = 3, hf_flags = 4,
       hf_pseudo = \<lparr>p_method = Some ''GET'', p_scheme = Some ''http'', p_authority = Some ''h'', p_path = Some ''/x'',
         p_protocol = None, p_status = None\<rparr>, hf_fields = [(''x-a'', [65]), (''x-a'', [66])]\<rparr>)"
  "call_frame talk_http (CallTrailers 3 [(''x-t'', [67])])
   = Inr (Inl \<lparr>hf_stream_id = 3, hf_flags = 5, hf_pseudo = pseudo_default, hf_fields = [(''x-t'', [67])]\<rparr>)"
  "call_frame talk_http (CallResponse 2 200 None True False)
   = Inr (Inl \<lparr>hf_stream_id = 2, hf_flags = 5, hf_pseudo = pseudo_response 200, hf_fields = []\<rparr>)"
  by (simp_all add: talk_http_def build_request_headers_def build_response_headers_def build_trailers_def
      headers_trailers_def headers_set_end_stream_def headers_new_def END_HEADERS_def pseudo_request_def
      status_from_u16_def Let_def)

lemma talk_limits:
  "calc_max_continuation_frames DEFAULT_MAX_HEADER_LIST_SIZE DEFAULT_MAX_FRAME_SIZE = 1280"
  "calc_max_continuation_frames 4096 20000 = 5"
  by (simp_all add: calc_max_continuation_frames_def DEFAULT_MAX_HEADER_LIST_SIZE_def DEFAULT_MAX_FRAME_SIZE_def
      usize_saturating_add_def usize_max_def)

lemma talk_status: "show_nat 200 = ''200''" by code_simp

lemma talk_fits:
  "session_fits (sendable (code_lib plain_lib)) talk_env talk_http DEFAULT_MAX_HEADER_LIST_SIZE DEFAULT_MAX_FRAME_SIZE talk_steps"
proof -
  have u: "utf8_valid (ascii ''/x'')" "utf8_valid (ascii ''http'')" "utf8_valid (ascii ''h'')" by (simp_all add: ascii_def)
  note fits = call_fits_def headers_fit_def talk_frames talk_limits Let_def header_iter_def pseudo_default_def
    pseudo_response_def accepts_def in_order_def roomy_def talk_env_def plain_lib_def code_lib_def talk_status
  have "call_fits (sendable (code_lib plain_lib)) talk_env talk_http DEFAULT_MAX_HEADER_LIST_SIZE DEFAULT_MAX_FRAME_SIZE
      (CallRequest 3 ''GET'' ''/x'' (Some [(''x-a'', [65]), (''x-a'', [66])]) False (Some ''http'') (Some ''h''))"
    using u by (simp add: fits del: call_frame.simps) (simp add: DEFAULT_MAX_HEADER_LIST_SIZE_def DEFAULT_MAX_FRAME_SIZE_def usize_max_def)
  moreover have "call_fits (sendable (code_lib plain_lib)) talk_env talk_http 4096 20000 (CallTrailers 3 [(''x-t'', [67])])"
    by (simp add: fits del: call_frame.simps) (simp add: usize_max_def)
  moreover have "call_fits (sendable (code_lib plain_lib)) talk_env talk_http 4096 20000 (CallResponse 2 200 None True False)"
    by (simp add: fits del: call_frame.simps) (simp add: usize_max_def)
  ultimately show ?thesis
    by (simp add: talk_steps_def call_fits_def [of _ _ _ _ _ CallSettingsAck] call_fits_def [of _ _ _ _ _ "CallData a b c" for a b c]
        call_fits_def [of _ _ _ _ _ "CallPing a" for a] call_fits_def [of _ _ _ _ _ "CallGoAway a b c" for a b c]
        DEFAULT_MAX_FRAME_SIZE_def MAX_MAX_FRAME_SIZE_def)
qed

theorem codec_session_delivers_witness:
  "\<exists>a b. h2_codec_new (hpack_code no_hash) ''client'' = Inr a \<and> h2_codec_new (hpack_code no_hash) ''server'' = Inr b
     \<and> codec_session (hpack_code no_hash) talk_http talk_env (map (\<lambda>x. [x])) talk_steps a b
       = Inr (session_events talk_http talk_steps)
     \<and> length (session_events talk_http talk_steps) = 7"
proof -
  obtain a b where ab: "h2_codec_new (hpack_code no_hash) ''client'' = Inr a"
    "h2_codec_new (hpack_code no_hash) ''server'' = Inr b" by (simp add: h2_codec_new_def)
  have chop: "concat (map (\<lambda>x. [x]) out) = out" for out :: bytes by (induction out) auto
  have env: "env_lib talk_env = code_lib plain_lib" by (simp add: talk_env_def)
  have "length (session_events talk_http talk_steps) = 7"
    by (simp add: session_events_def talk_steps_def call_events_def talk_frames del: call_frame.simps(3,4,5))
  then show ?thesis
    using codec_session_delivers [OF ab env chop talk_fits] ab by blast
qed

end
