(* ===== verification/Proxy_Text.thy ===== *)
theory Proxy_Text
  imports H1_Fields "HOL-Library.Sublist"
begin

section \<open>Text in UTF-8\<close>

text \<open>
  What client/proxy/matcher.rs uses of \<open>str\<close>. Environment variables may hold any text, and the matcher
  slices it by byte offsets, so a \<open>&str\<close> is its UTF-8 bytes here.
\<close>

subsection \<open>Characters\<close>

definition is_char_start :: "byte \<Rightarrow> bool" where
  "is_char_start b \<longleftrightarrow> b < 128 \<or> 192 \<le> b"

definition char_width :: "byte \<Rightarrow> nat" where
  "char_width b =
     (if b < 128 then 1 else if b < 192 then 0 else if b < 224 then 2 else if b < 240 then 3 else 4)"

text \<open>The shape of UTF-8: a leading byte and as many continuation bytes as it announces. Every
  \<open>str\<close> has it.\<close>

fun utf8 :: "bytes \<Rightarrow> bool" where
  "utf8 [] = True"
| "utf8 (b # bs) \<longleftrightarrow> 0 < char_width b \<and> char_width b - 1 \<le> length bs
     \<and> (\<forall>c \<in> set (take (char_width b - 1) bs). \<not> is_char_start c)
     \<and> utf8 (drop (char_width b - 1) bs)"

declare utf8.simps(2) [simp del]

lemma utf8_start: "utf8 (b # bs) \<Longrightarrow> is_char_start b"
  by (cases "b < 128"; cases "b < 192") (simp_all add: utf8.simps(2) char_width_def is_char_start_def)

lemma utf8_ascii: "\<forall>b \<in> set s. b < 128 \<Longrightarrow> utf8 s"
  by (induction s) (simp_all add: utf8.simps(2) char_width_def)

subsection \<open>Slicing and splitting\<close>

text \<open>\<open>s.get(i..)\<close>: nothing where a character is cut or beyond the end.\<close>

definition str_get_from :: "nat \<Rightarrow> bytes \<Rightarrow> bytes option" where
  "str_get_from i s =
     (if i = 0 \<or> i = length s \<or> i < length s \<and> is_char_start (s ! i) then Some (drop i s) else None)"

definition str_strip_prefix :: "byte \<Rightarrow> bytes \<Rightarrow> bytes option" where
  "str_strip_prefix c s = (case s of [] \<Rightarrow> None | b # bs \<Rightarrow> if b = c then Some bs else None)"

definition str_strip_suffix :: "byte \<Rightarrow> bytes \<Rightarrow> bytes option" where
  "str_strip_suffix c s = (if s \<noteq> [] \<and> last s = c then Some (butlast s) else None)"

fun str_split_once :: "byte \<Rightarrow> bytes \<Rightarrow> (bytes \<times> bytes) option" where
  "str_split_once c [] = None"
| "str_split_once c (b # bs) =
     (if b = c then Some ([], bs) else map_option (\<lambda>(p, q). (b # p, q)) (str_split_once c bs))"

lemma str_split_once_None: "c \<notin> set s \<Longrightarrow> str_split_once c s = None"
  by (induction s) auto

lemma str_split_once_append: "c \<notin> set s \<Longrightarrow> str_split_once c (s @ c # t) = Some (s, t)"
  by (induction s) auto

definition byte_lower :: "byte \<Rightarrow> byte" where
  "byte_lower b = (if 65 \<le> b \<and> b \<le> 90 then b + 32 else b)"

definition str_eq_ignore_case :: "bytes \<Rightarrow> bytes \<Rightarrow> bool" where
  "str_eq_ignore_case a b \<longleftrightarrow> map byte_lower a = map byte_lower b"

lemma unat_byte_lower: "unat (byte_lower b) = (if 65 \<le> unat b \<and> unat b \<le> 90 then unat b + 32 else unat b)"
  by (simp add: byte_lower_def word_le_nat_alt unat_word_ariths)

lemma byte_lower_start: "byte_lower a = byte_lower b \<Longrightarrow> is_char_start a = is_char_start b"
  using unat_byte_lower [of a] unat_byte_lower [of b]
  by (auto simp: is_char_start_def word_le_nat_alt word_less_nat_alt split: if_splits)

lemma byte_lower_dot [simp]: "byte_lower b = 46 \<longleftrightarrow> b = 46"
  using unat_byte_lower [of b] by (auto simp: word_unat_eq_iff split: if_splits)

subsection \<open>White space\<close>

text \<open>The characters of Unicode's property White_Space, in UTF-8.\<close>

definition white_space :: "bytes list" where
  "white_space = [[9], [10], [11], [12], [13], [32], [194, 133], [194, 160], [225, 154, 128],
     [226, 128, 128], [226, 128, 129], [226, 128, 130], [226, 128, 131], [226, 128, 132],
     [226, 128, 133], [226, 128, 134], [226, 128, 135], [226, 128, 136], [226, 128, 137],
     [226, 128, 138], [226, 128, 168], [226, 128, 169], [226, 128, 175], [226, 129, 159],
     [227, 128, 128]]"

lemma white_space_width: "w \<in> set white_space \<Longrightarrow> w \<noteq> [] \<and> length w = char_width (hd w)"
  by (auto simp: white_space_def char_width_def)

lemma find_white_space: "find p white_space = Some w \<Longrightarrow> p w \<and> w \<in> set white_space"
  by (metis find_Some_iff nth_mem)

lemma find_white_space_nonempty: "find p white_space = Some w \<Longrightarrow> p w \<and> w \<noteq> []"
  using find_white_space white_space_width by blast

function str_trim_start :: "bytes \<Rightarrow> bytes" where
  "str_trim_start s =
     (case find (\<lambda>w. prefix w s) white_space of
        Some w \<Rightarrow> str_trim_start (drop (length w) s)
      | None \<Rightarrow> s)"
  by pat_completeness auto
termination
  by (relation "measure length") (auto dest!: find_white_space_nonempty simp: prefix_def)

function str_trim_end :: "bytes \<Rightarrow> bytes" where
  "str_trim_end s =
     (case find (\<lambda>w. suffix w s) white_space of
        Some w \<Rightarrow> str_trim_end (take (length s - length w) s)
      | None \<Rightarrow> s)"
  by pat_completeness auto
termination
  by (relation "measure length") (auto dest!: find_white_space_nonempty simp: suffix_def)

declare str_trim_start.simps [simp del] str_trim_end.simps [simp del]

definition str_trim :: "bytes \<Rightarrow> bytes" where "str_trim s = str_trim_end (str_trim_start s)"


lemma find_None_white: "find p white_space = None \<longleftrightarrow> (\<forall>w \<in> set white_space. \<not> p w)"
  by (auto simp: find_None_iff)

lemma str_trim_start_end: "find (\<lambda>w. prefix w (str_trim_start s)) white_space = None"
proof (induction s rule: str_trim_start.induct)
  case (1 s)
  show ?case
  proof (cases "find (\<lambda>w. prefix w s) white_space")
    case None then show ?thesis by (simp add: str_trim_start.simps [of s])
  next
    case (Some w) then show ?thesis using 1 by (simp add: str_trim_start.simps [of s])
  qed
qed

lemma str_trim_end_end: "find (\<lambda>w. suffix w (str_trim_end s)) white_space = None"
proof (induction s rule: str_trim_end.induct)
  case (1 s)
  show ?case
  proof (cases "find (\<lambda>w. suffix w s) white_space")
    case None then show ?thesis by (simp add: str_trim_end.simps [of s])
  next
    case (Some w) then show ?thesis using 1 by (simp add: str_trim_end.simps [of s])
  qed
qed

lemma str_trim_end_prefix: "prefix (str_trim_end s) s"
proof (induction s rule: str_trim_end.induct)
  case (1 s)
  show ?case
  proof (cases "find (\<lambda>w. suffix w s) white_space")
    case None then show ?thesis by (simp add: str_trim_end.simps [of s])
  next
    case (Some w)
    then have "prefix (str_trim_end (take (length s - length w) s)) (take (length s - length w) s)"
      by (rule 1)
    then show ?thesis
      using Some take_is_prefix prefix_order.trans by (simp add: str_trim_end.simps [of s]) blast
  qed
qed

lemma str_trim_idem: "str_trim (str_trim s) = str_trim s"
proof -
  have "find (\<lambda>w. prefix w (str_trim s)) white_space = None"
    using str_trim_start_end [of s] str_trim_end_prefix [of "str_trim_start s"] prefix_order.trans
    unfolding str_trim_def find_None_white by blast
  then have "str_trim_start (str_trim s) = str_trim s" by (simp add: str_trim_start.simps [of "str_trim s"])
  moreover have "str_trim_end (str_trim s) = str_trim s"
    using str_trim_end_end [of "str_trim_start s"]
    by (simp add: str_trim_def str_trim_end.simps [of "str_trim_end _"])
  ultimately show ?thesis by (simp add: str_trim_def [of "str_trim s"])
qed

text \<open>Trimming and splitting do not cut characters.\<close>

lemma utf8_trim_start: "utf8 s \<Longrightarrow> utf8 (str_trim_start s)"
proof (induction s rule: str_trim_start.induct)
  case (1 s)
  show ?case
  proof (cases "find (\<lambda>w. prefix w s) white_space")
    case None then show ?thesis using 1 by (simp add: str_trim_start.simps [of s])
  next
    case (Some w)
    then obtain b v where "prefix w s" "w = b # v" "length w = char_width b"
      using find_white_space white_space_width by (metis list.exhaust list.sel(1))
    then obtain t where t: "s = b # v @ t" "length v = char_width b - 1" by (auto simp: prefix_def)
    moreover have "drop (length w) s = t" using t(1) \<open>w = b # v\<close> by simp
    ultimately have "utf8 (drop (length w) s)" using 1(2) by (simp add: utf8.simps(2))
    then show ?thesis using 1(1) Some by (simp add: str_trim_start.simps [of s])
  qed
qed

lemma utf8_split_char:
  assumes "utf8 (b # bs)"
  obtains v t where "bs = v @ t" "\<forall>c \<in> set v. \<not> is_char_start c" "utf8 t"
    "\<And>p. utf8 p \<Longrightarrow> utf8 (b # v @ p)"
proof
  let ?n = "char_width b - 1"
  show "bs = take ?n bs @ drop ?n bs" by simp
  show "\<forall>c \<in> set (take ?n bs). \<not> is_char_start c" "utf8 (drop ?n bs)"
    "\<And>p. utf8 p \<Longrightarrow> utf8 (b # take ?n bs @ p)"
    using assms by (auto simp: utf8.simps(2) min_def)
qed

lemma split_on_append:
  "c \<notin> set v \<Longrightarrow> split_on c (v @ t) = (v @ hd (split_on c t)) # tl (split_on c t)"
proof (induction v)
  case Nil
  have "split_on c t \<noteq> []" by (induction t) (auto split: list.splits)
  then show ?case by simp
qed auto

lemma utf8_split: "utf8 s \<Longrightarrow> \<forall>p \<in> set (split_on 44 s). utf8 p"
proof (induction "length s" arbitrary: s rule: less_induct)
  case less
  show ?case
  proof (cases s)
    case (Cons b bs)
    obtain v t where v: "bs = v @ t" "\<forall>c \<in> set v. \<not> is_char_start c" "utf8 t"
      "\<And>p. utf8 p \<Longrightarrow> utf8 (b # v @ p)"
      using utf8_split_char less.prems Cons by metis
    have "44 \<notin> set v" using v(2) by (auto simp: is_char_start_def)
    have IH: "\<forall>p \<in> set (split_on 44 t). utf8 p" by (rule less.hyps) (simp_all add: Cons v)
    have ne: "split_on 44 t \<noteq> []" by (induction t) (auto split: list.splits)
    have hd: "utf8 (hd (split_on 44 t))" "\<forall>p \<in> set (tl (split_on 44 t)). utf8 p"
      using IH ne by (cases "split_on 44 t"; simp)+
    show ?thesis
    proof (cases "b = 44")
      case True
      then have "utf8 bs" using less.prems by (simp add: Cons utf8.simps(2) char_width_def)
      then have "\<forall>p \<in> set (split_on 44 bs). utf8 p" by (intro less.hyps) (simp_all add: Cons)
      then show ?thesis using True by (simp add: Cons)
    next
      case False
      then have "split_on 44 s = (b # v @ hd (split_on 44 t)) # tl (split_on 44 t)"
        using split_on_append [of 44 "b # v" t] \<open>44 \<notin> set v\<close> by (simp add: Cons v(1))
      then show ?thesis using v(4) hd by simp
    qed
  qed simp
qed

lemma trimmed_part_start:
  assumes "utf8 s" and "p \<in> set (map str_trim (split_on 44 s))" and "p \<noteq> []"
  shows "is_char_start (hd p)"
proof -
  obtain q where q: "q \<in> set (split_on 44 s)" "p = str_trim q" using assms(2) by auto
  have "utf8 (str_trim_start q)" using q(1) assms(1) utf8_split utf8_trim_start by blast
  moreover have "prefix p (str_trim_start q)" by (simp add: q(2) str_trim_def str_trim_end_prefix)
  ultimately show ?thesis using assms(3) by (cases p) (auto simp: prefix_def dest: utf8_start)
qed

end
