(* ===== verification/Proxy_Addr.thy ===== *)
theory Proxy_Addr
  imports Proxy_Text
begin

section \<open>Addresses in text\<close>

text \<open>
  \<open>str::parse::<IpAddr>\<close> of the standard library, which client/proxy/matcher.rs calls on the entries of
  \<open>NO_PROXY\<close> and on the host of a request. A reader returns what it read and the rest of the text, or
  \<open>None\<close> and then nothing is consumed.
\<close>

datatype ip_addr = V4 "nat list" | V6 "nat list"

type_synonym 'a reader = "bytes \<Rightarrow> ('a \<times> bytes) option"

subsection \<open>Numbers\<close>

definition byte_digit :: "nat \<Rightarrow> byte \<Rightarrow> nat option" where
  "byte_digit radix b =
     (let n = unat b;
          d = if 48 \<le> n \<and> n \<le> 57 then n - 48
              else if 97 \<le> n \<and> n \<le> 122 then n - 87
              else if 65 \<le> n \<and> n \<le> 90 then n - 55
              else 36
      in if d < radix then Some d else None)"

fun read_digits :: "nat \<Rightarrow> nat \<Rightarrow> nat \<Rightarrow> nat \<Rightarrow> (nat \<times> nat) reader" where
  "read_digits radix max_digits result count [] = Some ((result, count), [])"
| "read_digits radix max_digits result count (b # bs) =
     (case byte_digit radix b of
        None \<Rightarrow> Some ((result, count), b # bs)
      | Some d \<Rightarrow>
          (if max_digits < count + 1 then None
           else read_digits radix max_digits (result * radix + d) (count + 1) bs))"

text \<open>\<open>values\<close> is the number of values of the integer type.\<close>

definition read_number :: "nat \<Rightarrow> nat \<Rightarrow> bool \<Rightarrow> nat \<Rightarrow> nat reader" where
  "read_number radix max_digits allow_zero_prefix values s =
     Option.bind (read_digits radix max_digits 0 0 s) (\<lambda>((result, count), s').
       if count = 0 then None
       else if \<not> allow_zero_prefix \<and> s \<noteq> [] \<and> hd s = 48 \<and> 1 < count then None
       else if result < values then Some (result, s') else None)"

definition read_separator :: "byte \<Rightarrow> nat \<Rightarrow> 'a reader \<Rightarrow> 'a reader" where
  "read_separator sep i inner s =
     (if 0 < i then (case s of [] \<Rightarrow> None | b # bs \<Rightarrow> if b = sep then inner bs else None) else inner s)"

subsection \<open>The two kinds of address\<close>

fun read_octets :: "nat \<Rightarrow> nat \<Rightarrow> nat list reader" where
  "read_octets i 0 s = Some ([], s)"
| "read_octets i (Suc n) s =
     Option.bind (read_separator 46 i (read_number 10 3 False 256) s) (\<lambda>(g, s1).
     Option.bind (read_octets (i + 1) n s1) (\<lambda>(gs, s2). Some (g # gs, s2)))"

definition read_ipv4_addr :: "nat list reader" where
  "read_ipv4_addr s = read_octets 0 4 s"

text \<open>\<open>read_groups\<close> on an array of \<open>limit\<close> groups from the \<open>i\<close>-th on: the groups, whether the last two
  came from an IPv4 address, the rest.\<close>

function read_groups :: "nat \<Rightarrow> nat \<Rightarrow> bytes \<Rightarrow> nat list \<times> bool \<times> bytes" where
  "read_groups limit i s =
     (if i < limit then
        (case (if i < limit - 1 then read_separator 58 i read_ipv4_addr s else None) of
           Some (os, s') \<Rightarrow> ([os ! 0 * 256 + os ! 1, os ! 2 * 256 + os ! 3], True, s')
         | None \<Rightarrow>
             (case read_separator 58 i (read_number 16 4 True 65536) s of
                Some (g, s') \<Rightarrow>
                  (let r = read_groups limit (i + 1) s' in (g # fst r, fst (snd r), snd (snd r)))
              | None \<Rightarrow> ([], False, s)))
      else ([], False, s))"
  by pat_completeness auto
termination by (relation "measure (\<lambda>(limit, i, s). limit - i)") auto

declare read_groups.simps [simp del]

definition read_ipv6_addr :: "nat list reader" where
  "read_ipv6_addr s =
     (let (head, head_ipv4, s1) = read_groups 8 0 s
      in if length head = 8 then Some (head, s1)
         else if head_ipv4 then None
         else
           (case s1 of
              c1 # c2 # s2 \<Rightarrow>
                (if c1 = 58 \<and> c2 = 58 then
                   (let (tail, _, s3) = read_groups (8 - (length head + 1)) 0 s2
                    in Some (head @ replicate (8 - length head - length tail) 0 @ tail, s3))
                 else None)
            | _ \<Rightarrow> None))"

definition ip_addr_parse :: "bytes \<Rightarrow> ip_addr option" where
  "ip_addr_parse s =
     Option.bind
       (case read_ipv4_addr s of
          Some (os, s') \<Rightarrow> Some (V4 os, s')
        | None \<Rightarrow> map_option (\<lambda>(gs, s'). (V6 gs, s')) (read_ipv6_addr s))
       (\<lambda>(a, rest). if rest = [] then Some a else None)"

subsection \<open>Examples\<close>

text \<open>The readers, one step at a time.\<close>

declare read_octets.simps [simp del]

lemma read_octets_0 [simp]: "read_octets i 0 s = Some ([], s)"
  by (simp add: read_octets.simps)

lemma read_octets_step:
  assumes "read_separator 46 i (read_number 10 3 False 256) s = Some (g, s1)" and "0 < n"
  shows "read_octets i n s = map_option (\<lambda>(gs, s2). (g # gs, s2)) (read_octets (i + 1) (n - 1) s1)"
  using assms by (cases n) (auto simp: read_octets.simps split: bind_splits)

lemma read_octets_stop:
  "read_separator 46 i (read_number 10 3 False 256) s = None \<Longrightarrow> 0 < n \<Longrightarrow> read_octets i n s = None"
  by (cases n) (simp_all add: read_octets.simps)

lemma read_groups_ipv4:
  assumes "i < limit - 1" and "read_separator 58 i read_ipv4_addr s = Some (os, s')"
  shows "read_groups limit i s = ([os ! 0 * 256 + os ! 1, os ! 2 * 256 + os ! 3], True, s')"
  using assms by (simp add: read_groups.simps)

lemma read_groups_group:
  assumes "i < limit" and "i < limit - 1 \<longrightarrow> read_separator 58 i read_ipv4_addr s = None"
    and "read_separator 58 i (read_number 16 4 True 65536) s = Some (g, s')"
  shows "read_groups limit i s =
    (case read_groups limit (i + 1) s' of (gs, v4, s2) \<Rightarrow> (g # gs, v4, s2))"
  using assms by (subst read_groups.simps) (simp add: Let_def split: prod.split)

lemma read_groups_stop:
  assumes "i < limit - 1 \<longrightarrow> read_separator 58 i read_ipv4_addr s = None"
    and "read_separator 58 i (read_number 16 4 True 65536) s = None"
  shows "read_groups limit i s = ([], False, s)"
  using assms by (subst read_groups.simps) simp

lemma read_groups_end: "limit \<le> i \<Longrightarrow> read_groups limit i s = ([], False, s)"
  by (subst read_groups.simps) simp

lemmas ip_addr_steps = ip_addr_parse_def read_ipv4_addr_def read_ipv6_addr_def read_separator_def
  read_number_def byte_digit_def read_octets_step read_octets_stop
  read_groups_ipv4 read_groups_group read_groups_stop read_groups_end

lemma ip_addr_examples:
  "ip_addr_parse (ascii ''192.168.0.1'') = Some (V4 [192, 168, 0, 1])"
  "ip_addr_parse (ascii ''192.168.0.256'') = None"
  "ip_addr_parse (ascii ''192.168.00.1'') = None"
  "ip_addr_parse (ascii ''192.168.0.1.'') = None"
  "ip_addr_parse (ascii ''::1'') = Some (V6 [0, 0, 0, 0, 0, 0, 0, 1])"
  "ip_addr_parse (ascii ''2001:db8::8:800:200C:417A'') = Some (V6 [0x2001, 0xDB8, 0, 0, 8, 0x800, 0x200C, 0x417A])"
  "ip_addr_parse (ascii ''::ffff:1.2.3.4'') = Some (V6 [0, 0, 0, 0, 0, 0xFFFF, 0x102, 0x304])"
  "ip_addr_parse (ascii ''1:2:3:4:5:6:7:8'') = Some (V6 [1, 2, 3, 4, 5, 6, 7, 8])"
  "ip_addr_parse (ascii ''1:2:3:4:5:6:7::'') = Some (V6 [1, 2, 3, 4, 5, 6, 7, 0])"
  "ip_addr_parse (ascii ''1.2.3.4::'') = None"
  "ip_addr_parse (ascii ''www.example.com'') = None"
  by (simp_all add: ip_addr_steps ascii_def) (simp_all add: numeral_eq_Suc)

subsection \<open>What is read is an address\<close>

fun ip_addr_ok :: "ip_addr \<Rightarrow> bool" where
  "ip_addr_ok (V4 os) \<longleftrightarrow> length os = 4 \<and> (\<forall>n \<in> set os. n < 256)"
| "ip_addr_ok (V6 gs) \<longleftrightarrow> length gs = 8 \<and> (\<forall>n \<in> set gs. n < 65536)"

lemma read_separator_SomeD: "read_separator sep i inner s = Some r \<Longrightarrow> \<exists>s'. inner s' = Some r"
  by (auto simp: read_separator_def split: if_splits list.splits)

lemma read_number_bound: "read_number radix m z values s = Some (n, s') \<Longrightarrow> n < values"
  by (auto simp: read_number_def split: bind_splits if_splits)

lemma read_octets_ok:
  "read_octets i n s = Some (os, s') \<Longrightarrow> length os = n \<and> (\<forall>k \<in> set os. k < 256)"
  by (induction i n s arbitrary: os s' rule: read_octets.induct)
    (fastforce simp: read_octets.simps split: bind_splits dest!: read_separator_SomeD read_number_bound)+

lemma read_groups_ok:
  "read_groups limit i s = (gs, v4, s') \<Longrightarrow> length gs \<le> limit - i \<and> (\<forall>k \<in> set gs. k < 65536)"
proof (induction limit i s arbitrary: gs v4 s' rule: read_groups.induct)
  case (1 limit i s)
  let ?v4 = "if i < limit - 1 then read_separator 58 i read_ipv4_addr s else None"
  let ?g = "read_separator 58 i (read_number 16 4 True 65536) s"
  show ?case
  proof (cases "i < limit")
    case False then show ?thesis using "1.prems" by (simp add: read_groups_end)
  next
    case True
    consider (v4) os t where "?v4 = Some (os, t)" | (group) g t where "?v4 = None" "?g = Some (g, t)"
      | (stop) "?v4 = None" "?g = None" by (cases ?v4; cases ?g; auto)
    then show ?thesis
    proof cases
      case v4
      then obtain s2 where i: "i < limit - 1" and "read_octets 0 4 s2 = Some (os, t)"
        by (auto simp: read_ipv4_addr_def split: if_splits dest: read_separator_SomeD)
      from read_octets_ok [OF this(2)] have os: "length os = 4" "\<forall>k \<in> set os. k < 256" by auto
      have "os ! 0 < 256" "os ! 1 < 256" "os ! 2 < 256" "os ! 3 < 256" using os by simp_all
      then show ?thesis using "1.prems" v4 i read_groups_ipv4 [OF i] by auto
    next
      case group
      then have "g < 65536" by (auto dest!: read_separator_SomeD read_number_bound)
      moreover obtain gs2 v42 s2 where r: "read_groups limit (i + 1) t = (gs2, v42, s2)" by (metis prod_cases3)
      moreover have "gs = g # gs2"
        using "1.prems" read_groups_group [of i limit s g t] True group r by (auto split: if_splits)
      moreover have "length gs2 \<le> limit - (i + 1) \<and> (\<forall>k \<in> set gs2. k < 65536)"
        by (rule "1.IH" [OF True group refl r])
      ultimately show ?thesis using True by auto
    next
      case stop
      then show ?thesis using "1.prems" read_groups_stop [of i limit s] by (auto split: if_splits)
    qed
  qed
qed

lemma read_ipv6_addr_ok: "read_ipv6_addr s = Some (gs, s') \<Longrightarrow> ip_addr_ok (V6 gs)"
  using read_groups_ok [of 8 0 s]
  by (fastforce simp: read_ipv6_addr_def split: if_splits prod.splits list.splits dest: read_groups_ok)

lemma ip_addr_parse_ok: "ip_addr_parse s = Some a \<Longrightarrow> ip_addr_ok a"
  using read_octets_ok [of 0 4 s] read_ipv6_addr_ok [of s]
  by (auto simp: ip_addr_parse_def read_ipv4_addr_def split: bind_splits option.splits if_splits)

subsection \<open>Dotted addresses are read back\<close>

definition show_ipv4 :: "nat \<Rightarrow> nat \<Rightarrow> nat \<Rightarrow> nat \<Rightarrow> bytes" where
  "show_ipv4 a b c d = ascii (show_nat a) @ 46 # ascii (show_nat b) @ 46 # ascii (show_nat c)
     @ 46 # ascii (show_nat d)"

lemma byte_digit_10 [simp]: "d < 10 \<Longrightarrow> byte_digit 10 (word_of_nat (48 + d)) = Some d"
  by (simp add: byte_digit_def Let_def del: of_nat_add)

lemma ascii_digit: "d < 10 \<Longrightarrow> ascii [char_of (48 + d :: nat)] = [word_of_nat (48 + d)]"
  by (simp add: ascii_def of_char_of)

lemma read_digits_show:
  "count + length (show_nat n) \<le> m \<Longrightarrow> read_digits 10 m r count (ascii (show_nat n) @ t) =
    read_digits 10 m (r * 10 ^ length (show_nat n) + n) (count + length (show_nat n)) t"
proof (induction n arbitrary: t rule: show_nat.induct)
  case (1 n)
  show ?case
  proof (cases "n < 10")
    case True
    then show ?thesis using 1(2) by (simp add: show_nat.simps [of n] ascii_digit del: of_nat_add)
  next
    case False
    have d: "n mod 10 < 10" by simp
    have s: "show_nat n = show_nat (n div 10) @ [char_of (48 + n mod 10)]"
      using False by (simp add: show_nat.simps [of n])
    have "(r * 10 ^ length (show_nat (n div 10)) + n div 10) * 10 + n mod 10
      = r * 10 ^ length (show_nat n) + n" by (simp add: s)
    moreover have "ascii (show_nat n) @ t = ascii (show_nat (n div 10)) @ word_of_nat (48 + n mod 10) # t"
      using ascii_digit [OF d] by (simp add: s ascii_def)
    ultimately show ?thesis
      using 1(1) [OF False, of "word_of_nat (48 + n mod 10) # t"] 1(2) byte_digit_10 [OF d]
      by (simp add: s ac_simps del: of_nat_add)
  qed
qed

lemma hd_show_nat: "0 < n \<Longrightarrow> hd (ascii (show_nat n)) \<noteq> 48"
proof (induction n rule: show_nat.induct)
  case (1 n)
  show ?case
  proof (cases "n < 10")
    case True
    then have "hd (ascii (show_nat n)) = word_of_nat (48 + n)"
      by (simp add: show_nat.simps [of n] ascii_digit del: of_nat_add)
    moreover have "unat (word_of_nat (48 + n) :: byte) \<noteq> unat (48 :: byte)"
      using True 1(2) by (simp del: of_nat_add)
    ultimately show ?thesis by metis
  next
    case False
    then have "show_nat n = show_nat (n div 10) @ [char_of (48 + n mod 10)]"
      by (simp add: show_nat.simps [of n])
    moreover have "hd (ascii (show_nat (n div 10))) \<noteq> 48" using 1(1) [OF False] False by simp
    ultimately show ?thesis using show_nat_nonempty [of "n div 10"] by (simp add: ascii_def hd_append)
  qed
qed

lemma read_number_show:
  assumes "n < 256" and "t = [] \<or> byte_digit 10 (hd t) = None"
  shows "read_number 10 3 False 256 (ascii (show_nat n) @ t) = Some (n, t)"
proof -
  have len: "length (show_nat n) \<le> 3" using assms(1) by (intro length_show_nat) simp_all
  have "read_digits 10 3 n (length (show_nat n)) t = Some ((n, length (show_nat n)), t)"
    using assms(2) by (cases t) auto
  then have "read_digits 10 3 0 0 (ascii (show_nat n) @ t) = Some ((n, length (show_nat n)), t)"
    using read_digits_show [of 0 n 3 0 t] len by simp
  moreover have "hd (ascii (show_nat n) @ t) = 48 \<longrightarrow> length (show_nat n) = 1"
    using hd_show_nat [of n] show_nat_nonempty [of n]
    by (cases "n = 0") (simp_all add: show_nat.simps [of 0] ascii_def hd_append)
  ultimately show ?thesis using show_nat_nonempty [of n] assms(1) by (auto simp: read_number_def)
qed

lemma ip_addr_parse_show:
  assumes "a < 256" "b < 256" "c < 256" "d < 256"
  shows "ip_addr_parse (show_ipv4 a b c d) = Some (V4 [a, b, c, d])"
proof -
  have "byte_digit 10 46 = None" by (simp add: byte_digit_def)
  then show ?thesis
    using assms read_number_show [of d "[]"]
    by (simp add: ip_addr_parse_def show_ipv4_def read_ipv4_addr_def read_octets_step read_separator_def
        read_number_show)
qed

end
