(* ===== verification/Proxy_Matcher.thy ===== *)
theory Proxy_Matcher
  imports Proxy_Addr
begin

section \<open>The proxy matcher\<close>

text \<open>
  client/proxy/matcher.rs of the crate hyper-util and its Python class in src/proxy.rs: which proxy a
  request goes through, from the environment or from given strings. The crates http (\<open>Uri\<close>,
  \<open>HeaderValue\<close>), ipnet (\<open>IpNet\<close>), percent-encoding and base64 are the argument \<open>lib\<close>. In results
  that are options of options the outer \<open>None\<close> is a panic.
\<close>

subsection \<open>Libraries\<close>

record ('u, 's, 'n) proxy_lib =
  uri_parse :: "bytes \<Rightarrow> 'u option"
  uri_scheme :: "'u \<Rightarrow> 's option"
  scheme_http :: 's
  scheme_https :: 's
  scheme_str :: "'s \<Rightarrow> bytes"
  uri_authority :: "'u \<Rightarrow> bytes option"
  uri_host :: "'u \<Rightarrow> bytes option"
  uri_build :: "'s \<Rightarrow> bytes \<Rightarrow> bytes \<Rightarrow> 'u option"
  uri_string :: "'u \<Rightarrow> bytes"
  percent_decode :: "bytes \<Rightarrow> bytes"
  base64 :: "bytes \<Rightarrow> bytes"
  value_from_bytes :: "bytes \<Rightarrow> header_value option"
  value_to_str :: "header_value \<Rightarrow> bytes option"
  net_parse :: "bytes \<Rightarrow> 'n option"
  net_contains :: "'n \<Rightarrow> ip_addr \<Rightarrow> bool"

subsection \<open>Data\<close>

text \<open>A header value comes with its sensitive flag.\<close>

datatype proxy_auth = AuthEmpty | AuthBasic "header_value \<times> bool" | AuthRaw bytes bytes

record 'u proxy_intercept =
  ic_uri :: 'u
  ic_auth :: proxy_auth

datatype 'n ip_rule = IpAddress ip_addr | IpNetwork 'n

record 'n no_proxy =
  np_ips :: "'n ip_rule list"
  np_domains :: "bytes list"

record ('u, 'n) proxy_matcher =
  pm_http :: "'u proxy_intercept option"
  pm_https :: "'u proxy_intercept option"
  pm_no :: "'n no_proxy"

record proxy_builder =
  pb_is_cgi :: bool
  pb_all :: bytes
  pb_http :: bytes
  pb_https :: bytes
  pb_no :: bytes

subsection \<open>NO_PROXY\<close>

definition no_proxy_empty :: "'n no_proxy" where
  "no_proxy_empty = \<lparr>np_ips = [], np_domains = []\<rparr>"

fun no_proxy_parts ::
  "('u, 's, 'n) proxy_lib \<Rightarrow> bytes list \<Rightarrow> 'n ip_rule list \<Rightarrow> bytes list \<Rightarrow> 'n no_proxy" where
  "no_proxy_parts lib [] ips domains = \<lparr>np_ips = ips, np_domains = domains\<rparr>"
| "no_proxy_parts lib (part # parts) ips domains =
     (case net_parse lib part of
        Some net \<Rightarrow> no_proxy_parts lib parts (ips @ [IpNetwork net]) domains
      | None \<Rightarrow>
          (case ip_addr_parse part of
             Some addr \<Rightarrow> no_proxy_parts lib parts (ips @ [IpAddress addr]) domains
           | None \<Rightarrow>
               (if str_trim part \<noteq> [] then no_proxy_parts lib parts ips (domains @ [part])
                else no_proxy_parts lib parts ips domains)))"

definition no_proxy_from_string :: "('u, 's, 'n) proxy_lib \<Rightarrow> bytes \<Rightarrow> 'n no_proxy" where
  "no_proxy_from_string lib no_proxy_list =
     no_proxy_parts lib (map str_trim (split_on 44 no_proxy_list)) [] []"

definition strip_ipv6_brackets :: "bytes \<Rightarrow> bytes" where
  "strip_ipv6_brackets host =
     (case Option.bind (str_strip_prefix 91 host) (str_strip_suffix 93) of Some h \<Rightarrow> h | None \<Rightarrow> host)"

fun ip_matcher_contains :: "('u, 's, 'n) proxy_lib \<Rightarrow> 'n ip_rule list \<Rightarrow> ip_addr \<Rightarrow> bool" where
  "ip_matcher_contains lib [] addr = False"
| "ip_matcher_contains lib (IpAddress a # ips) addr =
     (if addr = a then True else ip_matcher_contains lib ips addr)"
| "ip_matcher_contains lib (IpNetwork net # ips) addr =
     (if net_contains lib net addr then True else ip_matcher_contains lib ips addr)"

text \<open>\<open>domain_len - d.len() - 1\<close> panics on underflow.\<close>

fun domain_matcher_contains :: "bytes list \<Rightarrow> bytes \<Rightarrow> bool option" where
  "domain_matcher_contains [] domain = Some False"
| "domain_matcher_contains (d # ds) domain =
     (if str_eq_ignore_case d domain
         \<or> (case str_strip_prefix 46 d of Some s \<Rightarrow> str_eq_ignore_case s domain | None \<Rightarrow> False)
      then Some True
      else if case str_get_from (length domain - length d) domain of
                Some s \<Rightarrow> str_eq_ignore_case s d | None \<Rightarrow> False
      then
        (if d \<noteq> [] \<and> hd d = 46 then Some True
         else if length domain < length d + 1 then None
         else if domain ! (length domain - length d - 1) = 46 then Some True
         else domain_matcher_contains ds domain)
      else if d = ascii ''*'' then Some True
      else domain_matcher_contains ds domain)"

definition no_proxy_contains :: "('u, 's, 'n) proxy_lib \<Rightarrow> 'n no_proxy \<Rightarrow> bytes \<Rightarrow> bool option" where
  "no_proxy_contains lib no host0 =
     (let host = strip_ipv6_brackets host0
      in case ip_addr_parse host of
           Some ip \<Rightarrow> Some (ip_matcher_contains lib (np_ips no) ip)
         | None \<Rightarrow> domain_matcher_contains (np_domains no) host)"

subsection \<open>A proxy's URL\<close>

definition encode_basic_auth ::
  "('u, 's, 'n) proxy_lib \<Rightarrow> bytes \<Rightarrow> bytes option \<Rightarrow> (header_value \<times> bool) option" where
  "encode_basic_auth lib user pass =
     (let buf = ascii ''Basic '' @ base64 lib (user @ [58] @ (case pass of Some p \<Rightarrow> p | None \<Rightarrow> []))
      in map_option (\<lambda>header. (header, True)) (value_from_bytes lib buf))"

text \<open>The scheme and \<open>is_httpish\<close>.\<close>

definition proxy_scheme :: "('u, 's, 'n) proxy_lib \<Rightarrow> 'u \<Rightarrow> ('s \<times> bool) option" where
  "proxy_scheme lib uri =
     (case uri_scheme lib uri of
        Some s \<Rightarrow>
          (if s = scheme_http lib \<or> s = scheme_https lib then Some (s, True)
           else if scheme_str lib s \<in> {ascii ''socks4'', ascii ''socks4a'', ascii ''socks5'', ascii ''socks5h''}
           then Some (s, False)
           else None)
      | None \<Rightarrow> Some (scheme_http lib, True))"

definition split_userinfo :: "bytes \<Rightarrow> bytes \<times> bytes option" where
  "split_userinfo userinfo =
     (case str_split_once 58 userinfo of
        Some (user, pass) \<Rightarrow> (user, Some pass)
      | None \<Rightarrow> (userinfo, None))"

definition parse_env_uri ::
  "('u, 's, 'n) proxy_lib \<Rightarrow> bytes \<Rightarrow> 'u proxy_intercept option option" where
  "parse_env_uri lib val =
     (case uri_parse lib val of
        None \<Rightarrow> Some None
      | Some uri \<Rightarrow>
     (case proxy_scheme lib uri of
        None \<Rightarrow> Some None
      | Some (scheme, is_httpish) \<Rightarrow>
     (case uri_authority lib uri of
        None \<Rightarrow> Some None
      | Some authority \<Rightarrow>
          (let finish = (\<lambda>authority auth.
                 map_option (\<lambda>dst. \<lparr>ic_uri = dst, ic_auth = auth\<rparr>)
                   (uri_build lib scheme authority (ascii ''/'')))
           in case str_split_once 64 authority of
                Some (userinfo, host_port) \<Rightarrow>
                  (let (user0, pass0) = split_userinfo userinfo;
                       user = percent_decode lib user0;
                       pass = map_option (percent_decode lib) pass0
                   in Option.bind
                        (if is_httpish then map_option AuthBasic (encode_basic_auth lib user pass)
                         else Some (AuthRaw user (case pass of Some p \<Rightarrow> p | None \<Rightarrow> [])))
                        (\<lambda>auth. Some (finish host_port auth)))
              | None \<Rightarrow> Some (finish authority AuthEmpty)))))"

definition intercept_basic_auth :: "'u proxy_intercept \<Rightarrow> header_value option" where
  "intercept_basic_auth ic = (case ic_auth ic of AuthBasic v \<Rightarrow> Some (fst v) | _ \<Rightarrow> None)"

definition intercept_raw_auth :: "'u proxy_intercept \<Rightarrow> (bytes \<times> bytes) option" where
  "intercept_raw_auth ic = (case ic_auth ic of AuthRaw u p \<Rightarrow> Some (u, p) | _ \<Rightarrow> None)"

subsection \<open>Building a matcher\<close>

datatype env_value = EnvUnicode bytes | EnvOther

type_synonym proxy_env = "string \<Rightarrow> env_value option"

fun get_first_env :: "proxy_env \<Rightarrow> string list \<Rightarrow> bytes" where
  "get_first_env env [] = []"
| "get_first_env env (name # names) =
     (case env name of Some (EnvUnicode val) \<Rightarrow> val | _ \<Rightarrow> get_first_env env names)"

definition builder_default :: proxy_builder where
  "builder_default = \<lparr>pb_is_cgi = False, pb_all = [], pb_http = [], pb_https = [], pb_no = []\<rparr>"

definition builder_from_env :: "proxy_env \<Rightarrow> proxy_builder" where
  "builder_from_env env =
     \<lparr>pb_is_cgi = (env ''REQUEST_METHOD'' \<noteq> None),
      pb_all = get_first_env env [''ALL_PROXY'', ''all_proxy''],
      pb_http = get_first_env env [''HTTP_PROXY'', ''http_proxy''],
      pb_https = get_first_env env [''HTTPS_PROXY'', ''https_proxy''],
      pb_no = get_first_env env [''NO_PROXY'', ''no_proxy'']\<rparr>"

definition builder_build ::
  "('u, 's, 'n) proxy_lib \<Rightarrow> proxy_builder \<Rightarrow> ('u, 'n) proxy_matcher option" where
  "builder_build lib b =
     (if pb_is_cgi b then Some \<lparr>pm_http = None, pm_https = None, pm_no = no_proxy_empty\<rparr>
      else
        Option.bind (parse_env_uri lib (pb_all b)) (\<lambda>all.
        Option.bind (parse_env_uri lib (pb_http b)) (\<lambda>http.
        Option.bind (parse_env_uri lib (pb_https b)) (\<lambda>https.
          Some \<lparr>pm_http = (case http of None \<Rightarrow> all | Some _ \<Rightarrow> http),
                pm_https = (case https of None \<Rightarrow> all | Some _ \<Rightarrow> https),
                pm_no = no_proxy_from_string lib (pb_no b)\<rparr>))))"

definition matcher_intercept ::
  "('u, 's, 'n) proxy_lib \<Rightarrow> ('u, 'n) proxy_matcher \<Rightarrow> 'u \<Rightarrow> 'u proxy_intercept option option" where
  "matcher_intercept lib m dst =
     (case uri_host lib dst of
        None \<Rightarrow> Some None
      | Some host \<Rightarrow>
          Option.bind (no_proxy_contains lib (pm_no m) host) (\<lambda>c.
            Some (if c then None
                  else case map_option (scheme_str lib) (uri_scheme lib dst) of
                    Some s \<Rightarrow>
                      (if s = ascii ''http'' then pm_http m
                       else if s = ascii ''https'' then pm_https m else None)
                  | None \<Rightarrow> None)))"

subsection \<open>The Python class\<close>

definition proxy_from_env ::
  "('u, 's, 'n) proxy_lib \<Rightarrow> proxy_env \<Rightarrow> ('u, 'n) proxy_matcher option" where
  "proxy_from_env lib env = builder_build lib (builder_from_env env)"

definition proxy_from_parts ::
  "('u, 's, 'n) proxy_lib \<Rightarrow> bytes option \<Rightarrow> bytes option \<Rightarrow> bytes option \<Rightarrow> bytes option
     \<Rightarrow> ('u, 'n) proxy_matcher option" where
  "proxy_from_parts lib all http https no =
     (let b0 = builder_default;
          b1 = (case all of Some v \<Rightarrow> b0\<lparr>pb_all := v\<rparr> | None \<Rightarrow> b0);
          b2 = (case http of Some v \<Rightarrow> b1\<lparr>pb_http := v\<rparr> | None \<Rightarrow> b1);
          b3 = (case https of Some v \<Rightarrow> b2\<lparr>pb_https := v\<rparr> | None \<Rightarrow> b2);
          b4 = (case no of Some v \<Rightarrow> b3\<lparr>pb_no := v\<rparr> | None \<Rightarrow> b3)
      in builder_build lib b4)"

definition proxy_intercept_url ::
  "('u, 's, 'n) proxy_lib \<Rightarrow> ('u, 'n) proxy_matcher \<Rightarrow> bytes \<Rightarrow> 'u proxy_intercept option option" where
  "proxy_intercept_url lib m url =
     (case uri_parse lib url of None \<Rightarrow> Some None | Some uri \<Rightarrow> matcher_intercept lib m uri)"

definition intercept_uri_text :: "('u, 's, 'n) proxy_lib \<Rightarrow> 'u proxy_intercept \<Rightarrow> bytes" where
  "intercept_uri_text lib ic = uri_string lib (ic_uri ic)"

definition intercept_basic_text :: "('u, 's, 'n) proxy_lib \<Rightarrow> 'u proxy_intercept \<Rightarrow> bytes option" where
  "intercept_basic_text lib ic = Option.bind (intercept_basic_auth ic) (value_to_str lib)"

end
