(* ===== verification/Proxy_Rules.thy ===== *)
theory Proxy_Rules
  imports Proxy_Matcher
begin

section \<open>What the proxy matcher decides\<close>

text \<open>
  The rules of \<open>NO_PROXY\<close> and the choice of a proxy as a reader of the documentation would state them;
  the loops and byte offsets of the matcher decide the same.
\<close>

subsection \<open>Domains\<close>

definition no_dot :: "bytes \<Rightarrow> bytes" where
  "no_dot d = (if d \<noteq> [] \<and> hd d = 46 then tl d else d)"

text \<open>\<open>host\<close> is the domain \<open>d\<close> or below it; a leading dot of \<open>d\<close> and the case of letters do not matter.\<close>

definition domain_named :: "bytes \<Rightarrow> bytes \<Rightarrow> bool" where
  "domain_named d host \<longleftrightarrow> str_eq_ignore_case (no_dot d) host
     \<or> suffix (map byte_lower (46 # no_dot d)) (map byte_lower host)"

text \<open>The star matches every host, except one that ends in a star itself: there the loop takes the star
  for the end of a domain and goes on to the next entry.\<close>

definition domain_rule :: "bytes \<Rightarrow> bytes \<Rightarrow> bool" where
  "domain_rule d host \<longleftrightarrow> domain_named d host
     \<or> d = ascii ''*'' \<and> \<not> suffix (ascii ''*'') host"

lemma byte_lower_star [simp]: "byte_lower b = 42 \<longleftrightarrow> b = 42"
  using unat_byte_lower [of b] by (auto simp: word_unat_eq_iff split: if_splits)

lemma byte_lower_fixed [simp]:
  "byte_lower 42 = 42" "byte_lower 46 = 46" "42 = byte_lower b \<longleftrightarrow> b = 42" "46 = byte_lower b \<longleftrightarrow> b = 46"
  using byte_lower_star byte_lower_dot by metis+

lemma suffix_drop_iff:
  "suffix xs ys \<longleftrightarrow> length xs \<le> length ys \<and> drop (length ys - length xs) ys = xs"
proof
  show "suffix xs ys \<Longrightarrow> length xs \<le> length ys \<and> drop (length ys - length xs) ys = xs"
    by (auto simp: suffix_def)
  show "length xs \<le> length ys \<and> drop (length ys - length xs) ys = xs \<Longrightarrow> suffix xs ys"
    by (metis suffix_drop)
qed

lemma lower_suffix:
  "suffix (map byte_lower d) (map byte_lower h)
    \<longleftrightarrow> length d \<le> length h \<and> map byte_lower (drop (length h - length d) h) = map byte_lower d"
  by (simp add: suffix_drop_iff drop_map)

lemma lower_suffix_star: "suffix (map byte_lower (ascii ''*'')) (map byte_lower h) = suffix (ascii ''*'') h"
  by (cases h rule: rev_cases) (simp_all add: ascii_def)

lemma tail_match:
  assumes "d \<noteq> [] \<longrightarrow> is_char_start (hd d)"
  shows "(case str_get_from (length host - length d) host of
      Some s \<Rightarrow> str_eq_ignore_case s d | None \<Rightarrow> False)
    \<longleftrightarrow> suffix (map byte_lower d) (map byte_lower host)" (is "?get \<longleftrightarrow> ?suf")
proof
  let ?i = "length host - length d"
  assume ?get
  then have "map byte_lower (drop ?i host) = map byte_lower d"
    by (auto simp: str_get_from_def str_eq_ignore_case_def split: if_splits)
  then show ?suf by (metis drop_map suffix_drop)
next
  let ?i = "length host - length d"
  assume ?suf
  then have len: "length d \<le> length host" and eq: "map byte_lower (drop ?i host) = map byte_lower d"
    by (simp_all add: lower_suffix)
  have "is_char_start (host ! ?i)" if "?i < length host"
  proof -
    have ne: "d \<noteq> []" using that by auto
    have "drop ?i host = host ! ?i # drop (Suc ?i) host" using that by (rule Cons_nth_drop_Suc [symmetric])
    then have "byte_lower (host ! ?i) = byte_lower (hd d)" using eq ne by (cases d) auto
    then show ?thesis using byte_lower_start assms ne by blast
  qed
  moreover have "?i = length host \<or> ?i < length host" using len by linarith
  ultimately show ?get using eq by (auto simp: str_get_from_def str_eq_ignore_case_def)
qed

lemma dot_before:
  assumes "suffix (map byte_lower d) (map byte_lower host)" and "length d < length host"
  shows "host ! (length host - length d - 1) = 46
    \<longleftrightarrow> suffix (map byte_lower (46 # d)) (map byte_lower host)"
proof -
  let ?i = "length host - length d - 1"
  have i: "?i < length host" "Suc ?i = length host - length d" using assms(2) by auto
  have "drop ?i host = host ! ?i # drop (length host - length d) host"
    using Cons_nth_drop_Suc [OF i(1)] i(2) by simp
  moreover have "map byte_lower (drop (length host - length d) host) = map byte_lower d"
    using assms(1) by (simp add: lower_suffix)
  moreover have "byte_lower 46 = 46" by simp
  ultimately show ?thesis using assms(2) by (simp only: lower_suffix) auto
qed

lemma domain_rule_suffix:
  assumes "suffix (map byte_lower d) (map byte_lower host)" and "\<not> str_eq_ignore_case (no_dot d) host"
  shows "domain_rule d host
    \<longleftrightarrow> d \<noteq> [] \<and> hd d = 46 \<or> suffix (map byte_lower (46 # d)) (map byte_lower host)"
proof (cases "d \<noteq> [] \<and> hd d = 46")
  case True
  then obtain s where "d = 46 # s" by (cases d) auto
  then show ?thesis using assms(1) by (simp add: domain_rule_def domain_named_def no_dot_def)
next
  case False
  then show ?thesis
    using assms lower_suffix_star [of host] by (auto simp: domain_rule_def domain_named_def no_dot_def)
qed

lemma domain_rule_no_suffix:
  assumes "\<not> suffix (map byte_lower d) (map byte_lower host)" and "\<not> str_eq_ignore_case (no_dot d) host"
  shows "domain_rule d host \<longleftrightarrow> d = ascii ''*''"
proof -
  have "\<not> suffix (map byte_lower (46 # no_dot d)) (map byte_lower host)"
  proof (cases "d \<noteq> [] \<and> hd d = 46")
    case True
    then obtain s where "d = 46 # s" by (cases d) auto
    then show ?thesis using assms(1) by (simp add: no_dot_def)
  next
    case False
    then show ?thesis using assms(1) by (auto simp: no_dot_def suffix_Cons dest: suffix_ConsD)
  qed
  then show ?thesis using assms lower_suffix_star [of host] by (auto simp: domain_rule_def domain_named_def)
qed

lemma domain_matcher_spec:
  assumes "\<forall>d \<in> set ds. d \<noteq> [] \<longrightarrow> is_char_start (hd d)"
  shows "domain_matcher_contains ds host = Some (\<exists>d \<in> set ds. domain_rule d host)"
  using assms
proof (induction ds)
  case (Cons d ds)
  let ?suf = "suffix (map byte_lower d) (map byte_lower host)"
  have IH: "domain_matcher_contains ds host = Some (\<exists>d \<in> set ds. domain_rule d host)" using Cons by simp
  have tail: "(case str_get_from (length host - length d) host of
      Some s \<Rightarrow> str_eq_ignore_case s d | None \<Rightarrow> False) \<longleftrightarrow> ?suf"
    by (rule tail_match) (use Cons.prems in simp)
  have first: "str_eq_ignore_case d host
      \<or> (case str_strip_prefix 46 d of Some s \<Rightarrow> str_eq_ignore_case s host | None \<Rightarrow> False)
    \<longleftrightarrow> str_eq_ignore_case d host \<or> str_eq_ignore_case (no_dot d) host"
    by (auto simp: str_strip_prefix_def no_dot_def split: list.splits)
  show ?case
  proof (cases "str_eq_ignore_case d host \<or> str_eq_ignore_case (no_dot d) host")
    case True
    then have "domain_named d host"
      by (cases d) (auto simp: domain_named_def no_dot_def str_eq_ignore_case_def)
    then show ?thesis unfolding domain_matcher_contains.simps first using True by (simp add: domain_rule_def)
  next
    case no: False
    then have no2: "\<not> str_eq_ignore_case (no_dot d) host" by simp
    show ?thesis
    proof (cases ?suf)
      case True
      then have "length d \<noteq> length host" using no by (auto simp: lower_suffix str_eq_ignore_case_def)
      then have len: "length d < length host" using True by (simp add: lower_suffix)
      show ?thesis
        unfolding domain_matcher_contains.simps first tail
        using no True len dot_before [OF True len] domain_rule_suffix [OF True no2] IH by auto
    next
      case False
      then show ?thesis
        unfolding domain_matcher_contains.simps first tail
        using no domain_rule_no_suffix [OF False no2] IH by auto
    qed
  qed
qed simp

text \<open>The subtraction never underflows, whatever the entries.\<close>

lemma domain_matcher_returns: "domain_matcher_contains ds host \<noteq> None"
proof (induction ds)
  case (Cons d ds)
  let ?tail = "str_get_from (length host - length d) host"
  have len: "length d < length host"
    if "\<not> str_eq_ignore_case d host" and "?tail = Some s" "str_eq_ignore_case s d" for s
  proof -
    have s: "s = drop (length host - length d) host" using that(2) by (auto simp: str_get_from_def split: if_splits)
    have "length s = length d" using that(3) by (metis str_eq_ignore_case_def length_map)
    then have "length d \<le> length host" using s by simp
    moreover have "length d \<noteq> length host" using that(1,3) s by (auto simp: str_eq_ignore_case_def)
    ultimately show ?thesis by simp
  qed
  consider (same) "str_eq_ignore_case d host" | (tail) s where "\<not> str_eq_ignore_case d host" "?tail = Some s" "str_eq_ignore_case s d"
    | (no_tail) "(case ?tail of Some s \<Rightarrow> str_eq_ignore_case s d | None \<Rightarrow> False) = False" by (cases ?tail) auto
  moreover have yes: "\<exists>y. y" by blast
  ultimately show ?case
  proof cases
    case same
    then show ?thesis by simp
  next
    case tail
    then show ?thesis using Cons.IH len [OF tail] yes by simp
  next
    case no_tail
    then show ?thesis unfolding domain_matcher_contains.simps using Cons.IH yes by simp
  qed
qed simp

subsection \<open>Entries\<close>

text \<open>A host that is an address is compared with the addresses and networks of the list only, any other
  host with its remaining entries.\<close>

definition host_bypassed :: "('u, 's, 'n) proxy_lib \<Rightarrow> bytes list \<Rightarrow> bytes \<Rightarrow> bool" where
  "host_bypassed lib entries host0 =
     (let host = strip_ipv6_brackets host0
      in case ip_addr_parse host of
           Some ip \<Rightarrow>
             (\<exists>e \<in> set entries. case net_parse lib e of
                Some net \<Rightarrow> net_contains lib net ip | None \<Rightarrow> ip_addr_parse e = Some ip)
         | None \<Rightarrow>
             (\<exists>e \<in> set entries. e \<noteq> [] \<and> net_parse lib e = None \<and> ip_addr_parse e = None
                \<and> domain_rule e host))"

definition no_proxy_entries :: "bytes \<Rightarrow> bytes list" where
  "no_proxy_entries s = map str_trim (split_on 44 s)"

lemma no_proxy_parts_spec:
  assumes "\<forall>e \<in> set parts. str_trim e = e"
  shows "no_proxy_parts lib parts ips domains =
    \<lparr>np_ips = ips @ List.map_filter (\<lambda>e. case net_parse lib e of Some net \<Rightarrow> Some (IpNetwork net)
        | None \<Rightarrow> map_option IpAddress (ip_addr_parse e)) parts,
     np_domains = domains @ filter (\<lambda>e. e \<noteq> [] \<and> net_parse lib e = None \<and> ip_addr_parse e = None) parts\<rparr>"
  using assms
  by (induction parts arbitrary: ips domains) (auto simp: map_filter_simps split: option.split)

lemma ip_matcher_spec:
  "ip_matcher_contains lib ips ip \<longleftrightarrow>
    (\<exists>r \<in> set ips. case r of IpAddress a \<Rightarrow> ip = a | IpNetwork net \<Rightarrow> net_contains lib net ip)"
  by (induction lib ips ip rule: ip_matcher_contains.induct) auto

lemma no_proxy_contains_spec:
  assumes "utf8 s"
  shows "no_proxy_contains lib (no_proxy_from_string lib s) host
    = Some (host_bypassed lib (no_proxy_entries s) host)"
proof -
  let ?es = "map str_trim (split_on 44 s)"
  have "\<forall>e \<in> set ?es. str_trim e = e" by (auto simp: str_trim_idem)
  note parts = no_proxy_parts_spec [OF this, of lib "[]" "[]"]
  show ?thesis
  proof (cases "ip_addr_parse (strip_ipv6_brackets host)")
    case None
    have "\<forall>d \<in> set (filter (\<lambda>e. e \<noteq> [] \<and> net_parse lib e = None \<and> ip_addr_parse e = None) ?es).
        d \<noteq> [] \<longrightarrow> is_char_start (hd d)"
      using trimmed_part_start [OF assms] by auto
    from domain_matcher_spec [OF this] None show ?thesis
      by (auto simp: no_proxy_contains_def no_proxy_from_string_def parts host_bypassed_def no_proxy_entries_def)
  next
    case (Some ip)
    then show ?thesis
      by (force simp: no_proxy_contains_def no_proxy_from_string_def parts host_bypassed_def no_proxy_entries_def
          ip_matcher_spec map_filter_def split: option.splits)
  qed
qed

subsection \<open>The choice\<close>

text \<open>\<open>expect("base64 is always valid HeaderValue")\<close>.\<close>

definition base64_is_value :: "('u, 's, 'n) proxy_lib \<Rightarrow> bool" where
  "base64_is_value lib \<longleftrightarrow> (\<forall>x. value_from_bytes lib (ascii ''Basic '' @ base64 lib x) \<noteq> None)"

lemma encode_basic_auth_returns: "base64_is_value lib \<Longrightarrow> \<exists>v. encode_basic_auth lib user pass = Some v"
  by (auto simp: base64_is_value_def encode_basic_auth_def)

lemma parse_env_uri_returns:
  assumes "base64_is_value lib" shows "\<exists>r. parse_env_uri lib val = Some r"
proof -
  have "\<exists>r. Option.bind (map_option AuthBasic (encode_basic_auth lib user pass)) (\<lambda>auth. Some (f auth)) = Some r"
    for user pass and f :: "proxy_auth \<Rightarrow> 'd"
    using encode_basic_auth_returns [OF assms, of user pass] by auto
  then show ?thesis by (auto simp: parse_env_uri_def Let_def split: option.split prod.split)
qed

text \<open>The first setting that names a usable proxy.\<close>

fun first_proxy :: "('u, 's, 'n) proxy_lib \<Rightarrow> bytes list \<Rightarrow> 'u proxy_intercept option" where
  "first_proxy lib [] = None"
| "first_proxy lib (s # ss) =
     (case parse_env_uri lib s of Some (Some ic) \<Rightarrow> Some ic | _ \<Rightarrow> first_proxy lib ss)"

definition builder_choice :: "('u, 's, 'n) proxy_lib \<Rightarrow> proxy_builder \<Rightarrow> 'u \<Rightarrow> 'u proxy_intercept option" where
  "builder_choice lib b dst =
     (if pb_is_cgi b then None
      else case uri_host lib dst of
        None \<Rightarrow> None
      | Some host \<Rightarrow>
          (if host_bypassed lib (no_proxy_entries (pb_no b)) host then None
           else if map_option (scheme_str lib) (uri_scheme lib dst) = Some (ascii ''http'')
           then first_proxy lib [pb_http b, pb_all b]
           else if map_option (scheme_str lib) (uri_scheme lib dst) = Some (ascii ''https'')
           then first_proxy lib [pb_https b, pb_all b]
           else None))"

lemma builder_choice_made:
  assumes "base64_is_value lib" and "utf8 (pb_no b)"
  shows "\<exists>m. builder_build lib b = Some m \<and> (\<forall>dst. matcher_intercept lib m dst = Some (builder_choice lib b dst))"
proof (cases "pb_is_cgi b")
  case True
  have "no_proxy_contains lib no_proxy_empty host = Some False" for host
    by (simp add: no_proxy_contains_def no_proxy_empty_def Let_def split: option.split)
  then show ?thesis
    using True by (auto simp: builder_build_def builder_choice_def matcher_intercept_def split: option.split)
next
  case False
  obtain a h hs where r: "parse_env_uri lib (pb_all b) = Some a" "parse_env_uri lib (pb_http b) = Some h"
    "parse_env_uri lib (pb_https b) = Some hs"
    using parse_env_uri_returns [OF assms(1)] by metis
  show ?thesis
    using False no_proxy_contains_spec [OF assms(2), of lib]
    by (auto simp: builder_build_def r builder_choice_def matcher_intercept_def ascii_def split: option.split)
qed

end
