(* ===== verification/Properties_Proxy.thy ===== *)
theory Properties_Proxy
  imports Proxy_Rules
begin

section \<open>Properties of the proxy matcher\<close>

text \<open>
  Which requests bypass the proxy, which proxy the others use, and what becomes of the credentials in
  a proxy's URL; each with an example.
\<close>












end
