(* ===== verification/Spec2Isabelle.thy ===== *)
theory Spec2Isabelle
  imports Conn_No_Panic Properties_Streams Properties_Codec Properties_H1 Properties_Hpack Properties_Session
    Properties_Proxy
begin

text \<open>
  httpunk is an HTTP/1.1 and HTTP/2 protocol engine for Python, written in Rust. It does no I/O: the
  transport hands it the bytes it read and takes the bytes it must write. This development models
  both engines: the Rust classes of src/h2/ with the parts of the vendored h2 crate
  (crates/vendor-h2/src/) they are built from, and those of src/h1/ with the parts of the
  vendored hyper crate (crates/vendor-hyper/src/). Paths are relative to the repository.

  HTTP/2. The read pump passes bytes to the frame decoder (\<open>receive_frames\<close>), which keeps an
  unparsed rest, assembles header blocks and yields events. Each event goes to the handler of the
  connection state (\<open>H2Streams\<close>) for its kind. The application calls the same object to open
  streams, to send heads, data and trailers and to give receive capacity back. The handlers append
  encoded frames to a buffer that the write pump takes. Every method of \<open>H2Streams\<close> holds one mutex
  from start to end, so a method is one function from the state to the state with its result, and
  any interleaving of threads is a sequence of such calls.

  HTTP/1. A connection has one codec (\<open>H1Codec\<close>: the read buffer and the framing of the current
  message) and one state (\<open>H1ServerState\<close> or \<open>H1ClientState\<close>, again under one mutex). The driver
  feeds what it reads to the codec until a head is complete, then to a body decoder of the kind the
  head names; it writes heads and body chunks the codec serializes. The state decides who may read
  the transport, whether the connection is reused, and who gets the transport in the end.

  Proxies. \<open>ProxyMatcher\<close> (src/proxy.rs) is built once, from the environment or from strings, and then
  only asked which proxy the request for a URL goes through. Connecting to it is left to Python.

  Theories, from the bottom up:

  \<^item> \<open>Prelude\<close>: machine types, Rust's fixed-width arithmetic, byte order, result values, the
    association lists that stand for hash maps (locale \<open>keyed_store\<close>), the two shapes of
    reasoning on sequences of operations (locales \<open>preserved\<close> and \<open>metered\<close>) and on readers fed in
    pieces (\<open>incremental\<close>, \<open>incremental_failing\<close>). \<open>Http_Headers\<close>: the header map of the crate http.
    \<open>Http_Map\<close>: Python's \<open>HeaderMap\<close> and \<open>uri_parts\<close> (src/http/mod.rs), and the contract of a multimap.
  \<^item> \<open>H2_Errors\<close>: reason codes, protocol and user errors, the Python exceptions.
  \<^item> \<open>Flow_Control\<close>, \<open>Stream_State\<close>, \<open>Stream_Counts\<close>, \<open>Settings_Sync\<close>: the state of one
    window, one stream, one body length and DATA budget, one SETTINGS exchange. Lemmas: ranges of
    the counters under every sequence of operations, the state machine as a refinement of the
    diagram of RFC 9113 5.1, amortised bounds of the budget.
  \<^item> \<open>Frame_Wire\<close>, \<open>Frame_Encoder\<close>, \<open>Hpack_Decode\<close>, \<open>Frame_Decoder\<close>: the bytes. Lemmas: round
    trips, splitting of header blocks, table bounds, no panic. \<open>Frame_Stream\<close> lifts them to
    whole byte streams, \<open>Frame_Events\<close> bounds every value of every event.
  \<^item> \<open>Huffman_Table\<close>, \<open>Huffman_Encode\<close>, \<open>Huffman_Decode\<close> (hpack/huffman/): the tables of the
    source, the encoder, the decoder and its reference. \<open>Huffman_Correct\<close>: the byte-wise tables find
    the code at the top of the window; \<open>Huffman_Fast\<close>: every entry of the table of symbol pairs is
    right; \<open>Huffman_Run\<close>: the loops follow the reference, and codes are read back.
  \<^item> \<open>Hpack_Table\<close> (hpack/table.rs): the encoder's table, slots with a Robin Hood hash map over their
    names. \<open>Hpack_Probe\<close>, \<open>Hpack_Grow\<close>: probing, removal, insertion and growth of the map;
    \<open>Hpack_Links\<close>, \<open>Hpack_Evict\<close>: the chains of slots of one name, and eviction; \<open>Hpack_Index\<close>: the
    invariant, and that every operation mirrors the decoder's table.
  \<^item> \<open>Hpack_Encode\<close> (hpack/encoder.rs), \<open>Hpack_Roundtrip\<close>: blocks and sessions read back.
    \<open>Hpack_Frames\<close>: the locale \<open>header_compressor\<close>, which the frame encoder relies on, interpreted
    by the encoder and decoder of the source.
  \<^item> \<open>H2_Codec\<close>: the class \<open>H2Codec\<close> of src/h2/codec.rs, decoder and encoder with the Python methods.
    \<open>Hpack_Chunks\<close>: the decoder on the prefix of a block; \<open>Frame_Headers\<close>: a header block that comes in
    CONTINUATION frames is the event of its headers. \<open>Codec_Calls\<close>: what a call writes is what the peer
    reads; \<open>Codec_Session\<close>: two codecs over a connection's life.
  \<^item> \<open>Conn_State\<close>, \<open>Conn_Reset\<close>, \<open>Conn_Recv\<close>, \<open>Conn_Send\<close>, \<open>Conn_Control\<close>: src/h2/conn.rs, the
    record \<open>inner\<close> with its methods in the order of the source.
  \<^item> \<open>Conn_Invariant\<close> and the four \<open>Conn_Preserve\<close> theories: the invariant \<open>conn_ok\<close> and its
    preservation. \<open>Conn_Run\<close>: all calls as one step function and their runs. \<open>Conn_Effects\<close>: what
    sending, failing and GOAWAY do. \<open>Conn_No_Panic\<close>: no call panics.
  \<^item> \<open>H1_Errors\<close> (hyper's error.rs, src/h1/errors.rs); \<open>H1_Body_Decode\<close> and \<open>H1_Body_Encode\<close>
    (proto/h1/decode.rs and encode.rs with their facade in proto/h1/httpunk.rs). \<open>H1_Body_Stream\<close>:
    draining a decoder as one scan of the bytes, so that the cuts between reads do not matter.
    \<open>H1_Body_Roundtrip\<close>: what the encoder writes is scanned back.
  \<^item> \<open>H1_Fields\<close> (headers.rs, body/length.rs), \<open>H1_Parse\<close> and \<open>H1_Head_Encode\<close> (proto/h1/role.rs):
    reading and writing heads. \<open>H1_Framing\<close> and \<open>H1_Head_Framing\<close>: what the fields of a message say
    of its body, and that both ends agree on it.
  \<^item> \<open>H1_Codec\<close> (src/h1/codec.rs), \<open>H1_Server\<close> and \<open>H1_Client\<close> (src/h1/conn.rs).
    \<open>H1_Server_Run\<close>: the server's calls as one step function and the invariant of its runs;
    \<open>H1_Server_Readers\<close>: who reads the transport.
  \<^item> \<open>Proxy_Text\<close> and \<open>Proxy_Addr\<close>: what the proxy matcher uses of the standard library, \<open>str\<close> as
    its UTF-8 bytes and the parser of IP addresses. \<open>Proxy_Matcher\<close> (hyper-util's
    client/proxy/matcher.rs, src/proxy.rs): settings, NO_PROXY lists, the choice of a proxy.
    \<open>Proxy_Rules\<close>: the same decisions as rules without loops and byte offsets.
  \<^item> \<open>Properties_Streams\<close>, \<open>Properties_Codec\<close>, \<open>Properties_Hpack\<close>, \<open>Properties_Session\<close>,
    \<open>Properties_H1\<close>, \<open>Properties_Proxy\<close> and this theory: the properties.

  Conventions. A Rust integer is a \<open>nat\<close> or \<open>int\<close> with its range in the invariant and every wrap
  or saturation written out; a byte is \<open>8 word\<close>. \<open>Result\<close> is a sum with the error on the left.
  A Python exception is a value of \<open>pyerr\<close> or \<open>h1_pyerr\<close>; a Rust panic is \<open>RustPanic\<close>, \<open>H1Panic\<close>,
  \<open>BodyPanic\<close> or \<open>None\<close>, so that "does not panic" is a statement and not a convention. Time is an
  argument of the calls that read the clock. Loops over bytes or queues are recursive functions with
  termination proofs, without fuel. A loop that ends only by an invariant of its data is a
  \<open>partial_function\<close> in the option monad, and that it returns is proved from the invariant: the probes
  of the HPACK table, the loops of the Huffman decoder, and \<open>client_parse\<close>, where the invariant is
  documented behaviour of the crate httparse. Counters that only grow by one per request (the server's \<open>next_seq\<close>) are unbounded.

  Arguments of the model. \<open>hpack_ops\<close>: the HPACK encoder as the frame encoder sees it; \<open>hpack_code\<close>
  is the one of the source. \<open>http_ops\<close> and \<open>hpack_lib\<close>: the URI and method parsers and the
  header-validity checks of the http crate, the cached date, and a Huffman decoder, which \<open>code_lib\<close>
  sets to the one of the source. \<open>name_hasher\<close>: the hash of a header name (crate fnv). \<open>h1_lib\<close>: httparse, which recognises the lines of
  a head, and the same parsers of the http crate; \<open>trailer_lib\<close>: httparse on a block of trailers.
  \<open>proxy_lib\<close>: the crates http (URIs), ipnet, percent-encoding and base64.

  Not modelled: the proxy settings of macOS and Windows (behind a feature that is off), the PyO3 bindings (argument conversion, wake-ups of Python
  futures; the flags that trigger them are modelled), text of \<open>Debug\<close> output inside error messages,
  server push beyond its refusal; and of hyper's roles what the facade never asks for: the case map
  of header names, HTTP/0.9 responses, custom reason phrases, the callback for interim responses.
\<close>

section \<open>Concrete inputs\<close>

text \<open>A server with the default windows, an encoder that writes one byte per header, and the library
  functions of the decoder cut down to constants: the inputs of the witnesses below.\<close>

definition sample_hpack :: "unit hpack_ops" where
  "sample_hpack = \<lparr>hpk_default = (), hpk_encode = (\<lambda>hs h. (h, map (\<lambda>_. 130) hs)),
     hpk_update_max_size = (\<lambda>_ h. h)\<rparr>"


definition sample_config :: config where
  "sample_config = \<lparr>cf_role = Server, cf_initial_window_size = 65535, cf_connection_window = 100000,
     cf_max_frame_size = None, cf_max_header_list_size = 16384, cf_max_send_buf_size = 400000,
     cf_max_concurrent_streams = Some 200, cf_max_pending_accept_reset_streams = 20,
     cf_max_local_error_reset_streams = None, cf_data_frame_budget = None, cf_auto_date_header = False,
     cf_enable_push = None, cf_header_table_size = None, cf_max_concurrent_reset_streams = None,
     cf_reset_stream_duration = None\<rparr>"



definition sample_data :: data_event where
  "sample_data = \<lparr>de_stream_id = 1, de_end_stream = True, de_data = [104, 101, 108, 108, 111],
     de_flow_controlled_len = 5, de_padding = 0\<rparr>"




section \<open>The connection\<close>












text \<open>The server of the samples with one open stream of eight bytes of send window.\<close>

definition sample_sending :: "unit inner" where
  "sample_sending = (inner_new sample_hpack sample_config)
     \<lparr>c_streams := [(1, (entry_new 7 8 65535 False)\<lparr>e_state := Open Streaming Streaming\<rparr>)], c_num_active := 1\<rparr>"

lemma sample_sending_ok: "conn_ok sample_sending"
  using conn_ok_insert(1) [OF conn_ok_new(1) [of sample_hpack sample_config], of 1
      "(entry_new 7 8 65535 False)\<lparr>e_state := Open Streaming Streaming\<rparr>"]
    entry_ok_new(1) [where sid = 1 and w = 8 and h = 7 and r = 65535 and m = False and st = "Open Streaming Streaming"]
  by (simp add: sample_sending_def inner_new_def entry_of_def entry_new_def usize_add_def slots_held_def
      slot_weight_def)


text \<open>C5: DATA from the peer and the application's release of it move receive capacity between the
  connection window and the streams, and lose none: the ledger (what the connection can still
  grant) is the same after a DATA frame, accepted or refused in any way, and after a release of
  what the reader took.\<close>

theorem receive_ledger_conserved:
  assumes "conn_ok s" and "data_event_ok f" and "may_release sid n s"
  shows "recv_total (fst (recv_data now f s)) = recv_total s
    \<and> recv_total (fst (release_capacity sid n s)) = recv_total s
    \<and> recv_total (release_data_frame sid len s) = recv_total s"
  using kept_recv_data [OF assms(2), of s now] kept_release_capacity [OF assms(3)]
    kept_release_data_frame [of s sid len] assms(1)
  by (simp add: kept_def)

theorem receive_ledger_conserved_witness:
  "recv_total (fst (recv_data 5 sample_data sample_sending)) = recv_total sample_sending"
  using receive_ledger_conserved [OF sample_sending_ok, of sample_data 1 0 5 0]
  by (simp add: sample_data_def data_event_ok_def may_release_def)



text \<open>C10: when the connection fails, no stream is left and none is counted, and exactly the
  streams that were still running are notified, once each, in the order of the store.\<close>

theorem fail_all_ends_streams:
  assumes "conn_ok s" and "fail_all s = (t, notified)"
  shows "c_streams t = [] \<and> c_num_active t = 0 \<and> conn_ok t
    \<and> map fst notified = open_handles (hm_keys (c_streams s)) s"
  using fail_all_empty [OF assms(1)] fail_all_notifies [OF assms(1)] shrunk_fail_all [of s] assms
  by (simp add: shrunk_def)

theorem fail_all_ends_streams_witness:
  "map fst (snd (fail_all sample_sending)) = [7] \<and> c_streams (fst (fail_all sample_sending)) = []"
  using fail_all_ends_streams [OF sample_sending_ok surjective_pairing]
  by (simp add: sample_sending_def entry_of_def entry_new_def)

text \<open>C11: a GOAWAY received by a client ends exactly the streams above its last identifier,
  notifies those of them that were running, and leaves every other stream as it was; a GOAWAY
  that raises the identifier of an earlier one is an error and changes nothing.\<close>

theorem go_away_ends_unprocessed:
  assumes "conn_ok s" and "c_role s = Client" and "H2Streams_recv_go_away f s = (t, r)"
  shows "if (case c_goaway_last_id s of Some prev \<Rightarrow> prev < ga_last_stream_id f | None \<Rightarrow> False)
    then t = s \<and> \<not> is_ok r
    else (\<forall>j. entry_of j t = (if ga_last_stream_id f < j then None else entry_of j s))
      \<and> (\<exists>out flags. r = Inr (out, flags) \<and> map fst out =
           open_handles (filter (\<lambda>i. ga_last_stream_id f < i) (hm_keys (c_streams s))) s)"
  using recv_go_away_raised [of s _ f] recv_go_away_accepted [OF assms(1,2), of f] assms(3)
  by (auto split: option.split)

definition sample_client :: "unit inner" where
  "sample_client = sample_sending\<lparr>c_role := Client\<rparr>"

lemma sample_client_ok: "conn_ok sample_client"
  using sample_sending_ok by (simp add: sample_client_def conn_ok_defs entry_of_def)

theorem go_away_ends_unprocessed_witness:
  "entry_of 1 (fst (H2Streams_recv_go_away \<lparr>ga_last_stream_id = 0, ga_error_code = 0, ga_debug_data = []\<rparr>
       sample_client)) = None
   \<and> entry_of 1 sample_client \<noteq> None"
  using go_away_ends_unprocessed [OF sample_client_ok _ surjective_pairing,
      of "\<lparr>ga_last_stream_id = 0, ga_error_code = 0, ga_debug_data = []\<rparr>"]
  by (simp add: sample_client_def sample_sending_def inner_new_def sample_config_def entry_of_def)




text \<open>A slot for a new stream is granted exactly while the open streams are below the peer's
  MAX\_CONCURRENT\_STREAMS (or no limit is known), and a granted claim is counted.\<close>

theorem slot_claims_respect_limit:
  assumes "try_claim_slot s = (t, granted)" and "c_num_open_streams s + 1 < 2 ^ 64"
  shows "(granted \<longleftrightarrow> (case c_stream_limit s of Some lim \<Rightarrow> c_num_open_streams s < lim | None \<Rightarrow> True))
    \<and> c_num_open_streams t = c_num_open_streams s + (if granted then 1 else 0)
    \<and> c_streams t = c_streams s"
  using claim_below_limit(1,2) [OF assms] assms(1)
  by (auto simp: try_claim_slot_def split: option.split if_splits)

theorem slot_claims_respect_limit_witness:
  "snd (try_claim_slot (sample_client\<lparr>c_stream_limit := Some 0\<rparr>)) = False"
proof -
  have "c_num_open_streams (sample_client\<lparr>c_stream_limit := Some 0\<rparr>) = 0"
    by (simp add: sample_client_def sample_sending_def inner_new_def)
  with slot_claims_respect_limit [OF surjective_pairing, of "sample_client\<lparr>c_stream_limit := Some 0\<rparr>"]
  show ?thesis by simp
qed

end
